(* ===== verification/Prelude.thy ===== *)
theory Prelude
  imports Complex_Main "HOL-Library.Word" "HOL-Library.Signed_Division" "HOL-Library.Monad_Syntax"
begin

text \<open>
  Shared vocabulary of the development.

  A \<open>Vector\<close> or \<open>LargeVector\<close> of the library (an Eigen array of doubles) is a list of reals;
  an \<open>IndexVector\<close> is a list of naturals. Doubles are read as real numbers wherever the code
  keeps them finite: rounding, overflow to infinity and signed zeros are not modelled. Where the
  code divides by a value that can be zero, or tests for NaN, the type \<open>dbl\<close> below is used,
  which adds the two infinities and NaN to the reals with the IEEE rules for them.

  \<open>size_t\<close> values are naturals; where an expression of the code can go below zero the
  wrap-around to \<open>2 ^ 64 - 1\<close> is written out (\<open>sz_pred\<close>).
\<close>

type_synonym dvec = "real list"
type_synonym ivec = "nat list"

named_theorems grl_simps \<open>rewrite rules for the operations of the model\<close>
named_theorems grl_inv \<open>preservation of the components' invariants\<close>

section \<open>size\_t arithmetic\<close>

definition size_max :: nat where
  "size_max = 2 ^ 64 - 1"

definition sz_pred :: "nat \<Rightarrow> nat" where
  "sz_pred n = (if n = 0 then size_max else n - 1)"

lemma sz_pred_Suc [simp]: "sz_pred (Suc n) = n"
  by (simp add: sz_pred_def)

lemma sz_pred_pos: "0 < n \<Longrightarrow> sz_pred n = n - 1"
  by (simp add: sz_pred_def)

section \<open>Doubles with infinities and NaN\<close>

datatype dbl = Fin real | Inf bool | NaN

fun d_isnan :: "dbl \<Rightarrow> bool" where
  "d_isnan NaN = True"
| "d_isnan _ = False"

fun d_isfin :: "dbl \<Rightarrow> bool" where
  "d_isfin (Fin _) = True"
| "d_isfin _ = False"

fun d_val :: "dbl \<Rightarrow> real" where
  "d_val (Fin a) = a"
| "d_val _ = 0"

fun d_neg :: "dbl \<Rightarrow> dbl" where
  "d_neg (Fin a) = Fin (- a)"
| "d_neg (Inf s) = Inf (\<not> s)"
| "d_neg NaN = NaN"

fun d_add :: "dbl \<Rightarrow> dbl \<Rightarrow> dbl" where
  "d_add (Fin a) (Fin b) = Fin (a + b)"
| "d_add (Fin _) (Inf s) = Inf s"
| "d_add (Inf s) (Fin _) = Inf s"
| "d_add (Inf s) (Inf t) = (if s = t then Inf s else NaN)"
| "d_add _ _ = NaN"

fun d_mul :: "dbl \<Rightarrow> dbl \<Rightarrow> dbl" where
  "d_mul (Fin a) (Fin b) = Fin (a * b)"
| "d_mul (Fin a) (Inf s) = (if a = 0 then NaN else Inf (s = (0 < a)))"
| "d_mul (Inf s) (Fin b) = (if b = 0 then NaN else Inf (s = (0 < b)))"
| "d_mul (Inf s) (Inf t) = Inf (s = t)"
| "d_mul _ _ = NaN"

text \<open>Division; a zero divisor counts as a positive zero.\<close>

fun d_div :: "dbl \<Rightarrow> dbl \<Rightarrow> dbl" where
  "d_div (Fin a) (Fin b) =
     (if b = 0 then (if a = 0 then NaN else Inf (0 < a)) else Fin (a / b))"
| "d_div (Fin _) (Inf _) = Fin 0"
| "d_div (Inf s) (Fin b) = Inf (s = (0 \<le> b))"
| "d_div _ _ = NaN"

text \<open>Comparisons; every comparison with NaN is false.\<close>

fun d_less :: "dbl \<Rightarrow> dbl \<Rightarrow> bool" where
  "d_less (Fin a) (Fin b) = (a < b)"
| "d_less (Fin _) (Inf s) = s"
| "d_less (Inf s) (Fin _) = (\<not> s)"
| "d_less (Inf s) (Inf t) = (\<not> s \<and> t)"
| "d_less _ _ = False"

lemma d_add_NaN [simp]: "d_add NaN x = NaN" "d_add x NaN = NaN"
  by (cases x; simp)+

lemma d_mul_NaN [simp]: "d_mul NaN x = NaN" "d_mul x NaN = NaN"
  by (cases x; simp)+

lemma d_div_NaN [simp]: "d_div NaN x = NaN" "d_div x NaN = NaN"
  by (cases x; simp)+

lemma d_less_NaN [simp]: "\<not> d_less NaN x" "\<not> d_less x NaN"
  by (cases x; simp)+

lemma d_isfin_iff: "d_isfin x \<longleftrightarrow> (\<exists>a. x = Fin a)"
  by (cases x) auto

text \<open>The conversion of a double to an integer drops the fraction.\<close>

definition c_trunc :: "real \<Rightarrow> int" where
  "c_trunc x = (if 0 \<le> x then \<lfloor>x\<rfloor> else \<lceil>x\<rceil>)"

section \<open>Results\<close>

text \<open>Sequencing of computations that may end in an error.\<close>

fun chain :: "'e + 'a \<Rightarrow> ('a \<Rightarrow> 'e + 'b) \<Rightarrow> 'e + 'b" where
  "chain (Inl e) f = Inl e"
| "chain (Inr x) f = f x"

lemma chain_Inr: "chain m f = Inr y \<longleftrightarrow> (\<exists>x. m = Inr x \<and> f x = Inr y)"
  by (cases m) auto

lemma chain_Inl: "chain m f = Inl e \<longleftrightarrow> m = Inl e \<or> (\<exists>x. m = Inr x \<and> f x = Inl e)"
  by (cases m) auto

section \<open>Lists\<close>

text \<open>The values of a list of computations, if all of them have one.\<close>

fun option_list :: "'a option list \<Rightarrow> 'a list option" where
  "option_list [] = Some []"
| "option_list (x # xs) = do { y \<leftarrow> x; ys \<leftarrow> option_list xs; Some (y # ys) }"

lemma option_list_Some:
  "option_list xs = Some ys \<longleftrightarrow> length xs = length ys \<and> (\<forall>i < length ys. xs ! i = Some (ys ! i))"
proof (induction xs arbitrary: ys)
  case (Cons x xs)
  show ?case
  proof (cases ys)
    case (Cons y ys')
    then show ?thesis
      using Cons.IH [of ys'] by (auto simp: bind_eq_Some_conv All_less_Suc2)
  qed (auto simp: bind_eq_Some_conv)
qed auto

lemma sum_list_nonneg_take:
  fixes xs :: dvec
  assumes "\<forall>x \<in> set xs. 0 \<le> x"
  shows "sum_list (take n xs) \<le> sum_list xs"
proof -
  have "sum_list xs = sum_list (take n xs) + sum_list (drop n xs)"
    by (metis append_take_drop_id sum_list_append)
  moreover have "0 \<le> sum_list (drop n xs)"
    using assms by (intro sum_list_nonneg) (auto dest: in_set_dropD)
  ultimately show ?thesis by simp
qed

lemma prod_list_append_real [simp]:
  "prod_list (xs @ ys) = prod_list xs * prod_list (ys :: real list)"
  by (induction xs) auto

lemma prod_list_pos: "\<forall>x \<in> set xs. 0 < x \<Longrightarrow> 0 < prod_list (xs :: real list)"
  by (induction xs) auto

lemma set_list_updateD: "x \<in> set (xs[i := y]) \<Longrightarrow> x = y \<or> x \<in> set xs"
  using set_update_subset_insert by fastforce

end
