(* ===== verification/Utils.thy ===== *)
theory Utils
  imports Prelude
begin

text \<open>
  The small utility functions and classes of \<open>base/include/grl/utils.h\<close>: the non-negative
  modulus, the random number generator (the 48-bit linear congruential generator that POSIX
  defines for \<open>srand48\_r\<close>, \<open>drand48\_r\<close> and \<open>lrand48\<close>), sampling from a discrete
  distribution with and without replacement, the bounded FIFO sampler, squashing, and substring
  replacement and tokenising.

  A division or modulus by zero traps; it is \<open>None\<close> here.
\<close>

section \<open>Modulus\<close>

text \<open>\<open>X % Y\<close> truncates towards zero, as \<open>smod\<close> does.\<close>

definition safe_mod :: "int \<Rightarrow> int \<Rightarrow> int option" where
  "safe_mod X Y =
     (if Y = 0 then None
      else let result = X smod Y in Some (if result < 0 then result + Y else result))"

lemma smod_nonneg: "0 \<le> (X :: int) \<Longrightarrow> 0 < Y \<Longrightarrow> X smod Y = X mod Y"
  by (cases "X = 0") (simp_all add: signed_modulo_int_def sgn_if)

lemma smod_neg:
  assumes "(X :: int) < 0" and "0 < Y"
  shows "X smod Y = - ((- X) mod Y)"
  using assms by (simp add: signed_modulo_int_def)

lemma safe_mod_pos: "0 < Y \<Longrightarrow> safe_mod X Y = Some (X mod Y)"
proof (cases "0 \<le> X")
  case True
  assume "0 < Y"
  with True have "\<not> X mod Y < 0" by (simp add: not_less)
  with True \<open>0 < Y\<close> show ?thesis by (simp add: safe_mod_def smod_nonneg Let_def)
next
  case False
  assume Y: "0 < Y"
  define m where "m = (- X) mod Y"
  have "X smod Y = - m" using False Y by (simp add: smod_neg m_def)
  moreover have "X mod Y = (if m = 0 then 0 else Y - m)"
    using zmod_zminus1_eq_if [of "- X" Y] by (simp add: m_def)
  moreover have "0 \<le> m" using Y by (simp add: m_def)
  ultimately show ?thesis
    using Y by (auto simp: safe_mod_def Let_def)
qed

section \<open>Random numbers\<close>

type_synonym seed48 = "48 word"

text \<open>One step of the generator, and the two read-outs the library uses.\<close>

definition next48 :: "seed48 \<Rightarrow> seed48" where
  "next48 x = 0x5DEECE66D * x + 0xB"

definition srand48 :: "32 word \<Rightarrow> seed48" where
  "srand48 s = push_bit 16 (ucast s) + 0x330E"

definition drand48 :: "seed48 \<Rightarrow> real" where
  "drand48 x = real (unat x) / 2 ^ 48"

definition lrand48 :: "seed48 \<Rightarrow> nat" where
  "lrand48 x = unat x div 2 ^ 17"

text \<open>
  A \<open>Rand\<close> object owns \<open>rand_data_\<close>; \<open>lrand48()\<close>, which its constructor and
  \<open>getInteger\<close> call, draws from the state the C library keeps for the whole process.
\<close>

record rand =
  rand_data :: seed48
  libc_data :: seed48

definition Rand_new :: "seed48 \<Rightarrow> rand" where
  "Rand_new g =
     (let g' = next48 g
      in \<lparr>rand_data = srand48 (word_of_nat (lrand48 g')), libc_data = g'\<rparr>)"

definition rand_init :: "32 word \<Rightarrow> rand \<Rightarrow> rand" where
  "rand_init s r = r\<lparr>rand_data := srand48 s\<rparr>"

definition rand_get :: "rand \<Rightarrow> real \<times> rand" where
  "rand_get r = (let x = next48 (rand_data r) in (drand48 x, r\<lparr>rand_data := x\<rparr>))"

definition getUniform :: "real \<Rightarrow> real \<Rightarrow> rand \<Rightarrow> real \<times> rand" where
  "getUniform a b r = (let (u, r') = rand_get r in (a + u * (b - a), r'))"

fun getVector :: "nat \<Rightarrow> rand \<Rightarrow> dvec \<times> rand" where
  "getVector 0 r = ([], r)"
| "getVector (Suc sz) r =
     (let (u, r1) = getUniform 0 1 r; (us, r2) = getVector sz r1 in (u # us, r2))"

text \<open>
  The Box-Muller transform. \<open>log(0)\<close> is minus infinity in C, so a first draw of exactly zero
  gives a result that is not finite.
\<close>

definition getNormal :: "real \<Rightarrow> real \<Rightarrow> rand \<Rightarrow> dbl \<times> rand" where
  "getNormal mu sigma r =
     (let (U1, r1) = rand_get r; (U2, r2) = rand_get r1;
          radius = (if U1 = 0 then Inf True else Fin (sqrt (- 2 * ln U1)))
      in (d_add (d_mul (d_mul radius (Fin (cos (2 * pi * U2)))) (Fin sigma)) (Fin mu), r2))"

definition getInteger :: "nat \<Rightarrow> rand \<Rightarrow> (nat \<times> rand) option" where
  "getInteger ma r =
     (let g = next48 (libc_data r)
      in if ma = 0 then None else Some (lrand48 g mod ma, r\<lparr>libc_data := g\<rparr>))"

definition getOrnsteinUhlenbeck ::
    "real \<Rightarrow> real \<Rightarrow> real \<Rightarrow> real \<Rightarrow> rand \<Rightarrow> dbl \<times> rand" where
  "getOrnsteinUhlenbeck prev center theta sigma r =
     getNormal (prev + theta * (center - prev)) sigma r"

lemma unat48_less: "unat (x :: seed48) < 2 ^ 48"
  using unsigned_less [of x, where 'a = nat] by simp

lemma drand48_bounds: "0 \<le> drand48 x \<and> drand48 x < 1"
proof -
  have "real (unat x) < 2 ^ 48"
    using unat48_less [of x] by (metis of_nat_less_iff of_nat_numeral of_nat_power)
  then show ?thesis unfolding drand48_def by (intro conjI) (simp_all only: of_nat_0_le_iff
        zero_le_divide_iff zero_le_power zero_le_numeral divide_less_eq_1_pos zero_less_power
        zero_less_numeral simp_thms)
qed

lemma drand48_nonzero: "x \<noteq> 0 \<Longrightarrow> drand48 x \<noteq> 0"
proof -
  assume "x \<noteq> 0"
  then have "unat x \<noteq> 0" using word_eq_iff_unsigned [where 'a = nat, of x 0] by simp
  then have "0 < real (unat x)" by (simp del: of_nat_unat)
  then show "drand48 x \<noteq> 0" unfolding drand48_def by (simp del: of_nat_unat)
qed

lemma rand_get_bounds: "0 \<le> fst (rand_get r) \<and> fst (rand_get r) < 1"
  using drand48_bounds by (simp add: rand_get_def Let_def)

lemma rand_get_libc [simp]: "libc_data (snd (rand_get r)) = libc_data r"
  by (simp add: rand_get_def Let_def)

lemma getInteger_bound: "getInteger ma r = Some (n, r') \<Longrightarrow> n < ma"
  by (auto simp: getInteger_def Let_def split: if_splits)

lemma getInteger_Some: "0 < ma \<Longrightarrow> \<exists>n r'. getInteger ma r = Some (n, r') \<and> n < ma"
  by (simp add: getInteger_def Let_def)

lemma getInteger_rand_data:
  "getInteger ma r = Some (n, r') \<Longrightarrow> rand_data r' = rand_data r"
  by (auto simp: getInteger_def Let_def split: if_splits)

lemma getUniform_range:
  assumes "a < b"
  shows "a \<le> fst (getUniform a b r) \<and> fst (getUniform a b r) < b"
proof -
  let ?u = "fst (rand_get r)"
  have u: "0 \<le> ?u" "?u < 1" using rand_get_bounds by auto
  have eq: "fst (getUniform a b r) = a + ?u * (b - a)"
    by (simp add: getUniform_def split: prod.splits)
  have "0 \<le> ?u * (b - a)" using u assms by simp
  moreover have "?u * (b - a) < 1 * (b - a)"
    using u assms by (intro mult_strict_right_mono) auto
  ultimately show ?thesis unfolding eq by simp
qed

lemma getVector_length: "length (fst (getVector sz r)) = sz"
  by (induction sz arbitrary: r) (auto simp: split: prod.splits, metis fst_conv)

lemma getVector_range: "x \<in> set (fst (getVector sz r)) \<Longrightarrow> 0 \<le> x \<and> x < 1"
proof (induction sz arbitrary: r)
  case 0
  then show ?case by simp
next
  case (Suc sz)
  obtain u r1 where u: "getUniform 0 1 r = (u, r1)" by fastforce
  obtain us r2 where us: "getVector sz r1 = (us, r2)" by fastforce
  have "x = u \<or> x \<in> set us" using Suc.prems u us by simp
  then show ?case
    using getUniform_range [of 0 1 r] Suc.IH [of r1] u us by auto
qed

section \<open>Sampling from a distribution\<close>

text \<open>
  \<open>sample(dist, sum)\<close>: the loop adds up the entries until the running sum passes the draw
  \<open>r\<close>. If it never does, the result is \<open>dist.size()-1\<close>.
\<close>

fun sample_scan :: "dvec \<Rightarrow> real \<Rightarrow> real \<Rightarrow> nat \<Rightarrow> nat option" where
  "sample_scan [] r acc ii = None"
| "sample_scan (d # ds) r acc ii =
     (let acc = acc + d in if r < acc then Some ii else sample_scan ds r acc (Suc ii))"

definition sample_with_sum :: "dvec \<Rightarrow> real \<Rightarrow> rand \<Rightarrow> nat \<times> rand" where
  "sample_with_sum distr acc g =
     (let (u, g') = rand_get g; r = u * acc
      in (case sample_scan distr r 0 0 of Some ii \<Rightarrow> ii | None \<Rightarrow> sz_pred (length distr), g'))"

definition sample :: "dvec \<Rightarrow> rand \<Rightarrow> nat \<times> rand" where
  "sample distr g = sample_with_sum distr (foldl (+) 0 distr) g"

lemma foldl_plus_sum_list: "foldl (+) a xs = a + sum_list (xs :: dvec)"
  by (induction xs arbitrary: a) auto

lemma sample_scan_Some:
  assumes "sample_scan ds r s ii = Some jj" and "s \<le> r"
  shows "ii \<le> jj \<and> jj < ii + length ds \<and>
         s + sum_list (take (jj - ii) ds) \<le> r \<and> r < s + sum_list (take (Suc (jj - ii)) ds)"
  using assms
proof (induction ds arbitrary: s ii)
  case Nil
  then show ?case by simp
next
  case (Cons d ds)
  show ?case
  proof (cases "r < s + d")
    case True
    with Cons.prems show ?thesis by auto
  next
    case False
    then have "sample_scan ds r (s + d) (Suc ii) = Some jj" "s + d \<le> r"
      using Cons.prems by (auto simp: Let_def)
    from Cons.IH [OF this] have IH: "Suc ii \<le> jj" "jj < Suc ii + length ds"
      "s + d + sum_list (take (jj - Suc ii) ds) \<le> r"
      "r < s + d + sum_list (take (Suc (jj - Suc ii)) ds)"
      by auto
    obtain k where k: "jj = Suc ii + k" using IH(1) by (metis le_Suc_ex)
    have "jj - ii = Suc k" "jj - Suc ii = k" using k by simp_all
    with IH show ?thesis by simp
  qed
qed

lemma sample_scan_None:
  "sample_scan ds r s ii = None \<Longrightarrow> s \<le> r \<Longrightarrow> s + sum_list ds \<le> r"
proof (induction ds arbitrary: s ii)
  case Nil
  then show ?case by simp
next
  case (Cons d ds)
  then have "sample_scan ds r (s + d) (Suc ii) = None" "s + d \<le> r"
    by (auto simp: Let_def split: if_splits)
  from Cons.IH [OF this] show ?case by simp
qed

text \<open>
  The sampler inverts the cumulative distribution: with the draw \<open>u\<close> in \<open>[0, 1)\<close>, it returns
  the index whose interval of the cumulative sums holds \<open>u * sum\<close>.
\<close>

lemma sample_inverts_cdf:
  assumes "0 < sum_list distr" and "sample distr g = (ii, g')"
  shows "ii < length distr \<and>
    sum_list (take ii distr) \<le> fst (rand_get g) * sum_list distr \<and>
    fst (rand_get g) * sum_list distr < sum_list (take (Suc ii) distr)"
proof -
  define u where "u = fst (rand_get g)"
  define r where "r = u * sum_list distr"
  have u: "0 \<le> u" "u < 1" using rand_get_bounds unfolding u_def by auto
  have r0: "0 \<le> r" using u assms(1) unfolding r_def by simp
  have r1: "r < sum_list distr"
    using mult_strict_right_mono [OF u(2) assms(1)] unfolding r_def by simp
  have ii: "ii = (case sample_scan distr r 0 0 of Some ii \<Rightarrow> ii | None \<Rightarrow> sz_pred (length distr))"
    using assms(2) unfolding sample_def sample_with_sum_def foldl_plus_sum_list r_def u_def
    by (auto split: prod.splits)
  have "sample_scan distr r 0 0 \<noteq> None"
  proof
    assume "sample_scan distr r 0 0 = None"
    from sample_scan_None [OF this r0] r1 show False by simp
  qed
  then have "sample_scan distr r 0 0 = Some ii" using ii by auto
  from sample_scan_Some [OF this r0] show ?thesis unfolding r_def u_def by simp
qed

lemma sum_list_take_Suc:
  "i < length ds \<Longrightarrow> sum_list (take (Suc i) ds) = sum_list (take i ds) + (ds ! i :: real)"
  by (simp add: take_Suc_conv_app_nth)

lemma sample_positive:
  assumes "0 < sum_list distr" and "sample distr g = (ii, g')"
  shows "0 < distr ! ii"
  using sample_inverts_cdf [OF assms] sum_list_take_Suc [of ii distr] by linarith

subsection \<open>Without replacement\<close>

text \<open>
  The inner loop skips the selected entries. An entry of \<open>chosen\<close> that no iteration writes keeps
  the unspecified content of a fresh array: \<open>None\<close>.
\<close>

fun pick_scan :: "dvec \<Rightarrow> bool list \<Rightarrow> real \<Rightarrow> real \<Rightarrow> nat \<Rightarrow> nat option" where
  "pick_scan (d # ds) (s # ss) r v ii =
     (if \<not> s
      then let v = v + d in if r \<le> v then Some ii else pick_scan ds ss r v (Suc ii)
      else pick_scan ds ss r v (Suc ii))"
| "pick_scan _ _ r v ii = None"

fun sample_n_loop ::
    "dvec \<Rightarrow> nat \<Rightarrow> real \<Rightarrow> bool list \<Rightarrow> rand \<Rightarrow> nat option list \<times> rand" where
  "sample_n_loop distr 0 acc selected g = ([], g)"
| "sample_n_loop distr (Suc n) acc selected g =
     (let (u, g1) = rand_get g; r = u * acc
      in case pick_scan distr selected r 0 0 of
           Some ii \<Rightarrow>
             let (chosen, g2) =
               sample_n_loop distr n (acc - distr ! ii) (selected[ii := True]) g1
             in (Some ii # chosen, g2)
         | None \<Rightarrow>
             let (chosen, g2) = sample_n_loop distr n acc selected g1
             in (None # chosen, g2))"

definition sample_n :: "dvec \<Rightarrow> nat \<Rightarrow> rand \<Rightarrow> nat option list \<times> rand" where
  "sample_n distr n g =
     (if length distr \<le> n then (map Some [0..<n], g)
      else sample_n_loop distr n (foldl (+) 0 distr) (replicate (length distr) False) g)"

fun rest_sum :: "dvec \<Rightarrow> bool list \<Rightarrow> real" where
  "rest_sum (d # ds) (s # ss) = (if s then 0 else d) + rest_sum ds ss"
| "rest_sum _ _ = 0"

lemma rest_sum_all_selected: "\<forall>s \<in> set ss. s \<Longrightarrow> rest_sum ds ss = 0"
  by (induction ds ss rule: rest_sum.induct) auto

lemma rest_sum_nonneg: "\<forall>d \<in> set ds. 0 \<le> d \<Longrightarrow> 0 \<le> rest_sum ds ss"
  by (induction ds ss rule: rest_sum.induct) auto

lemma rest_sum_none_selected: "rest_sum ds (replicate (length ds) False) = sum_list ds"
  by (induction ds) auto

lemma rest_sum_select:
  "length ss = length ds \<Longrightarrow> k < length ds \<Longrightarrow> \<not> ss ! k \<Longrightarrow>
   rest_sum ds (ss[k := True]) = rest_sum ds ss - ds ! k"
proof (induction ds ss arbitrary: k rule: rest_sum.induct)
  case (1 d ds s ss)
  then show ?case by (cases k) auto
qed auto

lemma unselected_select:
  "k < length ss \<Longrightarrow> \<not> ss ! k \<Longrightarrow>
   Suc (length (filter Not (ss[k := True]))) = length (filter Not ss)"
proof (induction ss arbitrary: k)
  case (Cons s ss)
  then show ?case by (cases k) auto
qed simp

lemma pick_scan_finds:
  assumes "length ss = length ds" and "\<exists>s \<in> set ss. \<not> s" and "r \<le> v + rest_sum ds ss"
  shows "\<exists>k < length ds. pick_scan ds ss r v ii = Some (ii + k) \<and> \<not> ss ! k"
  using assms
proof (induction ds ss r v ii rule: pick_scan.induct)
  case (1 d ds s ss r v ii)
  show ?case
  proof (cases "\<not> s \<and> r \<le> v + d")
    case True
    then show ?thesis by (intro exI [of _ 0]) simp
  next
    case False
    define v' where "v' = (if s then v else v + d)"
    have le: "r \<le> v' + rest_sum ds ss" using "1.prems"(3) unfolding v'_def by auto
    have ex: "\<exists>s \<in> set ss. \<not> s"
    proof (rule ccontr)
      assume "\<not> ?thesis"
      then have all: "\<forall>s \<in> set ss. s" by blast
      then have "\<not> s" using "1.prems"(2) by auto
      with False have "v + d < r" by simp
      moreover have "r \<le> v + d"
        using "1.prems"(3) rest_sum_all_selected [OF all, of ds] \<open>\<not> s\<close> by simp
      ultimately show False by simp
    qed
    have "\<exists>k < length ds. pick_scan ds ss r v' (Suc ii) = Some (Suc ii + k) \<and> \<not> ss ! k"
      using 1 le ex False unfolding v'_def by (cases s) auto
    then obtain k where "k < length ds" "pick_scan ds ss r v' (Suc ii) = Some (Suc ii + k)"
      "\<not> ss ! k" by blast
    then show ?thesis
      using False unfolding v'_def by (intro exI [of _ "Suc k"]) (cases s; simp add: Let_def)
  qed
qed auto

lemma sample_n_loop_correct:
  assumes "length selected = length distr" and "\<forall>d \<in> set distr. 0 \<le> d"
    and "acc = rest_sum distr selected" and "n \<le> length (filter Not selected)"
  shows "\<exists>idx. fst (sample_n_loop distr n acc selected g) = map Some idx \<and> length idx = n \<and>
    distinct idx \<and> (\<forall>i \<in> set idx. i < length distr \<and> \<not> selected ! i)"
  using assms
proof (induction n arbitrary: acc selected g)
  case 0
  then show ?case by simp
next
  case (Suc n)
  obtain u g1 where u: "rand_get g = (u, g1)" by fastforce
  have u01: "0 \<le> u" "u \<le> 1" using rand_get_bounds [of g] u by auto
  have "0 \<le> acc" using Suc.prems(2,3) rest_sum_nonneg by simp
  then have "u * acc \<le> 0 + rest_sum distr selected"
    using mult_right_mono [OF u01(2), of acc] Suc.prems(3) by simp
  moreover have "\<exists>s \<in> set selected. \<not> s"
    using Suc.prems(4) by (metis Suc_le_D filter_False length_Suc_conv list.distinct(1))
  ultimately obtain k where k: "k < length distr" "\<not> selected ! k"
    "pick_scan distr selected (u * acc) 0 0 = Some k"
    using pick_scan_finds [of selected distr "u * acc" 0 0] Suc.prems(1) by auto
  let ?sel = "selected[k := True]"
  obtain chosen g2 where rec:
    "sample_n_loop distr n (acc - distr ! k) ?sel g1 = (chosen, g2)" by fastforce
  have "n \<le> length (filter Not ?sel)"
    using unselected_select [of k selected] k Suc.prems(1,4) by simp
  with Suc.IH [of ?sel "acc - distr ! k" g1] Suc.prems k rec obtain idx where idx:
    "chosen = map Some idx" "length idx = n" "distinct idx"
    "\<forall>i \<in> set idx. i < length distr \<and> \<not> ?sel ! i"
    by (auto simp: rest_sum_select)
  have "k \<notin> set idx" using idx(4) k(1) Suc.prems(1) by (metis nth_list_update_eq)
  moreover have "\<forall>i \<in> set idx. \<not> selected ! i"
    using idx(4) by (metis nth_list_update_neq calculation)
  ultimately show ?case
    using idx k u rec by (intro exI [of _ "k # idx"]) (auto simp: Let_def)
qed

section \<open>Properties\<close>

text \<open>\<open>sample(dist)\<close> inverts the cumulative distribution: for weights with a positive sum it
  returns an index of the vector whose interval of cumulative sums holds the scaled draw, so an
  index of weight zero is never chosen.\<close>

theorem sample_correct:
  assumes "0 < sum_list distr"
  shows "let ii = fst (sample distr g); r = fst (rand_get g) * sum_list distr
    in ii < length distr \<and> sum_list (take ii distr) \<le> r \<and> r < sum_list (take (Suc ii) distr) \<and>
       0 < distr ! ii"
proof -
  obtain ii g' where s: "sample distr g = (ii, g')" by fastforce
  from sample_inverts_cdf [OF assms s] sample_positive [OF assms s] show ?thesis
    by (simp add: s Let_def)
qed

theorem sample_correct_witness: "fst (sample [1, 0, 2] (Rand_new 7)) < 3"
  using sample_correct [of "[1, 0, 2]" "Rand_new 7"] by (simp add: Let_def)

text \<open>Sampling \<open>n\<close> indices without replacement from a larger vector of non-negative weights
  writes every entry of the result, and the entries are distinct indices of the vector.\<close>

theorem sample_n_distinct:
  assumes "n < length distr" and "\<forall>d \<in> set distr. 0 \<le> d"
  shows "\<exists>idx. fst (sample_n distr n g) = map Some idx \<and> length idx = n \<and> distinct idx \<and>
    (\<forall>i \<in> set idx. i < length distr)"
proof -
  have n: "n \<le> length (filter Not (replicate (length distr) False))" using assms(1) by simp
  have s: "foldl (+) 0 distr = rest_sum distr (replicate (length distr) False)"
    by (simp add: foldl_plus_sum_list rest_sum_none_selected)
  from sample_n_loop_correct [OF _ assms(2) s n, of g] show ?thesis
    using assms(1) by (auto simp: sample_n_def)
qed

theorem sample_n_distinct_witness:
  "\<exists>idx. fst (sample_n [1, 2, 3] 2 (Rand_new 7)) = map Some idx \<and> length idx = 2 \<and> distinct idx"
  using sample_n_distinct [of 2 "[1, 2, 3]" "Rand_new 7"] by auto

text \<open>Seeding. After \<open>init\<close>, the next \<open>get\<close> depends on the seed alone, but \<open>getInteger\<close>
  draws from the generator of the C library and gives what it would have given without the seed.\<close>

theorem rand_init_scope:
  "fst (rand_get (rand_init s r)) = fst (rand_get (rand_init s q)) \<and>
   map_option fst (getInteger ma (rand_init s r)) = map_option fst (getInteger ma r)"
  by (simp add: getInteger_def rand_init_def rand_get_def Let_def)

end
