(* ===== verification/Fifo.thy ===== *)
theory Fifo
  imports Utils
begin

text \<open>
  The class template \<open>FIFOSampler\<close> of \<open>base/include/grl/utils.h\<close>: a ring buffer of the last
  \<open>sz\<close> items, from which a random one can be drawn. The locks around each operation make it
  atomic; an operation is one step here. Writing past the array (\<open>sz = 0\<close>) and the modulus by
  zero of \<open>getInteger(0)\<close> have no defined result and are \<open>None\<close>.
\<close>

section \<open>The interface: a bounded history\<close>

definition last_n :: "nat \<Rightarrow> 'a list \<Rightarrow> 'a list" where
  "last_n n xs = drop (length xs - n) xs"

lemma length_last_n [simp]: "length (last_n n xs) = min n (length xs)"
  by (simp add: last_n_def)

lemma last_n_all: "length xs \<le> n \<Longrightarrow> last_n n xs = xs"
  by (simp add: last_n_def)

lemma last_n_snoc_last_n: "last_n n (last_n n xs @ [x]) = last_n n (xs @ [x])"
proof (cases "length xs \<le> n")
  case True
  then show ?thesis by (simp add: last_n_all)
next
  case False
  show ?thesis
  proof (cases "n = 0")
    case True
    then show ?thesis by (simp add: last_n_def)
  next
    case n: False
    have "last_n n (last_n n xs @ [x]) = drop 1 (drop (length xs - n) xs @ [x])"
      using False by (simp add: last_n_def)
    also have "\<dots> = drop (Suc (length xs - n)) xs @ [x]"
      using False n by (simp add: drop_Suc drop_tl)
    also have "\<dots> = last_n n (xs @ [x])"
      using False n by (simp add: last_n_def Suc_diff_le)
    finally show ?thesis .
  qed
qed

text \<open>
  What a bounded history promises: adding keeps the invariant, and the contents are the last
  \<open>cap\<close> of what has been added since it was empty.
\<close>

locale bounded_history =
  fixes add :: "'a \<Rightarrow> 's \<Rightarrow> 's option"
    and contents :: "'s \<Rightarrow> 'a list"
    and inv :: "'s \<Rightarrow> bool"
    and cap :: "'s \<Rightarrow> nat"
  assumes add_ok: "inv s \<Longrightarrow> \<exists>s'. add x s = Some s' \<and> inv s' \<and> cap s' = cap s \<and>
      contents s' = last_n (cap s) (contents s @ [x])"
begin

primrec add_all :: "'a list \<Rightarrow> 's \<Rightarrow> 's option" where
  "add_all [] s = Some s"
| "add_all (x # xs) s = Option.bind (add x s) (add_all xs)"

lemma add_all_contents:
  assumes "inv s" and "contents s = last_n (cap s) ys"
  shows "\<exists>s'. add_all xs s = Some s' \<and> inv s' \<and> cap s' = cap s \<and>
    contents s' = last_n (cap s) (ys @ xs)"
  using assms
proof (induction xs arbitrary: s ys)
  case Nil
  then show ?case by simp
next
  case (Cons x xs)
  obtain s1 where s1: "add x s = Some s1" "inv s1" "cap s1 = cap s"
    "contents s1 = last_n (cap s) (contents s @ [x])"
    using add_ok [OF Cons.prems(1)] by blast
  have "contents s1 = last_n (cap s1) (ys @ [x])"
    using s1 Cons.prems(2) by (simp add: last_n_snoc_last_n)
  from Cons.IH [OF s1(2) this] show ?case using s1 by simp
qed

lemma add_all_from_empty:
  assumes "inv s" and "contents s = []"
  shows "\<exists>s'. add_all xs s = Some s' \<and> inv s' \<and> contents s' = last_n (cap s) xs"
  using add_all_contents [OF assms(1), of "[]" xs] assms(2) by (auto simp: last_n_def)

end

section \<open>The ring buffer\<close>

record 'a fifo =
  fifo_sz :: nat
  fifo_idx :: nat
  fifo_full :: bool
  fifo_items :: "'a list"

definition FIFOSampler_new :: "'a \<Rightarrow> nat \<Rightarrow> 'a fifo" where
  "FIFOSampler_new dflt sz =
     \<lparr>fifo_sz = sz, fifo_idx = 0, fifo_full = False, fifo_items = replicate sz dflt\<rparr>"

definition fifo_clear :: "'a fifo \<Rightarrow> 'a fifo" where
  "fifo_clear f = f\<lparr>fifo_idx := 0, fifo_full := False\<rparr>"

definition fifo_draw :: "'a \<Rightarrow> 'a fifo \<Rightarrow> rand \<Rightarrow> ('a \<times> rand) option" where
  "fifo_draw dflt f g =
     (if fifo_items f = [] then Some (dflt, g)
      else case getInteger (if fifo_full f then fifo_sz f else fifo_idx f) g of
             None \<Rightarrow> None
           | Some (ii, g') \<Rightarrow>
               if ii < length (fifo_items f) then Some (fifo_items f ! ii, g') else None)"

definition fifo_add :: "'a \<Rightarrow> 'a fifo \<Rightarrow> 'a fifo option" where
  "fifo_add item f =
     (if fifo_idx f < length (fifo_items f)
      then let f = f\<lparr>fifo_items := (fifo_items f)[fifo_idx f := item],
                     fifo_idx := fifo_idx f + 1\<rparr>
           in Some (if fifo_idx f = fifo_sz f
                    then f\<lparr>fifo_full := True, fifo_idx := 0\<rparr> else f)
      else None)"

definition fifo_inv :: "'a fifo \<Rightarrow> bool" where
  "fifo_inv f \<longleftrightarrow> length (fifo_items f) = fifo_sz f \<and> fifo_idx f < fifo_sz f"

text \<open>The items a buffer holds, oldest first.\<close>

definition fifo_contents :: "'a fifo \<Rightarrow> 'a list" where
  "fifo_contents f =
     (if fifo_full f then drop (fifo_idx f) (fifo_items f) @ take (fifo_idx f) (fifo_items f)
      else take (fifo_idx f) (fifo_items f))"

lemma fifo_new_inv: "0 < sz \<Longrightarrow> fifo_inv (FIFOSampler_new d sz)"
  by (simp add: fifo_inv_def FIFOSampler_new_def)

lemma fifo_new_contents: "fifo_contents (FIFOSampler_new d sz) = []"
  by (simp add: fifo_contents_def FIFOSampler_new_def)

lemma fifo_clear_inv [grl_inv]: "fifo_inv f \<Longrightarrow> fifo_inv (fifo_clear f)"
  by (simp add: fifo_inv_def fifo_clear_def)

lemma fifo_clear_contents: "fifo_contents (fifo_clear f) = []"
  by (simp add: fifo_contents_def fifo_clear_def)

lemma drop_update_take: "i < length xs \<Longrightarrow>
    drop (Suc i) (xs[i := x]) @ take (Suc i) (xs[i := x]) = drop (Suc i) xs @ take i xs @ [x]"
  by (simp add: take_Suc_conv_app_nth)

lemma fifo_add_contents:
  assumes "fifo_inv f"
  shows "\<exists>f'. fifo_add x f = Some f' \<and> fifo_inv f' \<and> fifo_sz f' = fifo_sz f \<and>
    fifo_contents f' = last_n (fifo_sz f) (fifo_contents f @ [x])"
proof -
  let ?i = "fifo_idx f" and ?xs = "fifo_items f" and ?n = "fifo_sz f"
  have i: "?i < length ?xs" "length ?xs = ?n" using assms by (auto simp: fifo_inv_def)
  have full: "last_n ?n (drop ?i ?xs @ take ?i ?xs @ [x]) = drop (Suc ?i) ?xs @ take ?i ?xs @ [x]"
    using i by (simp add: last_n_def Cons_nth_drop_Suc [symmetric])
  have part: "last_n ?n (take ?i ?xs @ [x]) = take ?i ?xs @ [x]"
    using i by (simp add: last_n_all)
  have upd: "take (Suc ?i) (?xs[?i := x]) = take ?i ?xs @ [x]"
    using i by (simp add: take_Suc_conv_app_nth)
  show ?thesis
  proof (cases "Suc ?i = ?n")
    case True
    then have "?xs[?i := x] = take (Suc ?i) (?xs[?i := x])" "drop (Suc ?i) ?xs = []"
      using i by simp_all
    then show ?thesis
      using True i full part upd
      by (auto simp: fifo_add_def fifo_inv_def fifo_contents_def Let_def)
  next
    case False
    then show ?thesis
      using i full part upd drop_update_take [of ?i ?xs x]
      by (auto simp: fifo_add_def fifo_inv_def fifo_contents_def Let_def)
  qed
qed

interpretation fifo: bounded_history fifo_add fifo_contents fifo_inv fifo_sz
  by unfold_locales (rule fifo_add_contents)

lemma fifo_contents_items:
  assumes "fifo_inv f" and "ii < (if fifo_full f then fifo_sz f else fifo_idx f)"
  shows "fifo_items f ! ii \<in> set (fifo_contents f)"
proof (cases "fifo_full f")
  case True
  then have "fifo_items f ! ii \<in> set (take (fifo_idx f) (fifo_items f) @ drop (fifo_idx f) (fifo_items f))"
    using assms by (simp only: append_take_drop_id) (simp add: fifo_inv_def)
  then show ?thesis using True unfolding fifo_contents_def by (auto simp only: set_append if_True)
next
  case False
  then have "fifo_items f ! ii = take (fifo_idx f) (fifo_items f) ! ii"
    "ii < length (take (fifo_idx f) (fifo_items f))"
    using assms by (simp_all add: fifo_inv_def)
  then show ?thesis using False unfolding fifo_contents_def by (metis nth_mem)
qed

lemma fifo_draw_member:
  assumes "fifo_inv f" and "fifo_contents f \<noteq> []"
  shows "\<exists>x g'. fifo_draw d f g = Some (x, g') \<and> x \<in> set (fifo_contents f)"
proof -
  let ?ma = "if fifo_full f then fifo_sz f else fifo_idx f"
  have len: "0 < fifo_sz f" "length (fifo_items f) = fifo_sz f" "fifo_idx f < fifo_sz f"
    using assms(1) by (auto simp: fifo_inv_def)
  then have "0 < ?ma" using assms(2) by (auto simp: fifo_contents_def)
  from getInteger_Some [OF this] obtain n g' where n: "getInteger ?ma g = Some (n, g')" "n < ?ma"
    by blast
  have "n < length (fifo_items f)" using n(2) len by (auto split: if_splits)
  with n len fifo_contents_items [OF assms(1) n(2)] show ?thesis
    by (auto simp: fifo_draw_def)
qed

section \<open>Properties\<close>

fun fifo_adds :: "'a list \<Rightarrow> 'a fifo \<Rightarrow> 'a fifo option" where
  "fifo_adds [] f = Some f"
| "fifo_adds (x # xs) f = Option.bind (fifo_add x f) (fifo_adds xs)"

lemma fifo_adds_eq: "fifo_adds xs f = fifo.add_all xs f"
proof (induction xs arbitrary: f)
  case (Cons x xs)
  then show ?case by (cases "fifo_add x f") simp_all
qed simp

text \<open>after any sequence of additions to a new or cleared sampler of positive size, the ring
  buffer holds exactly the last \<open>sz\<close> items added, in order, and \<open>draw\<close> returns one of them.\<close>

theorem fifo_keeps_last:
  assumes "fifo_inv f" and "xs \<noteq> []"
  shows "\<exists>f' x g'. fifo_adds xs (fifo_clear f) = Some f' \<and> fifo_inv f' \<and>
    fifo_contents f' = last_n (fifo_sz f) xs \<and>
    fifo_draw d f' g = Some (x, g') \<and> x \<in> set (last_n (fifo_sz f) xs)"
proof -
  have c: "fifo_inv (fifo_clear f)" "fifo_sz (fifo_clear f) = fifo_sz f"
    using assms(1) by (auto simp: fifo_inv_def fifo_clear_def)
  from fifo.add_all_from_empty [OF c(1) fifo_clear_contents, of xs] obtain f' where
    f': "fifo_adds xs (fifo_clear f) = Some f'" "fifo_inv f'"
    "fifo_contents f' = last_n (fifo_sz f) xs" by (auto simp: fifo_adds_eq c(2))
  have "0 < fifo_sz f" using assms(1) by (simp add: fifo_inv_def)
  then have "length (last_n (fifo_sz f) xs) \<noteq> 0"
    unfolding length_last_n using assms(2) by (simp add: min_def)
  then have "last_n (fifo_sz f) xs \<noteq> []" by force
  then obtain x g' where "fifo_draw d f' g = Some (x, g')" "x \<in> set (last_n (fifo_sz f) xs)"
    using fifo_draw_member [OF f'(2), of d g] f'(3) by auto
  with f' show ?thesis by blast
qed

theorem fifo_keeps_last_witness:
  "\<exists>f'. fifo_adds [1, 2, 3 :: nat] (fifo_clear (FIFOSampler_new 0 2)) = Some f' \<and>
    fifo_contents f' = [2, 3]"
  using fifo_keeps_last [of "FIFOSampler_new (0 :: nat) 2" "[1, 2, 3]" 0 "Rand_new 7"]
  by (auto simp: fifo_inv_def FIFOSampler_new_def last_n_def)

text \<open>\<open>draw\<close> guards against an empty item vector, which a sampler of positive size never
  has; drawing from a sampler that holds nothing reduces a random number modulo zero.\<close>

theorem fifo_draw_empty_traps:
  assumes "fifo_inv f" and "fifo_contents f = []"
  shows "fifo_draw d f g = None"
proof -
  have "fifo_items f \<noteq> []" "\<not> fifo_full f" "fifo_idx f = 0"
    using assms by (auto simp: fifo_inv_def fifo_contents_def split: if_splits)
  then show ?thesis by (simp add: fifo_draw_def getInteger_def Let_def)
qed

theorem fifo_draw_empty_traps_witness:
  "fifo_draw 0 (FIFOSampler_new (0 :: nat) 2) (Rand_new 7) = None"
  using fifo_draw_empty_traps [of "FIFOSampler_new (0 :: nat) 2" 0 "Rand_new 7"]
  by (simp add: fifo_inv_def FIFOSampler_new_def fifo_contents_def)

end
