(* ===== verification/Strings.thy ===== *)
theory Strings
  imports Utils "HOL-Library.Sublist"
begin

text \<open>
  The numeric and textual helpers of \<open>base/include/grl/utils.h\<close> that keep no state:
  \<open>squash\<close>, \<open>str_replace\<close> and \<open>cutLongStr\<close>.
\<close>

section \<open>Squashing\<close>

text \<open>\<open>copysign(x, f)\<close>: the magnitude of the first, the sign of the second argument.\<close>

definition copysign :: "real \<Rightarrow> real \<Rightarrow> real" where
  "copysign x f = (if f < 0 then - \<bar>x\<bar> else \<bar>x\<bar>)"

text \<open>One element of the loop of \<open>squash\<close>; a comparison adds 1 where it holds.\<close>

definition squash1 :: "real \<Rightarrow> real \<Rightarrow> real" where
  "squash1 f x =
     (if f = 0 then x
      else ((if f > 0 then 1 else 0) + \<bar>1 / f\<bar>) * x /
           (((if f < 0 then 1 else 0) + \<bar>1 / f\<bar>) + copysign x f))"

definition squash_vec :: "dvec \<Rightarrow> dvec \<Rightarrow> dvec" where
  "squash_vec x f = map (\<lambda>ii. squash1 (f ! ii) (x ! ii)) [0..<length x]"

definition squash :: "dvec \<Rightarrow> real \<Rightarrow> dvec" where
  "squash x f = map (squash1 f) x"

lemma squash_vec_const: "squash_vec x (replicate (length x) f) = squash x f"
  by (rule nth_equalityI) (simp_all add: squash_vec_def squash_def)

lemma squash1_pos: "0 < f \<Longrightarrow> squash1 f x = (1 + 1 / f) * x / (1 / f + \<bar>x\<bar>)"
  by (simp add: squash1_def copysign_def)

lemma squash1_neg: "f < 0 \<Longrightarrow> squash1 f x = (- 1 / f) * x / (1 - 1 / f - \<bar>x\<bar>)"
  by (simp add: squash1_def copysign_def)

text \<open>A shrinking squash undoes the stretching one with the opposite sign.\<close>

lemma squash1_inverse:
  assumes "0 < f"
  shows "squash1 (- f) (squash1 f x) = x"
proof -
  define a where "a = 1 / f"
  have a: "0 < a" using assms by (simp add: a_def)
  define y where "y = squash1 f x"
  have d: "0 < a + \<bar>x\<bar>" using a by linarith
  have y: "y = (1 + a) * x / (a + \<bar>x\<bar>)"
    using squash1_pos [OF assms, of x] by (simp add: a_def y_def)
  then have ay: "\<bar>y\<bar> = (1 + a) * \<bar>x\<bar> / (a + \<bar>x\<bar>)"
    using a d by (simp add: abs_mult)
  have den: "1 + a - \<bar>y\<bar> = (1 + a) * a / (a + \<bar>x\<bar>)"
    unfolding ay using d by (simp add: field_simps)
  have "squash1 (- f) y = a * y / (1 + a - \<bar>y\<bar>)"
    using squash1_neg [of "- f" y] assms by (simp add: a_def)
  also have "\<dots> = (a * ((1 + a) * x) / (a + \<bar>x\<bar>)) / ((1 + a) * a / (a + \<bar>x\<bar>))"
    by (simp only: den) (simp add: y)
  also have "\<dots> = x"
  proof -
    have "a * ((1 + a) * x) = x * ((1 + a) * a)" by simp
    moreover have "(1 + a) * a \<noteq> 0" using a by simp
    ultimately show ?thesis using d by (simp only: divide_divide_eq_right divide_divide_eq_left
          times_divide_eq_left times_divide_eq_right nonzero_mult_div_cancel_right) simp
  qed
  finally show ?thesis by (simp add: y_def)
qed

lemma squash1_odd: "squash1 f (- x) = - squash1 f x"
  by (simp add: squash1_def copysign_def)

lemma squash1_one: "squash1 f 1 = 1"
proof (cases f "0 :: real" rule: linorder_cases)
  case greater
  then have "1 / f + 1 \<noteq> 0" by (simp add: add_pos_pos less_imp_neq [symmetric])
  then show ?thesis using greater by (simp add: squash1_pos add.commute)
next
  case less
  then have "(- 1 / f) \<noteq> 0" by simp
  then show ?thesis unfolding squash1_neg [OF less] by simp
qed (simp add: squash1_def)

lemma squash1_bound:
  assumes "\<bar>x\<bar> \<le> 1"
  shows "\<bar>squash1 f x\<bar> \<le> 1"
proof (cases f "0 :: real" rule: linorder_cases)
  case greater
  then have "\<bar>squash1 f x\<bar> = (1 + 1 / f) * \<bar>x\<bar> / (1 / f + \<bar>x\<bar>)"
    by (simp add: squash1_pos abs_mult add_pos_nonneg)
  also have "\<dots> \<le> 1"
    using greater assms by (simp add: field_simps add_pos_nonneg)
  finally show ?thesis .
next
  case less
  define a where "a = - 1 / f"
  have a: "0 < a" using less by (simp add: a_def divide_pos_neg)
  have "squash1 f x = a * x / (1 + a - \<bar>x\<bar>)"
    using squash1_neg [OF less, of x] by (simp add: a_def)
  then have "\<bar>squash1 f x\<bar> = a * \<bar>x\<bar> / (1 + a - \<bar>x\<bar>)"
    using a assms by (simp add: abs_mult)
  also have "\<dots> \<le> 1"
  proof -
    have "a * \<bar>x\<bar> \<le> a * 1" using a assms by (intro mult_left_mono) auto
    then have "a * \<bar>x\<bar> \<le> 1 + a - \<bar>x\<bar>" using assms by linarith
    then show ?thesis using a assms by (simp add: divide_le_eq_1)
  qed
  finally show ?thesis .
qed (use assms in \<open>simp add: squash1_def\<close>)

section \<open>Substring replacement\<close>

text \<open>\<open>std::string::find\<close>: the first position where the needle occurs.\<close>

fun str_find :: "string \<Rightarrow> string \<Rightarrow> nat option" where
  "str_find p [] = (if p = [] then Some 0 else None)"
| "str_find p (c # cs) =
     (if take (length p) (c # cs) = p then Some 0 else map_option Suc (str_find p cs))"

definition str_replace :: "string \<Rightarrow> string \<Rightarrow> string \<Rightarrow> bool \<times> string" where
  "str_replace str from repl =
     (case str_find from str of
        None \<Rightarrow> (False, str)
      | Some start_pos \<Rightarrow>
          (True, take start_pos str @ repl @ drop (start_pos + length from) str))"

lemma str_find_Some:
  "str_find p s = Some i \<Longrightarrow>
   s = take i s @ p @ drop (i + length p) s \<and> (\<forall>j < i. take (length p) (drop j s) \<noteq> p)"
proof (induction s arbitrary: i)
  case Nil
  then show ?case by (simp split: if_splits)
next
  case (Cons c cs)
  show ?case
  proof (cases "take (length p) (c # cs) = p")
    case True
    with Cons.prems have "i = 0" by simp
    then show ?thesis using True by (metis append_Nil append_take_drop_id add_0 not_less0 take0)
  next
    case False
    with Cons.prems obtain k where k: "str_find p cs = Some k" "i = Suc k" by auto
    from Cons.IH [OF k(1)] False show ?thesis
      unfolding k(2) by (auto simp: less_Suc_eq_0_disj)
  qed
qed

lemma str_find_None: "str_find p s = None \<Longrightarrow> \<not> (\<exists>a b. s = a @ p @ b)"
proof (induction s)
  case Nil
  then show ?case by (auto split: if_splits)
next
  case (Cons c cs)
  then have IH: "\<not> (\<exists>a b. cs = a @ p @ b)" and ne: "take (length p) (c # cs) \<noteq> p"
    by (auto split: if_splits)
  show ?case
  proof
    assume "\<exists>a b. c # cs = a @ p @ b"
    then obtain a b where ab: "c # cs = a @ p @ b" by blast
    show False
    proof (cases a)
      case Nil
      then show False using ab ne by simp
    next
      case (Cons d ds)
      then show False using ab IH by auto
    qed
  qed
qed

lemma str_replace_first:
  "str_replace s from repl = (True, t) \<Longrightarrow>
   \<exists>a b. s = a @ from @ b \<and> t = a @ repl @ b \<and>
         (\<forall>j < length a. take (length from) (drop j s) \<noteq> from)"
proof -
  assume "str_replace s from repl = (True, t)"
  then obtain i where i: "str_find from s = Some i"
    and t: "t = take i s @ repl @ drop (i + length from) s"
    by (auto simp: str_replace_def split: option.splits)
  from str_find_Some [OF i] have
    "s = take i s @ from @ drop (i + length from) s"
    "\<forall>j < length (take i s). take (length from) (drop j s) \<noteq> from"
    by auto
  with t show ?thesis by blast
qed

lemma str_replace_absent: "str_replace s from repl = (False, t) \<Longrightarrow> t = s \<and> \<not> (\<exists>a b. s = a @ from @ b)"
  using str_find_None by (auto simp: str_replace_def split: option.splits)

section \<open>Tokenising\<close>

text \<open>
  \<open>cutLongStr\<close> reads words with \<open>operator>>\<close> under a locale whose whitespace is the
  classic one together with the comma.
\<close>

definition tok_space :: "char \<Rightarrow> bool" where
  "tok_space c \<longleftrightarrow> c \<in> {CHR '' '', CHR 0x09, CHR 0x0A, CHR 0x0B, CHR 0x0C, CHR 0x0D, CHR '',''}"

function tok_words :: "string \<Rightarrow> string list" where
  "tok_words s =
     (case dropWhile tok_space s of
        [] \<Rightarrow> []
      | c # cs \<Rightarrow> takeWhile (\<lambda>c. \<not> tok_space c) (c # cs) #
                  tok_words (dropWhile (\<lambda>c. \<not> tok_space c) (c # cs)))"
  by pat_completeness auto
termination
proof (relation "measure length")
  fix s :: string and c cs
  assume d: "dropWhile tok_space s = c # cs"
  then have "\<not> tok_space c" by (metis hd_dropWhile list.distinct(1) list.sel(1))
  then have "length (dropWhile (\<lambda>c. \<not> tok_space c) (c # cs)) \<le> length cs"
    by (simp add: length_dropWhile_le)
  also have "\<dots> < length s"
    using d length_dropWhile_le [of tok_space s] by simp
  finally show "(dropWhile (\<lambda>c. \<not> tok_space c) (c # cs), s) \<in> measure length" by simp
qed simp

declare tok_words.simps [simp del]

definition cutLongStr :: "string \<Rightarrow> string list" where
  "cutLongStr s = (if s = [] then [] else tok_words s)"

lemma tok_words_Nil [simp]: "tok_words [] = []"
  by (simp add: tok_words.simps [of "[]"])

lemma tok_words_space [simp]: "tok_space c \<Longrightarrow> tok_words (c # s) = tok_words s"
  by (simp add: tok_words.simps [of "c # s"] tok_words.simps [of s])

lemma tok_words_word:
  assumes "w \<noteq> []" and "\<forall>c \<in> set w. \<not> tok_space c" and "s = [] \<or> tok_space (hd s)"
  shows "tok_words (w @ s) = w # tok_words s"
proof -
  obtain c cs where w: "w = c # cs" using assms(1) by (cases w) auto
  have drop: "dropWhile tok_space (w @ s) = w @ s" using assms(2) w by simp
  have take: "takeWhile (\<lambda>c. \<not> tok_space c) (w @ s) = w"
    "dropWhile (\<lambda>c. \<not> tok_space c) (w @ s) = s"
    using assms(2,3) by (cases s; simp)+
  show ?thesis
    using drop take w by (subst tok_words.simps) simp
qed

text \<open>Tokens are never empty and hold no separator.\<close>

lemma tok_words_clean:
  "w \<in> set (tok_words s) \<Longrightarrow> w \<noteq> [] \<and> (\<forall>c \<in> set w. \<not> tok_space c)"
proof (induction s rule: tok_words.induct)
  case (1 s)
  show ?case
  proof (cases "dropWhile tok_space s")
    case Nil
    with "1.prems" show ?thesis by (simp add: tok_words.simps [of s])
  next
    case (Cons c cs)
    then have c: "\<not> tok_space c" by (metis hd_dropWhile list.distinct(1) list.sel(1))
    from "1.prems" Cons consider "w = takeWhile (\<lambda>c. \<not> tok_space c) (c # cs)"
      | "w \<in> set (tok_words (dropWhile (\<lambda>c. \<not> tok_space c) (c # cs)))"
      by (auto simp: tok_words.simps [of s])
    then show ?thesis
    proof cases
      case 1
      then show ?thesis using c by (auto dest: set_takeWhileD)
    next
      case 2
      show ?thesis by (rule "1.IH" [OF Cons 2])
    qed
  qed
qed

fun join_with :: "char \<Rightarrow> string list \<Rightarrow> string" where
  "join_with c [] = []"
| "join_with c [w] = w"
| "join_with c (w # ws) = w @ c # join_with c ws"

section \<open>Properties\<close>

text \<open>squashing a vector with \<open>-f\<close> undoes squashing it with \<open>f > 0\<close>, and squashing with any
  factor keeps the length and the interval \<open>[-1, 1]\<close>.\<close>

theorem squash_inverse:
  "(0 < f \<longrightarrow> squash (squash x f) (- f) = x) \<and> length (squash x g) = length x \<and>
   ((\<forall>a \<in> set x. \<bar>a\<bar> \<le> 1) \<longrightarrow> (\<forall>a \<in> set (squash x g). \<bar>a\<bar> \<le> 1))"
  by (auto simp: squash_def comp_def squash1_inverse squash1_bound)

theorem squash_inverse_witness: "squash (squash [1, 2] 3) (- 3) = [1, 2]"
  using squash_inverse [of 3 "[1, 2]" 3] by simp

text \<open>\<open>str_replace\<close> replaces the first occurrence of the pattern and reports whether there
  was one; without an occurrence the string is unchanged.\<close>

theorem str_replace_spec:
  "case str_replace s from repl of
     (True, t) \<Rightarrow> \<exists>a b. s = a @ from @ b \<and> t = a @ repl @ b \<and>
        (\<forall>j < length a. take (length from) (drop j s) \<noteq> from)
   | (False, t) \<Rightarrow> t = s \<and> \<not> (\<exists>a b. s = a @ from @ b)"
  using str_replace_first [of s "from" repl] str_replace_absent [of s "from" repl]
  by (auto split: prod.splits bool.splits)

theorem str_replace_spec_witness:
  "\<exists>a b. ''abab'' = a @ ''b'' @ b \<and> snd (str_replace ''abab'' ''b'' ''c'') = a @ ''c'' @ b"
proof -
  have "fst (str_replace ''abab'' ''b'' ''c'') = True" by (simp add: str_replace_def)
  then show ?thesis using str_replace_spec [of "''abab''" "''b''" "''c''"]
    by (cases "str_replace ''abab'' ''b'' ''c''") auto
qed

text \<open>cutting a string at separators gives back the words it was joined from.\<close>

theorem cutLongStr_joined:
  assumes "tok_space c" and "\<forall>w \<in> set ws. w \<noteq> [] \<and> (\<forall>d \<in> set w. \<not> tok_space d)"
  shows "cutLongStr (join_with c ws) = ws"
proof -
  have "tok_words (join_with c ws) = ws"
    using assms
  proof (induction c ws rule: join_with.induct)
    case (2 c w)
    then show ?case using tok_words_word [of w "[]"] by simp
  next
    case (3 c w v vs)
    define s where "s = join_with c (v # vs)"
    have IH: "tok_words s = v # vs" using 3 unfolding s_def by auto
    have "tok_words (w @ c # s) = w # tok_words (c # s)"
      using "3.prems" by (intro tok_words_word) simp_all
    with IH show ?case using "3.prems"(1) by (simp add: s_def [symmetric])
  qed simp
  then show ?thesis by (auto simp: cutLongStr_def)
qed

theorem cutLongStr_joined_witness: "cutLongStr (''ab,cd'') = [''ab'', ''cd'']"
  using cutLongStr_joined [of "CHR '',''" "[''ab'', ''cd'']"] by (simp add: tok_space_def)

end
