(* ===== verification/Vectors.thy ===== *)
theory Vectors
  imports Prelude
begin

text \<open>
  The vector helpers of \<open>base/include/grl/vector.h\<close> in the configuration the library is built
  with (\<open>GRL_EIGEN_VECTOR\<close> defined): constructors, \<open>sum\<close>, \<open>prod\<close>, \<open>dot\<close>, \<open>extend\<close>, and the
  stream operators that write and read a vector in the form \<open>[ a, b ]\<close>.

  The text of a single element is up to the standard library, so the printer and the reader of
  elements are parameters: \<open>shw\<close> gives the characters of an element; \<open>rd\<close> looks at the unread
  characters and gives the element and the number of characters it took, or \<open>None\<close>
  where \<open>operator>>\<close> would set the fail bit. Reading up to the last character sets the
  end-of-file bit.
\<close>

section \<open>Element-wise operations\<close>

definition ConstantVector :: "nat \<Rightarrow> real \<Rightarrow> dvec" where
  "ConstantVector sz d = replicate sz d"

definition vec_sum :: "dvec \<Rightarrow> real" where
  "vec_sum a = foldl (+) 0 a"

definition vec_prod :: "dvec \<Rightarrow> real" where
  "vec_prod a = foldl (*) 1 a"

text \<open>Eigen requires both operands of an element-wise operation to have the same size.\<close>

definition vmul :: "dvec \<Rightarrow> dvec \<Rightarrow> dvec" where
  "vmul a b = map2 (*) a b"

definition vadd :: "dvec \<Rightarrow> dvec \<Rightarrow> dvec" where
  "vadd a b = map2 (+) a b"

definition vsub :: "dvec \<Rightarrow> dvec \<Rightarrow> dvec" where
  "vsub a b = map2 (-) a b"

definition vscale :: "real \<Rightarrow> dvec \<Rightarrow> dvec" where
  "vscale c a = map (\<lambda>x. c * x) a"

definition dot :: "dvec \<Rightarrow> dvec \<Rightarrow> real" where
  "dot a b = vec_sum (vmul a b)"

definition extend :: "dvec \<Rightarrow> dvec \<Rightarrow> dvec" where
  "extend a b = map (\<lambda>ii. if ii < length a then a ! ii else b ! (ii - length a))
                    [0..<length a + length b]"

lemma vec_sum_eq [grl_simps]: "vec_sum a = sum_list a"
proof -
  have "foldl (+) s a = s + sum_list a" for s by (induction a arbitrary: s) auto
  then show ?thesis by (simp add: vec_sum_def)
qed

lemma vec_prod_eq [grl_simps]: "vec_prod a = prod_list a"
proof -
  have "foldl (*) s a = s * prod_list a" for s by (induction a arbitrary: s) auto
  then show ?thesis by (simp add: vec_prod_def)
qed

lemma extend_append [grl_simps]: "extend a b = a @ b"
  by (rule nth_equalityI) (auto simp: extend_def nth_append)

lemma length_vmul [simp]: "length (vmul a b) = min (length a) (length b)"
  by (simp add: vmul_def)

lemma length_vadd [simp]: "length (vadd a b) = min (length a) (length b)"
  by (simp add: vadd_def)

lemma length_vsub [simp]: "length (vsub a b) = min (length a) (length b)"
  by (simp add: vsub_def)

lemma length_vscale [simp]: "length (vscale c a) = length a"
  by (simp add: vscale_def)

lemma nth_vadd [simp]: "i < length a \<Longrightarrow> i < length b \<Longrightarrow> vadd a b ! i = a ! i + b ! i"
  by (simp add: vadd_def)

lemma nth_vsub [simp]: "i < length a \<Longrightarrow> i < length b \<Longrightarrow> vsub a b ! i = a ! i - b ! i"
  by (simp add: vsub_def)

lemma nth_vmul [simp]: "i < length a \<Longrightarrow> i < length b \<Longrightarrow> vmul a b ! i = a ! i * b ! i"
  by (simp add: vmul_def)

lemma nth_vscale [simp]: "i < length a \<Longrightarrow> vscale c a ! i = c * a ! i"
  by (simp add: vscale_def)

lemma dot_Cons [simp]: "dot (x # xs) (y # ys) = x * y + dot xs ys"
  by (simp add: dot_def vmul_def vec_sum_eq)

lemma dot_Nil [simp]: "dot [] ys = 0" "dot xs [] = 0"
  by (simp_all add: dot_def vmul_def vec_sum_def)

section \<open>Writing a vector\<close>

text \<open>The loop writes a separator after every element but the last.\<close>

fun write_elems :: "('t \<Rightarrow> string) \<Rightarrow> 't list \<Rightarrow> string" where
  "write_elems shw [] = []"
| "write_elems shw [x] = shw x"
| "write_elems shw (x # xs) = shw x @ '', '' @ write_elems shw xs"

definition vec_write :: "('t \<Rightarrow> string) \<Rightarrow> 't list \<Rightarrow> string" where
  "vec_write shw v = ''[ '' @ write_elems shw v @ '' ]''"

section \<open>Reading a vector\<close>

datatype sstate = SGood | SEof | SFail

definition blank :: "char \<Rightarrow> bool" where
  "blank c \<longleftrightarrow> c = CHR '' '' \<or> c = CHR 0x09"

text \<open>The two inner loops: to the first character that is not blank, to the next separator.\<close>

fun skip_blank :: "string \<Rightarrow> (char \<times> string) option" where
  "skip_blank [] = None"
| "skip_blank (c # cs) = (if blank c then skip_blank cs else Some (c, cs))"

fun skip_sep :: "string \<Rightarrow> (char \<times> string) option" where
  "skip_sep [] = None"
| "skip_sep (c # cs) = (if c \<noteq> CHR '']'' \<and> c \<noteq> CHR '','' then skip_sep cs else Some (c, cs))"

lemma skip_blank_length: "skip_blank b = Some (c, r) \<Longrightarrow> length r < length b"
  by (induction b) (auto split: if_splits)

lemma skip_sep_length: "skip_sep b = Some (c, r) \<Longrightarrow> length r < length b"
  by (induction b) (auto split: if_splits)

text \<open>
  The outer loop, entered with a good stream whose unread characters are \<open>b\<close>. An element that
  ends at the end of the input is dropped, because the stream is no longer good.
\<close>

function read_elems :: "(string \<Rightarrow> ('t \<times> nat) option) \<Rightarrow> string \<Rightarrow> 't list \<Rightarrow>
    't list \<times> string \<times> sstate" where
  "read_elems rd b v =
     (case skip_blank b of
        None \<Rightarrow> (v, [], SFail)
      | Some (c, r) \<Rightarrow>
          if c = CHR '']'' then (v, r, SGood)
          else case rd (c # r) of
                 None \<Rightarrow> (v, c # r, SFail)
               | Some (e, n) \<Rightarrow>
                   if length (c # r) \<le> n then (v, [], SEof)
                   else case skip_sep (drop n (c # r)) of
                          None \<Rightarrow> (v @ [e], [], SFail)
                        | Some (d, r') \<Rightarrow>
                            if d = CHR '']'' then (v @ [e], r', SGood)
                            else read_elems rd r' (v @ [e]))"
  by pat_completeness auto
termination
proof (relation "measure (\<lambda>(rd, b, v). length b)", goal_cases)
  case (2 rd b v p c r q e n q' d r')
  have "length r < length b" "length r' < length (drop n (c # r))"
    using 2 skip_blank_length skip_sep_length by blast+
  then show ?case by simp
qed simp

declare read_elems.simps [simp del]

definition vec_read :: "(string \<Rightarrow> ('t \<times> nat) option) \<Rightarrow> string \<Rightarrow> 't list \<times> string \<times> sstate" where
  "vec_read rd b =
     (case skip_blank b of
        None \<Rightarrow> ([], [], SFail)
      | Some (c, r) \<Rightarrow>
          if c \<noteq> CHR ''['' then
            (case rd (c # r) of
               None \<Rightarrow> ([], c # r, SFail)
             | Some (e, n) \<Rightarrow>
                 ([e], drop n (c # r), if length (c # r) \<le> n then SEof else SGood))
          else read_elems rd r [])"

text \<open>
  What reading back needs of the element text: it starts with neither a blank nor a closing
  bracket, and the reader takes exactly it when a blank, comma or bracket follows.
\<close>

definition elem_text1 :: "('t \<Rightarrow> string) \<Rightarrow> (string \<Rightarrow> ('t \<times> nat) option) \<Rightarrow> 't \<Rightarrow> bool" where
  "elem_text1 shw rd x \<longleftrightarrow>
     (case shw x of [] \<Rightarrow> False | c # _ \<Rightarrow> \<not> blank c \<and> c \<noteq> CHR '']'') \<and>
     (\<forall>c s. blank c \<or> c = CHR '','' \<or> c = CHR '']'' \<longrightarrow>
        rd (shw x @ c # s) = Some (x, length (shw x)))"

definition elem_text :: "('t \<Rightarrow> string) \<Rightarrow> (string \<Rightarrow> ('t \<times> nat) option) \<Rightarrow> bool" where
  "elem_text shw rd \<longleftrightarrow> (\<forall>x. elem_text1 shw rd x)"

lemma elem_textD:
  assumes "elem_text1 shw rd x"
  shows "\<exists>c cs. shw x = c # cs \<and> \<not> blank c \<and> c \<noteq> CHR '']''"
    and "blank c \<or> c = CHR '','' \<or> c = CHR '']'' \<Longrightarrow> rd (shw x @ c # s) = Some (x, length (shw x))"
  using assms by (auto simp: elem_text1_def split: list.splits)

lemma blank_space [simp]: "blank (CHR '' '')"
  by (simp add: blank_def)

text \<open>One element followed by its terminator.\<close>

lemma read_elems_step:
  assumes et: "elem_text1 shw rd x" and d: "d = CHR '','' \<or> d = CHR '']''"
    and pad: "pad = [] \<or> pad = '' ''" and lead: "lead = [] \<or> lead = '' ''"
  shows "read_elems rd (lead @ shw x @ pad @ d # s) v =
         (if d = CHR '']'' then (v @ [x], s, SGood) else read_elems rd s (v @ [x]))"
proof -
  obtain c cs where c: "shw x = c # cs" "\<not> blank c" "c \<noteq> CHR '']''"
    using elem_textD(1) [OF et] by blast
  let ?t = "cs @ pad @ d # s"
  have skip: "skip_blank (lead @ shw x @ pad @ d # s) = Some (c, ?t)"
    using c lead by auto
  have rd: "rd (c # ?t) = Some (x, length (shw x))"
    using pad d elem_textD(2) [OF et, of d s] elem_textD(2) [OF et, of "CHR '' ''" "d # s"] c
    by auto
  have drop: "drop (length (shw x)) (c # ?t) = pad @ d # s"
    using c by simp
  have sep: "skip_sep (pad @ d # s) = Some (d, s)" using pad d by auto
  have len: "\<not> length (c # ?t) \<le> length (shw x)" using c by simp
  show ?thesis
    by (subst read_elems.simps) (simp only: skip rd drop sep len c(3) option.case prod.case if_False)
qed

lemma read_write_elems:
  assumes "\<forall>x \<in> set v. elem_text1 shw rd x" and "v \<noteq> []"
  shows "read_elems rd ('' '' @ write_elems shw v @ '' ]'' @ s) acc = (acc @ v, s, SGood)"
  using assms
proof (induction shw v arbitrary: acc rule: write_elems.induct)
  case (2 shw x)
  from "2.prems"(1) have "elem_text1 shw rd x" by simp
  from read_elems_step [OF this, of "CHR '']''" "'' ''" "'' ''" s acc]
  show ?case by simp
next
  case (3 shw x y ys)
  let ?rest = "'' '' @ write_elems shw (y # ys) @ '' ]'' @ s"
  from "3.prems"(1) have "elem_text1 shw rd x" by simp
  from read_elems_step [OF this, of "CHR '',''" "[]" "'' ''" ?rest acc] "3.IH" "3.prems"
  show ?case by simp
qed simp

section \<open>Property\<close>

text \<open>round trip. For an element type whose text the element reader takes back, reading what
  the vector writer wrote gives the vector and leaves the stream right after the bracket.\<close>

theorem vector_roundtrip:
  assumes "elem_text shw rd"
  shows "vec_read rd (vec_write shw v @ s) = (v, s, SGood)"
proof (cases "v = []")
  case True
  have "read_elems rd (''  ]'' @ s) [] = ([], s, SGood)"
    by (subst read_elems.simps) (simp add: blank_def)
  then show ?thesis
    using True by (simp add: vec_read_def vec_write_def blank_def)
next
  case False
  from read_write_elems [OF _ False, of shw rd] assms
  show ?thesis by (simp add: vec_read_def vec_write_def blank_def elem_text_def)
qed

definition shw_bit :: "bool \<Rightarrow> string" where
  "shw_bit b = (if b then ''1'' else ''0'')"

definition rd_bit :: "string \<Rightarrow> (bool \<times> nat) option" where
  "rd_bit s = (case s of [] \<Rightarrow> None
     | c # cs \<Rightarrow> if c = CHR ''1'' then Some (True, 1) else if c = CHR ''0'' then Some (False, 1) else None)"

theorem vector_roundtrip_witness:
  "vec_read rd_bit (vec_write shw_bit [True, False] @ ''x'') = ([True, False], ''x'', SGood)"
  by (rule vector_roundtrip) (simp add: elem_text_def elem_text1_def shw_bit_def rd_bit_def blank_def)

end
