(* ===== verification/Projections.thy ===== *)
theory Projections
  imports Vectors
begin

text \<open>
  Projections (\<open>base/include/grl/projection.h\<close>): the read-out of a representation, and the
  saturated subtraction \<open>ssub\<close> that replacing traces use. A failed \<open>dynamic_cast\<close>, a failed
  assertion and a write outside a vector are \<open>None\<close>. The two operands of \<open>ssub\<close> are distinct
  objects.
\<close>

section \<open>Data\<close>

record index_projection =
  ip_indices :: ivec
  ip_weights :: dvec

datatype projection =
    VectorProjection dvec
  | IndexProjection index_projection

definition invalid_index :: nat where
  "invalid_index = size_max"

section \<open>Saturated subtraction\<close>

definition vp_ssub :: "dvec \<Rightarrow> dvec \<Rightarrow> dvec option" where
  "vp_ssub v w =
     (if length v = length w then Some (map2 (\<lambda>a b. max 0 (a - b)) v w) else None)"

text \<open>The inner loops over \<open>jj\<close>, for one entry of the left operand.\<close>

fun clear_index :: "nat \<Rightarrow> ivec \<Rightarrow> nat" where
  "clear_index i [] = i"
| "clear_index i (j # js) = clear_index (if i = j then invalid_index else i) js"

fun reduce_weight :: "nat \<Rightarrow> real \<Rightarrow> ivec \<Rightarrow> dvec \<Rightarrow> real" where
  "reduce_weight i w (j # js) (v # vs) =
     reduce_weight i (if i = j then max 0 (w - v) else w) js vs"
| "reduce_weight i w _ _ = w"

definition ip_ssub :: "index_projection \<Rightarrow> index_projection \<Rightarrow> index_projection" where
  "ip_ssub p q =
     (if ip_weights p = [] \<or> ip_weights q = []
      then p\<lparr>ip_indices := map (\<lambda>i. clear_index i (ip_indices q)) (ip_indices p)\<rparr>
      else p\<lparr>ip_weights := map2 (\<lambda>i w. reduce_weight i w (ip_indices q) (ip_weights q))
                             (ip_indices p) (ip_weights p)\<rparr>)"

fun ssub :: "projection \<Rightarrow> projection \<Rightarrow> projection option" where
  "ssub (VectorProjection v) (VectorProjection w) = map_option VectorProjection (vp_ssub v w)"
| "ssub (IndexProjection p) (IndexProjection q) = Some (IndexProjection (ip_ssub p q))"
| "ssub _ _ = None"

section \<open>Conversion to a vector\<close>

fun write_all :: "(nat \<times> real) list \<Rightarrow> dvec \<Rightarrow> dvec option" where
  "write_all [] v = Some v"
| "write_all ((i, x) # ws) v = (if i < length v then write_all ws (v[i := x]) else None)"

definition ip_vector :: "index_projection \<Rightarrow> nat \<Rightarrow> dvec option" where
  "ip_vector p sz =
     (if ip_weights p = []
      then write_all (map (\<lambda>i. (i, 1)) (ip_indices p)) (replicate sz 0)
      else write_all (zip (ip_indices p) (ip_weights p)) (replicate sz 0))"

section \<open>Activations\<close>

text \<open>
  The activation of a projection at an index, which the representations read: the entry of a
  vector; 1 or the weight at an index that is present, 0 elsewhere. Cleared entries have no
  activation, and an index that occurs twice is counted once.
\<close>

definition vec_act :: "dvec \<Rightarrow> nat \<Rightarrow> real" where
  "vec_act v i = (if i < length v then v ! i else 0)"

definition ip_act :: "index_projection \<Rightarrow> nat \<Rightarrow> real" where
  "ip_act p i =
     (if i = invalid_index then 0
      else if ip_weights p = [] then (if i \<in> set (ip_indices p) then 1 else 0)
      else (case map_of (zip (ip_indices p) (ip_weights p)) i of None \<Rightarrow> 0 | Some w \<Rightarrow> w))"

text \<open>A well-formed index projection has no weights or one per index, all between 0 and 1.\<close>

definition ip_wf :: "index_projection \<Rightarrow> bool" where
  "ip_wf p \<longleftrightarrow>
     (ip_weights p = [] \<or> length (ip_weights p) = length (ip_indices p) \<and> distinct (ip_indices p)) \<and>
     (\<forall>w \<in> set (ip_weights p). 0 \<le> w \<and> w \<le> 1)"

definition vp_wf :: "nat \<Rightarrow> dvec \<Rightarrow> bool" where
  "vp_wf n v \<longleftrightarrow> length v = n \<and> (\<forall>x \<in> set v. 0 \<le> x \<and> x \<le> 1)"

lemma clear_index_invalid [simp]: "clear_index invalid_index js = invalid_index"
  by (induction js) auto

lemma clear_index_eq: "clear_index i js = (if i \<in> set js then invalid_index else i)"
  by (induction js) auto

lemma reduce_weight_notin: "i \<notin> set js \<Longrightarrow> reduce_weight i w js vs = w"
  by (induction i w js vs rule: reduce_weight.induct) auto

lemma reduce_weight_distinct:
  assumes "distinct js" and "length js = length vs" and "0 \<le> w"
  shows "reduce_weight i w js vs =
         max 0 (w - (case map_of (zip js vs) i of None \<Rightarrow> 0 | Some v \<Rightarrow> v))"
  using assms
proof (induction i w js vs rule: reduce_weight.induct)
  case (1 i w j js v vs)
  then show ?case
    by (cases "i = j") (auto simp: reduce_weight_notin)
qed auto

lemma map_of_zip_map2:
  "length ws = length js \<Longrightarrow>
   map_of (zip js (map2 f js ws)) i = map_option (f i) (map_of (zip js ws) i)"
  by (induction js ws rule: list_induct2') auto

section \<open>The interface: saturating subtraction\<close>

text \<open>
  What a replacing trace relies on: activations lie between 0 and 1, and subtracting is
  pointwise and stops at 0.
\<close>

locale saturating =
  fixes sub :: "'p \<Rightarrow> 'p \<Rightarrow> 'p option"
    and act :: "'p \<Rightarrow> nat \<Rightarrow> real"
    and wf :: "'p \<Rightarrow> bool"
  assumes sub_ok: "wf p \<Longrightarrow> wf q \<Longrightarrow>
      \<exists>r. sub p q = Some r \<and> wf r \<and> (\<forall>i. act r i = max 0 (act p i - act q i))"
    and act_range: "wf p \<Longrightarrow> 0 \<le> act p i \<and> act p i \<le> 1"
begin

lemma sub_le: "wf p \<Longrightarrow> wf q \<Longrightarrow> sub p q = Some r \<Longrightarrow> act r i \<le> act p i"
  using sub_ok [of p q] act_range [of p i] act_range [of q i] by auto

lemma sub_wf: "wf p \<Longrightarrow> wf q \<Longrightarrow> sub p q = Some r \<Longrightarrow> wf r"
  using sub_ok [of p q] by auto

text \<open>Subtracting one projection from each of a list, as a trace does.\<close>

primrec sub_all :: "'p \<Rightarrow> 'p list \<Rightarrow> 'p list option" where
  "sub_all q [] = Some []"
| "sub_all q (p # ps) =
     Option.bind (sub p q) (\<lambda>r. map_option ((#) r) (sub_all q ps))"

definition total_act :: "'p list \<Rightarrow> nat \<Rightarrow> real" where
  "total_act ps i = sum_list (map (\<lambda>p. act p i) ps)"

lemma total_act_simps [simp]:
  "total_act [] i = 0" "total_act (p # ps) i = act p i + total_act ps i"
  "total_act (ps @ qs) i = total_act ps i + total_act qs i"
  by (simp_all add: total_act_def)

lemma total_act_nonneg: "\<forall>p \<in> set ps. wf p \<Longrightarrow> 0 \<le> total_act ps i"
  by (induction ps) (auto intro: add_nonneg_nonneg dest: act_range)

lemma sub_all_ok:
  assumes "wf q" and "\<forall>p \<in> set ps. wf p"
  shows "\<exists>rs. sub_all q ps = Some rs \<and> length rs = length ps \<and> (\<forall>r \<in> set rs. wf r) \<and>
    (\<forall>i. total_act rs i \<le> max 0 (total_act ps i - act q i))"
  using assms(2)
proof (induction ps)
  case Nil
  then show ?case by simp
next
  case (Cons p ps)
  then obtain rs where rs: "sub_all q ps = Some rs" "length rs = length ps" "\<forall>r \<in> set rs. wf r"
    "\<And>i. total_act rs i \<le> max 0 (total_act ps i - act q i)" by auto
  obtain r where r: "sub p q = Some r" "wf r" "\<And>i. act r i = max 0 (act p i - act q i)"
    using sub_ok [of p q] Cons.prems assms(1) by auto
  have "total_act (r # rs) i \<le> max 0 (total_act (p # ps) i - act q i)" for i
    using rs(4) [of i] r(3) [of i] act_range [of q i] act_range [of p i] assms(1) Cons.prems
      total_act_nonneg [of ps i] by auto
  then show ?case using rs r by auto
qed

text \<open>With the new projection appended the total activation stays within 1.\<close>

lemma replace_bounded:
  assumes "wf q" and "\<forall>p \<in> set ps. wf p" and "\<forall>i. total_act ps i \<le> 1"
  shows "\<exists>rs. sub_all q ps = Some rs \<and> length rs = length ps \<and> (\<forall>r \<in> set (rs @ [q]). wf r) \<and>
    (\<forall>i. total_act (rs @ [q]) i \<le> 1)"
proof -
  obtain rs where rs: "sub_all q ps = Some rs" "length rs = length ps" "\<forall>r \<in> set rs. wf r"
    "\<And>i. total_act rs i \<le> max 0 (total_act ps i - act q i)"
    using sub_all_ok [OF assms(1,2)] by blast
  have "total_act (rs @ [q]) i \<le> 1" for i
    using rs(4) [of i] assms(3) [rule_format, of i] act_range [OF assms(1), of i] by auto
  then show ?thesis using rs assms(1) by auto
qed

end

lemma map_of_zip_range:
  "map_of (zip js ws) i = Some w \<Longrightarrow> w \<in> set ws"
  by (metis in_set_zipE map_of_SomeD)

lemma ip_act_range: "ip_wf p \<Longrightarrow> 0 \<le> ip_act p i \<and> ip_act p i \<le> 1"
  by (auto simp: ip_act_def ip_wf_def split: option.splits dest: map_of_zip_range)

lemma ip_act_ssub_plain:
  assumes "ip_weights p = []" and "ip_weights q = []"
  shows "ip_act (ip_ssub p q) i = max 0 (ip_act p i - ip_act q i)"
  using assms by (auto simp: ip_act_def ip_ssub_def clear_index_eq image_iff)

lemma ip_act_ssub_weighted:
  assumes "ip_wf p" and "ip_wf q" and "ip_weights p \<noteq> []" and "ip_weights q \<noteq> []"
  shows "ip_act (ip_ssub p q) i = max 0 (ip_act p i - ip_act q i)"
proof -
  have len: "length (ip_weights p) = length (ip_indices p)"
    "length (ip_weights q) = length (ip_indices q)" "distinct (ip_indices q)"
    using assms by (auto simp: ip_wf_def)
  have w: "w \<in> set (ip_weights p) \<Longrightarrow> reduce_weight i w (ip_indices q) (ip_weights q) =
     max 0 (w - (case map_of (zip (ip_indices q) (ip_weights q)) i of None \<Rightarrow> 0 | Some v \<Rightarrow> v))" for w
    using assms(1) len by (intro reduce_weight_distinct) (auto simp: ip_wf_def)
  have q0: "0 \<le> ip_act q i" using ip_act_range [OF assms(2)] by simp
  show ?thesis
  proof (cases "map_of (zip (ip_indices p) (ip_weights p)) i")
    case None
    then show ?thesis
      using assms(3,4) len q0
      by (auto simp: ip_act_def ip_ssub_def map_of_zip_map2 comp_def simp del: map_of_zip_is_None)
  next
    case (Some v)
    then show ?thesis
      using assms(3,4) len w [OF map_of_zip_range [OF Some]]
      by (auto simp: ip_act_def ip_ssub_def map_of_zip_map2)
  qed
qed

text \<open>The three kinds of projections a trace can hold.\<close>

definition ip_plain :: "index_projection \<Rightarrow> bool" where
  "ip_plain p \<longleftrightarrow> ip_wf p \<and> ip_weights p = []"

definition ip_weighted :: "index_projection \<Rightarrow> bool" where
  "ip_weighted p \<longleftrightarrow> ip_wf p \<and> ip_weights p \<noteq> []"

lemma ip_ssub_plain_wf: "ip_plain p \<Longrightarrow> ip_plain q \<Longrightarrow> ip_plain (ip_ssub p q)"
  by (simp add: ip_plain_def ip_wf_def ip_ssub_def)

lemma reduce_weight_range:
  "0 \<le> w \<Longrightarrow> w \<le> 1 \<Longrightarrow> \<forall>v \<in> set vs. 0 \<le> v \<Longrightarrow>
   0 \<le> reduce_weight i w js vs \<and> reduce_weight i w js vs \<le> 1"
  by (induction i w js vs rule: reduce_weight.induct) auto

lemma ip_ssub_weighted_wf:
  assumes "ip_weighted p" and "ip_weighted q"
  shows "ip_weighted (ip_ssub p q)"
proof -
  have ne: "ip_weights p \<noteq> []" "ip_weights q \<noteq> []" and
    len: "length (ip_weights p) = length (ip_indices p)"
    using assms by (auto simp: ip_weighted_def ip_wf_def)
  have "w \<in> set (map2 (\<lambda>i w. reduce_weight i w (ip_indices q) (ip_weights q))
      (ip_indices p) (ip_weights p)) \<Longrightarrow> 0 \<le> w \<and> w \<le> 1" for w
    using assms by (auto simp: ip_weighted_def ip_wf_def dest!: set_zip_rightD
        intro!: reduce_weight_range [THEN conjunct1] reduce_weight_range [THEN conjunct2])
  then show ?thesis
    using assms ne len by (auto simp: ip_weighted_def ip_wf_def ip_ssub_def)
qed

lemma vp_ssub_ok:
  assumes "vp_wf n v" and "vp_wf n w"
  shows "\<exists>r. vp_ssub v w = Some r \<and> vp_wf n r \<and>
    (\<forall>i. vec_act r i = max 0 (vec_act v i - vec_act w i))"
proof -
  let ?r = "map2 (\<lambda>a b. max 0 (a - b)) v w"
  have len: "length v = n" "length w = n" using assms by (auto simp: vp_wf_def)
  have "0 \<le> x \<and> x \<le> 1" if x: "x \<in> set ?r" for x
  proof -
    from x obtain a b where ab: "(a, b) \<in> set (zip v w)" "x = max 0 (a - b)" by auto
    then have "a \<in> set v" "b \<in> set w" by (auto dest: set_zip_leftD set_zip_rightD)
    then have "0 \<le> a" "a \<le> 1" "0 \<le> b" using assms by (auto simp: vp_wf_def)
    then show ?thesis using ab(2) by auto
  qed
  then have "vp_wf n ?r" using len by (simp add: vp_wf_def)
  moreover have "vec_act ?r i = max 0 (vec_act v i - vec_act w i)" for i
    using len by (simp add: vec_act_def)
  ultimately show ?thesis using len by (simp add: vp_ssub_def)
qed

lemma vec_act_range: "vp_wf n v \<Longrightarrow> 0 \<le> vec_act v i \<and> vec_act v i \<le> 1"
  by (simp add: vp_wf_def vec_act_def)

lemma ip_plain_ok:
  assumes "ip_plain p" and "ip_plain q"
  shows "\<exists>r. Some (ip_ssub p q) = Some r \<and> ip_plain r \<and>
    (\<forall>i. ip_act r i = max 0 (ip_act p i - ip_act q i))"
  using ip_ssub_plain_wf [OF assms] assms by (simp add: ip_act_ssub_plain ip_plain_def)

lemma ip_weighted_ok:
  assumes "ip_weighted p" and "ip_weighted q"
  shows "\<exists>r. Some (ip_ssub p q) = Some r \<and> ip_weighted r \<and>
    (\<forall>i. ip_act r i = max 0 (ip_act p i - ip_act q i))"
  using ip_ssub_weighted_wf [OF assms] assms by (simp add: ip_act_ssub_weighted ip_weighted_def)

interpretation vp: saturating vp_ssub vec_act "vp_wf n" for n
  by unfold_locales (rule vp_ssub_ok vec_act_range; assumption)+

interpretation ip_plain: saturating "\<lambda>p q. Some (ip_ssub p q)" ip_act ip_plain
  by unfold_locales (rule ip_plain_ok, assumption+, simp add: ip_plain_def ip_act_range)

interpretation ip_weighted: saturating "\<lambda>p q. Some (ip_ssub p q)" ip_act ip_weighted
  by unfold_locales (rule ip_weighted_ok, assumption+, simp add: ip_weighted_def ip_act_range)

text \<open>The dense vector of a projection in range holds its activations.\<close>

lemma write_all_Some:
  "\<forall>(i, x) \<in> set ws. i < length v \<Longrightarrow> \<exists>u. write_all ws v = Some u \<and> length u = length v"
proof (induction ws arbitrary: v)
  case (Cons w ws)
  obtain i x where w: "w = (i, x)" by fastforce
  then have "\<forall>(j, y) \<in> set ws. j < length (v[i := x])" using Cons.prems by auto
  from Cons.IH [OF this] show ?case using Cons.prems w by auto
qed simp

lemma write_all_nth:
  assumes "write_all ws v = Some u" and "distinct (map fst ws)" and "i < length v"
  shows "u ! i = (case map_of ws i of None \<Rightarrow> v ! i | Some x \<Rightarrow> x)"
  using assms
proof (induction ws arbitrary: v)
  case (Cons w ws)
  obtain j x where w: "w = (j, x)" by fastforce
  have wa: "write_all ws (v[j := x]) = Some u" "j < length v"
    using Cons.prems(1) w by (auto split: if_splits)
  have IH: "u ! i = (case map_of ws i of None \<Rightarrow> v[j := x] ! i | Some y \<Rightarrow> y)"
    using Cons.IH [OF wa(1)] Cons.prems by simp
  show ?case
  proof (cases "i = j")
    case True
    then have "map_of ws i = None"
      using Cons.prems(2) w by (metis distinct.simps(2) fst_conv list.map(2) map_of_eq_None_iff list.set_map)
    then show ?thesis using IH w True wa(2) by simp
  next
    case False
    then have "v[j := x] ! i = v ! i" by simp
    then show ?thesis using False IH w by (simp only: map_of.simps fst_conv snd_conv fun_upd_apply if_False)
  qed
qed simp

lemma ip_vector_act:
  assumes "ip_wf p" and "distinct (ip_indices p)" and "\<forall>i \<in> set (ip_indices p). i < n"
    and "n \<le> invalid_index"
  shows "\<exists>v. ip_vector p n = Some v \<and> length v = n \<and> (\<forall>i < n. v ! i = ip_act p i)"
proof -
  let ?ws = "if ip_weights p = [] then map (\<lambda>i. (i, 1)) (ip_indices p)
             else zip (ip_indices p) (ip_weights p)"
  have len: "ip_weights p \<noteq> [] \<Longrightarrow> length (ip_weights p) = length (ip_indices p)"
    using assms(1) by (auto simp: ip_wf_def)
  have dist: "distinct (map fst ?ws)"
    using assms(2) len by (simp add: comp_def)
  have "\<forall>(i, x) \<in> set ?ws. i < length (replicate n (0 :: real))"
    using assms(3) by (auto dest: set_zip_leftD)
  from write_all_Some [OF this] obtain v where
    v: "write_all ?ws (replicate n 0) = Some v" "length v = n" by auto
  have "v ! i = ip_act p i" if "i < n" for i
    using write_all_nth [OF v(1) dist, of i] that assms(4)
    by (auto simp: ip_act_def map_of_map_restrict restrict_map_def
        simp del: map_of_zip_is_None split: option.splits if_splits)
  moreover have "ip_vector p n = Some v" using v(1) by (simp add: ip_vector_def split: if_splits)
  ultimately show ?thesis using v(2) by blast
qed

section \<open>Property\<close>

text \<open>a sparse projection and the dense vector made from it have the same activations, and the
  saturated subtraction of sparse projections is the pointwise one, cut off at zero.\<close>

theorem sparse_dense_agree:
  assumes "ip_weighted p" and "ip_weighted q" and "distinct (ip_indices p)"
    and "\<forall>i \<in> set (ip_indices p). i < n" and "n \<le> invalid_index"
  shows "(\<exists>v. ip_vector p n = Some v \<and> length v = n \<and> (\<forall>i < n. v ! i = ip_act p i)) \<and>
    (\<exists>v. ip_vector (ip_ssub p q) n = Some v \<and> (\<forall>i < n. v ! i = max 0 (ip_act p i - ip_act q i)))"
proof -
  let ?r = "ip_ssub p q"
  have same: "ip_indices ?r = ip_indices p"
    using assms(1,2) by (simp add: ip_ssub_def ip_weighted_def)
  have wf: "ip_wf p" "ip_wf ?r"
    using assms(1) ip_ssub_weighted_wf [OF assms(1,2)] by (auto simp: ip_weighted_def)
  have "ip_act ?r i = max 0 (ip_act p i - ip_act q i)" for i
    using ip_weighted_ok [OF assms(1,2)] by auto
  then show ?thesis
    using ip_vector_act [OF wf(1) assms(3,4,5)] ip_vector_act [OF wf(2), of n] assms(3,4,5)
    unfolding same by auto
qed

theorem sparse_dense_agree_witness:
  "\<exists>v. ip_vector (ip_ssub \<lparr>ip_indices = [0, 2], ip_weights = [1, 1]\<rparr>
      \<lparr>ip_indices = [2], ip_weights = [1 / 2]\<rparr>) 3 = Some v \<and> v ! 2 = 1 / 2"
proof -
  let ?p = "\<lparr>ip_indices = [0, 2], ip_weights = [1, 1]\<rparr>" and ?q = "\<lparr>ip_indices = [2], ip_weights = [1 / 2]\<rparr>"
  have "ip_weighted ?p" "ip_weighted ?q" by (simp_all add: ip_weighted_def ip_wf_def)
  moreover have "ip_act ?p 2 = 1" "ip_act ?q 2 = 1 / 2" "(3 :: nat) \<le> invalid_index"
    by (simp_all add: ip_act_def invalid_index_def size_max_def)
  ultimately show ?thesis using sparse_dense_agree [of ?p ?q 3] by auto
qed

end
