(* ===== verification/Traces.thy ===== *)
theory Traces
  imports Projections
begin

text \<open>
  Eligibility traces (\<open>base/include/grl/trace.h\<close>): a queue of projections with the decay that
  was in force when each was added, the iterator that reads it from the newest to the oldest with
  the accumulated weight, and the replacing and accumulating variants of \<open>add\<close>.

  The virtual method \<open>ssub\<close> of the projections is an argument of the replacing trace. The
  running product of the decays is a \<open>dbl\<close>, because removing an entry divides by its decay.
\<close>

section \<open>State\<close>

record 'p trace =
  tr_projections :: "('p \<times> real) list"   \<comment> \<open>front of the deque first\<close>
  tr_total_decay :: dbl

definition trace_new :: "'p trace" where
  "trace_new = \<lparr>tr_projections = [], tr_total_decay = Fin 1\<rparr>"

definition trace_size :: "'p trace \<Rightarrow> nat" where
  "trace_size t = length (tr_projections t)"

definition trace_back :: "'p trace \<Rightarrow> 'p option" where
  "trace_back t =
     (if trace_size t \<noteq> 0 then Some (fst (tr_projections t ! (trace_size t - 1))) else None)"

definition trace_clear :: "'p trace \<Rightarrow> 'p trace" where
  "trace_clear t = t\<lparr>tr_projections := [], tr_total_decay := Fin 1\<rparr>"

section \<open>Adding a projection\<close>

text \<open>The thresholds below which a trace counts as decayed.\<close>

definition replacing_dc :: real where
  "replacing_dc = 0.01"

definition accumulating_dc :: real where
  "accumulating_dc = 0.0001"

text \<open>\<open>while (*total_decay < c && p->size() > 1)\<close>: drop entries from the front.\<close>

fun pop_loop :: "real \<Rightarrow> ('p \<times> real) list \<Rightarrow> dbl \<Rightarrow> ('p \<times> real) list \<times> dbl" where
  "pop_loop c (e # e' # es) tot =
     (if d_less tot (Fin c) then pop_loop c (e' # es) (d_div tot (Fin (snd e)))
      else (e # e' # es, tot))"
| "pop_loop c es tot = (es, tot)"

text \<open>The loop that subtracts the new projection from every entry.\<close>

fun ssub_entries :: "('p \<Rightarrow> 'p \<Rightarrow> 'p option) \<Rightarrow> 'p \<Rightarrow> ('p \<times> real) list \<Rightarrow> ('p \<times> real) list option" where
  "ssub_entries ssb q [] = Some []"
| "ssub_entries ssb q ((p, d) # es) =
     (case ssb p q of
        None \<Rightarrow> None
      | Some r \<Rightarrow> map_option (\<lambda>es. (r, d) # es) (ssub_entries ssb q es))"

definition replacing_add ::
    "('p \<Rightarrow> 'p \<Rightarrow> 'p option) \<Rightarrow> 'p \<Rightarrow> real \<Rightarrow> 'p trace \<Rightarrow> 'p trace option" where
  "replacing_add ssb projection decay t =
     (let t = (if decay < replacing_dc then trace_clear t else t)
      in case ssub_entries ssb projection (tr_projections t) of
           None \<Rightarrow> None
         | Some es \<Rightarrow>
             let (es, tot) = pop_loop replacing_dc (es @ [(projection, decay)])
                                 (d_mul (tr_total_decay t) (Fin decay))
             in Some (t\<lparr>tr_projections := es, tr_total_decay := tot\<rparr>))"

definition accumulating_add :: "'p \<Rightarrow> real \<Rightarrow> 'p trace \<Rightarrow> 'p trace option" where
  "accumulating_add projection decay t =
     (let dc = accumulating_dc;
          t = (if decay < dc then trace_clear t else t);
          (es, tot) = pop_loop dc (tr_projections t @ [(projection, decay)])
                          (d_mul (tr_total_decay t) (Fin decay))
      in Some (t\<lparr>tr_projections := es, tr_total_decay := tot\<rparr>))"

section \<open>Iteration\<close>

record trace_iter =
  it_index :: nat
  it_weight :: real

definition trace_begin :: trace_iter where
  "trace_begin = \<lparr>it_index = 0, it_weight = 1\<rparr>"

definition iter_projection :: "'p trace \<Rightarrow> trace_iter \<Rightarrow> 'p option" where
  "iter_projection t it =
     (if it_index it < trace_size t
      then Some (fst (tr_projections t ! (trace_size t - it_index it - 1))) else None)"

definition iter_inc :: "'p trace \<Rightarrow> trace_iter \<Rightarrow> trace_iter option" where
  "iter_inc t it =
     (if it_index it < trace_size t
      then Some \<lparr>it_index = it_index it + 1,
                 it_weight = it_weight it *
                   snd (tr_projections t ! (trace_size t - it_index it - 1))\<rparr>
      else None)"

text \<open>The client loop \<open>for (it = begin(); it != end(); ++it)\<close>.\<close>

function trace_items_from :: "'p trace \<Rightarrow> trace_iter \<Rightarrow> ('p \<times> real) list" where
  "trace_items_from t it =
     (case (iter_projection t it, iter_inc t it) of
        (Some p, Some it') \<Rightarrow> (p, it_weight it) # trace_items_from t it'
      | _ \<Rightarrow> [])"
  by pat_completeness auto
termination
  by (relation "measure (\<lambda>(t, it). trace_size t - it_index it)")
    (auto simp: iter_inc_def split: if_splits)

declare trace_items_from.simps [simp del]

definition trace_items :: "'p trace \<Rightarrow> ('p \<times> real) list" where
  "trace_items t = trace_items_from t trace_begin"

text \<open>Closed form: the entry \<open>i\<close> steps back carries the product of the \<open>i\<close> newer decays.\<close>

definition item_weight :: "'p trace \<Rightarrow> nat \<Rightarrow> real" where
  "item_weight t i = prod_list (take i (rev (map snd (tr_projections t))))"

lemma item_weight_Suc:
  assumes "i < trace_size t"
  shows "item_weight t (Suc i) =
    item_weight t i * snd (tr_projections t ! (trace_size t - i - 1))"
  using assms by (simp add: item_weight_def trace_size_def take_Suc_conv_app_nth rev_nth Suc_diff_Suc)

lemma trace_items_from_eq:
  assumes "i \<le> trace_size t"
  shows "trace_items_from t \<lparr>it_index = i, it_weight = item_weight t i\<rparr> =
    map (\<lambda>k. (fst (tr_projections t ! (trace_size t - k - 1)), item_weight t k)) [i..<trace_size t]"
  using assms
proof (induction "trace_size t - i" arbitrary: i)
  case 0
  then show ?case
    by (subst trace_items_from.simps) (simp add: iter_projection_def)
next
  case (Suc n)
  then have lt: "i < trace_size t" by simp
  have IH: "trace_items_from t \<lparr>it_index = Suc i, it_weight = item_weight t (Suc i)\<rparr> =
    map (\<lambda>k. (fst (tr_projections t ! (trace_size t - k - 1)), item_weight t k)) [Suc i..<trace_size t]"
    using Suc lt by simp
  show ?case
    using lt IH
    by (subst trace_items_from.simps)
      (simp add: iter_projection_def iter_inc_def item_weight_Suc upt_conv_Cons)
qed

lemma trace_items_eq:
  "trace_items t =
   map (\<lambda>k. (fst (tr_projections t ! (trace_size t - k - 1)), item_weight t k)) [0..<trace_size t]"
proof -
  have "trace_begin = \<lparr>it_index = 0, it_weight = item_weight t 0\<rparr>"
    by (simp add: trace_begin_def item_weight_def)
  then show ?thesis using trace_items_from_eq [of 0 t] by (simp add: trace_items_def)
qed

section \<open>Invariant\<close>

text \<open>
  The running total is the product of the stored decays, every decay lies in \<open>(0, 1]\<close>, and a
  trace of more than one entry has not decayed below the threshold.
\<close>

definition total_ok :: "('p \<times> real) list \<Rightarrow> dbl \<Rightarrow> bool" where
  "total_ok es tot \<longleftrightarrow> tot = Fin (prod_list (map snd es)) \<and> (\<forall>(p, d) \<in> set es. 0 < d \<and> d \<le> 1)"

definition trace_inv :: "real \<Rightarrow> ('p \<Rightarrow> bool) \<Rightarrow> 'p trace \<Rightarrow> bool" where
  "trace_inv c ok t \<longleftrightarrow>
     total_ok (tr_projections t) (tr_total_decay t) \<and>
     (\<forall>(p, d) \<in> set (tr_projections t). ok p) \<and>
     (1 < trace_size t \<longrightarrow> c \<le> prod_list (map snd (tr_projections t)))"

lemma trace_new_inv: "trace_inv c ok trace_new"
  by (simp add: trace_inv_def total_ok_def trace_new_def trace_size_def)

lemma trace_clear_inv [grl_inv]: "trace_inv c ok (trace_clear t)"
  by (simp add: trace_inv_def total_ok_def trace_clear_def trace_size_def)

lemma total_ok_pos: "total_ok es tot \<Longrightarrow> 0 < prod_list (map snd es)"
  by (rule prod_list_pos) (auto simp: total_ok_def)

lemma prod_list_le_one:
  "\<forall>x \<in> set xs. 0 < x \<and> x \<le> 1 \<Longrightarrow> prod_list xs \<le> (1 :: real)"
proof (induction xs)
  case (Cons x xs)
  then have "0 < prod_list xs" by (intro prod_list_pos) simp
  with Cons show ?case by (simp add: mult_le_one)
qed simp

text \<open>The loop keeps the product exact, keeps a suffix, and stops above the threshold.\<close>

lemma pop_loop_ok:
  assumes "pop_loop c es tot = (es', tot')" and "total_ok es tot"
  shows "total_ok es' tot' \<and> (\<exists>k. es' = drop k es) \<and> (es \<noteq> [] \<longrightarrow> es' \<noteq> [] \<and> last es' = last es) \<and>
    (1 < length es' \<longrightarrow> c \<le> prod_list (map snd es'))"
  using assms
proof (induction c es tot rule: pop_loop.induct)
  case (1 c e e' es tot)
  show ?case
  proof (cases "d_less tot (Fin c)")
    case True
    obtain p d where e: "e = (p, d)" by fastforce
    have d: "0 < d" using "1.prems"(2) e by (auto simp: total_ok_def)
    have tot: "tot = Fin (d * prod_list (map snd (e' # es)))"
      using "1.prems"(2) e by (simp add: total_ok_def)
    have "total_ok (e' # es) (d_div tot (Fin (snd e)))"
      using "1.prems"(2) e d by (auto simp: tot total_ok_def)
    with "1.IH" [OF True] "1.prems"(1) True
    have IH: "total_ok es' tot'" "\<exists>k. es' = drop k (e' # es)" "es' \<noteq> []"
      "last es' = last (e' # es)" "1 < length es' \<longrightarrow> c \<le> prod_list (map snd es')" by auto
    from IH(2) have "\<exists>k. es' = drop k (e # e' # es)" by (metis drop_Suc_Cons)
    with IH show ?thesis by simp
  next
    case False
    then have "es' = e # e' # es" "tot' = tot" using "1.prems"(1) by auto
    moreover have "c \<le> prod_list (map snd es')"
      using False "1.prems"(2) calculation by (simp add: total_ok_def)
    ultimately show ?thesis using "1.prems"(2) by (metis drop0)
  qed
qed (auto intro: exI [of _ 0])

lemma total_ok_snoc:
  "total_ok es tot \<Longrightarrow> 0 < d \<Longrightarrow> d \<le> 1 \<Longrightarrow> total_ok (es @ [(p, d)]) (d_mul tot (Fin d))"
  by (auto simp: total_ok_def)

section \<open>The interface of an eligibility trace\<close>

locale eligibility_trace =
  fixes add :: "'p \<Rightarrow> real \<Rightarrow> 'p trace \<Rightarrow> 'p trace option"
    and thr :: real
    and ok :: "'p \<Rightarrow> bool"
  assumes thr_le: "thr \<le> 1"
    and add_ok: "trace_inv thr ok t \<Longrightarrow> ok p \<Longrightarrow> 0 < d \<Longrightarrow> d \<le> 1 \<Longrightarrow>
      \<exists>t'. add p d t = Some t' \<and> trace_inv thr ok t' \<and> trace_back t' = Some p"
begin

primrec add_list :: "('p \<times> real) list \<Rightarrow> 'p trace \<Rightarrow> 'p trace option" where
  "add_list [] t = Some t"
| "add_list (e # es) t = Option.bind (add (fst e) (snd e) t) (add_list es)"

lemma add_list_inv:
  assumes "trace_inv thr ok t" and "\<forall>(p, d) \<in> set es. ok p \<and> 0 < d \<and> d \<le> 1"
  shows "\<exists>t'. add_list es t = Some t' \<and> trace_inv thr ok t' \<and>
    (es \<noteq> [] \<longrightarrow> trace_back t' = Some (fst (last es)))"
  using assms
proof (induction es arbitrary: t)
  case (Cons e es)
  obtain p d where e: "e = (p, d)" by fastforce
  obtain t1 where t1: "add p d t = Some t1" "trace_inv thr ok t1" "trace_back t1 = Some p"
    using add_ok [OF Cons.prems(1), of p d] Cons.prems(2) e by auto
  from Cons.IH [OF t1(2)] Cons.prems(2) obtain t' where
    "add_list es t1 = Some t'" "trace_inv thr ok t'" "es \<noteq> [] \<longrightarrow> trace_back t' = Some (fst (last es))"
    by auto
  with t1 e show ?case by (cases "es = []") auto
qed simp

text \<open>Every weight an iteration meets lies between the threshold and 1.\<close>

lemma weights_bounded:
  assumes "trace_inv thr ok t" and "(p, w) \<in> set (trace_items t)"
  shows "thr \<le> w \<and> w \<le> 1"
proof -
  let ?ds = "rev (map snd (tr_projections t))"
  obtain k where k: "k < trace_size t" "w = item_weight t k"
    using assms(2) by (auto simp: trace_items_eq)
  have ds: "\<forall>x \<in> set ?ds. 0 < x \<and> x \<le> 1" using assms(1) by (auto simp: trace_inv_def total_ok_def)
  have tk: "\<forall>x \<in> set (take k ?ds). 0 < x \<and> x \<le> 1" using ds by (meson in_set_takeD)
  have dr: "\<forall>x \<in> set (drop k ?ds). 0 < x \<and> x \<le> 1" using ds by (meson in_set_dropD)
  have w1: "w \<le> 1" unfolding k item_weight_def using tk by (rule prod_list_le_one)
  show ?thesis
  proof (cases "trace_size t = 1")
    case True
    then have "k = 0" using k by simp
    then show ?thesis using k thr_le by (simp add: item_weight_def)
  next
    case False
    have rest: "0 < prod_list (drop k ?ds)" "prod_list (drop k ?ds) \<le> 1"
      using dr by (auto intro: prod_list_pos prod_list_le_one)
    have wpos: "0 < w" unfolding k item_weight_def using tk by (intro prod_list_pos) auto
    have "prod_list (map snd (tr_projections t)) = prod_list ?ds"
      by (simp add: prod_list.rev)
    also have "\<dots> = w * prod_list (drop k ?ds)"
      unfolding k item_weight_def by (metis append_take_drop_id prod_list_append_real)
    finally have "prod_list (map snd (tr_projections t)) \<le> w"
      using mult_left_mono [OF rest(2), of w] wpos by simp
    moreover have "thr \<le> prod_list (map snd (tr_projections t))"
      using assms(1) False k by (auto simp: trace_inv_def)
    ultimately show ?thesis using w1 by simp
  qed
qed

end

section \<open>Both traces provide the interface\<close>

lemma trace_inv_after_pop:
  assumes pop: "pop_loop c (es @ [(p, d)]) (d_mul tot (Fin d)) = (es', tot')"
    and tot: "total_ok es tot" and ok: "\<forall>(p, d) \<in> set es. ok p" "ok p"
    and d: "0 < d" "d \<le> 1"
  shows "trace_inv c ok (t\<lparr>tr_projections := es', tr_total_decay := tot'\<rparr>) \<and>
    trace_back (t\<lparr>tr_projections := es', tr_total_decay := tot'\<rparr>) = Some p \<and>
    (\<exists>k. es' = drop k (es @ [(p, d)]))"
proof -
  note P = pop_loop_ok [OF pop total_ok_snoc [OF tot d]]
  obtain k where k: "es' = drop k (es @ [(p, d)])" using P by blast
  have tot': "total_ok es' tot'" and c: "1 < length es' \<longrightarrow> c \<le> prod_list (map snd es')"
    using P by blast+
  have last: "es' \<noteq> []" "last es' = (p, d)" using P by simp_all
  have "\<forall>(p, d) \<in> set es'. ok p"
    using ok unfolding k by (auto dest!: in_set_dropD)
  with tot' last c have "trace_inv c ok (t\<lparr>tr_projections := es', tr_total_decay := tot'\<rparr>) \<and>
      trace_back (t\<lparr>tr_projections := es', tr_total_decay := tot'\<rparr>) = Some p"
    by (simp add: trace_inv_def trace_size_def trace_back_def last_conv_nth)
  with k show ?thesis by blast
qed

lemma ssub_entries_ok:
  assumes "\<And>p q. ok p \<Longrightarrow> ok q \<Longrightarrow> \<exists>r. ssb p q = Some r \<and> ok r"
    and "\<forall>(p, d) \<in> set es. ok p" and "ok q"
  shows "\<exists>es'. ssub_entries ssb q es = Some es' \<and> map snd es' = map snd es \<and>
    (\<forall>(p, d) \<in> set es'. ok p)"
  using assms(2)
proof (induction es)
  case (Cons e es)
  obtain p d where e: "e = (p, d)" by fastforce
  obtain r where r: "ssb p q = Some r" "ok r" using assms(1) [of p q] Cons.prems assms(3) e by auto
  from Cons.IH Cons.prems obtain es' where "ssub_entries ssb q es = Some es'"
    "map snd es' = map snd es" "\<forall>(p, d) \<in> set es'. ok p" by auto
  with r e show ?case by simp
qed simp

lemma total_ok_map_snd: "map snd es' = map snd es \<Longrightarrow> total_ok es tot \<Longrightarrow> total_ok es' tot"
proof -
  assume m: "map snd es' = map snd es" and t: "total_ok es tot"
  have "snd ` set es' = snd ` set es" using m by (metis list.set_map)
  moreover have "\<forall>d \<in> snd ` set es. 0 < d \<and> d \<le> 1" using t by (auto simp: total_ok_def)
  ultimately have "\<forall>d \<in> snd ` set es'. 0 < d \<and> d \<le> 1" by simp
  then show ?thesis using m t by (auto simp: total_ok_def)
qed

lemma replacing_add_ok:
  assumes sub: "\<And>p q. ok p \<Longrightarrow> ok q \<Longrightarrow> \<exists>r. ssb p q = Some r \<and> ok r"
    and t: "trace_inv replacing_dc ok t" and p: "ok p" and d: "0 < d" "d \<le> 1"
  shows "\<exists>t'. replacing_add ssb p d t = Some t' \<and> trace_inv replacing_dc ok t' \<and> trace_back t' = Some p"
proof -
  define u where "u = (if d < replacing_dc then trace_clear t else t)"
  have u: "trace_inv replacing_dc ok u" using t trace_clear_inv unfolding u_def by auto
  obtain es where es: "ssub_entries ssb p (tr_projections u) = Some es"
    "map snd es = map snd (tr_projections u)" "\<forall>(p, d) \<in> set es. ok p"
    using ssub_entries_ok [of ok ssb "tr_projections u" p] sub u p by (auto simp: trace_inv_def)
  have tot: "total_ok es (tr_total_decay u)"
    using total_ok_map_snd [OF es(2)] u by (auto simp: trace_inv_def)
  obtain es' tot' where pop:
    "pop_loop replacing_dc (es @ [(p, d)]) (d_mul (tr_total_decay u) (Fin d)) = (es', tot')" by fastforce
  from trace_inv_after_pop [OF pop tot es(3) p d, of u] es(1) pop show ?thesis
    unfolding replacing_add_def Let_def u_def [symmetric] by simp
qed

lemma accumulating_add_ok:
  assumes t: "trace_inv accumulating_dc ok t" and p: "ok p" and d: "0 < d" "d \<le> 1"
  shows "\<exists>t'. accumulating_add p d t = Some t' \<and> trace_inv accumulating_dc ok t' \<and> trace_back t' = Some p"
proof -
  define u where "u = (if d < accumulating_dc then trace_clear t else t)"
  have u: "trace_inv accumulating_dc ok u" using t trace_clear_inv unfolding u_def by auto
  obtain es' tot' where pop: "pop_loop accumulating_dc (tr_projections u @ [(p, d)])
      (d_mul (tr_total_decay u) (Fin d)) = (es', tot')" by fastforce
  have tot: "total_ok (tr_projections u) (tr_total_decay u)"
    and ok: "\<forall>(p, d) \<in> set (tr_projections u). ok p" using u by (auto simp: trace_inv_def)
  from trace_inv_after_pop [OF pop tot ok p d, of u] pop show ?thesis
    unfolding accumulating_add_def Let_def u_def [symmetric] by simp
qed

interpretation acc: eligibility_trace accumulating_add accumulating_dc ok for ok
  by unfold_locales (simp add: accumulating_dc_def, rule accumulating_add_ok)

interpretation rep_plain: eligibility_trace
    "replacing_add (\<lambda>p q. Some (ip_ssub p q))" replacing_dc ip_plain
  by unfold_locales (simp add: replacing_dc_def, rule replacing_add_ok, auto intro: ip_ssub_plain_wf)

interpretation rep_weighted: eligibility_trace
    "replacing_add (\<lambda>p q. Some (ip_ssub p q))" replacing_dc ip_weighted
  by unfold_locales (simp add: replacing_dc_def, rule replacing_add_ok, auto intro: ip_ssub_weighted_wf)

interpretation rep_vector: eligibility_trace "replacing_add vp_ssub" replacing_dc "vp_wf n" for n
  by unfold_locales (simp add: replacing_dc_def, rule replacing_add_ok, use vp_ssub_ok in blast)

section \<open>A replacing trace never accumulates\<close>

definition trace_act :: "('p \<Rightarrow> nat \<Rightarrow> real) \<Rightarrow> 'p trace \<Rightarrow> nat \<Rightarrow> real" where
  "trace_act act t i = sum_list (map (\<lambda>(p, d). act p i) (tr_projections t))"

context saturating
begin

lemma ssub_entries_sub_all:
  "ssub_entries sub q es = map_option (\<lambda>rs. zip rs (map snd es)) (sub_all q (map fst es))"
proof (induction es)
  case (Cons e es)
  obtain p d where "e = (p, d)" by fastforce
  then show ?case using Cons by (cases "sub p q"; cases "sub_all q (map fst es)") auto
qed simp

lemma trace_act_total: "trace_act act t i = total_act (map fst (tr_projections t)) i"
  unfolding trace_act_def total_act_def by (simp add: comp_def case_prod_unfold)

lemma total_act_drop: "\<forall>p \<in> set ps. wf p \<Longrightarrow> total_act (drop k ps) i \<le> total_act ps i"
proof -
  assume wf: "\<forall>p \<in> set ps. wf p"
  have "total_act ps i = total_act (take k ps) i + total_act (drop k ps) i"
    by (metis append_take_drop_id total_act_simps(3))
  moreover have "0 \<le> total_act (take k ps) i"
    using wf by (intro total_act_nonneg) (meson in_set_takeD)
  ultimately show ?thesis by simp
qed

lemma replacing_add_bounded:
  assumes inv: "trace_inv replacing_dc wf t" and p: "wf p" and d: "0 < d" "d \<le> 1"
    and bound: "\<forall>i. trace_act act t i \<le> 1" and add: "replacing_add sub p d t = Some t'"
  shows "trace_act act t' i \<le> 1"
proof -
  define u where "u = (if d < replacing_dc then trace_clear t else t)"
  let ?es = "tr_projections u"
  have u: "trace_inv replacing_dc wf u" using inv trace_clear_inv unfolding u_def by auto
  have bu: "\<forall>i. total_act (map fst ?es) i \<le> 1"
    using bound unfolding trace_act_total u_def by (auto simp: trace_clear_def)
  have wf: "\<forall>q \<in> set (map fst ?es). wf q" using u by (auto simp: trace_inv_def)
  from replace_bounded [OF p wf bu] obtain rs where rs:
    "sub_all p (map fst ?es) = Some rs" "length rs = length ?es"
    "\<forall>r \<in> set (rs @ [p]). wf r" "\<And>i. total_act (rs @ [p]) i \<le> 1" by auto
  let ?new = "zip rs (map snd ?es)"
  have sub: "ssub_entries sub p ?es = Some ?new" using rs(1) by (simp add: ssub_entries_sub_all)
  have "map snd ?new = map snd ?es" using rs(2) by simp
  then have tot: "total_ok ?new (tr_total_decay u)"
    using total_ok_map_snd u unfolding trace_inv_def by blast
  obtain es' tot' where pop:
    "pop_loop replacing_dc (?new @ [(p, d)]) (d_mul (tr_total_decay u) (Fin d)) = (es', tot')" by fastforce
  then obtain k where k: "es' = drop k (?new @ [(p, d)])"
    using pop_loop_ok [OF pop total_ok_snoc [OF tot d]] by auto
  have t': "t' = u\<lparr>tr_projections := es', tr_total_decay := tot'\<rparr>"
    using add sub pop unfolding replacing_add_def Let_def u_def [symmetric] by simp
  have "map fst es' = drop k (rs @ [p])" using rs(2) by (simp add: k drop_map [symmetric])
  then have "trace_act act t' i = total_act (drop k (rs @ [p])) i"
    by (simp only: trace_act_total t') simp
  also have "\<dots> \<le> 1" using total_act_drop [OF rs(3)] rs(4) order_trans by blast
  finally show ?thesis .
qed

end

section \<open>A decay of zero\<close>

text \<open>
  The loop that shortens the trace divides by the decay of the entry it removes. After an entry
  with decay 0 the running total is \<open>0 / 0\<close>; no comparison with NaN holds, so the trace is
  never shortened again before it is cleared.
\<close>

lemma pop_loop_NaN: "pop_loop c es NaN = (es, NaN)"
  by (cases es; cases "tl es") auto

lemma accumulating_add_NaN:
  "tr_total_decay t = NaN \<Longrightarrow> accumulating_dc \<le> d \<Longrightarrow>
   accumulating_add p d t = Some (t\<lparr>tr_projections := tr_projections t @ [(p, d)]\<rparr>)"
  by (simp add: accumulating_add_def pop_loop_NaN Let_def)

lemma accumulating_all_NaN:
  "tr_total_decay t = NaN \<Longrightarrow> \<forall>(p, d) \<in> set es. accumulating_dc \<le> d \<Longrightarrow>
   acc.add_list es t = Some (t\<lparr>tr_projections := tr_projections t @ es\<rparr>)"
proof (induction es arbitrary: t)
  case (Cons e es)
  obtain p d where e: "e = (p, d)" by fastforce
  have d: "accumulating_dc \<le> d" using Cons.prems(2) e by auto
  have "acc.add_list es (t\<lparr>tr_projections := tr_projections t @ [(p, d)]\<rparr>) =
    Some (t\<lparr>tr_projections := tr_projections t @ (p, d) # es\<rparr>)"
    using Cons.IH [of "t\<lparr>tr_projections := tr_projections t @ [(p, d)]\<rparr>"] Cons.prems by simp
  then show ?case
    using accumulating_add_NaN [OF Cons.prems(1) d, of p] e by simp
qed simp

section \<open>Properties\<close>

text \<open>A trace after a sequence of additions, with the projections' own subtraction.\<close>

fun replacing_adds :: "('p \<Rightarrow> 'p \<Rightarrow> 'p option) \<Rightarrow> ('p \<times> real) list \<Rightarrow> 'p trace \<Rightarrow> 'p trace option" where
  "replacing_adds ssb [] t = Some t"
| "replacing_adds ssb (e # es) t =
     Option.bind (replacing_add ssb (fst e) (snd e) t) (replacing_adds ssb es)"

fun accumulating_adds :: "('p \<times> real) list \<Rightarrow> 'p trace \<Rightarrow> 'p trace option" where
  "accumulating_adds [] t = Some t"
| "accumulating_adds (e # es) t =
     Option.bind (accumulating_add (fst e) (snd e) t) (accumulating_adds es)"

lemma accumulating_adds_eq: "accumulating_adds es t = acc.add_list es t"
proof (induction es arbitrary: t)
  case (Cons e es)
  then show ?case by (cases "accumulating_add (fst e) (snd e) t") simp_all
qed simp

context saturating
begin

lemma sub_some: "wf p \<Longrightarrow> wf q \<Longrightarrow> \<exists>r. sub p q = Some r \<and> wf r"
  using sub_ok [of p q] by blast

lemma replacing_adds_bounded:
  assumes "trace_inv replacing_dc wf t" and "\<forall>i. trace_act act t i \<le> 1"
    and "\<forall>(p, d) \<in> set es. wf p \<and> 0 < d \<and> d \<le> 1"
  shows "\<exists>t'. replacing_adds sub es t = Some t' \<and> trace_inv replacing_dc wf t' \<and>
    (\<forall>i. trace_act act t' i \<le> 1) \<and> (es \<noteq> [] \<longrightarrow> trace_back t' = Some (fst (last es)))"
  using assms
proof (induction es arbitrary: t)
  case (Cons e es)
  obtain p d where e: "e = (p, d)" by fastforce
  then have p: "wf p" "0 < d" "d \<le> 1" using Cons.prems(3) by auto
  obtain t1 where t1: "replacing_add sub p d t = Some t1" "trace_inv replacing_dc wf t1"
    "trace_back t1 = Some p"
    using replacing_add_ok [where ssb = sub and ok = wf, OF _ Cons.prems(1) p] sub_some by blast
  have "\<forall>i. trace_act act t1 i \<le> 1"
    using replacing_add_bounded [OF Cons.prems(1) p Cons.prems(2) t1(1)] by blast
  from Cons.IH [OF t1(2) this] Cons.prems(3) obtain t' where t': "replacing_adds sub es t1 = Some t'"
    "trace_inv replacing_dc wf t'" "\<forall>i. trace_act act t' i \<le> 1"
    "es \<noteq> [] \<longrightarrow> trace_back t' = Some (fst (last es))" by auto
  have "replacing_adds sub (e # es) t = Some t'" using t1(1) t'(1) e by simp
  moreover have "trace_back t' = Some (fst (last (e # es)))"
    using t'(1,4) t1(3) e by (cases "es = []") simp_all
  ultimately show ?case using t'(2,3) by blast
qed simp

end

text \<open>adding projections with decays in \<open>(0, 1]\<close> to a new accumulating trace never fails;
  the newest projection is at the back and every weight that iteration meets lies between the
  cut-off and 1.\<close>

theorem accumulating_trace_weights:
  assumes "es \<noteq> []" and "\<forall>(p, d) \<in> set es. 0 < d \<and> d \<le> 1"
  shows "\<exists>t. accumulating_adds es trace_new = Some t \<and> trace_back t = Some (fst (last es)) \<and>
    (\<forall>(p, w) \<in> set (trace_items t). accumulating_dc \<le> w \<and> w \<le> 1)"
proof -
  from acc.add_list_inv [OF trace_new_inv, of es "\<lambda>_. True"] assms obtain t where
    t: "accumulating_adds es trace_new = Some t" "trace_inv accumulating_dc (\<lambda>_. True) t"
    "trace_back t = Some (fst (last es))" by (auto simp: accumulating_adds_eq)
  then show ?thesis using acc.weights_bounded [OF t(2)] by blast
qed

theorem accumulating_trace_weights_witness:
  "\<exists>t. accumulating_adds [(1 :: nat, 1 / 2), (2, 1 / 4)] trace_new = Some t \<and> trace_back t = Some 2"
  using accumulating_trace_weights [of "[(1 :: nat, 1 / 2), (2, 1 / 4)]"] by auto

text \<open>C24: a replacing trace of index projections never fails on decays in \<open>(0, 1]\<close>, the weights
  lie between its cut-off and 1, and the activations stored for any one index add up to at most 1:
  revisiting a feature replaces its eligibility instead of accumulating it.\<close>

theorem replacing_trace_replaces:
  assumes "\<forall>(p, d) \<in> set es. ip_plain p \<and> 0 < d \<and> d \<le> 1"
  shows "\<exists>t. replacing_adds (\<lambda>p q. Some (ip_ssub p q)) es trace_new = Some t \<and>
    (\<forall>(p, w) \<in> set (trace_items t). replacing_dc \<le> w \<and> w \<le> 1) \<and>
    (\<forall>i. trace_act ip_act t i \<le> 1)"
proof -
  have "\<forall>i. trace_act ip_act trace_new i \<le> 1" by (simp add: trace_act_def trace_new_def)
  from ip_plain.replacing_adds_bounded [OF trace_new_inv this assms] obtain t where
    t: "replacing_adds (\<lambda>p q. Some (ip_ssub p q)) es trace_new = Some t"
    "trace_inv replacing_dc ip_plain t" "\<forall>i. trace_act ip_act t i \<le> 1" by blast
  then show ?thesis using rep_plain.weights_bounded [OF t(2)] by blast
qed

theorem replacing_trace_replaces_witness:
  "\<exists>t. replacing_adds (\<lambda>p q. Some (ip_ssub p q))
      [(\<lparr>ip_indices = [1, 2], ip_weights = []\<rparr>, 1 / 2), (\<lparr>ip_indices = [2, 3], ip_weights = []\<rparr>, 1 / 2)]
      trace_new = Some t \<and> (\<forall>i. trace_act ip_act t i \<le> 1)"
  using replacing_trace_replaces [of
      "[(\<lparr>ip_indices = [1, 2], ip_weights = []\<rparr>, 1 / 2), (\<lparr>ip_indices = [2, 3], ip_weights = []\<rparr>, 1 / 2)]"]
  by (auto simp: ip_plain_def ip_wf_def)

text \<open>The loop that shortens the trace divides the running decay by the decay of the entry it
  removes. After one entry with decay 0 the running decay is NaN, and the trace grows without
  bound from then on: every later addition is kept until one clears the trace.\<close>

theorem zero_decay_never_pruned:
  assumes "accumulating_dc \<le> d" and "\<forall>(p, e) \<in> set es. accumulating_dc \<le> e"
  shows "Option.bind (accumulating_adds [(p, 0), (q, d)] trace_new) (accumulating_adds es) =
    Some \<lparr>tr_projections = (q, d) # es, tr_total_decay = NaN\<rparr>"
proof -
  let ?t = "\<lparr>tr_projections = [(q, d)], tr_total_decay = NaN\<rparr>"
  have "accumulating_adds [(p, 0), (q, d)] trace_new = Some ?t"
    using assms(1) by (simp add: accumulating_add_def accumulating_dc_def trace_clear_def
        trace_new_def Let_def)
  then show ?thesis
    using accumulating_all_NaN [of ?t es] assms(2) by (simp add: accumulating_adds_eq)
qed

theorem zero_decay_never_pruned_witness:
  "Option.bind (accumulating_adds [(1 :: nat, 0), (2, 1 / 2)] trace_new)
      (accumulating_adds (replicate 100 (3, 1 / 2))) =
    Some \<lparr>tr_projections = (2, 1 / 2) # replicate 100 (3, 1 / 2), tr_total_decay = NaN\<rparr>"
  by (rule zero_decay_never_pruned) (auto simp: accumulating_dc_def)

end
