(* ===== verification/TileCoding.thy ===== *)
theory TileCoding
  imports Projections Utils "HOL-Library.Monad_Syntax"
begin

unbundle bit_operations_syntax

text \<open>
  The hashed tile coding projector (\<open>base/include/grl/projectors/tile_coding.h\<close> and
  \<open>base/src/projectors/tile_coding.cpp\<close>): the hash function, the open-addressing table that
  gives every tile a memory location, the quantisation of an input into one tile per tiling, and
  the configuration.

  C \<open>int\<close> values are integers; a result outside 32 bits is undefined and gives \<open>None\<close>, as
  do a modulus by zero, an access outside an array and a loop that does not end.
\<close>

section \<open>Hashing\<close>

text \<open>MurmurHash2 on 32-bit words.\<close>

definition murmur_m :: "32 word" where
  "murmur_m = 0x5bd1e995"

fun hash_mix :: "32 word list \<Rightarrow> 32 word \<Rightarrow> 32 word" where
  "hash_mix [] h = h"
| "hash_mix (i # is) h =
     (let k = i * murmur_m;
          k = k XOR drop_bit 24 k;
          k = k * murmur_m;
          h = h * murmur_m
      in hash_mix is (h XOR k))"

definition createHashSum :: "32 word list \<Rightarrow> 32 word \<Rightarrow> 32 word" where
  "createHashSum ints seed =
     (let h = hash_mix ints (seed XOR word_of_nat (length ints));
          h = h XOR drop_bit 13 h;
          h = h * murmur_m
      in h XOR drop_bit 15 h)"

section \<open>The table\<close>

text \<open>The entries of \<open>indices_\<close> by bit pattern; \<open>-1\<close> marks a free entry.\<close>

type_synonym table = "32 word list"

definition taken_by_other :: "table \<Rightarrow> 32 word \<Rightarrow> nat \<Rightarrow> bool" where
  "taken_by_other tab h ii \<longleftrightarrow> tab ! ii \<noteq> h \<and> tab ! ii \<noteq> - 1"

partial_function (option) probe :: "table \<Rightarrow> 32 word \<Rightarrow> nat \<Rightarrow> nat \<Rightarrow> (nat \<times> nat) option" where
  "probe tab h ii collisions =
     (if \<not> ii < length tab then None
      else if taken_by_other tab h ii
      then probe tab h (if length tab \<le> ii + 1 then 0 else ii + 1) (collisions + 1)
      else Some (ii, collisions))"

record tile_coding =
  tc_tilings :: int
  tc_memory :: nat
  tc_safe :: int
  tc_indices :: "table option"   \<comment> \<open>allocated when collision detection is on\<close>
  tc_pressure :: nat
  tc_resolution :: dvec
  tc_scaling :: dvec
  tc_wrapping :: dvec

definition hash_of :: "int list \<Rightarrow> 32 word" where
  "hash_of ints = createHashSum (map word_of_int ints) 449"

definition locate :: "32 word \<Rightarrow> bool \<Rightarrow> tile_coding \<Rightarrow> (nat \<times> tile_coding) option" where
  "locate h claim tc =
     (if tc_memory tc = 0 then None
      else let ii = unat h mod tc_memory tc
           in case tc_indices tc of
                None \<Rightarrow> Some (ii, tc)
              | Some tab \<Rightarrow>
                  (case probe tab h ii 0 of
                     None \<Rightarrow> None
                   | Some (ii, collisions) \<Rightarrow>
                       let tc = (if tc_pressure tc < collisions
                                 then tc\<lparr>tc_pressure := collisions\<rparr> else tc)
                       in Some (ii, if claim then tc\<lparr>tc_indices := Some (tab[ii := h])\<rparr>
                                    else tc)))"

definition getFeatureLocation ::
    "int list \<Rightarrow> bool \<Rightarrow> tile_coding \<Rightarrow> (nat \<times> tile_coding) option" where
  "getFeatureLocation ints claim tc = locate (hash_of ints) claim tc"

section \<open>Configuration\<close>

datatype tc_error = BadWrapping | NotFinite

text \<open>C's \<open>round\<close>: halfway cases away from zero.\<close>

definition c_round :: "real \<Rightarrow> int" where
  "c_round x = (if x < 0 then - \<lfloor>- x + 1 / 2\<rfloor> else \<lfloor>x + 1 / 2\<rfloor>)"

definition scale_wrapping :: "real \<Rightarrow> tc_error + real" where
  "scale_wrapping w =
     (if \<bar>w - of_int (c_round w)\<bar> > 0.001 then Inl BadWrapping else Inr (of_int (c_round w)))"

fun scale_wrappings :: "(real \<times> real) list \<Rightarrow> tc_error + dvec" where
  "scale_wrappings [] = Inr []"
| "scale_wrappings ((w, sc) # ws) =
     (case scale_wrapping (w * sc) of
        Inl e \<Rightarrow> Inl e
      | Inr w' \<Rightarrow> (case scale_wrappings ws of Inl e \<Rightarrow> Inl e | Inr ws' \<Rightarrow> Inr (w' # ws')))"

text \<open>
  A resolution of zero gives an infinite scaling, which is outside the real-valued model
  (\<open>NotFinite\<close>).
\<close>

definition tc_configure ::
    "int \<Rightarrow> nat \<Rightarrow> int \<Rightarrow> dvec \<Rightarrow> dvec \<Rightarrow> tc_error + tile_coding" where
  "tc_configure tilings memory safe resolution wrapping =
     (let wrapping = (if wrapping = [] then replicate (length resolution) 0 else wrapping)
      in if length wrapping \<noteq> length resolution then Inl BadWrapping
         else if 0 \<in> set resolution then Inl NotFinite
         else let scaling = map (\<lambda>r. of_int tilings / r) resolution
              in case scale_wrappings (zip wrapping scaling) of
                   Inl e \<Rightarrow> Inl e
                 | Inr wrapping \<Rightarrow>
                     Inr \<lparr>tc_tilings = tilings, tc_memory = memory, tc_safe = safe,
                          tc_indices = (if safe \<noteq> 0 then Some (replicate memory (- 1)) else None),
                          tc_pressure = 0, tc_resolution = resolution, tc_scaling = scaling,
                          tc_wrapping = wrapping\<rparr>)"

definition tc_reset :: "tile_coding \<Rightarrow> tile_coding" where
  "tc_reset tc = tc\<lparr>tc_indices := map_option (\<lambda>tab. replicate (length tab) (- 1)) (tc_indices tc)\<rparr>"

text \<open>\<open>memcpy\<close> of \<open>memory_\<close> entries; reading or writing outside either table is undefined.\<close>

definition tc_copy :: "tile_coding \<Rightarrow> tile_coding \<Rightarrow> tile_coding option" where
  "tc_copy tc obj =
     (case tc_indices tc of
        None \<Rightarrow> Some tc
      | Some tab \<Rightarrow>
          (case tc_indices obj of
             Some tab' \<Rightarrow>
               if tc_memory tc \<le> length tab' \<and> tc_memory tc \<le> length tab
               then Some (tc\<lparr>tc_indices := Some (take (tc_memory tc) tab' @ drop (tc_memory tc) tab)\<rparr>)
               else None
           | None \<Rightarrow> if tc_memory tc = 0 then Some tc else None))"

section \<open>Projection\<close>

definition MAX_NUM_VARS :: nat where
  "MAX_NUM_VARS = 32"

definition c_int :: "int \<Rightarrow> int option" where
  "c_int x = (if - (2 ^ 31) \<le> x \<and> x < 2 ^ 31 then Some x else None)"

text \<open>The coordinate in one dimension: quantised state \<open>q\<close>, displacement \<open>b\<close>, wrapping \<open>w\<close>.\<close>

definition tile_coordinate :: "int \<Rightarrow> int \<Rightarrow> int \<Rightarrow> real \<Rightarrow> int option" where
  "tile_coordinate tilings q b w =
     do { d \<leftarrow> c_int (q - b);
          m \<leftarrow> safe_mod d tilings;
          c \<leftarrow> c_int (q - m);
          if w \<noteq> 0 then do { y \<leftarrow> c_int \<lfloor>w\<rfloor>; safe_mod c y } else Some c }"

text \<open>The displacement of dimension \<open>i\<close> in tiling \<open>j\<close>: \<open>base[i]\<close> grows by \<open>1 + 2 * i\<close>.\<close>

definition next_base :: "int list \<Rightarrow> int list" where
  "next_base base = map (\<lambda>i. base ! i + (1 + 2 * int i)) [0..<length base]"

definition tile_coordinates :: "tile_coding \<Rightarrow> int list \<Rightarrow> int list \<Rightarrow> nat \<Rightarrow> int list option" where
  "tile_coordinates tc qstate base j =
     do { cs \<leftarrow> option_list (map (\<lambda>i. tile_coordinate (tc_tilings tc) (qstate ! i) (base ! i)
                                      (tc_wrapping tc ! i)) [0..<length qstate]);
          Some (cs @ [int j]) }"

fun project_tilings ::
    "nat \<Rightarrow> nat \<Rightarrow> int list \<Rightarrow> int list \<Rightarrow> bool \<Rightarrow> tile_coding \<Rightarrow> (ivec \<times> tile_coding) option" where
  "project_tilings 0 j qstate base claim tc = Some ([], tc)"
| "project_tilings (Suc n) j qstate base claim tc =
     do { cs \<leftarrow> tile_coordinates tc qstate base j;
          (loc, tc1) \<leftarrow> getFeatureLocation cs claim tc;
          (locs, tc2) \<leftarrow> project_tilings n (j + 1) qstate (next_base base) claim tc1;
          Some (loc # locs, tc2) }"

datatype tc_result = BadResolution | Undefined | Projected index_projection tile_coding

definition tc_project :: "dvec \<Rightarrow> bool \<Rightarrow> tile_coding \<Rightarrow> tc_result" where
  "tc_project v claim tc =
     (if length v \<noteq> length (tc_scaling tc) then BadResolution
      else if MAX_NUM_VARS < length v then Undefined
      else case option_list (map2 (\<lambda>x sc. c_int \<lfloor>x * sc\<rfloor>) v (tc_scaling tc)) of
             None \<Rightarrow> Undefined
           | Some qstate \<Rightarrow>
               (case project_tilings (nat (tc_tilings tc)) 0 qstate (replicate (length v) 0)
                       claim tc of
                  None \<Rightarrow> Undefined
                | Some (locs, tc') \<Rightarrow>
                    Projected \<lparr>ip_indices = locs, ip_weights = []\<rparr> tc'))"

text \<open>
  The two projection methods of the class: a single projection claims its locations; the variants
  of a base input are projected one after the other and claim only when \<open>safe_ > 1\<close>.
\<close>

definition tc_project_one :: "dvec \<Rightarrow> tile_coding \<Rightarrow> tc_result" where
  "tc_project_one v tc = tc_project v True tc"

fun tc_project_variants ::
    "dvec \<Rightarrow> dvec list \<Rightarrow> tile_coding \<Rightarrow> (index_projection list \<times> tile_coding) option" where
  "tc_project_variants base [] tc = Some ([], tc)"
| "tc_project_variants base (v # vs) tc =
     (case tc_project (Vectors.extend base v) (1 < tc_safe tc) tc of
        Projected p tc1 \<Rightarrow>
          (case tc_project_variants base vs tc1 of
             Some (ps, tc2) \<Rightarrow> Some (p # ps, tc2)
           | None \<Rightarrow> None)
      | _ \<Rightarrow> None)"

section \<open>The probe loop\<close>

lemma next_mod: "(ii :: nat) < n \<Longrightarrow> (if n \<le> ii + 1 then 0 else ii + 1) = (ii + 1) mod n"
  by (cases "ii + 1 = n") auto

lemma probe_finds:
  assumes "ii < length tab" and "\<forall>j < k. taken_by_other tab h ((ii + j) mod length tab)"
    and "\<not> taken_by_other tab h ((ii + k) mod length tab)"
  shows "probe tab h ii c = Some ((ii + k) mod length tab, c + k)"
  using assms
proof (induction k arbitrary: ii c)
  case 0
  then show ?case by (subst probe.simps) simp
next
  case (Suc k)
  let ?n = "length tab" and ?i = "(ii + 1) mod length tab"
  have taken: "taken_by_other tab h ii" using Suc.prems(1) Suc.prems(2) [rule_format, of 0] by simp
  have shift: "(?i + j) mod ?n = (ii + Suc j) mod ?n" for j
    by (simp add: mod_add_left_eq)
  have "\<forall>j < k. taken_by_other tab h ((?i + j) mod ?n)"
    using Suc.prems(2) unfolding shift by (metis Suc_less_eq)
  moreover have "\<not> taken_by_other tab h ((?i + k) mod ?n)"
    unfolding shift by (rule Suc.prems(3))
  ultimately have "probe tab h ?i (c + 1) = Some ((?i + k) mod ?n, c + 1 + k)"
  proof (intro Suc.IH)
    show "?i < ?n" using Suc.prems(1) by (intro mod_less_divisor) linarith
  qed
  then have "probe tab h ?i (c + 1) = Some ((ii + Suc k) mod ?n, c + Suc k)"
    by (simp only: shift) simp
  then show ?case
    by (subst probe.simps)
      (simp only: next_mod [OF Suc.prems(1)] Suc.prems(1) taken not_True_eq_False if_False if_True)
qed

text \<open>What a result of the loop says: the first position not taken by another hash.\<close>

lemma probe_Some:
  assumes "probe tab h ii c = Some (loc, c')"
  shows "ii < length tab \<and> (\<exists>k. loc = (ii + k) mod length tab \<and> c' = c + k \<and>
    \<not> taken_by_other tab h loc \<and> (\<forall>j < k. taken_by_other tab h ((ii + j) mod length tab)))"
proof (rule probe.raw_induct [where P = "\<lambda>tab h ii c (loc, c'). ii < length tab \<and>
      (\<exists>k. loc = (ii + k) mod length tab \<and> c' = c + k \<and> \<not> taken_by_other tab h loc \<and>
        (\<forall>j < k. taken_by_other tab h ((ii + j) mod length tab)))",
      OF _ assms, unfolded prod.case])
  fix f :: "table \<Rightarrow> 32 word \<Rightarrow> nat \<Rightarrow> nat \<Rightarrow> (nat \<times> nat) option" and tab h ii c and r :: "nat \<times> nat"
  assume IH: "\<And>tab h ii c r. f tab h ii c = Some r \<Longrightarrow> case r of (loc, c') \<Rightarrow> ii < length tab \<and>
      (\<exists>k. loc = (ii + k) mod length tab \<and> c' = c + k \<and> \<not> taken_by_other tab h loc \<and>
        (\<forall>j < k. taken_by_other tab h ((ii + j) mod length tab)))"
    and eq: "(if \<not> ii < length tab then None
      else if taken_by_other tab h ii
      then f tab h (if length tab \<le> ii + 1 then 0 else ii + 1) (c + 1)
      else Some (ii, c)) = Some r"
  obtain loc c' where r: "r = (loc, c')" by fastforce
  have lt: "ii < length tab" using eq by (auto split: if_splits)
  let ?n = "length tab"
  show "case r of (loc, c') \<Rightarrow> ii < length tab \<and>
      (\<exists>k. loc = (ii + k) mod length tab \<and> c' = c + k \<and> \<not> taken_by_other tab h loc \<and>
        (\<forall>j < k. taken_by_other tab h ((ii + j) mod length tab)))"
  proof (cases "taken_by_other tab h ii")
    case False
    then show ?thesis using eq lt r by (auto intro!: exI [of _ 0])
  next
    case True
    then have "f tab h ((ii + 1) mod ?n) (c + 1) = Some (loc, c')"
      using eq lt r by (simp only: next_mod) simp
    from IH [OF this] obtain k where k: "loc = ((ii + 1) mod ?n + k) mod ?n" "c' = c + 1 + k"
      "\<not> taken_by_other tab h loc"
      "\<forall>j < k. taken_by_other tab h (((ii + 1) mod ?n + j) mod ?n)" by auto
    have shift: "((ii + 1) mod ?n + j) mod ?n = (ii + Suc j) mod ?n" for j
      by (simp add: mod_add_left_eq)
    have "\<forall>j < Suc k. taken_by_other tab h ((ii + j) mod ?n)"
      using k(4) True lt unfolding shift by (auto simp: less_Suc_eq_0_disj)
    then show ?thesis using k lt r unfolding shift by (auto intro!: exI [of _ "Suc k"])
  qed
qed

lemma probe_terminates:
  assumes "ii < length tab" and "j < length tab" and "\<not> taken_by_other tab h j"
  shows "\<exists>loc c'. probe tab h ii c = Some (loc, c') \<and> loc < length tab"
proof -
  let ?n = "length tab" and ?P = "\<lambda>k. \<not> taken_by_other tab h ((ii + k) mod length tab)"
  have "(ii + (j + ?n - ii)) mod ?n = j" using assms by simp
  then have "?P (j + ?n - ii)" using assms(3) by simp
  then obtain k where "?P k" "\<forall>i < k. \<not> ?P i" using exists_least_iff [of ?P] by auto
  from probe_finds [OF assms(1), of k h c] this have
    "probe tab h ii c = Some ((ii + k) mod ?n, c + k)" by simp
  moreover have "(ii + k) mod ?n < ?n" using assms(1) by (intro mod_less_divisor) linarith
  ultimately show ?thesis by blast
qed

section \<open>Claimed locations are stable\<close>

definition tab_le :: "table \<Rightarrow> table \<Rightarrow> bool" where
  "tab_le t u \<longleftrightarrow> length t = length u \<and> (\<forall>j < length t. t ! j \<noteq> - 1 \<longrightarrow> u ! j = t ! j)"

lemma tab_le_refl [simp]: "tab_le t t"
  by (simp add: tab_le_def)

lemma tab_le_trans: "tab_le t u \<Longrightarrow> tab_le u v \<Longrightarrow> tab_le t v"
  by (auto simp: tab_le_def)

lemma tab_le_claim:
  assumes "\<not> taken_by_other t h loc"
  shows "tab_le t (t[loc := h])"
proof -
  have "t[loc := h] ! j = t ! j" if "j < length t" "t ! j \<noteq> - 1" for j
    using assms that by (cases "j = loc") (auto simp: taken_by_other_def)
  then show ?thesis by (simp add: tab_le_def)
qed

lemma probe_stable:
  assumes pr: "probe t h ii c = Some (loc, c')" and h: "h \<noteq> - 1"
    and le: "tab_le (t[loc := h]) u"
  shows "probe u h ii c = Some (loc, c')"
proof -
  let ?n = "length t"
  from probe_Some [OF pr] obtain k where ii: "ii < ?n" and
    k: "loc = (ii + k) mod ?n" "c' = c + k" "\<not> taken_by_other t h loc"
    and taken: "\<forall>j < k. taken_by_other t h ((ii + j) mod ?n)" by blast
  have n: "length u = ?n" using le by (simp add: tab_le_def)
  have loc: "loc < ?n" using ii unfolding k(1) by (intro mod_less_divisor) linarith
  have "taken_by_other u h ((ii + j) mod ?n)" if "j < k" for j
  proof -
    let ?p = "(ii + j) mod ?n"
    have p: "?p < ?n" using ii by (intro mod_less_divisor) linarith
    have t: "taken_by_other t h ?p" using taken that by blast
    then have "?p \<noteq> loc" using k(3) by auto
    then have "u ! ?p = t ! ?p" using le t p by (auto simp: tab_le_def taken_by_other_def)
    then show ?thesis using t by (simp add: taken_by_other_def)
  qed
  moreover have "u ! loc = h" using le h loc by (simp add: tab_le_def)
  then have "\<not> taken_by_other u h ((ii + k) mod ?n)" using k(1) by (simp add: taken_by_other_def)
  ultimately show ?thesis using probe_finds [of ii u k h c] ii n k by simp
qed

text \<open>A later state of the projector: the same configuration, and every claimed entry kept.\<close>

definition later :: "tile_coding \<Rightarrow> tile_coding \<Rightarrow> bool" where
  "later s t \<longleftrightarrow> tc_memory t = tc_memory s \<and> tc_tilings t = tc_tilings s \<and>
     tc_safe t = tc_safe s \<and> tc_scaling t = tc_scaling s \<and> tc_wrapping t = tc_wrapping s \<and>
     (case (tc_indices s, tc_indices t) of
        (None, None) \<Rightarrow> True | (Some a, Some b) \<Rightarrow> tab_le a b | _ \<Rightarrow> False)"

lemma later_refl [simp]: "later s s"
  by (simp add: later_def split: option.splits)

lemma later_trans: "later s t \<Longrightarrow> later t u \<Longrightarrow> later s u"
  by (auto simp: later_def intro: tab_le_trans split: option.splits)

definition tc_wf :: "tile_coding \<Rightarrow> bool" where
  "tc_wf tc \<longleftrightarrow> 0 < tc_memory tc \<and>
     (case tc_indices tc of None \<Rightarrow> True | Some tab \<Rightarrow> length tab = tc_memory tc)"

lemma later_wf: "later s t \<Longrightarrow> tc_wf s \<Longrightarrow> tc_wf t"
  by (auto simp: later_def tc_wf_def tab_le_def split: option.splits)

lemma locate_later: "locate h claim tc = Some (loc, tc') \<Longrightarrow> later tc tc'"
  by (auto simp: locate_def later_def Let_def intro!: tab_le_claim dest!: probe_Some
      split: if_splits option.splits prod.splits)

lemma locate_bound:
  assumes "tc_wf tc" and "locate h claim tc = Some (loc, tc')"
  shows "loc < tc_memory tc"
proof (cases "tc_indices tc")
  case None
  then show ?thesis using assms by (auto simp: locate_def tc_wf_def Let_def)
next
  case (Some tab)
  then have len: "length tab = tc_memory tc" "0 < tc_memory tc" using assms(1) by (auto simp: tc_wf_def)
  from Some assms(2) obtain c where "probe tab h (unat h mod tc_memory tc) 0 = Some (loc, c)"
    using len by (auto simp: locate_def Let_def split: option.splits)
  from probe_Some [OF this] show ?thesis using len by (auto simp: mod_less_divisor)
qed

lemma locate_stable:
  assumes loc: "locate h True s = Some (loc, t)" and h: "h \<noteq> - 1" and l: "later t u"
  shows "\<exists>v. locate h cl u = Some (loc, v)"
proof (cases "tc_indices s")
  case None
  then have "tc_indices u = None" "tc_memory u = tc_memory s"
    using loc l by (auto simp: locate_def later_def Let_def split: if_splits option.splits)
  then show ?thesis using None loc by (auto simp: locate_def Let_def split: if_splits)
next
  case (Some tab)
  let ?ii = "unat h mod tc_memory s"
  obtain c where pr: "probe tab h ?ii 0 = Some (loc, c)" and m: "tc_memory s \<noteq> 0"
    using loc Some by (auto simp: locate_def Let_def split: if_splits option.splits)
  then have "tc_indices t = Some (tab[loc := h])" "tc_memory t = tc_memory s"
    using loc Some by (auto simp: locate_def Let_def)
  then obtain tab' where u: "tc_indices u = Some tab'" "tab_le (tab[loc := h]) tab'"
    "tc_memory u = tc_memory s"
    using l by (auto simp: later_def split: option.splits)
  from probe_stable [OF pr h u(2)] have "probe tab' h ?ii 0 = Some (loc, c)" .
  then show ?thesis using u m by (simp add: locate_def Let_def)
qed

lemma locate_disjoint:
  assumes one: "locate h True s = Some (loc, t)" and two: "locate h' cl u = Some (loc', v)"
    and l: "later t u" and safe: "tc_indices s \<noteq> None" and h: "h \<noteq> - 1" and ne: "h' \<noteq> h"
    and wf: "tc_wf s"
  shows "loc' \<noteq> loc"
proof -
  obtain tab where tab: "tc_indices s = Some tab" using safe by blast
  have m: "tc_memory s \<noteq> 0" "length tab = tc_memory s" using wf tab by (auto simp: tc_wf_def)
  obtain c where "probe tab h (unat h mod tc_memory s) 0 = Some (loc, c)"
    using one tab m by (auto simp: locate_def Let_def split: if_splits option.splits)
  then have t: "tc_indices t = Some (tab[loc := h])" using one tab m by (auto simp: locate_def Let_def)
  have locb: "loc < length tab" using locate_bound [OF wf one] m by simp
  obtain tab' where u: "tc_indices u = Some tab'" "tab_le (tab[loc := h]) tab'"
    using l t by (auto simp: later_def split: option.splits)
  have "tab' ! loc = h" using u(2) locb h by (simp add: tab_le_def)
  then have taken: "taken_by_other tab' h' loc" using ne h by (simp add: taken_by_other_def)
  obtain c' ii where "probe tab' h' ii 0 = Some (loc', c')"
    using two u(1) by (auto simp: locate_def Let_def split: if_splits option.splits)
  from probe_Some [OF this] have "\<not> taken_by_other tab' h' loc'" by blast
  then show ?thesis using taken by auto
qed

lemma later_coordinates: "later s t \<Longrightarrow> tile_coordinates t = tile_coordinates s"
  by (intro ext) (simp add: tile_coordinates_def later_def)

lemma project_tilings_later:
  "project_tilings n j q b cl tc = Some (locs, tc') \<Longrightarrow> later tc tc'"
proof (induction n arbitrary: j b tc locs)
  case (Suc n)
  then show ?case
    by (auto simp: bind_eq_Some_conv getFeatureLocation_def dest!: locate_later intro: later_trans)
qed simp

lemma project_tilings_bound:
  "tc_wf tc \<Longrightarrow> project_tilings n j q b cl tc = Some (locs, tc') \<Longrightarrow>
   length locs = n \<and> (\<forall>l \<in> set locs. l < tc_memory tc)"
proof (induction n arbitrary: j b tc locs)
  case (Suc n)
  from Suc.prems(2) obtain cs loc tc1 rest where step:
    "getFeatureLocation cs cl tc = Some (loc, tc1)"
    "project_tilings n (j + 1) q (next_base b) cl tc1 = Some (rest, tc')" "locs = loc # rest"
    by (auto simp: bind_eq_Some_conv)
  have l: "later tc tc1" using step(1) by (auto simp: getFeatureLocation_def dest: locate_later)
  have "loc < tc_memory tc"
    using locate_bound [OF Suc.prems(1)] step(1) by (simp add: getFeatureLocation_def)
  moreover have "tc_memory tc1 = tc_memory tc" using l by (simp add: later_def)
  ultimately show ?case using Suc.IH [OF later_wf [OF l Suc.prems(1)] step(2)] step(3) by simp
qed simp

text \<open>None of the tiles of an input has the hash that marks a free entry.\<close>

fun hashes_ok :: "tile_coding \<Rightarrow> nat \<Rightarrow> nat \<Rightarrow> int list \<Rightarrow> int list \<Rightarrow> bool" where
  "hashes_ok tc 0 j q b = True"
| "hashes_ok tc (Suc n) j q b =
     ((case tile_coordinates tc q b j of None \<Rightarrow> False | Some cs \<Rightarrow> hash_of cs \<noteq> - 1) \<and>
      hashes_ok tc n (j + 1) q (next_base b))"

lemma hashes_ok_later: "later s t \<Longrightarrow> hashes_ok t n j q b = hashes_ok s n j q b"
  by (induction n arbitrary: j b) (auto simp: later_coordinates)

lemma project_tilings_stable:
  assumes "project_tilings n j q b True s = Some (locs, t)" and "later t u"
    and "hashes_ok s n j q b"
  shows "\<exists>v. project_tilings n j q b cl u = Some (locs, v)"
  using assms
proof (induction n arbitrary: j b s locs u)
  case (Suc n)
  from Suc.prems(1) obtain cs loc s1 rest where step: "tile_coordinates s q b j = Some cs"
    "locate (hash_of cs) True s = Some (loc, s1)"
    "project_tilings n (j + 1) q (next_base b) True s1 = Some (rest, t)" "locs = loc # rest"
    by (auto simp: bind_eq_Some_conv getFeatureLocation_def)
  have l1: "later s s1" by (rule locate_later [OF step(2)])
  have l2: "later s1 t" by (rule project_tilings_later [OF step(3)])
  have h: "hash_of cs \<noteq> - 1" "hashes_ok s1 n (j + 1) q (next_base b)"
    using Suc.prems(3) step(1) l1 by (simp_all add: hashes_ok_later)
  have l: "later s1 u" using l2 Suc.prems(2) by (rule later_trans)
  obtain u1 where u1: "locate (hash_of cs) cl u = Some (loc, u1)"
    using locate_stable [OF step(2) h(1) l] by blast
  have "later t u1" using Suc.prems(2) locate_later [OF u1] by (rule later_trans)
  from Suc.IH [OF step(3) this h(2)] obtain v where
    "project_tilings n (j + 1) q (next_base b) cl u1 = Some (rest, v)" by blast
  moreover have "tile_coordinates u q b j = Some cs"
    using step(1) later_coordinates [OF later_trans [OF l1 l]] by simp
  ultimately show ?case using u1 step(4) by (simp add: getFeatureLocation_def)
qed simp

section \<open>Geometry of the tilings\<close>

lemma c_int_Some [simp]: "c_int x = Some y \<longleftrightarrow> y = x \<and> - (2 ^ 31) \<le> x \<and> x < 2 ^ 31"
  by (auto simp: c_int_def)

text \<open>Without wrapping, the coordinate is the lower edge of the tile that holds the state.\<close>

lemma tile_coordinate_edge:
  assumes "0 < t" and "tile_coordinate t q b 0 = Some c"
  shows "c = q - (q - b) mod t \<and> c \<le> q \<and> q < c + t \<and> (c - b) mod t = 0"
proof -
  have c: "c = q - (q - b) mod t"
    using assms by (auto simp: tile_coordinate_def bind_eq_Some_conv safe_mod_pos)
  have "0 \<le> (q - b) mod t" "(q - b) mod t < t" using assms(1) by simp_all
  moreover have "(c - b) mod t = 0"
    unfolding c by (metis diff_diff_eq2 diff_add_eq mod_0 mod_diff_right_eq diff_self
        cancel_ab_semigroup_add_class.diff_right_commute)
  ultimately show ?thesis using c by simp
qed

lemma tile_coordinate_wrap:
  assumes "0 < t" and "w \<noteq> 0" and "0 < \<lfloor>w\<rfloor>" and "tile_coordinate t q b w = Some c"
  shows "c = (q - (q - b) mod t) mod \<lfloor>w\<rfloor>"
  using assms by (auto simp: tile_coordinate_def bind_eq_Some_conv safe_mod_pos)

text \<open>
  With a wrapping that is a multiple of the number of tilings, states one period apart fall into
  the same tile.
\<close>

lemma tile_coordinate_periodic:
  assumes t: "0 < t" and w: "w = of_int (k * t)" "0 < k"
    and c: "tile_coordinate t q b w = Some c"
    and c': "tile_coordinate t (q + k * t) b w = Some c'"
  shows "c' = c"
proof -
  have kt: "0 < k * t" using w(2) t by (rule mult_pos_pos)
  have "\<lfloor>w\<rfloor> = k * t" unfolding w(1) by (rule floor_of_int)
  then have fw: "\<lfloor>w\<rfloor> = k * t" "w \<noteq> 0" "0 < \<lfloor>w\<rfloor>" using kt by auto
  have "(q + k * t - b) mod t = (q - b) mod t"
    by (metis add_diff_eq diff_add_eq mod_mult_self1)
  then have "q + k * t - (q + k * t - b) mod t = (q - (q - b) mod t) + k * t" by simp
  then have "(q + k * t - (q + k * t - b) mod t) mod (k * t) = (q - (q - b) mod t) mod (k * t)"
    by (simp only: mod_add_self2)
  then show ?thesis
    using tile_coordinate_wrap [OF t fw(2,3) c] tile_coordinate_wrap [OF t fw(2,3) c'] fw(1)
    by simp
qed

text \<open>
  Along one dimension the displacement of tiling \<open>j\<close> is \<open>j * (1 + 2 * i)\<close>. When it is coprime
  to the number of tilings, a step of one quantum moves exactly one tiling to its next tile.
\<close>

definition displacement :: "nat \<Rightarrow> nat \<Rightarrow> int" where
  "displacement i j = int j * (1 + 2 * int i)"

lemma next_base_displacement:
  "next_base (map (\<lambda>i. displacement i j) [0..<n]) = map (\<lambda>i. displacement i (Suc j)) [0..<n]"
  by (rule nth_equalityI) (simp_all add: next_base_def displacement_def algebra_simps)

lemma edge_moves_iff:
  assumes "0 < (t :: int)"
  shows "q + 1 - (q + 1 - b) mod t \<noteq> q - (q - b) mod t \<longleftrightarrow> t dvd (q + 1 - b)"
proof -
  define m where "m = (q - b) mod t"
  have m: "0 \<le> m" "m < t" using assms by (simp_all add: m_def)
  have step: "(q + 1 - b) mod t = (m + 1) mod t"
    unfolding m_def by (metis add_diff_eq diff_add_eq mod_add_left_eq add.commute)
  show ?thesis
  proof (cases "m + 1 = t")
    case True
    then have "(q + 1 - b) mod t = 0" using step by simp
    then show ?thesis using m m_def by (auto simp: dvd_eq_mod_eq_0)
  next
    case False
    then have "(q + 1 - b) mod t = m + 1" using step m by simp
    then show ?thesis using m m_def by (auto simp: dvd_eq_mod_eq_0)
  qed
qed

lemma unique_displacement:
  assumes t: "0 < t" and cop: "coprime (1 + 2 * int i) (int t)"
  shows "card {j. j < t \<and> int t dvd (p - displacement i j)} = 1"
proof -
  let ?f = "\<lambda>j. nat (displacement i j mod int t)"
  have inj: "inj_on ?f {..<t}"
  proof (rule inj_onI)
    fix j k assume jk: "j \<in> {..<t}" "k \<in> {..<t}" and "?f j = ?f k"
    then have "displacement i j mod int t = displacement i k mod int t"
      using t by (simp add: nat_eq_iff)
    then have "int t dvd (int j - int k) * (1 + 2 * int i)"
      by (simp add: mod_eq_dvd_iff displacement_def left_diff_distrib)
    then have "int t dvd int j - int k"
      using cop by (simp add: coprime_dvd_mult_left_iff coprime_commute)
    moreover have "\<bar>int j - int k\<bar> < int t" using jk by auto
    ultimately have "int j - int k = 0"
      using dvd_imp_le_int [of "int j - int k" "int t"] t by (cases "int j - int k = 0") auto
    then show "j = k" by simp
  qed
  have sub: "?f ` {..<t} \<subseteq> {..<t}"
  proof
    fix x assume "x \<in> ?f ` {..<t}"
    then obtain j where "x = nat (displacement i j mod int t)" by auto
    moreover have "displacement i j mod int t < int t" using t by simp
    ultimately show "x \<in> {..<t}" using t by (simp add: nat_less_iff)
  qed
  have "?f ` {..<t} = {..<t}" using endo_inj_surj [OF _ sub inj] by simp
  moreover have "nat (p mod int t) \<in> {..<t}" using t by (simp add: nat_less_iff)
  ultimately have "nat (p mod int t) \<in> ?f ` {..<t}" by simp
  then obtain j where j: "j < t" "?f j = nat (p mod int t)" by auto
  have iff: "int t dvd (p - displacement i k) \<longleftrightarrow> ?f k = nat (p mod int t)" for k
    using t by (auto simp: mod_eq_dvd_iff [symmetric] nat_eq_iff)
  have "{k. k < t \<and> int t dvd (p - displacement i k)} = {j}"
    using j inj by (auto simp: iff inj_on_def)
  then show ?thesis by simp
qed

section \<open>Properties\<close>

text \<open>No tile of the input has the hash that marks a free entry.\<close>

definition tc_unreserved :: "dvec \<Rightarrow> tile_coding \<Rightarrow> bool" where
  "tc_unreserved v tc =
     (case option_list (map2 (\<lambda>x sc. c_int \<lfloor>x * sc\<rfloor>) v (tc_scaling tc)) of
        None \<Rightarrow> True
      | Some qstate \<Rightarrow>
          hashes_ok tc (nat (tc_tilings tc)) 0 qstate (replicate (length v) 0))"

text \<open>A sequence of projections, each with its claim flag.\<close>

fun tc_run :: "(dvec \<times> bool) list \<Rightarrow> tile_coding \<Rightarrow> tile_coding option" where
  "tc_run [] tc = Some tc"
| "tc_run ((v, claim) # vs) tc =
     (case tc_project v claim tc of Projected p tc' \<Rightarrow> tc_run vs tc' | _ \<Rightarrow> None)"

lemma tc_project_cases:
  assumes "tc_project v claim tc = Projected p tc'"
  obtains qstate where "length v = length (tc_scaling tc)" "\<not> MAX_NUM_VARS < length v"
    "option_list (map2 (\<lambda>x sc. c_int \<lfloor>x * sc\<rfloor>) v (tc_scaling tc)) = Some qstate"
    "project_tilings (nat (tc_tilings tc)) 0 qstate (replicate (length v) 0) claim tc =
       Some (ip_indices p, tc')" "ip_weights p = []"
  using assms by (auto simp: tc_project_def split: if_splits option.splits)

lemma tc_project_later: "tc_project v claim tc = Projected p tc' \<Longrightarrow> later tc tc'"
  by (erule tc_project_cases) (rule project_tilings_later)

lemma tc_run_later: "tc_run vs tc = Some tc' \<Longrightarrow> later tc tc'"
  by (induction vs tc rule: tc_run.induct)
    (auto split: tc_result.splits intro: later_trans dest: tc_project_later)

text \<open>C3: tile coding is stable. Once an input has been projected with its tiles claimed, any later
  projection of it, after any sequence of other projections into the same table, succeeds and
  yields the same indices, one per tiling and all within the memory.\<close>

theorem tile_projection_stable:
  assumes "tc_wf tc" and "tc_unreserved v tc"
    and "tc_project v True tc = Projected p tc1" and "tc_run vs tc1 = Some tc2"
  shows "(\<exists>tc3. tc_project v claim tc2 = Projected p tc3) \<and>
    length (ip_indices p) = nat (tc_tilings tc) \<and> (\<forall>l \<in> set (ip_indices p). l < tc_memory tc)"
proof -
  from assms(3) obtain q where q: "length v = length (tc_scaling tc)" "\<not> MAX_NUM_VARS < length v"
    "option_list (map2 (\<lambda>x sc. c_int \<lfloor>x * sc\<rfloor>) v (tc_scaling tc)) = Some q"
    "project_tilings (nat (tc_tilings tc)) 0 q (replicate (length v) 0) True tc =
       Some (ip_indices p, tc1)" "ip_weights p = []" by (rule tc_project_cases)
  have l: "later tc1 tc2" by (rule tc_run_later [OF assms(4)])
  have h: "hashes_ok tc (nat (tc_tilings tc)) 0 q (replicate (length v) 0)"
    using assms(2) q(3) by (simp add: tc_unreserved_def)
  from project_tilings_stable [OF q(4) l h] obtain tc3 where
    r: "project_tilings (nat (tc_tilings tc)) 0 q (replicate (length v) 0) claim tc2 =
      Some (ip_indices p, tc3)" by blast
  have "later tc tc2" by (rule later_trans [OF tc_project_later [OF assms(3)] l])
  then have same: "tc_scaling tc2 = tc_scaling tc" "tc_tilings tc2 = tc_tilings tc"
    by (auto simp: later_def)
  have "tc_project v claim tc2 = Projected p tc3"
    unfolding tc_project_def same using q r by simp
  then show ?thesis using project_tilings_bound [OF assms(1) q(4)] by blast
qed

text \<open>collision detection. Tiles with different hashes never share a location: a location
  claimed for one is not returned for the other at any later time.\<close>

theorem tile_claims_disjoint:
  assumes "tc_wf tc" and "tc_indices tc \<noteq> None" and "hash_of cs \<noteq> - 1" and "hash_of cs' \<noteq> hash_of cs"
    and "getFeatureLocation cs True tc = Some (loc, tc1)" and "tc_run vs tc1 = Some tc2"
    and "getFeatureLocation cs' claim tc2 = Some (loc', tc3)"
  shows "loc' \<noteq> loc"
  using locate_disjoint [of "hash_of cs" tc loc tc1 "hash_of cs'" claim tc2 loc' tc3] assms
    tc_run_later [OF assms(6)] by (simp add: getFeatureLocation_def)

text \<open>the search for a free entry ends unless the whole table is taken by tiles with other
  hashes; then it never returns.\<close>

theorem tile_lookup_returns:
  assumes "tc_wf tc" and "tc_indices tc = Some tab"
  shows "getFeatureLocation cs claim tc = None \<longleftrightarrow>
    (\<forall>j < tc_memory tc. taken_by_other tab (hash_of cs) j)"
proof -
  let ?h = "hash_of cs" and ?ii = "unat (hash_of cs) mod tc_memory tc"
  have len: "length tab = tc_memory tc" "0 < tc_memory tc" using assms by (auto simp: tc_wf_def)
  then have ii: "?ii < length tab" by simp
  have "getFeatureLocation cs claim tc = None \<longleftrightarrow> probe tab ?h ?ii 0 = None"
    using assms(2) len by (auto simp: getFeatureLocation_def locate_def Let_def split: option.splits)
  also have "\<dots> \<longleftrightarrow> (\<forall>j < tc_memory tc. taken_by_other tab ?h j)"
  proof
    assume none: "probe tab ?h ?ii 0 = None"
    show "\<forall>j < tc_memory tc. taken_by_other tab ?h j"
      using probe_terminates [OF ii, of _ ?h 0] none len by force
  next
    assume all: "\<forall>j < tc_memory tc. taken_by_other tab ?h j"
    show "probe tab ?h ?ii 0 = None"
    proof (rule ccontr)
      assume "probe tab ?h ?ii 0 \<noteq> None"
      then obtain loc c where "probe tab ?h ?ii 0 = Some (loc, c)" by auto
      from probe_Some [OF this] obtain k where "loc = (?ii + k) mod length tab"
        "\<not> taken_by_other tab ?h loc" by blast
      moreover have "(?ii + k) mod length tab < length tab" using ii by (intro mod_less_divisor) linarith
      ultimately show False using all len by metis
    qed
  qed
  finally show ?thesis .
qed

text \<open>generalisation. When \<open>1 + 2 * i\<close> is coprime to the number of tilings, moving one quantum
  along dimension \<open>i\<close> changes the tile of exactly one tiling, so nearby inputs share all tiles
  but one.\<close>

theorem one_tiling_moves:
  assumes "0 < t" and "int t < 2 ^ 29" and "coprime (1 + 2 * int i) (int t)"
    and "\<bar>q\<bar> < 2 ^ 29" and "\<forall>j < t. displacement i j < 2 ^ 29"
  shows "card {j. j < t \<and> tile_coordinate (int t) q (displacement i j) 0 \<noteq>
                        tile_coordinate (int t) (q + 1) (displacement i j) 0} = 1"
proof -
  have coord: "tile_coordinate (int t) p (displacement i j) 0 =
      Some (p - (p - displacement i j) mod int t)"
    if p: "\<bar>p\<bar> \<le> 2 ^ 29" and j: "j < t" for p j
  proof -
    have d: "0 \<le> displacement i j" "displacement i j < 2 ^ 29"
      using assms(5) j by (simp_all add: displacement_def)
    have m: "0 \<le> (p - displacement i j) mod int t" "(p - displacement i j) mod int t < int t"
      using assms(1) by simp_all
    have "c_int (p - displacement i j) = Some (p - displacement i j)"
      using p d by (simp add: abs_le_iff)
    moreover have "c_int (p - (p - displacement i j) mod int t) =
        Some (p - (p - displacement i j) mod int t)"
      using p m assms(2) by (simp add: abs_le_iff)
    ultimately show ?thesis using assms(1)
      by (simp add: tile_coordinate_def safe_mod_pos c_int_def)
  qed
  have "tile_coordinate (int t) q (displacement i j) 0 \<noteq>
      tile_coordinate (int t) (q + 1) (displacement i j) 0 \<longleftrightarrow>
      int t dvd (q + 1 - displacement i j)" if "j < t" for j
    using coord [OF _ that, of q] coord [OF _ that, of "q + 1"] assms(1,4)
      edge_moves_iff [of "int t" q "displacement i j"] by fastforce
  then have "{j. j < t \<and> tile_coordinate (int t) q (displacement i j) 0 \<noteq>
        tile_coordinate (int t) (q + 1) (displacement i j) 0} =
      {j. j < t \<and> int t dvd (q + 1 - displacement i j)}" by blast
  then show ?thesis using unique_displacement [OF assms(1,3), of "q + 1"] by simp
qed

text \<open>A small projector with collision detection: two tilings of one dimension, four entries.\<close>

definition tc_small :: tile_coding where
  "tc_small = \<lparr>tc_tilings = 2, tc_memory = 4, tc_safe = 2, tc_indices = Some [- 1, - 1, - 1, - 1],
     tc_pressure = 0, tc_resolution = [1], tc_scaling = [2], tc_wrapping = [0]\<rparr>"

lemma hash_small:
  "hash_of [0, 0] = 0xb6bd1784" "hash_of [- 1, 1] = 0x406fd5da"
  "hash_of [2, 0] = 0x4ddc1c0f" "hash_of [1, 1] = 0xd8b7665f"
  by (simp_all add: hash_of_def createHashSum_def Let_def murmur_m_def)

lemma project_two: "project_tilings 2 j q b claim tc =
    do { cs \<leftarrow> tile_coordinates tc q b j;
         (loc, tc1) \<leftarrow> getFeatureLocation cs claim tc;
         cs' \<leftarrow> tile_coordinates tc1 q (next_base b) (j + 1);
         (loc', tc2) \<leftarrow> getFeatureLocation cs' claim tc1;
         Some ([loc, loc'], tc2) }"
  by (simp add: numeral_2_eq_2) (auto simp: bind_split split: option.splits prod.splits)

lemma hashes_two: "hashes_ok tc 2 j q b \<longleftrightarrow>
    (case tile_coordinates tc q b j of None \<Rightarrow> False | Some cs \<Rightarrow> hash_of cs \<noteq> - 1) \<and>
    (case tile_coordinates tc q (next_base b) (j + 1) of None \<Rightarrow> False | Some cs \<Rightarrow> hash_of cs \<noteq> - 1)"
  by (simp add: numeral_2_eq_2)

lemmas tc_eval = tc_small_def tc_project_def MAX_NUM_VARS_def c_int_def project_two hashes_two
  tile_coordinates_def tile_coordinate_def safe_mod_pos next_base_def getFeatureLocation_def
  locate_def probe.simps taken_by_other_def hash_small

lemma tc_small_wf: "tc_wf tc_small"
  by (simp add: tc_wf_def tc_small_def)

lemma tc_small_unreserved: "tc_unreserved [0] tc_small"
  by (simp add: tc_unreserved_def tc_eval)

lemma tc_small_first: "tc_project [0] True tc_small = Projected \<lparr>ip_indices = [0, 2], ip_weights = []\<rparr>
    (tc_small\<lparr>tc_indices := Some [0xb6bd1784, - 1, 0x406fd5da, - 1]\<rparr>)"
  by (simp add: tc_eval)

lemma tc_small_second:
  "tc_project [1] True (tc_small\<lparr>tc_indices := Some [0xb6bd1784, - 1, 0x406fd5da, - 1]\<rparr>) =
   Projected \<lparr>ip_indices = [3, 1], ip_weights = []\<rparr>
    (tc_small\<lparr>tc_pressure := 2, tc_indices := Some [0xb6bd1784, 0xd8b7665f, 0x406fd5da, 0x4ddc1c0f]\<rparr>)"
  by (simp add: tc_eval)

theorem tile_projection_stable_witness:
  "\<exists>tc2 tc3. tc_run [([1], True)] (tc_small\<lparr>tc_indices := Some [0xb6bd1784, - 1, 0x406fd5da, - 1]\<rparr>) = Some tc2 \<and>
    tc_project [0] False tc2 = Projected \<lparr>ip_indices = [0, 2], ip_weights = []\<rparr> tc3"
proof -
  from tc_small_second obtain tc2 where
    "tc_run [([1], True)] (tc_small\<lparr>tc_indices := Some [0xb6bd1784, - 1, 0x406fd5da, - 1]\<rparr>) = Some tc2"
    by simp
  with tile_projection_stable [OF tc_small_wf tc_small_unreserved tc_small_first this, of False]
  show ?thesis by blast
qed

theorem tile_claims_disjoint_witness:
  "\<exists>loc tc1 loc' tc3. getFeatureLocation [0, 0] True tc_small = Some (loc, tc1) \<and>
    getFeatureLocation [2, 0] False tc1 = Some (loc', tc3) \<and> loc' \<noteq> loc"
proof -
  obtain loc tc1 where a: "getFeatureLocation [0, 0] True tc_small = Some (loc, tc1)"
    and "tc1 = tc_small\<lparr>tc_indices := Some [0xb6bd1784, - 1, - 1, - 1]\<rparr>"
    by (simp add: tc_eval)
  then obtain loc' tc3 where b: "getFeatureLocation [2, 0] False tc1 = Some (loc', tc3)"
    by (simp add: tc_eval)
  have "loc' \<noteq> loc"
    by (rule tile_claims_disjoint [OF tc_small_wf _ _ _ a _ b, of "[]"])
      (simp_all add: tc_small_def hash_small)
  with a b show ?thesis by blast
qed

theorem tile_lookup_returns_witness:
  "getFeatureLocation [0, 0] True (tc_small\<lparr>tc_indices := Some [5, 5, 5, 5]\<rparr>) = None"
proof -
  have "tc_wf (tc_small\<lparr>tc_indices := Some [5, 5, 5, 5]\<rparr>)"
    by (simp add: tc_wf_def tc_small_def)
  moreover have "\<forall>j < 4. taken_by_other [5, 5, 5, 5] (hash_of [0, 0]) j"
    by (auto simp: taken_by_other_def hash_small nth_Cons split: nat.split)
  ultimately show ?thesis
    using tile_lookup_returns [of "tc_small\<lparr>tc_indices := Some [5, 5, 5, 5]\<rparr>" "[5, 5, 5, 5]" "[0, 0]" True]
    by (simp add: tc_small_def)
qed

theorem one_tiling_moves_witness:
  "card {j. j < 4 \<and> tile_coordinate 4 10 (displacement 1 j) 0 \<noteq>
                     tile_coordinate 4 11 (displacement 1 j) 0} = 1"
proof -
  have "coprime (3 :: int) 4" by (simp add: coprime_iff_gcd_eq_1 gcd_non_0_int)
  then show ?thesis using one_tiling_moves [of 4 1 10] by (auto simp: displacement_def)
qed

end
