(* ===== verification/Samples.thy ===== *)
theory Samples
  imports Prelude "HOL-Library.Multiset"
begin

text \<open>
  The sample database (\<open>base/include/grl/projections/sample.h\<close>): samples live on the heap, are
  shared between databases by pointer, and carry a use count that decides who deletes them.

  The heap is a map from addresses to samples; an address is allocated once. Every database is a
  list of addresses, and all databases of a program form the state, so that the use counts can be
  compared with the references that exist. Reading or writing through an address that is not
  allocated, and using a destroyed database, give \<open>None\<close>.
\<close>

section \<open>State\<close>

record sample_rec =
  s_in :: "real list"
  s_out :: "real list"
  s_relevance :: real
  s_use_count :: nat

type_synonym sheap = "nat \<Rightarrow> sample_rec option"

record stores =
  st_heap :: sheap
  st_next :: nat                            \<comment> \<open>the next fresh address\<close>
  st_stores :: "nat list option list"       \<comment> \<open>\<open>samples_\<close> of each database; \<open>None\<close> once destroyed\<close>

definition stores_new :: stores where
  "stores_new = \<lparr>st_heap = (\<lambda>_. None), st_next = 0, st_stores = []\<rparr>"

definition store_at :: "nat \<Rightarrow> stores \<Rightarrow> nat list option" where
  "store_at k s = (if k < length (st_stores s) then st_stores s ! k else None)"

section \<open>Operations\<close>

text \<open>\<open>new SampleStore\<close>, and \<open>new Sample\<close> with the fields its creator fills in.\<close>

definition store_create :: "stores \<Rightarrow> nat \<times> stores" where
  "store_create s = (length (st_stores s), s\<lparr>st_stores := st_stores s @ [Some []]\<rparr>)"

definition sample_new :: "sample_rec \<Rightarrow> stores \<Rightarrow> nat \<times> stores" where
  "sample_new x s =
     (st_next s, s\<lparr>st_heap := (st_heap s)(st_next s := Some x), st_next := st_next s + 1\<rparr>)"

definition store_push_back :: "nat \<Rightarrow> nat \<Rightarrow> stores \<Rightarrow> stores option" where
  "store_push_back k a s =
     (case (store_at k s, st_heap s a) of
        (Some xs, Some x) \<Rightarrow>
          Some (s\<lparr>st_heap := (st_heap s)(a := Some (x\<lparr>s_use_count := 1\<rparr>)),
                  st_stores := (st_stores s)[k := Some (xs @ [a])]\<rparr>)
      | _ \<Rightarrow> None)"

text \<open>The loop of the destructor.\<close>

fun release :: "nat list \<Rightarrow> sheap \<Rightarrow> sheap option" where
  "release [] h = Some h"
| "release (a # as) h =
     (case h a of
        None \<Rightarrow> None
      | Some x \<Rightarrow>
          if s_use_count x = 0 then None
          else let x = x\<lparr>s_use_count := s_use_count x - 1\<rparr>
               in release as (h(a := (if s_use_count x = 0 then None else Some x))))"

definition store_destroy :: "nat \<Rightarrow> stores \<Rightarrow> stores option" where
  "store_destroy k s =
     (case store_at k s of
        None \<Rightarrow> None
      | Some xs \<Rightarrow>
          map_option (\<lambda>h. s\<lparr>st_heap := h, st_stores := (st_stores s)[k := None]\<rparr>)
            (release xs (st_heap s)))"

text \<open>The deep copy of \<open>clone\<close>.\<close>

fun copy_samples :: "nat list \<Rightarrow> stores \<Rightarrow> (nat list \<times> stores) option" where
  "copy_samples [] s = Some ([], s)"
| "copy_samples (a # as) s =
     (case st_heap s a of
        None \<Rightarrow> None
      | Some x \<Rightarrow>
          let (b, s1) = sample_new (x\<lparr>s_use_count := 1\<rparr>) s
          in map_option (\<lambda>(bs, s2). (b # bs, s2)) (copy_samples as s1))"

definition store_clone :: "nat \<Rightarrow> stores \<Rightarrow> (nat \<times> stores) option" where
  "store_clone k s =
     (case store_at k s of
        None \<Rightarrow> None
      | Some xs \<Rightarrow>
          map_option (\<lambda>(ys, s1). (length (st_stores s1), s1\<lparr>st_stores := st_stores s1 @ [Some ys]\<rparr>))
            (copy_samples xs s))"

text \<open>
  \<open>prune\<close>: a shallow copy, sorted by decreasing relevance and cut where it is too long.
  \<open>std::sort\<close> leaves the order of samples with the same relevance open; here they keep theirs.
\<close>

definition relevance_of :: "sheap \<Rightarrow> nat \<Rightarrow> real" where
  "relevance_of h a = (case h a of None \<Rightarrow> 0 | Some x \<Rightarrow> s_relevance x)"

fun retain :: "nat list \<Rightarrow> sheap \<Rightarrow> sheap option" where
  "retain [] h = Some h"
| "retain (a # as) h =
     (case h a of
        None \<Rightarrow> None
      | Some x \<Rightarrow> retain as (h(a := Some (x\<lparr>s_use_count := s_use_count x + 1\<rparr>))))"

definition pruned :: "nat \<Rightarrow> sheap \<Rightarrow> nat list \<Rightarrow> nat list" where
  "pruned max_samples h xs =
     (if max_samples < length xs
      then take max_samples (sort_key (\<lambda>a. - relevance_of h a) xs)
      else xs)"

definition store_prune :: "nat \<Rightarrow> nat \<Rightarrow> stores \<Rightarrow> (nat \<times> stores) option" where
  "store_prune max_samples k s =
     (case store_at k s of
        None \<Rightarrow> None
      | Some xs \<Rightarrow>
          let ys = pruned max_samples (st_heap s) xs
          in map_option (\<lambda>h. (length (st_stores s),
                 s\<lparr>st_heap := h, st_stores := st_stores s @ [Some ys]\<rparr>))
               (retain ys (st_heap s)))"

definition store_get :: "nat \<Rightarrow> nat \<Rightarrow> stores \<Rightarrow> nat option" where
  "store_get k idx s =
     (case store_at k s of
        None \<Rightarrow> None
      | Some xs \<Rightarrow> if idx < length xs then Some (xs ! idx) else None)"

section \<open>References\<close>

definition held :: "stores \<Rightarrow> nat list list" where
  "held s = map (\<lambda>st. case st of None \<Rightarrow> [] | Some xs \<Rightarrow> xs) (st_stores s)"

definition refs :: "stores \<Rightarrow> nat \<Rightarrow> nat" where
  "refs s a = sum_list (map (\<lambda>xs. count_list xs a) (held s))"

text \<open>Every referenced sample is allocated, and its use count is the number of references.\<close>

definition store_inv :: "stores \<Rightarrow> bool" where
  "store_inv s \<longleftrightarrow>
     (\<forall>a. 0 < refs s a \<longrightarrow> (\<exists>x. st_heap s a = Some x \<and> s_use_count x = refs s a)) \<and>
     (\<forall>a. st_next s \<le> a \<longrightarrow> st_heap s a = None)"

lemma sum_list_update_nat:
  "k < length xs \<Longrightarrow> sum_list (xs[k := y]) + xs ! k = sum_list xs + (y :: nat)"
  by (induction xs arbitrary: k) (auto split: nat.splits simp: nth_Cons')

lemma held_update: "held (s\<lparr>st_stores := (st_stores s)[k := v]\<rparr>) =
    (held s)[k := (case v of None \<Rightarrow> [] | Some xs \<Rightarrow> xs)]"
  by (simp add: held_def map_update)

lemma refs_update:
  assumes "store_at k s = Some xs"
  shows "refs (s\<lparr>st_heap := h, st_stores := (st_stores s)[k := v]\<rparr>) a + count_list xs a =
    refs s a + count_list (case v of None \<Rightarrow> [] | Some ys \<Rightarrow> ys) a"
proof -
  have k: "k < length (held s)" "held s ! k = xs"
    using assms by (auto simp: store_at_def held_def split: if_splits)
  let ?v = "case v of None \<Rightarrow> [] | Some ys \<Rightarrow> ys"
  have "held (s\<lparr>st_heap := h, st_stores := (st_stores s)[k := v]\<rparr>) = (held s)[k := ?v]"
    by (simp add: held_def map_update)
  then show ?thesis
    using sum_list_update_nat [of k "map (\<lambda>xs. count_list xs a) (held s)" "count_list ?v a"] k
    by (simp add: refs_def map_update)
qed

lemma refs_append:
  "refs (s\<lparr>st_heap := h, st_stores := st_stores s @ [Some ys]\<rparr>) a = refs s a + count_list ys a"
  by (simp add: refs_def held_def)

lemma refs_heap [simp]: "refs (s\<lparr>st_heap := h\<rparr>) = refs s" "refs (s\<lparr>st_heap := h, st_next := n\<rparr>) = refs s"
  by (simp_all add: refs_def held_def fun_eq_iff)

lemma count_le_refs: "store_at k s = Some xs \<Longrightarrow> count_list xs a \<le> refs s a"
  using refs_update [where h = "st_heap s" and v = None and a = a] by force

lemma count_list_distinct: "distinct ys \<Longrightarrow> count_list ys y = (if y \<in> set ys then 1 else 0)"
  by (induction ys) auto

section \<open>Releasing and retaining\<close>

definition released :: "nat list \<Rightarrow> sheap \<Rightarrow> sheap" where
  "released xs h a =
     (case h a of
        None \<Rightarrow> None
      | Some x \<Rightarrow>
          if count_list xs a = 0 then Some x
          else if s_use_count x = count_list xs a then None
          else Some (x\<lparr>s_use_count := s_use_count x - count_list xs a\<rparr>))"

lemma release_eq:
  assumes "\<forall>a \<in> set xs. \<exists>x. h a = Some x \<and> count_list xs a \<le> s_use_count x"
  shows "release xs h = Some (released xs h)"
  using assms
proof (induction xs arbitrary: h)
  case Nil
  show ?case by (auto simp: released_def fun_eq_iff split: option.splits)
next
  case (Cons a as)
  obtain x where x: "h a = Some x" "count_list (a # as) a \<le> s_use_count x"
    using Cons.prems by auto
  then have pos: "0 < s_use_count x" by simp
  define h' where "h' = h(a := (if s_use_count x - 1 = 0 then None
      else Some (x\<lparr>s_use_count := s_use_count x - 1\<rparr>)))"
  have "\<forall>b \<in> set as. \<exists>y. h' b = Some y \<and> count_list as b \<le> s_use_count y"
  proof
    fix b assume b: "b \<in> set as"
    show "\<exists>y. h' b = Some y \<and> count_list as b \<le> s_use_count y"
    proof (cases "b = a")
      case True
      then have "0 < count_list as a" using b by (simp add: count_list_0_iff zero_less_iff_neq_zero)
      then show ?thesis using x True by (auto simp: h'_def)
    next
      case False
      then obtain y where "h b = Some y" "count_list (a # as) b \<le> s_use_count y"
        using Cons.prems b by auto
      then show ?thesis using False by (auto simp: h'_def)
    qed
  qed
  from Cons.IH [OF this] have "release as h' = Some (released as h')" .
  moreover have "released as h' = released (a # as) h"
    using x pos by (auto simp: released_def h'_def fun_eq_iff split: option.splits)
  moreover have "release (a # as) h = release as h'"
    using x pos by (simp add: Let_def h'_def)
  ultimately show ?case by simp
qed

definition retained :: "nat list \<Rightarrow> sheap \<Rightarrow> sheap" where
  "retained xs h a =
     map_option (\<lambda>x. x\<lparr>s_use_count := s_use_count x + count_list xs a\<rparr>) (h a)"

lemma retain_eq:
  assumes "\<forall>a \<in> set xs. h a \<noteq> None"
  shows "retain xs h = Some (retained xs h)"
  using assms
proof (induction xs arbitrary: h)
  case Nil
  show ?case by (simp add: retained_def fun_eq_iff option.map_ident)
next
  case (Cons a as)
  obtain x where x: "h a = Some x" using Cons.prems by auto
  define h' where "h' = h(a := Some (x\<lparr>s_use_count := s_use_count x + 1\<rparr>))"
  have "retain as h' = Some (retained as h')"
    by (rule Cons.IH) (use Cons.prems in \<open>auto simp: h'_def\<close>)
  moreover have "retained as h' = retained (a # as) h"
    using x by (auto simp: retained_def h'_def fun_eq_iff)
  moreover have "retain (a # as) h = retain as h'" using x by (simp add: h'_def)
  ultimately show ?case by simp
qed

section \<open>Every operation keeps the use counts\<close>

lemma store_invD:
  "store_inv s \<Longrightarrow> 0 < refs s a \<Longrightarrow> \<exists>x. st_heap s a = Some x \<and> s_use_count x = refs s a"
  by (simp add: store_inv_def)

lemma store_inv_fresh: "store_inv s \<Longrightarrow> st_next s \<le> a \<Longrightarrow> st_heap s a = None \<and> refs s a = 0"
  unfolding store_inv_def by (metis gr0I option.distinct(1))

lemma stores_new_inv: "store_inv stores_new"
  by (simp add: store_inv_def stores_new_def refs_def held_def)

lemma store_create_inv [grl_inv]: "store_inv s \<Longrightarrow> store_inv (snd (store_create s))"
proof -
  assume inv: "store_inv s"
  have "refs (s\<lparr>st_stores := st_stores s @ [Some []]\<rparr>) a = refs s a" for a
    by (simp add: refs_def held_def)
  then show ?thesis using inv by (simp add: store_inv_def store_create_def)
qed

lemma sample_new_inv [grl_inv]: "store_inv s \<Longrightarrow> store_inv (snd (sample_new x s))"
proof -
  assume inv: "store_inv s"
  have r: "refs (s\<lparr>st_heap := h, st_next := n\<rparr>) a = refs s a" for h n a by simp
  have "refs s (st_next s) = 0" using store_inv_fresh [OF inv] by simp
  then show ?thesis using inv unfolding store_inv_def sample_new_def by (auto simp: r)
qed

lemma store_push_back_inv:
  assumes inv: "store_inv s" and k: "store_at k s = Some xs" and a: "st_heap s a = Some x"
    and fresh: "refs s a = 0"
  shows "\<exists>s'. store_push_back k a s = Some s' \<and> store_inv s' \<and> store_at k s' = Some (xs @ [a]) \<and>
    (\<forall>b. refs s' b = refs s b + (if b = a then 1 else 0))"
proof -
  let ?h = "(st_heap s)(a := Some (x\<lparr>s_use_count := 1\<rparr>))"
  let ?s = "s\<lparr>st_heap := ?h, st_stores := (st_stores s)[k := Some (xs @ [a])]\<rparr>"
  have r: "refs ?s b = refs s b + (if b = a then 1 else 0)" for b
    using refs_update [OF k, where h = ?h and v = "Some (xs @ [a])" and a = b] by auto
  have lt: "a < st_next s" using store_inv_fresh [OF inv, of a] a by (metis not_le option.distinct(1))
  have "store_inv ?s"
    using inv fresh lt unfolding store_inv_def r by auto
  moreover have "store_at k ?s = Some (xs @ [a])"
    using k by (simp add: store_at_def split: if_splits)
  ultimately show ?thesis using k a r by (simp add: store_push_back_def)
qed

lemma store_destroy_inv:
  assumes inv: "store_inv s" and k: "store_at k s = Some xs"
  shows "\<exists>s'. store_destroy k s = Some s' \<and> store_inv s' \<and>
    (\<forall>a. refs s' a + count_list xs a = refs s a) \<and>
    (\<forall>a. st_heap s' a = None \<longleftrightarrow> st_heap s a = None \<or> (0 < refs s a \<and> refs s' a = 0))"
proof -
  let ?h = "released xs (st_heap s)"
  let ?s = "s\<lparr>st_heap := ?h, st_stores := (st_stores s)[k := None]\<rparr>"
  have r: "refs ?s a + count_list xs a = refs s a" for a
    using refs_update [OF k, where h = ?h and v = None and a = a] by simp
  have pos: "0 < refs s a" if "a \<in> set xs" for a
    using count_le_refs [OF k, of a] that by (metis count_list_0_iff gr0I le_zero_eq)
  have "\<forall>a \<in> set xs. \<exists>x. st_heap s a = Some x \<and> count_list xs a \<le> s_use_count x"
    using store_invD [OF inv pos] r by (metis le_add2)
  from release_eq [OF this] have d: "store_destroy k s = Some ?s"
    using k by (simp add: store_destroy_def)
  have use: "st_heap s a = Some x \<Longrightarrow> 0 < count_list xs a \<Longrightarrow> s_use_count x = refs s a" for a x
    using store_invD [OF inv, of a] r [of a] by auto
  have heap: "?h a = None \<longleftrightarrow> st_heap s a = None \<or> (0 < refs s a \<and> refs ?s a = 0)" for a
    using use [of a] r [of a] store_invD [OF inv, of a]
    by (auto simp: released_def split: option.splits if_splits)
  have "\<exists>x. ?h a = Some x \<and> s_use_count x = refs ?s a" if "0 < refs ?s a" for a
  proof -
    have "0 < refs s a" using that r [of a] by linarith
    then obtain x where x: "st_heap s a = Some x" "s_use_count x = refs s a"
      using store_invD [OF inv] by blast
    then show ?thesis using that r [of a] by (auto simp: released_def)
  qed
  moreover have "?h a = None" if "st_next s \<le> a" for a
    using store_inv_fresh [OF inv that] by (simp add: released_def)
  ultimately have "store_inv ?s" by (simp add: store_inv_def)
  then show ?thesis using d r heap by auto
qed

lemma copy_samples_ok:
  assumes "\<forall>a \<in> set xs. st_heap s a \<noteq> None" and "\<forall>a \<ge> st_next s. st_heap s a = None"
  shows "\<exists>ys s'. copy_samples xs s = Some (ys, s') \<and> st_stores s' = st_stores s \<and>
    length ys = length xs \<and> distinct ys \<and> (\<forall>y \<in> set ys. st_next s \<le> y \<and> y < st_next s') \<and>
    (\<forall>a < st_next s. st_heap s' a = st_heap s a) \<and> (\<forall>a \<ge> st_next s'. st_heap s' a = None) \<and>
    st_next s \<le> st_next s' \<and>
    (\<forall>i < length xs. st_heap s' (ys ! i) =
       map_option (\<lambda>x. x\<lparr>s_use_count := 1\<rparr>) (st_heap s (xs ! i)))"
  using assms
proof (induction xs arbitrary: s)
  case (Cons a as)
  obtain x where x: "st_heap s a = Some x" using Cons.prems(1) by auto
  let ?b = "st_next s"
  let ?s1 = "s\<lparr>st_heap := (st_heap s)(?b := Some (x\<lparr>s_use_count := 1\<rparr>)), st_next := ?b + 1\<rparr>"
  have lt: "c < ?b" if "c \<in> set (a # as)" for c
    using Cons.prems that by (metis not_le)
  have p1: "\<forall>c \<in> set as. st_heap ?s1 c \<noteq> None" "\<forall>c \<ge> st_next ?s1. st_heap ?s1 c = None"
    using Cons.prems by auto
  from Cons.IH [OF this] obtain ys s' where IH: "copy_samples as ?s1 = Some (ys, s')"
    "st_stores s' = st_stores s" "length ys = length as" "distinct ys"
    "\<forall>y \<in> set ys. ?b + 1 \<le> y \<and> y < st_next s'"
    "\<forall>c < ?b + 1. st_heap s' c = st_heap ?s1 c" "\<forall>c \<ge> st_next s'. st_heap s' c = None"
    "?b + 1 \<le> st_next s'"
    "\<forall>i < length as. st_heap s' (ys ! i) =
       map_option (\<lambda>x. x\<lparr>s_use_count := 1\<rparr>) (st_heap ?s1 (as ! i))" by auto
  have "st_heap s' ((?b # ys) ! i) =
      map_option (\<lambda>x. x\<lparr>s_use_count := 1\<rparr>) (st_heap s ((a # as) ! i))" if "i < Suc (length as)" for i
  proof (cases i)
    case 0
    then show ?thesis using IH(6) x by simp
  next
    case (Suc j)
    then have "as ! j < ?b" using lt that by simp
    then show ?thesis using IH(9) Suc that by simp
  qed
  moreover have "copy_samples (a # as) s = Some (?b # ys, s')"
    using x IH(1) by (simp add: sample_new_def)
  moreover have "?b \<notin> set ys" using IH(5) by auto
  ultimately show ?case using IH by (intro exI [of _ "?b # ys"] exI [of _ s']) auto
qed simp

lemma store_clone_ok:
  assumes inv: "store_inv s" and k: "store_at k s = Some xs"
  shows "\<exists>j s' ys. store_clone k s = Some (j, s') \<and> store_inv s' \<and> store_at j s' = Some ys \<and>
    length ys = length xs \<and> distinct ys \<and> (\<forall>y \<in> set ys. refs s y = 0 \<and> refs s' y = 1) \<and>
    (\<forall>a. 0 < refs s a \<longrightarrow> refs s' a = refs s a \<and> st_heap s' a = st_heap s a) \<and>
    (\<forall>i < length xs. st_heap s' (ys ! i) =
       map_option (\<lambda>x. x\<lparr>s_use_count := 1\<rparr>) (st_heap s (xs ! i)))"
proof -
  have alloc: "\<forall>a \<in> set xs. st_heap s a \<noteq> None"
  proof
    fix a assume "a \<in> set xs"
    then have "0 < refs s a"
      using count_le_refs [OF k, of a] by (metis count_list_0_iff gr0I le_zero_eq)
    then show "st_heap s a \<noteq> None" using store_invD [OF inv, of a] by auto
  qed
  have "\<forall>a \<ge> st_next s. st_heap s a = None" using inv by (simp add: store_inv_def)
  from copy_samples_ok [OF alloc this] obtain ys s1 where C: "copy_samples xs s = Some (ys, s1)" "st_stores s1 = st_stores s"
    "length ys = length xs" "distinct ys" "\<forall>y \<in> set ys. st_next s \<le> y \<and> y < st_next s1"
    "\<forall>a < st_next s. st_heap s1 a = st_heap s a" "\<forall>a \<ge> st_next s1. st_heap s1 a = None"
    "st_next s \<le> st_next s1"
    "\<forall>i < length xs. st_heap s1 (ys ! i) =
       map_option (\<lambda>x. x\<lparr>s_use_count := 1\<rparr>) (st_heap s (xs ! i))"
    by blast
  let ?s = "s1\<lparr>st_stores := st_stores s1 @ [Some ys]\<rparr>"
  have r1: "refs s1 a = refs s a" for a using C(2) by (simp add: refs_def held_def)
  have r: "refs ?s a = refs s a + count_list ys a" for a
    using refs_append [where s = s1 and h = "st_heap s1" and ys = ys and a = a] r1 by simp
  have cnt: "count_list ys y = 1" if "y \<in> set ys" for y
    using C(4) that by (simp add: count_list_distinct)
  have fresh: "refs s y = 0" if "y \<in> set ys" for y
    using store_inv_fresh [OF inv] C(5) that by blast
  have old: "refs s a = 0 \<or> a < st_next s" for a using store_inv_fresh [OF inv, of a] by force
  have inv': "store_inv ?s"
    unfolding store_inv_def
  proof (intro conjI allI impI)
    fix a assume "0 < refs ?s a"
    show "\<exists>x. st_heap ?s a = Some x \<and> s_use_count x = refs ?s a"
    proof (cases "a \<in> set ys")
      case True
      then obtain i where i: "i < length xs" "ys ! i = a" using C(3) by (metis in_set_conv_nth)
      have "st_heap s (xs ! i) \<noteq> None"
        using \<open>\<forall>a \<in> set xs. st_heap s a \<noteq> None\<close> i by simp
      then show ?thesis using C(9) i r cnt [OF True] fresh [OF True] by auto
    next
      case False
      then have c0: "count_list ys a = 0" by (simp add: count_list_0_iff)
      then have "0 < refs s a" "a < st_next s" using \<open>0 < refs ?s a\<close> r [of a] old [of a] by auto
      then show ?thesis using store_invD [OF inv] C(6) r c0 by auto
    qed
  qed (use C(7) in simp)
  have "store_clone k s = Some (length (st_stores s), ?s)"
    using k C(1,2) by (simp add: store_clone_def)
  moreover have "store_at (length (st_stores s)) ?s = Some ys"
    using C(2) by (simp add: store_at_def)
  moreover have "0 < refs s a \<longrightarrow> refs ?s a = refs s a \<and> st_heap ?s a = st_heap s a" for a
    using r [of a] old [of a] C(6) fresh [of a] by (auto simp: count_list_0_iff)
  moreover have "\<forall>y \<in> set ys. refs s y = 0 \<and> refs ?s y = 1" using r cnt fresh by simp
  moreover have "\<forall>i < length xs. st_heap ?s (ys ! i) =
       map_option (\<lambda>x. x\<lparr>s_use_count := 1\<rparr>) (st_heap s (xs ! i))" using C(9) by simp
  ultimately show ?thesis using inv' C(3,4) by blast
qed

text \<open>Pruning keeps the most relevant samples.\<close>

lemma pruned_split:
  "\<exists>ds. mset (pruned m h xs) + mset ds = mset xs \<and>
     (\<forall>d \<in> set ds. \<forall>y \<in> set (pruned m h xs). relevance_of h d \<le> relevance_of h y) \<and>
     length (pruned m h xs) = min m (length xs)"
proof (cases "m < length xs")
  case True
  let ?f = "\<lambda>a. - relevance_of h a"
  let ?l = "sort_key ?f xs"
  have "sorted (map ?f (take m ?l @ drop m ?l))" by simp
  then have "\<forall>y \<in> set (take m ?l). \<forall>d \<in> set (drop m ?l). ?f y \<le> ?f d"
    unfolding map_append sorted_append by auto
  moreover have "mset (take m ?l) + mset (drop m ?l) = mset xs"
    by (metis append_take_drop_id mset_append mset_sort)
  ultimately show ?thesis using True by (intro exI [of _ "drop m ?l"]) (auto simp: pruned_def)
next
  case False
  then show ?thesis by (intro exI [of _ "[]"]) (auto simp: pruned_def)
qed

lemma pruned_subset: "set (pruned m h xs) \<subseteq> set xs"
  by (auto simp: pruned_def dest: in_set_takeD)

lemma store_prune_ok:
  assumes inv: "store_inv s" and k: "store_at k s = Some xs"
  shows "\<exists>j s'. store_prune m k s = Some (j, s') \<and> store_inv s' \<and>
    store_at j s' = Some (pruned m (st_heap s) xs) \<and>
    (\<forall>a. refs s' a = refs s a + count_list (pruned m (st_heap s) xs) a)"
proof -
  let ?ys = "pruned m (st_heap s) xs"
  let ?h = "retained ?ys (st_heap s)"
  let ?s = "s\<lparr>st_heap := ?h, st_stores := st_stores s @ [Some ?ys]\<rparr>"
  have pos: "0 < refs s a" if "a \<in> set ?ys" for a
    using that pruned_subset count_le_refs [OF k, of a]
    by (metis count_list_0_iff gr0I le_zero_eq subsetD)
  then have "\<forall>a \<in> set ?ys. st_heap s a \<noteq> None"
    using store_invD [OF inv] by (metis option.distinct(1))
  from retain_eq [OF this] have p: "store_prune m k s = Some (length (st_stores s), ?s)"
    using k by (simp add: store_prune_def Let_def)
  have r: "refs ?s a = refs s a + count_list ?ys a" for a
    using refs_append [where s = s and h = ?h and ys = ?ys and a = a] by simp
  have "\<exists>x. ?h a = Some x \<and> s_use_count x = refs ?s a" if "0 < refs ?s a" for a
  proof -
    have "0 < refs s a" using that r [of a] pos [of a] by (cases "a \<in> set ?ys") auto
    then show ?thesis using store_invD [OF inv, of a] r [of a] by (auto simp: retained_def)
  qed
  then have "store_inv ?s"
    using store_inv_fresh [OF inv] by (simp add: store_inv_def retained_def)
  then show ?thesis using p r by (auto simp: store_at_def)
qed

section \<open>Runs\<close>

text \<open>
  Any program that pushes only freshly allocated samples: creating, cloning and pruning
  databases, allocating and pushing samples, and destroying databases in any order.
\<close>

inductive store_step :: "stores \<Rightarrow> stores \<Rightarrow> bool" where
  create: "store_step s (snd (store_create s))"
| alloc: "store_step s (snd (sample_new x s))"
| push: "refs s a = 0 \<Longrightarrow> store_push_back k a s = Some t \<Longrightarrow> store_step s t"
| clone: "store_clone k s = Some (j, t) \<Longrightarrow> store_step s t"
| prune: "store_prune m k s = Some (j, t) \<Longrightarrow> store_step s t"
| destroy: "store_destroy k s = Some t \<Longrightarrow> store_step s t"

inductive store_reachable :: "stores \<Rightarrow> bool" where
  start: "store_reachable stores_new"
| step: "store_reachable s \<Longrightarrow> store_step s t \<Longrightarrow> store_reachable t"

lemma store_step_inv: "store_step s t \<Longrightarrow> store_inv s \<Longrightarrow> store_inv t"
proof (induction rule: store_step.induct)
  case (push s a k t)
  then obtain xs x where "store_at k s = Some xs" "st_heap s a = Some x"
    by (auto simp: store_push_back_def split: option.splits)
  then show ?case using store_push_back_inv [OF push.prems _ _ push.hyps(1)] push.hyps(2) by fastforce
next
  case (clone k s j t)
  then obtain xs where "store_at k s = Some xs" by (auto simp: store_clone_def split: option.splits)
  from store_clone_ok [OF clone.prems this] clone.hyps show ?case by auto
next
  case (prune m k s j t)
  then obtain xs where "store_at k s = Some xs" by (auto simp: store_prune_def split: option.splits)
  from store_prune_ok [OF prune.prems this, of m] prune.hyps show ?case by auto
next
  case (destroy k s t)
  then obtain xs where "store_at k s = Some xs" by (auto simp: store_destroy_def split: option.splits)
  from store_destroy_inv [OF destroy.prems this] destroy.hyps show ?case by auto
qed (auto intro: store_create_inv sample_new_inv)

lemma store_reachable_inv: "store_reachable s \<Longrightarrow> store_inv s"
  by (induction rule: store_reachable.induct) (auto intro: stores_new_inv store_step_inv)

section \<open>Properties\<close>

text \<open>One database with one sample.\<close>

definition one_sample :: sample_rec where
  "one_sample = \<lparr>s_in = [1], s_out = [2], s_relevance = 3, s_use_count = 1\<rparr>"

definition store_example :: stores where
  "store_example = \<lparr>st_heap = [0 \<mapsto> one_sample], st_next = 1, st_stores = [Some [0]]\<rparr>"

lemma store_example_reachable: "store_reachable store_example"
proof -
  let ?s = "snd (sample_new one_sample (snd (store_create stores_new)))"
  have "store_reachable (snd (store_create stores_new))"
    by (intro store_reachable.step [OF store_reachable.start] store_step.create)
  then have "store_reachable ?s" by (rule store_reachable.step) (rule store_step.alloc)
  moreover have "store_step ?s store_example"
  proof (rule store_step.push)
    show "refs ?s 0 = 0"
      by (simp add: refs_def held_def sample_new_def store_create_def stores_new_def)
    show "store_push_back 0 0 ?s = Some store_example"
      by (simp add: store_push_back_def store_at_def sample_new_def store_create_def stores_new_def
          store_example_def one_sample_def)
  qed
  ultimately show ?thesis by (rule store_reachable.step)
qed

lemma store_example_at: "store_at 0 store_example = Some [0]"
  by (simp add: store_at_def store_example_def)

text \<open>C11: in every reachable state the use count of a sample is the number of references to it from
  live databases, so every sample a database holds is allocated, and destroying one database
  succeeds and frees exactly the samples no other database refers to.\<close>

theorem sample_ownership:
  assumes "store_reachable s" and "store_at k s = Some xs"
  shows "(\<forall>a \<in> set xs. \<exists>x. st_heap s a = Some x \<and> s_use_count x = refs s a) \<and>
    (\<exists>s'. store_destroy k s = Some s' \<and>
       (\<forall>a. st_heap s' a = None \<longleftrightarrow> st_heap s a = None \<or> (0 < refs s a \<and> refs s' a = 0)))"
proof -
  have inv: "store_inv s" by (rule store_reachable_inv [OF assms(1)])
  have "0 < refs s a" if "a \<in> set xs" for a
    using that count_le_refs [OF assms(2), of a] by (metis count_list_0_iff gr0I le_zero_eq)
  then have "\<forall>a \<in> set xs. \<exists>x. st_heap s a = Some x \<and> s_use_count x = refs s a"
    using store_invD [OF inv] by blast
  with store_destroy_inv [OF inv assms(2)] show ?thesis by blast
qed

theorem sample_ownership_witness:
  "s_use_count one_sample = refs store_example 0 \<and> (\<exists>s'. store_destroy 0 store_example = Some s')"
  using sample_ownership [OF store_example_reachable store_example_at]
  by (auto simp: store_example_def)

text \<open>pruning a database makes a new one with at most the given number of its samples, none of
  the dropped ones more relevant than a kept one; the old database is unchanged and every kept
  sample gains one reference.\<close>

theorem prune_keeps_relevant:
  assumes "store_reachable s" and "store_at k s = Some xs"
  shows "\<exists>j s' ys ds. store_prune m k s = Some (j, s') \<and> store_at j s' = Some ys \<and>
    length ys = min m (length xs) \<and> mset ys + mset ds = mset xs \<and>
    (\<forall>d \<in> set ds. \<forall>y \<in> set ys. relevance_of (st_heap s) d \<le> relevance_of (st_heap s) y) \<and>
    (\<forall>a. refs s' a = refs s a + count_list ys a)"
  using store_prune_ok [OF store_reachable_inv [OF assms(1)] assms(2), of m]
    pruned_split [of m "st_heap s" xs] by metis

theorem prune_keeps_relevant_witness:
  "\<exists>j s' ys. store_prune 1 0 store_example = Some (j, s') \<and> store_at j s' = Some ys \<and> length ys = 1"
  using prune_keeps_relevant [OF store_example_reachable store_example_at, of 1] by auto

text \<open>Cloning makes a database of new samples, referenced by it alone, that carry the contents
  of the originals; no existing sample or reference changes.\<close>

theorem clone_is_deep:
  assumes "store_reachable s" and "store_at k s = Some xs"
  shows "\<exists>j s' ys. store_clone k s = Some (j, s') \<and> store_at j s' = Some ys \<and>
    length ys = length xs \<and> distinct ys \<and> (\<forall>y \<in> set ys. refs s y = 0 \<and> refs s' y = 1) \<and>
    (\<forall>i < length xs. st_heap s' (ys ! i) =
       map_option (\<lambda>x. x\<lparr>s_use_count := 1\<rparr>) (st_heap s (xs ! i))) \<and>
    (\<forall>a. 0 < refs s a \<longrightarrow> refs s' a = refs s a \<and> st_heap s' a = st_heap s a)"
  using store_clone_ok [OF store_reachable_inv [OF assms(1)] assms(2)] by metis

theorem clone_is_deep_witness:
  "\<exists>j s' ys. store_clone 0 store_example = Some (j, s') \<and> store_at j s' = Some ys \<and>
    st_heap s' (ys ! 0) = Some one_sample"
proof -
  from clone_is_deep [OF store_example_reachable store_example_at] obtain j s' ys where
    "store_clone 0 store_example = Some (j, s')" "store_at j s' = Some ys"
    "st_heap s' (ys ! 0) = map_option (\<lambda>x. x\<lparr>s_use_count := 1\<rparr>) (st_heap store_example ([0] ! 0))"
    by auto
  then show ?thesis by (simp add: store_example_def one_sample_def)
qed

end
