(* ===== verification/Transitions.thy ===== *)
theory Transitions
  imports Vectors
begin

text \<open>
  The data that agents, environments and learning algorithms exchange
  (\<open>base/include/grl/grl.h\<close>): observations, actions and transitions. The assignment operators
  and constructors that take a plain vector reset what the vector does not say.
\<close>

datatype action_type = atUndefined | atExploratory | atGreedy

record observation =
  o_v :: dvec
  o_u :: dvec
  o_absorbing :: bool

record action =
  a_v :: dvec
  a_type :: action_type

record transition =
  t_prev_obs :: observation
  t_prev_action :: action
  t_tau :: real
  t_reward :: real
  t_obs :: observation      \<comment> \<open>empty: a terminal state with discontinued dynamics\<close>
  t_action :: action        \<comment> \<open>empty: a terminal state with continued dynamics\<close>

definition Observation :: "dvec \<Rightarrow> bool \<Rightarrow> observation" where
  "Observation v absorbing = \<lparr>o_v = v, o_u = [], o_absorbing = absorbing\<rparr>"

definition obs_assign :: "dvec \<Rightarrow> observation \<Rightarrow> observation" where
  "obs_assign v obs = obs\<lparr>o_v := v\<rparr>"

definition Action :: "dvec \<Rightarrow> action_type \<Rightarrow> action" where
  "Action v ty = \<lparr>a_v = v, a_type = ty\<rparr>"

definition act_assign :: "dvec \<Rightarrow> action \<Rightarrow> action" where
  "act_assign v a = a\<lparr>a_v := v, a_type := atUndefined\<rparr>"

definition no_obs :: observation where
  "no_obs = Observation [] False"

definition no_action :: action where
  "no_action = Action [] atUndefined"

definition Transition :: "observation \<Rightarrow> action \<Rightarrow> real \<Rightarrow> real \<Rightarrow> observation \<Rightarrow> action \<Rightarrow> transition" where
  "Transition prev_obs prev_action tau reward obs act =
     \<lparr>t_prev_obs = prev_obs, t_prev_action = prev_action, t_tau = tau, t_reward = reward,
      t_obs = obs, t_action = act\<rparr>"

end
