(* ===== verification/Samplers.thy ===== *)
theory Samplers
  imports Transitions Utils
begin

text \<open>
  Samplers (\<open>base/include/grl/sampler.h\<close>, \<open>samplers/greedy.{h,cpp}\<close>, \<open>samplers/softmax.{h,cpp}\<close>):
  the choice of an index from a vector of values. Every sampler returns the index together with
  the action type it would write through its optional pointer, and threads the generator.

  Values are real numbers; reading outside a vector and a modulus by zero are \<open>Undefined\<close>, the
  exception \<open>bad_param\<close> is \<open>BadParam\<close>.
\<close>

datatype sampler_error = BadParam | Undefined

type_synonym choice = "sampler_error + nat \<times> action_type \<times> rand"

section \<open>Greedy\<close>

text \<open>The scan of \<open>sample\<close>: the first index of the maximum, and how often the maximum occurs.\<close>

fun greedy_scan :: "dvec \<Rightarrow> nat \<Rightarrow> real \<Rightarrow> nat \<Rightarrow> nat \<Rightarrow> nat \<times> nat" where
  "greedy_scan [] ii best mai man = (mai, man)"
| "greedy_scan (v # vs) ii best mai man =
     (if v > best then greedy_scan vs (ii + 1) v ii 1
      else if v = best then greedy_scan vs (ii + 1) best mai (man + 1)
      else greedy_scan vs (ii + 1) best mai man)"

text \<open>\<open>for (jj = getInteger(man); jj >= 0; ++ii) if (values[ii] == values[mai]) --jj;\<close>, then \<open>ii-1\<close>.\<close>

fun pick_tie :: "dvec \<Rightarrow> real \<Rightarrow> nat \<Rightarrow> nat \<Rightarrow> nat option" where
  "pick_tie [] best jj ii = None"
| "pick_tie (v # vs) best jj ii =
     (if v = best then (if jj = 0 then Some ii else pick_tie vs best (jj - 1) (ii + 1))
      else pick_tie vs best jj (ii + 1))"

definition greedy_sample :: "dvec \<Rightarrow> rand \<Rightarrow> choice" where
  "greedy_sample values g =
     (let (mai, man) = (case values of [] \<Rightarrow> (0, 1) | v # vs \<Rightarrow> greedy_scan vs 1 v 0 1)
      in if 1 < man
         then (case getInteger man g of
                 None \<Rightarrow> Inl Undefined
               | Some (jj, g') \<Rightarrow>
                   (case pick_tie (drop mai values) (values ! mai) jj mai of
                      None \<Rightarrow> Inl Undefined
                    | Some ii \<Rightarrow> Inr (ii, atGreedy, g')))
         else Inr (mai, atGreedy, g))"

definition greedy_distribution :: "dvec \<Rightarrow> rand \<Rightarrow> sampler_error + dvec \<times> rand" where
  "greedy_distribution values g =
     (case greedy_sample values g of
        Inl e \<Rightarrow> Inl e
      | Inr (ii, _, g') \<Rightarrow>
          if ii < length values then Inr ((replicate (length values) 0)[ii := 1], g')
          else Inl Undefined)"

section \<open>Epsilon-greedy\<close>

record epsilon_greedy =
  eg_epsilon :: dvec
  eg_distribution :: dvec
  eg_distribution_sum :: real
  eg_decay :: real
  eg_decay_rate :: real
  eg_decay_min :: real

text \<open>The loop over the sorted levels, of which the first is the added zero.\<close>

definition eligible :: "dvec \<Rightarrow> real \<Rightarrow> nat" where
  "eligible epsilon level = length (filter (\<lambda>x. level \<le> x) epsilon)"

fun base_loop :: "dvec \<Rightarrow> dvec \<Rightarrow> dvec \<Rightarrow> dvec" where
  "base_loop epsilon (a # b # es) distr =
     base_loop epsilon (b # es)
       (if b \<noteq> a
        then map2 (\<lambda>x d. if b \<le> x then d + (b - a) / real (eligible epsilon b) else d) epsilon distr
        else distr)"
| "base_loop epsilon _ distr = distr"

definition calculateBaseDistribution :: "dvec \<Rightarrow> dvec" where
  "calculateBaseDistribution epsilon =
     base_loop epsilon (sort (epsilon @ [0])) (replicate (length epsilon) 0)"

definition eg_set_epsilon :: "dvec \<Rightarrow> epsilon_greedy \<Rightarrow> sampler_error + epsilon_greedy" where
  "eg_set_epsilon epsilon eg =
     (let eg = eg\<lparr>eg_epsilon := epsilon\<rparr>
      in if length epsilon < 1 then Inl BadParam
         else if 1 < length epsilon
         then let distr = calculateBaseDistribution epsilon
              in Inr (eg\<lparr>eg_distribution := distr, eg_distribution_sum := vec_sum distr\<rparr>)
         else Inr eg)"

definition eg_configure :: "dvec \<Rightarrow> real \<Rightarrow> real \<Rightarrow> epsilon_greedy \<Rightarrow> sampler_error + epsilon_greedy" where
  "eg_configure epsilon decay_rate decay_min eg =
     eg_set_epsilon epsilon
       (eg\<lparr>eg_decay_rate := decay_rate, eg_decay_min := decay_min, eg_decay := 1\<rparr>)"

text \<open>\<open>reconfigure\<close> with the new rates, if any, and whether the action is a reset.\<close>

definition eg_reconfigure ::
    "dvec option \<Rightarrow> bool \<Rightarrow> epsilon_greedy \<Rightarrow> sampler_error + epsilon_greedy" where
  "eg_reconfigure epsilon reset eg =
     (case eg_set_epsilon (case epsilon of None \<Rightarrow> eg_epsilon eg | Some e \<Rightarrow> e) eg of
        Inl e \<Rightarrow> Inl e
      | Inr eg \<Rightarrow> Inr (if reset then eg\<lparr>eg_decay := 1\<rparr> else eg))"

text \<open>The \<open>ri\<close>-th eligible action.\<close>

fun nth_eligible :: "(real \<Rightarrow> bool) \<Rightarrow> dvec \<Rightarrow> nat \<Rightarrow> nat \<Rightarrow> nat option" where
  "nth_eligible elig [] ri ii = None"
| "nth_eligible elig (e # es) ri ii =
     (if elig e then (if ri = 0 then Some ii else nth_eligible elig es (ri - 1) (ii + 1))
      else nth_eligible elig es ri (ii + 1))"

definition eg_sample :: "epsilon_greedy \<Rightarrow> dvec \<Rightarrow> rand \<Rightarrow> choice" where
  "eg_sample eg values g =
     (let (r, g) = rand_get g; eps = eg_epsilon eg; elig = (\<lambda>e. r < eg_decay eg * e)
      in if 1 < length eps
         then if length eps \<noteq> length values then Inl BadParam
              else let n = length (filter elig eps)
                   in if 0 < n
                      then (case getInteger n g of
                              None \<Rightarrow> Inl Undefined
                            | Some (ri, g') \<Rightarrow>
                                (case nth_eligible elig eps ri 0 of
                                   None \<Rightarrow> greedy_sample values g'
                                 | Some ii \<Rightarrow> Inr (ii, atExploratory, g')))
                      else greedy_sample values g
         else (case eps of
                 [] \<Rightarrow> Inl Undefined
               | e # _ \<Rightarrow>
                   if elig e
                   then (case getInteger (length values) g of
                           None \<Rightarrow> Inl Undefined
                         | Some (ii, g') \<Rightarrow> Inr (ii, atExploratory, g'))
                   else greedy_sample values g))"

text \<open>The variant with a time, called once per step: the start of an episode decays the rate.\<close>

definition eg_sample_at ::
    "real \<Rightarrow> epsilon_greedy \<Rightarrow> dvec \<Rightarrow> rand \<Rightarrow> choice \<times> epsilon_greedy" where
  "eg_sample_at time eg values g =
     (let eg = (if time = 0
                then eg\<lparr>eg_decay := max (eg_decay eg * eg_decay_rate eg) (eg_decay_min eg)\<rparr>
                else eg)
      in (eg_sample eg values g, eg))"

definition eg_distribution_of ::
    "epsilon_greedy \<Rightarrow> dvec \<Rightarrow> rand \<Rightarrow> sampler_error + dvec \<times> rand" where
  "eg_distribution_of eg values g =
     (if 1 < length (eg_epsilon eg)
      then (case greedy_sample values g of
              Inl e \<Rightarrow> Inl e
            | Inr (ii, _, g') \<Rightarrow>
                let distr = vscale (eg_decay eg) (eg_distribution eg)
                in if ii < length distr
                   then Inr (distr[ii := distr ! ii + (1 - eg_decay eg * eg_distribution_sum eg)], g')
                   else Inl Undefined)
      else (case greedy_distribution values g of
              Inl e \<Rightarrow> Inl e
            | Inr (distr, g') \<Rightarrow>
                (case eg_epsilon eg of
                   [] \<Rightarrow> Inl Undefined
                 | e # _ \<Rightarrow>
                     Inr (map (\<lambda>d. (if d = 1 then 1 - eg_decay eg * e else d) +
                                   eg_decay eg * e / real (length values)) distr, g'))))"

section \<open>Softmax\<close>

definition DBL_MAX :: real where
  "DBL_MAX = (2 - 1 / 2 ^ 52) * 2 ^ 1023"

definition softmax_max :: "dvec \<Rightarrow> real \<Rightarrow> real" where
  "softmax_max values tau =
     foldl (\<lambda>max_power v. if max_power < v / tau then v / tau else max_power) (- DBL_MAX) values"

text \<open>
  Powers more than 100 below the largest are discarded; the others are shifted to the centre of
  that range before they are exponentiated. \<open>sum\<close> is zero only for an empty vector.
\<close>

definition softmax_distribution :: "real \<Rightarrow> dvec \<Rightarrow> dvec" where
  "softmax_distribution tau values =
     (let max_power = softmax_max values tau;
          min_power = max_power + (- 100);
          center = (max_power + min_power) / 2;
          v = map (\<lambda>x. if x / tau > min_power then exp (x / tau - center) else 0) values;
          acc = vec_sum v
      in map2 (\<lambda>x e. (if x / tau > min_power then 1 else 0) * (e / acc)) values v)"

definition softmax_sample :: "real \<Rightarrow> dvec \<Rightarrow> rand \<Rightarrow> choice" where
  "softmax_sample tau values g =
     (let (ii, g') = sample_with_sum (softmax_distribution tau values) 1 g
      in Inr (ii, atExploratory, g'))"

end
