(* ===== verification/SamplerFacts.thy ===== *)
theory SamplerFacts
  imports Samplers
begin

text \<open>
  What the greedy, epsilon-greedy and softmax samplers choose, and that their distributions are
  probability distributions.
\<close>

section \<open>Greedy choice\<close>

lemma greedy_scan_ok:
  assumes "mai < length pre" and "best = pre ! mai" and "\<forall>x \<in> set pre. x \<le> best"
    and "\<forall>j < mai. pre ! j < best" and "man = count_list pre best"
    and "greedy_scan vs (length pre) best mai man = (mai', man')"
  shows "mai' < length (pre @ vs) \<and> (\<forall>x \<in> set (pre @ vs). x \<le> (pre @ vs) ! mai') \<and>
    (\<forall>j < mai'. (pre @ vs) ! j < (pre @ vs) ! mai') \<and> man' = count_list (pre @ vs) ((pre @ vs) ! mai')"
  using assms
proof (induction vs arbitrary: pre best mai man)
  case Nil
  then show ?case by auto
next
  case (Cons v vs)
  let ?pre = "pre @ [v]"
  have len: "length ?pre = length pre + 1" and app: "pre @ v # vs = ?pre @ vs" by simp_all
  have old: "?pre ! j = pre ! j" if "j < length pre" for j using that by (simp add: nth_append)
  consider "v > best" | "v = best" | "v < best" by linarith
  then show ?case
  proof cases
    case 1
    then have scan: "greedy_scan vs (length ?pre) v (length pre) 1 = (mai', man')"
      using Cons.prems(6) by simp
    have "\<forall>x \<in> set pre. x < v" using 1 Cons.prems(3) by (meson order_le_less_trans)
    then have "count_list pre v = 0" by (auto simp: count_list_0_iff)
    moreover have "\<forall>j < length pre. ?pre ! j < v"
      using \<open>\<forall>x \<in> set pre. x < v\<close> old by simp
    ultimately show ?thesis
      unfolding app using scan \<open>\<forall>x \<in> set pre. x < v\<close>
      by (intro Cons.IH [where best = v and mai = "length pre" and man = 1]) (auto intro: less_imp_le)
  next
    case 2
    then have scan: "greedy_scan vs (length ?pre) best mai (man + 1) = (mai', man')"
      using Cons.prems(6) by simp
    show ?thesis
      unfolding app
      by (rule Cons.IH [OF _ _ _ _ _ scan]) (use 2 Cons.prems(1-5) old in auto)
  next
    case 3
    then have scan: "greedy_scan vs (length ?pre) best mai man = (mai', man')"
      using Cons.prems(6) by simp
    show ?thesis
      unfolding app
      by (rule Cons.IH [OF _ _ _ _ _ scan]) (use 3 Cons.prems(1-5) old in auto)
  qed
qed

lemma pick_tie_eq:
  assumes "m \<le> length values"
  shows "pick_tie (drop m values) best jj m =
    (let ms = filter (\<lambda>i. values ! i = best) [m..<length values]
     in if jj < length ms then Some (ms ! jj) else None)"
  using assms
proof (induction "length values - m" arbitrary: m jj)
  case (Suc n)
  then have m: "m < length values" by simp
  have IH: "pick_tie (drop (Suc m) values) best k (Suc m) =
    (let ms = filter (\<lambda>i. values ! i = best) [Suc m..<length values]
     in if k < length ms then Some (ms ! k) else None)" for k
    using Suc.hyps m by simp
  show ?case
    using m IH by (cases jj) (simp_all add: Cons_nth_drop_Suc [symmetric] upt_conv_Cons Let_def)
qed (simp add: Let_def)

lemma count_list_positions:
  "count_list xs b = length (filter (\<lambda>i. xs ! i = b) [0..<length xs])"
proof -
  have "length (filter (\<lambda>i. xs ! i = b) [0..<length xs]) = card {i. i < length xs \<and> xs ! i = b}"
    by (simp add: length_filter_conv_card cong: conj_cong)
  moreover have "{i. i < length xs \<and> b = xs ! i} = {i. i < length xs \<and> xs ! i = b}" by auto
  then have "count_list xs b = card {i. i < length xs \<and> xs ! i = b}"
    by (simp only: count_list_eq_length_filter length_filter_conv_card)
  ultimately show ?thesis by simp
qed

text \<open>The indices of the maximum.\<close>

definition maxima :: "dvec \<Rightarrow> nat list" where
  "maxima values = filter (\<lambda>i. \<forall>x \<in> set values. x \<le> values ! i) [0..<length values]"

lemma greedy_scan_maxima:
  assumes "values = v # vs" and "greedy_scan vs 1 v 0 1 = (mai, man)"
  shows "mai < length values \<and> maxima values = filter (\<lambda>i. values ! i = values ! mai) [mai..<length values] \<and>
    man = length (maxima values) \<and> maxima values \<noteq> [] \<and> hd (maxima values) = mai"
proof -
  have ok: "mai < length values" "\<forall>x \<in> set values. x \<le> values ! mai"
    "\<forall>j < mai. values ! j < values ! mai" "man = count_list values (values ! mai)"
    using greedy_scan_ok [of 0 "[v]" v 1 vs mai man] assms by auto
  have iff: "i < length values \<Longrightarrow> (\<forall>x \<in> set values. x \<le> values ! i) \<longleftrightarrow> values ! i = values ! mai" for i
    using ok(1,2) by (metis antisym nth_mem)
  have m: "maxima values = filter (\<lambda>i. values ! i = values ! mai) [0..<length values]"
    unfolding maxima_def by (rule filter_cong) (use iff in auto)
  have "[0..<length values] = [0..<mai] @ [mai..<length values]"
    using ok(1) by (metis le_add_diff_inverse less_imp_le upt_add_eq_append zero_le)
  moreover have "filter (\<lambda>i. values ! i = values ! mai) [0..<mai] = []"
    using ok(3) by (auto simp: filter_empty_conv)
  ultimately have m': "maxima values = filter (\<lambda>i. values ! i = values ! mai) [mai..<length values]"
    unfolding m by simp
  have "[mai..<length values] = mai # [Suc mai..<length values]" using ok(1) by (rule upt_conv_Cons)
  then have "maxima values \<noteq> []" "hd (maxima values) = mai" unfolding m' by simp_all
  then show ?thesis using ok(1,4) m m' by (simp add: count_list_positions)
qed

lemma greedy_sample_eq:
  assumes "values \<noteq> []"
  shows "greedy_sample values g =
    (if length (maxima values) = 1 then Inr (hd (maxima values), atGreedy, g)
     else case getInteger (length (maxima values)) g of
            None \<Rightarrow> Inl Undefined
          | Some (k, g') \<Rightarrow> Inr (maxima values ! k, atGreedy, g'))"
proof -
  obtain v vs where v: "values = v # vs" using assms by (cases "values") auto
  obtain mai man where s: "greedy_scan vs 1 v 0 1 = (mai, man)" by fastforce
  from greedy_scan_maxima [OF v s] have M: "mai < length values"
    "maxima values = filter (\<lambda>i. values ! i = values ! mai) [mai..<length values]"
    "man = length (maxima values)" "maxima values \<noteq> []" "hd (maxima values) = mai" by auto
  have "0 < man" using M by simp
  then have one: "1 < man \<longleftrightarrow> length (maxima values) \<noteq> 1" using M(3) by linarith
  have tie: "pick_tie (drop mai values) (values ! mai) k mai = Some (maxima values ! k)" if "k < man" for k
    using pick_tie_eq [of mai "values" "values ! mai" k] M that by (simp add: Let_def)
  show ?thesis
  proof (cases "1 < man")
    case True
    from getInteger_Some [OF \<open>0 < man\<close>] obtain k g' where "getInteger man g = Some (k, g')" "k < man"
      by blast
    then show ?thesis using True one tie s v M(3) by (simp add: greedy_sample_def)
  next
    case False
    then show ?thesis using one s v M(5) by (simp add: greedy_sample_def)
  qed
qed

lemma maxima_iff: "i \<in> set (maxima values) \<longleftrightarrow> i < length values \<and> (\<forall>x \<in> set values. x \<le> values ! i)"
  by (auto simp: maxima_def)

lemma maxima_nonempty: "values \<noteq> [] \<Longrightarrow> maxima values \<noteq> []"
proof -
  assume "values \<noteq> []"
  then obtain v vs where v: "values = v # vs" by (cases "values") auto
  obtain mai man where "greedy_scan vs 1 v 0 1 = (mai, man)" by fastforce
  from greedy_scan_maxima [OF v this] show ?thesis by blast
qed

lemma greedy_sample_ok:
  assumes "values \<noteq> []"
  shows "\<exists>ii g'. greedy_sample values g = Inr (ii, atGreedy, g') \<and> ii \<in> set (maxima values)"
proof (cases "length (maxima values) = 1")
  case True
  then show ?thesis
    using maxima_nonempty [OF assms] by (simp add: greedy_sample_eq [OF assms])
next
  case False
  have "0 < length (maxima values)" using maxima_nonempty [OF assms] by simp
  from getInteger_Some [OF this] obtain k g' where "getInteger (length (maxima values)) g = Some (k, g')"
    "k < length (maxima values)" by blast
  then show ?thesis using False by (simp add: greedy_sample_eq [OF assms])
qed

section \<open>The base distribution of per-action rates\<close>

lemma eligible_pos: "b \<in> set eps \<Longrightarrow> 0 < eligible eps b"
  by (auto simp: eligible_def filter_empty_conv)

lemma base_step_sum:
  "length distr = length eps \<Longrightarrow>
   sum_list (map2 (\<lambda>x d. if b \<le> x then d + c else d) eps distr) =
   sum_list distr + c * real (eligible eps b)"
  by (induction distr eps rule: list_induct2) (auto simp: eligible_def algebra_simps)

lemma base_loop_ok:
  assumes "length distr = length eps" and "sorted (a # es)" and "0 \<le> a"
    and "\<forall>b \<in> set es. b = 0 \<or> b \<in> set eps" and "\<forall>d \<in> set distr. 0 \<le> d"
  shows "length (base_loop eps (a # es) distr) = length eps \<and>
    sum_list (base_loop eps (a # es) distr) = sum_list distr + last (a # es) - a \<and>
    (\<forall>d \<in> set (base_loop eps (a # es) distr). 0 \<le> d)"
  using assms
proof (induction es arbitrary: a distr)
  case (Cons b es)
  let ?d = "map2 (\<lambda>x d. if b \<le> x then d + (b - a) / real (eligible eps b) else d) eps distr"
  let ?d' = "if b \<noteq> a then ?d else distr"
  have ab: "a \<le> b" using Cons.prems(2) by simp
  have len: "length ?d' = length eps" using Cons.prems(1) by simp
  have sm: "sum_list ?d' = sum_list distr + (b - a)"
  proof (cases "b = a")
    case False
    then have "b \<in> set eps" using Cons.prems(3,4) ab by auto
    then have "0 < eligible eps b" by (rule eligible_pos)
    then show ?thesis using False base_step_sum [OF Cons.prems(1)] by simp
  qed simp
  have nn: "\<forall>d \<in> set ?d'. 0 \<le> d"
    using Cons.prems(5) ab by (auto dest!: set_zip_rightD split: if_splits)
  have "length (base_loop eps (b # es) ?d') = length eps \<and>
    sum_list (base_loop eps (b # es) ?d') = sum_list ?d' + last (b # es) - b \<and>
    (\<forall>d \<in> set (base_loop eps (b # es) ?d'). 0 \<le> d)"
    by (rule Cons.IH [OF len _ _ _ nn]) (use Cons.prems ab in auto)
  then show ?case using sm by simp
qed simp

lemma sorted_last_max: "sorted (xs :: real list) \<Longrightarrow> x \<in> set xs \<Longrightarrow> x \<le> last xs"
  by (induction xs) (auto split: if_splits)

lemma last_sort: "xs \<noteq> [] \<Longrightarrow> last (sort xs) = Max (set (xs :: real list))"
proof -
  assume ne: "xs \<noteq> []"
  then have "length (sort xs) \<noteq> 0" by simp
  then have "sort xs \<noteq> []" by force
  then have "last (sort xs) \<in> set (sort xs)" by (rule last_in_set)
  moreover have "x \<le> last (sort xs)" if "x \<in> set xs" for x
    using sorted_last_max [of "sort xs" x] that by simp
  ultimately show ?thesis by (intro Max_eqI [symmetric]) auto
qed

lemma calculateBaseDistribution_ok:
  assumes "\<forall>e \<in> set eps. 0 \<le> e" and "eps \<noteq> []"
  shows "length (calculateBaseDistribution eps) = length eps \<and>
    sum_list (calculateBaseDistribution eps) = Max (set eps) \<and>
    (\<forall>d \<in> set (calculateBaseDistribution eps). 0 \<le> d)"
proof -
  let ?s = "sort (eps @ [0])"
  obtain a es where s: "?s = a # es" by (cases ?s) (auto dest: arg_cong [of _ _ set])
  have set_s: "insert a (set es) = insert 0 (set eps)" using arg_cong [OF s, of set] by simp
  have sorted: "sorted (a # es)" using s by (metis sorted_sort)
  have "a \<le> 0" using sorted set_s by (cases "a = 0") auto
  moreover have "a = 0 \<or> a \<in> set eps" using set_s by blast
  ultimately have a: "a = 0" using assms(1) by fastforce
  have "last (a # es) = Max (set eps)"
  proof -
    have "last (a # es) = Max (insert 0 (set eps))" using last_sort [of "eps @ [0]"] s by simp
    also have "\<dots> = max 0 (Max (set eps))" using assms(2) by simp
    also have "0 \<le> Max (set eps)" using assms by (meson Max_in finite_set set_empty)
    then have "max 0 (Max (set eps)) = Max (set eps)" by simp
    finally show ?thesis .
  qed
  then show ?thesis
    using base_loop_ok [of "replicate (length eps) 0" eps a es] sorted set_s a
    by (auto simp: calculateBaseDistribution_def s sum_list_replicate)
qed

section \<open>Epsilon-greedy choice\<close>

lemma nth_eligible_ok:
  "ri < length (filter elig es) \<Longrightarrow>
   \<exists>k < length es. nth_eligible elig es ri ii = Some (ii + k) \<and> elig (es ! k)"
proof (induction elig es ri ii rule: nth_eligible.induct)
  case (2 elig e es ri ii)
  show ?case
  proof (cases "elig e \<and> ri = 0")
    case True
    then show ?thesis by (intro exI [of _ 0]) simp
  next
    case False
    define rj where "rj = (if elig e then ri - 1 else ri)"
    have "\<exists>k < length es. nth_eligible elig es rj (ii + 1) = Some (ii + 1 + k) \<and> elig (es ! k)"
      using 2 False unfolding rj_def by (cases "elig e") auto
    then obtain k where "k < length es" "nth_eligible elig es rj (ii + 1) = Some (ii + 1 + k)"
      "elig (es ! k)" by blast
    then show ?thesis using False unfolding rj_def by (intro exI [of _ "Suc k"]) auto
  qed
qed simp

text \<open>The rate that applies to an action.\<close>

definition rate_of :: "epsilon_greedy \<Rightarrow> nat \<Rightarrow> real" where
  "rate_of eg ii = eg_decay eg * (if 1 < length (eg_epsilon eg) then eg_epsilon eg ! ii
     else hd (eg_epsilon eg))"

lemma eg_sample_ok:
  assumes ne: "values \<noteq> []" and len: "length (eg_epsilon eg) = 1 \<or> length (eg_epsilon eg) = length values"
  shows "\<exists>ii ty g'. eg_sample eg values g = Inr (ii, ty, g') \<and> ii < length values \<and>
    (if ty = atExploratory then fst (rand_get g) < rate_of eg ii
     else ty = atGreedy \<and> ii \<in> set (maxima values))"
proof -
  obtain r g1 where r: "rand_get g = (r, g1)" by fastforce
  let ?eps = "eg_epsilon eg" and ?elig = "\<lambda>e. r < eg_decay eg * e"
  have greedy: "\<exists>ii g'. greedy_sample values h = Inr (ii, atGreedy, g') \<and> ii < length values \<and>
      ii \<in> set (maxima values)" for h
    using greedy_sample_ok [OF ne, of h] by (auto simp: maxima_iff)
  show ?thesis
  proof (cases "1 < length ?eps")
    case True
    then have l: "length ?eps = length values" using len by auto
    show ?thesis
    proof (cases "0 < length (filter ?elig ?eps)")
      case pos: True
      from getInteger_Some [OF this] obtain ri g' where g': "getInteger (length (filter ?elig ?eps)) g1 =
          Some (ri, g')" "ri < length (filter ?elig ?eps)" by blast
      from nth_eligible_ok [OF g'(2), of 0] obtain k where "k < length ?eps"
        "nth_eligible ?elig ?eps ri 0 = Some k" "?elig (?eps ! k)" by auto
      then show ?thesis using True l r g' pos by (simp add: eg_sample_def Let_def rate_of_def)
    next
      case False
      then have "eg_sample eg values g = greedy_sample values g1"
        using True l r by (auto simp: eg_sample_def Let_def)
      then show ?thesis using greedy [of g1] by auto
    qed
  next
    case False
    then obtain e where e: "?eps = [e]" using len ne by (cases ?eps; cases "tl ?eps") auto
    have "0 < length values" using ne by simp
    from getInteger_Some [OF this] obtain ii g' where "getInteger (length values) g1 = Some (ii, g')"
      "ii < length values" by blast
    then show ?thesis
      using e r greedy [of g1] by (cases "?elig e") (auto simp: eg_sample_def Let_def rate_of_def)
  qed
qed

section \<open>Distributions\<close>

lemma sum_list_update_real: "k < length xs \<Longrightarrow> sum_list (xs[k := y]) = sum_list xs - xs ! k + (y :: real)"
  by (induction xs arbitrary: k) (auto split: nat.splits simp: nth_Cons')

lemma sum_list_divide: "sum_list (map (\<lambda>x. x / w) xs) = sum_list xs / (w :: real)"
  by (induction xs) (simp_all add: add_divide_distrib)

lemma eg_single_distribution:
  assumes "ii < n" and "0 \<le> c" and "c \<le> 1"
  shows "let p = map (\<lambda>d. (if d = 1 then 1 - c else d) + c / real n) ((replicate n (0 :: real))[ii := 1])
    in sum_list p = 1 \<and> (\<forall>x \<in> set p. 0 \<le> x)"
proof -
  let ?f = "\<lambda>d. (if d = 1 then 1 - c else d) + c / real n"
  have "map ?f ((replicate n 0)[ii := 1]) = (replicate n (c / real n))[ii := 1 - c + c / real n]"
    by (simp add: map_update)
  moreover have "sum_list ((replicate n (c / real n))[ii := 1 - c + c / real n]) = 1"
    using assms(1) by (simp add: sum_list_update_real sum_list_replicate)
  moreover have "\<forall>x \<in> set ((replicate n (c / real n))[ii := 1 - c + c / real n]). 0 \<le> x"
    using assms by (auto dest!: set_list_updateD)
  ultimately show ?thesis by (simp only: Let_def)
qed

lemma eg_multi_distribution:
  assumes "ii < length base" and "\<forall>x \<in> set base. 0 \<le> x" and "0 \<le> c" and "c * sum_list base \<le> 1"
  shows "let d = vscale c base; p = d[ii := d ! ii + (1 - c * sum_list base)]
    in sum_list p = 1 \<and> (\<forall>x \<in> set p. 0 \<le> x)"
proof -
  have s: "sum_list (vscale c base) = c * sum_list base" by (simp add: vscale_def sum_list_const_mult)
  have nn: "\<forall>x \<in> set (vscale c base). 0 \<le> x" using assms(2,3) by (auto simp: vscale_def)
  have l: "ii < length (vscale c base)" using assms(1) by (simp add: vscale_def)
  then have "0 \<le> vscale c base ! ii" using nn nth_mem by blast
  then show ?thesis using sum_list_update_real [OF l] s nn assms(4)
    by (auto simp: Let_def dest!: set_list_updateD)
qed

section \<open>Softmax\<close>

lemma foldl_max: "foldl max a ys = Max (insert a (set ys))" for a :: real
proof -
  have "(\<lambda>x s. max s x) = (max :: real \<Rightarrow> real \<Rightarrow> real)" by (intro ext) (rule max.commute)
  then show ?thesis using Max.set_eq_fold [of a ys] by (simp add: foldl_conv_fold)
qed

lemma softmax_max_eq:
  assumes "values \<noteq> []" and "\<forall>x \<in> set values. - DBL_MAX \<le> x / tau"
  shows "softmax_max values tau = Max ((\<lambda>x. x / tau) ` set values)"
proof -
  let ?M = "(\<lambda>x. x / tau) ` set values"
  have "foldl (\<lambda>m v. if m < v / tau then v / tau else m) a xs = foldl max a (map (\<lambda>x. x / tau) xs)" for a xs
    by (induction xs arbitrary: a) (simp_all add: max_def not_less le_less)
  then have "softmax_max values tau = Max (insert (- DBL_MAX) ?M)"
    by (simp add: softmax_max_def foldl_max)
  also have "\<dots> = max (- DBL_MAX) (Max ?M)" using assms(1) by simp
  also have "\<dots> = Max ?M"
  proof -
    have "Max ?M \<in> ?M" using assms(1) by (intro Max_in) simp_all
    then have "- DBL_MAX \<le> Max ?M" using assms(2) by auto
    then show ?thesis by simp
  qed
  finally show ?thesis .
qed

section \<open>Properties\<close>

text \<open>The greedy sampler returns an index of the maximum; when the maximum occurs \<open>n > 1\<close> times
  it returns the \<open>k\<close>-th of these indices, with \<open>k\<close> the random integer below \<open>n\<close>.\<close>

theorem greedy_chooses_maximum:
  assumes "values \<noteq> []"
  shows "\<exists>ii g'. greedy_sample values g = Inr (ii, atGreedy, g') \<and> ii < length values \<and>
    (\<forall>x \<in> set values. x \<le> values ! ii) \<and>
    (length (maxima values) \<noteq> 1 \<longrightarrow>
       (\<exists>k. getInteger (length (maxima values)) g = Some (k, g') \<and> ii = maxima values ! k))"
  using greedy_sample_ok [OF assms, of g] greedy_sample_eq [OF assms, of g]
  by (auto simp: maxima_iff split: option.splits if_splits)

theorem greedy_chooses_maximum_witness:
  "\<exists>ii g'. greedy_sample [1, 3, 3] (Rand_new 5) = Inr (ii, atGreedy, g') \<and> ii < 3 \<and> ii \<noteq> 0"
  using greedy_chooses_maximum [of "[1, 3, 3]" "Rand_new 5"] by (auto intro!: Nat.gr0I)

text \<open>the epsilon-greedy sampler always returns an action of the vector; it explores only if the
  first draw is below the decayed rate of the action chosen, and otherwise the action has the
  largest value.\<close>

theorem epsilon_greedy_sound:
  assumes "values \<noteq> []"
    and "length (eg_epsilon eg) = 1 \<or> length (eg_epsilon eg) = length values"
  shows "\<exists>ii ty g'. eg_sample eg values g = Inr (ii, ty, g') \<and> ii < length values \<and>
    (if ty = atExploratory then fst (rand_get g) < rate_of eg ii
     else ty = atGreedy \<and> (\<forall>x \<in> set values. x \<le> values ! ii))"
proof -
  from eg_sample_ok [OF assms, of g] obtain ii ty g' where
    r: "eg_sample eg values g = Inr (ii, ty, g')" "ii < length values"
    "if ty = atExploratory then fst (rand_get g) < rate_of eg ii
     else ty = atGreedy \<and> ii \<in> set (maxima values)" by blast
  then show ?thesis by (intro exI [of _ ii] exI [of _ ty]) (auto simp: maxima_iff split: if_splits)
qed

definition eg_example :: epsilon_greedy where
  "eg_example = \<lparr>eg_epsilon = [1 / 10, 1 / 5], eg_distribution = [1 / 20, 3 / 20],
     eg_distribution_sum = 1 / 5, eg_decay = 1, eg_decay_rate = 1, eg_decay_min = 0\<rparr>"

theorem epsilon_greedy_sound_witness:
  "\<exists>ii ty g'. eg_sample eg_example [4, 7] (Rand_new 5) = Inr (ii, ty, g') \<and> ii < 2"
  using epsilon_greedy_sound [of "[4, 7]" eg_example "Rand_new 5"] by (auto simp: eg_example_def)

text \<open>for rates between 0 and 1, one for all actions or one per action, the distribution the
  epsilon-greedy sampler reports after it was configured is a probability distribution.\<close>

theorem epsilon_greedy_distribution:
  assumes "eg_configure epsilon rate mn eg0 = Inr eg" and "values \<noteq> []"
    and "length epsilon = 1 \<or> length epsilon = length values"
    and "\<forall>e \<in> set epsilon. 0 \<le> e \<and> e \<le> 1" and "0 \<le> c" and "c \<le> 1"
  shows "\<exists>p g'. eg_distribution_of (eg\<lparr>eg_decay := c\<rparr>) values g = Inr (p, g') \<and>
    length p = length values \<and> sum_list p = 1 \<and> (\<forall>x \<in> set p. 0 \<le> x)"
proof -
  from greedy_sample_ok [OF assms(2), of g] obtain ii g' where
    g': "greedy_sample values g = Inr (ii, atGreedy, g')" "ii < length values"
    by (auto simp: maxima_iff)
  have eps: "eg_epsilon eg = epsilon"
    using assms(1) by (auto simp: eg_configure_def eg_set_epsilon_def Let_def split: if_splits)
  show ?thesis
  proof (cases "1 < length epsilon")
    case True
    then have ne: "epsilon \<noteq> []" and l: "length epsilon = length values" using assms(3) by auto
    have b: "length (calculateBaseDistribution epsilon) = length epsilon"
      "sum_list (calculateBaseDistribution epsilon) = Max (set epsilon)"
      "\<forall>d \<in> set (calculateBaseDistribution epsilon). 0 \<le> d"
      using calculateBaseDistribution_ok [OF _ ne] assms(4) by auto
    have d: "eg_distribution eg = calculateBaseDistribution epsilon"
      "eg_distribution_sum eg = sum_list (calculateBaseDistribution epsilon)"
      using assms(1) True
      by (auto simp: eg_configure_def eg_set_epsilon_def Let_def vec_sum_eq split: if_splits)
    have "0 \<le> Max (set epsilon)" "Max (set epsilon) \<le> 1"
      using assms(4) ne by (auto intro: Max_in [THEN rev_subsetD] simp: Max_ge_iff)
    then have "c * sum_list (calculateBaseDistribution epsilon) \<le> 1"
      using mult_le_one [OF assms(6)] b(2) by simp
    from eg_multi_distribution [OF _ b(3) assms(5) this, of ii] show ?thesis
      using True eps g' l b(1) d by (simp add: eg_distribution_of_def Let_def vscale_def)
  next
    case False
    then obtain e where e: "epsilon = [e]" using assms(2,3) by (cases epsilon; cases "tl epsilon") auto
    have "0 \<le> c * e" "c * e \<le> 1" using assms(4,5,6) e by (auto intro: mult_le_one)
    from eg_single_distribution [OF g'(2) this] show ?thesis
      using False eps g' e
      by (simp add: eg_distribution_of_def greedy_distribution_def Let_def cong: if_cong)
  qed
qed

theorem epsilon_greedy_distribution_witness:
  "\<exists>eg p g'. eg_configure [1 / 10] 1 0 eg_example = Inr eg \<and>
    eg_distribution_of (eg\<lparr>eg_decay := 1\<rparr>) [4, 7, 1] (Rand_new 5) = Inr (p, g') \<and> sum_list p = 1"
proof -
  obtain eg where eg: "eg_configure [1 / 10] 1 0 eg_example = Inr eg"
    by (simp add: eg_configure_def eg_set_epsilon_def Let_def)
  from epsilon_greedy_distribution [OF eg, of "[4, 7, 1]" 1 "Rand_new 5"] eg show ?thesis by auto
qed

lemma softmax_form:
  assumes "values \<noteq> []" and "\<forall>x \<in> set values. - DBL_MAX \<le> x / tau"
  defines "M \<equiv> Max ((\<lambda>x. x / tau) ` set values)"
  shows "0 < sum_list (map (\<lambda>x. exp (x / tau)) (filter (\<lambda>x. x / tau > M - 100) values)) \<and>
    softmax_distribution tau values = map (\<lambda>x. if x / tau > M - 100 then exp (x / tau) /
      sum_list (map (\<lambda>x. exp (x / tau)) (filter (\<lambda>x. x / tau > M - 100) values)) else 0) values"
proof -
  define c where "c = (M + (M + (- 100))) / 2"
  let ?keep = "\<lambda>x. x / tau > M - 100"
  let ?v = "map (\<lambda>x. if ?keep x then exp (x / tau - c) else 0) values"
  have M: "softmax_max values tau = M" using softmax_max_eq [OF assms(1,2)] by (simp add: M_def)
  have "M \<in> (\<lambda>x. x / tau) ` set values" unfolding M_def using assms(1) by (intro Max_in) simp_all
  then obtain y where y: "y \<in> set values" "?keep y" by auto
  have sm: "sum_list ?v = exp (- c) * sum_list (map (\<lambda>x. exp (x / tau)) (filter ?keep values))"
    by (induction "values") (simp_all add: exp_diff exp_minus field_simps)
  have pos: "0 < sum_list (map (\<lambda>x. exp (x / tau)) (filter ?keep values))"
  proof -
    have "exp (y / tau) \<le> sum_list (map (\<lambda>x. exp (x / tau)) (filter ?keep values))"
      using y by (intro member_le_sum_list) auto
    then show ?thesis using exp_gt_zero [of "y / tau"] by linarith
  qed
  have dist: "softmax_distribution tau values = map (\<lambda>x. if ?keep x then exp (x / tau - c) / sum_list ?v else 0) values"
    unfolding softmax_distribution_def M Let_def c_def [symmetric] vec_sum_eq
    by (rule nth_equalityI) simp_all
  have "exp (x / tau - c) / sum_list ?v =
      exp (x / tau) / sum_list (map (\<lambda>x. exp (x / tau)) (filter ?keep values))" for x
    unfolding sm by (simp add: exp_diff exp_minus field_simps)
  then show ?thesis using pos unfolding dist by simp
qed

lemma softmax_probabilities:
  assumes "values \<noteq> []" and "\<forall>x \<in> set values. - DBL_MAX \<le> x / tau"
  shows "sum_list (softmax_distribution tau values) = 1 \<and> length (softmax_distribution tau values) = length values \<and>
    (\<forall>x \<in> set (softmax_distribution tau values). 0 \<le> x)"
proof -
  let ?keep = "\<lambda>x. x / tau > Max ((\<lambda>x. x / tau) ` set values) - 100"
  let ?S = "sum_list (map (\<lambda>x. exp (x / tau)) (filter ?keep values))"
  have form: "0 < ?S" "softmax_distribution tau values = map (\<lambda>x. if ?keep x then exp (x / tau) / ?S else 0) values"
    using softmax_form [OF assms] by auto
  have "sum_list (map (\<lambda>x. if ?keep x then exp (x / tau) / s else 0) ys) =
      sum_list (map (\<lambda>x. exp (x / tau)) (filter ?keep ys)) / s" for ys s
    by (induction ys) (simp_all add: add_divide_distrib)
  then have "sum_list (softmax_distribution tau values) = 1" using form by simp
  then show ?thesis using form by auto
qed

text \<open>the softmax sampler computes the Gibbs distribution over the actions whose power is within
  100 of the largest: the shift by the centre cancels, the probabilities add up to 1, and the
  discarded actions have probability 0.\<close>

theorem softmax_is_gibbs:
  assumes "values \<noteq> []" and "\<forall>x \<in> set values. - DBL_MAX \<le> x / tau"
  shows "sum_list (softmax_distribution tau values) = 1 \<and>
    length (softmax_distribution tau values) = length values \<and>
    (\<forall>i < length values. softmax_distribution tau values ! i =
       (if values ! i / tau > Max ((\<lambda>x. x / tau) ` set values) - 100
        then exp (values ! i / tau) /
          sum_list (map (\<lambda>x. exp (x / tau))
            (filter (\<lambda>x. x / tau > Max ((\<lambda>x. x / tau) ` set values) - 100) values))
        else 0))"
  using softmax_probabilities [OF assms] softmax_form [OF assms] by auto

theorem softmax_is_gibbs_witness: "sum_list (softmax_distribution 1 [2, 3]) = 1"
proof -
  have "0 \<le> DBL_MAX" by (simp add: DBL_MAX_def)
  then show ?thesis using softmax_is_gibbs [of "[2, 3]" 1] by auto
qed

end
