(* ===== verification/Discretizers.thy ===== *)
theory Discretizers
  imports Vectors Strings "HOL-Library.Monad_Syntax"
begin

text \<open>
  Discretizers (\<open>base/include/grl/discretizer.h\<close> and \<open>base/src/discretizers/\<close>): finite grids of
  points in a continuous space that can be enumerated with an iterator, addressed by an offset,
  and searched for the point closest to a given one.

  An iterator is its index vector together with the point it was started for; the empty index
  vector is the end. An access outside a vector and a loop that does not end are \<open>None\<close>. A grid
  value that is not a number (a single step between different bounds), which the code stores, has no
  counterpart in the model: configuration is then \<open>NonFinite\<close>.
\<close>

section \<open>The base class\<close>

text \<open>The virtual methods of a discretizer; the first argument of each is the point.\<close>

record disc =
  d_size :: "dvec \<Rightarrow> nat"
  d_begin :: "dvec \<Rightarrow> ivec"
  d_inc :: "dvec \<Rightarrow> ivec \<Rightarrow> ivec option"
  d_get :: "dvec \<Rightarrow> ivec \<Rightarrow> dvec option"
  d_at :: "dvec \<Rightarrow> nat \<Rightarrow> dvec option"
  d_discretize :: "dvec \<Rightarrow> nat option"

text \<open>\<open>for (it = begin(point); it != end(); ++it) out->push_back(*it)\<close>\<close>

partial_function (option) iterate ::
    "(ivec \<Rightarrow> ivec option) \<Rightarrow> (ivec \<Rightarrow> 'v option) \<Rightarrow> ivec \<Rightarrow> 'v list option" where
  "iterate inc get idx =
     (if idx = [] then Some []
      else do { v \<leftarrow> get idx; idx' \<leftarrow> inc idx; vs \<leftarrow> iterate inc get idx'; Some (v # vs) })"

definition disc_options :: "disc \<Rightarrow> dvec \<Rightarrow> dvec list option" where
  "disc_options d point = iterate (d_inc d point) (d_get d point) (d_begin d point)"

section \<open>The interface\<close>

fun run_inc :: "(ivec \<Rightarrow> ivec option) \<Rightarrow> nat \<Rightarrow> ivec \<Rightarrow> ivec option" where
  "run_inc inc 0 i = Some i"
| "run_inc inc (Suc k) i = Option.bind (inc i) (run_inc inc k)"

text \<open>
  Incrementing from \<open>start\<close> passes through \<open>n\<close> proper index vectors, at the \<open>k\<close>-th of which
  \<open>get\<close> reads the point with offset \<open>k\<close>, and then reaches the end.
\<close>

definition walks :: "(ivec \<Rightarrow> ivec option) \<Rightarrow> (ivec \<Rightarrow> 'v option) \<Rightarrow> (nat \<Rightarrow> 'v option) \<Rightarrow>
    nat \<Rightarrow> ivec \<Rightarrow> (ivec \<Rightarrow> bool) \<Rightarrow> bool" where
  "walks inc get att n start ok \<longleftrightarrow>
     (\<forall>k < n. \<exists>i v. run_inc inc k start = Some i \<and> i \<noteq> [] \<and> ok i \<and> get i = Some v \<and> att k = Some v) \<and>
     run_inc inc n start = Some []"

lemma run_inc_add: "run_inc inc (j + k) i = Option.bind (run_inc inc j i) (run_inc inc k)"
proof (induction j arbitrary: i)
  case (Suc j)
  then show ?case by (cases "inc i") simp_all
qed simp

lemma walks_shift:
  assumes "walks inc get att (Suc n) start ok"
  shows "\<exists>v i. start \<noteq> [] \<and> get start = Some v \<and> att 0 = Some v \<and> inc start = Some i \<and>
    walks inc get (\<lambda>k. att (Suc k)) n i ok"
proof -
  from assms have all: "\<And>k. k < Suc n \<Longrightarrow> \<exists>i v. run_inc inc k start = Some i \<and> i \<noteq> [] \<and> ok i \<and>
      get i = Some v \<and> att k = Some v" and last: "run_inc inc (Suc n) start = Some []"
    by (auto simp: walks_def)
  from all [of 0] obtain v where 0: "start \<noteq> []" "get start = Some v" "att 0 = Some v" by auto
  from last obtain i where i: "inc start = Some i" by (auto simp: bind_eq_Some_conv)
  have "\<exists>i' v. run_inc inc k i = Some i' \<and> i' \<noteq> [] \<and> ok i' \<and> get i' = Some v \<and>
      att (Suc k) = Some v" if "k < n" for k
    using all [of "Suc k"] i that by auto
  moreover have "run_inc inc n i = Some []" using last i by simp
  ultimately have "walks inc get (\<lambda>k. att (Suc k)) n i ok" by (simp add: walks_def)
  with 0 i show ?thesis by blast
qed

lemma walks_iterate:
  "walks inc get att n start ok \<Longrightarrow>
   \<exists>vs. iterate inc get start = Some vs \<and> length vs = n \<and> (\<forall>k < n. att k = Some (vs ! k))"
proof (induction n arbitrary: start att)
  case 0
  then have "start = []" by (simp add: walks_def)
  then show ?case by (subst iterate.simps) simp
next
  case (Suc n)
  from walks_shift [OF Suc.prems] obtain v i where v: "start \<noteq> []" "get start = Some v" "att 0 = Some v"
    "inc start = Some i" "walks inc get (\<lambda>k. att (Suc k)) n i ok" by blast
  from Suc.IH [OF v(5)] obtain vs where vs: "iterate inc get i = Some vs" "length vs = n"
    "\<forall>k < n. att (Suc k) = Some (vs ! k)" by blast
  have "iterate inc get start = Some (v # vs)" using v vs by (subst iterate.simps) simp
  moreover have "\<forall>k < Suc n. att k = Some ((v # vs) ! k)"
    using v vs by (auto simp: less_Suc_eq_0_disj)
  ultimately show ?case using vs by (intro exI [of _ "v # vs"]) simp
qed

locale discretizer =
  fixes inv :: "'s \<Rightarrow> dvec \<Rightarrow> bool"
    and vt :: "'s \<Rightarrow> disc"
  assumes walk: "inv s p \<Longrightarrow> walks (d_inc (vt s) p) (d_get (vt s) p) (d_at (vt s) p)
      (d_size (vt s) p) (d_begin (vt s) p) (\<lambda>_. True)"
begin

text \<open>The list of options has one entry per offset.\<close>

lemma options_at:
  assumes "inv s p"
  shows "\<exists>vs. disc_options (vt s) p = Some vs \<and> length vs = d_size (vt s) p \<and>
    (\<forall>k < d_size (vt s) p. d_at (vt s) p k = Some (vs ! k))"
  using walks_iterate [OF walk [OF assms]] by (simp add: disc_options_def)

end

text \<open>
  A flat discretizer leaves index components after its own untouched, which is what the split
  discretizer relies on.
\<close>

locale flat_discretizer =
  fixes inv :: "'s \<Rightarrow> dvec \<Rightarrow> bool"
    and vt :: "'s \<Rightarrow> disc"
  assumes flat_walk: "inv s p \<Longrightarrow> walks (d_inc (vt s) p) (d_get (vt s) p) (d_at (vt s) p)
      (d_size (vt s) p) (d_begin (vt s) p @ ex) (\<lambda>i. ex = [] \<or> last i = last ex)"
    and size_pos: "inv s p \<Longrightarrow> 0 < d_size (vt s) p"

sublocale flat_discretizer \<subseteq> discretizer inv vt
  by unfold_locales (use flat_walk [where ex = "[]"] in simp)

text \<open>
  A searchable discretizer also finds an offset for every point of its dimension. This is what
  the samplers that add noise to an action rely on.
\<close>

locale searchable = discretizer inv vt
  for inv :: "'s \<Rightarrow> dvec \<Rightarrow> bool" and vt :: "'s \<Rightarrow> disc" +
  fixes dim :: "'s \<Rightarrow> nat"
  assumes search: "inv s p \<Longrightarrow> length v = dim s \<Longrightarrow>
      \<exists>k < d_size (vt s) p. d_discretize (vt s) v = Some k"
    and at_dim: "inv s p \<Longrightarrow> k < d_size (vt s) p \<Longrightarrow>
      \<exists>q. d_at (vt s) p k = Some q \<and> length q = dim s"
begin

text \<open>Moving a grid point by any displacement and searching again stays on the grid.\<close>

lemma perturb:
  assumes "inv s p" and "k < d_size (vt s) p" and "length w = dim s"
  shows "\<exists>q j. d_at (vt s) p k = Some q \<and> length q = dim s \<and>
    d_discretize (vt s) (vadd q w) = Some j \<and> j < d_size (vt s) p"
proof -
  from at_dim [OF assms(1,2)] obtain q where q: "d_at (vt s) p k = Some q" "length q = dim s" by blast
  have "length (vadd q w) = dim s" using q assms(3) by (simp add: vadd_def)
  from search [OF assms(1) this] q show ?thesis by blast
qed

end

section \<open>The uniform discretizer\<close>

record uniform_disc =
  ud_min :: dvec
  ud_max :: dvec
  ud_steps :: dvec
  ud_values :: "dvec list"

datatype disc_error = BadSizes | BadSteps | OutOfRange | NonFinite

text \<open>
  \<open>range/(steps-1)\<close> with NaN replaced by 0; with one step and a proper range it is infinite, and
  the first value \<open>min + inf * 0\<close> is NaN.
\<close>

definition ud_delta :: "real \<Rightarrow> real \<Rightarrow> real \<Rightarrow> dbl" where
  "ud_delta mi ma st =
     (let d = d_div (Fin (ma - mi)) (Fin (st - 1)) in if d_isnan d then Fin 0 else d)"

definition ud_value :: "real \<Rightarrow> real \<Rightarrow> real \<Rightarrow> nat \<Rightarrow> dbl" where
  "ud_value mi ma st vv = d_add (Fin mi) (d_mul (ud_delta mi ma st) (Fin (real vv)))"

text \<open>
  One row of \<open>values_\<close>: its length is the number of steps cut to an integer, and the loop writes
  every index below the number of steps, which leaves the row unless that is an integer.
  A row that is not finite is outside the real-valued model.
\<close>

definition ud_row :: "real \<Rightarrow> real \<Rightarrow> real \<Rightarrow> disc_error + dvec" where
  "ud_row mi ma st =
     (if st < 1 then Inl BadSteps
      else if \<lfloor>st\<rfloor> < \<lceil>st\<rceil> then Inl OutOfRange
      else let row = map (ud_value mi ma st) [0..<nat \<lfloor>st\<rfloor>]
           in if list_all d_isfin row then Inr (map d_val row) else Inl NonFinite)"

fun ud_rows :: "(real \<times> real \<times> real) list \<Rightarrow> disc_error + dvec list" where
  "ud_rows [] = Inr []"
| "ud_rows ((mi, ma, st) # ds) =
     (case ud_row mi ma st of
        Inl e \<Rightarrow> Inl e
      | Inr r \<Rightarrow> (case ud_rows ds of Inl e \<Rightarrow> Inl e | Inr rs \<Rightarrow> Inr (r # rs)))"

definition ud_configure :: "dvec \<Rightarrow> dvec \<Rightarrow> dvec \<Rightarrow> disc_error + uniform_disc" where
  "ud_configure mi ma st =
     (if length mi \<noteq> length ma \<or> length mi \<noteq> length st then Inl BadSizes
      else if \<exists>s \<in> set st. s = 0 then Inl BadSteps
      else case ud_rows (zip mi (zip ma st)) of
             Inl e \<Rightarrow> Inl e
           | Inr vs \<Rightarrow> Inr \<lparr>ud_min = mi, ud_max = ma, ud_steps = st, ud_values = vs\<rparr>)"

definition ud_size :: "uniform_disc \<Rightarrow> nat" where
  "ud_size u = nat \<lfloor>vec_prod (ud_steps u)\<rfloor>"

definition ud_begin :: "uniform_disc \<Rightarrow> ivec" where
  "ud_begin u = replicate (length (ud_steps u)) 0"

text \<open>The carry loop of \<open>inc\<close>; the flag says that it ran past the last dimension.\<close>

fun inc_digits :: "nat list \<Rightarrow> ivec \<Rightarrow> (bool \<times> ivec) option" where
  "inc_digits [] is = Some (True, is)"
| "inc_digits (n # ns) [] = None"
| "inc_digits (n # ns) (i # is) =
     (if i + 1 = n
      then map_option (\<lambda>(carry, is). (carry, 0 # is)) (inc_digits ns is)
      else Some (False, (i + 1) # is))"

definition ud_inc :: "uniform_disc \<Rightarrow> ivec \<Rightarrow> ivec option" where
  "ud_inc u idx =
     (if idx = [] then Some []
      else map_option (\<lambda>(carry, is). if carry then [] else is)
             (inc_digits (map length (ud_values u)) idx))"

fun read_digits :: "dvec list \<Rightarrow> ivec \<Rightarrow> dvec option" where
  "read_digits [] is = Some []"
| "read_digits (vs # vss) [] = None"
| "read_digits (vs # vss) (i # is) =
     (if i < length vs then map_option ((#) (vs ! i)) (read_digits vss is) else None)"

definition ud_get :: "uniform_disc \<Rightarrow> ivec \<Rightarrow> dvec option" where
  "ud_get u idx = (if idx = [] then Some [] else read_digits (ud_values u) idx)"

fun at_digits :: "(real \<times> dvec) list \<Rightarrow> nat \<Rightarrow> dvec option" where
  "at_digits [] idx = Some []"
| "at_digits ((st, vs) # ds) idx =
     (let ss = nat \<lfloor>st\<rfloor>
      in if ss = 0 \<or> length vs \<le> idx mod ss then None
         else map_option ((#) (vs ! (idx mod ss))) (at_digits ds (idx div ss)))"

definition ud_at :: "uniform_disc \<Rightarrow> nat \<Rightarrow> dvec option" where
  "ud_at u idx = at_digits (zip (ud_steps u) (ud_values u)) idx"

text \<open>The search in one dimension, from \<open>vv\<close> on with the best value so far.\<close>

fun nearest_scan :: "dvec \<Rightarrow> real \<Rightarrow> nat \<Rightarrow> real \<Rightarrow> nat \<Rightarrow> nat" where
  "nearest_scan [] x vv nearest nearest_vv = nearest_vv"
| "nearest_scan (v # vs) x vv nearest nearest_vv =
     (if \<bar>nearest - x\<bar> > \<bar>v - x\<bar> then nearest_scan vs x (Suc vv) v vv
      else nearest_scan vs x (Suc vv) nearest nearest_vv)"

definition nearest_index :: "dvec \<Rightarrow> real \<Rightarrow> nat option" where
  "nearest_index vs x =
     (case vs of [] \<Rightarrow> None | v # vs \<Rightarrow> Some (nearest_scan vs x 1 v 0))"

fun discretize_dims :: "(real \<times> dvec) list \<Rightarrow> dvec \<Rightarrow> nat \<Rightarrow> nat \<Rightarrow> nat option" where
  "discretize_dims [] v steps offset = Some offset"
| "discretize_dims ((st, vs) # ds) [] steps offset = None"
| "discretize_dims ((st, vs) # ds) (x # v) steps offset =
     (case nearest_index vs x of
        None \<Rightarrow> None
      | Some vv \<Rightarrow> discretize_dims ds v (nat \<lfloor>real steps * st\<rfloor>) (offset + vv * steps))"

definition ud_discretize :: "uniform_disc \<Rightarrow> dvec \<Rightarrow> nat option" where
  "ud_discretize u v = discretize_dims (zip (ud_steps u) (ud_values u)) v 1 0"

definition ud_disc :: "uniform_disc \<Rightarrow> disc" where
  "ud_disc u =
     \<lparr>d_size = (\<lambda>_. ud_size u), d_begin = (\<lambda>_. ud_begin u), d_inc = (\<lambda>_. ud_inc u),
      d_get = (\<lambda>_. ud_get u), d_at = (\<lambda>_. ud_at u), d_discretize = ud_discretize u\<rparr>"

section \<open>The peaked discretizer\<close>

text \<open>It replaces the rows of the uniform one; with one step the ramp divides by zero.\<close>

definition peaked_row :: "real \<Rightarrow> real \<Rightarrow> real \<Rightarrow> real \<Rightarrow> nat \<Rightarrow> dvec" where
  "peaked_row mi ma st pk n =
     map (\<lambda>y. (y + 1) * (ma - mi) / 2 + mi)
       (squash (map (\<lambda>vv. 2 * real vv / (st - 1) - 1) [0..<n]) (- pk))"

definition peaked_configure :: "dvec \<Rightarrow> dvec \<Rightarrow> dvec \<Rightarrow> dvec \<Rightarrow> disc_error + uniform_disc" where
  "peaked_configure mi ma st pk =
     (case ud_configure mi ma st of
        Inl e \<Rightarrow> Inl e
      | Inr u \<Rightarrow>
          if length pk \<noteq> length mi then Inl BadSizes
          else if \<exists>s \<in> set st. s = 1 then Inl NonFinite
          else Inr (u\<lparr>ud_values := map (\<lambda>dd. peaked_row (mi ! dd) (ma ! dd) (st ! dd) (pk ! dd)
                                       (length (ud_values u ! dd))) [0..<length st]\<rparr>))"

section \<open>The policy discretizer\<close>

text \<open>Its only point is the action of a policy; \<open>act\<close> is the policy's deterministic action.\<close>

definition pd_disc :: "(dvec \<Rightarrow> dvec) \<Rightarrow> disc" where
  "pd_disc act =
     \<lparr>d_size = (\<lambda>_. 1), d_begin = (\<lambda>_. [0]), d_inc = (\<lambda>_ _. Some []),
      d_get = (\<lambda>point idx. Some (if idx = [] then [] else act point)),
      d_at = (\<lambda>point idx. Some (if idx \<noteq> 0 then [] else act point)),
      d_discretize = (\<lambda>_. Some 0)\<rparr>"

section \<open>The split discretizer\<close>

record split_disc =
  sd_identify :: int
  sd_discs :: "disc list"

definition sd_tag :: "int \<Rightarrow> nat \<Rightarrow> dvec \<Rightarrow> dvec" where
  "sd_tag identify dd v =
     (if identify \<noteq> 0 then (if identify = - 1 then real dd # v else v @ [real dd]) else v)"

definition sd_begin :: "split_disc \<Rightarrow> dvec \<Rightarrow> ivec" where
  "sd_begin sd point = d_begin (sd_discs sd ! 0) point @ [0]"

definition sd_size :: "split_disc \<Rightarrow> dvec \<Rightarrow> nat" where
  "sd_size sd point = foldl (\<lambda>sz d. sz + d_size d point) 0 (sd_discs sd)"

definition sd_inc :: "split_disc \<Rightarrow> dvec \<Rightarrow> ivec \<Rightarrow> ivec option" where
  "sd_inc sd point idx =
     (if idx = [] then Some []
      else let dd = last idx
           in if \<not> dd < length (sd_discs sd) then None
              else do { idx' \<leftarrow> d_inc (sd_discs sd ! dd) point idx;
                        if idx' = [] \<and> dd + 1 < length (sd_discs sd)
                        then Some (d_begin (sd_discs sd ! (dd + 1)) point @ [dd + 1])
                        else Some idx' })"

definition sd_get :: "split_disc \<Rightarrow> dvec \<Rightarrow> ivec \<Rightarrow> dvec option" where
  "sd_get sd point idx =
     (if idx = [] then Some []
      else let dd = last idx
           in if dd < length (sd_discs sd)
              then map_option (sd_tag (sd_identify sd) dd) (d_get (sd_discs sd ! dd) point idx)
              else None)"

text \<open>\<open>for (; ii <= idx; ii += discretizer_[dd++]->size(point));\<close>\<close>

fun sd_find :: "disc list \<Rightarrow> dvec \<Rightarrow> nat \<Rightarrow> nat \<Rightarrow> nat \<Rightarrow> (nat \<times> nat) option" where
  "sd_find [] point idx ii dd = (if ii \<le> idx then None else Some (ii, dd))"
| "sd_find (d # ds) point idx ii dd =
     (if ii \<le> idx then sd_find ds point idx (ii + d_size d point) (dd + 1) else Some (ii, dd))"

definition sd_at :: "split_disc \<Rightarrow> dvec \<Rightarrow> nat \<Rightarrow> dvec option" where
  "sd_at sd point idx =
     do { (ii, dd) \<leftarrow> sd_find (sd_discs sd) point idx 0 0;
          let d = sd_discs sd ! (dd - 1);
          let ii = ii - d_size d point;
          v \<leftarrow> d_at d point (idx - ii);
          Some (sd_tag (sd_identify sd) (dd - 1) v) }"

text \<open>
  The search of \<open>discretize\<close>: each candidate point is read with the offset of the nearest one so
  far, and the closing loop has no increment of \<open>dd\<close>.
\<close>

definition sq_dist :: "dvec \<Rightarrow> dvec \<Rightarrow> real" where
  "sq_dist v w = vec_sum (vmul (vsub v w) (vsub v w))"

fun sd_search :: "disc list \<Rightarrow> dvec \<Rightarrow> nat \<Rightarrow> nat \<Rightarrow> nat \<Rightarrow> real \<Rightarrow> (nat \<times> nat) option" where
  "sd_search [] v dd nearest_dd nearest_offset nearest_dist = Some (nearest_dd, nearest_offset)"
| "sd_search (d # ds) v dd nearest_dd nearest_offset nearest_dist =
     do { offset \<leftarrow> d_discretize d v;
          point \<leftarrow> d_at d [] nearest_offset;
          let dst = sq_dist v point;
          if dst < nearest_dist then sd_search ds v (dd + 1) dd offset dst
          else sd_search ds v (dd + 1) nearest_dd nearest_offset nearest_dist }"

partial_function (option) sd_add_sizes :: "disc list \<Rightarrow> nat \<Rightarrow> nat \<Rightarrow> nat \<Rightarrow> nat option" where
  "sd_add_sizes ds dd nearest_dd nearest_offset =
     (if dd < nearest_dd
      then sd_add_sizes ds dd nearest_dd (nearest_offset + d_size (ds ! dd) [])
      else Some nearest_offset)"

definition sd_discretize :: "split_disc \<Rightarrow> dvec \<Rightarrow> nat option" where
  "sd_discretize sd v =
     (case sd_discs sd of
        [] \<Rightarrow> None
      | d # ds \<Rightarrow>
          do { offset \<leftarrow> d_discretize d v;
               point \<leftarrow> d_at d [] offset;
               (nearest_dd, nearest_offset) \<leftarrow> sd_search ds v 1 0 offset (sq_dist v point);
               sd_add_sizes (sd_discs sd) 0 nearest_dd nearest_offset })"

definition sd_disc :: "split_disc \<Rightarrow> disc" where
  "sd_disc sd =
     \<lparr>d_size = sd_size sd, d_begin = sd_begin sd, d_inc = sd_inc sd, d_get = sd_get sd,
      d_at = sd_at sd, d_discretize = sd_discretize sd\<rparr>"

end
