(* ===== verification/Grids.thy ===== *)
theory Grids
  imports Discretizers
begin

text \<open>
  Correctness of the discretizers: the mixed-radix digits behind the uniform grid, iteration and
  offsets, the search for the closest point, and the split discretizer over flat ones.
\<close>

section \<open>Mixed-radix digits\<close>

fun digits :: "nat list \<Rightarrow> nat \<Rightarrow> ivec" where
  "digits [] k = []"
| "digits (n # ns) k = (k mod n) # digits ns (k div n)"

fun undigits :: "nat list \<Rightarrow> ivec \<Rightarrow> nat" where
  "undigits (n # ns) (i # is) = i + n * undigits ns is"
| "undigits _ _ = 0"

lemma length_digits [simp]: "length (digits ns k) = length ns"
  by (induction ns arbitrary: k) auto

lemma digits_zero: "digits ns 0 = replicate (length ns) 0"
  by (induction ns) auto

lemma prod_pos: "\<forall>n \<in> set ns. 0 < n \<Longrightarrow> 0 < prod_list (ns :: nat list)"
  by (induction ns) auto

lemma div_less_prod: "0 < n \<Longrightarrow> k < n * m \<Longrightarrow> k div n < (m :: nat)"
  by (simp add: less_mult_imp_div_less mult.commute)

lemma digits_undigits:
  "length is = length ns \<Longrightarrow> \<forall>d < length ns. is ! d < ns ! d \<Longrightarrow>
   digits ns (undigits ns is) = is \<and> undigits ns is < prod_list ns"
proof (induction ns "is" rule: undigits.induct)
  case (1 n ns i "is")
  have i: "i < n" using "1.prems"(2) by (metis length_Cons nth_Cons_0 zero_less_Suc)
  have IH: "digits ns (undigits ns is) = is" "undigits ns is < prod_list ns"
  proof -
    have "\<forall>d < length ns. is ! d < ns ! d"
      using "1.prems"(2) by (metis Suc_less_eq length_Cons nth_Cons_Suc)
    then show "digits ns (undigits ns is) = is" "undigits ns is < prod_list ns"
      using 1 by simp_all
  qed
  have "i + n * undigits ns is < n * Suc (undigits ns is)" using i by simp
  also have "\<dots> \<le> n * prod_list ns" using IH(2) by (intro mult_le_mono2) simp
  finally show ?case using i IH(1) by simp
qed auto

lemma undigits_digits:
  "\<forall>n \<in> set ns. 0 < n \<Longrightarrow> k < prod_list ns \<Longrightarrow> undigits ns (digits ns k) = k"
proof (induction ns arbitrary: k)
  case (Cons n ns)
  then show ?case using div_less_prod [of n k "prod_list ns"] by simp
qed simp

lemma digits_bound: "\<forall>n \<in> set ns. 0 < n \<Longrightarrow> d < length ns \<Longrightarrow> digits ns k ! d < ns ! d"
proof (induction ns arbitrary: k d)
  case (Cons n ns)
  then show ?case by (cases d) auto
qed simp

lemma inc_digits_ok:
  "\<forall>n \<in> set ns. 0 < n \<Longrightarrow> k < prod_list ns \<Longrightarrow>
   inc_digits ns (digits ns k @ ex) =
     Some (k + 1 = prod_list ns, digits ns (if k + 1 = prod_list ns then 0 else k + 1) @ ex)"
proof (induction ns arbitrary: k)
  case (Cons n ns)
  let ?m = "prod_list ns"
  have n: "0 < n" and kd: "k div n < ?m" using Cons.prems div_less_prod by auto
  have kdm: "k = n * (k div n) + k mod n" by simp
  have IH: "inc_digits ns (digits ns (k div n) @ ex) =
      Some (k div n + 1 = ?m, digits ns (if k div n + 1 = ?m then 0 else k div n + 1) @ ex)"
    using Cons kd by simp
  show ?case
  proof (cases "k mod n + 1 = n")
    case True
    have "k + 1 = n * (k div n) + (k mod n + 1)" using kdm by linarith
    also have "\<dots> = n * (k div n + 1)" unfolding True by (simp only: distrib_left mult_1_right)
    finally have k1: "k + 1 = n * (k div n + 1)" .
    then have "(k + 1 = n * ?m) = (k div n + 1 = ?m)" using n by (metis mult_cancel_left neq0_conv)
    moreover have "(k + 1) mod n = 0" "(k + 1) div n = k div n + 1" using k1 n by simp_all
    ultimately show ?thesis using True IH by simp
  next
    case False
    then have "k mod n + 1 < n" using n by (metis Suc_eq_plus1 Suc_lessI mod_less_divisor)
    then have m: "(k + 1) mod n = k mod n + 1" "(k + 1) div n = k div n"
      by (metis mod_Suc Suc_eq_plus1 less_irrefl, metis div_Suc Suc_eq_plus1 mod_Suc less_irrefl nat.distinct(1))
    then have "k + 1 \<noteq> n * ?m" by (metis Suc_eq_plus1 mod_mult_self1_is_0 nat.distinct(1))
    then show ?thesis using False m by simp
  qed
qed simp

section \<open>The uniform grid\<close>

text \<open>A configured grid: at least one dimension, and as many values as steps, at least one.\<close>

definition ud_wf :: "uniform_disc \<Rightarrow> bool" where
  "ud_wf u \<longleftrightarrow> ud_steps u = map (\<lambda>vs. real (length vs)) (ud_values u) \<and> ud_values u \<noteq> [] \<and>
     [] \<notin> set (ud_values u)"

definition ud_ns :: "uniform_disc \<Rightarrow> nat list" where
  "ud_ns u = map length (ud_values u)"

lemma ud_ns_pos: "ud_wf u \<Longrightarrow> \<forall>n \<in> set (ud_ns u). 0 < n"
  by (auto simp: ud_wf_def ud_ns_def)

lemma prod_list_of_nat: "prod_list (map (\<lambda>x. real (f x)) xs) = real (prod_list (map f xs))"
  by (induction xs) auto

lemma ud_size_eq: "ud_wf u \<Longrightarrow> ud_size u = prod_list (ud_ns u)"
proof -
  assume "ud_wf u"
  then have "vec_prod (ud_steps u) = real (prod_list (ud_ns u))"
    by (simp add: ud_wf_def ud_ns_def vec_prod_eq prod_list_of_nat)
  then show ?thesis by (simp only: ud_size_def) simp
qed

lemma ud_size_pos: "ud_wf u \<Longrightarrow> 0 < ud_size u"
  by (simp add: ud_size_eq prod_pos ud_ns_pos)

lemma at_digits_eq:
  "[] \<notin> set vss \<Longrightarrow>
   at_digits (zip (map (\<lambda>vs. real (length vs)) vss) vss) k =
   Some (map2 (\<lambda>vs i. vs ! i) vss (digits (map length vss) k))"
proof (induction vss arbitrary: k)
  case (Cons vs vss)
  then have "0 < length vs" by auto
  then have "k mod length vs < length vs" by (rule mod_less_divisor)
  then show ?case using Cons by (auto simp: Let_def)
qed simp

lemma ud_at_eq:
  "ud_wf u \<Longrightarrow> ud_at u k = Some (map2 (\<lambda>vs i. vs ! i) (ud_values u) (digits (ud_ns u) k))"
  unfolding ud_at_def ud_wf_def ud_ns_def using at_digits_eq [of "ud_values u" k] by simp

lemma read_digits_eq:
  "[] \<notin> set vss \<Longrightarrow> read_digits vss (digits (map length vss) k @ ex) =
   Some (map2 (\<lambda>vs i. vs ! i) vss (digits (map length vss) k))"
proof (induction vss arbitrary: k)
  case (Cons vs vss)
  then have "0 < length vs" by auto
  then have "k mod length vs < length vs" by (rule mod_less_divisor)
  then show ?case using Cons by simp
qed simp

lemma ud_nonempty: "ud_wf u \<Longrightarrow> digits (ud_ns u) k @ ex \<noteq> []"
  by (cases "ud_values u") (auto simp: ud_wf_def ud_ns_def)

lemma ud_get_eq: "ud_wf u \<Longrightarrow> ud_get u (digits (ud_ns u) k @ ex) = ud_at u k"
  using read_digits_eq [of "ud_values u" k ex] ud_nonempty [of u k ex]
  by (simp add: ud_get_def ud_at_eq) (simp add: ud_wf_def ud_ns_def)

lemma ud_inc_eq:
  assumes "ud_wf u" and "k < ud_size u"
  shows "ud_inc u (digits (ud_ns u) k @ ex) =
    Some (if k + 1 = ud_size u then [] else digits (ud_ns u) (k + 1) @ ex)"
proof -
  have k: "k < prod_list (ud_ns u)" using assms by (simp add: ud_size_eq)
  show ?thesis
    using inc_digits_ok [OF ud_ns_pos [OF assms(1)] k, of ex] ud_nonempty [OF assms(1), of k ex]
    by (simp add: ud_inc_def ud_size_eq [OF assms(1)] ud_ns_def [symmetric] del: append_is_Nil_conv)
qed

lemma run_inc_snoc: "run_inc inc (Suc k) i = Option.bind (run_inc inc k i) inc"
proof -
  have "run_inc inc (k + 1) i = Option.bind (run_inc inc k i) (run_inc inc 1)"
    by (rule run_inc_add)
  moreover have "run_inc inc 1 j = inc j" for j by (cases "inc j") simp_all
  then have "run_inc inc (k + 1) i = Option.bind (run_inc inc k i) inc"
    using calculation by (cases "run_inc inc k i") simp_all
  then show ?thesis by simp
qed

lemma ud_run:
  assumes "ud_wf u"
  shows "k < ud_size u \<Longrightarrow> run_inc (ud_inc u) k (ud_begin u @ ex) = Some (digits (ud_ns u) k @ ex)"
proof (induction k)
  case 0
  show ?case using assms by (simp add: ud_begin_def digits_zero ud_ns_def ud_wf_def)
next
  case (Suc k)
  then show ?case
    using ud_inc_eq [OF assms, of k ex] by (simp only: run_inc_snoc) simp
qed

lemma ud_walk:
  assumes "ud_wf u"
  shows "walks (ud_inc u) (ud_get u) (ud_at u) (ud_size u) (ud_begin u @ ex)
           (\<lambda>i. ex = [] \<or> last i = last ex)"
proof -
  obtain m where m: "ud_size u = Suc m" using ud_size_pos [OF assms] by (cases "ud_size u") auto
  have "run_inc (ud_inc u) (Suc m) (ud_begin u @ ex) = Some []"
    using ud_run [OF assms, of m ex] ud_inc_eq [OF assms, of m ex] m
    by (simp only: run_inc_snoc) simp
  moreover have "\<exists>i v. run_inc (ud_inc u) k (ud_begin u @ ex) = Some i \<and> i \<noteq> [] \<and>
      (ex = [] \<or> last i = last ex) \<and> ud_get u i = Some v \<and> ud_at u k = Some v"
    if "k < ud_size u" for k
    using ud_run [OF assms that, of ex] ud_nonempty [OF assms, of k ex] ud_get_eq [OF assms, of k ex]
      ud_at_eq [OF assms, of k] by (cases "ex = []") auto
  ultimately show ?thesis using m by (simp add: walks_def)
qed

interpretation ud: flat_discretizer "\<lambda>u p. ud_wf u" ud_disc
  by unfold_locales (simp_all add: ud_disc_def ud_walk ud_size_pos)

interpretation pd: flat_discretizer "\<lambda>act p. True" pd_disc
  by unfold_locales (auto simp: pd_disc_def walks_def)

section \<open>The closest point\<close>

lemma nearest_scan_ok:
  assumes "vv = length pre" and "nv < vv" and "nearest = pre ! nv"
    and "\<forall>j < vv. \<bar>pre ! nv - x\<bar> \<le> \<bar>pre ! j - x\<bar>" and "\<forall>j < nv. \<bar>pre ! nv - x\<bar> < \<bar>pre ! j - x\<bar>"
  shows "let i = nearest_scan vs x vv nearest nv; ws = pre @ vs
    in i < length ws \<and> (\<forall>j < length ws. \<bar>ws ! i - x\<bar> \<le> \<bar>ws ! j - x\<bar>) \<and>
       (\<forall>j < i. \<bar>ws ! i - x\<bar> < \<bar>ws ! j - x\<bar>)"
  using assms
proof (induction vs arbitrary: vv nearest nv pre)
  case Nil
  then show ?case by (simp add: Let_def)
next
  case (Cons v vs)
  define pre' where "pre' = pre @ [v]"
  have at: "pre' ! j = (if j < vv then pre ! j else v)" if "j < Suc vv" for j
    using that Cons.prems(1) by (auto simp: pre'_def nth_append less_Suc_eq)
  have app: "pre @ v # vs = pre' @ vs" and len: "Suc vv = length pre'"
    using Cons.prems(1) by (simp_all add: pre'_def)
  show ?case
  proof (cases "\<bar>nearest - x\<bar> > \<bar>v - x\<bar>")
    case True
    have "let i = nearest_scan vs x (Suc vv) v vv; ws = pre' @ vs
      in i < length ws \<and> (\<forall>j < length ws. \<bar>ws ! i - x\<bar> \<le> \<bar>ws ! j - x\<bar>) \<and>
         (\<forall>j < i. \<bar>ws ! i - x\<bar> < \<bar>ws ! j - x\<bar>)"
    proof (rule Cons.IH [OF len])
      show "\<forall>j < Suc vv. \<bar>pre' ! vv - x\<bar> \<le> \<bar>pre' ! j - x\<bar>"
      proof (intro allI impI)
        fix j assume "j < Suc vv"
        then show "\<bar>pre' ! vv - x\<bar> \<le> \<bar>pre' ! j - x\<bar>"
          using True Cons.prems(3,4) at [of j] at [of vv] by (cases "j < vv") fastforce+
      qed
      show "\<forall>j < vv. \<bar>pre' ! vv - x\<bar> < \<bar>pre' ! j - x\<bar>"
      proof (intro allI impI)
        fix j assume "j < vv"
        then show "\<bar>pre' ! vv - x\<bar> < \<bar>pre' ! j - x\<bar>"
          using True Cons.prems(3,4) at [of j] at [of vv] by fastforce
      qed
    qed (use at in simp_all)
    then show ?thesis using True by (simp add: app)
  next
    case False
    have "let i = nearest_scan vs x (Suc vv) nearest nv; ws = pre' @ vs
      in i < length ws \<and> (\<forall>j < length ws. \<bar>ws ! i - x\<bar> \<le> \<bar>ws ! j - x\<bar>) \<and>
         (\<forall>j < i. \<bar>ws ! i - x\<bar> < \<bar>ws ! j - x\<bar>)"
    proof (rule Cons.IH [OF len])
      show "\<forall>j < Suc vv. \<bar>pre' ! nv - x\<bar> \<le> \<bar>pre' ! j - x\<bar>"
      proof (intro allI impI)
        fix j assume "j < Suc vv"
        then show "\<bar>pre' ! nv - x\<bar> \<le> \<bar>pre' ! j - x\<bar>"
          using False Cons.prems(2,3,4) at [of j] at [of nv] by (cases "j < vv") auto
      qed
      show "\<forall>j < nv. \<bar>pre' ! nv - x\<bar> < \<bar>pre' ! j - x\<bar>"
        using Cons.prems(2,5) at by auto
    qed (use Cons.prems(2,3) at in simp_all)
    then show ?thesis using False by (simp add: app)
  qed
qed

lemma nearest_index_ok:
  assumes "nearest_index vs x = Some i"
  shows "i < length vs \<and> (\<forall>j < length vs. \<bar>vs ! i - x\<bar> \<le> \<bar>vs ! j - x\<bar>) \<and>
    (\<forall>j < i. \<bar>vs ! i - x\<bar> < \<bar>vs ! j - x\<bar>)"
proof -
  obtain v ws where vs: "vs = v # ws" "i = nearest_scan ws x 1 v 0"
    using assms by (auto simp: nearest_index_def split: list.splits)
  show ?thesis using nearest_scan_ok [of 1 "[v]" 0 v x ws] vs by (simp add: Let_def)
qed

lemma nearest_index_hit:
  assumes "distinct vs" and "i < length vs"
  shows "nearest_index vs (vs ! i) = Some i"
proof -
  obtain k where k: "nearest_index vs (vs ! i) = Some k"
    using assms(2) by (cases vs) (auto simp: nearest_index_def)
  from nearest_index_ok [OF k] assms(2) have "k < length vs" "\<bar>vs ! k - vs ! i\<bar> \<le> 0"
    by fastforce+
  then show ?thesis using assms k by (simp add: nth_eq_iff_index_eq)
qed

lemma discretize_dims_ok:
  assumes "[] \<notin> set vss" and "length vss \<le> length v" and "0 < s"
  shows "\<exists>is. length is = length vss \<and> (\<forall>d < length vss. nearest_index (vss ! d) (v ! d) = Some (is ! d)) \<and>
    discretize_dims (zip (map (\<lambda>vs. real (length vs)) vss) vss) v s off =
      Some (off + s * undigits (map length vss) is)"
  using assms
proof (induction vss arbitrary: v s off)
  case (Cons vs vss)
  obtain x v' where v: "v = x # v'" using Cons.prems(2) by (cases v) auto
  obtain i where i: "nearest_index vs x = Some i"
    using Cons.prems(1) by (cases vs) (auto simp: nearest_index_def)
  have s: "nat \<lfloor>real s * real (length vs)\<rfloor> = s * length vs"
    by (metis floor_of_nat nat_int of_nat_mult)
  have pos: "0 < s * length vs" using Cons.prems(1,3) by auto
  from Cons.IH [of v' "s * length vs" "off + i * s", OF _ _ pos] Cons.prems v obtain "is" where
    "is": "length is = length vss" "\<forall>d < length vss. nearest_index (vss ! d) (v' ! d) = Some (is ! d)"
    "discretize_dims (zip (map (\<lambda>vs. real (length vs)) vss) vss) v' (s * length vs) (off + i * s) =
      Some (off + i * s + s * length vs * undigits (map length vss) is)" by auto
  then have "discretize_dims (zip (map (\<lambda>vs. real (length vs)) (vs # vss)) (vs # vss)) v s off =
      Some (off + s * undigits (map length (vs # vss)) (i # is))"
    using i v s by (simp add: algebra_simps)
  moreover have "\<forall>d < length (vs # vss). nearest_index ((vs # vss) ! d) (v ! d) = Some ((i # is) ! d)"
    using i "is"(2) v by (auto simp: less_Suc_eq_0_disj)
  ultimately show ?case using "is"(1) by (intro exI [of _ "i # is"]) simp
qed simp

lemma ud_discretize_ok:
  assumes "ud_wf u" and "length v = length (ud_values u)"
  shows "\<exists>k p. ud_discretize u v = Some k \<and> k < ud_size u \<and> ud_at u k = Some p \<and>
    length p = length v \<and>
    (\<forall>d < length v. \<exists>i. nearest_index (ud_values u ! d) (v ! d) = Some i \<and> digits (ud_ns u) k ! d = i \<and>
       p ! d = ud_values u ! d ! i)"
proof -
  have ne: "[] \<notin> set (ud_values u)" using assms(1) by (simp add: ud_wf_def)
  from discretize_dims_ok [OF ne, of v 1 0] assms(2) obtain "is" where
    "is": "length is = length (ud_values u)"
    "\<forall>d < length (ud_values u). nearest_index (ud_values u ! d) (v ! d) = Some (is ! d)"
    "discretize_dims (zip (map (\<lambda>vs. real (length vs)) (ud_values u)) (ud_values u)) v 1 0 =
      Some (undigits (ud_ns u) is)" by (auto simp: ud_ns_def)
  let ?k = "undigits (ud_ns u) is"
  have "\<forall>d < length (ud_ns u). is ! d < ud_ns u ! d"
    using "is"(2) nearest_index_ok by (auto simp: ud_ns_def)
  then have k: "digits (ud_ns u) ?k = is" "?k < ud_size u"
    using digits_undigits [of "is" "ud_ns u"] "is"(1) ud_size_eq [OF assms(1)] by (auto simp: ud_ns_def)
  have "ud_discretize u v = Some ?k"
    using "is"(3) assms(1) by (simp add: ud_discretize_def ud_wf_def)
  then show ?thesis
    using k "is" assms(2) ud_at_eq [OF assms(1), of ?k] by auto
qed

interpretation ud_search: searchable "\<lambda>u p. ud_wf u" ud_disc "\<lambda>u. length (ud_values u)"
proof unfold_locales
  fix s p and v :: dvec assume wf: "ud_wf s" "length v = length (ud_values s)"
  from ud_discretize_ok [OF wf] obtain k where "ud_discretize s v = Some k" "k < ud_size s" by blast
  then show "\<exists>k < d_size (ud_disc s) p. d_discretize (ud_disc s) v = Some k"
    by (simp add: ud_disc_def)
next
  fix s p k assume "ud_wf s" "k < d_size (ud_disc s) p"
  then show "\<exists>q. d_at (ud_disc s) p k = Some q \<and> length q = length (ud_values s)"
    by (simp add: ud_disc_def ud_at_eq ud_ns_def)
qed

end
