(* ===== verification/SplitGrids.thy ===== *)
theory SplitGrids
  imports Grids
begin

text \<open>
  The uniform grid's round trip and configuration, and the split discretizer: iteration over the
  union of flat discretizers, its offsets, and its search.
\<close>

section \<open>Offsets and closest points of the uniform grid\<close>

lemma ud_roundtrip:
  assumes wf: "ud_wf u" and dist: "\<forall>vs \<in> set (ud_values u). distinct vs" and k: "k < ud_size u"
  shows "\<exists>p. ud_at u k = Some p \<and> ud_discretize u p = Some k"
proof -
  define p where "p = map2 (\<lambda>vs i. vs ! i) (ud_values u) (digits (ud_ns u) k)"
  have p: "ud_at u k = Some p" "length p = length (ud_values u)"
    using ud_at_eq [OF wf] by (simp_all add: p_def ud_ns_def)
  from ud_discretize_ok [OF wf p(2)] obtain k' where k': "ud_discretize u p = Some k'" "k' < ud_size u"
    "\<forall>d < length p. nearest_index (ud_values u ! d) (p ! d) = Some (digits (ud_ns u) k' ! d)" by blast
  have dig: "digits (ud_ns u) k ! d = digits (ud_ns u) k' ! d" if "d < length (ud_ns u)" for d
  proof -
    have d: "d < length (ud_values u)" using that by (simp add: ud_ns_def)
    have "p ! d = ud_values u ! d ! (digits (ud_ns u) k ! d)"
      using d by (simp add: p_def ud_ns_def)
    moreover have "digits (ud_ns u) k ! d < length (ud_values u ! d)"
      using digits_bound [OF ud_ns_pos [OF wf] that, of k] d by (simp add: ud_ns_def)
    ultimately have "nearest_index (ud_values u ! d) (p ! d) = Some (digits (ud_ns u) k ! d)"
      using nearest_index_hit dist d by simp
    then show ?thesis using k'(3) d p(2) by simp
  qed
  have "digits (ud_ns u) k = digits (ud_ns u) k'"
    using dig by (intro nth_equalityI) simp_all
  then have "k = k'"
    using undigits_digits [OF ud_ns_pos [OF wf]] k k'(2) by (metis ud_size_eq wf)
  then show ?thesis using p k' by simp
qed

lemma ud_closest:
  assumes wf: "ud_wf u" and v: "length v = length (ud_values u)" and k: "ud_discretize u v = Some k"
    and at: "ud_at u k = Some p" and j: "ud_at u j = Some q" and d: "d < length v"
  shows "\<bar>p ! d - v ! d\<bar> \<le> \<bar>q ! d - v ! d\<bar>"
proof -
  from ud_discretize_ok [OF wf v] k at d obtain i where i:
    "nearest_index (ud_values u ! d) (v ! d) = Some i" "p ! d = ud_values u ! d ! i" by auto
  have q: "q ! d = ud_values u ! d ! (digits (ud_ns u) j ! d)"
    using j d v ud_at_eq [OF wf, of j] by (auto simp: ud_ns_def)
  have "digits (ud_ns u) j ! d < length (ud_values u ! d)"
    using digits_bound [OF ud_ns_pos [OF wf], of d j] d v by (simp add: ud_ns_def)
  then show ?thesis using nearest_index_ok [OF i(1)] i(2) q by simp
qed

section \<open>Configuration of the uniform grid\<close>

lemma ud_row_many:
  assumes "2 \<le> n"
  shows "ud_row mi ma (real n) =
    Inr (map (\<lambda>vv. mi + (ma - mi) / (real n - 1) * real vv) [0..<n])"
proof -
  have "real n - 1 \<noteq> 0" using assms by simp
  then have "ud_value mi ma (real n) vv = Fin (mi + (ma - mi) / (real n - 1) * real vv)" for vv
    by (simp add: ud_value_def ud_delta_def Let_def)
  then show ?thesis using assms by (simp add: ud_row_def list_all_iff comp_def)
qed

lemma ud_row_one:
  "ud_row mi ma 1 = (if mi = ma then Inr [mi] else Inl NonFinite)"
  by (simp add: ud_row_def ud_value_def ud_delta_def Let_def)

lemma ud_row_fraction: "1 \<le> st \<Longrightarrow> st \<notin> \<int> \<Longrightarrow> ud_row mi ma st = Inl OutOfRange"
proof -
  assume st: "1 \<le> st" "st \<notin> \<int>"
  then have "of_int \<lfloor>st\<rfloor> \<noteq> st" by (metis Ints_of_int)
  then have "\<lfloor>st\<rfloor> < \<lceil>st\<rceil>" by (metis ceiling_altdef less_add_one)
  then show ?thesis using st by (simp add: ud_row_def)
qed

lemma ud_row_length:
  assumes "ud_row mi ma st = Inr vs"
  shows "st = real (length vs) \<and> vs \<noteq> [] \<and> (mi < ma \<longrightarrow> distinct vs)"
proof -
  have st: "1 \<le> st" "\<not> \<lfloor>st\<rfloor> < \<lceil>st\<rceil>" using assms by (auto simp: ud_row_def split: if_splits)
  define n where "n = nat \<lfloor>st\<rfloor>"
  have "of_int \<lfloor>st\<rfloor> = st" using st(2) by (metis ceiling_altdef less_add_one)
  moreover have fl: "1 \<le> \<lfloor>st\<rfloor>" using st(1) by (simp add: le_floor_iff)
  ultimately have n: "st = real n" "1 \<le> n" unfolding n_def by linarith+
  show ?thesis
  proof (cases "n = 1")
    case True
    then have "st = 1" using n(1) by simp
    then show ?thesis using assms ud_row_one [of mi ma] by (auto split: if_splits)
  next
    case False
    then have n2: "2 \<le> n" using n(2) by simp
    then have vs: "vs = map (\<lambda>vv. mi + (ma - mi) / (real n - 1) * real vv) [0..<n]"
      using assms n(1) ud_row_many by simp
    have "distinct vs" if "mi < ma"
      unfolding vs using that n2 by (auto simp: distinct_map inj_on_def)
    then show ?thesis using vs n n2 by auto
  qed
qed

lemma ud_rows_ok:
  assumes "ud_rows ds = Inr vss"
  shows "map (\<lambda>(mi, ma, st). st) ds = map (\<lambda>vs. real (length vs)) vss \<and> [] \<notin> set vss \<and>
    ((\<forall>(mi, ma, st) \<in> set ds. mi < ma) \<longrightarrow> (\<forall>vs \<in> set vss. distinct vs))"
  using assms
proof (induction ds arbitrary: vss)
  case (Cons x ds)
  obtain mi ma st where x: "x = (mi, ma, st)" by (cases x)
  obtain vs vss' where r: "ud_row mi ma st = Inr vs" "ud_rows ds = Inr vss'" "vss = vs # vss'"
    using Cons.prems x by (auto split: sum.splits)
  from ud_row_length [OF r(1)] Cons.IH [OF r(2)] show ?case using x r(3) by auto
qed simp

lemma ud_configure_wf:
  assumes "ud_configure mi ma st = Inr u" and "mi \<noteq> []"
  shows "ud_wf u \<and> ((\<forall>d < length mi. mi ! d < ma ! d) \<longrightarrow> (\<forall>vs \<in> set (ud_values u). distinct vs))"
proof -
  have len: "length ma = length mi" "length st = length mi"
    and rows: "ud_rows (zip mi (zip ma st)) = Inr (ud_values u)" and st: "ud_steps u = st"
    using assms(1) by (auto simp: ud_configure_def split: if_splits sum.splits)
  have snd: "map (\<lambda>(mi, ma, st). st) (zip mi (zip ma st)) = st"
    using len by (intro nth_equalityI) simp_all
  have "(\<forall>(a, b, c) \<in> set (zip mi (zip ma st)). a < b) = (\<forall>d < length mi. mi ! d < ma ! d)"
    using len by (simp add: all_set_conv_all_nth)
  moreover have "ud_values u \<noteq> []"
  proof
    assume "ud_values u = []"
    then have "st = []" using ud_rows_ok [OF rows] snd by simp
    then show False using len assms(2) by simp
  qed
  ultimately show ?thesis using ud_rows_ok [OF rows] snd st by (auto simp: ud_wf_def)
qed

section \<open>The split discretizer\<close>

definition flat_ok :: "disc \<Rightarrow> dvec \<Rightarrow> bool" where
  "flat_ok d p \<longleftrightarrow> 0 < d_size d p \<and>
     (\<forall>ex. walks (d_inc d p) (d_get d p) (d_at d p) (d_size d p) (d_begin d p @ ex)
             (\<lambda>i. ex = [] \<or> last i = last ex))"

lemma ud_flat_ok: "ud_wf u \<Longrightarrow> flat_ok (ud_disc u) p"
  using ud.flat_walk [of u p] ud.size_pos [of u p] by (simp add: flat_ok_def)

lemma pd_flat_ok: "flat_ok (pd_disc act) p"
  using pd.flat_walk [of act p] pd.size_pos [of act p] by (simp add: flat_ok_def)

definition sd_base :: "split_disc \<Rightarrow> dvec \<Rightarrow> nat \<Rightarrow> nat" where
  "sd_base sd p dd = sum_list (map (\<lambda>d. d_size d p) (take dd (sd_discs sd)))"

lemma sd_size_sum: "sd_size sd p = sd_base sd p (length (sd_discs sd))"
proof -
  have "foldl (\<lambda>sz d. sz + d_size d p) a ds = a + sum_list (map (\<lambda>d. d_size d p) ds)" for a ds
    by (induction ds arbitrary: a) auto
  from this [of 0 "sd_discs sd"] show ?thesis by (simp add: sd_size_def sd_base_def)
qed

lemma sd_base_Suc:
  "dd < length (sd_discs sd) \<Longrightarrow> sd_base sd p (Suc dd) = sd_base sd p dd + d_size (sd_discs sd ! dd) p"
  by (simp add: sd_base_def take_Suc_conv_app_nth)

lemma sd_find_skip:
  "ii + sum_list (map (\<lambda>d. d_size d p) ds) \<le> idx \<Longrightarrow>
   sd_find (ds @ es) p idx ii dd =
   sd_find es p idx (ii + sum_list (map (\<lambda>d. d_size d p) ds)) (dd + length ds)"
  by (induction ds arbitrary: ii dd) (auto simp: add.assoc)

lemma sd_at_eq:
  assumes dd: "dd < length (sd_discs sd)" and k: "k < d_size (sd_discs sd ! dd) p"
  shows "sd_at sd p (sd_base sd p dd + k) =
    map_option (sd_tag (sd_identify sd) dd) (d_at (sd_discs sd ! dd) p k)"
proof -
  let ?ds = "sd_discs sd" and ?b = "sd_base sd p dd" and ?d = "sd_discs sd ! dd"
  have split: "?ds = take dd ?ds @ ?d # drop (Suc dd) ?ds" using dd by (simp add: id_take_nth_drop)
  have "sd_find ?ds p (?b + k) 0 0 = sd_find (take dd ?ds @ ?d # drop (Suc dd) ?ds) p (?b + k) 0 0"
    using split by simp
  also have "\<dots> = sd_find (?d # drop (Suc dd) ?ds) p (?b + k) ?b dd"
    using sd_find_skip [of 0 p "take dd ?ds" "?b + k" "?d # drop (Suc dd) ?ds" 0] dd
    by (simp add: sd_base_def)
  also have "\<dots> = sd_find (drop (Suc dd) ?ds) p (?b + k) (?b + d_size ?d p) (dd + 1)" by simp
  also have "\<dots> = Some (?b + d_size ?d p, dd + 1)"
    using k by (cases "drop (Suc dd) ?ds") simp_all
  finally show ?thesis
    by (simp add: sd_at_def) (cases "d_at ?d p k"; simp)
qed

lemma walks_chain:
  assumes "\<And>k. k < n \<Longrightarrow> \<exists>i v. run_inc inc k start = Some i \<and> i \<noteq> [] \<and> get i = Some v \<and> att k = Some v"
    and "run_inc inc n start = Some start'" and "walks inc get (\<lambda>k. att (n + k)) m start' (\<lambda>_. True)"
  shows "walks inc get att (n + m) start (\<lambda>_. True)"
proof -
  have "\<exists>i v. run_inc inc k start = Some i \<and> i \<noteq> [] \<and> get i = Some v \<and> att k = Some v"
    if "k < n + m" for k
  proof (cases "k < n")
    case True
    then show ?thesis by (rule assms(1))
  next
    case False
    then have "k - n < m" "k = n + (k - n)" using that by simp_all
    moreover from this obtain i v where "run_inc inc (k - n) start' = Some i" "i \<noteq> []"
      "get i = Some v" "att (n + (k - n)) = Some v" using assms(3) by (auto simp: walks_def)
    moreover have "run_inc inc (n + (k - n)) start = run_inc inc (k - n) start'"
      using assms(2) by (simp only: run_inc_add) simp
    ultimately show ?thesis by metis
  qed
  moreover have "run_inc inc (n + m) start = Some []"
    using assms(2,3) by (simp only: run_inc_add) (simp add: walks_def)
  ultimately show ?thesis by (simp add: walks_def)
qed

lemma sd_run:
  assumes dd: "dd < length (sd_discs sd)" and ok: "flat_ok (sd_discs sd ! dd) p"
    and k: "k < d_size (sd_discs sd ! dd) p"
  shows "\<exists>i v. run_inc (sd_inc sd p) k (d_begin (sd_discs sd ! dd) p @ [dd]) = Some i \<and>
    run_inc (d_inc (sd_discs sd ! dd) p) k (d_begin (sd_discs sd ! dd) p @ [dd]) = Some i \<and>
    i \<noteq> [] \<and> last i = dd \<and> d_get (sd_discs sd ! dd) p i = Some v \<and>
    d_at (sd_discs sd ! dd) p k = Some v"
  using k
proof (induction k)
  case 0
  then show ?case using ok unfolding flat_ok_def walks_def by fastforce
next
  case (Suc k)
  let ?d = "sd_discs sd ! dd"
  from Suc obtain i where i: "run_inc (sd_inc sd p) k (d_begin ?d p @ [dd]) = Some i"
    "run_inc (d_inc ?d p) k (d_begin ?d p @ [dd]) = Some i" "i \<noteq> []" "last i = dd" by auto
  have w: "walks (d_inc ?d p) (d_get ?d p) (d_at ?d p) (d_size ?d p) (d_begin ?d p @ [dd])
      (\<lambda>i. [dd] = [] \<or> last i = last [dd])" using ok by (simp only: flat_ok_def)
  from w Suc.prems obtain i' v where i': "run_inc (d_inc ?d p) (Suc k) (d_begin ?d p @ [dd]) = Some i'"
    "i' \<noteq> []" "last i' = dd" "d_get ?d p i' = Some v" "d_at ?d p (Suc k) = Some v"
    unfolding walks_def by auto
  have "d_inc ?d p i = Some i'" using i'(1) i(2) by (simp only: run_inc_snoc) simp
  then have "sd_inc sd p i = Some i'" using i(3,4) i'(2) dd by (simp add: sd_inc_def)
  then have "run_inc (sd_inc sd p) (Suc k) (d_begin ?d p @ [dd]) = Some i'"
    using i(1) by (simp only: run_inc_snoc) simp
  then show ?case using i' by blast
qed

lemma sd_run_end:
  assumes dd: "dd < length (sd_discs sd)" and ok: "flat_ok (sd_discs sd ! dd) p"
  shows "run_inc (sd_inc sd p) (d_size (sd_discs sd ! dd) p) (d_begin (sd_discs sd ! dd) p @ [dd]) =
    Some (if Suc dd < length (sd_discs sd) then d_begin (sd_discs sd ! Suc dd) p @ [Suc dd] else [])"
proof -
  let ?d = "sd_discs sd ! dd"
  obtain n where n: "d_size ?d p = Suc n" using ok by (cases "d_size ?d p") (auto simp: flat_ok_def)
  from sd_run [OF dd ok, of n] n obtain i where
    i: "run_inc (sd_inc sd p) n (d_begin ?d p @ [dd]) = Some i"
    "run_inc (d_inc ?d p) n (d_begin ?d p @ [dd]) = Some i" "i \<noteq> []" "last i = dd" by auto
  have "run_inc (d_inc ?d p) (Suc n) (d_begin ?d p @ [dd]) = Some []"
    using ok n by (simp only: flat_ok_def walks_def)
  then have "d_inc ?d p i = Some []" using i(2) by (simp only: run_inc_snoc) simp
  then have "sd_inc sd p i =
      Some (if Suc dd < length (sd_discs sd) then d_begin (sd_discs sd ! Suc dd) p @ [Suc dd] else [])"
    using i(3,4) dd by (simp add: sd_inc_def)
  then show ?thesis using i(1) n by (simp only: run_inc_snoc) simp
qed

lemma sd_walk_from:
  assumes ok: "\<forall>d \<in> set (sd_discs sd). flat_ok d p"
  shows "dd < length (sd_discs sd) \<Longrightarrow>
    walks (sd_inc sd p) (sd_get sd p) (\<lambda>k. sd_at sd p (sd_base sd p dd + k))
      (sd_size sd p - sd_base sd p dd) (d_begin (sd_discs sd ! dd) p @ [dd]) (\<lambda>_. True)"
proof (induction "length (sd_discs sd) - dd" arbitrary: dd)
  case (Suc n)
  let ?d = "sd_discs sd ! dd" and ?att = "\<lambda>k. sd_at sd p (sd_base sd p dd + k)"
  have dok: "flat_ok ?d p" using ok Suc.prems by simp
  have steps: "\<exists>i v. run_inc (sd_inc sd p) k (d_begin ?d p @ [dd]) = Some i \<and> i \<noteq> [] \<and>
      sd_get sd p i = Some v \<and> ?att k = Some v" if "k < d_size ?d p" for k
  proof -
    from sd_run [OF Suc.prems dok that] obtain i v where
      r: "run_inc (sd_inc sd p) k (d_begin ?d p @ [dd]) = Some i" "i \<noteq> []" "last i = dd"
      and g: "d_get ?d p i = Some v" "d_at ?d p k = Some v" by blast
    have "sd_get sd p i = Some (sd_tag (sd_identify sd) dd v)"
      using r g Suc.prems by (simp add: sd_get_def)
    moreover have "?att k = Some (sd_tag (sd_identify sd) dd v)"
      using sd_at_eq [OF Suc.prems that] g by simp
    ultimately show ?thesis using r by blast
  qed
  define m where "m = sd_size sd p - sd_base sd p (Suc dd)"
  have mono: "sd_base sd p (Suc dd) \<le> sd_size sd p"
  proof -
    have "sum_list (map (\<lambda>d. d_size d p) (take j ds)) \<le> sum_list (map (\<lambda>d. d_size d p) ds)"
      for j and ds :: "disc list"
    proof -
      have "sum_list (map f (take j ds)) + sum_list (map f (drop j ds)) = sum_list (map f ds)"
        for f :: "disc \<Rightarrow> nat"
        by (simp flip: sum_list_append map_append)
      from this [of "\<lambda>d. d_size d p"] show ?thesis by linarith
    qed
    then show ?thesis by (simp add: sd_size_sum sd_base_def)
  qed
  then have len: "sd_size sd p - sd_base sd p dd = d_size ?d p + m"
    using sd_base_Suc [OF Suc.prems, of p] by (simp add: m_def)
  have rest: "walks (sd_inc sd p) (sd_get sd p) (\<lambda>k. ?att (d_size ?d p + k)) m
      (if Suc dd < length (sd_discs sd) then d_begin (sd_discs sd ! Suc dd) p @ [Suc dd] else [])
      (\<lambda>_. True)"
  proof (cases "Suc dd < length (sd_discs sd)")
    case True
    then have "walks (sd_inc sd p) (sd_get sd p) (\<lambda>k. sd_at sd p (sd_base sd p (Suc dd) + k)) m
        (d_begin (sd_discs sd ! Suc dd) p @ [Suc dd]) (\<lambda>_. True)"
      using Suc.hyps(1) [of "Suc dd"] Suc.hyps(2) unfolding m_def by linarith
    then show ?thesis using True sd_base_Suc [OF Suc.prems, of p] by (simp add: add.assoc)
  next
    case False
    then have "Suc dd = length (sd_discs sd)" using Suc.prems by simp
    then have "m = 0" by (simp add: m_def sd_size_sum)
    then show ?thesis using False by (simp add: walks_def)
  qed
  show ?case unfolding len by (rule walks_chain [OF steps sd_run_end [OF Suc.prems dok] rest])
qed simp

definition sd_wf :: "split_disc \<Rightarrow> dvec \<Rightarrow> bool" where
  "sd_wf sd p \<longleftrightarrow> sd_discs sd \<noteq> [] \<and> (\<forall>d \<in> set (sd_discs sd). flat_ok d p)"

interpretation sd: discretizer sd_wf sd_disc
proof unfold_locales
  fix sd p assume wf: "sd_wf sd p"
  then have "walks (sd_inc sd p) (sd_get sd p) (\<lambda>k. sd_at sd p (sd_base sd p 0 + k))
      (sd_size sd p - sd_base sd p 0) (d_begin (sd_discs sd ! 0) p @ [0]) (\<lambda>_. True)"
    by (intro sd_walk_from) (auto simp: sd_wf_def)
  then show "walks (d_inc (sd_disc sd) p) (d_get (sd_disc sd) p) (d_at (sd_disc sd) p)
      (d_size (sd_disc sd) p) (d_begin (sd_disc sd) p) (\<lambda>_. True)"
    by (simp add: sd_disc_def sd_base_def sd_begin_def)
qed

section \<open>The closing loop of the split search\<close>

lemma sd_add_sizes_diverges: "dd < nearest_dd \<Longrightarrow> sd_add_sizes ds dd nearest_dd off = None"
proof (rule ccontr)
  assume lt: "dd < nearest_dd" and "sd_add_sizes ds dd nearest_dd off \<noteq> None"
  then obtain r where r: "sd_add_sizes ds dd nearest_dd off = Some r" by blast
  have "\<not> dd < nearest_dd"
  proof (rule sd_add_sizes.raw_induct
      [where P = "\<lambda>ds dd nearest_dd off r. \<not> dd < nearest_dd", OF _ r])
    fix f ds dd nearest_dd off r
    assume IH: "\<And>ds dd nearest_dd off r. f ds dd nearest_dd off = Some r \<Longrightarrow> \<not> dd < nearest_dd"
      and eq: "(if dd < nearest_dd then f ds dd nearest_dd (off + d_size (ds ! dd) [])
        else Some off) = Some (r :: nat)"
    show "\<not> dd < nearest_dd"
    proof
      assume "dd < nearest_dd"
      with eq have "f ds dd nearest_dd (off + d_size (ds ! dd) []) = Some r" by simp
      from IH [OF this] \<open>dd < nearest_dd\<close> show False by simp
    qed
  qed
  with lt show False by simp
qed

section \<open>Properties\<close>

text \<open>C32: the uniform grid. A configuration with integral steps and proper ranges yields a grid whose
  option list enumerates the points at the offsets below the size; every offset is the one
  \<open>discretize\<close> finds for its own point.\<close>

theorem uniform_grid_offsets:
  assumes "ud_configure mi ma st = Inr u" and "mi \<noteq> []" and "\<forall>d < length mi. mi ! d < ma ! d"
  shows "\<exists>ps. disc_options (ud_disc u) [] = Some ps \<and> length ps = ud_size u \<and>
    (\<forall>k < ud_size u. ud_at u k = Some (ps ! k) \<and> ud_discretize u (ps ! k) = Some k)"
proof -
  have wf: "ud_wf u" and d: "\<forall>vs \<in> set (ud_values u). distinct vs"
    using ud_configure_wf [OF assms(1,2)] assms(3) by auto
  from ud.options_at [OF wf, of "[]"] obtain ps where ps: "disc_options (ud_disc u) [] = Some ps"
    "length ps = ud_size u" "\<forall>k < ud_size u. ud_at u k = Some (ps ! k)"
    by (auto simp: ud_disc_def)
  have "ud_discretize u (ps ! k) = Some k" if "k < ud_size u" for k
    using ud_roundtrip [OF wf d that] ps(3) that by auto
  with ps show ?thesis by blast
qed

text \<open>\<open>discretize\<close> returns the offset of a closest grid point: in every dimension no other point
  of the grid is nearer.\<close>

theorem uniform_discretize_closest:
  assumes "ud_configure mi ma st = Inr u" and "mi \<noteq> []" and "length v = length mi"
  shows "\<exists>k p. ud_discretize u v = Some k \<and> k < ud_size u \<and> ud_at u k = Some p \<and>
    (\<forall>j q d. ud_at u j = Some q \<and> d < length v \<longrightarrow> \<bar>p ! d - v ! d\<bar> \<le> \<bar>q ! d - v ! d\<bar>)"
proof -
  have wf: "ud_wf u" using ud_configure_wf [OF assms(1,2)] by blast
  have "length (ud_values u) = length (ud_steps u)" using wf by (simp add: ud_wf_def)
  moreover have "length (ud_steps u) = length mi"
    using assms(1) by (auto simp: ud_configure_def split: if_splits sum.splits)
  ultimately have len: "length v = length (ud_values u)" using assms(3) by simp
  from ud_discretize_ok [OF wf len] obtain k p where k: "ud_discretize u v = Some k" "k < ud_size u"
    "ud_at u k = Some p" by blast
  then show ?thesis using ud_closest [OF wf len k(1) k(3)] by blast
qed

definition grid_example :: uniform_disc where
  "grid_example = \<lparr>ud_min = [0, 0], ud_max = [1, 2], ud_steps = [2, 3],
     ud_values = [[0, 1], [0, 1, 2]]\<rparr>"

lemma grid_example_configure: "ud_configure [0, 0] [1, 2] [2, 3] = Inr grid_example"
  using ud_row_many [of 2 0 1] ud_row_many [of 3 0 2]
  by (simp add: ud_configure_def grid_example_def upt_rec numeral_2_eq_2 numeral_3_eq_3)

theorem uniform_grid_offsets_witness:
  "\<exists>ps. disc_options (ud_disc grid_example) [] = Some ps \<and> length ps = 6"
  using uniform_grid_offsets [OF grid_example_configure]
  by (auto simp: ud_size_def grid_example_def vec_prod_def less_Suc_eq)

theorem uniform_discretize_closest_witness:
  "\<exists>k. ud_discretize grid_example [1 / 4, 5] = Some k \<and> k < ud_size grid_example"
  using uniform_discretize_closest [OF grid_example_configure, of "[1 / 4, 5]"] by auto

text \<open>the split discretizer over any discretizers that leave trailing index components alone
  enumerates the union of their points: its option list has one entry per offset, read by \<open>at\<close>.\<close>

theorem split_enumerates:
  assumes "sd_discs sd \<noteq> []" and "\<forall>d \<in> set (sd_discs sd). flat_ok d p"
  shows "\<exists>ps. disc_options (sd_disc sd) p = Some ps \<and> length ps = sd_size sd p \<and>
    (\<forall>k < sd_size sd p. sd_at sd p k = Some (ps ! k)) \<and>
    (\<forall>dd k. dd < length (sd_discs sd) \<and> k < d_size (sd_discs sd ! dd) p \<longrightarrow>
       map_option (sd_tag (sd_identify sd) dd) (d_at (sd_discs sd ! dd) p k) =
       sd_at sd p (sd_base sd p dd + k))"
proof -
  have "sd_wf sd p" using assms by (simp add: sd_wf_def)
  from sd.options_at [OF this] show ?thesis using sd_at_eq by (auto simp: sd_disc_def)
qed

theorem split_enumerates_witness:
  "\<exists>ps. disc_options (sd_disc \<lparr>sd_identify = 1,
       sd_discs = [ud_disc grid_example, pd_disc (\<lambda>p. p)]\<rparr>) [3, 4] = Some ps \<and> length ps = 7"
proof -
  have "ud_wf grid_example" using ud_configure_wf [OF grid_example_configure] by simp
  then have "flat_ok (ud_disc grid_example) [3, 4]" "flat_ok (pd_disc (\<lambda>p. p)) [3, 4]"
    by (simp_all add: ud_flat_ok pd_flat_ok)
  with split_enumerates [of "\<lparr>sd_identify = 1, sd_discs = [ud_disc grid_example, pd_disc (\<lambda>p. p)]\<rparr>" "[3, 4]"]
  show ?thesis
    by (auto simp: sd_size_def ud_disc_def pd_disc_def ud_size_def grid_example_def vec_prod_def)
qed

text \<open>the closing loop of the split search never advances its counter. With two discretizers
  \<open>discretize\<close> returns only if the second one's candidate is not strictly closer, and that candidate
  is read at the first one's offset.\<close>

theorem split_discretize_two:
  assumes "sd_discs sd = [d1, d2]" and "d_discretize d1 v = Some o1" and "d_at d1 [] o1 = Some p1"
    and "d_discretize d2 v = Some o2" and "d_at d2 [] o1 = Some p2"
  shows "sd_discretize sd v = (if sq_dist v p2 < sq_dist v p1 then None else Some o1)"
proof -
  have "sd_add_sizes [d1, d2] 0 0 o1 = Some o1" by (subst sd_add_sizes.simps) simp
  then show ?thesis
    using assms sd_add_sizes_diverges [of 0 1 "[d1, d2]" o2]
    by (simp add: sd_discretize_def Let_def)
qed

theorem split_discretize_two_witness:
  "sd_discretize \<lparr>sd_identify = 0, sd_discs = [pd_disc (\<lambda>p. [0]), pd_disc (\<lambda>p. [5])]\<rparr> [4] = None"
  using split_discretize_two [of "\<lparr>sd_identify = 0, sd_discs = [pd_disc (\<lambda>p. [0]), pd_disc (\<lambda>p. [5])]\<rparr>"
      "pd_disc (\<lambda>p. [0])" "pd_disc (\<lambda>p. [5])" "[4]" 0 "[0]" 0 "[5]"]
  by (simp add: pd_disc_def sq_dist_def vsub_def vmul_def vec_sum_def)

end
