(* ===== verification/NoiseSamplers.thy ===== *)
theory NoiseSamplers
  imports SamplerFacts SplitGrids
begin

text \<open>
  The samplers that restrict or perturb an action of a discretizer: PADA
  (\<open>base/src/samplers/pada.cpp\<close>), which only considers actions close to the previous one, and
  the Ornstein-Uhlenbeck family (\<open>base/src/samplers/ornstein_uhlenbeck.cpp\<close>), which adds
  time-correlated noise.

  A signal that is not connected is \<open>None\<close>; a connected one carries its current value, which
  other components may have written. A normal draw that is not finite is outside the real-valued
  model and ends in \<open>Undefined\<close>, as do accesses outside a vector.
\<close>

fun of_option :: "'a option \<Rightarrow> sampler_error + 'a" where
  "of_option None = Inl Undefined"
| "of_option (Some x) = Inr x"

section \<open>PADA\<close>

record pada =
  pa_eg :: epsilon_greedy
  pa_disc :: disc
  pa_delta :: dvec
  pa_prev_action :: dvec
  pa_signal :: "dvec option"

definition pada_configure ::
    "epsilon_greedy \<Rightarrow> disc \<Rightarrow> dvec \<Rightarrow> dvec option \<Rightarrow> sampler_error + pada" where
  "pada_configure eg d delta signal =
     (if \<exists>x \<in> set delta. x < 0 then Inl BadParam
      else let prev = replicate (length delta) 0
           in Inr \<lparr>pa_eg = eg, pa_disc = d, pa_delta = delta, pa_prev_action = prev,
                   pa_signal = map_option (\<lambda>_. prev) signal\<rparr>)"

text \<open>The loop that compares one action with the previous one and leaves at the first violation.\<close>

fun close_to :: "dvec \<Rightarrow> dvec \<Rightarrow> dvec \<Rightarrow> bool option" where
  "close_to act [] delta = Some True"
| "close_to (a # act) (p # prev) (d # delta) =
     (if \<bar>a - p\<bar> > d then Some False else close_to act prev delta)"
| "close_to _ _ _ = None"

definition pada_filter ::
    "disc \<Rightarrow> dvec \<Rightarrow> dvec \<Rightarrow> dvec \<Rightarrow> sampler_error + dvec \<times> nat list" where
  "pada_filter d delta prev_out qvalues =
     (if length prev_out \<noteq> length delta then Inl BadParam
      else chain (of_option (disc_options d [])) (\<lambda>as.
           chain (of_option (option_list (map (\<lambda>a. close_to a prev_out delta) as))) (\<lambda>valid.
             let idx = filter (\<lambda>aa. valid ! aa) [0..<length as]
             in if \<forall>aa \<in> set idx. aa < length qvalues
                then Inr (map (\<lambda>aa. qvalues ! aa) idx, idx)
                else Inl Undefined)))"

definition pada_read_signal :: "pada \<Rightarrow> pada" where
  "pada_read_signal pa =
     (case pa_signal pa of None \<Rightarrow> pa | Some v \<Rightarrow> pa\<lparr>pa_prev_action := v\<rparr>)"

definition pada_set_prev :: "dvec \<Rightarrow> pada \<Rightarrow> pada" where
  "pada_set_prev v pa =
     pa\<lparr>pa_prev_action := v, pa_signal := map_option (\<lambda>_. v) (pa_signal pa)\<rparr>"

definition nth_of :: "'a list \<Rightarrow> nat \<Rightarrow> sampler_error + 'a" where
  "nth_of xs i = (if i < length xs then Inr (xs ! i) else Inl Undefined)"

definition pada_sample ::
    "real \<Rightarrow> pada \<Rightarrow> dvec \<Rightarrow> rand \<Rightarrow> sampler_error + nat \<times> action_type \<times> rand \<times> pada" where
  "pada_sample time pa values g =
     (let pa = pada_read_signal pa
      in chain (pada_filter (pa_disc pa) (pa_delta pa) (pa_prev_action pa) values) (\<lambda>(filtered, idx).
         chain (eg_sample (pa_eg pa) filtered g) (\<lambda>(filtered_offset, ty, g).
         chain (nth_of idx filtered_offset) (\<lambda>offset.
         chain (of_option (d_at (pa_disc pa) [] offset)) (\<lambda>v.
           Inr (offset, ty, g, pada_set_prev v pa))))))"

definition INT_MAX :: real where
  "INT_MAX = 2147483647"

text \<open>
  The epsilon variant constrains only exploration; it tests the first rate without the decay.
\<close>

definition epada_sample ::
    "real \<Rightarrow> pada \<Rightarrow> dvec \<Rightarrow> rand \<Rightarrow> sampler_error + nat \<times> action_type \<times> rand \<times> pada" where
  "epada_sample time pa values g =
     (let (r, g) = rand_get g
      in chain (nth_of (eg_epsilon (pa_eg pa)) 0) (\<lambda>eps.
         if r < eps
         then let pa = pada_read_signal pa;
                  delta = (if time = 0 then map (\<lambda>_. INT_MAX) (pa_delta pa) else pa_delta pa)
              in chain (pada_filter (pa_disc pa) delta (pa_prev_action pa) values) (\<lambda>(filtered, idx).
                 chain (of_option (getInteger (length filtered) g)) (\<lambda>(filtered_offset, g).
                 chain (nth_of idx filtered_offset) (\<lambda>offset.
                 chain (of_option (d_at (pa_disc pa) [] offset)) (\<lambda>v.
                   Inr (offset, atExploratory, g, pada_set_prev v pa)))))
         else chain (greedy_sample values g) (\<lambda>(offset, ty, g).
              chain (of_option (d_at (pa_disc pa) [] offset)) (\<lambda>v.
                Inr (offset, ty, g, pada_set_prev v pa)))))"

section \<open>Ornstein-Uhlenbeck noise\<close>

record ou =
  ou_noise :: dvec
  ou_theta :: dvec
  ou_sigma :: dvec
  ou_center :: dvec
  ou_scale :: dvec
  ou_signal :: "dvec option"
  ou_disc :: disc

definition same_size :: "dvec \<Rightarrow> dvec \<Rightarrow> sampler_error + unit" where
  "same_size v w = (if length v = length w then Inr () else Inl Undefined)"

definition ou_configure :: "disc \<Rightarrow> dvec \<Rightarrow> dvec \<Rightarrow> dvec \<Rightarrow> dvec option \<Rightarrow> sampler_error + ou" where
  "ou_configure d theta sigma center signal =
     (if length theta \<noteq> length sigma \<or> length sigma \<noteq> length center \<or> length center = 0
      then Inl BadParam
      else chain (of_option (d_at d [] (sz_pred (d_size d [])))) (\<lambda>last.
           chain (of_option (d_at d [] 0)) (\<lambda>first.
           chain (same_size last center) (\<lambda>_.
           chain (same_size first center) (\<lambda>_.
             Inr \<lparr>ou_noise = center, ou_theta = theta, ou_sigma = sigma, ou_center = center,
                  ou_scale = map2 max (vsub center first) (vsub last center),
                  ou_signal = map_option (\<lambda>_. center) signal, ou_disc = d\<rparr>)))))"

text \<open>One step of the process in every dimension of the vector.\<close>

fun ou_steps :: "dvec \<Rightarrow> dvec \<Rightarrow> dvec \<Rightarrow> dvec \<Rightarrow> rand \<Rightarrow> sampler_error + dvec \<times> rand" where
  "ou_steps [] theta center sigma g = Inr ([], g)"
| "ou_steps (x # xs) (t # theta) (c # center) (sg # sigma) g =
     (case getNormal 0 1 g of
        (Fin n, g1) \<Rightarrow>
          chain (ou_steps xs theta center sigma g1) (\<lambda>(ys, g2).
            Inr ((x + t * (c - x) + sg * n) # ys, g2))
      | _ \<Rightarrow> Inl Undefined)"
| "ou_steps _ _ _ _ g = Inl Undefined"

definition evolve_noise :: "ou \<Rightarrow> rand \<Rightarrow> sampler_error + ou \<times> rand" where
  "evolve_noise s g =
     chain (ou_steps (ou_noise s) (ou_theta s) (ou_center s) (ou_sigma s) g) (\<lambda>(n, g).
       Inr (s\<lparr>ou_noise := n\<rparr>, g))"

definition mix_signal_noise :: "ou \<Rightarrow> dvec \<Rightarrow> dvec \<Rightarrow> sampler_error + dvec" where
  "mix_signal_noise s v noise =
     chain (same_size (ou_scale s) noise) (\<lambda>_.
     chain (same_size v noise) (\<lambda>_. Inr (vadd v (vmul (ou_scale s) noise))))"

text \<open>Read the noise from the signal; suppress it at the start of an episode; write it back.\<close>

definition ou_begin :: "real \<Rightarrow> ou \<Rightarrow> ou" where
  "ou_begin time s =
     (let s = (case ou_signal s of None \<Rightarrow> s | Some v \<Rightarrow> s\<lparr>ou_noise := v\<rparr>)
      in if time = 0 then s\<lparr>ou_noise := ou_center s\<rparr> else s)"

definition ou_publish :: "dvec \<Rightarrow> ou \<Rightarrow> ou" where
  "ou_publish v s = s\<lparr>ou_signal := map_option (\<lambda>_. v) (ou_signal s)\<rparr>"

text \<open>The offset of the grid point closest to a grid point with the noise added.\<close>

definition ou_perturb :: "ou \<Rightarrow> nat \<Rightarrow> sampler_error + nat" where
  "ou_perturb s offset =
     chain (of_option (d_at (ou_disc s) [] offset)) (\<lambda>v.
     chain (mix_signal_noise s v (ou_noise s)) (\<lambda>action_new.
       of_option (d_discretize (ou_disc s) action_new)))"

definition ou_sample ::
    "real \<Rightarrow> ou \<Rightarrow> dvec \<Rightarrow> rand \<Rightarrow> sampler_error + nat \<times> action_type \<times> rand \<times> ou" where
  "ou_sample time s values g =
     chain (greedy_sample values g) (\<lambda>(offset, ty, g).
     chain (evolve_noise (ou_begin time s) g) (\<lambda>(s, g).
     chain (ou_perturb s offset) (\<lambda>offset.
       Inr (offset, atExploratory, g, ou_publish (ou_noise s) s))))"

text \<open>The epsilon variant: the noise always evolves, but is added with probability \<open>epsilon\<close>.\<close>

definition eou_sample ::
    "real \<Rightarrow> real \<Rightarrow> ou \<Rightarrow> dvec \<Rightarrow> rand \<Rightarrow> sampler_error + nat \<times> action_type \<times> rand \<times> ou" where
  "eou_sample epsilon time s values g =
     chain (greedy_sample values g) (\<lambda>(offset, ty, g).
     chain (evolve_noise (ou_begin time s) g) (\<lambda>(s, g).
       let (r, g) = rand_get g
       in if r < epsilon
          then chain (ou_perturb s offset) (\<lambda>offset.
                 Inr (offset, atExploratory, g, ou_publish (ou_noise s) s))
          else Inr (offset, ty, g, ou_publish (ou_noise s) s)))"

text \<open>The action-correlated variant perturbs the previous action instead of keeping a noise.\<close>

record acou = ou +
  ac_offset :: nat
  ac_epsilon :: real

definition acou_configure ::
    "disc \<Rightarrow> dvec \<Rightarrow> dvec \<Rightarrow> dvec \<Rightarrow> dvec option \<Rightarrow> real \<Rightarrow> sampler_error + acou" where
  "acou_configure d theta sigma center signal epsilon =
     chain (ou_configure d theta sigma center signal) (\<lambda>s.
     chain (of_option (d_discretize d (ou_center s))) (\<lambda>offset.
     chain (of_option (d_at d [] offset)) (\<lambda>center.
       Inr \<lparr>ou_noise = ou_noise s, ou_theta = ou_theta s, ou_sigma = ou_sigma s,
            ou_center = center, ou_scale = ou_scale s,
            ou_signal = map_option (\<lambda>_. center) (ou_signal s), ou_disc = d,
            ac_offset = offset, ac_epsilon = epsilon\<rparr>)))"

definition acou_sample ::
    "real \<Rightarrow> acou \<Rightarrow> dvec \<Rightarrow> rand \<Rightarrow> sampler_error + nat \<times> action_type \<times> rand \<times> acou" where
  "acou_sample time s values g =
     (let (r, g) = rand_get g
      in chain
          (if r < ac_epsilon s \<and> time \<noteq> 0
           then chain (case ou_signal s of
                         Some v \<Rightarrow> Inr v
                       | None \<Rightarrow> of_option (d_at (ou_disc s) [] (ac_offset s))) (\<lambda>smp_vec.
                chain (ou_steps smp_vec (ou_theta s) (ou_center s) (ou_sigma s) g) (\<lambda>(smp_vec, g).
                chain (of_option (d_discretize (ou_disc s) smp_vec)) (\<lambda>offset.
                  Inr (offset, atExploratory, g))))
           else greedy_sample values g) (\<lambda>(offset, ty, g).
         let s = s\<lparr>ac_offset := offset\<rparr>
         in case ou_signal s of
              None \<Rightarrow> Inr (offset, ty, g, s)
            | Some _ \<Rightarrow>
                chain (of_option (d_at (ou_disc s) [] offset)) (\<lambda>v.
                  Inr (offset, ty, g, s\<lparr>ou_signal := Some v\<rparr>))))"

text \<open>
  The combination with another sampler. \<open>psample\<close> is that sampler's method; it has its own
  generator in its state and shares the one of the C library, which it takes and returns. The
  result carries the discretized action that is published.
\<close>

definition padaou_sample ::
    "(real \<Rightarrow> dvec \<Rightarrow> 's \<Rightarrow> seed48 \<Rightarrow> sampler_error + nat \<times> action_type \<times> 's \<times> seed48) \<Rightarrow>
     real \<Rightarrow> ou \<Rightarrow> 's \<Rightarrow> dvec \<Rightarrow> rand \<Rightarrow>
     sampler_error + nat \<times> action_type \<times> dvec \<times> rand \<times> ou \<times> 's" where
  "padaou_sample psample time s ps values g =
     chain (psample time values ps (libc_data g)) (\<lambda>(offset, ty, ps, libc).
     chain (evolve_noise (ou_begin time s) (g\<lparr>libc_data := libc\<rparr>)) (\<lambda>(s, g).
     chain (ou_perturb s offset) (\<lambda>offset.
     chain (of_option (d_at (ou_disc s) [] offset)) (\<lambda>new_action.
       Inr (offset, atExploratory, new_action, g, ou_publish (ou_noise s) s, ps)))))"

end
