(* ===== verification/NoiseFacts.thy ===== *)
theory NoiseFacts
  imports NoiseSamplers
begin

text \<open>
  The PADA sampler never leaves the bound around the previous action and never gets stuck once
  that action is on the grid; the noise samplers always return a point of the grid. Both are
  proved for every searchable discretizer and stated for the uniform grid.
\<close>

lemma close_to_eq:
  "length act = length prev \<Longrightarrow> length delta = length prev \<Longrightarrow>
   close_to act prev delta = Some (\<forall>i < length prev. \<bar>act ! i - prev ! i\<bar> \<le> delta ! i)"
proof (induction act prev delta rule: close_to.induct)
  case (2 a act p prev d delta)
  then show ?case by (auto simp: All_less_Suc2)
qed auto

text \<open>The offsets of the grid points close to a point.\<close>

definition near :: "(nat \<Rightarrow> dvec option) \<Rightarrow> nat \<Rightarrow> dvec \<Rightarrow> dvec \<Rightarrow> nat list" where
  "near att n prev delta =
     filter (\<lambda>k. \<forall>q. att k = Some q \<longrightarrow> (\<forall>i < length prev. \<bar>q ! i - prev ! i\<bar> \<le> delta ! i)) [0..<n]"

lemma near_iff: "j \<in> set (near att n prev delta) \<longleftrightarrow>
    j < n \<and> (\<forall>q. att j = Some q \<longrightarrow> (\<forall>i < length prev. \<bar>q ! i - prev ! i\<bar> \<le> delta ! i))"
  by (auto simp: near_def)

lemma greedy_nil: "greedy_sample [] g = Inr (0, atGreedy, g)"
  by (simp add: greedy_sample_def)

context searchable
begin

lemma filter_eq:
  assumes inv: "inv s []" and len: "length prev = dim s" "length delta = dim s"
    and q: "length qvalues = d_size (vt s) []"
  shows "pada_filter (vt s) delta prev qvalues =
    (let idx = near (d_at (vt s) []) (d_size (vt s) []) prev delta
     in Inr (map (\<lambda>aa. qvalues ! aa) idx, idx))"
proof -
  from options_at [OF inv] obtain as where as: "disc_options (vt s) [] = Some as"
    "length as = d_size (vt s) []" "\<forall>k < d_size (vt s) []. d_at (vt s) [] k = Some (as ! k)" by blast
  let ?P = "\<lambda>a. \<forall>i < length prev. \<bar>a ! i - prev ! i\<bar> \<le> delta ! i"
  have alen: "length (as ! k) = dim s" if "k < length as" for k
    using at_dim [OF inv, of k] as that by auto
  have "option_list (map (\<lambda>a. close_to a prev delta) as) = Some (map ?P as)"
    using alen len by (simp add: option_list_Some close_to_eq)
  moreover have "filter (\<lambda>aa. map ?P as ! aa) [0..<length as] =
      near (d_at (vt s) []) (d_size (vt s) []) prev delta"
    unfolding near_def as(2) [symmetric] by (rule filter_cong) (use as in auto)
  moreover have "\<forall>aa \<in> set (near (d_at (vt s) []) (d_size (vt s) []) prev delta). aa < length qvalues"
    using q by (simp add: near_def)
  ultimately show ?thesis using len as(1,2) q by (simp add: pada_filter_def Let_def)
qed

lemma pada_sample_ok:
  assumes inv: "inv s []" and d: "pa_disc pa = vt s"
    and prev: "k < d_size (vt s) []" "d_at (vt s) [] k = Some (pa_prev_action (pada_read_signal pa))"
    and delta: "length (pa_delta pa) = dim s" "\<forall>x \<in> set (pa_delta pa). 0 \<le> x"
    and eps: "length (eg_epsilon (pa_eg pa)) = 1" and vals: "length values = d_size (vt s) []"
  shows "\<exists>offset ty g' v. pada_sample time pa values g =
      Inr (offset, ty, g', pada_set_prev v (pada_read_signal pa)) \<and>
    offset < d_size (vt s) [] \<and> d_at (vt s) [] offset = Some v \<and>
    (\<forall>i < dim s. \<bar>v ! i - pa_prev_action (pada_read_signal pa) ! i\<bar> \<le> pa_delta pa ! i) \<and>
    (ty = atGreedy \<longrightarrow> (\<forall>j \<in> set (near (d_at (vt s) []) (d_size (vt s) [])
       (pa_prev_action (pada_read_signal pa)) (pa_delta pa)). values ! j \<le> values ! offset))"
proof -
  let ?pa = "pada_read_signal pa"
  let ?prev = "pa_prev_action ?pa" and ?at = "d_at (vt s) []"
  let ?idx = "near ?at (d_size (vt s) []) ?prev (pa_delta pa)"
  let ?f = "map (\<lambda>aa. values ! aa) ?idx"
  have same: "pa_disc ?pa = vt s" "pa_delta ?pa = pa_delta pa" "pa_eg ?pa = pa_eg pa"
    using d by (simp_all add: pada_read_signal_def split: option.splits)
  have plen: "length ?prev = dim s" using at_dim [OF inv prev(1)] prev(2) by simp
  have "k \<in> set ?idx" using prev delta plen by (auto simp: near_def)
  then have "?f \<noteq> []" by auto
  from eg_sample_ok [OF this disjI1 [OF eps], of g] obtain fo ty g' where
    fo: "eg_sample (pa_eg pa) ?f g = Inr (fo, ty, g')" "fo < length ?f"
    and ty: "if ty = atExploratory then fst (rand_get g) < rate_of (pa_eg pa) fo
      else ty = atGreedy \<and> fo \<in> set (maxima ?f)" by blast
  have max: "ty = atGreedy \<longrightarrow> fo \<in> set (maxima ?f)" using ty by (simp split: if_splits)
  have fo': "fo < length ?idx" using fo(2) by simp
  then have off: "?idx ! fo \<in> set ?idx" by (rule nth_mem)
  have idx: "j < d_size (vt s) []" if "j \<in> set ?idx" for j
    using that unfolding near_iff by blast
  have lt: "?idx ! fo < d_size (vt s) []" by (rule idx [OF off])
  from at_dim [OF inv lt] obtain v where v: "?at (?idx ! fo) = Some v" by blast
  have "pada_sample time pa values g = Inr (?idx ! fo, ty, g', pada_set_prev v ?pa)"
    using filter_eq [OF inv plen delta(1) vals] fo(1) fo' v
    by (simp add: pada_sample_def same Let_def nth_of_def)
  moreover have "\<forall>i < dim s. \<bar>v ! i - ?prev ! i\<bar> \<le> pa_delta pa ! i"
  proof -
    have "\<forall>q. ?at (?idx ! fo) = Some q \<longrightarrow>
        (\<forall>i < length ?prev. \<bar>q ! i - ?prev ! i\<bar> \<le> pa_delta pa ! i)"
      using off unfolding near_iff by blast
    then show ?thesis unfolding plen [symmetric] using v by blast
  qed
  moreover have "ty = atGreedy \<longrightarrow> (\<forall>j \<in> set ?idx. values ! j \<le> values ! (?idx ! fo))"
    using max fo' by (auto simp: maxima_iff)
  ultimately show ?thesis using lt v by blast
qed

text \<open>The vectors of a noise sampler have the dimension of its grid.\<close>

definition ou_ok :: "'s \<Rightarrow> ('b) ou_scheme \<Rightarrow> bool" where
  "ou_ok s u \<longleftrightarrow> ou_disc u = vt s \<and> length (ou_noise u) = dim s \<and> length (ou_theta u) = dim s \<and>
     length (ou_sigma u) = dim s \<and> length (ou_center u) = dim s \<and> length (ou_scale u) = dim s \<and>
     (case ou_signal u of None \<Rightarrow> True | Some v \<Rightarrow> length v = dim s)"

end

lemma ou_steps_error: "ou_steps xs t c sg g = Inl e \<Longrightarrow> e = Undefined"
  by (induction xs t c sg g arbitrary: e rule: ou_steps.induct)
    (auto simp: chain_Inl split: prod.splits dbl.splits)

lemma ou_steps_length: "ou_steps xs t c sg g = Inr (ys, g') \<Longrightarrow> length ys = length xs"
  by (induction xs t c sg g arbitrary: ys g' rule: ou_steps.induct)
    (auto simp: chain_Inr split: prod.splits dbl.splits)

context searchable
begin

lemma perturb_ok:
  assumes "inv s []" and "ou_ok s u" and "k < d_size (vt s) []"
  shows "\<exists>j. ou_perturb u k = Inr j \<and> j < d_size (vt s) []"
proof -
  have "length (vmul (ou_scale u) (ou_noise u)) = dim s"
    using assms(2) by (simp add: ou_ok_def vmul_def)
  from perturb [OF assms(1,3) this] obtain q j where "d_at (vt s) [] k = Some q" "length q = dim s"
    "d_discretize (vt s) (vadd q (vmul (ou_scale u) (ou_noise u))) = Some j" "j < d_size (vt s) []" by blast
  then show ?thesis using assms(2)
    by (simp add: ou_perturb_def mix_signal_noise_def same_size_def ou_ok_def)
qed

lemma ou_sample_ok:
  assumes inv: "inv s []" and ok: "ou_ok s u" and vals: "length values = d_size (vt s) []"
    and pos: "0 < d_size (vt s) []" and gr: "greedy_sample values g = Inr (k, ty, g0)"
    and ev: "evolve_noise (ou_begin time u) g0 = Inr (u1, g1)"
  shows "\<exists>off. ou_sample time u values g = Inr (off, atExploratory, g1, ou_publish (ou_noise u1) u1) \<and>
    off < d_size (vt s) [] \<and> ou_ok s (ou_publish (ou_noise u1) u1) \<and> ou_signal u1 = ou_signal u"
proof -
  have ne: "values \<noteq> []" using vals pos by auto
  have k: "k < d_size (vt s) []" using greedy_sample_ok [OF ne, of g] gr vals by (auto simp: maxima_iff)
  have b: "ou_ok s (ou_begin time u)" "ou_signal (ou_begin time u) = ou_signal u"
    using ok by (auto simp: ou_ok_def ou_begin_def Let_def split: option.splits)
  have u1: "ou_ok s u1" "ou_signal u1 = ou_signal u"
    using ev b by (auto simp: evolve_noise_def chain_Inr ou_ok_def dest!: ou_steps_length split: option.splits)
  from perturb_ok [OF inv u1(1) k] obtain j where j: "ou_perturb u1 k = Inr j" "j < d_size (vt s) []"
    by blast
  have "ou_sample time u values g = Inr (j, atExploratory, g1, ou_publish (ou_noise u1) u1)"
    using gr ev j(1) by (simp add: ou_sample_def)
  moreover have "ou_ok s (ou_publish (ou_noise u1) u1)"
    using u1(1) by (auto simp: ou_ok_def ou_publish_def split: option.splits)
  ultimately show ?thesis using j(2) u1(2) by blast
qed

end

text \<open>The noise evolves unless a uniform draw is exactly zero.\<close>

lemma getNormal_finite:
  "fst (rand_get g) \<noteq> 0 \<Longrightarrow> \<exists>x. getNormal mu sigma g = (Fin x, snd (rand_get (snd (rand_get g))))"
  by (auto simp: getNormal_def Let_def split: prod.splits)

section \<open>Properties\<close>

text \<open>PADA on a uniform grid. When the previous action is a grid point and no bound is negative,
  sampling never fails; the new action is a grid point within the bound of the previous one in
  every dimension, it is remembered and published, and a greedy choice has the largest value among
  all grid points within the bound.\<close>

theorem pada_stays_close:
  assumes "ud_wf u" and "pa_disc pa = ud_disc u" and "k < ud_size u"
    and "ud_at u k = Some (pa_prev_action (pada_read_signal pa))"
    and "length (pa_delta pa) = length (ud_values u)" and "\<forall>x \<in> set (pa_delta pa). 0 \<le> x"
    and "length (eg_epsilon (pa_eg pa)) = 1" and "length values = ud_size u"
  shows "\<exists>offset ty g' v. pada_sample time pa values g =
      Inr (offset, ty, g', pada_set_prev v (pada_read_signal pa)) \<and>
    offset < ud_size u \<and> ud_at u offset = Some v \<and>
    (\<forall>i < length (ud_values u).
       \<bar>v ! i - pa_prev_action (pada_read_signal pa) ! i\<bar> \<le> pa_delta pa ! i) \<and>
    (ty = atGreedy \<longrightarrow> (\<forall>j \<in> set (near (ud_at u) (ud_size u)
       (pa_prev_action (pada_read_signal pa)) (pa_delta pa)). values ! j \<le> values ! offset))"
  using ud_search.pada_sample_ok [of u pa k "values" time g] assms by (simp add: ud_disc_def)

definition pada_example :: pada where
  "pada_example = \<lparr>pa_eg = eg_example\<lparr>eg_epsilon := [1 / 10]\<rparr>, pa_disc = ud_disc grid_example,
     pa_delta = [1, 1], pa_prev_action = [0, 0], pa_signal = None\<rparr>"

lemma grid_example_wf: "ud_wf grid_example"
  using ud_configure_wf [OF grid_example_configure] by simp

theorem pada_stays_close_witness:
  "\<exists>offset ty g' v. pada_sample 0 pada_example [5, 4, 3, 2, 1, 0] (Rand_new 3) =
      Inr (offset, ty, g', pada_set_prev v pada_example) \<and> \<bar>v ! 1\<bar> \<le> 1"
proof -
  have "ud_at grid_example 0 = Some [0, 0]"
    by (simp add: ud_at_def grid_example_def Let_def)
  then show ?thesis
    using pada_stays_close [OF grid_example_wf, of pada_example 0 "[5, 4, 3, 2, 1, 0]" 0 "Rand_new 3"]
    by (auto simp: pada_example_def pada_read_signal_def grid_example_def ud_size_def vec_prod_def
        All_less_Suc2)
qed

text \<open>The initial previous action is the zero vector, which need not be near any grid point. Then
  PADA has no candidate and reads past its empty index list, whatever the values.\<close>

theorem pada_initial_stuck:
  assumes "ud_wf u" and "pada_configure eg (ud_disc u) delta None = Inr pa"
    and "length delta = length (ud_values u)" and "length (eg_epsilon eg) = 1"
    and "near (ud_at u) (ud_size u) (replicate (length delta) 0) delta = []"
    and "length values = ud_size u"
  shows "pada_sample time pa values g = Inl Undefined"
proof -
  have pa: "pa_disc pa = ud_disc u" "pa_delta pa = delta" "pa_eg pa = eg" "pa_signal pa = None"
    "pa_prev_action pa = replicate (length delta) 0"
    using assms(2) by (auto simp: pada_configure_def Let_def split: if_splits)
  have "pada_filter (ud_disc u) delta (replicate (length delta) 0) values = Inr ([], [])"
    using ud_search.filter_eq [OF assms(1), of "replicate (length delta) 0" delta "values"] assms(3,5,6)
    by (simp add: ud_disc_def Let_def)
  moreover obtain e where "eg_epsilon eg = [e]" using assms(4) by (cases "eg_epsilon eg") auto
  then have "chain (eg_sample eg [] g) (\<lambda>(fo, ty, g). nth_of [] fo) = Inl (Undefined) \<or>
      eg_sample eg [] g = Inl Undefined"
    by (cases "fst (rand_get g) < eg_decay eg * e")
      (auto simp: eg_sample_def Let_def getInteger_def greedy_nil nth_of_def split: prod.splits)
  ultimately show ?thesis
    by (auto simp: pada_sample_def pada_read_signal_def pa Let_def nth_of_def chain_Inl split: prod.splits)
qed

definition far_grid :: uniform_disc where
  "far_grid = \<lparr>ud_min = [3], ud_max = [4], ud_steps = [2], ud_values = [[3, 4]]\<rparr>"

lemma far_grid_wf: "ud_wf far_grid"
  by (simp add: ud_wf_def far_grid_def)

theorem pada_initial_stuck_witness:
  "\<exists>pa. pada_configure (eg_example\<lparr>eg_epsilon := [1 / 10]\<rparr>) (ud_disc far_grid) [1] None = Inr pa \<and>
    pada_sample 0 pa [5, 6] (Rand_new 3) = Inl Undefined"
proof -
  obtain pa where pa: "pada_configure (eg_example\<lparr>eg_epsilon := [1 / 10]\<rparr>) (ud_disc far_grid) [1] None =
      Inr pa" by (simp add: pada_configure_def Let_def)
  have "near (ud_at far_grid) (ud_size far_grid) (replicate (length [1]) 0) [1] = []"
    by (simp add: near_def ud_at_def far_grid_def ud_size_def vec_prod_def Let_def upt_rec)
  from pada_initial_stuck [OF far_grid_wf pa _ _ this, of "[5, 6]" 0 "Rand_new 3"] pa show ?thesis
    by (simp add: far_grid_def ud_size_def vec_prod_def)
qed

text \<open>the Ornstein-Uhlenbeck sampler on a uniform grid. Configuration gives all vectors the
  dimension of the grid; whenever the noise stays finite, sampling returns the offset of a grid
  point, keeps the dimensions, and publishes the noise it used to a connected signal.\<close>

theorem ou_stays_on_grid:
  assumes "ud_wf u" and "ou_configure (ud_disc u) theta sigma center signal = Inr s"
    and "length values = ud_size u" and "greedy_sample values g = Inr (k, ty, g0)"
    and "evolve_noise (ou_begin time s) g0 = Inr (s1, g1)"
  shows "\<exists>off. ou_sample time s values g = Inr (off, atExploratory, g1, ou_publish (ou_noise s1) s1) \<and>
    off < ud_size u \<and> length (ou_noise s1) = length center \<and>
    (signal \<noteq> None \<longrightarrow> ou_signal (ou_publish (ou_noise s1) s1) = Some (ou_noise s1))"
proof -
  have pos: "0 < ud_size u" by (rule ud_size_pos [OF assms(1)])
  have s: "ou_disc s = ud_disc u" "ou_noise s = center" "ou_theta s = theta" "ou_sigma s = sigma"
    "ou_center s = center" "length (ou_scale s) = length center" "length theta = length center"
    "length sigma = length center" "ou_signal s = map_option (\<lambda>_. center) signal"
    and at: "\<exists>v. ud_at u 0 = Some v \<and> length v = length center"
    using assms(2) by (auto simp: ou_configure_def chain_Inr same_size_def ud_disc_def vsub_def
        split: if_splits option.splits elim!: of_option.elims)
  have dim: "length center = length (ud_values u)"
    using at ud_at_eq [OF assms(1), of 0] by (auto simp: ud_ns_def)
  have ok: "ud_search.ou_ok u s"
    unfolding ud_search.ou_ok_def using s dim by (auto split: option.splits)
  have "length values = d_size (ud_disc u) []" "0 < d_size (ud_disc u) []"
    using assms(3) pos by (simp_all add: ud_disc_def)
  from ud_search.ou_sample_ok [OF assms(1) ok this assms(4,5)] obtain off where
    off: "ou_sample time s values g = Inr (off, atExploratory, g1, ou_publish (ou_noise s1) s1)"
    "off < ud_size u" "ud_search.ou_ok u (ou_publish (ou_noise s1) s1)" "ou_signal s1 = ou_signal s"
    by (auto simp: ud_disc_def)
  have "length (ou_noise s1) = length center"
    using off(3) dim unfolding ud_search.ou_ok_def by (simp add: ou_publish_def)
  then show ?thesis using off s(9) by (auto simp: ou_publish_def)
qed

definition rand_example :: rand where
  "rand_example = \<lparr>rand_data = 1, libc_data = 0\<rparr>"

theorem ou_stays_on_grid_witness:
  "\<exists>s off g1 s1. ou_configure (ud_disc far_grid) [1] [1] [3] (Some []) = Inr s \<and>
    ou_sample 0 s [5, 6] rand_example = Inr (off, atExploratory, g1, s1) \<and> off < 2"
proof -
  have "\<exists>s. ou_configure (ud_disc far_grid) [1] [1] [3] (Some []) = Inr s \<and>
      ou_noise s = [3] \<and> ou_theta s = [1] \<and> ou_center s = [3] \<and> ou_sigma s = [1]"
    by (simp add: ou_configure_def ud_disc_def far_grid_def ud_size_def ud_at_def vec_prod_def
        same_size_def sz_pred_def Let_def)
  then obtain s where s: "ou_configure (ud_disc far_grid) [1] [1] [3] (Some []) = Inr s"
    "ou_theta s = [1]" "ou_center s = [3]" "ou_sigma s = [1]" by blast
  have sz: "length [5 :: real, 6] = ud_size far_grid" "ud_size far_grid = 2"
    by (simp_all add: ud_size_def far_grid_def vec_prod_def)
  have gr: "greedy_sample [5, 6] rand_example = Inr (1, atGreedy, rand_example)"
    by (simp add: greedy_sample_def)
  have "fst (rand_get rand_example) \<noteq> 0"
    by (simp add: rand_get_def rand_example_def next48_def drand48_def)
  from getNormal_finite [OF this] obtain x g1 where "getNormal 0 1 rand_example = (Fin x, g1)" by blast
  moreover have "ou_noise (ou_begin 0 s) = [3]" "ou_theta (ou_begin 0 s) = [1]"
    "ou_center (ou_begin 0 s) = [3]" "ou_sigma (ou_begin 0 s) = [1]"
    using s by (simp_all add: ou_begin_def Let_def split: option.splits)
  ultimately obtain s1 where "evolve_noise (ou_begin 0 s) rand_example = Inr (s1, g1)"
    by (simp add: evolve_noise_def)
  from ou_stays_on_grid [OF far_grid_wf s(1) sz(1) gr this] s(1) sz(2) show ?thesis by auto
qed

end
