(* ===== verification/Representations.thy ===== *)
theory Representations
  imports Traces Utils
begin

text \<open>
  Representations (\<open>base/include/grl/representation.h\<close>): approximations of a function that can be
  read at a projection, written with a learning rate, and updated along an eligibility trace; and
  the linear representation (\<open>base/src/representations/linear.cpp\<close>) with its target network.

  The virtual methods are the fields of \<open>rep_ops\<close>. Reading or writing outside the parameter
  vector, and a mean over no feature, are \<open>RepUndefined\<close>; the exceptions are \<open>RepBadParam\<close> and
  \<open>RepException\<close>. The overflow of the write counter after \<open>2 ^ 31\<close> writes is not modelled.
\<close>

datatype rep_error = RepBadParam | RepException | RepUndefined | RepDeadlock

section \<open>The base class\<close>

record 'r rep_ops =
  rp_read :: "'r \<Rightarrow> projection \<Rightarrow> rep_error + dvec"
  rp_read_target :: "'r \<Rightarrow> projection \<Rightarrow> rep_error + dvec"   \<comment> \<open>\<open>target()->read\<close>\<close>
  rp_write :: "'r \<Rightarrow> projection \<Rightarrow> dvec \<Rightarrow> dvec \<Rightarrow> rep_error + 'r"
  rp_update :: "'r \<Rightarrow> projection \<Rightarrow> dvec \<Rightarrow> rep_error + 'r"
  rp_finalize :: "'r \<Rightarrow> 'r"

text \<open>\<open>read\<close> returns the first output.\<close>

definition rep_read1 :: "'r rep_ops \<Rightarrow> 'r \<Rightarrow> projection \<Rightarrow> rep_error + real" where
  "rep_read1 ops r p =
     chain (rp_read ops r p) (\<lambda>v. case v of [] \<Rightarrow> Inl RepUndefined | x # _ \<Rightarrow> Inr x)"

definition rep_read_target1 :: "'r rep_ops \<Rightarrow> 'r \<Rightarrow> projection \<Rightarrow> rep_error + real" where
  "rep_read_target1 ops r p =
     chain (rp_read_target ops r p) (\<lambda>v. case v of [] \<Rightarrow> Inl RepUndefined | x # _ \<Rightarrow> Inr x)"

definition rep_write1 :: "'r rep_ops \<Rightarrow> 'r \<Rightarrow> projection \<Rightarrow> dvec \<Rightarrow> real \<Rightarrow> rep_error + 'r" where
  "rep_write1 ops r p target alpha = rp_write ops r p target (ConstantVector (length target) alpha)"

text \<open>The \<open>update\<close> a representation inherits when it does not define its own.\<close>

definition default_update ::
    "('r \<Rightarrow> projection \<Rightarrow> rep_error + dvec) \<Rightarrow> ('r \<Rightarrow> projection \<Rightarrow> dvec \<Rightarrow> dvec \<Rightarrow> rep_error + 'r) \<Rightarrow>
     'r \<Rightarrow> projection \<Rightarrow> dvec \<Rightarrow> rep_error + 'r" where
  "default_update rd wr r p delta =
     chain (rd r p) (\<lambda>v. if length v = length delta
       then wr r p (vadd v delta) (ConstantVector (length v) 1) else Inl RepUndefined)"

text \<open>The loop over a trace stops at the first weight of at most 0.001.\<close>

definition trace_cutoff :: real where
  "trace_cutoff = 0.001"

fun update_items :: "'r rep_ops \<Rightarrow> (projection \<times> real) list \<Rightarrow> dvec \<Rightarrow> real \<Rightarrow> 'r \<Rightarrow> rep_error + 'r" where
  "update_items ops [] delta e r = Inr r"
| "update_items ops ((p, w) # items) delta e r =
     (if w > trace_cutoff
      then chain (rp_update ops r p (map (\<lambda>d. w * d * e) delta)) (update_items ops items delta e)
      else Inr r)"

definition rep_update_trace ::
    "'r rep_ops \<Rightarrow> projection trace \<Rightarrow> dvec \<Rightarrow> real \<Rightarrow> 'r \<Rightarrow> rep_error + 'r" where
  "rep_update_trace ops tr delta e r = update_items ops (trace_items tr) delta e r"

section \<open>The linear representation\<close>

record linear_rep =
  lr_memory :: nat
  lr_outputs :: nat
  lr_limit :: int
  lr_output_min :: dvec
  lr_output_max :: dvec
  lr_init_min :: dvec
  lr_init_max :: dvec
  lr_params :: dvec
  lr_interval :: int
  lr_tau :: real
  lr_count :: int
  lr_target :: dvec       \<comment> \<open>the parameters of \<open>target_\<close>, a second instance, if \<open>interval_\<close> is not 0\<close>

definition lr_in_range :: "linear_rep \<Rightarrow> dvec \<Rightarrow> nat \<Rightarrow> bool" where
  "lr_in_range lr params i \<longleftrightarrow> (i + 1) * lr_outputs lr \<le> length params"

definition lr_clip :: "linear_rep \<Rightarrow> nat \<Rightarrow> real \<Rightarrow> real" where
  "lr_clip lr jj x = min (max x (lr_output_min lr ! jj)) (lr_output_max lr ! jj)"

text \<open>The sum over the features, for output \<open>jj\<close>.\<close>

definition lr_sum :: "linear_rep \<Rightarrow> dvec \<Rightarrow> (nat \<times> real) list \<Rightarrow> nat \<Rightarrow> real" where
  "lr_sum lr params iws jj =
     foldl (\<lambda>s (i, w). s + params ! (i * lr_outputs lr + jj) * w) 0 iws"

text \<open>The features a projection activates, with their weights, and what the sum is divided by.\<close>

fun lr_features :: "linear_rep \<Rightarrow> projection \<Rightarrow> rep_error + (nat \<times> real) list \<times> real" where
  "lr_features lr (IndexProjection ip) =
     (if ip_weights ip = []
      then if ip_indices ip = [] then Inl RepUndefined
           else Inr (map (\<lambda>i. (i, 1)) (ip_indices ip), real (length (ip_indices ip)))
      else if length (ip_weights ip) < length (ip_indices ip) then Inl RepUndefined
      else Inr (zip (ip_indices ip) (ip_weights ip), 1))"
| "lr_features lr (VectorProjection v) =
     (if length v \<noteq> lr_memory lr then Inl RepBadParam else Inr (enumerate 0 v, 1))"

definition lr_read_params :: "linear_rep \<Rightarrow> dvec \<Rightarrow> projection \<Rightarrow> rep_error + dvec" where
  "lr_read_params lr params p =
     chain (lr_features lr p) (\<lambda>(iws, n).
       if \<forall>(i, w) \<in> set iws. lr_in_range lr params i
       then Inr (map (\<lambda>jj. lr_clip lr jj (lr_sum lr params iws jj / n)) [0..<lr_outputs lr])
       else Inl RepUndefined)"

definition lr_read :: "linear_rep \<Rightarrow> projection \<Rightarrow> rep_error + dvec" where
  "lr_read lr p = lr_read_params lr (lr_params lr) p"

definition lr_read_target :: "linear_rep \<Rightarrow> projection \<Rightarrow> rep_error + dvec" where
  "lr_read_target lr p =
     lr_read_params lr (if lr_interval lr = 0 then lr_params lr else lr_target lr) p"

section \<open>The target network\<close>

definition synchronize :: "linear_rep \<Rightarrow> linear_rep" where
  "synchronize lr =
     (if lr_interval lr = 0 then lr
      else lr\<lparr>lr_target := (if lr_tau lr \<noteq> 0
                then vadd (vscale (lr_tau lr) (lr_params lr)) (vscale (1 - lr_tau lr) (lr_target lr))
                else lr_params lr),
              lr_count := 0\<rparr>)"

definition checkSynchronize :: "linear_rep \<Rightarrow> linear_rep" where
  "checkSynchronize lr =
     (let lr = lr\<lparr>lr_count := lr_count lr + 1\<rparr>
      in if lr_interval lr \<noteq> 0 \<and> lr_interval lr \<le> lr_count lr then synchronize lr else lr)"

section \<open>Writing\<close>

definition lr_store :: "linear_rep \<Rightarrow> nat \<Rightarrow> real \<Rightarrow> real" where
  "lr_store lr jj x = (if lr_limit lr \<noteq> 0 then lr_clip lr jj x else x)"

text \<open>The inner loop: one feature \<open>i\<close>, every output \<open>jj\<close>, with the step \<open>step jj\<close>.\<close>

definition lr_add_row :: "linear_rep \<Rightarrow> nat \<Rightarrow> (nat \<Rightarrow> real) \<Rightarrow> dvec \<Rightarrow> dvec" where
  "lr_add_row lr i step params =
     foldl (\<lambda>ps jj. ps[i * lr_outputs lr + jj :=
              lr_store lr jj (ps ! (i * lr_outputs lr + jj) + step jj)]) params [0..<lr_outputs lr]"

text \<open>The outer loop; cleared indices of an index projection are skipped.\<close>

fun lr_add_rows :: "linear_rep \<Rightarrow> (nat \<times> (nat \<Rightarrow> real)) list \<Rightarrow> dvec \<Rightarrow> rep_error + dvec" where
  "lr_add_rows lr [] params = Inr params"
| "lr_add_rows lr ((i, step) # rows) params =
     (if lr_in_range lr params i then lr_add_rows lr rows (lr_add_row lr i step params)
      else Inl RepUndefined)"

definition norm2_of :: "dvec \<Rightarrow> real" where
  "norm2_of ws = (let n = foldl (\<lambda>s w. s + w * w) 0 ws in if n < 0.001 then 0.001 else n)"

fun lr_rows :: "linear_rep \<Rightarrow> projection \<Rightarrow> dvec \<Rightarrow> rep_error + (nat \<times> (nat \<Rightarrow> real)) list" where
  "lr_rows lr (IndexProjection ip) delta =
     (if ip_weights ip = []
      then Inr (map (\<lambda>i. (i, \<lambda>jj. delta ! jj)) (filter (\<lambda>i. i \<noteq> invalid_index) (ip_indices ip)))
      else if length (ip_weights ip) < length (ip_indices ip) then Inl RepUndefined
      else Inr (map (\<lambda>(i, w). (i, \<lambda>jj. w * delta ! jj / norm2_of (ip_weights ip)))
                 (filter (\<lambda>(i, w). i \<noteq> invalid_index) (zip (ip_indices ip) (ip_weights ip)))))"
| "lr_rows lr (VectorProjection v) delta =
     (if length v \<noteq> lr_memory lr then Inl RepBadParam
      else Inr (map (\<lambda>(i, w). (i, \<lambda>jj. w * delta ! jj / norm2_of v)) (enumerate 0 v)))"

definition lr_update :: "linear_rep \<Rightarrow> projection \<Rightarrow> dvec \<Rightarrow> rep_error + linear_rep" where
  "lr_update lr p delta =
     chain (lr_rows lr p delta) (\<lambda>rows.
       if length delta < lr_outputs lr then Inl RepUndefined
       else chain (lr_add_rows lr rows (lr_params lr)) (\<lambda>params.
         Inr (checkSynchronize (lr\<lparr>lr_params := params\<rparr>))))"

definition lr_write :: "linear_rep \<Rightarrow> projection \<Rightarrow> dvec \<Rightarrow> dvec \<Rightarrow> rep_error + linear_rep" where
  "lr_write lr p target alpha =
     (if length target \<noteq> length alpha then Inl RepException
      else chain (lr_read lr p) (\<lambda>v.
        if length v \<noteq> length target then Inl RepUndefined
        else lr_update lr p (vmul alpha (vsub target v))))"

definition lr_ops :: "linear_rep rep_ops" where
  "lr_ops = \<lparr>rp_read = lr_read, rp_read_target = lr_read_target, rp_write = lr_write,
             rp_update = lr_update, rp_finalize = (\<lambda>lr. lr)\<rparr>"

section \<open>Configuration\<close>

text \<open>The loop of the reset, over the outputs \<open>jj\<close> of every row.\<close>

fun lr_draws :: "dvec \<Rightarrow> dvec \<Rightarrow> nat list \<Rightarrow> rand \<Rightarrow> dvec \<times> rand" where
  "lr_draws mi ma [] g = ([], g)"
| "lr_draws mi ma (jj # jjs) g =
     (let (x, g1) = getUniform (mi ! jj) (ma ! jj) g; (xs, g2) = lr_draws mi ma jjs g1
      in (x # xs, g2))"

definition lr_fresh :: "linear_rep \<Rightarrow> rand \<Rightarrow> dvec \<times> rand" where
  "lr_fresh lr g =
     lr_draws (lr_init_min lr) (lr_init_max lr)
       (concat (replicate (lr_memory lr) [0..<lr_outputs lr])) g"

definition lr_reset :: "linear_rep \<Rightarrow> rand \<Rightarrow> linear_rep \<times> rand" where
  "lr_reset lr g =
     (let (params, g) = lr_fresh lr g in (synchronize (lr\<lparr>lr_params := params\<rparr>), g))"

definition widen :: "nat \<Rightarrow> dvec \<Rightarrow> dvec" where
  "widen outputs v = (if v \<noteq> [] \<and> length v < outputs then ConstantVector outputs (hd v) else v)"

definition default_limit :: "nat \<Rightarrow> real \<Rightarrow> dvec \<Rightarrow> dvec" where
  "default_limit outputs d v = (if v = [] then ConstantVector outputs d else v)"

text \<open>The largest double; it stands for no limit.\<close>

definition dbl_max :: real where
  "dbl_max = (2 - 1 / 2 ^ 52) * 2 ^ 1023"

text \<open>
  The target is instantiated first, from the same configuration without an interval, and draws
  its own parameters.
\<close>

definition lr_configure ::
    "int \<Rightarrow> real \<Rightarrow> nat \<Rightarrow> nat \<Rightarrow> int \<Rightarrow> dvec \<Rightarrow> dvec \<Rightarrow> dvec \<Rightarrow> dvec \<Rightarrow> rand \<Rightarrow>
     rep_error + linear_rep \<times> rand" where
  "lr_configure interval tau memory outputs limit init_min init_max output_min output_max g =
     (let init_min = widen outputs init_min;
          init_max = widen outputs init_max;
          output_min = default_limit outputs (- dbl_max) output_min;
          output_max = default_limit outputs dbl_max output_max;
          lr = \<lparr>lr_memory = memory, lr_outputs = outputs, lr_limit = limit,
                lr_output_min = output_min, lr_output_max = output_max,
                lr_init_min = init_min, lr_init_max = init_max, lr_params = [],
                lr_interval = interval, lr_tau = tau, lr_count = 0, lr_target = []\<rparr>
      in if length init_min \<noteq> outputs \<or> length init_max \<noteq> outputs \<or>
            length output_min \<noteq> outputs \<or> length output_max \<noteq> outputs
         then Inl RepBadParam
         else let (target, g) = (if interval \<noteq> 0 then lr_fresh lr g else ([], g))
              in Inr (lr_reset (lr\<lparr>lr_target := target\<rparr>) g))"

definition lr_copy :: "linear_rep \<Rightarrow> linear_rep \<Rightarrow> linear_rep" where
  "lr_copy lr obj = lr\<lparr>lr_params := lr_params obj\<rparr>"

definition lr_setParams :: "dvec \<Rightarrow> linear_rep \<Rightarrow> linear_rep" where
  "lr_setParams params lr = lr\<lparr>lr_params := params\<rparr>"

text \<open>
  Loading parameters: a file whose length does not match the representation is ignored.
\<close>

definition lr_load :: "dvec \<Rightarrow> linear_rep \<Rightarrow> linear_rep" where
  "lr_load file lr =
     (if length file \<noteq> length (lr_params lr) then lr
      else synchronize (lr_setParams file lr))"

end
