(* ===== verification/Policies.thy ===== *)
theory Policies
  imports Representations Samplers Discretizers
begin

text \<open>
  Projectors as the interface that predictors and policies use (\<open>base/include/grl/projector.h\<close>)
  and the policies that rank the actions of a discretizer: \<open>QPolicy\<close> (\<open>policies/q.{h,cpp}\<close>) by
  their action values, \<open>VPolicy\<close> (\<open>policies/v.{h,cpp}\<close>) by the value of the state that a model
  predicts.

  Projectors and discretizers are \<open>const\<close> objects here: functions of their input. Errors of
  samplers, and discretizers that are read past their end, become the errors of a representation.
\<close>

section \<open>Projectors\<close>

record projector =
  pj_project :: "dvec \<Rightarrow> projection"
  pj_pair :: "dvec \<Rightarrow> dvec \<Rightarrow> projection"
  pj_variants :: "dvec \<Rightarrow> dvec list \<Rightarrow> projection list"

text \<open>The methods a projector inherits when it only defines the projection of one input.\<close>

definition base_projector :: "(dvec \<Rightarrow> projection) \<Rightarrow> projector" where
  "base_projector f =
     \<lparr>pj_project = f,
      pj_pair = (\<lambda>base variant. f (Vectors.extend base variant)),
      pj_variants = (\<lambda>base variants. map (\<lambda>v. f (Vectors.extend base v)) variants)\<rparr>"

definition identity_project :: "dvec \<Rightarrow> projection" where
  "identity_project v = VectorProjection v"

section \<open>Samplers\<close>

record sampler_ops =
  sm_sample :: "dvec \<Rightarrow> rand \<Rightarrow> choice"
  sm_distribution :: "dvec \<Rightarrow> rand \<Rightarrow> sampler_error + dvec \<times> rand"

definition greedy_ops :: sampler_ops where
  "greedy_ops = \<lparr>sm_sample = greedy_sample, sm_distribution = greedy_distribution\<rparr>"

definition eg_ops :: "epsilon_greedy \<Rightarrow> sampler_ops" where
  "eg_ops eg = \<lparr>sm_sample = eg_sample eg, sm_distribution = eg_distribution_of eg\<rparr>"

fun lift_sampler :: "sampler_error + 'a \<Rightarrow> rep_error + 'a" where
  "lift_sampler (Inl BadParam) = Inl RepBadParam"
| "lift_sampler (Inl Undefined) = Inl RepUndefined"
| "lift_sampler (Inr x) = Inr x"

fun of_option :: "'a option \<Rightarrow> rep_error + 'a" where
  "of_option None = Inl RepUndefined"
| "of_option (Some x) = Inr x"

lemma lift_sampler_Inr [simp]: "lift_sampler m = Inr x \<longleftrightarrow> m = Inr x"
  by (cases m rule: lift_sampler.cases) auto

lemma of_option_Inr [simp]: "of_option m = Inr x \<longleftrightarrow> m = Some x"
  by (cases m) auto

text \<open>Reading a list of projections in order.\<close>

fun read_all :: "('r \<Rightarrow> projection \<Rightarrow> rep_error + real) \<Rightarrow> 'r \<Rightarrow> projection list \<Rightarrow> rep_error + dvec" where
  "read_all rd r [] = Inr []"
| "read_all rd r (p # ps) = chain (rd r p) (\<lambda>v. chain (read_all rd r ps) (\<lambda>vs. Inr (v # vs)))"

lemma read_all_Inr:
  "read_all rd r ps = Inr vs \<longleftrightarrow>
   length vs = length ps \<and> (\<forall>i < length ps. rd r (ps ! i) = Inr (vs ! i))"
proof (induction ps arbitrary: vs)
  case (Cons p ps)
  show ?case
    by (cases vs) (auto simp: chain_Inr Cons.IH All_less_Suc2)
qed auto

section \<open>Policies on action values\<close>

record q_policy =
  qp_discretizer :: disc
  qp_projector :: projector
  qp_sampler :: sampler_ops

definition qp_values :: "'r rep_ops \<Rightarrow> q_policy \<Rightarrow> 'r \<Rightarrow> dvec \<Rightarrow> rep_error + dvec" where
  "qp_values ops q r s =
     chain (of_option (disc_options (qp_discretizer q) s)) (\<lambda>variants.
       read_all (rep_read1 ops) r (pj_variants (qp_projector q) s variants))"

definition qp_act ::
    "'r rep_ops \<Rightarrow> q_policy \<Rightarrow> 'r \<Rightarrow> dvec \<Rightarrow> rand \<Rightarrow> rep_error + action \<times> rand" where
  "qp_act ops q r s g =
     chain (qp_values ops q r s) (\<lambda>qvalues.
     chain (lift_sampler (sm_sample (qp_sampler q) qvalues g)) (\<lambda>(ii, ty, g).
     chain (of_option (d_at (qp_discretizer q) s ii)) (\<lambda>a. Inr (Action a ty, g))))"

definition qp_distribution ::
    "'r rep_ops \<Rightarrow> q_policy \<Rightarrow> 'r \<Rightarrow> dvec \<Rightarrow> rand \<Rightarrow> rep_error + dvec \<times> rand" where
  "qp_distribution ops q r s g =
     chain (qp_values ops q r s) (\<lambda>qvalues. lift_sampler (sm_distribution (qp_sampler q) qvalues g))"

text \<open>The sum runs over the distribution, whose length is that of the values.\<close>

definition qp_value ::
    "'r rep_ops \<Rightarrow> q_policy \<Rightarrow> 'r \<Rightarrow> dvec \<Rightarrow> rand \<Rightarrow> rep_error + real \<times> rand" where
  "qp_value ops q r s g =
     chain (qp_values ops q r s) (\<lambda>qvalues.
     chain (lift_sampler (sm_distribution (qp_sampler q) qvalues g)) (\<lambda>(distr, g).
       if length distr \<le> length qvalues then Inr (dot qvalues distr, g) else Inl RepUndefined))"

section \<open>Policies on state values\<close>

text \<open>
  \<open>pow\<close> of the C library on a nonnegative base.
\<close>

definition c_pow :: "real \<Rightarrow> real \<Rightarrow> real" where
  "c_pow x y = (if y = 0 then 1 else x powr y)"

text \<open>
  The prediction of the model for an action: the step's duration, the next observation, the
  reward and whether the next state is terminal (2: absorbing).
\<close>

record prediction =
  pr_tau :: real
  pr_next :: dvec
  pr_reward :: real
  pr_terminal :: int

record v_policy =
  vp_gamma :: real
  vp_discretizer :: disc
  vp_model :: "dvec \<Rightarrow> dvec \<Rightarrow> prediction"
  vp_projector :: projector
  vp_sampler :: sampler_ops

definition vp_value :: "'r rep_ops \<Rightarrow> v_policy \<Rightarrow> 'r \<Rightarrow> dvec \<Rightarrow> rep_error + real" where
  "vp_value ops q r s =
     chain (rp_read ops r (pj_project (vp_projector q) s))
       (\<lambda>v. Inr (case v of [] \<Rightarrow> 0 | x # _ \<Rightarrow> x))"

text \<open>
  The value of one action, as the code computes it (\<open>reward += reward + ...\<close>). Without a next
  observation the entry of the output vector is not written.
\<close>

definition vp_action_value :: "'r rep_ops \<Rightarrow> v_policy \<Rightarrow> 'r \<Rightarrow> dvec \<Rightarrow> dvec \<Rightarrow> rep_error + real" where
  "vp_action_value ops q r s a =
     (let m = vp_model q s a
      in if pr_next m = [] then Inl RepUndefined
         else if pr_terminal m = 2 then Inr (pr_reward m)
         else chain (rep_read1 ops r (pj_project (vp_projector q) (pr_next m))) (\<lambda>v.
           Inr (pr_reward m + (pr_reward m + c_pow (vp_gamma q) (pr_tau m) * v))))"

fun vp_action_values ::
    "'r rep_ops \<Rightarrow> v_policy \<Rightarrow> 'r \<Rightarrow> dvec \<Rightarrow> dvec list \<Rightarrow> rep_error + dvec" where
  "vp_action_values ops q r s [] = Inr []"
| "vp_action_values ops q r s (a # as) =
     chain (vp_action_value ops q r s a) (\<lambda>v.
       chain (vp_action_values ops q r s as) (\<lambda>vs. Inr (v # vs)))"

definition vp_values :: "'r rep_ops \<Rightarrow> v_policy \<Rightarrow> 'r \<Rightarrow> dvec \<Rightarrow> rep_error + dvec" where
  "vp_values ops q r s =
     chain (of_option (disc_options (vp_discretizer q) s)) (vp_action_values ops q r s)"

definition vp_act ::
    "'r rep_ops \<Rightarrow> v_policy \<Rightarrow> 'r \<Rightarrow> dvec \<Rightarrow> rand \<Rightarrow> rep_error + action \<times> rand" where
  "vp_act ops q r s g =
     chain (vp_values ops q r s) (\<lambda>v.
     chain (lift_sampler (sm_sample (vp_sampler q) v g)) (\<lambda>(ii, ty, g).
     chain (of_option (d_at (vp_discretizer q) s ii)) (\<lambda>a. Inr (Action a ty, g))))"

definition vp_distribution ::
    "'r rep_ops \<Rightarrow> v_policy \<Rightarrow> 'r \<Rightarrow> dvec \<Rightarrow> rand \<Rightarrow> rep_error + dvec \<times> rand" where
  "vp_distribution ops q r s g =
     chain (vp_values ops q r s) (\<lambda>v. lift_sampler (sm_distribution (vp_sampler q) v g))"

end
