(* ===== verification/Predictors.thy ===== *)
theory Predictors
  imports Policies Transitions
begin

text \<open>
  The temporal difference predictors (\<open>base/src/predictors/\<close>): \<open>SARSA\<close>, expected \<open>SARSA\<close>,
  \<open>TD\<close>, \<open>Q\<close>, advantage, \<open>QV\<close>, \<open>AV\<close>, and the actor-critic predictors, with the batch
  interface of representations on which their batch updates run.

  A predictor without importer and exporter is modelled: \<open>Predictor::update\<close> then does nothing.
  Subtracting an incompatible projection from a trace is \<open>RepUndefined\<close>.
\<close>

section \<open>State\<close>

datatype trace_kind = ReplacingTrace | AccumulatingTrace

definition trace_add :: "trace_kind \<Rightarrow> projection \<Rightarrow> real \<Rightarrow> projection trace \<Rightarrow> projection trace option" where
  "trace_add k p d t =
     (case k of ReplacingTrace \<Rightarrow> replacing_add ssub p d t | AccumulatingTrace \<Rightarrow> accumulating_add p d t)"

text \<open>The trace is optional.\<close>

record 'r critic =
  cr_rep :: 'r
  cr_trace :: "(trace_kind \<times> projection trace) option"

record td_params =
  td_alpha :: real
  td_gamma :: real
  td_lambda :: real

definition critic_finalize :: "'r critic \<Rightarrow> 'r critic" where
  "critic_finalize c = c\<lparr>cr_trace := map_option (\<lambda>(k, t). (k, trace_clear t)) (cr_trace c)\<rparr>"

definition critic_reconfigure :: "bool \<Rightarrow> 'r critic \<Rightarrow> 'r critic" where
  "critic_reconfigure reset c = (if reset then critic_finalize c else c)"

text \<open>\<open>if (trace_) { representation_->update(*trace_, ...); trace_->add(p, ...); }\<close>\<close>

definition trace_step ::
    "'r rep_ops \<Rightarrow> projection \<Rightarrow> real \<Rightarrow> real \<Rightarrow> 'r critic \<Rightarrow> rep_error + 'r critic" where
  "trace_step ops p d decay c =
     (case cr_trace c of
        None \<Rightarrow> Inr c
      | Some (k, t) \<Rightarrow>
          chain (rep_update_trace ops t [d] decay (cr_rep c)) (\<lambda>r.
            case trace_add k p decay t of
              None \<Rightarrow> Inl RepUndefined
            | Some t' \<Rightarrow> Inr (c\<lparr>cr_rep := r, cr_trace := Some (k, t')\<rparr>)))"

text \<open>The write, the trace, and \<open>finalize\<close> of the representation.\<close>

definition learn_step ::
    "'r rep_ops \<Rightarrow> real \<Rightarrow> real \<Rightarrow> projection \<Rightarrow> real \<Rightarrow> real \<Rightarrow> 'r critic \<Rightarrow> rep_error + 'r critic" where
  "learn_step ops alpha decay p target delta c =
     chain (rep_write1 ops (cr_rep c) p [target] alpha) (\<lambda>r.
     chain (trace_step ops p (alpha * delta) decay (c\<lparr>cr_rep := r\<rparr>)) (\<lambda>c.
       Inr (c\<lparr>cr_rep := rp_finalize ops (cr_rep c)\<rparr>)))"

definition td_decay :: "td_params \<Rightarrow> transition \<Rightarrow> real" where
  "td_decay q t = c_pow (td_gamma q * td_lambda q) (t_tau t)"

text \<open>The reward, plus the discounted value \<open>next\<close> if an action follows.\<close>

definition td_target :: "real \<Rightarrow> transition \<Rightarrow> rep_error + real \<Rightarrow> rep_error + real" where
  "td_target gamma t v =
     (if a_v (t_action t) \<noteq> []
      then chain v (\<lambda>v. Inr (t_reward t + c_pow gamma (t_tau t) * v)) else Inr (t_reward t))"

definition prev_pair :: "projector \<Rightarrow> transition \<Rightarrow> projection" where
  "prev_pair pj t = pj_pair pj (o_v (t_prev_obs t)) (a_v (t_prev_action t))"

definition next_pair :: "projector \<Rightarrow> transition \<Rightarrow> projection" where
  "next_pair pj t = pj_pair pj (o_v (t_obs t)) (a_v (t_action t))"

text \<open>The critique of an action: 0 if there is none.\<close>

definition critique_of ::
    "'r rep_ops \<Rightarrow> projector \<Rightarrow> transition \<Rightarrow> action \<Rightarrow> real \<Rightarrow> 'r \<Rightarrow> rep_error + real" where
  "critique_of ops pj t act target r =
     (if a_v act \<noteq> []
      then chain (rep_read1 ops r (pj_pair pj (o_v (t_prev_obs t)) (a_v act))) (\<lambda>v. Inr (target - v))
      else Inr 0)"

section \<open>SARSA\<close>

definition sarsa_criticize ::
    "'r rep_ops \<Rightarrow> projector \<Rightarrow> td_params \<Rightarrow> transition \<Rightarrow> action \<Rightarrow> 'r critic \<Rightarrow>
     rep_error + real \<times> 'r critic" where
  "sarsa_criticize ops pj q t act c =
     (let p = prev_pair pj t
      in chain (td_target (td_gamma q) t (rep_read_target1 ops (cr_rep c) (next_pair pj t))) (\<lambda>target.
         chain (rep_read1 ops (cr_rep c) p) (\<lambda>v.
         chain (learn_step ops (td_alpha q) (td_decay q t) p target (target - v) c) (\<lambda>c.
         chain (critique_of ops pj t act target (cr_rep c)) (\<lambda>critique. Inr (critique, c))))))"

text \<open>Expected SARSA takes the next value from its policy \<open>value\<close>, which reads the representation.\<close>

definition expected_sarsa_criticize ::
    "'r rep_ops \<Rightarrow> projector \<Rightarrow> td_params \<Rightarrow> ('r \<Rightarrow> dvec \<Rightarrow> rand \<Rightarrow> rep_error + real \<times> rand) \<Rightarrow>
     transition \<Rightarrow> action \<Rightarrow> 'r critic \<Rightarrow> rand \<Rightarrow> rep_error + real \<times> 'r critic \<times> rand" where
  "expected_sarsa_criticize ops pj q val t act c g =
     (let p = prev_pair pj t
      in chain (if a_v (t_action t) \<noteq> []
                then chain (val (cr_rep c) (o_v (t_obs t)) g)
                       (\<lambda>(v, g). Inr (t_reward t + c_pow (td_gamma q) (t_tau t) * v, g))
                else Inr (t_reward t, g)) (\<lambda>(target, g).
         chain (rep_read1 ops (cr_rep c) p) (\<lambda>v.
         chain (learn_step ops (td_alpha q) (td_decay q t) p target (target - v) c) (\<lambda>c.
         chain (critique_of ops pj t act target (cr_rep c)) (\<lambda>critique. Inr (critique, c, g))))))"

section \<open>TD\<close>

definition td_criticize ::
    "'r rep_ops \<Rightarrow> projector \<Rightarrow> td_params \<Rightarrow> transition \<Rightarrow> 'r critic \<Rightarrow> rep_error + real \<times> 'r critic" where
  "td_criticize ops pj q t c =
     (let p = pj_project pj (o_v (t_prev_obs t))
      in chain (td_target (td_gamma q) t
                  (rep_read_target1 ops (cr_rep c) (pj_project pj (o_v (t_obs t))))) (\<lambda>target.
         chain (rep_read1 ops (cr_rep c) p) (\<lambda>v.
         chain (learn_step ops (td_alpha q) (td_decay q t) p target (target - v) c) (\<lambda>c.
           Inr (target - v, c)))))"

section \<open>Q and advantage learning\<close>

text \<open>The maximum over the actions of a state. The fold starts from minus infinity, so the maximum over
  no action is not a number of the model.\<close>

definition fold_fmax :: "dvec \<Rightarrow> rep_error + real" where
  "fold_fmax vs = (case vs of [] \<Rightarrow> Inl RepUndefined | v # vs \<Rightarrow> Inr (foldl max v vs))"

definition max_value ::
    "('r \<Rightarrow> projection \<Rightarrow> rep_error + real) \<Rightarrow> disc \<Rightarrow> projector \<Rightarrow> 'r \<Rightarrow> dvec \<Rightarrow> rep_error + real" where
  "max_value rd d pj r s =
     chain (of_option (disc_options d s)) (\<lambda>variants.
     chain (read_all rd r (pj_variants pj s variants)) fold_fmax)"

definition q_criticize ::
    "'r rep_ops \<Rightarrow> disc \<Rightarrow> projector \<Rightarrow> td_params \<Rightarrow> transition \<Rightarrow> action \<Rightarrow> 'r critic \<Rightarrow>
     rep_error + real \<times> 'r critic" where
  "q_criticize ops d pj q t act c =
     (let p = prev_pair pj t
      in chain (td_target (td_gamma q) t
                  (max_value (rep_read_target1 ops) d pj (cr_rep c) (o_v (t_obs t)))) (\<lambda>target.
         chain (rep_read1 ops (cr_rep c) p) (\<lambda>v.
         chain (critique_of ops pj t act target (cr_rep c)) (\<lambda>critique.
         chain (learn_step ops (td_alpha q) (td_decay q t) p target (target - v) c) (\<lambda>c.
           Inr (critique, c))))))"

text \<open>Advantage learning returns its target, whatever the action; \<open>kappa\<close> must not be 0.\<close>

definition advantage_criticize ::
    "'r rep_ops \<Rightarrow> disc \<Rightarrow> projector \<Rightarrow> td_params \<Rightarrow> real \<Rightarrow> transition \<Rightarrow> 'r critic \<Rightarrow>
     rep_error + real \<times> 'r critic" where
  "advantage_criticize ops d pj q kappa t c =
     (let p = prev_pair pj t
      in chain (rep_read1 ops (cr_rep c) p) (\<lambda>a.
         chain (max_value (rep_read1 ops) d pj (cr_rep c) (o_v (t_prev_obs t))) (\<lambda>v.
         if kappa = 0 then Inl RepUndefined else
         let target = v + (t_reward t - v) / kappa
         in chain (if a_v (t_action t) \<noteq> []
                   then chain (max_value (rep_read1 ops) d pj (cr_rep c) (o_v (t_obs t))) (\<lambda>v.
                     Inr (target + c_pow (td_gamma q) (t_tau t) * v / kappa))
                   else Inr target) (\<lambda>target.
            chain (learn_step ops (td_alpha q) (td_decay q t) p target (target - a) c) (\<lambda>c.
              Inr (target, c))))))"

section \<open>QV and AV learning\<close>

text \<open>A representation of action values (or advantages), written without a trace, and a critic of state
  values.\<close>

record ('q, 'v) qv =
  qv_q :: 'q
  qv_v :: "'v critic"

text \<open>\<open>advantage\<close>: the first representation learns the error instead of the target.\<close>

definition qv_criticize ::
    "bool \<Rightarrow> 'q rep_ops \<Rightarrow> 'v rep_ops \<Rightarrow> projector \<Rightarrow> projector \<Rightarrow> td_params \<Rightarrow> real \<Rightarrow> transition \<Rightarrow>
     ('q, 'v) qv \<Rightarrow> rep_error + real \<times> ('q, 'v) qv" where
  "qv_criticize advantage qops vops qpj vpj q beta t c =
     (let qp = prev_pair qpj t;
          vp = pj_project vpj (o_v (t_prev_obs t));
          v = qv_v c
      in chain (rep_read1 vops (cr_rep v) (pj_project vpj (o_v (t_obs t)))) (\<lambda>vnext.
         chain (td_target (td_gamma q) t (Inr vnext)) (\<lambda>target.
         chain (rep_read1 vops (cr_rep v) vp) (\<lambda>w.
         let delta = target - w
         in chain (rep_write1 qops (qv_q c) qp [if advantage then delta else target] (td_alpha q)) (\<lambda>r.
            chain (learn_step vops beta (td_decay q t) vp target delta v) (\<lambda>v.
              Inr (delta, c\<lparr>qv_q := rp_finalize qops r, qv_v := v\<rparr>)))))))"

definition av_criticize ::
    "'q rep_ops \<Rightarrow> 'v rep_ops \<Rightarrow> projector \<Rightarrow> projector \<Rightarrow> td_params \<Rightarrow> real \<Rightarrow> transition \<Rightarrow>
     ('q, 'v) qv \<Rightarrow> rep_error + real \<times> ('q, 'v) qv" where
  "av_criticize = qv_criticize True"

section \<open>Batches\<close>

text \<open>
  The batch interface of a representation: its queue and its mutex, and those of its target, which
  are the same objects unless \<open>b_sep\<close> holds. Locking a locked mutex is \<open>RepDeadlock\<close>;
  unlocking leaves it unlocked whoever holds it.
\<close>

record 'r batch_rep =
  b_rep :: 'r
  b_batch :: "projection list"
  b_locked :: bool
  b_sep :: bool
  b_tbatch :: "projection list"
  b_tlocked :: bool

text \<open>\<open>tg\<close>: the method is called on \<open>target()\<close>.\<close>

definition batchRead :: "bool \<Rightarrow> 'r batch_rep \<Rightarrow> rep_error + 'r batch_rep" where
  "batchRead tg b =
     (if tg \<and> b_sep b
      then if b_tlocked b then Inl RepDeadlock else Inr (b\<lparr>b_tlocked := True, b_tbatch := []\<rparr>)
      else if b_locked b then Inl RepDeadlock else Inr (b\<lparr>b_locked := True, b_batch := []\<rparr>))"

definition enqueue :: "bool \<Rightarrow> projection \<Rightarrow> 'r batch_rep \<Rightarrow> 'r batch_rep" where
  "enqueue tg p b =
     (if tg \<and> b_sep b then b\<lparr>b_tbatch := b_tbatch b @ [p]\<rparr> else b\<lparr>b_batch := b_batch b @ [p]\<rparr>)"

fun enqueue_all :: "bool \<Rightarrow> projection list \<Rightarrow> 'r batch_rep \<Rightarrow> 'r batch_rep" where
  "enqueue_all tg [] b = b"
| "enqueue_all tg (p # ps) b = enqueue_all tg ps (enqueue tg p b)"

definition unlock :: "bool \<Rightarrow> 'r batch_rep \<Rightarrow> 'r batch_rep" where
  "unlock tg b = (if tg \<and> b_sep b then b\<lparr>b_tlocked := False\<rparr> else b\<lparr>b_locked := False\<rparr>)"

fun read_rows ::
    "('r \<Rightarrow> projection \<Rightarrow> rep_error + dvec) \<Rightarrow> 'r \<Rightarrow> projection list \<Rightarrow> rep_error + dvec list" where
  "read_rows rd r [] = Inr []"
| "read_rows rd r (p # ps) = chain (rd r p) (\<lambda>v. chain (read_rows rd r ps) (\<lambda>vs. Inr (v # vs)))"

text \<open>The matrix of the results, one row per queued projection. An empty first result returns early,
  with the mutex locked.\<close>

definition batch_read :: "'r rep_ops \<Rightarrow> bool \<Rightarrow> 'r batch_rep \<Rightarrow> rep_error + dvec list \<times> 'r batch_rep" where
  "batch_read ops tg b =
     (let sep = (tg \<and> b_sep b);
          rd = (if sep then rp_read_target ops else rp_read ops)
      in case (if sep then b_tbatch b else b_batch b) of
           [] \<Rightarrow> Inl RepUndefined
         | p # ps \<Rightarrow>
             chain (rd (b_rep b) p) (\<lambda>v.
               if v = [] then Inr ([], b)
               else chain (read_rows rd (b_rep b) ps) (\<lambda>vs.
                 if \<forall>w \<in> set vs. length w = length v then Inr (v # vs, unlock tg b)
                 else Inl RepUndefined)))"

text \<open>\<open>q(i, 0)\<close>.\<close>

definition cell :: "dvec list \<Rightarrow> nat \<Rightarrow> rep_error + real" where
  "cell m i = (if i < length m \<and> m ! i \<noteq> [] then Inr (hd (m ! i)) else Inl RepUndefined)"

text \<open>\<open>enqueue(projection, target)\<close> writes at once, with a learning rate of 1.\<close>

fun enqueue_writes :: "'r rep_ops \<Rightarrow> (projection \<times> dvec) list \<Rightarrow> 'r \<Rightarrow> rep_error + 'r" where
  "enqueue_writes ops [] r = Inr r"
| "enqueue_writes ops ((p, target) # ws) r =
     chain (rep_write1 ops r p target 1) (enqueue_writes ops ws)"

definition live :: "transition \<Rightarrow> bool" where
  "live t \<longleftrightarrow> \<not> o_absorbing (t_obs t)"

text \<open>The targets of a batch, with the running index \<open>qs\<close> into the matrix.\<close>

fun sarsa_targets :: "real \<Rightarrow> dvec list \<Rightarrow> nat \<Rightarrow> transition list \<Rightarrow> rep_error + dvec" where
  "sarsa_targets gamma m qs [] = Inr []"
| "sarsa_targets gamma m qs (t # ts) =
     (if live t
      then chain (cell m qs) (\<lambda>v. chain (sarsa_targets gamma m (qs + 1) ts) (\<lambda>xs.
             Inr ((t_reward t + c_pow gamma (t_tau t) * v) # xs)))
      else chain (sarsa_targets gamma m qs ts) (\<lambda>xs. Inr (t_reward t # xs)))"

definition batch_write ::
    "'r rep_ops \<Rightarrow> projector \<Rightarrow> transition list \<Rightarrow> dvec \<Rightarrow> 'r batch_rep \<Rightarrow> rep_error + 'r batch_rep" where
  "batch_write ops pj ts targets b =
     chain (enqueue_writes ops (zip (map (prev_pair pj) ts) (map (\<lambda>x. [x]) targets)) (b_rep b))
       (\<lambda>r. Inr (b\<lparr>b_rep := rp_finalize ops r\<rparr>))"

text \<open>The lock is taken on the target, the projections go to the representation itself.\<close>

definition sarsa_update ::
    "'r rep_ops \<Rightarrow> projector \<Rightarrow> td_params \<Rightarrow> transition list \<Rightarrow> 'r batch_rep \<Rightarrow> rep_error + 'r batch_rep" where
  "sarsa_update ops pj q ts b =
     chain (batchRead True b) (\<lambda>b.
     chain (batch_read ops False (enqueue_all False (map (next_pair pj) (filter live ts)) b)) (\<lambda>(m, b).
     chain (sarsa_targets (td_gamma q) m 0 ts) (\<lambda>targets.
       batch_write ops pj ts targets b)))"

text \<open>\<open>vs\<close> rows per transition, of which the maximum is taken.\<close>

fun q_cells :: "dvec list \<Rightarrow> nat \<Rightarrow> nat \<Rightarrow> rep_error + dvec" where
  "q_cells m qs 0 = Inr []"
| "q_cells m qs (Suc n) = chain (cell m qs) (\<lambda>v. chain (q_cells m (qs + 1) n) (\<lambda>vs. Inr (v # vs)))"

text \<open>\<open>double v = q(qs++, 0)\<close> reads one row even if \<open>vs\<close> is 0.\<close>

fun q_targets :: "real \<Rightarrow> dvec list \<Rightarrow> nat \<Rightarrow> nat \<Rightarrow> transition list \<Rightarrow> rep_error + dvec" where
  "q_targets gamma m vs qs [] = Inr []"
| "q_targets gamma m vs qs (t # ts) =
     (if live t
      then chain (chain (q_cells m qs (max 1 vs)) fold_fmax) (\<lambda>v.
           chain (q_targets gamma m vs (qs + max 1 vs) ts) (\<lambda>xs.
             Inr ((t_reward t + c_pow gamma (t_tau t) * v) # xs)))
      else chain (q_targets gamma m vs qs ts) (\<lambda>xs. Inr (t_reward t # xs)))"

text \<open>The projections of the first \<open>vs\<close> actions of every next state.\<close>

fun q_projections :: "disc \<Rightarrow> projector \<Rightarrow> nat \<Rightarrow> transition list \<Rightarrow> rep_error + projection list" where
  "q_projections d pj vs [] = Inr []"
| "q_projections d pj vs (t # ts) =
     chain (of_option (disc_options d (o_v (t_obs t)))) (\<lambda>variants.
       let ps = pj_variants pj (o_v (t_obs t)) variants
       in if length ps < vs then Inl RepUndefined
          else chain (q_projections d pj vs ts) (\<lambda>qs. Inr (take vs ps @ qs)))"

fun critiques :: "dvec list \<Rightarrow> nat \<Rightarrow> dvec \<Rightarrow> rep_error + dvec" where
  "critiques m i [] = Inr []"
| "critiques m i (x # xs) = chain (cell m i) (\<lambda>v. chain (critiques m (i + 1) xs) (\<lambda>ys. Inr ((x - v) # ys)))"

definition q_update ::
    "'r rep_ops \<Rightarrow> disc \<Rightarrow> projector \<Rightarrow> td_params \<Rightarrow> transition list \<Rightarrow> action list \<Rightarrow> 'r batch_rep \<Rightarrow>
     rep_error + dvec \<times> 'r batch_rep" where
  "q_update ops d pj q ts actions b =
     (case ts of
        [] \<Rightarrow> Inl RepUndefined
      | t # _ \<Rightarrow>
          let vs = d_size d (o_v (t_prev_obs t))
          in chain (batchRead True b) (\<lambda>b.
             chain (q_projections d pj vs (filter live ts)) (\<lambda>ps.
             chain (batch_read ops True (enqueue_all True ps b)) (\<lambda>(m, b).
             chain (if actions = [] then Inr ([], b)
                    else if length actions < length ts then Inl RepUndefined
                    else chain (batchRead False b) (\<lambda>b.
                      batch_read ops False (enqueue_all False
                        (map2 (\<lambda>t a. pj_pair pj (o_v (t_prev_obs t)) (a_v a)) ts actions) b))) (\<lambda>(mp, b).
             chain (q_targets (td_gamma q) m vs 0 ts) (\<lambda>targets.
             chain (if actions = [] then Inr [] else critiques mp 0 targets) (\<lambda>critique.
             chain (batch_write ops pj ts targets b) (\<lambda>b. Inr (critique, b)))))))))"

text \<open>
  The batch update of the other critics: one transition after the other, each followed by
  \<open>finalize\<close>. Without actions the critiques are not set.
\<close>

fun criticize_all ::
    "(transition \<Rightarrow> action \<Rightarrow> 'c \<Rightarrow> rep_error + real \<times> 'c) \<Rightarrow> ('c \<Rightarrow> 'c) \<Rightarrow>
     (transition \<times> action) list \<Rightarrow> 'c \<Rightarrow> rep_error + dvec \<times> 'c" where
  "criticize_all crit fin [] c = Inr ([], c)"
| "criticize_all crit fin ((t, a) # ts) c =
     chain (crit t a c) (\<lambda>(x, c).
     chain (criticize_all crit fin ts (fin c)) (\<lambda>(xs, c). Inr (x # xs, c)))"

definition criticize_batch ::
    "(transition \<Rightarrow> action \<Rightarrow> 'c \<Rightarrow> rep_error + real \<times> 'c) \<Rightarrow> ('c \<Rightarrow> 'c) \<Rightarrow>
     transition list \<Rightarrow> action list \<Rightarrow> 'c \<Rightarrow> rep_error + dvec option \<times> 'c" where
  "criticize_batch crit fin ts actions c =
     (if actions \<noteq> []
      then if length actions < length ts then Inl RepUndefined
           else chain (criticize_all crit fin (zip ts actions) c) (\<lambda>(xs, c). Inr (Some xs, c))
      else chain (criticize_all crit fin (map (\<lambda>t. (t, no_action)) ts) c)
             (\<lambda>(xs, c). Inr (None, c)))"

section \<open>Actor-critic\<close>

text \<open>
  The actor with the critic it drives; the step limit is widened in place. \<open>proportional\<close> is the
  update method, the other one being CACLA. The critic is a function of the transition and the
  action it judges.
\<close>

record ('r, 'c) actor_critic =
  ac_rep :: 'r
  ac_critic :: 'c
  ac_step_limit :: dvec

definition fit_limit :: "nat \<Rightarrow> dvec \<Rightarrow> rep_error + dvec" where
  "fit_limit n limit =
     (if limit \<noteq> [] \<and> length limit \<noteq> n
      then if length limit = 1 then Inr (ConstantVector n (hd limit)) else Inl RepBadParam
      else Inr limit)"

definition clip_step :: "dvec \<Rightarrow> dvec \<Rightarrow> dvec" where
  "clip_step limit delta =
     (if limit \<noteq> [] then map2 (\<lambda>d l. min (max d (- l)) l) delta limit else delta)"

text \<open>The new action: \<open>u\<close> moved towards the action taken.\<close>

definition actor_target :: "bool \<Rightarrow> dvec \<Rightarrow> real \<Rightarrow> dvec \<Rightarrow> dvec \<Rightarrow> rep_error + dvec" where
  "actor_target proportional limit critique taken u =
     (if length taken \<noteq> length u \<or> (limit \<noteq> [] \<and> length limit < length u) then Inl RepUndefined
      else let delta = vsub taken u;
               delta = (if proportional then vscale critique delta else delta)
           in Inr (vadd u (clip_step limit delta)))"

text \<open>
  One transition. \<open>taken\<close> is the previous action for the plain actor and the continuous part of the
  new observation for the expanded one; the critic judges \<open>judged u\<close>, which is the
  actor's own action \<open>u\<close> or the discrete action.
\<close>

definition actor_update ::
    "'r rep_ops \<Rightarrow> projector \<Rightarrow> (transition \<Rightarrow> action \<Rightarrow> 'c \<Rightarrow> rep_error + real \<times> 'c) \<Rightarrow> bool \<Rightarrow> real \<Rightarrow>
     (transition \<Rightarrow> dvec) \<Rightarrow> (dvec \<Rightarrow> dvec) \<Rightarrow> transition \<Rightarrow> ('r, 'c) actor_critic \<Rightarrow>
     rep_error + ('r, 'c) actor_critic" where
  "actor_update ops pj crit proportional alpha taken judged t ac =
     chain (fit_limit (length (taken t)) (ac_step_limit ac)) (\<lambda>limit.
     let ac = ac\<lparr>ac_step_limit := limit\<rparr>;
         ap = pj_project pj (o_v (t_prev_obs t))
     in chain (rp_read_target ops (ac_rep ac) ap) (\<lambda>u.
        let u = (if u = [] then ConstantVector (length (taken t)) 0 else u)
        in chain (crit t (Action (judged u) atUndefined) (ac_critic ac)) (\<lambda>(critique, cr).
           let ac = ac\<lparr>ac_critic := cr\<rparr>
           in if proportional \<or> 0 < critique
              then chain (actor_target proportional limit critique (taken t) u) (\<lambda>target_u.
                   chain (rep_write1 ops (ac_rep ac) ap target_u alpha) (\<lambda>r.
                     Inr (ac\<lparr>ac_rep := rp_finalize ops r\<rparr>)))
              else Inr ac)))"

definition action_ac_update ::
    "'r rep_ops \<Rightarrow> projector \<Rightarrow> (transition \<Rightarrow> action \<Rightarrow> 'c \<Rightarrow> rep_error + real \<times> 'c) \<Rightarrow> bool \<Rightarrow> real \<Rightarrow>
     transition \<Rightarrow> ('r, 'c) actor_critic \<Rightarrow> rep_error + ('r, 'c) actor_critic" where
  "action_ac_update ops pj crit proportional alpha t ac =
     actor_update ops pj crit proportional alpha (\<lambda>t. a_v (t_prev_action t)) (\<lambda>u. u) t ac"

definition expanded_ac_update ::
    "'r rep_ops \<Rightarrow> projector \<Rightarrow> (transition \<Rightarrow> action \<Rightarrow> 'c \<Rightarrow> rep_error + real \<times> 'c) \<Rightarrow> bool \<Rightarrow> real \<Rightarrow> dvec \<Rightarrow>
     transition \<Rightarrow> ('r, 'c) actor_critic \<Rightarrow> rep_error + ('r, 'c) actor_critic" where
  "expanded_ac_update ops pj crit proportional alpha discrete_action t ac =
     actor_update ops pj crit proportional alpha (\<lambda>t. o_u (t_obs t)) (\<lambda>u. discrete_action) t ac"

text \<open>The targets of the transitions whose critique asks for an update, with their projections.\<close>

fun actor_targets ::
    "projector \<Rightarrow> bool \<Rightarrow> dvec \<Rightarrow> (transition \<Rightarrow> dvec) \<Rightarrow> (transition \<times> dvec \<times> real) list \<Rightarrow>
     rep_error + (projection \<times> dvec) list" where
  "actor_targets pj proportional limit taken [] = Inr []"
| "actor_targets pj proportional limit taken ((t, u, critique) # ts) =
     (if proportional \<or> 0 < critique
      then chain (actor_target proportional limit critique (taken t) u) (\<lambda>target_u.
           chain (actor_targets pj proportional limit taken ts) (\<lambda>ws.
             Inr ((pj_project pj (o_v (t_prev_obs t)), target_u) # ws)))
      else actor_targets pj proportional limit taken ts)"

text \<open>The batch; the critic returns one critique per transition.\<close>

definition actor_update_batch ::
    "'r rep_ops \<Rightarrow> projector \<Rightarrow>
     (transition list \<Rightarrow> action list \<Rightarrow> 'c \<Rightarrow> rep_error + dvec \<times> 'c) \<Rightarrow> bool \<Rightarrow>
     (transition \<Rightarrow> dvec) \<Rightarrow> (dvec \<Rightarrow> dvec) \<Rightarrow> transition list \<Rightarrow> ('r batch_rep, 'c) actor_critic \<Rightarrow>
     rep_error + ('r batch_rep, 'c) actor_critic" where
  "actor_update_batch ops pj crit proportional taken judged ts ac =
     (if ts = [] then Inl RepUndefined
      else chain (fit_limit (length (taken (hd ts))) (ac_step_limit ac)) (\<lambda>limit.
      let ac = ac\<lparr>ac_step_limit := limit\<rparr>
      in chain (batchRead True (ac_rep ac)) (\<lambda>b.
         chain (batch_read ops True
                  (enqueue_all True (map (\<lambda>t. pj_project pj (o_v (t_prev_obs t))) ts) b)) (\<lambda>(us, b).
         if length us < length ts then Inl RepUndefined else
         chain (crit ts (map (\<lambda>u. Action (judged u) atUndefined) us) (ac_critic ac)) (\<lambda>(cs, cr).
         let ac = ac\<lparr>ac_rep := b, ac_critic := cr\<rparr>
         in if length cs < length ts then Inl RepUndefined else
            chain (actor_targets pj proportional limit taken (zip ts (zip us cs))) (\<lambda>ws.
              if ws = [] then Inr ac
              else chain (enqueue_writes ops ws (b_rep b)) (\<lambda>r.
                Inr (ac\<lparr>ac_rep := b\<lparr>b_rep := rp_finalize ops r\<rparr>\<rparr>))))))))"

definition action_ac_update_batch ::
    "'r rep_ops \<Rightarrow> projector \<Rightarrow>
     (transition list \<Rightarrow> action list \<Rightarrow> 'c \<Rightarrow> rep_error + dvec \<times> 'c) \<Rightarrow> bool \<Rightarrow>
     transition list \<Rightarrow> ('r batch_rep, 'c) actor_critic \<Rightarrow> rep_error + ('r batch_rep, 'c) actor_critic" where
  "action_ac_update_batch ops pj crit proportional ts ac =
     actor_update_batch ops pj crit proportional (\<lambda>t. a_v (t_prev_action t)) (\<lambda>u. u) ts ac"

definition expanded_ac_update_batch ::
    "'r rep_ops \<Rightarrow> projector \<Rightarrow>
     (transition list \<Rightarrow> action list \<Rightarrow> 'c \<Rightarrow> rep_error + dvec \<times> 'c) \<Rightarrow> bool \<Rightarrow> dvec \<Rightarrow>
     transition list \<Rightarrow> ('r batch_rep, 'c) actor_critic \<Rightarrow> rep_error + ('r batch_rep, 'c) actor_critic" where
  "expanded_ac_update_batch ops pj crit proportional discrete_action ts ac =
     actor_update_batch ops pj crit proportional (\<lambda>t. o_u (t_obs t)) (\<lambda>u. discrete_action) ts ac"

text \<open>Actor and critic on preferences; the actor's trace is only ever cleared.\<close>

record ('a, 'v) probability_ac =
  pa_actor :: "'a critic"
  pa_critic :: "'v critic"

definition probability_ac_update ::
    "'a rep_ops \<Rightarrow> 'v rep_ops \<Rightarrow> projector \<Rightarrow> projector \<Rightarrow> td_params \<Rightarrow> real \<Rightarrow> transition \<Rightarrow>
     ('a, 'v) probability_ac \<Rightarrow> rep_error + ('a, 'v) probability_ac" where
  "probability_ac_update aops vops apj vpj q beta t c =
     (let ap = prev_pair apj t;
          vp = pj_project vpj (o_v (t_prev_obs t));
          v = pa_critic c
      in chain (rep_read1 vops (cr_rep v) (pj_project vpj (o_v (t_obs t)))) (\<lambda>vnext.
         chain (td_target (td_gamma q) t (Inr vnext)) (\<lambda>target.
         chain (rep_read1 vops (cr_rep v) vp) (\<lambda>w.
         let delta = target - w
         in chain (rep_write1 vops (cr_rep v) vp [target] (td_alpha q)) (\<lambda>r.
            chain (rep_read1 aops (cr_rep (pa_actor c)) ap) (\<lambda>a_pref.
            chain (rep_write1 aops (cr_rep (pa_actor c)) ap [a_pref + beta * delta] 1) (\<lambda>ar.
            chain (trace_step vops vp (td_alpha q * delta) (td_decay q t) (v\<lparr>cr_rep := r\<rparr>)) (\<lambda>v.
              Inr (c\<lparr>pa_critic := v\<lparr>cr_rep := rp_finalize vops (cr_rep v)\<rparr>,
                     pa_actor := (pa_actor c)\<lparr>cr_rep := rp_finalize aops ar\<rparr>\<rparr>)))))))))"

definition probability_ac_finalize :: "('a, 'v) probability_ac \<Rightarrow> ('a, 'v) probability_ac" where
  "probability_ac_finalize c =
     c\<lparr>pa_critic := critic_finalize (pa_critic c), pa_actor := critic_finalize (pa_actor c)\<rparr>"

end
