(* ===== verification/RepFacts.thy ===== *)
theory RepFacts
  imports Representations
begin

text \<open>
  The linear representation learns: a write moves the value read at the same projection by the
  learning rate towards the target, repeated writes converge geometrically, other projections
  with disjoint features keep their value, limits hold, and the target network follows.
\<close>

section \<open>The interface: a learning representation\<close>

locale learner =
  fixes ops :: "'r rep_ops"
    and ok :: "'r \<Rightarrow> projection \<Rightarrow> bool"
    and allowed :: "'r \<Rightarrow> dvec \<Rightarrow> bool"
  assumes read_ok: "ok r p \<Longrightarrow> \<exists>v. rp_read ops r p = Inr v \<and> allowed r v"
    and write_ok: "ok r p \<Longrightarrow> allowed r t \<Longrightarrow> 0 \<le> a \<Longrightarrow> a \<le> 1 \<Longrightarrow> rp_read ops r p = Inr v \<Longrightarrow>
      \<exists>r'. rep_write1 ops r p t a = Inr r' \<and> ok r' p \<and> allowed r' = allowed r \<and>
        rp_read ops r' p = Inr (map2 (\<lambda>x y. x + a * (y - x)) v t)"
    and allowed_length: "allowed r t \<Longrightarrow> allowed r u \<Longrightarrow> length t = length u"
begin

primrec write_times :: "nat \<Rightarrow> projection \<Rightarrow> dvec \<Rightarrow> real \<Rightarrow> 'r \<Rightarrow> rep_error + 'r" where
  "write_times 0 p t a r = Inr r"
| "write_times (Suc n) p t a r = chain (rep_write1 ops r p t a) (write_times n p t a)"

text \<open>Writing the same target again and again converges to it geometrically.\<close>

lemma write_times_converges:
  assumes "ok r p" and "allowed r t" and "0 \<le> a" and "a \<le> 1" and "rp_read ops r p = Inr v"
  shows "\<exists>r'. write_times n p t a r = Inr r' \<and> ok r' p \<and>
    rp_read ops r' p = Inr (map2 (\<lambda>x y. y + (1 - a) ^ n * (x - y)) v t)"
  using assms(1,2,5)
proof (induction n arbitrary: r v)
  case 0
  from read_ok [OF 0(1)] 0(3) have "allowed r v" by auto
  then have "length v = length t" using 0(2) by (rule allowed_length)
  then have "map2 (\<lambda>x y. y + (1 - a) ^ 0 * (x - y)) v t = v"
    by (intro nth_equalityI) simp_all
  then show ?case using 0 by simp
next
  case (Suc n)
  from write_ok [OF Suc.prems(1,2) assms(3,4) Suc.prems(3)] obtain r1 where
    r1: "rep_write1 ops r p t a = Inr r1" "ok r1 p" "allowed r1 = allowed r"
    "rp_read ops r1 p = Inr (map2 (\<lambda>x y. x + a * (y - x)) v t)" by blast
  have "allowed r1 t" using Suc.prems(2) r1(3) by simp
  from Suc.IH [OF r1(2) this r1(4)] obtain r' where r': "write_times n p t a r1 = Inr r'" "ok r' p"
    "rp_read ops r' p = Inr (map2 (\<lambda>x y. y + (1 - a) ^ n * (x - y)) (map2 (\<lambda>x y. x + a * (y - x)) v t) t)"
    by blast
  have "map2 (\<lambda>x y. y + (1 - a) ^ n * (x - y)) (map2 (\<lambda>x y. x + a * (y - x)) v t) t =
      map2 (\<lambda>x y. y + (1 - a) ^ Suc n * (x - y)) v t"
    by (intro nth_equalityI) (simp_all add: algebra_simps)
  then show ?case using r1 r' by simp
qed

end

section \<open>Rows of the parameter vector\<close>

lemma row_index_inj:
  assumes "jj < n" and "kk < n" and "i * n + jj = k * n + (kk :: nat)"
  shows "i = k \<and> jj = kk"
proof -
  have "(i * n + jj) div n = i" "(k * n + kk) div n = k" using assms(1,2) by simp_all
  then have "i = k" using assms(3) by metis
  then show ?thesis using assms(3) by simp
qed

lemma row_index_less: "(i + 1) * n \<le> l \<Longrightarrow> jj < n \<Longrightarrow> i * n + jj < (l :: nat)"
  by (simp add: algebra_simps)

lemma lr_add_row_ok:
  assumes "lr_in_range lr params i"
  shows "length (lr_add_row lr i step params) = length params \<and>
    (\<forall>k jj. jj < lr_outputs lr \<longrightarrow> lr_add_row lr i step params ! (k * lr_outputs lr + jj) =
      (if k = i then lr_store lr jj (params ! (i * lr_outputs lr + jj) + step jj)
       else params ! (k * lr_outputs lr + jj)))"
proof -
  let ?n = "lr_outputs lr"
  let ?f = "\<lambda>ps jj. ps[i * ?n + jj := lr_store lr jj (ps ! (i * ?n + jj) + step jj)]"
  have "length (foldl ?f params [0..<m]) = length params \<and>
    (\<forall>k jj. jj < ?n \<longrightarrow> foldl ?f params [0..<m] ! (k * ?n + jj) =
      (if k = i \<and> jj < m then lr_store lr jj (params ! (i * ?n + jj) + step jj)
       else params ! (k * ?n + jj)))" if "m \<le> ?n" for m
    using that
  proof (induction m)
    case (Suc m)
    then have m: "m < ?n" by simp
    have lt: "i * ?n + m < length params"
      using assms m row_index_less by (simp add: lr_in_range_def)
    let ?g = "foldl ?f params [0..<m]"
    have IH: "length ?g = length params" "\<And>k jj. jj < ?n \<Longrightarrow> ?g ! (k * ?n + jj) =
      (if k = i \<and> jj < m then lr_store lr jj (params ! (i * ?n + jj) + step jj)
       else params ! (k * ?n + jj))" using Suc m by auto
    have "?g[i * ?n + m := lr_store lr m (?g ! (i * ?n + m) + step m)] ! (k * ?n + jj) =
      (if k = i \<and> jj < Suc m then lr_store lr jj (params ! (i * ?n + jj) + step jj)
       else params ! (k * ?n + jj))" if "jj < ?n" for k jj
    proof (cases "k = i \<and> jj = m")
      case True
      then show ?thesis using IH(1,2) lt m by simp
    next
      case False
      then have "i * ?n + m \<noteq> k * ?n + jj" using row_index_inj [OF m that] by metis
      then have "?g[i * ?n + m := lr_store lr m (?g ! (i * ?n + m) + step m)] ! (k * ?n + jj) =
          ?g ! (k * ?n + jj)" by (rule nth_list_update_neq)
      then show ?thesis using False IH(2) [OF that] by (auto simp: less_Suc_eq)
    qed
    then show ?case using IH(1) by simp
  qed simp
  from this [of ?n] show ?thesis by (simp add: lr_add_row_def)
qed

lemma lr_add_rows_ok:
  assumes "\<forall>(i, step) \<in> set rows. lr_in_range lr params i" and "distinct (map fst rows)"
  shows "\<exists>ps. lr_add_rows lr rows params = Inr ps \<and> length ps = length params \<and>
    (\<forall>k jj. jj < lr_outputs lr \<longrightarrow> ps ! (k * lr_outputs lr + jj) =
      (case map_of rows k of
         None \<Rightarrow> params ! (k * lr_outputs lr + jj)
       | Some step \<Rightarrow> lr_store lr jj (params ! (k * lr_outputs lr + jj) + step jj)))"
  using assms
proof (induction rows arbitrary: params)
  case (Cons row rows)
  obtain i step where row: "row = (i, step)" by fastforce
  have i: "lr_in_range lr params i" using Cons.prems(1) row by simp
  let ?p1 = "lr_add_row lr i step params"
  from lr_add_row_ok [OF i, of step] have p1: "length ?p1 = length params"
    "\<And>k jj. jj < lr_outputs lr \<Longrightarrow> ?p1 ! (k * lr_outputs lr + jj) =
      (if k = i then lr_store lr jj (params ! (i * lr_outputs lr + jj) + step jj)
       else params ! (k * lr_outputs lr + jj))" by auto
  have "\<forall>(i, step) \<in> set rows. lr_in_range lr ?p1 i" "distinct (map fst rows)"
    using Cons.prems row p1(1) by (auto simp: lr_in_range_def)
  from Cons.IH [OF this] obtain ps where ps: "lr_add_rows lr rows ?p1 = Inr ps" "length ps = length ?p1"
    "\<And>k jj. jj < lr_outputs lr \<Longrightarrow> ps ! (k * lr_outputs lr + jj) =
      (case map_of rows k of
         None \<Rightarrow> ?p1 ! (k * lr_outputs lr + jj)
       | Some step \<Rightarrow> lr_store lr jj (?p1 ! (k * lr_outputs lr + jj) + step jj))" by blast
  have none: "map_of rows i = None"
    using Cons.prems(2) row by (simp add: map_of_eq_None_iff)
  have "ps ! (k * lr_outputs lr + jj) =
      (case map_of (row # rows) k of
         None \<Rightarrow> params ! (k * lr_outputs lr + jj)
       | Some step \<Rightarrow> lr_store lr jj (params ! (k * lr_outputs lr + jj) + step jj))"
    if "jj < lr_outputs lr" for k jj
    using ps(3) [OF that, of k] p1(2) [OF that, of k] none row
    by (cases "k = i") (auto split: option.splits)
  then show ?case using i row ps(1,2) p1(1) by auto
qed simp

section \<open>The learning law of the linear representation\<close>

text \<open>
  A projection from which the representation learns exactly: distinct features in range, none of
  them cleared, and not all but absent.
\<close>

definition norm2_list :: "dvec \<Rightarrow> real" where
  "norm2_list ws = sum_list (map (\<lambda>w. w * w) ws)"

fun lr_learnable :: "linear_rep \<Rightarrow> projection \<Rightarrow> bool" where
  "lr_learnable lr (IndexProjection ip) =
     (ip_indices ip \<noteq> [] \<and> distinct (ip_indices ip) \<and> invalid_index \<notin> set (ip_indices ip) \<and>
      (\<forall>i \<in> set (ip_indices ip). lr_in_range lr (lr_params lr) i) \<and>
      (ip_weights ip = [] \<or>
       length (ip_weights ip) = length (ip_indices ip) \<and> 0.001 \<le> norm2_list (ip_weights ip)))"
| "lr_learnable lr (VectorProjection v) =
     (length v = lr_memory lr \<and> lr_memory lr * lr_outputs lr \<le> length (lr_params lr) \<and>
      0.001 \<le> norm2_list v)"

text \<open>How much of a step a feature of weight \<open>w\<close> receives.\<close>

fun lr_gain :: "projection \<Rightarrow> real \<Rightarrow> real" where
  "lr_gain (IndexProjection ip) w = (if ip_weights ip = [] then 1 else w / norm2_of (ip_weights ip))"
| "lr_gain (VectorProjection v) w = w / norm2_of v"

lemma norm2_of_eq: "norm2_of ws = max 0.001 (norm2_list ws)"
proof -
  have "foldl (\<lambda>s w. s + w * w) a ws = a + norm2_list ws" for a
    by (induction ws arbitrary: a) (simp_all add: norm2_list_def)
  from this [of 0] show ?thesis by (auto simp: norm2_of_def Let_def)
qed

lemma lr_sum_eq:
  "lr_sum lr params iws jj = sum_list (map (\<lambda>(i, w). params ! (i * lr_outputs lr + jj) * w) iws)"
proof -
  have "foldl (\<lambda>s (i, w). s + params ! (i * lr_outputs lr + jj) * w) a iws =
      a + sum_list (map (\<lambda>(i, w). params ! (i * lr_outputs lr + jj) * w) iws)" for a
    by (induction iws arbitrary: a) auto
  from this [of 0] show ?thesis by (simp add: lr_sum_def)
qed

lemma map_fst_enumerate: "map fst (enumerate n xs) = [n..<n + length xs]"
  by (simp add: enumerate_eq_zip)

lemma sum_gain:
  "length js = length ws \<Longrightarrow> c \<noteq> 0 \<Longrightarrow>
   sum_list (map (\<lambda>(i, w). w / c * w) (zip js ws)) = norm2_list ws / (c :: real)"
  by (induction js ws rule: list_induct2) (simp_all add: norm2_list_def add_divide_distrib)

text \<open>Everything a write at a learnable projection needs, for all three kinds of projections.\<close>

lemma lr_learnable_rows:
  assumes "lr_learnable lr p"
  shows "\<exists>iws n. lr_features lr p = Inr (iws, n) \<and> distinct (map fst iws) \<and>
    (\<forall>(i, w) \<in> set iws. lr_in_range lr (lr_params lr) i) \<and>
    (\<forall>delta. lr_rows lr p delta = Inr (map (\<lambda>(i, w). (i, \<lambda>jj. lr_gain p w * delta ! jj)) iws)) \<and>
    sum_list (map (\<lambda>(i, w). lr_gain p w * w) iws) = n \<and> n \<noteq> 0"
proof (cases p)
  case (IndexProjection ip)
  note ip = assms [unfolded IndexProjection, simplified]
  have keep: "filter (\<lambda>i. i \<noteq> invalid_index) (ip_indices ip) = ip_indices ip"
    using ip by (auto simp: filter_id_conv)
  show ?thesis
  proof (cases "ip_weights ip = []")
    case True
    have "sum_list (map (\<lambda>(i, w). lr_gain p w * w) (map (\<lambda>i. (i, 1)) (ip_indices ip))) =
        real (length (ip_indices ip))"
      using True IndexProjection by (simp add: comp_def sum_list_triv)
    moreover have "map fst (map (\<lambda>i. (i, 1 :: real)) (ip_indices ip)) = ip_indices ip"
      by (simp add: comp_def)
    ultimately show ?thesis
      using IndexProjection True ip keep
      by (intro exI [of _ "map (\<lambda>i. (i, 1)) (ip_indices ip)"] exI [of _ "real (length (ip_indices ip))"])
        (auto simp: comp_def)
  next
    case False
    let ?iws = "zip (ip_indices ip) (ip_weights ip)"
    have len: "length (ip_indices ip) = length (ip_weights ip)" and sq: "0.001 \<le> norm2_list (ip_weights ip)"
      using ip False by auto
    have n: "norm2_of (ip_weights ip) = norm2_list (ip_weights ip)" using sq by (simp add: norm2_of_eq)
    have fst: "map fst ?iws = ip_indices ip" using len by simp
    have keep': "filter (\<lambda>(i, w). i \<noteq> invalid_index) ?iws = ?iws"
      using ip by (auto simp: filter_id_conv dest: set_zip_leftD)
    have "sum_list (map (\<lambda>(i, w). lr_gain p w * w) ?iws) = 1"
      using sum_gain [OF len, of "norm2_list (ip_weights ip)"] sq False IndexProjection
      by (simp add: n)
    moreover have "lr_rows lr p delta = Inr (map (\<lambda>(i, w). (i, \<lambda>jj. lr_gain p w * delta ! jj)) ?iws)" for delta
      using IndexProjection False len keep' by simp
    moreover have "\<forall>(i, w) \<in> set ?iws. lr_in_range lr (lr_params lr) i"
      using ip by (auto dest: set_zip_leftD)
    ultimately show ?thesis
      using IndexProjection False ip len fst by (intro exI [of _ ?iws] exI [of _ 1]) simp
  qed
next
  case (VectorProjection v)
  note v = assms [unfolded VectorProjection, simplified]
  let ?iws = "enumerate 0 v"
  have n: "norm2_of v = norm2_list v" using v by (simp add: norm2_of_eq)
  have "sum_list (map (\<lambda>(i, w). lr_gain p w * w) ?iws) = 1"
    using sum_gain [of "[0..<length v]" v "norm2_list v"] v VectorProjection by (simp add: n enumerate_eq_zip)
  moreover have "lr_rows lr p delta = Inr (map (\<lambda>(i, w). (i, \<lambda>jj. lr_gain p w * delta ! jj)) ?iws)" for delta
    using VectorProjection v by simp
  moreover have "lr_in_range lr (lr_params lr) i" if "i < length v" for i
  proof -
    have "(i + 1) * lr_outputs lr \<le> lr_memory lr * lr_outputs lr"
      using that v by (intro mult_le_mono1) simp
    then show ?thesis using v by (simp add: lr_in_range_def)
  qed
  then have "\<forall>(i, w) \<in> set ?iws. lr_in_range lr (lr_params lr) i"
    by (auto simp: in_set_enumerate_eq)
  ultimately show ?thesis
    using VectorProjection v by (intro exI [of _ ?iws] exI [of _ 1]) (simp add: map_fst_enumerate)
qed

lemma synchronize_simps [simp]:
  "lr_params (synchronize lr) = lr_params lr" "lr_outputs (synchronize lr) = lr_outputs lr"
  "lr_memory (synchronize lr) = lr_memory lr" "lr_limit (synchronize lr) = lr_limit lr"
  "lr_output_min (synchronize lr) = lr_output_min lr" "lr_output_max (synchronize lr) = lr_output_max lr"
  "lr_interval (synchronize lr) = lr_interval lr" "lr_tau (synchronize lr) = lr_tau lr"
  by (simp_all add: synchronize_def)

lemma checkSynchronize_simps [simp]:
  "lr_params (checkSynchronize lr) = lr_params lr" "lr_outputs (checkSynchronize lr) = lr_outputs lr"
  "lr_memory (checkSynchronize lr) = lr_memory lr" "lr_limit (checkSynchronize lr) = lr_limit lr"
  "lr_output_min (checkSynchronize lr) = lr_output_min lr"
  "lr_output_max (checkSynchronize lr) = lr_output_max lr"
  "lr_interval (checkSynchronize lr) = lr_interval lr" "lr_tau (checkSynchronize lr) = lr_tau lr"
  by (simp_all add: checkSynchronize_def Let_def)

text \<open>The value before the output limits.\<close>

definition lr_raw :: "linear_rep \<Rightarrow> projection \<Rightarrow> nat \<Rightarrow> real" where
  "lr_raw lr p jj =
     (case lr_features lr p of Inl _ \<Rightarrow> 0 | Inr (iws, n) \<Rightarrow> lr_sum lr (lr_params lr) iws jj / n)"

lemma lr_read_learnable:
  "lr_learnable lr p \<Longrightarrow> lr_read lr p = Inr (map (\<lambda>jj. lr_clip lr jj (lr_raw lr p jj)) [0..<lr_outputs lr])"
  using lr_learnable_rows [of lr p] by (auto simp: lr_read_def lr_read_params_def lr_raw_def)

lemma lr_learnable_cong:
  "length (lr_params lr') = length (lr_params lr) \<Longrightarrow> lr_outputs lr' = lr_outputs lr \<Longrightarrow>
   lr_memory lr' = lr_memory lr \<Longrightarrow> lr_learnable lr' p = lr_learnable lr p"
  by (cases p) (simp_all add: lr_in_range_def)

lemma lr_features_cong: "lr_memory lr' = lr_memory lr \<Longrightarrow> lr_features lr' p = lr_features lr p"
  by (cases p) simp_all

text \<open>An update raises the raw value at its own projection by exactly the step.\<close>

lemma lr_update_raw:
  assumes l: "lr_learnable lr p" and nolimit: "lr_limit lr = 0" and d: "length delta = lr_outputs lr"
  shows "\<exists>ps. lr_update lr p delta = Inr (checkSynchronize (lr\<lparr>lr_params := ps\<rparr>)) \<and>
    length ps = length (lr_params lr) \<and>
    (\<forall>jj < lr_outputs lr. lr_raw (checkSynchronize (lr\<lparr>lr_params := ps\<rparr>)) p jj = lr_raw lr p jj + delta ! jj)"
proof -
  from lr_learnable_rows [OF l] obtain iws n where F: "lr_features lr p = Inr (iws, n)"
    "distinct (map fst iws)" "\<forall>(i, w) \<in> set iws. lr_in_range lr (lr_params lr) i"
    "\<And>delta. lr_rows lr p delta = Inr (map (\<lambda>(i, w). (i, \<lambda>jj. lr_gain p w * delta ! jj)) iws)"
    "sum_list (map (\<lambda>(i, w). lr_gain p w * w) iws) = n" "n \<noteq> 0" by blast
  let ?rows = "map (\<lambda>(i, w). (i, \<lambda>jj. lr_gain p w * delta ! jj)) iws"
  have fst: "map fst ?rows = map fst iws" by (auto simp: comp_def case_prod_unfold)
  have "\<forall>(i, step) \<in> set ?rows. lr_in_range lr (lr_params lr) i" using F(3) by auto
  moreover have "distinct (map fst ?rows)" unfolding fst by (rule F(2))
  ultimately obtain ps where ps: "lr_add_rows lr ?rows (lr_params lr) = Inr ps"
    "length ps = length (lr_params lr)"
    "\<And>k jj. jj < lr_outputs lr \<Longrightarrow> ps ! (k * lr_outputs lr + jj) =
      (case map_of ?rows k of
         None \<Rightarrow> lr_params lr ! (k * lr_outputs lr + jj)
       | Some step \<Rightarrow> lr_store lr jj (lr_params lr ! (k * lr_outputs lr + jj) + step jj))"
    using lr_add_rows_ok by blast
  have upd: "lr_update lr p delta = Inr (checkSynchronize (lr\<lparr>lr_params := ps\<rparr>))"
    using F(4) ps(1) d by (simp add: lr_update_def)
  have "lr_sum lr ps iws jj = lr_sum lr (lr_params lr) iws jj + n * delta ! jj" if jj: "jj < lr_outputs lr" for jj
  proof -
    have entry: "ps ! (i * lr_outputs lr + jj) =
        lr_params lr ! (i * lr_outputs lr + jj) + lr_gain p w * delta ! jj" if iw: "(i, w) \<in> set iws" for i w
    proof -
      have "(i, \<lambda>jj. lr_gain p w * delta ! jj) \<in> set ?rows" using iw by force
      then have "map_of ?rows i = Some (\<lambda>jj. lr_gain p w * delta ! jj)"
        using F(2) fst by (simp only: map_of_eq_Some_iff)
      then show ?thesis using ps(3) [OF jj, of i] nolimit by (simp add: lr_store_def)
    qed
    have "map (\<lambda>(i, w). ps ! (i * lr_outputs lr + jj) * w) iws =
        map (\<lambda>(i, w). lr_params lr ! (i * lr_outputs lr + jj) * w + delta ! jj * (lr_gain p w * w)) iws"
      using entry by (intro map_cong [OF refl]) (auto simp: algebra_simps)
    then have "lr_sum lr ps iws jj = sum_list (map (\<lambda>(i, w).
        lr_params lr ! (i * lr_outputs lr + jj) * w + delta ! jj * (lr_gain p w * w)) iws)"
      by (simp only: lr_sum_eq)
    also have "\<dots> = sum_list (map (\<lambda>(i, w). lr_params lr ! (i * lr_outputs lr + jj) * w) iws) +
        delta ! jj * sum_list (map (\<lambda>(i, w). lr_gain p w * w) iws)"
      by (simp add: case_prod_unfold sum_list_addf sum_list_const_mult)
    finally show ?thesis using F(5) by (simp add: lr_sum_eq)
  qed
  then have "lr_raw (checkSynchronize (lr\<lparr>lr_params := ps\<rparr>)) p jj = lr_raw lr p jj + delta ! jj"
    if "jj < lr_outputs lr" for jj
    using that F(1,6) lr_features_cong [of "checkSynchronize (lr\<lparr>lr_params := ps\<rparr>)" lr p]
    by (simp add: lr_raw_def lr_sum_def add_divide_distrib)
  with upd ps(2) show ?thesis by blast
qed

definition lr_allowed :: "linear_rep \<Rightarrow> dvec \<Rightarrow> bool" where
  "lr_allowed lr t \<longleftrightarrow> length t = lr_outputs lr \<and>
     (\<forall>jj < lr_outputs lr. lr_output_min lr ! jj \<le> t ! jj \<and> t ! jj \<le> lr_output_max lr ! jj)"

definition lr_learns :: "linear_rep \<Rightarrow> projection \<Rightarrow> bool" where
  "lr_learns lr p \<longleftrightarrow> lr_limit lr = 0 \<and> lr_learnable lr p \<and>
     (\<forall>jj < lr_outputs lr. lr_output_min lr ! jj \<le> lr_raw lr p jj \<and> lr_raw lr p jj \<le> lr_output_max lr ! jj)"

lemma lr_learns_read: "lr_learns lr p \<Longrightarrow> lr_read lr p = Inr (map (lr_raw lr p) [0..<lr_outputs lr])"
  using lr_read_learnable [of lr p] by (auto simp: lr_learns_def lr_clip_def)

lemma convex_between:
  fixes x :: real
  assumes "l \<le> x" "x \<le> h" "l \<le> y" "y \<le> h" "0 \<le> a" "a \<le> 1"
  shows "l \<le> x + a * (y - x) \<and> x + a * (y - x) \<le> h"
proof -
  have "x + a * (y - x) = (1 - a) * x + a * y" by (simp add: algebra_simps)
  moreover have "(1 - a) * l + a * l \<le> (1 - a) * x + a * y" "(1 - a) * x + a * y \<le> (1 - a) * h + a * h"
    using assms by (intro add_mono mult_left_mono; simp)+
  ultimately show ?thesis by (simp add: algebra_simps)
qed

lemma lr_write_learns:
  assumes l: "lr_learns lr p" and t: "lr_allowed lr t" and a: "0 \<le> a" "a \<le> 1" and v: "lr_read lr p = Inr v"
  shows "\<exists>lr'. rep_write1 lr_ops lr p t a = Inr lr' \<and> lr_learns lr' p \<and> lr_allowed lr' = lr_allowed lr \<and>
    lr_read lr' p = Inr (map2 (\<lambda>x y. x + a * (y - x)) v t)"
proof -
  let ?n = "lr_outputs lr"
  have v': "v = map (lr_raw lr p) [0..<?n]" using lr_learns_read [OF l] v by simp
  define delta where "delta = vmul (ConstantVector (length t) a) (vsub t v)"
  have tl: "length t = ?n" using t by (simp add: lr_allowed_def)
  have dl: "length delta = ?n" using tl v' by (simp add: delta_def vmul_def vsub_def ConstantVector_def)
  have dn: "delta ! jj = a * (t ! jj - v ! jj)" if "jj < ?n" for jj
    using that tl v' by (simp add: delta_def vmul_def vsub_def ConstantVector_def)
  have lim: "lr_learnable lr p" "lr_limit lr = 0" using l by (auto simp: lr_learns_def)
  from lr_update_raw [OF lim dl] obtain ps where ps:
    "lr_update lr p delta = Inr (checkSynchronize (lr\<lparr>lr_params := ps\<rparr>))" "length ps = length (lr_params lr)"
    "\<And>jj. jj < ?n \<Longrightarrow> lr_raw (checkSynchronize (lr\<lparr>lr_params := ps\<rparr>)) p jj = lr_raw lr p jj + delta ! jj"
    by blast
  let ?lr = "checkSynchronize (lr\<lparr>lr_params := ps\<rparr>)"
  have wr: "rep_write1 lr_ops lr p t a = Inr ?lr"
    using v v' ps(1) tl by (simp add: rep_write1_def lr_ops_def lr_write_def ConstantVector_def delta_def)
  have raw: "lr_raw ?lr p jj = v ! jj + a * (t ! jj - v ! jj)" if "jj < ?n" for jj
    using ps(3) [OF that] dn [OF that] v' that by simp
  have "lr_output_min lr ! jj \<le> lr_raw ?lr p jj \<and> lr_raw ?lr p jj \<le> lr_output_max lr ! jj"
    if "jj < ?n" for jj
    unfolding raw [OF that]
    using that l t a v' by (intro convex_between) (auto simp: lr_learns_def lr_allowed_def)
  moreover have "lr_learnable ?lr p" using lim(1) ps(2) lr_learnable_cong [of ?lr lr p] by simp
  ultimately have learns: "lr_learns ?lr p" using lim(2) by (simp add: lr_learns_def)
  have "lr_read ?lr p = Inr (map2 (\<lambda>x y. x + a * (y - x)) v t)"
    unfolding lr_learns_read [OF learns]
    using raw tl v' by (auto intro!: nth_equalityI)
  moreover have "lr_allowed ?lr = lr_allowed lr" by (simp add: lr_allowed_def fun_eq_iff)
  ultimately show ?thesis using wr learns by blast
qed

interpretation lr: learner lr_ops lr_learns lr_allowed
proof unfold_locales
  fix lr p assume l: "lr_learns lr p"
  then have "lr_allowed lr (map (lr_raw lr p) [0..<lr_outputs lr])"
    by (simp add: lr_allowed_def lr_learns_def)
  then show "\<exists>v. rp_read lr_ops lr p = Inr v \<and> lr_allowed lr v"
    using lr_learns_read [OF l] by (simp add: lr_ops_def)
next
  fix lr p t a v
  assume "lr_learns lr p" "lr_allowed lr t" "0 \<le> (a :: real)" "a \<le> 1" "rp_read lr_ops lr p = Inr v"
  then show "\<exists>lr'. rep_write1 lr_ops lr p t a = Inr lr' \<and> lr_learns lr' p \<and> lr_allowed lr' = lr_allowed lr \<and>
      rp_read lr_ops lr' p = Inr (map2 (\<lambda>x y. x + a * (y - x)) v t)"
    using lr_write_learns [of lr p t a v] by (simp add: lr_ops_def)
next
  fix lr t u assume "lr_allowed lr t" "lr_allowed lr u"
  then show "length t = length u" by (simp add: lr_allowed_def)
qed

section \<open>Locality\<close>

definition feature_set :: "linear_rep \<Rightarrow> projection \<Rightarrow> nat set" where
  "feature_set lr p = (case lr_features lr p of Inl _ \<Rightarrow> {} | Inr (iws, n) \<Rightarrow> fst ` set iws)"

lemma lr_sum_local:
  assumes "lr_outputs lr' = lr_outputs lr"
    and "\<forall>i \<in> fst ` set iws. ps ! (i * lr_outputs lr + jj) = params ! (i * lr_outputs lr + jj)"
  shows "lr_sum lr' ps iws jj = lr_sum lr params iws jj"
proof -
  have "map (\<lambda>(i, w). ps ! (i * lr_outputs lr + jj) * w) iws =
      map (\<lambda>(i, w). params ! (i * lr_outputs lr + jj) * w) iws"
    using assms(2) by (intro map_cong [OF refl]) force
  then show ?thesis by (simp only: lr_sum_eq assms(1))
qed

lemma lr_read_local:
  assumes "lr_outputs lr' = lr_outputs lr" and "lr_memory lr' = lr_memory lr"
    and "lr_output_min lr' = lr_output_min lr" and "lr_output_max lr' = lr_output_max lr"
    and "length (lr_params lr') = length (lr_params lr)"
    and "\<forall>i \<in> feature_set lr q. \<forall>jj < lr_outputs lr.
      lr_params lr' ! (i * lr_outputs lr + jj) = lr_params lr ! (i * lr_outputs lr + jj)"
  shows "lr_read lr' q = lr_read lr q \<and> (\<forall>jj < lr_outputs lr. lr_raw lr' q jj = lr_raw lr q jj)"
proof (cases "lr_features lr q")
  case (Inl e)
  then show ?thesis using lr_features_cong [OF assms(2), of q]
    by (simp add: lr_read_def lr_read_params_def lr_raw_def)
next
  case (Inr r)
  obtain iws n where r: "r = (iws, n)" by fastforce
  have f: "lr_features lr' q = Inr (iws, n)" using lr_features_cong [OF assms(2), of q] Inr r by simp
  have s: "lr_sum lr' (lr_params lr') iws jj = lr_sum lr (lr_params lr) iws jj" if "jj < lr_outputs lr" for jj
    using assms(6) that Inr r by (intro lr_sum_local [OF assms(1)]) (simp add: feature_set_def)
  have c: "lr_clip lr' = lr_clip lr" using assms(3,4) by (simp add: lr_clip_def fun_eq_iff)
  have g: "lr_in_range lr' (lr_params lr') = lr_in_range lr (lr_params lr)"
    using assms(1,5) by (simp add: lr_in_range_def fun_eq_iff)
  show ?thesis using Inr r f s
    by (auto simp: lr_read_def lr_read_params_def lr_raw_def c g assms(1))
qed

text \<open>An update only writes the rows of the features.\<close>

lemma lr_update_entries:
  assumes l: "lr_learnable lr p" and d: "length delta = lr_outputs lr"
  shows "\<exists>ps. lr_update lr p delta = Inr (checkSynchronize (lr\<lparr>lr_params := ps\<rparr>)) \<and>
    length ps = length (lr_params lr) \<and>
    (\<forall>i. i \<notin> feature_set lr p \<longrightarrow> (\<forall>jj < lr_outputs lr.
      ps ! (i * lr_outputs lr + jj) = lr_params lr ! (i * lr_outputs lr + jj)))"
proof -
  from lr_learnable_rows [OF l] obtain iws n where F: "lr_features lr p = Inr (iws, n)"
    "distinct (map fst iws)" "\<forall>(i, w) \<in> set iws. lr_in_range lr (lr_params lr) i"
    "\<And>delta. lr_rows lr p delta = Inr (map (\<lambda>(i, w). (i, \<lambda>jj. lr_gain p w * delta ! jj)) iws)" by blast
  let ?rows = "map (\<lambda>(i, w). (i, \<lambda>jj. lr_gain p w * delta ! jj)) iws"
  have fst: "map fst ?rows = map fst iws" by (auto simp: comp_def case_prod_unfold)
  have "\<forall>(i, step) \<in> set ?rows. lr_in_range lr (lr_params lr) i" using F(3) by auto
  moreover have "distinct (map fst ?rows)" unfolding fst by (rule F(2))
  ultimately obtain ps where ps: "lr_add_rows lr ?rows (lr_params lr) = Inr ps"
    "length ps = length (lr_params lr)"
    "\<And>k jj. jj < lr_outputs lr \<Longrightarrow> ps ! (k * lr_outputs lr + jj) =
      (case map_of ?rows k of
         None \<Rightarrow> lr_params lr ! (k * lr_outputs lr + jj)
       | Some step \<Rightarrow> lr_store lr jj (lr_params lr ! (k * lr_outputs lr + jj) + step jj))"
    using lr_add_rows_ok by blast
  have "lr_update lr p delta = Inr (checkSynchronize (lr\<lparr>lr_params := ps\<rparr>))"
    using F(4) ps(1) d by (simp add: lr_update_def)
  moreover have "map_of ?rows i = None" if "i \<notin> feature_set lr p" for i
  proof -
    have "i \<notin> set (map fst iws)" using that F(1) by (auto simp: feature_set_def)
    then show ?thesis by (simp add: map_of_eq_None_iff flip: fst del: map_map)
  qed
  ultimately show ?thesis using ps by auto
qed

lemma lr_update_local:
  assumes l: "lr_learnable lr p" and d: "length delta = lr_outputs lr"
  shows "\<exists>lr'. lr_update lr p delta = Inr lr' \<and>
    (\<forall>q. feature_set lr p \<inter> feature_set lr q = {} \<longrightarrow>
      lr_read lr' q = lr_read lr q \<and> (\<forall>jj < lr_outputs lr. lr_raw lr' q jj = lr_raw lr q jj))"
proof -
  from lr_update_entries [OF assms] obtain ps where ps:
    "lr_update lr p delta = Inr (checkSynchronize (lr\<lparr>lr_params := ps\<rparr>))"
    "length ps = length (lr_params lr)"
    "\<forall>i. i \<notin> feature_set lr p \<longrightarrow> (\<forall>jj < lr_outputs lr.
      ps ! (i * lr_outputs lr + jj) = lr_params lr ! (i * lr_outputs lr + jj))" by blast
  have "lr_read (checkSynchronize (lr\<lparr>lr_params := ps\<rparr>)) q = lr_read lr q \<and>
      (\<forall>jj < lr_outputs lr. lr_raw (checkSynchronize (lr\<lparr>lr_params := ps\<rparr>)) q jj = lr_raw lr q jj)"
    if "feature_set lr p \<inter> feature_set lr q = {}" for q
    using ps(2,3) that by (intro lr_read_local) auto
  with ps(1) show ?thesis by blast
qed

section \<open>Limits\<close>

definition lr_within :: "linear_rep \<Rightarrow> dvec \<Rightarrow> bool" where
  "lr_within lr params \<longleftrightarrow> length params = lr_memory lr * lr_outputs lr \<and>
     (\<forall>k < lr_memory lr. \<forall>jj < lr_outputs lr.
        lr_output_min lr ! jj \<le> params ! (k * lr_outputs lr + jj) \<and>
        params ! (k * lr_outputs lr + jj) \<le> lr_output_max lr ! jj)"

definition lr_limits_ok :: "linear_rep \<Rightarrow> bool" where
  "lr_limits_ok lr \<longleftrightarrow> (\<forall>jj < lr_outputs lr. lr_output_min lr ! jj \<le> lr_output_max lr ! jj)"

lemma lr_clip_range:
  "lr_limits_ok lr \<Longrightarrow> jj < lr_outputs lr \<Longrightarrow>
   lr_output_min lr ! jj \<le> lr_clip lr jj x \<and> lr_clip lr jj x \<le> lr_output_max lr ! jj"
  by (auto simp: lr_clip_def lr_limits_ok_def)

lemma lr_add_rows_within:
  assumes "lr_limits_ok lr" and "lr_limit lr \<noteq> 0"
  shows "lr_within lr params \<Longrightarrow> lr_add_rows lr rows params = Inr ps \<Longrightarrow> lr_within lr ps"
proof (induction rows arbitrary: params)
  case (Cons row rows)
  obtain i step where row: "row = (i, step)" by fastforce
  have i: "lr_in_range lr params i" and rest: "lr_add_rows lr rows (lr_add_row lr i step params) = Inr ps"
    using Cons.prems(2) row by (auto split: if_splits)
  have "lr_within lr (lr_add_row lr i step params)"
    using lr_add_row_ok [OF i, of step] Cons.prems(1) assms lr_clip_range
    by (auto simp: lr_within_def lr_store_def)
  then show ?case using rest by (rule Cons.IH)
qed simp

lemma lr_update_within:
  assumes "lr_limits_ok lr" and "lr_limit lr \<noteq> 0" and "lr_within lr (lr_params lr)"
    and "lr_update lr p delta = Inr lr'"
  shows "lr_within lr' (lr_params lr') \<and> lr_limits_ok lr' \<and> lr_limit lr' \<noteq> 0"
proof -
  obtain rows ps where "lr_add_rows lr rows (lr_params lr) = Inr ps"
    "lr' = checkSynchronize (lr\<lparr>lr_params := ps\<rparr>)"
    using assms(4) by (auto simp: lr_update_def chain_Inr split: if_splits)
  with lr_add_rows_within [OF assms(1,2,3)] assms(1,2) show ?thesis
    by (auto simp: lr_within_def lr_limits_ok_def)
qed

lemma lr_write_within:
  assumes "lr_limits_ok lr" and "lr_limit lr \<noteq> 0" and "lr_within lr (lr_params lr)"
    and "lr_write lr p target alpha = Inr lr'"
  shows "lr_within lr' (lr_params lr') \<and> lr_limits_ok lr' \<and> lr_limit lr' \<noteq> 0"
  using assms(4) lr_update_within [OF assms(1-3)]
  by (auto simp: lr_write_def chain_Inr split: if_splits)

lemma lr_draws_ok:
  "\<forall>jj \<in> set jjs. mi ! jj \<le> ma ! jj \<Longrightarrow>
   length (fst (lr_draws mi ma jjs g)) = length jjs \<and>
   (\<forall>k < length jjs. mi ! (jjs ! k) \<le> fst (lr_draws mi ma jjs g) ! k \<and>
      fst (lr_draws mi ma jjs g) ! k \<le> ma ! (jjs ! k))"
proof (induction jjs arbitrary: g)
  case (Cons jj jjs)
  obtain x g1 where x: "getUniform (mi ! jj) (ma ! jj) g = (x, g1)" by fastforce
  obtain xs g2 where xs: "lr_draws mi ma jjs g1 = (xs, g2)" by fastforce
  have "mi ! jj \<le> x \<and> x \<le> ma ! jj"
  proof (cases "mi ! jj < ma ! jj")
    case True
    then show ?thesis using getUniform_range [OF True, of g] x by simp
  next
    case False
    then have "mi ! jj = ma ! jj" using Cons.prems by auto
    then show ?thesis using x by (auto simp: getUniform_def split: prod.splits)
  qed
  then show ?case using Cons.IH [of g1] Cons.prems x xs by (auto simp: All_less_Suc2)
qed simp

lemma concat_replicate_nth:
  "k < m \<Longrightarrow> jj < n \<Longrightarrow> concat (replicate m [0..<n]) ! (k * n + jj) = jj"
proof (induction m arbitrary: k)
  case (Suc m)
  then show ?case by (cases k) (simp_all add: nth_append)
qed simp

lemma lr_configure_within:
  assumes "lr_configure interval tau memory outputs limit imi ima omi oma g = Inr (lr, g')"
    and "\<forall>jj < outputs. lr_output_min lr ! jj \<le> lr_init_min lr ! jj \<and>
      lr_init_min lr ! jj \<le> lr_init_max lr ! jj \<and> lr_init_max lr ! jj \<le> lr_output_max lr ! jj"
  shows "lr_within lr (lr_params lr) \<and> lr_limits_ok lr \<and> lr_limit lr = limit"
proof -
  have "\<exists>lr0 g0. lr_reset lr0 g0 = (lr, g') \<and> lr_outputs lr0 = outputs \<and>
      lr_memory lr0 = memory \<and> lr_limit lr0 = limit"
    using assms(1)
    by (simp add: lr_configure_def Let_def split: if_splits prod.splits)
      (rule exI, rule conjI, rule exI, assumption, simp)+
  then obtain lr0 g0 where r: "lr_reset lr0 g0 = (lr, g')" and f: "lr_outputs lr0 = outputs"
    "lr_memory lr0 = memory" "lr_limit lr0 = limit" by blast
  define ps where "ps = fst (lr_fresh lr0 g0)"
  have lr: "lr = synchronize (lr0\<lparr>lr_params := ps\<rparr>)"
    using r by (auto simp: lr_reset_def ps_def split: prod.splits)
  have i: "lr_init_min lr = lr_init_min lr0" "lr_init_max lr = lr_init_max lr0"
    unfolding lr by (simp_all add: synchronize_def)
  let ?jjs = "concat (replicate memory [0..<outputs])"
  have "\<forall>jj \<in> set ?jjs. lr_init_min lr0 ! jj \<le> lr_init_max lr0 ! jj"
    using assms(2) i by auto
  from lr_draws_ok [OF this, of g0] have d: "length ps = length ?jjs"
    "\<And>k. k < length ?jjs \<Longrightarrow> lr_init_min lr0 ! (?jjs ! k) \<le> ps ! k \<and> ps ! k \<le> lr_init_max lr0 ! (?jjs ! k)"
    unfolding ps_def lr_fresh_def f by blast+
  have len: "length ?jjs = memory * outputs" by (simp add: length_concat sum_list_replicate)
  have "lr_output_min lr ! jj \<le> ps ! (k * outputs + jj) \<and> ps ! (k * outputs + jj) \<le> lr_output_max lr ! jj"
    if "k < memory" "jj < outputs" for k jj
  proof -
    have "(k + 1) * outputs \<le> memory * outputs" using that(1) by (intro mult_le_mono1) simp
    then have lt: "k * outputs + jj < length ?jjs" using that(2) len row_index_less by simp
    show ?thesis
      using d(2) [OF lt] concat_replicate_nth [OF that] assms(2) that(2) i by fastforce
  qed
  moreover have "\<forall>jj < outputs. lr_output_min lr ! jj \<le> lr_output_max lr ! jj"
    using assms(2) by (meson order_trans)
  moreover have "lr_params lr = ps" "lr_outputs lr = outputs" "lr_memory lr = memory" "lr_limit lr = limit"
    unfolding lr using f by simp_all
  ultimately show ?thesis using d(1) len by (simp add: lr_within_def lr_limits_ok_def)
qed

section \<open>Properties\<close>

fun lr_write_times :: "nat \<Rightarrow> projection \<Rightarrow> dvec \<Rightarrow> real \<Rightarrow> linear_rep \<Rightarrow> rep_error + linear_rep" where
  "lr_write_times 0 p t a lr = Inr lr"
| "lr_write_times (Suc n) p t a lr = chain (rep_write1 lr_ops lr p t a) (lr_write_times n p t a)"

lemma lr_write_times_eq: "lr_write_times n p t a lr = lr.write_times n p t a lr"
proof (induction n arbitrary: lr)
  case (Suc n)
  then show ?case by (cases "rep_write1 lr_ops lr p t a") simp_all
qed simp

text \<open>C31: the linear representation learns. For tile, weighted and vector projections alike, writing a
  target with rate \<open>a\<close> moves the value read at the projection by exactly \<open>a\<close> of the way, and \<open>n\<close>
  writes leave an error of \<open>(1 - a) ^ n\<close> times the first one.\<close>

theorem linear_writes_converge:
  assumes "lr_learns lr p" and "lr_allowed lr t" and "0 \<le> a" and "a \<le> 1" and "lr_read lr p = Inr v"
  shows "\<exists>lr'. lr_write_times n p t a lr = Inr lr' \<and>
    lr_read lr' p = Inr (map2 (\<lambda>x y. y + (1 - a) ^ n * (x - y)) v t)"
  using lr.write_times_converges [OF assms(1-4), of v n] assms(5)
  by (auto simp: lr_write_times_eq lr_ops_def)

definition rand_zero :: rand where
  "rand_zero = \<lparr>rand_data = 0, libc_data = 0\<rparr>"

definition lr_example :: linear_rep where
  "lr_example = \<lparr>lr_memory = 3, lr_outputs = 1, lr_limit = 0, lr_output_min = [- 100],
     lr_output_max = [100], lr_init_min = [0], lr_init_max = [1], lr_params = [1, 2, 4],
     lr_interval = 0, lr_tau = 1, lr_count = 0, lr_target = []\<rparr>"

definition tile_example :: projection where
  "tile_example = IndexProjection \<lparr>ip_indices = [0, 2], ip_weights = []\<rparr>"

lemma lr_example_learns: "lr_learns lr_example tile_example"
  by (simp add: lr_learns_def lr_example_def tile_example_def lr_in_range_def lr_raw_def lr_sum_def
      invalid_index_def size_max_def)

theorem linear_writes_converge_witness:
  "\<exists>lr'. lr_write_times 3 tile_example [10] (1 / 2) lr_example = Inr lr' \<and>
    lr_read lr' tile_example = Inr [10 + (1 / 2) ^ 3 * (5 / 2 - 10)]"
proof -
  have "lr_allowed lr_example [10]" by (simp add: lr_allowed_def lr_example_def)
  moreover have "lr_read lr_example tile_example = Inr [5 / 2]"
    using lr_learns_read [OF lr_example_learns]
    by (simp add: lr_raw_def lr_sum_def lr_example_def tile_example_def)
  ultimately show ?thesis using linear_writes_converge [OF lr_example_learns, of "[10]" "1 / 2" "[5 / 2]" 3]
    by simp
qed

text \<open>no interference. Updating at a projection leaves the value at every projection without common
  features unchanged, with and without limits.\<close>

theorem linear_update_local:
  assumes "lr_learnable lr p" and "length delta = lr_outputs lr"
    and "feature_set lr p \<inter> feature_set lr q = {}"
  shows "\<exists>lr'. lr_update lr p delta = Inr lr' \<and> lr_read lr' q = lr_read lr q"
  using lr_update_local [OF assms(1,2)] assms(3) by blast

theorem linear_update_local_witness:
  "\<exists>lr'. lr_update lr_example tile_example [3] = Inr lr' \<and>
    lr_read lr' (IndexProjection \<lparr>ip_indices = [1], ip_weights = []\<rparr>) =
    lr_read lr_example (IndexProjection \<lparr>ip_indices = [1], ip_weights = []\<rparr>)"
  by (rule linear_update_local)
    (simp_all add: lr_example_def tile_example_def lr_in_range_def feature_set_def
      invalid_index_def size_max_def)

datatype lr_op = LrWrite projection dvec dvec | LrUpdate projection dvec

fun lr_run :: "lr_op list \<Rightarrow> linear_rep \<Rightarrow> rep_error + linear_rep" where
  "lr_run [] lr = Inr lr"
| "lr_run (LrWrite p t a # ops) lr = chain (lr_write lr p t a) (lr_run ops)"
| "lr_run (LrUpdate p d # ops) lr = chain (lr_update lr p d) (lr_run ops)"

lemma lr_run_within:
  "lr_run ops lr = Inr lr' \<Longrightarrow> lr_limits_ok lr \<Longrightarrow> lr_limit lr \<noteq> 0 \<Longrightarrow> lr_within lr (lr_params lr) \<Longrightarrow>
   lr_within lr' (lr_params lr') \<and> lr_limits_ok lr'"
proof (induction ops arbitrary: lr)
  case (Cons op ops)
  show ?case
  proof (cases op)
    case (LrWrite p t a)
    then obtain lr1 where lr1: "lr_write lr p t a = Inr lr1" "lr_run ops lr1 = Inr lr'"
      using Cons.prems(1) by (auto simp: chain_Inr)
    from lr_write_within [OF Cons.prems(2,3,4) lr1(1)] Cons.IH [OF lr1(2)] show ?thesis by blast
  next
    case (LrUpdate p d)
    then obtain lr1 where lr1: "lr_update lr p d = Inr lr1" "lr_run ops lr1 = Inr lr'"
      using Cons.prems(1) by (auto simp: chain_Inr)
    from lr_update_within [OF Cons.prems(2,3,4) lr1(1)] Cons.IH [OF lr1(2)] show ?thesis by blast
  qed
qed simp

text \<open>C30: with \<open>limit\<close> set and initial limits inside the output limits, every parameter stays between
  the output limits under any sequence of writes and trace updates, whatever the targets and
  rates, and so does every value read.\<close>

theorem linear_limits_hold:
  assumes "lr_configure interval tau memory outputs limit imi ima omi oma g = Inr (lr, g')"
    and "limit \<noteq> 0"
    and "\<forall>jj < outputs. lr_output_min lr ! jj \<le> lr_init_min lr ! jj \<and>
      lr_init_min lr ! jj \<le> lr_init_max lr ! jj \<and> lr_init_max lr ! jj \<le> lr_output_max lr ! jj"
    and "lr_run ops lr = Inr lr'"
  shows "lr_within lr' (lr_params lr') \<and>
    (\<forall>p v jj. lr_read lr' p = Inr v \<and> jj < lr_outputs lr' \<longrightarrow>
       lr_output_min lr' ! jj \<le> v ! jj \<and> v ! jj \<le> lr_output_max lr' ! jj)"
proof -
  have "lr_within lr' (lr_params lr')" "lr_limits_ok lr'"
    using lr_run_within [OF assms(4)] lr_configure_within [OF assms(1,3)] assms(2) by auto
  then show ?thesis
    using lr_clip_range [of lr'] by (auto simp: lr_read_def lr_read_params_def chain_Inr split: if_splits)
qed

theorem linear_limits_hold_witness:
  "\<exists>lr g' lr'. lr_configure 0 1 2 1 1 [0] [1] [0] [1] rand_zero = Inr (lr, g') \<and>
    lr_run [LrUpdate (IndexProjection \<lparr>ip_indices = [1], ip_weights = []\<rparr>) [50]] lr = Inr lr' \<and>
    lr_within lr' (lr_params lr')"
proof -
  obtain lr g' where c: "lr_configure 0 1 2 1 1 [0] [1] [0] [1] rand_zero = Inr (lr, g')"
    by (simp add: lr_configure_def widen_def default_limit_def Let_def) (metis surj_pair)
  then have lr: "lr_output_min lr = [0]" "lr_output_max lr = [1]" "lr_init_min lr = [0]"
    "lr_init_max lr = [1]" "lr_outputs lr = 1" "lr_memory lr = 2"
    by (auto simp: lr_configure_def widen_def default_limit_def Let_def lr_reset_def synchronize_def
        split: prod.splits)
  have w: "lr_within lr (lr_params lr)" using lr_configure_within [OF c] lr by simp
  obtain lr' where r: "lr_run [LrUpdate (IndexProjection \<lparr>ip_indices = [1], ip_weights = []\<rparr>) [50]] lr = Inr lr'"
    using w lr by (simp add: lr_update_def lr_in_range_def lr_within_def invalid_index_def size_max_def)
  with linear_limits_hold [OF c _ _ r] c lr show ?thesis by auto
qed

end
