(* ===== verification/PredFacts.thy ===== *)
theory PredFacts
  imports Predictors RepFacts SamplerFacts SplitGrids
begin

text \<open>
  What one step of the temporal difference predictors does to the values: the value of the
  visited pair moves by the learning rate towards the target, the earlier pairs of the trace share
  the error in proportion to their eligibility, and Q learning is expected SARSA with the greedy
  policy. For batches: what is written, and where the batch locks.
\<close>

section \<open>One step without a trace\<close>

locale td_learner = learner ops ok allowed
  for ops :: "'r rep_ops" and ok :: "'r \<Rightarrow> projection \<Rightarrow> bool" and allowed :: "'r \<Rightarrow> dvec \<Rightarrow> bool" +
  assumes finalize_read: "rp_read ops (rp_finalize ops r) p = rp_read ops r p"
begin

lemma learn_step_moves:
  assumes "cr_trace c = None" and "ok (cr_rep c) p" and "allowed (cr_rep c) [target]"
    and "0 \<le> a" and "a \<le> 1" and "rep_read1 ops (cr_rep c) p = Inr v"
  shows "\<exists>c'. learn_step ops a decay p target delta c = Inr c' \<and> cr_trace c' = None \<and>
    rep_read1 ops (cr_rep c') p = Inr (v + a * (target - v))"
proof -
  obtain vs where vs: "rp_read ops (cr_rep c) p = Inr vs" "allowed (cr_rep c) vs"
    using read_ok [OF assms(2)] by blast
  then have "length vs = 1" using allowed_length [OF vs(2) assms(3)] by simp
  then have "vs = [v]" using vs(1) assms(6) by (cases vs) (auto simp: rep_read1_def)
  with write_ok [OF assms(2-5) vs(1)] obtain r' where
    "rep_write1 ops (cr_rep c) p [target] a = Inr r'"
    "rp_read ops r' p = Inr [v + a * (target - v)]" by auto
  then show ?thesis using assms(1)
    by (simp add: learn_step_def trace_step_def rep_read1_def finalize_read)
qed

end

interpretation lr_td: td_learner lr_ops lr_learns lr_allowed
  by unfold_locales (simp add: lr_ops_def)

section \<open>Credit along a trace\<close>

definition same_shape :: "linear_rep \<Rightarrow> linear_rep \<Rightarrow> bool" where
  "same_shape lr lr' \<longleftrightarrow> lr_outputs lr' = lr_outputs lr \<and> lr_memory lr' = lr_memory lr \<and>
     lr_limit lr' = lr_limit lr \<and> length (lr_params lr') = length (lr_params lr)"

lemma same_shape_features: "same_shape lr lr' \<Longrightarrow> feature_set lr' p = feature_set lr p"
  using lr_features_cong [of lr' lr p] by (simp add: same_shape_def feature_set_def)

lemma same_shape_learnable: "same_shape lr lr' \<Longrightarrow> lr_learnable lr' p = lr_learnable lr p"
  by (rule lr_learnable_cong) (simp_all add: same_shape_def)

lemma same_shape_trans: "same_shape lr lr1 \<Longrightarrow> same_shape lr1 lr2 \<Longrightarrow> same_shape lr lr2"
  by (simp add: same_shape_def)

lemma lr_update_one:
  assumes "lr_learnable lr p" and "lr_limit lr = 0" and "lr_outputs lr = 1"
  shows "\<exists>lr'. lr_update lr p [x] = Inr lr' \<and> same_shape lr lr' \<and>
    lr_raw lr' p 0 = lr_raw lr p 0 + x \<and>
    (\<forall>q. feature_set lr p \<inter> feature_set lr q = {} \<longrightarrow> lr_raw lr' q 0 = lr_raw lr q 0)"
proof -
  from lr_update_raw [OF assms(1,2), of "[x]"] assms(3) obtain ps where
    u: "lr_update lr p [x] = Inr (checkSynchronize (lr\<lparr>lr_params := ps\<rparr>))" and
    len: "length ps = length (lr_params lr)" and
    raw: "lr_raw (checkSynchronize (lr\<lparr>lr_params := ps\<rparr>)) p 0 = lr_raw lr p 0 + x" by auto
  from lr_update_local [OF assms(1), of "[x]"] u assms(3) have
    loc: "\<forall>q. feature_set lr p \<inter> feature_set lr q = {} \<longrightarrow>
      lr_raw (checkSynchronize (lr\<lparr>lr_params := ps\<rparr>)) q 0 = lr_raw lr q 0" by simp
  have "same_shape lr (checkSynchronize (lr\<lparr>lr_params := ps\<rparr>))"
    using len by (simp add: same_shape_def)
  with u raw loc show ?thesis by blast
qed

text \<open>The items of a trace that a loop with cut-off reaches.\<close>

definition reached :: "('p \<times> real) list \<Rightarrow> ('p \<times> real) list" where
  "reached items = takeWhile (\<lambda>(p, w). trace_cutoff < w) items"

definition apart :: "linear_rep \<Rightarrow> projection list \<Rightarrow> bool" where
  "apart lr ps \<longleftrightarrow> sorted_wrt (\<lambda>p q. feature_set lr p \<inter> feature_set lr q = {}) ps"

lemma update_items_credit:
  assumes "\<forall>(p, w) \<in> set (reached items). lr_learnable lr p"
    and "apart lr (map fst (reached items))" and "lr_limit lr = 0" and "lr_outputs lr = 1"
  shows "\<exists>lr'. update_items lr_ops items [d] e lr = Inr lr' \<and> same_shape lr lr' \<and>
    (\<forall>(p, w) \<in> set (reached items). lr_raw lr' p 0 = lr_raw lr p 0 + w * d * e) \<and>
    (\<forall>q. (\<forall>(p, w) \<in> set (reached items). feature_set lr p \<inter> feature_set lr q = {}) \<longrightarrow>
      lr_raw lr' q 0 = lr_raw lr q 0)"
  using assms
proof (induction items arbitrary: lr)
  case Nil
  then show ?case by (simp add: reached_def same_shape_def)
next
  case (Cons item items)
  obtain p w where item: "item = (p, w)" by fastforce
  show ?case
  proof (cases "trace_cutoff < w")
    case False
    then show ?thesis using item by (simp add: reached_def same_shape_def)
  next
    case True
    then have R: "reached (item # items) = (p, w) # reached items" by (simp add: item reached_def)
    from Cons.prems(1) have lp: "lr_learnable lr p" unfolding R by simp
    from lr_update_one [OF lp Cons.prems(3,4), of "w * d * e"] obtain lr1 where
      u: "lr_update lr p [w * d * e] = Inr lr1" and sh: "same_shape lr lr1" and
      raw: "lr_raw lr1 p 0 = lr_raw lr p 0 + w * d * e" and
      loc: "\<And>q. feature_set lr p \<inter> feature_set lr q = {} \<Longrightarrow> lr_raw lr1 q 0 = lr_raw lr q 0" by blast
    note sf = same_shape_features [OF sh]
    have "\<forall>(p, w) \<in> set (reached items). lr_learnable lr1 p"
      using Cons.prems(1) same_shape_learnable [OF sh] unfolding R by auto
    moreover have "apart lr1 (map fst (reached items))"
      using Cons.prems(2) unfolding R by (simp add: apart_def sf)
    moreover have "lr_limit lr1 = 0" "lr_outputs lr1 = 1"
      using Cons.prems(3,4) sh by (simp_all add: same_shape_def)
    ultimately obtain lr' where
      u': "update_items lr_ops items [d] e lr1 = Inr lr'" and sh': "same_shape lr1 lr'" and
      all': "\<forall>(p, w) \<in> set (reached items). lr_raw lr' p 0 = lr_raw lr1 p 0 + w * d * e" and
      loc': "\<forall>q. (\<forall>(p, w) \<in> set (reached items). feature_set lr1 p \<inter> feature_set lr1 q = {}) \<longrightarrow>
        lr_raw lr' q 0 = lr_raw lr1 q 0"
      using Cons.IH [of lr1] by blast
    have raw': "lr_raw lr' p 0 = lr_raw lr1 p 0 + w * d * e" if "(p, w) \<in> set (reached items)" for p w
      using all' that by fastforce
    have sep: "feature_set lr p \<inter> feature_set lr p' = {}" if "(p', w') \<in> set (reached items)" for p' w'
      using Cons.prems(2) that unfolding R by (fastforce simp: apart_def)
    have first: "lr_raw lr' p 0 = lr_raw lr p 0 + w * d * e"
      using loc' [rule_format, of p] sep raw by (auto simp: sf)
    have others: "lr_raw lr' p' 0 = lr_raw lr p' 0 + w' * d * e"
      if "(p', w') \<in> set (reached items)" for p' w'
      using raw' [OF that] loc [OF sep [OF that]] by simp
    have away: "lr_raw lr' q 0 = lr_raw lr q 0"
      if "\<forall>(p, w) \<in> set (reached (item # items)). feature_set lr p \<inter> feature_set lr q = {}" for q
      using that loc' [rule_format, of q] loc [of q] unfolding R by (auto simp: sf split_def)
    have "update_items lr_ops (item # items) [d] e lr = Inr lr'"
      using True item u u' by (simp add: lr_ops_def)
    with same_shape_trans [OF sh sh'] first others away show ?thesis
      unfolding R by (intro exI [of _ lr']) (auto simp: R [unfolded item])
  qed
qed

section \<open>Expected SARSA with the greedy policy\<close>

lemma foldl_max_eq: "foldl max a vs = Max (insert a (set vs))" for a :: real
  by (rule foldl_max)

lemma fold_fmax_Inr: "fold_fmax vs = Inr v \<longleftrightarrow> vs \<noteq> [] \<and> v = Max (set vs)"
  by (cases vs) (auto simp: fold_fmax_def foldl_max_eq)

lemma dot_unit: "i < length xs \<Longrightarrow> dot xs ((replicate (length xs) 0)[i := 1]) = xs ! i"
proof (induction xs arbitrary: i)
  case (Cons x xs)
  have z: "dot xs (replicate (length xs) 0) = 0" by (induction xs) auto
  show ?case
  proof (cases i)
    case 0
    then show ?thesis using z by simp
  next
    case (Suc j)
    then show ?thesis using Cons by simp
  qed
qed simp

text \<open>The value of the greedy policy is the maximum of the action values.\<close>

lemma greedy_value:
  assumes "qp_values ops q r s = Inr vs" and "vs \<noteq> []" and "qp_sampler q = greedy_ops"
  shows "\<exists>g'. qp_value ops q r s g = Inr (Max (set vs), g')"
proof -
  from greedy_sample_ok [OF assms(2), of g] obtain ii g' where
    ii: "greedy_sample vs g = Inr (ii, atGreedy, g')" "ii \<in> set (maxima vs)" by blast
  then have m: "ii < length vs" "\<forall>x \<in> set vs. x \<le> vs ! ii" by (auto simp: maxima_iff)
  then have "Max (set vs) = vs ! ii" by (intro Max_eqI) auto
  then show ?thesis
    using assms ii m by (simp add: qp_value_def greedy_ops_def greedy_distribution_def dot_unit)
qed

section \<open>Properties of the critics\<close>

text \<open>C5: SARSA without a trace on the linear representation. The target is the reward, plus the discounted
  target value of the next pair when an action follows; the value of the visited pair moves by
  \<open>alpha\<close> of the way towards it, and the critique of a step without action is 0.\<close>

theorem sarsa_moves_value:
  fixes pj :: projector and t :: transition
  defines "p \<equiv> prev_pair pj t"
  assumes "cr_trace c = None" and "lr_learns (cr_rep c) p"
    and "rep_read1 lr_ops (cr_rep c) p = Inr v"
    and "a_v (t_action t) \<noteq> [] \<Longrightarrow> rep_read_target1 lr_ops (cr_rep c) (next_pair pj t) = Inr w"
    and "target = (if a_v (t_action t) = [] then t_reward t
                   else t_reward t + c_pow (td_gamma q) (t_tau t) * w)"
    and "lr_allowed (cr_rep c) [target]" and "0 \<le> td_alpha q" and "td_alpha q \<le> 1"
  shows "\<exists>c'. sarsa_criticize lr_ops pj q t no_action c = Inr (0, c') \<and>
    rep_read1 lr_ops (cr_rep c') p = Inr (v + td_alpha q * (target - v))"
proof -
  have "td_target (td_gamma q) t (rep_read_target1 lr_ops (cr_rep c) (next_pair pj t)) = Inr target"
    using assms(5,6) by (simp add: td_target_def)
  moreover from lr_td.learn_step_moves [OF assms(2,3,7-9,4)] obtain c' where
    "learn_step lr_ops (td_alpha q) (td_decay q t) p target (target - v) c = Inr c'"
    "rep_read1 lr_ops (cr_rep c') p = Inr (v + td_alpha q * (target - v))" by blast
  ultimately show ?thesis
    using assms(4) by (simp add: sarsa_criticize_def critique_of_def no_action_def Action_def p_def)
qed

definition pj_tiles :: projector where
  "pj_tiles = base_projector (\<lambda>v. if hd v = 0 then tile_example
     else IndexProjection \<lparr>ip_indices = [1], ip_weights = []\<rparr>)"

definition step_example :: transition where
  "step_example = Transition (Observation [0] False) (Action [1] atGreedy) 1 3
     (Observation [1] False) (Action [1] atGreedy)"

definition critic_example :: "linear_rep critic" where
  "critic_example = \<lparr>cr_rep = lr_example, cr_trace = None\<rparr>"

definition q_example :: td_params where
  "q_example = \<lparr>td_alpha = 1 / 2, td_gamma = 1, td_lambda = 1\<rparr>"

lemmas example_defs = pj_tiles_def base_projector_def step_example_def Transition_def Observation_def
  Action_def critic_example_def prev_pair_def next_pair_def q_example_def Vectors.extend_def

lemma lr_example_reads:
  "rep_read1 lr_ops lr_example tile_example = Inr (5 / 2)"
  "rep_read_target1 lr_ops lr_example (IndexProjection \<lparr>ip_indices = [1], ip_weights = []\<rparr>) = Inr 2"
  by (simp_all add: rep_read1_def rep_read_target1_def lr_ops_def lr_read_def lr_read_target_def
      lr_read_params_def lr_example_def tile_example_def lr_in_range_def lr_sum_def lr_clip_def
      invalid_index_def size_max_def)

theorem sarsa_moves_value_witness:
  "\<exists>c'. sarsa_criticize lr_ops pj_tiles q_example step_example no_action critic_example = Inr (0, c') \<and>
    rep_read1 lr_ops (cr_rep c') tile_example = Inr (15 / 4)"
proof -
  have p: "prev_pair pj_tiles step_example = tile_example"
    "next_pair pj_tiles step_example = IndexProjection \<lparr>ip_indices = [1], ip_weights = []\<rparr>"
    by (simp_all add: example_defs)
  have "\<exists>c'. sarsa_criticize lr_ops pj_tiles q_example step_example no_action critic_example = Inr (0, c') \<and>
    rep_read1 lr_ops (cr_rep c') (prev_pair pj_tiles step_example) =
      Inr (5 / 2 + td_alpha q_example * (5 - 5 / 2))"
  proof (rule sarsa_moves_value [where w = 2])
    show "lr_allowed (cr_rep critic_example) [5]"
      by (simp add: lr_allowed_def lr_example_def critic_example_def)
  qed (use lr_example_learns lr_example_reads p in
    \<open>simp_all add: critic_example_def, simp_all add: q_example_def step_example_def Transition_def
      Action_def c_pow_def\<close>)
  then show ?thesis by (simp add: p q_example_def)
qed

lemma lr_write_one:
  assumes "lr_learnable lr p" and "lr_limit lr = 0" and "lr_outputs lr = 1"
    and "rep_read1 lr_ops lr p = Inr v"
  shows "\<exists>lr'. rep_write1 lr_ops lr p [target] a = Inr lr' \<and> same_shape lr lr' \<and>
    lr_raw lr' p 0 = lr_raw lr p 0 + a * (target - v) \<and>
    (\<forall>q. feature_set lr p \<inter> feature_set lr q = {} \<longrightarrow> lr_raw lr' q 0 = lr_raw lr q 0)"
proof -
  have "lr_read lr p = Inr [v]"
    using lr_read_learnable [OF assms(1)] assms(3,4) by (simp add: rep_read1_def lr_ops_def)
  then have "rep_write1 lr_ops lr p [target] a = lr_update lr p [a * (target - v)]"
    by (simp add: rep_write1_def lr_ops_def lr_write_def ConstantVector_def vmul_def vsub_def)
  then show ?thesis using lr_update_one [OF assms(1-3)] by simp
qed

text \<open>The step of a critic with an accumulating trace.\<close>

lemma learn_step_credit:
  assumes tr: "cr_trace c = Some (AccumulatingTrace, tr)" and lp: "lr_learnable (cr_rep c) p"
    and lim: "lr_limit (cr_rep c) = 0" "lr_outputs (cr_rep c) = 1"
    and v: "rep_read1 lr_ops (cr_rep c) p = Inr v"
    and items: "\<forall>(p', w) \<in> set (reached (trace_items tr)). lr_learnable (cr_rep c) p'"
    and ap: "apart (cr_rep c) (p # map fst (reached (trace_items tr)))"
  shows "\<exists>c'. learn_step lr_ops a decay p target (target - v) c = Inr c' \<and>
    lr_raw (cr_rep c') p 0 = lr_raw (cr_rep c) p 0 + a * (target - v) \<and>
    (\<forall>(p', w) \<in> set (reached (trace_items tr)).
      lr_raw (cr_rep c') p' 0 = lr_raw (cr_rep c) p' 0 + w * (a * (target - v)) * decay)"
proof -
  let ?R = "reached (trace_items tr)"
  from lr_write_one [OF lp lim v, of target a] obtain r1 where
    w1: "rep_write1 lr_ops (cr_rep c) p [target] a = Inr r1" "same_shape (cr_rep c) r1"
    "lr_raw r1 p 0 = lr_raw (cr_rep c) p 0 + a * (target - v)"
    "\<forall>q. feature_set (cr_rep c) p \<inter> feature_set (cr_rep c) q = {} \<longrightarrow> lr_raw r1 q 0 = lr_raw (cr_rep c) q 0"
    by blast
  note sf = same_shape_features [OF w1(2)]
  have "\<forall>(p', w) \<in> set ?R. lr_learnable r1 p'"
    using items same_shape_learnable [OF w1(2)] by auto
  moreover have "apart r1 (map fst ?R)" using ap by (simp add: apart_def sf)
  moreover have "lr_limit r1 = 0" "lr_outputs r1 = 1" using lim w1(2) by (simp_all add: same_shape_def)
  ultimately obtain r2 where
    w2: "update_items lr_ops (trace_items tr) [a * (target - v)] decay r1 = Inr r2"
    "\<forall>(p', w) \<in> set ?R. lr_raw r2 p' 0 = lr_raw r1 p' 0 + w * (a * (target - v)) * decay"
    "\<forall>q. (\<forall>(p', w) \<in> set ?R. feature_set r1 p' \<inter> feature_set r1 q = {}) \<longrightarrow> lr_raw r2 q 0 = lr_raw r1 q 0"
    using update_items_credit [of "trace_items tr" r1 "a * (target - v)" decay] by blast
  have sep: "feature_set (cr_rep c) p \<inter> feature_set (cr_rep c) p' = {}" if "(p', w) \<in> set ?R" for p' w
    using ap that by (fastforce simp: apart_def)
  have own: "lr_raw r2 p 0 = lr_raw r1 p 0"
    using w2(3) [rule_format, of p] sep by (auto simp: sf)
  have rest: "lr_raw r2 p' 0 = lr_raw (cr_rep c) p' 0 + w * (a * (target - v)) * decay"
    if "(p', w) \<in> set ?R" for p' w
    using w2(2) that w1(4) sep [OF that] by fastforce
  obtain tr' where "accumulating_add p decay tr = Some tr'"
    by (auto simp: accumulating_add_def Let_def case_prod_unfold)
  then have "learn_step lr_ops a decay p target (target - v) c =
      Inr (c\<lparr>cr_rep := r2, cr_trace := Some (AccumulatingTrace, tr')\<rparr>)"
    using w1(1) w2(1) tr
    by (simp add: learn_step_def trace_step_def rep_update_trace_def trace_add_def lr_ops_def)
  then show ?thesis using own w1(3) rest by auto
qed

text \<open>C13: TD(lambda) on the linear representation with an accumulating trace whose projections share no
  feature: the visited state moves by \<open>alpha\<close> times the error, and every state still on the trace by
  that step times its eligibility \<open>w\<close> and the decay of this step.\<close>

theorem td_lambda_credit:
  fixes pj :: projector and t :: transition
  defines "p \<equiv> pj_project pj (o_v (t_prev_obs t))"
  assumes "cr_trace c = Some (AccumulatingTrace, tr)" and "lr_learnable (cr_rep c) p"
    and "lr_limit (cr_rep c) = 0" and "lr_outputs (cr_rep c) = 1"
    and "rep_read1 lr_ops (cr_rep c) p = Inr v"
    and "td_target (td_gamma q) t
      (rep_read_target1 lr_ops (cr_rep c) (pj_project pj (o_v (t_obs t)))) = Inr target"
    and "\<forall>(p', w) \<in> set (reached (trace_items tr)). lr_learnable (cr_rep c) p'"
    and "apart (cr_rep c) (p # map fst (reached (trace_items tr)))"
  shows "\<exists>c'. td_criticize lr_ops pj q t c = Inr (target - v, c') \<and>
    lr_raw (cr_rep c') p 0 = lr_raw (cr_rep c) p 0 + td_alpha q * (target - v) \<and>
    (\<forall>(p', w) \<in> set (reached (trace_items tr)).
      lr_raw (cr_rep c') p' 0 =
      lr_raw (cr_rep c) p' 0 + w * (td_alpha q * (target - v)) * td_decay q t)"
proof -
  from learn_step_credit [OF assms(2-6,8,9), of "td_alpha q" "td_decay q t" target] obtain c' where
    "learn_step lr_ops (td_alpha q) (td_decay q t) p target (target - v) c = Inr c'"
    "lr_raw (cr_rep c') p 0 = lr_raw (cr_rep c) p 0 + td_alpha q * (target - v)"
    "\<forall>(p', w) \<in> set (reached (trace_items tr)). lr_raw (cr_rep c') p' 0 =
      lr_raw (cr_rep c) p' 0 + w * (td_alpha q * (target - v)) * td_decay q t" by blast
  then show ?thesis
    using assms(6,7) by (intro exI [of _ c']) (simp add: td_criticize_def flip: p_def)
qed

definition trace_example :: "projection trace" where
  "trace_example = \<lparr>tr_projections = [(tile_example, 1 / 2)], tr_total_decay = Fin (1 / 2)\<rparr>"

definition credit_example :: "linear_rep critic" where
  "credit_example = \<lparr>cr_rep = lr_example, cr_trace = Some (AccumulatingTrace, trace_example)\<rparr>"

definition one_example :: projection where
  "one_example = IndexProjection \<lparr>ip_indices = [1], ip_weights = []\<rparr>"

lemma trace_example_items: "trace_items trace_example = [(tile_example, 1)]"
  by (simp add: trace_items_def trace_example_def trace_items_from.simps iter_projection_def
      iter_inc_def trace_size_def trace_begin_def)

theorem td_lambda_credit_witness:
  "\<exists>c'. td_criticize lr_ops (base_projector (\<lambda>v. one_example)) q_example
      (Transition (Observation [1] False) (Action [1] atGreedy) 1 6 (Observation [0] False) no_action)
      credit_example = Inr (4, c') \<and>
    lr_raw (cr_rep c') tile_example 0 = lr_raw lr_example tile_example 0 + 2"
proof -
  let ?t = "Transition (Observation [1] False) (Action [1] atGreedy) 1 6 (Observation [0] False) no_action"
  let ?pj = "base_projector (\<lambda>v. one_example)"
  have R: "reached (trace_items trace_example) = [(tile_example, 1)]"
    by (simp add: trace_example_items reached_def trace_cutoff_def)
  have p: "pj_project ?pj v = one_example" for v by (simp add: base_projector_def)
  have "\<exists>c'. td_criticize lr_ops ?pj q_example ?t credit_example = Inr (6 - 2, c') \<and>
    lr_raw (cr_rep c') (pj_project ?pj (o_v (t_prev_obs ?t))) 0 =
      lr_raw (cr_rep credit_example) (pj_project ?pj (o_v (t_prev_obs ?t))) 0 + td_alpha q_example * (6 - 2) \<and>
    (\<forall>(p', w) \<in> set (reached (trace_items trace_example)). lr_raw (cr_rep c') p' 0 =
      lr_raw (cr_rep credit_example) p' 0 + w * (td_alpha q_example * (6 - 2)) * td_decay q_example ?t)"
  proof (rule td_lambda_credit)
    show "cr_trace credit_example = Some (AccumulatingTrace, trace_example)"
      by (simp add: credit_example_def)
    show "lr_learnable (cr_rep credit_example) (pj_project ?pj (o_v (t_prev_obs ?t)))"
      unfolding p by (simp add: credit_example_def lr_example_def one_example_def lr_in_range_def
          invalid_index_def size_max_def)
    show "rep_read1 lr_ops (cr_rep credit_example) (pj_project ?pj (o_v (t_prev_obs ?t))) = Inr 2"
      unfolding p by (simp add: credit_example_def lr_example_def one_example_def lr_in_range_def
          rep_read1_def lr_ops_def lr_read_def lr_read_params_def lr_sum_def lr_clip_def)
    show "td_target (td_gamma q_example) ?t (rep_read_target1 lr_ops (cr_rep credit_example)
        (pj_project ?pj (o_v (t_obs ?t)))) = Inr 6"
      by (simp add: td_target_def Transition_def no_action_def Action_def)
    show "\<forall>(p', w) \<in> set (reached (trace_items trace_example)). lr_learnable (cr_rep credit_example) p'"
      using lr_example_learns by (simp add: R credit_example_def lr_learns_def)
    show "apart (cr_rep credit_example) (pj_project ?pj (o_v (t_prev_obs ?t)) #
        map fst (reached (trace_items trace_example)))"
      unfolding p R by (simp add: apart_def feature_set_def credit_example_def tile_example_def
          one_example_def)
  qed (simp_all add: credit_example_def lr_example_def)
  then show ?thesis
    by (auto simp: R q_example_def td_decay_def c_pow_def Transition_def credit_example_def)
qed

lemma read_all_cong: "(\<And>p. rd r p = rd' r p) \<Longrightarrow> read_all rd r ps = read_all rd' r ps"
  by (induction ps) simp_all

lemma max_value_greedy:
  assumes "max_value rd (qp_discretizer qp) (qp_projector qp) r s = Inr m"
    and "\<And>p. rd r p = rep_read1 ops r p" and "qp_sampler qp = greedy_ops"
  shows "\<exists>g'. qp_value ops qp r s g = Inr (m, g')"
proof -
  obtain variants vs where "disc_options (qp_discretizer qp) s = Some variants"
    "read_all rd r (pj_variants (qp_projector qp) s variants) = Inr vs" "fold_fmax vs = Inr m"
    using assms(1) by (auto simp: max_value_def chain_Inr)
  then have "qp_values ops qp r s = Inr vs" "vs \<noteq> []" "m = Max (set vs)"
    using read_all_cong [where rd = rd and rd' = "rep_read1 ops" and r = r, OF assms(2)]
    by (auto simp: qp_values_def fold_fmax_Inr)
  then show ?thesis using greedy_value [OF _ _ assms(3)] by simp
qed

text \<open>C38: without a separate target network, Q learning is expected SARSA whose policy is greedy on the same
  representation, but for the moment at which they read the value of the action they criticize. From the same
  state, if Q learning succeeds then expected SARSA makes the same learning step. Without an action to criticize
  both return 0; otherwise Q learning compares the target with the value before the step and expected SARSA with
  the value after it, so that its critique is smaller by what the step added to that value.\<close>

theorem q_is_greedy_expected_sarsa:
  assumes "q_criticize ops (qp_discretizer qp) (qp_projector qp) q t act c = Inr (x, c')"
    and "\<And>p. rp_read_target ops (cr_rep c) p = rp_read ops (cr_rep c) p"
    and "qp_sampler qp = greedy_ops"
  shows "\<exists>g'. if a_v act = []
    then x = 0 \<and> expected_sarsa_criticize ops (qp_projector qp) q (qp_value ops qp) t act c g = Inr (0, c', g')
    else \<exists>before. rep_read1 ops (cr_rep c) (pj_pair (qp_projector qp) (o_v (t_prev_obs t)) (a_v act)) = Inr before \<and>
      expected_sarsa_criticize ops (qp_projector qp) q (qp_value ops qp) t act c g =
        chain (rep_read1 ops (cr_rep c') (pj_pair (qp_projector qp) (o_v (t_prev_obs t)) (a_v act)))
          (\<lambda>after. Inr (x - (after - before), c', g'))"
proof -
  let ?m = "max_value (rep_read_target1 ops) (qp_discretizer qp) (qp_projector qp) (cr_rep c) (o_v (t_obs t))"
  let ?pa = "pj_pair (qp_projector qp) (o_v (t_prev_obs t)) (a_v act)"
  have same: "rep_read_target1 ops (cr_rep c) p = rep_read1 ops (cr_rep c) p" for p
    using assms(2) by (simp add: rep_read_target1_def rep_read1_def)
  obtain target v where target: "td_target (td_gamma q) t ?m = Inr target" and
    v: "rep_read1 ops (cr_rep c) (prev_pair (qp_projector qp) t) = Inr v" and
    x: "critique_of ops (qp_projector qp) t act target (cr_rep c) = Inr x" and
    l: "learn_step ops (td_alpha q) (td_decay q t) (prev_pair (qp_projector qp) t) target (target - v) c = Inr c'"
    using assms(1) by (auto simp: q_criticize_def chain_Inr Let_def)
  obtain g' where e: "expected_sarsa_criticize ops (qp_projector qp) q (qp_value ops qp) t act c g =
      chain (critique_of ops (qp_projector qp) t act target (cr_rep c')) (\<lambda>critique. Inr (critique, c', g'))"
  proof (cases "a_v (t_action t) = []")
    case True
    then show ?thesis using target v l that [of g] by (simp add: expected_sarsa_criticize_def td_target_def)
  next
    case False
    then obtain m where m: "?m = Inr m" "target = t_reward t + c_pow (td_gamma q) (t_tau t) * m"
      using target by (auto simp: td_target_def chain_Inr)
    from max_value_greedy [OF m(1) same assms(3)] obtain g' where
      "qp_value ops qp (cr_rep c) (o_v (t_obs t)) g = Inr (m, g')" by blast
    then show ?thesis using False m(2) v l that [of g'] by (simp add: expected_sarsa_criticize_def)
  qed
  show ?thesis
  proof (cases "a_v act = []")
    case True
    then show ?thesis using e x by (auto simp: critique_of_def)
  next
    case False
    then obtain before where before: "rep_read1 ops (cr_rep c) ?pa = Inr before" "x = target - before"
      using x by (auto simp: critique_of_def chain_Inr)
    have "chain (critique_of ops (qp_projector qp) t act target (cr_rep c')) (\<lambda>critique. Inr (critique, c', g')) =
        chain (rep_read1 ops (cr_rep c') ?pa) (\<lambda>after. Inr (x - (after - before), c', g'))"
      using False before(2) by (cases "rep_read1 ops (cr_rep c') ?pa") (simp_all add: critique_of_def)
    then show ?thesis using False before(1) e by (intro exI [of _ g']) simp
  qed
qed

definition qp_example :: q_policy where
  "qp_example = \<lparr>qp_discretizer = ud_disc grid_example, qp_projector = base_projector (\<lambda>v. one_example),
     qp_sampler = greedy_ops\<rparr>"

lemma foldl_max_same: "foldl max x (map (\<lambda>_. x) vs) = (x :: real)"
  by (induction vs) simp_all

text \<open>A step with reward 4 to a state worth 2, criticized at its own action: the value of 2 moves half way to 6.\<close>

theorem q_is_greedy_expected_sarsa_witness:
  "\<exists>c' g'. q_criticize lr_ops (qp_discretizer qp_example) (qp_projector qp_example) q_example
      (Transition (Observation [1] False) (Action [1] atGreedy) 1 4 (Observation [0] False) (Action [1] atGreedy))
      (Action [1] atGreedy) critic_example = Inr (4, c') \<and>
    expected_sarsa_criticize lr_ops (qp_projector qp_example) q_example (qp_value lr_ops qp_example)
      (Transition (Observation [1] False) (Action [1] atGreedy) 1 4 (Observation [0] False) (Action [1] atGreedy))
      (Action [1] atGreedy) critic_example rand_zero = Inr (2, c', g')"
proof -
  let ?a = "Action [1] atGreedy" and ?q = q_example
  let ?t = "Transition (Observation [1] False) ?a 1 4 (Observation [0] False) ?a"
  have pair: "pj_pair (qp_projector qp_example) v w = one_example" for v w
    by (simp add: qp_example_def base_projector_def)
  have learns: "lr_learns lr_example one_example"
    by (simp add: lr_learns_def lr_example_def one_example_def lr_in_range_def lr_raw_def lr_sum_def
        invalid_index_def size_max_def)
  have r: "rep_read1 lr_ops lr_example one_example = Inr 2"
    by (simp add: lr_example_def one_example_def lr_in_range_def
          rep_read1_def lr_ops_def lr_read_def lr_read_params_def lr_sum_def lr_clip_def)
  have same: "rep_read_target1 lr_ops lr_example = rep_read1 lr_ops lr_example"
    by (rule ext) (simp add: rep_read_target1_def rep_read1_def lr_ops_def lr_read_target_def lr_read_def lr_example_def)
  have "ud_wf grid_example" using ud_configure_wf [OF grid_example_configure] by simp
  from ud.options_at [OF this] obtain vs where vs: "disc_options (ud_disc grid_example) [0] = Some vs"
    "length vs = ud_size grid_example" by (auto simp: ud_disc_def)
  have "ud_size grid_example = 6" by (simp add: ud_size_def grid_example_def vec_prod_def)
  with vs(2) have "vs \<noteq> []" by auto
  then have fold: "fold_fmax (map (\<lambda>_. 2) vs) = Inr 2" by (cases vs) (simp_all add: fold_fmax_def foldl_max_same)
  have "read_all (rep_read1 lr_ops) lr_example (map (\<lambda>_. one_example) vs) = Inr (map (\<lambda>_. 2) vs)"
    using r by (simp add: read_all_Inr)
  then have m: "max_value (rep_read_target1 lr_ops) (qp_discretizer qp_example) (qp_projector qp_example) lr_example [0] = Inr 2"
    using vs(1) fold read_all_cong [of "rep_read_target1 lr_ops" lr_example "rep_read1 lr_ops"]
    by (simp add: max_value_def qp_example_def base_projector_def same)
  have "lr_allowed lr_example [6]" by (simp add: lr_allowed_def lr_example_def)
  with learns obtain c' where l: "learn_step lr_ops (1 / 2) (td_decay ?q ?t) one_example 6 (6 - 2) critic_example = Inr c'"
    and after: "rep_read1 lr_ops (cr_rep c') one_example = Inr 4"
    using lr_td.learn_step_moves [of critic_example one_example 6 "1 / 2" 2 "td_decay ?q ?t" "6 - 2"] r
    by (auto simp: critic_example_def)
  have q: "q_criticize lr_ops (qp_discretizer qp_example) (qp_projector qp_example) ?q ?t ?a critic_example = Inr (4, c')"
    using m r l by (simp add: q_criticize_def prev_pair_def pair td_target_def critique_of_def Transition_def
        Observation_def Action_def critic_example_def q_example_def c_pow_def)
  have "rp_read_target lr_ops (cr_rep critic_example) p = rp_read lr_ops (cr_rep critic_example) p" for p
    by (simp add: lr_ops_def lr_read_target_def lr_read_def critic_example_def lr_example_def)
  moreover have "qp_sampler qp_example = greedy_ops" by (simp add: qp_example_def)
  ultimately show ?thesis
    using q_is_greedy_expected_sarsa [OF q, of rand_zero] q after r by (auto simp: pair Action_def critic_example_def)
qed

end
