(* ===== verification/Agents.thy ===== *)
theory Agents
  imports Transitions Policies Fifo
begin

text \<open>
  Agents (\<open>base/include/grl/agent.h\<close> and \<open>base/src/agents/\<close>): objects that are told of the start of
  an episode, of every step and of an absorbing end, and that answer with an action. Modelled are
  the fixed, TD, delayed TD, black box, solver, replay and Dyna agents, the master agents that run
  other agents, and the filters around an agent.

  What an agent uses (policy, predictor, solver, subagents) works on a shared state of type \<open>'s\<close>,
  so that a policy sees what a predictor has learnt. The thread-local episode state of the
  TD agents is the one of a single thread, and replay and planning are the synchronous ones.
\<close>

type_synonym 'x res = "rep_error + 'x"

section \<open>Interfaces\<close>

text \<open>The action of \<open>start\<close> and \<open>step\<close> is passed in and out.\<close>

record 's agent_ops =
  ag_start :: "observation \<Rightarrow> action \<Rightarrow> 's \<Rightarrow> (action \<times> 's) res"
  ag_step :: "real \<Rightarrow> observation \<Rightarrow> real \<Rightarrow> action \<Rightarrow> 's \<Rightarrow> (action \<times> 's) res"
  ag_end :: "real \<Rightarrow> observation \<Rightarrow> real \<Rightarrow> 's \<Rightarrow> 's res"

record 's learner_ops =
  lo_act :: "real \<Rightarrow> observation \<Rightarrow> action \<Rightarrow> 's \<Rightarrow> (action \<times> 's) res"
  lo_update :: "transition \<Rightarrow> 's \<Rightarrow> 's res"
  lo_finalize :: "'s \<Rightarrow> 's"

section \<open>Fixed agent\<close>

record 's fixed_agent =
  fa_time :: real
  fa_world :: 's

definition fixed_start :: "'s learner_ops \<Rightarrow> observation \<Rightarrow> action \<Rightarrow> 's fixed_agent \<Rightarrow> (action \<times> 's fixed_agent) res" where
  "fixed_start lo obs a f =
     chain (lo_act lo 0 obs a (fa_world f)) (\<lambda>(a, w). Inr (a, f\<lparr>fa_time := 0, fa_world := w\<rparr>))"

definition fixed_step ::
    "'s learner_ops \<Rightarrow> real \<Rightarrow> observation \<Rightarrow> real \<Rightarrow> action \<Rightarrow> 's fixed_agent \<Rightarrow> (action \<times> 's fixed_agent) res" where
  "fixed_step lo tau obs reward a f =
     (let f = f\<lparr>fa_time := fa_time f + tau\<rparr>
      in chain (lo_act lo (fa_time f) obs a (fa_world f)) (\<lambda>(a, w). Inr (a, f\<lparr>fa_world := w\<rparr>)))"

definition fixed_end :: "real \<Rightarrow> observation \<Rightarrow> real \<Rightarrow> 's fixed_agent \<Rightarrow> 's fixed_agent res" where
  "fixed_end tau obs reward f = Inr f"

section \<open>TD agent\<close>

record 's td_agent =
  ta_time :: real
  ta_prev_obs :: observation
  ta_prev_action :: action
  ta_world :: 's

definition td_start :: "'s learner_ops \<Rightarrow> observation \<Rightarrow> action \<Rightarrow> 's td_agent \<Rightarrow> (action \<times> 's td_agent) res" where
  "td_start lo obs a s =
     chain (lo_act lo 0 obs a (lo_finalize lo (ta_world s))) (\<lambda>(a, w).
       Inr (a, s\<lparr>ta_time := 0, ta_prev_obs := obs, ta_prev_action := a, ta_world := w\<rparr>))"

definition td_step ::
    "'s learner_ops \<Rightarrow> real \<Rightarrow> observation \<Rightarrow> real \<Rightarrow> action \<Rightarrow> 's td_agent \<Rightarrow> (action \<times> 's td_agent) res" where
  "td_step lo tau obs reward a s =
     (let s = s\<lparr>ta_time := ta_time s + tau\<rparr>
      in chain (lo_act lo (ta_time s) obs a (ta_world s)) (\<lambda>(a, w).
         chain (lo_update lo (Transition (ta_prev_obs s) (ta_prev_action s) tau reward obs a) w) (\<lambda>w.
           Inr (a, s\<lparr>ta_prev_obs := obs, ta_prev_action := a, ta_world := w\<rparr>))))"

definition td_end :: "'s learner_ops \<Rightarrow> real \<Rightarrow> observation \<Rightarrow> real \<Rightarrow> 's td_agent \<Rightarrow> 's td_agent res" where
  "td_end lo tau obs reward s =
     chain (lo_update lo (Transition (ta_prev_obs s) (ta_prev_action s) tau reward obs no_action) (ta_world s))
       (\<lambda>w. Inr (s\<lparr>ta_world := w\<rparr>))"

definition td_agent_ops :: "'s learner_ops \<Rightarrow> 's td_agent agent_ops" where
  "td_agent_ops lo = \<lparr>ag_start = td_start lo, ag_step = td_step lo, ag_end = td_end lo\<rparr>"

section \<open>Delayed TD agent\<close>

record 's delayed_agent =
  da_time :: real
  da_prev_obs :: observation
  da_prev_action :: action
  da_prev_prev_action :: action
  da_world :: 's

definition combine :: "real \<Rightarrow> action \<Rightarrow> action \<Rightarrow> action res" where
  "combine control_delay a0 a1 =
     (if control_delay \<noteq> 0 \<and> control_delay \<noteq> 1
      then if length (a_v a0) \<noteq> length (a_v a1) then Inl RepUndefined
           else Inr (Action (vadd (vscale control_delay (a_v a0)) (vscale (1 - control_delay) (a_v a1)))
                  (if a_type a0 = atGreedy \<and> a_type a1 = atGreedy then atGreedy else atExploratory))
      else if control_delay = 1 then Inr a0 else Inr a1)"

definition delayed_start ::
    "'s learner_ops \<Rightarrow> observation \<Rightarrow> action \<Rightarrow> 's delayed_agent \<Rightarrow> (action \<times> 's delayed_agent) res" where
  "delayed_start lo obs a s =
     chain (lo_act lo 0 obs a (lo_finalize lo (da_world s))) (\<lambda>(a, w).
       Inr (a, s\<lparr>da_time := 0, da_prev_obs := obs, da_prev_action := a,
                 da_prev_prev_action := Action (ConstantVector (length (a_v a)) 0) atGreedy,
                 da_world := w\<rparr>))"

definition delayed_step ::
    "'s learner_ops \<Rightarrow> real \<Rightarrow> real \<Rightarrow> observation \<Rightarrow> real \<Rightarrow> action \<Rightarrow> 's delayed_agent \<Rightarrow>
     (action \<times> 's delayed_agent) res" where
  "delayed_step lo delay tau obs reward a s =
     (let s = s\<lparr>da_time := da_time s + tau\<rparr>
      in chain (lo_act lo (da_time s) obs a (da_world s)) (\<lambda>(a, w).
         chain (combine delay (da_prev_prev_action s) (da_prev_action s)) (\<lambda>prev_hat.
         chain (combine delay (da_prev_action s) a) (\<lambda>hat.
         chain (lo_update lo (Transition (da_prev_obs s) prev_hat tau reward obs hat) w) (\<lambda>w.
           Inr (a, s\<lparr>da_prev_obs := obs, da_prev_prev_action := da_prev_action s,
                     da_prev_action := a, da_world := w\<rparr>))))))"

definition delayed_end ::
    "'s learner_ops \<Rightarrow> real \<Rightarrow> real \<Rightarrow> observation \<Rightarrow> real \<Rightarrow> 's delayed_agent \<Rightarrow> 's delayed_agent res" where
  "delayed_end lo delay tau obs reward s =
     chain (combine delay (da_prev_prev_action s) (da_prev_action s)) (\<lambda>prev_hat.
     chain (lo_update lo (Transition (da_prev_obs s) prev_hat tau reward obs no_action) (da_world s)) (\<lambda>w.
       Inr (s\<lparr>da_world := w\<rparr>)))"

section \<open>Black box agent\<close>

text \<open>The optimizer: the size of its population, the policy of a member (requesting it may change the
  optimizer), and the report of a member's reward.\<close>

record ('o, 'p) optimizer_ops =
  op_size :: "'o \<Rightarrow> nat"
  op_request :: "nat \<Rightarrow> 'o \<Rightarrow> 'p \<times> 'o"
  op_report :: "nat \<Rightarrow> real \<Rightarrow> 'o \<Rightarrow> 'o"

record ('o, 'p) black_box =
  bb_episodes :: int
  bb_episode :: int
  bb_index :: nat
  bb_reward :: real
  bb_time :: real
  bb_policy :: 'p
  bb_optimizer :: 'o

definition bb_reset :: "('o, 'p) optimizer_ops \<Rightarrow> ('o, 'p) black_box \<Rightarrow> ('o, 'p) black_box" where
  "bb_reset oo b =
     (let (p, opt) = op_request oo 0 (bb_optimizer b)
      in b\<lparr>bb_index := 0, bb_episode := - 1, bb_reward := 0, bb_policy := p, bb_optimizer := opt\<rparr>)"

text \<open>The part of \<open>start\<close> before the policy acts; the last episode of a member reports it.\<close>

definition bb_next :: "('o, 'p) optimizer_ops \<Rightarrow> ('o, 'p) black_box \<Rightarrow> ('o, 'p) black_box" where
  "bb_next oo b =
     (let b = b\<lparr>bb_episode := bb_episode b + 1\<rparr>
      in if bb_episode b = bb_episodes b
         then let opt = op_report oo (bb_index b) (bb_reward b) (bb_optimizer b);
                  i = (if bb_index b + 1 = op_size oo opt then 0 else bb_index b + 1);
                  (p, opt) = op_request oo i opt
              in b\<lparr>bb_index := i, bb_episode := 0, bb_reward := 0, bb_policy := p, bb_optimizer := opt\<rparr>
         else b)"

definition bb_start ::
    "('o, 'p) optimizer_ops \<Rightarrow> ('p \<Rightarrow> real \<Rightarrow> observation \<Rightarrow> action \<Rightarrow> (action \<times> 'p) res) \<Rightarrow>
     observation \<Rightarrow> action \<Rightarrow> ('o, 'p) black_box \<Rightarrow> (action \<times> ('o, 'p) black_box) res" where
  "bb_start oo act obs a b =
     (let b = (bb_next oo b)\<lparr>bb_time := 0\<rparr>
      in chain (act (bb_policy b) (bb_time b) obs a) (\<lambda>(a, p). Inr (a, b\<lparr>bb_policy := p\<rparr>)))"

definition bb_step ::
    "('p \<Rightarrow> real \<Rightarrow> observation \<Rightarrow> action \<Rightarrow> (action \<times> 'p) res) \<Rightarrow>
     real \<Rightarrow> observation \<Rightarrow> real \<Rightarrow> action \<Rightarrow> ('o, 'p) black_box \<Rightarrow> (action \<times> ('o, 'p) black_box) res" where
  "bb_step act tau obs reward a b =
     (let b = b\<lparr>bb_reward := bb_reward b + reward, bb_time := bb_time b + tau\<rparr>
      in chain (act (bb_policy b) (bb_time b) obs a) (\<lambda>(a, p). Inr (a, b\<lparr>bb_policy := p\<rparr>)))"

definition bb_end :: "real \<Rightarrow> observation \<Rightarrow> real \<Rightarrow> ('o, 'p) black_box \<Rightarrow> ('o, 'p) black_box res" where
  "bb_end tau obs reward b = Inr (b\<lparr>bb_reward := bb_reward b + reward\<rparr>)"

end
