(* ===== verification/ReplayAgents.thy ===== *)
theory ReplayAgents
  imports Agents
begin

text \<open>
  Agents that learn more than once from what they saw: the experience replay agent
  (\<open>agents/replay.{h,cpp}\<close>), which keeps a ring of transitions, and the Dyna agent
  (\<open>agents/dyna.{h,cpp}\<close>), which runs a second agent in a model of the world; besides, the
  solver agent (\<open>agents/solver.{h,cpp}\<close>). Replay and planning run in the control thread
  (\<open>threads = 0\<close>).

  The result \<open>None\<close> is a call that does not return: a replay loop that never ends, or
  waiting for a replay thread that does not exist.
\<close>

section \<open>Replay\<close>

record 's batch_learner_ops = "'s learner_ops" +
  lo_update_batch :: "transition list \<Rightarrow> 's \<Rightarrow> 's res"

record 's replay_agent =
  ra_memory_size :: nat
  ra_replay_steps :: nat
  ra_batch_size :: nat
  ra_observation_steps :: nat
  ra_transitions :: "transition list"
  ra_time :: real
  ra_prev_obs :: observation
  ra_prev_action :: action
  ra_total_control :: nat
  ra_total_replay :: nat
  ra_total_transitions :: nat
  ra_rand :: rand
  ra_world :: 's

text \<open>Adding to the replay memory, in \<open>step\<close> and in \<open>end\<close>.\<close>

definition remember :: "transition \<Rightarrow> 's replay_agent \<Rightarrow> 's replay_agent res" where
  "remember t s =
     (let s' = s\<lparr>ra_total_transitions := ra_total_transitions s + 1,
                 ra_total_control := ra_total_control s + 1\<rparr>
      in if length (ra_transitions s) < ra_memory_size s
         then Inr (s'\<lparr>ra_transitions := ra_transitions s @ [t]\<rparr>)
         else if ra_memory_size s = 0 then Inl RepUndefined
         else Inr (s'\<lparr>ra_transitions :=
                (ra_transitions s)[ra_total_transitions s mod ra_memory_size s := t]\<rparr>))"

text \<open>A transition drawn from the memory, and a minibatch.\<close>

definition draw_one :: "transition list \<Rightarrow> rand \<Rightarrow> (transition \<times> rand) res" where
  "draw_one ts g =
     (case getInteger (length ts) g of
        None \<Rightarrow> Inl RepUndefined
      | Some (ii, g) \<Rightarrow> if ii < length ts then Inr (ts ! ii, g) else Inl RepUndefined)"

fun draw_batch :: "nat \<Rightarrow> transition list \<Rightarrow> rand \<Rightarrow> (transition list \<times> rand) res" where
  "draw_batch 0 ts g = Inr ([], g)"
| "draw_batch (Suc n) ts g =
     chain (draw_one ts g) (\<lambda>(t, g). chain (draw_batch n ts g) (\<lambda>(b, g). Inr (t # b, g)))"

text \<open>The body of the replay loop.\<close>

definition replay_once :: "'s batch_learner_ops \<Rightarrow> 's replay_agent \<Rightarrow> 's replay_agent res" where
  "replay_once lo s =
     chain (if 1 < ra_batch_size s
            then chain (draw_batch (ra_batch_size s) (ra_transitions s) (ra_rand s)) (\<lambda>(b, g).
                   chain (lo_update_batch lo b (ra_world s)) (\<lambda>w. Inr (w, g)))
            else chain (draw_one (ra_transitions s) (ra_rand s)) (\<lambda>(t, g).
                   chain (lo_update lo t (ra_world s)) (\<lambda>w. Inr (w, g)))) (\<lambda>(w, g).
       Inr (s\<lparr>ra_world := lo_finalize lo w, ra_rand := g,
              ra_total_replay := ra_total_replay s + ra_batch_size s\<rparr>))"

partial_function (option) replay_loop ::
    "'s batch_learner_ops \<Rightarrow> nat \<Rightarrow> 's replay_agent \<Rightarrow> 's replay_agent res option" where
  "replay_loop lo goal s =
     (if ra_total_replay s < goal
      then (case replay_once lo s of Inl e \<Rightarrow> Some (Inl e) | Inr s \<Rightarrow> replay_loop lo goal s)
      else Some (Inr s))"

definition replay_goal :: "'s replay_agent \<Rightarrow> nat" where
  "replay_goal s = ra_total_control s * ra_replay_steps s"

definition replay :: "'s batch_learner_ops \<Rightarrow> 's replay_agent \<Rightarrow> 's replay_agent res option" where
  "replay lo s =
     (if length (ra_transitions s) < ra_observation_steps s
      then Some (Inr (s\<lparr>ra_total_replay := replay_goal s\<rparr>))
      else replay_loop lo (replay_goal s) s)"

text \<open>Replay, then the wait until replay has caught up.\<close>

definition replay_and_wait :: "'s batch_learner_ops \<Rightarrow> 's replay_agent \<Rightarrow> 's replay_agent res option" where
  "replay_and_wait lo s =
     (case replay lo s of
        Some (Inr s) \<Rightarrow> if ra_total_replay s < replay_goal s then None else Some (Inr s)
      | r \<Rightarrow> r)"

definition replay_reset :: "'s replay_agent \<Rightarrow> 's replay_agent" where
  "replay_reset s =
     s\<lparr>ra_transitions := [], ra_total_replay := 0, ra_total_control := 0, ra_total_transitions := 0\<rparr>"

definition replay_start ::
    "'s batch_learner_ops \<Rightarrow> observation \<Rightarrow> action \<Rightarrow> 's replay_agent \<Rightarrow> (action \<times> 's replay_agent) res" where
  "replay_start lo obs a s =
     chain (lo_act lo 0 obs a (ra_world s)) (\<lambda>(a, w).
       Inr (a, s\<lparr>ra_time := 0, ra_prev_obs := obs, ra_prev_action := a, ra_world := w\<rparr>))"

definition replay_step ::
    "'s batch_learner_ops \<Rightarrow> real \<Rightarrow> observation \<Rightarrow> real \<Rightarrow> action \<Rightarrow> 's replay_agent \<Rightarrow>
     (action \<times> 's replay_agent) res option" where
  "replay_step lo tau obs reward a s =
     (let s = s\<lparr>ra_time := ra_time s + tau\<rparr>
      in case chain (lo_act lo (ra_time s) obs a (ra_world s)) (\<lambda>(a, w).
           chain (remember (Transition (ra_prev_obs s) (ra_prev_action s) tau reward obs a)
                    (s\<lparr>ra_world := w\<rparr>)) (\<lambda>s. Inr (a, s))) of
           Inl e \<Rightarrow> Some (Inl e)
         | Inr (a, s) \<Rightarrow>
             map_option (\<lambda>r. chain r (\<lambda>s. Inr (a, s\<lparr>ra_prev_obs := obs, ra_prev_action := a\<rparr>)))
               (replay_and_wait lo s))"

definition replay_end ::
    "'s batch_learner_ops \<Rightarrow> real \<Rightarrow> observation \<Rightarrow> real \<Rightarrow> 's replay_agent \<Rightarrow> 's replay_agent res option" where
  "replay_end lo tau obs reward s =
     (case remember (Transition (ra_prev_obs s) (ra_prev_action s) tau reward obs no_action) s of
        Inl e \<Rightarrow> Some (Inl e)
      | Inr s \<Rightarrow> replay_and_wait lo s)"

section \<open>Dyna\<close>

text \<open>What the model predicts.\<close>

record forecast =
  fc_tau :: real
  fc_next :: observation
  fc_reward :: real
  fc_terminal :: int

text \<open>The state predicted from, the action of the planning agent, and whether the last prediction was
  terminal, are local variables of \<open>runModel\<close>.\<close>

record 's dyna_agent =
  dy_planning_steps :: nat
  dy_planning_horizon :: nat
  dy_start_obs :: "observation fifo"
  dy_prev_obs :: observation
  dy_prev_action :: action
  dy_time :: real
  dy_planning_reward :: real
  dy_actual_reward :: real
  dy_planned_steps :: nat
  dy_control_steps :: nat
  dy_total_control :: nat
  dy_total_planned :: nat
  dy_rand :: rand
  dy_world :: 's

record dyna_episode =
  de_obs :: observation
  de_action :: action
  de_terminal :: int
  de_steps :: nat

text \<open>A new planning episode from a stored start state, if the last one has ended.\<close>

definition plan_restart ::
    "'s agent_ops \<Rightarrow> dyna_episode \<Rightarrow> 's dyna_agent \<Rightarrow> (dyna_episode \<times> 's dyna_agent) res" where
  "plan_restart ag ep s =
     (if de_terminal ep \<noteq> 0
      then chain (of_option (fifo_draw no_obs (dy_start_obs s) (dy_rand s))) (\<lambda>(obs, g).
           chain (ag_start ag obs (de_action ep) (dy_world s)) (\<lambda>(a, w).
             Inr (ep\<lparr>de_steps := 0, de_obs := obs, de_action := a\<rparr>, s\<lparr>dy_rand := g, dy_world := w\<rparr>)))
      else Inr (ep, s))"

definition plan_once ::
    "'s agent_ops \<Rightarrow> ('s \<Rightarrow> observation \<Rightarrow> action \<Rightarrow> forecast res) \<Rightarrow> dyna_episode \<Rightarrow> 's dyna_agent \<Rightarrow>
     (dyna_episode \<times> 's dyna_agent) res" where
  "plan_once ag model ep s =
     chain (plan_restart ag ep s) (\<lambda>(ep, s).
     chain (model (dy_world s) (de_obs ep) (de_action ep)) (\<lambda>f.
     let ep = ep\<lparr>de_obs := fc_next f, de_terminal := fc_terminal f\<rparr>
     in chain (if o_v (de_obs ep) \<noteq> []
               then chain (if fc_terminal f = 2
                           then chain (ag_end ag (fc_tau f) (de_obs ep) (fc_reward f) (dy_world s))
                                  (\<lambda>w. Inr (de_action ep, w))
                           else ag_step ag (fc_tau f) (de_obs ep) (fc_reward f) (de_action ep) (dy_world s))
                      (\<lambda>(a, w). Inr (ep\<lparr>de_action := a\<rparr>,
                         s\<lparr>dy_world := w, dy_planning_reward := dy_planning_reward s + fc_reward f,
                           dy_planned_steps := dy_planned_steps s + 1,
                           dy_total_planned := dy_total_planned s + 1\<rparr>))
               else Inr (ep\<lparr>de_terminal := 1\<rparr>, s)) (\<lambda>(ep, s).
          Inr (if dy_planning_horizon s \<noteq> 0
               then (ep\<lparr>de_terminal := if de_steps ep = dy_planning_horizon s then 1 else de_terminal ep,
                        de_steps := de_steps ep + 1\<rparr>, s)
               else (ep, s)))))"

fun plan_loop ::
    "nat \<Rightarrow> 's agent_ops \<Rightarrow> ('s \<Rightarrow> observation \<Rightarrow> action \<Rightarrow> forecast res) \<Rightarrow> dyna_episode \<Rightarrow> 's dyna_agent \<Rightarrow>
     's dyna_agent res" where
  "plan_loop 0 ag model ep s = Inr s"
| "plan_loop (Suc n) ag model ep s =
     chain (plan_once ag model ep s) (\<lambda>(ep, s). plan_loop n ag model ep s)"

definition runModel ::
    "'s agent_ops \<Rightarrow> ('s \<Rightarrow> observation \<Rightarrow> action \<Rightarrow> forecast res) \<Rightarrow> 's dyna_agent \<Rightarrow> 's dyna_agent res" where
  "runModel ag model s =
     plan_loop (dy_planning_steps s) ag model
       \<lparr>de_obs = no_obs, de_action = no_action, de_terminal = 1, de_steps = 0\<rparr> s"

text \<open>The model predictor is optional.\<close>

definition learn_both :: "'s learner_ops \<Rightarrow> (transition \<Rightarrow> 's \<Rightarrow> 's res) option \<Rightarrow> transition \<Rightarrow> 's \<Rightarrow> 's res" where
  "learn_both lo model_update t w =
     chain (lo_update lo t w) (\<lambda>w. case model_update of None \<Rightarrow> Inr w | Some u \<Rightarrow> u t w)"

definition count_control :: "real \<Rightarrow> 's dyna_agent \<Rightarrow> 's dyna_agent" where
  "count_control reward s =
     s\<lparr>dy_actual_reward := dy_actual_reward s + reward, dy_control_steps := dy_control_steps s + 1,
       dy_total_control := dy_total_control s + 1\<rparr>"

definition dyna_start ::
    "'s learner_ops \<Rightarrow> observation \<Rightarrow> action \<Rightarrow> 's dyna_agent \<Rightarrow> (action \<times> 's dyna_agent) res" where
  "dyna_start lo obs a s =
     chain (lo_act lo 0 obs a (lo_finalize lo (dy_world s))) (\<lambda>(a, w).
     chain (of_option (fifo_add obs (dy_start_obs s))) (\<lambda>f.
       Inr (a, s\<lparr>dy_time := 0, dy_prev_obs := obs, dy_prev_action := a, dy_start_obs := f, dy_world := w\<rparr>)))"

definition dyna_step ::
    "'s learner_ops \<Rightarrow> (transition \<Rightarrow> 's \<Rightarrow> 's res) option \<Rightarrow> 's agent_ops \<Rightarrow>
     ('s \<Rightarrow> observation \<Rightarrow> action \<Rightarrow> forecast res) \<Rightarrow>
     real \<Rightarrow> observation \<Rightarrow> real \<Rightarrow> action \<Rightarrow> 's dyna_agent \<Rightarrow> (action \<times> 's dyna_agent) res" where
  "dyna_step lo model_update ag model tau obs reward a s =
     (let s = s\<lparr>dy_time := dy_time s + tau\<rparr>
      in chain (lo_act lo (dy_time s) obs a (dy_world s)) (\<lambda>(a, w).
         chain (learn_both lo model_update
                  (Transition (dy_prev_obs s) (dy_prev_action s) tau reward obs a) w) (\<lambda>w.
         chain (runModel ag model (s\<lparr>dy_world := w\<rparr>)) (\<lambda>s.
           Inr (a, count_control reward (s\<lparr>dy_prev_obs := obs, dy_prev_action := a\<rparr>))))))"

definition dyna_end ::
    "'s learner_ops \<Rightarrow> (transition \<Rightarrow> 's \<Rightarrow> 's res) option \<Rightarrow> 's agent_ops \<Rightarrow>
     ('s \<Rightarrow> observation \<Rightarrow> action \<Rightarrow> forecast res) \<Rightarrow>
     real \<Rightarrow> observation \<Rightarrow> real \<Rightarrow> 's dyna_agent \<Rightarrow> 's dyna_agent res" where
  "dyna_end lo model_update ag model tau obs reward s =
     chain (learn_both lo model_update
              (Transition (dy_prev_obs s) (dy_prev_action s) tau reward obs no_action) (dy_world s)) (\<lambda>w.
     chain (runModel ag model (s\<lparr>dy_world := w\<rparr>)) (\<lambda>s. Inr (count_control reward s)))"

definition dyna_report :: "'s dyna_agent \<Rightarrow> 's dyna_agent" where
  "dyna_report s =
     s\<lparr>dy_planning_reward := 0, dy_planned_steps := 0, dy_actual_reward := 0, dy_control_steps := 0\<rparr>"

definition dyna_reset :: "'s dyna_agent \<Rightarrow> 's dyna_agent" where
  "dyna_reset s =
     s\<lparr>dy_total_planned := 0, dy_total_control := 0, dy_start_obs := fifo_clear (dy_start_obs s)\<rparr>"

section \<open>Solver agent\<close>

record 's solver_ops =
  so_solve :: "'s \<Rightarrow> 's res"
  so_solve_from :: "observation \<Rightarrow> 's \<Rightarrow> 's res"
  so_resolve :: "real \<Rightarrow> observation \<Rightarrow> 's \<Rightarrow> 's res"

record 's solver_agent =
  sv_interval :: nat
  sv_episodes :: nat
  sv_time :: real
  sv_prev_obs :: observation
  sv_prev_action :: action
  sv_world :: 's

text \<open>The predictor is optional.\<close>

definition solver_start ::
    "'s learner_ops \<Rightarrow> bool \<Rightarrow> 's solver_ops \<Rightarrow> observation \<Rightarrow> action \<Rightarrow> 's solver_agent \<Rightarrow>
     (action \<times> 's solver_agent) res" where
  "solver_start lo predicts so obs a s =
     (let w = (if predicts then lo_finalize lo (sv_world s) else sv_world s);
          n = sv_episodes s + 1
      in chain (if sv_interval s \<noteq> 0 \<and> n mod sv_interval s = 0 then so_solve so w else Inr w) (\<lambda>w.
         chain (so_solve_from so obs w) (\<lambda>w.
         chain (lo_act lo 0 obs a w) (\<lambda>(a, w).
           Inr (a, s\<lparr>sv_time := 0, sv_episodes := n, sv_prev_obs := obs, sv_prev_action := a,
                     sv_world := w\<rparr>)))))"

definition solver_step ::
    "'s learner_ops \<Rightarrow> bool \<Rightarrow> 's solver_ops \<Rightarrow> real \<Rightarrow> observation \<Rightarrow> real \<Rightarrow> action \<Rightarrow> 's solver_agent \<Rightarrow>
     (action \<times> 's solver_agent) res" where
  "solver_step lo predicts so tau obs reward a s =
     (let s = s\<lparr>sv_time := sv_time s + tau\<rparr>
      in chain (so_resolve so (sv_time s) obs (sv_world s)) (\<lambda>w.
         chain (lo_act lo (sv_time s) obs a w) (\<lambda>(a, w).
         chain (if predicts
                then lo_update lo (Transition (sv_prev_obs s) (sv_prev_action s) tau reward obs a) w
                else Inr w) (\<lambda>w.
           Inr (a, s\<lparr>sv_prev_obs := obs, sv_prev_action := a, sv_world := w\<rparr>)))))"

definition solver_end ::
    "'s learner_ops \<Rightarrow> bool \<Rightarrow> real \<Rightarrow> observation \<Rightarrow> real \<Rightarrow> 's solver_agent \<Rightarrow> 's solver_agent res" where
  "solver_end lo predicts tau obs reward s =
     chain (if predicts
            then lo_update lo (Transition (sv_prev_obs s) (sv_prev_action s) tau reward obs no_action) (sv_world s)
            else Inr (sv_world s)) (\<lambda>w. Inr (s\<lparr>sv_world := w\<rparr>))"

end
