(* ===== verification/MasterAgents.thy ===== *)
theory MasterAgents
  imports Agents
begin

text \<open>
  Agents that run other agents: the sequential and additive masters (\<open>agents/sequential.{h,cpp}\<close>),
  the semi-Markov masters that run one or several subagents at a time
  (\<open>agents/smdp_master.{h,cpp}\<close>), and the filters that stand before an agent
  (\<open>agents/filtering.cpp\<close>, \<open>remapping.cpp\<close>, \<open>voluntary.cpp\<close>, \<open>compartmentalized.cpp\<close>).

  The subagents act on one shared state. Exporters only log and are left out.
\<close>

section \<open>Sequential masters\<close>

record 's seq_master =
  sq_time :: real
  sq_prev_obs :: observation
  sq_prev_action :: action
  sq_world :: 's

text \<open>The optional predictor.\<close>

definition opt_update :: "(transition \<Rightarrow> 's \<Rightarrow> 's res) option \<Rightarrow> transition \<Rightarrow> 's \<Rightarrow> 's res" where
  "opt_update u t w = (case u of None \<Rightarrow> Inr w | Some f \<Rightarrow> f t w)"

definition seq_start ::
    "'s agent_ops \<Rightarrow> 's agent_ops \<Rightarrow> observation \<Rightarrow> action \<Rightarrow> 's seq_master \<Rightarrow> (action \<times> 's seq_master) res" where
  "seq_start ag0 ag1 obs a s =
     chain (ag_start ag0 obs a (sq_world s)) (\<lambda>(a, w).
     chain (ag_start ag1 obs a w) (\<lambda>(a, w).
       Inr (a, s\<lparr>sq_time := 0, sq_prev_obs := obs, sq_prev_action := a, sq_world := w\<rparr>)))"

definition seq_step ::
    "'s agent_ops \<Rightarrow> 's agent_ops \<Rightarrow> (transition \<Rightarrow> 's \<Rightarrow> 's res) option \<Rightarrow>
     real \<Rightarrow> observation \<Rightarrow> real \<Rightarrow> action \<Rightarrow> 's seq_master \<Rightarrow> (action \<times> 's seq_master) res" where
  "seq_step ag0 ag1 u tau obs reward a s =
     chain (ag_step ag0 tau obs reward a (sq_world s)) (\<lambda>(a, w).
     chain (ag_step ag1 tau obs reward a w) (\<lambda>(a, w).
     chain (opt_update u (Transition (sq_prev_obs s) (sq_prev_action s) tau reward obs a) w) (\<lambda>w.
       Inr (a, s\<lparr>sq_time := sq_time s + tau, sq_prev_obs := obs, sq_prev_action := a, sq_world := w\<rparr>))))"

definition seq_end ::
    "'s agent_ops \<Rightarrow> 's agent_ops \<Rightarrow> (transition \<Rightarrow> 's \<Rightarrow> 's res) option \<Rightarrow>
     real \<Rightarrow> observation \<Rightarrow> real \<Rightarrow> 's seq_master \<Rightarrow> 's seq_master res" where
  "seq_end ag0 ag1 u tau obs reward s =
     chain (ag_end ag0 tau obs reward (sq_world s)) (\<lambda>w.
     chain (ag_end ag1 tau obs reward w) (\<lambda>w.
     chain (opt_update u (Transition (sq_prev_obs s) (sq_prev_action s) tau reward obs no_action) w) (\<lambda>w.
       Inr (s\<lparr>sq_world := w\<rparr>))))"

text \<open>The order of the action types: undefined, exploratory, greedy.\<close>

fun min_type :: "action_type \<Rightarrow> action_type \<Rightarrow> action_type" where
  "min_type atUndefined t = atUndefined"
| "min_type atExploratory t = (if t = atUndefined then atUndefined else atExploratory)"
| "min_type atGreedy t = t"

definition add_actions :: "dvec \<Rightarrow> dvec \<Rightarrow> action \<Rightarrow> action \<Rightarrow> action res" where
  "add_actions mi ma a a1 =
     (if length (a_v a) \<noteq> length (a_v a1) \<or> length mi < length (a_v a) \<or> length ma < length (a_v a)
      then Inl RepUndefined
      else Inr (Action (map2 (\<lambda>x (l, h). min (max x l) h) (vadd (a_v a) (a_v a1)) (zip mi ma))
                  (min_type (a_type a) (a_type a1))))"

definition add_start ::
    "dvec \<Rightarrow> dvec \<Rightarrow> 's agent_ops \<Rightarrow> 's agent_ops \<Rightarrow> observation \<Rightarrow> action \<Rightarrow> 's seq_master \<Rightarrow>
     (action \<times> 's seq_master) res" where
  "add_start mi ma ag0 ag1 obs a s =
     chain (ag_start ag0 obs a (sq_world s)) (\<lambda>(a, w).
     chain (ag_start ag1 obs no_action w) (\<lambda>(a1, w).
     chain (add_actions mi ma a a1) (\<lambda>a.
       Inr (a, s\<lparr>sq_time := 0, sq_prev_obs := obs, sq_prev_action := a, sq_world := w\<rparr>))))"

definition add_step ::
    "dvec \<Rightarrow> dvec \<Rightarrow> 's agent_ops \<Rightarrow> 's agent_ops \<Rightarrow> (transition \<Rightarrow> 's \<Rightarrow> 's res) option \<Rightarrow>
     real \<Rightarrow> observation \<Rightarrow> real \<Rightarrow> action \<Rightarrow> 's seq_master \<Rightarrow> (action \<times> 's seq_master) res" where
  "add_step mi ma ag0 ag1 u tau obs reward a s =
     chain (ag_step ag0 tau obs reward a (sq_world s)) (\<lambda>(a, w).
     chain (ag_step ag1 tau obs reward no_action w) (\<lambda>(a1, w).
     chain (add_actions mi ma a a1) (\<lambda>a.
     chain (opt_update u (Transition (sq_prev_obs s) (sq_prev_action s) tau reward obs a) w) (\<lambda>w.
       Inr (a, s\<lparr>sq_time := sq_time s + tau, sq_prev_obs := obs, sq_prev_action := a, sq_world := w\<rparr>)))))"

section \<open>Semi-Markov masters\<close>

record 's sub_ops =
  sb_start :: "observation \<Rightarrow> action \<Rightarrow> 's \<Rightarrow> ((action \<times> real) \<times> 's) res"
  sb_step :: "real \<Rightarrow> observation \<Rightarrow> real \<Rightarrow> action \<Rightarrow> 's \<Rightarrow> ((action \<times> real) \<times> 's) res"
  sb_end :: "real \<Rightarrow> observation \<Rightarrow> real \<Rightarrow> 's \<Rightarrow> 's res"
  sb_confidence :: "observation \<Rightarrow> real res"

text \<open>A subagent that only defines an agent and its confidence.\<close>

definition sub_of_agent :: "'s agent_ops \<Rightarrow> (observation \<Rightarrow> real res) \<Rightarrow> 's sub_ops" where
  "sub_of_agent ag conf =
     \<lparr>sb_start = (\<lambda>obs a w. chain (ag_start ag obs a w) (\<lambda>(a, w).
                    chain (conf obs) (\<lambda>c. Inr ((a, c), w)))),
      sb_step = (\<lambda>tau obs reward a w. chain (ag_step ag tau obs reward a w) (\<lambda>(a, w).
                    chain (conf obs) (\<lambda>c. Inr ((a, c), w)))),
      sb_end = ag_end ag,
      sb_confidence = conf\<rparr>"

text \<open>\<open>time_\<close> holds for every subagent when it last ran, \<open>-1\<close> if it is not running;
  \<open>reward_\<close> the discounted reward since then.\<close>

record 's master =
  ma_agents :: "'s sub_ops list"
  ma_gamma :: real
  ma_times :: dvec
  ma_rewards :: dvec
  ma_prev_time :: real
  ma_prev_obs :: observation
  ma_prev_action :: action
  ma_world :: 's

definition master_configure :: "'s sub_ops list \<Rightarrow> real \<Rightarrow> 's master \<Rightarrow> 's master res" where
  "master_configure agents gamma m =
     (if length agents < 1 then Inl RepBadParam
      else Inr (m\<lparr>ma_agents := agents, ma_gamma := gamma,
                  ma_times := ConstantVector (length agents) (- 1),
                  ma_rewards := ConstantVector (length agents) 0\<rparr>))"

definition master_reset :: "'s master \<Rightarrow> 's master" where
  "master_reset m = m\<lparr>ma_times := ConstantVector (length (ma_agents m)) (- 1)\<rparr>"

definition runSubAgent ::
    "nat \<Rightarrow> real \<Rightarrow> observation \<Rightarrow> action \<Rightarrow> 's master \<Rightarrow> ((action \<times> real) \<times> 's master) res" where
  "runSubAgent idx time obs a m =
     (if length (ma_agents m) \<le> idx then Inl RepUndefined
      else chain (if ma_times m ! idx < 0 then sb_start (ma_agents m ! idx) obs a (ma_world m)
                  else sb_step (ma_agents m ! idx) (time - ma_times m ! idx) obs (ma_rewards m ! idx) a
                         (ma_world m)) (\<lambda>(ac, w).
        Inr (ac, m\<lparr>ma_times := (ma_times m)[idx := time], ma_rewards := (ma_rewards m)[idx := 0],
                   ma_world := w\<rparr>)))"

text \<open>The derived classes: the most confident subagent, subagents until one is confident, and a
  random one.\<close>

fun most_confident :: "'s sub_ops list \<Rightarrow> observation \<Rightarrow> nat \<Rightarrow> real \<Rightarrow> nat \<Rightarrow> nat res" where
  "most_confident [] obs ii maxconf maxconfa = Inr maxconfa"
| "most_confident (s # ss) obs ii maxconf maxconfa =
     chain (sb_confidence s obs) (\<lambda>c.
       if c > maxconf then most_confident ss obs (ii + 1) c ii
       else most_confident ss obs (ii + 1) maxconf maxconfa)"

definition run_exclusive :: "real \<Rightarrow> observation \<Rightarrow> action \<Rightarrow> 's master \<Rightarrow> (action \<times> 's master) res" where
  "run_exclusive time obs a m =
     (case ma_agents m of
        [] \<Rightarrow> Inl RepUndefined
      | s # ss \<Rightarrow>
          chain (sb_confidence s obs) (\<lambda>c.
          chain (most_confident ss obs 1 c 0) (\<lambda>idx.
          chain (runSubAgent idx time obs a m) (\<lambda>((a, c), m). Inr (a, m)))))"

fun predicated_loop :: "nat list \<Rightarrow> real \<Rightarrow> observation \<Rightarrow> action \<Rightarrow> 's master \<Rightarrow> (action \<times> 's master) res" where
  "predicated_loop [] time obs a m = Inr (a, m)"
| "predicated_loop (ii # iis) time obs a m =
     chain (runSubAgent ii time obs a m) (\<lambda>((a, c), m).
       if c > 0.5 then Inr (a, m) else predicated_loop iis time obs a m)"

definition run_predicated :: "real \<Rightarrow> observation \<Rightarrow> action \<Rightarrow> 's master \<Rightarrow> (action \<times> 's master) res" where
  "run_predicated time obs a m = predicated_loop [0..<length (ma_agents m)] time obs a m"

text \<open>\<open>idx\<close> is the random integer.\<close>

definition run_random :: "nat \<Rightarrow> real \<Rightarrow> observation \<Rightarrow> action \<Rightarrow> 's master \<Rightarrow> (action \<times> 's master) res" where
  "run_random idx time obs a m = chain (runSubAgent idx time obs a m) (\<lambda>((a, c), m). Inr (a, m))"

text \<open>The subagents that were running but did not see the last step are ended where they stopped.\<close>

fun pseudo_end :: "nat list \<Rightarrow> 's master \<Rightarrow> 's master res" where
  "pseudo_end [] m = Inr m"
| "pseudo_end (ii # iis) m =
     chain (if 0 \<le> ma_times m ! ii \<and> ma_times m ! ii < ma_prev_time m
            then sb_end (ma_agents m ! ii) (ma_prev_time m - ma_times m ! ii) (ma_prev_obs m)
                   (ma_rewards m ! ii) (ma_world m)
            else Inr (ma_world m)) (\<lambda>w.
       pseudo_end iis (m\<lparr>ma_world := w, ma_times := (ma_times m)[ii := - 1]\<rparr>))"

definition master_start ::
    "(real \<Rightarrow> observation \<Rightarrow> action \<Rightarrow> 's master \<Rightarrow> (action \<times> 's master) res) \<Rightarrow>
     observation \<Rightarrow> action \<Rightarrow> 's master \<Rightarrow> (action \<times> 's master) res" where
  "master_start run obs a m =
     chain (pseudo_end [0..<length (ma_agents m)] m) (\<lambda>m.
     chain (run 0 obs a m) (\<lambda>(a, m).
       Inr (a, m\<lparr>ma_prev_obs := obs, ma_prev_action := a, ma_prev_time := 0\<rparr>)))"

definition add_rewards :: "real \<Rightarrow> 's master \<Rightarrow> 's master" where
  "add_rewards reward m =
     m\<lparr>ma_rewards := map2 (\<lambda>r t. r + c_pow (ma_gamma m) (ma_prev_time m - t) * reward)
                       (ma_rewards m) (ma_times m)\<rparr>"

definition master_step ::
    "(real \<Rightarrow> observation \<Rightarrow> action \<Rightarrow> 's master \<Rightarrow> (action \<times> 's master) res) \<Rightarrow>
     (transition \<Rightarrow> 's \<Rightarrow> 's res) option \<Rightarrow>
     real \<Rightarrow> observation \<Rightarrow> real \<Rightarrow> action \<Rightarrow> 's master \<Rightarrow> (action \<times> 's master) res" where
  "master_step run u tau obs reward a m =
     (let curtime = ma_prev_time m + tau; m = add_rewards reward m
      in chain (run curtime obs a m) (\<lambda>(a, m').
         chain (opt_update u (Transition (ma_prev_obs m) (ma_prev_action m) tau reward obs a) (ma_world m'))
           (\<lambda>w. Inr (a, m'\<lparr>ma_prev_obs := obs, ma_prev_action := a, ma_prev_time := curtime,
                          ma_world := w\<rparr>))))"

fun final_rewards :: "nat list \<Rightarrow> real \<Rightarrow> observation \<Rightarrow> 's master \<Rightarrow> 's master res" where
  "final_rewards [] curtime obs m = Inr m"
| "final_rewards (ii # iis) curtime obs m =
     chain (if 0 \<le> ma_times m ! ii
            then sb_end (ma_agents m ! ii) (curtime - ma_times m ! ii) obs (ma_rewards m ! ii) (ma_world m)
            else Inr (ma_world m)) (\<lambda>w.
       final_rewards iis curtime obs
         (m\<lparr>ma_world := w, ma_times := (ma_times m)[ii := curtime], ma_rewards := (ma_rewards m)[ii := 0]\<rparr>))"

definition master_end ::
    "(transition \<Rightarrow> 's \<Rightarrow> 's res) option \<Rightarrow> real \<Rightarrow> observation \<Rightarrow> real \<Rightarrow> 's master \<Rightarrow> 's master res" where
  "master_end u tau obs reward m =
     chain (final_rewards [0..<length (ma_agents m)] (ma_prev_time m + tau) obs (add_rewards reward m)) (\<lambda>m'.
     chain (opt_update u (Transition (ma_prev_obs m) (ma_prev_action m) tau reward obs no_action) (ma_world m'))
       (\<lambda>w. Inr (m'\<lparr>ma_world := w\<rparr>)))"

section \<open>Filters\<close>

text \<open>\<open>round\<close> to the nearest integer, halves away from zero.\<close>

definition round_index :: "real \<Rightarrow> int" where
  "round_index x = (if 0 \<le> x then \<lfloor>x + 1 / 2\<rfloor> else \<lceil>x - 1 / 2\<rceil>)"

fun reindex :: "dvec \<Rightarrow> dvec \<Rightarrow> dvec res" where
  "reindex v [] = Inr []"
| "reindex v (i # is) =
     (let idx = round_index i
      in if 0 \<le> idx \<and> int (length v) \<le> idx then Inl RepBadParam
         else chain (reindex v is) (\<lambda>xs. Inr ((if 0 \<le> idx then v ! nat idx else 0) # xs)))"

text \<open>The inner loop keeps the last index that matches.\<close>

fun last_match :: "dvec \<Rightarrow> real \<Rightarrow> nat \<Rightarrow> real \<Rightarrow> real" where
  "last_match [] x jj r = r"
| "last_match (i # is) x jj r = last_match is x (jj + 1) (if i = x then real jj else r)"

definition invert_index :: "dvec \<Rightarrow> nat \<Rightarrow> dvec" where
  "invert_index index sz = map (\<lambda>ii. last_match index (real ii) 0 (- 1)) [0..<sz]"

record filter_params =
  fl_observation_idx :: dvec
  fl_action_idx :: dvec
  fl_inv_action_idx :: dvec

definition filter_configure :: "dvec \<Rightarrow> nat \<Rightarrow> dvec \<Rightarrow> filter_params" where
  "filter_configure observation_idx action_dims action_idx =
     \<lparr>fl_observation_idx = observation_idx, fl_action_idx = action_idx,
      fl_inv_action_idx = invert_index action_idx action_dims\<rparr>"

text \<open>The observation is rebuilt from the vector alone: its continuous part \<open>u\<close> and the flag
  \<open>absorbing\<close> are not passed on.\<close>

definition filter_obs :: "filter_params \<Rightarrow> observation \<Rightarrow> observation res" where
  "filter_obs fl obs = chain (reindex (o_v obs) (fl_observation_idx fl)) (\<lambda>v. Inr (Observation v False))"

definition filter_action_in :: "filter_params \<Rightarrow> action \<Rightarrow> action res" where
  "filter_action_in fl a =
     (if a_v a \<noteq> [] then chain (reindex (a_v a) (fl_inv_action_idx fl)) (\<lambda>v. Inr (Action v atUndefined))
      else Inr no_action)"

definition filter_action_out :: "filter_params \<Rightarrow> action \<Rightarrow> action res" where
  "filter_action_out fl a = chain (reindex (a_v a) (fl_action_idx fl)) (\<lambda>v. Inr (Action v (a_type a)))"

definition filter_start ::
    "filter_params \<Rightarrow> 's agent_ops \<Rightarrow> observation \<Rightarrow> action \<Rightarrow> 's \<Rightarrow> (action \<times> 's) res" where
  "filter_start fl ag obs a w =
     chain (filter_obs fl obs) (\<lambda>obs.
     chain (filter_action_in fl a) (\<lambda>a.
     chain (ag_start ag obs a w) (\<lambda>(a, w).
     chain (filter_action_out fl a) (\<lambda>a. Inr (a, w)))))"

definition filter_step ::
    "filter_params \<Rightarrow> 's agent_ops \<Rightarrow> real \<Rightarrow> observation \<Rightarrow> real \<Rightarrow> action \<Rightarrow> 's \<Rightarrow> (action \<times> 's) res" where
  "filter_step fl ag tau obs reward a w =
     chain (filter_obs fl obs) (\<lambda>obs.
     chain (filter_action_in fl a) (\<lambda>a.
     chain (ag_step ag tau obs reward a w) (\<lambda>(a, w).
     chain (filter_action_out fl a) (\<lambda>a. Inr (a, w)))))"

definition filter_end ::
    "filter_params \<Rightarrow> 's agent_ops \<Rightarrow> real \<Rightarrow> observation \<Rightarrow> real \<Rightarrow> 's \<Rightarrow> 's res" where
  "filter_end fl ag tau obs reward w =
     chain (filter_obs fl obs) (\<lambda>obs. ag_end ag tau obs reward w)"

definition filter_sub :: "filter_params \<Rightarrow> 's sub_ops \<Rightarrow> 's sub_ops" where
  "filter_sub fl sb =
     \<lparr>sb_start = (\<lambda>obs a w.
        chain (filter_obs fl obs) (\<lambda>obs.
        chain (filter_action_in fl a) (\<lambda>a.
        chain (sb_start sb obs a w) (\<lambda>((a, c), w).
        chain (filter_action_out fl a) (\<lambda>a. Inr ((a, c), w)))))),
      sb_step = (\<lambda>tau obs reward a w.
        chain (filter_obs fl obs) (\<lambda>obs.
        chain (filter_action_in fl a) (\<lambda>a.
        chain (sb_step sb tau obs reward a w) (\<lambda>((a, c), w).
        chain (filter_action_out fl a) (\<lambda>a. Inr ((a, c), w)))))),
      sb_end = (\<lambda>tau obs reward w. chain (filter_obs fl obs) (\<lambda>obs. sb_end sb tau obs reward w)),
      sb_confidence = (\<lambda>obs. chain (filter_obs fl obs) (sb_confidence sb))\<rparr>"

text \<open>Remapping: the mapping returns an action vector for an observation and a downstream action.\<close>

definition remap_out :: "(dvec \<Rightarrow> dvec res) \<Rightarrow> observation \<Rightarrow> action \<times> 's \<Rightarrow> (action \<times> 's) res" where
  "remap_out mapping obs aw =
     chain (mapping (Vectors.extend (o_v obs) (a_v (fst aw)))) (\<lambda>v.
       Inr (Action v (a_type (fst aw)), snd aw))"

definition remap_start ::
    "(dvec \<Rightarrow> dvec res) \<Rightarrow> 's agent_ops \<Rightarrow> observation \<Rightarrow> action \<Rightarrow> 's \<Rightarrow> (action \<times> 's) res" where
  "remap_start mapping ag obs a w = chain (ag_start ag obs no_action w) (remap_out mapping obs)"

definition remap_step ::
    "(dvec \<Rightarrow> dvec res) \<Rightarrow> 's agent_ops \<Rightarrow> real \<Rightarrow> observation \<Rightarrow> real \<Rightarrow> action \<Rightarrow> 's \<Rightarrow> (action \<times> 's) res" where
  "remap_step mapping ag tau obs reward a w =
     chain (ag_step ag tau obs reward no_action w) (remap_out mapping obs)"

text \<open>A subagent whose action carries its confidence in one of its dimensions.\<close>

definition split_confidence :: "nat \<Rightarrow> action \<times> 's \<Rightarrow> ((action \<times> real) \<times> 's) res" where
  "split_confidence dd aw =
     (let v = a_v (fst aw)
      in if length v \<le> dd then Inl RepBadParam
         else Inr ((Action (take dd v @ drop (dd + 1) v) (a_type (fst aw)), v ! dd), snd aw))"

definition voluntary_start ::
    "nat \<Rightarrow> 's agent_ops \<Rightarrow> observation \<Rightarrow> action \<Rightarrow> 's \<Rightarrow> ((action \<times> real) \<times> 's) res" where
  "voluntary_start dd ag obs a w = chain (ag_start ag obs no_action w) (split_confidence dd)"

definition voluntary_step ::
    "nat \<Rightarrow> 's agent_ops \<Rightarrow> real \<Rightarrow> observation \<Rightarrow> real \<Rightarrow> action \<Rightarrow> 's \<Rightarrow> ((action \<times> real) \<times> 's) res" where
  "voluntary_step dd ag tau obs reward a w =
     chain (ag_step ag tau obs reward no_action w) (split_confidence dd)"

text \<open>A subagent that is confident inside a box.\<close>

definition box_confidence :: "dvec \<Rightarrow> dvec \<Rightarrow> observation \<Rightarrow> real res" where
  "box_confidence mi ma obs =
     (if mi = [] then Inr 0.999
      else if length (o_v obs) \<noteq> length mi then Inl RepBadParam
      else if length ma \<noteq> length mi then Inl RepUndefined
      else Inr (if \<exists>(x, l, h) \<in> set (zip (o_v obs) (zip mi ma)). x < l \<or> h < x then 0 else 1))"

definition box_configure :: "dvec \<Rightarrow> dvec \<Rightarrow> (dvec \<times> dvec) res" where
  "box_configure mi ma = (if length mi \<noteq> length ma then Inl RepBadParam else Inr (mi, ma))"

end
