(* ===== verification/AgentFacts.thy ===== *)
theory AgentFacts
  imports ReplayAgents MasterAgents
begin

text \<open>
  What the agents hand to their predictors and subagents: the replay memory is a bounded history
  and replay always catches up; a TD agent reports exactly the consecutive pairs of an episode; a
  delayed agent without delay is a TD agent; a subagent of a semi-Markov master is paid the
  discounted reward of the time it did not run; index filters can be undone.
\<close>

section \<open>The replay memory\<close>

definition memory_add :: "transition \<Rightarrow> 's replay_agent \<Rightarrow> 's replay_agent option" where
  "memory_add t s = (case remember t s of Inl e \<Rightarrow> None | Inr s' \<Rightarrow> Some s')"

definition memory_contents :: "'s replay_agent \<Rightarrow> transition list" where
  "memory_contents s =
     (let k = ra_total_transitions s mod ra_memory_size s
      in if length (ra_transitions s) < ra_memory_size s then ra_transitions s
         else drop k (ra_transitions s) @ take k (ra_transitions s))"

definition memory_inv :: "'s replay_agent \<Rightarrow> bool" where
  "memory_inv s \<longleftrightarrow> 0 < ra_memory_size s \<and> length (ra_transitions s) \<le> ra_memory_size s \<and>
     (length (ra_transitions s) < ra_memory_size s \<longrightarrow> ra_total_transitions s = length (ra_transitions s))"

lemma memory_add_ok:
  assumes "memory_inv s"
  shows "\<exists>s'. memory_add t s = Some s' \<and> memory_inv s' \<and> ra_memory_size s' = ra_memory_size s \<and>
    memory_contents s' = last_n (ra_memory_size s) (memory_contents s @ [t])"
proof -
  let ?ts = "ra_transitions s" and ?m = "ra_memory_size s" and ?n = "ra_total_transitions s"
  have m: "0 < ?m" using assms by (simp add: memory_inv_def)
  show ?thesis
  proof (cases "length ?ts < ?m")
    case True
    then have n: "?n = length ?ts" using assms by (simp add: memory_inv_def)
    have "Suc (length ?ts) < ?m \<or> Suc (length ?ts) mod ?m = 0"
      using True by (cases "Suc (length ?ts) = ?m") auto
    then show ?thesis
      using True n m by (auto simp: memory_add_def remember_def memory_inv_def memory_contents_def last_n_all)
  next
    case False
    then have len: "length ?ts = ?m" using assms by (simp add: memory_inv_def)
    define k where "k = ?n mod ?m"
    have k: "k < ?m" using m by (simp add: k_def)
    have old: "last_n ?m (memory_contents s @ [t]) = drop (Suc k) ?ts @ take k ?ts @ [t]"
      using False k len
      by (simp add: memory_contents_def last_n_def Cons_nth_drop_Suc [symmetric] flip: k_def)
    have step: "Suc ?n mod ?m = (if Suc k = ?m then 0 else Suc k)"
      by (simp add: k_def mod_Suc)
    have "memory_contents (s\<lparr>ra_total_transitions := ?n + 1, ra_total_control := ra_total_control s + 1,
        ra_transitions := ?ts[k := t]\<rparr>) = drop (Suc k) ?ts @ take k ?ts @ [t]"
    proof (cases "Suc k = ?m")
      case True
      then have "?ts[k := t] = take (Suc k) (?ts[k := t])" "drop (Suc k) ?ts = []" using len by simp_all
      moreover have "take (Suc k) (?ts[k := t]) = take k ?ts @ [t]"
        using k len by (simp add: take_Suc_conv_app_nth)
      ultimately show ?thesis using True len k step by (simp add: memory_contents_def)
    next
      case False
      then show ?thesis using len k step drop_update_take [of k ?ts t]
        by (simp add: memory_contents_def)
    qed
    then show ?thesis using False len m old k_def
      by (auto simp: memory_add_def remember_def memory_inv_def)
  qed
qed

interpretation memory: bounded_history memory_add memory_contents memory_inv ra_memory_size
  by unfold_locales (rule memory_add_ok)

lemma memory_contents_set: "set (memory_contents s) = set (ra_transitions s)"
  by (auto simp: memory_contents_def Let_def dest: in_set_takeD in_set_dropD)
    (metis append_take_drop_id set_append Un_iff)

section \<open>Replay catches up\<close>

lemma draw_one_ok:
  assumes "ts \<noteq> []"
  shows "\<exists>t g'. draw_one ts g = Inr (t, g') \<and> t \<in> set ts"
proof -
  from getInteger_Some [of "length ts" g] assms obtain n g' where
    "getInteger (length ts) g = Some (n, g')" "n < length ts" by auto
  then show ?thesis by (auto simp: draw_one_def)
qed

lemma draw_batch_ok:
  assumes "ts \<noteq> []"
  shows "\<exists>b g'. draw_batch n ts g = Inr (b, g') \<and> length b = n \<and> set b \<subseteq> set ts"
proof (induction n arbitrary: g)
  case (Suc n)
  from draw_one_ok [OF assms, of g] obtain t g1 where t: "draw_one ts g = Inr (t, g1)" "t \<in> set ts" by blast
  from Suc.IH [of g1] obtain b g2 where "draw_batch n ts g1 = Inr (b, g2)" "length b = n" "set b \<subseteq> set ts"
    by blast
  then show ?case using t by simp
qed simp

lemma replay_once_step:
  assumes "replay_once lo s = Inr s'"
  shows "ra_total_replay s' = ra_total_replay s + ra_batch_size s \<and> ra_batch_size s' = ra_batch_size s \<and>
    ra_transitions s' = ra_transitions s \<and> ra_total_control s' = ra_total_control s \<and>
    ra_replay_steps s' = ra_replay_steps s \<and> ra_memory_size s' = ra_memory_size s \<and>
    ra_total_transitions s' = ra_total_transitions s"
  using assms by (auto simp: replay_once_def chain_Inr)

lemma replay_loop_returns:
  assumes "0 < ra_batch_size s"
  shows "\<exists>r. replay_loop lo goal s = Some r \<and>
    (\<forall>s'. r = Inr s' \<longrightarrow> goal \<le> ra_total_replay s' \<and> ra_transitions s' = ra_transitions s \<and>
      ra_total_control s' = ra_total_control s \<and> ra_replay_steps s' = ra_replay_steps s)"
  using assms
proof (induction "goal - ra_total_replay s" arbitrary: s rule: less_induct)
  case less
  show ?case
  proof (cases "ra_total_replay s < goal")
    case False
    then show ?thesis by (subst replay_loop.simps) simp
  next
    case True
    show ?thesis
    proof (cases "replay_once lo s")
      case (Inl e)
      then show ?thesis using True by (subst replay_loop.simps) simp
    next
      case (Inr s1)
      note s1 = replay_once_step [OF Inr]
      have "goal - ra_total_replay s1 < goal - ra_total_replay s" "0 < ra_batch_size s1"
        using True less.prems s1 by simp_all
      from less.hyps [OF this] show ?thesis using True Inr s1
        by (subst replay_loop.simps) simp
    qed
  qed
qed

section \<open>Properties of replay\<close>

fun remember_all :: "transition list \<Rightarrow> 's replay_agent \<Rightarrow> 's replay_agent res" where
  "remember_all [] s = Inr s"
| "remember_all (t # ts) s = chain (remember t s) (remember_all ts)"

lemma remember_all_eq:
  "memory.add_all ts s = Some s' \<longleftrightarrow> remember_all ts s = Inr s'"
proof (induction ts arbitrary: s)
  case (Cons t ts)
  show ?case
  proof (cases "remember t s")
    case (Inl e)
    then have "memory_add t s = None" by (simp add: memory_add_def)
    then show ?thesis using Inl by simp
  next
    case (Inr s1)
    then have "memory_add t s = Some s1" by (simp add: memory_add_def)
    then show ?thesis using Inr Cons.IH by simp
  qed
qed simp

text \<open>C25: the replay memory is a sliding window. After a reset, storing any transitions never fails for a
  memory of positive size, and what is replayed from are exactly the last \<open>memory_size\<close> of them.\<close>

theorem replay_memory_window:
  assumes "0 < ra_memory_size s"
  shows "\<exists>s'. remember_all ts (replay_reset s) = Inr s' \<and>
    memory_contents s' = last_n (ra_memory_size s) ts \<and>
    set (ra_transitions s') = set (last_n (ra_memory_size s) ts)"
proof -
  have "memory_inv (replay_reset s)" "memory_contents (replay_reset s) = []"
    using assms by (simp_all add: memory_inv_def memory_contents_def replay_reset_def)
  from memory.add_all_from_empty [OF this, of ts] obtain s' where
    "remember_all ts (replay_reset s) = Inr s'" "memory_contents s' = last_n (ra_memory_size (replay_reset s)) ts"
    by (auto simp: remember_all_eq)
  then show ?thesis using memory_contents_set [of s'] by (simp add: replay_reset_def)
qed

definition replay_example :: "transition list replay_agent" where
  "replay_example = \<lparr>ra_memory_size = 2, ra_replay_steps = 3, ra_batch_size = 2,
     ra_observation_steps = 1, ra_transitions = [], ra_time = 0, ra_prev_obs = no_obs,
     ra_prev_action = no_action, ra_total_control = 0, ra_total_replay = 0,
     ra_total_transitions = 0, ra_rand = Rand_new 1, ra_world = []\<rparr>"

abbreviation reward_step :: "real \<Rightarrow> transition" where
  "reward_step r \<equiv> Transition no_obs no_action 1 r no_obs no_action"

theorem replay_memory_window_witness:
  "\<exists>s'. remember_all [reward_step 1, reward_step 2, reward_step 3] (replay_reset replay_example) = Inr s' \<and>
    set (ra_transitions s') = {reward_step 2, reward_step 3}"
  using replay_memory_window [of replay_example "[reward_step 1, reward_step 2, reward_step 3]"]
  by (auto simp: replay_example_def last_n_def)

text \<open>a synchronous replay agent never blocks. With a positive batch size every call of replay
  returns, and afterwards the number of replayed transitions is at least the number of
  control steps times the replay steps, so the agent does not wait for a replay thread.\<close>

theorem replay_catches_up:
  assumes "0 < ra_batch_size s"
  shows "\<exists>r. replay_and_wait lo s = Some r \<and>
    (\<forall>s'. r = Inr s' \<longrightarrow> replay_goal s' \<le> ra_total_replay s' \<and> ra_transitions s' = ra_transitions s)"
proof (cases "length (ra_transitions s) < ra_observation_steps s")
  case True
  then show ?thesis by (simp add: replay_and_wait_def replay_def replay_goal_def)
next
  case False
  from replay_loop_returns [OF assms, of lo "replay_goal s"] obtain r where
    r: "replay_loop lo (replay_goal s) s = Some r" and
    r': "\<And>s'. r = Inr s' \<Longrightarrow> replay_goal s \<le> ra_total_replay s' \<and> ra_transitions s' = ra_transitions s \<and>
      ra_total_control s' = ra_total_control s \<and> ra_replay_steps s' = ra_replay_steps s" by blast
  show ?thesis
  proof (cases r)
    case (Inl e)
    then show ?thesis using False r by (simp add: replay_and_wait_def replay_def)
  next
    case (Inr s')
    then show ?thesis using False r r' [OF Inr] by (simp add: replay_and_wait_def replay_def replay_goal_def)
  qed
qed

theorem replay_catches_up_witness:
  "\<exists>r. replay_and_wait \<lparr>lo_act = \<lambda>t obs a w. Inr (a, w), lo_update = \<lambda>t w. Inr (w @ [t]),
      lo_finalize = \<lambda>w. w, lo_update_batch = \<lambda>b w. Inr (w @ b)\<rparr>
      (replay_example\<lparr>ra_transitions := [reward_step 1], ra_total_control := 1\<rparr>) = Some r"
proof -
  have "0 < ra_batch_size (replay_example\<lparr>ra_transitions := [reward_step 1], ra_total_control := 1\<rparr>)"
    by (simp add: replay_example_def)
  from replay_catches_up [OF this] show ?thesis by blast
qed

section \<open>Episodes\<close>

datatype agent_event = EvStart observation | EvStep real observation real | EvEnd real observation real

text \<open>The actions an agent answers with.\<close>

fun run_agent :: "'s agent_ops \<Rightarrow> agent_event list \<Rightarrow> action \<Rightarrow> 's \<Rightarrow> (action list \<times> 's) res" where
  "run_agent ag [] a w = Inr ([], w)"
| "run_agent ag (EvStart obs # evs) a w =
     chain (ag_start ag obs a w) (\<lambda>(a, w). chain (run_agent ag evs a w) (\<lambda>(as, w). Inr (a # as, w)))"
| "run_agent ag (EvStep tau obs r # evs) a w =
     chain (ag_step ag tau obs r a w) (\<lambda>(a, w). chain (run_agent ag evs a w) (\<lambda>(as, w). Inr (a # as, w)))"
| "run_agent ag (EvEnd tau obs r # evs) a w =
     chain (ag_end ag tau obs r w) (\<lambda>w. run_agent ag evs a w)"

text \<open>An episode: a start, steps, and an absorbing end if there is one.\<close>

definition episode ::
    "observation \<Rightarrow> (real \<times> observation \<times> real) list \<Rightarrow> (real \<times> observation \<times> real) option \<Rightarrow> agent_event list" where
  "episode obs steps fin =
     EvStart obs # map (\<lambda>(tau, obs, r). EvStep tau obs r) steps @
     (case fin of None \<Rightarrow> [] | Some (tau, obs, r) \<Rightarrow> [EvEnd tau obs r])"

text \<open>A predictor that also keeps a log of what it was given.\<close>

definition logged :: "'s learner_ops \<Rightarrow> ('s \<times> transition list) learner_ops" where
  "logged lo =
     \<lparr>lo_act = (\<lambda>t obs a (w, l). chain (lo_act lo t obs a w) (\<lambda>(a, w). Inr (a, w, l))),
      lo_update = (\<lambda>t (w, l). chain (lo_update lo t w) (\<lambda>w. Inr (w, l @ [t]))),
      lo_finalize = (\<lambda>(w, l). (lo_finalize lo w, l))\<rparr>"

text \<open>The consecutive pairs of an episode.\<close>

fun consecutive ::
    "observation \<Rightarrow> action \<Rightarrow> (real \<times> observation \<times> real) list \<Rightarrow> action list \<Rightarrow>
     (real \<times> observation \<times> real) option \<Rightarrow> transition list" where
  "consecutive obs a ((tau, obs', r) # steps) (a' # as) fin =
     Transition obs a tau r obs' a' # consecutive obs' a' steps as fin"
| "consecutive obs a _ _ fin =
     (case fin of None \<Rightarrow> [] | Some (tau, obs', r) \<Rightarrow> [Transition obs a tau r obs' no_action])"

lemma td_run_steps:
  assumes "run_agent (td_agent_ops (logged lo))
      (map (\<lambda>(tau, obs, r). EvStep tau obs r) steps @
       (case fin of None \<Rightarrow> [] | Some (tau, obs, r) \<Rightarrow> [EvEnd tau obs r])) a s = Inr (as, s')"
  shows "length as = length steps \<and>
    snd (ta_world s') = snd (ta_world s) @ consecutive (ta_prev_obs s) (ta_prev_action s) steps as fin"
  using assms
proof (induction steps arbitrary: a s as)
  case Nil
  show ?case
  proof (cases fin)
    case None
    then show ?thesis using Nil by simp
  next
    case (Some x)
    obtain tau obs r where x: "x = (tau, obs, r)" by (cases x) auto
    show ?thesis using Nil Some x
      by (auto simp: td_agent_ops_def td_end_def logged_def chain_Inr split: prod.splits)
  qed
next
  case (Cons step steps)
  obtain tau obs r where step: "step = (tau, obs, r)" by (cases step) auto
  obtain a1 s1 as1 where s1: "td_step (logged lo) tau obs r a s = Inr (a1, s1)" and as: "as = a1 # as1" and
    rest: "run_agent (td_agent_ops (logged lo))
      (map (\<lambda>(tau, obs, r). EvStep tau obs r) steps @
       (case fin of None \<Rightarrow> [] | Some (tau, obs, r) \<Rightarrow> [EvEnd tau obs r])) a1 s1 = Inr (as1, s')"
    using Cons.prems step by (auto simp: td_agent_ops_def chain_Inr)
  have "ta_prev_obs s1 = obs" "ta_prev_action s1 = a1"
    "snd (ta_world s1) = snd (ta_world s) @ [Transition (ta_prev_obs s) (ta_prev_action s) tau r obs a1]"
    using s1 by (auto simp: td_step_def logged_def chain_Inr Let_def split: prod.splits)
  then show ?case using Cons.IH [OF rest] as step by simp
qed

lemma td_agent_log:
  assumes "run_agent (td_agent_ops (logged lo)) (episode obs steps fin) a s = Inr (as, s')"
  shows "length as = length steps + 1 \<and>
    snd (ta_world s') = snd (ta_world s) @ consecutive obs (hd as) steps (tl as) fin"
proof -
  obtain a1 s1 as1 where s1: "td_start (logged lo) obs a s = Inr (a1, s1)" and as: "as = a1 # as1" and
    rest: "run_agent (td_agent_ops (logged lo))
      (map (\<lambda>(tau, obs, r). EvStep tau obs r) steps @
       (case fin of None \<Rightarrow> [] | Some (tau, obs, r) \<Rightarrow> [EvEnd tau obs r])) a1 s1 = Inr (as1, s')"
    using assms by (auto simp: episode_def td_agent_ops_def chain_Inr)
  have "ta_prev_obs s1 = obs" "ta_prev_action s1 = a1" "snd (ta_world s1) = snd (ta_world s)"
    using s1 by (auto simp: td_start_def logged_def chain_Inr split: prod.splits)
  then show ?thesis using td_run_steps [OF rest] as by simp
qed

text \<open>C37: the TD agent reports every step of an episode exactly once. Whatever policy and predictor do,
  the transitions handed to the predictor are the consecutive observation-action pairs of the
  episode, with the rewards and durations between them, and a last one without action if the
  episode ends in an absorbing state.\<close>

theorem td_agent_reports_episode:
  assumes "run_agent (td_agent_ops (logged lo)) (episode obs steps fin) a s = Inr (as, s')"
  shows "length as = length steps + 1 \<and>
    snd (ta_world s') = snd (ta_world s) @ consecutive obs (hd as) steps (tl as) fin"
  by (rule td_agent_log [OF assms])

definition still_ops :: "unit learner_ops" where
  "still_ops = \<lparr>lo_act = \<lambda>t obs a w. Inr (Action [t] atGreedy, w), lo_update = \<lambda>t w. Inr w,
     lo_finalize = \<lambda>w. w\<rparr>"

theorem td_agent_reports_episode_witness:
  "\<exists>s'. run_agent (td_agent_ops (logged still_ops))
      (episode no_obs [(2, Observation [1] False, 5)] (Some (1, Observation [2] True, 7))) no_action
      \<lparr>ta_time = 0, ta_prev_obs = no_obs, ta_prev_action = no_action, ta_world = ((), [])\<rparr> =
      Inr ([Action [0] atGreedy, Action [2] atGreedy], s') \<and>
    snd (ta_world s') =
      [Transition no_obs (Action [0] atGreedy) 2 5 (Observation [1] False) (Action [2] atGreedy),
       Transition (Observation [1] False) (Action [2] atGreedy) 1 7 (Observation [2] True) no_action]"
proof -
  let ?s = "\<lparr>ta_time = 0, ta_prev_obs = no_obs, ta_prev_action = no_action, ta_world = ((), [])\<rparr>"
  obtain s' where r: "run_agent (td_agent_ops (logged still_ops))
      (episode no_obs [(2, Observation [1] False, 5)] (Some (1, Observation [2] True, 7))) no_action ?s =
      Inr ([Action [0] atGreedy, Action [2] atGreedy], s')"
    by (simp add: episode_def td_agent_ops_def td_start_def td_step_def td_end_def logged_def still_ops_def)
  show ?thesis using td_agent_reports_episode [OF r] r by simp
qed

section \<open>No delay\<close>

definition td_of :: "'s delayed_agent \<Rightarrow> 's td_agent" where
  "td_of s = \<lparr>ta_time = da_time s, ta_prev_obs = da_prev_obs s, ta_prev_action = da_prev_action s,
              ta_world = da_world s\<rparr>"

text \<open>with a control delay of 0 the delayed TD agent is the TD agent: each operation gives the same
  action, the same predictor updates and the same state up to the action before the last.\<close>

theorem undelayed_is_td:
  "chain (delayed_start lo obs a s) (\<lambda>(a, s). Inr (a, td_of s)) = td_start lo obs a (td_of s) \<and>
   chain (delayed_step lo 0 tau obs reward a s) (\<lambda>(a, s). Inr (a, td_of s)) =
     td_step lo tau obs reward a (td_of s) \<and>
   chain (delayed_end lo 0 tau obs reward s) (\<lambda>s. Inr (td_of s)) = td_end lo tau obs reward (td_of s)"
proof (intro conjI)
  show "chain (delayed_start lo obs a s) (\<lambda>(a, s). Inr (a, td_of s)) = td_start lo obs a (td_of s)"
    by (cases "lo_act lo 0 obs a (lo_finalize lo (da_world s))")
      (auto simp: delayed_start_def td_start_def td_of_def)
  show "chain (delayed_step lo 0 tau obs reward a s) (\<lambda>(a, s). Inr (a, td_of s)) =
     td_step lo tau obs reward a (td_of s)"
  proof (cases "lo_act lo (da_time s + tau) obs a (da_world s)")
    case (Inr aw)
    obtain a' w where aw: "aw = (a', w)" by fastforce
    show ?thesis
      by (cases "lo_update lo (Transition (da_prev_obs s) (da_prev_action s) tau reward obs a') w")
        (simp_all add: Inr aw delayed_step_def td_step_def td_of_def combine_def)
  qed (simp add: delayed_step_def td_step_def td_of_def)
  show "chain (delayed_end lo 0 tau obs reward s) (\<lambda>s. Inr (td_of s)) = td_end lo tau obs reward (td_of s)"
    by (cases "lo_update lo (Transition (da_prev_obs s) (da_prev_action s) tau reward obs no_action)
          (da_world s)")
      (simp_all add: delayed_end_def td_end_def td_of_def combine_def)
qed

section \<open>Undoing an index filter\<close>

lemma round_index_nat [simp]: "round_index (real k) = int k"
  by (simp add: round_index_def)

lemma round_index_pad [simp]: "round_index (- 1) = - 1"
  by (simp add: round_index_def)

lemma reindex_map:
  "\<forall>i \<in> set is. round_index i < int (length v) \<Longrightarrow>
   reindex v is = Inr (map (\<lambda>i. if 0 \<le> round_index i then v ! nat (round_index i) else 0) is)"
  by (induction "is") (auto simp: Let_def)

lemma last_match_ok:
  "last_match is x jj r = r \<and> x \<notin> set is \<or>
   (\<exists>k < length is. last_match is x jj r = real (jj + k) \<and> is ! k = x)"
proof (induction "is" arbitrary: jj r)
  case (Cons i "is")
  from Cons [of "jj + 1" "if i = x then real jj else r"] show ?case
  proof
    assume "last_match is x (jj + 1) (if i = x then real jj else r) = (if i = x then real jj else r) \<and>
      x \<notin> set is"
    then show ?thesis by (cases "i = x") auto
  next
    assume "\<exists>k < length is. last_match is x (jj + 1) (if i = x then real jj else r) = real (jj + 1 + k) \<and>
      is ! k = x"
    then obtain k where "k < length is" "last_match is x (jj + 1) (if i = x then real jj else r) = real (jj + 1 + k)"
      "is ! k = x" by blast
    then show ?thesis by (intro disjI2 exI [of _ "Suc k"]) simp
  qed
qed simp

definition valid_index :: "nat \<Rightarrow> dvec \<Rightarrow> bool" where
  "valid_index n index \<longleftrightarrow> (\<forall>x \<in> set index. x = - 1 \<or> (\<exists>k < n. x = real k))"

text \<open>the inverse of an index vector undoes it. For an index vector of positions and paddings,
  filtering a vector and filtering the result with the inverted index gives the vector back,
  with zeros in the positions the index dropped.\<close>

theorem filter_roundtrip:
  assumes "valid_index (length v) index"
  shows "chain (reindex v index) (\<lambda>w. reindex w (invert_index index (length v))) =
    Inr (map (\<lambda>ii. if real ii \<in> set index then v ! ii else 0) [0..<length v])"
proof -
  let ?w = "map (\<lambda>i. if 0 \<le> round_index i then v ! nat (round_index i) else 0) index"
  let ?inv = "invert_index index (length v)"
  have w: "reindex v index = Inr ?w"
    using assms by (intro reindex_map) (auto simp: valid_index_def)
  have entry: "round_index (?inv ! ii) < int (length ?w) \<and>
      (if 0 \<le> round_index (?inv ! ii) then ?w ! nat (round_index (?inv ! ii)) else 0) =
      (if real ii \<in> set index then v ! ii else 0)" if ii: "ii < length v" for ii
  proof -
    have inv: "?inv ! ii = last_match index (real ii) 0 (- 1)" using ii by (simp add: invert_index_def)
    from last_match_ok [of index "real ii" 0 "- 1"] show ?thesis
    proof
      assume "last_match index (real ii) 0 (- 1) = - 1 \<and> real ii \<notin> set index"
      then show ?thesis using inv by simp
    next
      assume "\<exists>k < length index. last_match index (real ii) 0 (- 1) = real (0 + k) \<and> index ! k = real ii"
      then obtain k where k: "k < length index" "?inv ! ii = real k" "index ! k = real ii"
        using inv by auto
      then have "real ii \<in> set index" by (metis nth_mem)
      then show ?thesis using k by simp
    qed
  qed
  have len: "length ?inv = length v" by (simp add: invert_index_def)
  have "reindex ?w ?inv = Inr (map (\<lambda>i. if 0 \<le> round_index i then ?w ! nat (round_index i) else 0) ?inv)"
  proof (intro reindex_map ballI)
    fix i assume "i \<in> set ?inv"
    then obtain ii where "ii < length v" "i = ?inv ! ii" using len by (auto simp: in_set_conv_nth)
    then show "round_index i < int (length ?w)" using entry [of ii] by blast
  qed
  also have "map (\<lambda>i. if 0 \<le> round_index i then ?w ! nat (round_index i) else 0) ?inv =
      map (\<lambda>ii. if real ii \<in> set index then v ! ii else 0) [0..<length v]"
  proof (intro nth_equalityI)
    fix ii assume "ii < length (map (\<lambda>i. if 0 \<le> round_index i then ?w ! nat (round_index i) else 0) ?inv)"
    then have ii: "ii < length v" using len by simp
    show "map (\<lambda>i. if 0 \<le> round_index i then ?w ! nat (round_index i) else 0) ?inv ! ii =
        map (\<lambda>ii. if real ii \<in> set index then v ! ii else 0) [0..<length v] ! ii"
      using ii len by (simp only: nth_map length_upt nth_upt diff_zero add_0 conjunct2 [OF entry [OF ii]])
  qed (simp add: len)
  finally show ?thesis using w by simp
qed

theorem filter_roundtrip_witness:
  "chain (reindex [5, 6, 7] [2, - 1, 0]) (\<lambda>w. reindex w (invert_index [2, - 1, 0] 3)) = Inr [5, 0, 7]"
proof -
  have "valid_index 3 [2, - 1, 0]"
    unfolding valid_index_def by (simp add: exI [of _ "0 :: nat"] exI [of _ "2 :: nat"])
  moreover have len: "length [5, 6, 7 :: real] = 3" by simp
  ultimately have v: "valid_index (length [5, 6, 7 :: real]) [2, - 1, 0]" by (simp only:)
  have "[0..<3] = [0, 1, 2 :: nat]" by (simp add: upt_rec)
  then show ?thesis using filter_roundtrip [OF v] unfolding len by simp
qed

end
