(* ===== verification/MasterFacts.thy ===== *)
theory MasterFacts
  imports AgentFacts
begin

text \<open>
  What a semi-Markov master pays its subagents: when a subagent runs again after some steps in which
  it did not, it is told the time that has passed and the reward discounted from the moment it
  last ran.
\<close>

text \<open>The steps of a master: duration, observation, reward.\<close>

fun master_steps ::
    "(real \<Rightarrow> observation \<Rightarrow> action \<Rightarrow> 's master \<Rightarrow> (action \<times> 's master) res) \<Rightarrow>
     (transition \<Rightarrow> 's \<Rightarrow> 's res) option \<Rightarrow> (real \<times> observation \<times> real) list \<Rightarrow>
     action \<Rightarrow> 's master \<Rightarrow> (action \<times> 's master) res" where
  "master_steps run u [] a m = Inr (a, m)"
| "master_steps run u ((tau, obs, r) # steps) a m =
     chain (master_step run u tau obs r a m) (\<lambda>(a, m). master_steps run u steps a m)"

text \<open>The rewards discounted from time \<open>t0\<close>; \<open>now\<close> is the time before each step.\<close>

fun macro_reward :: "real \<Rightarrow> real \<Rightarrow> real \<Rightarrow> (real \<times> observation \<times> real) list \<Rightarrow> real" where
  "macro_reward gamma t0 now [] = 0"
| "macro_reward gamma t0 now ((tau, obs, r) # steps) =
     c_pow gamma (now - t0) * r + macro_reward gamma t0 (now + tau) steps"

definition same_masters :: "'s master \<Rightarrow> 's master \<Rightarrow> bool" where
  "same_masters m m' \<longleftrightarrow> ma_agents m' = ma_agents m \<and> ma_gamma m' = ma_gamma m \<and>
     ma_prev_time m' = ma_prev_time m \<and> length (ma_times m') = length (ma_times m) \<and>
     length (ma_rewards m') = length (ma_rewards m)"

text \<open>The choice of the derived class does not run subagent \<open>ii\<close>.\<close>

definition leaves_idle ::
    "nat \<Rightarrow> (real \<Rightarrow> observation \<Rightarrow> action \<Rightarrow> 's master \<Rightarrow> (action \<times> 's master) res) \<Rightarrow> bool" where
  "leaves_idle ii run \<longleftrightarrow> (\<forall>time obs a m a' m'. run time obs a m = Inr (a', m') \<longrightarrow>
     same_masters m m' \<and> ma_times m' ! ii = ma_times m ! ii \<and> ma_rewards m' ! ii = ma_rewards m ! ii)"

lemma runSubAgent_other:
  assumes "runSubAgent idx time obs a m = Inr (ac, m')" and "idx \<noteq> ii"
  shows "same_masters m m' \<and> ma_times m' ! ii = ma_times m ! ii \<and> ma_rewards m' ! ii = ma_rewards m ! ii"
  using assms by (auto simp: runSubAgent_def chain_Inr same_masters_def split: if_splits)

lemma random_leaves_idle: "idx \<noteq> ii \<Longrightarrow> leaves_idle ii (run_random idx)"
  using runSubAgent_other by (fastforce simp: leaves_idle_def run_random_def chain_Inr)

lemma master_steps_idle:
  assumes idle: "leaves_idle ii run"
    and "ii < length (ma_times m)" and "length (ma_rewards m) = length (ma_times m)"
    and "master_steps run u steps a m = Inr (a', m')"
  shows "ma_times m' ! ii = ma_times m ! ii \<and> ma_agents m' = ma_agents m \<and>
    ma_rewards m' ! ii =
      ma_rewards m ! ii + macro_reward (ma_gamma m) (ma_times m ! ii) (ma_prev_time m) steps \<and>
    ma_prev_time m' = ma_prev_time m + sum_list (map fst steps)"
  using assms(2-4)
proof (induction steps arbitrary: a m)
  case (Cons step steps)
  obtain tau obs r where step: "step = (tau, obs, r)" by (cases step) auto
  let ?t0 = "ma_times m ! ii"
  obtain a1 m1 where m1: "master_step run u tau obs r a m = Inr (a1, m1)" and
    rest: "master_steps run u steps a1 m1 = Inr (a', m')"
    using Cons.prems(3) step by (auto simp: chain_Inr)
  obtain m0 w where run: "run (ma_prev_time m + tau) obs a (add_rewards r m) = Inr (a1, m0)" and
    m1': "m1 = m0\<lparr>ma_prev_obs := obs, ma_prev_action := a1, ma_prev_time := ma_prev_time m + tau,
      ma_world := w\<rparr>"
    using m1 by (auto simp: master_step_def chain_Inr Let_def)
  have add: "ma_times (add_rewards r m) = ma_times m" "ma_gamma (add_rewards r m) = ma_gamma m"
    "ma_agents (add_rewards r m) = ma_agents m" "length (ma_rewards (add_rewards r m)) = length (ma_times m)"
    "ma_rewards (add_rewards r m) ! ii = ma_rewards m ! ii + c_pow (ma_gamma m) (ma_prev_time m - ?t0) * r"
    using Cons.prems(1,2) by (simp_all add: add_rewards_def)
  from idle run have "same_masters (add_rewards r m) m0 \<and>
      ma_times m0 ! ii = ma_times (add_rewards r m) ! ii \<and>
      ma_rewards m0 ! ii = ma_rewards (add_rewards r m) ! ii"
    unfolding leaves_idle_def by blast
  then have "ma_times m1 ! ii = ?t0" "ma_agents m1 = ma_agents m" "ma_gamma m1 = ma_gamma m"
    "ma_prev_time m1 = ma_prev_time m + tau" "length (ma_times m1) = length (ma_times m)"
    "length (ma_rewards m1) = length (ma_times m1)"
    "ma_rewards m1 ! ii = ma_rewards m ! ii + c_pow (ma_gamma m) (ma_prev_time m - ?t0) * r"
    using add m1' by (simp_all add: same_masters_def)
  then show ?case using Cons.IH [OF _ _ rest] Cons.prems(1) step by simp
qed simp

text \<open>C12: a subagent of a semi-Markov master is paid the discounted macro-reward. When a subagent that was
  running and has just been paid does not run for any number of steps and then runs again, its step
  receives the whole time since it last ran, and the sum of the rewards of those steps, each
  discounted by \<open>gamma\<close> to the power of the time from the last run to the beginning of the step.\<close>

theorem smdp_macro_reward:
  assumes "leaves_idle ii run" and "ii < length (ma_agents m)"
    and "length (ma_times m) = length (ma_agents m)" and "length (ma_rewards m) = length (ma_agents m)"
    and "0 \<le> ma_times m ! ii" and "ma_rewards m ! ii = 0"
    and "master_steps run u steps a m = Inr (a', m')"
  shows "ma_prev_time m' = ma_prev_time m + sum_list (map fst steps) \<and>
    (\<forall>time obs b. runSubAgent ii time obs b m' =
      chain (sb_step (ma_agents m ! ii) (time - ma_times m ! ii) obs
               (macro_reward (ma_gamma m) (ma_times m ! ii) (ma_prev_time m) steps) b (ma_world m'))
        (\<lambda>(ac, w). Inr (ac, m'\<lparr>ma_times := (ma_times m')[ii := time],
                               ma_rewards := (ma_rewards m')[ii := 0], ma_world := w\<rparr>)))"
  using master_steps_idle [OF assms(1) _ _ assms(7)] assms(2-6) by (simp add: runSubAgent_def)

definition quiet_sub :: "unit sub_ops" where
  "quiet_sub = \<lparr>sb_start = \<lambda>obs a w. Inr ((a, 1), w), sb_step = \<lambda>tau obs r a w. Inr ((Action [tau, r] atGreedy, 1), w),
     sb_end = \<lambda>tau obs r w. Inr w, sb_confidence = \<lambda>obs. Inr 1\<rparr>"

definition master_example :: "unit master" where
  "master_example = \<lparr>ma_agents = [quiet_sub, quiet_sub], ma_gamma = 1 / 2, ma_times = [0, 0],
     ma_rewards = [0, 0], ma_prev_time = 0, ma_prev_obs = no_obs, ma_prev_action = no_action, ma_world = ()\<rparr>"

theorem smdp_macro_reward_witness:
  "\<exists>a' m' m''. master_steps (run_random 0) None [(1, no_obs, 4), (1, no_obs, 8)] no_action master_example =
      Inr (a', m') \<and>
    runSubAgent 1 2 no_obs no_action m' = Inr ((Action [2, 8] atGreedy, 1), m'')"
proof -
  have "\<exists>a' m'. master_steps (run_random 0) None [(1, no_obs, 4), (1, no_obs, 8)] no_action master_example =
      Inr (a', m')"
    by (simp add: master_step_def run_random_def runSubAgent_def master_example_def quiet_sub_def
        add_rewards_def opt_update_def Let_def)
  then obtain a' m' where
    m': "master_steps (run_random 0) None [(1, no_obs, 4), (1, no_obs, 8)] no_action master_example = Inr (a', m')"
    by blast
  have "runSubAgent 1 2 no_obs no_action m' =
      chain (sb_step (ma_agents master_example ! 1) (2 - ma_times master_example ! 1) no_obs
               (macro_reward (1 / 2) 0 0 [(1, no_obs, 4), (1, no_obs, 8)]) no_action (ma_world m'))
        (\<lambda>(ac, w). Inr (ac, m'\<lparr>ma_times := (ma_times m')[1 := 2],
                               ma_rewards := (ma_rewards m')[1 := 0], ma_world := w\<rparr>))"
    using smdp_macro_reward [OF random_leaves_idle _ _ _ _ _ m', of 1]
    by (simp add: master_example_def)
  then show ?thesis using m' by (simp add: master_example_def quiet_sub_def c_pow_def)
qed

end
