(* ===== verification/Environments.thy ===== *)
theory Environments
  imports Agents
begin

text \<open>
  Environments that run a transition model (\<open>base/include/grl/environment.h\<close>,
  \<open>base/src/environments/modeled.cpp\<close>): the interfaces of models and tasks, the modelled
  environment that combines them, the integration of equations of motion, and the regulator task.

  Integration is over the real numbers. The result \<open>None\<close> is a control step whose loop never
  ends; vectors of the wrong size are \<open>RepUndefined\<close> where the code does not test them and
  \<open>RepException\<close> where it does. Exporters and signals only publish and are left out.
\<close>

section \<open>Interfaces\<close>

type_synonym model_step = "dvec \<Rightarrow> dvec \<Rightarrow> (real \<times> dvec) res"

record task =
  tk_start :: "int \<Rightarrow> rand \<Rightarrow> (dvec \<times> rand) res"
  tk_actuate :: "dvec \<Rightarrow> dvec \<Rightarrow> action \<Rightarrow> (bool \<times> dvec) res"
  tk_observe :: "dvec \<Rightarrow> observation \<Rightarrow> (observation \<times> int) res"
  tk_evaluate :: "dvec \<Rightarrow> action \<Rightarrow> dvec \<Rightarrow> real res"
  tk_invert :: "observation \<Rightarrow> real \<Rightarrow> dvec option"

text \<open>What a task inherits: actions are the actuation, and nothing can be inverted.\<close>

definition default_actuate :: "dvec \<Rightarrow> dvec \<Rightarrow> action \<Rightarrow> (bool \<times> dvec) res" where
  "default_actuate prev state a = Inr (True, a_v a)"

definition default_invert :: "observation \<Rightarrow> real \<Rightarrow> dvec option" where
  "default_invert obs time = None"

section \<open>The modelled environment\<close>

record menv =
  me_discrete_time :: int
  me_state :: dvec
  me_obs :: observation
  me_test :: int
  me_time_test :: real
  me_time_learn :: real
  me_rand :: rand

definition menv_reset :: "menv \<Rightarrow> menv" where
  "menv_reset e = e\<lparr>me_time_learn := 0, me_time_test := 0\<rparr>"

definition menv_copy :: "menv \<Rightarrow> menv \<Rightarrow> menv" where
  "menv_copy e obj = e\<lparr>me_obs := me_obs obj, me_test := me_test obj\<rparr>"

definition menv_start :: "task \<Rightarrow> int \<Rightarrow> observation \<Rightarrow> menv \<Rightarrow> (observation \<times> menv) res" where
  "menv_start task test obs e =
     chain (tk_start task test (me_rand e)) (\<lambda>(state, g).
     chain (tk_observe task state obs) (\<lambda>(obs, terminal).
       Inr (obs, e\<lparr>me_state := state, me_obs := obs, me_test := test, me_rand := g\<rparr>)))"

text \<open>The loop that steps the model until the task asks for a new action.\<close>

partial_function (option) actuate_loop ::
    "model_step \<Rightarrow> task \<Rightarrow> dvec \<Rightarrow> action \<Rightarrow> dvec \<Rightarrow> dvec \<Rightarrow> real \<Rightarrow> (real \<times> dvec) res option" where
  "actuate_loop model task prev a state actuation tau =
     (case chain (model state actuation) (\<lambda>(t, state).
             chain (tk_actuate task prev state a) (\<lambda>(done, actuation). Inr (tau + t, state, done, actuation))) of
        Inl e \<Rightarrow> Some (Inl e)
      | Inr (tau, state, done, actuation) \<Rightarrow>
          if done then Some (Inr (tau, state))
          else actuate_loop model task prev a state actuation tau)"

record step_result =
  sr_tau :: real
  sr_obs :: observation
  sr_reward :: real
  sr_terminal :: int

definition menv_finish ::
    "task \<Rightarrow> action \<Rightarrow> observation \<Rightarrow> real \<Rightarrow> dvec \<Rightarrow> menv \<Rightarrow> (step_result \<times> menv) res" where
  "menv_finish task a obs tau next_state e =
     chain (tk_observe task next_state obs) (\<lambda>(obs, terminal).
     chain (tk_evaluate task (me_state e) a next_state) (\<lambda>reward.
     let obs = obs\<lparr>o_u := a_v a\<rparr>;
         e = (if me_test e \<noteq> 0 then e\<lparr>me_time_test := me_time_test e + tau\<rparr>
              else e\<lparr>me_time_learn := me_time_learn e + tau\<rparr>);
         e = e\<lparr>me_state := next_state, me_obs := obs\<rparr>
     in Inr (\<lparr>sr_tau = if me_discrete_time e \<noteq> 0 then 1 else tau, sr_obs = obs,
              sr_reward = reward, sr_terminal = terminal\<rparr>, e)))"

definition menv_step ::
    "model_step \<Rightarrow> task \<Rightarrow> action \<Rightarrow> observation \<Rightarrow> menv \<Rightarrow> (step_result \<times> menv) res option" where
  "menv_step model task a obs e =
     (case tk_actuate task (me_state e) (me_state e) a of
        Inl err \<Rightarrow> Some (Inl err)
      | Inr (_, actuation) \<Rightarrow>
          map_option (\<lambda>r. chain r (\<lambda>(tau, next_state). menv_finish task a obs tau next_state e))
            (actuate_loop model task (me_state e) a (me_state e) actuation 0))"

section \<open>Equations of motion\<close>

text \<open>Element-wise operations need vectors of one size.\<close>

definition eom_at :: "(dvec \<Rightarrow> dvec \<Rightarrow> dvec res) \<Rightarrow> dvec \<Rightarrow> dvec \<Rightarrow> dvec res" where
  "eom_at eom u x =
     chain (eom x u) (\<lambda>xd. if length xd = length x then Inr xd else Inl RepUndefined)"

definition rk4_step :: "(dvec \<Rightarrow> dvec \<Rightarrow> dvec res) \<Rightarrow> dvec \<Rightarrow> real \<Rightarrow> dvec \<Rightarrow> dvec res" where
  "rk4_step eom u h x =
     chain (eom_at eom u x) (\<lambda>xd. let k1 = vscale h xd in
     chain (eom_at eom u (vadd x (vscale (1 / 2) k1))) (\<lambda>xd. let k2 = vscale h xd in
     chain (eom_at eom u (vadd x (vscale (1 / 2) k2))) (\<lambda>xd. let k3 = vscale h xd in
     chain (eom_at eom u (vadd x k3)) (\<lambda>xd. let k4 = vscale h xd in
       Inr (vadd x (vscale (1 / 6) (vadd (vadd (vadd k1 (vscale 2 k2)) (vscale 2 k3)) k4)))))))"

fun rk4_steps :: "nat \<Rightarrow> (dvec \<Rightarrow> dvec \<Rightarrow> dvec res) \<Rightarrow> dvec \<Rightarrow> real \<Rightarrow> dvec \<Rightarrow> dvec res" where
  "rk4_steps 0 eom u h x = Inr x"
| "rk4_steps (Suc n) eom u h x = chain (rk4_step eom u h x) (rk4_steps n eom u h)"

definition dynamical_step :: "(dvec \<Rightarrow> dvec \<Rightarrow> dvec res) \<Rightarrow> real \<Rightarrow> nat \<Rightarrow> model_step" where
  "dynamical_step eom tau steps state actuation =
     chain (rk4_steps steps eom actuation (tau / real steps) state) (\<lambda>x. Inr (tau, x))"

section \<open>The regulator task\<close>

datatype cost_style = Quadratic | Absolute | SquareRoot

record regulator =
  rg_start :: dvec
  rg_goal :: dvec
  rg_stddev :: dvec
  rg_q :: dvec
  rg_r :: dvec
  rg_min :: dvec
  rg_max :: dvec
  rg_timeout :: real
  rg_q_function :: cost_style
  rg_r_function :: cost_style
  rg_p :: real

definition regulator_configure :: "regulator \<Rightarrow> regulator res" where
  "regulator_configure rg =
     (let n = length (rg_start rg);
          rg = (if rg_stddev rg = [] then rg\<lparr>rg_stddev := ConstantVector n 0\<rparr> else rg)
      in if rg_start rg = [] \<or> n \<noteq> length (rg_goal rg) \<or> n \<noteq> length (rg_stddev rg) \<or>
            n \<noteq> length (rg_q rg) \<or> rg_r rg = [] \<or> length (rg_min rg) \<noteq> length (rg_max rg) \<or>
            (rg_min rg \<noteq> [] \<and> length (rg_min rg) \<noteq> n)
         then Inl RepBadParam else Inr rg)"

text \<open>A normal deviate that is not a number has no counterpart in the model.\<close>

definition finite_real :: "dbl \<Rightarrow> real res" where
  "finite_real d = (case d of Fin x \<Rightarrow> Inr x | _ \<Rightarrow> Inl RepUndefined)"

fun draw_normals :: "bool \<Rightarrow> dvec \<Rightarrow> dvec \<Rightarrow> rand \<Rightarrow> (dvec \<times> rand) res" where
  "draw_normals test (m # ms) (s # ss) g =
     (let (d, g) = getNormal m (if test then 0 else s) g
      in chain (finite_real d) (\<lambda>x. chain (draw_normals test ms ss g) (\<lambda>(xs, g). Inr (x # xs, g))))"
| "draw_normals test _ _ g = Inr ([], g)"

definition regulator_start :: "regulator \<Rightarrow> int \<Rightarrow> rand \<Rightarrow> (dvec \<times> rand) res" where
  "regulator_start rg test g =
     chain (draw_normals (test \<noteq> 0) (rg_start rg) (rg_stddev rg) g) (\<lambda>(xs, g). Inr (xs @ [0], g))"

definition state_cost :: "regulator \<Rightarrow> real \<Rightarrow> real \<Rightarrow> real" where
  "state_cost rg w d =
     (case rg_q_function rg of
        Quadratic \<Rightarrow> 0.5 * w * d\<^sup>2
      | Absolute \<Rightarrow> w * (sqrt (d\<^sup>2 + rg_p rg * rg_p rg) - rg_p rg)
      | SquareRoot \<Rightarrow> w * (sqrt (sqrt (d\<^sup>2 + rg_p rg * rg_p rg)) - sqrt (rg_p rg)))"

definition action_cost :: "regulator \<Rightarrow> real \<Rightarrow> real \<Rightarrow> real" where
  "action_cost rg w d =
     (case rg_r_function rg of
        Quadratic \<Rightarrow> 0.5 * w * d\<^sup>2
      | Absolute \<Rightarrow> w * (sqrt (d\<^sup>2 + rg_p rg * rg_p rg) - rg_p rg)
      | SquareRoot \<Rightarrow> w * (sqrt (sqrt (d\<^sup>2 + rg_p rg * rg_p rg)) - sqrt (rg_p rg)))"

text \<open>The cost is that of the state before the step.\<close>

definition regulator_evaluate :: "regulator \<Rightarrow> dvec \<Rightarrow> action \<Rightarrow> dvec \<Rightarrow> real res" where
  "regulator_evaluate rg state a next_state =
     (if length state \<noteq> length (rg_q rg) + 1 \<or> length (a_v a) \<noteq> length (rg_r rg) \<or>
         length next_state \<noteq> length (rg_q rg) + 1
      then Inl RepException
      else Inr (foldl (\<lambda>acc (w, d). acc - action_cost rg w d)
             (foldl (\<lambda>acc (w, d). acc - state_cost rg w d) 0
                (zip (rg_q rg) (vsub (take (length (rg_goal rg)) state) (rg_goal rg))))
             (zip (rg_r rg) (a_v a))))"

definition regulator_valid :: "regulator \<Rightarrow> dvec \<Rightarrow> bool res" where
  "regulator_valid rg state =
     (if rg_min rg = [] then Inr True
      else if length state \<noteq> length (rg_min rg) + 1 then Inl RepException
      else Inr (\<forall>(x, l, h) \<in> set (zip state (zip (rg_min rg) (rg_max rg))). \<not> (x < l \<or> h < x)))"

text \<open>The terminal flag; the observation itself is left to the derived task.\<close>

definition regulator_terminal :: "regulator \<Rightarrow> dvec \<Rightarrow> int res" where
  "regulator_terminal rg state =
     (if state = [] then Inl RepUndefined
      else if last state > rg_timeout rg then Inr 1
      else chain (regulator_valid rg state) (\<lambda>v. Inr (if v then 0 else 1)))"

text \<open>The diagonal of the Hessian of the reward, empty where it is not known.\<close>

definition regulator_hessian :: "regulator \<Rightarrow> dvec" where
  "regulator_hessian rg =
     (if rg_q_function rg = Quadratic \<and> rg_r_function rg = Quadratic
      then map uminus (Vectors.extend (rg_q rg) (rg_r rg)) else [])"

end
