(* ===== verification/Experiments.thy ===== *)
theory Experiments
  imports Environments Strings
begin

text \<open>
  Experiments (\<open>base/include/grl/experiment.h\<close>, \<open>base/src/experiments/\<close>): the online learning
  experiment, in which agents act in an environment, the batch learning experiment, which learns
  from random experience of a model, and the approximation test.

  Environment, agents and what they share are one state of type \<open>'s\<close>. The result \<open>None\<close> is an
  experiment that never ends; an exception is \<open>RepException\<close> or \<open>RepBadParam\<close>. Writing the report
  file, sleeping to keep a control rate and measuring time leave no trace in the model.
\<close>

section \<open>Online learning\<close>

record 's exp_ops =
  xo_env_start :: "int \<Rightarrow> observation \<Rightarrow> 's \<Rightarrow> (observation \<times> 's) res"
  xo_env_step :: "action \<Rightarrow> observation \<Rightarrow> 's \<Rightarrow> (step_result \<times> 's) res option"
  xo_agent :: "'s agent_ops"
  xo_test_agent :: "'s agent_ops"
  xo_walk :: "string \<Rightarrow> string \<Rightarrow> 's \<Rightarrow> 's"   \<comment> \<open>action and file\<close>
  xo_reset :: "'s \<Rightarrow> 's"

record online =
  on_runs :: nat
  on_run_offset :: nat
  on_trials :: nat
  on_steps :: nat
  on_test_interval :: int
  on_output :: string
  on_load_file :: string
  on_save_every :: string
  on_identity :: string

definition online_configure :: "bool \<Rightarrow> online \<Rightarrow> online res" where
  "online_configure has_test_agent x =
     (if on_test_interval x \<ge> 0 \<and> \<not> has_test_agent then Inl RepBadParam else Inr x)"

text \<open>The decimal digits of a number.\<close>

fun to_digits :: "nat \<Rightarrow> string" where
  "to_digits n = (if n < 10 then [char_of (48 + n)] else to_digits (n div 10) @ [char_of (48 + n mod 10)])"

declare to_digits.simps [simp del]

text \<open>A trial is a test with number \<open>rr + 1\<close>, or learns with number 0.\<close>

definition test_of :: "online \<Rightarrow> nat \<Rightarrow> nat \<Rightarrow> int" where
  "test_of x rr tt =
     (if on_test_interval x \<ge> 0 \<and> int tt mod (on_test_interval x + 1) = on_test_interval x
      then int rr + 1 else 0)"

text \<open>What the agent is told of a step, and its next action.\<close>

definition react ::
    "'s agent_ops \<Rightarrow> step_result \<Rightarrow> action \<Rightarrow> 's \<Rightarrow> (action \<times> 's) res" where
  "react ag s a w =
     (if o_v (sr_obs s) = [] then Inr (a, w)
      else if sr_terminal s = 2
      then chain (ag_end ag (sr_tau s) (sr_obs s) (sr_reward s) w) (\<lambda>w. Inr (a, w))
      else ag_step ag (sr_tau s) (sr_obs s) (sr_reward s) a w)"

text \<open>The loop of a trial: total reward, number of observed steps, and the state after it.\<close>

partial_function (option) interact ::
    "'s exp_ops \<Rightarrow> 's agent_ops \<Rightarrow> action \<Rightarrow> observation \<Rightarrow> real \<Rightarrow> nat \<Rightarrow> 's \<Rightarrow> (real \<times> nat \<times> 's) res option" where
  "interact xo ag a obs total_reward n w =
     (case xo_env_step xo a obs w of
        None \<Rightarrow> None
      | Some (Inl e) \<Rightarrow> Some (Inl e)
      | Some (Inr (s, w)) \<Rightarrow>
          (case react ag s a w of
             Inl e \<Rightarrow> Some (Inl e)
           | Inr (a, w) \<Rightarrow>
               let total_reward = total_reward + sr_reward s;
                   n = (if o_v (sr_obs s) = [] then n else n + 1)
               in if sr_terminal s \<noteq> 0 then Some (Inr (total_reward, n, w))
                  else interact xo ag a (sr_obs s) total_reward n w))"

definition run_trial ::
    "'s exp_ops \<Rightarrow> int \<Rightarrow> 's \<Rightarrow> (real \<times> nat \<times> 's) res option" where
  "run_trial xo test w =
     (let ag = (if test \<noteq> 0 then xo_test_agent xo else xo_agent xo)
      in case chain (xo_env_start xo test no_obs w) (\<lambda>(obs, w).
                chain (ag_start ag obs no_action w) (\<lambda>(a, w). Inr (a, obs, w))) of
           Inl e \<Rightarrow> Some (Inl e)
         | Inr (a, obs, w) \<Rightarrow> interact xo ag a obs 0 0 w)"

record 's progress =
  pg_ss :: nat
  pg_tt :: nat
  pg_curve :: "real list"
  pg_avg1 :: real
  pg_avg2 :: real
  pg_signal :: "real list"
  pg_world :: 's

text \<open>An entry of the learning curve, with its two moving averages.\<close>

definition add_point :: "real \<Rightarrow> 's progress \<Rightarrow> 's progress" where
  "add_point r p =
     (let p = (if pg_curve p = [] then p\<lparr>pg_avg1 := r, pg_avg2 := r\<rparr> else p);
          avg1 = 0.1 * r + 0.9 * pg_avg1 p; avg2 = 0.01 * r + 0.99 * pg_avg2 p
      in p\<lparr>pg_avg1 := avg1, pg_avg2 := avg2, pg_curve := pg_curve p @ [r], pg_signal := [r, avg1, avg2]\<rparr>)"

definition save_trial :: "'s exp_ops \<Rightarrow> online \<Rightarrow> nat \<Rightarrow> int \<Rightarrow> 's progress \<Rightarrow> 's progress" where
  "save_trial xo x rr test p =
     (if (on_save_every x = ''trial'' \<or> (test \<noteq> 0 \<and> on_save_every x = ''test'')) \<and> on_output x \<noteq> []
      then p\<lparr>pg_world := xo_walk xo ''save''
             (on_output x @ ''-run'' @ to_digits rr @ ''-trial'' @ to_digits (pg_tt p) @ ''-'') (pg_world p)\<rparr>
      else p)"

definition finish_trial :: "'s exp_ops \<Rightarrow> online \<Rightarrow> nat \<Rightarrow> int \<Rightarrow> real \<times> nat \<times> 's \<Rightarrow> 's progress \<Rightarrow> 's progress" where
  "finish_trial xo x rr test = (\<lambda>(total_reward, n, w) p.
     let p = p\<lparr>pg_ss := (if test = 0 then pg_ss p + n else pg_ss p), pg_world := w\<rparr>;
         p = (if on_test_interval x < 0 \<or> test \<noteq> 0 then add_point total_reward p else p)
     in save_trial xo x rr test p)"

partial_function (option) trial_loop ::
    "'s exp_ops \<Rightarrow> online \<Rightarrow> nat \<Rightarrow> 's progress \<Rightarrow> 's progress res option" where
  "trial_loop xo x rr p =
     (if (on_trials x = 0 \<or> pg_tt p < on_trials x) \<and> (on_steps x = 0 \<or> pg_ss p < on_steps x)
      then case run_trial xo (test_of x rr (pg_tt p)) (pg_world p) of
             None \<Rightarrow> None
           | Some (Inl e) \<Rightarrow> Some (Inl e)
           | Some (Inr r) \<Rightarrow>
               trial_loop xo x rr ((finish_trial xo x rr (test_of x rr (pg_tt p)) r p)\<lparr>pg_tt := pg_tt p + 1\<rparr>)
      else Some (Inr p))"

definition load_policy :: "'s exp_ops \<Rightarrow> online \<Rightarrow> nat \<Rightarrow> 's \<Rightarrow> 's" where
  "load_policy xo x rr w =
     (if on_load_file x = [] then w
      else xo_walk xo ''load'' (snd (str_replace (on_load_file x @ ''-'') ''$run'' (to_digits rr))) w)"

definition save_run :: "'s exp_ops \<Rightarrow> online \<Rightarrow> nat \<Rightarrow> 's \<Rightarrow> 's" where
  "save_run xo x rr w =
     (if on_save_every x = ''run'' \<and> on_output x \<noteq> []
      then xo_walk xo ''save'' (on_output x @ ''-run'' @ to_digits rr @ ''-'') w else w)"

definition online_once :: "'s exp_ops \<Rightarrow> online \<Rightarrow> nat \<Rightarrow> 's progress \<Rightarrow> 's progress res option" where
  "online_once xo x rr p =
     map_option (\<lambda>r. chain r (\<lambda>p. Inr (p\<lparr>pg_world := save_run xo x rr (pg_world p)\<rparr>)))
       (trial_loop xo x rr (p\<lparr>pg_curve := [], pg_ss := 0, pg_tt := 0, pg_world := load_policy xo x rr (pg_world p)\<rparr>))"

text \<open>The runs that are left, the current one being number \<open>rr\<close>; between runs everything is reset.\<close>

fun run_loop :: "'s exp_ops \<Rightarrow> online \<Rightarrow> nat \<Rightarrow> nat \<Rightarrow> 's progress \<Rightarrow> 's progress res option" where
  "run_loop xo x 0 rr p = Some (Inr p)"
| "run_loop xo x (Suc k) rr p =
     (case online_once xo x rr p of
        None \<Rightarrow> None
      | Some (Inl e) \<Rightarrow> Some (Inl e)
      | Some (Inr p) \<Rightarrow>
          run_loop xo x k (rr + 1) (if k = 0 then p else p\<lparr>pg_world := xo_reset xo (pg_world p)\<rparr>))"

definition online_run :: "'s exp_ops \<Rightarrow> online \<Rightarrow> 's \<Rightarrow> (real list \<times> 's progress) res option" where
  "online_run xo x w =
     map_option (\<lambda>r. chain r (\<lambda>p. Inr (pg_curve p, p)))
       (run_loop xo x (on_runs x) (on_run_offset x)
          \<lparr>pg_ss = 0, pg_tt = 0, pg_curve = [], pg_avg1 = 0, pg_avg2 = 0, pg_signal = [], pg_world = w\<rparr>)"

section \<open>Batch learning\<close>

record 's batch_ops =
  bo_model :: model_step
  bo_task :: task
  bo_update :: "transition \<Rightarrow> 's \<Rightarrow> 's res"
  bo_finalize :: "'s \<Rightarrow> 's res"
  bo_test_agent :: "'s agent_ops"
  bo_rand :: "'s \<Rightarrow> rand"
  bo_set_rand :: "rand \<Rightarrow> 's \<Rightarrow> 's"
  bo_reset :: "'s \<Rightarrow> 's"

record batch_exp =
  be_runs :: nat
  be_batches :: nat
  be_batch_size :: nat
  be_observation_min :: dvec
  be_observation_max :: dvec
  be_action_min :: dvec
  be_action_max :: dvec

text \<open>A uniform vector between two limits; limits of different sizes are undefined.\<close>

definition uniform_between :: "dvec \<Rightarrow> dvec \<Rightarrow> rand \<Rightarrow> (dvec \<times> rand) res" where
  "uniform_between lo hi g =
     (let (u, g) = getVector (length lo) g
      in if length lo \<noteq> length hi then Inl RepUndefined
         else Inr (vadd lo (map2 (*) u (vsub hi lo)), g))"

text \<open>One random transition.\<close>

definition random_transition :: "'s batch_ops \<Rightarrow> batch_exp \<Rightarrow> 's \<Rightarrow> (transition \<times> 's) res" where
  "random_transition bo be w =
     (let (_, g1) = getVector (length (be_observation_min be)) (bo_rand bo w);
          (_, g2) = getVector (length (be_action_min be)) g1;
          (_, g3) = getVector (length (be_action_min be)) g2
      in chain (uniform_between (be_observation_min be) (be_observation_max be) (bo_rand bo w)) (\<lambda>(o', _).
         chain (uniform_between (be_action_min be) (be_action_max be) g1) (\<lambda>(a, _).
         chain (uniform_between (be_action_min be) (be_action_max be) g2) (\<lambda>(a', _).
         (let obs = Observation o' False; act = Action a atUndefined; next_action = Action a' atUndefined
          in case tk_invert (bo_task bo) obs 0 of
               None \<Rightarrow> Inl RepBadParam
             | Some state \<Rightarrow>
                 chain (bo_model bo state a) (\<lambda>(tau, state').
                 chain (tk_observe (bo_task bo) state' no_obs) (\<lambda>(next_obs, terminal).
                 chain (tk_evaluate (bo_task bo) state act state') (\<lambda>reward.
                   Inr (if terminal = 2 then Transition obs act tau reward no_obs no_action
                        else Transition obs act tau reward next_obs next_action,
                        bo_set_rand bo g3 w)))))))))"

fun collect_batch :: "'s batch_ops \<Rightarrow> batch_exp \<Rightarrow> nat \<Rightarrow> 's \<Rightarrow> 's res" where
  "collect_batch bo be 0 w = Inr w"
| "collect_batch bo be (Suc k) w =
     chain (random_transition bo be w) (\<lambda>(t, w). chain (bo_update bo t w) (collect_batch bo be k))"

text \<open>The test trial steps the model itself, without the actuation of the task.\<close>

partial_function (option) batch_test_loop ::
    "'s batch_ops \<Rightarrow> dvec \<Rightarrow> action \<Rightarrow> observation \<Rightarrow> real \<Rightarrow> 's \<Rightarrow> (real \<times> 's) res option" where
  "batch_test_loop bo state a obs total_reward w =
     (case chain (bo_model bo state (a_v a)) (\<lambda>(tau, state').
           chain (tk_observe (bo_task bo) state' obs) (\<lambda>(obs, terminal).
           chain (tk_evaluate (bo_task bo) state a state') (\<lambda>reward.
           chain (if terminal = 2
                  then chain (ag_end (bo_test_agent bo) tau obs reward w) (\<lambda>w. Inr (a, w))
                  else ag_step (bo_test_agent bo) tau obs reward a w) (\<lambda>(a, w).
             Inr (state', a, obs, reward, terminal, w))))) of
        Inl e \<Rightarrow> Some (Inl e)
      | Inr (state', a, obs, reward, terminal, w) \<Rightarrow>
          if terminal \<noteq> 0 then Some (Inr (total_reward + reward, w))
          else batch_test_loop bo state' a obs (total_reward + reward) w)"

definition batch_test :: "'s batch_ops \<Rightarrow> 's \<Rightarrow> (real \<times> 's) res option" where
  "batch_test bo w =
     (case chain (tk_start (bo_task bo) 1 (bo_rand bo w)) (\<lambda>(state, g).
           chain (tk_observe (bo_task bo) state no_obs) (\<lambda>(obs, _).
           chain (ag_start (bo_test_agent bo) obs no_action (bo_set_rand bo g w)) (\<lambda>(a, w).
             Inr (state, a, obs, w)))) of
        Inl e \<Rightarrow> Some (Inl e)
      | Inr (state, a, obs, w) \<Rightarrow> batch_test_loop bo state a obs 0 w)"

partial_function (option) batch_loop ::
    "'s batch_ops \<Rightarrow> batch_exp \<Rightarrow> nat \<Rightarrow> real list \<Rightarrow> 's \<Rightarrow> (real list \<times> 's) res option" where
  "batch_loop bo be bb curve w =
     (if be_batches be = 0 \<or> bb < be_batches be
      then case chain (collect_batch bo be (be_batch_size be) w) (bo_finalize bo) of
             Inl e \<Rightarrow> Some (Inl e)
           | Inr w \<Rightarrow>
               (case batch_test bo w of
                  None \<Rightarrow> None
                | Some (Inl e) \<Rightarrow> Some (Inl e)
                | Some (Inr (r, w)) \<Rightarrow> batch_loop bo be (bb + 1) (curve @ [r]) w)
      else Some (Inr (curve, w)))"

fun batch_runs :: "'s batch_ops \<Rightarrow> batch_exp \<Rightarrow> nat \<Rightarrow> real list \<Rightarrow> 's \<Rightarrow> (real list \<times> 's) res option" where
  "batch_runs bo be 0 curve w = Some (Inr (curve, w))"
| "batch_runs bo be (Suc k) curve w =
     (case batch_loop bo be 0 [] w of
        None \<Rightarrow> None
      | Some (Inl e) \<Rightarrow> Some (Inl e)
      | Some (Inr (curve, w)) \<Rightarrow> batch_runs bo be k curve (if k = 0 then w else bo_reset bo w))"

definition batch_run :: "'s batch_ops \<Rightarrow> batch_exp \<Rightarrow> 's \<Rightarrow> (real list \<times> 's) res option" where
  "batch_run bo be w = batch_runs bo be (be_runs be) [] w"

section \<open>Approximation test\<close>

record 'r approx_test =
  at_min :: dvec
  at_max :: dvec
  at_train :: nat
  at_test :: nat
  at_mapping :: "dvec \<Rightarrow> dvec res"
  at_project :: "dvec \<Rightarrow> projection"
  at_rep :: "'r rep_ops"

definition approx_configure :: "'r approx_test \<Rightarrow> 'r approx_test res" where
  "approx_configure x = (if length (at_min x) \<noteq> length (at_max x) then Inl RepBadParam else Inr x)"

fun approx_train :: "'r approx_test \<Rightarrow> nat \<Rightarrow> 'r \<Rightarrow> rand \<Rightarrow> ('r \<times> rand) res" where
  "approx_train x 0 r g = Inr (r, g)"
| "approx_train x (Suc k) r g =
     chain (uniform_between (at_min x) (at_max x) g) (\<lambda>(inp, g).
     chain (at_mapping x inp) (\<lambda>out.
     chain (rep_write1 (at_rep x) r (at_project x inp) out 1) (\<lambda>r. approx_train x k r g)))"

text \<open>The error of a sample is the sum of the differences, with their signs.\<close>

fun approx_errors :: "'r approx_test \<Rightarrow> nat \<Rightarrow> 'r \<Rightarrow> rand \<Rightarrow> (real list \<times> rand) res" where
  "approx_errors x 0 r g = Inr ([], g)"
| "approx_errors x (Suc k) r g =
     chain (uniform_between (at_min x) (at_max x) g) (\<lambda>(inp, g).
     chain (at_mapping x inp) (\<lambda>out.
     chain (rp_read (at_rep x) r (at_project x inp)) (\<lambda>app.
     if length out \<noteq> length app then Inl RepUndefined
     else chain (approx_errors x k r g) (\<lambda>(es, g). Inr (sum_list (vsub out app) # es, g)))))"

definition approx_run :: "'r approx_test \<Rightarrow> 'r \<Rightarrow> rand \<Rightarrow> (real list \<times> 'r \<times> rand) res" where
  "approx_run x r g =
     chain (approx_train x (at_train x) r g) (\<lambda>(r, g).
       let r = rp_finalize (at_rep x) r
       in chain (approx_errors x (at_test x) r g) (\<lambda>(es, g). Inr (es, r, g)))"

end
