(* ===== verification/Worlds.thy ===== *)
theory Worlds
  imports Environments
begin

text \<open>
  Five worlds with their tasks (\<open>base/src/environments/\<close>): the windy gridworld (\<open>windy.cpp\<close>),
  the pendulum (\<open>pendulum.cpp\<close>), the mountain car on a height map (\<open>mountain.cpp\<close>), the puddle
  world (\<open>puddle.cpp\<close>, with the interpolation of \<open>mappings/puddle.cpp\<close>) and the cart-pole
  (\<open>cart_pole.cpp\<close>).

  Constants are real numbers. An index into a vector or array that does not have it is
  \<open>RepUndefined\<close>. The height map of the mountain is a parameter, as is the random depth map of
  the puddle world, whose generation is not modelled.
\<close>

section \<open>Functions of the C library\<close>

text \<open>Conversion to an integer cuts off the fraction.\<close>

definition c_fmod :: "real \<Rightarrow> real \<Rightarrow> real" where
  "c_fmod x y = x - y * real_of_int (c_trunc (x / y))"

definition clamp :: "real \<Rightarrow> real \<Rightarrow> real \<Rightarrow> real" where
  "clamp x l h = min (max x l) h"

text \<open>The first \<open>n\<close> state variables as the observation, not absorbing.\<close>

definition observe_prefix :: "nat \<Rightarrow> dvec \<Rightarrow> observation \<Rightarrow> observation" where
  "observe_prefix n state obs = obs\<lparr>o_v := take n state, o_absorbing := False\<rparr>"

definition invert_append :: "observation \<Rightarrow> real \<Rightarrow> dvec option" where
  "invert_append obs time = Some (Vectors.extend (o_v obs) [time])"

section \<open>Windy gridworld\<close>

definition wind :: "int list" where
  "wind = [0, 0, 0, 1, 1, 1, 2, 2, 1, 0]"

definition windy_move :: "int \<Rightarrow> (real \<times> real) res" where
  "windy_move a =
     (if a = 0 then Inr (0, 1) else if a = 1 then Inr (0, - 1)
      else if a = 2 then Inr (1, 0) else if a = 3 then Inr (- 1, 0) else Inl RepException)"

definition windy_step :: model_step where
  "windy_step state actuation =
     (case (state, actuation) of
        (x # y # rest, a # _) \<Rightarrow>
          chain (windy_move (c_trunc a)) (\<lambda>(dx, dy).
            let col = c_trunc x
            in if 0 \<le> col \<and> col < int (length wind)
               then Inr (1, clamp (x + dx) 0 9 # clamp (y + dy + real_of_int (wind ! nat col)) 0 6 # rest)
               else Inl RepUndefined)
      | _ \<Rightarrow> Inl RepUndefined)"

definition windy_start :: "int \<Rightarrow> rand \<Rightarrow> (dvec \<times> rand) res" where
  "windy_start test g = Inr ([0, 3, 0], g)"

definition windy_succeeded :: "dvec \<Rightarrow> bool" where
  "windy_succeeded state \<longleftrightarrow> \<bar>state ! 0 - 7\<bar> < 0.001 \<and> \<bar>state ! 1 - 3\<bar> < 0.001"

definition windy_observe :: "dvec \<Rightarrow> observation \<Rightarrow> (observation \<times> int) res" where
  "windy_observe state obs =
     (if length state \<noteq> 3 then Inl RepException
      else let obs = observe_prefix 2 state obs
           in if windy_succeeded state then Inr (obs\<lparr>o_absorbing := True\<rparr>, 2) else Inr (obs, 0))"

definition windy_evaluate :: "dvec \<Rightarrow> action \<Rightarrow> dvec \<Rightarrow> real res" where
  "windy_evaluate state a next_state =
     (if length state \<noteq> 3 \<or> length (a_v a) \<noteq> 1 \<or> length next_state \<noteq> 3 then Inl RepException
      else Inr (- 1))"

definition windy_invert :: "observation \<Rightarrow> real \<Rightarrow> dvec option" where
  "windy_invert obs time = (if length (o_v obs) < 2 then None else Some (take 2 (o_v obs) @ [time]))"

definition windy_task :: task where
  "windy_task = \<lparr>tk_start = windy_start, tk_actuate = default_actuate, tk_observe = windy_observe,
     tk_evaluate = windy_evaluate, tk_invert = windy_invert\<rparr>"

section \<open>Pendulum\<close>

definition pendulum_eom :: "dvec \<Rightarrow> dvec \<Rightarrow> dvec res" where
  "pendulum_eom state actuation =
     (if length state \<noteq> 3 \<or> length actuation \<noteq> 1 then Inl RepException
      else let J = 0.000191; m = 0.055; g = 9.81; l = 0.042; b = 0.000003; K = 0.0536; R = 9.5;
               a = state ! 0; ad = state ! 1;
               add = (1 / J) * (m * g * l * sin a - b * ad - (K * K / R) * ad + (K / R) * actuation ! 0)
           in Inr [ad, add, 1])"

record swingup =
  su_timeout :: real
  su_randomization :: real

definition swingup_start :: "swingup \<Rightarrow> int \<Rightarrow> rand \<Rightarrow> (dvec \<times> rand) res" where
  "swingup_start su test g =
     (let (u, g) = rand_get g
      in Inr ([pi + su_randomization su * (if test = 0 then 1 else 0) * u * 2 * pi, 0, 0], g))"

definition swingup_actuate :: "dvec \<Rightarrow> dvec \<Rightarrow> action \<Rightarrow> (bool \<times> dvec) res" where
  "swingup_actuate prev state a =
     (case a_v a of [] \<Rightarrow> Inl RepUndefined | x # _ \<Rightarrow> Inr (True, [clamp x (- 3) 3]))"

text \<open>The angle between 0 and a full turn, \<open>pi\<close> being upright.\<close>

definition wrap_angle :: "real \<Rightarrow> real" where
  "wrap_angle x = (let a = c_fmod (x + pi) (2 * pi) in if a < 0 then a + 2 * pi else a)"

definition swingup_observe :: "swingup \<Rightarrow> dvec \<Rightarrow> observation \<Rightarrow> (observation \<times> int) res" where
  "swingup_observe su state obs =
     (if length state \<noteq> 3 then Inl RepException
      else Inr (obs\<lparr>o_v := [wrap_angle (state ! 0), state ! 1], o_absorbing := False\<rparr>,
                if state ! 2 > su_timeout su then 1 else 0))"

text \<open>The distance of an angle from 0, with a sign.\<close>

definition folded_angle :: "real \<Rightarrow> real" where
  "folded_angle x = (let a = c_fmod \<bar>x\<bar> (2 * pi) in if a > pi then a - 2 * pi else a)"

definition swingup_evaluate :: "dvec \<Rightarrow> action \<Rightarrow> dvec \<Rightarrow> real res" where
  "swingup_evaluate state a next_state =
     (if length state \<noteq> 3 \<or> length (a_v a) \<noteq> 1 \<or> length next_state \<noteq> 3 then Inl RepException
      else let reward = - 5 * (folded_angle (next_state ! 0))\<^sup>2 - 0.1 * (next_state ! 1)\<^sup>2 - 1 * (a_v a ! 0)\<^sup>2;
               dt = next_state ! 2 - state ! 2
           in Inr (if dt \<noteq> 1 then reward * (dt / 0.03) else reward))"

definition swingup_invert :: "observation \<Rightarrow> real \<Rightarrow> dvec option" where
  "swingup_invert obs time =
     (if length (o_v obs) < 2 then None else Some [o_v obs ! 0 - pi, o_v obs ! 1, time])"

definition swingup_task :: "swingup \<Rightarrow> task" where
  "swingup_task su = \<lparr>tk_start = swingup_start su, tk_actuate = swingup_actuate,
     tk_observe = swingup_observe su, tk_evaluate = swingup_evaluate, tk_invert = swingup_invert\<rparr>"

text \<open>The regulator tasks configure a regulator for their number of variables, and observe all but time.\<close>

definition pendulum_regulator_configure :: "regulator \<Rightarrow> regulator res" where
  "pendulum_regulator_configure rg =
     chain (regulator_configure rg) (\<lambda>rg.
       if length (rg_q rg) \<noteq> 2 \<or> length (rg_r rg) \<noteq> 1 then Inl RepBadParam else Inr rg)"

definition pendulum_regulator_observe :: "regulator \<Rightarrow> dvec \<Rightarrow> observation \<Rightarrow> (observation \<times> int) res" where
  "pendulum_regulator_observe rg state obs =
     chain (regulator_terminal rg state) (\<lambda>terminal.
       if length state \<noteq> 3 then Inl RepException else Inr (observe_prefix 2 state obs, terminal))"

definition pendulum_regulator_task :: "regulator \<Rightarrow> task" where
  "pendulum_regulator_task rg = \<lparr>tk_start = regulator_start rg, tk_actuate = default_actuate,
     tk_observe = pendulum_regulator_observe rg, tk_evaluate = regulator_evaluate rg,
     tk_invert = invert_append\<rparr>"

section \<open>Mountain\<close>

record mountain =
  mt_map :: "dvec \<Rightarrow> real res"
  mt_mass :: real
  mt_gravity :: real
  mt_friction :: real
  mt_stiffness :: real

text \<open>The slope in one dimension; \<open>atan2\<close> of a positive second argument is the arc tangent of the quotient.\<close>

definition slope_at :: "mountain \<Rightarrow> dvec \<Rightarrow> nat \<Rightarrow> real res" where
  "slope_at mt pos ii =
     chain (mt_map mt (pos[ii := pos ! ii - 0.01])) (\<lambda>height1.
     chain (mt_map mt (pos[ii := pos ! ii - 0.01 + 0.02])) (\<lambda>height2.
       Inr (arctan ((height2 - height1) / 0.02))))"

definition end_wall :: "mountain \<Rightarrow> real \<Rightarrow> real" where
  "end_wall mt x =
     (if x < 0 then - mt_stiffness mt * x else 0) + (if x > 1 then - mt_stiffness mt * (x - 1) else 0)"

definition mountain_eom :: "mountain \<Rightarrow> dvec \<Rightarrow> dvec \<Rightarrow> dvec res" where
  "mountain_eom mt state actuation =
     (if length state \<noteq> 5 \<or> length actuation \<noteq> 2 then Inl RepException
      else chain (slope_at mt (take 2 state) 0) (\<lambda>ax.
           chain (slope_at mt (take 2 state) 1) (\<lambda>ay.
           let acc = (\<lambda>u v angle. (u / mt_mass mt - mt_gravity mt * (mt_friction mt * v + sin angle)) * cos angle)
           in Inr [state ! 2, state ! 3,
                   acc (actuation ! 0) (state ! 2) ax + end_wall mt (state ! 0),
                   acc (actuation ! 1) (state ! 3) ay + end_wall mt (state ! 1), 1])))"

definition plane_regulator_configure :: "regulator \<Rightarrow> regulator res" where
  "plane_regulator_configure rg =
     chain (regulator_configure rg) (\<lambda>rg.
       if length (rg_q rg) \<noteq> 4 \<or> length (rg_r rg) \<noteq> 2 then Inl RepBadParam else Inr rg)"

definition plane_regulator_observe :: "regulator \<Rightarrow> dvec \<Rightarrow> observation \<Rightarrow> (observation \<times> int) res" where
  "plane_regulator_observe rg state obs =
     chain (regulator_terminal rg state) (\<lambda>terminal.
       if length state \<noteq> 5 then Inl RepException else Inr (observe_prefix 4 state obs, terminal))"

definition mountain_task :: "regulator \<Rightarrow> task" where
  "mountain_task rg = \<lparr>tk_start = regulator_start rg, tk_actuate = default_actuate,
     tk_observe = plane_regulator_observe rg, tk_evaluate = regulator_evaluate rg,
     tk_invert = invert_append\<rparr>"

section \<open>Puddle world\<close>

text \<open>A map of depths at the intersections of a grid, row by row.\<close>

definition cell_of :: "real \<Rightarrow> nat \<Rightarrow> nat" where
  "cell_of l n = nat (c_trunc (min (max l 0) (real n - 2)))"

definition grid_at :: "real list list \<Rightarrow> nat \<Rightarrow> nat \<Rightarrow> real res" where
  "grid_at m i j = (if i < length m \<and> j < length (m ! i) then Inr (m ! i ! j) else Inl RepUndefined)"

text \<open>Bilinear interpolation; \<open>cols\<close> and the number of rows are at least 2.\<close>

definition puddle_read :: "real list list \<Rightarrow> nat \<Rightarrow> dvec \<Rightarrow> real res" where
  "puddle_read m cols inp =
     (if length inp \<noteq> 2 then Inl RepException
      else let lx = inp ! 0 * (real cols - 1); ly = inp ! 1 * (real (length m) - 1);
               mx = cell_of lx cols; my = cell_of ly (length m);
               dx = min (max (lx - real mx) 0) 1; dy = min (max (ly - real my) 0) 1
           in chain (grid_at m my mx) (\<lambda>a.
              chain (grid_at m my (mx + 1)) (\<lambda>b.
              chain (grid_at m (my + 1) mx) (\<lambda>c.
              chain (grid_at m (my + 1) (mx + 1)) (\<lambda>d.
                Inr (a * (1 - dx) * (1 - dy) + b * dx * (1 - dy) + c * (1 - dx) * dy + d * dx * dy))))))"

text \<open>
  One of the five Euler steps: position and velocity in one dimension, with the bounce at the edges.
  A fifth root of a negative number, which is not a number, is \<open>RepUndefined\<close>.
\<close>

definition bounce :: "real \<Rightarrow> real \<Rightarrow> real" where
  "bounce x v =
     (let v = (if x < 0 \<and> v < 0 then - 0.5 * v else v)
      in if x > 1 \<and> v > 0 then - 0.5 * v else v)"

definition puddle_euler :: "real \<Rightarrow> real \<Rightarrow> real \<Rightarrow> real \<times> real \<Rightarrow> real \<times> real" where
  "puddle_euler h drag u xv =
     (case xv of (x, v) \<Rightarrow> let x = x + h * v; v = (v + h * u) * drag in (x, bounce x v))"

definition puddle_step :: "(dvec \<Rightarrow> real res) \<Rightarrow> real \<Rightarrow> model_step" where
  "puddle_step depth_at drag state actuation =
     (case (state, actuation) of
        ([x, y, vx, vy, t], [ux, uy]) \<Rightarrow>
          chain (depth_at [x, y]) (\<lambda>depth.
          let h = 0.01; base = drag + (1 - drag) * depth; dr = c_pow base (1 / 5);
              (x, vx) = (puddle_euler h dr ux ^^ 5) (x, vx);
              (y, vy) = (puddle_euler h dr uy ^^ 5) (y, vy)
          in if base < 0 then Inl RepUndefined
             else Inr (0.05, [x, y, vx, vy, t + h + h + h + h + h]))
      | _ \<Rightarrow> Inl RepException)"

text \<open>The depth is that before the step.\<close>

definition puddle_evaluate ::
    "(dvec \<Rightarrow> real res) \<Rightarrow> real \<Rightarrow> regulator \<Rightarrow> dvec \<Rightarrow> action \<Rightarrow> dvec \<Rightarrow> real res" where
  "puddle_evaluate depth_at penalty rg state a next_state =
     chain (regulator_evaluate rg state a next_state) (\<lambda>reward.
     chain (depth_at (take 2 state)) (\<lambda>depth. Inr (reward - penalty * depth)))"

definition puddle_task :: "(dvec \<Rightarrow> real res) \<Rightarrow> real \<Rightarrow> regulator \<Rightarrow> task" where
  "puddle_task depth_at penalty rg = \<lparr>tk_start = regulator_start rg, tk_actuate = default_actuate,
     tk_observe = plane_regulator_observe rg, tk_evaluate = puddle_evaluate depth_at penalty rg,
     tk_invert = invert_append\<rparr>"

section \<open>Cart-pole\<close>

text \<open>
  The equations with the index arithmetic of the code: with end stops (\<open>end_stop = 1\<close>) the angle is
  entry 1 and the angular velocity is read from entry \<open>3 - 2 = 1\<close>; without, from entry 3 of a vector
  of 3.
\<close>

definition cart_pole_eom :: "nat \<Rightarrow> dvec \<Rightarrow> dvec \<Rightarrow> dvec res" where
  "cart_pole_eom end_stop state actuation =
     (if length state \<noteq> 3 + 2 * end_stop \<or> length actuation \<noteq> 1 then Inl RepException
      else if 3 - 2 * int end_stop < 0 \<or> int (length state) \<le> 3 - 2 * int end_stop then Inl RepUndefined
      else
       let g = 9.8; mass_pole = 0.1; total_mass = 1.0 + mass_pole; len = 0.5;
           pole_mass_length = mass_pole * len;
           theta = state ! end_stop; dtheta = state ! nat (3 - 2 * int end_stop);
           temp = (actuation ! 0 + pole_mass_length * dtheta * dtheta * sin theta) / total_mass;
           thetaacc = (g * sin theta - cos theta * temp) /
                      (len * (4 / 3 - mass_pole * cos theta * cos theta / total_mass));
           acc = temp - pole_mass_length * thetaacc * cos theta / total_mass
       in if end_stop \<noteq> 0
          then let (v, w) =
                 (if state ! 0 > 2.4 \<and> state ! 2 > 0 then (0, if acc > 0 then 0 else acc)
                  else if state ! 0 < - 2.4 \<and> state ! 2 < 0 then (0, if acc < 0 then 0 else acc)
                  else (state ! 2, acc))
               in Inr [v, state ! 3, w, thetaacc, 1]
          else Inr [dtheta, thetaacc, 1])"

record cart_swingup =
  cs_timeout :: real
  cs_shaping :: int
  cs_randomization :: int
  cs_action_penalty :: int
  cs_end_stop_penalty :: int
  cs_gamma :: real

definition cart_swingup_start :: "cart_swingup \<Rightarrow> int \<Rightarrow> rand \<Rightarrow> (dvec \<times> rand) res" where
  "cart_swingup_start cs test g =
     (let (u, g) = rand_get g
      in Inr ([0, pi + real_of_int (cs_randomization cs) * (u * 0.1 - 0.05), 0, 0, 0], g))"

definition cart_off_track :: "dvec \<Rightarrow> bool" where
  "cart_off_track state \<longleftrightarrow> \<bar>state ! 0\<bar> > 2.4"

definition cart_upright :: "dvec \<Rightarrow> bool" where
  "cart_upright state \<longleftrightarrow> \<bar>state ! 0\<bar> < 0.1 \<and> \<bar>state ! 2\<bar> < 0.5 \<and>
     \<bar>folded_angle (state ! 1)\<bar> < 5 * pi / 180 \<and> \<bar>state ! 3\<bar> < 25 * pi / 180"

definition cart_potential :: "dvec \<Rightarrow> real" where
  "cart_potential state =
     - 2 * (state ! 0)\<^sup>2 - 0.1 * (state ! 2)\<^sup>2 - (folded_angle (state ! 1))\<^sup>2 - 0.1 * (state ! 3)\<^sup>2"

definition cart_swingup_observe :: "cart_swingup \<Rightarrow> dvec \<Rightarrow> observation \<Rightarrow> (observation \<times> int) res" where
  "cart_swingup_observe cs state obs =
     (if length state \<noteq> 5 then Inl RepException
      else let obs = obs\<lparr>o_v := [state ! 0, wrap_angle (state ! 1), state ! 2, state ! 3],
                         o_absorbing := False\<rparr>
           in if cs_end_stop_penalty cs \<noteq> 0 \<and> cart_off_track state
              then Inr (obs\<lparr>o_absorbing := True\<rparr>, 2)
              else Inr (obs, if state ! 4 > cs_timeout cs then 1 else 0))"

definition indicator_of :: "bool \<Rightarrow> real" where
  "indicator_of b = (if b then 1 else 0)"

definition cart_swingup_evaluate :: "cart_swingup \<Rightarrow> dvec \<Rightarrow> action \<Rightarrow> dvec \<Rightarrow> real res" where
  "cart_swingup_evaluate cs state a next_state =
     (if length state \<noteq> 5 \<or> length (a_v a) \<noteq> 1 \<or> length next_state \<noteq> 5 then Inl RepException
      else if cs_shaping cs \<noteq> 0
      then Inr (c_pow (cs_gamma cs) (next_state ! 4 - state ! 4) * cart_potential next_state -
                cart_potential state + indicator_of (cart_upright next_state) -
                real_of_int (cs_end_stop_penalty cs) * indicator_of (cart_off_track next_state) * 100)
      else Inr (cart_potential next_state - real_of_int (cs_action_penalty cs) * (a_v a ! 0 / 15)\<^sup>2 * 2 -
                real_of_int (cs_end_stop_penalty cs) * indicator_of (cart_off_track next_state) * 10000))"

definition cart_swingup_hessian :: "dvec" where
  "cart_swingup_hessian = [- 2, - 1, - 0.1, - 0.1, - 0.01]"

definition cart_swingup_invert :: "observation \<Rightarrow> real \<Rightarrow> dvec option" where
  "cart_swingup_invert obs time =
     (if length (o_v obs) < 2 then None
      else Some (Vectors.extend ((o_v obs)[1 := o_v obs ! 1 - pi]) [time]))"

definition cart_swingup_task :: "cart_swingup \<Rightarrow> task" where
  "cart_swingup_task cs = \<lparr>tk_start = cart_swingup_start cs, tk_actuate = default_actuate,
     tk_observe = cart_swingup_observe cs, tk_evaluate = cart_swingup_evaluate cs,
     tk_invert = cart_swingup_invert\<rparr>"

definition balancing_start :: "int \<Rightarrow> rand \<Rightarrow> (dvec \<times> rand) res" where
  "balancing_start test g = (let (u, g) = rand_get g in Inr ([0, u * 0.1 - 0.05, 0, 0, 0], g))"

definition balancing_failed :: "dvec \<Rightarrow> bool" where
  "balancing_failed state \<longleftrightarrow> \<bar>state ! 0\<bar> > 2.4 \<or> \<bar>state ! 1\<bar> > 12 * pi / 180"

definition balancing_observe :: "real \<Rightarrow> dvec \<Rightarrow> observation \<Rightarrow> (observation \<times> int) res" where
  "balancing_observe timeout state obs =
     (if length state \<noteq> 5 then Inl RepException
      else let obs = observe_prefix 4 state obs
           in if balancing_failed state then Inr (obs\<lparr>o_absorbing := True\<rparr>, 2)
              else Inr (obs, if state ! 4 > timeout then 1 else 0))"

definition balancing_evaluate :: "dvec \<Rightarrow> action \<Rightarrow> dvec \<Rightarrow> real res" where
  "balancing_evaluate state a next_state =
     (if length state \<noteq> 5 \<or> length (a_v a) \<noteq> 1 \<or> length next_state \<noteq> 5 then Inl RepException
      else if balancing_failed next_state then Inr 0
      else Inr (1 - (\<bar>state ! 0\<bar> + \<bar>state ! 1\<bar>) / (2.4 + 12 * pi / 180)))"

definition balancing_task :: "real \<Rightarrow> task" where
  "balancing_task timeout = \<lparr>tk_start = balancing_start, tk_actuate = default_actuate,
     tk_observe = balancing_observe timeout, tk_evaluate = balancing_evaluate, tk_invert = invert_append\<rparr>"

definition cart_regulator_observe :: "regulator \<Rightarrow> dvec \<Rightarrow> observation \<Rightarrow> (observation \<times> int) res" where
  "cart_regulator_observe rg state obs =
     chain (regulator_terminal rg state) (\<lambda>terminal.
       if length state \<noteq> 5 then Inl RepException else Inr (observe_prefix 4 state obs, terminal))"

definition cart_regulator_task :: "regulator \<Rightarrow> task" where
  "cart_regulator_task rg = \<lparr>tk_start = regulator_start rg, tk_actuate = default_actuate,
     tk_observe = cart_regulator_observe rg, tk_evaluate = regulator_evaluate rg,
     tk_invert = invert_append\<rparr>"

end
