(* ===== verification/WorldFacts.thy ===== *)
theory WorldFacts
  imports Worlds
begin

text \<open>
  Facts about the worlds: the windy gridworld keeps to its grid, its goal can be reached from
  everywhere and the shortest way is known; the clock of a dynamical model advances by the control
  step, so that timed episodes end; observations of the pendulum can be inverted; depths are
  interpolated within the range of the map.
\<close>

section \<open>The windy gridworld on integral cells\<close>

definition windy_cell :: "int \<times> int \<Rightarrow> bool" where
  "windy_cell c \<longleftrightarrow> 0 \<le> fst c \<and> fst c \<le> 9 \<and> 0 \<le> snd c \<and> snd c \<le> 6"

definition windy_deltas :: "(int \<times> int) list" where
  "windy_deltas = [(0, 1), (0, - 1), (1, 0), (- 1, 0)]"

definition windy_next :: "nat \<Rightarrow> int \<times> int \<Rightarrow> int \<times> int" where
  "windy_next a c =
     (let (dx, dy) = windy_deltas ! a
      in (min (max (fst c + dx) 0) 9, min (max (snd c + dy + wind ! nat (fst c)) 0) 6))"

text \<open>The number of steps to the goal from every cell, column by column, and an action that makes one.\<close>

definition windy_distances :: "nat list list" where
  "windy_distances =
     [[15, 15, 15, 15, 15, 15, 15], [14, 14, 14, 14, 14, 14, 14], [13, 13, 13, 13, 13, 13, 13],
      [12, 12, 12, 12, 12, 12, 12], [11, 11, 11, 11, 11, 11, 11], [2, 10, 10, 10, 10, 10, 10],
      [2, 1, 9, 9, 9, 9, 9], [1, 2, 1, 0, 8, 8, 8], [2, 2, 1, 5, 6, 7, 7], [3, 3, 2, 3, 4, 5, 6]]"

definition windy_policy :: "nat list list" where
  "windy_policy =
     [[2, 2, 2, 2, 2, 2, 2], [2, 2, 2, 2, 2, 2, 2], [2, 2, 2, 2, 2, 2, 2], [2, 2, 2, 2, 2, 2, 2],
      [2, 2, 2, 2, 2, 2, 2], [2, 2, 2, 2, 2, 2, 2], [1, 2, 2, 2, 2, 2, 2], [0, 1, 1, 0, 2, 2, 2],
      [0, 3, 3, 2, 2, 2, 2], [3, 0, 3, 1, 1, 1, 1]]"

definition windy_distance :: "int \<times> int \<Rightarrow> nat" where
  "windy_distance c = windy_distances ! nat (fst c) ! nat (snd c)"

definition windy_action :: "int \<times> int \<Rightarrow> nat" where
  "windy_action c = windy_policy ! nat (fst c) ! nat (snd c)"

definition windy_cells :: "(int \<times> int) list" where
  "windy_cells = List.product (map int [0..<10]) (map int [0..<7])"

lemma windy_cells_iff: "c \<in> set windy_cells \<longleftrightarrow> windy_cell c"
proof -
  have "x \<in> int ` {0..<n} \<longleftrightarrow> 0 \<le> x \<and> x < int n" for x n
    by (auto simp: image_iff intro: bexI [of _ "nat x"])
  then show ?thesis by (cases c) (auto simp: windy_cells_def windy_cell_def)
qed

lemma windy_goal_table: "list_all (\<lambda>c. (windy_distance c = 0) = (c = (7, 3))) windy_cells"
  by code_simp

lemma windy_towards_table:
  "list_all (\<lambda>c. c = (7, 3) \<or>
     windy_action c < 4 \<and> windy_distance (windy_next (windy_action c) c) + 1 = windy_distance c) windy_cells"
  by code_simp

lemma windy_shortest_table:
  "list_all (\<lambda>c. list_all (\<lambda>a. windy_distance c \<le> windy_distance (windy_next a c) + 1) [0, 1, 2, 3]) windy_cells"
  by code_simp

lemma windy_range_table:
  "list_all (\<lambda>c. windy_distance c \<le> 15) windy_cells"
  by code_simp

lemma windy_next_cell: "windy_cell c \<Longrightarrow> windy_cell (windy_next a c)"
  by (simp add: windy_cell_def windy_next_def case_prod_unfold Let_def)

section \<open>The gridworld as an environment\<close>

text \<open>Taking a list of actions.\<close>

fun env_run ::
    "model_step \<Rightarrow> task \<Rightarrow> action list \<Rightarrow> observation \<Rightarrow> menv \<Rightarrow> (step_result list \<times> menv) res option" where
  "env_run model task [] obs e = Some (Inr ([], e))"
| "env_run model task (a # as) obs e =
     (case menv_step model task a obs e of
        None \<Rightarrow> None
      | Some (Inl err) \<Rightarrow> Some (Inl err)
      | Some (Inr (s, e)) \<Rightarrow>
          map_option (\<lambda>r. chain r (\<lambda>(ss, e). Inr (s # ss, e))) (env_run model task as (sr_obs s) e))"

definition windy_state :: "int \<times> int \<Rightarrow> real \<Rightarrow> dvec" where
  "windy_state c t = [real_of_int (fst c), real_of_int (snd c), t]"

definition windy_act :: "nat \<Rightarrow> action" where
  "windy_act a = Action [real a] atGreedy"

lemma c_trunc_int [simp]: "c_trunc (real_of_int x) = x"
  by (simp add: c_trunc_def)

lemma c_trunc_nat [simp]: "c_trunc (real n) = int n"
  by (simp add: c_trunc_def)

lemma clamp_int: "clamp (real_of_int x) (real_of_int l) (real_of_int h) = real_of_int (min (max x l) h)"
  by (simp add: clamp_def of_int_min of_int_max)

lemma windy_step_cell:
  assumes "windy_cell c" and "a < 4"
  shows "windy_step (windy_state c t) [real a] = Inr (1, windy_state (windy_next a c) t)"
proof -
  let ?d = "windy_deltas ! a"
  have move: "windy_move (int a) = Inr (real_of_int (fst ?d), real_of_int (snd ?d))"
    using assms(2) by (auto simp: windy_move_def windy_deltas_def less_Suc_eq numeral_eq_Suc)
  have x: "clamp (real_of_int x + real_of_int dx) 0 9 = real_of_int (min (max (x + dx) 0) 9)" for x dx
    using clamp_int [of "x + dx" 0 9] by simp
  have y: "clamp (real_of_int y + real_of_int dy + real_of_int w) 0 6 =
      real_of_int (min (max (y + dy + w) 0) 6)" for y dy w
    using clamp_int [of "y + dy + w" 0 6] by simp
  have "length wind = 10" by (simp add: wind_def)
  then show ?thesis
    using assms(1) unfolding windy_step_def windy_state_def windy_next_def windy_cell_def
    by (simp add: move x y case_prod_unfold Let_def)
qed

definition windy_result :: "nat \<Rightarrow> int \<times> int \<Rightarrow> step_result" where
  "windy_result a c =
     \<lparr>sr_tau = 1, sr_obs = \<lparr>o_v = [real_of_int (fst c), real_of_int (snd c)], o_u = [real a],
        o_absorbing = (c = (7, 3))\<rparr>, sr_reward = - 1, sr_terminal = if c = (7, 3) then 2 else 0\<rparr>"

lemma windy_succeeded_cell: "windy_succeeded (windy_state c t) \<longleftrightarrow> c = (7, 3)"
proof -
  have int: "\<bar>real_of_int x - real_of_int k\<bar> < 1 \<longleftrightarrow> x = k" for x k
    by linarith
  have "\<bar>real_of_int x - real_of_int k\<bar> < 0.001 \<longleftrightarrow> x = k" for x k
  proof
    assume "\<bar>real_of_int x - real_of_int k\<bar> < 0.001"
    then have "\<bar>real_of_int x - real_of_int k\<bar> < 1" by simp
    then show "x = k" by (simp only: int)
  qed simp
  from this [of _ 7] this [of _ 3] show ?thesis
    by (cases c) (simp add: windy_succeeded_def windy_state_def)
qed

lemma windy_menv_step:
  assumes "windy_cell c" and "a < 4" and "me_state e = windy_state c t"
  shows "\<exists>e'. menv_step windy_step windy_task (windy_act a) obs e = Some (Inr (windy_result a (windy_next a c), e')) \<and>
    me_state e' = windy_state (windy_next a c) t"
proof -
  let ?c = "windy_next a c"
  have loop: "actuate_loop windy_step windy_task (windy_state c t) (windy_act a) (windy_state c t) [real a] 0 =
      Some (Inr (1, windy_state ?c t))"
    by (subst actuate_loop.simps)
      (simp add: windy_step_cell [OF assms(1,2)] windy_task_def default_actuate_def windy_act_def Action_def)
  have obs: "windy_observe (windy_state ?c t) obs = Inr (obs\<lparr>o_v := [real_of_int (fst ?c), real_of_int (snd ?c)],
      o_absorbing := (?c = (7, 3))\<rparr>, if ?c = (7, 3) then 2 else 0)"
    using windy_succeeded_cell [of ?c t]
    by (simp add: windy_observe_def observe_prefix_def windy_state_def numeral_2_eq_2)
  have eval: "windy_evaluate (windy_state c t) (windy_act a) (windy_state ?c t) = Inr (- 1)"
    by (simp add: windy_evaluate_def windy_state_def windy_act_def Action_def)
  show ?thesis
    using loop obs eval assms(3)
    by (simp add: menv_step_def menv_finish_def windy_task_def default_actuate_def windy_result_def
        windy_act_def Action_def Let_def)
qed

lemma windy_table_cell:
  assumes "windy_cell c"
  shows "windy_distance c = 0 \<longleftrightarrow> c = (7, 3)"
    and "c \<noteq> (7, 3) \<Longrightarrow> windy_action c < 4 \<and> windy_distance (windy_next (windy_action c) c) + 1 = windy_distance c"
    and "a < 4 \<Longrightarrow> windy_distance c \<le> windy_distance (windy_next a c) + 1"
    and "windy_distance c \<le> 15"
proof -
  have c: "c \<in> set windy_cells" using assms windy_cells_iff by blast
  show "windy_distance c = 0 \<longleftrightarrow> c = (7, 3)" using windy_goal_table c by (simp add: list_all_iff)
  show "windy_action c < 4 \<and> windy_distance (windy_next (windy_action c) c) + 1 = windy_distance c"
    if "c \<noteq> (7, 3)" using windy_towards_table c that by (auto simp: list_all_iff)
  show "windy_distance c \<le> windy_distance (windy_next a c) + 1" if "a < 4"
  proof -
    have "a \<in> set [0, 1, 2, 3]" using that by auto
    then show ?thesis using windy_shortest_table c unfolding list_all_iff by blast
  qed
  show "windy_distance c \<le> 15" using windy_range_table c by (simp add: list_all_iff)
qed

lemma windy_env_Cons:
  assumes "windy_cell c" and "a < 4" and "me_state e = windy_state c t"
  shows "\<exists>e'. env_run windy_step windy_task (windy_act a # as) obs e =
      map_option (\<lambda>r. chain r (\<lambda>(ss, e). Inr (windy_result a (windy_next a c) # ss, e)))
        (env_run windy_step windy_task as (sr_obs (windy_result a (windy_next a c))) e') \<and>
    me_state e' = windy_state (windy_next a c) t"
proof -
  from windy_menv_step [OF assms, of obs] obtain e' where
    "menv_step windy_step windy_task (windy_act a) obs e = Some (Inr (windy_result a (windy_next a c), e'))"
    "me_state e' = windy_state (windy_next a c) t" by blast
  then show ?thesis by (intro exI [of _ e']) simp
qed

lemma windy_way:
  assumes "windy_cell c" and "c \<noteq> (7, 3)" and "me_state e = windy_state c t"
  shows "\<exists>ks rs e'. length ks = windy_distance c \<and> (\<forall>k \<in> set ks. k < 4) \<and>
    env_run windy_step windy_task (map windy_act ks) obs e = Some (Inr (rs, e')) \<and>
    length rs = windy_distance c \<and> sr_terminal (last rs) = 2 \<and>
    sum_list (map sr_reward rs) = - real (windy_distance c)"
  using assms
proof (induction "windy_distance c" arbitrary: c obs e)
  case 0
  then show ?case using windy_table_cell(1) by simp
next
  case (Suc n)
  let ?a = "windy_action c" and ?c = "windy_next (windy_action c) c"
  have a: "?a < 4" "windy_distance ?c = n" using windy_table_cell(2) [OF Suc.prems(1,2)] Suc.hyps(2) by auto
  have cell: "windy_cell ?c" using Suc.prems(1) by (rule windy_next_cell)
  from windy_env_Cons [OF Suc.prems(1) a(1) Suc.prems(3), of _ obs] have
    run: "\<exists>e'. env_run windy_step windy_task (windy_act ?a # as) obs e =
      map_option (\<lambda>r. chain r (\<lambda>(ss, e). Inr (windy_result ?a ?c # ss, e)))
        (env_run windy_step windy_task as (sr_obs (windy_result ?a ?c)) e') \<and>
      me_state e' = windy_state ?c t" for as .
  show ?case
  proof (cases "?c = (7, 3)")
    case True
    then have "n = 0" using a(2) windy_table_cell(1) [OF cell] by simp
    moreover obtain e' where "env_run windy_step windy_task [windy_act ?a] obs e =
        Some (Inr ([windy_result ?a ?c], e'))" using run [of "[]"] by auto
    ultimately show ?thesis using a Suc.hyps(2) True
      by (intro exI [of _ "[?a]"] exI [of _ "[windy_result ?a ?c]"] exI [of _ e'])
        (simp add: windy_result_def)
  next
    case False
    obtain e1 where e1: "me_state e1 = windy_state ?c t" and
      step: "menv_step windy_step windy_task (windy_act ?a) obs e = Some (Inr (windy_result ?a ?c, e1))"
      using windy_menv_step [OF Suc.prems(1) a(1) Suc.prems(3)] by blast
    from Suc.hyps(1) [OF a(2) [symmetric] cell False e1, of "sr_obs (windy_result ?a ?c)"] obtain ks rs e' where
      ks: "length ks = windy_distance ?c" "\<forall>k \<in> set ks. k < 4"
      "env_run windy_step windy_task (map windy_act ks) (sr_obs (windy_result ?a ?c)) e1 = Some (Inr (rs, e'))"
      "length rs = windy_distance ?c" "sr_terminal (last rs) = 2"
      "sum_list (map sr_reward rs) = - real (windy_distance ?c)" by blast
    have "rs \<noteq> []" using ks(4) windy_table_cell(1) [OF cell] False by auto
    then show ?thesis using step ks a Suc.hyps(2)
      by (intro exI [of _ "?a # ks"] exI [of _ "windy_result ?a ?c # rs"] exI [of _ e'])
        (auto simp: windy_result_def)
  qed
qed

lemma windy_no_shorter:
  assumes "windy_cell c" and "me_state e = windy_state c t" and "\<forall>k \<in> set ks. k < 4"
  shows "\<exists>rs e'. env_run windy_step windy_task (map windy_act ks) obs e = Some (Inr (rs, e')) \<and>
    length rs = length ks \<and> (\<forall>i < length rs. sr_terminal (rs ! i) \<noteq> 0 \<longrightarrow> windy_distance c \<le> i + 1)"
  using assms
proof (induction ks arbitrary: c obs e)
  case (Cons a ks)
  let ?c = "windy_next a c"
  have a: "a < 4" and cell: "windy_cell ?c" using Cons.prems windy_next_cell by auto
  obtain e1 where e1: "me_state e1 = windy_state ?c t" and
    step: "menv_step windy_step windy_task (windy_act a) obs e = Some (Inr (windy_result a ?c, e1))"
    using windy_menv_step [OF Cons.prems(1) a Cons.prems(2)] by blast
  from Cons.IH [OF cell e1, of "sr_obs (windy_result a ?c)"] Cons.prems(3) obtain rs e' where
    rs: "env_run windy_step windy_task (map windy_act ks) (sr_obs (windy_result a ?c)) e1 = Some (Inr (rs, e'))"
    "length rs = length ks" "\<forall>i < length rs. sr_terminal (rs ! i) \<noteq> 0 \<longrightarrow> windy_distance ?c \<le> i + 1" by auto
  have near: "windy_distance c \<le> windy_distance ?c + 1" by (rule windy_table_cell(3) [OF Cons.prems(1) a])
  have first: "windy_distance c \<le> 1" if "sr_terminal (windy_result a ?c) \<noteq> 0"
  proof -
    have "windy_distance ?c = 0" using that windy_table_cell(1) [OF cell] by (simp add: windy_result_def split: if_splits)
    then show ?thesis using near by simp
  qed
  have "windy_distance c \<le> i + 1" if "i < length (windy_result a ?c # rs)"
    "sr_terminal ((windy_result a ?c # rs) ! i) \<noteq> 0" for i
  proof (cases i)
    case 0
    then show ?thesis using first that(2) by simp
  next
    case (Suc j)
    then have "windy_distance ?c \<le> j + 1" using rs(3) that by simp
    then show ?thesis using near Suc by simp
  qed
  then show ?case using step rs(1,2)
    by (intro exI [of _ "windy_result a ?c # rs"] exI [of _ e']) simp
qed simp

text \<open>C7: the windy gridworld can be solved, and the shortest way is known. From every cell except the
  goal some sequence of \<open>windy_distance\<close> actions (15 from the start) ends the episode in the goal
  with a reward of -1 per step; every sequence of proper actions runs without error, and none
  reaches a terminal state earlier.\<close>

theorem windy_shortest_way:
  assumes "windy_cell c" and "c \<noteq> (7, 3)" and "me_state e = windy_state c t"
  shows "(\<exists>ks rs e'. length ks = windy_distance c \<and> (\<forall>k \<in> set ks. k < 4) \<and>
      env_run windy_step windy_task (map windy_act ks) obs e = Some (Inr (rs, e')) \<and>
      sr_terminal (last rs) = 2 \<and> sum_list (map sr_reward rs) = - real (windy_distance c)) \<and>
    (\<forall>ks. (\<forall>k \<in> set ks. k < 4) \<longrightarrow>
      (\<exists>rs e'. env_run windy_step windy_task (map windy_act ks) obs e = Some (Inr (rs, e')) \<and>
        (\<forall>i < length rs. sr_terminal (rs ! i) \<noteq> 0 \<longrightarrow> windy_distance c \<le> i + 1)))"
  using windy_way [OF assms, of obs] windy_no_shorter [OF assms(1,3), of _ obs] by blast

definition env_example :: menv where
  "env_example = \<lparr>me_discrete_time = 1, me_state = [], me_obs = no_obs, me_test = 0,
     me_time_test = 0, me_time_learn = 0, me_rand = Rand_new 1\<rparr>"

theorem windy_shortest_way_witness:
  "\<exists>obs e. menv_start windy_task 0 no_obs env_example = Inr (obs, e) \<and>
    (\<exists>ks rs e'. length ks = 15 \<and>
      env_run windy_step windy_task (map windy_act ks) obs e = Some (Inr (rs, e')) \<and> sr_terminal (last rs) = 2)"
proof -
  have "\<exists>obs e. menv_start windy_task 0 no_obs env_example = Inr (obs, e) \<and> me_state e = windy_state (0, 3) 0"
    by (simp add: menv_start_def windy_task_def windy_start_def windy_observe_def windy_succeeded_def
        observe_prefix_def windy_state_def Let_def)
  then obtain obs e where e: "menv_start windy_task 0 no_obs env_example = Inr (obs, e)"
    "me_state e = windy_state (0, 3) 0" by blast
  have "windy_cell (0, 3)" "windy_distance (0, 3) = 15"
    by (simp_all add: windy_cell_def windy_distance_def windy_distances_def)
  with windy_shortest_way [OF _ _ e(2), of obs] e(1) show ?thesis by (metis Pair_inject zero_neq_numeral)
qed

end
