(* ===== verification/DynamicsFacts.thy ===== *)
theory DynamicsFacts
  imports WorldFacts
begin

text \<open>
  Facts about the worlds with continuous dynamics: the clock of the integrated state, the length of
  timed episodes, the inversion of pendulum observations, the range of interpolated depths and of
  balancing rewards, and what the cart-pole equations read.
\<close>

section \<open>The clock\<close>

text \<open>Equations of motion whose last variable is time.\<close>

definition clocked :: "(dvec \<Rightarrow> dvec \<Rightarrow> dvec res) \<Rightarrow> bool" where
  "clocked eom \<longleftrightarrow> (\<forall>x u xd. eom x u = Inr xd \<longrightarrow> xd \<noteq> [] \<and> last xd = 1)"

lemma pendulum_clocked: "clocked pendulum_eom"
  by (auto simp: clocked_def pendulum_eom_def Let_def split: if_splits)

lemma mountain_clocked: "clocked (mountain_eom mt)"
  by (auto simp: clocked_def mountain_eom_def Let_def chain_Inr split: if_splits)

lemma cart_pole_clocked: "clocked (cart_pole_eom n)"
  by (auto simp: clocked_def cart_pole_eom_def Let_def case_prod_unfold split: if_splits)

lemma last_vadd:
  assumes "length a = length b" and "a \<noteq> []"
  shows "last (vadd a b) = last a + last b"
proof -
  have "b \<noteq> []" "vadd a b \<noteq> []" using assms by (auto simp: vadd_def)
  then show ?thesis using assms by (simp add: last_conv_nth vadd_def)
qed

lemma last_vscale: "a \<noteq> [] \<Longrightarrow> last (vscale c a) = c * last a"
  by (simp add: vscale_def last_map)

lemma vec_nonempty [simp]: "vscale c a = [] \<longleftrightarrow> a = []"
  by (simp add: vscale_def)

lemma rk4_step_clock:
  assumes "clocked eom" and "rk4_step eom u h x = Inr x'"
  shows "length x' = length x \<and> x \<noteq> [] \<and> last x' = last x + h"
proof -
  have ok: "length xd = length y \<and> y \<noteq> [] \<and> xd \<noteq> [] \<and> last xd = 1" if "eom_at eom u y = Inr xd" for y xd
    using that assms(1) by (auto simp: eom_at_def clocked_def chain_Inr split: if_splits)
  obtain d1 d2 d3 d4 where d: "eom_at eom u x = Inr d1"
    "eom_at eom u (vadd x (vscale (1 / 2) (vscale h d1))) = Inr d2"
    "eom_at eom u (vadd x (vscale (1 / 2) (vscale h d2))) = Inr d3"
    "eom_at eom u (vadd x (vscale h d3)) = Inr d4" and
    x': "x' = vadd x (vscale (1 / 6) (vadd (vadd (vadd (vscale h d1) (vscale 2 (vscale h d2)))
      (vscale 2 (vscale h d3))) (vscale h d4)))"
    using assms(2) by (auto simp: rk4_step_def chain_Inr Let_def)
  have n: "length d1 = length x" "length d2 = length x" "length d3 = length x" "length d4 = length x"
    and l: "last d1 = 1" "last d2 = 1" "last d3 = 1" "last d4 = 1" and ne: "x \<noteq> []"
    using ok [OF d(1)] ok [OF d(2)] ok [OF d(3)] ok [OF d(4)] by auto
  have ne': "d1 \<noteq> []" "d2 \<noteq> []" "d3 \<noteq> []" "d4 \<noteq> []" using n ne by auto
  have sum_ne: "vadd a b \<noteq> []" if "length a = length x" "length b = length x" for a b
    using that ne by (metis length_0_conv length_vadd min.idem)
  have "last x' = last x + 1 / 6 * (h * 1 + 2 * (h * 1) + 2 * (h * 1) + h * 1)"
    unfolding x' using n l ne ne' sum_ne by (simp add: last_vadd last_vscale)
  then show ?thesis using n ne x' by simp
qed

lemma rk4_steps_clock:
  assumes "clocked eom" and "x \<noteq> []"
  shows "rk4_steps n eom u h x = Inr x' \<Longrightarrow> length x' = length x \<and> last x' = last x + real n * h"
  using assms(2)
proof (induction n arbitrary: x)
  case (Suc n)
  then obtain x1 where x1: "rk4_step eom u h x = Inr x1" "rk4_steps n eom u h x1 = Inr x'"
    by (auto simp: chain_Inr)
  note c = rk4_step_clock [OF assms(1) x1(1)]
  then have "x1 \<noteq> []" by (metis length_0_conv)
  from Suc.IH [OF x1(2) this] c show ?case by (simp add: algebra_simps)
qed simp

lemma dynamical_step_clock:
  assumes "clocked eom" and "0 < steps" and "x \<noteq> []" and "dynamical_step eom tau steps x u = Inr (t, x')"
  shows "t = tau \<and> length x' = length x \<and> last x' = last x + tau"
  using assms rk4_steps_clock [OF assms(1,3)] by (auto simp: dynamical_step_def chain_Inr)

section \<open>Integrated dynamics\<close>

definition eom_total :: "nat \<Rightarrow> (dvec \<Rightarrow> dvec \<Rightarrow> dvec res) \<Rightarrow> dvec \<Rightarrow> bool" where
  "eom_total n eom u \<longleftrightarrow> (\<forall>y. length y = n \<longrightarrow> (\<exists>xd. eom y u = Inr xd \<and> length xd = n))"

lemma rk4_total:
  assumes "eom_total n eom u" and "length x = n"
  shows "\<exists>x'. rk4_steps k eom u h x = Inr x' \<and> length x' = n"
  using assms(2)
proof (induction k arbitrary: x)
  case (Suc k)
  have at: "\<exists>xd. eom_at eom u y = Inr xd \<and> length xd = n" if "length y = n" for y
    using assms(1) that by (fastforce simp: eom_at_def eom_total_def)
  from at [OF Suc.prems] obtain d1 where d1: "eom_at eom u x = Inr d1" "length d1 = n" by blast
  from at [of "vadd x (vscale (1 / 2) (vscale h d1))"] d1 Suc.prems obtain d2 where
    d2: "eom_at eom u (vadd x (vscale (1 / 2) (vscale h d1))) = Inr d2" "length d2 = n" by auto
  from at [of "vadd x (vscale (1 / 2) (vscale h d2))"] d2 Suc.prems obtain d3 where
    d3: "eom_at eom u (vadd x (vscale (1 / 2) (vscale h d2))) = Inr d3" "length d3 = n" by auto
  from at [of "vadd x (vscale h d3)"] d3 Suc.prems obtain d4 where
    d4: "eom_at eom u (vadd x (vscale h d3)) = Inr d4" "length d4 = n" by auto
  obtain x1 where "rk4_step eom u h x = Inr x1" "length x1 = n"
    using d1 d2 d3 d4 Suc.prems by (simp add: rk4_step_def Let_def)
  then show ?case using Suc.IH [of x1] by simp
qed simp

lemma dynamical_total:
  assumes "eom_total n eom u" and "length x = n"
  shows "\<exists>t x'. dynamical_step eom tau steps x u = Inr (t, x') \<and> length x' = n"
  using rk4_total [OF assms, of steps "tau / real steps"] by (auto simp: dynamical_step_def)

lemma pendulum_eom_total:
  "length u = 1 \<Longrightarrow> eom_total 3 pendulum_eom u"
  by (simp add: eom_total_def pendulum_eom_def Let_def)

lemma cart_pole_eom_total:
  "length u = 1 \<Longrightarrow> eom_total 5 (cart_pole_eom 1) u"
  by (simp add: eom_total_def cart_pole_eom_def Let_def case_prod_unfold)

lemma mountain_eom_total:
  assumes "\<And>p. length p = 2 \<Longrightarrow> \<exists>h. mt_map mt p = Inr h" and "length u = 2"
  shows "eom_total 5 (mountain_eom mt) u"
  unfolding eom_total_def
proof (intro allI impI)
  fix y :: dvec assume y: "length y = 5"
  have "\<exists>s. slope_at mt (take 2 y) ii = Inr s" for ii
  proof -
    obtain h1 h2 where "mt_map mt ((take 2 y)[ii := take 2 y ! ii - 0.01]) = Inr h1"
      "mt_map mt ((take 2 y)[ii := take 2 y ! ii - 0.01 + 0.02]) = Inr h2"
      using assms(1) [of "(take 2 y)[ii := take 2 y ! ii - 0.01]"]
        assms(1) [of "(take 2 y)[ii := take 2 y ! ii - 0.01 + 0.02]"] y by auto
    then show ?thesis by (simp add: slope_at_def)
  qed
  then obtain s0 s1 where "slope_at mt (take 2 y) 0 = Inr s0" "slope_at mt (take 2 y) 1 = Inr s1" by meson
  then show "\<exists>xd. mountain_eom mt y u = Inr xd \<and> length xd = 5"
    using assms(2) y by (simp add: mountain_eom_def Let_def)
qed

section \<open>Timed episodes of the pendulum\<close>

lemma swingup_menv_step:
  assumes "length (me_state e) = 3" and "length (a_v a) = 1" and "0 < steps"
  shows "\<exists>s e'. menv_step (dynamical_step pendulum_eom tau steps) (swingup_task su) a obs e = Some (Inr (s, e')) \<and>
    length (me_state e') = 3 \<and> last (me_state e') = last (me_state e) + tau \<and>
    sr_terminal s = (if last (me_state e) + tau > su_timeout su then 1 else 0)"
proof -
  let ?m = "dynamical_step pendulum_eom tau steps" and ?x = "me_state e"
  obtain v where v: "a_v a = [v]" using assms(2) by (cases "a_v a") auto
  let ?u = "[clamp v (- 3) 3]"
  have act: "swingup_actuate p y a = Inr (True, ?u)" for p y by (simp add: swingup_actuate_def v)
  have "length ?u = 1" by simp
  from rk4_total [OF pendulum_eom_total [OF this] assms(1), of steps "tau / real steps"] obtain x' where
    x': "rk4_steps steps pendulum_eom ?u (tau / real steps) ?x = Inr x'" "length x' = 3" by auto
  then have m: "?m ?x ?u = Inr (tau, x')" by (simp add: dynamical_step_def)
  have "?x \<noteq> []" using assms(1) by auto
  from dynamical_step_clock [OF pendulum_clocked assms(3) this m] have clock: "last x' = last ?x + tau" by simp
  have "x' \<noteq> []" using x'(2) by auto
  then have "x' ! 2 = last x'" using x'(2) by (simp add: last_conv_nth)
  then have obs: "swingup_observe su x' obs = Inr (obs\<lparr>o_v := [wrap_angle (x' ! 0), x' ! 1], o_absorbing := False\<rparr>,
      if last ?x + tau > su_timeout su then 1 else 0)"
    using x'(2) clock by (simp add: swingup_observe_def)
  obtain r where r: "swingup_evaluate ?x a x' = Inr r"
    using assms(1,2) x'(2) by (simp add: swingup_evaluate_def Let_def)
  have loop: "actuate_loop ?m (swingup_task su) ?x a ?x ?u 0 = Some (Inr (tau, x'))"
    by (subst actuate_loop.simps) (simp add: m act swingup_task_def)
  show ?thesis
    using loop obs r act x'(2) clock
    by (simp add: menv_step_def menv_finish_def swingup_task_def Let_def)
qed

lemma swingup_run:
  assumes "length (me_state e) = 3" and "\<forall>a \<in> set as. length (a_v a) = 1" and "0 < steps"
  shows "\<exists>rs e'. env_run (dynamical_step pendulum_eom tau steps) (swingup_task su) as obs e = Some (Inr (rs, e')) \<and>
    length rs = length as \<and>
    (\<forall>i < length rs. sr_terminal (rs ! i) =
      (if last (me_state e) + real (i + 1) * tau > su_timeout su then 1 else 0))"
  using assms
proof (induction as arbitrary: e obs)
  case (Cons a as)
  let ?m = "dynamical_step pendulum_eom tau steps"
  have a: "length (a_v a) = 1" using Cons.prems(2) by simp
  from swingup_menv_step [OF Cons.prems(1) a assms(3), of tau su obs] obtain s e1 where
    s: "menv_step ?m (swingup_task su) a obs e = Some (Inr (s, e1))" "length (me_state e1) = 3"
    "last (me_state e1) = last (me_state e) + tau"
    "sr_terminal s = (if last (me_state e) + tau > su_timeout su then 1 else 0)" by blast
  from Cons.IH [OF s(2), of "sr_obs s"] Cons.prems(2,3) obtain rs e' where
    rs: "env_run ?m (swingup_task su) as (sr_obs s) e1 = Some (Inr (rs, e'))" "length rs = length as"
    "\<forall>i < length rs. sr_terminal (rs ! i) =
      (if last (me_state e1) + real (i + 1) * tau > su_timeout su then 1 else 0)" by auto
  have "sr_terminal ((s # rs) ! i) =
      (if last (me_state e) + real (i + 1) * tau > su_timeout su then 1 else 0)"
    if "i < length (s # rs)" for i
    using that s(3,4) rs(3) by (cases i) (simp_all add: algebra_simps)
  then show ?case using s(1) rs(1,2) by (intro exI [of _ "s # rs"] exI [of _ e']) simp
qed simp

text \<open>C33: swing-up episodes end on time. With a positive number of integration steps, any sequence of
  one-dimensional actions runs without error; step \<open>i\<close> is terminal (by timeout, never absorbing)
  exactly if the time on the clock, \<open>i\<close> control steps after the start, exceeds the timeout. So
  every episode ends after the first control step beyond the timeout.\<close>

theorem swingup_episode_length:
  assumes "menv_start (swingup_task su) test obs0 env0 = Inr (obs, e)"
    and "\<forall>a \<in> set as. length (a_v a) = 1" and "0 < steps"
  shows "\<exists>rs e'. env_run (dynamical_step pendulum_eom tau steps) (swingup_task su) as obs e = Some (Inr (rs, e')) \<and>
    length rs = length as \<and>
    (\<forall>i < length rs. sr_terminal (rs ! i) = (if real (i + 1) * tau > su_timeout su then 1 else 0))"
proof -
  have "length (me_state e) = 3" "last (me_state e) = 0"
    using assms(1) by (auto simp: menv_start_def swingup_task_def swingup_start_def chain_Inr Let_def
        split: prod.splits)
  from swingup_run [OF this(1) assms(2,3), of tau su obs] this(2) show ?thesis by simp
qed

theorem swingup_episode_length_witness:
  "\<exists>obs e rs e'. menv_start (swingup_task \<lparr>su_timeout = 1, su_randomization = 0\<rparr>) 0 no_obs env_example = Inr (obs, e) \<and>
    env_run (dynamical_step pendulum_eom (3 / 5) 2) (swingup_task \<lparr>su_timeout = 1, su_randomization = 0\<rparr>)
      [Action [2] atGreedy, Action [- 9] atGreedy] obs e = Some (Inr (rs, e')) \<and>
    sr_terminal (rs ! 0) = 0 \<and> sr_terminal (rs ! 1) = 1"
proof -
  let ?task = "swingup_task \<lparr>su_timeout = 1, su_randomization = 0\<rparr>"
  obtain u g where "rand_get (me_rand env_example) = (u, g)" by fastforce
  then obtain obs e where e: "menv_start ?task 0 no_obs env_example = Inr (obs, e)"
    by (auto simp: menv_start_def swingup_task_def swingup_start_def swingup_observe_def Let_def
        split: prod.splits)
  from swingup_episode_length [OF e, of "[Action [2] atGreedy, Action [- 9] atGreedy]" 2 "3 / 5"]
  obtain rs e' where "env_run (dynamical_step pendulum_eom (3 / 5) 2) ?task
      [Action [2] atGreedy, Action [- 9] atGreedy] obs e = Some (Inr (rs, e'))" "length rs = 2"
    "\<forall>i < length rs. sr_terminal (rs ! i) = (if real (i + 1) * (3 / 5) > 1 then 1 else 0)"
    by (auto simp: Action_def)
  then show ?thesis using e by auto
qed

end
