(* ===== verification/WorldTypes.thy ===== *)
theory WorldTypes
  imports DynamicsFacts
begin

text \<open>
  The contract between the modelled environment and its model and task: models step between states
  of the task's type, tasks actuate, observe and evaluate such states without error, and an
  observation is absorbing exactly if its terminal flag is 2. A run of an environment whose model
  and task keep the contract never fails. The worlds of this library keep it.
\<close>

section \<open>The contract\<close>

locale typed_world =
  fixes model :: model_step
    and world :: task
    and St :: "dvec \<Rightarrow> bool"
    and Act :: "action \<Rightarrow> bool"
    and width :: nat
  assumes start_typed: "tk_start world test g = Inr (x, g') \<Longrightarrow> St x"
    and step_typed: "St p \<Longrightarrow> St x \<Longrightarrow> Act a \<Longrightarrow>
      \<exists>u t x'. tk_actuate world p x a = Inr (True, u) \<and> model x u = Inr (t, x') \<and> St x'"
    and observe_typed: "St x \<Longrightarrow>
      \<exists>ob te. tk_observe world x obs = Inr (ob, te) \<and> length (o_v ob) = width \<and>
        te \<in> {0, 1, 2} \<and> (o_absorbing ob \<longleftrightarrow> te = 2)"
    and evaluate_typed: "St x \<Longrightarrow> Act a \<Longrightarrow> St y \<Longrightarrow> \<exists>r. tk_evaluate world x a y = Inr r"
begin

lemma start_ok:
  assumes "tk_start world test (me_rand e) = Inr (x, g)"
  shows "\<exists>ob e'. menv_start world test obs e = Inr (ob, e') \<and> St (me_state e') \<and> length (o_v ob) = width"
  using assms start_typed [OF assms] observe_typed [OF start_typed [OF assms], of obs]
  by (auto simp: menv_start_def)

lemma started: "menv_start world test obs e = Inr (ob, e') \<Longrightarrow> St (me_state e')"
  using start_typed by (auto simp: menv_start_def chain_Inr split: prod.splits)

lemma step_ok:
  assumes "St (me_state e)" and "Act a"
  shows "\<exists>s e'. menv_step model world a obs e = Some (Inr (s, e')) \<and> St (me_state e') \<and>
    length (o_v (sr_obs s)) = width \<and> sr_terminal s \<in> {0, 1, 2} \<and>
    (o_absorbing (sr_obs s) \<longleftrightarrow> sr_terminal s = 2)"
proof -
  let ?x = "me_state e"
  from step_typed [OF assms(1,1,2)] obtain u t x' where
    u: "tk_actuate world ?x ?x a = Inr (True, u)" "model ?x u = Inr (t, x')" "St x'" by blast
  from step_typed [OF assms(1) u(3) assms(2)] obtain u' where
    u': "tk_actuate world ?x x' a = Inr (True, u')" by blast
  have loop: "actuate_loop model world ?x a ?x u 0 = Some (Inr (t, x'))"
    by (subst actuate_loop.simps) (simp add: u u')
  from observe_typed [OF u(3), of obs] obtain ob te where
    ob: "tk_observe world x' obs = Inr (ob, te)" "length (o_v ob) = width" "te \<in> {0, 1, 2}"
    "o_absorbing ob \<longleftrightarrow> te = 2" by blast
  from evaluate_typed [OF assms u(3)] obtain r where "tk_evaluate world ?x a x' = Inr r" by blast
  then show ?thesis using u(1,3) loop ob by (simp add: menv_step_def menv_finish_def Let_def)
qed

lemma run_ok:
  assumes "St (me_state e)" and "\<forall>a \<in> set as. Act a"
  shows "\<exists>rs e'. env_run model world as obs e = Some (Inr (rs, e')) \<and> length rs = length as \<and>
    St (me_state e') \<and>
    (\<forall>s \<in> set rs. length (o_v (sr_obs s)) = width \<and> sr_terminal s \<in> {0, 1, 2} \<and>
      (o_absorbing (sr_obs s) \<longleftrightarrow> sr_terminal s = 2))"
  using assms
proof (induction as arbitrary: e obs)
  case (Cons a as)
  have a: "Act a" and as: "\<forall>a \<in> set as. Act a" using Cons.prems(2) by simp_all
  from step_ok [OF Cons.prems(1) a, of obs] obtain s e1 where
    s: "menv_step model world a obs e = Some (Inr (s, e1))" "St (me_state e1)"
    "length (o_v (sr_obs s)) = width" "sr_terminal s \<in> {0, 1, 2}"
    "o_absorbing (sr_obs s) \<longleftrightarrow> sr_terminal s = 2" by blast
  from Cons.IH [OF s(2) as, of "sr_obs s"] obtain rs e' where
    rs: "env_run model world as (sr_obs s) e1 = Some (Inr (rs, e'))" "length rs = length as" "St (me_state e')"
    "\<forall>s \<in> set rs. length (o_v (sr_obs s)) = width \<and> sr_terminal s \<in> {0, 1, 2} \<and>
      (o_absorbing (sr_obs s) \<longleftrightarrow> sr_terminal s = 2)" by blast
  have "env_run model world (a # as) obs e = Some (Inr (s # rs, e'))" using s(1) rs(1) by simp
  then show ?case using s(3-5) rs(2-4) by (intro exI [of _ "s # rs"] exI [of _ e']) simp
qed simp

end

section \<open>The contract in the worlds without parameters\<close>

interpretation windy: typed_world windy_step windy_task "\<lambda>x. \<exists>c t. windy_cell c \<and> x = windy_state c t"
  "\<lambda>a. \<exists>k < 4. a = windy_act k" 2
proof unfold_locales
  fix test g x g' assume "tk_start windy_task test g = Inr (x, g')"
  then have "windy_cell (0, 3)" "x = windy_state (0, 3) 0"
    by (auto simp: windy_task_def windy_start_def windy_state_def windy_cell_def)
  then show "\<exists>c t. windy_cell c \<and> x = windy_state c t" by blast
next
  fix p x a
  assume "\<exists>c t. windy_cell c \<and> x = windy_state c t" and "\<exists>k < 4. a = windy_act k"
  then obtain c t k where c: "windy_cell c" "x = windy_state c t" "k < 4" "a = windy_act k" by blast
  have "tk_actuate windy_task p x a = Inr (True, [real k])"
    using c(4) by (simp add: windy_task_def default_actuate_def windy_act_def Action_def)
  moreover have "windy_step x [real k] = Inr (1, windy_state (windy_next k c) t)"
    using windy_step_cell [OF c(1,3), of t] c(2) by simp
  moreover have "windy_cell (windy_next k c)" by (rule windy_next_cell [OF c(1)])
  ultimately show "\<exists>u t x'. tk_actuate windy_task p x a = Inr (True, u) \<and> windy_step x u = Inr (t, x') \<and>
      (\<exists>c t. windy_cell c \<and> x' = windy_state c t)" by blast
next
  fix x obs assume "\<exists>c t. windy_cell c \<and> x = windy_state c t"
  then show "\<exists>ob te. tk_observe windy_task x obs = Inr (ob, te) \<and> length (o_v ob) = 2 \<and>
      te \<in> {0, 1, 2} \<and> o_absorbing ob = (te = 2)"
    by (auto simp: windy_task_def windy_observe_def observe_prefix_def windy_state_def Let_def)
next
  fix x a y
  assume "\<exists>c t. windy_cell c \<and> x = windy_state c t" "\<exists>k < 4. a = windy_act k"
    "\<exists>c t. windy_cell c \<and> y = windy_state c t"
  then show "\<exists>r. tk_evaluate windy_task x a y = Inr r"
    by (auto simp: windy_task_def windy_evaluate_def windy_state_def windy_act_def Action_def)
qed

lemma observe_prefix_simps [simp]:
  "o_v (observe_prefix n x obs) = take n x" "o_absorbing (observe_prefix n x obs) = False"
  by (simp_all add: observe_prefix_def)

interpretation swingup: typed_world "dynamical_step pendulum_eom tau steps" "swingup_task su"
  "\<lambda>x. length x = 3" "\<lambda>a. length (a_v a) = 1" 2 for tau steps su
proof unfold_locales
  fix p x :: dvec and a :: action assume x: "length x = 3" and a: "length (a_v a) = 1"
  obtain v where "a_v a = [v]" using a by (cases "a_v a") auto
  then show "\<exists>u t x'. tk_actuate (swingup_task su) p x a = Inr (True, u) \<and>
      dynamical_step pendulum_eom tau steps x u = Inr (t, x') \<and> length x' = 3"
    using dynamical_total [OF pendulum_eom_total x, of "[clamp v (- 3) 3]" tau steps]
    by (simp add: swingup_task_def swingup_actuate_def)
qed (auto simp: swingup_task_def swingup_start_def swingup_observe_def swingup_evaluate_def Let_def
    split: prod.splits)

interpretation cart_swingup: typed_world "dynamical_step (cart_pole_eom 1) tau steps" "cart_swingup_task cs"
  "\<lambda>x. length x = 5" "\<lambda>a. length (a_v a) = 1" 4 for tau steps cs
proof unfold_locales
  fix p x :: dvec and a :: action assume x: "length x = 5" and a: "length (a_v a) = 1"
  from dynamical_total [OF cart_pole_eom_total [OF a] x, of tau steps]
  show "\<exists>u t x'. tk_actuate (cart_swingup_task cs) p x a = Inr (True, u) \<and>
      dynamical_step (cart_pole_eom 1) tau steps x u = Inr (t, x') \<and> length x' = 5"
    by (simp add: cart_swingup_task_def default_actuate_def)
qed (auto simp: cart_swingup_task_def cart_swingup_start_def cart_swingup_observe_def
    cart_swingup_evaluate_def Let_def split: prod.splits)

interpretation balancing: typed_world "dynamical_step (cart_pole_eom 1) tau steps" "balancing_task timeout"
  "\<lambda>x. length x = 5" "\<lambda>a. length (a_v a) = 1" 4 for tau steps timeout
proof unfold_locales
  fix p x :: dvec and a :: action assume x: "length x = 5" and a: "length (a_v a) = 1"
  from dynamical_total [OF cart_pole_eom_total [OF a] x, of tau steps]
  show "\<exists>u t x'. tk_actuate (balancing_task timeout) p x a = Inr (True, u) \<and>
      dynamical_step (cart_pole_eom 1) tau steps x u = Inr (t, x') \<and> length x' = 5"
    by (simp add: balancing_task_def default_actuate_def)
qed (auto simp: balancing_task_def balancing_start_def balancing_observe_def
    balancing_evaluate_def Let_def split: prod.splits)

section \<open>The contract in the worlds with a regulator\<close>

lemma regulator_configured:
  assumes "regulator_configure rg0 = Inr rg"
  shows "length (rg_goal rg) = length (rg_q rg)" and "length (rg_start rg) = length (rg_q rg)"
    and "length (rg_stddev rg) = length (rg_q rg)" and "rg_min rg = [] \<or> length (rg_min rg) = length (rg_q rg)"
    and "length (rg_min rg) = length (rg_max rg)"
proof -
  define r where "r = (if rg_stddev rg0 = [] then rg0\<lparr>rg_stddev := ConstantVector (length (rg_start rg0)) 0\<rparr> else rg0)"
  have "rg_start r = rg_start rg0" by (simp add: r_def)
  then have "rg = r \<and> length (rg_goal r) = length (rg_q r) \<and> length (rg_start r) = length (rg_q r) \<and>
      length (rg_stddev r) = length (rg_q r) \<and> (rg_min r = [] \<or> length (rg_min r) = length (rg_q r)) \<and>
      length (rg_min r) = length (rg_max r)"
    using assms unfolding regulator_configure_def Let_def r_def [symmetric] by (simp split: if_splits)
  then show "length (rg_goal rg) = length (rg_q rg)" "length (rg_start rg) = length (rg_q rg)"
    "length (rg_stddev rg) = length (rg_q rg)" "rg_min rg = [] \<or> length (rg_min rg) = length (rg_q rg)"
    "length (rg_min rg) = length (rg_max rg)" by auto
qed

lemma regulator_start_length:
  assumes "regulator_configure rg0 = Inr rg" and "regulator_start rg test g = Inr (x, g')"
  shows "length x = length (rg_q rg) + 1"
proof -
  have "length xs = min (length ms) (length ss)" if "draw_normals t ms ss g = Inr (xs, g')" for t ms ss g xs g'
    using that
    by (induction t ms ss g arbitrary: xs g' rule: draw_normals.induct) (auto simp: chain_Inr split: prod.splits)
  then show ?thesis using assms(2) regulator_configured(2,3) [OF assms(1)]
    by (auto simp: regulator_start_def chain_Inr)
qed

lemma regulator_terminal_total:
  assumes "regulator_configure rg0 = Inr rg" and "length x = length (rg_q rg) + 1"
  shows "\<exists>te. regulator_terminal rg x = Inr te \<and> te \<in> {0, 1}"
proof -
  have "\<exists>v. regulator_valid rg x = Inr v" using regulator_configured(4) [OF assms(1)] assms(2)
    by (auto simp: regulator_valid_def)
  then show ?thesis using assms(2) by (auto simp: regulator_terminal_def)
qed

lemma regulator_evaluate_total:
  "length x = length (rg_q rg) + 1 \<Longrightarrow> length (a_v a) = length (rg_r rg) \<Longrightarrow> length y = length (rg_q rg) + 1 \<Longrightarrow>
   \<exists>r. regulator_evaluate rg x a y = Inr r"
  by (simp add: regulator_evaluate_def)

lemma pendulum_regulator_typed:
  assumes "pendulum_regulator_configure rg0 = Inr rg"
  shows "typed_world (dynamical_step pendulum_eom tau steps) (pendulum_regulator_task rg)
    (\<lambda>x. length x = 3) (\<lambda>a. length (a_v a) = 1) 2"
proof -
  have rg: "regulator_configure rg0 = Inr rg" "length (rg_q rg) = 2" "length (rg_r rg) = 1"
    using assms by (auto simp: pendulum_regulator_configure_def chain_Inr split: if_splits)
  show ?thesis
  proof unfold_locales
    fix test g x g' assume "tk_start (pendulum_regulator_task rg) test g = Inr (x, g')"
    then show "length x = 3" using regulator_start_length [OF rg(1)] rg(2)
      by (simp add: pendulum_regulator_task_def)
  next
    fix p x :: dvec and a :: action assume x: "length x = 3" and a: "length (a_v a) = 1"
    from dynamical_total [OF pendulum_eom_total [OF a] x, of tau steps]
    show "\<exists>u t x'. tk_actuate (pendulum_regulator_task rg) p x a = Inr (True, u) \<and>
        dynamical_step pendulum_eom tau steps x u = Inr (t, x') \<and> length x' = 3"
      by (simp add: pendulum_regulator_task_def default_actuate_def)
  next
    fix x obs assume x: "length (x :: dvec) = 3"
    from regulator_terminal_total [OF rg(1), of x] x rg(2)
    show "\<exists>ob te. tk_observe (pendulum_regulator_task rg) x obs = Inr (ob, te) \<and> length (o_v ob) = 2 \<and>
        te \<in> {0, 1, 2} \<and> o_absorbing ob = (te = 2)"
      by (auto simp: pendulum_regulator_task_def pendulum_regulator_observe_def)
  next
    fix x y :: dvec and a :: action assume "length x = 3" "length (a_v a) = 1" "length y = 3"
    then show "\<exists>r. tk_evaluate (pendulum_regulator_task rg) x a y = Inr r"
      using regulator_evaluate_total [of x rg a y] rg(2,3) by (simp add: pendulum_regulator_task_def)
  qed
qed

text \<open>Worlds in the plane: five state variables, two action dimensions, four observed variables.\<close>

lemma plane_typed:
  assumes "plane_regulator_configure rg0 = Inr rg"
    and "\<And>x u. length x = 5 \<Longrightarrow> length u = 2 \<Longrightarrow> \<exists>t x'. model x u = Inr (t, x') \<and> length x' = 5"
    and "\<And>x a y. length x = 5 \<Longrightarrow> length (a_v a) = 2 \<Longrightarrow> length y = 5 \<Longrightarrow> \<exists>r. evaluate x a y = Inr r"
  shows "typed_world model \<lparr>tk_start = regulator_start rg, tk_actuate = default_actuate,
      tk_observe = plane_regulator_observe rg, tk_evaluate = evaluate, tk_invert = invert_append\<rparr>
    (\<lambda>x. length x = 5) (\<lambda>a. length (a_v a) = 2) 4"
proof -
  have rg: "regulator_configure rg0 = Inr rg" "length (rg_q rg) = 4"
    using assms(1) by (auto simp: plane_regulator_configure_def chain_Inr split: if_splits)
  show ?thesis
  proof (unfold_locales, goal_cases)
    case (1 test g x g')
    then show ?case using regulator_start_length [OF rg(1)] rg(2) by simp
  next
    case (2 p x a)
    then show ?case using assms(2) [of x "a_v a"] by (simp add: default_actuate_def)
  next
    case (3 x obs)
    then show ?case using regulator_terminal_total [OF rg(1), of x] rg(2)
      by (auto simp: plane_regulator_observe_def)
  next
    case (4 x a y)
    then show ?case using assms(3) by simp
  qed
qed

lemma plane_evaluate_total:
  assumes "plane_regulator_configure rg0 = Inr rg"
    and "length x = 5" and "length (a_v a) = 2" and "length y = 5"
  shows "\<exists>r. regulator_evaluate rg x a y = Inr r"
  using assms regulator_evaluate_total [of x rg a y]
  by (auto simp: plane_regulator_configure_def chain_Inr split: if_splits)

lemma mountain_typed:
  assumes "plane_regulator_configure rg0 = Inr rg" and "\<And>p. length p = 2 \<Longrightarrow> \<exists>h. mt_map mt p = Inr h"
  shows "typed_world (dynamical_step (mountain_eom mt) tau steps) (mountain_task rg)
    (\<lambda>x. length x = 5) (\<lambda>a. length (a_v a) = 2) 4"
  unfolding mountain_task_def
  by (intro plane_typed [OF assms(1)] plane_evaluate_total [OF assms(1)] dynamical_total mountain_eom_total)
    (use assms(2) in auto)

section \<open>Depths of the puddle world\<close>

definition depth_map :: "real \<Rightarrow> real \<Rightarrow> nat \<Rightarrow> real list list \<Rightarrow> bool" where
  "depth_map lo hi cols m \<longleftrightarrow> 2 \<le> length m \<and> 2 \<le> cols \<and>
     (\<forall>row \<in> set m. length row = cols \<and> (\<forall>d \<in> set row. lo \<le> d \<and> d \<le> hi))"

lemma cell_of_less: "2 \<le> n \<Longrightarrow> cell_of l n + 1 < n"
proof -
  assume n: "2 \<le> n"
  let ?x = "min (max l 0) (real n - 2)"
  have "0 \<le> ?x" "?x \<le> real n - 2" using n by auto
  then have "\<lfloor>?x\<rfloor> \<le> int n - 2" by linarith
  then show ?thesis using n \<open>0 \<le> ?x\<close> by (simp add: cell_of_def c_trunc_def)
qed

lemma depth_map_entry:
  assumes "depth_map lo hi cols m" and "i < length m" and "j < cols"
  shows "grid_at m i j = Inr (m ! i ! j)" and "lo \<le> m ! i ! j" and "m ! i ! j \<le> hi"
proof -
  have row: "length (m ! i) = cols" "\<forall>d \<in> set (m ! i). lo \<le> d \<and> d \<le> hi"
    using assms(1) nth_mem [OF assms(2)] by (auto simp: depth_map_def)
  have "m ! i ! j \<in> set (m ! i)" using assms(3) row(1) by simp
  with row assms show "grid_at m i j = Inr (m ! i ! j)" "lo \<le> m ! i ! j" "m ! i ! j \<le> hi"
    by (auto simp: grid_at_def)
qed

definition mix :: "real \<Rightarrow> real \<Rightarrow> real \<Rightarrow> real" where
  "mix d a b = a * (1 - d) + b * d"

lemma mix_bounds:
  assumes "0 \<le> d" and "d \<le> 1" and "lo \<le> a" and "a \<le> hi" and "lo \<le> b" and "b \<le> hi"
  shows "lo \<le> mix d a b \<and> mix d a b \<le> hi"
proof -
  have "(a - lo) * (1 - d) \<ge> 0" "(b - lo) * d \<ge> 0" "(hi - a) * (1 - d) \<ge> 0" "(hi - b) * d \<ge> 0"
    using assms by simp_all
  then show ?thesis by (simp add: mix_def algebra_simps)
qed

definition cell_offset :: "real \<Rightarrow> nat \<Rightarrow> real" where
  "cell_offset l n = min (max (l - real (cell_of l n)) 0) 1"

lemma cell_offset_unit: "0 \<le> cell_offset l n \<and> cell_offset l n \<le> 1"
  by (simp add: cell_offset_def)

lemma puddle_read_mix:
  assumes "depth_map lo hi cols m" and "length inp = 2"
  defines "lx \<equiv> inp ! 0 * (real cols - 1)" and "ly \<equiv> inp ! 1 * (real (length m) - 1)"
  defines "mx \<equiv> cell_of lx cols" and "my \<equiv> cell_of ly (length m)"
  shows "mx + 1 < cols \<and> my + 1 < length m \<and>
    puddle_read m cols inp = Inr (mix (cell_offset ly (length m))
      (mix (cell_offset lx cols) (m ! my ! mx) (m ! my ! (mx + 1)))
      (mix (cell_offset lx cols) (m ! (my + 1) ! mx) (m ! (my + 1) ! (mx + 1))))"
proof -
  have n: "mx + 1 < cols" "my + 1 < length m" using assms(1) cell_of_less by (auto simp: depth_map_def mx_def my_def)
  then have "grid_at m my mx = Inr (m ! my ! mx)" "grid_at m my (mx + 1) = Inr (m ! my ! (mx + 1))"
    "grid_at m (my + 1) mx = Inr (m ! (my + 1) ! mx)" "grid_at m (my + 1) (mx + 1) = Inr (m ! (my + 1) ! (mx + 1))"
    using depth_map_entry(1) [OF assms(1)] by auto
  then show ?thesis using assms(2) n
    unfolding puddle_read_def Let_def lx_def [symmetric] ly_def [symmetric] mx_def [symmetric] my_def [symmetric]
      cell_offset_def by (simp add: mix_def algebra_simps)
qed

lemma puddle_depth_bounds:
  assumes "depth_map lo hi cols m" and "length inp = 2"
  shows "\<exists>d. puddle_read m cols inp = Inr d \<and> lo \<le> d \<and> d \<le> hi"
proof -
  obtain mx my p q where n: "mx + 1 < cols" "my + 1 < length m" and pq: "0 \<le> p" "p \<le> 1" "0 \<le> q" "q \<le> 1" and
    read: "puddle_read m cols inp = Inr (mix q (mix p (m ! my ! mx) (m ! my ! (mx + 1)))
      (mix p (m ! (my + 1) ! mx) (m ! (my + 1) ! (mx + 1))))"
    using puddle_read_mix [OF assms] cell_offset_unit by blast
  note e = depth_map_entry(2,3) [OF assms(1)]
  have "lo \<le> mix p (m ! i ! mx) (m ! i ! (mx + 1)) \<and> mix p (m ! i ! mx) (m ! i ! (mx + 1)) \<le> hi"
    if "i < length m" for i using e [OF that] n(1) by (intro mix_bounds pq) simp_all
  then have row: "lo \<le> mix p (m ! my ! mx) (m ! my ! (mx + 1))" "mix p (m ! my ! mx) (m ! my ! (mx + 1)) \<le> hi"
    "lo \<le> mix p (m ! (my + 1) ! mx) (m ! (my + 1) ! (mx + 1))" "mix p (m ! (my + 1) ! mx) (m ! (my + 1) ! (mx + 1)) \<le> hi"
    using n(2) by simp_all
  show ?thesis unfolding read using mix_bounds [OF pq(3,4) row] by blast
qed

text \<open>At an intersection of the grid the interpolation is the depth there.\<close>

lemma cell_at_node:
  assumes "j < n" and "2 \<le> n"
  shows "mix (cell_offset (real j) n) (f (cell_of (real j) n)) (f (cell_of (real j) n + 1)) = f j"
proof (cases "j + 1 < n")
  case True
  then have "min (max (real j) 0) (real n - 2) = real j" by (simp add: min_def max_def)
  then have "cell_of (real j) n = j" by (simp add: cell_of_def)
  then show ?thesis by (simp add: cell_offset_def mix_def)
next
  case False
  then have n: "n = j + 1" "1 \<le> j" using assms by auto
  then have "min (max (real j) 0) (real n - 2) = real (j - 1)" by (simp add: min_def max_def)
  then have "cell_of (real j) n = j - 1" by (simp add: cell_of_def)
  then show ?thesis using n by (simp add: cell_offset_def mix_def)
qed

text \<open>reading a depth map interpolates it. On a map of at least two rows and columns every input of
  two dimensions, also one outside the unit square, has a depth within the range of the entries, and
  at the coordinates of an intersection of the grid the depth is exactly the entry there.\<close>

theorem puddle_read_interpolates:
  assumes "depth_map lo hi cols m" and "length inp = 2"
  shows "(\<exists>d. puddle_read m cols inp = Inr d \<and> lo \<le> d \<and> d \<le> hi) \<and>
    (\<forall>i < length m. \<forall>j < cols.
      puddle_read m cols [real j / (real cols - 1), real i / (real (length m) - 1)] = Inr (m ! i ! j))"
proof (intro conjI allI impI)
  show "\<exists>d. puddle_read m cols inp = Inr d \<and> lo \<le> d \<and> d \<le> hi" by (rule puddle_depth_bounds [OF assms])
next
  fix i j assume ij: "i < length m" "j < cols"
  have n: "2 \<le> cols" "2 \<le> length m" using assms(1) by (auto simp: depth_map_def)
  let ?in = "[real j / (real cols - 1), real i / (real (length m) - 1)]"
  have "?in ! 0 * (real cols - 1) = real j" "?in ! 1 * (real (length m) - 1) = real i" using n by simp_all
  then have "puddle_read m cols ?in = Inr (mix (cell_offset (real i) (length m))
      (mix (cell_offset (real j) cols) (m ! cell_of (real i) (length m) ! cell_of (real j) cols)
        (m ! cell_of (real i) (length m) ! (cell_of (real j) cols + 1)))
      (mix (cell_offset (real j) cols) (m ! (cell_of (real i) (length m) + 1) ! cell_of (real j) cols)
        (m ! (cell_of (real i) (length m) + 1) ! (cell_of (real j) cols + 1))))"
    using puddle_read_mix [OF assms(1), of ?in] by simp
  then show "puddle_read m cols ?in = Inr (m ! i ! j)"
    unfolding cell_at_node [OF ij(2) n(1)] cell_at_node [OF ij(1) n(2), of "\<lambda>i. m ! i ! j"] .
qed

definition map_example :: "real list list" where
  "map_example = [[0, 1 / 2, 1], [1 / 4, 1, 0]]"

lemma map_example_depths: "depth_map 0 1 3 map_example"
  by (simp add: depth_map_def map_example_def)

theorem puddle_read_interpolates_witness:
  "(\<exists>d. puddle_read map_example 3 [7 / 10, - 2] = Inr d \<and> 0 \<le> d \<and> d \<le> 1) \<and>
   puddle_read map_example 3 [1, 1] = Inr 0"
proof -
  have "length map_example = 2" "map_example ! 1 ! 2 = 0" by (simp_all add: map_example_def)
  note m = this
  have read: "(\<exists>d. puddle_read map_example 3 [7 / 10, - 2] = Inr d \<and> 0 \<le> d \<and> d \<le> 1) \<and>
    (\<forall>i < length map_example. \<forall>j < 3. puddle_read map_example 3
      [real j / (real 3 - 1), real i / (real (length map_example) - 1)] = Inr (map_example ! i ! j))"
    by (rule puddle_read_interpolates [OF map_example_depths]) simp
  then have "puddle_read map_example 3 [real 2 / (real 3 - 1), real 1 / (real (length map_example) - 1)] =
      Inr (map_example ! 1 ! 2)" unfolding m(1) by (metis lessI numeral_2_eq_2 numeral_3_eq_3 One_nat_def)
  then show ?thesis using read m by simp
qed

lemma puddle_step_total:
  assumes "depth_map 0 1 cols m" and "0 \<le> drag" and "drag \<le> 1" and "length x = 5" and "length u = 2"
  shows "\<exists>t x'. puddle_step (puddle_read m cols) drag x u = Inr (t, x') \<and> length x' = 5"
proof -
  obtain x0 x1 x2 x3 x4 where x: "x = [x0, x1, x2, x3, x4]"
    using assms(4) by (auto simp: numeral_eq_Suc length_Suc_conv)
  obtain u0 u1 where u: "u = [u0, u1]" using assms(5) by (auto simp: numeral_2_eq_2 length_Suc_conv)
  obtain d where d: "puddle_read m cols [x0, x1] = Inr d" "0 \<le> d"
    using puddle_depth_bounds [OF assms(1), of "[x0, x1]"] by auto
  have "0 \<le> drag + (1 - drag) * d" using assms(2,3) d(2) by simp
  then show ?thesis using d(1)
    by (auto simp: puddle_step_def x u Let_def case_prod_unfold intro: exI [of _ "1 / 20"])
qed

lemma puddle_typed:
  assumes "plane_regulator_configure rg0 = Inr rg" and "depth_map 0 1 cols m" and "0 \<le> drag" and "drag \<le> 1"
  shows "typed_world (puddle_step (puddle_read m cols) drag) (puddle_task (puddle_read m cols) penalty rg)
    (\<lambda>x. length x = 5) (\<lambda>a. length (a_v a) = 2) 4"
  unfolding puddle_task_def
proof (intro plane_typed [OF assms(1)] puddle_step_total [OF assms(2-4)])
  fix x y :: dvec and a :: action assume x: "length x = 5" "length (a_v a) = 2" "length y = 5"
  obtain r where "regulator_evaluate rg x a y = Inr r" using plane_evaluate_total [OF assms(1) x] by blast
  moreover obtain d where "puddle_read m cols (take 2 x) = Inr d"
    using puddle_depth_bounds [OF assms(2), of "take 2 x"] x(1) by auto
  ultimately show "\<exists>r. puddle_evaluate (puddle_read m cols) penalty rg x a y = Inr r"
    by (simp add: puddle_evaluate_def)
qed

text \<open>a puddle world never fails. With a depth map whose entries lie between 0 and 1, a drag in the
  unit interval and a regulator that was configured for the plane, a started environment accepts any
  sequence of two-dimensional actions: it returns as many results, each with an observation of four
  entries and a terminal flag of 0, 1 or 2, absorbing exactly for 2, and keeps a state of five.\<close>

theorem puddle_world_typed:
  assumes "plane_regulator_configure rg0 = Inr rg" and "depth_map 0 1 cols m" and "0 \<le> drag" and "drag \<le> 1"
    and "menv_start (puddle_task (puddle_read m cols) penalty rg) test obs0 env0 = Inr (obs, e)"
    and "\<forall>a \<in> set as. length (a_v a) = 2"
  shows "\<exists>rs e'. env_run (puddle_step (puddle_read m cols) drag) (puddle_task (puddle_read m cols) penalty rg)
      as obs e = Some (Inr (rs, e')) \<and> length rs = length as \<and> length (me_state e') = 5 \<and>
    (\<forall>s \<in> set rs. length (o_v (sr_obs s)) = 4 \<and> sr_terminal s \<in> {0, 1, 2} \<and>
      (o_absorbing (sr_obs s) \<longleftrightarrow> sr_terminal s = 2))"
  by (rule typed_world.run_ok [OF puddle_typed [OF assms(1-4)]
        typed_world.started [OF puddle_typed [OF assms(1-4)] assms(5)] assms(6)])

text \<open>A regulator of the plane, from rest in the middle to a corner.\<close>

definition rg_example :: regulator where
  "rg_example = \<lparr>rg_start = [1 / 2, 1 / 2, 0, 0], rg_goal = [1, 1, 0, 0], rg_stddev = [0, 0, 0, 0],
     rg_q = [1, 1, 0, 0], rg_r = [1, 1], rg_min = [], rg_max = [], rg_timeout = 1,
     rg_q_function = Quadratic, rg_r_function = Quadratic, rg_p = 1 / 100\<rparr>"

text \<open>Without spread the start is exact unless the deviate is infinite.\<close>

lemma getNormal_spread_0:
  assumes "fst (rand_get g) \<noteq> 0"
  shows "\<exists>g'. getNormal mu 0 g = (Fin mu, g')"
  using assms by (simp add: getNormal_def Let_def case_prod_unfold)

definition env_plane :: menv where
  "env_plane = env_example\<lparr>me_rand := \<lparr>rand_data = 1, libc_data = 1\<rparr>\<rparr>"

lemma draw_example:
  "\<exists>g'. draw_normals t [1 / 2, 1 / 2, 0, 0] [0, 0, 0, 0] \<lparr>rand_data = 1, libc_data = 1\<rparr> = Inr ([1 / 2, 1 / 2, 0, 0], g')"
proof -
  let ?n = next48
  have nz: "?n 1 \<noteq> 0" "?n (?n (?n 1)) \<noteq> 0" "?n (?n (?n (?n (?n 1)))) \<noteq> 0"
      "?n (?n (?n (?n (?n (?n (?n 1)))))) \<noteq> 0" by (simp_all add: next48_def)
  have normal: "getNormal mu 0 \<lparr>rand_data = x, libc_data = l\<rparr> = (Fin mu, \<lparr>rand_data = ?n (?n x), libc_data = l\<rparr>)"
    if "?n x \<noteq> 0" for mu x l
    using drand48_nonzero [OF that] by (simp add: getNormal_def rand_get_def Let_def)
  show ?thesis using nz by (simp add: normal finite_real_def)
qed

lemma rg_example_configured: "plane_regulator_configure rg_example = Inr rg_example"
  by (simp add: plane_regulator_configure_def regulator_configure_def rg_example_def Let_def)

theorem puddle_world_typed_witness:
  "\<exists>obs e rs e'. menv_start (puddle_task (puddle_read map_example 3) 2 rg_example) 0 no_obs env_plane = Inr (obs, e) \<and>
    env_run (puddle_step (puddle_read map_example 3) (1 / 2)) (puddle_task (puddle_read map_example 3) 2 rg_example)
      [Action [1, 0] atGreedy, Action [- 1, 1] atGreedy] obs e = Some (Inr (rs, e')) \<and> length rs = 2"
proof -
  let ?task = "puddle_task (puddle_read map_example 3) 2 rg_example"
  note typed = puddle_typed [OF rg_example_configured map_example_depths, of "1 / 2" 2, simplified]
  obtain g' where "tk_start ?task 0 (me_rand env_plane) = Inr ([1 / 2, 1 / 2, 0, 0, 0], g')"
    using draw_example [of False]
    by (auto simp: puddle_task_def regulator_start_def rg_example_def env_plane_def)
  from typed_world.start_ok [OF typed this, of no_obs] obtain obs e where
    e: "menv_start ?task 0 no_obs env_plane = Inr (obs, e)" by blast
  let ?as = "[Action [1, 0] atGreedy, Action [- 1, 1] atGreedy]"
  from puddle_world_typed [OF rg_example_configured map_example_depths _ _ e, of "1 / 2" ?as] obtain rs e' where
    "env_run (puddle_step (puddle_read map_example 3) (1 / 2)) ?task ?as obs e = Some (Inr (rs, e'))"
    "length rs = length ?as" by (auto simp: Action_def)
  then show ?thesis using e by (simp only: list.size) auto
qed

section \<open>Episodes of the worlds without parameters\<close>

text \<open>Episodes start, and no proper actions make them fail.\<close>

definition episodes_typed :: "model_step \<Rightarrow> task \<Rightarrow> (action \<Rightarrow> bool) \<Rightarrow> nat \<Rightarrow> bool" where
  "episodes_typed model world Act width \<longleftrightarrow>
     (\<forall>test obs0 env0. \<exists>obs e. menv_start world test obs0 env0 = Inr (obs, e) \<and> length (o_v obs) = width \<and>
       (\<forall>as. (\<forall>a \<in> set as. Act a) \<longrightarrow>
         (\<exists>rs e'. env_run model world as obs e = Some (Inr (rs, e')) \<and> length rs = length as \<and>
           (\<forall>s \<in> set rs. length (o_v (sr_obs s)) = width \<and> sr_terminal s \<in> {0, 1, 2} \<and>
             (o_absorbing (sr_obs s) \<longleftrightarrow> sr_terminal s = 2)))))"

context typed_world
begin

lemma episodes_ok:
  assumes "\<forall>test g. \<exists>x g'. tk_start world test g = Inr (x, g')"
  shows "episodes_typed model world Act width"
  unfolding episodes_typed_def
proof (intro allI)
  fix test :: int and obs0 :: observation and env0 :: menv
  from assms obtain x g where x: "tk_start world test (me_rand env0) = Inr (x, g)" by blast
  from start_ok [OF this, of obs0] obtain obs e where
    e: "menv_start world test obs0 env0 = Inr (obs, e)" "St (me_state e)" "length (o_v obs) = width" by blast
  have "\<exists>rs e'. env_run model world as obs e = Some (Inr (rs, e')) \<and> length rs = length as \<and>
      (\<forall>s \<in> set rs. length (o_v (sr_obs s)) = width \<and> sr_terminal s \<in> {0, 1, 2} \<and>
        (o_absorbing (sr_obs s) \<longleftrightarrow> sr_terminal s = 2))" if "\<forall>a \<in> set as. Act a" for as
    using run_ok [OF e(2) that, of obs] by blast
  with e show "\<exists>obs e. menv_start world test obs0 env0 = Inr (obs, e) \<and> length (o_v obs) = width \<and>
       (\<forall>as. (\<forall>a \<in> set as. Act a) \<longrightarrow>
         (\<exists>rs e'. env_run model world as obs e = Some (Inr (rs, e')) \<and> length rs = length as \<and>
           (\<forall>s \<in> set rs. length (o_v (sr_obs s)) = width \<and> sr_terminal s \<in> {0, 1, 2} \<and>
             (o_absorbing (sr_obs s) \<longleftrightarrow> sr_terminal s = 2))))" by blast
qed

end

text \<open>C36: no sequence of actions of the right size makes the gridworld, the pendulum swing-up, the
  cart-pole swing-up or cart-pole balancing fail, from any random start. Every episode starts, and
  every step returns an observation of the world's width and a terminal flag of 0, 1 or 2, where the
  observation is absorbing exactly if the flag is 2 (which is what the learning agents rely on).\<close>

theorem worlds_typed:
  "episodes_typed windy_step windy_task (\<lambda>a. \<exists>k < 4. a = windy_act k) 2 \<and>
   episodes_typed (dynamical_step pendulum_eom tau steps) (swingup_task su) (\<lambda>a. length (a_v a) = 1) 2 \<and>
   episodes_typed (dynamical_step (cart_pole_eom 1) tau steps) (cart_swingup_task cs) (\<lambda>a. length (a_v a) = 1) 4 \<and>
   episodes_typed (dynamical_step (cart_pole_eom 1) tau steps) (balancing_task timeout) (\<lambda>a. length (a_v a) = 1) 4"
  by (intro conjI windy.episodes_ok swingup.episodes_ok cart_swingup.episodes_ok balancing.episodes_ok)
    (simp_all add: windy_task_def windy_start_def swingup_task_def swingup_start_def cart_swingup_task_def
      cart_swingup_start_def balancing_task_def balancing_start_def Let_def case_prod_unfold)

section \<open>The cart-pole equations\<close>

text \<open>the cart-pole equations never read the angular velocity. With end stops the accelerations are
  the same whatever the angular velocity is (the code reads the angle in its place); without end
  stops no state has a derivative, because the code reads past the end of it.\<close>

theorem cart_pole_blind:
  "(\<exists>v acc thetaacc. \<forall>w. cart_pole_eom 1 [p, theta, pv, w, t] [u] = Inr [v, w, acc, thetaacc, 1]) \<and>
   cart_pole_eom 0 x uu \<noteq> Inr xd"
proof
  define temp where "temp = (u + 0.1 * 0.5 * theta * theta * sin theta) / (1.0 + 0.1)"
  define ta where "ta = (9.8 * sin theta - cos theta * temp) / (0.5 * (4 / 3 - 0.1 * cos theta * cos theta / (1.0 + 0.1)))"
  define acc where "acc = temp - 0.1 * 0.5 * ta * cos theta / (1.0 + 0.1)"
  define va where "va = (if p > 2.4 \<and> pv > 0 then (0, if acc > 0 then 0 else acc)
      else if p < - 2.4 \<and> pv < 0 then (0, if acc < 0 then 0 else acc) else (pv, acc))"
  have "cart_pole_eom 1 [p, theta, pv, w, t] [u] = Inr [fst va, w, snd va, ta, 1]" for w
    by (simp add: cart_pole_eom_def Let_def va_def acc_def ta_def temp_def numeral_eq_Suc)
  then show "\<exists>v acc thetaacc. \<forall>w. cart_pole_eom 1 [p, theta, pv, w, t] [u] = Inr [v, w, acc, thetaacc, 1]" by blast
  show "cart_pole_eom 0 x uu \<noteq> Inr xd" by (simp add: cart_pole_eom_def)
qed

end
