(* ===== verification/ExperimentFacts.thy ===== *)
theory ExperimentFacts
  imports Experiments AgentFacts WorldTypes
begin

text \<open>
  Facts about experiments. A trial with separate environment and agents is an episode of the agent
  and a run of the environment, so a TD agent hands its predictor the transitions of the
  environment. An experiment whose trials return ends after its last trial with a learning curve of
  the expected length, and on the windy gridworld a guided agent scores what the shortest way costs.
\<close>

section \<open>Separate environment and agents\<close>

definition on_left :: "'a agent_ops \<Rightarrow> ('e \<times> 'a \<times> 'b) agent_ops" where
  "on_left ag = \<lparr>
     ag_start = \<lambda>obs act (e, a, b). chain (ag_start ag obs act a) (\<lambda>(act, a). Inr (act, e, a, b)),
     ag_step = \<lambda>tau obs r act (e, a, b). chain (ag_step ag tau obs r act a) (\<lambda>(act, a). Inr (act, e, a, b)),
     ag_end = \<lambda>tau obs r (e, a, b). chain (ag_end ag tau obs r a) (\<lambda>a. Inr (e, a, b))\<rparr>"

definition on_right :: "'b agent_ops \<Rightarrow> ('e \<times> 'a \<times> 'b) agent_ops" where
  "on_right ag = \<lparr>
     ag_start = \<lambda>obs act (e, a, b). chain (ag_start ag obs act b) (\<lambda>(act, b). Inr (act, e, a, b)),
     ag_step = \<lambda>tau obs r act (e, a, b). chain (ag_step ag tau obs r act b) (\<lambda>(act, b). Inr (act, e, a, b)),
     ag_end = \<lambda>tau obs r (e, a, b). chain (ag_end ag tau obs r b) (\<lambda>b. Inr (e, a, b))\<rparr>"

definition joint ::
    "(int \<Rightarrow> observation \<Rightarrow> 'e \<Rightarrow> (observation \<times> 'e) res) \<Rightarrow>
     (action \<Rightarrow> observation \<Rightarrow> 'e \<Rightarrow> (step_result \<times> 'e) res option) \<Rightarrow>
     'a agent_ops \<Rightarrow> 'b agent_ops \<Rightarrow> ('e \<times> 'a \<times> 'b) exp_ops" where
  "joint es st ag tg = \<lparr>
     xo_env_start = \<lambda>test obs (e, a, b). chain (es test obs e) (\<lambda>(obs, e). Inr (obs, e, a, b)),
     xo_env_step = \<lambda>act obs (e, a, b). map_option (\<lambda>r. chain r (\<lambda>(s, e). Inr (s, e, a, b))) (st act obs e),
     xo_agent = on_left ag, xo_test_agent = on_right tg,
     xo_walk = \<lambda>act file w. w, xo_reset = \<lambda>w. w\<rparr>"

lemma joint_simps [simp]:
  "xo_env_start (joint es st ag tg) test obs (e, a, b) = chain (es test obs e) (\<lambda>(obs, e). Inr (obs, e, a, b))"
  "xo_env_step (joint es st ag tg) act obs (e, a, b) =
     map_option (\<lambda>r. chain r (\<lambda>(s, e). Inr (s, e, a, b))) (st act obs e)"
  "xo_agent (joint es st ag tg) = on_left ag" "xo_test_agent (joint es st ag tg) = on_right tg"
  "xo_walk (joint es st ag tg) k file w = w" "xo_reset (joint es st ag tg) w = w"
  by (simp_all add: joint_def)

lemma on_left_simps [simp]:
  "ag_start (on_left ag) obs act (e, a, b) = chain (ag_start ag obs act a) (\<lambda>(act, a). Inr (act, e, a, b))"
  "ag_step (on_left ag) tau obs r act (e, a, b) = chain (ag_step ag tau obs r act a) (\<lambda>(act, a). Inr (act, e, a, b))"
  "ag_end (on_left ag) tau obs r (e, a, b) = chain (ag_end ag tau obs r a) (\<lambda>a. Inr (e, a, b))"
  by (simp_all add: on_left_def)

lemma on_right_simps [simp]:
  "ag_start (on_right ag) obs act (e, a, b) = chain (ag_start ag obs act b) (\<lambda>(act, b). Inr (act, e, a, b))"
  "ag_step (on_right ag) tau obs r act (e, a, b) = chain (ag_step ag tau obs r act b) (\<lambda>(act, b). Inr (act, e, a, b))"
  "ag_end (on_right ag) tau obs r (e, a, b) = chain (ag_end ag tau obs r b) (\<lambda>b. Inr (e, a, b))"
  by (simp_all add: on_right_def)

text \<open>Playing a list of actions in any environment.\<close>

fun env_play ::
    "(action \<Rightarrow> observation \<Rightarrow> 'e \<Rightarrow> (step_result \<times> 'e) res option) \<Rightarrow>
     action list \<Rightarrow> observation \<Rightarrow> 'e \<Rightarrow> (step_result list \<times> 'e) res option" where
  "env_play st [] obs e = Some (Inr ([], e))"
| "env_play st (a # as) obs e =
     (case st a obs e of
        None \<Rightarrow> None
      | Some (Inl err) \<Rightarrow> Some (Inl err)
      | Some (Inr (s, e)) \<Rightarrow>
          map_option (\<lambda>r. chain r (\<lambda>(ss, e). Inr (s # ss, e))) (env_play st as (sr_obs s) e))"

lemma env_run_play: "env_run model world as obs e = env_play (menv_step model world) as obs e"
  by (induction as arbitrary: obs e) (auto split: option.splits sum.splits)

text \<open>What an agent is told of a step.\<close>

definition tell :: "step_result \<Rightarrow> agent_event" where
  "tell s = (if sr_terminal s = 2 then EvEnd (sr_tau s) (sr_obs s) (sr_reward s)
             else EvStep (sr_tau s) (sr_obs s) (sr_reward s))"

definition observes :: "(action \<Rightarrow> observation \<Rightarrow> 'e \<Rightarrow> (step_result \<times> 'e) res option) \<Rightarrow> bool" where
  "observes st \<longleftrightarrow> (\<forall>a obs e s e'. st a obs e = Some (Inr (s, e')) \<longrightarrow> o_v (sr_obs s) \<noteq> [])"

definition ends_episode :: "step_result list \<Rightarrow> bool" where
  "ends_episode rs \<longleftrightarrow> rs \<noteq> [] \<and> (\<forall>s \<in> set (butlast rs). sr_terminal s = 0) \<and> sr_terminal (last rs) \<noteq> 0"

lemma ends_episode_Cons:
  "ends_episode (s # rs) \<longleftrightarrow> (if rs = [] then sr_terminal s \<noteq> 0 else sr_terminal s = 0 \<and> ends_episode rs)"
  by (auto simp: ends_episode_def)

text \<open>The actions played are the first ones of those answered.\<close>

lemma interact_episode:
  assumes "interact (joint es st ag tg) (on_left ag) act obs tot n (e, a, b) = Some (Inr (gain, m, e', a', b'))"
    and "observes st"
  shows "\<exists>rs as. env_play st (take (length rs) (act # as)) obs e = Some (Inr (rs, e')) \<and>
    run_agent ag (map tell rs) act a = Inr (as, a') \<and> ends_episode rs \<and> b' = b \<and>
    length as + (if sr_terminal (last rs) = 2 then 1 else 0) = length rs \<and>
    gain = tot + sum_list (map sr_reward rs) \<and> m = n + length rs"
proof -
  define P where "P xo ag' act obs tot n w r \<longleftrightarrow> (\<forall>e a b gain m e' a' b'.
    xo = joint es st ag tg \<longrightarrow> ag' = on_left ag \<longrightarrow> w = (e, a, b) \<longrightarrow> r = Inr (gain, m, e', a', b') \<longrightarrow>
    (\<exists>rs as. env_play st (take (length rs) (act # as)) obs e = Some (Inr (rs, e')) \<and>
      run_agent ag (map tell rs) act a = Inr (as, a') \<and> ends_episode rs \<and> b' = b \<and>
      length as + (if sr_terminal (last rs) = 2 then 1 else 0) = length rs \<and>
      gain = tot + sum_list (map sr_reward rs) \<and> m = n + length rs))"
    for xo and ag' :: "('a \<times> 'b \<times> 'c) agent_ops" and act obs tot and n :: nat and w and r :: "(real \<times> nat \<times> 'a \<times> 'b \<times> 'c) res"
  have "P (joint es st ag tg) (on_left ag) act obs tot n (e, a, b) (Inr (gain, m, e', a', b'))"
  proof (rule interact.raw_induct [where P = P, OF _ assms(1)])
    fix go xo ag' act obs tot n w r
    assume IH: "\<And>xo ag' act obs tot n w r. go xo ag' act obs tot n w = Some r \<Longrightarrow> P xo ag' act obs tot n w r"
      and body: "(case xo_env_step xo act obs w of None \<Rightarrow> None | Some (Inl e) \<Rightarrow> Some (Inl e)
        | Some (Inr (s, w)) \<Rightarrow> (case react ag' s act w of Inl e \<Rightarrow> Some (Inl e)
          | Inr (a, w) \<Rightarrow> let total_reward = tot + sr_reward s; n = (if o_v (sr_obs s) = [] then n else n + 1)
              in if sr_terminal s \<noteq> 0 then Some (Inr (total_reward, n, w))
                 else go xo ag' a (sr_obs s) total_reward n w)) = Some r"
    show "P xo ag' act obs tot n w r"
      unfolding P_def
    proof (intro allI impI)
    fix e a b gain m e' a' b'
    assume eq: "xo = joint es st ag tg" "ag' = on_left ag" "w = (e, a, b)" "r = Inr (gain, m, e', a', b')"
    obtain s e1 where s: "st act obs e = Some (Inr (s, e1))"
      using body unfolding eq by (cases "st act obs e"; cases "the (st act obs e)") (auto split: prod.splits)
    have ne: "o_v (sr_obs s) \<noteq> []" using s assms(2) unfolding observes_def by blast
    note step = s ne
    show "\<exists>rs as. env_play st (take (length rs) (act # as)) obs e = Some (Inr (rs, e')) \<and>
      run_agent ag (map tell rs) act a = Inr (as, a') \<and> ends_episode rs \<and> b' = b \<and>
      length as + (if sr_terminal (last rs) = 2 then 1 else 0) = length rs \<and>
      gain = tot + sum_list (map sr_reward rs) \<and> m = n + length rs"
    proof (cases "sr_terminal s = 2")
      case True
      then obtain a1 where "ag_end ag (sr_tau s) (sr_obs s) (sr_reward s) a = Inr a1"
        "gain = tot + sr_reward s" "m = n + 1" "e' = e1" "a' = a1" "b' = b"
        using body eq step
        by (auto simp: react_def Let_def chain_Inr split: sum.splits)
      then show ?thesis using s True
        by (intro exI [of _ "[s]"] exI [of _ "[]"]) (simp add: tell_def ends_episode_def)
    next
      case False
      then obtain act1 a1 where ag: "ag_step ag (sr_tau s) (sr_obs s) (sr_reward s) act a = Inr (act1, a1)"
        using body eq step
        by (auto simp: react_def Let_def chain_Inr split: sum.splits prod.splits)
      show ?thesis
      proof (cases "sr_terminal s = 0")
        case True
        then have "go xo ag' act1 (sr_obs s) (tot + sr_reward s) (n + 1) (e1, a1, b) = Some r"
          using body eq step ag by (simp add: react_def Let_def)
        from IH [OF this, unfolded P_def] eq(1,2,4) obtain rs as where rs:
          "env_play st (take (length rs) (act1 # as)) (sr_obs s) e1 = Some (Inr (rs, e'))"
          "run_agent ag (map tell rs) act1 a1 = Inr (as, a')" "ends_episode rs" "b' = b"
          "length as + (if sr_terminal (last rs) = 2 then 1 else 0) = length rs"
          "gain = tot + sr_reward s + sum_list (map sr_reward rs)" "m = n + 1 + length rs" by blast
        have "rs \<noteq> []" using rs(3) by (simp add: ends_episode_def)
        then show ?thesis using s ag True False rs
          by (intro exI [of _ "s # rs"] exI [of _ "act1 # as"])
            (simp add: tell_def ends_episode_Cons)
      next
        case nonzero: False
        then have "gain = tot + sr_reward s \<and> m = n + 1 \<and> e' = e1 \<and> a' = a1 \<and> b' = b"
          using body eq step ag False by (simp add: react_def Let_def)
        then show ?thesis using s ag False nonzero
          by (intro exI [of _ "[s]"] exI [of _ "[act1]"]) (simp add: tell_def ends_episode_def)
      qed
    qed
    qed
  qed
  then show ?thesis by (simp add: P_def)
qed

lemma trial_episode:
  assumes "run_trial (joint es st ag tg) 0 (e, a, b) = Some (Inr (gain, m, e', a', b'))" and "observes st"
  shows "\<exists>obs e1 rs acts. es 0 no_obs e = Inr (obs, e1) \<and>
    env_play st (take (length rs) acts) obs e1 = Some (Inr (rs, e')) \<and>
    run_agent ag (EvStart obs # map tell rs) no_action a = Inr (acts, a') \<and> ends_episode rs \<and> b' = b \<and>
    length acts + (if sr_terminal (last rs) = 2 then 1 else 0) = length rs + 1 \<and>
    gain = sum_list (map sr_reward rs) \<and> m = length rs"
proof -
  obtain obs e1 act a1 where start: "es 0 no_obs e = Inr (obs, e1)" "ag_start ag obs no_action a = Inr (act, a1)"
    and loop: "interact (joint es st ag tg) (on_left ag) act obs 0 0 (e1, a1, b) = Some (Inr (gain, m, e', a', b'))"
    using assms(1) unfolding run_trial_def Let_def
    by (cases "es 0 no_obs e") (auto split: sum.splits prod.splits simp: chain_Inr chain_Inl)
  from interact_episode [OF loop assms(2)] obtain rs as where
    "env_play st (take (length rs) (act # as)) obs e1 = Some (Inr (rs, e'))"
    "run_agent ag (map tell rs) act a1 = Inr (as, a')" "ends_episode rs" "b' = b"
    "length as + (if sr_terminal (last rs) = 2 then 1 else 0) = length rs"
    "gain = sum_list (map sr_reward rs)" "m = length rs" by auto
  then show ?thesis using start
    by (intro exI [of _ obs] exI [of _ e1] exI [of _ rs] exI [of _ "act # as"]) simp
qed

text \<open>The steps and the absorbing end of an episode's results.\<close>

definition told :: "step_result \<Rightarrow> real \<times> observation \<times> real" where
  "told s = (sr_tau s, sr_obs s, sr_reward s)"

definition steps_of :: "step_result list \<Rightarrow> (real \<times> observation \<times> real) list" where
  "steps_of rs = map told (if sr_terminal (last rs) = 2 then butlast rs else rs)"

definition final_of :: "step_result list \<Rightarrow> (real \<times> observation \<times> real) option" where
  "final_of rs = (if sr_terminal (last rs) = 2 then Some (told (last rs)) else None)"

lemma tell_episode:
  assumes "ends_episode rs"
  shows "EvStart obs # map tell rs = episode obs (steps_of rs) (final_of rs)"
proof -
  have rs: "rs = butlast rs @ [last rs]" and zero: "\<forall>s \<in> set (butlast rs). sr_terminal s = 0"
    using assms by (simp_all add: ends_episode_def)
  have first: "map tell (butlast rs) = map (\<lambda>(tau, obs, r). EvStep tau obs r) (map told (butlast rs))"
    using zero by (simp add: tell_def told_def)
  have all: "map tell rs = map tell (butlast rs) @ [tell (last rs)]"
    "map told rs = map told (butlast rs) @ [told (last rs)]" using rs by (metis list.simps(8,9) map_append)+
  show ?thesis
    by (cases "sr_terminal (last rs) = 2")
      (simp_all add: all first episode_def steps_of_def final_of_def tell_def told_def del: map_map)
qed

text \<open>C1: in an experiment a TD agent learns from the environment's own transitions. If a learning trial
  returns, the environment was started, some actions were played in it until its first terminal
  flag, the trial's total is the sum of the rewards, and what the predictor was given are exactly
  the consecutive observation-action pairs of that run with its rewards and durations, closed by a
  transition without action if the run ended in an absorbing state.\<close>

theorem experiment_feeds_td_agent:
  assumes "run_trial (joint es st (td_agent_ops (logged lo)) tg) 0 (e, a, b) = Some (Inr (gain, m, e', a', b'))"
    and "observes st"
  shows "\<exists>obs e1 rs acts. es 0 no_obs e = Inr (obs, e1) \<and>
    env_play st (take (length rs) acts) obs e1 = Some (Inr (rs, e')) \<and> ends_episode rs \<and>
    gain = sum_list (map sr_reward rs) \<and> m = length rs \<and> b' = b \<and>
    snd (ta_world a') = snd (ta_world a) @ consecutive obs (hd acts) (steps_of rs) (tl acts) (final_of rs)"
proof -
  from trial_episode [OF assms] obtain obs e1 rs acts where
    r: "es 0 no_obs e = Inr (obs, e1)" "env_play st (take (length rs) acts) obs e1 = Some (Inr (rs, e'))"
    "run_agent (td_agent_ops (logged lo)) (EvStart obs # map tell rs) no_action a = Inr (acts, a')"
    "ends_episode rs" "b' = b" "gain = sum_list (map sr_reward rs)" "m = length rs" by blast
  from td_agent_log [OF r(3) [unfolded tell_episode [OF r(4)]]] r show ?thesis by blast
qed

section \<open>Experiments that end\<close>

text \<open>Every trial returns from a good state, in a good state, and with a proper score.\<close>

locale playable =
  fixes xo :: "'s exp_ops"
    and Good :: "'s \<Rightarrow> bool"
    and Score :: "real \<Rightarrow> bool"
  assumes plays: "Good w \<Longrightarrow> \<exists>r n w'. run_trial xo test w = Some (Inr (r, n, w')) \<and> Good w' \<and> Score r"
    and walk_good: "Good w \<Longrightarrow> Good (xo_walk xo act file w)"
    and reset_good: "Good w \<Longrightarrow> Good (xo_reset xo w)"

text \<open>The trials that add a point to the learning curve.\<close>

definition scored :: "online \<Rightarrow> nat \<Rightarrow> bool" where
  "scored x tt \<longleftrightarrow> on_test_interval x < 0 \<or> int tt mod (on_test_interval x + 1) = on_test_interval x"

lemma test_of_scored: "on_test_interval x < 0 \<or> test_of x rr tt \<noteq> 0 \<longleftrightarrow> scored x tt"
  by (auto simp: test_of_def scored_def)

lemma save_trial_fields [simp]:
  "pg_curve (save_trial xo x rr test p) = pg_curve p" "pg_tt (save_trial xo x rr test p) = pg_tt p"
  "pg_ss (save_trial xo x rr test p) = pg_ss p"
  by (simp_all add: save_trial_def)

lemma add_point_fields [simp]:
  "pg_curve (add_point r p) = pg_curve p @ [r]" "pg_tt (add_point r p) = pg_tt p"
  "pg_world (add_point r p) = pg_world p" "pg_ss (add_point r p) = pg_ss p"
  by (simp_all add: add_point_def Let_def)

lemma finish_trial_curve:
  "pg_curve (finish_trial xo x rr (test_of x rr tt) (r, n, w) p) =
     pg_curve p @ (if scored x tt then [r] else [])"
  "pg_tt (finish_trial xo x rr test (r, n, w) p) = pg_tt p"
  using test_of_scored [of x rr tt] by (auto simp: finish_trial_def Let_def)

context playable
begin

lemma finish_good:
  "Good w \<Longrightarrow> Good (pg_world (finish_trial xo x rr test (r, n, w) p))"
  using walk_good by (simp add: finish_trial_def save_trial_def Let_def)

lemma trials_return:
  assumes "on_steps x = 0" and "pg_tt p \<le> on_trials x" and "0 < on_trials x" and "Good (pg_world p)"
  shows "\<exists>p'. trial_loop xo x rr p = Some (Inr p') \<and> Good (pg_world p') \<and>
    length (pg_curve p') = length (pg_curve p) + length (filter (scored x) [pg_tt p..<on_trials x]) \<and>
    (\<forall>r \<in> set (pg_curve p'). r \<in> set (pg_curve p) \<or> Score r)"
  using assms(2,4)
proof (induction "on_trials x - pg_tt p" arbitrary: p)
  case 0
  then show ?case using assms(1,3) by (subst trial_loop.simps) auto
next
  case (Suc k)
  let ?test = "test_of x rr (pg_tt p)"
  from plays [OF Suc.prems(2), of ?test] obtain r n w where
    r: "run_trial xo ?test (pg_world p) = Some (Inr (r, n, w))" "Good w" "Score r" by blast
  let ?p = "(finish_trial xo x rr ?test (r, n, w) p)\<lparr>pg_tt := pg_tt p + 1\<rparr>"
  have "k = on_trials x - pg_tt ?p" "pg_tt ?p \<le> on_trials x" "Good (pg_world ?p)"
    using Suc.hyps(2) finish_good [OF r(2)] by simp_all
  from Suc.hyps(1) [OF this] obtain p' where p': "trial_loop xo x rr ?p = Some (Inr p')" "Good (pg_world p')"
    "length (pg_curve p') = length (pg_curve ?p) + length (filter (scored x) [pg_tt ?p..<on_trials x])"
    "\<forall>r \<in> set (pg_curve p'). r \<in> set (pg_curve ?p) \<or> Score r" by blast
  have less: "pg_tt p < on_trials x" using Suc.hyps(2) by simp
  then have "trial_loop xo x rr p = trial_loop xo x rr ?p"
    using assms(1) r(1) by (subst trial_loop.simps) simp
  moreover have "[pg_tt p..<on_trials x] = pg_tt p # [pg_tt p + 1..<on_trials x]"
    using less by (simp add: upt_conv_Cons)
  ultimately show ?case using p' r(3)
    by (auto simp: finish_trial_curve split: if_splits)
qed

lemma runs_return:
  assumes "on_steps x = 0" and "0 < on_trials x" and "Good (pg_world p)"
  shows "\<exists>p'. run_loop xo x (Suc k) rr p = Some (Inr p') \<and>
    length (pg_curve p') = length (filter (scored x) [0..<on_trials x]) \<and> (\<forall>r \<in> set (pg_curve p'). Score r)"
  using assms(3)
proof (induction k arbitrary: rr p)
  case 0
  let ?p = "p\<lparr>pg_curve := [], pg_ss := 0, pg_tt := 0, pg_world := load_policy xo x rr (pg_world p)\<rparr>"
  have "Good (pg_world ?p)" using 0 walk_good by (simp add: load_policy_def)
  from trials_return [OF assms(1) _ assms(2) this, of rr] show ?case by (auto simp: online_once_def)
next
  case (Suc k)
  let ?p = "p\<lparr>pg_curve := [], pg_ss := 0, pg_tt := 0, pg_world := load_policy xo x rr (pg_world p)\<rparr>"
  have "Good (pg_world ?p)" using Suc.prems walk_good by (simp add: load_policy_def)
  from trials_return [OF assms(1) _ assms(2) this, of rr] obtain p1 where
    p1: "trial_loop xo x rr ?p = Some (Inr p1)" "Good (pg_world p1)" by auto
  let ?p1 = "p1\<lparr>pg_world := xo_reset xo (save_run xo x rr (pg_world p1))\<rparr>"
  have "Good (pg_world ?p1)" using p1(2) walk_good reset_good by (simp add: save_run_def)
  from Suc.IH [OF this, of "rr + 1"] p1(1) show ?case by (simp add: online_once_def)
qed

lemma experiment_returns:
  assumes "0 < on_runs x" and "on_steps x = 0" and "0 < on_trials x" and "Good w"
  shows "\<exists>curve p. online_run xo x w = Some (Inr (curve, p)) \<and>
    length curve = length (filter (scored x) [0..<on_trials x]) \<and> (\<forall>r \<in> set curve. Score r)"
proof -
  obtain k where k: "on_runs x = Suc k" using assms(1) gr0_implies_Suc by blast
  from runs_return [OF assms(2,3), of "\<lparr>pg_ss = 0, pg_tt = 0, pg_curve = [], pg_avg1 = 0, pg_avg2 = 0,
      pg_signal = [], pg_world = w\<rparr>" k "on_run_offset x"] assms(4)
  obtain p where "run_loop xo x (on_runs x) (on_run_offset x) \<lparr>pg_ss = 0, pg_tt = 0, pg_curve = [], pg_avg1 = 0,
      pg_avg2 = 0, pg_signal = [], pg_world = w\<rparr> = Some (Inr p)"
    "length (pg_curve p) = length (filter (scored x) [0..<on_trials x])" "\<forall>r \<in> set (pg_curve p). Score r"
    unfolding k by auto
  then show ?thesis by (simp add: online_run_def)
qed

end

text \<open>The number of points: every trial, or one in every \<open>test_interval + 1\<close>.\<close>

lemma scored_count:
  assumes "on_test_interval x = int k"
  shows "length (filter (scored x) [0..<n]) = n div (k + 1)"
proof (induction n)
  case (Suc n)
  have "scored x n \<longleftrightarrow> int (n mod (k + 1)) = int k" by (simp add: scored_def assms zmod_int add.commute)
  then have "scored x n \<longleftrightarrow> (k + 1) dvd Suc n"
    by (metis Suc_eq_plus1 add_diff_cancel_right' mod_Suc mod_Suc_eq_mod_add3 diff_Suc_1 dvd_eq_mod_eq_0 nat.distinct(1) of_nat_eq_iff)
  then show ?case using Suc by (simp add: div_Suc dvd_eq_mod_eq_0)
qed simp

lemma scored_all: "on_test_interval x < 0 \<Longrightarrow> length (filter (scored x) [0..<n]) = n"
  by (simp add: scored_def)

section \<open>An experiment on the windy gridworld\<close>

text \<open>An agent without memory that follows the table of best actions.\<close>

definition guide :: "unit learner_ops" where
  "guide = \<lparr>lo_act = \<lambda>t obs a w. Inr (windy_act (windy_action (\<lfloor>o_v obs ! 0\<rfloor>, \<lfloor>o_v obs ! 1\<rfloor>)), w),
     lo_update = \<lambda>t w. Inr w, lo_finalize = \<lambda>w. w\<rparr>"

definition guided :: "unit fixed_agent agent_ops" where
  "guided = \<lparr>ag_start = fixed_start guide, ag_step = fixed_step guide, ag_end = fixed_end\<rparr>"

definition windy_experiment :: "(menv \<times> unit fixed_agent \<times> unit fixed_agent) exp_ops" where
  "windy_experiment = joint (menv_start windy_task) (menv_step windy_step windy_task) guided guided"

definition windy_obs :: "int \<times> int \<Rightarrow> observation \<Rightarrow> bool" where
  "windy_obs c obs \<longleftrightarrow> o_v obs = [real_of_int (fst c), real_of_int (snd c)]"

lemma guided_act:
  "windy_obs c obs \<Longrightarrow> \<exists>f'. ag_start guided obs a f = Inr (windy_act (windy_action c), f')"
  "windy_obs c obs \<Longrightarrow> \<exists>f'. ag_step guided tau obs r a f = Inr (windy_act (windy_action c), f')"
  "\<exists>f'. ag_end guided tau obs r f = Inr f'"
  by (simp_all add: guided_def fixed_start_def fixed_step_def fixed_end_def guide_def windy_obs_def Let_def)

text \<open>Both agents are guided, so it does not matter which one plays.\<close>

lemma guided_react:
  assumes "tg \<in> {on_left guided, on_right guided}"
  shows "\<exists>w'. react tg (windy_result k c) act (e, w) =
    Inr (if c = (7, 3) then act else windy_act (windy_action c), e, w')"
proof -
  obtain f g where w: "w = (f, g)" by fastforce
  have "windy_obs c (sr_obs (windy_result k c))" by (simp add: windy_obs_def windy_result_def)
  note a = guided_act(2) [OF this] guided_act(3)
  have ne: "o_v (sr_obs (windy_result k c)) \<noteq> []" and te: "sr_terminal (windy_result k c) = (if c = (7, 3) then 2 else 0)"
    by (simp_all add: windy_result_def)
  from a(1) [of "sr_tau (windy_result k c)" "sr_reward (windy_result k c)" act f]
    a(1) [of "sr_tau (windy_result k c)" "sr_reward (windy_result k c)" act g]
    a(2) [of "sr_tau (windy_result k c)" "sr_obs (windy_result k c)" "sr_reward (windy_result k c)" f]
    a(2) [of "sr_tau (windy_result k c)" "sr_obs (windy_result k c)" "sr_reward (windy_result k c)" g]
  show ?thesis using assms ne te by (auto simp: react_def w)
qed

lemma guided_interact:
  assumes "windy_cell c" and "c \<noteq> (7, 3)" and "me_state e = windy_state c t"
    and "tg \<in> {on_left guided, on_right guided}"
  shows "\<exists>e' w'. interact windy_experiment tg (windy_act (windy_action c)) obs tot n (e, w) =
    Some (Inr (tot - real (windy_distance c), n + windy_distance c, e', w'))"
  using assms(1-3)
proof (induction "windy_distance c" arbitrary: c e obs tot n w)
  case 0
  then show ?case using windy_table_cell(1) by simp
next
  case (Suc k)
  let ?a = "windy_action c" and ?c = "windy_next (windy_action c) c"
  have a: "?a < 4" "windy_distance ?c = k" using windy_table_cell(2) [OF Suc.prems(1,2)] Suc.hyps(2) by auto
  have cell: "windy_cell ?c" using Suc.prems(1) by (rule windy_next_cell)
  obtain f g where w: "w = (f, g)" by fastforce
  from windy_menv_step [OF Suc.prems(1) a(1) Suc.prems(3), of obs] obtain e1 where
    e1: "menv_step windy_step windy_task (windy_act ?a) obs e = Some (Inr (windy_result ?a ?c, e1))"
    "me_state e1 = windy_state ?c t" by blast
  from guided_react [OF assms(4), of ?a ?c "windy_act ?a" e1 w] obtain w1 where
    w1: "react tg (windy_result ?a ?c) (windy_act ?a) (e1, w) =
      Inr (if ?c = (7, 3) then windy_act ?a else windy_act (windy_action ?c), e1, w1)" by blast
  have res: "sr_reward (windy_result ?a ?c) = - 1" "o_v (sr_obs (windy_result ?a ?c)) \<noteq> []"
    "sr_terminal (windy_result ?a ?c) = (if ?c = (7, 3) then 2 else 0)" by (simp_all add: windy_result_def)
  have step: "interact windy_experiment tg (windy_act ?a) obs tot n (e, w) =
      (if ?c = (7, 3) then Some (Inr (tot - 1, n + 1, e1, w1))
       else interact windy_experiment tg (windy_act (windy_action ?c)) (sr_obs (windy_result ?a ?c)) (tot - 1) (n + 1) (e1, w1))"
    using e1(1) w1 res by (subst interact.simps) (simp add: windy_experiment_def w Let_def)
  show ?case
  proof (cases "?c = (7, 3)")
    case True
    then have "windy_distance ?c = 0" using windy_table_cell(1) [OF cell] by simp
    then have "windy_distance c = 1" using a(2) Suc.hyps(2) by simp
    then show ?thesis using step True by simp
  next
    case False
    from Suc.hyps(1) [OF a(2) [symmetric] cell False e1(2), of "sr_obs (windy_result ?a ?c)" "tot - 1" "n + 1" w1] step False
    show ?thesis using a(2) Suc.hyps(2) by (auto simp: algebra_simps simp flip: Suc.hyps(2))
  qed
qed

lemma windy_start_ok:
  "\<exists>obs e'. menv_start windy_task test obs0 e = Inr (obs, e') \<and> me_state e' = windy_state (0, 3) 0 \<and> windy_obs (0, 3) obs"
  by (simp add: menv_start_def windy_task_def windy_start_def windy_observe_def windy_succeeded_def windy_obs_def
      observe_prefix_def windy_state_def Let_def)

lemma guided_trial: "\<exists>n w'. run_trial windy_experiment test w = Some (Inr (- 15, n, w'))"
proof -
  obtain e f g where w: "w = (e, f, g)" by (metis prod_cases3)
  from windy_start_ok [of test no_obs e] obtain obs e1 where
    e1: "menv_start windy_task test no_obs e = Inr (obs, e1)" "me_state e1 = windy_state (0, 3) 0" "windy_obs (0, 3) obs" by blast
  define tg where "tg = (if test \<noteq> 0 then xo_test_agent windy_experiment else xo_agent windy_experiment)"
  have tg: "tg \<in> {on_left guided, on_right guided}" by (simp add: tg_def windy_experiment_def)
  from guided_act(1) [OF e1(3), of no_action f] guided_act(1) [OF e1(3), of no_action g] tg obtain w1 where
    w1: "ag_start tg obs no_action (e1, f, g) = Inr (windy_act (windy_action (0, 3)), e1, w1)" by fastforce
  have "windy_cell (0, 3)" "windy_distance (0, 3) = 15"
    by (simp_all add: windy_cell_def windy_distance_def windy_distances_def)
  with guided_interact [OF _ _ e1(2) tg, of obs 0 0 w1] have
    "\<exists>e2 w2. interact windy_experiment tg (windy_act (windy_action (0, 3))) obs 0 0 (e1, w1) = Some (Inr (- 15, 15, e2, w2))"
    by simp
  then obtain e2 w2 where
    "interact windy_experiment tg (windy_act (windy_action (0, 3))) obs 0 0 (e1, w1) = Some (Inr (- 15, 15, e2, w2))" by blast
  moreover have "xo_env_start windy_experiment test no_obs w = Inr (obs, e1, f, g)"
    using e1(1) by (simp add: w windy_experiment_def)
  ultimately show ?thesis using w1 by (simp add: run_trial_def tg_def [symmetric] Let_def)
qed

interpretation windy_play: playable windy_experiment "\<lambda>_. True" "\<lambda>r. r = - 15"
  by unfold_locales (use guided_trial in auto)

text \<open>C6: an online learning experiment on the windy gridworld with an agent that takes a shortest way
  ends, whatever the number of runs and trials, the test interval and the state it begins with, and
  its learning curve is constant: -15 for every trial, or for one in every \<open>test_interval + 1\<close>.\<close>

theorem windy_experiment_curve:
  assumes "0 < on_runs x" and "on_steps x = 0" and "0 < on_trials x"
  shows "\<exists>p. online_run windy_experiment x w = Some (Inr (replicate
    (if on_test_interval x < 0 then on_trials x else on_trials x div (nat (on_test_interval x) + 1)) (- 15), p))"
proof -
  from windy_play.experiment_returns [OF assms, of w] obtain curve p where
    run: "online_run windy_experiment x w = Some (Inr (curve, p))" and
    curve: "length curve = length (filter (scored x) [0..<on_trials x])" "\<forall>r \<in> set curve. r = - 15" by blast
  have "length curve = (if on_test_interval x < 0 then on_trials x else on_trials x div (nat (on_test_interval x) + 1))"
    using curve(1) scored_all [of x] scored_count [of x "nat (on_test_interval x)"] by simp
  then have "curve = replicate (if on_test_interval x < 0 then on_trials x
      else on_trials x div (nat (on_test_interval x) + 1)) (- 15)" using curve(2) by (intro replicate_eqI) auto
  with run show ?thesis by blast
qed

definition online_example :: online where
  "online_example = \<lparr>on_runs = 2, on_run_offset = 0, on_trials = 7, on_steps = 0, on_test_interval = 2,
     on_output = [], on_load_file = [], on_save_every = ''never'', on_identity = []\<rparr>"

theorem windy_experiment_curve_witness:
  "\<exists>p. online_run windy_experiment online_example
    (env_example, \<lparr>fa_time = 0, fa_world = ()\<rparr>, \<lparr>fa_time = 0, fa_world = ()\<rparr>) = Some (Inr ([- 15, - 15], p))"
  using windy_experiment_curve [of online_example "(env_example, \<lparr>fa_time = 0, fa_world = ()\<rparr>, \<lparr>fa_time = 0, fa_world = ()\<rparr>)"]
  by (simp add: online_example_def numeral_2_eq_2)

text \<open>A counter that ends at 2 and pays its value.\<close>

definition count_start :: "int \<Rightarrow> observation \<Rightarrow> real \<Rightarrow> (observation \<times> real) res" where
  "count_start test obs e = Inr (Observation [0] False, 0)"

definition count_step :: "action \<Rightarrow> observation \<Rightarrow> real \<Rightarrow> (step_result \<times> real) res option" where
  "count_step a obs e = Some (Inr (\<lparr>sr_tau = 1, sr_obs = Observation [e + 1] False, sr_reward = e + 1,
     sr_terminal = if e = 1 then 2 else 0\<rparr>, e + 1))"

theorem experiment_feeds_td_agent_witness:
  "\<exists>a' rs. run_trial (joint count_start count_step (td_agent_ops (logged still_ops)) guided) 0
      (9, \<lparr>ta_time = 0, ta_prev_obs = no_obs, ta_prev_action = no_action, ta_world = ((), [])\<rparr>, \<lparr>fa_time = 0, fa_world = ()\<rparr>) =
      Some (Inr (3, 2, 2, a', \<lparr>fa_time = 0, fa_world = ()\<rparr>)) \<and>
    ends_episode rs \<and> length rs = 2 \<and> sum_list (map sr_reward rs) = 3"
proof -
  let ?xo = "joint count_start count_step (td_agent_ops (logged still_ops)) guided"
  let ?a = "\<lparr>ta_time = 0, ta_prev_obs = no_obs, ta_prev_action = no_action, ta_world = ((), [])\<rparr>"
  obtain a' where r: "run_trial ?xo 0 (9, ?a, \<lparr>fa_time = 0, fa_world = ()\<rparr>) =
      Some (Inr (3, 2, 2, a', \<lparr>fa_time = 0, fa_world = ()\<rparr>))"
    by (simp add: run_trial_def interact.simps count_start_def count_step_def td_agent_ops_def td_start_def
        td_step_def td_end_def logged_def still_ops_def react_def Observation_def Let_def)
  have "observes count_step" by (auto simp: observes_def count_step_def Observation_def)
  from experiment_feeds_td_agent [OF r this] obtain rs where
    "ends_episode rs" "length rs = 2" "sum_list (map sr_reward rs) = 3" by auto
  then show ?thesis using r by blast
qed

end
