(* ===== verification/TreeSearch.thy ===== *)
theory TreeSearch
  imports Policies "HOL-Library.Word"
begin

text \<open>
  Monte-Carlo tree search (\<open>base/include/grl/policies/mcts.h\<close>, \<open>base/src/policies/mcts.cpp\<close>):
  \<open>MCTSNode\<close> and \<open>UCTNode\<close>, the tree and default policies, the search, and \<open>act\<close>.

  Nodes live in a list and are named by their position; \<open>children_\<close> is the list of the names of the
  expanded children. The result \<open>None\<close> is undefined behaviour (a trap, a shift too far, an index
  out of range, an unset pointer) or a loop that does not end. The model and the discretizer are
  functions. The number of searches, which the code limits by elapsed time, is a parameter. The
  random numbers are those of the C library (\<open>lrand48\<close>, \<open>drand48\<close>).
\<close>

unbundle bit_operations_syntax

section \<open>Nodes\<close>

record node =
  nd_action :: nat
  nd_visits :: nat
  nd_children :: "nat list"
  nd_expanded :: "64 word"
  nd_q :: real
  nd_reward :: real
  nd_tau :: real
  nd_state :: dvec
  nd_terminal :: bool
  nd_parent :: "nat option"

definition node_init :: "nat option \<Rightarrow> nat \<Rightarrow> real \<Rightarrow> dvec \<Rightarrow> real \<Rightarrow> bool \<Rightarrow> node" where
  "node_init parent action tau state reward terminal =
     \<lparr>nd_action = action, nd_visits = 0, nd_children = [], nd_expanded = 0, nd_q = 0, nd_reward = reward,
      nd_tau = tau, nd_state = state, nd_terminal = terminal, nd_parent = parent\<rparr>"

record tree =
  mt_nodes :: "node list"
  mt_trunk :: "nat option"
  mt_seed :: seed48

definition lrand :: "tree \<Rightarrow> nat \<times> tree" where
  "lrand t = (let g = next48 (mt_seed t) in (lrand48 g, t\<lparr>mt_seed := g\<rparr>))"

definition drand :: "tree \<Rightarrow> real \<times> tree" where
  "drand t = (let g = next48 (mt_seed t) in (drand48 g, t\<lparr>mt_seed := g\<rparr>))"

definition node_at :: "tree \<Rightarrow> nat \<Rightarrow> node option" where
  "node_at t i = (if i < length (mt_nodes t) then Some (mt_nodes t ! i) else None)"

definition set_node :: "nat \<Rightarrow> node \<Rightarrow> tree \<Rightarrow> tree" where
  "set_node i n t = t\<lparr>mt_nodes := (mt_nodes t)[i := n]\<rparr>"

text \<open>\<open>1 << a\<close> is a shift of a 32-bit integer that is then widened with its sign.\<close>

definition action_bit :: "nat \<Rightarrow> 64 word option" where
  "action_bit a = (if a < 32 then Some (scast (push_bit a 1 :: 32 word)) else None)"

definition expanded :: "node \<Rightarrow> nat \<Rightarrow> bool option" where
  "expanded n a = map_option (\<lambda>b. nd_expanded n AND b \<noteq> 0) (action_bit a)"

text \<open>Adding a child to a node.\<close>

definition node_expand :: "nat \<Rightarrow> nat \<Rightarrow> real \<Rightarrow> dvec \<Rightarrow> real \<Rightarrow> bool \<Rightarrow> tree \<Rightarrow> (nat \<times> tree) option" where
  "node_expand i action tau state reward terminal t =
     do { n \<leftarrow> node_at t i;
          b \<leftarrow> action_bit action;
          let c = length (mt_nodes t);
          let n = n\<lparr>nd_expanded := nd_expanded n OR b, nd_children := nd_children n @ [c]\<rparr>;
          let t = set_node i n t;
          Some (c, t\<lparr>mt_nodes := mt_nodes t @ [node_init (Some i) action tau state reward terminal]\<rparr>) }"

definition node_update :: "real \<Rightarrow> node \<Rightarrow> node" where
  "node_update reward n = n\<lparr>nd_q := nd_q n + reward, nd_visits := nd_visits n + 1\<rparr>"

section \<open>Selection\<close>

text \<open>The first child with the largest value; comparisons with NaN are false.\<close>

fun best_child :: "dbl list \<Rightarrow> nat \<Rightarrow> dbl \<Rightarrow> nat \<Rightarrow> nat" where
  "best_child [] ii best_value best = best"
| "best_child (v # vs) ii best_value best =
     (if d_less best_value v then best_child vs (ii + 1) v ii else best_child vs (ii + 1) best_value best)"

definition mean_value :: "node \<Rightarrow> dbl" where
  "mean_value n = d_div (Fin (nd_q n)) (Fin (real (nd_visits n)))"

text \<open>A node that was never visited has no value.\<close>

definition ucb_value :: "real \<Rightarrow> nat \<Rightarrow> node \<Rightarrow> dbl" where
  "ucb_value exploration state_visits n =
     (if nd_visits n = 0 then NaN
      else Fin (nd_q n / real (nd_visits n) +
                2 * exploration * sqrt (ln (real state_visits) / real (nd_visits n))))"

definition children_of :: "tree \<Rightarrow> node \<Rightarrow> node list option" where
  "children_of t n = those (map (node_at t) (nd_children n))"

definition pick :: "'a list \<Rightarrow> nat \<Rightarrow> 'a option" where
  "pick xs i = (if i < length xs then Some (xs ! i) else None)"

text \<open>\<open>MCTSNode::select\<close> explores at random, \<open>UCTNode::select\<close> with a bonus.\<close>

definition mcts_select :: "real \<Rightarrow> node \<Rightarrow> tree \<Rightarrow> (nat \<times> tree) option" where
  "mcts_select exploration n t =
     (let (u, t) = drand t
      in if u < exploration
         then (let (x, t) = lrand t
               in if nd_children n = [] then None
                  else Some (nd_children n ! (x mod length (nd_children n)), t))
         else do { cs \<leftarrow> children_of t n;
                   i \<leftarrow> pick (nd_children n) (best_child (map mean_value cs) 0 (Inf False) 0);
                   Some (i, t) })"

definition uct_select :: "real \<Rightarrow> node \<Rightarrow> tree \<Rightarrow> (nat \<times> tree) option" where
  "uct_select exploration n t =
     do { cs \<leftarrow> children_of t n;
          let state_visits = sum_list (map nd_visits cs);
          i \<leftarrow> pick (nd_children n) (best_child (map (ucb_value exploration state_visits) cs) 0 (Inf False) 0);
          Some (i, t) }"

section \<open>The policy\<close>

record mcts =
  mc_model :: "dvec \<Rightarrow> dvec \<Rightarrow> prediction"
  mc_disc :: disc
  mc_gamma :: real
  mc_epsilon :: real
  mc_horizon :: nat
  mc_uct :: bool

definition node_select :: "mcts \<Rightarrow> real \<Rightarrow> node \<Rightarrow> tree \<Rightarrow> (nat \<times> tree) option" where
  "node_select mc exploration n t =
     (if mc_uct mc then uct_select exploration n t else mcts_select exploration n t)"

text \<open>The next action that was not expanded, around the circle.\<close>

partial_function (option) fresh_action :: "node \<Rightarrow> nat \<Rightarrow> nat \<Rightarrow> nat option" where
  "fresh_action n sz a =
     do { e \<leftarrow> expanded n a;
          if e then fresh_action n sz ((a + 1) mod sz) else Some a }"

definition choose_action :: "mcts \<Rightarrow> node \<Rightarrow> tree \<Rightarrow> (nat \<times> tree) option" where
  "choose_action mc n t =
     (let sz = d_size (mc_disc mc) (nd_state n)
      in if sz \<le> 64
         then if sz = 0 then None
              else (let (x, t) = lrand t in map_option (\<lambda>a. (a, t)) (fresh_action n sz (x mod sz)))
         else Some (length (nd_children n), t))"

text \<open>The new child, or no child where the model has no prediction.\<close>

definition expand :: "mcts \<Rightarrow> nat \<Rightarrow> tree \<Rightarrow> (nat option \<times> tree) option" where
  "expand mc i t =
     do { n \<leftarrow> node_at t i;
          (a, t) \<leftarrow> choose_action mc n t;
          action \<leftarrow> d_at (mc_disc mc) (nd_state n) a;
          let p = mc_model mc (nd_state n) action;
          if pr_next p = [] then Some (None, t)
          else map_option (\<lambda>(c, t). (Some c, t))
            (node_expand i a (pr_tau p) (pr_next p) (pr_reward p) (pr_terminal p \<noteq> 0) t) }"

fun tree_policy :: "mcts \<Rightarrow> nat \<Rightarrow> nat \<Rightarrow> tree \<Rightarrow> (nat \<times> tree) option" where
  "tree_policy mc 0 i t = Some (i, t)"
| "tree_policy mc (Suc k) i t =
     (case node_at t i of
        None \<Rightarrow> None
      | Some n \<Rightarrow>
          if nd_terminal n then Some (i, t)
          else if length (nd_children n) \<noteq> d_size (mc_disc mc) (nd_state n)
          then map_option (\<lambda>(c, t). (case c of None \<Rightarrow> i | Some c \<Rightarrow> c, t)) (expand mc i t)
          else (case node_select mc (mc_epsilon mc) n t of
                  None \<Rightarrow> None | Some (i, t) \<Rightarrow> tree_policy mc k i t))"

text \<open>A random rollout. When the model gives up, the penalty goes to a variable that is not used again.\<close>

fun default_policy :: "mcts \<Rightarrow> nat \<Rightarrow> dvec \<Rightarrow> real \<Rightarrow> real \<Rightarrow> tree \<Rightarrow> (real \<times> tree) option" where
  "default_policy mc 0 state total_reward time t = Some (total_reward, t)"
| "default_policy mc (Suc k) state total_reward time t =
     (let (x, t) = lrand t; sz = d_size (mc_disc mc) state
      in if sz = 0 then None
         else case d_at (mc_disc mc) state (x mod sz) of
                None \<Rightarrow> None
              | Some action \<Rightarrow>
                  let p = mc_model mc state action
                  in if pr_next p = [] then Some (total_reward, t)
                     else let total_reward = total_reward + c_pow (mc_gamma mc) time * pr_reward p
                          in if pr_terminal p \<noteq> 0 then Some (total_reward, t)
                             else default_policy mc k (pr_next p) total_reward (time + pr_tau p) t)"

text \<open>The number of ancestors.\<close>

partial_function (option) depth_of :: "tree \<Rightarrow> nat \<Rightarrow> nat option" where
  "depth_of t i =
     do { n \<leftarrow> node_at t i;
          case nd_parent n of None \<Rightarrow> Some 0 | Some p \<Rightarrow> do { d \<leftarrow> depth_of t p; Some (Suc d) } }"

partial_function (option) backup :: "mcts \<Rightarrow> nat \<Rightarrow> real \<Rightarrow> tree \<Rightarrow> tree option" where
  "backup mc i reward t =
     do { n \<leftarrow> node_at t i;
          let t = set_node i (node_update reward n) t;
          case nd_parent n of
            None \<Rightarrow> Some t
          | Some p \<Rightarrow> backup mc p (c_pow (mc_gamma mc) (nd_tau n) * reward + nd_reward n) t }"

definition search :: "mcts \<Rightarrow> nat \<Rightarrow> tree \<Rightarrow> tree option" where
  "search mc trunk t =
     do { (i, t) \<leftarrow> tree_policy mc (mc_horizon mc) trunk t;
          depth \<leftarrow> depth_of t i;
          n \<leftarrow> node_at t i;
          (reward, t) \<leftarrow> (if \<not> nd_terminal n \<and> depth < mc_horizon mc
            then default_policy mc (mc_horizon mc - depth) (nd_state n) 0 0 t else Some (0, t));
          backup mc i reward t }"

fun searches :: "mcts \<Rightarrow> nat \<Rightarrow> nat \<Rightarrow> tree \<Rightarrow> tree option" where
  "searches mc trunk 0 t = Some t"
| "searches mc trunk (Suc k) t = do { t \<leftarrow> search mc trunk t; searches mc trunk k t }"

text \<open>The largest difference between the observation and the predicted state.\<close>

definition max_diff :: "dvec \<Rightarrow> dvec \<Rightarrow> real option" where
  "max_diff inp predicted =
     (if length inp \<le> length predicted
      then Some (foldl max 0 (map2 (\<lambda>a b. \<bar>a - b\<bar>) inp predicted)) else None)"

definition clear_tree :: "tree \<Rightarrow> tree" where
  "clear_tree t = t\<lparr>mt_nodes := [], mt_trunk := None\<rparr>"

definition warm_start :: "mcts \<Rightarrow> dvec \<Rightarrow> tree \<Rightarrow> tree option" where
  "warm_start mc inp t =
     (case mt_trunk t of
        None \<Rightarrow> Some t
      | Some i \<Rightarrow>
          do { n \<leftarrow> node_at t i;
               if nd_children n = [] then Some t
               else do { (c, t) \<leftarrow> node_select mc 0 n t;
                         s \<leftarrow> node_at t c;
                         maxdiff \<leftarrow> max_diff inp (nd_state s);
                         Some (if maxdiff < 0.05
                               then (set_node c (s\<lparr>nd_parent := None\<rparr>) t)\<lparr>mt_trunk := Some c\<rparr>
                               else clear_tree t) } })"

definition plant :: "dvec \<Rightarrow> tree \<Rightarrow> nat \<times> tree" where
  "plant inp t =
     (case mt_trunk t of
        Some i \<Rightarrow> (i, t)
      | None \<Rightarrow> (0, t\<lparr>mt_nodes := [node_init None 0 0 inp 0 False], mt_trunk := Some 0\<rparr>))"

definition best_action :: "mcts \<Rightarrow> dvec \<Rightarrow> nat \<Rightarrow> tree \<Rightarrow> (action \<times> tree) option" where
  "best_action mc inp trunk t =
     do { n \<leftarrow> node_at t trunk;
          if nd_children n \<noteq> []
          then do { (c, t) \<leftarrow> node_select mc 0 n t;
                    s \<leftarrow> node_at t c;
                    a \<leftarrow> d_at (mc_disc mc) (nd_state n) (nd_action s);
                    Some (Action a atGreedy, t) }
          else (let (x, t) = lrand t; sz = d_size (mc_disc mc) inp
                in if sz = 0 then None
                   else map_option (\<lambda>a. (Action a atExploratory, t)) (d_at (mc_disc mc) inp (x mod sz))) }"

text \<open>The states along the best fully expanded nodes, as published.\<close>

partial_function (option) trajectory :: "mcts \<Rightarrow> nat \<Rightarrow> tree \<Rightarrow> (dvec list \<times> tree) option" where
  "trajectory mc i t =
     do { n \<leftarrow> node_at t i;
          if length (nd_children n) = d_size (mc_disc mc) (nd_state n)
          then do { (c, t) \<leftarrow> node_select mc 0 n t;
                    (ss, t) \<leftarrow> trajectory mc c t;
                    Some (nd_state n # ss, t) }
          else Some ([], t) }"

text \<open>\<open>act\<close> with the number of searches the budget allows; the trajectory is walked twice.\<close>

definition mcts_act :: "mcts \<Rightarrow> nat \<Rightarrow> real \<Rightarrow> dvec \<Rightarrow> tree \<Rightarrow> (action \<times> tree) option" where
  "mcts_act mc budget time inp t =
     do { t \<leftarrow> warm_start mc inp (if time = 0 then clear_tree t else t);
          let (trunk, t) = plant inp t;
          t \<leftarrow> searches mc trunk budget t;
          (a, t) \<leftarrow> best_action mc inp trunk t;
          (_, t) \<leftarrow> trajectory mc trunk t;
          (_, t) \<leftarrow> trajectory mc trunk t;
          Some (a, t) }"

end
