(* ===== verification/TreeFacts.thy ===== *)
theory TreeFacts
  imports TreeSearch
begin

text \<open>
  Facts about tree search: the shape of the tree is an invariant under which every search and every
  call of \<open>act\<close> returns, each search visits the trunk once, and the value of a child leaves out the
  reward of reaching it.
\<close>

section \<open>Sets of expanded actions\<close>

lemma action_bit_small: "a < 31 \<Longrightarrow> action_bit a = Some (push_bit a 1)"
proof -
  assume a: "a < 31"
  have "scast (push_bit a 1 :: 32 word) = (push_bit a 1 :: 64 word)"
    by (rule bit_word_eqI) (use a in \<open>auto simp: bit_signed_iff push_bit_of_1 bit_exp_iff min_def\<close>)
  then show ?thesis using a by (simp add: action_bit_def)
qed

lemma expanded_small: "a < 31 \<Longrightarrow> expanded n a = Some (bit (nd_expanded n) a)"
  by (simp add: expanded_def action_bit_small push_bit_of_1 and_exp_eq_0_iff_not_bit)

lemma bit_set: "a < 31 \<Longrightarrow> b < 31 \<Longrightarrow> bit ((w :: 64 word) OR push_bit a 1) b \<longleftrightarrow> bit w b \<or> b = a"
  by (auto simp: bit_or_iff push_bit_of_1 bit_exp_iff)

text \<open>The search around the circle ends at an action that is not expanded, if there is one.\<close>

lemma fresh_action_returns:
  assumes "sz \<le> 31" and "a < sz" and "b < sz" and "\<not> bit (nd_expanded n) b"
  shows "\<exists>c. fresh_action n sz a = Some c \<and> c < sz \<and> \<not> bit (nd_expanded n) c"
proof -
  have "\<exists>c. fresh_action n sz a = Some c \<and> c < sz \<and> \<not> bit (nd_expanded n) c"
    if "a < sz" "\<not> bit (nd_expanded n) ((a + k) mod sz)" for a k
    using that
  proof (induction k arbitrary: a)
    case 0
    then show ?case using assms(1) by (subst fresh_action.simps) (simp add: expanded_small)
  next
    case (Suc k)
    have less: "(a + 1) mod sz < sz" using assms(2) by simp
    have "((a + 1) mod sz + k) mod sz = (a + Suc k) mod sz" by (simp add: mod_add_left_eq)
    then have "\<not> bit (nd_expanded n) (((a + 1) mod sz + k) mod sz)" using Suc.prems(2) by simp
    from Suc.IH [OF less this] Suc.prems(1) assms(1) show ?case
      by (subst fresh_action.simps) (simp add: expanded_small)
  qed
  moreover have "(a + (b + sz - a)) mod sz = b" using assms(2,3) by simp
  ultimately show ?thesis using assms(2,4) by metis
qed

section \<open>Well-formed trees\<close>

text \<open>The fields a node's place in the tree rests on.\<close>

definition place :: "node \<Rightarrow> nat option \<times> nat list \<times> nat \<times> 64 word \<times> nat" where
  "place n = (nd_parent n, nd_children n, nd_action n, nd_expanded n, length (nd_state n))"

definition actions_of :: "tree \<Rightarrow> nat \<Rightarrow> nat list" where
  "actions_of t i = map (\<lambda>c. nd_action (mt_nodes t ! c)) (nd_children (mt_nodes t ! i))"

definition node_ok :: "nat \<Rightarrow> nat \<Rightarrow> nat \<Rightarrow> tree \<Rightarrow> nat \<Rightarrow> bool" where
  "node_ok dims sz r t i \<longleftrightarrow>
     length (nd_state (mt_nodes t ! i)) = dims \<and>
     (\<forall>p. nd_parent (mt_nodes t ! i) = Some p \<longrightarrow> p < i) \<and>
     (\<forall>c \<in> set (nd_children (mt_nodes t ! i)). i < c \<and> c < length (mt_nodes t) \<and>
       (r \<le> i \<longrightarrow> nd_parent (mt_nodes t ! c) = Some i)) \<and>
     distinct (actions_of t i) \<and> set (actions_of t i) \<subseteq> {0..<sz} \<and>
     (\<forall>a < sz. bit (nd_expanded (mt_nodes t ! i)) a \<longleftrightarrow> a \<in> set (actions_of t i))"

definition wf_tree :: "nat \<Rightarrow> nat \<Rightarrow> nat \<Rightarrow> tree \<Rightarrow> bool" where
  "wf_tree dims sz r t \<longleftrightarrow> r < length (mt_nodes t) \<and> nd_parent (mt_nodes t ! r) = None \<and>
     (\<forall>i < length (mt_nodes t). node_ok dims sz r t i)"

lemma wf_tree_parent:
  "wf_tree dims sz r t \<Longrightarrow> i < length (mt_nodes t) \<Longrightarrow> nd_parent (mt_nodes t ! i) = Some p \<Longrightarrow> p < i"
  unfolding wf_tree_def node_ok_def by blast

lemma wf_tree_trunk:
  "wf_tree dims sz r t \<Longrightarrow> r < length (mt_nodes t)" "wf_tree dims sz r t \<Longrightarrow> nd_parent (mt_nodes t ! r) = None"
  unfolding wf_tree_def by blast+

lemma wf_tree_child:
  "wf_tree dims sz r t \<Longrightarrow> i < length (mt_nodes t) \<Longrightarrow> c \<in> set (nd_children (mt_nodes t ! i)) \<Longrightarrow>
   i < c \<and> c < length (mt_nodes t) \<and> (r \<le> i \<longrightarrow> nd_parent (mt_nodes t ! c) = Some i)"
  unfolding wf_tree_def node_ok_def by blast

lemma wf_tree_bits:
  "wf_tree dims sz r t \<Longrightarrow> i < length (mt_nodes t) \<Longrightarrow> a < sz \<Longrightarrow>
   bit (nd_expanded (mt_nodes t ! i)) a \<longleftrightarrow> a \<in> set (actions_of t i)"
  unfolding wf_tree_def node_ok_def by blast

lemma wf_tree_dims: "wf_tree dims sz r t \<Longrightarrow> i < length (mt_nodes t) \<Longrightarrow> length (nd_state (mt_nodes t ! i)) = dims"
  unfolding wf_tree_def node_ok_def by blast

lemma place_nth:
  assumes "map place (mt_nodes t') = map place (mt_nodes t)"
  shows "length (mt_nodes t') = length (mt_nodes t)"
    and "i < length (mt_nodes t) \<Longrightarrow> place (mt_nodes t' ! i) = place (mt_nodes t ! i)"
proof -
  show len: "length (mt_nodes t') = length (mt_nodes t)" using assms by (rule map_eq_imp_length_eq)
  show "i < length (mt_nodes t) \<Longrightarrow> place (mt_nodes t' ! i) = place (mt_nodes t ! i)"
    using assms len by (metis nth_map)
qed

lemma wf_tree_place:
  assumes "wf_tree dims sz r t" and "map place (mt_nodes t') = map place (mt_nodes t)"
  shows "wf_tree dims sz r t'"
proof -
  note len = place_nth(1) [OF assms(2)]
  have eq: "nd_parent (mt_nodes t' ! i) = nd_parent (mt_nodes t ! i)"
      "nd_children (mt_nodes t' ! i) = nd_children (mt_nodes t ! i)"
      "nd_action (mt_nodes t' ! i) = nd_action (mt_nodes t ! i)"
      "nd_expanded (mt_nodes t' ! i) = nd_expanded (mt_nodes t ! i)"
      "length (nd_state (mt_nodes t' ! i)) = length (nd_state (mt_nodes t ! i))" if "i < length (mt_nodes t)" for i
    using place_nth(2) [OF assms(2) that] by (simp_all add: place_def)
  have "node_ok dims sz r t' i" if i: "i < length (mt_nodes t)" for i
  proof -
    have ok: "node_ok dims sz r t i" using assms(1) i by (simp add: wf_tree_def)
    then have "actions_of t' i = actions_of t i" using eq(2,3) i by (auto simp: actions_of_def node_ok_def)
    then show ?thesis using ok eq i len by (auto simp: node_ok_def)
  qed
  then show ?thesis using assms(1) eq(1) len by (simp add: wf_tree_def)
qed

lemma wf_tree_nodes: "wf_tree dims sz r t \<Longrightarrow> mt_nodes t' = mt_nodes t \<Longrightarrow> wf_tree dims sz r t'"
  by (erule wf_tree_place) simp

lemma wf_tree_fewer:
  assumes "wf_tree dims sz r t" and "i < length (mt_nodes t)"
  shows "length (nd_children (mt_nodes t ! i)) \<le> sz"
    and "length (nd_children (mt_nodes t ! i)) \<noteq> sz \<Longrightarrow> \<exists>a < sz. \<not> bit (nd_expanded (mt_nodes t ! i)) a"
proof -
  have ok: "distinct (actions_of t i)" "set (actions_of t i) \<subseteq> {0..<sz}"
    and bits: "\<forall>a < sz. bit (nd_expanded (mt_nodes t ! i)) a \<longleftrightarrow> a \<in> set (actions_of t i)"
    using assms unfolding wf_tree_def node_ok_def by blast+
  have len: "length (actions_of t i) = length (nd_children (mt_nodes t ! i))" by (simp add: actions_of_def)
  have card: "card (set (actions_of t i)) = length (nd_children (mt_nodes t ! i))"
    using distinct_card [OF ok(1)] len by simp
  show "length (nd_children (mt_nodes t ! i)) \<le> sz" using card_mono [OF _ ok(2)] card by simp
  assume "length (nd_children (mt_nodes t ! i)) \<noteq> sz"
  then have "set (actions_of t i) \<noteq> {0..<sz}" using card by (metis card_atLeastLessThan diff_zero)
  then obtain a where "a < sz" "a \<notin> set (actions_of t i)" using ok(2) by (metis atLeastLessThan_iff subsetI subset_antisym zero_le)
  then show "\<exists>a < sz. \<not> bit (nd_expanded (mt_nodes t ! i)) a" using bits by blast
qed

lemma node_at_Some [simp]: "i < length (mt_nodes t) \<Longrightarrow> node_at t i = Some (mt_nodes t ! i)"
  by (simp add: node_at_def)

lemma random_nodes [simp]:
  "mt_nodes (snd (lrand t)) = mt_nodes t" "mt_nodes (snd (drand t)) = mt_nodes t"
  "mt_trunk (snd (lrand t)) = mt_trunk t" "mt_trunk (snd (drand t)) = mt_trunk t"
  by (simp_all add: lrand_def drand_def Let_def)

section \<open>Ancestors\<close>

inductive under :: "tree \<Rightarrow> nat \<Rightarrow> nat \<Rightarrow> bool" for t :: tree and r :: nat where
  here: "under t r r"
| below: "under t r p \<Longrightarrow> i < length (mt_nodes t) \<Longrightarrow> nd_parent (mt_nodes t ! i) = Some p \<Longrightarrow> under t r i"

inductive_cases under_elim: "under t r i"

lemma under_length: "under t r i \<Longrightarrow> r < length (mt_nodes t) \<Longrightarrow> i < length (mt_nodes t)"
  by (erule under.cases) auto

lemma under_above: "under t r i \<Longrightarrow> wf_tree dims sz r t \<Longrightarrow> r \<le> i"
proof (induction rule: under.induct)
  case (below p i)
  then have "p < i" using wf_tree_parent by blast
  then show ?case using below by simp
qed simp

lemma under_mono:
  assumes "under t r i" and "length (mt_nodes t) \<le> length (mt_nodes t')"
    and "\<And>i. i < length (mt_nodes t) \<Longrightarrow> nd_parent (mt_nodes t' ! i) = nd_parent (mt_nodes t ! i)"
  shows "under t' r i"
  using assms(1)
proof (induction rule: under.induct)
  case here
  show ?case by (rule under.here)
next
  case (below p i)
  show ?case
  proof (rule under.below [OF below.IH])
    show "i < length (mt_nodes t')" using below.hyps(2) assms(2) by simp
    show "nd_parent (mt_nodes t' ! i) = Some p" using below.hyps(2,3) assms(3) by simp
  qed
qed

lemma under_place:
  assumes "under t r i" and "map place (mt_nodes t') = map place (mt_nodes t)"
  shows "under t' r i"
proof (rule under_mono [OF assms(1)])
  show "length (mt_nodes t) \<le> length (mt_nodes t')" using place_nth(1) [OF assms(2)] by simp
  show "nd_parent (mt_nodes t' ! i) = nd_parent (mt_nodes t ! i)" if "i < length (mt_nodes t)" for i
    using place_nth(2) [OF assms(2) that] by (simp add: place_def)
qed

lemma depth_of_returns:
  assumes "wf_tree dims sz r t" and "i < length (mt_nodes t)"
  shows "\<exists>d. depth_of t i = Some d"
  using assms(2)
proof (induction i rule: less_induct)
  case (less i)
  show ?case
  proof (cases "nd_parent (mt_nodes t ! i)")
    case None
    then show ?thesis using less.prems by (subst depth_of.simps) simp
  next
    case (Some p)
    then have "p < i" using assms(1) less.prems wf_tree_parent by blast
    with less.IH [of p] less.prems obtain d where "depth_of t p = Some d" by fastforce
    then show ?thesis using less.prems Some by (subst depth_of.simps) simp
  qed
qed

lemma set_node_update:
  assumes "i < length (mt_nodes t)"
  shows "map place (mt_nodes (set_node i (node_update x (mt_nodes t ! i)) t)) = map place (mt_nodes t)"
    and "mt_trunk (set_node i n t) = mt_trunk t" and "mt_seed (set_node i n t) = mt_seed t"
    and "mt_nodes (set_node i n t) = (mt_nodes t)[i := n]"
proof -
  have "place (node_update x n) = place n" for n by (simp add: place_def node_update_def)
  then show "map place (mt_nodes (set_node i (node_update x (mt_nodes t ! i)) t)) = map place (mt_nodes t)"
    by (simp add: set_node_def map_update) (metis list_update_id map_update)
qed (simp_all add: set_node_def)

text \<open>Backing up visits the trunk once and leaves the shape of the tree.\<close>

lemma backup_returns:
  assumes "wf_tree dims sz r t" and "under t r i"
  shows "\<exists>t'. backup mc i x t = Some t' \<and> map place (mt_nodes t') = map place (mt_nodes t) \<and>
    mt_trunk t' = mt_trunk t \<and> nd_visits (mt_nodes t' ! r) = nd_visits (mt_nodes t ! r) + 1"
  using assms
proof (induction i arbitrary: t x rule: less_induct)
  case (less i)
  have r: "r < length (mt_nodes t)" by (rule wf_tree_trunk(1) [OF less.prems(1)])
  have i: "i < length (mt_nodes t)" using under_length [OF less.prems(2) r] .
  define t1 where "t1 = set_node i (node_update x (mt_nodes t ! i)) t"
  note same = set_node_update(1) [OF i, of x, folded t1_def]
  have trunk: "mt_trunk t1 = mt_trunk t" by (simp add: t1_def set_node_def)
  show ?case
  proof (cases "nd_parent (mt_nodes t ! i)")
    case None
    from less.prems(2) None have "i = r" by (cases rule: under.cases) auto
    then show ?thesis using None i same trunk
      by (subst backup.simps) (simp add: t1_def set_node_def node_update_def Let_def)
  next
    case (Some p)
    then have "i \<noteq> r" using wf_tree_trunk(2) [OF less.prems(1)] by auto
    from less.prems(2) Some this have p: "under t r p" by (cases rule: under.cases) auto
    have "p < i" by (rule wf_tree_parent [OF less.prems(1) i Some])
    from less.IH [OF this wf_tree_place [OF less.prems(1) same] under_place [OF p same]]
    obtain t' where t': "backup mc p (c_pow (mc_gamma mc) (nd_tau (mt_nodes t ! i)) * x + nd_reward (mt_nodes t ! i)) t1 = Some t'"
      "map place (mt_nodes t') = map place (mt_nodes t1)" "mt_trunk t' = mt_trunk t1"
      "nd_visits (mt_nodes t' ! r) = nd_visits (mt_nodes t1 ! r) + 1" by blast
    have "mt_nodes t1 ! r = mt_nodes t ! r" using \<open>i \<noteq> r\<close> by (simp add: t1_def set_node_def)
    then show ?thesis using t' Some i same trunk
      by (subst backup.simps) (simp add: t1_def [symmetric] Let_def)
  qed
qed

section \<open>Planning\<close>

text \<open>The assumptions on the parts a planner is made of: between 1 and 31 actions in every state, and
  predictions of the size of states.\<close>

definition planner_ok :: "nat \<Rightarrow> nat \<Rightarrow> mcts \<Rightarrow> bool" where
  "planner_ok dims sz mc \<longleftrightarrow> 0 < sz \<and> sz \<le> 31 \<and> (\<forall>s. d_size (mc_disc mc) s = sz) \<and>
     (\<forall>s a. a < sz \<longrightarrow> d_at (mc_disc mc) s a \<noteq> None) \<and>
     (\<forall>s a. pr_next (mc_model mc s a) = [] \<or> length (pr_next (mc_model mc s a)) = dims)"

lemma planner_action:
  assumes "planner_ok dims sz mc" and "a < sz"
  obtains act where "d_at (mc_disc mc) s a = Some act"
  using assms unfolding planner_ok_def by blast

lemma wf_expand:
  assumes "wf_tree dims sz r t" and "i < length (mt_nodes t)" and "sz \<le> 31" and "a < sz"
    and "\<not> bit (nd_expanded (mt_nodes t ! i)) a" and "length state = dims" and "r \<le> i"
  shows "\<exists>t'. node_expand i a tau state reward terminal t = Some (length (mt_nodes t), t') \<and> wf_tree dims sz r t' \<and>
    mt_trunk t' = mt_trunk t \<and> length (mt_nodes t') = length (mt_nodes t) + 1 \<and>
    nd_parent (mt_nodes t' ! length (mt_nodes t)) = Some i \<and>
    (\<forall>j < length (mt_nodes t). nd_parent (mt_nodes t' ! j) = nd_parent (mt_nodes t ! j) \<and>
      nd_visits (mt_nodes t' ! j) = nd_visits (mt_nodes t ! j))"
proof -
  let ?N = "mt_nodes t" and ?c = "length (mt_nodes t)"
  define n where "n = (?N ! i)\<lparr>nd_expanded := nd_expanded (?N ! i) OR push_bit a 1, nd_children := nd_children (?N ! i) @ [?c]\<rparr>"
  define new where "new = node_init (Some i) a tau state reward terminal"
  define t' where "t' = t\<lparr>mt_nodes := ?N[i := n] @ [new]\<rparr>"
  have "node_expand i a tau state reward terminal t = Some (?c, t')"
    using assms(2-4) by (simp add: node_expand_def action_bit_small Let_def set_node_def t'_def n_def new_def)
  moreover
  have old: "mt_nodes t' ! j = (if j = i then n else ?N ! j)" if "j < ?c" for j
    using that assms(2) by (simp add: t'_def nth_append)
  have last: "mt_nodes t' ! ?c = new" and len: "length (mt_nodes t') = ?c + 1" by (simp_all add: t'_def nth_append)
  have ok: "node_ok dims sz r t j" if "j < ?c" for j using assms(1) that by (simp add: wf_tree_def)
  have act: "nd_action (mt_nodes t' ! c) = nd_action (?N ! c)" "nd_parent (mt_nodes t' ! c) = nd_parent (?N ! c)" if "c < ?c" for c
    using old [OF that] by (simp_all add: n_def)
  have actions: "actions_of t' j = actions_of t j @ (if j = i then [a] else [])" if j: "j < ?c" for j
  proof -
    have "c < ?c" if "c \<in> set (nd_children (?N ! j))" for c using ok [OF j] that by (simp add: node_ok_def)
    then have "map (\<lambda>c. nd_action (mt_nodes t' ! c)) (nd_children (?N ! j)) = actions_of t j"
      by (simp add: actions_of_def act)
    then show ?thesis using old [OF j] by (simp add: actions_of_def n_def last new_def node_init_def)
  qed
  have fresh: "a \<notin> set (actions_of t i)" using ok [OF assms(2)] assms(4,5) by (simp add: node_ok_def)
  have "node_ok dims sz r t' j" if "j < ?c + 1" for j
  proof (cases "j = ?c")
    case True
    then show ?thesis using assms(2,6) last by (simp add: node_ok_def actions_of_def new_def node_init_def)
  next
    case False
    then have j: "j < ?c" using that by simp
    note okj = ok [OF j, unfolded node_ok_def]
    have bits: "bit (nd_expanded n) b \<longleftrightarrow> bit (nd_expanded (?N ! i)) b \<or> b = a" if "b < sz" for b
      using that assms(3,4) bit_set [of a b] by (simp add: n_def del: push_bit_of_1)
    show ?thesis
    proof (cases "j = i")
      case True
      have "\<forall>c \<in> set (nd_children n). i < c \<and> c < ?c + 1 \<and> (r \<le> i \<longrightarrow> nd_parent (mt_nodes t' ! c) = Some i)"
        using okj True assms(2) act(2) by (auto simp: n_def last new_def node_init_def less_Suc_eq)
      then show ?thesis using okj True old [OF j] actions [OF j] fresh assms(4) bits len
        by (simp add: node_ok_def) (auto simp: n_def)
    next
      case False
      then show ?thesis using okj old [OF j] actions [OF j] len act(2)
        by (auto simp: node_ok_def less_Suc_eq)
    qed
  qed
  then have "wf_tree dims sz r t'" using assms(1) len act(2) by (simp add: wf_tree_def)
  moreover have "mt_trunk t' = mt_trunk t" by (simp add: t'_def)
  moreover have "nd_visits (mt_nodes t' ! j) = nd_visits (?N ! j)" if "j < ?c" for j
    using old [OF that] by (simp add: n_def)
  ultimately show ?thesis using len last act(2) by (simp add: new_def node_init_def)
qed

section \<open>Selection\<close>

lemma best_child_less: "best < ii + length vs \<Longrightarrow> best_child vs ii x best < ii + length vs"
  by (induction vs ii x best rule: best_child.induct) auto

lemma those_map: "(\<And>x. x \<in> set xs \<Longrightarrow> f x = Some (g x)) \<Longrightarrow> those (map f xs) = Some (map g xs)"
  by (induction xs) auto

lemma children_returns:
  assumes "wf_tree dims sz r t" and "i < length (mt_nodes t)"
  shows "children_of t (mt_nodes t ! i) = Some (map ((!) (mt_nodes t)) (nd_children (mt_nodes t ! i)))"
  unfolding children_of_def using wf_tree_child [OF assms] by (intro those_map) simp

text \<open>Selecting a child changes at most the random numbers.\<close>

lemma node_select_returns:
  assumes "wf_tree dims sz r t" and "i < length (mt_nodes t)" and "nd_children (mt_nodes t ! i) \<noteq> []"
  shows "\<exists>c t'. node_select mc x (mt_nodes t ! i) t = Some (c, t') \<and> c \<in> set (nd_children (mt_nodes t ! i)) \<and>
    mt_nodes t' = mt_nodes t \<and> mt_trunk t' = mt_trunk t"
proof -
  let ?n = "mt_nodes t ! i"
  have pick: "\<exists>c. pick (nd_children ?n) (best_child (map f (map ((!) (mt_nodes t)) (nd_children ?n))) 0 y 0) = Some c \<and>
      c \<in> set (nd_children ?n)" for f y
    using best_child_less [of 0 0 "map f (map ((!) (mt_nodes t)) (nd_children ?n))" y] assms(3)
    by (simp add: pick_def)
  obtain u t1 where u: "drand t = (u, t1)" "mt_nodes t1 = mt_nodes t" "mt_trunk t1 = mt_trunk t"
    by (simp add: drand_def Let_def)
  obtain v t2 where v: "lrand t1 = (v, t2)" "mt_nodes t2 = mt_nodes t" "mt_trunk t2 = mt_trunk t"
    using u by (simp add: lrand_def Let_def)
  have "wf_tree dims sz r t1" by (rule wf_tree_nodes [OF assms(1) u(2)])
  from children_returns [OF this] assms(2) u(2)
  have cs1: "children_of t1 ?n = Some (map ((!) (mt_nodes t)) (nd_children ?n))" by simp
  show ?thesis
  proof (cases "mc_uct mc")
    case True
    let ?v = "ucb_value x (sum_list (map nd_visits (map ((!) (mt_nodes t)) (nd_children ?n))))"
    obtain c where "pick (nd_children ?n) (best_child (map ?v (map ((!) (mt_nodes t)) (nd_children ?n))) 0 (Inf False) 0) = Some c"
      "c \<in> set (nd_children ?n)" using pick by blast
    then show ?thesis using True children_returns [OF assms(1,2)]
      by (simp add: node_select_def uct_select_def Let_def del: map_map)
  next
    case False
    obtain c where c: "pick (nd_children ?n) (best_child (map mean_value (map ((!) (mt_nodes t)) (nd_children ?n))) 0 (Inf False) 0) = Some c"
      "c \<in> set (nd_children ?n)" using pick by blast
    have "nd_children ?n ! (v mod length (nd_children ?n)) \<in> set (nd_children ?n)" using assms(3) by simp
    then show ?thesis using False u v cs1 c assms(3)
      by (cases "u < x") (simp_all add: node_select_def mcts_select_def del: map_map)
  qed
qed

section \<open>A search\<close>

lemma choose_action_returns:
  assumes "planner_ok dims sz mc" and "wf_tree dims sz r t" and "i < length (mt_nodes t)"
    and "length (nd_children (mt_nodes t ! i)) \<noteq> sz"
  shows "\<exists>a t'. choose_action mc (mt_nodes t ! i) t = Some (a, t') \<and> a < sz \<and>
    \<not> bit (nd_expanded (mt_nodes t ! i)) a \<and> mt_nodes t' = mt_nodes t \<and> mt_trunk t' = mt_trunk t"
proof -
  have sz: "0 < sz" "sz \<le> 31" "d_size (mc_disc mc) (nd_state (mt_nodes t ! i)) = sz"
    using assms(1) by (simp_all add: planner_ok_def)
  obtain x t1 where x: "lrand t = (x, t1)" "mt_nodes t1 = mt_nodes t" "mt_trunk t1 = mt_trunk t"
    by (simp add: lrand_def Let_def)
  obtain b where b: "b < sz" "\<not> bit (nd_expanded (mt_nodes t ! i)) b"
    using wf_tree_fewer(2) [OF assms(2,3,4)] by blast
  have "x mod sz < sz" using sz(1) by simp
  from fresh_action_returns [OF sz(2) this b] sz x show ?thesis
    by (fastforce simp: choose_action_def Let_def)
qed

text \<open>What a step of the tree policy keeps.\<close>

definition grown :: "nat \<Rightarrow> nat \<Rightarrow> nat \<Rightarrow> tree \<Rightarrow> nat \<Rightarrow> tree \<Rightarrow> bool" where
  "grown dims sz r t i t' \<longleftrightarrow> wf_tree dims sz r t' \<and> under t' r i \<and> mt_trunk t' = mt_trunk t \<and>
     nd_visits (mt_nodes t' ! r) = nd_visits (mt_nodes t ! r) \<and>
     length (mt_nodes t) \<le> length (mt_nodes t') \<and> length (mt_nodes t') \<le> length (mt_nodes t) + 1"

lemma grown_nodes:
  "wf_tree dims sz r t \<Longrightarrow> under t r i \<Longrightarrow> mt_nodes t' = mt_nodes t \<Longrightarrow> mt_trunk t' = mt_trunk t \<Longrightarrow> grown dims sz r t i t'"
  using wf_tree_nodes under_place by (simp add: grown_def)

lemma expand_returns:
  assumes "planner_ok dims sz mc" and "wf_tree dims sz r t" and "under t r i"
    and "length (nd_children (mt_nodes t ! i)) \<noteq> sz"
  shows "\<exists>c t'. expand mc i t = Some (c, t') \<and> grown dims sz r t (case c of None \<Rightarrow> i | Some c \<Rightarrow> c) t'"
proof -
  have i: "i < length (mt_nodes t)" using under_length [OF assms(3) wf_tree_trunk(1) [OF assms(2)]] .
  have sz: "sz \<le> 31" using assms(1) by (simp add: planner_ok_def)
  from choose_action_returns [OF assms(1,2) i assms(4)] obtain a t1 where
    a: "choose_action mc (mt_nodes t ! i) t = Some (a, t1)" "a < sz" "\<not> bit (nd_expanded (mt_nodes t ! i)) a"
    "mt_nodes t1 = mt_nodes t" "mt_trunk t1 = mt_trunk t" by blast
  obtain act where act: "d_at (mc_disc mc) (nd_state (mt_nodes t ! i)) a = Some act"
    by (rule planner_action [OF assms(1) a(2)])
  let ?p = "mc_model mc (nd_state (mt_nodes t ! i)) act"
  have wf1: "wf_tree dims sz r t1" by (rule wf_tree_nodes [OF assms(2) a(4)])
  have un1: "under t1 r i" using under_place [OF assms(3)] a(4) by simp
  show ?thesis
  proof (cases "pr_next ?p = []")
    case True
    then show ?thesis using a act i grown_nodes [OF assms(2,3) a(4,5)] by (simp add: expand_def Let_def)
  next
    case False
    then have dims: "length (pr_next ?p) = dims" using assms(1) unfolding planner_ok_def by blast
    have ri: "r \<le> i" by (rule under_above [OF assms(3,2)])
    from wf_expand [OF wf1 _ sz a(2) _ dims ri, of "pr_tau ?p" "pr_reward ?p" "pr_terminal ?p \<noteq> 0"] i a(3,4) obtain t' where
      t': "node_expand i a (pr_tau ?p) (pr_next ?p) (pr_reward ?p) (pr_terminal ?p \<noteq> 0) t1 = Some (length (mt_nodes t1), t')"
      "wf_tree dims sz r t'" "mt_trunk t' = mt_trunk t1" "length (mt_nodes t') = length (mt_nodes t1) + 1"
      "nd_parent (mt_nodes t' ! length (mt_nodes t1)) = Some i"
      "\<forall>j < length (mt_nodes t1). nd_parent (mt_nodes t' ! j) = nd_parent (mt_nodes t1 ! j) \<and>
        nd_visits (mt_nodes t' ! j) = nd_visits (mt_nodes t1 ! j)" by auto
    have "under t' r i" using t'(4,6) by (intro under_mono [OF un1]) simp_all
    then have "under t' r (length (mt_nodes t1))" by (rule under.below) (use t'(4,5) in simp_all)
    moreover have "r < length (mt_nodes t1)" by (rule wf_tree_trunk(1) [OF wf1])
    ultimately have "grown dims sz r t (length (mt_nodes t1)) t'" using t' a(4,5) by (simp add: grown_def)
    then show ?thesis using False a(1,4) act i t'(1) by (simp add: expand_def Let_def)
  qed
qed

lemma tree_policy_returns:
  assumes "planner_ok dims sz mc" and "wf_tree dims sz r t" and "under t r i"
  shows "\<exists>j t'. tree_policy mc k i t = Some (j, t') \<and> grown dims sz r t j t'"
  using assms(2,3)
proof (induction k arbitrary: i t)
  case 0
  then show ?case using grown_nodes by simp
next
  case (Suc k)
  let ?n = "mt_nodes t ! i"
  have i: "i < length (mt_nodes t)" using under_length [OF Suc.prems(2) wf_tree_trunk(1) [OF Suc.prems(1)]] .
  have sz: "d_size (mc_disc mc) (nd_state ?n) = sz" "0 < sz" using assms(1) by (simp_all add: planner_ok_def)
  consider "nd_terminal ?n" | "\<not> nd_terminal ?n" "length (nd_children ?n) \<noteq> sz"
    | "\<not> nd_terminal ?n" "length (nd_children ?n) = sz" by blast
  then show ?case
  proof cases
    case 1
    then show ?thesis using i grown_nodes [OF Suc.prems] by simp
  next
    case 2
    from expand_returns [OF assms(1) Suc.prems 2(2)] obtain c t' where
      "expand mc i t = Some (c, t')" "grown dims sz r t (case c of None \<Rightarrow> i | Some c \<Rightarrow> c) t'" by blast
    then show ?thesis using 2 i sz by simp
  next
    case 3
    then have "nd_children ?n \<noteq> []" using sz(2) by auto
    from node_select_returns [OF Suc.prems(1) i this, of mc "mc_epsilon mc"] obtain c t1 where
      c: "node_select mc (mc_epsilon mc) ?n t = Some (c, t1)" "c \<in> set (nd_children ?n)"
      "mt_nodes t1 = mt_nodes t" "mt_trunk t1 = mt_trunk t" by blast
    note child = wf_tree_child [OF Suc.prems(1) i c(2)]
    have "r \<le> i" by (rule under_above [OF Suc.prems(2,1)])
    then have "under t r c" using child Suc.prems(2) by (intro under.below [of t r i c]) simp_all
    then have un1: "under t1 r c" using under_place c(3) by simp
    from Suc.IH [OF wf_tree_nodes [OF Suc.prems(1) c(3)] un1] obtain j t' where
      "tree_policy mc k c t1 = Some (j, t')" "grown dims sz r t1 j t'" by blast
    then show ?thesis using 3 i sz c by (simp add: grown_def)
  qed
qed

lemma default_policy_returns:
  assumes "planner_ok dims sz mc"
  shows "\<exists>x t'. default_policy mc k s total_reward time t = Some (x, t') \<and> mt_nodes t' = mt_nodes t \<and> mt_trunk t' = mt_trunk t"
proof (induction k arbitrary: s total_reward time t)
  case (Suc k)
  have sz: "d_size (mc_disc mc) s = sz" "0 < sz" using assms by (simp_all add: planner_ok_def)
  obtain x t1 where x: "lrand t = (x, t1)" "mt_nodes t1 = mt_nodes t" "mt_trunk t1 = mt_trunk t"
    by (simp add: lrand_def Let_def)
  have "x mod sz < sz" using sz(2) by simp
  then obtain act where "d_at (mc_disc mc) s (x mod sz) = Some act" by (rule planner_action [OF assms])
  then show ?case using sz x Suc.IH [of "pr_next (mc_model mc s act)" _ _ t1] by (simp add: Let_def)
qed simp

lemma search_returns:
  assumes "planner_ok dims sz mc" and "wf_tree dims sz r t"
  shows "\<exists>t'. search mc r t = Some t' \<and> wf_tree dims sz r t' \<and> mt_trunk t' = mt_trunk t \<and>
    nd_visits (mt_nodes t' ! r) = nd_visits (mt_nodes t ! r) + 1 \<and>
    length (mt_nodes t) \<le> length (mt_nodes t') \<and> length (mt_nodes t') \<le> length (mt_nodes t) + 1"
proof -
  from tree_policy_returns [OF assms under.here] obtain i t1 where
    t1: "tree_policy mc (mc_horizon mc) r t = Some (i, t1)" and g: "grown dims sz r t i t1" by blast
  have wf1: "wf_tree dims sz r t1" and un1: "under t1 r i" using g by (simp_all add: grown_def)
  have i: "i < length (mt_nodes t1)" using under_length [OF un1 wf_tree_trunk(1) [OF wf1]] .
  obtain d where d: "depth_of t1 i = Some d" using depth_of_returns [OF wf1 i] by blast
  define roll where "roll = (if \<not> nd_terminal (mt_nodes t1 ! i) \<and> d < mc_horizon mc
      then default_policy mc (mc_horizon mc - d) (nd_state (mt_nodes t1 ! i)) 0 0 t1 else Some (0, t1))"
  have "\<exists>x t2. roll = Some (x, t2) \<and> mt_nodes t2 = mt_nodes t1 \<and> mt_trunk t2 = mt_trunk t1"
    unfolding roll_def using default_policy_returns [OF assms(1), of "mc_horizon mc - d"] by simp
  then obtain x t2 where t2: "roll = Some (x, t2)" "mt_nodes t2 = mt_nodes t1" "mt_trunk t2 = mt_trunk t1" by blast
  have wf2: "wf_tree dims sz r t2" by (rule wf_tree_nodes [OF wf1 t2(2)])
  have un2: "under t2 r i" using under_place [OF un1] t2(2) by simp
  from backup_returns [OF wf2 un2, of mc x] obtain t3 where
    t3: "backup mc i x t2 = Some t3" "map place (mt_nodes t3) = map place (mt_nodes t2)" "mt_trunk t3 = mt_trunk t2"
    "nd_visits (mt_nodes t3 ! r) = nd_visits (mt_nodes t2 ! r) + 1" by blast
  have "search mc r t = Some t3" using t1 d i t2(1) t3(1) by (simp add: search_def roll_def)
  moreover have "wf_tree dims sz r t3" by (rule wf_tree_place [OF wf2 t3(2)])
  ultimately show ?thesis using g t2 t3 place_nth(1) [OF t3(2)] by (simp add: grown_def)
qed

lemma searches_return:
  assumes "planner_ok dims sz mc" and "wf_tree dims sz r t"
  shows "\<exists>t'. searches mc r k t = Some t' \<and> wf_tree dims sz r t' \<and> mt_trunk t' = mt_trunk t \<and>
    nd_visits (mt_nodes t' ! r) = nd_visits (mt_nodes t ! r) + k \<and> length (mt_nodes t') \<le> length (mt_nodes t) + k"
  using assms(2)
proof (induction k arbitrary: t)
  case (Suc k)
  from search_returns [OF assms(1) Suc.prems] obtain t1 where t1: "search mc r t = Some t1" "wf_tree dims sz r t1"
    "mt_trunk t1 = mt_trunk t" "nd_visits (mt_nodes t1 ! r) = nd_visits (mt_nodes t ! r) + 1"
    "length (mt_nodes t1) \<le> length (mt_nodes t) + 1" by blast
  from Suc.IH [OF t1(2)] obtain t' where "searches mc r k t1 = Some t'" "wf_tree dims sz r t'"
    "mt_trunk t' = mt_trunk t1" "nd_visits (mt_nodes t' ! r) = nd_visits (mt_nodes t1 ! r) + k"
    "length (mt_nodes t') \<le> length (mt_nodes t1) + k" by blast
  then show ?case using t1 by simp
qed simp

section \<open>Acting\<close>

definition tree_ok :: "nat \<Rightarrow> nat \<Rightarrow> tree \<Rightarrow> bool" where
  "tree_ok dims sz t \<longleftrightarrow> (case mt_trunk t of None \<Rightarrow> True | Some r \<Rightarrow> wf_tree dims sz r t)"

text \<open>The chosen child becomes the trunk of a tree of its own.\<close>

lemma wf_orphan:
  assumes "wf_tree dims sz r t" and "c \<in> set (nd_children (mt_nodes t ! r))"
  shows "wf_tree dims sz c (set_node c ((mt_nodes t ! c)\<lparr>nd_parent := None\<rparr>) t)"
proof -
  let ?t = "set_node c ((mt_nodes t ! c)\<lparr>nd_parent := None\<rparr>) t"
  note c = wf_tree_child [OF assms(1) wf_tree_trunk(1) [OF assms(1)] assms(2)]
  have same: "nd_children (mt_nodes ?t ! i) = nd_children (mt_nodes t ! i)" "nd_action (mt_nodes ?t ! i) = nd_action (mt_nodes t ! i)"
    "nd_expanded (mt_nodes ?t ! i) = nd_expanded (mt_nodes t ! i)" "nd_state (mt_nodes ?t ! i) = nd_state (mt_nodes t ! i)"
    "nd_parent (mt_nodes ?t ! i) = (if i = c then None else nd_parent (mt_nodes t ! i))" for i
    using c by (cases "i = c"; simp add: set_node_def)+
  have len: "length (mt_nodes ?t) = length (mt_nodes t)" by (simp add: set_node_def)
  have "node_ok dims sz c ?t i" if i: "i < length (mt_nodes t)" for i
  proof -
    have acts: "actions_of ?t i = actions_of t i" by (simp add: actions_of_def same)
    have "node_ok dims sz r t i" using assms(1) i by (simp add: wf_tree_def)
    then have old: "length (nd_state (mt_nodes t ! i)) = dims" "distinct (actions_of t i)" "set (actions_of t i) \<subseteq> {0..<sz}"
      "\<forall>a < sz. bit (nd_expanded (mt_nodes t ! i)) a \<longleftrightarrow> a \<in> set (actions_of t i)" unfolding node_ok_def by blast+
    have parent: "\<forall>p. nd_parent (mt_nodes ?t ! i) = Some p \<longrightarrow> p < i" using wf_tree_parent [OF assms(1) i] by (simp add: same)
    have "\<forall>d \<in> set (nd_children (mt_nodes ?t ! i)). i < d \<and> d < length (mt_nodes ?t) \<and>
        (c \<le> i \<longrightarrow> nd_parent (mt_nodes ?t ! d) = Some i)"
      using wf_tree_child [OF assms(1) i] c len by (auto simp: same)
    with old parent acts show ?thesis by (simp add: node_ok_def same)
  qed
  then show ?thesis using c len same(5) by (simp add: wf_tree_def)
qed

lemma warm_start_ok:
  assumes "planner_ok dims sz mc" and "tree_ok dims sz t" and "length inp = dims"
  shows "\<exists>t'. warm_start mc inp t = Some t' \<and> tree_ok dims sz t'"
proof (cases "mt_trunk t")
  case None
  then show ?thesis using assms(2) by (simp add: warm_start_def)
next
  case (Some r)
  have wf: "wf_tree dims sz r t" using assms(2) Some by (simp add: tree_ok_def)
  note r = wf_tree_trunk(1) [OF wf]
  show ?thesis
  proof (cases "nd_children (mt_nodes t ! r) = []")
    case True
    then show ?thesis using Some r assms(2) by (simp add: warm_start_def)
  next
    case False
    from node_select_returns [OF wf r False, of mc 0] obtain c t1 where
      c: "node_select mc 0 (mt_nodes t ! r) t = Some (c, t1)" "c \<in> set (nd_children (mt_nodes t ! r))"
      "mt_nodes t1 = mt_nodes t" by blast
    have len: "c < length (mt_nodes t)" using wf_tree_child [OF wf r c(2)] by simp
    have wf1: "wf_tree dims sz r t1" by (rule wf_tree_nodes [OF wf c(3)])
    let ?s = "mt_nodes t1 ! c"
    obtain d where d: "max_diff inp (nd_state ?s) = Some d"
      using wf_tree_dims [OF wf len] assms(3) c(3) by (simp add: max_diff_def)
    have "wf_tree dims sz c (set_node c (?s\<lparr>nd_parent := None\<rparr>) t1)" using wf_orphan [OF wf1] c(2,3) by simp
    then have "wf_tree dims sz c ((set_node c (?s\<lparr>nd_parent := None\<rparr>) t1)\<lparr>mt_trunk := Some c\<rparr>)"
      by (rule wf_tree_nodes) simp
    then show ?thesis using Some r False c len d
      by (simp add: warm_start_def tree_ok_def clear_tree_def)
  qed
qed

lemma plant_ok:
  assumes "tree_ok dims sz t" and "length inp = dims"
  shows "\<exists>r t'. plant inp t = (r, t') \<and> wf_tree dims sz r t' \<and> mt_trunk t' = Some r"
proof (cases "mt_trunk t")
  case None
  have "wf_tree dims sz 0 (t\<lparr>mt_nodes := [node_init None 0 0 inp 0 False], mt_trunk := Some 0\<rparr>)"
    using assms(2) by (simp add: wf_tree_def node_ok_def actions_of_def node_init_def)
  then show ?thesis using None by (simp add: plant_def)
next
  case (Some r)
  then show ?thesis using assms(1) by (simp add: plant_def tree_ok_def)
qed

lemma best_action_returns:
  assumes "planner_ok dims sz mc" and "wf_tree dims sz r t"
  shows "\<exists>a t'. best_action mc inp r t = Some (a, t') \<and> mt_nodes t' = mt_nodes t \<and> mt_trunk t' = mt_trunk t \<and>
    (\<exists>s k. k < sz \<and> d_at (mc_disc mc) s k = Some (a_v a))"
proof (cases "nd_children (mt_nodes t ! r) = []")
  case True
  have sz: "d_size (mc_disc mc) inp = sz" "0 < sz" using assms(1) by (simp_all add: planner_ok_def)
  obtain x t1 where x: "lrand t = (x, t1)" "mt_nodes t1 = mt_nodes t" "mt_trunk t1 = mt_trunk t"
    by (simp add: lrand_def Let_def)
  have less: "x mod sz < sz" using sz(2) by simp
  then obtain act where "d_at (mc_disc mc) inp (x mod sz) = Some act" by (rule planner_action [OF assms(1)])
  then show ?thesis using True wf_tree_trunk(1) [OF assms(2)] sz x less
    by (auto simp: best_action_def Action_def Let_def)
next
  case False
  note r = wf_tree_trunk(1) [OF assms(2)]
  from node_select_returns [OF assms(2) r False, of mc 0] obtain c t1 where
    c: "node_select mc 0 (mt_nodes t ! r) t = Some (c, t1)" "c \<in> set (nd_children (mt_nodes t ! r))"
    "mt_nodes t1 = mt_nodes t" "mt_trunk t1 = mt_trunk t" by blast
  have len: "c < length (mt_nodes t)" using wf_tree_child [OF assms(2) r c(2)] by simp
  have "nd_action (mt_nodes t ! c) \<in> set (actions_of t r)" using c(2) by (auto simp: actions_of_def)
  moreover have "set (actions_of t r) \<subseteq> {0..<sz}" using assms(2) r unfolding wf_tree_def node_ok_def by blast
  ultimately have less: "nd_action (mt_nodes t ! c) < sz" by auto
  then obtain act where "d_at (mc_disc mc) (nd_state (mt_nodes t ! r)) (nd_action (mt_nodes t ! c)) = Some act"
    by (rule planner_action [OF assms(1)])
  then show ?thesis using False r c len less by (auto simp: best_action_def Action_def)
qed

lemma trajectory_returns:
  assumes "planner_ok dims sz mc" and "wf_tree dims sz r t" and "i < length (mt_nodes t)"
  shows "\<exists>ss t'. trajectory mc i t = Some (ss, t') \<and> mt_nodes t' = mt_nodes t \<and> mt_trunk t' = mt_trunk t"
  using assms(2,3)
proof (induction "length (mt_nodes t) - i" arbitrary: i t rule: less_induct)
  case less
  have sz: "d_size (mc_disc mc) (nd_state (mt_nodes t ! i)) = sz" "0 < sz" using assms(1) by (simp_all add: planner_ok_def)
  show ?case
  proof (cases "length (nd_children (mt_nodes t ! i)) = sz")
    case False
    then show ?thesis using less.prems(2) sz by (subst trajectory.simps) simp
  next
    case True
    then have "nd_children (mt_nodes t ! i) \<noteq> []" using sz(2) by auto
    from node_select_returns [OF less.prems this, of mc 0] obtain c t1 where
      c: "node_select mc 0 (mt_nodes t ! i) t = Some (c, t1)" "c \<in> set (nd_children (mt_nodes t ! i))"
      "mt_nodes t1 = mt_nodes t" "mt_trunk t1 = mt_trunk t" by blast
    have "length (mt_nodes t1) - c < length (mt_nodes t) - i" "c < length (mt_nodes t1)"
      using wf_tree_child [OF less.prems c(2)] c(3) by auto
    from less.hyps [OF this(1) wf_tree_nodes [OF less.prems(1) c(3)] this(2)] obtain ss t' where
      "trajectory mc c t1 = Some (ss, t')" "mt_nodes t' = mt_nodes t1" "mt_trunk t' = mt_trunk t1" by blast
    then show ?thesis using True less.prems(2) sz c by (subst trajectory.simps) simp
  qed
qed

text \<open>C4: tree search always answers. With 1 to 31 actions in every state and predictions of the size of
  states, \<open>act\<close> returns an action of the discretizer from every well-formed tree, whether it can
  start warm or not, whatever the budget, the horizon and the exploration: the circle of fresh
  actions, the chain of parents and the published trajectory all end. It leaves a well-formed tree,
  in which each search visited the trunk: at the start of an episode exactly \<open>budget\<close> times.\<close>

theorem mcts_act_returns:
  assumes "planner_ok dims sz mc" and "tree_ok dims sz t" and "length inp = dims"
  shows "\<exists>a t' r. mcts_act mc budget time inp t = Some (a, t') \<and> tree_ok dims sz t' \<and> mt_trunk t' = Some r \<and>
    budget \<le> nd_visits (mt_nodes t' ! r) \<and> (time = 0 \<longrightarrow> nd_visits (mt_nodes t' ! r) = budget) \<and>
    (\<exists>s k. k < sz \<and> d_at (mc_disc mc) s k = Some (a_v a))"
proof -
  have "tree_ok dims sz (if time = 0 then clear_tree t else t)"
    using assms(2) by (simp add: tree_ok_def clear_tree_def)
  from warm_start_ok [OF assms(1) this assms(3)] obtain t1 where
    t1: "warm_start mc inp (if time = 0 then clear_tree t else t) = Some t1" "tree_ok dims sz t1" by blast
  from plant_ok [OF t1(2) assms(3)] obtain r t2 where
    t2: "plant inp t1 = (r, t2)" "wf_tree dims sz r t2" "mt_trunk t2 = Some r" by blast
  from searches_return [OF assms(1) t2(2), of budget] obtain t3 where
    t3: "searches mc r budget t2 = Some t3" "wf_tree dims sz r t3" "mt_trunk t3 = mt_trunk t2"
    "nd_visits (mt_nodes t3 ! r) = nd_visits (mt_nodes t2 ! r) + budget" by blast
  from best_action_returns [OF assms(1) t3(2), of inp] obtain a t4 where
    t4: "best_action mc inp r t3 = Some (a, t4)" "mt_nodes t4 = mt_nodes t3" "mt_trunk t4 = mt_trunk t3"
    "\<exists>s k. k < sz \<and> d_at (mc_disc mc) s k = Some (a_v a)" by blast
  note wf4 = wf_tree_nodes [OF t3(2) t4(2)]
  from trajectory_returns [OF assms(1) wf4 wf_tree_trunk(1) [OF wf4]] obtain ss t5 where
    t5: "trajectory mc r t4 = Some (ss, t5)" "mt_nodes t5 = mt_nodes t4" "mt_trunk t5 = mt_trunk t4" by blast
  note wf5 = wf_tree_nodes [OF wf4 t5(2)]
  from trajectory_returns [OF assms(1) wf5 wf_tree_trunk(1) [OF wf5]] obtain ss' t6 where
    t6: "trajectory mc r t5 = Some (ss', t6)" "mt_nodes t6 = mt_nodes t5" "mt_trunk t6 = mt_trunk t5" by blast
  have "mcts_act mc budget time inp t = Some (a, t6)"
    using t1(1) t2(1) t3(1) t4(1) t5(1) t6(1) by (simp add: mcts_act_def)
  moreover have "tree_ok dims sz t6" using wf_tree_nodes [OF wf5 t6(2)] t2(3) t3(3) t4(3) t5(3) t6(3) by (simp add: tree_ok_def)
  moreover have "nd_visits (mt_nodes t2 ! r) = 0" if "time = 0"
    using t1(1) t2(1) that by (auto simp: warm_start_def clear_tree_def plant_def node_init_def)
  ultimately show ?thesis using t2(3) t3(3,4) t4(2-4) t5(2,3) t6(2,3) by auto
qed

text \<open>Two actions in every state; the first one pays, both end the episode.\<close>

definition two_actions :: disc where
  "two_actions = \<lparr>d_size = \<lambda>_. 2, d_begin = \<lambda>_. [0], d_inc = \<lambda>_ i. Some [], d_get = \<lambda>_ i. None,
     d_at = \<lambda>_ k. if k < 2 then Some [real k] else None, d_discretize = \<lambda>_. None\<rparr>"

definition bandit :: "real \<Rightarrow> real \<Rightarrow> mcts" where
  "bandit r0 r1 = \<lparr>mc_model = \<lambda>s a. \<lparr>pr_tau = 1, pr_next = [0], pr_reward = if a = [0] then r0 else r1, pr_terminal = 2\<rparr>,
     mc_disc = two_actions, mc_gamma = 1, mc_epsilon = 1 / 20, mc_horizon = 10, mc_uct = True\<rparr>"

lemma bandit_ok: "planner_ok 1 2 (bandit r0 r1)"
  by (simp add: planner_ok_def bandit_def two_actions_def)

definition empty_tree :: tree where
  "empty_tree = \<lparr>mt_nodes = [], mt_trunk = None, mt_seed = 1\<rparr>"

theorem mcts_act_returns_witness:
  "\<exists>a t' r. mcts_act (bandit 1 0) 50 0 [0] empty_tree = Some (a, t') \<and> mt_trunk t' = Some r \<and>
    nd_visits (mt_nodes t' ! r) = 50 \<and> (a_v a = [0] \<or> a_v a = [1])"
proof -
  have "tree_ok 1 2 empty_tree" by (simp add: tree_ok_def empty_tree_def)
  from mcts_act_returns [OF bandit_ok this, of "[0]" 1 0 50 0] have
    "\<exists>a t' r. mcts_act (bandit 1 0) 50 0 [0] empty_tree = Some (a, t') \<and> mt_trunk t' = Some r \<and>
      nd_visits (mt_nodes t' ! r) = 50 \<and> (\<exists>s k. k < 2 \<and> d_at (mc_disc (bandit 1 0)) s k = Some (a_v a))"
    by simp blast
  then obtain a t' r where
    r: "mcts_act (bandit 1 0) 50 0 [0] empty_tree = Some (a, t')" "mt_trunk t' = Some r"
    "nd_visits (mt_nodes t' ! r) = 50" and k: "\<exists>s k. k < 2 \<and> d_at (mc_disc (bandit 1 0)) s k = Some (a_v a)" by blast
  from k have "a_v a = [0] \<or> a_v a = [1]"
    by (auto simp: bandit_def two_actions_def less_Suc_eq numeral_2_eq_2)
  with r show ?thesis by blast
qed

section \<open>The reward of the last step\<close>

text \<open>The tree after searches in a model in which every action ends the episode.\<close>

definition one_step :: "nat \<Rightarrow> seed48 \<Rightarrow> dvec \<Rightarrow> tree \<Rightarrow> bool" where
  "one_step a0 g inp t \<longleftrightarrow> mt_trunk t = Some 0 \<and> nd_state (mt_nodes t ! 0) = inp \<and> \<not> nd_terminal (mt_nodes t ! 0) \<and>
     (\<forall>i < length (mt_nodes t). i \<noteq> 0 \<longrightarrow> nd_terminal (mt_nodes t ! i) \<and> nd_q (mt_nodes t ! i) = 0 \<and>
        0 < nd_visits (mt_nodes t ! i) \<and> nd_parent (mt_nodes t ! i) = Some 0) \<and>
     (if nd_children (mt_nodes t ! 0) = [] then mt_seed t = g
      else nd_action (mt_nodes t ! hd (nd_children (mt_nodes t ! 0))) = a0)"

lemma backup_child:
  assumes "c < length (mt_nodes t)" and "c \<noteq> 0" and "nd_parent (mt_nodes t ! c) = Some 0"
    and "nd_parent (mt_nodes t ! 0) = None"
  shows "\<exists>x. backup mc c 0 t = Some (set_node 0 (node_update x (mt_nodes t ! 0)) (set_node c (node_update 0 (mt_nodes t ! c)) t))"
proof -
  have 0: "node_at (set_node c (node_update 0 (mt_nodes t ! c)) t) 0 = Some (mt_nodes t ! 0)"
    using assms(1,2) by (auto simp: node_at_def set_node_def)
  have "backup mc 0 x (set_node c (node_update 0 (mt_nodes t ! c)) t) =
      Some (set_node 0 (node_update x (mt_nodes t ! 0)) (set_node c (node_update 0 (mt_nodes t ! c)) t))" for x
    using 0 assms(4) by (subst backup.simps) (simp add: Let_def)
  then show ?thesis using assms(1,3) by (subst backup.simps) (simp add: Let_def, blast)
qed

text \<open>The same tree between choosing a child and backing up: the child may be new.\<close>

definition half_step :: "nat \<Rightarrow> nat \<Rightarrow> dvec \<Rightarrow> tree \<Rightarrow> bool" where
  "half_step c a0 inp t \<longleftrightarrow> c < length (mt_nodes t) \<and> c \<noteq> 0 \<and> mt_trunk t = Some 0 \<and>
     nd_state (mt_nodes t ! 0) = inp \<and> \<not> nd_terminal (mt_nodes t ! 0) \<and>
     (\<forall>i < length (mt_nodes t). i \<noteq> 0 \<longrightarrow> nd_terminal (mt_nodes t ! i) \<and> nd_q (mt_nodes t ! i) = 0 \<and>
        (i \<noteq> c \<longrightarrow> 0 < nd_visits (mt_nodes t ! i)) \<and> nd_parent (mt_nodes t ! i) = Some 0) \<and>
     nd_children (mt_nodes t ! 0) \<noteq> [] \<and> hd (nd_children (mt_nodes t ! 0)) < length (mt_nodes t) \<and>
     nd_action (mt_nodes t ! hd (nd_children (mt_nodes t ! 0))) = a0"

lemma half_step_update:
  fixes x :: real
  assumes "half_step c a0 inp t"
  defines "t' \<equiv> set_node 0 (node_update x (mt_nodes t ! 0)) (set_node c (node_update 0 (mt_nodes t ! c)) t)"
  shows "one_step a0 g inp t' \<and> nd_children (mt_nodes t' ! 0) \<noteq> []"
proof -
  have c: "c < length (mt_nodes t)" "c \<noteq> 0" using assms(1) by (simp_all add: half_step_def)
  have nodes: "mt_nodes t' = (mt_nodes t)[c := node_update 0 (mt_nodes t ! c), 0 := node_update x (mt_nodes t ! 0)]"
    and trunk: "mt_trunk t' = mt_trunk t" by (simp_all add: t'_def set_node_def)
  have "0 < length (mt_nodes t)" using c(1) by linarith
  then have root: "mt_nodes t' ! 0 = node_update x (mt_nodes t ! 0)" by (simp add: nodes)
  have other: "mt_nodes t' ! i = (if i = c then node_update 0 (mt_nodes t ! c) else mt_nodes t ! i)"
    if "i < length (mt_nodes t)" "i \<noteq> 0" for i using that c(1) by (simp add: nodes)
  have act: "nd_action (mt_nodes t' ! i) = nd_action (mt_nodes t ! i)" if "i < length (mt_nodes t)" for i
    using that root other by (cases "i = 0") (auto simp: node_update_def)
  have "nd_terminal (mt_nodes t' ! i) \<and> nd_q (mt_nodes t' ! i) = 0 \<and> 0 < nd_visits (mt_nodes t' ! i) \<and>
      nd_parent (mt_nodes t' ! i) = Some 0" if "i < length (mt_nodes t')" "i \<noteq> 0" for i
  proof -
    have i: "i < length (mt_nodes t)" using that(1) by (simp add: nodes)
    show ?thesis using assms(1) i that(2) unfolding half_step_def other [OF i that(2)] by (simp add: node_update_def)
  qed
  then show ?thesis using assms(1) root act trunk by (simp add: half_step_def one_step_def node_update_def)
qed

lemma half_step_search:
  assumes "tree_policy mc (mc_horizon mc) 0 t = Some (c, t1)" and "wf_tree dims sz 0 t1" and "half_step c a0 inp t1"
  shows "\<exists>t'. search mc 0 t = Some t' \<and> one_step a0 g inp t' \<and> nd_children (mt_nodes t' ! 0) \<noteq> []"
proof -
  have c: "c < length (mt_nodes t1)" "c \<noteq> 0" "nd_parent (mt_nodes t1 ! c) = Some 0" "nd_terminal (mt_nodes t1 ! c)"
    using assms(3) by (auto simp: half_step_def)
  obtain d where "depth_of t1 c = Some d" using depth_of_returns [OF assms(2) c(1)] by blast
  with backup_child [OF c(1-3) wf_tree_trunk(2) [OF assms(2)], of mc] c obtain x where
    "search mc 0 t = Some (set_node 0 (node_update x (mt_nodes t1 ! 0)) (set_node c (node_update 0 (mt_nodes t1 ! c)) t1))"
    using assms(1) by (auto simp: search_def)
  then show ?thesis using half_step_update [OF assms(3)] by blast
qed

lemma node_expand_nodes:
  assumes "i < length (mt_nodes t)" and "a < 31"
  shows "\<exists>t' n. node_expand i a tau state reward terminal t = Some (length (mt_nodes t), t') \<and>
    mt_nodes t' = (mt_nodes t)[i := n] @ [node_init (Some i) a tau state reward terminal] \<and> mt_trunk t' = mt_trunk t \<and>
    nd_children n = nd_children (mt_nodes t ! i) @ [length (mt_nodes t)] \<and> nd_state n = nd_state (mt_nodes t ! i) \<and>
    nd_terminal n = nd_terminal (mt_nodes t ! i)"
proof -
  let ?n = "(mt_nodes t ! i)\<lparr>nd_expanded := nd_expanded (mt_nodes t ! i) OR push_bit a 1,
      nd_children := nd_children (mt_nodes t ! i) @ [length (mt_nodes t)]\<rparr>"
  let ?t = "t\<lparr>mt_nodes := (mt_nodes t)[i := ?n] @ [node_init (Some i) a tau state reward terminal]\<rparr>"
  have "node_expand i a tau state reward terminal t = Some (length (mt_nodes t), ?t)"
    using assms by (simp add: node_expand_def action_bit_small Let_def set_node_def)
  then show ?thesis by (intro exI [of _ ?t] exI [of _ ?n]) simp
qed

text \<open>The first action tried is the random one.\<close>

lemma first_choice:
  assumes "planner_ok dims sz mc" and "wf_tree dims sz 0 t" and "nd_children (mt_nodes t ! 0) = []"
  shows "\<exists>t'. choose_action mc (mt_nodes t ! 0) t = Some (lrand48 (next48 (mt_seed t)) mod sz, t')"
proof -
  have sz: "0 < sz" "sz \<le> 31" "d_size (mc_disc mc) (nd_state (mt_nodes t ! 0)) = sz"
    using assms(1) by (simp_all add: planner_ok_def)
  let ?a = "lrand48 (next48 (mt_seed t)) mod sz"
  have less: "?a < sz" using sz(1) by simp
  have "actions_of t 0 = []" using assms(3) by (simp add: actions_of_def)
  then have "\<not> bit (nd_expanded (mt_nodes t ! 0)) ?a"
    using wf_tree_bits [OF assms(2) wf_tree_trunk(1) [OF assms(2)] less] by simp
  then have "fresh_action (mt_nodes t ! 0) sz ?a = Some ?a"
    using less sz(2) by (subst fresh_action.simps) (simp add: expanded_small)
  then show ?thesis using sz by (simp add: choose_action_def lrand_def Let_def)
qed

text \<open>A search in a fully expanded trunk, and one that expands it.\<close>

lemma one_step_selects:
  assumes "planner_ok dims sz mc" and "wf_tree dims sz 0 t" and "one_step a0 g inp t"
    and "length (nd_children (mt_nodes t ! 0)) = sz" and "0 < mc_horizon mc"
  shows "\<exists>c t1. tree_policy mc (mc_horizon mc) 0 t = Some (c, t1) \<and> half_step c a0 inp t1"
proof -
  obtain k where k: "mc_horizon mc = Suc k" using assms(5) gr0_implies_Suc by blast
  let ?n = "mt_nodes t ! 0"
  have sz: "d_size (mc_disc mc) (nd_state ?n) = sz" "0 < sz" using assms(1) by (simp_all add: planner_ok_def)
  note root = wf_tree_trunk(1) [OF assms(2)]
  have ne: "nd_children ?n \<noteq> []" using sz(2) assms(4) by auto
  from node_select_returns [OF assms(2) root ne, of mc "mc_epsilon mc"] obtain c t1 where
    c: "node_select mc (mc_epsilon mc) ?n t = Some (c, t1)" "c \<in> set (nd_children ?n)"
    "mt_nodes t1 = mt_nodes t" "mt_trunk t1 = mt_trunk t" by blast
  note child = wf_tree_child [OF assms(2) root]
  have len: "c < length (mt_nodes t)" "c \<noteq> 0" using child [OF c(2)] by auto
  have "hd (nd_children ?n) < length (mt_nodes t)" using child [OF hd_in_set [OF ne]] by simp
  then have half: "half_step c a0 inp t1" using assms(3) c(3,4) len ne by (simp add: half_step_def one_step_def)
  then have "tree_policy mc k c t1 = Some (c, t1)" by (cases k) (simp_all add: half_step_def)
  then have "tree_policy mc (mc_horizon mc) 0 t = Some (c, t1)"
    using assms(3,4) root sz(1) c(1) by (simp add: k one_step_def)
  then show ?thesis using half by blast
qed

lemma one_step_expands:
  assumes "planner_ok dims sz mc" and "wf_tree dims sz 0 t" and "one_step a0 g inp t"
    and "length (nd_children (mt_nodes t ! 0)) \<noteq> sz" and "0 < mc_horizon mc"
    and "\<forall>s a. pr_next (mc_model mc s a) \<noteq> [] \<and> pr_terminal (mc_model mc s a) \<noteq> 0"
    and "a0 = lrand48 (next48 g) mod sz"
  shows "\<exists>c t1. tree_policy mc (mc_horizon mc) 0 t = Some (c, t1) \<and> half_step c a0 inp t1"
proof -
  obtain k where k: "mc_horizon mc = Suc k" using assms(5) gr0_implies_Suc by blast
  let ?n = "mt_nodes t ! 0" and ?c = "length (mt_nodes t)"
  have sz: "d_size (mc_disc mc) (nd_state ?n) = sz" "sz \<le> 31" using assms(1) by (simp_all add: planner_ok_def)
  note root = wf_tree_trunk(1) [OF assms(2)]
  from choose_action_returns [OF assms(1,2) root assms(4)] obtain a t1 where
    a: "choose_action mc ?n t = Some (a, t1)" "a < sz" "mt_nodes t1 = mt_nodes t" "mt_trunk t1 = mt_trunk t" by blast
  obtain act where act: "d_at (mc_disc mc) (nd_state ?n) a = Some act" by (rule planner_action [OF assms(1) a(2)])
  let ?p = "mc_model mc (nd_state ?n) act"
  let ?new = "node_init (Some 0) a (pr_tau ?p) (pr_next ?p) (pr_reward ?p) (pr_terminal ?p \<noteq> 0)"
  have p: "pr_next ?p \<noteq> []" "pr_terminal ?p \<noteq> 0" using assms(6) by auto
  have "0 < length (mt_nodes t1)" "a < 31" using a(2,3) sz(2) root by simp_all
  from node_expand_nodes [OF this, of "pr_tau ?p" "pr_next ?p" "pr_reward ?p" "pr_terminal ?p \<noteq> 0"] a(3) obtain t2 n where
    t2: "node_expand 0 a (pr_tau ?p) (pr_next ?p) (pr_reward ?p) (pr_terminal ?p \<noteq> 0) t1 = Some (?c, t2)"
    "mt_nodes t2 = (mt_nodes t)[0 := n] @ [?new]" "mt_trunk t2 = mt_trunk t1"
    "nd_children n = nd_children ?n @ [?c]" "nd_state n = nd_state ?n" "nd_terminal n = nd_terminal ?n" by auto
  have pol: "tree_policy mc (mc_horizon mc) 0 t = Some (?c, t2)"
    using assms(3,4) root sz(1) a(1) act p t2(1) by (simp add: k one_step_def expand_def Let_def)
  have at: "mt_nodes t2 ! 0 = n" "mt_nodes t2 ! ?c = ?new" "length (mt_nodes t2) = ?c + 1"
    and old: "\<And>i. i < ?c \<Longrightarrow> i \<noteq> 0 \<Longrightarrow> mt_nodes t2 ! i = mt_nodes t ! i" using root by (auto simp: t2(2) nth_append)
  have others: "nd_terminal (mt_nodes t2 ! i) \<and> nd_q (mt_nodes t2 ! i) = 0 \<and> (i \<noteq> ?c \<longrightarrow> 0 < nd_visits (mt_nodes t2 ! i)) \<and>
      nd_parent (mt_nodes t2 ! i) = Some 0" if "i < length (mt_nodes t2)" "i \<noteq> 0" for i
    using that at(2,3) p(2) old assms(3) by (cases "i = ?c") (simp_all add: node_init_def one_step_def)
  have first: "hd (nd_children n) < ?c + 1 \<and> nd_action (mt_nodes t2 ! hd (nd_children n)) = a0"
  proof (cases "nd_children ?n = []")
    case True
    then have "a = a0" using first_choice [OF assms(1,2) True] a(1) assms(3,7) by (simp add: one_step_def)
    then show ?thesis using True t2(4) at(2) by (simp add: node_init_def)
  next
    case False
    then have "0 < hd (nd_children ?n)" "hd (nd_children ?n) < ?c"
      using wf_tree_child [OF assms(2) root hd_in_set [OF False]] by simp_all
    then show ?thesis using False t2(4) assms(3) old by (simp add: one_step_def)
  qed
  have "half_step ?c a0 inp t2"
    using root assms(3) t2(3-6) a(4) at others first by (simp add: half_step_def one_step_def)
  then show ?thesis using pol by blast
qed

lemma one_step_searches:
  assumes "planner_ok dims sz mc" and "wf_tree dims sz 0 t" and "one_step a0 g inp t" and "0 < mc_horizon mc"
    and "\<forall>s a. pr_next (mc_model mc s a) \<noteq> [] \<and> pr_terminal (mc_model mc s a) \<noteq> 0"
    and "a0 = lrand48 (next48 g) mod sz"
  shows "\<exists>t'. searches mc 0 (Suc k) t = Some t' \<and> one_step a0 g inp t' \<and> nd_children (mt_nodes t' ! 0) \<noteq> []"
  using assms(2,3)
proof (induction k arbitrary: t)
  have once: "\<exists>t1. search mc 0 t = Some t1 \<and> wf_tree dims sz 0 t1 \<and> one_step a0 g inp t1 \<and> nd_children (mt_nodes t1 ! 0) \<noteq> []"
    if wf: "wf_tree dims sz 0 t" and one: "one_step a0 g inp t" for t
  proof -
    obtain c t1 where t1: "tree_policy mc (mc_horizon mc) 0 t = Some (c, t1)" "half_step c a0 inp t1"
      using one_step_selects [OF assms(1) wf one _ assms(4)] one_step_expands [OF assms(1) wf one _ assms(4-6)] by blast
    have "wf_tree dims sz 0 t1"
      using tree_policy_returns [OF assms(1) wf under.here, of "mc_horizon mc"] t1(1) by (auto simp: grown_def)
    from half_step_search [OF t1(1) this t1(2)] search_returns [OF assms(1) wf] show ?thesis by auto
  qed
  case 0
  then show ?case using once [OF 0] by auto
  case (Suc k)
  from once [OF Suc.prems] obtain t1 where t1: "search mc 0 t = Some t1" "wf_tree dims sz 0 t1" "one_step a0 g inp t1" by blast
  from Suc.IH [OF t1(2,3)] t1(1) show ?case by simp
qed

lemma best_child_zero: "\<forall>v \<in> set vs. v = Fin 0 \<Longrightarrow> best_child vs ii (Fin 0) best = best"
  by (induction vs arbitrary: ii) auto

text \<open>Children without value: the first one is the best.\<close>

lemma select_first:
  assumes "wf_tree dims sz 0 t" and "one_step a0 g inp t" and "nd_children (mt_nodes t ! 0) \<noteq> []"
  shows "\<exists>t'. node_select mc 0 (mt_nodes t ! 0) t = Some (hd (nd_children (mt_nodes t ! 0)), t') \<and> mt_nodes t' = mt_nodes t"
proof -
  let ?n = "mt_nodes t ! 0"
  note root = wf_tree_trunk(1) [OF assms(1)]
  define cs where "cs = map ((!) (mt_nodes t)) (nd_children ?n)"
  have zero: "nd_q n = 0 \<and> 0 < nd_visits n" if n: "n \<in> set cs" for n
  proof -
    obtain i where i: "i \<in> set (nd_children ?n)" "n = mt_nodes t ! i" using n by (auto simp: cs_def)
    have "0 < i" "i < length (mt_nodes t)" using wf_tree_child [OF assms(1) root i(1)] by simp_all
    then show ?thesis using assms(2) i(2) by (simp add: one_step_def)
  qed
  obtain n ns where cs: "cs = n # ns" using assms(3) by (cases cs) (auto simp: cs_def)
  have pick: "pick (nd_children ?n) (best_child (map f cs) 0 (Inf False) 0) = Some (hd (nd_children ?n))"
    if "\<And>n. n \<in> set cs \<Longrightarrow> f n = Fin 0" for f
    using that cs assms(3) best_child_zero [of "map f ns" 1 0] by (auto simp: pick_def hd_conv_nth)
  have mean: "mean_value n = Fin 0" and ucb: "ucb_value 0 m n = Fin 0" if "n \<in> set cs" for n m
    using zero [OF that] by (simp_all add: mean_value_def ucb_value_def)
  obtain u t1 where u: "drand t = (u, t1)" "mt_nodes t1 = mt_nodes t" "\<not> u < 0"
    using drand48_bounds by (auto simp: drand_def Let_def not_less)
  have cs1: "children_of t1 ?n = Some cs" "children_of t ?n = Some cs"
    using children_returns [OF wf_tree_nodes [OF assms(1) u(2)], of 0] children_returns [OF assms(1) root] root u(2)
    by (simp_all add: cs_def)
  show ?thesis
    using u cs1 pick [OF mean] pick [OF ucb] by (simp add: node_select_def mcts_select_def uct_select_def Let_def)
qed

text \<open>the value of a child leaves out the reward of reaching it. If every action ends the episode, so
  that the rewards of the actions are all there is to learn, then \<open>act\<close>, with whatever budget, takes
  the action it happened to try first: the one the random numbers choose, whatever the rewards are.\<close>

theorem mcts_ignores_last_reward:
  assumes "planner_ok dims sz mc" and "0 < mc_horizon mc" and "0 < budget" and "length inp = dims"
    and "\<forall>s a. pr_next (mc_model mc s a) \<noteq> [] \<and> pr_terminal (mc_model mc s a) \<noteq> 0"
  shows "\<exists>t'. mcts_act mc budget 0 inp t =
    Some (Action (the (d_at (mc_disc mc) inp (lrand48 (next48 (mt_seed t)) mod sz))) atGreedy, t')"
proof -
  define a0 where "a0 = lrand48 (next48 (mt_seed t)) mod sz"
  have less: "a0 < sz" using assms(1) by (simp add: a0_def planner_ok_def)
  obtain k where k: "budget = Suc k" using assms(3) gr0_implies_Suc by blast
  define t2 where "t2 = t\<lparr>mt_nodes := [node_init None 0 0 inp 0 False], mt_trunk := Some 0\<rparr>"
  have start: "warm_start mc inp (clear_tree t) = Some (clear_tree t)" "plant inp (clear_tree t) = (0, t2)"
    by (simp_all add: warm_start_def clear_tree_def plant_def t2_def)
  have wf2: "wf_tree dims sz 0 t2" and one2: "one_step a0 (mt_seed t) inp t2"
    using assms(4) by (simp_all add: t2_def wf_tree_def node_ok_def actions_of_def node_init_def one_step_def)
  from one_step_searches [OF assms(1) wf2 one2 assms(2,5) a0_def, of k] obtain t3 where
    t3: "searches mc 0 budget t2 = Some t3" "one_step a0 (mt_seed t) inp t3" "nd_children (mt_nodes t3 ! 0) \<noteq> []"
    unfolding k by blast
  have wf3: "wf_tree dims sz 0 t3" using searches_return [OF assms(1) wf2, of budget] t3(1) by auto
  note root = wf_tree_trunk(1) [OF wf3]
  obtain act where act: "d_at (mc_disc mc) inp a0 = Some act" by (rule planner_action [OF assms(1) less])
  from select_first [OF wf3 t3(2,3), of mc] obtain t4 where
    t4: "node_select mc 0 (mt_nodes t3 ! 0) t3 = Some (hd (nd_children (mt_nodes t3 ! 0)), t4)" "mt_nodes t4 = mt_nodes t3" by blast
  have "hd (nd_children (mt_nodes t3 ! 0)) < length (mt_nodes t4)"
    using wf_tree_child [OF wf3 root hd_in_set [OF t3(3)]] t4(2) by simp
  then have best: "best_action mc inp 0 t3 = Some (Action act atGreedy, t4)"
    using t3(2,3) t4 act root by (simp add: best_action_def one_step_def)
  note wf4 = wf_tree_nodes [OF wf3 t4(2)]
  from trajectory_returns [OF assms(1) wf4 wf_tree_trunk(1) [OF wf4]] obtain ss t5 where
    t5: "trajectory mc 0 t4 = Some (ss, t5)" "mt_nodes t5 = mt_nodes t4" by blast
  note wf5 = wf_tree_nodes [OF wf4 t5(2)]
  from trajectory_returns [OF assms(1) wf5 wf_tree_trunk(1) [OF wf5]] obtain ss' t6 where
    "trajectory mc 0 t5 = Some (ss', t6)" by blast
  then show ?thesis using start t3(1) best t5(1) act by (simp add: mcts_act_def a0_def [symmetric])
qed

theorem mcts_ignores_last_reward_witness:
  "\<exists>t1 t2. mcts_act (bandit 1 0) 50 0 [0] empty_tree = Some (Action [0] atGreedy, t1) \<and>
    mcts_act (bandit 0 1) 50 0 [0] empty_tree = Some (Action [0] atGreedy, t2)"
proof -
  have a: "the (d_at (mc_disc (bandit r0 r1)) [0] (lrand48 (next48 (mt_seed empty_tree)) mod 2)) = [0]" for r0 r1
    by (simp add: bandit_def two_actions_def empty_tree_def lrand48_def next48_def)
  have "\<exists>t1. mcts_act (bandit r0 r1) 50 0 [0] empty_tree = Some (Action [0] atGreedy, t1)" for r0 r1
    using mcts_ignores_last_reward [OF bandit_ok, of r0 r1 50 "[0]" empty_tree] unfolding a
    by (simp add: bandit_def)
  then show ?thesis by blast
qed

end
