(* ===== verification/Controllers.thy ===== *)
theory Controllers
  imports Policies
begin

text \<open>
  Policies that compute their action from the state without learning
  (\<open>base/include/grl/policy.h\<close>, \<open>base/src/policies/\<close>): the PID controllers (\<open>pid.cpp\<close>), the state
  feedback controllers (\<open>state_feedback.cpp\<close>), random and feed-forward actions.

  The gains and limits of a PID controller can be infinite (its default limits are), so it computes
  with extended doubles. Reading outside a vector is \<open>RepUndefined\<close>, the exceptions are
  \<open>RepBadParam\<close> and \<open>RepException\<close>.
\<close>

section \<open>The base class\<close>

text \<open>\<open>Policy::read\<close>: the action taken without a previous one, and its first component.\<close>

definition policy_read :: "(observation \<Rightarrow> action \<Rightarrow> rep_error + action \<times> rand) \<Rightarrow> dvec \<Rightarrow>
    rep_error + dvec \<times> real \<times> rand" where
  "policy_read actf inp =
     chain (actf (Observation inp False) no_action) (\<lambda>(a, g).
       Inr (a_v a, case a_v a of [] \<Rightarrow> 0 | x # _ \<Rightarrow> x, g))"

section \<open>PID control\<close>

text \<open>\<open>fmin\<close> and \<open>fmax\<close> return the other argument if one is NaN.\<close>

definition d_fmin :: "dbl \<Rightarrow> dbl \<Rightarrow> dbl" where
  "d_fmin x y = (if d_isnan x then y else if d_isnan y then x else if d_less y x then y else x)"

definition d_fmax :: "dbl \<Rightarrow> dbl \<Rightarrow> dbl" where
  "d_fmax x y = (if d_isnan x then y else if d_isnan y then x else if d_less x y then y else x)"

record pid =
  pid_setpoint :: dvec
  pid_outputs :: nat
  pid_params :: "dbl list"
  pid_ival :: "dbl list"
  pid_prev_in :: dvec
  pid_action_min :: dvec
  pid_action_max :: dvec

text \<open>The places of the gains in the parameters, for \<open>n\<close> inputs and \<open>m\<close> outputs.\<close>

definition at_P :: "nat \<Rightarrow> nat \<Rightarrow> nat \<Rightarrow> nat" where
  "at_P n ii oo = oo * n + ii"

definition at_I :: "nat \<Rightarrow> nat \<Rightarrow> nat \<Rightarrow> nat \<Rightarrow> nat" where
  "at_I n m ii oo = 1 * n * m + at_P n ii oo"

definition at_D :: "nat \<Rightarrow> nat \<Rightarrow> nat \<Rightarrow> nat \<Rightarrow> nat" where
  "at_D n m ii oo = 2 * n * m + at_P n ii oo"

definition at_IL :: "nat \<Rightarrow> nat \<Rightarrow> nat \<Rightarrow> nat \<Rightarrow> nat" where
  "at_IL n m ii oo = 3 * n * m + at_P n ii oo"

text \<open>A vector of gains: the default if it is empty, an error if it has another size.\<close>

definition pid_gains :: "nat \<Rightarrow> dbl \<Rightarrow> dbl list \<Rightarrow> rep_error + dbl list" where
  "pid_gains sz d v =
     (let v = (if v = [] then replicate sz d else v) in if length v \<noteq> sz then Inl RepBadParam else Inr v)"

definition pid_configure :: "dvec \<Rightarrow> nat \<Rightarrow> dvec \<Rightarrow> dvec \<Rightarrow> dbl list \<Rightarrow> dbl list \<Rightarrow> dbl list \<Rightarrow> dbl list \<Rightarrow>
    rep_error + pid" where
  "pid_configure setpoint outputs amin amax p i d il =
     (if setpoint = [] then Inl RepBadParam
      else if length amin \<noteq> length amax \<or> length amax \<noteq> outputs then Inl RepBadParam
      else let sz = length setpoint * outputs
           in chain (pid_gains sz (Fin 0) p) (\<lambda>p.
              chain (pid_gains sz (Fin 0) i) (\<lambda>i.
              chain (pid_gains sz (Fin 0) d) (\<lambda>d.
              chain (pid_gains sz (Inf True) il) (\<lambda>il.
                Inr \<lparr>pid_setpoint = setpoint, pid_outputs = outputs, pid_params = p @ i @ d @ il,
                     pid_ival = replicate sz (Fin 0), pid_prev_in = [],
                     pid_action_min = amin, pid_action_max = amax\<rparr>)))))"

definition pid_reset :: "pid \<Rightarrow> pid" where
  "pid_reset c = c\<lparr>pid_ival := replicate (length (pid_setpoint c) * pid_outputs c) (Fin 0)\<rparr>"

definition pid_setParams :: "dbl list \<Rightarrow> pid \<Rightarrow> pid" where
  "pid_setParams params c = c\<lparr>pid_params := params\<rparr>"

text \<open>\<open>fmin(action_max, fmax(u, action_min))\<close>: a number, whatever \<open>u\<close> is.\<close>

definition saturate :: "real \<Rightarrow> real \<Rightarrow> dbl \<Rightarrow> real" where
  "saturate amin amax u = d_val (d_fmin (Fin amax) (d_fmax u (Fin amin)))"

text \<open>The sum over the inputs without memory.\<close>

definition pid_sum :: "nat \<Rightarrow> nat \<Rightarrow> dbl list \<Rightarrow> dvec \<Rightarrow> dvec \<Rightarrow> nat \<Rightarrow> dbl" where
  "pid_sum n m par sp x oo =
     foldl (\<lambda>u ii. d_add u (d_mul (d_add (par ! at_P n ii oo) (par ! at_I n m ii oo)) (Fin (sp ! ii - x ! ii))))
       (Fin 0) [0..<n]"

definition pid_act :: "pid \<Rightarrow> dvec \<Rightarrow> rep_error + action" where
  "pid_act c x =
     (let n = length (pid_setpoint c); m = pid_outputs c
      in if (m = 0 \<or> (n \<le> length x \<and> 2 * n * m \<le> length (pid_params c))) \<and>
            m \<le> length (pid_action_min c) \<and> m \<le> length (pid_action_max c)
         then Inr (Action (map (\<lambda>oo. saturate (pid_action_min c ! oo) (pid_action_max c ! oo)
                (pid_sum n m (pid_params c) (pid_setpoint c) x oo)) [0..<m]) atGreedy)
         else Inl RepUndefined)"

text \<open>The loop over the inputs with integration and differences, for one output.\<close>

fun pid_row :: "nat \<Rightarrow> nat \<Rightarrow> dbl list \<Rightarrow> dvec \<Rightarrow> dvec \<Rightarrow> dvec \<Rightarrow> nat \<Rightarrow> nat list \<Rightarrow> dbl \<Rightarrow> dbl list \<Rightarrow>
    dbl \<times> dbl list" where
  "pid_row n m par sp x px oo [] u ival = (u, ival)"
| "pid_row n m par sp x px oo (ii # iis) u ival =
     (let err = sp ! ii - x ! ii;
          acc = d_fmin (d_add (ival ! (ii * m + oo)) (Fin err)) (par ! at_IL n m ii oo);
          diff = x ! ii - px ! ii;
          u = d_add u (d_add (d_add (d_mul (par ! at_P n ii oo) (Fin err)) (d_mul (par ! at_I n m ii oo) acc))
                (d_mul (par ! at_D n m ii oo) (Fin diff)))
      in pid_row n m par sp x px oo iis u (ival[ii * m + oo := acc]))"

fun pid_rows :: "nat \<Rightarrow> nat \<Rightarrow> dbl list \<Rightarrow> dvec \<Rightarrow> dvec \<Rightarrow> dvec \<Rightarrow> nat list \<Rightarrow> dbl list \<Rightarrow>
    dbl list \<times> dbl list" where
  "pid_rows n m par sp x px [] ival = ([], ival)"
| "pid_rows n m par sp x px (oo # oos) ival =
     (let (u, ival) = pid_row n m par sp x px oo [0..<n] (Fin 0) ival;
          (us, ival) = pid_rows n m par sp x px oos ival
      in (u # us, ival))"

text \<open>One control step from a given set point; the first one of an episode clears the memory.\<close>

definition pid_step :: "real \<Rightarrow> dvec \<Rightarrow> dvec \<Rightarrow> pid \<Rightarrow> rep_error + action \<times> pid" where
  "pid_step time sp x c =
     (let n = length sp; m = pid_outputs c;
          c = (if time = 0 then c\<lparr>pid_ival := replicate (n * m) (Fin 0), pid_prev_in := x\<rparr> else c)
      in if (m = 0 \<or> (n \<le> length x \<and> n \<le> length (pid_prev_in c) \<and> 4 * n * m \<le> length (pid_params c) \<and>
                      n * m \<le> length (pid_ival c))) \<and>
            m \<le> length (pid_action_min c) \<and> m \<le> length (pid_action_max c)
         then let (us, ival) = pid_rows n m (pid_params c) sp x (pid_prev_in c) [0..<m] (pid_ival c)
              in Inr (Action (map (\<lambda>oo. saturate (pid_action_min c ! oo) (pid_action_max c ! oo) (us ! oo))
                        [0..<m]) atGreedy,
                      c\<lparr>pid_ival := ival, pid_prev_in := x\<rparr>)
         else Inl RepUndefined)"

definition pid_act_timed :: "real \<Rightarrow> dvec \<Rightarrow> pid \<Rightarrow> rep_error + action \<times> pid" where
  "pid_act_timed time x c = pid_step time (pid_setpoint c) x c"

text \<open>The controller that follows a trajectory: the set point is read from a mapping at the current time.\<close>

record pidt = pid +
  pt_trajectory :: "dvec \<Rightarrow> dvec"
  pt_inputs :: nat

definition pidt_configure :: "(dvec \<Rightarrow> dvec) \<Rightarrow> nat \<Rightarrow> nat \<Rightarrow> dvec \<Rightarrow> dvec \<Rightarrow> dbl list \<Rightarrow> dbl list \<Rightarrow> dbl list \<Rightarrow>
    dbl list \<Rightarrow> rep_error + pidt" where
  "pidt_configure trajectory inputs outputs amin amax p i d il =
     (if length amin \<noteq> length amax \<or> length amax \<noteq> outputs then Inl RepBadParam
      else let sz = inputs * outputs
           in chain (pid_gains sz (Fin 0) p) (\<lambda>p.
              chain (pid_gains sz (Fin 0) i) (\<lambda>i.
              chain (pid_gains sz (Fin 0) d) (\<lambda>d.
              chain (pid_gains sz (Inf True) il) (\<lambda>il.
                Inr \<lparr>pid_setpoint = [], pid_outputs = outputs, pid_params = p @ i @ d @ il,
                     pid_ival = replicate sz (Fin 0), pid_prev_in = [], pid_action_min = amin,
                     pid_action_max = amax, pt_trajectory = trajectory, pt_inputs = inputs\<rparr>)))))"

definition pidt_reset :: "pidt \<Rightarrow> pidt" where
  "pidt_reset c = c\<lparr>pid_ival := replicate (pt_inputs c * pid_outputs c) (Fin 0)\<rparr>"

definition pidt_act :: "real \<Rightarrow> dvec \<Rightarrow> pidt \<Rightarrow> rep_error + action \<times> pidt" where
  "pidt_act time x c =
     (let c = c\<lparr>pid_setpoint := pt_trajectory c [time]\<rparr>
      in if length (pid_setpoint c) \<noteq> pt_inputs c then Inl RepBadParam
         else chain (pid_step time (pid_setpoint c) x (pid.truncate c)) (\<lambda>(a, c').
           Inr (a, pid.extend c' (pidt.fields (pt_trajectory c) (pt_inputs c)))))"

section \<open>State feedback\<close>

record state_feedback =
  sf_operating_state :: dvec
  sf_operating_action :: dvec
  sf_gains :: dvec
  sf_min :: dvec
  sf_max :: dvec

definition sf_configure :: "dvec \<Rightarrow> dvec \<Rightarrow> dvec \<Rightarrow> dvec \<Rightarrow> dvec \<Rightarrow> rep_error + state_feedback" where
  "sf_configure operating_state operating_action gains mi ma =
     (if operating_state = [] \<or> operating_action = [] then Inl RepBadParam
      else let sz = length operating_state * length operating_action;
               gains = (if gains = [] then ConstantVector sz 0 else gains)
           in if length gains \<noteq> sz \<or> length mi \<noteq> length operating_action \<or> length ma \<noteq> length operating_action
              then Inl RepBadParam
              else Inr \<lparr>sf_operating_state = operating_state, sf_operating_action = operating_action,
                        sf_gains = gains, sf_min = mi, sf_max = ma\<rparr>)"

definition sf_copy :: "state_feedback \<Rightarrow> state_feedback \<Rightarrow> state_feedback" where
  "sf_copy source s = s\<lparr>sf_gains := sf_gains source\<rparr>"

definition sf_setParams :: "dvec \<Rightarrow> state_feedback \<Rightarrow> state_feedback" where
  "sf_setParams params s = s\<lparr>sf_gains := params\<rparr>"

definition sf_feedforward :: "dvec \<Rightarrow> state_feedback \<Rightarrow> state_feedback" where
  "sf_feedforward ff s = s\<lparr>sf_operating_action := ff\<rparr>"

definition sf_sum :: "state_feedback \<Rightarrow> dvec \<Rightarrow> nat \<Rightarrow> real" where
  "sf_sum s x oo =
     foldl (\<lambda>u ii. u + sf_gains s ! (ii * length (sf_operating_action s) + oo) * (sf_operating_state s ! ii - x ! ii))
       0 [0..<length (sf_operating_state s)]"

text \<open>All gains zero counts as not set: a random action.\<close>

definition sf_act :: "state_feedback \<Rightarrow> dvec \<Rightarrow> rand \<Rightarrow> rep_error + action \<times> rand" where
  "sf_act s x g =
     (let m = length (sf_operating_action s)
      in if length x \<noteq> length (sf_operating_state s) then Inl RepBadParam
         else if sf_gains s = [] then Inl RepUndefined
         else if Min (set (sf_gains s)) = 0 \<and> Max (set (sf_gains s)) = 0
         then if length (sf_min s) = length (sf_max s)
              then let (r, g) = getVector (length (sf_min s)) g
                   in Inr (Action (vadd (sf_min s) (vmul r (vsub (sf_max s) (sf_min s)))) atExploratory, g)
              else Inl RepUndefined
         else if length (sf_operating_state s) * m \<le> length (sf_gains s) \<and> m \<le> length (sf_min s) \<and> m \<le> length (sf_max s)
         then Inr (Action (map (\<lambda>oo. min (max (sf_operating_action s ! oo + sf_sum s x oo) (sf_min s ! oo)) (sf_max s ! oo))
                [0..<m]) atGreedy, g)
         else Inl RepUndefined)"

text \<open>Feedback around the closest of a list of samples, each with its action and gains.\<close>

record fb_sample =
  fb_x :: dvec
  fb_u :: dvec
  fb_L :: "dvec list"     \<comment> \<open>rows\<close>

record sample_feedback =
  sb_samples :: "fb_sample list"
  sb_min :: dvec
  sb_max :: dvec

definition sb_configure :: "dvec \<Rightarrow> dvec \<Rightarrow> rep_error + sample_feedback" where
  "sb_configure mi ma =
     (if length mi \<noteq> length ma then Inl RepBadParam else Inr \<lparr>sb_samples = [], sb_min = mi, sb_max = ma\<rparr>)"

definition sb_clear :: "sample_feedback \<Rightarrow> sample_feedback" where
  "sb_clear s = s\<lparr>sb_samples := []\<rparr>"

definition sb_push :: "fb_sample \<Rightarrow> sample_feedback \<Rightarrow> sample_feedback" where
  "sb_push x s = s\<lparr>sb_samples := sb_samples s @ [x]\<rparr>"

definition sb_copy :: "sample_feedback \<Rightarrow> sample_feedback \<Rightarrow> sample_feedback" where
  "sb_copy source s = s\<lparr>sb_samples := sb_samples source\<rparr>"

definition l1_dist :: "dvec \<Rightarrow> dvec \<Rightarrow> real" where
  "l1_dist inp x = foldl (\<lambda>d jj. d + \<bar>inp ! jj - x ! jj\<bar>) 0 [0..<length inp]"

text \<open>The first of the closest samples.\<close>

fun closest :: "dvec \<Rightarrow> fb_sample list \<Rightarrow> dbl \<Rightarrow> fb_sample option \<Rightarrow> fb_sample option" where
  "closest inp [] best chosen = chosen"
| "closest inp (s # ss) best chosen =
     (let d = l1_dist inp (fb_x s)
      in if d_less (Fin d) best then closest inp ss (Fin d) (Some s) else closest inp ss best chosen)"

definition sb_control :: "dvec \<Rightarrow> fb_sample \<Rightarrow> nat \<Rightarrow> real" where
  "sb_control inp s oo =
     foldl (\<lambda>u ii. u + fb_L s ! oo ! ii * (fb_x s ! ii - inp ! ii)) 0 [0..<length inp]"

text \<open>Without samples the code sets a default action and goes on to the first sample all the same.\<close>

definition sb_act :: "sample_feedback \<Rightarrow> dvec \<Rightarrow> rep_error + action" where
  "sb_act s inp =
     (case sb_samples s of
        [] \<Rightarrow> Inl RepUndefined
      | f # _ \<Rightarrow>
          if length inp \<noteq> length (fb_x f) then Inl RepException
          else if \<exists>q \<in> set (sb_samples s). length (fb_x q) < length inp then Inl RepUndefined
          else (case closest inp (sb_samples s) (Inf True) None of
                  None \<Rightarrow> Inl RepUndefined
                | Some q \<Rightarrow>
                    let m = length (fb_u q)
                    in if m \<le> length (sb_min s) \<and> m \<le> length (sb_max s) \<and> m \<le> length (fb_L q) \<and>
                          (\<forall>row \<in> set (take m (fb_L q)). length inp \<le> length row)
                       then Inr (Action (map (\<lambda>oo. min (max (fb_u q ! oo + sb_control inp q oo) (sb_min s ! oo)) (sb_max s ! oo))
                              [0..<m]) atGreedy)
                       else Inl RepUndefined))"

section \<open>Random and prescribed actions\<close>

fun uniform_each :: "dvec \<Rightarrow> dvec \<Rightarrow> rand \<Rightarrow> (dvec \<times> rand) option" where
  "uniform_each [] mas g = Some ([], g)"
| "uniform_each (mi # mis) (ma # mas) g =
     (let (x, g) = getUniform mi ma g in map_option (\<lambda>(xs, g). (x # xs, g)) (uniform_each mis mas g))"
| "uniform_each (mi # mis) [] g = None"

definition random_configure :: "dvec \<Rightarrow> dvec \<Rightarrow> rep_error + dvec \<times> dvec" where
  "random_configure mi ma = (if length mi \<noteq> length ma then Inl RepBadParam else Inr (mi, ma))"

definition random_act :: "dvec \<Rightarrow> dvec \<Rightarrow> rand \<Rightarrow> rep_error + action \<times> rand" where
  "random_act mi ma g =
     chain (of_option (uniform_each mi ma g)) (\<lambda>(v, g). Inr (Action v atExploratory, g))"

definition random_discrete_act :: "disc \<Rightarrow> dvec \<Rightarrow> rand \<Rightarrow> rep_error + action \<times> rand" where
  "random_discrete_act d inp g =
     chain (of_option (getInteger (d_size d inp) g)) (\<lambda>(ii, g).
     chain (of_option (d_at d inp ii)) (\<lambda>v. Inr (Action v atExploratory, g)))"

definition random_discrete_distribution :: "disc \<Rightarrow> dvec \<Rightarrow> dvec" where
  "random_discrete_distribution d inp = map (\<lambda>_. 1 / real (d_size d inp)) [0..<d_size d inp]"

definition feed_forward_act :: "(dvec \<Rightarrow> dvec) \<Rightarrow> real \<Rightarrow> action" where
  "feed_forward_act controls time = Action (controls [time]) atGreedy"

end
