(* ===== verification/ControllerFacts.thy ===== *)
theory ControllerFacts
  imports Controllers
begin

text \<open>
  Facts about the controllers: a PID controller stays within its limits whatever its gains, follows
  the textbook control law between them, and limits its integrator on one side only; without memory
  it is a state feedback controller; sample feedback uses the closest sample.
\<close>

section \<open>Cells\<close>

lemma cell_eq: "pp < (m :: nat) \<Longrightarrow> oo < m \<Longrightarrow> ii * m + oo = jj * m + pp \<longleftrightarrow> ii = jj \<and> oo = pp"
  by (metis add.commute add_left_cancel div_mult_self1 div_less mod_less mod_mult_self1 add_0 gr_implies_not0)

lemma cell_less: "ii < (n :: nat) \<Longrightarrow> oo < m \<Longrightarrow> ii * m + oo < n * m"
  using mult_le_mono1 [of "Suc ii" n m] by simp

section \<open>Limits\<close>

lemma saturate_bounds: "amin \<le> amax \<Longrightarrow> amin \<le> saturate amin amax u \<and> saturate amin amax u \<le> amax"
  by (cases u) (auto simp: saturate_def d_fmin_def d_fmax_def)

lemma saturate_Fin: "saturate amin amax (Fin u) = min amax (max u amin)"
  by (auto simp: saturate_def d_fmin_def d_fmax_def)

definition pid_wf :: "nat \<Rightarrow> pid \<Rightarrow> bool" where
  "pid_wf n c \<longleftrightarrow> length (pid_setpoint c) = n \<and> length (pid_params c) = 4 * n * pid_outputs c \<and>
     length (pid_ival c) = n * pid_outputs c \<and>
     length (pid_action_min c) = pid_outputs c \<and> length (pid_action_max c) = pid_outputs c"

lemma pid_gains_length: "pid_gains sz d v = Inr w \<Longrightarrow> length w = sz"
  by (auto simp: pid_gains_def Let_def split: if_splits)

lemma pid_configure_wf:
  "pid_configure setpoint outputs amin amax p i d il = Inr c \<Longrightarrow>
   pid_wf (length setpoint) c \<and> pid_setpoint c = setpoint \<and> pid_action_min c = amin \<and> pid_action_max c = amax"
  by (auto simp: pid_configure_def pid_wf_def chain_Inr Let_def split: if_splits dest!: pid_gains_length)

lemma pid_row_length [simp]: "length (snd (pid_row n m par sp x px oo iis u ival)) = length ival"
  by (induction iis arbitrary: u ival) (simp_all add: Let_def)

lemma pid_rows_length [simp]:
  "length (fst (pid_rows n m par sp x px oos ival)) = length oos \<and>
   length (snd (pid_rows n m par sp x px oos ival)) = length ival"
proof (induction oos arbitrary: ival)
  case (Cons oo oos)
  obtain u iv where r: "pid_row n m par sp x px oo [0..<n] (Fin 0) ival = (u, iv)" by fastforce
  have "length iv = length ival"
    using pid_row_length [of n m par sp x px oo "[0..<n]" "Fin 0" ival] r by simp
  with Cons.IH [of iv] r show ?case by (simp add: split_beta Let_def)
qed simp

text \<open>A step from a well-formed controller has an action, and leaves one.\<close>

lemma pid_step_wf:
  assumes "pid_wf n c" and "n \<le> length x" and "time = 0 \<or> n \<le> length (pid_prev_in c)"
  shows "\<exists>a c'. pid_act_timed time x c = Inr (a, c') \<and> pid_wf n c' \<and> pid_prev_in c' = x \<and>
    pid_params c' = pid_params c \<and> pid_setpoint c' = pid_setpoint c \<and> pid_outputs c' = pid_outputs c \<and>
    pid_action_min c' = pid_action_min c \<and> pid_action_max c' = pid_action_max c \<and>
    a_v a = map (\<lambda>oo. saturate (pid_action_min c ! oo) (pid_action_max c ! oo)
      (fst (pid_rows n (pid_outputs c) (pid_params c) (pid_setpoint c) x
         (if time = 0 then x else pid_prev_in c) [0..<pid_outputs c]
         (if time = 0 then replicate (n * pid_outputs c) (Fin 0) else pid_ival c)) ! oo)) [0..<pid_outputs c] \<and>
    pid_ival c' = snd (pid_rows n (pid_outputs c) (pid_params c) (pid_setpoint c) x
         (if time = 0 then x else pid_prev_in c) [0..<pid_outputs c]
         (if time = 0 then replicate (n * pid_outputs c) (Fin 0) else pid_ival c))"
  using assms by (cases "time = 0") (simp_all add: pid_act_timed_def pid_step_def pid_wf_def Let_def Action_def split_beta)

text \<open>A run of the controller over timed inputs.\<close>

fun pid_run :: "(real \<times> dvec) list \<Rightarrow> pid \<Rightarrow> rep_error + dvec list \<times> pid" where
  "pid_run [] c = Inr ([], c)"
| "pid_run ((time, x) # xs) c =
     chain (pid_act_timed time x c) (\<lambda>(a, c). chain (pid_run xs c) (\<lambda>(as, c). Inr (a_v a # as, c)))"

definition within_limits :: "dvec \<Rightarrow> dvec \<Rightarrow> dvec \<Rightarrow> bool" where
  "within_limits mi ma v \<longleftrightarrow> length v = length mi \<and> (\<forall>k < length v. mi ! k \<le> v ! k \<and> v ! k \<le> ma ! k)"

lemma pid_run_safe:
  assumes "pid_wf n c" and "\<forall>(time, x) \<in> set xs. n \<le> length x"
    and "n \<le> length (pid_prev_in c) \<or> xs = [] \<or> fst (hd xs) = 0"
    and "\<forall>k < pid_outputs c. pid_action_min c ! k \<le> pid_action_max c ! k"
  shows "\<exists>as c'. pid_run xs c = Inr (as, c') \<and> pid_wf n c' \<and> length as = length xs \<and>
    (\<forall>a \<in> set as. within_limits (pid_action_min c) (pid_action_max c) a)"
  using assms
proof (induction xs arbitrary: c)
  case Nil
  then show ?case by simp
next
  case (Cons y xs)
  obtain time x where y: "y = (time, x)" by fastforce
  have n: "n \<le> length x" and t: "time = 0 \<or> n \<le> length (pid_prev_in c)" using Cons.prems(2,3) y by auto
  from pid_step_wf [OF Cons.prems(1) n t] obtain a c1 us where
    s: "pid_act_timed time x c = Inr (a, c1)" "pid_wf n c1" "pid_prev_in c1 = x" and
    e: "pid_outputs c1 = pid_outputs c" "pid_action_min c1 = pid_action_min c" "pid_action_max c1 = pid_action_max c" and
    v: "a_v a = map (\<lambda>oo. saturate (pid_action_min c ! oo) (pid_action_max c ! oo) (us ! oo)) [0..<pid_outputs c]"
    by blast
  have "within_limits (pid_action_min c) (pid_action_max c) (a_v a)"
    using Cons.prems(1,4) by (simp add: v within_limits_def pid_wf_def saturate_bounds)
  moreover have "\<exists>as c'. pid_run xs c1 = Inr (as, c') \<and> pid_wf n c' \<and> length as = length xs \<and>
      (\<forall>a \<in> set as. within_limits (pid_action_min c1) (pid_action_max c1) a)"
    using Cons.IH [OF s(2)] Cons.prems(2,4) n s(3) e by simp
  ultimately show ?case using s(1) e y by auto
qed

text \<open>a PID controller is safe. However it is configured, with whatever gains and limits of its
  integrator (infinite and NaN included), any number of episodes of inputs of its dimension gives
  actions of the right size within the action limits, without an error.\<close>

theorem pid_safe:
  assumes "pid_configure setpoint outputs amin amax p i d il = Inr c"
    and "\<forall>(time, x) \<in> set xs. length setpoint \<le> length x" and "xs = [] \<or> fst (hd xs) = 0"
    and "\<forall>k < outputs. amin ! k \<le> amax ! k"
  shows "\<exists>as c'. pid_run xs c = Inr (as, c') \<and> length as = length xs \<and> (\<forall>a \<in> set as. within_limits amin amax a)"
proof -
  have "pid_outputs c = outputs"
    using assms(1) by (auto simp: pid_configure_def chain_Inr Let_def split: if_splits)
  then show ?thesis using pid_run_safe [of "length setpoint" c xs] pid_configure_wf [OF assms(1)] assms(2-4) by auto
qed

theorem pid_safe_witness:
  "\<exists>c as c'. pid_configure [1] 1 [-1] [1] [Inf True] [] [NaN] [] = Inr c \<and>
    pid_run [(0, [0]), (1, [5]), (0, [1])] c = Inr (as, c') \<and> (\<forall>a \<in> set as. within_limits [-1] [1] a)"
proof -
  obtain c where c: "pid_configure [1] 1 [-1] [1] [Inf True] [] [NaN] [] = Inr c"
    by (simp add: pid_configure_def pid_gains_def)
  then show ?thesis using pid_safe [OF c, of "[(0, [0]), (1, [5]), (0, [1])]"] by fastforce
qed

section \<open>The control law\<close>

text \<open>The integral of an input after a step, and the term of the sum for it.\<close>

definition pid_acc :: "nat \<Rightarrow> nat \<Rightarrow> dbl list \<Rightarrow> dvec \<Rightarrow> dvec \<Rightarrow> dbl list \<Rightarrow> nat \<Rightarrow> nat \<Rightarrow> dbl" where
  "pid_acc n m par sp x ival oo ii =
     d_fmin (d_add (ival ! (ii * m + oo)) (Fin (sp ! ii - x ! ii))) (par ! at_IL n m ii oo)"

definition pid_term :: "nat \<Rightarrow> nat \<Rightarrow> dbl list \<Rightarrow> dvec \<Rightarrow> dvec \<Rightarrow> dvec \<Rightarrow> dbl list \<Rightarrow> nat \<Rightarrow> nat \<Rightarrow> dbl" where
  "pid_term n m par sp x px ival oo ii =
     d_add (d_add (d_mul (par ! at_P n ii oo) (Fin (sp ! ii - x ! ii)))
        (d_mul (par ! at_I n m ii oo) (pid_acc n m par sp x ival oo ii)))
       (d_mul (par ! at_D n m ii oo) (Fin (x ! ii - px ! ii)))"

lemma pid_row_cells:
  assumes "distinct iis" and "\<forall>ii \<in> set iis. ii < n" and "oo < m" and "length ival = n * m"
  shows "fst (pid_row n m par sp x px oo iis u ival) =
      foldl d_add u (map (pid_term n m par sp x px ival oo) iis) \<and>
    (\<forall>ii < n. \<forall>pp < m. snd (pid_row n m par sp x px oo iis u ival) ! (ii * m + pp) =
      (if pp = oo \<and> ii \<in> set iis then pid_acc n m par sp x ival oo ii else ival ! (ii * m + pp)))"
  using assms
proof (induction iis arbitrary: u ival)
  case (Cons jj iis)
  let ?iv = "ival[jj * m + oo := pid_acc n m par sp x ival oo jj]"
  have jj: "jj < n" "jj \<notin> set iis" using Cons.prems by auto
  have get: "?iv ! (ii * m + pp) = (if ii = jj \<and> pp = oo then pid_acc n m par sp x ival oo jj else ival ! (ii * m + pp))"
    if "ii < n" "pp < m" for ii pp
    using that cell_less [OF jj(1) Cons.prems(3)] cell_eq [of pp m oo jj ii] Cons.prems(3,4)
    by (simp add: nth_list_update eq_commute)
  have acc: "pid_acc n m par sp x ?iv oo ii = pid_acc n m par sp x ival oo ii" if "ii \<in> set iis" for ii
    using get [of ii oo] Cons.prems(2,3) jj(2) that by (auto simp: pid_acc_def)
  have trm: "map (pid_term n m par sp x px ?iv oo) iis = map (pid_term n m par sp x px ival oo) iis"
    using acc by (simp add: pid_term_def)
  have IH: "fst (pid_row n m par sp x px oo iis v ?iv) =
      foldl d_add v (map (pid_term n m par sp x px ?iv oo) iis) \<and>
    (\<forall>ii < n. \<forall>pp < m. snd (pid_row n m par sp x px oo iis v ?iv) ! (ii * m + pp) =
      (if pp = oo \<and> ii \<in> set iis then pid_acc n m par sp x ?iv oo ii else ?iv ! (ii * m + pp)))" for v
    using Cons.IH [of ?iv v] Cons.prems by simp
  have row: "pid_row n m par sp x px oo (jj # iis) u ival =
      pid_row n m par sp x px oo iis (d_add u (pid_term n m par sp x px ival oo jj)) ?iv"
    by (simp add: pid_acc_def pid_term_def Let_def)
  show ?case unfolding row using IH acc get trm jj(2) by auto
qed simp

lemma pid_rows_cells:
  assumes "distinct oos" and "\<forall>oo \<in> set oos. oo < m" and "length ival = n * m"
  shows "fst (pid_rows n m par sp x px oos ival) =
      map (\<lambda>oo. foldl d_add (Fin 0) (map (pid_term n m par sp x px ival oo) [0..<n])) oos \<and>
    (\<forall>ii < n. \<forall>pp < m. snd (pid_rows n m par sp x px oos ival) ! (ii * m + pp) =
      (if pp \<in> set oos then pid_acc n m par sp x ival pp ii else ival ! (ii * m + pp)))"
  using assms
proof (induction oos arbitrary: ival)
  case (Cons oo oos)
  obtain u iv where r: "pid_row n m par sp x px oo [0..<n] (Fin 0) ival = (u, iv)" by fastforce
  have oo: "oo < m" "oo \<notin> set oos" using Cons.prems by auto
  have u: "u = foldl d_add (Fin 0) (map (pid_term n m par sp x px ival oo) [0..<n])" and
    iv: "\<And>ii pp. ii < n \<Longrightarrow> pp < m \<Longrightarrow>
      iv ! (ii * m + pp) = (if pp = oo then pid_acc n m par sp x ival oo ii else ival ! (ii * m + pp))"
    using pid_row_cells [of "[0..<n]" n oo m ival par sp x px "Fin 0"] oo(1) Cons.prems(3) r by simp_all
  have "length iv = n * m"
    using pid_row_length [of n m par sp x px oo "[0..<n]" "Fin 0" ival] r Cons.prems(3) by simp
  note IH = Cons.IH [of iv, OF _ _ this]
  have acc: "pid_acc n m par sp x iv pp ii = pid_acc n m par sp x ival pp ii" if "pp \<in> set oos" "ii < n" for pp ii
    using iv [of ii pp] that oo(2) Cons.prems(2) by (auto simp: pid_acc_def)
  have "map (\<lambda>oo. foldl d_add (Fin 0) (map (pid_term n m par sp x px iv oo) [0..<n])) oos =
      map (\<lambda>oo. foldl d_add (Fin 0) (map (pid_term n m par sp x px ival oo) [0..<n])) oos"
    using acc by (intro map_cong refl arg_cong [where f = "foldl d_add (Fin 0)"]) (simp_all add: pid_term_def)
  then show ?case using IH Cons.prems oo u iv acc r by (auto simp: split_beta Let_def)
qed simp

text \<open>The textbook controller: proportional to the error, to its integral, limited above after every
  step, and to the last change of the input.\<close>

definition integrate :: "dbl \<Rightarrow> real \<Rightarrow> real \<Rightarrow> real" where
  "integrate cap s e = (case cap of Fin l \<Rightarrow> min (s + e) l | _ \<Rightarrow> s + e)"

definition pid_law :: "dvec \<Rightarrow> dvec \<Rightarrow> dvec \<Rightarrow> dbl list \<Rightarrow> dvec \<Rightarrow> (nat \<Rightarrow> real) \<Rightarrow> dvec list \<Rightarrow> dvec \<Rightarrow> nat \<Rightarrow> real" where
  "pid_law p i d il sp s xs px oo =
     (let n = length sp
      in \<Sum>ii<n. p ! at_P n ii oo * (sp ! ii - last xs ! ii) +
           i ! at_P n ii oo * foldl (integrate (il ! at_P n ii oo)) (s ii) (map (\<lambda>x. sp ! ii - x ! ii) xs) +
           d ! at_P n ii oo * (last xs ! ii - px ! ii))"

lemma integrate_d: "cap \<noteq> Inf False \<Longrightarrow> d_fmin (d_add (Fin s) (Fin e)) cap = Fin (integrate cap s e)"
  by (cases cap) (auto simp: integrate_def d_fmin_def)

lemma foldl_Fin: "foldl d_add (Fin u) (map (\<lambda>ii. Fin (f ii)) [0..<n]) = Fin (u + (\<Sum>ii<n. f ii))"
  by (induction n) simp_all

definition pid_tuned :: "nat \<Rightarrow> nat \<Rightarrow> dvec \<Rightarrow> dvec \<Rightarrow> dvec \<Rightarrow> dbl list \<Rightarrow> bool" where
  "pid_tuned n m p i d il \<longleftrightarrow> length p = n * m \<and> length i = n * m \<and> length d = n * m \<and> length il = n * m \<and>
     Inf False \<notin> set il"

definition tuning :: "dvec \<Rightarrow> dvec \<Rightarrow> dvec \<Rightarrow> dbl list \<Rightarrow> dbl list" where
  "tuning p i d il = map Fin p @ map Fin i @ map Fin d @ il"

lemma gains:
  assumes "pid_tuned n m p i d il" and "ii < n" and "oo < m"
  shows "tuning p i d il ! at_P n ii oo = Fin (p ! at_P n ii oo)" and "tuning p i d il ! at_I n m ii oo = Fin (i ! at_P n ii oo)"
    and "tuning p i d il ! at_D n m ii oo = Fin (d ! at_P n ii oo)" and "tuning p i d il ! at_IL n m ii oo = il ! at_P n ii oo"
    and "il ! at_P n ii oo \<noteq> Inf False"
proof -
  have less: "at_P n ii oo < n * m"
    using cell_less [OF assms(3,2)] by (simp add: at_P_def mult.commute)
  have sizes: "length p = n * m" "length i = n * m" "length d = n * m" "length il = n * m"
    "Inf False \<notin> set il" using assms(1) by (simp_all add: pid_tuned_def)
  show "tuning p i d il ! at_P n ii oo = Fin (p ! at_P n ii oo)" "tuning p i d il ! at_I n m ii oo = Fin (i ! at_P n ii oo)"
    "tuning p i d il ! at_D n m ii oo = Fin (d ! at_P n ii oo)" "tuning p i d il ! at_IL n m ii oo = il ! at_P n ii oo"
    using sizes less by (simp_all add: tuning_def nth_append at_I_def at_D_def at_IL_def)
  show "il ! at_P n ii oo \<noteq> Inf False" using sizes less by (metis nth_mem)
qed

lemma step_law:
  assumes "pid_tuned n m p i d il" and "length sp = n" and "length ival = n * m"
    and "\<forall>ii < n. \<forall>oo < m. ival ! (ii * m + oo) = Fin (s oo ii)"
  shows "oo < m \<Longrightarrow> fst (pid_rows n m (tuning p i d il) sp x px [0..<m] ival) ! oo = Fin (pid_law p i d il sp (s oo) [x] px oo)"
    and "ii < n \<Longrightarrow> oo < m \<Longrightarrow> snd (pid_rows n m (tuning p i d il) sp x px [0..<m] ival) ! (ii * m + oo) =
      Fin (integrate (il ! at_P n ii oo) (s oo ii) (sp ! ii - x ! ii))"
proof -
  have acc: "pid_acc n m (tuning p i d il) sp x ival oo ii = Fin (integrate (il ! at_P n ii oo) (s oo ii) (sp ! ii - x ! ii))"
    if "ii < n" "oo < m" for ii oo
    using that assms(4) gains [OF assms(1) that] by (simp add: pid_acc_def integrate_d del: d_add.simps)
  note cells = pid_rows_cells [of "[0..<m]" m ival n "tuning p i d il" sp x px, OF distinct_upt _ assms(3), simplified]
  show "fst (pid_rows n m (tuning p i d il) sp x px [0..<m] ival) ! oo = Fin (pid_law p i d il sp (s oo) [x] px oo)" if "oo < m"
  proof -
    have trm: "map (pid_term n m (tuning p i d il) sp x px ival oo) [0..<n] =
        map (\<lambda>ii. Fin (p ! at_P n ii oo * (sp ! ii - x ! ii) +
          i ! at_P n ii oo * integrate (il ! at_P n ii oo) (s oo ii) (sp ! ii - x ! ii) +
          d ! at_P n ii oo * (x ! ii - px ! ii))) [0..<n]"
      using acc gains [OF assms(1)] that by (intro map_cong refl) (simp add: pid_term_def)
    have "foldl d_add (Fin 0) (map (pid_term n m (tuning p i d il) sp x px ival oo) [0..<n]) =
        Fin (pid_law p i d il sp (s oo) [x] px oo)"
      unfolding trm foldl_Fin by (simp add: pid_law_def assms(2))
    then show ?thesis using cells that by simp
  qed
  show "snd (pid_rows n m (tuning p i d il) sp x px [0..<m] ival) ! (ii * m + oo) =
      Fin (integrate (il ! at_P n ii oo) (s oo ii) (sp ! ii - x ! ii))" if "ii < n" "oo < m"
    using cells that acc [OF that] by simp
qed

lemma pid_law_Cons:
  "xs \<noteq> [] \<Longrightarrow> pid_law p i d il sp s (x # xs) px oo =
   pid_law p i d il sp (\<lambda>ii. integrate (il ! at_P (length sp) ii oo) (s ii) (sp ! ii - x ! ii)) xs px oo"
  by (simp add: pid_law_def)

definition pid_action :: "pid \<Rightarrow> (nat \<Rightarrow> real) \<Rightarrow> dvec" where
  "pid_action c f = map (\<lambda>oo. min (pid_action_max c ! oo) (max (f oo) (pid_action_min c ! oo))) [0..<pid_outputs c]"

lemma pid_run_law:
  assumes "pid_tuned n m p i d il"
  shows "\<lbrakk>pid_wf n c; pid_params c = tuning p i d il; pid_outputs c = m; n \<le> length (pid_prev_in c);
      \<forall>ii < n. \<forall>oo < m. pid_ival c ! (ii * m + oo) = Fin (s oo ii);
      \<forall>(time, x) \<in> set xs. time \<noteq> 0 \<and> n \<le> length x\<rbrakk> \<Longrightarrow>
    \<exists>as c'. pid_run xs c = Inr (as, c') \<and> length as = length xs \<and> (\<forall>k < length xs. as ! k = pid_action c
      (\<lambda>oo. pid_law p i d il (pid_setpoint c) (s oo) (map snd (take (Suc k) xs))
         ((pid_prev_in c # map snd xs) ! k) oo))"
proof (induction xs arbitrary: c s)
  case (Cons y xs)
  obtain time x where y: "y = (time, x)" by fastforce
  have x: "n \<le> length x" "time \<noteq> 0" using Cons.prems(6) y by auto
  have sz: "length (pid_setpoint c) = n" "length (pid_ival c) = n * m" using Cons.prems(1,3) by (simp_all add: pid_wf_def)
  note law = step_law [OF assms sz Cons.prems(5)]
  let ?s = "\<lambda>oo ii. integrate (il ! at_P n ii oo) (s oo ii) (pid_setpoint c ! ii - x ! ii)"
  from pid_step_wf [OF Cons.prems(1) x(1) disjI2 [OF Cons.prems(4)], of time] x(2) Cons.prems(2,3) obtain a c1 where
    st: "pid_act_timed time x c = Inr (a, c1)" "pid_wf n c1" "pid_prev_in c1 = x" and
    e: "pid_params c1 = tuning p i d il" "pid_setpoint c1 = pid_setpoint c" "pid_outputs c1 = m"
      "pid_action_min c1 = pid_action_min c" "pid_action_max c1 = pid_action_max c" and
    v: "a_v a = map (\<lambda>oo. saturate (pid_action_min c ! oo) (pid_action_max c ! oo)
      (fst (pid_rows n m (tuning p i d il) (pid_setpoint c) x (pid_prev_in c) [0..<m] (pid_ival c)) ! oo)) [0..<m]" and
    iv: "pid_ival c1 = snd (pid_rows n m (tuning p i d il) (pid_setpoint c) x (pid_prev_in c) [0..<m] (pid_ival c))"
    by auto
  have act: "a_v a = pid_action c (\<lambda>oo. pid_law p i d il (pid_setpoint c) (s oo) [x] (pid_prev_in c) oo)"
    unfolding v pid_action_def Cons.prems(3) by (rule map_cong) (simp_all add: law(1) saturate_Fin)
  have iv1: "\<forall>ii < n. \<forall>oo < m. pid_ival c1 ! (ii * m + oo) = Fin (?s oo ii)"
    using law(2) by (simp add: iv)
  have same: "pid_action c1 = pid_action c" using e Cons.prems(3) by (simp add: pid_action_def fun_eq_iff)
  have prev: "n \<le> length (pid_prev_in c1)" using st(3) x(1) by simp
  have later: "\<forall>(time, x) \<in> set xs. time \<noteq> 0 \<and> n \<le> length x" using Cons.prems(6) by auto
  from Cons.IH [OF st(2) e(1,3) prev iv1 later] obtain as c' where
    run: "pid_run xs c1 = Inr (as, c')" "length as = length xs" and
    as: "\<forall>k < length xs. as ! k = pid_action c (\<lambda>oo. pid_law p i d il (pid_setpoint c) (?s oo)
      (map snd (take (Suc k) xs)) ((x # map snd xs) ! k) oo)"
    unfolding same e(2) st(3) by blast
  have "(a_v a # as) ! k = pid_action c (\<lambda>oo. pid_law p i d il (pid_setpoint c) (s oo)
      (map snd (take (Suc k) (y # xs))) ((pid_prev_in c # map snd (y # xs)) ! k) oo)" if "k < length (y # xs)" for k
  proof (cases k)
    case 0
    then show ?thesis by (simp add: act y)
  next
    case (Suc j)
    then have j: "j < length xs" using that by simp
    then have "map snd (take (Suc j) xs) \<noteq> []" by auto
    then show ?thesis using as j Suc by (simp add: y pid_law_Cons sz(1) del: take_Suc_Cons) (simp add: pid_law_Cons sz(1))
  qed
  then show ?case using st(1) run y by (intro exI [of _ "a_v a # as"] exI [of _ c']) simp
qed simp

lemma pid_configure_tuned:
  assumes "pid_configure setpoint outputs amin amax (map Fin p) (map Fin i) (map Fin d) il = Inr c"
    and "pid_tuned (length setpoint) outputs p i d il'"
    and "il = il' \<or> il = [] \<and> il' = replicate (length setpoint * outputs) (Inf True)"
  shows "pid_params c = tuning p i d il'" and "pid_outputs c = outputs"
  using assms by (auto simp: pid_configure_def pid_tuned_def tuning_def pid_gains_def chain_Inr Let_def split: if_splits)

text \<open>A whole episode.\<close>

lemma pid_episode:
  assumes wf: "pid_wf n c" and tuned: "pid_tuned n m p i d il" and par: "pid_params c = tuning p i d il"
    and m: "pid_outputs c = m"
    and first: "\<forall>k < length xs. fst (xs ! k) = 0 \<longleftrightarrow> k = 0" and len: "\<forall>(time, x) \<in> set xs. n \<le> length x"
  shows "\<exists>as c'. pid_run xs c = Inr (as, c') \<and> length as = length xs \<and> (\<forall>k < length xs. as ! k = pid_action c
    (\<lambda>oo. pid_law p i d il (pid_setpoint c) (\<lambda>_. 0) (map snd (take (Suc k) xs)) (snd (xs ! (k - 1))) oo))"
proof (cases xs)
  case (Cons y ys)
  obtain x where y: "y = (0, x)" using first Cons by (metis length_greater_0_conv list.distinct(1) nth_Cons_0 prod.collapse)
  define c0 where "c0 = c\<lparr>pid_ival := replicate (n * m) (Fin 0), pid_prev_in := x\<rparr>"
  have sp: "length (pid_setpoint c) = n" using wf by (simp add: pid_wf_def)
  have start: "pid_act_timed 0 x c = pid_act_timed 1 x c0"
    by (simp add: pid_act_timed_def pid_step_def c0_def sp m Let_def)
  have later: "\<forall>(time, x) \<in> set ((1, x) # ys). time \<noteq> 0 \<and> n \<le> length x"
  proof -
    have "fst z \<noteq> 0" if "z \<in> set ys" for z
    proof -
      from that obtain k where "k < length ys" "z = ys ! k" by (metis in_set_conv_nth)
      then show ?thesis using first [rule_format, of "Suc k"] Cons by simp
    qed
    then show ?thesis using len Cons y by fastforce
  qed
  have "pid_wf n c0" using wf m by (simp add: pid_wf_def c0_def)
  moreover have "n \<le> length x" using later by auto
  ultimately obtain as c' where
    run: "pid_run ((1, x) # ys) c0 = Inr (as, c')" "length as = length ((1, x) # ys)"
    "\<forall>k < length ((1, x) # ys). as ! k = pid_action c0 (\<lambda>oo. pid_law p i d il (pid_setpoint c0) (\<lambda>_. 0)
       (map snd (take (Suc k) ((1, x) # ys))) ((pid_prev_in c0 # map snd ((1, x) # ys)) ! k) oo)"
    using pid_run_law [OF tuned, of c0 "\<lambda>_ _. 0" "(1, x) # ys", OF _ _ _ _ _ later] par m
    by (auto simp: c0_def cell_less)
  have act: "pid_action (c\<lparr>pid_ival := u, pid_prev_in := v\<rparr>) f = pid_action c f" for u v f by (simp add: pid_action_def)
  have prev: "(x # x # map snd ys) ! k = snd (xs ! (k - 1))" if "k < length xs" for k
    using that by (cases k; cases "k - 1") (auto simp: Cons y)
  have "pid_run xs c = Inr (as, c')" using run(1) start by (simp add: Cons y)
  moreover have "as ! k = pid_action c (\<lambda>oo. pid_law p i d il (pid_setpoint c) (\<lambda>_. 0)
      (map snd (take (Suc k) xs)) (snd (xs ! (k - 1))) oo)" if "k < length xs" for k
    using run(3) [rule_format, of k] prev [OF that] that by (simp add: act c0_def Cons y)
  ultimately show ?thesis using run(2) Cons by auto
qed simp

lemma integrate_plain: "foldl (integrate (Inf True)) u es = u + sum_list es"
  by (induction es arbitrary: u) (simp_all add: integrate_def)

lemma sum_list_take: "k < length xs \<Longrightarrow> sum_list (map f (take (Suc k) xs)) = (\<Sum>j\<le>k. f (xs ! j) :: real)"
proof -
  assume "k < length xs"
  then have "map f (take (Suc k) xs) = map (\<lambda>j. f (xs ! j)) [0..<Suc k]"
    by (intro nth_equalityI) (simp_all del: upt_Suc)
  then show ?thesis by (simp only: interv_sum_list_conv_sum_set_nat set_upt atLeast0LessThan lessThan_Suc_atMost)
qed

text \<open>between its action limits, a PID controller whose integrator is not limited is the textbook
  controller. In an episode (a time of zero with its first input only), each output is the saturated
  sum over the inputs of the proportional gain times the current error, the integral gain times the
  sum of all errors so far, and the derivative gain times the last change of the input.\<close>

theorem pid_control_law:
  fixes setpoint p i d :: dvec
  defines "n \<equiv> length setpoint"
  assumes "pid_configure setpoint outputs amin amax (map Fin p) (map Fin i) (map Fin d) [] = Inr c"
    and "length p = n * outputs" and "length i = n * outputs" and "length d = n * outputs"
    and "\<forall>k < length xs. fst (xs ! k) = 0 \<longleftrightarrow> k = 0" and "\<forall>(time, x) \<in> set xs. n \<le> length x"
  shows "\<exists>as c'. pid_run xs c = Inr (as, c') \<and> length as = length xs \<and> (\<forall>k < length xs. \<forall>oo < outputs.
    as ! k ! oo = min (amax ! oo) (max (\<Sum>ii<n.
        p ! (oo * n + ii) * (setpoint ! ii - snd (xs ! k) ! ii) +
        i ! (oo * n + ii) * (\<Sum>j\<le>k. setpoint ! ii - snd (xs ! j) ! ii) +
        d ! (oo * n + ii) * (snd (xs ! k) ! ii - snd (xs ! (k - 1)) ! ii)) (amin ! oo)))"
proof -
  let ?il = "replicate (n * outputs) (Inf True)"
  have tuned: "pid_tuned n outputs p i d ?il" using assms(3-5) by (simp add: pid_tuned_def)
  note c = pid_configure_wf [OF assms(2)] pid_configure_tuned [OF assms(2), of ?il] tuned
  have less: "oo * n + ii < n * outputs" if "ii < n" "oo < outputs" for ii oo
    using cell_less [OF that(2,1)] by (simp add: mult.commute)
  have last: "last (map snd (take (Suc k) xs)) = snd (xs ! k)" if "k < length xs" for k
    using that by (simp add: last_map last_conv_nth take_Suc_conv_app_nth)
  have law: "pid_law p i d ?il setpoint (\<lambda>_. 0) (map snd (take (Suc k) xs)) (snd (xs ! (k - 1))) oo = (\<Sum>ii<n.
        p ! (oo * n + ii) * (setpoint ! ii - snd (xs ! k) ! ii) +
        i ! (oo * n + ii) * (\<Sum>j\<le>k. setpoint ! ii - snd (xs ! j) ! ii) +
        d ! (oo * n + ii) * (snd (xs ! k) ! ii - snd (xs ! (k - 1)) ! ii))" if "k < length xs" "oo < outputs" for k oo
    unfolding pid_law_def Let_def last [OF that(1)] n_def [symmetric]
    by (rule sum.cong) (simp_all add: at_P_def less that(2) integrate_plain comp_def
      sum_list_take [OF that(1), of "\<lambda>x. setpoint ! _ - snd x ! _"] del: take_Suc)
  from pid_episode [of n c outputs p i d ?il xs] c assms(6,7) obtain as c' where
    "pid_run xs c = Inr (as, c')" "length as = length xs"
    "\<forall>k < length xs. as ! k = pid_action c (\<lambda>oo. pid_law p i d ?il setpoint (\<lambda>_. 0)
      (map snd (take (Suc k) xs)) (snd (xs ! (k - 1))) oo)" by (auto simp: n_def)
  then show ?thesis using law c by (intro exI [of _ as] exI [of _ c']) (simp add: pid_action_def n_def)
qed

theorem pid_control_law_witness:
  "\<exists>c as c'. pid_configure [1] 1 [-10] [10] [Fin 1] [Fin 1] [Fin 2] [] = Inr c \<and>
    pid_run [(0, [0]), (1, [3])] c = Inr (as, c') \<and> as ! 1 ! 0 = 3"
proof -
  obtain c where c: "pid_configure [1] 1 [-10] [10] (map Fin [1]) (map Fin [1]) (map Fin [2]) [] = Inr c"
    by (simp add: pid_configure_def pid_gains_def)
  have first: "\<forall>k < length [(0 :: real, [0 :: real]), (1, [3])]. fst ([(0 :: real, [0 :: real]), (1, [3])] ! k) = 0 \<longleftrightarrow> k = 0"
    by (simp add: All_less_Suc2)
  from pid_control_law [OF c _ _ _ first] obtain as c' where
    run: "pid_run [(0, [0]), (1, [3])] c = Inr (as, c')" and
    as: "\<forall>k < 2. as ! k ! 0 = min 10 (max (1 * (1 - snd ([(0 :: real, [0 :: real]), (1, [3])] ! k) ! 0) +
      1 * (\<Sum>j\<le>k. 1 - snd ([(0 :: real, [0 :: real]), (1, [3])] ! j) ! 0) +
      2 * (snd ([(0 :: real, [0 :: real]), (1, [3])] ! k) ! 0 - snd ([(0 :: real, [0 :: real]), (1, [3])] ! (k - 1)) ! 0)) (- 10))"
    by auto
  have "as ! 1 ! 0 = 3" using as [rule_format, of 1] by simp
  then show ?thesis using c run by auto
qed

lemma integrate_below:
  "0 \<le> b \<Longrightarrow> u \<le> 0 \<Longrightarrow> \<forall>e \<in> set es. e \<le> 0 \<Longrightarrow> foldl (integrate (Fin b)) u es = u + sum_list es"
proof (induction es arbitrary: u)
  case (Cons e es)
  then have "min (u + e) b = u + e" "u + e \<le> 0" by auto
  then show ?case using Cons by (simp add: integrate_def)
qed simp

text \<open>the integration limits bound the integral from above only. While the inputs stay at or above the
  set point, a controller with nonnegative limits acts as one without any limits does: its integral
  decreases without bound.\<close>

theorem pid_limit_one_sided:
  fixes setpoint p i d :: dvec
  defines "n \<equiv> length setpoint"
  assumes limited: "pid_configure setpoint outputs amin amax (map Fin p) (map Fin i) (map Fin d) (map Fin il) = Inr c"
    and unlimited: "pid_configure setpoint outputs amin amax (map Fin p) (map Fin i) (map Fin d) [] = Inr c'"
    and "length p = n * outputs" and "length i = n * outputs" and "length d = n * outputs" and "length il = n * outputs"
    and nonneg: "\<forall>l \<in> set il. 0 \<le> l" and first: "\<forall>k < length xs. fst (xs ! k) = 0 \<longleftrightarrow> k = 0"
    and above: "\<forall>(time, x) \<in> set xs. n \<le> length x \<and> (\<forall>ii < n. setpoint ! ii \<le> x ! ii)"
  shows "\<exists>as c1 c2. pid_run xs c = Inr (as, c1) \<and> pid_run xs c' = Inr (as, c2)"
proof -
  let ?inf = "replicate (n * outputs) (Inf True)"
  have tuned: "pid_tuned n outputs p i d ?inf" "pid_tuned n outputs p i d (map Fin il)"
    using assms(4-7) by (auto simp: pid_tuned_def)
  note c = pid_configure_wf [OF limited] pid_configure_tuned [OF limited, of "map Fin il"] tuned
  note c' = pid_configure_wf [OF unlimited] pid_configure_tuned [OF unlimited, of ?inf]
  have len: "\<forall>(time, x) \<in> set xs. n \<le> length x" using above by auto
  obtain as c1 where run: "pid_run xs c = Inr (as, c1)" "length as = length xs"
    "\<forall>k < length xs. as ! k = pid_action c (\<lambda>oo. pid_law p i d (map Fin il) setpoint (\<lambda>_. 0)
      (map snd (take (Suc k) xs)) (snd (xs ! (k - 1))) oo)"
    using pid_episode [of n c outputs p i d "map Fin il" xs] c first len by (auto simp: n_def)
  obtain as' c2 where run': "pid_run xs c' = Inr (as', c2)" "length as' = length xs"
    "\<forall>k < length xs. as' ! k = pid_action c' (\<lambda>oo. pid_law p i d ?inf setpoint (\<lambda>_. 0)
      (map snd (take (Suc k) xs)) (snd (xs ! (k - 1))) oo)"
    using pid_episode [of n c' outputs p i d ?inf xs] c' tuned first len by (auto simp: n_def)
  have law: "pid_law p i d (map Fin il) setpoint (\<lambda>_. 0) (map snd (take (Suc k) xs)) px oo =
      pid_law p i d ?inf setpoint (\<lambda>_. 0) (map snd (take (Suc k) xs)) px oo" if "oo < outputs" for k px oo
  proof -
    have "foldl (integrate (map Fin il ! at_P n ii oo)) 0 (map (\<lambda>x. setpoint ! ii - x ! ii) (map snd (take (Suc k) xs))) =
        foldl (integrate (?inf ! at_P n ii oo)) 0 (map (\<lambda>x. setpoint ! ii - x ! ii) (map snd (take (Suc k) xs)))"
      if ii: "ii < n" for ii
    proof -
      have less: "at_P n ii oo < n * outputs"
        using cell_less [OF \<open>oo < outputs\<close> ii] by (simp add: at_P_def mult.commute)
      have "\<forall>e \<in> set (map (\<lambda>x. setpoint ! ii - x ! ii) (map snd (take (Suc k) xs))). e \<le> 0"
        using above ii by (fastforce dest: in_set_takeD)
      moreover have "0 \<le> il ! at_P n ii oo" using nonneg less assms(7) by (metis nth_mem)
      ultimately show ?thesis using less assms(7) by (simp add: integrate_below integrate_plain del: map_map take_Suc)
    qed
    then show ?thesis unfolding pid_law_def Let_def n_def [symmetric] by (intro sum.cong refl) simp
  qed
  have "pid_action c f = pid_action c' h" if "\<And>oo. oo < outputs \<Longrightarrow> f oo = h oo" for f h
    using c c' that by (simp add: pid_action_def n_def)
  then have "as = as'" using run(2,3) run'(2,3) law by (intro nth_equalityI) simp_all
  then show ?thesis using run(1) run'(1) by blast
qed

theorem pid_limit_one_sided_witness:
  "\<exists>c c' as c1 c2. pid_configure [0] 1 [-9] [9] [Fin 0] [Fin 1] [Fin 0] [Fin 2] = Inr c \<and>
    pid_configure [0] 1 [-9] [9] [Fin 0] [Fin 1] [Fin 0] [] = Inr c' \<and>
    pid_run [(0, [3]), (1, [3])] c = Inr (as, c1) \<and> pid_run [(0, [3]), (1, [3])] c' = Inr (as, c2)"
proof -
  obtain c c' where c: "pid_configure [0] 1 [-9] [9] (map Fin [0]) (map Fin [1]) (map Fin [0]) (map Fin [2]) = Inr c"
    "pid_configure [0] 1 [-9] [9] (map Fin [0]) (map Fin [1]) (map Fin [0]) [] = Inr c'"
    by (simp add: pid_configure_def pid_gains_def)
  have first: "\<forall>k < length [(0 :: real, [3 :: real]), (1, [3])]. fst ([(0 :: real, [3 :: real]), (1, [3])] ! k) = 0 \<longleftrightarrow> k = 0"
    by (simp add: All_less_Suc2)
  from pid_limit_one_sided [OF c _ _ _ _ _ first] c show ?thesis by (simp add: All_less_Suc2)
qed

section \<open>State feedback\<close>

lemma foldl_sum: "foldl (\<lambda>u ii. u + f ii) u [0..<n] = u + (\<Sum>ii<n. f ii :: real)"
  by (induction n) simp_all

lemma foldl_Fin_sum: "foldl (\<lambda>u ii. d_add u (Fin (f ii))) (Fin u) [0..<n] = Fin (u + (\<Sum>ii<n. f ii))"
  by (induction n) simp_all

text \<open>without time, a PID controller is a state feedback controller around its set point: with the sums of
  its proportional and integral gains, transposed, no operating action and not all gains zero, both
  return the same action.\<close>

theorem autonomous_pid_is_state_feedback:
  fixes setpoint p i gains :: dvec
  defines "n \<equiv> length setpoint"
  assumes "pid_configure setpoint m amin amax (map Fin p) (map Fin i) d il = Inr c"
    and "sf_configure setpoint (ConstantVector m 0) gains amin amax = Inr s"
    and len: "length p = n * m" "length i = n * m" "length gains = n * m"
    and transposed: "\<forall>ii < n. \<forall>oo < m. gains ! (ii * m + oo) = p ! (oo * n + ii) + i ! (oo * n + ii)"
    and "\<exists>k \<in> set gains. k \<noteq> 0" and "length x = n"
  shows "\<exists>a. pid_act c x = Inr a \<and> sf_act s x g = Inr (a, g)"
proof -
  have "gains \<noteq> []" using assms(8) by auto
  then have pos: "0 < n" "0 < m" "gains \<noteq> []" using len(3) by (metis length_greater_0_conv nat_0_less_mult_iff)+
  have c: "pid_setpoint c = setpoint" "pid_outputs c = m" "pid_action_min c = amin" "pid_action_max c = amax"
    "length amin = m" "length amax = m" "2 * n * m \<le> length (pid_params c)"
    "\<And>k. k < n * m \<Longrightarrow> pid_params c ! k = Fin (p ! k) \<and> pid_params c ! (n * m + k) = Fin (i ! k)"
    using assms(2) len pos by (auto simp: pid_configure_def pid_gains_def chain_Inr nth_append Let_def n_def split: if_splits)
  have s: "s = \<lparr>sf_operating_state = setpoint, sf_operating_action = ConstantVector m 0, sf_gains = gains,
      sf_min = amin, sf_max = amax\<rparr>"
    using assms(3) pos by (auto simp: sf_configure_def Let_def split: if_splits)
  have some: "\<not> (Min (set gains) = 0 \<and> Max (set gains) = 0)"
  proof
    assume zero: "Min (set gains) = 0 \<and> Max (set gains) = 0"
    have "k = 0" if "k \<in> set gains" for k
      using Min_le [of "set gains" k] Max_ge [of "set gains" k] zero that by simp
    then show False using assms(8) by blast
  qed
  have eq: "pid_sum n m (pid_params c) setpoint x oo = Fin (sf_sum s x oo)" if "oo < m" for oo
  proof -
    have less: "oo * n + ii < n * m" if "ii < n" for ii
      using cell_less [OF \<open>oo < m\<close> that] by (simp add: mult.commute)
    have "pid_sum n m (pid_params c) setpoint x oo =
        foldl (\<lambda>u ii. d_add u (Fin (gains ! (ii * m + oo) * (setpoint ! ii - x ! ii)))) (Fin 0) [0..<n]"
      unfolding pid_sum_def using transposed that less
      by (intro foldl_cong refl) (simp add: at_P_def at_I_def c(8))
    then show ?thesis by (simp add: foldl_Fin_sum sf_sum_def foldl_sum s n_def ConstantVector_def)
  qed
  have "pid_act c x = Inr (Action (map (\<lambda>oo. min (max (sf_sum s x oo) (amin ! oo)) (amax ! oo)) [0..<m]) atGreedy)"
  proof -
    have out: "map (\<lambda>oo. saturate (amin ! oo) (amax ! oo) (pid_sum n m (pid_params c) setpoint x oo)) [0..<m] =
        map (\<lambda>oo. min (max (sf_sum s x oo) (amin ! oo)) (amax ! oo)) [0..<m]"
      using eq by (intro map_cong refl) (simp add: saturate_Fin min.commute)
    show ?thesis unfolding out [symmetric] using c assms(9) by (simp add: pid_act_def n_def [symmetric])
  qed
  moreover have "sf_act s x g = Inr (Action (map (\<lambda>oo. min (max (sf_sum s x oo) (amin ! oo)) (amax ! oo)) [0..<m]) atGreedy, g)"
    using s some pos c(5,6) len(3) assms(9) by (auto simp: sf_act_def Let_def n_def ConstantVector_def
        intro!: arg_cong [where f = "\<lambda>v. Action v atGreedy"] map_cong)
  ultimately show ?thesis by blast
qed

theorem autonomous_pid_is_state_feedback_witness:
  "\<exists>c s a. pid_configure [1, 0] 1 [-9] [9] [Fin 2, Fin 0] [Fin 1, Fin 1] [] [] = Inr c \<and>
    sf_configure [1, 0] [0] [3, 1] [-9] [9] = Inr s \<and> pid_act c [0, 1] = Inr a \<and> sf_act s [0, 1] (Rand_new 7) = Inr (a, Rand_new 7)"
proof -
  obtain c where c: "pid_configure [1, 0] 1 [-9] [9] (map Fin [2, 0]) (map Fin [1, 1]) [] [] = Inr c"
    by (simp add: pid_configure_def pid_gains_def)
  obtain s where s: "sf_configure [1, 0] (ConstantVector 1 0) [3, 1] [-9] [9] = Inr s"
    by (simp add: sf_configure_def ConstantVector_def)
  from autonomous_pid_is_state_feedback [OF c s, of "[0, 1]" "Rand_new 7"] obtain a where
    "pid_act c [0, 1] = Inr a" "sf_act s [0, 1] (Rand_new 7) = Inr (a, Rand_new 7)" by (auto simp: All_less_Suc2 numeral_2_eq_2)
  then show ?thesis using c s by (auto simp: ConstantVector_def)
qed

text \<open>Sample feedback at one of the samples is that sample's action, within the limits.\<close>

lemma l1_dist_zero:
  assumes "length inp = length x"
  shows "0 \<le> l1_dist inp x \<and> (l1_dist inp x = 0 \<longleftrightarrow> x = inp)"
proof -
  have eq: "l1_dist inp x = (\<Sum>jj<length inp. \<bar>inp ! jj - x ! jj\<bar>)"
    unfolding l1_dist_def foldl_sum by simp
  then show ?thesis using assms by (auto simp: sum_nonneg sum_nonneg_eq_0_iff intro!: nth_equalityI)
qed

lemma closest_kept: "\<forall>r \<in> set ss. \<not> d_less (Fin (l1_dist inp (fb_x r))) best \<Longrightarrow> closest inp ss best chosen = chosen"
  by (induction ss) (simp_all add: Let_def)

lemma closest_finds:
  assumes "q \<in> set ss" and "fb_x q = inp" and "distinct (map fb_x ss)"
    and "\<forall>r \<in> set ss. length (fb_x r) = length inp" and "d_less (Fin 0) best"
  shows "closest inp ss best chosen = Some q"
  using assms(1,3-5)
proof (induction ss arbitrary: best chosen)
  case (Cons r ss)
  note zero = l1_dist_zero [of inp "fb_x r"]
  show ?case
  proof (cases "r = q")
    case True
    have "\<forall>r \<in> set ss. \<not> d_less (Fin (l1_dist inp (fb_x r))) (Fin 0)"
      using Cons.prems(3) l1_dist_zero by (auto simp: not_less)
    moreover have "l1_dist inp (fb_x q) = 0" using l1_dist_zero [of inp inp] assms(2) by simp
    ultimately show ?thesis using True Cons.prems(4) by (simp add: closest_kept Let_def)
  next
    case False
    then have "fb_x r \<noteq> inp" using Cons.prems(1,2) assms(2) by auto
    then have "0 < l1_dist inp (fb_x r)" using zero Cons.prems(3) by fastforce
    then show ?thesis using Cons False by (auto simp: Let_def)
  qed
qed simp

lemma sample_feedback_at_sample:
  assumes "q \<in> set (sb_samples s)" and "fb_x q = inp" and "distinct (map fb_x (sb_samples s))"
    and "\<forall>r \<in> set (sb_samples s). length (fb_x r) = length inp"
    and "length (sb_min s) = length (fb_u q)" and "length (sb_max s) = length (fb_u q)"
    and "length (fb_L q) = length (fb_u q)" and "\<forall>row \<in> set (fb_L q). length row = length inp"
  shows "sb_act s inp =
    Inr (Action (map (\<lambda>oo. min (max (fb_u q ! oo) (sb_min s ! oo)) (sb_max s ! oo)) [0..<length (fb_u q)]) atGreedy)"
proof -
  have "closest inp (sb_samples s) (Inf True) None = Some q" using closest_finds [OF assms(1-4)] by simp
  moreover obtain f fs where "sb_samples s = f # fs" using assms(1) by (cases "sb_samples s") auto
  moreover have "sb_control inp q oo = 0" for oo unfolding sb_control_def foldl_sum by (simp add: assms(2))
  ultimately show ?thesis using assms(4-8) by (auto simp: sb_act_def Let_def dest: in_set_takeD)
qed

end
