(* ===== verification/ActionPolicies.thy ===== *)
theory ActionPolicies
  imports NoiseSamplers Predictors Controllers
begin

text \<open>
  Policies over representations and policies that change the choice of another one
  (\<open>base/src/policies/\<close>): direct action representations with exploration noise (\<open>action.cpp\<close>,
  \<open>parameterized.cpp\<close>), noise added to another policy (\<open>noise.cpp\<close>), action probabilities
  (\<open>action.cpp\<close>), Q values with bounded changes of the action (\<open>bounded_q.cpp\<close>), upper confidence
  bounds (\<open>ucb.cpp\<close>) and solving on the way (\<open>solver.cpp\<close>).

  A normal draw that is not finite, and an access outside a vector, is \<open>RepUndefined\<close>.
\<close>

section \<open>Direct action representations\<close>

record action_policy =
  ap_projector :: projector
  ap_min :: dvec
  ap_max :: dvec
  ap_sigma :: dvec
  ap_theta :: dvec
  ap_n :: dvec
  ap_decay_rate :: real
  ap_decay_min :: real
  ap_decay :: real
  ap_renormalize :: int

text \<open>A parameter for every dimension: the default if it is empty, copies of a single value.\<close>

definition spread :: "nat \<Rightarrow> real \<Rightarrow> dvec \<Rightarrow> dvec" where
  "spread n d v =
     (let v = (if v = [] then [d] else v) in if length v = 1 then ConstantVector n (v ! 0) else v)"

definition ap_configure :: "projector \<Rightarrow> int \<Rightarrow> dvec \<Rightarrow> dvec \<Rightarrow> real \<Rightarrow> real \<Rightarrow> dvec \<Rightarrow> dvec \<Rightarrow>
    rep_error + action_policy" where
  "ap_configure pj renormalize sigma theta decay_rate decay_min mi ma =
     (if length mi \<noteq> length ma \<or> mi = [] then Inl RepBadParam
      else let sigma = spread (length mi) 0 sigma; theta = spread (length mi) 1 theta
           in if length sigma \<noteq> length mi then Inl RepBadParam
              else if length theta \<noteq> length mi then Inl RepBadParam
              else Inr \<lparr>ap_projector = pj, ap_min = mi, ap_max = ma, ap_sigma = sigma, ap_theta = theta,
                        ap_n = [], ap_decay_rate = decay_rate, ap_decay_min = decay_min, ap_decay = 1,
                        ap_renormalize = renormalize\<rparr>)"

definition ap_reset :: "action_policy \<Rightarrow> action_policy" where
  "ap_reset q = q\<lparr>ap_decay := 1\<rparr>"

text \<open>From [-1, 1] to [min, max].\<close>

definition renormalized :: "action_policy \<Rightarrow> dvec \<Rightarrow> rep_error + dvec" where
  "renormalized q v =
     (if ap_renormalize q = 0 then Inr v
      else if length v \<le> length (ap_min q) \<and> length v \<le> length (ap_max q)
      then Inr (map (\<lambda>ii. v ! ii * (ap_max q ! ii - ap_min q ! ii) / 2 + (ap_min q ! ii + ap_max q ! ii) / 2)
             [0..<length v])
      else Inl RepUndefined)"

text \<open>A representation may not return a value.\<close>

definition ap_read :: "'r rep_ops \<Rightarrow> action_policy \<Rightarrow> 'r \<Rightarrow> dvec \<Rightarrow> rep_error + dvec" where
  "ap_read ops q r inp =
     chain (rp_read ops r (pj_project (ap_projector q) inp)) (\<lambda>v.
       if v = [] then Inr (vscale (1 / 2) (vadd (ap_min q) (ap_max q))) else renormalized q v)"

fun renormalized_rows :: "action_policy \<Rightarrow> dvec list \<Rightarrow> rep_error + dvec list" where
  "renormalized_rows q [] = Inr []"
| "renormalized_rows q (v # vs) =
     chain (renormalized q v) (\<lambda>v. chain (renormalized_rows q vs) (\<lambda>vs. Inr (v # vs)))"

definition ap_read_batch :: "'r rep_ops \<Rightarrow> action_policy \<Rightarrow> 'r batch_rep \<Rightarrow> dvec list \<Rightarrow>
    rep_error + dvec list \<times> 'r batch_rep" where
  "ap_read_batch ops q b inps =
     chain (batchRead False b) (\<lambda>b.
     chain (batch_read ops False (enqueue_all False (map (pj_project (ap_projector q)) inps) b)) (\<lambda>(m, b).
     chain (renormalized_rows q m) (\<lambda>m. Inr (m, b))))"

text \<open>Noise with memory in every dimension that has noise, then the limits. The third result tells whether
  there was noise.\<close>

fun perturb :: "real \<Rightarrow> dvec \<Rightarrow> dvec \<Rightarrow> dvec \<Rightarrow> dvec \<Rightarrow> dvec \<Rightarrow> dvec \<Rightarrow> rand \<Rightarrow>
    rep_error + dvec \<times> dvec \<times> bool \<times> rand" where
  "perturb decay [] sigma theta n mi ma g = Inr ([], n, False, g)"
| "perturb decay (x # xs) (s # sigma) (t # theta) (n # ns) (lo # mi) (hi # ma) g =
     (if s \<noteq> 0
      then (case getNormal 0 (decay * s) g of
              (Fin z, g) \<Rightarrow>
                let n = (1 - t) * n + z
                in chain (perturb decay xs sigma theta ns mi ma g) (\<lambda>(ys, ns, _, g).
                     Inr (min (max (x + n) lo) hi # ys, n # ns, True, g))
            | _ \<Rightarrow> Inl RepUndefined)
      else chain (perturb decay xs sigma theta ns mi ma g) (\<lambda>(ys, ns, noisy, g).
             Inr (min (max x lo) hi # ys, n # ns, noisy, g)))"
| "perturb decay (x # xs) _ _ _ _ _ g = Inl RepUndefined"

definition ap_act_timed :: "'r rep_ops \<Rightarrow> real \<Rightarrow> dvec \<Rightarrow> action_policy \<Rightarrow> 'r \<Rightarrow> rand \<Rightarrow>
    rep_error + action \<times> action_policy \<times> rand" where
  "ap_act_timed ops time inp q r g =
     chain (ap_read ops q r inp) (\<lambda>v.
       if length (ap_sigma q) \<noteq> length v then Inl RepBadParam
       else let n = (if time = 0 \<or> length (ap_n q) \<noteq> length v then ConstantVector (length v) 0 else ap_n q);
                decay = (if time = 0 then max (ap_decay q * ap_decay_rate q) (ap_decay_min q) else ap_decay q)
            in chain (perturb decay v (ap_sigma q) (ap_theta q) n (ap_min q) (ap_max q) g) (\<lambda>(v, n, noisy, g).
                 Inr (Action v (if noisy then atExploratory else atGreedy), q\<lparr>ap_n := n, ap_decay := decay\<rparr>, g)))"

text \<open>Without time the noise has no memory.\<close>

fun blur :: "real \<Rightarrow> dvec \<Rightarrow> dvec \<Rightarrow> dvec \<Rightarrow> dvec \<Rightarrow> rand \<Rightarrow> rep_error + dvec \<times> bool \<times> rand" where
  "blur decay [] sigma mi ma g = Inr ([], False, g)"
| "blur decay (x # xs) (s # sigma) (lo # mi) (hi # ma) g =
     (if s \<noteq> 0
      then (case getNormal 0 (decay * s) g of
              (Fin z, g) \<Rightarrow>
                chain (blur decay xs sigma mi ma g) (\<lambda>(ys, _, g).
                  Inr (min (max (x + z) lo) hi # ys, True, g))
            | _ \<Rightarrow> Inl RepUndefined)
      else chain (blur decay xs sigma mi ma g) (\<lambda>(ys, noisy, g). Inr (min (max x lo) hi # ys, noisy, g)))"
| "blur decay (x # xs) _ _ _ g = Inl RepUndefined"

definition ap_act :: "'r rep_ops \<Rightarrow> dvec \<Rightarrow> action_policy \<Rightarrow> 'r \<Rightarrow> rand \<Rightarrow> rep_error + action \<times> rand" where
  "ap_act ops inp q r g =
     chain (ap_read ops q r inp) (\<lambda>v.
       if length (ap_sigma q) \<noteq> length v then Inl RepBadParam
       else chain (blur (ap_decay q) v (ap_sigma q) (ap_min q) (ap_max q) g) (\<lambda>(v, noisy, g).
              Inr (Action v (if noisy then atExploratory else atGreedy), g)))"

text \<open>The parameterized variant has no decay, and does not complete or check its standard deviations.\<close>

record param_policy =
  pp_projector :: projector
  pp_min :: dvec
  pp_max :: dvec
  pp_sigma :: dvec

definition pp_configure :: "projector \<Rightarrow> dvec \<Rightarrow> dvec \<Rightarrow> dvec \<Rightarrow> rep_error + param_policy" where
  "pp_configure pj sigma mi ma =
     (if length mi \<noteq> length ma \<or> mi = [] then Inl RepBadParam
      else Inr \<lparr>pp_projector = pj, pp_min = mi, pp_max = ma,
                pp_sigma = (if sigma = [] then ConstantVector (length mi) 0 else sigma)\<rparr>)"

definition pp_act :: "'r rep_ops \<Rightarrow> dvec \<Rightarrow> param_policy \<Rightarrow> 'r \<Rightarrow> rand \<Rightarrow> rep_error + action \<times> rand" where
  "pp_act ops inp q r g =
     chain (rp_read ops r (pj_project (pp_projector q) inp)) (\<lambda>v.
     let ty = (if v = [] then atUndefined else atGreedy);
         v = (if v = [] then vscale (1 / 2) (vadd (pp_min q) (pp_max q)) else v)
     in chain (blur 1 v (pp_sigma q) (pp_min q) (pp_max q) g) (\<lambda>(v, noisy, g).
          Inr (Action v (if noisy then atExploratory else ty), g)))"

section \<open>Noise on top of a policy\<close>

record noise_policy =
  np_decay_rate :: real
  np_decay_min :: real
  np_decay :: real
  np_min :: dvec
  np_max :: dvec
  np_sigma :: dvec
  np_theta :: dvec
  np_n :: dvec

definition np_spread :: "nat \<Rightarrow> real \<Rightarrow> dvec \<Rightarrow> dvec" where
  "np_spread n d v =
     (let v = (if v = [] then ConstantVector n d else v)
      in if length v = 1 \<and> n \<noteq> 1 then ConstantVector n (v ! 0) else v)"

definition np_configure :: "dvec \<Rightarrow> dvec \<Rightarrow> real \<Rightarrow> real \<Rightarrow> dvec \<Rightarrow> dvec \<Rightarrow> rep_error + noise_policy" where
  "np_configure sigma theta decay_rate decay_min mi ma =
     (if length mi \<noteq> length ma \<or> mi = [] then Inl RepBadParam
      else let sigma = np_spread (length mi) 0 sigma; theta = np_spread (length mi) 1 theta
           in if length sigma \<noteq> length mi then Inl RepBadParam
              else if length theta \<noteq> length mi then Inl RepBadParam
              else Inr \<lparr>np_decay_rate = decay_rate, np_decay_min = decay_min, np_decay = 1,
                        np_min = mi, np_max = ma, np_sigma = sigma, np_theta = theta, np_n = []\<rparr>)"

definition np_reset :: "noise_policy \<Rightarrow> noise_policy" where
  "np_reset q = q\<lparr>np_decay := 1\<rparr>"

fun np_noise :: "real \<Rightarrow> dvec \<Rightarrow> dvec \<Rightarrow> dvec \<Rightarrow> dvec \<Rightarrow> dvec \<Rightarrow> dvec \<Rightarrow> rand \<Rightarrow>
    rep_error + dvec \<times> dvec \<times> rand" where
  "np_noise decay [] sigma theta n mi ma g = Inr ([], n, g)"
| "np_noise decay (x # xs) (s # sigma) (t # theta) (n # ns) (lo # mi) (hi # ma) g =
     (case getNormal 0 (decay * s) g of
        (Fin z, g) \<Rightarrow>
          let n = (1 - t) * n + z
          in chain (np_noise decay xs sigma theta ns mi ma g) (\<lambda>(ys, ns, g).
               Inr (min (max (x + n) lo) hi # ys, n # ns, g))
      | _ \<Rightarrow> Inl RepUndefined)"
| "np_noise decay (x # xs) _ _ _ _ _ g = Inl RepUndefined"

text \<open>\<open>pol\<close> is the policy that is disturbed, with its own state.\<close>

definition np_act_timed ::
    "(real \<Rightarrow> observation \<Rightarrow> action \<Rightarrow> 's \<Rightarrow> rand \<Rightarrow> rep_error + action \<times> 's \<times> rand) \<Rightarrow>
     real \<Rightarrow> observation \<Rightarrow> action \<Rightarrow> noise_policy \<times> 's \<Rightarrow> rand \<Rightarrow> rep_error + action \<times> (noise_policy \<times> 's) \<times> rand" where
  "np_act_timed pol time inp out = (\<lambda>(q, s) g.
     (let q = (if time = 0 then q\<lparr>np_decay := max (np_decay q * np_decay_rate q) (np_decay_min q)\<rparr> else q)
      in chain (pol time inp out s g) (\<lambda>(a, s, g).
           let n = (if time = 0 \<or> length (np_n q) \<noteq> length (a_v a) then ConstantVector (length (a_v a)) 0 else np_n q)
           in chain (np_noise (np_decay q) (a_v a) (np_sigma q) (np_theta q) n (np_min q) (np_max q) g) (\<lambda>(v, n, g).
                Inr (Action v atExploratory, (q\<lparr>np_n := n\<rparr>, s), g)))))"

fun np_blur :: "real \<Rightarrow> dvec \<Rightarrow> dvec \<Rightarrow> dvec \<Rightarrow> dvec \<Rightarrow> rand \<Rightarrow> rep_error + dvec \<times> rand" where
  "np_blur decay [] sigma mi ma g = Inr ([], g)"
| "np_blur decay (x # xs) (s # sigma) (lo # mi) (hi # ma) g =
     (case getNormal 0 (decay * s) g of
        (Fin z, g) \<Rightarrow> chain (np_blur decay xs sigma mi ma g) (\<lambda>(ys, g). Inr (min (max (x + z) lo) hi # ys, g))
      | _ \<Rightarrow> Inl RepUndefined)"
| "np_blur decay (x # xs) _ _ _ g = Inl RepUndefined"

definition np_act :: "(observation \<Rightarrow> action \<Rightarrow> rand \<Rightarrow> rep_error + action \<times> rand) \<Rightarrow>
    observation \<Rightarrow> action \<Rightarrow> noise_policy \<Rightarrow> rand \<Rightarrow> rep_error + action \<times> rand" where
  "np_act pol inp out q g =
     chain (pol inp out g) (\<lambda>(a, g).
     chain (np_blur (np_decay q) (a_v a) (np_sigma q) (np_min q) (np_max q) g) (\<lambda>(v, g).
       Inr (Action v atExploratory, g)))"

section \<open>Action probabilities\<close>

record prob_policy =
  pr_discretizer :: disc
  pr_projector :: projector

definition pr_values :: "'r rep_ops \<Rightarrow> prob_policy \<Rightarrow> 'r \<Rightarrow> dvec \<Rightarrow> rep_error + dvec" where
  "pr_values ops q r inp =
     chain (Policies.of_option (disc_options (pr_discretizer q) inp)) (\<lambda>variants.
       read_all (rep_read1 ops) r (pj_variants (pr_projector q) inp variants))"

text \<open>\<open>act\<close> samples the values themselves, \<open>distribution\<close> is their softmax with temperature 1.\<close>

definition pr_act :: "'r rep_ops \<Rightarrow> prob_policy \<Rightarrow> 'r \<Rightarrow> dvec \<Rightarrow> rand \<Rightarrow> rep_error + action \<times> rand" where
  "pr_act ops q r inp g =
     chain (Policies.of_option (disc_options (pr_discretizer q) inp)) (\<lambda>variants.
     chain (read_all (rep_read1 ops) r (pj_variants (pr_projector q) inp variants)) (\<lambda>distr.
       let (ii, g) = sample distr g
       in if ii < length variants then Inr (Action (variants ! ii) atExploratory, g) else Inl RepUndefined))"

definition pr_distribution :: "'r rep_ops \<Rightarrow> prob_policy \<Rightarrow> 'r \<Rightarrow> dvec \<Rightarrow> rep_error + dvec" where
  "pr_distribution ops q r inp = chain (pr_values ops q r inp) (\<lambda>apvalues. Inr (softmax_distribution 1 apvalues))"

section \<open>Bounded changes\<close>

record bounded_q =
  bq_q :: q_policy
  bq_bound :: dvec

definition bq_filter :: "bounded_q \<Rightarrow> dvec \<Rightarrow> dvec \<Rightarrow> dvec \<Rightarrow> rep_error + dvec \<times> nat list" where
  "bq_filter q inp prev_out qvalues =
     (if length prev_out \<noteq> length (bq_bound q) then Inl RepBadParam
      else chain (Policies.of_option (disc_options (qp_discretizer (bq_q q)) inp)) (\<lambda>as.
           chain (Policies.of_option (option_list (map (\<lambda>a. close_to a prev_out (bq_bound q)) as))) (\<lambda>valid.
             let idx = filter (\<lambda>aa. valid ! aa) [0..<length as]
             in if \<forall>aa \<in> set idx. aa < length qvalues
                then Inr (map (\<lambda>aa. qvalues ! aa) idx, idx)
                else Inl RepUndefined)))"

text \<open>\<open>smp\<close> is the timed method of the sampler, with its state. Without a previous action the untimed
  \<open>act\<close> of \<open>QPolicy\<close> is called.\<close>

definition bq_act ::
    "'r rep_ops \<Rightarrow> (real \<Rightarrow> dvec \<Rightarrow> 's \<Rightarrow> rand \<Rightarrow> sampler_error + nat \<times> action_type \<times> 's \<times> rand) \<Rightarrow>
     bounded_q \<Rightarrow> 'r \<Rightarrow> real \<Rightarrow> dvec \<Rightarrow> dvec \<Rightarrow> 's \<Rightarrow> rand \<Rightarrow> rep_error + action \<times> 's \<times> rand" where
  "bq_act ops smp q r time inp prev s g =
     (if prev \<noteq> []
      then chain (qp_values ops (bq_q q) r inp) (\<lambda>qvalues.
           chain (bq_filter q inp prev qvalues) (\<lambda>(filtered, idx).
           chain (lift_sampler (smp time filtered s g)) (\<lambda>(ii, ty, s, g).
             if ii < length idx
             then chain (Policies.of_option (d_at (qp_discretizer (bq_q q)) inp (idx ! ii))) (\<lambda>a.
                    Inr (Action a ty, s, g))
             else Inl RepUndefined)))
      else chain (qp_act ops (bq_q q) r inp g) (\<lambda>(a, g). Inr (a, s, g)))"

fun put_all :: "dvec \<Rightarrow> (nat \<times> real) list \<Rightarrow> dvec" where
  "put_all v [] = v"
| "put_all v ((ii, x) # ps) = put_all (v[ii := x]) ps"

definition bq_distribution ::
    "'r rep_ops \<Rightarrow> bounded_q \<Rightarrow> 'r \<Rightarrow> dvec \<Rightarrow> dvec \<Rightarrow> rand \<Rightarrow> rep_error + dvec \<times> rand" where
  "bq_distribution ops q r inp prev g =
     (if prev \<noteq> []
      then chain (qp_values ops (bq_q q) r inp) (\<lambda>qvalues.
           chain (bq_filter q inp prev qvalues) (\<lambda>(filtered, idx).
           chain (lift_sampler (sm_distribution (qp_sampler (bq_q q)) filtered g)) (\<lambda>(distr, g).
             if length filtered \<le> length distr
             then Inr (put_all (ConstantVector (length qvalues) 0) (zip idx distr), g)
             else Inl RepUndefined)))
      else qp_distribution ops (bq_q q) r inp g)"

section \<open>Upper confidence bounds\<close>

record ucb_policy =
  uc_discretizer :: disc
  uc_projector :: projector
  uc_c_p :: real

text \<open>The logarithm of a sum below one is negative (or not a number) and has no root.\<close>

definition ucb_bonus :: "real \<Rightarrow> real \<Rightarrow> real \<Rightarrow> dbl" where
  "ucb_bonus c_p state_visits visits =
     (if 1 \<le> state_visits then Fin (2 * c_p * sqrt (ln state_visits / max 1 visits)) else NaN)"

definition uc_values :: "'r rep_ops \<Rightarrow> 'v rep_ops \<Rightarrow> ucb_policy \<Rightarrow> 'r \<Rightarrow> 'v \<Rightarrow> dvec \<Rightarrow> rep_error + dbl list" where
  "uc_values ops vops q r vr inp =
     chain (Policies.of_option (disc_options (uc_discretizer q) inp)) (\<lambda>variants.
     let ps = pj_variants (uc_projector q) inp variants
     in chain (read_all (rep_read1 ops) r ps) (\<lambda>qs.
        chain (read_all (rep_read1 vops) vr ps) (\<lambda>visits.
          let state_visits = foldl (+) 0 visits
          in Inr (map2 (\<lambda>x n. d_add (Fin x) (ucb_bonus (uc_c_p q) state_visits n)) qs visits))))"

text \<open>The first of the largest values; comparisons with NaN are false.\<close>

fun ucb_best :: "dbl list \<Rightarrow> nat \<Rightarrow> nat \<Rightarrow> dbl \<Rightarrow> nat" where
  "ucb_best [] ii action best = action"
| "ucb_best (v # vs) ii action best =
     (if d_less best v then ucb_best vs (ii + 1) ii v else ucb_best vs (ii + 1) action best)"

definition ucb_argmax :: "dbl list \<Rightarrow> nat" where
  "ucb_argmax vs = (case vs of [] \<Rightarrow> 0 | v # vs \<Rightarrow> ucb_best vs 1 0 v)"

definition uc_act :: "'r rep_ops \<Rightarrow> 'v rep_ops \<Rightarrow> ucb_policy \<Rightarrow> 'r \<Rightarrow> 'v \<Rightarrow> dvec \<Rightarrow> rep_error + action" where
  "uc_act ops vops q r vr inp =
     chain (uc_values ops vops q r vr inp) (\<lambda>qvalues.
     chain (Policies.of_option (d_at (uc_discretizer q) inp (ucb_argmax qvalues))) (\<lambda>a.
       Inr (Action a atExploratory)))"

text \<open>With time, the visit is counted.\<close>

definition uc_act_timed :: "'r rep_ops \<Rightarrow> 'v rep_ops \<Rightarrow> ucb_policy \<Rightarrow> 'r \<Rightarrow> 'v \<Rightarrow> dvec \<Rightarrow>
    rep_error + action \<times> 'v" where
  "uc_act_timed ops vops q r vr inp =
     chain (uc_act ops vops q r vr inp) (\<lambda>a.
     let p = pj_pair (uc_projector q) inp (a_v a)
     in chain (rep_read1 vops vr p) (\<lambda>visits.
        chain (rep_write1 vops vr p [visits + 1] 1) (\<lambda>vr. Inr (a, rp_finalize vops vr))))"

text \<open>The first entry of the result is written only if the first action is chosen.\<close>

definition uc_distribution :: "'r rep_ops \<Rightarrow> 'v rep_ops \<Rightarrow> ucb_policy \<Rightarrow> 'r \<Rightarrow> 'v \<Rightarrow> dvec \<Rightarrow>
    rep_error + real option list" where
  "uc_distribution ops vops q r vr inp =
     chain (uc_values ops vops q r vr inp) (\<lambda>qvalues.
       if qvalues = [] then Inl RepUndefined
       else Inr ((None # replicate (length qvalues - 1) (Some 0))[ucb_argmax qvalues := Some 1]))"

definition uc_value :: "'r rep_ops \<Rightarrow> 'v rep_ops \<Rightarrow> ucb_policy \<Rightarrow> 'r \<Rightarrow> 'v \<Rightarrow> dvec \<Rightarrow> rep_error + dbl" where
  "uc_value ops vops q r vr inp =
     chain (uc_values ops vops q r vr inp) (\<lambda>qvalues.
       case qvalues of [] \<Rightarrow> Inl RepUndefined | v # vs \<Rightarrow> Inr (foldl d_fmax v vs))"

section \<open>Solving on the way\<close>

text \<open>The solver with the policy it adjusts. Whether it succeeded is not looked at.\<close>

record 's policy_solver =
  ps_solve :: "'s \<Rightarrow> 's"
  ps_solve_from :: "dvec \<Rightarrow> 's \<Rightarrow> 's"
  ps_resolve :: "real \<Rightarrow> dvec \<Rightarrow> 's \<Rightarrow> 's"
  ps_act :: "observation \<Rightarrow> action \<Rightarrow> 's \<Rightarrow> rep_error + action \<times> 's"

record solver_policy =
  sp_interval :: int
  sp_episodes :: int

definition sp_configure :: "int \<Rightarrow> solver_policy" where
  "sp_configure interval = \<lparr>sp_interval = interval, sp_episodes = 0\<rparr>"

definition sp_reset :: "solver_policy \<Rightarrow> solver_policy" where
  "sp_reset q = q\<lparr>sp_episodes := 0\<rparr>"

definition sp_act_timed :: "'s policy_solver \<Rightarrow> real \<Rightarrow> observation \<Rightarrow> action \<Rightarrow> solver_policy \<times> 's \<Rightarrow>
    rep_error + action \<times> solver_policy \<times> 's" where
  "sp_act_timed ps time inp out = (\<lambda>(q, s).
     (let (q, s) =
        (if time = 0
         then let q = q\<lparr>sp_episodes := sp_episodes q + 1\<rparr>;
                  s = (if sp_interval q \<noteq> 0 \<and> sp_episodes q mod sp_interval q = 0 then ps_solve ps s else s)
              in (q, ps_solve_from ps (o_v inp) s)
         else (q, ps_resolve ps time (o_v inp) s))
      in chain (ps_act ps inp out s) (\<lambda>(a, s). Inr (a, q, s))))"

end
