(* ===== verification/ActionFacts.thy ===== *)
theory ActionFacts
  imports ActionPolicies NoiseFacts RepFacts
begin

text \<open>
  Facts about policies over representations: exploration noise keeps the action limits and decays as
  scheduled; bounded Q policies stay close to the previous action; what action probabilities and
  upper confidence bounds do that their names do not say.
\<close>

section \<open>Noise\<close>

definition limited :: "dvec \<Rightarrow> dvec \<Rightarrow> dvec \<Rightarrow> bool" where
  "limited mi ma v \<longleftrightarrow> length v \<le> length mi \<and> length v \<le> length ma \<and> (\<forall>k < length v. mi ! k \<le> v ! k \<and> v ! k \<le> ma ! k)"

lemma limited_Nil [simp]: "limited mi ma []"
  by (simp add: limited_def)

lemma limited_Cons: "lo \<le> hi \<Longrightarrow> limited mi ma v \<Longrightarrow> limited (lo # mi) (hi # ma) (min (max x lo) hi # v)"
  by (simp add: limited_def All_less_Suc2)

lemma np_noise_limited:
  "np_noise decay v sigma theta n mi ma g = Inr (w, n', g') \<Longrightarrow> \<forall>k < length mi. mi ! k \<le> ma ! k \<Longrightarrow>
   limited mi ma w \<and> length w = length v"
proof (induction decay v sigma theta n mi ma g arbitrary: w n' g' rule: np_noise.induct)
  case (2 decay x xs s sigma t theta n ns lo mi hi ma g)
  then show ?case
    by (fastforce simp: chain_Inr All_less_Suc2 Let_def intro: limited_Cons split: dbl.splits prod.splits)
qed simp_all

lemma perturb_limited:
  "perturb decay v sigma theta n mi ma g = Inr (w, n', noisy, g') \<Longrightarrow> \<forall>k < length mi. mi ! k \<le> ma ! k \<Longrightarrow>
   limited mi ma w \<and> length w = length v"
proof (induction decay v sigma theta n mi ma g arbitrary: w n' noisy g' rule: perturb.induct)
  case (2 decay x xs s sigma t theta n ns lo mi hi ma g)
  then show ?case
    by (fastforce simp: chain_Inr All_less_Suc2 Let_def intro: limited_Cons split: dbl.splits prod.splits if_splits)
qed simp_all

text \<open>Episodes of a policy with noise: every call with the time zero begins one.\<close>

fun np_run :: "(real \<Rightarrow> observation \<Rightarrow> action \<Rightarrow> 's \<Rightarrow> rand \<Rightarrow> rep_error + action \<times> 's \<times> rand) \<Rightarrow>
    (real \<times> observation \<times> action) list \<Rightarrow> noise_policy \<times> 's \<Rightarrow> rand \<Rightarrow>
    rep_error + dvec list \<times> (noise_policy \<times> 's) \<times> rand" where
  "np_run pol [] q g = Inr ([], q, g)"
| "np_run pol ((time, inp, out) # xs) q g =
     chain (np_act_timed pol time inp out q g) (\<lambda>(a, q, g).
     chain (np_run pol xs q g) (\<lambda>(as, q, g). Inr (a_v a # as, q, g)))"

definition same_noise :: "noise_policy \<Rightarrow> noise_policy \<Rightarrow> bool" where
  "same_noise q q' \<longleftrightarrow> np_min q' = np_min q \<and> np_max q' = np_max q \<and>
     np_decay_rate q' = np_decay_rate q \<and> np_decay_min q' = np_decay_min q"

lemma np_act_timed_ok:
  assumes "np_act_timed pol time inp out (q, s) g = Inr (a, (q', s'), g')"
    and "\<forall>k < length (np_min q). np_min q ! k \<le> np_max q ! k"
  shows "limited (np_min q) (np_max q) (a_v a) \<and> same_noise q q' \<and>
    np_decay q' = (if time = 0 then max (np_decay q * np_decay_rate q) (np_decay_min q) else np_decay q)"
  using assms by (cases "time = 0")
    (auto simp: np_act_timed_def chain_Inr same_noise_def Action_def Let_def dest!: np_noise_limited)

lemma decay_step:
  fixes r d :: real
  assumes "0 \<le> r" "r \<le> 1" "0 \<le> d"
  shows "max (max (r ^ k) d * r) d = max (r ^ Suc k) d"
proof -
  have "d * r \<le> d" using assms by (simp add: mult_left_le)
  moreover have "r ^ k * r \<le> r ^ k" using assms by (simp add: mult_left_le)
  ultimately show ?thesis using assms(1) by (auto simp: max_def mult.commute mult_left_mono)
qed

lemma np_run_ok:
  assumes "0 \<le> np_decay_rate q" and "np_decay_rate q \<le> 1" and "0 \<le> np_decay_min q"
    and "\<forall>k < length (np_min q). np_min q ! k \<le> np_max q ! k"
    and "np_run pol xs (q, s) g = Inr (as, (q', s'), g')"
    and "np_decay q = max (np_decay_rate q ^ k) (np_decay_min q)"
  shows "(\<forall>a \<in> set as. limited (np_min q) (np_max q) a) \<and> length as = length xs \<and>
    np_decay q' = max (np_decay_rate q ^ (k + length (filter (\<lambda>x. fst x = 0) xs))) (np_decay_min q)"
  using assms
proof (induction xs arbitrary: q s g k as)
  case (Cons x xs)
  obtain time inp out where x: "x = (time, inp, out)" by (cases x) auto
  from Cons.prems(5) x obtain a q1 s1 g1 as1 where
    st: "np_act_timed pol time inp out (q, s) g = Inr (a, (q1, s1), g1)" and
    run: "np_run pol xs (q1, s1) g1 = Inr (as1, (q', s'), g')" and as: "as = a_v a # as1"
    by (auto simp: chain_Inr)
  note ok = np_act_timed_ok [OF st Cons.prems(4)]
  let ?k = "if time = 0 then Suc k else k"
  have "np_decay q1 = max (np_decay_rate q1 ^ ?k) (np_decay_min q1)"
    using ok decay_step [OF Cons.prems(1-3), of k] Cons.prems(6) by (simp add: same_noise_def)
  from Cons.IH [OF _ _ _ _ run this] ok Cons.prems(1-4) show ?case
    by (simp add: as x same_noise_def)
qed simp

text \<open>C40: noise respects the action limits and decays as scheduled. Whatever policy is disturbed, in every run
  of a noise policy that does not end in an error all actions are within the limits, and after \<open>k\<close>
  episodes the standard deviation is scaled by the \<open>k\<close>-th power of the decay rate, but not below the
  minimum.\<close>

theorem noise_limited_and_decays:
  assumes "np_configure sigma theta rate decay_min mi ma = Inr q"
    and "0 \<le> rate" and "rate \<le> 1" and "0 \<le> decay_min" and "decay_min \<le> 1" and "\<forall>k < length mi. mi ! k \<le> ma ! k"
    and "np_run pol xs (q, s) g = Inr (as, (q', s'), g')"
  shows "(\<forall>a \<in> set as. limited mi ma a) \<and> length as = length xs \<and>
    np_decay q' = max (rate ^ length (filter (\<lambda>x. fst x = 0) xs)) decay_min"
proof -
  have q: "np_decay q = 1" "np_decay_rate q = rate" "np_decay_min q = decay_min" "np_min q = mi" "np_max q = ma"
    using assms(1) by (auto simp: np_configure_def Let_def split: if_splits)
  then show ?thesis using np_run_ok [of q pol xs s g as q' s' g' 0] assms(2-7) by simp
qed

text \<open>A policy that asks for too much.\<close>

definition eager :: "real \<Rightarrow> observation \<Rightarrow> action \<Rightarrow> unit \<Rightarrow> rand \<Rightarrow> rep_error + action \<times> unit \<times> rand" where
  "eager time inp out s g = Inr (Action [7] atGreedy, s, g)"

theorem noise_limited_and_decays_witness:
  "\<exists>q as q' g'. np_configure [1] [] 0.5 0.1 [-1] [1] = Inr q \<and>
    np_run eager [(0, no_obs, no_action)] (q, ()) \<lparr>rand_data = 1, libc_data = 1\<rparr> = Inr (as, (q', ()), g') \<and>
    (\<forall>a \<in> set as. limited [-1] [1] a) \<and> np_decay q' = 0.5"
proof -
  let ?g = "\<lparr>rand_data = 1, libc_data = 1\<rparr>"
  obtain q where q: "np_configure [1] [] 0.5 0.1 [-1] [1] = Inr q"
    by (simp add: np_configure_def np_spread_def ConstantVector_def Let_def)
  have "next48 1 \<noteq> 0" by (simp add: next48_def)
  then have "fst (rand_get ?g) \<noteq> 0" using drand48_nonzero by (simp add: rand_get_def Let_def)
  from getNormal_finite [OF this] obtain z g' where "getNormal 0 (1 / 2) ?g = (Fin z, g')" by blast
  then obtain as q' where run: "np_run eager [(0, no_obs, no_action)] (q, ()) ?g = Inr (as, (q', ()), g')"
    using q by (auto simp: np_configure_def np_spread_def ConstantVector_def np_act_timed_def eager_def Action_def Let_def)
  from noise_limited_and_decays [OF q _ _ _ _ _ run] have
    "\<forall>a \<in> set as. limited [-1] [1] a" "np_decay q' = 0.5" by auto
  then show ?thesis using q run by blast
qed

section \<open>Bounded changes\<close>

text \<open>bounded Q policies change the action by at most the bound. On a uniform grid, with whatever sampler,
  an action that is taken after another one is a grid point whose components differ from those of the
  previous action by at most the bounds.\<close>

theorem bounded_q_stays_close:
  assumes "ud_wf u" and "qp_discretizer (bq_q q) = ud_disc u" and "prev \<noteq> []" and "length prev = length (ud_values u)"
    and "bq_act ops smp q r time inp prev s g = Inr (a, s', g')"
  shows "(\<exists>k < ud_size u. ud_at u k = Some (a_v a)) \<and> length (bq_bound q) = length prev \<and>
    (\<forall>i < length prev. \<bar>a_v a ! i - prev ! i\<bar> \<le> bq_bound q ! i)"
proof -
  let ?d = "ud_disc u"
  from ud.options_at [OF assms(1)] obtain as where as: "disc_options ?d inp = Some as" "length as = d_size ?d inp"
    "\<forall>k < d_size ?d inp. d_at ?d inp k = Some (as ! k)" by blast
  from assms(2-5) obtain qvalues filtered idx ii where
    f: "bq_filter q inp prev qvalues = Inr (filtered, idx)" and ii: "ii < length idx" and
    a: "d_at ?d inp (idx ! ii) = Some (a_v a)"
    by (auto simp: bq_act_def chain_Inr Action_def split: if_splits)
  from f as(1) assms(2) obtain valid where
    len: "length prev = length (bq_bound q)" and
    valid: "option_list (map (\<lambda>a. close_to a prev (bq_bound q)) as) = Some valid" and
    idx: "idx = filter (\<lambda>aa. valid ! aa) [0..<length as]"
    by (auto simp: bq_filter_def chain_Inr Let_def split: if_splits)
  have k: "idx ! ii < length as" "valid ! (idx ! ii)" using ii nth_mem [OF ii] by (simp_all add: idx)
  then have a_v: "a_v a = as ! (idx ! ii)" using a as by simp
  have "length (as ! (idx ! ii)) = length prev"
    using ud_search.at_dim [OF assms(1), of "idx ! ii" inp] as k(1) assms(4) by auto
  moreover have "close_to (as ! (idx ! ii)) prev (bq_bound q) = Some True"
    using valid k by (auto simp: option_list_Some)
  ultimately show ?thesis using a a_v k(1) as(2) len by (auto simp: close_to_eq ud_disc_def)
qed

section \<open>Action probabilities\<close>

lemma softmax_pos:
  assumes "k < length vs" and "vs ! k > Max (set vs) - 100" and "\<forall>x \<in> set vs. - DBL_MAX \<le> x"
  shows "0 < softmax_distribution 1 vs ! k"
proof -
  have M: "softmax_max vs 1 = Max (set vs)" using softmax_max_eq [of vs 1] assms(1,3) by fastforce
  define c where "c = (Max (set vs) + (Max (set vs) + (- 100))) / 2"
  let ?v = "map (\<lambda>x. if x / 1 > Max (set vs) + - 100 then exp (x / 1 - c) else 0) vs"
  have "?v ! k \<in> set ?v" using assms(1) by (intro nth_mem) simp
  then have "?v ! k \<le> sum_list ?v" by (rule member_le_sum_list) auto
  moreover have pos: "0 < ?v ! k" using assms(1,2) by simp
  ultimately have "0 < sum_list ?v" by linarith
  then show ?thesis using assms(1,2) pos unfolding softmax_distribution_def M Let_def c_def [symmetric] vec_sum_eq
    by (simp add: comp_def)
qed

text \<open>action probabilities are not what is sampled. If the values of the actions are weights that are not
  negative, \<open>act\<close> never takes an action of value zero while another one has a positive value; the
  distribution it reports is the softmax of the values, which gives that action a positive
  probability.\<close>

theorem action_probability_mismatch:
  assumes "pr_values ops q r inp = Inr vs" and "disc_options (pr_discretizer q) inp = Some as"
    and "\<forall>v \<in> set vs. 0 \<le> v \<and> v < 100" and "k < length vs" and "vs ! k = 0" and "0 < sum_list vs"
  shows "(\<exists>distr. pr_distribution ops q r inp = Inr distr \<and> 0 < distr ! k) \<and>
    (\<forall>g a g'. pr_act ops q r inp g = Inr (a, g') \<longrightarrow> (\<exists>j < length vs. a_v a = as ! j \<and> 0 < vs ! j \<and> j \<noteq> k))"
proof
  have "Max (set vs) < 100" using assms(3,4) by (subst Max_less_iff) auto
  moreover have "\<forall>x \<in> set vs. - DBL_MAX \<le> x" using assms(3) by (fastforce simp: DBL_MAX_def)
  ultimately have "0 < softmax_distribution 1 vs ! k" using softmax_pos [OF assms(4)] assms(5) by simp
  then show "\<exists>distr. pr_distribution ops q r inp = Inr distr \<and> 0 < distr ! k"
    using assms(1) by (simp add: pr_distribution_def)
  show "\<forall>g a g'. pr_act ops q r inp g = Inr (a, g') \<longrightarrow> (\<exists>j < length vs. a_v a = as ! j \<and> 0 < vs ! j \<and> j \<noteq> k)"
  proof (intro allI impI)
    fix g a g' assume act: "pr_act ops q r inp g = Inr (a, g')"
    obtain j g1 where s: "sample vs g = (j, g1)" by fastforce
    have "a_v a = as ! j" using act assms(1,2) s
      by (auto simp: pr_act_def pr_values_def chain_Inr Action_def split: if_splits prod.splits)
    moreover have "j < length vs \<and> 0 < vs ! j"
      using sample_correct [OF assms(6), of g] s by (simp add: Let_def)
    ultimately show "\<exists>j < length vs. a_v a = as ! j \<and> 0 < vs ! j \<and> j \<noteq> k" using assms(5) by fastforce
  qed
qed

text \<open>A representation that is a table, read at the last entry of a vector; two actions.\<close>

definition table_ops :: "(projection \<Rightarrow> real) rep_ops" where
  "table_ops = \<lparr>rp_read = \<lambda>r p. Inr [r p], rp_read_target = \<lambda>r p. Inr [r p],
     rp_write = \<lambda>r p t a. Inr (r(p := r p + hd a * (hd t - r p))), rp_update = \<lambda>r p d. Inr (r(p := r p + hd d)),
     rp_finalize = \<lambda>r. r\<rparr>"

definition last_entry :: "projection \<Rightarrow> real" where
  "last_entry p = (case p of VectorProjection v \<Rightarrow> last v | _ \<Rightarrow> 0)"

definition two_actions :: uniform_disc where
  "two_actions = \<lparr>ud_min = [0], ud_max = [1], ud_steps = [2], ud_values = [[0, 1]]\<rparr>"

lemma two_actions_options:
  "ud_wf two_actions \<and> disc_options (ud_disc two_actions) s = Some [[0], [1]]"
proof -
  have "ud_configure [0] [1] [2] = Inr two_actions"
    using ud_row_many [of 2 0 1] by (simp add: ud_configure_def two_actions_def upt_rec numeral_2_eq_2)
  then have wf: "ud_wf two_actions" using ud_configure_wf by blast
  from ud.options_at [OF this, of s] obtain as where as: "disc_options (ud_disc two_actions) s = Some as"
    "length as = 2" "\<forall>k < 2. ud_at two_actions k = Some (as ! k)"
    by (auto simp: ud_disc_def ud_size_def two_actions_def vec_prod_def)
  have "ud_at two_actions 0 = Some [0]" "ud_at two_actions 1 = Some [1]"
    by (simp_all add: ud_at_def two_actions_def Let_def)
  then have "as ! 0 = [0]" "as ! 1 = [1]" using as(3) by auto
  then have "as = [[0], [1]]" using as(2) by (intro nth_equalityI) (auto simp: less_2_cases_iff)
  then show ?thesis using wf as(1) by simp
qed

theorem action_probability_mismatch_witness:
  "\<exists>a g'. pr_act table_ops \<lparr>pr_discretizer = ud_disc two_actions, pr_projector = base_projector VectorProjection\<rparr>
      last_entry [] (Rand_new 1) = Inr (a, g') \<and> a_v a = [1] \<and>
    (\<exists>distr. pr_distribution table_ops \<lparr>pr_discretizer = ud_disc two_actions, pr_projector = base_projector VectorProjection\<rparr>
      last_entry [] = Inr distr \<and> 0 < distr ! 0)"
proof -
  let ?q = "\<lparr>pr_discretizer = ud_disc two_actions, pr_projector = base_projector VectorProjection\<rparr>"
  have v: "pr_values table_ops ?q last_entry [] = Inr [0, 1]"
    using two_actions_options by (simp add: pr_values_def table_ops_def rep_read1_def base_projector_def
        last_entry_def Vectors.extend_def)
  have o: "disc_options (pr_discretizer ?q) [] = Some [[0], [1]]" using two_actions_options by simp
  note mismatch = action_probability_mismatch [OF v o, of 0, simplified]
  obtain ii g1 where s: "sample [0, 1] (Rand_new 1) = (ii, g1)" by fastforce
  then have "ii < 2" using sample_correct [of "[0, 1]" "Rand_new 1"] by (simp add: Let_def)
  then obtain a g' where act: "pr_act table_ops ?q last_entry [] (Rand_new 1) = Inr (a, g')"
    using v o s by (auto simp: pr_act_def pr_values_def)
  with mismatch have "\<exists>j < Suc (Suc 0). a_v a = [[0], [1]] ! j \<and> 0 < j" by blast
  then have "a_v a = [1]" by (auto simp: less_Suc_eq)
  then show ?thesis using mismatch act by blast
qed

section \<open>Upper confidence bounds\<close>

lemma ucb_best_NaN: "ucb_best vs ii action NaN = action"
  by (induction vs arbitrary: ii) simp_all

lemma ucb_best_Fin:
  assumes "\<forall>v \<in> set vs. d_isfin v" and "action < ii" and "best = Fin b"
  shows "ucb_best vs ii action best < ii + length vs \<and>
    (let w = (if ucb_best vs ii action best < ii then best else vs ! (ucb_best vs ii action best - ii))
     in b \<le> d_val w \<and> (\<forall>v \<in> set vs. d_val v \<le> d_val w)) \<and>
    (ucb_best vs ii action best < ii \<longrightarrow> ucb_best vs ii action best = action)"
  using assms
proof (induction vs arbitrary: ii action best b)
  case (Cons v vs)
  obtain x where v: "v = Fin x" using Cons.prems(1) by (auto simp: d_isfin_iff)
  show ?case
  proof (cases "b < x")
    case True
    let ?k = "ucb_best vs (ii + 1) ii v"
    from Cons.IH [of ii "ii + 1" v x] Cons.prems(1) v have
      k: "?k < ii + 1 + length vs" "?k < ii + 1 \<longrightarrow> ?k = ii" and
      le: "let w = (if ?k < ii + 1 then v else vs ! (?k - (ii + 1))) in x \<le> d_val w \<and> (\<forall>v \<in> set vs. d_val v \<le> d_val w)"
      by auto
    have "ii \<le> ?k" using k(2) by linarith
    then have w: "(v # vs) ! (?k - ii) = (if ?k < ii + 1 then v else vs ! (?k - (ii + 1)))"
      by (cases "?k = ii") (auto simp: nth_Cons')
    have eq: "ucb_best (v # vs) ii action best = ?k" using True Cons.prems(3) v by simp
    show ?thesis unfolding eq using w k le True v \<open>ii \<le> ?k\<close> by (auto simp: Let_def split: if_splits)
  next
    case False
    let ?k = "ucb_best vs (ii + 1) action best"
    from Cons.IH [of action "ii + 1" best b] Cons.prems v have
      k: "?k < ii + 1 + length vs" "?k < ii + 1 \<longrightarrow> ?k = action" and
      le: "let w = (if ?k < ii + 1 then best else vs ! (?k - (ii + 1))) in b \<le> d_val w \<and> (\<forall>v \<in> set vs. d_val v \<le> d_val w)"
      by auto
    have eq: "ucb_best (v # vs) ii action best = ?k" using False Cons.prems(3) v by simp
    show ?thesis
    proof (cases "?k < ii + 1")
      case True
      then have "?k = action" using k(2) by simp
      then show ?thesis unfolding eq using True le k Cons.prems(2,3) False v by (auto simp: Let_def)
    next
      case False': False
      then have "(v # vs) ! (?k - ii) = vs ! (?k - (ii + 1))" by (simp add: nth_Cons')
      then show ?thesis unfolding eq using False' le k False v by (auto simp: Let_def)
    qed
  qed
qed simp

text \<open>The value of an action to the rule, once there is one.\<close>

definition ucb1 :: "real \<Rightarrow> dvec \<Rightarrow> dvec \<Rightarrow> nat \<Rightarrow> real" where
  "ucb1 c_p qs ns k = qs ! k + 2 * c_p * sqrt (ln (sum_list ns) / max 1 (ns ! k))"

lemma ucb_argmax_cases:
  fixes c_p :: real and qs ns :: dvec
  defines "vs \<equiv> map2 (\<lambda>x n. d_add (Fin x) (ucb_bonus c_p (sum_list ns) n)) qs ns"
  assumes "length ns = length qs" and "qs \<noteq> []"
  shows "ucb_argmax vs < length qs \<and>
    (if 1 \<le> sum_list ns then \<forall>j < length qs. ucb1 c_p qs ns j \<le> ucb1 c_p qs ns (ucb_argmax vs) else ucb_argmax vs = 0)"
proof -
  have len: "length vs = length qs" using assms(2) by (simp add: vs_def)
  obtain v ws where vs: "vs = v # ws" using len assms(3) by (cases vs) auto
  show ?thesis
  proof (cases "1 \<le> sum_list ns")
    case True
    have nth: "vs ! j = Fin (ucb1 c_p qs ns j)" if "j < length qs" for j
      using that assms(2) True by (simp add: vs_def ucb_bonus_def ucb1_def)
    have fin: "\<forall>w \<in> set vs. d_isfin w" using nth len by (auto simp: in_set_conv_nth)
    then obtain b where b: "v = Fin b" using vs by (auto simp: d_isfin_iff)
    let ?k = "ucb_best ws 1 0 v"
    from ucb_best_Fin [of ws 0 1 v b] fin vs b have
      k: "?k < 1 + length ws" "?k < 1 \<longrightarrow> ?k = 0" and
      le: "let w = (if ?k < 1 then v else ws ! (?k - 1)) in b \<le> d_val w \<and> (\<forall>v \<in> set ws. d_val v \<le> d_val w)" by auto
    have w: "(if ?k < 1 then v else ws ! (?k - 1)) = vs ! ?k" by (simp add: vs nth_Cons')
    have "d_val (vs ! j) \<le> d_val (vs ! ?k)" if "j < length qs" for j
      using le that len unfolding w by (cases j) (auto simp: vs b Let_def)
    then show ?thesis using k True nth len vs by (simp add: ucb_argmax_def)
  next
    case False
    then have "v = NaN" using vs assms(2,3) by (cases qs; cases ns) (auto simp: vs_def ucb_bonus_def)
    then show ?thesis using False vs assms(3) by (simp add: ucb_argmax_def ucb_best_NaN)
  qed
qed

text \<open>the rule of upper confidence bounds and its blind start. Once the visits add up to at least one, \<open>act\<close>
  takes an action whose value plus exploration bonus is largest; before, all sums are NaN and the
  first action is taken, whatever the values are.\<close>

theorem ucb_choice:
  assumes "ud_wf u" and "uc_discretizer q = ud_disc u" and "disc_options (ud_disc u) inp = Some as"
    and "read_all (rep_read1 ops) r (pj_variants (uc_projector q) inp as) = Inr qs"
    and "read_all (rep_read1 vops) vr (pj_variants (uc_projector q) inp as) = Inr ns"
    and "length (pj_variants (uc_projector q) inp as) = length as"
  shows "\<exists>k < length as. uc_act ops vops q r vr inp = Inr (Action (as ! k) atExploratory) \<and>
    (if 1 \<le> sum_list ns then \<forall>j < length as. ucb1 (uc_c_p q) qs ns j \<le> ucb1 (uc_c_p q) qs ns k else k = 0)"
proof -
  have len: "length qs = length as" "length ns = length qs" using assms(4-6) by (simp_all add: read_all_Inr)
  from ud.options_at [OF assms(1), of inp] assms(3) have at: "length as = ud_size u"
    "\<forall>k < length as. d_at (ud_disc u) inp k = Some (as ! k)" by (auto simp: ud_disc_def)
  have "0 < ud_size u" by (rule ud_size_pos [OF assms(1)])
  then have "qs \<noteq> []" using len at by auto
  from ucb_argmax_cases [OF len(2) this, of "uc_c_p q"] show ?thesis
    using assms(2-5) at len by (intro exI conjI) (auto simp: uc_act_def uc_values_def foldl_plus_sum_list Let_def)
qed

theorem ucb_choice_witness:
  "uc_act table_ops table_ops \<lparr>uc_discretizer = ud_disc two_actions, uc_projector = base_projector VectorProjection, uc_c_p = 1\<rparr>
    last_entry (\<lambda>p. 0) [] = Inr (Action [0] atExploratory)"
proof -
  let ?q = "\<lparr>uc_discretizer = ud_disc two_actions, uc_projector = base_projector VectorProjection, uc_c_p = 1\<rparr>"
  have wf: "ud_wf two_actions" and o: "disc_options (ud_disc two_actions) [] = Some [[0], [1]]"
    using two_actions_options by simp_all
  have "read_all (rep_read1 table_ops) last_entry (pj_variants (uc_projector ?q) [] [[0], [1]]) = Inr [0, 1]"
    "read_all (rep_read1 table_ops) (\<lambda>p. 0) (pj_variants (uc_projector ?q) [] [[0], [1]]) = Inr [0, 0]"
    by (simp_all add: table_ops_def rep_read1_def base_projector_def last_entry_def Vectors.extend_def)
  from ucb_choice [OF wf _ o this] show ?thesis by (auto simp: base_projector_def)
qed

text \<open>A sampler that always draws the first index.\<close>

definition first_index :: "real \<Rightarrow> dvec \<Rightarrow> unit \<Rightarrow> rand \<Rightarrow> sampler_error + nat \<times> action_type \<times> unit \<times> rand" where
  "first_index time v s g = Inr (0, atGreedy, s, g)"

theorem bounded_q_stays_close_witness:
  "\<exists>a. bq_act table_ops first_index
      \<lparr>bq_q = \<lparr>qp_discretizer = ud_disc two_actions, qp_projector = base_projector VectorProjection,
                 qp_sampler = greedy_ops\<rparr>, bq_bound = [0.5]\<rparr>
      last_entry 1 [] [1] () (Rand_new 1) = Inr (a, (), Rand_new 1) \<and> \<bar>a_v a ! 0 - 1\<bar> \<le> 0.5"
proof -
  let ?q = "\<lparr>bq_q = \<lparr>qp_discretizer = ud_disc two_actions, qp_projector = base_projector VectorProjection,
                 qp_sampler = greedy_ops\<rparr>, bq_bound = [0.5]\<rparr>"
  have wf: "ud_wf two_actions" and o: "disc_options (ud_disc two_actions) [] = Some [[0], [1]]"
    using two_actions_options by simp_all
  have "d_at (ud_disc two_actions) [] 1 = Some [1]"
    by (simp add: ud_disc_def ud_at_def two_actions_def Let_def)
  then have act: "bq_act table_ops first_index ?q last_entry 1 [] [1] () (Rand_new 1) =
      Inr (Action [1] atGreedy, (), Rand_new 1)"
    using o by (simp add: bq_act_def qp_values_def bq_filter_def first_index_def table_ops_def rep_read1_def
        base_projector_def last_entry_def Vectors.extend_def)
  from bounded_q_stays_close [OF wf _ _ _ act] show ?thesis using act by (auto simp: two_actions_def)
qed

text \<open>a visit counts once. With visit counts in a linear representation that is not limited, \<open>act\<close> with time
  raises the count of the chosen pair by exactly one, as long as that is allowed.\<close>

theorem ucb_counts_visit:
  fixes q :: ucb_policy and vr :: linear_rep
  assumes "uc_act ops lr_ops q r vr inp = Inr a"
  defines "p \<equiv> pj_pair (uc_projector q) inp (a_v a)"
  assumes "lr_learns vr p" and "lr_outputs vr = 1" and "rep_read1 lr_ops vr p = Inr n" and "lr_allowed vr [n + 1]"
  shows "\<exists>vr'. uc_act_timed ops lr_ops q r vr inp = Inr (a, rp_finalize lr_ops vr') \<and>
    rep_read1 lr_ops vr' p = Inr (n + 1)"
proof -
  from lr.read_ok [OF assms(3)] obtain v where v: "rp_read lr_ops vr p = Inr v" "lr_allowed vr v" by blast
  then obtain x where x: "v = [x]" using assms(4) by (cases v) (auto simp: lr_allowed_def)
  then have n: "x = n" using assms(5) v(1) by (simp add: rep_read1_def)
  from lr.write_ok [OF assms(3,6) _ _ v(1), of 1] obtain vr' where
    "rep_write1 lr_ops vr p [n + 1] 1 = Inr vr'" "rp_read lr_ops vr' p = Inr [n + 1]" by (auto simp: x n)
  then show ?thesis using assms(1,5) by (auto simp: uc_act_timed_def p_def [symmetric] rep_read1_def Let_def)
qed

end
