(* ===== verification/Ensembles.thy ===== *)
theory Ensembles
  imports Policies
begin

text \<open>
  Policies that combine several policies (\<open>base/include/grl/policies/multi.h\<close>,
  \<open>base/src/policies/multi.cpp\<close>, \<open>base/src/policies/multi_discrete.cpp\<close>): the continuous ensemble with its
  centres, scores, moving averages and selection, roulette and binning; and the combination of
  discrete distributions.

  The sub-policies and their values are functions of the observation. \<open>rand()\<close>, whose algorithm belongs
  to the C library, is a sequence of draws. The result \<open>None\<close> is an exception or undefined behaviour: a
  trap, an index out of range, operands of different sizes, an unset pointer.
\<close>

section \<open>Draws\<close>

record draws =
  dr_next :: "nat \<Rightarrow> nat"
  dr_count :: nat

definition c_rand :: "draws \<Rightarrow> nat \<times> draws" where
  "c_rand d = (dr_next d (dr_count d), d\<lparr>dr_count := dr_count d + 1\<rparr>)"

text \<open>All places of the maximum, and one of them at random.\<close>

fun max_places :: "dvec \<Rightarrow> nat \<Rightarrow> dbl \<Rightarrow> nat list \<Rightarrow> nat list" where
  "max_places [] ii mx places = places"
| "max_places (x # xs) ii mx places =
     (if d_less mx (Fin x) then max_places xs (ii + 1) (Fin x) [ii]
      else if Fin x = mx then max_places xs (ii + 1) mx (places @ [ii])
      else max_places xs (ii + 1) mx places)"

definition get_max_index :: "dvec \<Rightarrow> draws \<Rightarrow> (nat \<times> draws) option" where
  "get_max_index xs d =
     (let places = max_places xs 0 (Inf False) []; (x, d) = c_rand d
      in if places = [] then None else Some (places ! (x mod length places), d))"

section \<open>Centres and scores\<close>

definition same_dims :: "dvec list \<Rightarrow> bool" where
  "same_dims as = (case as of [] \<Rightarrow> False | a # _ \<Rightarrow> \<forall>b \<in> set as. length b = length a)"

definition g_mean :: "dvec list \<Rightarrow> dvec option" where
  "g_mean as =
     (if same_dims as then Some (map (\<lambda>x. x / real (length as)) (foldl vadd (hd as) (tl as))) else None)"

definition sq_sum :: "dvec \<Rightarrow> dvec \<Rightarrow> real" where
  "sq_sum a b = sum_list (map2 (\<lambda>x y. (x - y)\<^sup>2) a b)"

definition euclidian_distance :: "nat \<Rightarrow> dvec list \<Rightarrow> dvec \<Rightarrow> dvec option" where
  "euclidian_distance n as center =
     (if length as < 2 \<or> n < length as \<or> (\<exists>a \<in> set as. length a \<noteq> length center) then None
      else Some (map (\<lambda>a. - sq_sum a center) as @ replicate (n - length as) 0))"

text \<open>Actions from [min, max] to [-1, 1], and how many others are near. A range or a radius of zero gives NaN in
  every entry, for which \<open>get_max_index\<close> finds no place and divides by zero.\<close>

definition normalized_action :: "dvec \<Rightarrow> dvec \<Rightarrow> dvec \<Rightarrow> dvec" where
  "normalized_action mi ma a = map (\<lambda>k. - 1 + 2 * ((a ! k - mi ! k) / (ma ! k - mi ! k))) [0..<length a]"

definition densities :: "real \<Rightarrow> dvec \<Rightarrow> dvec \<Rightarrow> dvec list \<Rightarrow> dvec option" where
  "densities r mi ma as =
     (if (\<forall>a \<in> set as. length a = length mi) \<and> length ma = length mi \<and> r \<noteq> 0 \<and> (\<forall>k < length mi. mi ! k \<noteq> ma ! k)
      then Some (map (\<lambda>a. sum_list (map (\<lambda>b.
             exp (- 1 * sq_sum (normalized_action mi ma a) (normalized_action mi ma b) / r\<^sup>2)) as)) as)
      else None)"

definition density_based :: "real \<Rightarrow> dvec \<Rightarrow> dvec \<Rightarrow> dvec list \<Rightarrow> draws \<Rightarrow> (dvec \<times> dvec \<times> draws) option" where
  "density_based r mi ma as d =
     do { scores \<leftarrow> densities r mi ma as;
          (ii, d) \<leftarrow> get_max_index scores d;
          Some (scores, as ! ii, d) }"

definition erase :: "nat \<Rightarrow> 'a list \<Rightarrow> 'a list" where
  "erase ii xs = take ii xs @ drop (Suc ii) xs"

text \<open>Outliers are removed until two actions are left.\<close>

partial_function (option) center_loop :: "dvec list \<Rightarrow> dvec \<Rightarrow> draws \<Rightarrow> (dvec \<times> draws) option" where
  "center_loop as mean d =
     (if 2 < length as
      then do { (ii, d) \<leftarrow> get_max_index (map (\<lambda>a. sq_sum a mean) as) d;
                mean \<leftarrow> g_mean (erase ii as);
                center_loop (erase ii as) mean d }
      else Some (mean, d))"

definition data_center :: "dvec list \<Rightarrow> draws \<Rightarrow> (dvec \<times> draws) option" where
  "data_center as d = do { mean \<leftarrow> g_mean as; center_loop as mean d }"

text \<open>The votes of the order of removal. \<open>ids\<close> is the place of every action in the remaining set, or negative.\<close>

fun keep_ids :: "real list \<Rightarrow> nat \<Rightarrow> bool \<Rightarrow> real list" where
  "keep_ids [] index found = []"
| "keep_ids (v # vs) index found =
     (if v = real index then - 1 # keep_ids vs index True
      else (if found then v - 1 else v) # keep_ids vs index found)"

partial_function (option) voting_loop :: "real \<Rightarrow> dvec list \<Rightarrow> dvec \<Rightarrow> dvec \<Rightarrow> draws \<Rightarrow> (dvec \<times> draws) option" where
  "voting_loop iR as ids weights d =
     (if 2 < length as
      then do { mean \<leftarrow> g_mean as;
                (ii, d) \<leftarrow> get_max_index (map (\<lambda>a. sq_sum a mean) as) d;
                mean' \<leftarrow> g_mean (erase ii as);
                let ids = keep_ids ids ii False;
                let weights = map2 (\<lambda>w v. if v < 0 then w - iR else w) weights ids;
                voting_loop iR (erase ii as) ids weights d }
      else Some (weights, d))"

definition datacenter_update_voting :: "real \<Rightarrow> dvec list \<Rightarrow> draws \<Rightarrow> (dvec \<times> draws) option" where
  "datacenter_update_voting iR as d =
     voting_loop iR as (map real [0..<length as])
       (replicate (length as) (1 + iR * real (sz_pred (length as)))) d"

text \<open>The votes of the order of density: the least dense action gets 1.\<close>

definition rank_votes :: "real \<Rightarrow> dvec \<Rightarrow> dvec" where
  "rank_votes iR scores =
     (let order = sort_key (\<lambda>ii. scores ! ii) [0..<length scores]
      in foldl (\<lambda>v (k, ii). v[ii := 1 + iR * real k]) (replicate (length scores) 0)
           (zip [0..<length order] order))"

definition density_based_update_voting ::
    "real \<Rightarrow> real \<Rightarrow> dvec \<Rightarrow> dvec \<Rightarrow> dvec list \<Rightarrow> draws \<Rightarrow> (dvec \<times> dvec \<times> draws) option" where
  "density_based_update_voting iR r mi ma as d =
     do { (scores, center, d) \<leftarrow> density_based r mi ma as d;
          Some (rank_votes iR scores, center, d) }"

section \<open>The ensemble\<close>

datatype strategy = csBinning | csAlg4StepsNew | csStatic | csValueBased | csRoulette

datatype score_distance = sdNone | sdBest | sdBestElitism005 | sdBestElitism0001 | sdBestPersistent
  | sdBestDPersistent | sdBestDCPersistent | sdBestDelayPersistent | sdDensityBased | sdDataCenter
  | sdMean | sdRandom | sdRandomPersistent | sdAlternatelyPersistent

datatype update_history = uhNone | uhEuclideanDistance | uhDensity | uhDensityLinear | uhDataCenter

record multi =
  mp_strategy :: strategy
  mp_center :: "score_distance option"      \<comment> \<open>\<open>None\<close>: not initialized\<close>
  mp_scores :: "update_history option"
  mp_select :: "score_distance option"
  mp_policies :: "(dvec \<Rightarrow> dvec) list"
  mp_values :: "(dvec \<Rightarrow> real) list"
  mp_sampler :: "(dvec \<Rightarrow> rand \<Rightarrow> choice) option"
  mp_bins :: int
  mp_static :: int
  mp_r :: real
  mp_alpha :: real
  mp_iroulette :: real
  mp_percentile :: real
  mp_min :: dvec
  mp_max :: dvec
  mp_moving :: dvec
  mp_voting :: dvec
  mp_iterations :: real
  mp_persistent :: nat
  mp_signal :: dvec
  mp_draws :: draws
  mp_rand :: rand

definition parse_strategy :: "string \<Rightarrow> strategy option" where
  "parse_strategy s =
     (if s = ''binning'' then Some csBinning else if s = ''alg4stepsNew'' then Some csAlg4StepsNew
      else if s = ''static'' then Some csStatic else if s = ''value_based'' then Some csValueBased
      else if s = ''roulette'' then Some csRoulette else None)"

definition parse_center :: "string \<Rightarrow> score_distance option" where
  "parse_center s =
     (if s = ''density'' then Some sdDensityBased else if s = ''data_center'' then Some sdDataCenter
      else if s = ''mean'' then Some sdMean else if s = ''none'' then Some sdNone else None)"

definition parse_history :: "string \<Rightarrow> update_history option" where
  "parse_history s =
     (if s = ''none'' then Some uhNone else if s = ''euclidian_distance'' then Some uhEuclideanDistance
      else if s = ''density'' then Some uhDensity else if s = ''density_linear_order'' then Some uhDensityLinear
      else if s = ''data_center_linear_order'' then Some uhDataCenter else None)"

definition parse_select :: "string \<Rightarrow> score_distance option" where
  "parse_select s =
     (if s = ''none'' then Some sdNone else if s = ''best'' then Some sdBest
      else if s = ''best_elitism005'' then Some sdBestElitism005
      else if s = ''best_elitism0001'' then Some sdBestElitism0001
      else if s = ''best_persistent'' then Some sdBestPersistent
      else if s = ''best_delay_persistent'' then Some sdBestDelayPersistent
      else if s = ''best_dc_persistent'' then Some sdBestDCPersistent
      else if s = ''best_d_persistent'' then Some sdBestDPersistent
      else if s = ''data_center'' then Some sdDataCenter else if s = ''density'' then Some sdDensityBased
      else if s = ''mean'' then Some sdMean else if s = ''random'' then Some sdRandom
      else if s = ''random_persistent'' then Some sdRandomPersistent
      else if s = ''alternately_persistent'' then Some sdAlternatelyPersistent else None)"

text \<open>\<open>old\<close> is the number of sub-policies before configuration, with which the static policy is compared: the
  test comes before the list is read.\<close>

definition multi_configure ::
    "nat \<Rightarrow> string \<Rightarrow> string \<Rightarrow> string \<Rightarrow> string \<Rightarrow> (dvec \<Rightarrow> rand \<Rightarrow> choice) option \<Rightarrow> int \<Rightarrow> int \<Rightarrow>
     real \<Rightarrow> real \<Rightarrow> real \<Rightarrow> real \<Rightarrow> dvec \<Rightarrow> dvec \<Rightarrow> (dvec \<Rightarrow> dvec) list \<Rightarrow> (dvec \<Rightarrow> real) list \<Rightarrow> draws \<Rightarrow> rand \<Rightarrow> multi option" where
  "multi_configure old strategy center history select sampler bins static r alpha iroulette percentile mi ma
     policies vals d g =
     (case parse_strategy strategy of
        None \<Rightarrow> None
      | Some st \<Rightarrow>
          if (0 \<le> static \<and> static < int old) \<or> length mi \<noteq> length ma \<or> mi = [] \<or> policies = [] then None
          else Some \<lparr>mp_strategy = st, mp_center = parse_center center, mp_scores = parse_history history,
                 mp_select = parse_select select, mp_policies = policies, mp_values = vals, mp_sampler = sampler,
                 mp_bins = bins, mp_static = static, mp_r = r, mp_alpha = alpha, mp_iroulette = iroulette,
                 mp_percentile = percentile, mp_min = mi, mp_max = ma,
                 mp_moving = ConstantVector (length policies) 0, mp_voting = replicate (length policies) 1,
                 mp_iterations = 0, mp_persistent = 0, mp_signal = [], mp_draws = d, mp_rand = g\<rparr>)"

text \<open>The actions of all policies; their first components are published.\<close>

definition publish :: "dvec list \<Rightarrow> multi \<Rightarrow> multi option" where
  "publish as m = (if [] \<in> set as then None else Some (m\<lparr>mp_signal := map hd as\<rparr>))"

definition run_policies :: "dvec \<Rightarrow> multi \<Rightarrow> (dvec list \<times> multi) option" where
  "run_policies inp m =
     (let as = map (\<lambda>p. p inp) (mp_policies m) in map_option (\<lambda>m. (as, m)) (publish as m))"

text \<open>Also the values of the policies; the mean is not used by its callers.\<close>

definition get_policy_mean :: "dvec \<Rightarrow> multi \<Rightarrow> (dvec list \<times> dvec \<times> multi) option" where
  "get_policy_mean inp m =
     (let as = map (\<lambda>p. p inp) (mp_policies m)
      in if length (mp_values m) < length as \<or> \<not> same_dims as then None
         else map_option (\<lambda>m. (as, map (\<lambda>v. v inp) (take (length as) (mp_values m)), m)) (publish as m))"

text \<open>The order of the moving averages, largest first, and the share of each in their sum.\<close>

definition share_of :: "dvec \<Rightarrow> nat \<Rightarrow> dbl" where
  "share_of ma ii = d_div (Fin (- 1 * ma ! ii)) (Fin (sum_list (map (\<lambda>x. - 1 * x) ma)))"

definition ranking :: "dvec \<Rightarrow> nat list" where
  "ranking ma = sort_key (\<lambda>ii. - 1 * ma ! ii) [0..<length ma]"

definition elite :: "real \<Rightarrow> dvec \<Rightarrow> nat \<Rightarrow> nat option" where
  "elite bound ma persistent =
     (case ranking ma of
        a # b # _ \<Rightarrow>
          Some (if d_less (Fin bound) (d_add (share_of ma b) (d_neg (share_of ma a))) then a else persistent)
      | _ \<Rightarrow> None)"

definition percentile ::
    "score_distance \<Rightarrow> real \<Rightarrow> dvec list \<Rightarrow> dvec \<Rightarrow> real \<Rightarrow> nat \<Rightarrow> (dvec list \<times> nat) option" where
  "percentile mode time as ma p persistent =
     (let order = ranking ma; ind_cut = max 1 (c_trunc (real (length as) * p))
      in if int (length as) < ind_cut \<or> length ma \<noteq> length as then None
         else map_option (\<lambda>persistent. (map (\<lambda>k. as ! (order ! k)) [0..<nat ind_cut], persistent))
           (if mode = sdBestElitism005 then elite 0.005 ma persistent
            else if mode = sdBestElitism0001 then elite 0.0001 ma persistent
            else if mode \<in> {sdBestPersistent, sdBestDelayPersistent, sdBestDCPersistent, sdBestDPersistent} \<and> time = 0
            then Some (hd order) else Some persistent))"

definition ensemble_center :: "multi \<Rightarrow> dvec list \<Rightarrow> draws \<Rightarrow> (dvec \<times> draws) option" where
  "ensemble_center m as d =
     (case mp_center m of
        Some sdNone \<Rightarrow> Some ([], d)
      | Some sdDensityBased \<Rightarrow>
          map_option (\<lambda>(_, c, d). (c, d)) (density_based (mp_r m) (mp_min m) (mp_max m) as d)
      | Some sdDataCenter \<Rightarrow> data_center as d
      | Some sdMean \<Rightarrow> map_option (\<lambda>c. (c, d)) (g_mean as)
      | _ \<Rightarrow> None)"

definition ensemble_scores :: "multi \<Rightarrow> dvec list \<Rightarrow> dvec \<Rightarrow> draws \<Rightarrow> (dvec \<times> draws) option" where
  "ensemble_scores m as center d =
     (case mp_scores m of
        None \<Rightarrow> None
      | Some uhNone \<Rightarrow> Some (ConstantVector (length as) 0, d)
      | Some uhEuclideanDistance \<Rightarrow>
          map_option (\<lambda>s. (s, d)) (euclidian_distance (length (mp_policies m)) as center)
      | Some uhDensity \<Rightarrow> map_option (\<lambda>(s, _, d). (s, d)) (density_based (mp_r m) (mp_min m) (mp_max m) as d)
      | Some uhDensityLinear \<Rightarrow> map_option (\<lambda>(s, _, d). (s, d))
          (density_based_update_voting (mp_iroulette m) (mp_r m) (mp_min m) (mp_max m) as d)
      | Some uhDataCenter \<Rightarrow> datacenter_update_voting (mp_iroulette m) as d)"

definition nth_opt :: "'a list \<Rightarrow> nat \<Rightarrow> 'a option" where
  "nth_opt xs i = (if i < length xs then Some (xs ! i) else None)"

text \<open>The action chosen from the active set, or from all actions.\<close>

definition select_action ::
    "score_distance \<Rightarrow> real \<Rightarrow> dvec list \<Rightarrow> dvec list \<Rightarrow> multi \<Rightarrow> (dvec \<times> multi) option" where
  "select_action mode time as active m =
     (let keep = map_option (\<lambda>a. (a, m)) (nth_opt as (mp_persistent m));
          drawn = (\<lambda>x. map_option (\<lambda>(a, d). (a, m\<lparr>mp_draws := d\<rparr>)) x);
          dense = drawn (map_option (\<lambda>(_, c, d). (c, d)) (density_based (mp_r m) (mp_min m) (mp_max m) active (mp_draws m)));
          middle = drawn (data_center active (mp_draws m));
          early = (mp_iterations m < 100)
      in case mode of
           sdNone \<Rightarrow> None
         | sdBest \<Rightarrow> map_option (\<lambda>a. (a, m)) (nth_opt active 0)
         | sdBestElitism005 \<Rightarrow> keep
         | sdBestElitism0001 \<Rightarrow> keep
         | sdBestPersistent \<Rightarrow> keep
         | sdBestDelayPersistent \<Rightarrow>
             if early
             then if active = [] then None
                  else let (x, d) = c_rand (mp_draws m)
                       in Some (active ! (x mod length active), m\<lparr>mp_draws := d\<rparr>)
             else keep
         | sdBestDCPersistent \<Rightarrow> if early then middle else keep
         | sdBestDPersistent \<Rightarrow> if early then dense else keep
         | sdDensityBased \<Rightarrow> dense
         | sdDataCenter \<Rightarrow> middle
         | sdMean \<Rightarrow> map_option (\<lambda>a. (a, m)) (g_mean active)
         | sdRandom \<Rightarrow>
             if active = [] then None
             else let (x, d) = c_rand (mp_draws m)
                  in Some (active ! (x mod length active), m\<lparr>mp_draws := d\<rparr>)
         | sdRandomPersistent \<Rightarrow>
             if active = [] then None
             else let (x, d) = c_rand (mp_draws m);
                      m = m\<lparr>mp_draws := d, mp_persistent := if time = 0 then x mod length active else mp_persistent m\<rparr>
                  in map_option (\<lambda>a. (a, m)) (nth_opt active (mp_persistent m))
         | sdAlternatelyPersistent \<Rightarrow>
             if active = [] then None
             else let m = m\<lparr>mp_persistent :=
                        if time = 0 then (mp_persistent m + 1) mod length active else mp_persistent m\<rparr>
                  in map_option (\<lambda>a. (a, m)) (nth_opt active (mp_persistent m)))"

definition act_four_steps :: "real \<Rightarrow> dvec \<Rightarrow> multi \<Rightarrow> (dvec \<times> multi) option" where
  "act_four_steps time inp m =
     do { (as, m) \<leftarrow> run_policies inp m;
          if (mp_scores m \<noteq> Some uhEuclideanDistance) \<noteq> (mp_center m = Some sdNone) then None
          else do {
            (center, d) \<leftarrow> ensemble_center m as (mp_draws m);
            (scores, d) \<leftarrow> ensemble_scores m as center d;
            if length scores \<noteq> length (mp_moving m) then None
            else do {
              let moving = map2 (\<lambda>s v. mp_alpha m * s + (1 - mp_alpha m) * v) scores (mp_moving m);
              let m = m\<lparr>mp_moving := moving, mp_draws := d\<rparr>;
              mode \<leftarrow> mp_select m;
              (active, persistent) \<leftarrow> percentile mode time as moving (mp_percentile m) (mp_persistent m);
              select_action mode time as active (m\<lparr>mp_persistent := persistent\<rparr>) } } }"

text \<open>Roulette: the sections of the wheel are the votes; the winner takes votes from all others that have some.\<close>

fun spin :: "dvec \<Rightarrow> real \<Rightarrow> nat \<Rightarrow> nat" where
  "spin [] x ii = 0"
| "spin (v # vs) x ii = (if x \<le> v then ii else spin vs (x - v) (ii + 1))"

fun reward_winner :: "real \<Rightarrow> nat \<Rightarrow> nat list \<Rightarrow> dvec \<Rightarrow> dvec" where
  "reward_winner iR ind [] votes = votes"
| "reward_winner iR ind (ii # iis) votes =
     (if ii \<noteq> ind \<and> 0 < votes ! ii
      then let votes = votes[ind := votes ! ind + iR]
           in reward_winner iR ind iis (votes[ii := votes ! ii - iR])
      else reward_winner iR ind iis votes)"

definition act_roulette :: "dvec \<Rightarrow> multi \<Rightarrow> (dvec \<times> multi) option" where
  "act_roulette inp m =
     (let n = length (mp_policies m); (x, d) = c_rand (mp_draws m)
      in if n = 0 then None
         else do {
           (as, vs, m) \<leftarrow> get_policy_mean inp (m\<lparr>mp_draws := d\<rparr>);
           let ind = spin (mp_voting m) (real (x mod (n * 100)) / 100) 0;
           let m = m\<lparr>mp_voting := reward_winner (mp_iroulette m) ind [0..<length (mp_voting m)] (mp_voting m)\<rparr>;
           map_option (\<lambda>a. (a, m)) (nth_opt as ind) })"

text \<open>Binning: the mean of the actions in the fullest bins, dimension after dimension. The histogram is not cleared
  between them, and the first component is the result in every dimension.\<close>

definition bin_of :: "int \<Rightarrow> real \<Rightarrow> real \<Rightarrow> real \<Rightarrow> nat option" where
  "bin_of bins mi ma a =
     (let b = min \<lfloor>real_of_int bins * (a - mi) / (ma - mi)\<rfloor> (bins - 1)
      in if mi = ma \<or> b < 0 then None else Some (nat b))"

definition fullest :: "nat list \<Rightarrow> nat \<times> nat" where
  "fullest histogram =
     foldl (\<lambda>(cnt, b) ii. if cnt < histogram ! ii then (histogram ! ii, ii) else (cnt, b)) (0, 0) [0..<length histogram]"

definition bin_dimension :: "int \<Rightarrow> real \<Rightarrow> real \<Rightarrow> dvec \<Rightarrow> nat list \<Rightarrow> (dbl \<times> nat list) option" where
  "bin_dimension bins mi ma as histogram =
     do { bs \<leftarrow> option_list (map (bin_of bins mi ma) as);
          let histogram = foldl (\<lambda>h b. h[b := h ! b + 1]) histogram bs;
          let binmax = snd (fullest histogram);
          let chosen = filter (\<lambda>(a, b). histogram ! b = histogram ! binmax) (zip as bs);
          Some (d_div (Fin (sum_list (map fst chosen))) (Fin (real (length chosen))), histogram) }"

fun bin_dimensions :: "int \<Rightarrow> dvec \<Rightarrow> dvec \<Rightarrow> dvec list \<Rightarrow> nat list \<Rightarrow> nat list \<Rightarrow> dbl list option" where
  "bin_dimensions bins mi ma as [] histogram = Some []"
| "bin_dimensions bins mi ma as (jj # jjs) histogram =
     do { (x, histogram) \<leftarrow> bin_dimension bins (mi ! jj) (ma ! jj) (map (\<lambda>a. a ! jj) as) histogram;
          xs \<leftarrow> bin_dimensions bins mi ma as jjs histogram;
          Some (x # xs) }"

definition act_binning :: "dvec \<Rightarrow> multi \<Rightarrow> (dbl list \<times> multi) option" where
  "act_binning inp m =
     (let as = map (\<lambda>p. p inp) (mp_policies m)
      in case as of
           [] \<Rightarrow> None
         | a # _ \<Rightarrow>
             if (\<exists>b \<in> set as. length b < length a) \<or> length (mp_min m) < length a \<or> mp_bins m \<le> 0 then None
             else do {
               result \<leftarrow> bin_dimensions (mp_bins m) (mp_min m) (mp_max m) as [0..<length a] (replicate (nat (mp_bins m)) 0);
               case result of [] \<Rightarrow> None | x # _ \<Rightarrow> Some (replicate (length a) x, m) })"

definition act_static :: "dvec \<Rightarrow> multi \<Rightarrow> (dvec \<times> multi) option" where
  "act_static inp m =
     (if mp_policies m = [] \<or> mp_static m smod int (length (mp_policies m)) < 0 then None
      else Some ((mp_policies m ! nat (mp_static m smod int (length (mp_policies m)))) inp, m))"

definition act_value_based :: "dvec \<Rightarrow> multi \<Rightarrow> (dvec \<times> multi) option" where
  "act_value_based inp m =
     do { (as, vs, m) \<leftarrow> get_policy_mean inp m;
          smp \<leftarrow> mp_sampler m;
          case smp vs (mp_rand m) of
            Inl e \<Rightarrow> None
          | Inr (ind, _, g) \<Rightarrow> map_option (\<lambda>a. (a, m\<lparr>mp_rand := g\<rparr>)) (nth_opt as ind) }"

text \<open>The strategies; the first component of the result is tested, so there has to be one.\<close>

definition multi_act :: "real \<Rightarrow> dvec \<Rightarrow> multi \<Rightarrow> (dbl list \<times> multi) option" where
  "multi_act time inp m =
     (let m = (if time = 0 then m\<lparr>mp_iterations := mp_iterations m + 1\<rparr> else m);
          fin = map_option (\<lambda>(a, m). (map Fin a, m))
      in do { (a, m) \<leftarrow> (case mp_strategy m of
                csBinning \<Rightarrow> act_binning inp m
              | csAlg4StepsNew \<Rightarrow> fin (act_four_steps time inp m)
              | csStatic \<Rightarrow> fin (act_static inp m)
              | csValueBased \<Rightarrow> fin (act_value_based inp m)
              | csRoulette \<Rightarrow> fin (act_roulette inp m));
            if a = [] then None else Some (a, m) })"

end
