(* ===== verification/DiscreteEnsembles.thy ===== *)
theory DiscreteEnsembles
  imports Ensembles
begin

text \<open>
  The combination of discrete policies (\<open>DiscreteMultiPolicy\<close>, \<open>base/src/policies/multi_discrete.cpp\<close>): the
  distributions of the sub-policies are added, multiplied, or turned into votes.

  The sub-policies share a state, in which their random numbers are. Distributions can hold NaN
  (the quotient of zeros), so they are lists of extended doubles.
\<close>

record 's discrete_policy =
  dp_distribution :: "dvec \<Rightarrow> dvec \<Rightarrow> 's \<Rightarrow> rep_error + dvec \<times> 's"
  dp_act :: "dvec \<Rightarrow> 's \<Rightarrow> rep_error + dvec \<times> 's"
  dp_act_timed :: "real \<Rightarrow> dvec \<Rightarrow> action \<Rightarrow> 's \<Rightarrow> rep_error + 's"

datatype discrete_strategy = csAddProbabilities | csMultiplyProbabilities | csMajorityVotingProbabilities
  | csRankVotingProbabilities | csDensityBased

record 's discrete_multi =
  dm_strategy :: discrete_strategy
  dm_discretizer :: disc
  dm_policies :: "'s discrete_policy list"
  dm_min :: dvec
  dm_max :: dvec
  dm_tau :: real
  dm_r :: real

definition parse_discrete :: "string \<Rightarrow> discrete_strategy option" where
  "parse_discrete s =
     (if s = ''policy_strategy_add_prob'' then Some csAddProbabilities
      else if s = ''policy_strategy_multiply_prob'' then Some csMultiplyProbabilities
      else if s = ''policy_strategy_majority_voting_prob'' then Some csMajorityVotingProbabilities
      else if s = ''policy_strategy_rank_voting_prob'' then Some csRankVotingProbabilities
      else if s = ''policy_strategy_density_based'' then Some csDensityBased else None)"

definition dm_configure :: "string \<Rightarrow> real \<Rightarrow> real \<Rightarrow> disc \<Rightarrow> 's discrete_policy list \<Rightarrow> dvec \<Rightarrow> dvec \<Rightarrow>
    rep_error + 's discrete_multi" where
  "dm_configure strategy tau r d policies mi ma =
     (case parse_discrete strategy of
        None \<Rightarrow> Inl RepBadParam
      | Some st \<Rightarrow>
          if length mi \<noteq> length ma \<or> mi = [] then Inl RepBadParam
          else if policies = [] then Inl RepBadParam
          else Inr \<lparr>dm_strategy = st, dm_discretizer = d, dm_policies = policies, dm_min = mi, dm_max = ma,
                    dm_tau = tau, dm_r = r\<rparr>)"

section \<open>Combination\<close>

text \<open>The loop over the sub-policies with a step for each distribution, which must have the size of the first.\<close>

fun dm_loop :: "(dvec \<Rightarrow> 'a \<Rightarrow> 'a) \<Rightarrow> nat \<Rightarrow> dvec \<Rightarrow> dvec \<Rightarrow> 's discrete_policy list \<Rightarrow> 'a \<Rightarrow> 's \<Rightarrow> rep_error + 'a \<times> 's" where
  "dm_loop f n inp prev [] x s = Inr (x, s)"
| "dm_loop f n inp prev (p # ps) x s =
     chain (dp_distribution p inp prev s) (\<lambda>(distr, s).
       if length distr \<noteq> n then Inl RepBadParam else dm_loop f n inp prev ps (f distr x) s)"

text \<open>The last place if no entry is positive, otherwise the first of the largest.\<close>

fun vote_place :: "dvec \<Rightarrow> nat \<Rightarrow> real \<Rightarrow> nat \<Rightarrow> nat" where
  "vote_place [] jj best ind = ind"
| "vote_place (x # xs) jj best ind =
     (if x > best then vote_place xs (jj + 1) x jj else vote_place xs (jj + 1) best ind)"

definition add_vote :: "dvec \<Rightarrow> dvec \<Rightarrow> dvec" where
  "add_vote distr v = (let ii = vote_place distr 0 0 (length distr - 1) in v[ii := v ! ii + 1])"

definition rank_weights :: "dvec \<Rightarrow> dvec" where
  "rank_weights distr = map (\<lambda>x. 1 + real (length (filter (\<lambda>y. x > y) distr))) distr"

text \<open>Powers: the same exponent for every entry. A zero temperature makes it infinite, and the result NaN.\<close>

definition normalized_function :: "real \<Rightarrow> dvec \<Rightarrow> rep_error + dbl list" where
  "normalized_function tau values =
     (if tau = 0 then Inr (replicate (length values) NaN)
      else if \<exists>x \<in> set values. x < 0 then Inl RepUndefined
      else let max_power = foldl (\<lambda>m _. if m < 1 / tau then 1 / tau else m) (- DBL_MAX) values;
               min_power = max_power + (- 100);
               center = (max_power + min_power) / 2;
               p = 1 / tau;
               v = map (\<lambda>x. if p > min_power then c_pow x (p - center) else 0) values;
               acc = vec_sum v
           in Inr (map (\<lambda>x. d_mul (Fin (if p > min_power then 1 else 0)) (d_div (Fin x) (Fin acc))) v))"

definition dm_softmax :: "real \<Rightarrow> dvec \<Rightarrow> dbl list" where
  "dm_softmax tau values =
     (if tau = 0 then replicate (length values) NaN else map Fin (softmax_distribution tau values))"

text \<open>The density strategy: the actions and their densities are computed and drawn from, but the result is a local
  variable: \<open>out\<close> is not written.\<close>

fun dm_acts :: "dvec \<Rightarrow> 's discrete_policy list \<Rightarrow> 's \<Rightarrow> rep_error + dvec list \<times> 's" where
  "dm_acts inp [] s = Inr ([], s)"
| "dm_acts inp (p # ps) s =
     chain (dp_act p inp s) (\<lambda>(a, s). chain (dm_acts inp ps s) (\<lambda>(as, s). Inr (a # as, s)))"

definition dm_density :: "'s discrete_multi \<Rightarrow> dvec \<Rightarrow> dbl list \<Rightarrow> 's \<times> draws \<Rightarrow> rep_error + dbl list \<times> 's \<times> draws" where
  "dm_density m inp out = (\<lambda>(s, d).
     chain (dp_act (hd (dm_policies m)) inp s) (\<lambda>(a, s).
     chain (dm_acts inp (dm_policies m) s) (\<lambda>(as, s).
       let n = length a
       in if n = 0 \<or> (\<exists>b \<in> set as. b = []) then Inl RepUndefined
          else case densities (dm_r m) (dm_min m) (dm_max m) as of
                 None \<Rightarrow> Inl RepUndefined
               | Some scores \<Rightarrow>
                   if \<exists>b \<in> set as. length b < n then Inl RepUndefined
                   else Inr (out, s, d\<lparr>dr_count := dr_count d + n\<rparr>))))"

definition dm_distribution :: "'s discrete_multi \<Rightarrow> dvec \<Rightarrow> dvec \<Rightarrow> dbl list \<Rightarrow> 's \<times> draws \<Rightarrow>
    rep_error + dbl list \<times> 's \<times> draws" where
  "dm_distribution m inp prev out = (\<lambda>(s, d).
     (let combine = (\<lambda>f start finish.
        chain (dp_distribution (hd (dm_policies m)) inp prev s) (\<lambda>(out, s).
        chain (dm_loop f (length out) inp prev (dm_policies m) (replicate (length out) start) s) (\<lambda>(v, s).
        chain (finish v) (\<lambda>out. Inr (out, s, d)))))
      in case dm_strategy m of
           csAddProbabilities \<Rightarrow> combine (\<lambda>distr v. vadd v distr) 0 (normalized_function (dm_tau m))
         | csMultiplyProbabilities \<Rightarrow> combine (\<lambda>distr v. vmul v distr) 1 (normalized_function (dm_tau m))
         | csMajorityVotingProbabilities \<Rightarrow>
             combine add_vote 0 (\<lambda>v. if v = [] then Inl RepUndefined else Inr (dm_softmax (dm_tau m) v))
         | csRankVotingProbabilities \<Rightarrow> combine (\<lambda>distr v. vadd v (rank_weights distr)) 0 (\<lambda>v. Inr (dm_softmax (dm_tau m) v))
         | csDensityBased \<Rightarrow> dm_density m inp out (s, d)))"

section \<open>Acting\<close>

text \<open>Sampling when an entry is NaN: the sum is NaN, no comparison holds, and the last place is returned.\<close>

definition sample_d :: "dbl list \<Rightarrow> rand \<Rightarrow> nat \<times> rand" where
  "sample_d distr g =
     (if \<forall>x \<in> set distr. d_isfin x then sample (map d_val distr) g
      else (sz_pred (length distr), snd (rand_get g)))"

definition dm_act :: "'s discrete_multi \<Rightarrow> dvec \<Rightarrow> dvec \<Rightarrow> 's \<times> draws \<Rightarrow> rand \<Rightarrow> rep_error + action \<times> ('s \<times> draws) \<times> rand" where
  "dm_act m inp out sd g =
     chain (dm_distribution m inp out [] sd) (\<lambda>(distr, sd).
     let (ii, g) = sample_d distr g
     in chain (Policies.of_option (disc_options (dm_discretizer m) inp)) (\<lambda>variants.
          if length variants \<le> ii then Inl RepBadParam else Inr (Action (variants ! ii) atExploratory, sd, g)))"

fun dm_times :: "real \<Rightarrow> dvec \<Rightarrow> action \<Rightarrow> 's discrete_policy list \<Rightarrow> 's \<Rightarrow> rep_error + 's" where
  "dm_times time inp out [] s = Inr s"
| "dm_times time inp out (p # ps) s = chain (dp_act_timed p time inp out s) (dm_times time inp out ps)"

definition dm_act_timed :: "'s discrete_multi \<Rightarrow> real \<Rightarrow> dvec \<Rightarrow> action \<Rightarrow> 's \<times> draws \<Rightarrow> rand \<Rightarrow>
    rep_error + action \<times> ('s \<times> draws) \<times> rand" where
  "dm_act_timed m time inp out = (\<lambda>(s, d) g.
     chain (dm_times time inp out (dm_policies m) s) (\<lambda>s. dm_act m inp (a_v out) (s, d) g))"

end
