(* ===== verification/EnsembleFacts.thy ===== *)
theory EnsembleFacts
  imports DiscreteEnsembles
begin

text \<open>
  Facts about ensembles: the combined action always exists and lies between the actions of the
  sub-policies, the wheel of the roulette keeps its size, elitism never leaves the first policy under
  positive scores, binning looks at one dimension only; powers of discrete distributions ignore the
  temperature, and the density of discrete policies is never used.
\<close>

section \<open>Places of the maximum\<close>

lemma max_places_Fin:
  "(\<forall>ii \<in> set places. ii < n) \<Longrightarrow> places \<noteq> [] \<Longrightarrow>
   max_places xs n (Fin b) places \<noteq> [] \<and> (\<forall>ii \<in> set (max_places xs n (Fin b) places). ii < n + length xs)"
proof (induction xs arbitrary: n b places)
  case (Cons x xs)
  have less: "\<forall>ii \<in> set places. ii < Suc n" using Cons.prems(1) by auto
  show ?case
    using Cons.IH [of "[n]" "Suc n" x] Cons.IH [of "places @ [n]" "Suc n" b] Cons.IH [of places "Suc n" b] less Cons.prems(2)
    by (auto simp: not_less)
qed simp

lemma get_max_index_returns:
  assumes "xs \<noteq> []"
  shows "\<exists>ii. get_max_index xs d = Some (ii, d\<lparr>dr_count := dr_count d + 1\<rparr>) \<and> ii < length xs"
proof -
  obtain x ys where xs: "xs = x # ys" using assms by (cases xs) auto
  have "max_places xs 0 (Inf False) [] \<noteq> []" "\<forall>ii \<in> set (max_places xs 0 (Inf False) []). ii < length xs"
    using max_places_Fin [of "[0]" 1 ys x] by (simp_all add: xs)
  then show ?thesis by (simp add: get_max_index_def c_rand_def Let_def)
qed

section \<open>Between the actions\<close>

definition spanned :: "nat \<Rightarrow> dvec list \<Rightarrow> dvec \<Rightarrow> bool" where
  "spanned n as v \<longleftrightarrow> length v = n \<and> (\<forall>k < n. (\<exists>a \<in> set as. a ! k \<le> v ! k) \<and> (\<exists>a \<in> set as. v ! k \<le> a ! k))"

lemma spanned_member: "a \<in> set as \<Longrightarrow> length a = n \<Longrightarrow> spanned n as a"
  by (auto simp: spanned_def)

lemma spanned_mono: "spanned n bs v \<Longrightarrow> set bs \<subseteq> set as \<Longrightarrow> spanned n as v"
  unfolding spanned_def by blast

lemma mean_between:
  fixes xs :: dvec
  assumes "xs \<noteq> []"
  shows "(\<exists>x \<in> set xs. x \<le> sum_list xs / real (length xs)) \<and> (\<exists>x \<in> set xs. sum_list xs / real (length xs) \<le> x)"
proof -
  let ?m = "sum_list xs / real (length xs)"
  have len: "0 < real (length xs)" using assms by simp
  have eq: "sum_list xs = real (length xs) * ?m" using len by simp
  have low: "sum_list (map (\<lambda>_. ?m) xs) = real (length xs) * ?m" by (simp add: sum_list_triv)
  show ?thesis
  proof (rule conjI; rule ccontr)
    assume "\<not> (\<exists>x \<in> set xs. x \<le> ?m)"
    then have "sum_list (map (\<lambda>_. ?m) xs) < sum_list (map (\<lambda>x. x) xs)"
      using assms by (intro sum_list_strict_mono) auto
    then show False using eq low by simp
  next
    assume "\<not> (\<exists>x \<in> set xs. ?m \<le> x)"
    then have "sum_list (map (\<lambda>x. x) xs) < sum_list (map (\<lambda>_. ?m) xs)"
      using assms by (intro sum_list_strict_mono) auto
    then show False using eq low by simp
  qed
qed

lemma foldl_vadd:
  assumes "\<forall>b \<in> set as. length b = n" and "length a = n"
  shows "length (foldl vadd a as) = n \<and> (\<forall>k < n. foldl vadd a as ! k = a ! k + sum_list (map (\<lambda>b. b ! k) as))"
  using assms
proof (induction as arbitrary: a)
  case (Cons b bs)
  then show ?case by (simp add: vadd_def)
qed simp

lemma g_mean_spanned:
  assumes "as \<noteq> []" and "\<forall>a \<in> set as. length a = n"
  shows "\<exists>v. g_mean as = Some v \<and> spanned n as v"
proof -
  obtain a bs where as: "as = a # bs" using assms(1) by (cases as) auto
  let ?v = "map (\<lambda>x. x / real (length as)) (foldl vadd (hd as) (tl as))"
  note sums = foldl_vadd [of bs n a]
  have len: "length (foldl vadd a bs) = n" using sums as assms(2) by simp
  have nth: "?v ! k = sum_list (map (\<lambda>b. b ! k) as) / real (length (map (\<lambda>b. b ! k) as))" if "k < n" for k
    using sums as assms(2) that by simp
  have "g_mean as = Some ?v" using as assms(2) by (simp add: g_mean_def same_dims_def)
  moreover have "spanned n as ?v"
    unfolding spanned_def using mean_between [of "map (\<lambda>b. b ! _) as"] assms(1) nth len as by auto
  ultimately show ?thesis by blast
qed

lemma erase_length: "ii < length xs \<Longrightarrow> length (erase ii xs) = length xs - 1"
  by (simp add: erase_def)

lemma set_erase: "set (erase ii xs) \<subseteq> set xs"
  by (auto simp: erase_def dest: in_set_takeD in_set_dropD)

lemma center_loop_spanned:
  assumes "as \<noteq> []" and "\<forall>a \<in> set as. length a = n" and "spanned n as mean"
  shows "\<exists>v d'. center_loop as mean d = Some (v, d') \<and> spanned n as v"
  using assms
proof (induction "length as" arbitrary: as mean d rule: less_induct)
  case less
  show ?case
  proof (cases "2 < length as")
    case True
    obtain ii where ii: "get_max_index (map (\<lambda>a. sq_sum a mean) as) d = Some (ii, d\<lparr>dr_count := dr_count d + 1\<rparr>)"
      "ii < length as" using get_max_index_returns [of "map (\<lambda>a. sq_sum a mean) as" d] less.prems(1) by auto
    let ?bs = "erase ii as"
    have sub: "set ?bs \<subseteq> set as" by (rule set_erase)
    have len: "length ?bs < length as" "?bs \<noteq> []" using erase_length [OF ii(2)] True by auto
    have dims: "\<forall>a \<in> set ?bs. length a = n" using less.prems(2) sub by blast
    from g_mean_spanned [OF len(2) dims] obtain v where v: "g_mean ?bs = Some v" "spanned n ?bs v" by blast
    from less.hyps [OF len(1,2) dims v(2)] obtain w d' where
      "center_loop ?bs v (d\<lparr>dr_count := dr_count d + 1\<rparr>) = Some (w, d')" "spanned n ?bs w" by blast
    moreover have "center_loop as mean d = center_loop ?bs v (d\<lparr>dr_count := dr_count d + 1\<rparr>)"
      using True ii(1) v(1) by (subst center_loop.simps) simp
    ultimately show ?thesis using spanned_mono [OF _ sub] by fastforce
  next
    case False
    then show ?thesis using less.prems(3) by (subst center_loop.simps) simp
  qed
qed

lemma data_center_spanned:
  assumes "as \<noteq> []" and "\<forall>a \<in> set as. length a = n"
  shows "\<exists>v d'. data_center as d = Some (v, d') \<and> spanned n as v"
proof -
  from g_mean_spanned [OF assms] obtain m where m: "g_mean as = Some m" "spanned n as m" by blast
  from center_loop_spanned [OF assms m(2), of d] m(1) show ?thesis by (simp add: data_center_def)
qed

section \<open>Scores\<close>

definition proper_range :: "real \<Rightarrow> dvec \<Rightarrow> dvec \<Rightarrow> bool" where
  "proper_range r mi ma \<longleftrightarrow> r \<noteq> 0 \<and> length ma = length mi \<and> (\<forall>k < length mi. mi ! k \<noteq> ma ! k)"

lemma sq_sum_same: "sq_sum a a = 0"
  by (induction a) (simp_all add: sq_sum_def)

lemma densities_pos:
  assumes "proper_range r mi ma" and "\<forall>a \<in> set as. length a = length mi"
  shows "\<exists>s. densities r mi ma as = Some s \<and> length s = length as \<and> (\<forall>x \<in> set s. 1 \<le> x)"
proof -
  let ?e = "\<lambda>a b. exp (- 1 * sq_sum (normalized_action mi ma a) (normalized_action mi ma b) / r\<^sup>2)"
  have "1 \<le> sum_list (map (?e a) as)" if "a \<in> set as" for a
  proof -
    have "?e a a \<in> set (map (?e a) as)" unfolding set_map using that by (rule imageI)
    then have "?e a a \<le> sum_list (map (?e a) as)" by (intro member_le_sum_list) auto
    then show ?thesis by (simp add: sq_sum_same)
  qed
  then show ?thesis using assms by (auto simp: densities_def proper_range_def)
qed

lemma density_based_returns:
  assumes "proper_range r mi ma" and "\<forall>a \<in> set as. length a = length mi" and "as \<noteq> []"
  shows "\<exists>s v d'. density_based r mi ma as d = Some (s, v, d') \<and> length s = length as \<and> (\<forall>x \<in> set s. 1 \<le> x) \<and>
    v \<in> set as"
proof -
  from densities_pos [OF assms(1,2)] obtain s where s: "densities r mi ma as = Some s" "length s = length as"
    "\<forall>x \<in> set s. 1 \<le> x" by blast
  then have "s \<noteq> []" using assms(3) by auto
  from get_max_index_returns [OF this, of d] obtain ii where
    "get_max_index s d = Some (ii, d\<lparr>dr_count := dr_count d + 1\<rparr>)" "ii < length s" by blast
  then show ?thesis using s by (auto simp: density_based_def)
qed

lemma keep_ids_length [simp]: "length (keep_ids vs index found) = length vs"
  by (induction vs arbitrary: found) simp_all

lemma voting_loop_returns:
  assumes "as \<noteq> []" and "\<forall>a \<in> set as. length a = n" and "length ids = length weights"
  shows "\<exists>w d'. voting_loop iR as ids weights d = Some (w, d') \<and> length w = length weights"
  using assms
proof (induction "length as" arbitrary: as ids weights d rule: less_induct)
  case less
  show ?case
  proof (cases "2 < length as")
    case True
    from g_mean_spanned [OF less.prems(1,2)] obtain mean where mean: "g_mean as = Some mean" by blast
    obtain ii where ii: "get_max_index (map (\<lambda>a. sq_sum a mean) as) d = Some (ii, d\<lparr>dr_count := dr_count d + 1\<rparr>)"
      "ii < length as" using get_max_index_returns [of "map (\<lambda>a. sq_sum a mean) as" d] less.prems(1) by auto
    let ?bs = "erase ii as" and ?ids = "keep_ids ids ii False"
    let ?w = "map2 (\<lambda>w v. if v < 0 then w - iR else w) weights ?ids"
    have len: "length ?bs < length as" "?bs \<noteq> []" using erase_length [OF ii(2)] True by auto
    have dims: "\<forall>a \<in> set ?bs. length a = n" using less.prems(2) set_erase [of ii as] by blast
    from g_mean_spanned [OF len(2) dims] obtain v where v: "g_mean ?bs = Some v" by blast
    have "length ?ids = length ?w" using less.prems(3) by simp
    from less.hyps [OF len(1,2) dims this] obtain w d' where
      "voting_loop iR ?bs ?ids ?w (d\<lparr>dr_count := dr_count d + 1\<rparr>) = Some (w, d')" "length w = length ?w" by blast
    then show ?thesis using True ii(1) v mean less.prems(3) by (subst voting_loop.simps) (simp add: Let_def)
  next
    case False
    then show ?thesis by (subst voting_loop.simps) simp
  qed
qed

lemma foldl_update_length: "length (foldl (\<lambda>v (k, ii). v[ii := f k]) v xs) = length v"
  by (induction xs arbitrary: v) (auto simp: split: prod.splits)

lemma rank_votes_length: "length (rank_votes iR s) = length s"
  by (simp add: rank_votes_def foldl_update_length)

section \<open>The wheel of the roulette\<close>

lemma sum_list_put: "k < length xs \<Longrightarrow> sum_list (xs[k := x]) = sum_list xs + x - (xs ! k :: real)"
  by (induction xs arbitrary: k) (auto split: nat.split)

lemma reward_winner_length [simp]: "length (reward_winner iR ind iis votes) = length votes"
  by (induction iR ind iis votes rule: reward_winner.induct) (simp_all add: Let_def)

lemma reward_winner_sum:
  "ind < length votes \<Longrightarrow> \<forall>ii \<in> set iis. ii < length votes \<Longrightarrow>
   sum_list (reward_winner iR ind iis votes) = sum_list votes"
  by (induction iR ind iis votes rule: reward_winner.induct) (simp_all add: Let_def sum_list_put)

lemma reward_winner_nth:
  "distinct iis \<Longrightarrow> ind < length votes \<Longrightarrow> \<forall>ii \<in> set iis. ii < length votes \<Longrightarrow> k < length votes \<Longrightarrow>
   reward_winner iR ind iis votes ! k =
     (if k = ind then votes ! ind + iR * real (length (filter (\<lambda>ii. ii \<noteq> ind \<and> 0 < votes ! ii) iis))
      else if k \<in> set iis \<and> 0 < votes ! k then votes ! k - iR else votes ! k)"
proof (induction iR ind iis votes arbitrary: k rule: reward_winner.induct)
  case (2 iR ind ii iis votes)
  show ?case
  proof (cases "ii \<noteq> ind \<and> 0 < votes ! ii")
    case True
    let ?v = "votes[ind := votes ! ind + iR, ii := votes ! ii - iR]"
    have keep: "filter (\<lambda>jj. jj \<noteq> ind \<and> 0 < ?v ! jj) iis = filter (\<lambda>jj. jj \<noteq> ind \<and> 0 < votes ! jj) iis"
    proof (rule filter_cong [OF refl])
      fix jj
      assume "jj \<in> set iis"
      then have "jj \<noteq> ii" using 2(3) by auto
      then show "(jj \<noteq> ind \<and> 0 < ?v ! jj) = (jj \<noteq> ind \<and> 0 < votes ! jj)" by (auto simp: nth_list_update_neq)
    qed
    have "reward_winner iR ind (ii # iis) votes = reward_winner iR ind iis ?v" using True by (simp add: Let_def)
    then show ?thesis
      using 2(1) [OF True refl, of k] 2(3-6) True keep by (auto simp: nth_list_update algebra_simps)
  next
    case False
    then show ?thesis using 2(2) [of k] 2(3-6) by auto
  qed
qed simp

lemma spin_finds:
  "x \<le> sum_list vs \<Longrightarrow> vs \<noteq> [] \<Longrightarrow>
   \<exists>j < length vs. spin vs x n = n + j \<and> x \<le> sum_list (take (Suc j) vs) \<and> (\<forall>i < j. sum_list (take (Suc i) vs) < x)"
proof (induction vs arbitrary: x n)
  case (Cons v vs)
  show ?case
  proof (cases "x \<le> v")
    case True
    then show ?thesis by (intro exI [of _ 0]) simp
  next
    case False
    then have "x - v \<le> sum_list vs" "vs \<noteq> []" using Cons.prems(1) by auto
    from Cons.IH [OF this, of "n + 1"] obtain j where j: "j < length vs" "spin vs (x - v) (n + 1) = n + 1 + j"
      "x - v \<le> sum_list (take (Suc j) vs)" "\<forall>i < j. sum_list (take (Suc i) vs) < x - v" by auto
    have "sum_list (take (Suc i) (v # vs)) < x" if "i < Suc j" for i
      using j(4) False that by (cases i) (auto simp: less_diff_eq algebra_simps)
    then show ?thesis using j False by (intro exI [of _ "Suc j"]) auto
  qed
qed simp

definition wheel :: "multi \<Rightarrow> bool" where
  "wheel m \<longleftrightarrow> length (mp_voting m) = length (mp_policies m) \<and> mp_voting m \<noteq> [] \<and>
     sum_list (mp_voting m) = real (length (mp_policies m)) \<and> (\<forall>v \<in> set (mp_voting m). - mp_iroulette m < v)"

lemma get_policy_mean_returns:
  assumes "mp_policies m \<noteq> []" "length (mp_policies m) \<le> length (mp_values m)" "\<forall>p \<in> set (mp_policies m). length (p inp) = k" "0 < k"
  shows "\<exists>vs s. get_policy_mean inp m = Some (map (\<lambda>p. p inp) (mp_policies m), vs, m\<lparr>mp_signal := s\<rparr>)"
proof -
  obtain p ps where "mp_policies m = p # ps" using assms(1) by (cases "mp_policies m") auto
  then have "same_dims (map (\<lambda>p. p inp) (mp_policies m))" using assms(3) by (simp add: same_dims_def)
  moreover have "[] \<notin> (\<lambda>p. p inp) ` set (mp_policies m)" using assms(3,4) by force
  ultimately show ?thesis using assms(2) by (simp add: get_policy_mean_def Let_def publish_def) (rule exI, rule refl)
qed

text \<open>the wheel of the roulette strategy keeps its size: the votes add up to the number of policies, none
  falls to the negative increment or below, the section in which the draw falls decides, and the winner
  takes one increment of every other policy that has votes.\<close>

theorem roulette_keeps_wheel:
  assumes "wheel m" "0 \<le> mp_iroulette m" "mp_strategy m = csRoulette" "length (mp_policies m) \<le> length (mp_values m)"
    "\<forall>p \<in> set (mp_policies m). length (p inp) = k" "0 < k"
  shows "\<exists>ind m'. ind < length (mp_policies m) \<and>
    multi_act time inp m = Some (map Fin ((mp_policies m ! ind) inp), m') \<and> wheel m' \<and>
    (let x = real (dr_next (mp_draws m) (dr_count (mp_draws m)) mod (length (mp_policies m) * 100)) / 100
     in x \<le> sum_list (take (Suc ind) (mp_voting m)) \<and> (\<forall>i < ind. sum_list (take (Suc i) (mp_voting m)) < x)) \<and>
    mp_voting m' ! ind = mp_voting m ! ind + mp_iroulette m *
      real (length (filter (\<lambda>i. i \<noteq> ind \<and> 0 < mp_voting m ! i) [0..<length (mp_policies m)]))"
proof -
  let ?n = "length (mp_policies m)" and ?v = "mp_voting m" and ?iR = "mp_iroulette m"
  let ?x = "real (dr_next (mp_draws m) (dr_count (mp_draws m)) mod (?n * 100)) / 100"
  define m0 where "m0 = (if time = 0 then m\<lparr>mp_iterations := mp_iterations m + 1\<rparr> else m)"
  have m0: "mp_policies m0 = mp_policies m" "mp_values m0 = mp_values m" "mp_voting m0 = ?v" "mp_draws m0 = mp_draws m"
    "mp_iroulette m0 = ?iR" "mp_strategy m0 = mp_strategy m" by (simp_all add: m0_def)
  let ?d = "(mp_draws m)\<lparr>dr_count := dr_count (mp_draws m) + 1\<rparr>"
  have w: "length ?v = ?n" "?v \<noteq> []" "sum_list ?v = real ?n" "\<forall>v \<in> set ?v. - ?iR < v"
    using assms(1) by (auto simp: wheel_def)
  then have n: "0 < ?n" by (metis length_greater_0_conv)
  have "dr_next (mp_draws m) (dr_count (mp_draws m)) mod (?n * 100) < ?n * 100" using n by simp
  then have "?x \<le> sum_list ?v" unfolding w(3) by (simp add: field_simps flip: of_nat_mult)
  from spin_finds [OF this w(2), of 0] obtain ind where ind: "ind < ?n" "spin ?v ?x 0 = ind"
    "?x \<le> sum_list (take (Suc ind) ?v)" "\<forall>i < ind. sum_list (take (Suc i) ?v) < ?x" using w(1) by auto
  let ?w = "reward_winner ?iR ind [0..<length ?v] ?v"
  have nth: "?w ! j = (if j = ind then ?v ! ind + ?iR * real (length (filter (\<lambda>ii. ii \<noteq> ind \<and> 0 < ?v ! ii) [0..<length ?v]))
      else if j \<in> set [0..<length ?v] \<and> 0 < ?v ! j then ?v ! j - ?iR else ?v ! j)" if "j < ?n" for j
    by (rule reward_winner_nth) (use ind w that in auto)
  have low: "- ?iR < ?w ! j" if "j < ?n" for j
  proof -
    have "- ?iR < ?v ! j" using w(1,4) that by simp
    moreover have "0 \<le> ?iR * real (length (filter (\<lambda>ii. ii \<noteq> ind \<and> 0 < ?v ! ii) [0..<length ?v]))"
      using assms(2) by simp
    ultimately have "- ?iR < ?v ! j + ?iR * real (length (filter (\<lambda>ii. ii \<noteq> ind \<and> 0 < ?v ! ii) [0..<length ?v]))"
      by linarith
    then show ?thesis unfolding nth [OF that] using \<open>- ?iR < ?v ! j\<close> by (cases "j = ind") auto
  qed
  have pol: "mp_policies (m0\<lparr>mp_draws := ?d\<rparr>) \<noteq> []" using n m0 by auto
  from get_policy_mean_returns [OF pol, of inp k] assms(4-6) m0 obtain vs s where
    g: "get_policy_mean inp (m0\<lparr>mp_draws := ?d\<rparr>) =
      Some (map (\<lambda>p. p inp) (mp_policies m), vs, m0\<lparr>mp_draws := ?d, mp_signal := s\<rparr>)" by auto
  let ?m' = "m0\<lparr>mp_draws := ?d, mp_signal := s, mp_voting := ?w\<rparr>"
  have r: "act_roulette inp m0 = Some ((mp_policies m ! ind) inp, ?m')"
    using g n ind(1,2) m0 by (simp add: act_roulette_def c_rand_def Let_def nth_opt_def cong: if_cong)
  have "(mp_policies m ! ind) inp \<noteq> []" using assms(5,6) ind(1) nth_mem by fastforce
  then have "multi_act time inp m = Some (map Fin ((mp_policies m ! ind) inp), ?m')"
    using r assms(3) m0(6) by (simp add: multi_act_def m0_def [symmetric])
  moreover have "wheel ?m'"
  proof -
    have "sum_list ?w = real ?n" using reward_winner_sum [of ind ?v "[0..<length ?v]" ?iR] ind(1) w(1,3) by simp
    moreover have "\<forall>v \<in> set ?w. - ?iR < v" using low w(1) by (auto simp: in_set_conv_nth)
    moreover have "?w \<noteq> []" using w(2) reward_winner_length [of ?iR ind "[0..<length ?v]" ?v] by (metis length_0_conv)
    ultimately show ?thesis using w(1) m0 by (simp add: wheel_def)
  qed
  moreover have "mp_voting ?m' ! ind = ?v ! ind + ?iR * real (length (filter (\<lambda>i. i \<noteq> ind \<and> 0 < ?v ! i) [0..<?n]))"
    using nth [OF ind(1)] w(1) by simp
  ultimately show ?thesis using ind(1,3,4) unfolding Let_def by blast
qed

theorem roulette_keeps_wheel_witness:
  "\<exists>m ind m'. mp_policies m = [\<lambda>_. [0], \<lambda>_. [1]] \<and> ind < 2 \<and> multi_act 1 [] m = Some (map Fin ((mp_policies m ! ind) []), m') \<and>
    wheel m'"
proof -
  obtain m where m: "multi_configure 0 ''roulette'' ''none'' ''none'' ''none'' None 10 (- 1) 1 0 (3 / 10) 1 [0] [1]
     [\<lambda>_. [0], \<lambda>_. [1]] [\<lambda>_. 0, \<lambda>_. 0] \<lparr>dr_next = \<lambda>_. 150, dr_count = 0\<rparr> (Rand_new 7) = Some m"
    by (simp add: multi_configure_def parse_strategy_def)
  then have sel: "mp_policies m = [\<lambda>_. [0], \<lambda>_. [1]]" "mp_values m = [\<lambda>_. 0, \<lambda>_. 0]" "mp_strategy m = csRoulette"
    "mp_iroulette m = 3 / 10" "mp_voting m = [1, 1]"
    by (auto simp: multi_configure_def parse_strategy_def numeral_2_eq_2)
  then have "wheel m" by (simp add: wheel_def)
  from roulette_keeps_wheel [OF this, of "[]" 1 1] sel obtain ind m' where
    "ind < 2" "multi_act 1 [] m = Some (map Fin ((mp_policies m ! ind) []), m')" "wheel m'" by (auto simp: less_Suc_eq numeral_2_eq_2)
  then show ?thesis using sel(1) by blast
qed

section \<open>The four steps\<close>

definition cut_at :: "nat \<Rightarrow> real \<Rightarrow> nat" where
  "cut_at n p = nat (max 1 (c_trunc (real n * p)))"

lemma cut_at_bounds: "p \<le> 1 \<Longrightarrow> 0 < n \<Longrightarrow> 0 < cut_at n p \<and> cut_at n p \<le> n"
proof -
  assume p: "p \<le> 1" "0 < n"
  have le: "real n * p \<le> real n" using p mult_left_mono [of p 1 "real n"] by simp
  have "c_trunc (real n * p) \<le> int n"
  proof (cases "0 \<le> real n * p")
    case True
    then show ?thesis using le floor_mono [OF le] by (simp add: c_trunc_def)
  next
    case False
    then show ?thesis by (auto simp: c_trunc_def intro!: order.trans [of _ 0] simp: ceiling_le_iff)
  qed
  then show ?thesis using p(2) unfolding cut_at_def by linarith
qed

lemma ranking_facts: "length (ranking ma) = length ma" "set (ranking ma) = {0..<length ma}" "distinct (ranking ma)"
  by (simp_all add: ranking_def)

lemma ranking_first:
  assumes "ranking ma = a # b # cs"
  shows "ma ! b \<le> ma ! a"
proof -
  have "sorted (map (\<lambda>ii. - 1 * ma ! ii) (ranking ma))" unfolding ranking_def by (rule sorted_sort_key)
  then show ?thesis using assms by simp
qed

lemma elite_returns:
  assumes "2 \<le> length ma" "p < length ma"
  shows "\<exists>q. elite bound ma p = Some q \<and> q < length ma"
proof -
  obtain a b cs where r: "ranking ma = a # b # cs"
    using ranking_facts(1) [of ma] assms(1) by (cases "ranking ma"; cases "tl (ranking ma)") auto
  then have "a < length ma" using ranking_facts(2) [of ma] by auto
  then show ?thesis using r assms(2) by (simp add: elite_def)
qed

lemma elite_frozen:
  assumes "2 \<le> length ma" "\<forall>x \<in> set ma. 0 \<le> x" "0 \<le> bound"
  shows "elite bound ma p = Some p"
proof -
  obtain a b cs where r: "ranking ma = a # b # cs"
    using ranking_facts(1) [of ma] assms(1) by (cases "ranking ma"; cases "tl (ranking ma)") auto
  let ?s = "sum_list ma"
  have s: "0 \<le> ?s" using assms(2) by (simp add: sum_list_nonneg)
  have "sum_list (map (\<lambda>x. - 1 * x) ma) = - ?s" by (induction ma) simp_all
  then have share: "share_of ma ii = d_div (Fin (- (ma ! ii))) (Fin (- ?s))" for ii by (simp add: share_of_def)
  have "\<not> d_less (Fin bound) (d_add (share_of ma b) (d_neg (share_of ma a)))"
  proof (cases "?s = 0")
    case True
    then have "\<forall>x \<in> set ma. x = 0" using assms(2) sum_list_nonneg_eq_0_iff by blast
    moreover have "a < length ma" using r ranking_facts(2) [of ma] by auto
    ultimately have "share_of ma a = NaN" using True by (simp add: share)
    then show ?thesis by simp
  next
    case False
    then have "ma ! b / ?s \<le> ma ! a / ?s" using ranking_first [OF r] s by (intro divide_right_mono) auto
    then show ?thesis using False assms(3) by (simp add: share)
  qed
  then show ?thesis using r by (simp add: elite_def)
qed

lemma percentile_returns:
  assumes "0 < length as" "length ma = length as" "p \<le> 1" "q < length as"
    and "mode \<in> {sdBestElitism005, sdBestElitism0001} \<longrightarrow> 2 \<le> length as"
  shows "\<exists>active q'. percentile mode time as ma p q = Some (active, q') \<and> length active = cut_at (length as) p \<and>
    set active \<subseteq> set as \<and> q' < length as \<and> (mode \<in> {sdRandomPersistent, sdAlternatelyPersistent} \<longrightarrow> q' = q)"
proof -
  let ?c = "max 1 (c_trunc (real (length as) * p))"
  note cut = cut_at_bounds [OF assms(3,1)]
  let ?active = "map (\<lambda>k. as ! (ranking ma ! k)) [0..<nat ?c]"
  have c: "\<not> int (length as) < ?c" "length ?active = cut_at (length as) p" using cut by (auto simp: cut_at_def)
  have inside: "ranking ma ! k < length as" if "k < length as" for k
  proof -
    have "ranking ma ! k \<in> set (ranking ma)" using that ranking_facts(1) [of ma] assms(2) by simp
    then show ?thesis using ranking_facts(2) [of ma] assms(2) by simp
  qed
  have sub: "set ?active \<subseteq> set as" using inside cut by (auto simp: cut_at_def)
  have ne: "ranking ma \<noteq> []" using ranking_facts(1) [of ma] assms(1,2) by auto
  then have hd: "hd (ranking ma) < length as" using inside [of 0] assms(1) by (simp add: hd_conv_nth)
  let ?q = "if mode = sdBestElitism005 then elite 0.005 ma q
            else if mode = sdBestElitism0001 then elite 0.0001 ma q
            else if mode \<in> {sdBestPersistent, sdBestDelayPersistent, sdBestDCPersistent, sdBestDPersistent} \<and> time = 0
            then Some (hd (ranking ma)) else Some q"
  have "\<exists>q'. ?q = Some q' \<and> q' < length as \<and> (mode \<in> {sdRandomPersistent, sdAlternatelyPersistent} \<longrightarrow> q' = q)"
  proof (cases "mode \<in> {sdBestElitism005, sdBestElitism0001}")
    case True
    then have "2 \<le> length ma" "q < length ma" using assms(2,4,5) by auto
    from elite_returns [OF this] show ?thesis using True assms(2) by auto
  next
    case False
    then show ?thesis using hd assms(4) by auto
  qed
  then obtain q' where q': "?q = Some q'" "q' < length as"
    "mode \<in> {sdRandomPersistent, sdAlternatelyPersistent} \<longrightarrow> q' = q" by blast
  have "percentile mode time as ma p q = Some (?active, q')"
    unfolding percentile_def Let_def q'(1) using c(1) assms(2) by simp
  then show ?thesis using c(2) sub q'(2,3) by blast
qed

definition persistent_limit :: "multi \<Rightarrow> nat" where
  "persistent_limit m =
     (if mp_select m \<in> {Some sdRandomPersistent, Some sdAlternatelyPersistent}
      then cut_at (length (mp_policies m)) (mp_percentile m) else length (mp_policies m))"

definition needs_two :: "multi \<Rightarrow> bool" where
  "needs_two m \<longleftrightarrow> mp_scores m = Some uhEuclideanDistance \<or> mp_select m \<in> {Some sdBestElitism005, Some sdBestElitism0001}"

definition four_steps_ok :: "multi \<Rightarrow> bool" where
  "four_steps_ok m \<longleftrightarrow> mp_strategy m = csAlg4StepsNew \<and> mp_policies m \<noteq> [] \<and> mp_min m \<noteq> [] \<and>
     proper_range (mp_r m) (mp_min m) (mp_max m) \<and> (\<forall>p \<in> set (mp_policies m). \<forall>inp. length (p inp) = length (mp_min m)) \<and>
     length (mp_moving m) = length (mp_policies m) \<and> mp_percentile m \<le> 1 \<and> mp_persistent m < persistent_limit m \<and>
     mp_center m \<in> {Some sdNone, Some sdDensityBased, Some sdDataCenter, Some sdMean} \<and>
     mp_scores m \<noteq> None \<and> (mp_scores m = Some uhEuclideanDistance \<longleftrightarrow> mp_center m \<noteq> Some sdNone) \<and>
     mp_select m \<noteq> None \<and> mp_select m \<noteq> Some sdNone \<and> (needs_two m \<longrightarrow> 2 \<le> length (mp_policies m))"

lemma run_policies_returns:
  assumes "\<forall>p \<in> set (mp_policies m). p inp \<noteq> []"
  shows "\<exists>s. run_policies inp m = Some (map (\<lambda>p. p inp) (mp_policies m), m\<lparr>mp_signal := s\<rparr>)"
proof -
  have "[] \<notin> (\<lambda>p. p inp) ` set (mp_policies m)" using assms by force
  then show ?thesis by (simp add: run_policies_def Let_def publish_def) (rule exI, rule refl)
qed

lemma ensemble_center_returns:
  assumes "mp_center m \<in> {Some sdNone, Some sdDensityBased, Some sdDataCenter, Some sdMean}"
    "proper_range (mp_r m) (mp_min m) (mp_max m)" "\<forall>a \<in> set as. length a = length (mp_min m)" "as \<noteq> []"
  shows "\<exists>c d'. ensemble_center m as d = Some (c, d') \<and> (mp_center m \<noteq> Some sdNone \<longrightarrow> length c = length (mp_min m))"
  using assms(1) density_based_returns [OF assms(2-4), of d] data_center_spanned [OF assms(4,3), of d]
    g_mean_spanned [OF assms(4,3)] assms(3)
  by (auto simp: ensemble_center_def spanned_def)

lemma ensemble_scores_returns:
  assumes "mp_scores m \<noteq> None" "mp_scores m = Some uhEuclideanDistance \<longrightarrow> length c = length (mp_min m) \<and> 2 \<le> length as"
    "proper_range (mp_r m) (mp_min m) (mp_max m)" "\<forall>a \<in> set as. length a = length (mp_min m)" "as \<noteq> []"
    "length (mp_policies m) = length as"
  shows "\<exists>s d'. ensemble_scores m as c d = Some (s, d') \<and> length s = length as"
proof -
  from density_based_returns [OF assms(3-5), of d] obtain s v d' where
    dense: "density_based (mp_r m) (mp_min m) (mp_max m) as d = Some (s, v, d')" "length s = length as" by blast
  have votes: "\<exists>s d'. datacenter_update_voting (mp_iroulette m) as d = Some (s, d') \<and> length s = length as"
    unfolding datacenter_update_voting_def
    using voting_loop_returns [OF assms(5,4), of "map real [0..<length as]"
      "replicate (length as) (1 + mp_iroulette m * real (sz_pred (length as)))"] by simp
  obtain h where h: "mp_scores m = Some h" using assms(1) by blast
  show ?thesis
  proof (cases h)
    case uhEuclideanDistance
    then show ?thesis using h assms(2,4,6) by (auto simp: ensemble_scores_def euclidian_distance_def)
  next
    case uhDataCenter
    then show ?thesis using h votes by (simp add: ensemble_scores_def)
  qed (use h dense in \<open>simp_all add: ensemble_scores_def density_based_update_voting_def rank_votes_length ConstantVector_def\<close>)
qed

lemma select_once:
  assumes "mode \<notin> {sdNone, sdRandomPersistent, sdAlternatelyPersistent}" "proper_range (mp_r m) (mp_min m) (mp_max m)"
    "\<forall>a \<in> set as. length a = length (mp_min m)" "active \<noteq> []" "set active \<subseteq> set as" "mp_persistent m < length as"
  shows "\<exists>a d. select_action mode time as active m = Some (a, m\<lparr>mp_draws := d\<rparr>) \<and> spanned (length (mp_min m)) as a"
proof -
  let ?P = "\<lambda>x. \<exists>a d. x = Some (a, m\<lparr>mp_draws := d\<rparr>) \<and> spanned (length (mp_min m)) as a"
  have dims: "\<forall>a \<in> set active. length a = length (mp_min m)" using assms(3,5) by blast
  have member: "spanned (length (mp_min m)) as a" if "a \<in> set as" for a using that assms(3) by (intro spanned_member) auto
  have active: "spanned (length (mp_min m)) as (active ! k)" if "k < length active" for k
    using that assms(5) by (intro member) (meson nth_mem subsetD)
  have self: "m = m\<lparr>mp_draws := mp_draws m\<rparr>" by simp
  have keep: "?P (map_option (\<lambda>a. (a, m)) (nth_opt as (mp_persistent m)))"
    using member [OF nth_mem [OF assms(6)]] assms(6) self by (simp only: nth_opt_def if_True option.map) blast
  have best: "?P (map_option (\<lambda>a. (a, m)) (nth_opt active 0))"
    using active [of 0] assms(4) self by (simp only: nth_opt_def length_greater_0_conv not_False_eq_True if_True option.map simp_thms) blast
  have spans: "spanned (length (mp_min m)) active a \<Longrightarrow> spanned (length (mp_min m)) as a" for a
    using assms(5) by (rule spanned_mono [rotated])
  have dense: "?P (map_option (\<lambda>(a, d). (a, m\<lparr>mp_draws := d\<rparr>))
      (map_option (\<lambda>(_, c, d). (c, d)) (density_based (mp_r m) (mp_min m) (mp_max m) active (mp_draws m))))"
    using density_based_returns [OF assms(2) dims assms(4), of "mp_draws m"] member assms(5) by auto
  have middle: "?P (map_option (\<lambda>(a, d). (a, m\<lparr>mp_draws := d\<rparr>)) (data_center active (mp_draws m)))"
    using data_center_spanned [OF assms(4) dims, of "mp_draws m"] spans by auto
  have mean: "?P (map_option (\<lambda>a. (a, m)) (g_mean active))"
    using g_mean_spanned [OF assms(4) dims] spans self by (elim exE conjE) (simp only: option.map, blast)
  have "spanned (length (mp_min m)) as (active ! (k mod length active))" for k
    using assms(4) by (intro active) simp
  then have random: "?P (if active = [] then None else let (x, d) = c_rand (mp_draws m)
      in Some (active ! (x mod length active), m\<lparr>mp_draws := d\<rparr>))"
    using assms(4) by (auto simp: c_rand_def Let_def)
  define P where "P x \<longleftrightarrow> ?P x" for x
  note facts = keep best dense middle mean random
  have "P (select_action mode time as active m)"
    using assms(1) facts [folded P_def] by (cases mode) (simp_all only: select_action_def score_distance.case Let_def insert_iff simp_thms, simp_all split: if_split)
  then show ?thesis unfolding P_def .
qed

lemma select_persistent:
  assumes "mode \<in> {sdRandomPersistent, sdAlternatelyPersistent}" "\<forall>a \<in> set as. length a = length (mp_min m)"
    "active \<noteq> []" "set active \<subseteq> set as" "mp_persistent m < length active"
  shows "\<exists>a d q. select_action mode time as active m = Some (a, m\<lparr>mp_draws := d, mp_persistent := q\<rparr>) \<and>
    q < length active \<and> spanned (length (mp_min m)) as a"
proof -
  have active: "spanned (length (mp_min m)) as (active ! k)" if "k < length active" for k
    using that assms(2,4) by (intro spanned_member) (meson nth_mem subsetD)+
  have self: "m\<lparr>mp_persistent := q\<rparr> = m\<lparr>mp_draws := mp_draws m, mp_persistent := q\<rparr>" for q by simp
  have "mode = sdRandomPersistent \<or> mode = sdAlternatelyPersistent" using assms(1) by blast
  then show ?thesis
  proof
    assume r: "mode = sdRandomPersistent"
    define d where "d = (mp_draws m)\<lparr>dr_count := dr_count (mp_draws m) + 1\<rparr>"
    define q where "q = (if time = 0 then dr_next (mp_draws m) (dr_count (mp_draws m)) mod length active else mp_persistent m)"
    have q: "q < length active" using assms(3,5) by (simp add: q_def)
    have "select_action mode time as active m = Some (active ! q, m\<lparr>mp_draws := d, mp_persistent := q\<rparr>)"
      using q r assms(3) by (simp add: select_action_def Let_def c_rand_def nth_opt_def d_def flip: q_def)
    then show ?thesis using active [OF q] q by blast
  next
    assume r: "mode = sdAlternatelyPersistent"
    let ?q = "if time = 0 then (mp_persistent m + 1) mod length active else mp_persistent m"
    have q: "?q < length active" using assms(3,5) by simp
    have "select_action mode time as active m = Some (active ! ?q, m\<lparr>mp_persistent := ?q\<rparr>)"
      using q r assms(3) by (simp only: select_action_def Let_def score_distance.case nth_opt_def) simp
    then show ?thesis using active [OF q] q unfolding self by blast
  qed
qed

lemma four_steps_run:
  assumes ok: "four_steps_ok m"
  shows "\<exists>a m'. act_four_steps time inp m = Some (a, m') \<and> four_steps_ok m' \<and>
    spanned (length (mp_min m)) (map (\<lambda>p. p inp) (mp_policies m)) a \<and> mp_policies m' = mp_policies m \<and> mp_min m' = mp_min m"
proof -
  let ?as = "map (\<lambda>p. p inp) (mp_policies m)" and ?n = "length (mp_policies m)" and ?k = "length (mp_min m)"
  have ok': "proper_range (mp_r m) (mp_min m) (mp_max m)" "mp_percentile m \<le> 1" "mp_persistent m < persistent_limit m"
    "mp_center m \<in> {Some sdNone, Some sdDensityBased, Some sdDataCenter, Some sdMean}" "mp_scores m \<noteq> None"
    "length (mp_moving m) = ?n" "mp_scores m = Some uhEuclideanDistance \<longleftrightarrow> mp_center m \<noteq> Some sdNone" "mp_policies m \<noteq> []"
    using ok by (auto simp: four_steps_ok_def)
  obtain mode where mode: "mp_select m = Some mode" "mode \<noteq> sdNone" using ok by (auto simp: four_steps_ok_def)
  have dims: "\<forall>a \<in> set ?as. length a = ?k" "?as \<noteq> []" using ok by (auto simp: four_steps_ok_def)
  have two: "needs_two m \<longrightarrow> 2 \<le> length ?as" using ok by (simp add: four_steps_ok_def)
  have min: "mp_min m \<noteq> []" using ok by (simp add: four_steps_ok_def)
  have "\<forall>p \<in> set (mp_policies m). p inp \<noteq> []" using dims(1) min by fastforce
  from run_policies_returns [OF this] obtain sig where run: "run_policies inp m = Some (?as, m\<lparr>mp_signal := sig\<rparr>)" by blast
  let ?m1 = "m\<lparr>mp_signal := sig\<rparr>"
  from ensemble_center_returns [of ?m1 ?as "mp_draws m"] ok' dims obtain c d1 where
    c: "ensemble_center ?m1 ?as (mp_draws m) = Some (c, d1)" "mp_center m \<noteq> Some sdNone \<longrightarrow> length c = ?k" by auto
  have euclid: "mp_scores ?m1 = Some uhEuclideanDistance \<longrightarrow> length c = length (mp_min ?m1) \<and> 2 \<le> length ?as"
    using c(2) ok'(7) two by (simp add: needs_two_def)
  from ensemble_scores_returns [of ?m1 c ?as d1, OF _ euclid] ok' dims obtain s d2 where
    s: "ensemble_scores ?m1 ?as c d1 = Some (s, d2)" "length s = length ?as" by auto
  let ?mv = "map2 (\<lambda>s v. mp_alpha m * s + (1 - mp_alpha m) * v) s (mp_moving m)"
  have mv: "length ?mv = length ?as" "length s = length (mp_moving m)" using s(2) ok'(6) by simp_all
  have pos: "0 < length ?as" using ok'(8) by simp
  have cut: "0 < cut_at ?n (mp_percentile m)" "cut_at ?n (mp_percentile m) \<le> ?n"
    using cut_at_bounds [OF ok'(2), of ?n] ok'(8) by simp_all
  have lim: "mp_persistent m < length ?as" using ok'(3) cut by (simp add: persistent_limit_def split: if_splits)
  have elite: "mode \<in> {sdBestElitism005, sdBestElitism0001} \<longrightarrow> 2 \<le> length ?as"
    using two mode(1) by (auto simp: needs_two_def)
  obtain active q where q: "percentile mode time ?as ?mv (mp_percentile m) (mp_persistent m) = Some (active, q)"
    "length active = cut_at ?n (mp_percentile m)" "set active \<subseteq> set ?as" "q < ?n"
    "mode \<in> {sdRandomPersistent, sdAlternatelyPersistent} \<longrightarrow> q = mp_persistent m"
    using percentile_returns [OF pos mv(1) ok'(2) lim elite, of time] by auto
  let ?m2 = "?m1\<lparr>mp_moving := ?mv, mp_draws := d2, mp_persistent := q\<rparr>"
  have ne: "active \<noteq> []" using q(2) cut(1) by auto
  have "\<exists>a d r. select_action mode time ?as active ?m2 = Some (a, ?m2\<lparr>mp_draws := d, mp_persistent := r\<rparr>) \<and>
      r < persistent_limit m \<and> spanned ?k ?as a"
  proof (cases "mode \<in> {sdRandomPersistent, sdAlternatelyPersistent}")
    case True
    then have "persistent_limit m = length active" using mode(1) q(2) by (auto simp: persistent_limit_def)
    then show ?thesis using select_persistent [OF True, of ?as ?m2 active time] dims ne q ok'(3) True by auto
  next
    case False
    have lim': "q < persistent_limit m" using False mode(1) q(4) by (auto simp: persistent_limit_def)
    obtain a d where "select_action mode time ?as active ?m2 = Some (a, ?m2\<lparr>mp_draws := d\<rparr>)" "spanned ?k ?as a"
      using select_once [of mode ?m2 ?as active time] False mode(2) ok'(1) dims ne q(3,4) by auto
    moreover have "?m2\<lparr>mp_draws := d\<rparr> = ?m2\<lparr>mp_draws := d, mp_persistent := q\<rparr>" for d by simp
    ultimately show ?thesis using lim' by metis
  qed
  then obtain a d r where a: "select_action mode time ?as active ?m2 = Some (a, ?m2\<lparr>mp_draws := d, mp_persistent := r\<rparr>)"
    "r < persistent_limit m" "spanned ?k ?as a" by blast
  have "act_four_steps time inp m = Some (a, ?m2\<lparr>mp_draws := d, mp_persistent := r\<rparr>)"
    using run c(1) s mv(2) mode(1) q(1) a(1) ok'(7) by (simp add: act_four_steps_def)
  moreover have "four_steps_ok (?m2\<lparr>mp_draws := d, mp_persistent := r\<rparr>)"
  proof -
    let ?m3 = "?m2\<lparr>mp_draws := d, mp_persistent := r\<rparr>"
    have "persistent_limit ?m3 = persistent_limit m" "needs_two ?m3 = needs_two m"
      by (simp_all add: persistent_limit_def needs_two_def)
    then show ?thesis using ok a(2) mv by (simp add: four_steps_ok_def)
  qed
  ultimately show ?thesis using a(3) by auto
qed

text \<open>C39: an ensemble that combines its sub-policies in four steps always acts, within the actions that the sub-policies
  suggest in every dimension, and stays consistent; so it does from any consistent configuration.\<close>

theorem ensemble_within_policies:
  assumes "four_steps_ok m"
  shows "\<exists>a m'. multi_act time inp m = Some (map Fin a, m') \<and> four_steps_ok m' \<and>
    spanned (length (mp_min m)) (map (\<lambda>p. p inp) (mp_policies m)) a \<and> mp_policies m' = mp_policies m"
proof -
  define m0 where "m0 = (if time = 0 then m\<lparr>mp_iterations := mp_iterations m + 1\<rparr> else m)"
  have m0: "mp_policies m0 = mp_policies m" "mp_min m0 = mp_min m" "mp_strategy m0 = csAlg4StepsNew"
    using assms by (simp_all add: m0_def four_steps_ok_def)
  have "persistent_limit m0 = persistent_limit m" "needs_two m0 = needs_two m"
    by (simp_all add: m0_def persistent_limit_def needs_two_def)
  then have "four_steps_ok m0" using assms by (simp add: four_steps_ok_def m0_def)
  from four_steps_run [OF this, of time inp] obtain a m' where a: "act_four_steps time inp m0 = Some (a, m')"
    "four_steps_ok m'" "spanned (length (mp_min m)) (map (\<lambda>p. p inp) (mp_policies m)) a" "mp_policies m' = mp_policies m"
    using m0 by auto
  have "mp_min m \<noteq> []" using assms by (simp add: four_steps_ok_def)
  then have "a \<noteq> []" using a(3) by (auto simp: spanned_def)
  then have "multi_act time inp m = Some (map Fin a, m')"
    using a(1) m0(3) by (simp add: multi_act_def m0_def [symmetric])
  then show ?thesis using a(2-4) by blast
qed

lemma two_policies_ok:
  "\<exists>m. multi_configure 0 ''alg4stepsNew'' ''none'' ''density'' ''best_elitism005'' None 10 (- 1) 1 (1 / 2) (1 / 4) 1 [0] [1]
     [\<lambda>_. [0], \<lambda>_. [1]] [] \<lparr>dr_next = \<lambda>_. 0, dr_count = 0\<rparr> (Rand_new 7) = Some m \<and> four_steps_ok m \<and>
     mp_policies m = [\<lambda>_. [0], \<lambda>_. [1]] \<and> mp_scores m = Some uhDensity \<and> mp_select m = Some sdBestElitism005 \<and>
     mp_alpha m = 1 / 2 \<and> mp_moving m = [0, 0] \<and> mp_persistent m = 0"
  by (simp add: multi_configure_def parse_strategy_def parse_center_def parse_history_def parse_select_def four_steps_ok_def
      needs_two_def persistent_limit_def proper_range_def ConstantVector_def)

theorem ensemble_within_policies_witness:
  "\<exists>m a m'. mp_policies m = [\<lambda>_. [0], \<lambda>_. [1]] \<and> multi_act 0 [] m = Some (map Fin a, m') \<and> length a = 1 \<and> 0 \<le> a ! 0 \<and> a ! 0 \<le> 1"
proof -
  from two_policies_ok obtain m where m: "four_steps_ok m" "mp_policies m = [\<lambda>_. [0], \<lambda>_. [1]]" by blast
  have k: "length (mp_min m) = 1" using m by (simp add: four_steps_ok_def)
  from ensemble_within_policies [OF m(1), of 0 "[]"] obtain a m' where
    "multi_act 0 [] m = Some (map Fin a, m')" "spanned 1 [[0], [1]] a" using m(2) k by auto
  then have "multi_act 0 [] m = Some (map Fin a, m')" "length a = 1" "0 \<le> a ! 0" "a ! 0 \<le> 1" by (auto simp: spanned_def)
  then show ?thesis using m(2) by blast
qed

section \<open>Elitism\<close>

lemma map2_nonneg: "\<forall>x \<in> set xs. 0 \<le> x \<Longrightarrow> \<forall>y \<in> set ys. 0 \<le> y \<Longrightarrow> 0 \<le> a \<Longrightarrow> a \<le> 1 \<Longrightarrow>
    \<forall>z \<in> set (map2 (\<lambda>s v. a * s + (1 - a) * v) xs ys). 0 \<le> (z :: real)"
  by (auto dest!: set_zip_leftD set_zip_rightD elim!: in_set_zipE)

text \<open>elitism over density scores never fires: as long as the moving averages of the scores are not negative, which
  they stay, the ensemble goes on acting with the policy it started with.\<close>

theorem elitism_never_fires:
  assumes "four_steps_ok m" "mp_scores m = Some uhDensity" "mp_select m \<in> {Some sdBestElitism005, Some sdBestElitism0001}"
    "0 \<le> mp_alpha m" "mp_alpha m \<le> 1" "\<forall>x \<in> set (mp_moving m). 0 \<le> x"
  shows "\<exists>m'. multi_act time inp m = Some (map Fin ((mp_policies m ! mp_persistent m) inp), m') \<and>
    mp_persistent m' = mp_persistent m \<and> (\<forall>x \<in> set (mp_moving m'). 0 \<le> x)"
proof -
  define m0 where "m0 = (if time = 0 then m\<lparr>mp_iterations := mp_iterations m + 1\<rparr> else m)"
  let ?as = "map (\<lambda>p. p inp) (mp_policies m)" and ?n = "length (mp_policies m)"
  have m0: "mp_policies m0 = mp_policies m" "mp_min m0 = mp_min m" "mp_max m0 = mp_max m" "mp_r m0 = mp_r m" "mp_draws m0 = mp_draws m"
    "mp_strategy m0 = csAlg4StepsNew" "mp_center m0 = Some sdNone" "mp_scores m0 = Some uhDensity" "mp_select m0 = mp_select m"
    "mp_alpha m0 = mp_alpha m" "mp_moving m0 = mp_moving m" "mp_persistent m0 = mp_persistent m" "mp_percentile m0 = mp_percentile m"
    using assms(1,2) by (auto simp: m0_def four_steps_ok_def)
  have min: "mp_min m \<noteq> []" and dims: "\<forall>a \<in> set ?as. length a = length (mp_min m)" "?as \<noteq> []"
    and two: "2 \<le> ?n" and lim: "mp_persistent m < ?n" and range: "proper_range (mp_r m) (mp_min m) (mp_max m)"
    and moving: "length (mp_moving m) = ?n" and p: "mp_percentile m \<le> 1"
    using assms(1,3) by (auto simp: four_steps_ok_def needs_two_def persistent_limit_def)
  have "\<forall>p \<in> set (mp_policies m0). p inp \<noteq> []" using dims(1) min m0(1) by fastforce
  from run_policies_returns [OF this] m0(1) obtain sig where run: "run_policies inp m0 = Some (?as, m0\<lparr>mp_signal := sig\<rparr>)" by auto
  from density_based_returns [OF range dims, of "mp_draws m"] obtain s v d where
    s: "density_based (mp_r m) (mp_min m) (mp_max m) ?as (mp_draws m) = Some (s, v, d)" "length s = ?n" "\<forall>x \<in> set s. 1 \<le> x" by auto
  let ?mv = "map2 (\<lambda>s v. mp_alpha m * s + (1 - mp_alpha m) * v) s (mp_moving m)"
  have mv: "length ?mv = ?n" "\<forall>x \<in> set ?mv. 0 \<le> x"
    using s(2,3) moving map2_nonneg [OF _ assms(6,4,5), of s] by force+
  obtain mode where mode: "mp_select m = Some mode" "mode \<in> {sdBestElitism005, sdBestElitism0001}" using assms(3) by auto
  have frozen: "elite 0.005 ?mv q = Some q" "elite 0.0001 ?mv q = Some q" for q
    using two unfolding mv(1) [symmetric] by (auto intro: elite_frozen [OF _ mv(2)])
  have "0 < ?n" using two by linarith
  from cut_at_bounds [OF p this] have "\<not> int ?n < max 1 (c_trunc (real ?n * mp_percentile m))"
    unfolding cut_at_def by linarith
  then obtain active where active: "percentile mode time ?as ?mv (mp_percentile m) (mp_persistent m) = Some (active, mp_persistent m)"
    using mode(2) frozen mv(1) unfolding percentile_def Let_def by auto
  let ?m' = "m0\<lparr>mp_signal := sig, mp_moving := ?mv, mp_draws := d, mp_persistent := mp_persistent m\<rparr>"
  have "select_action mode time ?as active ?m' = Some (?as ! mp_persistent m, ?m')"
    using mode(2) lim by (auto simp: select_action_def Let_def nth_opt_def)
  then have "act_four_steps time inp m0 = Some (?as ! mp_persistent m, ?m')"
    using run s active mode(1) moving m0 by (simp add: act_four_steps_def ensemble_center_def ensemble_scores_def)
  moreover have "?as ! mp_persistent m \<noteq> []" using dims(1) min lim nth_mem [of "mp_persistent m" ?as] by fastforce
  ultimately have "multi_act time inp m = Some (map Fin ((mp_policies m ! mp_persistent m) inp), ?m')"
    using m0(6) lim by (simp add: multi_act_def m0_def [symmetric])
  moreover have "mp_persistent ?m' = mp_persistent m" "\<forall>x \<in> set (mp_moving ?m'). 0 \<le> x" using mv(2) by simp_all
  ultimately show ?thesis by blast
qed

theorem elitism_never_fires_witness:
  "\<exists>m m'. mp_policies m = [\<lambda>_. [0], \<lambda>_. [1]] \<and> multi_act 0 [] m = Some ([Fin 0], m') \<and> mp_persistent m' = 0"
proof -
  from two_policies_ok obtain m where m: "four_steps_ok m" "mp_policies m = [\<lambda>_. [0], \<lambda>_. [1]]" "mp_scores m = Some uhDensity"
    "mp_select m = Some sdBestElitism005" "mp_alpha m = 1 / 2" "mp_moving m = [0, 0]" "mp_persistent m = 0" by blast
  then show ?thesis using elitism_never_fires [of m 0 "[]"] by auto
qed

section \<open>Binning\<close>

lemma bin_of_returns: "0 < bins \<Longrightarrow> mi < ma \<Longrightarrow> mi \<le> a \<Longrightarrow> \<exists>b. bin_of bins mi ma a = Some b \<and> b < nat bins"
proof -
  assume a: "0 < bins" "mi < ma" "mi \<le> a"
  have "0 \<le> real_of_int bins * (a - mi) / (ma - mi)" using a by simp
  then have "0 \<le> \<lfloor>real_of_int bins * (a - mi) / (ma - mi)\<rfloor>" by (simp only: zero_le_floor)
  then have "0 \<le> min \<lfloor>real_of_int bins * (a - mi) / (ma - mi)\<rfloor> (bins - 1)" using a(1) by linarith
  then show ?thesis using a unfolding bin_of_def Let_def by (auto simp: not_less)
qed

lemma fullest_max:
  fixes h :: "nat list"
  shows "n \<le> length h \<Longrightarrow>
   (case foldl (\<lambda>(cnt, b) ii. if cnt < h ! ii then (h ! ii, ii) else (cnt, b)) (0, 0) [0..<n] of
      (cnt, b) \<Rightarrow> (\<forall>ii < n. h ! ii \<le> cnt) \<and> (0 < cnt \<longrightarrow> b < n \<and> h ! b = cnt))"
proof (induction n)
  case (Suc n)
  then show ?case by (auto simp: less_Suc_eq split: prod.splits if_splits) (force+)?
qed simp

lemma fold_histogram:
  "\<forall>b \<in> set bs. b < length h \<Longrightarrow>
   length (foldl (\<lambda>h b. h[b := h ! b + 1]) h bs) = length h \<and>
   (\<forall>k < length h. foldl (\<lambda>h b. h[b := h ! b + 1]) h bs ! k = h ! k + count_list bs k)"
proof (induction bs arbitrary: h)
  case (Cons b bs)
  have "\<forall>c \<in> set bs. c < length (h[b := h ! b + 1])" using Cons.prems by simp
  from Cons.IH [OF this] show ?case by (auto simp: nth_list_update)
qed simp

lemma count_list_pos: "0 < count_list xs x \<longleftrightarrow> x \<in> set xs"
  by (induction xs) auto

lemma fst_snd_zip_pick: "length as = length bs \<Longrightarrow> b \<in> set bs \<Longrightarrow> \<exists>a. (a, b) \<in> set (zip as bs)"
  by (metis in_set_impl_in_set_zip2)

text \<open>In any dimension there is a result; in the first one it is the mean of the actions in the fullest bins.\<close>

lemma bin_dimension_returns:
  assumes "0 < bins" "mi < ma" "\<forall>a \<in> set as. mi \<le> a" "length h = nat bins"
  shows "\<exists>x h'. bin_dimension bins mi ma as h = Some (x, h') \<and> length h' = nat bins"
proof -
  have "\<exists>bs. option_list (map (bin_of bins mi ma) as) = Some bs \<and> (\<forall>b \<in> set bs. b < nat bins)"
    using assms(3)
  proof (induction as)
    case (Cons a as)
    then show ?case using bin_of_returns [OF assms(1,2), of a] by auto
  qed simp
  then show ?thesis using fold_histogram assms(4) by (fastforce simp: bin_dimension_def Let_def)
qed

lemma bin_first:
  assumes "0 < bins" "mi < ma" "\<forall>a \<in> set as. mi \<le> a" "as \<noteq> []"
  shows "\<exists>x h'. bin_dimension bins mi ma as (replicate (nat bins) 0) = Some (Fin x, h') \<and> length h' = nat bins \<and>
    (\<exists>a \<in> set as. a \<le> x) \<and> (\<exists>a \<in> set as. x \<le> a)"
proof -
  let ?h = "replicate (nat bins) (0 :: nat)"
  have "\<exists>bs. option_list (map (bin_of bins mi ma) as) = Some bs \<and> (\<forall>b \<in> set bs. b < nat bins)"
    using assms(3)
  proof (induction as)
    case (Cons a as)
    then show ?case using bin_of_returns [OF assms(1,2), of a] by auto
  qed simp
  then obtain bs where bs: "option_list (map (bin_of bins mi ma) as) = Some bs" "\<forall>b \<in> set bs. b < nat bins" by blast
  have len: "length as = length bs" using bs(1) by (simp add: option_list_Some)
  let ?g = "foldl (\<lambda>h b. h[b := h ! b + 1]) ?h bs"
  have g: "length ?g = nat bins" "\<forall>k < nat bins. ?g ! k = count_list bs k" using fold_histogram [of bs ?h] bs(2) by simp_all
  obtain cnt top where f: "fullest ?g = (cnt, top)" by force
  have max: "\<forall>ii < nat bins. ?g ! ii \<le> cnt" "0 < cnt \<longrightarrow> top < nat bins \<and> ?g ! top = cnt"
    using fullest_max [of "length ?g" ?g] f g(1) unfolding fullest_def by auto
  obtain b where b: "b \<in> set bs" using len assms(4) by (cases bs) auto
  then have "0 < ?g ! b" using g(2) bs(2) count_list_pos [of bs b] by simp
  then have "0 < cnt" using max(1) b bs(2) by (meson less_le_trans)
  then have top: "top < nat bins" "?g ! top = cnt" using max(2) by auto
  then have "top \<in> set bs" using g(2) \<open>0 < cnt\<close> count_list_pos [of bs top] by simp
  from fst_snd_zip_pick [OF len this] obtain a where a: "(a, top) \<in> set (zip as bs)" by blast
  let ?chosen = "filter (\<lambda>(a, b). ?g ! b = ?g ! top) (zip as bs)"
  have "(a, top) \<in> set ?chosen" using a by simp
  then have "0 < length ?chosen" by (rule length_pos_if_in_set)
  then have ne: "map fst ?chosen \<noteq> []" by (simp only: map_is_Nil_conv length_greater_0_conv not_False_eq_True)
  have sub: "set (map fst ?chosen) \<subseteq> set as"
    unfolding set_map set_filter by (auto simp only: image_iff mem_Collect_eq fst_conv dest: set_zip_leftD)
  let ?x = "sum_list (map fst ?chosen) / real (length (map fst ?chosen))"
  have "bin_dimension bins mi ma as ?h = Some (Fin ?x, ?g)"
    using bs(1) f ne by (simp add: bin_dimension_def Let_def)
  then show ?thesis using mean_between [OF ne] sub g(1) by blast
qed

lemma bin_dimensions_returns:
  assumes "0 < bins" "\<forall>jj \<in> set jjs. mi ! jj < ma ! jj" "\<forall>jj \<in> set jjs. \<forall>a \<in> set as. mi ! jj \<le> a ! jj" "length h = nat bins"
  shows "\<exists>xs. bin_dimensions bins mi ma as jjs h = Some xs"
  using assms(2-4)
proof (induction jjs arbitrary: h)
  case (Cons jj jjs)
  obtain x h' where "bin_dimension bins (mi ! jj) (ma ! jj) (map (\<lambda>a. a ! jj) as) h = Some (x, h')" "length h' = nat bins"
    using bin_dimension_returns [OF assms(1), of "mi ! jj" "ma ! jj" "map (\<lambda>a. a ! jj) as" h] Cons.prems by auto
  then show ?case using Cons.IH [of h'] Cons.prems by auto
qed simp

definition binning_ok :: "dvec \<Rightarrow> nat \<Rightarrow> multi \<Rightarrow> bool" where
  "binning_ok inp k m \<longleftrightarrow> mp_strategy m = csBinning \<and> mp_policies m \<noteq> [] \<and> 0 < mp_bins m \<and> 0 < k \<and> k \<le> length (mp_min m) \<and>
     (\<forall>jj < k. mp_min m ! jj < mp_max m ! jj) \<and>
     (\<forall>p \<in> set (mp_policies m). length (p inp) = k \<and> (\<forall>jj < k. mp_min m ! jj \<le> p inp ! jj))"

lemma binning_run:
  assumes "binning_ok inp k m"
  shows "\<exists>x h'. bin_dimension (mp_bins m) (mp_min m ! 0) (mp_max m ! 0) (map (\<lambda>p. p inp ! 0) (mp_policies m))
      (replicate (nat (mp_bins m)) 0) = Some (Fin x, h') \<and>
    act_binning inp m = Some (replicate k (Fin x), m) \<and>
    (\<exists>p \<in> set (mp_policies m). p inp ! 0 \<le> x) \<and> (\<exists>p \<in> set (mp_policies m). x \<le> p inp ! 0)"
proof -
  let ?as = "map (\<lambda>p. p inp) (mp_policies m)"
  have ok: "mp_policies m \<noteq> []" "0 < mp_bins m" "0 < k" "k \<le> length (mp_min m)" "\<forall>jj < k. mp_min m ! jj < mp_max m ! jj"
    "\<forall>a \<in> set ?as. length a = k \<and> (\<forall>jj < k. mp_min m ! jj \<le> a ! jj)" using assms by (auto simp: binning_ok_def)
  have first: "map (\<lambda>a. a ! 0) ?as = map (\<lambda>p. p inp ! 0) (mp_policies m)" by simp
  obtain x h' where x: "bin_dimension (mp_bins m) (mp_min m ! 0) (mp_max m ! 0) (map (\<lambda>a. a ! 0) ?as)
      (replicate (nat (mp_bins m)) 0) = Some (Fin x, h')" "length h' = nat (mp_bins m)"
    "\<exists>p \<in> set (mp_policies m). p inp ! 0 \<le> x" "\<exists>p \<in> set (mp_policies m). x \<le> p inp ! 0"
    using bin_first [of "mp_bins m" "mp_min m ! 0" "mp_max m ! 0" "map (\<lambda>a. a ! 0) ?as"] ok by auto
  obtain xs where xs: "bin_dimensions (mp_bins m) (mp_min m) (mp_max m) ?as [1..<k] h' = Some xs"
    using bin_dimensions_returns [of "mp_bins m" "[1..<k]" "mp_min m" "mp_max m" ?as h'] ok(2,5,6) x(2) by auto
  have k: "[0..<k] = 0 # [1..<k]" using ok(3) by (simp add: upt_conv_Cons)
  have all: "bin_dimensions (mp_bins m) (mp_min m) (mp_max m) ?as [0..<k] (replicate (nat (mp_bins m)) 0) = Some (Fin x # xs)"
    unfolding k using x(1) xs by (simp del: map_map)
  obtain a as where as: "?as = a # as" using ok(1) by (cases ?as) auto
  have a: "length a = k" "\<not> (\<exists>b \<in> set (a # as). length b < length a)" using ok(6) unfolding as by auto
  have "act_binning inp m = Some (replicate k (Fin x), m)"
    using all ok(2,4) a unfolding act_binning_def Let_def as by simp
  then show ?thesis using x(1,3,4) unfolding first by blast
qed

text \<open>binning looks at one dimension only: its result is the mean of the first components in the fullest bin, repeated
  in every dimension, so that two ensembles whose policies agree in the first component act alike.\<close>

theorem binning_one_dimension:
  assumes "binning_ok inp k m" "binning_ok inp k (m\<lparr>mp_policies := ps\<rparr>)"
    "map (\<lambda>p. p inp ! 0) ps = map (\<lambda>p. p inp ! 0) (mp_policies m)"
  shows "\<exists>x m' n'. multi_act time inp m = Some (replicate k (Fin x), m') \<and>
    multi_act time inp (m\<lparr>mp_policies := ps\<rparr>) = Some (replicate k (Fin x), n') \<and>
    (\<exists>p \<in> set (mp_policies m). p inp ! 0 \<le> x) \<and> (\<exists>p \<in> set (mp_policies m). x \<le> p inp ! 0)"
proof -
  define t where "t m = (if time = 0 then m\<lparr>mp_iterations := mp_iterations m + 1\<rparr> else m)" for m :: multi
  have t: "binning_ok inp k (t m)" if "binning_ok inp k m" for m using that by (simp add: t_def binning_ok_def)
  have sel: "mp_policies (t m) = mp_policies m" "mp_bins (t m) = mp_bins m" "mp_min (t m) = mp_min m" "mp_max (t m) = mp_max m"
    "mp_strategy (t m) = mp_strategy m" for m by (simp_all add: t_def)
  have act: "multi_act time inp m = Some (a, t m)" if "act_binning inp (t m) = Some (a, t m)" "binning_ok inp k m" "a \<noteq> []" for m a
    using that sel(5) [of m] by (simp add: multi_act_def t_def [symmetric] binning_ok_def)
  from binning_run [OF t [OF assms(1)]] obtain x h where x: "bin_dimension (mp_bins m) (mp_min m ! 0) (mp_max m ! 0)
      (map (\<lambda>p. p inp ! 0) (mp_policies m)) (replicate (nat (mp_bins m)) 0) = Some (Fin x, h)"
    "act_binning inp (t m) = Some (replicate k (Fin x), t m)"
    "(\<exists>p \<in> set (mp_policies m). p inp ! 0 \<le> x) \<and> (\<exists>p \<in> set (mp_policies m). x \<le> p inp ! 0)" unfolding sel by blast
  from binning_run [OF t [OF assms(2)]] obtain y h' where "bin_dimension (mp_bins m) (mp_min m ! 0) (mp_max m ! 0)
      (map (\<lambda>p. p inp ! 0) ps) (replicate (nat (mp_bins m)) 0) = Some (Fin y, h')"
    "act_binning inp (t (m\<lparr>mp_policies := ps\<rparr>)) = Some (replicate k (Fin y), t (m\<lparr>mp_policies := ps\<rparr>))"
    unfolding sel by auto
  moreover have "replicate k (Fin x) \<noteq> []" using assms(1) by (simp add: binning_ok_def)
  ultimately show ?thesis using act [OF x(2) assms(1)] act [of "m\<lparr>mp_policies := ps\<rparr>"] assms(2,3) x(1,3) by auto
qed

theorem binning_one_dimension_witness:
  "\<exists>m x m' n'. multi_act 0 [] m = Some (replicate 2 (Fin x), m') \<and>
    multi_act 0 [] (m\<lparr>mp_policies := [\<lambda>_. [1, 4], \<lambda>_. [2, 4]]\<rparr>) = Some (replicate 2 (Fin x), n') \<and>
    mp_policies m = [\<lambda>_. [1, 0], \<lambda>_. [2, 0]]"
proof -
  obtain m where m: "multi_configure 0 ''binning'' ''none'' ''none'' ''none'' None 10 (- 1) 1 0 0 1 [0, 0] [4, 4]
     [\<lambda>_. [1, 0], \<lambda>_. [2, 0]] [] \<lparr>dr_next = \<lambda>_. 0, dr_count = 0\<rparr> (Rand_new 7) = Some m"
    by (simp add: multi_configure_def parse_strategy_def)
  then have sel: "mp_strategy m = csBinning" "mp_policies m = [\<lambda>_. [1, 0], \<lambda>_. [2, 0]]" "mp_bins m = 10" "mp_min m = [0, 0]" "mp_max m = [4, 4]"
    by (auto simp: multi_configure_def parse_strategy_def)
  have "binning_ok [] 2 m" "binning_ok [] 2 (m\<lparr>mp_policies := [\<lambda>_. [1, 4], \<lambda>_. [2, 4]]\<rparr>)"
    using sel by (auto simp: binning_ok_def less_2_cases_iff)
  from binning_one_dimension [OF this, of 0] sel(2) show ?thesis by fastforce
qed

end
