(* ===== verification/DiscreteEnsembleFacts.thy ===== *)
theory DiscreteEnsembleFacts
  imports EnsembleFacts SamplerFacts
begin

text \<open>
  Facts about the combination of discrete distributions: votes give a distribution, powers ignore the
  temperature, and the density strategy never gives an action.
\<close>

section \<open>Votes\<close>

lemma vote_place_less: "ind < n + length xs \<Longrightarrow> vote_place xs n best ind < n + length xs"
proof (induction xs arbitrary: n best ind)
  case (Cons x xs)
  then show ?case using Cons.IH [of n "n + 1" x] Cons.IH [of ind "n + 1" best] by simp
qed simp

lemma add_vote_facts:
  assumes "length distr = length v" "v \<noteq> []" "\<forall>x \<in> set v. 0 \<le> x"
  shows "length (add_vote distr v) = length v \<and> (\<forall>x \<in> set (add_vote distr v). 0 \<le> x) \<and>
    sum_list (add_vote distr v) = sum_list v + 1"
proof -
  let ?ii = "vote_place distr 0 0 (length distr - 1)"
  have ii: "?ii < length v" using vote_place_less [of "length distr - 1" 0 distr 0] assms(1,2) by simp
  then have "0 \<le> v ! ?ii" using assms(3) nth_mem by blast
  then show ?thesis using ii assms(3) by (auto simp: add_vote_def Let_def sum_list_put dest!: set_list_updateD)
qed

lemma add_ranks_facts:
  assumes "length distr = length v" "\<forall>x \<in> set v. 0 \<le> x"
  shows "length (vadd v (rank_weights distr)) = length v \<and> (\<forall>x \<in> set (vadd v (rank_weights distr)). 0 \<le> x)"
proof -
  have "\<forall>x \<in> set (rank_weights distr). 0 \<le> x" by (auto simp: rank_weights_def)
  then show ?thesis using assms by (auto simp: vadd_def rank_weights_def elim!: in_set_zipE)
qed

definition fits :: "nat \<Rightarrow> dvec \<Rightarrow> dvec \<Rightarrow> 's discrete_policy \<Rightarrow> bool" where
  "fits n inp prev p \<longleftrightarrow> (\<forall>s. \<exists>d s'. dp_distribution p inp prev s = Inr (d, s') \<and> length d = n)"

lemma dm_loop_returns:
  assumes "\<forall>p \<in> set ps. fits n inp prev p" "\<And>d v k. length d = n \<Longrightarrow> P k v \<Longrightarrow> P (Suc k) (f d v)" "P k v"
  shows "\<exists>w s'. dm_loop f n inp prev ps v s = Inr (w, s') \<and> P (k + length ps) w"
  using assms(1,3)
proof (induction ps arbitrary: v s k)
  case (Cons p ps)
  have "fits n inp prev p" using Cons.prems(1) by simp
  then obtain d s' where "dp_distribution p inp prev s = Inr (d, s')" "length d = n" unfolding fits_def by blast
  then show ?case using Cons.IH [of "Suc k" "f d v" s'] assms(2) [of d k v] Cons.prems by simp
qed simp

text \<open>a vote over discrete policies gives a probability distribution over their actions: policies that give
  distributions of the same size are never rejected, and majority and rank votes are softmax-normalized.\<close>

theorem votes_give_distribution:
  assumes "dm_strategy m \<in> {csMajorityVotingProbabilities, csRankVotingProbabilities}" "0 < dm_tau m" "dm_policies m \<noteq> []"
    "\<forall>p \<in> set (dm_policies m). fits n inp prev p" "0 < n"
  shows "\<exists>q s'. dm_distribution m inp prev out (s, d) = Inr (map Fin q, s', d) \<and> length q = n \<and>
    sum_list q = 1 \<and> (\<forall>x \<in> set q. 0 \<le> x)"
proof -
  have "fits n inp prev (hd (dm_policies m))" using assms(3,4) by simp
  then obtain e s1 where e: "dp_distribution (hd (dm_policies m)) inp prev s = Inr (e, s1)" "length e = n"
    unfolding fits_def by blast
  have soft: "\<exists>q. dm_softmax (dm_tau m) v = map Fin q \<and> length q = n \<and> sum_list q = 1 \<and> (\<forall>x \<in> set q. 0 \<le> x)"
    if "length v = n" "\<forall>x \<in> set v. 0 \<le> x" for v
  proof -
    have "0 \<le> DBL_MAX" by (simp add: DBL_MAX_def)
    then have "\<forall>x \<in> set v. - DBL_MAX \<le> x / dm_tau m" using that(2) assms(2) by (auto intro: order.trans [of _ 0])
    moreover have "v \<noteq> []" using that(1) assms(5) by auto
    ultimately show ?thesis using softmax_probabilities [of v "dm_tau m"] that(1) assms(2) by (auto simp: dm_softmax_def)
  qed
  have loop: "\<exists>w s'. dm_loop f n inp prev (dm_policies m) (replicate n 0) s1 = Inr (w, s') \<and> length w = n \<and> (\<forall>x \<in> set w. 0 \<le> x)"
    if "\<And>d v. length d = n \<Longrightarrow> length v = n \<Longrightarrow> \<forall>x \<in> set v. 0 \<le> x \<Longrightarrow> length (f d v) = n \<and> (\<forall>x \<in> set (f d v). 0 \<le> x)" for f :: "dvec \<Rightarrow> dvec \<Rightarrow> dvec"
  proof (rule dm_loop_returns [OF assms(4), of "\<lambda>_ v. length v = n \<and> (\<forall>x \<in> set v. 0 \<le> x)" f 0 "replicate n 0" s1])
    show "length (f d v) = n \<and> (\<forall>x \<in> set (f d v). 0 \<le> x)" if "length d = n" "length v = n \<and> (\<forall>x \<in> set v. 0 \<le> x)" for d v
      using \<open>\<And>d v. length d = n \<Longrightarrow> length v = n \<Longrightarrow> \<forall>x \<in> set v. 0 \<le> x \<Longrightarrow> length (f d v) = n \<and> (\<forall>x \<in> set (f d v). 0 \<le> x)\<close> that by blast
  qed simp
  have ranks: ?thesis if r: "dm_strategy m = csRankVotingProbabilities"
  proof -
    obtain w s' where w: "dm_loop (\<lambda>distr v. vadd v (rank_weights distr)) n inp prev (dm_policies m) (replicate n 0) s1 = Inr (w, s')"
      "length w = n" "\<forall>x \<in> set w. 0 \<le> x" using loop [of "\<lambda>distr v. vadd v (rank_weights distr)"] add_ranks_facts by blast
    then show ?thesis using r e soft [OF w(2,3)] by (auto simp: dm_distribution_def)
  qed
  have majority: ?thesis if r: "dm_strategy m = csMajorityVotingProbabilities"
  proof -
    have "length v = n \<Longrightarrow> v \<noteq> []" for v :: dvec using assms(5) by auto
    then obtain w s' where w: "dm_loop add_vote n inp prev (dm_policies m) (replicate n 0) s1 = Inr (w, s')"
      "length w = n" "\<forall>x \<in> set w. 0 \<le> x" using loop [of add_vote] add_vote_facts by blast
    moreover have "w \<noteq> []" using w(2) assms(5) by auto
    ultimately show ?thesis using r e soft [OF w(2,3)] by (auto simp: dm_distribution_def)
  qed
  show ?thesis using assms(1) ranks majority by blast
qed

definition voters :: "discrete_strategy \<Rightarrow> unit discrete_multi" where
  "voters st = \<lparr>dm_strategy = st, dm_discretizer = \<lparr>d_size = \<lambda>_. 2, d_begin = \<lambda>_. [0],
      d_inc = \<lambda>_ i. if i = [0] then Some [1] else None, d_get = \<lambda>_ i. Some (map real i), d_at = \<lambda>_ k. Some [real k],
      d_discretize = \<lambda>_. Some 0\<rparr>,
     dm_policies = replicate 3 \<lparr>dp_distribution = \<lambda>_ _ s. Inr ([1 / 4, 3 / 4], s), dp_act = \<lambda>_ s. Inr ([1], s), dp_act_timed = \<lambda>_ _ _ s. Inr s\<rparr>,
     dm_min = [0], dm_max = [1], dm_tau = 1, dm_r = 1\<rparr>"

theorem votes_give_distribution_witness:
  "\<exists>q d'. dm_distribution (voters csRankVotingProbabilities) [] [] [] ((), \<lparr>dr_next = \<lambda>_. 0, dr_count = 0\<rparr>) = Inr (map Fin q, d') \<and> sum_list q = 1"
  using votes_give_distribution [of "voters csRankVotingProbabilities" 2 "[]" "[]" "[]" "()"]
  by (fastforce simp: voters_def fits_def)

section \<open>Powers\<close>

lemma exponent_50:
  assumes "tau \<noteq> 0" "- DBL_MAX < 1 / tau" "\<forall>x \<in> set values. 0 \<le> x"
  shows "normalized_function tau values =
    Inr (map (\<lambda>x. d_div (Fin (c_pow x 50)) (Fin (sum_list (map (\<lambda>x. c_pow x 50) values)))) values)"
proof (cases "values")
  case (Cons y ys)
  have fold: "foldl (\<lambda>m _. if m < p then p else m) p zs = p" for p :: real and zs :: dvec
    by (induction zs) simp_all
  have top: "foldl (\<lambda>m _. if m < 1 / tau then 1 / tau else m) (- DBL_MAX) values = 1 / tau"
    using assms(2) fold by (simp add: Cons)
  have pow: "1 / tau - (1 / tau + (1 / tau + - 100)) / 2 = 50" by (simp add: field_simps)
  have "\<not> (\<exists>x \<in> set values. x < 0)" using assms(3) by (simp add: not_less)
  moreover have "d_mul (Fin 1) (d_div (Fin a) (Fin b)) = d_div (Fin a) (Fin b)" for a b by simp
  ultimately show ?thesis using assms(1) unfolding normalized_function_def Let_def top pow vec_sum_eq by (simp add: comp_def)
qed (simp add: normalized_function_def assms(1) Let_def)

text \<open>adding and multiplying distributions ignore the temperature: whatever the (nonzero) temperatures, the
  result is the same, proportional to the 50th power of the combined entries.\<close>

theorem powers_ignore_temperature:
  assumes "dm_strategy m \<in> {csAddProbabilities, csMultiplyProbabilities}" "dm_tau m \<noteq> 0" "- DBL_MAX < 1 / dm_tau m"
    "tau \<noteq> 0" "- DBL_MAX < 1 / tau"
  shows "dm_distribution (m\<lparr>dm_tau := tau\<rparr>) inp prev out sd = dm_distribution m inp prev out sd \<and>
    ((\<forall>x \<in> set xs. 0 \<le> x) \<longrightarrow> normalized_function tau xs =
       Inr (map (\<lambda>x. d_div (Fin (c_pow x 50)) (Fin (sum_list (map (\<lambda>x. c_pow x 50) xs)))) xs))"
proof -
  have "normalized_function tau values = normalized_function (dm_tau m) values" for "values"
  proof (cases "\<exists>x \<in> set values. x < 0")
    case True
    then show ?thesis using assms(2,4) by (simp add: normalized_function_def)
  next
    case False
    then show ?thesis using assms(2-5) by (simp add: exponent_50 not_less)
  qed
  then have "normalized_function tau = normalized_function (dm_tau m)" by (rule ext)
  then have "dm_distribution (m\<lparr>dm_tau := tau\<rparr>) inp prev out sd = dm_distribution m inp prev out sd"
    using assms(1) by (auto simp: dm_distribution_def split: prod.splits)
  then show ?thesis using exponent_50 [OF assms(4,5)] by blast
qed

section \<open>Density\<close>

text \<open>a discrete policy with the density strategy never answers: the distribution stays empty, and drawing from it
  gives the last index of the machine, which is out of bounds for the list of actions.\<close>

theorem density_never_written:
  assumes "dm_strategy m = csDensityBased" "\<And>xs. disc_options (dm_discretizer m) inp = Some xs \<Longrightarrow> length xs \<le> size_max"
  shows "\<exists>e. dm_act m inp out sd g = Inl e"
proof -
  have "distr = []" if "dm_distribution m inp out [] sd = Inr (distr, sd')" for distr sd'
    using that assms(1) by (auto simp: dm_distribution_def dm_density_def chain_Inr Let_def split: prod.splits if_splits option.splits)
  moreover have "fst (sample_d [] g) = size_max"
    by (simp add: sample_d_def sample_def sample_with_sum_def sz_pred_def Let_def split: prod.split)
  ultimately show ?thesis using assms(2)
    by (cases "dm_distribution m inp out [] sd"; cases "disc_options (dm_discretizer m) inp")
      (auto simp: dm_act_def split: prod.splits)
qed

theorem density_never_written_witness:
  "\<exists>e. dm_act (voters csDensityBased) [] [0] ((), \<lparr>dr_next = \<lambda>_. 0, dr_count = 0\<rparr>) (Rand_new 7) = Inl e"
proof (rule density_never_written)
  fix xs
  assume "disc_options (dm_discretizer (voters csDensityBased)) [] = Some xs"
  then have "xs = [[0], [1]]" unfolding disc_options_def by (simp add: voters_def iterate.simps)
  then show "length xs \<le> size_max" by (simp add: size_max_def)
qed (simp add: voters_def)

theorem powers_ignore_temperature_witness:
  "dm_distribution (voters csAddProbabilities\<lparr>dm_tau := 5\<rparr>) [] [] [] ((), \<lparr>dr_next = \<lambda>_. 0, dr_count = 0\<rparr>) =
   dm_distribution (voters csAddProbabilities) [] [] [] ((), \<lparr>dr_next = \<lambda>_. 0, dr_count = 0\<rparr>)"
proof -
  have "0 < DBL_MAX" by (simp add: DBL_MAX_def)
  then have "- DBL_MAX < 1 / 5" by linarith
  then show ?thesis using powers_ignore_temperature [of "voters csAddProbabilities" 5] \<open>0 < DBL_MAX\<close> by (simp add: voters_def)
qed

end
