(* ===== verification/Parser.thy ===== *)
theory Parser
  imports Vectors
begin

text \<open>
  The expressions of configuration values (\<open>base/include/grl/parser.h\<close>, \<open>base/src/parser.cpp\<close>): a string is
  split into operators and operands, bracketed operands are parsed in turn, and the tree is evaluated from
  left to right. Numbers are written and read by the standard library: \<open>shw\<close> and \<open>rd\<close> of \<open>Vectors\<close>. A C string ends
  at its null character, so the strings here have none; \<open>None\<close> is a read past the end of the string.
\<close>

datatype ast = Node string "ast option" "ast option"

definition is_operator :: "char \<Rightarrow> bool" where
  "is_operator c \<longleftrightarrow> c \<in> set ''+*,''"

definition is_white :: "char \<Rightarrow> bool" where
  "is_white c \<longleftrightarrow> c \<in> {CHR '' '', CHR 0x09}"

definition is_open :: "char \<Rightarrow> bool" where
  "is_open c \<longleftrightarrow> c \<in> set ''[(''"

definition is_close :: "char \<Rightarrow> bool" where
  "is_close c \<longleftrightarrow> c \<in> set ''])''"

section \<open>Evaluation\<close>

definition combine_vectors :: "string \<Rightarrow> dvec \<Rightarrow> dvec \<Rightarrow> dvec" where
  "combine_vectors op x y =
     (if op = ''+'' then (if length x = 1 \<and> length y = 1 then vadd x y else Vectors.extend x y)
      else if op = ''++'' then Vectors.extend x y
      else if op = ''*'' then
        (if length x = 1 then vscale (x ! 0) y else if length y = 1 then vscale (y ! 0) x
         else if length x = length y then vmul x y else [])
      else (if length y = 1 \<and> 0 < y ! 0 then concat (replicate (nat (c_trunc (y ! 0))) x) else []))"

definition apply_op :: "(string \<Rightarrow> (real \<times> nat) option) \<Rightarrow> (real \<Rightarrow> string) \<Rightarrow> string \<Rightarrow> string \<Rightarrow> string \<Rightarrow> string" where
  "apply_op rd shw op left right =
     (let x = fst (vec_read rd left); y = fst (vec_read rd right)
      in if op \<in> {''+'', ''++'', ''*'', ''**''}
         then (let z = combine_vectors op x y in if length z = 1 then shw (z ! 0) else vec_write shw z)
         else if op = ''[]'' then ''[ '' @ left @ '' ]''
         else left @ op @ right)"

fun evaluate :: "(string \<Rightarrow> (real \<times> nat) option) \<Rightarrow> (real \<Rightarrow> string) \<Rightarrow> ast \<Rightarrow> string" where
  "evaluate rd shw (Node op l r) =
     apply_op rd shw op (case l of None \<Rightarrow> [] | Some n \<Rightarrow> evaluate rd shw n) (case r of None \<Rightarrow> [] | Some n \<Rightarrow> evaluate rd shw n)"

section \<open>Parsing\<close>

text \<open>A subexpression ends at an operator or a blank outside brackets, or with the bracket that closes it; \<open>paren\<close> is the
  number of open brackets.\<close>

fun take_expr :: "string \<Rightarrow> int \<Rightarrow> string \<times> string" where
  "take_expr [] paren = ([], [])"
| "take_expr (c # cs) paren =
     (if (is_operator c \<or> is_white c) \<and> paren = 0 then ([], c # cs)
      else if is_close c \<and> \<not> is_open c \<and> paren - 1 = 0 then ([c], cs)
      else let paren = (if is_open c then paren + 1 else if is_close c then paren - 1 else paren);
               (expr, rest) = take_expr cs paren
           in (c # expr, rest))"

lemma take_expr_split: "take_expr s paren = (e, r) \<Longrightarrow> e @ r = s"
  by (induction s paren arbitrary: e r rule: take_expr.induct) (auto simp: Let_def split: if_splits prod.splits)

lemma take_expr_progress: "take_expr (c # cs) 0 = ([], r) \<Longrightarrow> is_operator c \<or> is_white c"
  by (auto simp: Let_def split: if_splits prod.splits)

text \<open>The loop of \<open>parseExpression\<close>. The operator is read up to a character that is none: \<open>strchr\<close> finds the null character
  too, so at the end of the string it goes on past it.\<close>

function (sequential) parseExpression :: "string \<Rightarrow> ast option"
  and parse_operands :: "string \<Rightarrow> string \<Rightarrow> ast option \<Rightarrow> ast option" where
  "parseExpression s = (if s = [] then Some (Node [] None None) else parse_operands s [] None)"
| "parse_operands s op node =
     (let (expr, r) = take_expr (dropWhile is_white s) 0
      in do {
        new \<leftarrow> (if expr \<noteq> [] \<and> hd expr = CHR ''['' \<and> last expr = CHR '']''
               then map_option (\<lambda>n. Node ''[]'' (Some n) None) (parseExpression (butlast (tl expr)))
               else if expr \<noteq> [] \<and> hd expr = CHR ''('' \<and> last expr = CHR '')''
               then map_option (\<lambda>n. Node [] (Some n) None) (parseExpression (butlast (tl expr)))
               else Some (Node expr None None));
        let node = (case node of None \<Rightarrow> new | Some n \<Rightarrow> Node op (Some n) (Some new));
        let r = dropWhile is_white r;
        if r \<noteq> [] \<and> is_operator (hd r)
        then (if dropWhile is_operator r = [] then None
              else parse_operands (dropWhile is_operator r) (takeWhile is_operator r) (Some node))
        else if r \<noteq> []
        then map_option (\<lambda>n. Node '' '' (Some node) (Some n)) (parseExpression r)
        else Some node })"
  by pat_completeness auto

lemma take_expr_length: "take_expr (dropWhile is_white s) 0 = (e, r) \<Longrightarrow> length e + length r \<le> length s"
  using take_expr_split [of "dropWhile is_white s" 0 e r] by (metis length_append length_dropWhile_le)

lemma take_expr_rest:
  assumes "take_expr (dropWhile is_white s) 0 = (e, r)" "dropWhile is_white r \<noteq> []" "\<not> is_operator (hd (dropWhile is_white r))"
  shows "length (dropWhile is_white r) < length s"
proof (cases e)
  case Nil
  have split: "e @ r = dropWhile is_white s" by (rule take_expr_split [OF assms(1)])
  show ?thesis
  proof (cases "dropWhile is_white s")
    case Nil
    have "e @ r = []" using split unfolding Nil .
    then show ?thesis using assms(2) by simp
  next
    case (Cons c cs)
    then have "\<not> is_white c" by (metis dropWhile_eq_Cons_conv)
    moreover have "is_operator c \<or> is_white c" using take_expr_progress [of c cs r] assms(1) Cons Nil by simp
    ultimately show ?thesis using split Cons Nil assms(3) by simp
  qed
next
  case (Cons c cs)
  then show ?thesis using take_expr_length [OF assms(1)] length_dropWhile_le [of is_white r] by simp
qed

lemma operator_shorter: "r \<noteq> [] \<Longrightarrow> is_operator (hd r) \<Longrightarrow> length (dropWhile is_operator r) < length r"
  by (cases r) (simp_all add: le_imp_less_Suc length_dropWhile_le)

lemma bracket_shorter: "e \<noteq> [] \<Longrightarrow> hd e \<noteq> last e \<Longrightarrow> length (butlast (tl e)) + 2 \<le> length e"
  by (cases e; cases "tl e") auto

termination parseExpression
proof (relation "measure (\<lambda>x. case x of Inl s \<Rightarrow> 2 * length s + 1 | Inr (s, op, node) \<Rightarrow> 2 * length s)", goal_cases)
  case (3 s op node x e r)
  then have "length (butlast (tl e)) + 2 \<le> length e" "length e \<le> length s"
    using bracket_shorter [of e] take_expr_length [of s e r] by auto
  then show ?case by simp
next
  case (4 s op node x e r)
  then have "length (butlast (tl e)) + 2 \<le> length e" "length e \<le> length s"
    using bracket_shorter [of e] take_expr_length [of s e r] by auto
  then show ?case by simp
next
  case (5 s op node x e r new node' r')
  then have le: "length r' \<le> length s" using take_expr_length [of s e r] length_dropWhile_le [of is_white r] by auto
  have "length (dropWhile is_operator r') < length r'" using 5 operator_shorter [of r'] by blast
  then show ?case using le by simp
next
  case (6 s op node x e r new node' r')
  then have "length r' < length s" using take_expr_rest [of s e r] by metis
  then show ?case by simp
qed auto

declare parseExpression.simps [simp del] parse_operands.simps [simp del]

definition evaluateExpression :: "(string \<Rightarrow> (real \<times> nat) option) \<Rightarrow> (real \<Rightarrow> string) \<Rightarrow> string \<Rightarrow> string option" where
  "evaluateExpression rd shw s = map_option (evaluate rd shw) (parseExpression s)"

end
