(* ===== verification/ConfigTree.thy ===== *)
theory ConfigTree
  imports Parser
begin

text \<open>
  The tree of configurators (\<open>base/include/grl/configurable.h\<close>, \<open>base/src/configurable.cpp\<close>): nodes with a
  parent, an element name and children; plain nodes, lists, references to other nodes, parameters whose
  value is an expression over other nodes, and objects.

  Nodes refer to each other by pointers, so the tree is a store of numbered nodes. Lookup goes through
  references and through parameters that name other nodes; nothing prevents cycles. A lookup that does
  not return, or that follows a dangling pointer, is \<open>None\<close>; the null pointer is \<open>Some None\<close>.
\<close>

text \<open>Objects that the factory created, by number, and objects that a class brought along.\<close>

datatype oid = Own nat | Foreign nat

datatype ckind = Plain | CList "oid option list" | CRef nat string | Param string | Obj string "oid option"

record cnode =
  cn_parent :: "nat option"
  cn_element :: string
  cn_children :: "nat list"
  cn_provided :: bool
  cn_kind :: ckind

record ctree =
  ct_node :: "nat \<Rightarrow> cnode option"
  ct_next :: nat

definition empty_tree :: ctree where
  "empty_tree = \<lparr>ct_node = \<lambda>_. None, ct_next = 0\<rparr>"

definition put_node :: "nat \<Rightarrow> cnode \<Rightarrow> ctree \<Rightarrow> ctree" where
  "put_node n c t = t\<lparr>ct_node := (ct_node t)(n \<mapsto> c)\<rparr>"

definition element_of :: "ctree \<Rightarrow> nat \<Rightarrow> string option" where
  "element_of t n = map_option cn_element (ct_node t n)"

text \<open>The first child with a given name.\<close>

fun child_named :: "ctree \<Rightarrow> string \<Rightarrow> nat list \<Rightarrow> nat option" where
  "child_named t e [] = None"
| "child_named t e (k # ks) = (if element_of t k = Some e then Some k else child_named t e ks)"

text \<open>A node is put below a parent that has no child of that name; otherwise it only points to the parent, unless it is
  told to take the place of that child.\<close>

definition graft :: "string \<Rightarrow> nat \<Rightarrow> bool \<Rightarrow> nat \<Rightarrow> ctree \<Rightarrow> ctree option" where
  "graft e p overwrite n t =
     (case ct_node t n of
        None \<Rightarrow> None
      | Some c \<Rightarrow>
          let t = put_node n (c\<lparr>cn_element := e, cn_parent := Some p\<rparr>) t
          in case ct_node t p of
               None \<Rightarrow> None
             | Some q \<Rightarrow>
                 (case child_named t e (cn_children q) of
                    None \<Rightarrow> Some (put_node p (q\<lparr>cn_children := cn_children q @ [n]\<rparr>) t)
                  | Some k \<Rightarrow>
                      Some (if overwrite
                            then put_node p (q\<lparr>cn_children :=
                              takeWhile (\<lambda>j. element_of t j \<noteq> Some e) (cn_children q) @ n #
                              tl (dropWhile (\<lambda>j. element_of t j \<noteq> Some e) (cn_children q))\<rparr>) t
                            else t)))"

definition new_node :: "ckind \<Rightarrow> string \<Rightarrow> nat option \<Rightarrow> bool \<Rightarrow> ctree \<Rightarrow> (nat \<times> ctree) option" where
  "new_node kind e parent provided t =
     (let n = ct_next t;
          c = \<lparr>cn_parent = parent, cn_element = e, cn_children = [], cn_provided = provided, cn_kind = kind\<rparr>;
          t = put_node n c (t\<lparr>ct_next := n + 1\<rparr>)
      in case parent of
           None \<Rightarrow> Some (n, t)
         | Some p \<Rightarrow> map_option (Pair n) (graft e p False n t))"

section \<open>Paths\<close>

partial_function (option) root_of :: "ctree \<Rightarrow> nat \<Rightarrow> nat option" where
  "root_of t n =
     (case ct_node t n of
        None \<Rightarrow> None
      | Some c \<Rightarrow> (case cn_parent c of None \<Rightarrow> Some n | Some p \<Rightarrow> root_of t p))"

partial_function (option) path_of :: "ctree \<Rightarrow> nat \<Rightarrow> string option" where
  "path_of t n =
     (case ct_node t n of
        None \<Rightarrow> None
      | Some c \<Rightarrow>
          (case cn_parent c of
             None \<Rightarrow> Some (cn_element c)
           | Some p \<Rightarrow> do { s \<leftarrow> path_of t p; Some (s @ ''/'' @ cn_element c) }))"

text \<open>The path to \<open>full\<close> from the node at \<open>own\<close>: from the last slash of the common part. The null character ends a
  string; without a slash the index runs below zero.\<close>

fun common_length :: "string \<Rightarrow> string \<Rightarrow> nat" where
  "common_length (a # as) (b # bs) = (if a = b then Suc (common_length as bs) else 0)"
| "common_length _ _ = 0"

fun back_to_slash :: "string \<Rightarrow> nat \<Rightarrow> nat option" where
  "back_to_slash own 0 = (if own \<noteq> [] \<and> own ! 0 = CHR ''/'' then Some 0 else None)"
| "back_to_slash own (Suc ii) =
     (if Suc ii < length own \<and> own ! Suc ii = CHR ''/'' then Some (Suc ii) else back_to_slash own ii)"

definition relative_path :: "string \<Rightarrow> string \<Rightarrow> string option" where
  "relative_path own full =
     map_option (\<lambda>ii.
       concat (replicate (length (filter (\<lambda>c. c = CHR ''/'') (drop ii own))) ''../'') @
       (if ii < length full then drop (ii + 1) full else []))
     (back_to_slash own (common_length full own))"

section \<open>Lookup\<close>

definition path_first :: "string \<Rightarrow> string" where
  "path_first path = takeWhile (\<lambda>c. c \<noteq> CHR ''/'') path"

definition path_rest :: "string \<Rightarrow> string" where
  "path_rest path = tl (dropWhile (\<lambda>c. c \<noteq> CHR ''/'') path)"

text \<open>With \<open>virt\<close> the function of the node's class, without it that of the base class. A parameter without children
  looks its value up in its own place, then from the root.\<close>

partial_function (option) find_node :: "bool \<Rightarrow> ctree \<Rightarrow> nat \<Rightarrow> string \<Rightarrow> nat option option" where
  "find_node virt t n path =
     (case ct_node t n of
        None \<Rightarrow> None
      | Some c \<Rightarrow>
          (if virt
           then (case cn_kind c of
                   CRef r p \<Rightarrow> find_node True t r (if p \<noteq> [] then p @ ''/'' @ path else path)
                 | Param v \<Rightarrow>
                     if v = [] then find_node False t n path
                     else do {
                       r \<leftarrow> find_node False t n v;
                       r \<leftarrow> (if r = None \<and> cn_parent c \<noteq> None then find_node False t n (CHR ''/'' # v) else Some r);
                       (case r of None \<Rightarrow> find_node False t n path | Some k \<Rightarrow> find_node True t k path) }
                 | Plain \<Rightarrow> find_node False t n path
                 | CList _ \<Rightarrow> find_node False t n path
                 | Obj _ _ \<Rightarrow> find_node False t n path)
           else if path = [] then Some (Some n)
           else if path_first path = []
           then do { r \<leftarrow> root_of t n; find_node True t r (path_rest path) }
           else if path_first path = ''..''
           then (case cn_parent c of None \<Rightarrow> Some None | Some p \<Rightarrow> find_node True t p (path_rest path))
           else (case child_named t (path_first path) (cn_children c) of
                   None \<Rightarrow> Some None
                 | Some k \<Rightarrow> find_node True t k (path_rest path))))"

definition resolve :: "ctree \<Rightarrow> nat \<Rightarrow> string \<Rightarrow> nat option option" where
  "resolve t n v =
     do { r \<leftarrow> find_node False t n v;
          if r = None \<and> (case ct_node t n of None \<Rightarrow> False | Some c \<Rightarrow> cn_parent c \<noteq> None)
          then find_node False t n (CHR ''/'' # v) else Some r }"

text \<open>With a parent the parameter looks below its future place first.\<close>

definition resolve_in :: "ctree \<Rightarrow> nat \<Rightarrow> nat \<Rightarrow> string \<Rightarrow> nat option option" where
  "resolve_in t n p v =
     (case ct_node t n of
        None \<Rightarrow> None
      | Some c \<Rightarrow> do {
          r \<leftarrow> find_node True t p (cn_element c @ ''/'' @ v);
          if r = None then find_node True t p (CHR ''/'' # v) else Some r })"

partial_function (option) reference_path :: "ctree \<Rightarrow> nat \<Rightarrow> string option" where
  "reference_path t n =
     (case ct_node t n of
        None \<Rightarrow> None
      | Some c \<Rightarrow>
          (case cn_kind c of
             CRef r p \<Rightarrow> do { s \<leftarrow> reference_path t r; Some (if p \<noteq> [] then s @ ''/'' @ p else s) }
           | _ \<Rightarrow> path_of t n))"

end
