(* ===== verification/ParserFacts.thy ===== *)
theory ParserFacts
  imports Parser
begin

text \<open>
  Facts about expressions: words and vectors survive evaluation, operators are applied from left to right, an
  operator at the end reads past the string, and a number with a positive exponent is taken apart.
\<close>

definition wordy :: "string \<Rightarrow> bool" where
  "wordy w \<longleftrightarrow> w \<noteq> [] \<and> (\<forall>c \<in> set w. \<not> is_operator c \<and> \<not> is_white c \<and> \<not> is_open c \<and> \<not> is_close c)"

lemma wordyD: "wordy (c # w) \<Longrightarrow> \<not> is_operator c \<and> \<not> is_white c \<and> \<not> is_open c \<and> \<not> is_close c"
  by (simp add: wordy_def)

lemma take_word:
  assumes "\<forall>c \<in> set w. \<not> is_operator c \<and> \<not> is_white c \<and> \<not> is_open c \<and> \<not> is_close c"
    and "r = [] \<or> is_operator (hd r) \<or> is_white (hd r)"
  shows "take_expr (w @ r) 0 = (w, r)"
  using assms by (induction w) (cases r; auto simp: Let_def)+

lemma skip_word: "wordy w \<Longrightarrow> dropWhile is_white (w @ r) = w @ r"
  by (cases w) (auto simp: wordy_def)

lemma word_leaf: "wordy w \<Longrightarrow> hd w \<noteq> CHR ''['' \<and> hd w \<noteq> CHR ''(''"
  by (cases w) (auto simp: wordy_def is_open_def)

text \<open>One operand of the loop.\<close>

lemma operand_last:
  assumes "wordy w" "\<forall>c \<in> set p. is_white c"
  shows "parse_operands (w @ p) op node =
    Some (case node of None \<Rightarrow> Node w None None | Some n \<Rightarrow> Node op (Some n) (Some (Node w None None)))"
proof -
  have "p = [] \<or> is_operator (hd p) \<or> is_white (hd p)" using assms(2) by (cases p) auto
  then have "take_expr (w @ p) 0 = (w, p)" using assms(1) by (intro take_word) (auto simp: wordy_def)
  moreover have "dropWhile is_white p = []" using assms(2) by simp
  ultimately show ?thesis
    using word_leaf [OF assms(1)] skip_word [OF assms(1)] by (subst parse_operands.simps) (simp add: Let_def)
qed

lemma operand_next:
  assumes "wordy w" "\<forall>c \<in> set q. is_operator c" "q \<noteq> []" "r \<noteq> []" "\<not> is_operator (hd r)"
  shows "parse_operands (w @ q @ r) op node =
    parse_operands r q (Some (case node of None \<Rightarrow> Node w None None | Some n \<Rightarrow> Node op (Some n) (Some (Node w None None))))"
proof -
  have q: "is_operator (hd q)" "hd (q @ r) = hd q" using assms(2,3) by (auto simp: hd_append)
  then have "take_expr (w @ q @ r) 0 = (w, q @ r)" using assms(1,3) by (intro take_word) (auto simp: wordy_def)
  moreover have "\<not> is_white (hd q)" using q(1) by (auto simp: is_white_def is_operator_def)
  then have "dropWhile is_white (q @ r) = q @ r" using assms(3) by (cases q) auto
  moreover have "dropWhile is_operator (q @ r) = r" "takeWhile is_operator (q @ r) = q"
    using assms(2,4,5) by (cases r; simp)+
  ultimately show ?thesis
    using word_leaf [OF assms(1)] skip_word [OF assms(1)] q assms(3,4) by (subst parse_operands.simps) (simp add: Let_def del: dropWhile_eq_Nil_conv)
qed

lemma operands_skip_white: "is_white c \<Longrightarrow> parse_operands (c # s) op node = parse_operands s op node"
  by (simp add: parse_operands.simps)

lemma operand_trailing:
  assumes "wordy w" "\<forall>c \<in> set q. is_operator c" "q \<noteq> []"
  shows "parse_operands (w @ q) op node = None"
proof -
  have q: "is_operator (hd q)" using assms(2,3) by auto
  then have "take_expr (w @ q) 0 = (w, q)" using assms(1) by (intro take_word) (auto simp: wordy_def)
  moreover have "\<not> is_white (hd q)" using q by (auto simp: is_white_def is_operator_def)
  then have "dropWhile is_white q = q" using assms(3) by (cases q) auto
  moreover have "dropWhile is_operator q = []" using assms(2) by simp
  ultimately show ?thesis
    using word_leaf [OF assms(1)] skip_word [OF assms(1)] q assms(3) by (subst parse_operands.simps) (simp add: Let_def del: dropWhile_eq_Nil_conv)
qed

lemma parse_word: "wordy w \<Longrightarrow> parseExpression w = Some (Node w None None)"
  using operand_last [of w "[]" "[]" None] by (simp add: parseExpression.simps wordy_def)

lemma special: "is_operator CHR ''+''" "is_operator CHR ''*''" "is_operator CHR '',''" "is_open CHR ''[''"
  by (simp_all add: is_operator_def is_open_def)

lemma evaluate_leaf: "wordy w \<Longrightarrow> evaluate rd shw (Node w None None) = w"
proof -
  assume w: "wordy w"
  have "\<exists>c \<in> set w. is_operator c \<or> is_open c" if "w \<in> {''+'', ''++'', ''*'', ''**'', ''[]''}"
    using that special by auto
  then have "w \<notin> {''+'', ''++'', ''*'', ''**'', ''[]''}" using w unfolding wordy_def by blast
  then show ?thesis by (simp add: apply_op_def)
qed

section \<open>Vectors\<close>

fun glue :: "string \<Rightarrow> string list \<Rightarrow> string" where
  "glue sep [] = []"
| "glue sep [w] = w"
| "glue sep (w # ws) = w @ sep @ glue sep ws"

lemma glue_all: "\<forall>c \<in> set p. P c \<Longrightarrow> \<forall>w \<in> set us. \<forall>c \<in> set w. P c \<Longrightarrow> \<forall>c \<in> set (glue p us). P c"
  by (induction p us rule: glue.induct) auto

lemma write_glue: "write_elems shw v = glue '', '' (map shw v)"
  by (induction shw v rule: write_elems.induct) simp_all

fun commas :: "ast \<Rightarrow> string list \<Rightarrow> ast" where
  "commas n [] = n"
| "commas n (w # ws) = commas (Node '','' (Some n) (Some (Node w None None))) ws"

lemma evaluate_commas: "\<forall>w \<in> set ws. wordy w \<Longrightarrow>
    evaluate rd shw (commas n ws) = evaluate rd shw n @ concat (map ((#) CHR '','') ws)"
proof (induction ws arbitrary: n)
  case (Cons w ws)
  have "evaluate rd shw (Node '','' (Some n) (Some (Node w None None))) = evaluate rd shw n @ CHR '','' # w"
    using Cons.prems evaluate_leaf [of w rd shw] by (subst evaluate.simps) (simp add: apply_op_def del: evaluate.simps)
  then show ?case using Cons by (simp del: evaluate.simps)
qed simp

lemma glue_commas: "w @ concat (map ((#) CHR '','') ws) = glue '','' (w # ws)"
proof (induction ws arbitrary: w)
  case (Cons v vs)
  then show ?case using Cons [of v] by (cases vs) simp_all
qed simp

lemma parse_list:
  assumes "\<forall>w \<in> set (w # ws). wordy w" and "pad = [] \<or> pad = '' ''"
    and "lead = [] \<or> lead = '' ''"
  shows "parse_operands (lead @ glue ('','' @ pad) (w # ws) @ '' '') op node =
    Some (commas (case node of None \<Rightarrow> Node w None None | Some n \<Rightarrow> Node op (Some n) (Some (Node w None None))) ws)"
  using assms(1,3)
proof (induction ws arbitrary: w op node lead)
  case Nil
  have "parse_operands (lead @ w @ '' '') op node = parse_operands (w @ '' '') op node"
    using Nil.prems(2) operands_skip_white by (auto simp: is_white_def)
  then show ?case using operand_last [of w "'' ''"] Nil.prems(1) by (simp add: is_white_def)
next
  case (Cons v vs)
  let ?r = "pad @ glue ('','' @ pad) (v # vs) @ '' ''"
  have v: "wordy v" using Cons.prems(1) by simp
  obtain c u where u: "v = c # u" using v by (cases v) (auto simp: wordy_def)
  have "glue ('','' @ pad) (v # vs) \<noteq> []" "hd (glue ('','' @ pad) (v # vs)) = c"
    using u by (cases vs; simp)+
  moreover have "\<not> is_operator c" "\<not> is_operator (CHR '' '')" using wordyD [of c u] u v by (auto simp: is_operator_def)
  ultimately have r: "?r \<noteq> []" "\<not> is_operator (hd ?r)"
    using assms(2) by (auto simp: hd_append)
  have "parse_operands (lead @ glue ('','' @ pad) (w # v # vs) @ '' '') op node =
      parse_operands (w @ '','' @ ?r) op node"
    using Cons.prems(2) operands_skip_white by (auto simp: is_white_def)
  also have "\<dots> = parse_operands ?r '',''
      (Some (case node of None \<Rightarrow> Node w None None | Some n \<Rightarrow> Node op (Some n) (Some (Node w None None))))"
    using Cons.prems(1) r by (intro operand_next) (auto simp: is_operator_def)
  finally show ?case using Cons.IH [of v pad] Cons.prems(1) assms(2) by simp
qed

lemma take_bracket:
  assumes "\<forall>c \<in> set s. \<not> is_open c \<and> \<not> is_close c"
  shows "take_expr (CHR ''['' # s @ '']'') 0 = (CHR ''['' # s @ '']'', [])"
proof -
  have "take_expr (s @ '']'') 1 = (s @ '']'', [])"
    using assms by (induction s) (auto simp: is_operator_def is_white_def is_open_def is_close_def)
  then show ?thesis by (simp add: is_operator_def is_white_def is_open_def is_close_def)
qed

lemma parse_bracket:
  assumes "\<forall>c \<in> set s. \<not> is_open c \<and> \<not> is_close c"
  shows "parseExpression (CHR ''['' # s @ '']'') = map_option (\<lambda>n. Node ''[]'' (Some n) None) (parseExpression s)"
proof -
  have "dropWhile is_white (CHR ''['' # s @ '']'') = CHR ''['' # s @ '']''" by (simp add: is_white_def)
  then show ?thesis
    using take_bracket [OF assms] by (subst parseExpression.simps, subst parse_operands.simps) (simp add: Let_def butlast_append)
qed

lemma evaluate_list:
  assumes "\<forall>w \<in> set ws. wordy w" and "pad = [] \<or> pad = '' ''"
  shows "evaluateExpression rd shw (''[ '' @ glue ('','' @ pad) ws @ '' ]'') = Some (''[ '' @ glue '','' ws @ '' ]'')"
proof -
  have sep: "\<forall>c \<in> set ('','' @ pad). \<not> is_open c \<and> \<not> is_close c"
    using assms(2) by (elim disjE) (simp_all add: is_open_def is_close_def)
  have word: "\<forall>c \<in> set w. \<not> is_open c \<and> \<not> is_close c" if "w \<in> set ws" for w
    using assms(1) that unfolding wordy_def by blast
  have chars: "\<forall>c \<in> set (glue ('','' @ pad) ws). \<not> is_open c \<and> \<not> is_close c"
    by (rule glue_all [OF sep]) (use word in blast)
  let ?s = "'' '' @ glue ('','' @ pad) ws @ '' ''"
  have inner: "\<exists>n. parseExpression ?s = Some n \<and> evaluate rd shw n = glue '','' ws"
  proof (cases ws)
    case Nil
    have "parse_operands ''  '' [] None = Some (Node [] None None)"
      by (subst parse_operands.simps) (simp add: is_white_def)
    then show ?thesis using Nil by (simp add: parseExpression.simps apply_op_def)
  next
    case (Cons w us)
    have w: "wordy w" "\<forall>w \<in> set us. wordy w" using assms(1) Cons by auto
    have "parseExpression ?s = Some (commas (Node w None None) us)"
      using parse_list [of w us pad "'' ''" "[]" None] assms Cons by (simp add: parseExpression.simps)
    then show ?thesis
      using evaluate_commas [OF w(2)] evaluate_leaf [OF w(1)] glue_commas Cons by (simp del: evaluate.simps)
  qed
  have "\<forall>c \<in> set ?s. \<not> is_open c \<and> \<not> is_close c" using chars by (auto simp: is_open_def is_close_def)
  from parse_bracket [OF this] inner show ?thesis by (auto simp: evaluateExpression_def apply_op_def)
qed

lemma read_glued:
  assumes "\<forall>x \<in> set (x # xs). elem_text1 shw rd x" and "lead = [] \<or> lead = '' ''"
  shows "read_elems rd (lead @ glue '','' (map shw (x # xs)) @ '' ]'') acc = (acc @ x # xs, [], SGood)"
  using assms
proof (induction xs arbitrary: x acc lead)
  case Nil
  then show ?case using read_elems_step [of shw rd x "CHR '']''" "'' ''" lead "[]" acc] by simp
next
  case (Cons y ys)
  let ?rest = "glue '','' (map shw (y # ys)) @ '' ]''"
  have "read_elems rd (lead @ shw x @ [] @ CHR '','' # ?rest) acc = read_elems rd ?rest (acc @ [x])"
    using read_elems_step [of shw rd x "CHR '',''" "[]" lead ?rest acc] Cons.prems by simp
  moreover have "read_elems rd ?rest (acc @ [x]) = (acc @ x # y # ys, [], SGood)"
    using Cons.IH [of y "[]" "acc @ [x]"] Cons.prems(1) by simp
  ultimately show ?case by simp
qed

section \<open>Properties\<close>

lemma evaluated_vector:
  assumes "\<forall>x \<in> set v. wordy (shw x) \<and> elem_text1 shw rd x"
  shows "\<exists>s. evaluateExpression rd shw (vec_write shw v) = Some s \<and> vec_read rd s = (v, [], SGood) \<and>
    evaluateExpression rd shw s = Some s"
proof -
  have w: "\<forall>w \<in> set (map shw v). wordy w" using assms by auto
  let ?s = "''[ '' @ glue '','' (map shw v) @ '' ]''"
  have "evaluateExpression rd shw (vec_write shw v) = Some ?s"
    using evaluate_list [OF w, of "'' ''"] by (simp add: vec_write_def write_glue)
  moreover have "evaluateExpression rd shw ?s = Some ?s" using evaluate_list [OF w, of "[]"] by simp
  moreover have "vec_read rd ?s = (v, [], SGood)"
  proof (cases v)
    case Nil
    have "read_elems rd ''  ]'' [] = ([], [], SGood)" by (subst read_elems.simps) (simp add: blank_def)
    then show ?thesis using Nil by (simp add: vec_read_def blank_def)
  next
    case (Cons x xs)
    then show ?thesis using read_glued [of x xs shw rd "'' ''" "[]"] assms by (simp add: vec_read_def blank_def)
  qed
  ultimately show ?thesis by blast
qed

text \<open>What the standard library prints with 17 significant digits: digits, a decimal point, a minus sign and the exponent
  of small numbers, written with a minus sign. From \<open>10 ^ 17\<close> on there is an exponent with a plus sign.\<close>

definition standard_printing :: "(real \<Rightarrow> string) \<Rightarrow> bool" where
  "standard_printing shw \<longleftrightarrow>
     (\<forall>x. \<bar>x\<bar> < 10 ^ 17 \<longrightarrow> shw x \<noteq> [] \<and> set (shw x) \<subseteq> set ''0123456789.e-'')"

lemma printed_wordy: "standard_printing shw \<Longrightarrow> \<bar>x\<bar> < 10 ^ 17 \<Longrightarrow> wordy (shw x)"
  unfolding standard_printing_def wordy_def
  by (fastforce simp: is_operator_def is_white_def is_open_def is_close_def)

text \<open>C35: a vector of numbers below \<open>10 ^ 17\<close> survives the evaluation of expressions. Given that the standard library
  prints such numbers without a plus sign, and reads each of the given ones back from what it prints, the printed
  vector is normalized to a form that reads back as the same vector, and a second evaluation leaves that
  form alone. (Numbers printed with a positive exponent do not survive; see the end of this theory.)\<close>

theorem vectors_survive_expressions:
  assumes "standard_printing shw" and "\<forall>x \<in> set v. \<bar>x\<bar> < 10 ^ 17 \<and> elem_text1 shw rd x"
  shows "\<exists>s. evaluateExpression rd shw (vec_write shw v) = Some s \<and> vec_read rd s = (v, [], SGood) \<and>
    evaluateExpression rd shw s = Some s"
  using assms printed_wordy by (intro evaluated_vector) blast

text \<open>Integers in decimal notation, and their reader.\<close>

fun dec :: "nat \<Rightarrow> string" where
  "dec n = (if n < 10 then [] else dec (n div 10)) @ [''0123456789'' ! (n mod 10)]"

definition dec_digit :: "char \<Rightarrow> bool" where
  "dec_digit c \<longleftrightarrow> c \<in> set ''0123456789''"

definition digit_of :: "char \<Rightarrow> nat" where
  "digit_of c = length (takeWhile (\<lambda>d. d \<noteq> c) ''0123456789'')"

definition number_of :: "string \<Rightarrow> nat" where
  "number_of ds = foldl (\<lambda>n c. 10 * n + digit_of c) 0 ds"

definition shw_int :: "real \<Rightarrow> string" where
  "shw_int x = (if x < 0 then ''-'' else []) @ dec (nat \<lfloor>\<bar>x\<bar>\<rfloor>)"

definition rd_int :: "string \<Rightarrow> (real \<times> nat) option" where
  "rd_int s =
     (let neg = (s \<noteq> [] \<and> hd s = CHR ''-''); ds = takeWhile dec_digit (if neg then tl s else s)
      in if ds = [] then None
         else Some ((if neg then - real (number_of ds) else real (number_of ds)), (if neg then 1 else 0) + length ds))"

lemma digit_nth: "k < 10 \<Longrightarrow> dec_digit (''0123456789'' ! k) \<and> digit_of (''0123456789'' ! k) = k"
  by (auto simp: eval_nat_numeral less_Suc_eq dec_digit_def digit_of_def)

declare dec.simps [simp del]

lemma dec_number: "dec n \<noteq> [] \<and> (\<forall>c \<in> set (dec n). dec_digit c) \<and> number_of (dec n) = n"
proof (induction n rule: dec.induct)
  case (1 n)
  have d: "dec_digit (''0123456789'' ! (n mod 10))" "digit_of (''0123456789'' ! (n mod 10)) = n mod 10"
    using digit_nth [of "n mod 10"] by simp_all
  show ?case
  proof (cases "n < 10")
    case True
    then show ?thesis using d by (subst (1 2 3) dec.simps) (simp add: number_of_def)
  next
    case False
    then show ?thesis using d 1 by (subst (1 2 3) dec.simps) (auto simp: number_of_def)
  qed
qed

lemma decimal_standard: "standard_printing shw_int"
  using dec_number by (fastforce simp: standard_printing_def shw_int_def dec_digit_def)

lemma decimal_text: "elem_text1 shw_int rd_int (of_int k)"
proof -
  let ?n = "nat \<bar>k\<bar>"
  have n: "nat \<lfloor>\<bar>real_of_int k\<bar>\<rfloor> = ?n" by (metis floor_of_int of_int_abs)
  have take: "takeWhile dec_digit (dec ?n @ c # s) = dec ?n" if "\<not> dec_digit c" for c s
    using dec_number [of ?n] that by (simp add: takeWhile_append2)
  obtain c cs where c: "dec ?n = c # cs" "dec_digit c" using dec_number [of ?n] by (cases "dec ?n") auto
  have first: "\<not> blank c \<and> c \<noteq> CHR '']'' \<and> c \<noteq> CHR ''-''" using c(2) by (auto simp: dec_digit_def blank_def)
  have sep: "\<not> dec_digit d" if "blank d \<or> d = CHR '','' \<or> d = CHR '']''" for d
    using that by (auto simp: dec_digit_def blank_def)
  show ?thesis
    using take [OF sep] first c dec_number [of ?n]
    by (auto simp: elem_text1_def shw_int_def rd_int_def n blank_def)
qed

theorem vectors_survive_expressions_witness:
  "\<exists>s. evaluateExpression rd_int shw_int (vec_write shw_int [1024, - 7, 300000]) = Some s \<and>
    vec_read rd_int s = ([1024, - 7, 300000], [], SGood) \<and> evaluateExpression rd_int shw_int s = Some s"
proof -
  have "elem_text1 shw_int rd_int 1024" "elem_text1 shw_int rd_int (- 7)" "elem_text1 shw_int rd_int 300000"
    using decimal_text [of 1024] decimal_text [of "- 7"] decimal_text [of 300000] by simp_all
  then show ?thesis by (intro vectors_survive_expressions [OF decimal_standard]) simp
qed

text \<open>Some numbers of two digits, for the witnesses below.\<close>

definition shw2 :: "real \<Rightarrow> string" where
  "shw2 x = (if x = 20 then ''20'' else if x = 7 then ''07'' else if x = 10 then ''10'' else if x = 3 then ''03'' else ''01'')"

definition rd2 :: "string \<Rightarrow> (real \<times> nat) option" where
  "rd2 s = (if take 2 s = ''20'' then Some (20, 2) else if take 2 s = ''07'' then Some (7, 2)
            else if take 2 s = ''10'' then Some (10, 2) else if take 2 s = ''03'' then Some (3, 2)
            else if take 2 s = ''01'' then Some (1, 2) else None)"

lemma wordy2: "wordy (shw2 x)"
  by (simp add: shw2_def wordy_def is_operator_def is_white_def is_open_def is_close_def)

text \<open>operators are applied from left to right without precedence: a sum multiplied by a third number is written
  without brackets, and a product in the second place would need them.\<close>

definition number_text :: "(real \<Rightarrow> string) \<Rightarrow> (string \<Rightarrow> (real \<times> nat) option) \<Rightarrow> real \<Rightarrow> bool" where
  "number_text shw rd x \<longleftrightarrow> wordy (shw x) \<and> rd (shw x) = Some (x, length (shw x))"

lemma read_number: "number_text shw rd x \<Longrightarrow> fst (vec_read rd (shw x)) = [x]"
proof -
  assume n: "number_text shw rd x"
  then obtain c cs where c: "shw x = c # cs" by (cases "shw x") (auto simp: number_text_def wordy_def)
  then have "\<not> is_white c" "\<not> is_open c" using n wordyD [of c cs] by (auto simp: number_text_def)
  then have "skip_blank (shw x) = Some (c, cs)" "c \<noteq> CHR ''[''"
    using c by (auto simp: blank_def is_white_def is_open_def)
  then show ?thesis using n c by (simp add: vec_read_def number_text_def)
qed

theorem left_to_right:
  assumes "number_text shw rd x" "number_text shw rd y" "number_text shw rd z" "number_text shw rd (x + y)"
  shows "evaluateExpression rd shw (shw x @ ''+'' @ shw y @ ''*'' @ shw z) = Some (shw ((x + y) * z))"
proof -
  have w: "wordy (shw x)" "wordy (shw y)" "wordy (shw z)" using assms by (auto simp: number_text_def)
  have start: "shw y @ ''*'' @ shw z \<noteq> []" "\<not> is_operator (hd (shw y @ ''*'' @ shw z))" "shw z \<noteq> []" "\<not> is_operator (hd (shw z))"
    using w by (cases "shw y"; cases "shw z"; auto simp: wordy_def)+
  have "parseExpression (shw x @ ''+'' @ shw y @ ''*'' @ shw z) =
      parse_operands (shw x @ ''+'' @ shw y @ ''*'' @ shw z) [] None"
    by (simp add: parseExpression.simps)
  also have "\<dots> = parse_operands (shw y @ ''*'' @ shw z) ''+'' (Some (Node (shw x) None None))"
    using operand_next [OF w(1), of "''+''" "shw y @ ''*'' @ shw z" "[]" None] start special by simp
  also have "\<dots> = parse_operands (shw z) ''*'' (Some (Node ''+'' (Some (Node (shw x) None None)) (Some (Node (shw y) None None))))"
    using operand_next [OF w(2), of "''*''" "shw z" "''+''" "Some (Node (shw x) None None)"] start special by simp
  also have "\<dots> = Some (Node ''*'' (Some (Node ''+'' (Some (Node (shw x) None None)) (Some (Node (shw y) None None))))
      (Some (Node (shw z) None None)))"
    using operand_last [OF w(3), of "[]"] by simp
  finally show ?thesis
    using assms evaluate_leaf [OF w(1)] evaluate_leaf [OF w(2)] evaluate_leaf [OF w(3)]
    by (simp add: evaluateExpression_def apply_op_def read_number combine_vectors_def vadd_def vscale_def mult.commute del: evaluate.simps)
      (simp add: apply_op_def read_number combine_vectors_def vadd_def vscale_def mult.commute)
qed

theorem left_to_right_witness: "evaluateExpression rd2 shw2 (shw2 7 @ ''+'' @ shw2 3 @ ''*'' @ shw2 20) = Some (shw2 ((7 + 3) * 20))"
  by (rule left_to_right) (simp_all add: number_text_def wordy2, simp_all add: shw2_def rd2_def)

text \<open>an operator at the end of an expression makes the parser read past the end of the string.\<close>

theorem trailing_operator_overruns:
  assumes "wordy w" "q \<noteq> []" "\<forall>c \<in> set q. is_operator c"
  shows "evaluateExpression rd shw (w @ q) = None"
  using operand_trailing [OF assms(1,3,2), of "[]" None] assms(1)
  by (simp add: evaluateExpression_def parseExpression.simps wordy_def)

theorem trailing_operator_overruns_witness: "evaluateExpression rd2 shw2 (''a'' @ ''+'') = None"
  by (rule trailing_operator_overruns) (simp_all add: wordy_def is_operator_def is_white_def is_open_def is_close_def)

text \<open>a number with a positive exponent does not survive an expression: its sign is taken for a sum, the mantissa, which
  is no number, is read as an empty vector, and the exponent remains.\<close>

theorem exponents_taken_apart:
  assumes "rd ''1e'' = None" "number_text shw rd 20"
    and "shw 20 = ''20''"
  shows "evaluateExpression rd shw ''1e+20'' = Some ''20''"
proof -
  have w: "wordy ''1e''" by (simp add: wordy_def is_operator_def is_white_def is_open_def is_close_def)
  have w': "wordy ''20''" using assms(2,3) by (simp add: number_text_def)
  have "parseExpression ''1e+20'' = parse_operands (''1e'' @ ''+'' @ ''20'') [] None" by (simp add: parseExpression.simps)
  also have "\<dots> = parse_operands ''20'' ''+'' (Some (Node ''1e'' None None))"
    using operand_next [OF w, of "''+''" "''20''" "[]" None] w' special by (simp add: is_operator_def)
  also have "\<dots> = Some (Node ''+'' (Some (Node ''1e'' None None)) (Some (Node ''20'' None None)))"
    using operand_last [OF w', of "[]"] by simp
  finally show ?thesis
    using evaluate_leaf [OF w] evaluate_leaf [OF w'] read_number [OF assms(2)] assms(1,3)
    by (simp add: evaluateExpression_def del: evaluate.simps)
      (simp add: apply_op_def combine_vectors_def extend_append vec_read_def blank_def)
qed

theorem exponents_taken_apart_witness: "evaluateExpression rd2 shw2 ''1e+20'' = Some ''20''"
  by (rule exponents_taken_apart) (simp_all add: number_text_def wordy2, simp_all add: shw2_def rd2_def)

end
