(* ===== verification/ConfigFacts.thy ===== *)
theory ConfigFacts
  imports ConfigTree ParserFacts "HOL-Library.Sublist"
begin

text \<open>
  Facts about configurator trees: trees that grow node by node stay well-formed, a path leads back to its node
  from anywhere in the tree, relative paths do so unless a name continues the name of a folder, and
  parameters that name each other make the lookup run for ever.
\<close>

section \<open>Well-formed trees\<close>

text \<open>Parents are older than their children, and children have different names.\<close>

definition node_ok :: "ctree \<Rightarrow> nat \<Rightarrow> cnode \<Rightarrow> bool" where
  "node_ok t n c \<longleftrightarrow> n < ct_next t \<and> (\<forall>p. cn_parent c = Some p \<longrightarrow> p < n \<and> ct_node t p \<noteq> None) \<and>
     (\<forall>k \<in> set (cn_children c). \<exists>d. ct_node t k = Some d \<and> cn_parent d = Some n) \<and>
     distinct (map (element_of t) (cn_children c))"

definition tree_ok :: "ctree \<Rightarrow> bool" where
  "tree_ok t \<longleftrightarrow> (\<forall>n c. ct_node t n = Some c \<longrightarrow> node_ok t n c)"

lemma tree_okD:
  assumes "tree_ok t" "ct_node t n = Some c"
  shows "n < ct_next t" "cn_parent c = Some p \<Longrightarrow> p < n" "cn_parent c = Some p \<Longrightarrow> \<exists>d. ct_node t p = Some d"
    "k \<in> set (cn_children c) \<Longrightarrow> \<exists>d. ct_node t k = Some d \<and> cn_parent d = Some n"
    "distinct (map (element_of t) (cn_children c))"
  using assms unfolding tree_ok_def node_ok_def by blast+

lemma child_named_Some: "child_named t e ks = Some k \<Longrightarrow> k \<in> set ks \<and> element_of t k = Some e"
  by (induction ks) (auto split: if_splits)

lemma child_named_None: "child_named t e ks = None \<longleftrightarrow> (\<forall>k \<in> set ks. element_of t k \<noteq> Some e)"
  by (induction ks) auto

lemma child_named_cong: "(\<And>k. k \<in> set ks \<Longrightarrow> element_of t k = element_of t' k) \<Longrightarrow> child_named t e ks = child_named t' e ks"
  by (induction ks) auto

lemma new_node_ok:
  assumes "tree_ok t" and "parent = None \<or> (\<exists>p c. parent = Some p \<and> ct_node t p = Some c)"
  shows "\<exists>n t'. new_node kind e parent provided t = Some (n, t') \<and> tree_ok t' \<and> n = ct_next t \<and>
    (\<forall>m. m \<noteq> n \<and> parent \<noteq> Some m \<longrightarrow> ct_node t' m = ct_node t m) \<and>
    (\<forall>p c. parent = Some p \<and> ct_node t p = Some c \<longrightarrow> (\<exists>d. ct_node t' p = Some d \<and>
       cn_children d = (if child_named t e (cn_children c) = None then cn_children c @ [n] else cn_children c)))"
proof -
  let ?n = "ct_next t"
  let ?c = "\<lparr>cn_parent = parent, cn_element = e, cn_children = [], cn_provided = provided, cn_kind = kind\<rparr>"
  let ?t = "put_node ?n ?c (t\<lparr>ct_next := ?n + 1\<rparr>)"
  have fresh: "ct_node t ?n = None" using tree_okD(1) [OF assms(1), of ?n] by (cases "ct_node t ?n") auto
  have kids: "k \<noteq> ?n" if "ct_node t m = Some d" "k \<in> set (cn_children d)" for k m d
    using tree_okD(4) [OF assms(1) that] fresh by auto
  have el: "element_of ?t k = element_of t k" if "k \<noteq> ?n" for k using that by (simp add: element_of_def put_node_def)
  show ?thesis
  proof (cases parent)
    case None
    have "node_ok ?t m d" if "ct_node ?t m = Some d" for m d
    proof (cases "m = ?n")
      case True
      then show ?thesis using that None by (auto simp: node_ok_def put_node_def)
    next
      case False
      then have d: "ct_node t m = Some d" using that by (simp add: put_node_def)
      have "distinct (map (element_of ?t) (cn_children d))"
        using tree_okD(5) [OF assms(1) d] kids [OF d] el by (simp cong: map_cong)
      then show ?thesis using tree_okD [OF assms(1) d] kids [OF d] fresh
        unfolding node_ok_def put_node_def by (fastforce dest: less_SucI)
    qed
    then show ?thesis using None by (auto simp: new_node_def Let_def tree_ok_def put_node_def)
  next
    case (Some p)
    then obtain c where c: "ct_node t p = Some c" using assms(2) by auto
    have pn: "p \<noteq> ?n" "p < ?n" using tree_okD(1) [OF assms(1) c] by auto
    have same: "child_named ?t e (cn_children c) = child_named t e (cn_children c)"
      using kids [OF c] el by (intro child_named_cong) auto
    let ?d = "c\<lparr>cn_children := if child_named t e (cn_children c) = None then cn_children c @ [?n] else cn_children c\<rparr>"
    define u where "u = put_node p ?d ?t"
    have new: "new_node kind e parent provided t = Some (?n, u)"
    proof -
      have "put_node p c ?t = ?t" using c pn by (auto simp: put_node_def fun_eq_iff)
      moreover have "put_node ?n ?c ?t = ?t" by (simp add: put_node_def)
      ultimately show ?thesis using c pn Some same
        by (auto simp: new_node_def graft_def Let_def u_def put_node_def split: option.splits)
    qed
    have el': "element_of u k = element_of t k" if "k \<noteq> ?n" for k
      using that c pn by (auto simp: element_of_def u_def put_node_def)
    have el_n: "element_of u ?n = Some e" using pn by (simp add: element_of_def u_def put_node_def)
    have next_u: "ct_next u = ?n + 1" by (simp add: u_def put_node_def)
    have look: "ct_node u m = (if m = p then Some ?d else if m = ?n then Some ?c else ct_node t m)" for m
      using pn by (auto simp: u_def put_node_def)
    have "node_ok u m d" if d: "ct_node u m = Some d" for m d
    proof -
      consider "m = p" | "m = ?n" | "m \<noteq> p" "m \<noteq> ?n" by blast
      then show ?thesis
      proof cases
        case 1
        then have d': "d = ?d" using d look by simp
        have par: "\<forall>q. cn_parent d = Some q \<longrightarrow> q < m \<and> ct_node u q \<noteq> None"
          using tree_okD(2,3) [OF assms(1) c] 1 d' unfolding look by auto
        have old: "\<exists>dd. ct_node u k = Some dd \<and> cn_parent dd = Some m" if "k \<in> set (cn_children c)" for k
          using tree_okD(4) [OF assms(1) c that] kids [OF c that] 1 c unfolding look by auto
        have "ct_node u ?n = Some ?c" "cn_parent ?c = Some m" using look pn Some 1 by simp_all
        then have ch: "\<forall>k \<in> set (cn_children d). \<exists>dd. ct_node u k = Some dd \<and> cn_parent dd = Some m"
          using old d' by auto
        have el_c: "\<And>k. k \<in> set (cn_children c) \<Longrightarrow> element_of u k = element_of t k" using kids [OF c] el' by auto
        then have "map (element_of u) (cn_children c) = map (element_of t) (cn_children c)" by (rule map_cong [OF refl])
        then have base: "distinct (map (element_of u) (cn_children c))"
          using tree_okD(5) [OF assms(1) c] by (simp only:)
        have dist: "distinct (map (element_of u) (cn_children d))"
        proof (cases "child_named t e (cn_children c)")
          case None
          then have "\<forall>k \<in> set (cn_children c). element_of u k \<noteq> Some e" using el_c by (simp add: child_named_None)
          then show ?thesis using base d' None el_n by auto
        qed (use base d' in simp)
        show ?thesis unfolding node_ok_def using par ch dist pn 1 next_u by simp
      next
        case 2
        then show ?thesis using d look pn Some next_u by (auto simp: node_ok_def)
      next
        case 3
        then have d': "ct_node t m = Some d" using d look by simp
        have par: "\<forall>q. cn_parent d = Some q \<longrightarrow> q < m \<and> ct_node u q \<noteq> None"
          using tree_okD(2,3) [OF assms(1) d'] unfolding look by auto
        have ch: "\<forall>k \<in> set (cn_children d). \<exists>dd. ct_node u k = Some dd \<and> cn_parent dd = Some m"
          using tree_okD(4) [OF assms(1) d'] kids [OF d'] c unfolding look by fastforce
        have "\<And>k. k \<in> set (cn_children d) \<Longrightarrow> element_of u k = element_of t k" using kids [OF d'] el' by auto
        then have "map (element_of u) (cn_children d) = map (element_of t) (cn_children d)" by (rule map_cong [OF refl])
        then have "distinct (map (element_of u) (cn_children d))"
          using tree_okD(5) [OF assms(1) d'] by (simp only:)
        then show ?thesis unfolding node_ok_def
          using par ch tree_okD(1) [OF assms(1) d'] next_u by simp
      qed
    qed
    then have "tree_ok u" unfolding tree_ok_def by blast
    then show ?thesis using new look pn Some c by auto
  qed
qed

text \<open>configurator trees stay well-formed: a new node below an existing parent, or without one, leaves parents older than
  their children, children pointing back, and the names of children different; a name that is taken is not
  given again, and the new node then only points to its parent.\<close>

theorem new_node_keeps_tree:
  assumes "tree_ok t" and "parent = None \<or> (\<exists>p c. parent = Some p \<and> ct_node t p = Some c)"
  shows "\<exists>n t'. new_node kind e parent provided t = Some (n, t') \<and> tree_ok t' \<and> n = ct_next t \<and>
    (\<forall>m. m \<noteq> n \<and> parent \<noteq> Some m \<longrightarrow> ct_node t' m = ct_node t m) \<and>
    (\<forall>p c. parent = Some p \<and> ct_node t p = Some c \<longrightarrow> (\<exists>d. ct_node t' p = Some d \<and>
       cn_children d = (if child_named t e (cn_children c) = None then cn_children c @ [n] else cn_children c)))"
  by (rule new_node_ok [OF assms])

section \<open>Walks\<close>

definition name_ok :: "string \<Rightarrow> bool" where
  "name_ok e \<longleftrightarrow> e \<noteq> [] \<and> e \<noteq> ''..'' \<and> CHR ''/'' \<notin> set e"

text \<open>Nodes that look up paths in themselves.\<close>

definition solid :: "ctree \<Rightarrow> nat \<Rightarrow> bool" where
  "solid t n \<longleftrightarrow> (\<exists>c. ct_node t n = Some c \<and> (case cn_kind c of CRef r p \<Rightarrow> False | Param v \<Rightarrow> False | _ \<Rightarrow> True))"

fun walk :: "ctree \<Rightarrow> nat \<Rightarrow> string list \<Rightarrow> nat \<Rightarrow> bool" where
  "walk t r [] n \<longleftrightarrow> r = n \<and> ct_node t n \<noteq> None"
| "walk t r (e # es) n \<longleftrightarrow> solid t r \<and> name_ok e \<and>
     (\<exists>c k. ct_node t r = Some c \<and> child_named t e (cn_children c) = Some k \<and> walk t k es n)"

definition slashed :: "string list \<Rightarrow> string" where
  "slashed es = concat (map ((#) CHR ''/'') es)"

lemma slashed_simps [simp]: "slashed [] = []" "slashed (e # es) = CHR ''/'' # e @ slashed es"
    "slashed (es @ os) = slashed es @ slashed os"
  by (simp_all add: slashed_def)

lemma glue_slashed: "es \<noteq> [] \<Longrightarrow> slashed es = CHR ''/'' # glue ''/'' es"
proof (induction es)
  case (Cons e es)
  then show ?case by (cases es) simp_all
qed simp

lemma find_solid: "solid t n \<Longrightarrow> find_node True t n path = find_node False t n path"
proof -
  assume "solid t n"
  then obtain c where c: "ct_node t n = Some c" "case cn_kind c of CRef r p \<Rightarrow> False | Param v \<Rightarrow> False | _ \<Rightarrow> True"
    unfolding solid_def by blast
  have "find_node True t n path = (case cn_kind c of CRef r p \<Rightarrow> find_node True t n path | Param v \<Rightarrow> find_node True t n path
      | _ \<Rightarrow> find_node False t n path)"
    using c by (cases "cn_kind c") (subst find_node.simps, simp)+
  then show ?thesis using c(2) by (cases "cn_kind c") simp_all
qed

lemma find_here: "ct_node t n \<noteq> None \<Longrightarrow> find_node False t n [] = Some (Some n)"
  by (subst find_node.simps) auto

lemma first_rest:
  assumes "name_ok e"
  shows "path_first (glue ''/'' (e # es)) = e" "path_rest (glue ''/'' (e # es)) = glue ''/'' es" "glue ''/'' (e # es) \<noteq> []"
proof -
  have no: "\<forall>c \<in> set e. c \<noteq> CHR ''/''" using assms unfolding name_ok_def by blast
  have slash: "takeWhile (\<lambda>c. c \<noteq> CHR ''/'') (e @ CHR ''/'' # x) = e" "dropWhile (\<lambda>c. c \<noteq> CHR ''/'') (e @ CHR ''/'' # x) = CHR ''/'' # x" for x
    using no by (simp_all only: takeWhile_append2 dropWhile_append2 takeWhile.simps dropWhile.simps not_True_eq_False if_False append_Nil2 simp_thms)
  have alone: "takeWhile (\<lambda>c. c \<noteq> CHR ''/'') e = e" "dropWhile (\<lambda>c. c \<noteq> CHR ''/'') e = []"
    using no by (simp_all only: takeWhile_eq_all_conv dropWhile_eq_Nil_conv)
  show "path_first (glue ''/'' (e # es)) = e" "path_rest (glue ''/'' (e # es)) = glue ''/'' es"
    unfolding path_first_def path_rest_def by (cases es; simp only: glue.simps append.simps slash alone list.sel)+
  show "glue ''/'' (e # es) \<noteq> []" using assms by (cases es) (auto simp: name_ok_def)
qed

lemma find_walk:
  assumes "walk t r es n" "solid t n"
  shows "find_node True t r (glue ''/'' es) = Some (Some n)"
  using assms
proof (induction es arbitrary: r)
  case Nil
  then show ?case using find_solid [of t n "[]"] find_here [of t n] by auto
next
  case (Cons e es)
  then obtain c k where c: "solid t r" "name_ok e" "ct_node t r = Some c" "child_named t e (cn_children c) = Some k" "walk t k es n"
    by auto
  have "find_node True t r (glue ''/'' (e # es)) = find_node True t k (glue ''/'' es)"
    using first_rest [OF c(2), of es] c(2-4) by (subst find_solid [OF c(1)], subst find_node.simps) (simp add: name_ok_def)
  then show ?case using Cons.IH [OF c(5) Cons.prems(2)] by simp
qed

lemma walk_append: "walk t r (es @ os) n \<longleftrightarrow> (\<exists>m. walk t r es m \<and> walk t m os n)"
proof (induction es arbitrary: r)
  case Nil
  show ?case by (cases os) (auto simp: solid_def)
qed auto

lemma walk_end: "walk t r es n \<Longrightarrow> ct_node t n \<noteq> None"
  by (induction es arbitrary: r) auto

lemma walk_child:
  assumes "tree_ok t" "ct_node t r = Some c" "child_named t e (cn_children c) = Some k"
  shows "\<exists>d. ct_node t k = Some d \<and> cn_parent d = Some r \<and> cn_element d = e"
proof -
  have k: "k \<in> set (cn_children c)" "element_of t k = Some e" using child_named_Some [OF assms(3)] by auto
  then show ?thesis using tree_okD(4) [OF assms(1,2) k(1)] by (auto simp: element_of_def)
qed

lemma path_of_walk:
  assumes "tree_ok t" "walk t r es n" "path_of t r = Some s"
  shows "path_of t n = Some (s @ slashed es)"
  using assms(2,3)
proof (induction es arbitrary: r s)
  case (Cons e es)
  then obtain c k where c: "ct_node t r = Some c" "child_named t e (cn_children c) = Some k" "walk t k es n" by auto
  from walk_child [OF assms(1) c(1,2)] obtain d where "ct_node t k = Some d" "cn_parent d = Some r" "cn_element d = e" by blast
  then have "path_of t k = Some (s @ ''/'' @ e)" using Cons.prems(2) by (subst path_of.simps) simp
  from Cons.IH [OF c(3) this] show ?case by simp
qed simp

lemma root_of_walk:
  assumes "tree_ok t" "walk t r es n" "root_of t r = Some q"
  shows "root_of t n = Some q"
  using assms(2,3)
proof (induction es arbitrary: r)
  case (Cons e es)
  then obtain c k where c: "ct_node t r = Some c" "child_named t e (cn_children c) = Some k" "walk t k es n" by auto
  from walk_child [OF assms(1) c(1,2)] obtain d where "ct_node t k = Some d" "cn_parent d = Some r" by blast
  then have "root_of t k = Some q" using Cons.prems(2) by (subst root_of.simps) simp
  from Cons.IH [OF c(3) this] show ?case .
qed simp

definition is_root :: "ctree \<Rightarrow> nat \<Rightarrow> bool" where
  "is_root t r \<longleftrightarrow> (\<exists>c. ct_node t r = Some c \<and> cn_parent c = None \<and> cn_element c = [])"

lemma is_rootD: "is_root t r \<Longrightarrow> root_of t r = Some r \<and> path_of t r = Some []"
  by (subst root_of.simps, subst path_of.simps) (auto simp: is_root_def)

text \<open>the path of a node leads back to it from any place in its tree, also from parameters that look up a value.\<close>

theorem path_leads_back:
  assumes "tree_ok t" "is_root t r" "walk t r (e # es) n" "solid t n" "walk t r os m"
  shows "\<exists>s. path_of t n = Some s \<and> find_node False t m s = Some (Some n)"
proof -
  have "path_of t n = Some (slashed (e # es))"
    using path_of_walk [OF assms(1,3)] is_rootD [OF assms(2)] by simp
  moreover have "find_node False t m (slashed (e # es)) = Some (Some n)"
  proof -
    obtain c where c: "ct_node t m = Some c" using walk_end [OF assms(5)] by blast
    have "path_first (slashed (e # es)) = []" "path_rest (slashed (e # es)) = glue ''/'' (e # es)"
      using glue_slashed [of "e # es"] by (simp_all add: path_first_def path_rest_def)
    moreover have "root_of t m = Some r" using root_of_walk [OF assms(1,5)] is_rootD [OF assms(2)] by simp
    ultimately show ?thesis
      using c find_walk [OF assms(3,4)] by (subst find_node.simps) (simp add: glue_slashed)
  qed
  ultimately show ?thesis by blast
qed

section \<open>Relative paths\<close>

lemma common_length_append: "common_length (p @ x) (p @ y) = length p + common_length x y"
  by (induction p) auto

lemma common_length_le: "common_length x y \<le> length y"
  by (induction x y rule: common_length.induct) auto

lemma common_length_prefix: "length y \<le> common_length x (y @ z) \<Longrightarrow> prefix y x"
proof (induction y arbitrary: x)
  case (Cons a y)
  then show ?case by (cases x) (auto split: if_splits)
qed simp

lemma back_steps:
  "(\<forall>j. 0 < j \<and> j \<le> c \<longrightarrow> \<not> (n + j < length own \<and> own ! (n + j) = CHR ''/'')) \<Longrightarrow> n < length own \<Longrightarrow> own ! n = CHR ''/'' \<Longrightarrow>
   back_to_slash own (n + c) = Some n"
proof (induction c)
  case 0
  then show ?case by (cases n) auto
next
  case (Suc c)
  then have "\<not> (n + Suc c < length own \<and> own ! (n + Suc c) = CHR ''/'')" by blast
  then show ?case using Suc by (simp add: le_SucI)
qed

lemma relative_slashed:
  assumes "\<forall>e \<in> set (p @ o1 # os @ es). CHR ''/'' \<notin> set e" "es = [] \<or> os = [] \<or> \<not> prefix o1 (hd es)"
  shows "relative_path (slashed (p @ o1 # os)) (slashed (p @ es)) =
    Some (concat (replicate (Suc (length os)) ''../'') @ glue ''/'' es)"
proof -
  let ?own = "slashed (p @ o1 # os)" and ?full = "slashed (p @ es)" and ?n = "length (slashed p)"
  let ?c = "common_length (slashed es) (slashed (o1 # os))"
  have cl: "common_length ?full ?own = ?n + ?c" by (simp only: slashed_simps common_length_append)
  have own: "?own = slashed p @ CHR ''/'' # o1 @ slashed os" by simp
  have c: "?c \<le> length o1 \<or> os = [] \<and> ?c \<le> Suc (length o1)"
  proof (cases "es = []")
    case False
    then obtain e ee where es: "es = e # ee" by (cases es) auto
    show ?thesis
    proof (cases "os = []")
      case True
      then show ?thesis using common_length_le [of "slashed es" "slashed [o1]"] by simp
    next
      case False
      then have no: "\<not> prefix o1 e" using assms(2) es by simp
      have "\<not> length o1 \<le> common_length (e @ slashed ee) (o1 @ slashed os)"
      proof
        assume "length o1 \<le> common_length (e @ slashed ee) (o1 @ slashed os)"
        then have "prefix o1 (e @ slashed ee)" by (rule common_length_prefix)
        then have "prefix o1 e \<or> (\<exists>z. o1 = e @ z \<and> z \<noteq> [] \<and> prefix z (slashed ee))" by (auto simp: prefix_append)
        moreover have "CHR ''/'' \<in> set z" if "z \<noteq> []" "prefix z (slashed ee)" for z
          using that by (cases ee; cases z) auto
        ultimately show False using no assms(1) by auto
      qed
      then show ?thesis using es by simp
    qed
  qed simp
  have "back_to_slash ?own (?n + ?c) = Some ?n"
  proof (rule back_steps)
    show "\<forall>j. 0 < j \<and> j \<le> ?c \<longrightarrow> \<not> (?n + j < length ?own \<and> ?own ! (?n + j) = CHR ''/'')"
    proof (intro allI impI)
      fix j assume j: "0 < j \<and> j \<le> ?c"
      show "\<not> (?n + j < length ?own \<and> ?own ! (?n + j) = CHR ''/'')"
      proof (cases "j \<le> length o1")
        case True
        then have "?own ! (?n + j) = o1 ! (j - 1)" using j unfolding own by (cases j) (auto simp: nth_append)
        moreover have "o1 ! (j - 1) \<in> set o1" using True j by (intro nth_mem) auto
        ultimately show ?thesis using assms(1) by auto
      next
        case False
        then have "os = []" "j = Suc (length o1)" using c j by auto
        then show ?thesis by simp
      qed
    qed
  qed simp_all
  moreover have "length (filter (\<lambda>x. x = CHR ''/'') (drop ?n ?own)) = Suc (length os)"
  proof -
    have no: "filter (\<lambda>x. x = CHR ''/'') e = []" if "CHR ''/'' \<notin> set e" for e
      using that unfolding filter_empty_conv by blast
    have "\<forall>e \<in> set os. CHR ''/'' \<notin> set e" using assms(1) by simp
    then have "length (filter (\<lambda>x. x = CHR ''/'') (slashed os)) = length os" by (induction os) (simp_all add: no)
    then show ?thesis using assms(1) by (simp add: no)
  qed
  moreover have "(if ?n < length ?full then drop (?n + 1) ?full else []) = glue ''/'' es"
    by (cases "es = []") (simp_all add: glue_slashed)
  ultimately show ?thesis unfolding relative_path_def cl by (simp only: option.map)
qed

lemma find_up:
  assumes "tree_ok t" "walk t q os m" "os \<noteq> []"
  shows "find_node False t m (concat (replicate (length os) ''../'') @ rest) = find_node True t q rest"
  using assms(2,3)
proof (induction os arbitrary: m rest rule: rev_induct)
  case (snoc e os)
  then obtain j where j: "walk t q os j" "walk t j [e] m" by (auto simp: walk_append)
  then obtain c where c: "solid t j" "ct_node t j = Some c" "child_named t e (cn_children c) = Some m" by auto
  from walk_child [OF assms(1) c(2,3)] obtain d where d: "ct_node t m = Some d" "cn_parent d = Some j" by blast
  let ?rest = "concat (replicate (length os) ''../'') @ rest"
  have "concat (replicate (length (os @ [e])) ''../'') @ rest = ''../'' @ ?rest" by simp
  moreover have "path_first (''../'' @ ?rest) = ''..''" "path_rest (''../'' @ ?rest) = ?rest"
    by (simp_all add: path_first_def path_rest_def)
  then have "find_node False t m (''../'' @ ?rest) = find_node True t j ?rest"
    using d by (subst find_node.simps) simp
  moreover have "find_node True t j ?rest = find_node True t q rest"
  proof (cases "os = []")
    case True
    then show ?thesis using j(1) by simp
  next
    case False
    then show ?thesis using find_solid [OF c(1)] snoc.IH [OF j(1), of rest] by simp
  qed
  ultimately show ?case by simp
qed simp

lemma walk_names: "walk t r es n \<Longrightarrow> e \<in> set es \<Longrightarrow> CHR ''/'' \<notin> set e"
  by (induction es arbitrary: r) (auto simp: name_ok_def)

text \<open>The other case: below a folder, towards a longer name that begins with the name of the folder.\<close>

lemma relative_confused:
  assumes "\<forall>e \<in> set (p @ o1 # os @ (o1 @ c # cs) # es). CHR ''/'' \<notin> set e" "os \<noteq> []"
  shows "relative_path (slashed (p @ o1 # os)) (slashed (p @ (o1 @ c # cs) # es)) =
    Some (concat (replicate (length os) ''../'') @ cs @ slashed es)"
proof -
  let ?own = "slashed (p @ o1 # os)" and ?full = "slashed (p @ (o1 @ c # cs) # es)"
  let ?n = "length (slashed p) + Suc (length o1)"
  have c: "c \<noteq> CHR ''/''" using assms(1) by auto
  obtain o2 oo where os: "os = o2 # oo" using assms(2) by (cases os) auto
  have cl: "common_length ?full ?own = ?n"
    using common_length_append [of "slashed p @ CHR ''/'' # o1" "c # cs @ slashed es" "slashed os"] c os by simp
  have "back_to_slash ?own (?n + 0) = Some ?n"
    by (rule back_steps) (auto simp: nth_append os)
  moreover have "length (filter (\<lambda>x. x = CHR ''/'') (drop ?n ?own)) = length os"
  proof -
    have no: "filter (\<lambda>x. x = CHR ''/'') e = []" if "CHR ''/'' \<notin> set e" for e
      using that unfolding filter_empty_conv by blast
    have "\<forall>e \<in> set os. CHR ''/'' \<notin> set e" using assms(1) by simp
    then have "length (filter (\<lambda>x. x = CHR ''/'') (slashed os)) = length os" by (induction os) (simp_all add: no)
    then show ?thesis by simp
  qed
  moreover have "(if ?n < length ?full then drop (?n + 1) ?full else []) = cs @ slashed es" by simp
  ultimately show ?thesis unfolding relative_path_def cl by (simp only: option.map add_0_right)
qed


text \<open>A configuration with an agent, its policy and a second agent.\<close>

definition two_agents :: ctree where
  "two_agents = \<lparr>ct_node = [
     0 \<mapsto> \<lparr>cn_parent = None, cn_element = [], cn_children = [1, 2], cn_provided = False, cn_kind = Plain\<rparr>,
     1 \<mapsto> \<lparr>cn_parent = Some 0, cn_element = ''agent'', cn_children = [3], cn_provided = False, cn_kind = Plain\<rparr>,
     2 \<mapsto> \<lparr>cn_parent = Some 0, cn_element = ''agent2'', cn_children = [], cn_provided = False, cn_kind = Plain\<rparr>,
     3 \<mapsto> \<lparr>cn_parent = Some 1, cn_element = ''policy'', cn_children = [], cn_provided = False, cn_kind = Param ''x''\<rparr>],
     ct_next = 4\<rparr>"

lemma two_agents_ok: "tree_ok two_agents" "is_root two_agents 0" "walk two_agents 0 [''agent'', ''policy''] 3"
    "walk two_agents 0 [''agent2''] 2" "walk two_agents 0 [''agent''] 1" "solid two_agents 2" "solid two_agents 1"
  by (auto simp: tree_ok_def node_ok_def two_agents_def element_of_def is_root_def solid_def name_ok_def split: if_splits)

theorem new_node_keeps_tree_witness:
  "\<exists>n t'. new_node Plain ''agent'' (Some 0) False two_agents = Some (n, t') \<and> tree_ok t' \<and>
     (\<exists>d. ct_node t' 0 = Some d \<and> cn_children d = [1, 2])"
  using new_node_keeps_tree [of two_agents "Some 0" Plain "''agent''" False] two_agents_ok(1)
  by (fastforce simp: two_agents_def element_of_def split: if_splits)

theorem path_leads_back_witness: "\<exists>s. path_of two_agents 2 = Some s \<and> find_node False two_agents 3 s = Some (Some 2)"
  by (rule path_leads_back [OF two_agents_ok(1,2,4,6,3)])


text \<open>relative paths confuse folders whose names begin alike: from below a folder, the path to a sibling of the folder
  with one more character in its name is the path to the folder itself.\<close>

theorem relative_path_confuses_folders:
  assumes "tree_ok t" "is_root t r" "walk t r (p @ o1 # os) m" "os \<noteq> []" "walk t r (p @ [o1]) f" "solid t f"
    "walk t r (p @ [o1 @ [c]]) n" "solid t n"
  shows "f \<noteq> n \<and> (\<exists>own full rel. path_of t m = Some own \<and> path_of t n = Some full \<and> relative_path own full = Some rel \<and>
    find_node False t m rel = Some (Some f))"
proof -
  let ?own = "slashed (p @ o1 # os)" and ?full = "slashed (p @ [o1 @ [c]])"
  let ?rel = "concat (replicate (length os) ''../'')"
  have paths: "path_of t m = Some ?own" "path_of t n = Some ?full"
    using path_of_walk [OF assms(1,3)] path_of_walk [OF assms(1,7)] is_rootD [OF assms(2)] by auto
  have "\<forall>e \<in> set (p @ o1 # os @ [o1 @ [c]]). CHR ''/'' \<notin> set e"
    using walk_names [OF assms(3)] walk_names [OF assms(7), of "o1 @ [c]"] by auto
  from relative_confused [OF this assms(4)] have rel: "relative_path ?own ?full = Some ?rel" by simp
  obtain q where q: "walk t r p q" "walk t q (o1 # os) m" using assms(3) unfolding walk_append by blast
  have "walk t q ([o1] @ os) m" using q(2) by simp
  then obtain k where k: "walk t q [o1] k" "walk t k os m" unfolding walk_append by blast
  have det: "walk t a es x \<Longrightarrow> walk t a es y \<Longrightarrow> x = y" for a es x y
    by (induction es arbitrary: a) auto
  have "walk t r (p @ [o1]) k" using q(1) k(1) unfolding walk_append by blast
  then have "k = f" using det assms(5) by blast
  then have "find_node False t m ?rel = find_node True t f []"
    using find_up [OF assms(1) k(2) assms(4), of "[]"] by simp
  then have found: "find_node False t m ?rel = Some (Some f)"
    using find_solid [OF assms(6)] find_here walk_end [OF assms(5)] by simp
  have "f \<noteq> n"
  proof
    assume "f = n"
    then have "slashed (p @ [o1]) = slashed (p @ [o1 @ [c]])"
      using path_of_walk [OF assms(1,5)] path_of_walk [OF assms(1,7)] is_rootD [OF assms(2)] by fastforce
    then show False by simp
  qed
  then show ?thesis using paths rel found by blast
qed

theorem relative_path_confuses_folders_witness:
  "\<exists>own full rel. path_of two_agents 3 = Some own \<and> path_of two_agents 2 = Some full \<and> relative_path own full = Some rel \<and>
    find_node False two_agents 3 rel = Some (Some 1)"
  using relative_path_confuses_folders [of two_agents 0 "[]" "''agent''" "[''policy'']" 3 1 "CHR ''2''" 2] two_agents_ok by simp

section \<open>Cycles\<close>

text \<open>Two parameters that name each other.\<close>

definition two_names :: ctree where
  "two_names = \<lparr>ct_node = [
     0 \<mapsto> \<lparr>cn_parent = None, cn_element = [], cn_children = [1, 2], cn_provided = False, cn_kind = Plain\<rparr>,
     1 \<mapsto> \<lparr>cn_parent = Some 0, cn_element = ''a'', cn_children = [], cn_provided = False, cn_kind = Param ''/b''\<rparr>,
     2 \<mapsto> \<lparr>cn_parent = Some 0, cn_element = ''b'', cn_children = [], cn_provided = False, cn_kind = Param ''/a''\<rparr>],
     ct_next = 3\<rparr>"

definition circling :: "bool \<Rightarrow> nat \<Rightarrow> string \<Rightarrow> bool" where
  "circling virt n path \<longleftrightarrow> (virt \<and> n \<in> {1, 2}) \<or> (\<not> virt \<and> n = 1 \<and> path = ''/b'') \<or> (\<not> virt \<and> n = 2 \<and> path = ''/a'') \<or>
     (n = 0 \<and> path \<in> {''a'', ''b''})"

lemma two_names_root: "root_of two_names n = Some r \<Longrightarrow> r = 0"
proof -
  have "root_of two_names 0 = Some 0" by (subst root_of.simps) (simp add: two_names_def)
  then have "n \<in> {1, 2} \<Longrightarrow> root_of two_names n = Some 0" by (subst root_of.simps) (auto simp: two_names_def)
  moreover have "n \<notin> {0, 1, 2} \<Longrightarrow> root_of two_names n = None" by (subst root_of.simps) (auto simp: two_names_def)
  ultimately show "root_of two_names n = Some r \<Longrightarrow> r = 0" using \<open>root_of two_names 0 = Some 0\<close> by (cases "n \<in> {0, 1, 2}") auto
qed

text \<open>parameters that name each other make every lookup through them run for ever: no value is returned, for no path.\<close>

theorem cyclic_names_never_found: "find_node True two_names 1 path = None"
proof -
  have "t = two_names \<longrightarrow> \<not> circling virt n w" if "find_node virt t n w = Some y" for virt t n w y
  proof (rule find_node.raw_induct [where P = "\<lambda>virt t n w y. t = two_names \<longrightarrow> \<not> circling virt n w", OF _ that])
    fix f virt t n w y
    assume IH: "\<And>virt t n w y. f virt t n w = Some y \<Longrightarrow> t = two_names \<longrightarrow> \<not> circling virt n w"
      and body: "(case ct_node t n of
        None \<Rightarrow> None
      | Some c \<Rightarrow>
          (if virt
           then (case cn_kind c of
                   CRef r p \<Rightarrow> f True t r (if p \<noteq> [] then p @ ''/'' @ w else w)
                 | Param v \<Rightarrow>
                     if v = [] then f False t n w
                     else do {
                       r \<leftarrow> f False t n v;
                       r \<leftarrow> (if r = None \<and> cn_parent c \<noteq> None then f False t n (CHR ''/'' # v) else Some r);
                       (case r of None \<Rightarrow> f False t n w | Some k \<Rightarrow> f True t k w) }
                 | Plain \<Rightarrow> f False t n w
                 | CList _ \<Rightarrow> f False t n w
                 | Obj _ _ \<Rightarrow> f False t n w)
           else if w = [] then Some (Some n)
           else if path_first w = []
           then do { r \<leftarrow> root_of t n; f True t r (path_rest w) }
           else if path_first w = ''..''
           then (case cn_parent c of None \<Rightarrow> Some None | Some p \<Rightarrow> f True t p (path_rest w))
           else (case child_named t (path_first w) (cn_children c) of
                   None \<Rightarrow> Some None
                 | Some k \<Rightarrow> f True t k (path_rest w)))) = Some y"
    show "t = two_names \<longrightarrow> \<not> circling virt n w"
    proof (intro impI notI)
      assume t: "t = two_names" and c: "circling virt n w"
      have no: "\<not> circling virt n w" if "f virt two_names n w = Some y" for virt n w y using IH [OF that] by simp
      have never: "f True two_names 1 w = None" "f True two_names 2 w = None" "f False two_names 1 ''/b'' = None"
        "f False two_names 2 ''/a'' = None" "f virt two_names 0 ''a'' = None" "f virt two_names 0 ''b'' = None" for virt w
        using no unfolding circling_def by (metis insertI1 insertI2 not_Some_eq singletonI)+
      have path: "path_first ''/b'' = []" "path_rest ''/b'' = ''b''" "path_first ''/a'' = []" "path_rest ''/a'' = ''a''"
        "path_first ''a'' = ''a''" "path_rest ''a'' = []" "path_first ''b'' = ''b''" "path_rest ''b'' = []"
        by (simp_all add: path_first_def path_rest_def)
      have node: "ct_node two_names 0 = Some \<lparr>cn_parent = None, cn_element = [], cn_children = [1, 2], cn_provided = False, cn_kind = Plain\<rparr>"
        "ct_node two_names 1 = Some \<lparr>cn_parent = Some 0, cn_element = ''a'', cn_children = [], cn_provided = False, cn_kind = Param ''/b''\<rparr>"
        "ct_node two_names 2 = Some \<lparr>cn_parent = Some 0, cn_element = ''b'', cn_children = [], cn_provided = False, cn_kind = Param ''/a''\<rparr>"
        by (simp_all add: two_names_def)
      have kid: "child_named two_names ''a'' [1, 2] = Some 1" "child_named two_names ''b'' [1, 2] = Some 2"
        by (simp_all add: element_of_def two_names_def)
      have root: "do { r \<leftarrow> root_of two_names n; f True two_names r w } = None" if "w \<in> {''a'', ''b''}" for n w
        using two_names_root [of n] never that by (cases "root_of two_names n") auto
      consider "virt" "n = 1" | "virt" "n = 2" | "\<not> virt" "n = 1" "w = ''/b''" | "\<not> virt" "n = 2" "w = ''/a''" | "virt" "n = 0" "w \<in> {''a'', ''b''}" | "\<not> virt" "n = 0" "w = ''a''" | "\<not> virt" "n = 0" "w = ''b''"
        using c unfolding circling_def by blast
      then show False
        using body unfolding t by cases (auto simp: node never path kid root simp del: One_nat_def child_named.simps)
    qed
  qed
  moreover have "circling True 1 path" by (simp add: circling_def)
  ultimately show ?thesis by (cases "find_node True two_names 1 path") blast+
qed

end
