(* ===== verification/Configuring.thy ===== *)
theory Configuring
  imports ConfigTree
begin

text \<open>
  Operations on configurator trees (\<open>base/src/configurable.cpp\<close>): the text and the object of a node, validation
  against a request, instantiation, deep copies and reconfiguration.

  The classes that can be instantiated are a parameter: a class has a list of requests, and \<open>configure\<close>
  answers a configuration with the configuration in which it has set what it provides, or with an
  exception. An object that the factory created is the number it was created with; its state is the calls it
  received. Destruction is not modelled. The
  conversions of the standard library between text and numbers or pointers are parameters too.
\<close>

section \<open>Requests and classes\<close>

datatype mutability = MProvided | MSystem | MConfiguration | MOnline

record crp =
  cr_name :: string
  cr_type :: string
  cr_value :: string
  cr_mutability :: mutability
  cr_min :: real
  cr_max :: real
  cr_options :: "string list"
  cr_optional :: bool

text \<open>Parameters; setting one replaces its value.\<close>

type_synonym config = "(string \<times> string) list"

fun cfg_set :: "string \<Rightarrow> string \<Rightarrow> config \<Rightarrow> config" where
  "cfg_set k v [] = [(k, v)]"
| "cfg_set k v ((k', v') # c) = (if k = k' then (k, v) # c else (k', v') # cfg_set k v c)"

definition cfg_has :: "string \<Rightarrow> config \<Rightarrow> bool" where
  "cfg_has k c \<longleftrightarrow> k \<in> fst ` set c"

record cclass =
  cl_request :: "crp list"
  cl_configure :: "config \<Rightarrow> config option"

record cfg_lib =
  lib_class :: "string \<Rightarrow> cclass option"
  lib_rd :: "string \<Rightarrow> (real \<times> nat) option"
  lib_shw :: "real \<Rightarrow> string"
  lib_int :: "string \<Rightarrow> int option"
  lib_double :: "string \<Rightarrow> real option"
  lib_vector :: "string \<Rightarrow> bool"
  lib_type :: "nat \<Rightarrow> string"
  lib_ptr :: "oid option \<Rightarrow> string"
  lib_list_ptr :: "nat \<Rightarrow> string"
  lib_unptr :: "string \<Rightarrow> oid option option"

definition split_type :: "string \<Rightarrow> string \<times> string" where
  "split_type ty = (takeWhile (\<lambda>c. c \<noteq> CHR ''.'') ty, tl (dropWhile (\<lambda>c. c \<noteq> CHR ''.'') ty))"

section \<open>Loops\<close>

text \<open>A loop that stops at an exception, or at a failure (\<open>False\<close>).\<close>

datatype cfg_error = CfgException | CfgBadParam

primrec each :: "('a \<Rightarrow> 's \<Rightarrow> (cfg_error + bool \<times> 's) option) \<Rightarrow> 'a list \<Rightarrow> 's \<Rightarrow> (cfg_error + bool \<times> 's) option" where
  "each f [] s = Some (Inr (True, s))"
| "each f (x # xs) s =
     do { r \<leftarrow> f x s;
          case r of Inl e \<Rightarrow> Some (Inl e)
          | Inr q \<Rightarrow> if fst q then each f xs (snd q) else Some (Inr (False, snd q)) }"

primrec all_opt :: "('a \<Rightarrow> bool option) \<Rightarrow> 'a list \<Rightarrow> bool option" where
  "all_opt f [] = Some True"
| "all_opt f (x # xs) = do { b \<leftarrow> f x; if b then all_opt f xs else Some False }"

lemma each_mono [partial_function_mono]:
  assumes "\<And>x s. mono_option (\<lambda>f. g f x s)"
  shows "mono_option (\<lambda>f. each (g f) xs s)"
proof (induction xs arbitrary: s)
  case Nil
  show ?case unfolding each.simps by (rule option.const_mono)
next
  case (Cons x xs)
  have "mono_option (\<lambda>f. case y of Inl e \<Rightarrow> Some (Inl e)
      | Inr q \<Rightarrow> if fst q then each (g f) xs (snd q) else Some (Inr (False, snd q)))" for y
    by (cases y; simp only: sum.case) (auto intro!: option.const_mono Cons.IH if_mono)
  then show ?case unfolding each.simps by (intro bind_mono assms)
qed

lemma all_opt_mono [partial_function_mono]:
  assumes "\<And>x. mono_option (\<lambda>f. g f x)"
  shows "mono_option (\<lambda>f. all_opt (g f) xs)"
proof (induction xs)
  case Nil
  show ?case unfolding all_opt.simps by (rule option.const_mono)
next
  case (Cons x xs)
  show ?case unfolding all_opt.simps by (intro bind_mono assms if_mono Cons.IH option.const_mono)
qed

section \<open>The text and the object of a node\<close>

definition isseparator :: "char \<Rightarrow> bool" where
  "isseparator c \<longleftrightarrow> c = CHR 0x09 \<or> c \<in> set '' []+,-*()''"

datatype token = Sep char | Name string

fun tokens :: "string \<Rightarrow> string \<Rightarrow> token list" where
  "tokens [] name = (if name = [] then [] else [Name name])"
| "tokens (c # cs) name =
     (if isseparator c then (if name = [] then [] else [Name name]) @ Sep c # tokens cs []
      else tokens cs (name @ [c]))"

text \<open>\<open>Inl\<close> is a node, \<open>Inr\<close> the tokens of the parameter at a node.\<close>

partial_function (option) str_of :: "cfg_lib \<Rightarrow> ctree \<Rightarrow> nat + nat \<times> token list \<Rightarrow> string option" where
  "str_of lib t work =
     (case work of
        Inl n \<Rightarrow>
          (case ct_node t n of
             None \<Rightarrow> None
           | Some c \<Rightarrow>
               (case cn_kind c of
                  Plain \<Rightarrow> Some []
                | CList os \<Rightarrow> Some (lib_list_ptr lib n)
                | CRef r p \<Rightarrow> do {
                    ref \<leftarrow> find_node True t r p;
                    case ref of None \<Rightarrow> Some [] | Some k \<Rightarrow> str_of lib t (Inl k) }
                | Param v \<Rightarrow> do {
                    s \<leftarrow> str_of lib t (Inr (n, tokens v []));
                    evaluateExpression (lib_rd lib) (lib_shw lib) s }
                | Obj ty ob \<Rightarrow> Some (lib_ptr lib ob)))
      | Inr w \<Rightarrow>
          (case snd w of
             [] \<Rightarrow> Some []
           | tok # toks \<Rightarrow>
               (case tok of
                  Sep c \<Rightarrow> do { s \<leftarrow> str_of lib t (Inr (fst w, toks)); Some (c # s) }
                | Name name \<Rightarrow> do {
                    ref \<leftarrow> resolve t (fst w) name;
                    a \<leftarrow> (case ref of None \<Rightarrow> Some name | Some k \<Rightarrow> str_of lib t (Inl k));
                    s \<leftarrow> str_of lib t (Inr (fst w, toks));
                    Some (a @ s) })))"

definition node_str :: "cfg_lib \<Rightarrow> ctree \<Rightarrow> nat \<Rightarrow> string option" where
  "node_str lib t n = str_of lib t (Inl n)"

partial_function (option) ptr_of :: "ctree \<Rightarrow> nat \<Rightarrow> oid option option" where
  "ptr_of t n =
     (case ct_node t n of
        None \<Rightarrow> None
      | Some c \<Rightarrow>
          (case cn_kind c of
             Plain \<Rightarrow> Some None
           | CList os \<Rightarrow> Some None
           | CRef r p \<Rightarrow> do {
               ref \<leftarrow> find_node True t r p;
               case ref of None \<Rightarrow> Some None | Some k \<Rightarrow> ptr_of t k }
           | Param v \<Rightarrow>
               if v = [] then Some None
               else do {
                 ref \<leftarrow> resolve t n v;
                 case ref of None \<Rightarrow> Some None | Some k \<Rightarrow> ptr_of t k }
           | Obj ty ob \<Rightarrow> Some ob))"

text \<open>The value of the parameter \<open>path\<close> below a node; a missing one is an exception.\<close>

definition cfg_lookup :: "cfg_lib \<Rightarrow> ctree \<Rightarrow> nat \<Rightarrow> string \<Rightarrow> (cfg_error + string) option" where
  "cfg_lookup lib t n path =
     do { ref \<leftarrow> find_node True t n path;
          case ref of None \<Rightarrow> Some (Inl CfgException) | Some k \<Rightarrow> map_option Inr (node_str lib t k) }"

section \<open>Validation\<close>

definition valid_text :: "cfg_lib \<Rightarrow> crp \<Rightarrow> string \<Rightarrow> bool" where
  "valid_text lib crp v =
     (let ty = fst (split_type (cr_type crp))
      in if ty = ''int''
         then (case lib_int lib v of None \<Rightarrow> False | Some i \<Rightarrow> cr_min crp \<le> real_of_int i \<and> real_of_int i \<le> cr_max crp)
         else if ty = ''double''
         then (case lib_double lib v of None \<Rightarrow> False | Some d \<Rightarrow> cr_min crp \<le> d \<and> d \<le> cr_max crp)
         else if ty = ''vector'' then lib_vector lib v
         else if ty = ''string'' then cr_options crp = [] \<or> v \<in> set (cr_options crp)
         else v = ''0'')"

definition unlisted :: "crp \<Rightarrow> crp option" where
  "unlisted crp =
     (if cr_type crp \<noteq> [] \<and> hd (cr_type crp) = CHR ''['' \<and> last (cr_type crp) = CHR '']''
      then Some (crp\<lparr>cr_type := butlast (tl (cr_type crp))\<rparr>) else None)"

text \<open>The type of an object starts with the requested type; \<open>types\<close> gives the type of each object.\<close>

definition subclass_of :: "string \<Rightarrow> string \<Rightarrow> bool" where
  "subclass_of ty base \<longleftrightarrow> take (length base) ty = base"

partial_function (option) validate :: "cfg_lib \<Rightarrow> (oid \<Rightarrow> string) \<Rightarrow> ctree \<Rightarrow> nat \<Rightarrow> crp \<Rightarrow> bool option" where
  "validate lib types t n crp =
     (case ct_node t n of
        None \<Rightarrow> None
      | Some c \<Rightarrow>
          (case cn_kind c of
             Plain \<Rightarrow> Some False
           | CList os \<Rightarrow>
               (case unlisted crp of
                  None \<Rightarrow> Some False
                | Some crp \<Rightarrow> all_opt (\<lambda>k. validate lib types t k crp) (cn_children c))
           | CRef r p \<Rightarrow> do {
               ref \<leftarrow> find_node True t r p;
               case ref of None \<Rightarrow> Some False | Some k \<Rightarrow> validate lib types t k crp }
           | Param v \<Rightarrow> do {
               ref \<leftarrow> (if v = [] then Some None else resolve t n v);
               case ref of
                 None \<Rightarrow> do { s \<leftarrow> node_str lib t n; Some (valid_text lib crp s) }
               | Some k \<Rightarrow> validate lib types t k crp }
           | Obj ty ob \<Rightarrow>
               Some (case ob of None \<Rightarrow> False | Some j \<Rightarrow> subclass_of (types j) (fst (split_type (cr_type crp))))))"

section \<open>Instantiation\<close>

datatype ocall = Configured config | Reconfigured config | CopiedFrom oid

record cstate =
  cs_tree :: ctree
  cs_types :: "string list"
  cs_calls :: "(oid \<times> ocall) list"

definition type_of_object :: "cfg_lib \<Rightarrow> cstate \<Rightarrow> oid \<Rightarrow> string" where
  "type_of_object lib s ob =
     (case ob of Own j \<Rightarrow> if j < length (cs_types s) then cs_types s ! j else [] | Foreign j \<Rightarrow> lib_type lib j)"

text \<open>References inside a value are made relative to the node where they are found from the new parent.\<close>

definition localize :: "ctree \<Rightarrow> nat \<Rightarrow> nat option \<Rightarrow> string \<Rightarrow> string option" where
  "localize t n parent name =
     (if name = [] then Some []
      else do {
        ref \<leftarrow> (case parent of None \<Rightarrow> resolve t n name | Some p \<Rightarrow> resolve_in t n p name);
        case ref of None \<Rightarrow> Some name
        | Some k \<Rightarrow> do { own \<leftarrow> path_of t n; full \<leftarrow> path_of t k; relative_path own full } })"

primrec localize_tokens :: "ctree \<Rightarrow> nat \<Rightarrow> nat option \<Rightarrow> token list \<Rightarrow> string option" where
  "localize_tokens t n parent [] = Some []"
| "localize_tokens t n parent (tok # toks) =
     do { a \<leftarrow> (case tok of Sep c \<Rightarrow> Some [c] | Name name \<Rightarrow> localize t n parent name);
          s \<leftarrow> localize_tokens t n parent toks;
          Some (a @ s) }"

text \<open>A new node in a state; and the failure that leaves the state.\<close>

definition add_node :: "ckind \<Rightarrow> string \<Rightarrow> nat option \<Rightarrow> bool \<Rightarrow> cstate \<Rightarrow> (nat \<times> cstate) option" where
  "add_node kind e parent provided s =
     map_option (\<lambda>(n, t). (n, s\<lparr>cs_tree := t\<rparr>)) (new_node kind e parent provided (cs_tree s))"

type_synonym cfg_result = "(cfg_error + nat option \<times> cstate) option"

definition is_provided :: "ctree \<Rightarrow> nat \<Rightarrow> bool" where
  "is_provided t n = (case ct_node t n of None \<Rightarrow> False | Some c \<Rightarrow> cn_provided c)"

text \<open>The requests that a child answers: each is validated and set.\<close>

definition take_child :: "cfg_lib \<Rightarrow> crp list \<Rightarrow> string \<Rightarrow> nat \<Rightarrow> cstate \<times> config \<Rightarrow> (cfg_error + bool \<times> cstate \<times> config) option" where
  "take_child lib requests e nc sc =
     each (\<lambda>crp (s, config).
       if cr_mutability crp \<noteq> MProvided \<and> e = cr_name crp
       then do {
         ok \<leftarrow> validate lib (type_of_object lib s) (cs_tree s) nc crp;
         if ok then do { v \<leftarrow> node_str lib (cs_tree s) nc; Some (Inr (True, s, cfg_set (cr_name crp) v config)) }
         else Some (Inr (False, s, config)) }
       else Some (Inr (True, s, config))) requests sc"

text \<open>Requests that no child answered get their default, or fail; suppressed ones are put back to it.\<close>

definition take_default :: "string list \<Rightarrow> nat \<Rightarrow> crp \<Rightarrow> cstate \<times> config \<Rightarrow> (cfg_error + bool \<times> cstate \<times> config) option" where
  "take_default suppressions oc crp sc =
     (let (s, config) = sc
      in if cr_mutability crp = MProvided then Some (Inr (True, s, config))
         else if \<not> cfg_has (cr_name crp) config
         then (if cr_optional crp
               then do { (_, s) \<leftarrow> add_node (Param (cr_value crp)) (cr_name crp) (Some oc) False s;
                         Some (Inr (True, s, cfg_set (cr_name crp) (cr_value crp) config)) }
               else Some (Inr (False, s, config)))
         else if cr_name crp \<in> set suppressions then Some (Inr (True, s, cfg_set (cr_name crp) (cr_value crp) config))
         else Some (Inr (True, s, config)))"

definition take_defaults :: "crp list \<Rightarrow> string list \<Rightarrow> nat \<Rightarrow> cstate \<times> config \<Rightarrow> (cfg_error + bool \<times> cstate \<times> config) option" where
  "take_defaults requests suppressions oc sc = each (take_default suppressions oc) requests sc"

text \<open>What the object provides becomes part of the tree: values, itself, or other objects.\<close>

definition provide :: "cfg_lib \<Rightarrow> nat \<Rightarrow> nat \<Rightarrow> config \<Rightarrow> crp \<Rightarrow> cstate \<Rightarrow> (cfg_error + bool \<times> cstate) option" where
  "provide lib oc ob config crp s =
     (if cr_mutability crp \<noteq> MProvided then Some (Inr (True, s))
      else case map_of config (cr_name crp) of
        None \<Rightarrow> Some (Inl CfgException)
      | Some v \<Rightarrow>
          if fst (split_type (cr_type crp)) \<in> {''int'', ''double'', ''vector'', ''string''}
          then map_option (\<lambda>(_, s). Inr (True, s)) (add_node (Param v) (cr_name crp) (Some oc) True s)
          else case lib_unptr lib v of
            None \<Rightarrow> Some (Inl CfgException)
          | Some p \<Rightarrow>
              map_option (\<lambda>(_, s). Inr (True, s))
                (add_node (if p = Some (Own ob) then Param v else Obj (cr_type crp) p) (cr_name crp) (Some oc) True s))"

definition take_provided :: "cfg_lib \<Rightarrow> crp list \<Rightarrow> nat \<Rightarrow> nat \<Rightarrow> config \<Rightarrow> cstate \<Rightarrow> (cfg_error + bool \<times> cstate) option" where
  "take_provided lib requests oc ob config s = each (provide lib oc ob config) requests s"

definition fill_list :: "nat \<Rightarrow> cstate \<Rightarrow> cstate option" where
  "fill_list m s =
     (case ct_node (cs_tree s) m of
        None \<Rightarrow> None
      | Some c \<Rightarrow> do {
          os \<leftarrow> option_list (map (ptr_of (cs_tree s)) (cn_children c));
          Some (s\<lparr>cs_tree := put_node m (c\<lparr>cn_kind := CList os\<rparr>) (cs_tree s)\<rparr>) })"

definition set_object :: "nat \<Rightarrow> oid \<Rightarrow> ctree \<Rightarrow> ctree" where
  "set_object m j t =
     (case ct_node t m of
        None \<Rightarrow> t
      | Some c \<Rightarrow> (case cn_kind c of Obj ty _ \<Rightarrow> put_node m (c\<lparr>cn_kind := Obj ty (Some j)\<rparr>) t | _ \<Rightarrow> t))"

text \<open>Defaults, the call of \<open>configure\<close>, and what the object provides.\<close>

definition finish_object :: "cfg_lib \<Rightarrow> cclass \<Rightarrow> string list \<Rightarrow> nat \<Rightarrow> nat \<Rightarrow> cstate \<times> config \<Rightarrow> cfg_result" where
  "finish_object lib cl supp m j sc =
     do { r \<leftarrow> take_defaults (cl_request cl) supp m sc;
          case r of Inl e \<Rightarrow> Some (Inl e)
          | Inr (ok, s, config) \<Rightarrow>
              if \<not> ok then Some (Inr (None, s))
              else case cl_configure cl config of
                None \<Rightarrow> Some (Inl CfgBadParam)
              | Some config' \<Rightarrow> do {
                  r \<leftarrow> take_provided lib (cl_request cl) m j config' (s\<lparr>cs_calls := cs_calls s @ [(Own j, Configured config)]\<rparr>);
                  case r of Inl e \<Rightarrow> Some (Inl e) | Inr (_, s) \<Rightarrow> Some (Inr (Some m, s)) } }"

text \<open>\<open>supp\<close> are the suppressed parameters, \<open>np\<close> the new parent if one is given. The object of a class is
  created before its children are instantiated and configured after them.\<close>

partial_function (option) instantiate :: "cfg_lib \<Rightarrow> nat \<Rightarrow> string list \<Rightarrow> nat option \<Rightarrow> cstate \<Rightarrow> cfg_result" where
  "instantiate lib n supp np s =
     (case ct_node (cs_tree s) n of
        None \<Rightarrow> None
      | Some c \<Rightarrow>
          let parent = (if np = None then cn_parent c else np)
          in case cn_kind c of
               Plain \<Rightarrow>
                 if cn_provided c then Some (Inl CfgException)
                 else do {
                   (m, s) \<leftarrow> add_node Plain (cn_element c) parent False s;
                   r \<leftarrow> each (\<lambda>k s.
                     if is_provided (cs_tree s) k then Some (Inr (True, s))
                     else do {
                       r \<leftarrow> instantiate lib k [] (Some m) s;
                       case r of Inl e \<Rightarrow> Some (Inl e) | Inr q \<Rightarrow> Some (Inr (fst q \<noteq> None, snd q)) }) (cn_children c) s;
                   case r of Inl e \<Rightarrow> Some (Inl e)
                   | Inr q \<Rightarrow> Some (Inr (if fst q then Some m else None, snd q)) }
             | CList os \<Rightarrow> do {
                 (m, s) \<leftarrow> add_node (CList []) (cn_element c) parent False s;
                 r \<leftarrow> each (\<lambda>k s. do {
                       r \<leftarrow> instantiate lib k [] (Some m) s;
                       case r of Inl e \<Rightarrow> Some (Inl e) | Inr q \<Rightarrow> Some (Inr (fst q \<noteq> None, snd q)) }) (cn_children c) s;
                 case r of Inl e \<Rightarrow> Some (Inl e)
                 | Inr q \<Rightarrow>
                     if fst q
                     then map_option (\<lambda>s. Inr (Some m, s)) (fill_list m (snd q))
                     else Some (Inr (None, snd q)) }
             | CRef ref p \<Rightarrow>
                 (case np of
                    None \<Rightarrow> Some (Inr (None, s))
                  | Some q \<Rightarrow> do {
                      full \<leftarrow> reference_path (cs_tree s) n;
                      own \<leftarrow> path_of (cs_tree s) n;
                      rel \<leftarrow> relative_path own full;
                      if length rel < 3 then Some (Inl CfgException)
                      else do {
                        target \<leftarrow> find_node True (cs_tree s) q (drop 3 rel);
                        case target of None \<Rightarrow> Some (Inr (None, s))
                        | Some k \<Rightarrow> map_option (\<lambda>(m, s). Inr (Some m, s)) (add_node (CRef k []) (cn_element c) (Some q) False s) } })
             | Param v \<Rightarrow>
                 if cn_provided c then Some (Inl CfgException)
                 else do {
                   v \<leftarrow> localize_tokens (cs_tree s) n parent (tokens v []);
                   map_option (\<lambda>(m, s). Inr (Some m, s)) (add_node (Param v) (cn_element c) parent False s) }
             | Obj ty ob \<Rightarrow>
                 if cn_provided c then Some (Inl CfgException)
                 else do {
                   (m, s) \<leftarrow> add_node (Obj ty None) (cn_element c) parent False s;
                   case lib_class lib ty of
                     None \<Rightarrow> Some (Inr (None, s))
                   | Some cl \<Rightarrow>
                       let j = length (cs_types s);
                           s = s\<lparr>cs_types := cs_types s @ [ty], cs_tree := set_object m (Own j) (cs_tree s)\<rparr>
                       in do {
                         r \<leftarrow> each (\<lambda>k sc.
                           if is_provided (cs_tree (fst sc)) k then Some (Inr (True, sc))
                           else do {
                             r \<leftarrow> instantiate lib k [] (Some m) (fst sc);
                             case r of Inl e \<Rightarrow> Some (Inl e)
                             | Inr q \<Rightarrow>
                                 (case fst q of
                                    None \<Rightarrow> Some (Inr (False, snd q, snd sc))
                                  | Some nc \<Rightarrow> do {
                                      _ \<leftarrow> node_str lib (cs_tree (snd q)) nc;
                                      e \<leftarrow> element_of (cs_tree (snd q)) k;
                                      take_child lib (cl_request cl) e nc (snd q, snd sc) }) }) (cn_children c) (s, []);
                         case r of Inl e \<Rightarrow> Some (Inl e)
                         | Inr q \<Rightarrow>
                             if \<not> fst q then Some (Inr (None, fst (snd q)))
                             else finish_object lib cl supp m j (snd q) } })"

section \<open>Copies and reconfiguration\<close>

text \<open>Trees of the same shape are copied object by object; references and parameters are left alone.\<close>

partial_function (option) deepcopy :: "nat \<Rightarrow> nat \<Rightarrow> cstate \<Rightarrow> (cfg_error + cstate) option" where
  "deepcopy n from s =
     (case ct_node (cs_tree s) n of
        None \<Rightarrow> None
      | Some c \<Rightarrow>
          if (case cn_kind c of CRef r p \<Rightarrow> True | Param v \<Rightarrow> True | _ \<Rightarrow> False) then Some (Inr s)
          else case ct_node (cs_tree s) from of
            None \<Rightarrow> None
          | Some d \<Rightarrow> do {
              r \<leftarrow> each (\<lambda>kk s.
                if element_of (cs_tree s) (fst kk) \<noteq> element_of (cs_tree s) (snd kk) then Some (Inl CfgException)
                else do {
                  r \<leftarrow> deepcopy (fst kk) (snd kk) s;
                  case r of Inl e \<Rightarrow> Some (Inl e) | Inr s \<Rightarrow> Some (Inr (True, s)) }) (zip (cn_children c) (cn_children d)) s;
              case r of Inl e \<Rightarrow> Some (Inl e)
              | Inr q \<Rightarrow>
                  (case cn_kind c of
                     Obj ty ob \<Rightarrow> do {
                       other \<leftarrow> ptr_of (cs_tree (snd q)) from;
                       if (ob = None) \<noteq> (other = None) then Some (Inl CfgException)
                       else if ob = other then Some (Inr (snd q))
                       else Some (Inr ((snd q)\<lparr>cs_calls := cs_calls (snd q) @ [(the ob, CopiedFrom (the other))]\<rparr>)) }
                   | _ \<Rightarrow> Some (Inr (snd q))) })"

text \<open>Is a node the given one or one above it? The null pointer never is.\<close>

partial_function (option) on_path :: "ctree \<Rightarrow> nat option \<Rightarrow> nat \<Rightarrow> bool option" where
  "on_path t child n =
     (if child = Some n then Some True
      else case ct_node t n of
        None \<Rightarrow> None
      | Some c \<Rightarrow> (case cn_parent c of None \<Rightarrow> Some False | Some p \<Rightarrow> on_path t child p))"

definition requests_of :: "cfg_lib \<Rightarrow> cstate \<Rightarrow> oid \<Rightarrow> crp list" where
  "requests_of lib s ob = (case lib_class lib (type_of_object lib s ob) of None \<Rightarrow> [] | Some cl \<Rightarrow> cl_request cl)"

text \<open>Each new value of an online parameter is validated as a parameter without a parent; the others are only reported.\<close>

definition check_values :: "cfg_lib \<Rightarrow> oid \<Rightarrow> config \<Rightarrow> cstate \<Rightarrow> bool option" where
  "check_values lib ob config s =
     all_opt (\<lambda>(k, v).
       case find (\<lambda>crp. cr_name crp = k) (requests_of lib s ob) of
         None \<Rightarrow> Some True
       | Some crp \<Rightarrow>
           if cr_mutability crp = MOnline
           then do { (n, t) \<leftarrow> new_node (Param v) k None False (cs_tree s);
                     validate lib (type_of_object lib s) t n crp }
           else Some True) config"

partial_function (option) reconfigure :: "cfg_lib \<Rightarrow> config \<Rightarrow> bool \<Rightarrow> nat \<Rightarrow> cstate \<Rightarrow> cstate option" where
  "reconfigure lib config recursive n s =
     (case ct_node (cs_tree s) n of
        None \<Rightarrow> None
      | Some c \<Rightarrow>
          (case cn_kind c of
             CRef r p \<Rightarrow> do {
               ref \<leftarrow> find_node True (cs_tree s) r p;
               case ref of None \<Rightarrow> Some s | Some k \<Rightarrow> reconfigure lib config recursive k s }
           | Param v \<Rightarrow> do {
               ref \<leftarrow> (if v = [] then Some None else resolve (cs_tree s) n v);
               case ref of None \<Rightarrow> Some s | Some k \<Rightarrow> reconfigure lib config recursive k s }
           | _ \<Rightarrow> do {
               r \<leftarrow> (if recursive
                    then each (\<lambda>k s. do {
                      child \<leftarrow> find_node True (cs_tree s) k [];
                      above \<leftarrow> on_path (cs_tree s) child n;
                      if above then Some (Inr (True, s))
                      else do { s \<leftarrow> reconfigure lib config recursive k s; Some (Inr (True, s)) } }) (cn_children c) s
                    else Some (Inr (True, s)));
               case r of Inl e \<Rightarrow> None
               | Inr q \<Rightarrow>
                   (case cn_kind c of
                      Obj ty ob \<Rightarrow>
                        (case ob of
                           None \<Rightarrow> None
                         | Some ob \<Rightarrow> do {
                             ok \<leftarrow> (if cfg_has ''action'' config then Some True else check_values lib ob config (snd q));
                             Some (if ok then (snd q)\<lparr>cs_calls := cs_calls (snd q) @ [(ob, Reconfigured config)]\<rparr> else snd q) })
                    | _ \<Rightarrow> Some (snd q)) }))"

definition cfg_reset :: "cfg_lib \<Rightarrow> nat \<Rightarrow> cstate \<Rightarrow> cstate option" where
  "cfg_reset lib n s = reconfigure lib (cfg_set ''action'' ''reset'' []) True n s"

text \<open>A clone is a new instance in the place of the old one, with the objects copied; a failed instantiation is a null
  pointer that is followed.\<close>

definition clone :: "cfg_lib \<Rightarrow> nat \<Rightarrow> string list \<Rightarrow> cstate \<Rightarrow> (cfg_error + nat \<times> cstate) option" where
  "clone lib n supp s =
     do { r \<leftarrow> instantiate lib n supp None s;
          case r of Inl e \<Rightarrow> Some (Inl e)
          | Inr (m, s) \<Rightarrow>
              (case m of
                 None \<Rightarrow> None
               | Some m \<Rightarrow> do {
                   r \<leftarrow> deepcopy m n s;
                   case r of Inl e \<Rightarrow> Some (Inl e) | Inr s \<Rightarrow> Some (Inr (m, s)) }) }"

end
