(* ===== verification/ConfigFiles.thy ===== *)
theory ConfigFiles
  imports ConfigFacts Configuring
begin

text \<open>
  Configuration files (\<open>base/src/configurable.cpp\<close>): environment variables in values, the construction of a
  tree of configurators from a YAML document, and the text of a tree.

  The YAML library is a parameter: it gives the document of a file, or of a text. A document is a scalar, a sequence,
  a map with its keys in order, or null, and only a scalar converts to text; \<open>yl_number\<close> tells whether a
  node converts to a number other than NaN. \<open>yl_types\<close> are the registered types in their order.
\<close>

datatype ynode = YScalar string | YSeq "ynode list" | YMap "(string \<times> ynode) list" | YNull

record yaml_lib =
  yl_file :: "string \<Rightarrow> ynode option"
  yl_parse :: "string \<Rightarrow> ynode"
  yl_number :: "ynode \<Rightarrow> bool"
  yl_env :: "string \<Rightarrow> string option"
  yl_types :: "string list"

section \<open>Environment variables\<close>

definition is_alpha :: "char \<Rightarrow> bool" where
  "is_alpha c \<longleftrightarrow> (97 \<le> (of_char c :: nat) \<and> (of_char c :: nat) \<le> 122) \<or> (65 \<le> (of_char c :: nat) \<and> (of_char c :: nat) \<le> 90)"

definition is_digit :: "char \<Rightarrow> bool" where
  "is_digit c \<longleftrightarrow> 48 \<le> (of_char c :: nat) \<and> (of_char c :: nat) \<le> 57"

definition is_alnum :: "char \<Rightarrow> bool" where
  "is_alnum c \<longleftrightarrow> is_alpha c \<or> is_digit c"

text \<open>The part of a file name before its last slash, if it has one.\<close>

definition folder_of :: "string \<Rightarrow> string option" where
  "folder_of file = (if CHR ''/'' \<in> set file then Some (rev (tl (dropWhile (\<lambda>c. c \<noteq> CHR ''/'') (rev file)))) else None)"

text \<open>What a reference stands for, given the text behind the dollar, and the text behind the reference; no value where there is
  no reference.\<close>

definition env_value :: "yaml_lib \<Rightarrow> string \<Rightarrow> string \<Rightarrow> (string \<times> string) option" where
  "env_value yl file s =
     (case s of [] \<Rightarrow> None
      | c # cs \<Rightarrow>
          if c = CHR ''@'' then Some (if file \<noteq> [] then (case folder_of file of None \<Rightarrow> ''.'' | Some p \<Rightarrow> p) else ''.'', cs)
          else if is_alpha c \<or> c = CHR ''_''
          then Some (case yl_env yl (c # takeWhile is_alnum cs) of None \<Rightarrow> [] | Some v \<Rightarrow> v, dropWhile is_alnum cs)
          else None)"

text \<open>The search for a dollar begins at \<open>pos\<close>. After a reference has been replaced it goes on one character behind the place where
  the dollar was.\<close>

partial_function (option) resolve_env :: "yaml_lib \<Rightarrow> string \<Rightarrow> string \<Rightarrow> nat \<Rightarrow> string option" where
  "resolve_env yl file value pos =
     (let pre = takeWhile (\<lambda>c. c \<noteq> CHR ''$'') (drop pos value); rest = dropWhile (\<lambda>c. c \<noteq> CHR ''$'') (drop pos value)
      in if rest = [] then Some value
         else let front = take pos value @ pre
              in case env_value yl file (tl rest) of
                   None \<Rightarrow> resolve_env yl file value (length front + 1)
                 | Some r \<Rightarrow> resolve_env yl file (front @ fst r @ snd r) (length front + 1))"

definition resolveEnv :: "yaml_lib \<Rightarrow> string \<Rightarrow> string \<Rightarrow> string option" where
  "resolveEnv yl value file = resolve_env yl file value 0"

section \<open>Loading\<close>

text \<open>A sequence of scalars as text; every other node is an exception.\<close>

primrec yscalars :: "ynode list \<Rightarrow> string list option" where
  "yscalars [] = Some []"
| "yscalars (y # ys) = (case y of YScalar s \<Rightarrow> map_option (Cons s) (yscalars ys) | _ \<Rightarrow> None)"

fun with_commas :: "string list \<Rightarrow> string" where
  "with_commas [] = []"
| "with_commas [s] = s"
| "with_commas (s # t # ss) = s @ '', '' @ with_commas (t # ss)"

definition YAMLToString :: "ynode \<Rightarrow> cfg_error + string" where
  "YAMLToString node =
     (case node of
        YScalar s \<Rightarrow> Inr s
      | YSeq ys \<Rightarrow> (case yscalars ys of None \<Rightarrow> Inl CfgException | Some ss \<Rightarrow> Inr (''[ '' @ with_commas ss @ '' ]''))
      | _ \<Rightarrow> Inl CfgException)"

text \<open>A type that is not registered stands for the last registered one that it is a proper end of.\<close>

definition full_type :: "yaml_lib \<Rightarrow> string \<Rightarrow> string" where
  "full_type yl ty =
     (if ty \<in> set (yl_types yl) then ty
      else case filter (\<lambda>f. length ty < length f \<and> drop (length f - length ty) f = ty) (yl_types yl) of
        [] \<Rightarrow> ty
      | fs \<Rightarrow> last fs)"

text \<open>A file in the folder of the file that refers to it.\<close>

definition file_beside :: "string \<Rightarrow> string \<Rightarrow> string" where
  "file_beside file value =
     (case folder_of file of None \<Rightarrow> value | Some p \<Rightarrow> p @ ''/'' @ value)"

fun digit_string :: "nat \<Rightarrow> string" where
  "digit_string n = (if n < 10 then [char_of (48 + n)] else digit_string (n div 10) @ [char_of (48 + n mod 10)])"

declare digit_string.simps [simp del]

text \<open>The entries of a document; those of a sequence have no names.\<close>

definition entries_of :: "ynode \<Rightarrow> cfg_error + (string \<times> ynode) list" where
  "entries_of node = (case node of YMap kvs \<Rightarrow> Inr kvs | YSeq (y # ys) \<Rightarrow> Inl CfgException | _ \<Rightarrow> Inr [])"

text \<open>What a document node becomes: a configurator with entries below it, or the document of another file.\<close>

datatype load_plan = Make ckind "(string \<times> ynode) list" | From string ynode

definition value_plan :: "yaml_lib \<Rightarrow> string \<Rightarrow> string \<Rightarrow> load_plan" where
  "value_plan yl file value =
     (if 5 \<le> length value \<and> drop (length value - 5) value = ''.yaml''
      then (let value = (if file \<noteq> [] then file_beside file value else value)
            in (case yl_file yl value of None \<Rightarrow> Make (Param value) [] | Some node \<Rightarrow> From value node))
      else Make (Param value) [])"

definition node_plan :: "yaml_lib \<Rightarrow> string \<Rightarrow> ynode \<Rightarrow> (cfg_error + load_plan) option" where
  "node_plan yl file node =
     (case node of
        YMap kvs \<Rightarrow>
          (let entries = filter (\<lambda>kv. fst kv \<noteq> ''type'') kvs
           in (case map_of kvs ''type'' of
                 None \<Rightarrow> Some (Inr (Make Plain entries))
               | Some (YScalar ty) \<Rightarrow> Some (Inr (Make (Obj (full_type yl ty) None) entries))
               | _ \<Rightarrow> Some (Inl CfgException)))
      | _ \<Rightarrow>
          (case (case node of YSeq (y # ys) \<Rightarrow> if yl_number yl y then [] else y # ys | _ \<Rightarrow> []) of
             y # ys \<Rightarrow> Some (Inr (Make (CList []) (zip (map digit_string [0..<length (y # ys)]) (y # ys))))
           | [] \<Rightarrow>
               (case YAMLToString node of
                  Inl e \<Rightarrow> Some (Inl e)
                | Inr value \<Rightarrow> map_option (\<lambda>value. Inr (value_plan yl file value)) (resolveEnv yl value file))))"

text \<open>\<open>load_node\<close> returns the new node. The entries of a file whose element has no name go below the parent.\<close>

partial_function (option) load_node :: "yaml_lib \<Rightarrow> string \<Rightarrow> string \<Rightarrow> nat option \<Rightarrow> ynode \<Rightarrow> ctree \<Rightarrow> (cfg_error + nat \<times> ctree) option" where
  "load_node yl file e parent node t = do {
     r \<leftarrow> node_plan yl file node;
     (case r of
        Inl err \<Rightarrow> Some (Inl err)
      | Inr plan \<Rightarrow>
          (case plan of
             Make kind kvs \<Rightarrow> do {
               (n, t) \<leftarrow> new_node kind e parent False t;
               r \<leftarrow> each (\<lambda>kv t. do {
                 r \<leftarrow> load_node yl file (fst kv) (Some n) (snd kv) t;
                 (case r of Inl err \<Rightarrow> Some (Inl err) | Inr q \<Rightarrow> Some (Inr (True, snd q))) }) kvs t;
               (case r of Inl err \<Rightarrow> Some (Inl err) | Inr q \<Rightarrow> Some (Inr (n, snd q))) }
           | From file node \<Rightarrow>
               (case (if e = [] then parent else None) of
                  None \<Rightarrow> load_node yl file e parent node t
                | Some p \<Rightarrow>
                    (case entries_of node of
                       Inl err \<Rightarrow> Some (Inl err)
                     | Inr kvs \<Rightarrow> do {
                         r \<leftarrow> each (\<lambda>kv t. do {
                           r \<leftarrow> load_node yl file (fst kv) (Some p) (snd kv) t;
                           (case r of Inl err \<Rightarrow> Some (Inl err) | Inr q \<Rightarrow> Some (Inr (True, snd q))) }) kvs t;
                         (case r of Inl err \<Rightarrow> Some (Inl err) | Inr q \<Rightarrow> Some (Inr (p, snd q))) })))) }"

text \<open>A file by its name, or a document given as text.\<close>

definition loadYAML :: "yaml_lib \<Rightarrow> string \<Rightarrow> string \<Rightarrow> nat option \<Rightarrow> ctree \<Rightarrow> (cfg_error + nat \<times> ctree) option" where
  "loadYAML yl file e parent t =
     (let (node, id) = (case yl_file yl file of Some node \<Rightarrow> (node, file) | None \<Rightarrow> (yl_parse yl file, []))
      in case (if e = [] then parent else None) of
           None \<Rightarrow> load_node yl id e parent node t
         | Some p \<Rightarrow>
             (case entries_of node of Inl e \<Rightarrow> Some (Inl e)
              | Inr kvs \<Rightarrow> do {
                  r \<leftarrow> each (\<lambda>kv t. do { r \<leftarrow> load_node yl id (fst kv) (Some p) (snd kv) t; (case r of Inl e \<Rightarrow> Some (Inl e) | Inr q \<Rightarrow> Some (Inr (True, snd q))) }) kvs t;
                  case r of Inl e \<Rightarrow> Some (Inl e) | Inr q \<Rightarrow> Some (Inr (p, snd q)) }))"

section \<open>Writing\<close>

text \<open>A name that \<open>strtol\<close> reads to its end.\<close>

definition numeric_name :: "string \<Rightarrow> bool" where
  "numeric_name e =
     (let s = dropWhile (\<lambda>c. c \<in> {CHR 0x09, CHR 0x0A, CHR 0x0B, CHR 0x0C, CHR 0x0D, CHR '' ''}) e;
          s = (if s \<noteq> [] \<and> hd s \<in> set ''+-'' then tl s else s)
      in s \<noteq> [] \<and> list_all is_digit s)"

definition indented :: "nat \<Rightarrow> string \<Rightarrow> string" where
  "indented n line = replicate n CHR '' '' @ line @ [CHR 0x0A]"

primrec concat_opt :: "('a \<Rightarrow> string option) \<Rightarrow> 'a list \<Rightarrow> string option" where
  "concat_opt f [] = Some []"
| "concat_opt f (x # xs) = do { a \<leftarrow> f x; s \<leftarrow> concat_opt f xs; Some (a @ s) }"

lemma concat_opt_mono [partial_function_mono]:
  assumes "\<And>x. mono_option (\<lambda>f. g f x)"
  shows "mono_option (\<lambda>f. concat_opt (g f) xs)"
proof (induction xs)
  case Nil
  show ?case unfolding concat_opt.simps by (rule option.const_mono)
next
  case (Cons x xs)
  show ?case unfolding concat_opt.simps by (intro bind_mono assms Cons.IH option.const_mono)
qed

partial_function (option) yaml :: "ctree \<Rightarrow> nat \<Rightarrow> nat \<Rightarrow> string option" where
  "yaml t n depth =
     (case ct_node t n of
        None \<Rightarrow> None
      | Some c \<Rightarrow>
          (case cn_kind c of
             Param v \<Rightarrow> Some (indented (2 * depth) (cn_element c @ '': '' @ (if v \<noteq> [] then v else [CHR 0x22, CHR 0x22])))
           | CRef r p \<Rightarrow> do {
               full \<leftarrow> reference_path t n;
               own \<leftarrow> path_of t n;
               rel \<leftarrow> relative_path own full;
               Some (indented (2 * depth) (cn_element c @ '': '' @ rel)) }
           | _ \<Rightarrow> do {
               s \<leftarrow> concat_opt (\<lambda>k. if is_provided t k then Some [] else yaml t k (if cn_element c = [] then depth else depth + 1)) (cn_children c);
               Some ((if cn_element c = [] then []
                      else indented (2 * depth) (if numeric_name (cn_element c) then ''-'' else cn_element c @ '':'')) @ s @
                     (case cn_kind c of Obj ty ob \<Rightarrow> indented (2 * depth + 2) (''type: '' @ ty) | _ \<Rightarrow> [])) }))"

end
