(* ===== verification/ConfigRuns.thy ===== *)
theory ConfigRuns
  imports ConfigFacts Configuring
begin

text \<open>
  Facts about instantiation and reconfiguration: every object is configured once, with all the parameters it
  requests, after the objects below it; and a reset reaches every object of a tree once, from below.
\<close>

section \<open>Instantiation\<close>

definition complete_for :: "cfg_lib \<Rightarrow> string \<Rightarrow> config \<Rightarrow> bool" where
  "complete_for lib ty config \<longleftrightarrow> (\<forall>cl. lib_class lib ty = Some cl \<longrightarrow>
     (\<forall>crp \<in> set (cl_request cl). cr_mutability crp \<noteq> MProvided \<longrightarrow> cfg_has (cr_name crp) config))"

text \<open>What a computation adds: objects, and for some of the new objects one configuration each.\<close>

definition configures :: "cfg_lib \<Rightarrow> cstate \<Rightarrow> cstate \<Rightarrow> (oid \<times> ocall) list \<Rightarrow> bool" where
  "configures lib s s' new \<longleftrightarrow> prefix (cs_types s) (cs_types s') \<and> cs_calls s' = cs_calls s @ new \<and> distinct (map fst new) \<and>
     (\<forall>oc \<in> set new. \<exists>i config. oc = (Own i, Configured config) \<and> length (cs_types s) \<le> i \<and> i < length (cs_types s') \<and>
        complete_for lib (cs_types s' ! i) config)"

lemma configures_refl: "cs_types s' = cs_types s \<Longrightarrow> cs_calls s' = cs_calls s \<Longrightarrow> configures lib s s' []"
  by (simp add: configures_def)

lemma prefix_nth: "prefix xs ys \<Longrightarrow> i < length xs \<Longrightarrow> ys ! i = xs ! i"
  by (auto simp: prefix_def nth_append)

lemma configures_trans:
  assumes "configures lib s s1 new" "configures lib s1 s2 new'"
  shows "configures lib s s2 (new @ new')"
proof -
  have pre: "prefix (cs_types s) (cs_types s1)" "prefix (cs_types s1) (cs_types s2)"
    using assms by (auto simp: configures_def)
  have len: "length (cs_types s) \<le> length (cs_types s1)" "length (cs_types s1) \<le> length (cs_types s2)"
    using pre by (auto dest: prefix_length_le)
  have one: "\<exists>i config. oc = (Own i, Configured config) \<and> length (cs_types s) \<le> i \<and> i < length (cs_types s1) \<and>
      complete_for lib (cs_types s1 ! i) config" if "oc \<in> set new" for oc
    using assms(1) that unfolding configures_def by blast
  have two: "\<exists>i config. oc = (Own i, Configured config) \<and> length (cs_types s1) \<le> i \<and> i < length (cs_types s2) \<and>
      complete_for lib (cs_types s2 ! i) config" if "oc \<in> set new'" for oc
    using assms(2) that unfolding configures_def by blast
  have "set (map fst new) \<inter> set (map fst new') = {}" using one two by fastforce
  moreover have "\<exists>i config. oc = (Own i, Configured config) \<and> length (cs_types s) \<le> i \<and> i < length (cs_types s2) \<and>
      complete_for lib (cs_types s2 ! i) config" if "oc \<in> set (new @ new')" for oc
  proof (cases "oc \<in> set new")
    case True
    from one [OF this] show ?thesis using prefix_nth [OF pre(2)] len(2) by (metis order.strict_trans2)
  next
    case False
    then show ?thesis using two [of oc] that len(1) by fastforce
  qed
  ultimately show ?thesis using assms pre unfolding configures_def by (auto intro: prefix_order.trans)
qed

definition extends :: "cfg_lib \<Rightarrow> cstate \<Rightarrow> cstate \<Rightarrow> bool" where
  "extends lib s s' \<longleftrightarrow> (\<exists>new. configures lib s s' new)"

lemma extends_trans: "extends lib s s1 \<Longrightarrow> extends lib s1 s2 \<Longrightarrow> extends lib s s2"
  unfolding extends_def using configures_trans by blast

lemma extends_same: "cs_types s' = cs_types s \<Longrightarrow> cs_calls s' = cs_calls s \<Longrightarrow> extends lib s s'"
  unfolding extends_def using configures_refl by blast

lemma bind_result: "Option.bind x (case_sum (\<lambda>e. Some (Inl e)) g) = Some (Inr y) \<longleftrightarrow> (\<exists>q. x = Some (Inr q) \<and> g q = Some (Inr y))"
proof (cases x)
  case (Some r)
  then show ?thesis by (cases r) auto
qed simp

lemma each_Cons: "each f (x # xs) s = Some (Inr (b, s')) \<longleftrightarrow>
    (\<exists>b1 s1. f x s = Some (Inr (b1, s1)) \<and> (if b1 then each f xs s1 = Some (Inr (b, s')) else \<not> b \<and> s' = s1))"
proof (cases "f x s")
  case (Some r)
  show ?thesis
  proof (cases r)
    case (Inr q)
    obtain b1 s1 where "q = (b1, s1)" by (cases q)
    then show ?thesis using Some Inr by auto
  qed (use Some in simp)
qed simp

declare each.simps(2) [simp del]

lemma each_extends:
  assumes "each f xs s = Some (Inr (b, s'))"
    and "\<And>x s b s'. x \<in> set xs \<Longrightarrow> f x s = Some (Inr (b, s')) \<Longrightarrow> extends lib (g s) (g s')"
  shows "extends lib (g s) (g s')"
  using assms
proof (induction xs arbitrary: s)
  case Nil
  then show ?case by (simp add: extends_same)
next
  case (Cons x xs)
  then obtain b1 s1 where q: "f x s = Some (Inr (b1, s1))" "if b1 then each f xs s1 = Some (Inr (b, s')) else \<not> b \<and> s' = s1"
    unfolding each_Cons by blast
  have one: "extends lib (g s) (g s1)" using Cons.prems(2) [of x s b1 s1] q(1) by simp
  show ?case
  proof (cases b1)
    case True
    then have "each f xs s1 = Some (Inr (b, s'))" using q(2) by simp
    then have "extends lib (g s1) (g s')" by (rule Cons.IH) (rule Cons.prems(2), simp_all)
    then show ?thesis using one extends_trans by blast
  qed (use q(2) one in simp)
qed

lemma add_node_same: "add_node kind e parent prov s = Some (n, s') \<Longrightarrow> cs_types s' = cs_types s \<and> cs_calls s' = cs_calls s"
  by (auto simp: add_node_def)

lemma fill_list_same: "fill_list m s = Some s' \<Longrightarrow> cs_types s' = cs_types s \<and> cs_calls s' = cs_calls s"
  by (auto simp: fill_list_def bind_eq_Some_conv split: option.splits)

lemma take_child_same:
  assumes "take_child lib requests e nc sc = Some (Inr (b, sc'))"
  shows "fst sc' = fst sc"
  using assms unfolding take_child_def
proof (induction requests arbitrary: sc)
  case (Cons crp requests)
  then show ?case by (cases sc) (auto simp: each_Cons bind_eq_Some_conv split: if_splits)
qed simp

lemma cfg_has_set: "cfg_has k (cfg_set k' v c) \<longleftrightarrow> k = k' \<or> cfg_has k c"
proof -
  have "fst ` set (cfg_set k' v c) = insert k' (fst ` set c)" 
  proof (induction c)
    case (Cons kv c)
    then show ?case by (cases kv) (simp add: insert_commute)
  qed simp
  then show ?thesis by (simp add: cfg_has_def)
qed

lemma take_default_step:
  assumes "take_default supp oc crp sc = Some (Inr (b, sc'))"
  shows "cs_types (fst sc') = cs_types (fst sc) \<and> cs_calls (fst sc') = cs_calls (fst sc) \<and>
    (\<forall>k. cfg_has k (snd sc) \<longrightarrow> cfg_has k (snd sc')) \<and> (b \<and> cr_mutability crp \<noteq> MProvided \<longrightarrow> cfg_has (cr_name crp) (snd sc'))"
  using assms add_node_same unfolding take_default_def Let_def
  by (cases sc) (auto simp: cfg_has_set bind_eq_Some_conv split: if_splits)

lemma take_defaults_complete:
  assumes "take_defaults requests supp oc sc = Some (Inr (b, sc'))"
  shows "cs_types (fst sc') = cs_types (fst sc) \<and> cs_calls (fst sc') = cs_calls (fst sc) \<and>
    (\<forall>k. cfg_has k (snd sc) \<longrightarrow> cfg_has k (snd sc')) \<and>
    (b \<longrightarrow> (\<forall>crp \<in> set requests. cr_mutability crp \<noteq> MProvided \<longrightarrow> cfg_has (cr_name crp) (snd sc')))"
  using assms unfolding take_defaults_def
proof (induction requests arbitrary: sc)
  case (Cons crp requests)
  then obtain b1 sc1 where step: "take_default supp oc crp sc = Some (Inr (b1, sc1))"
    "if b1 then each (take_default supp oc) requests sc1 = Some (Inr (b, sc')) else \<not> b \<and> sc' = sc1"
    unfolding each_Cons by blast
  show ?case
  proof (cases b1)
    case True
    then have "each (take_default supp oc) requests sc1 = Some (Inr (b, sc'))" using step(2) by simp
    from Cons.IH [OF this] take_default_step [OF step(1)] True show ?thesis by simp
  qed (use step(2) take_default_step [OF step(1)] in simp)
qed simp

lemma take_provided_same:
  assumes "take_provided lib requests oc ob config s = Some (Inr (b, s'))"
  shows "cs_types s' = cs_types s \<and> cs_calls s' = cs_calls s"
  using assms unfolding take_provided_def
proof (induction requests arbitrary: s)
  case (Cons crp requests)
  then obtain b1 s1 where step: "provide lib oc ob config crp s = Some (Inr (b1, s1))"
    "if b1 then each (provide lib oc ob config) requests s1 = Some (Inr (b, s')) else \<not> b \<and> s' = s1"
    unfolding each_Cons by blast
  have "cs_types s1 = cs_types s \<and> cs_calls s1 = cs_calls s"
    using step(1) add_node_same unfolding provide_def by (auto split: if_splits option.splits)
  then show ?case using step(2) Cons.IH [of s1] by (simp split: if_splits)
qed simp

text \<open>The end of an instantiation: the configuration is the only call it adds.\<close>

lemma finish_object_configures:
  assumes "finish_object lib cl supp m j sc = Some (Inr (r, s'))" "lib_class lib ty = Some cl"
  shows "cs_types s' = cs_types (fst sc) \<and>
    (r = None \<and> cs_calls s' = cs_calls (fst sc) \<or>
     r = Some m \<and> (\<exists>config. cs_calls s' = cs_calls (fst sc) @ [(Own j, Configured config)] \<and> complete_for lib ty config))"
proof -
  obtain ok s1 config where d: "take_defaults (cl_request cl) supp m sc = Some (Inr (ok, s1, config))"
    using assms(1) unfolding finish_object_def bind_result by auto
  note dd = take_defaults_complete [OF d]
  show ?thesis
  proof (cases ok)
    case False
    then show ?thesis using assms(1) d dd by (auto simp: finish_object_def)
  next
    case True
    then have comp: "complete_for lib ty config" using dd assms(2) by (simp add: complete_for_def)
    let ?s = "s1\<lparr>cs_calls := cs_calls s1 @ [(Own j, Configured config)]\<rparr>"
    obtain config' where c: "cl_configure cl config = Some config'"
      using assms(1) True d by (cases "cl_configure cl config") (auto simp: finish_object_def)
    obtain b where p: "take_provided lib (cl_request cl) m j config' ?s = Some (Inr (b, s'))" "r = Some m"
      using assms(1) True d c by (auto simp: finish_object_def bind_result)
    from take_provided_same [OF p(1)] p(2) dd comp show ?thesis by simp
  qed
qed

lemma each_same_state:
  assumes "take_child lib requests e nc sc = Some (Inr (b, sc'))"
  shows "extends lib (fst sc) (fst sc')"
  using take_child_same [OF assms] by (simp add: extends_same)

text \<open>One child of an object.\<close>

lemma object_child:
  assumes "(if is_provided (cs_tree (fst sc)) j then Some (Inr (True, sc))
      else do {
        r \<leftarrow> go lib j [] (Some k) (fst sc);
        case r of Inl e \<Rightarrow> Some (Inl e)
        | Inr q \<Rightarrow>
            (case fst q of
               None \<Rightarrow> Some (Inr (False, snd q, snd sc))
             | Some nc \<Rightarrow> do {
                 _ \<leftarrow> node_str lib (cs_tree (snd q)) nc;
                 e \<leftarrow> element_of (cs_tree (snd q)) j;
                 take_child lib requests e nc (snd q, snd sc) }) }) = Some (Inr (b, sc') :: cfg_error + bool \<times> cstate \<times> config)"
    and IH: "\<And>lib n supp np s r. go lib n supp np s = Some r \<Longrightarrow> \<forall>m s'. r = Inr (m, s') \<longrightarrow> extends lib s s'"
  shows "extends lib (fst sc) (fst sc')"
proof (cases "is_provided (cs_tree (fst sc)) j")
  case True
  then show ?thesis using assms(1) by (simp add: extends_same)
next
  case False
  then obtain q where q: "go lib j [] (Some k) (fst sc) = Some (Inr q)"
    "(case fst q of
        None \<Rightarrow> Some (Inr (False, snd q, snd sc))
      | Some nc \<Rightarrow> do {
          _ \<leftarrow> node_str lib (cs_tree (snd q)) nc;
          e \<leftarrow> element_of (cs_tree (snd q)) j;
          take_child lib requests e nc (snd q, snd sc) }) = Some (Inr (b, sc'))"
    using assms(1) by (simp only: bind_result if_False) blast
  have one: "extends lib (fst sc) (snd q)" using IH [OF q(1)] by (cases q) auto
  show ?thesis
  proof (cases "fst q")
    case None
    then show ?thesis using q(2) one by auto
  next
    case (Some nc)
    then obtain e where "take_child lib requests e nc (snd q, snd sc) = Some (Inr (b, sc'))"
      using q(2) by (auto simp: bind_eq_Some_conv)
    then have "extends lib (snd q) (fst sc')" using each_same_state by fastforce
    then show ?thesis using one extends_trans by blast
  qed
qed

text \<open>What an object adds: itself, what its children added, and perhaps its own configuration.\<close>

lemma configures_object:
  assumes "configures lib s2 s3 new" "cs_types s2 = cs_types s @ [ty]" "cs_calls s2 = cs_calls s"
  shows "configures lib s s3 new"
    and "cs_types s' = cs_types s3 \<Longrightarrow> cs_calls s' = cs_calls s3 @ [(Own (length (cs_types s)), Configured config)] \<Longrightarrow>
      complete_for lib ty config \<Longrightarrow> configures lib s s' (new @ [(Own (length (cs_types s)), Configured config)])"
    and "cs_types s' = cs_types s3 \<Longrightarrow> cs_calls s' = cs_calls s3 \<Longrightarrow> configures lib s s' new"
proof -
  let ?j = "length (cs_types s)"
  have pre: "prefix (cs_types s @ [ty]) (cs_types s3)" using assms(1,2) by (simp add: configures_def)
  then have pre': "prefix (cs_types s) (cs_types s3)" by (rule append_prefixD)
  have j: "?j < length (cs_types s3)" "cs_types s3 ! ?j = ty"
    using prefix_length_le [OF pre] prefix_nth [OF pre, of ?j] by auto
  have el: "\<exists>i config. oc = (Own i, Configured config) \<and> Suc ?j \<le> i \<and> i < length (cs_types s3) \<and>
      complete_for lib (cs_types s3 ! i) config" if "oc \<in> set new" for oc
    using assms(1,2) that unfolding configures_def by fastforce
  then have el': "\<exists>i config. oc = (Own i, Configured config) \<and> ?j \<le> i \<and> i < length (cs_types s3) \<and>
      complete_for lib (cs_types s3 ! i) config" if "oc \<in> set new" for oc
    using that by (meson Suc_leD)
  have dist: "distinct (map fst new)" "cs_calls s3 = cs_calls s @ new" using assms(1,3) by (simp_all add: configures_def)
  have "Own ?j \<notin> set (map fst new)" using el by fastforce
  then show "configures lib s s' (new @ [(Own ?j, Configured config)])"
    if "cs_types s' = cs_types s3" "cs_calls s' = cs_calls s3 @ [(Own ?j, Configured config)]" "complete_for lib ty config"
    using that pre' el' dist j unfolding configures_def by auto
  show "configures lib s s3 new" using pre' el' dist unfolding configures_def by blast
  then show "configures lib s s' new" if "cs_types s' = cs_types s3" "cs_calls s' = cs_calls s3"
    using that unfolding configures_def by simp
qed

text \<open>An object: with what its children added; its own configuration is the last.\<close>

lemma instantiate_object:
  assumes body: "(do {
      (m, s) \<leftarrow> add_node (Obj ty None) e parent False s;
      case lib_class lib ty of
        None \<Rightarrow> Some (Inr (None, s))
      | Some cl \<Rightarrow>
          let j = length (cs_types s);
              s = s\<lparr>cs_types := cs_types s @ [ty], cs_tree := set_object m (Own j) (cs_tree s)\<rparr>
          in do {
            r \<leftarrow> each (\<lambda>k sc.
              if is_provided (cs_tree (fst sc)) k then Some (Inr (True, sc))
              else do {
                r \<leftarrow> go lib k [] (Some m) (fst sc);
                case r of Inl e \<Rightarrow> Some (Inl e)
                | Inr q \<Rightarrow>
                    (case fst q of
                       None \<Rightarrow> Some (Inr (False, snd q, snd sc))
                     | Some nc \<Rightarrow> do {
                         _ \<leftarrow> node_str lib (cs_tree (snd q)) nc;
                         e \<leftarrow> element_of (cs_tree (snd q)) k;
                         take_child lib (cl_request cl) e nc (snd q, snd sc) }) }) kids (s, []);
            case r of Inl e \<Rightarrow> Some (Inl e)
            | Inr q \<Rightarrow>
                if \<not> fst q then Some (Inr (None, fst (snd q)))
                else finish_object lib cl supp m j (snd q) } }) = Some (Inr (m, s'))"
    and IH: "\<And>lib n supp np s r. go lib n supp np s = Some r \<Longrightarrow> \<forall>m s'. r = Inr (m, s') \<longrightarrow> extends lib s s'"
  shows "\<exists>new. configures lib s s' new \<and>
    (m \<noteq> None \<longrightarrow> (\<exists>kids config. new = kids @ [(Own (length (cs_types s)), Configured config)]))"
proof -
  obtain k s1 where k: "add_node (Obj ty None) e parent False s = Some (k, s1)"
    using body by (auto simp: bind_eq_Some_conv)
  note same = add_node_same [OF k]
  show ?thesis
  proof (cases "lib_class lib ty")
    case None
    then have "s' = s1 \<and> m = None" using body k by simp
    then show ?thesis using same configures_refl by blast
  next
    case (Some cl)
    define s2 where "s2 = s1\<lparr>cs_types := cs_types s1 @ [ty], cs_tree := set_object k (Own (length (cs_types s1))) (cs_tree s1)\<rparr>"
    let ?f = "\<lambda>j sc. if is_provided (cs_tree (fst sc)) j then Some (Inr (True, sc))
      else do {
        r \<leftarrow> go lib j [] (Some k) (fst sc);
        case r of Inl e \<Rightarrow> Some (Inl e)
        | Inr q \<Rightarrow>
            (case fst q of
               None \<Rightarrow> Some (Inr (False, snd q, snd sc))
             | Some nc \<Rightarrow> do {
                 _ \<leftarrow> node_str lib (cs_tree (snd q)) nc;
                 e \<leftarrow> element_of (cs_tree (snd q)) j;
                 take_child lib (cl_request cl) e nc (snd q, snd sc) }) }"
    obtain b s3 config where each: "each ?f kids (s2, []) = Some (Inr (b, s3, config))"
      "if b then finish_object lib cl supp k (length (cs_types s)) (s3, config) = Some (Inr (m, s')) else m = None \<and> s' = s3"
      using body k Some same by (auto simp: bind_result Let_def s2_def simp del: not_None_eq split: if_split_asm)
    have "extends lib (fst (s2, [] :: Configuring.config)) (fst (s3, config))"
    proof (rule each_extends [OF each(1), of lib fst])
      fix j sc b sc'
      assume "?f j sc = Some (Inr (b, sc'))"
      then show "extends lib (fst sc) (fst sc')"
        by (rule object_child [where go = go]) (use IH in blast)+
    qed
    then obtain new where new: "configures lib s2 s3 new" unfolding extends_def by auto
    have types: "cs_types s2 = cs_types s @ [ty]" "cs_calls s2 = cs_calls s" using same by (simp_all add: s2_def)
    show ?thesis
    proof (cases b)
      case False
      then show ?thesis using each(2) configures_object(1) [OF new types] by auto
    next
      case True
      then have fin: "finish_object lib cl supp k (length (cs_types s)) (s3, config) = Some (Inr (m, s'))" using each(2) by simp
      show ?thesis using finish_object_configures [OF fin Some] configures_object [OF new types] by auto
    qed
  qed
qed

lemma instantiate_extends:
  assumes "instantiate lib n supp np s = Some r"
  shows "\<forall>m s'. r = Inr (m, s') \<longrightarrow> extends lib s s'"
proof (rule instantiate.raw_induct [where P = "\<lambda>lib n supp np s r. \<forall>m s'. r = Inr (m, s') \<longrightarrow> extends lib s s'", OF _ assms], goal_cases)
  case (1 go lib n supp np s r)
  note IH = 1(1) and body = 1(2)
  obtain c where c: "ct_node (cs_tree s) n = Some c" using body by (cases "ct_node (cs_tree s) n") auto
  have child: "extends lib s s'" if "(do { r \<leftarrow> go lib k [] (Some m) s;
      case r of Inl e \<Rightarrow> Some (Inl e) | Inr q \<Rightarrow> Some (Inr (fst q \<noteq> None, snd q)) }) = Some (Inr (b, s') :: cfg_error + bool \<times> cstate)" for k m s b s'
    using that IH [of lib k "[]" "Some m" s] unfolding bind_result by auto
  show ?case
  proof (intro allI impI)
    fix m s' assume r: "r = Inr (m, s')"
    show "extends lib s s'"
    proof (cases "cn_kind c")
      case Plain
      obtain k s1 where k: "add_node Plain (cn_element c) (if np = None then cn_parent c else np) False s = Some (k, s1)"
        using body c r Plain by (auto simp: bind_eq_Some_conv split: if_split_asm)
      obtain b where "each (\<lambda>j s. if is_provided (cs_tree s) j then Some (Inr (True, s))
          else do { r \<leftarrow> go lib j [] (Some k) s;
            case r of Inl e \<Rightarrow> Some (Inl e) | Inr q \<Rightarrow> Some (Inr (fst q \<noteq> None, snd q)) }) (cn_children c) s1 = Some (Inr (b, s'))"
        using body c r Plain k by (auto simp: bind_result split: if_split_asm)
      from each_extends [OF this, of lib "\<lambda>x. x"] have "extends lib s1 s'"
        using child extends_same by (fastforce split: if_split_asm)
      then show ?thesis using extends_same extends_trans add_node_same [OF k] by blast
    next
      case (CList os)
      obtain k s1 where k: "add_node (CList []) (cn_element c) (if np = None then cn_parent c else np) False s = Some (k, s1)"
        using body c r CList by (auto simp: bind_eq_Some_conv)
      obtain b s2 where each: "each (\<lambda>j s. do { r \<leftarrow> go lib j [] (Some k) s;
            case r of Inl e \<Rightarrow> Some (Inl e) | Inr q \<Rightarrow> Some (Inr (fst q \<noteq> None, snd q)) }) (cn_children c) s1 = Some (Inr (b, s2))"
        "if b then fill_list k s2 = Some s' else s' = s2"
        using body c r CList k by (cases "np = None") (auto simp: bind_result simp del: not_None_eq split: if_split_asm)
      from each_extends [OF each(1), of lib "\<lambda>x. x"] have "extends lib s1 s2" using child by blast
      moreover have "extends lib s2 s'" using each(2) fill_list_same extends_same by (cases b) auto
      ultimately show ?thesis using extends_same extends_trans add_node_same [OF k] by blast
    next
      case (CRef ref p)
      then have "s' = s \<or> (\<exists>kind e q k. add_node kind e q False s = Some (k, s'))"
        using body c r by (auto simp: bind_eq_Some_conv split: option.split_asm if_split_asm)
      then show ?thesis using extends_same add_node_same by metis
    next
      case (Param v)
      then have "\<exists>kind e q k. add_node kind e q False s = Some (k, s')"
        using body c r by (auto simp: bind_eq_Some_conv Let_def split: option.split_asm if_split_asm)
      then show ?thesis using extends_same add_node_same by metis
    next
      case (Obj ty ob)
      have "\<exists>new. configures lib s s' new \<and>
        (m \<noteq> None \<longrightarrow> (\<exists>kids config. new = kids @ [(Own (length (cs_types s)), Configured config)]))"
      proof (rule instantiate_object [where go = go and lib = lib and supp = supp and kids = "cn_children c" and ty = ty and
            e = "cn_element c" and parent = "if np = None then cn_parent c else np"], goal_cases)
        case 1
        show ?case using body unfolding c option.case Let_def Obj ckind.case r
          by (cases "np = None") (simp_all split: if_split_asm del: not_None_eq)
      next
        case (2 lib n supp np s r)
        then show ?case by (rule IH)
      qed
      then show ?thesis unfolding extends_def by blast
    qed
  qed
qed

lemmas instantiate_adds = instantiate_extends [unfolded extends_def, rule_format]

text \<open>C8: an instantiation, whether it succeeds or gives up, configures each object it creates at most once and no other
  object, and with a value for every parameter that the class of the object requests.\<close>

theorem instantiate_configures_completely:
  assumes "instantiate lib n supp np s = Some (Inr (m, s'))"
  shows "\<exists>new. cs_calls s' = cs_calls s @ new \<and> distinct (map fst new) \<and>
    (\<forall>oc \<in> set new. \<exists>i config. oc = (Own i, Configured config) \<and> length (cs_types s) \<le> i \<and> i < length (cs_types s') \<and>
       (\<forall>cl. lib_class lib (cs_types s' ! i) = Some cl \<longrightarrow>
         (\<forall>crp \<in> set (cl_request cl). cr_mutability crp \<noteq> MProvided \<longrightarrow> cfg_has (cr_name crp) config)))"
  using instantiate_adds [OF assms] unfolding configures_def complete_for_def by blast

text \<open>an object is created before the objects below it and configured after them: when the instantiation of a template
  succeeds, the call of \<open>configure\<close> on its own object is the last one, and all objects that were configured
  before it have a higher number.\<close>

theorem object_configured_last:
  assumes "ct_node (cs_tree s) n = Some c" "cn_kind c = Obj ty ob" "instantiate lib n supp np s = Some (Inr (Some m, s'))"
  shows "\<exists>kids config. cs_calls s' = cs_calls s @ kids @ [(Own (length (cs_types s)), Configured config)] \<and>
    (\<forall>oc \<in> set kids. \<exists>i. fst oc = Own i \<and> length (cs_types s) < i)"
proof -
  have "\<exists>new. configures lib s s' new \<and>
    (Some m \<noteq> None \<longrightarrow> (\<exists>kids config. new = kids @ [(Own (length (cs_types s)), Configured config)]))"
  proof (rule instantiate_object [where go = instantiate and lib = lib and supp = supp and kids = "cn_children c" and ty = ty and
        e = "cn_element c" and parent = "if np = None then cn_parent c else np"], goal_cases)
    case 1
    show ?case using assms(3) unfolding instantiate.simps [of lib n] assms(1) option.case Let_def assms(2) ckind.case
      by (cases "np = None") (simp_all split: if_split_asm del: not_None_eq)
  next
    case (2 lib n supp np s r)
    then show ?case by (rule instantiate_extends)
  qed
  then obtain new where new: "configures lib s s' new" "\<exists>kids config. new = kids @ [(Own (length (cs_types s)), Configured config)]"
    by blast
  then obtain kids config where kids: "new = kids @ [(Own (length (cs_types s)), Configured config)]" by blast
  have "\<exists>i. fst oc = Own i \<and> length (cs_types s) < i" if oc: "oc \<in> set kids" for oc
  proof -
    obtain i config' where i: "oc = (Own i, Configured config')" "length (cs_types s) \<le> i"
      using new(1) oc unfolding configures_def kids by auto
    have "distinct (map fst new)" using new(1) by (simp add: configures_def)
    then have "i \<noteq> length (cs_types s)" using i(1) oc unfolding kids by force
    then show ?thesis using i by simp
  qed
  then show ?thesis using new(1) unfolding kids configures_def by blast
qed

text \<open>An experiment with an agent, in a library where experiments request both.\<close>

definition request :: "string \<Rightarrow> string \<Rightarrow> bool \<Rightarrow> crp" where
  "request name ty opt = \<lparr>cr_name = name, cr_type = ty, cr_value = ''9'', cr_mutability = MSystem, cr_min = 0, cr_max = 0,
     cr_options = [], cr_optional = opt\<rparr>"

definition small_lib :: cfg_lib where
  "small_lib = \<lparr>lib_class = [''experiment/online'' \<mapsto> \<lparr>cl_request = [request ''agent'' ''agent'' False, request ''runs'' ''int'' True], cl_configure = Some\<rparr>,
       ''agent/td'' \<mapsto> \<lparr>cl_request = [], cl_configure = Some\<rparr>],
     lib_rd = \<lambda>_. None, lib_shw = \<lambda>_. [], lib_int = \<lambda>_. None, lib_double = \<lambda>_. None, lib_vector = \<lambda>_. False, lib_type = \<lambda>_. [],
     lib_ptr = \<lambda>_. ''p'', lib_list_ptr = \<lambda>_. [], lib_unptr = \<lambda>_. None\<rparr>"

definition small_state :: cstate where
  "small_state = \<lparr>cs_tree = \<lparr>ct_node = [
     0 \<mapsto> \<lparr>cn_parent = None, cn_element = [], cn_children = [1], cn_provided = False, cn_kind = Plain\<rparr>,
     1 \<mapsto> \<lparr>cn_parent = Some 0, cn_element = ''experiment'', cn_children = [2], cn_provided = False, cn_kind = Obj ''experiment/online'' None\<rparr>,
     2 \<mapsto> \<lparr>cn_parent = Some 1, cn_element = ''agent'', cn_children = [], cn_provided = False, cn_kind = Obj ''agent/td'' None\<rparr>],
     ct_next = 3\<rparr>, cs_types = [], cs_calls = []\<rparr>"

lemmas run_defs = each.simps add_node_def new_node_def graft_def put_node_def element_of_def is_provided_def set_object_def Let_def
  finish_object_def take_defaults_def take_default_def take_provided_def provide_def take_child_def cfg_has_def
  type_of_object_def subclass_of_def split_type_def

lemma node_str_object: "ct_node t n = Some c \<Longrightarrow> cn_kind c = Obj ty ob \<Longrightarrow> node_str lib t n = Some (lib_ptr lib ob)"
  unfolding node_str_def by (subst str_of.simps) simp

lemma validate_object: "ct_node t n = Some c \<Longrightarrow> cn_kind c = Obj ty (Some j) \<Longrightarrow>
    validate lib types t n crp = Some (subclass_of (types j) (fst (split_type (cr_type crp))))"
  by (subst validate.simps) simp

lemma small_instance: "\<exists>s'. instantiate small_lib 1 [] None small_state = Some (Inr (Some 3, s')) \<and> cs_types s' = [''experiment/online'', ''agent/td''] \<and>
  cs_calls s' = [(Own 1, Configured []), (Own 0, Configured [(''agent'', ''p''), (''runs'', ''9'')])]"
proof -
  have cls: "lib_class small_lib ''experiment/online'' = Some \<lparr>cl_request = [request ''agent'' ''agent'' False, request ''runs'' ''int'' True], cl_configure = Some\<rparr>"
    "lib_class small_lib ''agent/td'' = Some \<lparr>cl_request = [], cl_configure = Some\<rparr>" "lib_ptr small_lib ob = ''p''" for ob
    by (simp_all add: small_lib_def)
  show ?thesis
    apply (subst instantiate.simps)
    apply (simp add: cls small_state_def run_defs del: One_nat_def)
    apply (subst instantiate.simps)
    apply (simp add: cls run_defs node_str_object validate_object request_def)
    done
qed

theorem instantiate_configures_completely_witness:
  "\<exists>s' new. instantiate small_lib 1 [] None small_state = Some (Inr (Some 3, s')) \<and> cs_calls s' = new \<and> length new = 2 \<and>
     distinct (map fst new)"
proof -
  obtain s' where s': "instantiate small_lib 1 [] None small_state = Some (Inr (Some 3, s'))"
      "cs_calls s' = [(Own 1, Configured []), (Own 0, Configured [(''agent'', ''p''), (''runs'', ''9'')])]"
    using small_instance by blast
  from instantiate_configures_completely [OF s'(1)] have "distinct (map fst (cs_calls s'))" by (auto simp: small_state_def)
  then show ?thesis using s' by simp
qed

theorem object_configured_last_witness:
  "\<exists>s' kids config. instantiate small_lib 1 [] None small_state = Some (Inr (Some 3, s')) \<and>
     cs_calls s' = kids @ [(Own 0, Configured config)] \<and> length kids = 1"
proof -
  obtain s' where s': "instantiate small_lib 1 [] None small_state = Some (Inr (Some 3, s'))"
      "cs_calls s' = [(Own 1, Configured []), (Own 0, Configured [(''agent'', ''p''), (''runs'', ''9'')])]"
    using small_instance by blast
  have "\<exists>c. ct_node (cs_tree small_state) 1 = Some c \<and> cn_kind c = Obj ''experiment/online'' None" by (simp add: small_state_def)
  then obtain c where "ct_node (cs_tree small_state) 1 = Some c" "cn_kind c = Obj ''experiment/online'' None" by blast
  from object_configured_last [OF this s'(1)] obtain kids config where
    "cs_calls s' = kids @ [(Own 0, Configured config)]" by (auto simp: small_state_def)
  then show ?thesis using s' by auto
qed

section \<open>Reset\<close>

text \<open>What a node leads to: its children, the target of a reference or of a parameter that names a node, a plain value, or
  nothing where the target is a node that the reference lies below.\<close>

datatype reach = RNode nat "reach list" | RAlias nat reach | RValue nat | RCut nat

primrec top_of :: "reach \<Rightarrow> nat" where
  "top_of (RNode n rs) = n"
| "top_of (RAlias n r) = n"
| "top_of (RValue n) = n"
| "top_of (RCut n) = n"

definition leads_to :: "ctree \<Rightarrow> nat \<Rightarrow> nat option option" where
  "leads_to t n =
     (case ct_node t n of
        None \<Rightarrow> None
      | Some c \<Rightarrow>
          (case cn_kind c of
             CRef r p \<Rightarrow> find_node True t r p
           | Param v \<Rightarrow> if v = [] then Some None else resolve t n v
           | _ \<Rightarrow> None))"

definition child_cut :: "ctree \<Rightarrow> nat \<Rightarrow> nat \<Rightarrow> bool option" where
  "child_cut t n k = do { child \<leftarrow> find_node True t k []; on_path t child n }"

primrec cut_free :: "reach \<Rightarrow> bool" where
  "cut_free (RNode n rs) \<longleftrightarrow> True"
| "cut_free (RAlias n r) \<longleftrightarrow> cut_free r"
| "cut_free (RValue n) \<longleftrightarrow> True"
| "cut_free (RCut n) \<longleftrightarrow> False"

primrec reaches :: "ctree \<Rightarrow> reach \<Rightarrow> bool" where
  "reaches t (RNode n rs) \<longleftrightarrow>
     (\<exists>c. ct_node t n = Some c \<and> (case cn_kind c of CRef r p \<Rightarrow> False | Param v \<Rightarrow> False | Obj ty ob \<Rightarrow> ob \<noteq> None | _ \<Rightarrow> True) \<and>
        cn_children c = map top_of rs \<and>
        list_all (\<lambda>r. child_cut t n (top_of r) = Some (case r of RCut _ \<Rightarrow> True | _ \<Rightarrow> False)) rs) \<and>
     list_all (\<lambda>r. r) (map (reaches t) rs)"
| "reaches t (RAlias n r) \<longleftrightarrow> leads_to t n = Some (Some (top_of r)) \<and> cut_free r \<and> reaches t r"
| "reaches t (RValue n) \<longleftrightarrow> leads_to t n = Some None"
| "reaches t (RCut n) \<longleftrightarrow> True"

text \<open>The objects reached, those below a node before its own.\<close>

primrec reached :: "ctree \<Rightarrow> reach \<Rightarrow> oid list" where
  "reached t (RNode n rs) = concat (map (reached t) rs) @
     (case ct_node t n of None \<Rightarrow> [] | Some c \<Rightarrow> (case cn_kind c of Obj ty (Some ob) \<Rightarrow> [ob] | _ \<Rightarrow> []))"
| "reached t (RAlias n r) = reached t r"
| "reached t (RValue n) = []"
| "reached t (RCut n) = []"

definition add_resets :: "config \<Rightarrow> oid list \<Rightarrow> cstate \<Rightarrow> cstate" where
  "add_resets config obs s = s\<lparr>cs_calls := cs_calls s @ map (\<lambda>ob. (ob, Reconfigured config)) obs\<rparr>"

lemma add_resets_more: "add_resets config obs' (add_resets config obs s) = add_resets config (obs @ obs') s" "add_resets config [] s = s"
  "cs_tree (add_resets config obs s) = cs_tree s"
  by (simp_all add: add_resets_def)

lemma reaches_cut: "reaches t r \<Longrightarrow> \<not> cut_free r \<Longrightarrow> \<exists>n. r = RCut n"
  by (cases r) auto

lemma each_child_reset:
  assumes "\<And>r s. r \<in> set rs \<Longrightarrow> cut_free r \<Longrightarrow> cs_tree s = t \<Longrightarrow>
      reconfigure lib config True (top_of r) s = Some (add_resets config (reached t r) s)"
    and "\<And>r. r \<in> set rs \<Longrightarrow> reaches t r"
    and "\<And>r. r \<in> set rs \<Longrightarrow> child_cut t n (top_of r) = Some (case r of RCut _ \<Rightarrow> True | _ \<Rightarrow> False)"
    and "cs_tree s = t"
  shows "each (\<lambda>k s. do {
      child \<leftarrow> find_node True (cs_tree s) k [];
      above \<leftarrow> on_path (cs_tree s) child n;
      if above then Some (Inr (True, s) :: cfg_error + bool \<times> cstate)
      else do { s \<leftarrow> reconfigure lib config True k s; Some (Inr (True, s)) } }) (map top_of rs) s =
    Some (Inr (True, add_resets config (concat (map (reached t) rs)) s))"
  using assms
proof (induction rs arbitrary: s)
  case Nil
  then show ?case by (simp add: add_resets_more)
next
  case (Cons r rs)
  have tree: "cs_tree (add_resets config (reached t r) s) = t" using Cons.prems(4) by (simp add: add_resets_more)
  have "child_cut t n (top_of r) = Some (case r of RCut _ \<Rightarrow> True | _ \<Rightarrow> False)" by (rule Cons.prems(3)) simp
  then obtain child where child: "find_node True t (top_of r) [] = Some child"
    "on_path t child n = Some (case r of RCut _ \<Rightarrow> True | _ \<Rightarrow> False)"
    unfolding child_cut_def by (auto simp: bind_eq_Some_conv)
  have rest: "each (\<lambda>k s. do {
      child \<leftarrow> find_node True (cs_tree s) k [];
      above \<leftarrow> on_path (cs_tree s) child n;
      if above then Some (Inr (True, s) :: cfg_error + bool \<times> cstate)
      else do { s \<leftarrow> reconfigure lib config True k s; Some (Inr (True, s)) } }) (map top_of rs) s' =
    Some (Inr (True, add_resets config (concat (map (reached t) rs)) s'))" if "cs_tree s' = t" for s'
    using Cons.prems(1-3) that by (intro Cons.IH) simp_all
  show ?case
  proof (cases "cut_free r")
    case True
    then have "(case r of RCut _ \<Rightarrow> True | _ \<Rightarrow> False) = False" by (cases r) auto
    then show ?thesis using child Cons.prems(1) [of r s] Cons.prems(4) True rest [OF tree]
      by (simp add: each.simps add_resets_more)
  next
    case False
    then obtain k where "r = RCut k" using reaches_cut Cons.prems(2) [of r] by auto
    then show ?thesis using child Cons.prems(4) rest [OF Cons.prems(4)] by (simp add: each.simps)
  qed
qed

lemma reconfigure_reaches:
  assumes "reaches (cs_tree s) r" "cut_free r" "cfg_has ''action'' config"
  shows "reconfigure lib config True (top_of r) s = Some (add_resets config (reached (cs_tree s) r) s)"
  using assms(1,2)
proof (induction r arbitrary: s)
  case (RNode n rs)
  let ?t = "cs_tree s" and ?below = "concat (map (reached (cs_tree s)) rs)"
  from RNode.prems(1) obtain c where c: "ct_node ?t n = Some c" "cn_children c = map top_of rs"
    "case cn_kind c of CRef r p \<Rightarrow> False | Param v \<Rightarrow> False | Obj ty ob \<Rightarrow> ob \<noteq> None | _ \<Rightarrow> True"
    and kids: "list_all (\<lambda>r. child_cut ?t n (top_of r) = Some (case r of RCut _ \<Rightarrow> True | _ \<Rightarrow> False)) rs"
      "list_all (\<lambda>r. r) (map (reaches ?t) rs)"
    unfolding reaches.simps by blast
  have "each (\<lambda>k s. do {
      child \<leftarrow> find_node True (cs_tree s) k [];
      above \<leftarrow> on_path (cs_tree s) child n;
      if above then Some (Inr (True, s) :: cfg_error + bool \<times> cstate)
      else do { s \<leftarrow> reconfigure lib config True k s; Some (Inr (True, s)) } }) (map top_of rs) s =
    Some (Inr (True, add_resets config ?below s))"
  proof (rule each_child_reset [where t = ?t])
    fix r and s' :: cstate assume r: "r \<in> set rs" "cut_free r" "cs_tree s' = cs_tree s"
    then have "reaches (cs_tree s') r" using kids(2) by (simp add: list_all_iff)
    then show "reconfigure lib config True (top_of r) s' = Some (add_resets config (reached (cs_tree s) r) s')"
      using RNode.IH [OF r(1) _ r(2)] r(3) by simp
  qed (use kids in \<open>auto simp: list_all_iff\<close>)
  then show ?case using c assms(3)
    by (subst reconfigure.simps) (auto simp: add_resets_def split: ckind.splits)
next
  case (RAlias n r)
  then show ?case 
    by (subst reconfigure.simps) (auto simp: leads_to_def split: option.splits ckind.splits if_splits)
next
  case (RValue n)
  then show ?case 
    by (subst reconfigure.simps) (auto simp: leads_to_def add_resets_more split: option.splits ckind.splits if_splits)
qed simp

text \<open>C9: a reset reaches every object that the node leads to: it returns whenever what the node leads to is finite, and has then
  told each object to reset once for each way it is reached, the objects below an object before it; a
  reference to a node that it lies below is not followed, and nothing else changes.\<close>

theorem reset_reaches_all:
  assumes "reaches (cs_tree s) r" "cut_free r"
  shows "cfg_reset lib (top_of r) s = Some (s\<lparr>cs_calls := cs_calls s @
    map (\<lambda>ob. (ob, Reconfigured [(''action'', ''reset'')])) (reached (cs_tree s) r)\<rparr>)"
  using reconfigure_reaches [OF assms, of "[(''action'', ''reset'')]" lib]
  by (simp add: cfg_reset_def cfg_has_def add_resets_def)

text \<open>An experiment whose agent refers to the environment, and whose environment refers to the experiment.\<close>

definition running_state :: cstate where
  "running_state = \<lparr>cs_tree = \<lparr>ct_node = [
     0 \<mapsto> \<lparr>cn_parent = None, cn_element = ''e'', cn_children = [1, 2], cn_provided = False, cn_kind = Obj ''experiment/online'' (Some (Own 0))\<rparr>,
     1 \<mapsto> \<lparr>cn_parent = Some 0, cn_element = ''env'', cn_children = [3], cn_provided = False, cn_kind = Obj ''environment/x'' (Some (Own 1))\<rparr>,
     2 \<mapsto> \<lparr>cn_parent = Some 0, cn_element = ''agent'', cn_children = [4], cn_provided = False, cn_kind = Obj ''agent/td'' (Some (Own 2))\<rparr>,
     3 \<mapsto> \<lparr>cn_parent = Some 1, cn_element = ''up'', cn_children = [], cn_provided = False, cn_kind = CRef 0 []\<rparr>,
     4 \<mapsto> \<lparr>cn_parent = Some 2, cn_element = ''world'', cn_children = [], cn_provided = False, cn_kind = CRef 1 []\<rparr>],
     ct_next = 5\<rparr>, cs_types = [], cs_calls = []\<rparr>"

definition running_reach :: reach where
  "running_reach = RNode 0 [RNode 1 [RCut 3], RNode 2 [RAlias 4 (RNode 1 [RCut 3])]]"

lemma running_reaches: "reaches (cs_tree running_state) running_reach"
proof -
  define t where "t = cs_tree running_state"
  have nodes: "ct_node t 0 = Some \<lparr>cn_parent = None, cn_element = ''e'', cn_children = [1, 2], cn_provided = False, cn_kind = Obj ''experiment/online'' (Some (Own 0))\<rparr>"
    "ct_node t 1 = Some \<lparr>cn_parent = Some 0, cn_element = ''env'', cn_children = [3], cn_provided = False, cn_kind = Obj ''environment/x'' (Some (Own 1))\<rparr>"
    "ct_node t 2 = Some \<lparr>cn_parent = Some 0, cn_element = ''agent'', cn_children = [4], cn_provided = False, cn_kind = Obj ''agent/td'' (Some (Own 2))\<rparr>"
    "ct_node t 3 = Some \<lparr>cn_parent = Some 1, cn_element = ''up'', cn_children = [], cn_provided = False, cn_kind = CRef 0 []\<rparr>"
    "ct_node t 4 = Some \<lparr>cn_parent = Some 2, cn_element = ''world'', cn_children = [], cn_provided = False, cn_kind = CRef 1 []\<rparr>"
    by (simp_all add: t_def running_state_def)
  have solid: "solid t 0" "solid t 1" "solid t 2" using nodes by (simp_all add: solid_def)
  have here: "find_node True t n [] = Some (Some n)" if "n \<in> {0, 1, 2}" for n
    using that solid nodes find_here by (auto simp: find_solid)
  have "find_node True t 3 [] = find_node True t 0 []" "find_node True t 4 [] = find_node True t 1 []"
    by (subst find_node.simps; simp add: nodes)+
  then have found: "find_node True t 3 [] = Some (Some 0)" "find_node True t 4 [] = Some (Some 1)" using here by simp_all
  have p0: "on_path t (Some k) 0 = Some (k = 0)" for k by (subst on_path.simps) (simp add: nodes)
  have p1: "on_path t (Some k) 1 = Some (k = 1 \<or> k = 0)" for k by (subst on_path.simps) (auto simp: nodes p0 simp del: One_nat_def)
  have p2: "on_path t (Some k) 2 = Some (k = 2 \<or> k = 0)" for k by (subst on_path.simps) (auto simp: nodes p0 simp del: One_nat_def)
  show ?thesis unfolding t_def [symmetric] running_reach_def
    using nodes found here p0 p1 p2 by (simp add: child_cut_def leads_to_def del: One_nat_def)
qed

theorem reset_reaches_all_witness:
  "\<exists>s'. cfg_reset small_lib 0 running_state = Some s' \<and> map fst (cs_calls s') = [Own 1, Own 1, Own 2, Own 0]"
  using reset_reaches_all [OF running_reaches, of small_lib]
  by (simp add: running_reach_def running_state_def)

end
