(* ===== verification/ConfigFileFacts.thy ===== *)
theory ConfigFileFacts
  imports ConfigFiles ConfigRuns
begin

text \<open>
  Facts about configuration files: loading a document keeps the tree of configurators well-formed and every node
  that was there, environment variables that are empty hide the next one, variables that contain themselves are
  replaced for ever, and the text of a tree without references is always found.
\<close>

section \<open>Environment variables\<close>

lemma resolve_env_step:
  assumes "CHR ''$'' \<notin> set mid" "length front = pos" "env_value yl fl rest = Some (v, rest')"
  shows "resolve_env yl fl (front @ mid @ CHR ''$'' # rest) pos = resolve_env yl fl (front @ mid @ v @ rest') (pos + length mid + 1)"
proof -
  have "takeWhile (\<lambda>c. c \<noteq> CHR ''$'') (mid @ CHR ''$'' # rest) = mid" "dropWhile (\<lambda>c. c \<noteq> CHR ''$'') (mid @ CHR ''$'' # rest) = CHR ''$'' # rest"
    using assms(1) by (simp_all add: takeWhile_append dropWhile_append takeWhile_eq_all_conv)
  then show ?thesis using assms(2,3) by (subst resolve_env.simps) (simp add: Let_def)
qed

lemma resolve_env_done:
  assumes "CHR ''$'' \<notin> set (drop pos value)"
  shows "resolve_env yl fl value pos = Some value"
proof -
  have "dropWhile (\<lambda>c. c \<noteq> CHR ''$'') (drop pos value) = []" using assms by auto
  then show ?thesis by (subst resolve_env.simps) (simp add: Let_def)
qed

definition var_name :: "string \<Rightarrow> bool" where
  "var_name v \<longleftrightarrow> v \<noteq> [] \<and> (is_alpha (hd v) \<or> hd v = CHR ''_'') \<and> list_all is_alnum (tl v)"

lemma env_value_name:
  assumes "var_name v" "rest = [] \<or> \<not> is_alnum (hd rest)"
  shows "env_value yl fl (v @ rest) = Some (case yl_env yl v of None \<Rightarrow> [] | Some s \<Rightarrow> s, rest)"
proof -
  obtain c cs where v: "v = c # cs" "is_alpha c \<or> c = CHR ''_''" "list_all is_alnum cs"
    using assms(1) by (cases v) (auto simp: var_name_def)
  have "takeWhile is_alnum (cs @ rest) = cs" "dropWhile is_alnum (cs @ rest) = rest"
    using v(3) assms(2) by (cases rest; auto simp: list_all_iff takeWhile_append dropWhile_append takeWhile_eq_all_conv)+
  moreover have "c \<noteq> CHR ''@''" using v(2) by (auto simp: is_alpha_def)
  ultimately show ?thesis using v(1,2) by (simp add: env_value_def)
qed

lemma not_alnum_dollar: "\<not> is_alnum CHR ''$''"
  by (simp add: is_alnum_def is_alpha_def is_digit_def)

text \<open>a reference to an environment variable is replaced by the value of the variable, if the value is not empty and has no
  dollar of its own and none follows; texts without a dollar are left alone.\<close>

theorem variable_replaced:
  assumes "var_name v" "yl_env yl v = Some s" "s \<noteq> []" "CHR ''$'' \<notin> set (front @ s @ rest)" "rest = [] \<or> \<not> is_alnum (hd rest)"
  shows "resolveEnv yl (front @ CHR ''$'' # v @ rest) fl = Some (front @ s @ rest)"
  using assms resolve_env_step [where mid = front and front = "[]" and pos = 0 and yl = yl and fl = fl and rest = "v @ rest" and v = s and rest' = rest] env_value_name [OF assms(1,5), of yl fl]
    resolve_env_done [of "length front + 1" "front @ s @ rest"]
  by (auto simp: resolveEnv_def dest: in_set_dropD)

text \<open>a variable that is empty or not set hides the reference that follows it: the text is taken as it stands.\<close>

theorem empty_variable_hides_next:
  assumes "var_name v" "yl_env yl v = None \<or> yl_env yl v = Some []" "CHR ''$'' \<notin> set (front @ rest)"
  shows "resolveEnv yl (front @ CHR ''$'' # v @ CHR ''$'' # rest) fl = Some (front @ CHR ''$'' # rest)"
  using assms resolve_env_step [where mid = front and front = "[]" and pos = 0 and yl = yl and fl = fl and rest = "v @ CHR ''$'' # rest" and v = "[]" and rest' = "CHR ''$'' # rest"]
    env_value_name [OF assms(1), of "CHR ''$'' # rest" yl fl] not_alnum_dollar
    resolve_env_done [of "length front + 1" "front @ CHR ''$'' # rest"]
  by (auto simp: resolveEnv_def)

text \<open>A reference at the end of the text, to a variable that ends with a reference to itself.\<close>

definition circular :: "yaml_lib \<Rightarrow> string \<Rightarrow> bool" where
  "circular yl v \<longleftrightarrow> var_name v \<and> (\<exists>c cs. yl_env yl v = Some (c # cs @ CHR ''$'' # v) \<and> CHR ''$'' \<notin> set cs)"

lemma resolve_circular:
  assumes "circular yl v"
  shows "resolve_env yl fl (front @ mid @ CHR ''$'' # v) (length front) = None \<or> CHR ''$'' \<in> set mid"
proof -
  have "\<forall>front mid. yl = yl0 \<and> pos = length front \<and> w = front @ mid @ CHR ''$'' # v \<and> CHR ''$'' \<notin> set mid \<longrightarrow> False"
    if run: "resolve_env yl fl w pos = Some y" and circ: "circular yl0 v" for yl yl0 fl w pos y
  proof (rule resolve_env.raw_induct [where P = "\<lambda>yl fl w pos y. \<forall>front mid. yl = yl0 \<and> pos = length front \<and>
      w = front @ mid @ CHR ''$'' # v \<and> CHR ''$'' \<notin> set mid \<longrightarrow> False", OF _ run], goal_cases)
    case (1 go yl fl w pos y)
    note IH = 1(1) and body = 1(2)
    show ?case
    proof (intro allI impI, elim conjE)
      fix front mid
      assume yl: "yl = yl0" and pos: "pos = length front" and w: "w = front @ mid @ CHR ''$'' # v" and mid: "CHR ''$'' \<notin> set mid"
      obtain c cs where c: "yl_env yl0 v = Some (c # cs @ CHR ''$'' # v)" "CHR ''$'' \<notin> set cs" "var_name v"
        using circ unfolding circular_def by blast
      have "takeWhile (\<lambda>c. c \<noteq> CHR ''$'') (mid @ CHR ''$'' # v) = mid" "dropWhile (\<lambda>c. c \<noteq> CHR ''$'') (mid @ CHR ''$'' # v) = CHR ''$'' # v"
        using mid by (simp_all add: takeWhile_append dropWhile_append takeWhile_eq_all_conv)
      moreover have "env_value yl0 fl v = Some (c # cs @ CHR ''$'' # v, [])"
        using env_value_name [OF c(3), of "[]" yl0 fl] c(1) by simp
      ultimately have "go yl0 fl (front @ mid @ c # cs @ CHR ''$'' # v) (length (front @ mid @ [c])) = Some y"
        using body yl pos w by (simp add: Let_def)
      from IH [OF this, rule_format, of "front @ mid @ [c]" cs] c(2) show False by simp
    qed
  qed
  then show ?thesis using assms by (cases "resolve_env yl fl (front @ mid @ CHR ''$'' # v) (length front)") blast+
qed

text \<open>a variable whose value ends with a reference to the variable itself, behind another character, is replaced for ever:
  loading a value that ends with it does not return.\<close>

theorem circular_variable_never_resolved:
  assumes "circular yl v" "CHR ''$'' \<notin> set mid"
  shows "resolveEnv yl (mid @ CHR ''$'' # v) fl = None"
  using resolve_circular [OF assms(1), of fl "[]" mid] assms(2) by (simp add: resolveEnv_def)

definition env_lib :: yaml_lib where
  "env_lib = \<lparr>yl_file = \<lambda>_. None, yl_parse = \<lambda>_. YNull, yl_number = \<lambda>_. False,
     yl_env = [''HOME'' \<mapsto> ''/root'', ''PATHS'' \<mapsto> '':$PATHS''], yl_types = [''agent/td'', ''agent/black_box/td'']\<rparr>"

lemma env_names: "var_name ''HOME''" "var_name ''PATHS''" "var_name ''_x''" "circular env_lib ''PATHS''"
  by (auto simp: var_name_def is_alpha_def is_alnum_def circular_def env_lib_def)

theorem variable_replaced_witness: "resolveEnv env_lib ''a$HOME/b'' f = Some ''a/root/b''"
  using variable_replaced [of "''HOME''" env_lib "''/root''" "''a''" "''/b''" f] env_names
  by (simp add: env_lib_def is_alnum_def is_alpha_def is_digit_def)

theorem empty_variable_hides_next_witness: "resolveEnv env_lib ''$_x$HOME'' [] = Some ''$HOME''"
  using empty_variable_hides_next [of "''_x''" env_lib "[]" "''HOME''" "[]"] env_names by (simp add: env_lib_def)

theorem circular_variable_never_resolved_witness: "resolveEnv env_lib ''a$PATHS'' [] = None"
  using circular_variable_never_resolved [OF env_names(4), of "''a''" "[]"] by simp

section \<open>Loading\<close>

text \<open>A tree grows when it stays well-formed and keeps its nodes.\<close>

definition grows :: "ctree \<Rightarrow> ctree \<Rightarrow> bool" where
  "grows t t' \<longleftrightarrow> tree_ok t' \<and> ct_next t \<le> ct_next t' \<and> (\<forall>m c. ct_node t m = Some c \<longrightarrow>
     (\<exists>d. ct_node t' m = Some d \<and> cn_parent d = cn_parent c \<and> cn_element d = cn_element c \<and> cn_kind d = cn_kind c))"

lemma grows_refl: "tree_ok t \<Longrightarrow> grows t t"
  by (simp add: grows_def)

lemma grows_keeps:
  assumes "grows t t'" "ct_node t m = Some c"
  obtains d where "ct_node t' m = Some d" "cn_parent d = cn_parent c" "cn_element d = cn_element c" "cn_kind d = cn_kind c"
  using assms unfolding grows_def by blast

lemma grows_trans:
  assumes "grows t u" "grows u v"
  shows "grows t v"
proof -
  have "\<exists>d. ct_node v m = Some d \<and> cn_parent d = cn_parent c \<and> cn_element d = cn_element c \<and> cn_kind d = cn_kind c"
    if m: "ct_node t m = Some c" for m c
  proof -
    obtain d where d: "ct_node u m = Some d" "cn_parent d = cn_parent c" "cn_element d = cn_element c" "cn_kind d = cn_kind c"
      using grows_keeps [OF assms(1) m] by blast
    obtain d' where "ct_node v m = Some d'" "cn_parent d' = cn_parent d" "cn_element d' = cn_element d" "cn_kind d' = cn_kind d"
      using grows_keeps [OF assms(2) d(1)] by blast
    then show ?thesis using d by simp
  qed
  then show ?thesis using assms unfolding grows_def by simp
qed

definition parent_in :: "nat option \<Rightarrow> ctree \<Rightarrow> bool" where
  "parent_in parent t \<longleftrightarrow> parent = None \<or> (\<exists>p c. parent = Some p \<and> ct_node t p = Some c)"

lemma parent_in_grows: "parent_in parent t \<Longrightarrow> grows t t' \<Longrightarrow> parent_in parent t'"
  unfolding parent_in_def grows_def by blast

lemma new_node_grows:
  assumes "tree_ok t" "parent_in parent t" "new_node kind e parent provided t = Some (n, t')"
  shows "grows t t' \<and> (\<exists>c. ct_node t' n = Some c)"
proof -
  have ok: "tree_ok t'" and n: "n = ct_next t"
    using new_node_ok [OF assms(1), of parent kind e provided] assms(2,3) by (auto simp: parent_in_def)
  have old: "m \<noteq> ct_next t" if "ct_node t m = Some c" for m c using tree_okD(1) [OF assms(1) that] by simp
  show ?thesis
  proof (cases parent)
    case None
    then have "t' = put_node n \<lparr>cn_parent = parent, cn_element = e, cn_children = [], cn_provided = provided, cn_kind = kind\<rparr> (t\<lparr>ct_next := n + 1\<rparr>)"
      using assms(3) by (auto simp: new_node_def Let_def)
    then show ?thesis using ok old n by (auto simp: grows_def put_node_def)
  next
    case (Some p)
    then obtain q where q: "ct_node t p = Some q" using assms(2) by (auto simp: parent_in_def)
    then have "p \<noteq> ct_next t" using old by blast
    let ?c = "\<lparr>cn_parent = parent, cn_element = e, cn_children = [], cn_provided = provided, cn_kind = kind\<rparr>"
    let ?t = "put_node (ct_next t) ?c (t\<lparr>ct_next := ct_next t + 1\<rparr>)"
    have keep: "put_node p q ?t = ?t" "put_node (ct_next t) ?c ?t = ?t"
      using q \<open>p \<noteq> ct_next t\<close> by (auto simp: put_node_def fun_eq_iff)
    have "\<exists>ks. t' = put_node p (q\<lparr>cn_children := ks\<rparr>) ?t"
    proof (cases "child_named ?t e (cn_children q)")
      case None
      then have "t' = put_node p (q\<lparr>cn_children := cn_children q @ [ct_next t]\<rparr>) ?t"
        using assms(3) Some q \<open>p \<noteq> ct_next t\<close> keep(2) by (auto simp: new_node_def graft_def Let_def put_node_def)
      then show ?thesis by blast
    next
      case (Some k)
      then have "t' = ?t"
        using assms(3) \<open>parent = Some p\<close> q \<open>p \<noteq> ct_next t\<close> keep(2) by (auto simp: new_node_def graft_def Let_def put_node_def)
      then have "t' = put_node p (q\<lparr>cn_children := cn_children q\<rparr>) ?t" using keep(1) by simp
      then show ?thesis by blast
    qed
    then obtain ks where "t' = put_node p (q\<lparr>cn_children := ks\<rparr>) ?t" by blast
    then have ks: "ct_node t' = (ct_node t)(ct_next t \<mapsto> ?c, p \<mapsto> q\<lparr>cn_children := ks\<rparr>)" "ct_next t' = ct_next t + 1"
      by (simp_all add: put_node_def)
    show ?thesis using ks ok old n q \<open>p \<noteq> ct_next t\<close> by (auto simp: grows_def)
  qed
qed

lemma each_grows:
  assumes "each f xs t = Some (Inr (b, t'))" "tree_ok t" "parent_in parent t"
    and "\<And>x t b t'. x \<in> set xs \<Longrightarrow> tree_ok t \<Longrightarrow> parent_in parent t \<Longrightarrow> f x t = Some (Inr (b, t')) \<Longrightarrow> grows t t'"
  shows "grows t t'"
  using assms
proof (induction xs arbitrary: t)
  case Nil
  then show ?case by (simp add: grows_refl)
next
  case (Cons x xs)
  obtain b1 t1 where one: "f x t = Some (Inr (b1, t1))" "if b1 then each f xs t1 = Some (Inr (b, t')) else t' = t1"
    using Cons.prems(1) unfolding each_Cons by auto
  have g: "grows t t1" using Cons.prems(2-4) one(1) by (meson list.set_intros(1))
  have ok: "tree_ok t1" "parent_in parent t1" using g Cons.prems(3) parent_in_grows by (auto simp: grows_def)
  show ?case
  proof (cases b1)
    case True
    then have "each f xs t1 = Some (Inr (b, t'))" using one(2) by simp
    then have "grows t1 t'" using Cons.IH [OF _ ok] Cons.prems(4) by (meson list.set_intros(2))
    then show ?thesis using g grows_trans by blast
  qed (use one(2) g in simp)
qed

lemma each_entries:
  assumes "Option.bind (each f kvs t) (case_sum (\<lambda>err. Some (Inl err)) (\<lambda>q. Some (Inr (p, snd q)))) = Some (Inr (n, t'))"
  shows "n = p \<and> (\<exists>b. each f kvs t = Some (Inr (b, t')))"
proof -
  obtain q where "each f kvs t = Some (Inr q)" "Some (Inr (p, snd q)) = Some (Inr (n, t'))"
    using assms unfolding bind_result by blast
  then show ?thesis by (cases q) auto
qed

lemma load_node_grows:
  assumes "load_node yl fl e parent node t = Some r"
  shows "\<forall>n t'. r = Inr (n, t') \<and> tree_ok t \<and> parent_in parent t \<longrightarrow> grows t t' \<and> (\<exists>c. ct_node t' n = Some c)"
proof (rule load_node.raw_induct [where P = "\<lambda>yl fl e parent node t r. \<forall>n t'. r = Inr (n, t') \<and> tree_ok t \<and> parent_in parent t \<longrightarrow>
    grows t t' \<and> (\<exists>c. ct_node t' n = Some c)", OF _ assms], goal_cases)
  case (1 go yl fl e parent node t r)
  note IH = 1(1) and body = 1(2)
  have entry: "grows u u'" if run: "(do {
      r \<leftarrow> go yl f (fst kv) (Some p) (snd kv) u;
      (case r of Inl err \<Rightarrow> Some (Inl err) | Inr q \<Rightarrow> Some (Inr (True, snd q))) }) = Some (Inr (b, u') :: cfg_error + bool \<times> ctree)"
    and u: "tree_ok u" "parent_in (Some p) u" for f kv p u b u'
  proof -
    obtain k where k: "go yl f (fst kv) (Some p) (snd kv) u = Some (Inr (k, u'))"
      using run unfolding bind_result by auto
    from IH [OF k] u show ?thesis by simp
  qed
  show ?case
  proof (intro allI impI, elim conjE)
    fix n t' assume r: "r = Inr (n, t')" and ok: "tree_ok t" "parent_in parent t"
    obtain plan where plan: "node_plan yl fl node = Some (Inr plan)"
      using body unfolding r bind_result by blast
    show "grows t t' \<and> (\<exists>c. ct_node t' n = Some c)"
    proof (cases plan)
      case (Make kind kvs)
      obtain k t1 where k: "new_node kind e parent False t = Some (k, t1)"
        using body r plan Make by (cases "new_node kind e parent False t") auto
      obtain b where "each (\<lambda>kv t. do {
          r \<leftarrow> go yl fl (fst kv) (Some k) (snd kv) t;
          (case r of Inl err \<Rightarrow> Some (Inl err) | Inr q \<Rightarrow> Some (Inr (True, snd q))) }) kvs t1 = Some (Inr (b, t'))" "k = n"
        using each_entries [OF body [unfolded r plan Option.bind.simps sum.case Make load_plan.case k prod.case]] by blast
      then have t1: "new_node kind e parent False t = Some (n, t1)" "each (\<lambda>kv t. do {
          r \<leftarrow> go yl fl (fst kv) (Some n) (snd kv) t;
          (case r of Inl err \<Rightarrow> Some (Inl err) | Inr q \<Rightarrow> Some (Inr (True, snd q))) }) kvs t1 = Some (Inr (b, t'))"
        using k by simp_all
      note new = new_node_grows [OF ok t1(1)]
      then have ok1: "tree_ok t1" "parent_in (Some n) t1" by (auto simp: grows_def parent_in_def)
      have "grows t1 t'" by (rule each_grows [OF t1(2) ok1]) (rule entry)
      then show ?thesis using new grows_trans grows_keeps by metis
    next
      case (From f doc)
      show ?thesis
      proof (cases "if e = [] then parent else None")
        case None
        then have "go yl f e parent doc t = Some (Inr (n, t'))" using body r plan From by auto
        then show ?thesis using IH ok by blast
      next
        case (Some p)
        obtain kvs where ent: "entries_of doc = Inr kvs"
          using body r plan From Some by (cases "entries_of doc") simp_all
        obtain b where kvs: "each (\<lambda>kv t. do {
          r \<leftarrow> go yl f (fst kv) (Some p) (snd kv) t;
          (case r of Inl err \<Rightarrow> Some (Inl err) | Inr q \<Rightarrow> Some (Inr (True, snd q))) }) kvs t = Some (Inr (b, t'))" "n = p"
          using each_entries [OF body [unfolded r plan Option.bind.simps sum.case From load_plan.case Some option.case ent]] by blast
        have p: "parent = Some p" using Some by (simp split: if_split_asm)
        have "grows t t'" by (rule each_grows [OF kvs(1) ok(1) ok(2) [unfolded p]]) (rule entry)
        then show ?thesis using ok(2) kvs(2) unfolding p parent_in_def by (metis grows_keeps option.distinct(1) option.inject)
      qed
    qed
  qed
qed

text \<open>C34: a document is loaded into a well-formed tree, below a node of it or as a new root, without losing anything: the
  tree stays well-formed, the new node is in it, and every node that was there keeps its place, its name
  and what it is.\<close>

theorem loading_keeps_tree:
  assumes "tree_ok t" "parent = None \<or> (\<exists>p c. parent = Some p \<and> ct_node t p = Some c)" "loadYAML yl fl e parent t = Some (Inr (n, t'))"
  shows "tree_ok t' \<and> (\<exists>c. ct_node t' n = Some c) \<and> (\<forall>m c. ct_node t m = Some c \<longrightarrow>
    (\<exists>d. ct_node t' m = Some d \<and> cn_parent d = cn_parent c \<and> cn_element d = cn_element c \<and> cn_kind d = cn_kind c))"
proof -
  note ok = assms(1,2) [folded parent_in_def]
  obtain doc id where id: "(case yl_file yl fl of Some node \<Rightarrow> (node, fl) | None \<Rightarrow> (yl_parse yl fl, [])) = (doc, id)" by fastforce
  have "grows t t' \<and> (\<exists>c. ct_node t' n = Some c)"
  proof (cases "if e = [] then parent else None")
    case None
    then have "load_node yl id e parent doc t = Some (Inr (n, t'))" using assms(3) by (simp add: loadYAML_def id)
    then show ?thesis using load_node_grows ok by blast
  next
    case (Some p)
    obtain kvs where ent: "entries_of doc = Inr kvs"
      using assms(3) Some by (cases "entries_of doc") (simp_all add: loadYAML_def id)
    obtain b where kvs: "each (\<lambda>kv t. do {
        r \<leftarrow> load_node yl id (fst kv) (Some p) (snd kv) t;
        (case r of Inl err \<Rightarrow> Some (Inl err) | Inr q \<Rightarrow> Some (Inr (True, snd q))) }) kvs t = Some (Inr (b, t'))" "n = p"
      using each_entries [OF assms(3) [unfolded loadYAML_def id Let_def prod.case Some option.case ent sum.case]] by blast
    have p: "parent = Some p" using Some by (simp split: if_split_asm)
    have "grows t t'"
    proof (rule each_grows [OF kvs(1) ok(1) ok(2) [unfolded p]])
      fix kv u b u'
      assume u: "tree_ok u" "parent_in (Some p) u" and "(do {
        r \<leftarrow> load_node yl id (fst kv) (Some p) (snd kv) u;
        (case r of Inl err \<Rightarrow> Some (Inl err) | Inr q \<Rightarrow> Some (Inr (True, snd q))) }) = Some (Inr (b, u'))"
      then obtain k where k: "load_node yl id (fst kv) (Some p) (snd kv) u = Some (Inr (k, u'))"
        unfolding bind_result by auto
      from load_node_grows [OF k] u show "grows u u'" by simp
    qed
    then show ?thesis using ok(2) kvs(2) unfolding p parent_in_def by (metis grows_keeps option.distinct(1) option.inject)
  qed
  then show ?thesis unfolding grows_def by blast
qed

text \<open>An agent with a memory size, as a document.\<close>

definition agent_doc :: ynode where
  "agent_doc = YMap [(''agent'', YMap [(''type'', YScalar ''agent/td''), (''size'', YScalar ''5'')])]"

definition doc_lib :: yaml_lib where
  "doc_lib = env_lib\<lparr>yl_file := [''a.yaml'' \<mapsto> agent_doc]\<rparr>"

lemma five_plan: "node_plan doc_lib f (YScalar ''5'') = Some (Inr (Make (Param ''5'') []))"
  using resolve_env_done [of 0 "''5''" doc_lib f] by (simp add: node_plan_def YAMLToString_def resolveEnv_def value_plan_def)

definition loaded_agent :: ctree where
  "loaded_agent = \<lparr>ct_node = [
     0 \<mapsto> \<lparr>cn_parent = None, cn_element = [], cn_children = [1], cn_provided = False, cn_kind = Plain\<rparr>,
     1 \<mapsto> \<lparr>cn_parent = Some 0, cn_element = ''agent'', cn_children = [2], cn_provided = False, cn_kind = Obj ''agent/td'' None\<rparr>,
     2 \<mapsto> \<lparr>cn_parent = Some 1, cn_element = ''size'', cn_children = [], cn_provided = False, cn_kind = Param ''5''\<rparr>],
     ct_next = 3\<rparr>"

lemma load_agent: "loadYAML doc_lib ''a.yaml'' [] None empty_tree = Some (Inr (0, loaded_agent))"
proof -
  have types: "full_type doc_lib ''agent/td'' = ''agent/td''" by (simp add: full_type_def doc_lib_def env_lib_def)
  have plans: "node_plan doc_lib f agent_doc = Some (Inr (Make Plain [(''agent'', YMap [(''type'', YScalar ''agent/td''), (''size'', YScalar ''5'')])]))"
    "node_plan doc_lib f (YMap [(''type'', YScalar ''agent/td''), (''size'', YScalar ''5'')]) = Some (Inr (Make (Obj ''agent/td'' None) [(''size'', YScalar ''5'')]))" for f
    using types by (simp_all add: node_plan_def agent_doc_def)
  have look: "yl_file doc_lib ''a.yaml'' = Some agent_doc" by (simp add: doc_lib_def)
  have one: "ct_node loaded_agent 1 = Some \<lparr>cn_parent = Some 0, cn_element = ''agent'', cn_children = [2], cn_provided = False, cn_kind = Obj ''agent/td'' None\<rparr>"
    by (simp add: loaded_agent_def)
  show ?thesis
    apply (simp add: loadYAML_def look)
    apply (subst load_node.simps)
    apply (simp add: plans new_node_def Let_def each.simps)
    apply (subst load_node.simps)
    apply (simp add: plans new_node_def graft_def put_node_def empty_tree_def element_of_def Let_def each.simps)
    apply (subst load_node.simps)
    apply (simp add: five_plan new_node_def graft_def put_node_def element_of_def Let_def each.simps loaded_agent_def)
    apply (auto simp: fun_eq_iff)
    done
qed

theorem loading_keeps_tree_witness:
  "\<exists>n t'. loadYAML doc_lib ''a.yaml'' [] None empty_tree = Some (Inr (n, t')) \<and> tree_ok t' \<and> (\<exists>c. ct_node t' n = Some c)"
proof -
  have "tree_ok empty_tree" by (simp add: tree_ok_def empty_tree_def)
  from loading_keeps_tree [OF this _ load_agent] show ?thesis using load_agent by blast
qed

section \<open>Writing\<close>

lemma concat_opt_Some: "(\<And>x. x \<in> set xs \<Longrightarrow> \<exists>s. f x = Some s) \<Longrightarrow> \<exists>s. concat_opt f xs = Some s"
proof (induction xs)
  case (Cons x xs)
  obtain a where "f x = Some a" using Cons.prems [of x] by auto
  moreover obtain b where "concat_opt f xs = Some b" using Cons by auto
  ultimately show ?case by simp
qed simp

text \<open>the text of a well-formed tree without references to other nodes is always found, whatever is below the node.\<close>

theorem yaml_returns:
  assumes "tree_ok t" "ct_node t n = Some c" "\<And>m c r p. ct_node t m = Some c \<Longrightarrow> cn_kind c \<noteq> CRef r p"
  shows "\<exists>s. yaml t n depth = Some s"
  using assms(2)
proof (induction "ct_next t - n" arbitrary: n c depth rule: less_induct)
  case less
  have kids: "\<exists>s. (if is_provided t k then Some [] else yaml t k d) = Some s" if k: "k \<in> set (cn_children c)" for k d
  proof -
    obtain e where e: "ct_node t k = Some e" "cn_parent e = Some n" using tree_okD(4) [OF assms(1) less.prems k] by blast
    have "n < k" "k < ct_next t" using tree_okD(1,2) [OF assms(1) e(1)] e(2) by blast+
    then have "\<exists>s. yaml t k d = Some s" using less.hyps [OF _ e(1)] by simp
    then show ?thesis by simp
  qed
  have "\<exists>s. concat_opt (\<lambda>k. if is_provided t k then Some [] else yaml t k (if cn_element c = [] then depth else depth + 1)) (cn_children c) = Some s"
    by (rule concat_opt_Some) (rule kids)
  then obtain s where s: "concat_opt (\<lambda>k. if is_provided t k then Some [] else yaml t k (if cn_element c = [] then depth else depth + 1)) (cn_children c) = Some s" ..
  show ?case
  proof (cases "cn_kind c")
    case (CRef r p)
    then show ?thesis using assms(3) less.prems by blast
  qed (subst yaml.simps; simp add: less.prems s)+
qed

theorem yaml_returns_witness: "\<exists>s. yaml loaded_agent 0 0 = Some s"
proof (rule yaml_returns)
  show "tree_ok loaded_agent" by (auto simp: tree_ok_def node_ok_def loaded_agent_def element_of_def split: if_splits)
  show "ct_node loaded_agent 0 = Some \<lparr>cn_parent = None, cn_element = [], cn_children = [1], cn_provided = False, cn_kind = Plain\<rparr>"
    by (simp add: loaded_agent_def)
qed (auto simp: loaded_agent_def split: if_splits)

end
