(* ===== verification/Projectors.thy ===== *)
theory Projectors
  imports Projections Strings
begin

text \<open>
  Projectors without state (\<open>base/src/projectors\<close>): Fourier, monomial and radial basis functions, grids, and
  the projectors that change the input of another one or combine several.

  The downstream projectors and discretizers are parameters. Vectors are real numbers; where the code divides by
  zero, reads outside a vector or returns entries that were never written, the result is \<open>ProjUndefined\<close>. Conversions of
  sizes to \<open>int\<close> are exact: beyond its range they are undefined in the code.
\<close>

datatype proj_error = ProjBadParam | ProjException | ProjUndefined

type_synonym proj_result = "proj_error + projection"

definition index_shift :: "nat \<Rightarrow> nat \<Rightarrow> nat" where
  "index_shift m i = (i + m) mod (size_max + 1)"

section \<open>Fourier basis functions\<close>

record fourier =
  fp_min :: dvec
  fp_max :: dvec
  fp_scaling :: dvec
  fp_order :: nat
  fp_dims :: nat
  fp_parity :: string

text \<open>Scaling by one over the range; equal limits divide by zero.\<close>

definition range_scaling :: "dvec \<Rightarrow> dvec \<Rightarrow> dvec" where
  "range_scaling mi ma = map2 (\<lambda>a b. 1 / (b - a)) mi ma"

definition fourier_configure :: "dvec \<Rightarrow> dvec \<Rightarrow> nat \<Rightarrow> string \<Rightarrow> proj_error + fourier \<times> nat" where
  "fourier_configure mi ma order parity =
     (if length mi \<noteq> length ma then Inl ProjBadParam
      else if \<exists>i \<in> set [0..<length mi]. mi ! i = ma ! i then Inl ProjUndefined
      else Inr (\<lparr>fp_min = mi, fp_max = ma, fp_scaling = range_scaling mi ma, fp_order = order,
        fp_dims = length mi, fp_parity = parity\<rparr>, (order + 1) ^ length mi))"

text \<open>The counters of the dimensions: one that is above \<open>m\<close> starts again, and the next one is counted up.\<close>

fun count_up :: "nat \<Rightarrow> nat list \<Rightarrow> nat list" where
  "count_up m [] = []"
| "count_up m (s # ss) = (if s + 1 > m then 0 # count_up m ss else (s + 1) # ss)"

fun fourier_loop :: "(real \<Rightarrow> real) \<Rightarrow> nat \<Rightarrow> dvec \<Rightarrow> nat \<Rightarrow> nat list \<Rightarrow> dvec" where
  "fourier_loop f m sv 0 ss = []"
| "fourier_loop f m sv (Suc n) ss = f (pi * dot (map real ss) sv) # fourier_loop f m sv n (count_up m ss)"

definition fourier_project :: "fourier \<Rightarrow> dvec \<Rightarrow> proj_result" where
  "fourier_project fp inp =
     (let f = (if fp_parity fp = ''even'' then cos else sin)
      in if length inp \<noteq> fp_dims fp then Inl ProjBadParam
         else if 256 < fp_dims fp then Inl ProjUndefined
         else let sv = vmul (vsub inp (fp_min fp)) (fp_scaling fp);
                  v = fourier_loop f (fp_dims fp) sv ((fp_order fp + 1) ^ fp_dims fp) (replicate (fp_dims fp) 0)
              in Inr (VectorProjection (v[0 := 1])))"

section \<open>Monomials\<close>

record monomial =
  mp_homogeneous :: bool
  mp_degree :: nat
  mp_memory :: nat
  mp_origin :: dvec

text \<open>Factorials of machine words; dividing by a product that wraps around to zero traps.\<close>

primrec fact_word :: "nat \<Rightarrow> nat" where
  "fact_word 0 = 1"
| "fact_word (Suc n) = (fact_word n * Suc n) mod (size_max + 1)"

definition monomial_memory :: "bool \<Rightarrow> nat \<Rightarrow> nat \<Rightarrow> nat option" where
  "monomial_memory homogeneous degree n =
     (let n = (if homogeneous then n - 1 else n); d = (fact_word degree * fact_word n) mod (size_max + 1)
      in if d = 0 then None else Some (fact_word (degree + n) div d))"

text \<open>Without inputs the factorial for homogeneous monomials would be taken of the largest size.\<close>

definition monomial_configure :: "bool \<Rightarrow> nat \<Rightarrow> dvec \<Rightarrow> proj_error + monomial \<times> nat" where
  "monomial_configure homogeneous degree origin =
     (case (if homogeneous \<and> origin = [] then None else monomial_memory homogeneous degree (length origin)) of
        None \<Rightarrow> Inl ProjUndefined
      | Some m \<Rightarrow> Inr (\<lparr>mp_homogeneous = homogeneous, mp_degree = degree, mp_memory = m, mp_origin = origin\<rparr>, m))"

text \<open>The next degree: each input times the monomials of the last degree from its own block on. \<open>tot\<close> is how many these
  are, and the counters are the sizes of the blocks.\<close>

fun mono_dims :: "dvec \<Rightarrow> nat list \<Rightarrow> dvec \<Rightarrow> nat \<Rightarrow> dvec \<times> nat list" where
  "mono_dims (x # xs) (c # cs) block tot =
     (let new = map (\<lambda>p. p * x) (drop (length block - tot) block);
          tot = tot - c;
          (rest, cs) = mono_dims xs cs block tot
      in (new @ rest, (c + tot) # cs))"
| "mono_dims xs cs block tot = ([], [])"

fun mono_degrees :: "dvec \<Rightarrow> nat list \<Rightarrow> dvec \<Rightarrow> nat \<Rightarrow> dvec" where
  "mono_degrees oin cs block 0 = []"
| "mono_degrees oin cs block (Suc k) =
     (let (new, cs) = mono_dims oin cs block (length block) in new @ mono_degrees oin cs new k)"

text \<open>Homogeneous monomials of degree three and more: counters that do not decrease, one for each input.\<close>

fun count_mono :: "nat list \<Rightarrow> nat list" where
  "count_mono (c # d # cs) = (if c + 1 > d then 0 # count_mono (d # cs) else (c + 1) # d # cs)"
| "count_mono cs = cs"

fun mono_loop :: "dvec \<Rightarrow> nat \<Rightarrow> nat list \<Rightarrow> dvec" where
  "mono_loop oin 0 count = []"
| "mono_loop oin (Suc n) count =
     foldl (\<lambda>v dd. v * oin ! (count ! dd)) 1 [0..<length oin] # mono_loop oin n (count_mono count)"

definition homogeneous_features :: "dvec \<Rightarrow> nat \<Rightarrow> nat \<Rightarrow> dvec" where
  "homogeneous_features oin degree memory =
     (if degree = 0 then [1]
      else if degree = 1 then oin
      else if degree = 2 then concat (map (\<lambda>dd1. map (\<lambda>dd2. oin ! dd1 * oin ! dd2) [dd1..<length oin]) [0..<length oin])
      else mono_loop oin memory (replicate (length oin) 0 @ [length oin - 1]))"

definition inhomogeneous_features :: "dvec \<Rightarrow> nat \<Rightarrow> dvec" where
  "inhomogeneous_features oin degree =
     1 # (if degree > 0 then oin @ mono_degrees oin (replicate (length oin) 1) oin (degree - 1) else [])"

definition monomial_project :: "monomial \<Rightarrow> dvec \<Rightarrow> proj_result" where
  "monomial_project mp inp =
     (if length (mp_origin mp) \<noteq> length inp then Inl ProjBadParam
      else let oin = vsub inp (mp_origin mp);
               v = (if mp_homogeneous mp then homogeneous_features oin (mp_degree mp) (mp_memory mp)
                    else inhomogeneous_features oin (mp_degree mp))
           in if length v = mp_memory mp then Inr (VectorProjection v) else Inl ProjUndefined)"

section \<open>Radial basis functions\<close>

record rbf =
  rb_min :: dvec
  rb_max :: dvec
  rb_steps :: dvec
  rb_delta :: dvec
  rb_stride :: "nat list"

fun strides :: "nat \<Rightarrow> dvec \<Rightarrow> nat list" where
  "strides ff [] = []"
| "strides ff (s # ss) = ff # strides (nat (c_trunc (real ff * s))) ss"

text \<open>The distance of the basis functions is zero for equal limits, and not finite for a single step.\<close>

definition rbf_configure :: "dvec \<Rightarrow> dvec \<Rightarrow> dvec \<Rightarrow> proj_error + rbf \<times> int" where
  "rbf_configure mi ma steps =
     (if mi = [] \<or> ma = [] \<or> steps = [] then Inl ProjBadParam
      else if length mi \<noteq> length ma \<or> length mi \<noteq> length steps then Inl ProjBadParam
      else if \<exists>i \<in> set [0..<length mi]. mi ! i = ma ! i \<or> steps ! i = 1 then Inl ProjUndefined
      else Inr (\<lparr>rb_min = mi, rb_max = ma, rb_steps = steps,
        rb_delta = map2 (/) (vsub ma mi) (map (\<lambda>s. s - 1) steps), rb_stride = strides 1 steps\<rparr>, c_trunc (vec_prod steps)))"

text \<open>The position on the grid, kept just below its last cell; the cell and the distance to its left edge.\<close>

definition grid_position :: "rbf \<Rightarrow> dvec \<Rightarrow> nat \<Rightarrow> real" where
  "grid_position rb inp dd =
     min (max ((inp ! dd - rb_min rb ! dd) / rb_delta rb ! dd) 0) (rb_steps rb ! dd - 1 - 1 / 10 ^ 10)"

definition grid_cell :: "rbf \<Rightarrow> dvec \<Rightarrow> nat \<Rightarrow> nat" where
  "grid_cell rb inp dd = nat (c_trunc (grid_position rb inp dd))"

definition grid_dist :: "rbf \<Rightarrow> dvec \<Rightarrow> nat \<Rightarrow> real" where
  "grid_dist rb inp dd = grid_position rb inp dd - real (grid_cell rb inp dd)"

text \<open>The basis function at a corner of the cell: bit \<open>dd\<close> of the corner's number tells the right edge from the left one.\<close>

fun corner :: "nat \<Rightarrow> (nat \<times> real) list \<Rightarrow> nat \<times> real" where
  "corner ii [] = (0, 1)"
| "corner ii ((st, d) # ds) =
     (let (diff, w) = corner (ii div 2) ds
      in if odd ii then (st + diff, d * w) else (diff, (1 - d) * w))"

definition triangle_project :: "rbf \<Rightarrow> dvec \<Rightarrow> proj_result" where
  "triangle_project rb inp =
     (if length inp \<noteq> length (rb_min rb) then Inl ProjBadParam
      else let dims = [0..<length (rb_steps rb)];
               idx = sum_list (map (\<lambda>dd. grid_cell rb inp dd * rb_stride rb ! dd) dims);
               ds = map (\<lambda>dd. (rb_stride rb ! dd, grid_dist rb inp dd)) dims;
               corners = map (\<lambda>ii. corner ii ds) [0..<2 ^ length (rb_steps rb)]
           in Inr (IndexProjection \<lparr>ip_indices = map (\<lambda>c. idx + fst c) corners, ip_weights = map snd corners\<rparr>))"

text \<open>The vector from the input to a basis function, in steps of the grid: a dimension that is past its end starts again.\<close>

fun next_diff :: "(real \<times> real) list \<Rightarrow> dvec \<Rightarrow> dvec" where
  "next_diff ((lo, hi) # bs) (d # ds) =
     (if d + 1 > hi + 1 / 10 ^ 5 then lo # next_diff bs ds else (d + 1) # ds)"
| "next_diff bs ds = []"

text \<open>The cut-off distance is not finite for a cut-off of zero, and not a number if the deviation is zero too.\<close>

definition gauss_active :: "real \<Rightarrow> real \<Rightarrow> real \<Rightarrow> bool" where
  "gauss_active sigma cutoff distsq =
     (if cutoff = 0 then sigma \<noteq> 0 else distsq < - (sigma * sigma) * ln cutoff)"

fun gauss_loop :: "real \<Rightarrow> real \<Rightarrow> (real \<times> real) list \<Rightarrow> nat \<Rightarrow> nat \<Rightarrow> dvec \<Rightarrow> (nat \<times> real) list" where
  "gauss_loop sigma cutoff bs 0 ii diff = []"
| "gauss_loop sigma cutoff bs (Suc n) ii diff =
     (let distsq = dot diff diff; rest = gauss_loop sigma cutoff bs n (ii + 1) (next_diff bs diff)
      in if gauss_active sigma cutoff distsq then (ii, exp (- distsq / (sigma * sigma))) # rest else rest)"

definition gauss_project :: "real \<Rightarrow> real \<Rightarrow> rbf \<Rightarrow> dvec \<Rightarrow> proj_result" where
  "gauss_project sigma cutoff rb inp =
     (if length inp \<noteq> length (rb_min rb) then Inl ProjBadParam
      else let inmin = map2 (/) (vsub (rb_min rb) inp) (rb_delta rb);
               inmax = map2 (/) (vsub (rb_max rb) inp) (rb_delta rb);
               acts = gauss_loop sigma cutoff (zip inmin inmax) (nat (c_trunc (vec_prod (rb_steps rb)))) 0 inmin
           in Inr (IndexProjection \<lparr>ip_indices = map fst acts, ip_weights = map snd acts\<rparr>))"

section \<open>Grids and the identity\<close>

definition grid_index_project :: "(dvec \<Rightarrow> nat) \<Rightarrow> dvec \<Rightarrow> proj_result" where
  "grid_index_project discretize inp = Inr (IndexProjection \<lparr>ip_indices = [discretize inp], ip_weights = []\<rparr>)"

definition grid_position_project :: "(dvec \<Rightarrow> nat) \<Rightarrow> (nat \<Rightarrow> dvec) \<Rightarrow> dvec \<Rightarrow> proj_result" where
  "grid_position_project discretize pos inp = Inr (VectorProjection (pos (discretize inp)))"

definition identity_projection :: "dvec \<Rightarrow> proj_result" where
  "identity_projection inp = Inr (VectorProjection inp)"

section \<open>Projectors before a projector\<close>

text \<open>A matrix is the list of its rows; it is multiplied by a diagonal one from the right.\<close>

definition times_diagonal :: "dvec list \<Rightarrow> dvec \<Rightarrow> dvec list" where
  "times_diagonal m d = map (\<lambda>row. vmul row d) m"

record normalizing =
  nm_min :: dvec
  nm_max :: dvec
  nm_scaling :: dvec
  nm_signed :: real

definition normalizing_configure :: "dvec \<Rightarrow> dvec \<Rightarrow> bool \<Rightarrow> proj_error + normalizing" where
  "normalizing_configure mi ma both =
     (if length mi \<noteq> length ma then Inl ProjBadParam
      else if \<exists>i \<in> set [0..<length mi]. mi ! i = ma ! i then Inl ProjUndefined
      else Inr \<lparr>nm_min = mi, nm_max = ma, nm_scaling = vscale (1 + of_bool both) (range_scaling mi ma), nm_signed = of_bool both\<rparr>)"

definition normalized :: "normalizing \<Rightarrow> dvec \<Rightarrow> dvec" where
  "normalized nm inp = map (\<lambda>x. x - nm_signed nm) (vmul (vsub inp (nm_min nm)) (nm_scaling nm))"

definition normalizing_project :: "normalizing \<Rightarrow> (dvec \<Rightarrow> proj_result) \<Rightarrow> dvec \<Rightarrow> proj_result" where
  "normalizing_project nm proj inp =
     (if length inp \<noteq> length (nm_scaling nm) then Inl ProjBadParam else proj (normalized nm inp))"

definition normalizing_jacobian :: "normalizing \<Rightarrow> (dvec \<Rightarrow> proj_error + dvec list) \<Rightarrow> dvec \<Rightarrow> proj_error + dvec list" where
  "normalizing_jacobian nm jac inp =
     (if length inp \<noteq> length (nm_scaling nm) then Inl ProjBadParam
      else chain (jac (normalized nm inp)) (\<lambda>m. Inr (times_diagonal m (nm_scaling nm))))"

definition scaling_project :: "dvec \<Rightarrow> (dvec \<Rightarrow> proj_result) \<Rightarrow> dvec \<Rightarrow> proj_result" where
  "scaling_project scaling proj inp =
     (if length inp \<noteq> length scaling then Inl ProjBadParam else proj (vmul inp scaling))"

definition scaling_jacobian :: "dvec \<Rightarrow> (dvec \<Rightarrow> proj_error + dvec list) \<Rightarrow> dvec \<Rightarrow> proj_error + dvec list" where
  "scaling_jacobian scaling jac inp =
     (if length inp \<noteq> length scaling then Inl ProjBadParam
      else chain (jac (vmul inp scaling)) (\<lambda>m. Inr (times_diagonal m scaling)))"

record peaked = normalizing +
  pk_peaking :: dvec
  pk_range2 :: dvec

text \<open>The scaling is that of the unsigned normalization.\<close>

definition peaking_configure :: "dvec \<Rightarrow> dvec \<Rightarrow> bool \<Rightarrow> dvec \<Rightarrow> proj_error + peaked" where
  "peaking_configure mi ma both peaking =
     chain (normalizing_configure mi ma both) (\<lambda>nm.
       if length peaking \<noteq> length mi then Inl ProjBadParam
       else Inr \<lparr>nm_min = nm_min nm, nm_max = nm_max nm, nm_scaling = range_scaling mi ma, nm_signed = nm_signed nm,
         pk_peaking = peaking, pk_range2 = map (\<lambda>x. x / 2) (vsub ma mi)\<rparr>)"

definition peaked_input :: "peaked \<Rightarrow> dvec \<Rightarrow> dvec" where
  "peaked_input pk inp =
     vadd (vmul (map (\<lambda>y. y + 1)
       (squash_vec (map (\<lambda>y. y - 1) (vmul (vscale 2 (vsub inp (nm_min pk))) (nm_scaling pk))) (pk_peaking pk)))
       (pk_range2 pk)) (nm_min pk)"

definition peaked_project :: "peaked \<Rightarrow> (dvec \<Rightarrow> proj_result) \<Rightarrow> dvec \<Rightarrow> proj_result" where
  "peaked_project pk proj inp =
     (if length inp \<noteq> length (pk_peaking pk) then Inl ProjBadParam else proj (peaked_input pk inp))"

definition peaked_slope :: "real \<Rightarrow> real \<Rightarrow> real \<Rightarrow> real \<Rightarrow> real \<Rightarrow> real" where
  "peaked_slope f mi s r2 x =
     (if f \<noteq> 0
      then let sf = sgn f; af1 = 1 / \<bar>f\<bar>; axs = \<bar>s * (2 * mi - 2 * x) + 1\<bar>
           in r2 * ((2 * s * (sf / 2 + af1 + 1 / 2)) / (af1 - sf / 2 + axs * sf + 1 / 2) -
                    (2 * s * axs * sf * (sf / 2 + af1 + 1 / 2)) / (af1 - sf / 2 + axs * sf + 1 / 2)\<^sup>2)
      else 1)"

definition peaked_jacobian :: "peaked \<Rightarrow> (dvec \<Rightarrow> proj_error + dvec list) \<Rightarrow> dvec \<Rightarrow> proj_error + dvec list" where
  "peaked_jacobian pk jac inp =
     (if length inp \<noteq> length (pk_peaking pk) then Inl ProjBadParam
      else chain (jac (peaked_input pk inp)) (\<lambda>m. Inr (times_diagonal m
        (map (\<lambda>ii. peaked_slope (pk_peaking pk ! ii) (nm_min pk ! ii) (nm_scaling pk ! ii) (pk_range2 pk ! ii) (inp ! ii))
          [0..<length inp]))))"

record geometric =
  gm_angles :: "bool list"
  gm_scaling :: real

definition geometric_configure :: "dvec \<Rightarrow> int \<Rightarrow> proj_error + geometric \<times> nat" where
  "geometric_configure angles nrm =
     (if \<forall>a \<in> set angles. a = 0 \<or> a = 1
      then Inr (\<lparr>gm_angles = map (\<lambda>a. a = 1) angles, gm_scaling = (if nrm = -1 then pi else if nrm = 1 then 2 * pi else 1)\<rparr>,
             length angles + nat (c_trunc (vec_sum angles)))
      else Inl ProjBadParam)"

definition geometric_input :: "geometric \<Rightarrow> dvec \<Rightarrow> dvec" where
  "geometric_input gm inp =
     concat (map2 (\<lambda>a x. if a then [sin (x * gm_scaling gm), cos (x * gm_scaling gm)] else [x]) (gm_angles gm) inp)"

definition geometric_project :: "geometric \<Rightarrow> (dvec \<Rightarrow> proj_result) \<Rightarrow> dvec \<Rightarrow> proj_result" where
  "geometric_project gm proj inp =
     (if length inp \<noteq> length (gm_angles gm) then Inl ProjBadParam else proj (geometric_input gm inp))"

section \<open>Several projectors\<close>

text \<open>The union: the features of each projector behind those of the ones before it. The weights are appended to each other, even
  if one of the projections has none.\<close>

fun union_indices :: "(dvec \<Rightarrow> proj_result) list \<Rightarrow> dvec \<Rightarrow> nat \<Rightarrow> dvec \<Rightarrow> index_projection \<Rightarrow> proj_error + index_projection" where
  "union_indices [] memories memory inp ip = Inr ip"
| "union_indices (proj # ps) [] memory inp ip = Inl ProjUndefined"
| "union_indices (proj # ps) (m # memories) memory inp ip =
     chain (proj inp) (\<lambda>p.
       case p of
         VectorProjection v \<Rightarrow> Inl ProjException
       | IndexProjection ip2 \<Rightarrow>
           union_indices ps memories (nat (c_trunc (real memory + m))) inp
             \<lparr>ip_indices = ip_indices ip @ map (index_shift memory) (ip_indices ip2),
              ip_weights = ip_weights ip @ ip_weights ip2\<rparr>)"

fun union_vectors :: "(dvec \<Rightarrow> proj_result) list \<Rightarrow> dvec \<Rightarrow> dvec \<Rightarrow> proj_error + dvec" where
  "union_vectors [] inp v = Inr v"
| "union_vectors (proj # ps) inp v =
     chain (proj inp) (\<lambda>p.
       case p of VectorProjection w \<Rightarrow> union_vectors ps inp (Vectors.extend v w) | IndexProjection ip \<Rightarrow> Inl ProjException)"

text \<open>With an indicator only the features of one projector are not zero.\<close>

fun select_vector :: "(dvec \<Rightarrow> proj_result) list \<Rightarrow> nat \<Rightarrow> nat \<Rightarrow> dvec \<Rightarrow> dvec \<Rightarrow> proj_error + dvec" where
  "select_vector [] ii dd inp v = Inr v"
| "select_vector (proj # ps) ii dd inp v =
     chain (proj inp) (\<lambda>p.
       case p of
         VectorProjection w \<Rightarrow> select_vector ps (ii + 1) dd inp (Vectors.extend v (if ii = dd then w else ConstantVector (length w) 0))
       | IndexProjection ip \<Rightarrow> Inl ProjException)"

text \<open>The offset adds up sizes that are real numbers in a machine word.\<close>

definition memory_offset :: "dvec \<Rightarrow> nat \<Rightarrow> nat" where
  "memory_offset memories dd = foldl (\<lambda>m x. nat (c_trunc (real m + x))) 0 (take dd memories)"

definition multi_memory :: "dvec \<Rightarrow> int" where
  "multi_memory memories = c_trunc (vec_sum memories)"

definition multi_project :: "int \<Rightarrow> (dvec \<Rightarrow> proj_result) list \<Rightarrow> dvec \<Rightarrow> dvec \<Rightarrow> proj_result" where
  "multi_project ind projs memories inp =
     (if ind \<ge> 0
      then (if length inp \<le> nat ind then Inl ProjUndefined
            else let dd = c_trunc (inp ! nat ind)
                 in if dd < 0 \<or> dd \<ge> int (length projs) then Inl ProjException
                    else chain ((projs ! nat dd) inp) (\<lambda>p.
                      case p of
                        IndexProjection ip \<Rightarrow>
                          (if length memories < nat dd then Inl ProjUndefined
                           else Inr (IndexProjection (ip\<lparr>ip_indices := map (index_shift (memory_offset memories (nat dd))) (ip_indices ip)\<rparr>)))
                      | VectorProjection v \<Rightarrow> chain (select_vector projs 0 (nat dd) inp []) (\<lambda>v. Inr (VectorProjection v))))
      else case projs of [] \<Rightarrow> Inl ProjUndefined
      | proj # ps \<Rightarrow>
          chain (proj inp) (\<lambda>p.
            case p of
              IndexProjection ip \<Rightarrow>
                (case memories of [] \<Rightarrow> Inl ProjUndefined
                 | m # ms \<Rightarrow> chain (union_indices ps ms (nat (c_trunc m)) inp ip) (\<lambda>ip. Inr (IndexProjection ip)))
            | VectorProjection v \<Rightarrow> chain (union_vectors ps inp v) (\<lambda>v. Inr (VectorProjection v))))"

text \<open>Some dimensions choose a set of features, the others are projected on it. \<open>sz\<close> and \<open>discretize\<close> are those of the
  discretizer; an index that is a fraction is counted as a whole dimension but not in the sum.\<close>

definition split_input :: "dvec \<Rightarrow> dvec \<Rightarrow> dvec \<times> dvec" where
  "split_input indices inp =
     (map snd (filter (\<lambda>(i, x). i \<noteq> 0) (zip indices inp)), map snd (filter (\<lambda>(i, x). i = 0) (zip indices inp)))"

definition split_project :: "dvec \<Rightarrow> nat \<Rightarrow> (dvec \<Rightarrow> nat) \<Rightarrow> nat \<Rightarrow> (dvec \<Rightarrow> proj_result) \<Rightarrow> dvec \<Rightarrow> proj_result" where
  "split_project indices sz discretize memory proj inp =
     (if length inp \<noteq> length indices then Inl ProjBadParam
      else let (idx, v) = split_input indices inp
           in if nat (c_trunc (vec_sum indices)) \<noteq> length idx then Inl ProjUndefined
              else let offset = discretize idx * memory
                   in chain (proj v) (\<lambda>p.
                        case p of
                          VectorProjection w \<Rightarrow>
                            (if length w = memory \<and> offset + memory \<le> sz * memory
                             then Inr (VectorProjection (replicate offset 0 @ w @ replicate (sz * memory - offset - memory) 0))
                             else Inl ProjUndefined)
                        | IndexProjection ip \<Rightarrow> Inr (IndexProjection (ip\<lparr>ip_indices := map (index_shift offset) (ip_indices ip)\<rparr>))))"

definition split_configure :: "nat \<Rightarrow> nat \<Rightarrow> proj_error + nat" where
  "split_configure sz memory = (if memory = 0 then Inl ProjBadParam else Inr (sz * memory))"

end
