(* ===== verification/BasisFacts.thy ===== *)
theory BasisFacts
  imports Projectors
begin

text \<open>
  Facts about basis functions: the Fourier projector counts up to the number of inputs and not to its order, the
  monomial projector enumerates all monomials of its degree once, triangular basis functions interpolate, and
  Gaussian ones are those of the grid points within the cut-off.
\<close>

section \<open>Fourier basis functions\<close>

definition digits :: "nat \<Rightarrow> nat \<Rightarrow> nat \<Rightarrow> nat list" where
  "digits m d k = map (\<lambda>dd. k div (m + 1) ^ dd mod (m + 1)) [0..<d]"

lemma digits_simps: "digits m 0 k = []" "digits m (Suc d) k = k mod (m + 1) # digits m d (k div (m + 1))"
proof -
  have "k div (m + 1) ^ Suc x = k div (m + 1) div (m + 1) ^ x" for x by (simp only: power_Suc div_mult2_eq)
  then show "digits m (Suc d) k = k mod (m + 1) # digits m d (k div (m + 1))"
    unfolding digits_def by (simp only: upt_conv_Cons [OF zero_less_Suc] map_Suc_upt [symmetric] list.map map_map comp_def power_0 div_by_1)
qed (simp add: digits_def)

lemma count_up_digits: "count_up m (digits m d k) = digits m d (Suc k)"
proof (induction d arbitrary: k)
  case (Suc d)
  have "Suc k mod (m + 1) = (if k mod (m + 1) = m then 0 else Suc (k mod (m + 1)))"
    "Suc k div (m + 1) = (if k mod (m + 1) = m then Suc (k div (m + 1)) else k div (m + 1))"
    using mod_Suc [of k "m + 1"] div_Suc [of k "m + 1"] by simp_all
  moreover have "k mod (m + 1) < m + 1" by simp
  ultimately show ?case using Suc.IH unfolding digits_simps(2) count_up.simps by (cases "k mod (m + 1) = m") (simp_all del: mod_less_divisor)
qed (simp add: digits_simps)

lemma bank_digits_zero: "digits m d 0 = replicate d 0"
  by (simp add: digits_def map_replicate_trivial)

lemma fourier_loop_digits: "fourier_loop f m sv n (digits m d k) = map (\<lambda>i. f (pi * dot (map real (digits m d i)) sv)) [k..<k + n]"
  by (induction n arbitrary: k) (simp_all add: count_up_digits upt_conv_Cons del: upt_Suc)

lemma fourier_project_features:
  assumes "length inp = fp_dims fp" "fp_dims fp \<le> 256"
  shows "fourier_project fp inp = Inr (VectorProjection ((map (\<lambda>i. (if fp_parity fp = ''even'' then cos else sin)
    (pi * dot (map real (digits (fp_dims fp) (fp_dims fp) i)) (vmul (vsub inp (fp_min fp)) (fp_scaling fp))))
    [0..<(fp_order fp + 1) ^ fp_dims fp])[0 := 1]))"
  using assms fourier_loop_digits [of _ "fp_dims fp" _ _ "fp_dims fp" 0]
  by (simp add: fourier_project_def Let_def bank_digits_zero)

text \<open>the Fourier projector counts the frequencies of a dimension up to the number of dimensions, not up to its order: the
  feature after \<open>(dims + 1) ^ dims\<close> others is the same feature again.\<close>

theorem fourier_features_repeat:
  assumes "length inp = fp_dims fp" "fp_dims fp \<le> 256" "0 < ii" "ii + (fp_dims fp + 1) ^ fp_dims fp < (fp_order fp + 1) ^ fp_dims fp"
  shows "\<exists>v. fourier_project fp inp = Inr (VectorProjection v) \<and> v ! (ii + (fp_dims fp + 1) ^ fp_dims fp) = v ! ii"
proof -
  let ?d = "fp_dims fp"
  have "digits ?d ?d (ii + (?d + 1) ^ ?d) = digits ?d ?d ii"
  proof -
    have "(ii + (?d + 1) ^ ?d) div (?d + 1) ^ dd mod (?d + 1) = ii div (?d + 1) ^ dd mod (?d + 1)" if less: "dd < ?d" for dd
    proof -
      obtain e where e: "?d = Suc (dd + e)" using less_imp_Suc_add [OF less] ..
      define b where "b = ?d + 1"
      have b: "0 < b" by (simp add: b_def)
      have "b ^ ?d = b ^ dd * (b * b ^ e)" unfolding e by (simp add: power_add)
      then have "(ii + b ^ ?d) div b ^ dd = ii div b ^ dd + b * b ^ e"
        using b by (simp add: mult.commute [of "b ^ dd"])
      then show ?thesis unfolding b_def [symmetric] by simp
    qed
    then show ?thesis by (simp add: digits_def)
  qed
  then show ?thesis using assms by (simp add: fourier_project_features nth_list_update)
qed

theorem fourier_features_repeat_witness:
  "\<exists>v. fourier_project \<lparr>fp_min = [0], fp_max = [1], fp_scaling = [1], fp_order = 3, fp_dims = 1, fp_parity = ''even''\<rparr> [1 / 3] =
    Inr (VectorProjection v) \<and> v ! 3 = v ! 1"
  using fourier_features_repeat [of "[1 / 3]" "\<lparr>fp_min = [0], fp_max = [1], fp_scaling = [1], fp_order = 3, fp_dims = 1, fp_parity = ''even''\<rparr>" 1]
  by (simp add: numeral_3_eq_3)

text \<open>with as many dimensions as its order the Fourier projector gives each combination of frequencies: a feature
  for every choice of a frequency up to the order for each dimension, the first one constant.\<close>

theorem fourier_basis_complete:
  assumes "fourier_configure mi ma (length mi) parity = Inr (fp, mem)" "length inp = length mi" "length mi \<le> 256"
    and "length cs = length mi" "\<And>c. c \<in> set cs \<Longrightarrow> c \<le> length mi"
  shows "\<exists>v ii. fourier_project fp inp = Inr (VectorProjection v) \<and> length v = mem \<and> v ! 0 = 1 \<and> ii < mem \<and>
    (0 < ii \<longrightarrow> v ! ii = (if parity = ''even'' then cos else sin)
       (pi * (\<Sum>dd<length mi. real (cs ! dd) * ((inp ! dd - mi ! dd) / (ma ! dd - mi ! dd)))))"
proof -
  let ?d = "length mi"
  have fp: "fp = \<lparr>fp_min = mi, fp_max = ma, fp_scaling = range_scaling mi ma, fp_order = ?d, fp_dims = ?d, fp_parity = parity\<rparr>"
    "mem = (?d + 1) ^ ?d" "length ma = ?d"
    using assms(1) by (auto simp: fourier_configure_def split: if_splits)
  have ex: "\<exists>ii < (m + 1) ^ length cs. digits m (length cs) ii = cs" if "\<forall>c \<in> set cs. c \<le> m" for m cs
    using that
  proof (induction cs)
    case Nil
    then show ?case by (simp add: digits_simps)
  next
    case (Cons c cs)
    then obtain ii where ii: "ii < (m + 1) ^ length cs" "digits m (length cs) ii = cs" by auto
    have c: "c < m + 1" using Cons.prems by simp
    have "Suc ii * (m + 1) \<le> (m + 1) ^ length cs * (m + 1)" using ii(1) by (intro mult_le_mono1) simp
    then have "c + (m + 1) * ii < (m + 1) ^ length (c # cs)" using c by (simp add: algebra_simps)
    moreover have "digits m (length (c # cs)) (c + (m + 1) * ii) = c # cs"
    proof -
      have "(c + (m + 1) * ii) mod (m + 1) = c" "(c + (m + 1) * ii) div (m + 1) = ii"
        using c by (simp_all only: mod_mult_self2 mod_less div_mult_self2 [of "m + 1"] div_less)
      then show ?thesis using ii(2) by (simp only: length_Cons digits_simps)
    qed
    ultimately show ?case by blast
  qed
  obtain ii where ii: "ii < mem" "digits ?d ?d ii = cs" using ex [of cs ?d] assms(4,5) fp(2) by auto
  have dot: "dot (map real cs) (vmul (vsub inp mi) (range_scaling mi ma)) =
      (\<Sum>dd<?d. real (cs ! dd) * ((inp ! dd - mi ! dd) / (ma ! dd - mi ! dd)))"
  proof -
    have len: "length (vmul (map real cs) (vmul (vsub inp mi) (range_scaling mi ma))) = ?d"
      using assms(2,4) fp(3) by (simp add: range_scaling_def)
    show ?thesis unfolding dot_def vec_sum_eq sum_list_sum_nth len atLeast0LessThan
      using assms(2,4) fp(3) by (intro sum.cong) (simp_all add: range_scaling_def)
  qed
  have pos: "0 < mem" using fp(2) by simp
  show ?thesis using fourier_project_features [of inp fp] assms(2,3) ii fp(1,2) pos dot
    by (intro exI conjI) (auto simp: nth_list_update)
qed

theorem fourier_basis_complete_witness:
  "\<exists>v ii. fourier_project \<lparr>fp_min = [0], fp_max = [2], fp_scaling = [1 / 2], fp_order = 1, fp_dims = 1, fp_parity = ''even''\<rparr> [1] =
    Inr (VectorProjection v) \<and> length v = 2 \<and> v ! 0 = 1 \<and> ii < 2 \<and> (0 < ii \<longrightarrow> v ! ii = cos (pi * (1 / 2)))"
proof -
  have "fourier_configure [0] [2] (length [0 :: real]) ''even'' =
    Inr (\<lparr>fp_min = [0], fp_max = [2], fp_scaling = [1 / 2], fp_order = 1, fp_dims = 1, fp_parity = ''even''\<rparr>, 2)"
    by (simp add: fourier_configure_def range_scaling_def)
  from fourier_basis_complete [OF this, of "[1]" "[1]"] show ?thesis by simp
qed

section \<open>Monomials\<close>

text \<open>Index lists that do not decrease, from \<open>s\<close> on.\<close>

fun seqs :: "nat \<Rightarrow> nat \<Rightarrow> nat \<Rightarrow> nat list list" where
  "seqs n s 0 = [[]]"
| "seqs n s (Suc k) = concat (map (\<lambda>i. map ((#) i) (seqs n i k)) [s..<n])"

lemma seqs_step: "s < n \<Longrightarrow> seqs n s (Suc k) = map ((#) s) (seqs n s k) @ seqs n (Suc s) (Suc k)"
  by (simp add: upt_conv_Cons)

lemma set_seqs: "set (seqs n s k) = {is. sorted is \<and> length is = k \<and> (\<forall>i \<in> set is. s \<le> i \<and> i < n)}"
proof (induction k arbitrary: s)
  case (Suc k)
  have "is \<in> set (seqs n s (Suc k)) \<longleftrightarrow> (sorted is \<and> length is = Suc k \<and> (\<forall>i \<in> set is. s \<le> i \<and> i < n))" for "is"
  proof (cases "is")
    case (Cons a as)
    have "is \<in> set (seqs n s (Suc k)) \<longleftrightarrow> s \<le> a \<and> a < n \<and> as \<in> set (seqs n a k)"
      using Cons by auto
    then show ?thesis using Suc.IH [of a] Cons by (auto simp: le_trans)
  qed auto
  then show ?case by blast
qed auto

lemma distinct_seqs: "distinct (seqs n s k)"
proof (induction k arbitrary: s)
  case (Suc k)
  have "distinct (concat (map (\<lambda>i. map ((#) i) (seqs n i k)) xs))" if "distinct xs" for xs
    using that
  proof (induction xs)
    case (Cons x xs)
    then show ?case using Suc.IH [of x] by (auto simp: distinct_map)
  qed simp
  then show ?case by simp
qed simp

definition mono_val :: "dvec \<Rightarrow> nat list \<Rightarrow> real" where
  "mono_val oin is = prod_list (map ((!) oin) is)"

lemma mono_val_Cons: "mono_val oin (i # is) = mono_val oin is * oin ! i"
  by (simp add: mono_val_def)

lemma mono_dims_seqs:
  assumes "d \<le> length oin" "block = pre @ map (mono_val oin) (seqs (length oin) d (Suc k))" "tot = length (seqs (length oin) d (Suc k))"
  shows "mono_dims (drop d oin) (map (\<lambda>e. length (seqs (length oin) e k)) [d..<length oin]) block tot =
    (map (mono_val oin) (seqs (length oin) d (Suc (Suc k))), map (\<lambda>e. length (seqs (length oin) e (Suc k))) [d..<length oin])"
  using assms
proof (induction "length oin - d" arbitrary: d pre tot)
  case 0
  then show ?case by simp
next
  case (Suc m)
  let ?n = "length oin"
  have d: "d < ?n" using Suc.hyps(2) by simp
  note step = seqs_step [OF d]
  have oin: "drop d oin = oin ! d # drop (Suc d) oin" "[d..<?n] = d # [Suc d..<?n]"
    using d by (simp_all add: Cons_nth_drop_Suc upt_conv_Cons)
  have tot: "tot - length (seqs ?n d k) = length (seqs ?n (Suc d) (Suc k))" using Suc.prems(3) step [of k] by simp
  have new: "map (\<lambda>p. p * oin ! d) (drop (length block - tot) block) = map (mono_val oin) (map ((#) d) (seqs ?n d (Suc k)))"
    using Suc.prems(2,3) by (simp add: mono_val_Cons comp_def del: seqs.simps)
  have "block = (pre @ map (mono_val oin) (map ((#) d) (seqs ?n d k))) @ map (mono_val oin) (seqs ?n (Suc d) (Suc k))"
    using Suc.prems(2) step [of k] by simp
  from Suc.hyps(1) [OF _ _ this refl] have rest:
    "mono_dims (drop (Suc d) oin) (map (\<lambda>e. length (seqs ?n e k)) [Suc d..<?n]) block (length (seqs ?n (Suc d) (Suc k))) =
      (map (mono_val oin) (seqs ?n (Suc d) (Suc (Suc k))), map (\<lambda>e. length (seqs ?n e (Suc k))) [Suc d..<?n])"
    using Suc.hyps(2) d by simp
  have sizes: "length (seqs ?n d k) + length (seqs ?n (Suc d) (Suc k)) = length (seqs ?n d (Suc k))" using step [of k] by simp
  show ?case unfolding oin list.map mono_dims.simps tot new Let_def rest prod.case sizes
    using step [of "Suc k"] by simp
qed

lemma mono_degrees_seqs:
  "mono_degrees oin (map (\<lambda>e. length (seqs (length oin) e k)) [0..<length oin]) (map (mono_val oin) (seqs (length oin) 0 (Suc k))) j =
    concat (map (\<lambda>i. map (mono_val oin) (seqs (length oin) 0 i)) [k + 2..<k + 2 + j])"
proof (induction j arbitrary: k)
  case (Suc j)
  have "mono_dims oin (map (\<lambda>e. length (seqs (length oin) e k)) [0..<length oin]) (map (mono_val oin) (seqs (length oin) 0 (Suc k)))
      (length (map (mono_val oin) (seqs (length oin) 0 (Suc k)))) =
    (map (mono_val oin) (seqs (length oin) 0 (Suc (Suc k))), map (\<lambda>e. length (seqs (length oin) e (Suc k))) [0..<length oin])"
    using mono_dims_seqs [of 0 oin _ "[]" k] by simp
  then show ?case using Suc.IH [of "Suc k"] by (simp add: upt_conv_Cons del: seqs.simps upt_Suc)
qed simp

lemma inhomogeneous_seqs:
  "inhomogeneous_features oin degree = map (mono_val oin) (concat (map (seqs (length oin) 0) [0..<degree + 1]))"
proof (cases degree)
  case 0
  then show ?thesis by (simp add: inhomogeneous_features_def mono_val_def)
next
  case (Suc d)
  have one: "seqs (length oin) 0 (Suc 0) = map (\<lambda>i. [i]) [0..<length oin]"
    by (simp add: map_concat [symmetric] comp_def concat_map_singleton)
  have lin: "map (mono_val oin) (seqs (length oin) 0 (Suc 0)) = oin" 
    unfolding one by (simp add: comp_def mono_val_def map_nth)
  have "mono_degrees oin (replicate (length oin) 1) oin d = concat (map (\<lambda>i. map (mono_val oin) (seqs (length oin) 0 i)) [2..<2 + d])"
    using mono_degrees_seqs [of oin 0 d] lin by (simp add: map_replicate_const numeral_2_eq_2 del: upt_Suc)
  moreover have "[0..<degree + 1] = 0 # Suc 0 # [2..<2 + d]" using Suc by (simp add: upt_conv_Cons numeral_2_eq_2 del: upt_Suc)
  ultimately show ?thesis using Suc lin by (simp add: inhomogeneous_features_def mono_val_def [of oin "[]"] map_concat comp_def del: seqs.simps(2) upt_Suc)
qed

fun lseq :: "nat \<Rightarrow> nat \<Rightarrow> nat" where
  "lseq m 0 = 1"
| "lseq 0 (Suc k) = 0"
| "lseq (Suc m) (Suc k) = lseq (Suc m) k + lseq m (Suc k)"

lemma length_seqs: "s \<le> n \<Longrightarrow> length (seqs n s k) = lseq (n - s) k"
proof (induction "n - s" k arbitrary: s rule: lseq.induct)
  case (3 m k)
  then have s: "s < n" "n - Suc s = m" by simp_all
  have "length (seqs n s k) = lseq (n - s) k" "length (seqs n (Suc s) (Suc k)) = lseq m (Suc k)"
    using 3(1) [of s] 3(2) [of "Suc s"] 3(3,4) s by auto
  then show ?case using seqs_step [OF s(1), of k] 3(3) [symmetric] by (simp del: seqs.simps)
qed auto

lemma lseq_binomial: "lseq (Suc m) k = (m + k) choose k"
proof (induction m arbitrary: k)
  case 0
  show ?case by (induction k) auto
next
  case (Suc m)
  show ?case
  proof (induction k)
    case (Suc k)
    then show ?case using Suc.IH \<open>\<And>k. lseq (Suc m) k = m + k choose k\<close> [of "Suc k"] by simp
  qed simp
qed

lemma sum_lseq: "(\<Sum>k\<leftarrow>[0..<d + 1]. lseq m k) = (m + d) choose d"
proof (induction d)
  case (Suc d)
  have "(m + Suc d) choose Suc d = lseq (Suc m) (Suc d)" by (simp only: lseq_binomial)
  also have "\<dots> = lseq (Suc m) d + lseq m (Suc d)" by simp
  also have "\<dots> = ((m + d) choose d) + lseq m (Suc d)" by (simp only: lseq_binomial)
  finally show ?case using Suc.IH by simp
qed simp

lemma fact_word_fact: "n \<le> 20 \<Longrightarrow> fact_word n = fact n"
proof (induction n)
  case (Suc n)
  have "fact (Suc n) \<le> (fact 20 :: nat)" using Suc.prems by (rule fact_mono_nat)
  also have "\<dots> < size_max + 1" by (simp add: fact_numeral size_max_def)
  finally show ?case using Suc by (simp add: algebra_simps)
qed simp

lemma monomial_memory_binomial:
  assumes "degree + n \<le> 20"
  shows "monomial_memory False degree n = Some ((n + degree) choose degree)"
proof -
  have facts: "fact_word degree = fact degree" "fact_word n = fact n" "fact_word (degree + n) = fact (degree + n)"
    using assms by (simp_all add: fact_word_fact)
  have dvd: "fact degree * fact n dvd (fact (degree + n) :: nat)" by (rule fact_fact_dvd_fact)
  then have "fact degree * fact n \<le> (fact (degree + n) :: nat)" by (simp add: dvd_imp_le)
  also have "\<dots> \<le> fact 20" using assms by (rule fact_mono_nat)
  also have "\<dots> < size_max + 1" by (simp add: fact_numeral size_max_def)
  finally have small: "(fact degree * fact n) mod (size_max + 1) = (fact degree * fact n :: nat)" by simp
  have "fact (degree + n) div (fact degree * fact n) = (n + degree) choose degree"
    using binomial_fact_lemma [of degree "n + degree"] 
    by (metis add.commute diff_add_inverse2 fact_nonzero le_add2 mult_eq_0_iff nonzero_mult_div_cancel_left)
  then show ?thesis using facts small by (simp add: monomial_memory_def Let_def)
qed

text \<open>C26: the monomial projector has a feature for every monomial up to its degree, each once: the products of the inputs,
  relative to the origin, at all index lists that do not decrease; and it announces just as many features.\<close>

theorem monomials_enumerated:
  assumes "monomial_configure False degree origin = Inr (mp, mem)" "length inp = length origin" "degree + length origin \<le> 20"
  shows "\<exists>iss. monomial_project mp inp = Inr (VectorProjection (map (\<lambda>is. \<Prod>i\<leftarrow>is. inp ! i - origin ! i) iss)) \<and>
    length iss = mem \<and> distinct iss \<and>
    set iss = {is. sorted is \<and> length is \<le> degree \<and> (\<forall>i \<in> set is. i < length origin)}"
proof -
  let ?n = "length origin" and ?oin = "vsub inp origin"
  define iss where "iss = concat (map (seqs ?n 0) [0..<degree + 1])"
  have set_iss: "set iss = {is. sorted is \<and> length is \<le> degree \<and> (\<forall>i \<in> set is. i < ?n)}"
    unfolding iss_def by (auto simp: set_seqs simp del: seqs.simps)
  have dist: "distinct (concat (map (seqs ?n 0) ks))" if "distinct ks" for ks
    using that by (induction ks) (auto simp: distinct_seqs set_seqs)
  have len: "length iss = (?n + degree) choose degree"
    unfolding iss_def length_concat map_map comp_def using length_seqs [of 0 ?n] sum_lseq [of ?n degree] by simp
  have mp: "mp = \<lparr>mp_homogeneous = False, mp_degree = degree, mp_memory = mem, mp_origin = origin\<rparr>" "mem = (?n + degree) choose degree"
    using assms(1) monomial_memory_binomial [OF assms(3)] by (auto simp: monomial_configure_def)
  have feat: "inhomogeneous_features ?oin degree = map (mono_val ?oin) iss"
    using inhomogeneous_seqs [of ?oin degree] assms(2) unfolding iss_def by simp
  have vals: "map (mono_val ?oin) iss = map (\<lambda>is. \<Prod>i\<leftarrow>is. inp ! i - origin ! i) iss"
  proof (rule map_cong [OF refl])
    fix "is" assume "is \<in> set iss"
    then show "mono_val ?oin is = (\<Prod>i\<leftarrow>is. inp ! i - origin ! i)"
      using assms(2) set_iss by (auto simp: mono_val_def intro!: arg_cong [of _ _ prod_list])
  qed
  have "monomial_project mp inp = Inr (VectorProjection (map (\<lambda>is. \<Prod>i\<leftarrow>is. inp ! i - origin ! i) iss))"
    using assms(2) feat vals len mp by (simp add: monomial_project_def Let_def)
  moreover have "distinct iss" unfolding iss_def by (rule dist) simp
  ultimately show ?thesis using len mp(2) set_iss by blast
qed

theorem monomials_enumerated_witness:
  "\<exists>iss. monomial_project \<lparr>mp_homogeneous = False, mp_degree = 2, mp_memory = 6, mp_origin = [0, 1]\<rparr> [3, 5] =
    Inr (VectorProjection (map (\<lambda>is. \<Prod>i\<leftarrow>is. [3, 5] ! i - [0, 1] ! i) iss)) \<and> length iss = 6"
proof -
  have "monomial_configure False 2 [0, 1] = Inr (\<lparr>mp_homogeneous = False, mp_degree = 2, mp_memory = 6, mp_origin = [0, 1]\<rparr>, 6)"
    using monomial_memory_binomial [of 2 2] by (simp add: monomial_configure_def numeral_eq_Suc)
  from monomials_enumerated [OF this, of "[3, 5]"] show ?thesis by auto
qed

lemma count_mono_below: "(\<And>c. c \<in> set count \<Longrightarrow> c < n) \<Longrightarrow> (\<forall>c \<in> set (count_mono count). c < n) \<and> length (count_mono count) = length count"
proof (induction count rule: count_mono.induct)
  case (1 c d cs)
  have "d < n" using 1(2) by simp
  then have "0 < n" "\<not> d < Suc c \<Longrightarrow> Suc c < n" by simp_all
  then show ?case using 1 by auto
qed auto

lemma mono_loop_scales:
  assumes "\<And>c. c \<in> set count \<Longrightarrow> c < length oin" "length oin < length count"
  shows "mono_loop (vscale a oin) m count = vscale (a ^ length oin) (mono_loop oin m count)"
  using assms
proof (induction m arbitrary: count)
  case (Suc m)
  have "foldl (\<lambda>v dd. v * vscale a oin ! (count ! dd)) 1 [0..<k] = a ^ k * foldl (\<lambda>v dd. v * oin ! (count ! dd)) 1 [0..<k]"
    if "k \<le> length oin" for k
    using that Suc.prems by (induction k) (auto simp: vscale_def)
  then show ?case using Suc.IH [of "count_mono count"] count_mono_below [of count "length oin"] Suc.prems
    by (simp add: vscale_def)
qed (simp add: vscale_def)

text \<open>from degree three on, the features that should be homogeneous monomials of the degree have the number of inputs for
  their degree instead: scaling the input scales each of them by the factor to the power of the number of inputs.\<close>

theorem homogeneous_degree_ignored:
  assumes "mp_homogeneous mp" "3 \<le> mp_degree mp" "mp_origin mp = replicate n 0" "length inp = n" "0 < n"
  shows "\<exists>v. monomial_project mp inp = Inr (VectorProjection v) \<and> length v = mp_memory mp \<and>
    monomial_project mp (vscale a inp) = Inr (VectorProjection (vscale (a ^ n) v))"
proof -
  have oin: "vsub inp (replicate n 0) = inp" "vsub (vscale a inp) (replicate n 0) = vscale a inp"
    using assms(4) by (auto intro!: nth_equalityI)
  have len: "length (mono_loop v m count) = m" for v m count by (induction m arbitrary: count) auto
  let ?count = "replicate (length inp) 0 @ [length inp - 1]"
  have "mono_loop (vscale a inp) (mp_memory mp) ?count = vscale (a ^ length inp) (mono_loop inp (mp_memory mp) ?count)"
    using assms(4,5) by (intro mono_loop_scales) auto
  then show ?thesis using assms(1-4) oin len
    by (auto simp: monomial_project_def homogeneous_features_def Let_def)
qed

theorem homogeneous_degree_ignored_witness:
  "\<exists>v. monomial_project \<lparr>mp_homogeneous = True, mp_degree = 3, mp_memory = 4, mp_origin = [0, 0]\<rparr> [1, 5] = Inr (VectorProjection v) \<and>
    length v = 4 \<and> monomial_project \<lparr>mp_homogeneous = True, mp_degree = 3, mp_memory = 4, mp_origin = [0, 0]\<rparr> (vscale 2 [1, 5]) =
      Inr (VectorProjection (vscale 4 v))"
  using homogeneous_degree_ignored [of "\<lparr>mp_homogeneous = True, mp_degree = 3, mp_memory = 4, mp_origin = [0, 0]\<rparr>" 2 "[1, 5]" 2]
  by (simp add: numeral_2_eq_2)

end
