(* ===== verification/RbfFacts.thy ===== *)
theory RbfFacts
  imports BasisFacts
begin

text \<open>
  Facts about radial basis functions on a grid: the triangular ones have non-negative weights that add up to one, at
  grid points whose weighted mean is the input, and the Gaussian ones are those of the grid points where the
  activation is above the cut-off.
\<close>

section \<open>Numbers in a mixed base\<close>

fun mix :: "nat list \<Rightarrow> nat list \<Rightarrow> nat" where
  "mix (n # ns) (v # vs) = v + n * mix ns vs"
| "mix ns vs = 0"

lemma mix_less: "list_all2 (<) vs ns \<Longrightarrow> mix ns vs < prod_list ns"
proof (induction vs ns rule: list_all2_induct)
  case (Cons v vs n ns)
  then have "n * Suc (mix ns vs) \<le> n * prod_list ns" by (intro mult_le_mono2) simp
  then show ?case using Cons(1) by simp
qed simp

lemma mix_digit: "list_all2 (<) vs ns \<Longrightarrow> dd < length ns \<Longrightarrow> mix ns vs div prod_list (take dd ns) mod ns ! dd = vs ! dd"
proof (induction vs ns arbitrary: dd rule: list_all2_induct)
  case (Cons v vs n ns)
  have "(v + n * mix ns vs) mod n = v" "(v + n * mix ns vs) div n = mix ns vs" using Cons(1) by simp_all
  then show ?case using Cons(3,4) by (cases dd) (simp_all add: div_mult2_eq)
qed simp

lemma mix_add: "length vs = length ws \<Longrightarrow> mix ns vs + mix ns ws = mix ns (map2 (+) vs ws)"
proof (induction ns arbitrary: vs ws)
  case (Cons n ns)
  note IH = Cons.IH and prems = Cons.prems
  show ?case
  proof (cases vs)
    case (Cons v vs')
    then obtain w ws' where ws: "ws = w # ws'" "length vs' = length ws'" using prems by (cases ws) auto
    show ?thesis unfolding Cons ws(1) by (simp add: distrib_left flip: IH [OF ws(2)])
  qed (use prems in simp)
qed simp

fun strs :: "nat \<Rightarrow> nat list \<Rightarrow> nat list" where
  "strs ff [] = []"
| "strs ff (n # ns) = ff # strs (ff * n) ns"

lemma length_strs [simp]: "length (strs ff ns) = length ns"
  by (induction ns arbitrary: ff) simp_all

lemma strides_strs: "strides ff (map real ns) = strs ff ns"
proof (induction ns arbitrary: ff)
  case (Cons n ns)
  have "nat (c_trunc (real ff * real n)) = ff * n" by (simp add: c_trunc_def flip: of_nat_mult)
  then show ?case using Cons by simp
qed simp

lemma sum_strs: "length vs = length ns \<Longrightarrow> sum_list (map2 (*) vs (strs ff ns)) = ff * mix ns vs"
proof (induction ns arbitrary: vs ff)
  case (Cons n ns)
  then show ?case by (cases vs) (simp_all add: algebra_simps)
qed simp

section \<open>Corners of a cell\<close>

lemma digits_two: "digits 1 (Suc n) ii = (if odd ii then 1 else 0) # digits 1 n (ii div 2)"
  by (simp add: digits_simps(2) mod2_eq_if del: One_nat_def)

lemma fst_corner: "length ds = length ns \<Longrightarrow> fst (corner ii (zip (strs ff ns) ds)) = ff * mix ns (digits 1 (length ns) ii)"
proof (induction ns arbitrary: ii ff ds)
  case (Cons n ns)
  then obtain d es where ds: "ds = d # es" "length es = length ns" by (cases ds) auto
  show ?case using Cons.IH [OF ds(2), of "ii div 2" "ff * n"]
    by (auto simp: ds(1) digits_two Let_def algebra_simps split: prod.splits simp del: One_nat_def)
qed simp

lemma snd_corner_nonneg: "(\<forall>d \<in> set ds. 0 \<le> snd d \<and> snd d \<le> 1) \<Longrightarrow> 0 \<le> snd (corner ii ds)"
proof (induction ds arbitrary: ii)
  case (Cons d ds)
  obtain st x where d: "d = (st, x)" by (cases d)
  obtain diff w where c: "corner (ii div 2) ds = (diff, w)" by (cases "corner (ii div 2) ds")
  have "0 \<le> w" "0 \<le> x" "x \<le> 1" using Cons.IH [of "ii div 2"] Cons.prems c d by auto
  then show ?case using c d by simp
qed simp

lemma sum_double: "(\<Sum>ii<2 * m. g ii) = (\<Sum>j<m. g (2 * j) + g (2 * j + 1))" for g :: "nat \<Rightarrow> real" and m :: nat
  by (induction m) simp_all

lemma corner_even_odd: "snd (corner (2 * j) (d # ds)) = (1 - snd d) * snd (corner j ds)"
  "snd (corner (2 * j + 1) (d # ds)) = snd d * snd (corner j ds)"
  by (cases d; simp add: Let_def split: prod.splits)+

lemma sum_corners: "(\<Sum>ii<2 ^ length ds. snd (corner ii ds)) = 1"
proof (induction ds)
  case (Cons d ds)
  have "(\<Sum>ii<2 ^ length (d # ds). snd (corner ii (d # ds))) = (\<Sum>j<2 ^ length ds. snd (corner j ds))"
    unfolding length_Cons power_Suc sum_double corner_even_odd by (intro sum.cong) (simp_all add: algebra_simps)
  then show ?case using Cons by simp
qed simp

lemma mean_corners:
  "dd < length ds \<Longrightarrow> (\<Sum>ii<2 ^ length ds. snd (corner ii ds) * real (digits 1 (length ds) ii ! dd)) = snd (ds ! dd)"
proof (induction ds arbitrary: dd)
  case (Cons d ds)
  have two: "digits 1 (Suc n) (2 * j) = 0 # digits 1 n j" "digits 1 (Suc n) (2 * j + 1) = 1 # digits 1 n j" for n j
    unfolding digits_two by simp_all
  show ?case
  proof (cases dd)
    case 0
    have "(\<Sum>ii<2 ^ length (d # ds). snd (corner ii (d # ds)) * real (digits 1 (length (d # ds)) ii ! dd)) =
      (\<Sum>j<2 ^ length ds. snd d * snd (corner j ds))"
      unfolding length_Cons power_Suc sum_double corner_even_odd two 0 by (intro sum.cong) simp_all
    then show ?thesis using sum_corners [of ds] 0 by (simp flip: sum_distrib_left)
  next
    case (Suc k)
    have "(\<Sum>ii<2 ^ length (d # ds). snd (corner ii (d # ds)) * real (digits 1 (length (d # ds)) ii ! dd)) =
      (\<Sum>j<2 ^ length ds. snd (corner j ds) * real (digits 1 (length ds) j ! k))"
      unfolding length_Cons power_Suc sum_double corner_even_odd two Suc by (intro sum.cong) (simp_all add: algebra_simps)
    then show ?thesis using Cons Suc by simp
  qed
qed simp

lemma digits_below: "list_all2 (<) cells (map (\<lambda>n. n - 1) ns) \<Longrightarrow> list_all2 (<) (map2 (+) cells (digits 1 (length ns) ii)) ns"
proof (induction ns arbitrary: cells ii)
  case (Cons n ns)
  then obtain c cs where c: "cells = c # cs" "c < n - 1" "list_all2 (<) cs (map (\<lambda>n. n - 1) ns)"
    by (cases cells) auto
  show ?case using c Cons.IH [OF c(3), of "ii div 2"] by (auto simp: digits_two simp del: One_nat_def)
qed simp

section \<open>Triangular basis functions\<close>

lemma rbf_configured:
  assumes "rbf_configure mi ma (map real ns) = Inr (rb, mem)"
  shows "rb_min rb = mi" "rb_steps rb = map real ns" "rb_max rb = ma" "rb_stride rb = strs 1 ns" "length ma = length ns" "length mi = length ns"
    "dd < length ns \<Longrightarrow> rb_delta rb ! dd = (ma ! dd - mi ! dd) / (real (ns ! dd) - 1)" "dd < length ns \<Longrightarrow> mi ! dd \<noteq> ma ! dd"
    "dd < length ns \<Longrightarrow> ns ! dd \<noteq> 1" "nat mem = prod_list ns" "length (rb_delta rb) = length ns"
proof -
  have "prod_list (map real ns) = real (prod_list ns)" by (induction ns) simp_all
  then have mem: "c_trunc (vec_prod (map real ns)) = int (prod_list ns)" by (simp add: vec_prod_eq c_trunc_def)
  have len: "length mi = length ma" "length mi = length ns" using assms by (auto simp: rbf_configure_def split: if_splits)
  have ok: "\<not> (\<exists>i \<in> set [0..<length mi]. mi ! i = ma ! i \<or> map real ns ! i = 1)"
    using assms by (auto simp: rbf_configure_def split: if_splits)
  have rb: "rb = \<lparr>rb_min = mi, rb_max = ma, rb_steps = map real ns,
      rb_delta = map2 (/) (vsub ma mi) (map (\<lambda>s. s - 1) (map real ns)), rb_stride = strides 1 (map real ns)\<rparr>" "mem = int (prod_list ns)"
    using assms mem by (auto simp: rbf_configure_def split: if_splits)
  show "rb_min rb = mi" "rb_steps rb = map real ns" "rb_max rb = ma" "rb_stride rb = strs 1 ns" "length ma = length ns" "length mi = length ns"
    "nat mem = prod_list ns" "length (rb_delta rb) = length ns"
    using rb len strides_strs by simp_all
  assume dd: "dd < length ns"
  then show "rb_delta rb ! dd = (ma ! dd - mi ! dd) / (real (ns ! dd) - 1)" using rb len by simp
  have "mi ! dd \<noteq> ma ! dd \<and> map real ns ! dd \<noteq> 1" using ok dd len by simp
  then show "mi ! dd \<noteq> ma ! dd" "ns ! dd \<noteq> 1" using dd by auto
qed

text \<open>C27: triangular basis functions interpolate: their weights are not negative and add up to one, all indices are in the
  memory, and the mean of the coordinates of their grid points, with these weights, is the input, if it is
  inside the grid and not within the last ten-billionth of a step.\<close>

theorem triangle_interpolates:
  assumes "rbf_configure mi ma (map real ns) = Inr (rb, mem)" "length inp = length mi" "\<And>n. n \<in> set ns \<Longrightarrow> 2 \<le> n"
    and "\<And>dd. dd < length ns \<Longrightarrow> mi ! dd < ma ! dd"
  shows "\<exists>ip. triangle_project rb inp = Inr (IndexProjection ip) \<and> length (ip_weights ip) = length (ip_indices ip) \<and>
    (\<forall>w \<in> set (ip_weights ip). 0 \<le> w) \<and> sum_list (ip_weights ip) = 1 \<and> (\<forall>i \<in> set (ip_indices ip). i < nat mem) \<and>
    (\<forall>dd < length ns. mi ! dd \<le> inp ! dd \<and> inp ! dd \<le> ma ! dd - rb_delta rb ! dd / 10 ^ 10 \<longrightarrow>
      (\<Sum>(i, w)\<leftarrow>zip (ip_indices ip) (ip_weights ip).
         w * (mi ! dd + real (i div prod_list (take dd ns) mod ns ! dd) * rb_delta rb ! dd)) = inp ! dd)"
proof -
  note conf = rbf_configured [OF assms(1)]
  let ?k = "length ns"
  define cells where "cells = map (grid_cell rb inp) [0..<?k]"
  define dists where "dists = map (grid_dist rb inp) [0..<?k]"
  have delta: "0 < rb_delta rb ! dd" if "dd < ?k" for dd
  proof -
    have "2 \<le> ns ! dd" using assms(3) that by simp
    then have "0 < real (ns ! dd) - 1" by simp
    then show ?thesis using conf(7) [OF that] assms(4) [OF that] by simp
  qed
  have pos: "0 \<le> grid_position rb inp dd" "grid_position rb inp dd < real (ns ! dd) - 1" if "dd < ?k" for dd
  proof -
    have "2 \<le> ns ! dd" using assms(3) that by simp
    then have "0 \<le> real (ns ! dd) - 1 - 1 / 10 ^ 10" by simp
    then show "0 \<le> grid_position rb inp dd" "grid_position rb inp dd < real (ns ! dd) - 1"
      using that conf(2) by (auto simp: grid_position_def min_def)
  qed
  have cell: "grid_cell rb inp dd < ns ! dd - 1" "0 \<le> grid_dist rb inp dd" "grid_dist rb inp dd \<le> 1"
    "real (grid_cell rb inp dd) + grid_dist rb inp dd = grid_position rb inp dd" if "dd < ?k" for dd
  proof -
    have fl: "grid_cell rb inp dd = nat \<lfloor>grid_position rb inp dd\<rfloor>" using pos(1) [OF that] by (simp add: grid_cell_def c_trunc_def)
    have "2 \<le> ns ! dd" using assms(3) that by simp
    then have "\<lfloor>grid_position rb inp dd\<rfloor> < int (ns ! dd) - 1" using pos(2) [OF that] by (simp add: floor_less_iff)
    then show "grid_cell rb inp dd < ns ! dd - 1" using fl pos(1) [OF that] \<open>2 \<le> ns ! dd\<close> by linarith
    show "0 \<le> grid_dist rb inp dd" "grid_dist rb inp dd \<le> 1" using fl pos(1) [OF that] by (simp_all add: grid_dist_def) linarith+
  qed (simp add: grid_dist_def)
  have below: "list_all2 (<) cells (map (\<lambda>n. n - 1) ns)"
    unfolding list_all2_conv_all_nth cells_def using cell(1) by simp
  define ds where "ds = zip (strs 1 ns) dists"
  have ds: "map (\<lambda>dd. (rb_stride rb ! dd, grid_dist rb inp dd)) [0..<?k] = ds"
    using conf(4) by (intro nth_equalityI) (simp_all add: ds_def dists_def)
  have idx: "sum_list (map (\<lambda>dd. grid_cell rb inp dd * rb_stride rb ! dd) [0..<?k]) = mix ns cells"
  proof -
    have "map (\<lambda>dd. grid_cell rb inp dd * rb_stride rb ! dd) [0..<?k] = map2 (*) cells (strs 1 ns)"
      using conf(4) by (intro nth_equalityI) (simp_all add: cells_def)
    then show ?thesis using sum_strs [of cells ns 1] by (simp add: cells_def)
  qed
  let ?ip = "\<lparr>ip_indices = map (\<lambda>ii. mix ns (map2 (+) cells (digits 1 ?k ii))) [0..<2 ^ ?k],
      ip_weights = map (\<lambda>ii. snd (corner ii ds)) [0..<2 ^ ?k]\<rparr>"
  have "mix ns cells + fst (corner ii ds) = mix ns (map2 (+) cells (digits 1 ?k ii))" for ii
    using fst_corner [of dists ns ii 1] mix_add [of cells "digits 1 ?k ii" ns]
    by (simp add: ds_def dists_def cells_def digits_def)
  then have proj: "triangle_project rb inp = Inr (IndexProjection ?ip)"
    using assms(2) conf(1,2,6) ds idx by (simp add: triangle_project_def Let_def comp_def)
  have weights: "0 \<le> snd (corner ii ds)" for ii
  proof (rule snd_corner_nonneg)
    have "0 \<le> x \<and> x \<le> 1" if "x \<in> set dists" for x using that cell by (auto simp: dists_def)
    then show "\<forall>d \<in> set ds. 0 \<le> snd d \<and> snd d \<le> 1" by (auto simp: ds_def dest: set_zip_rightD)
  qed
  have len: "length ds = ?k" by (simp add: ds_def dists_def)
  have sum1: "sum_list (ip_weights ?ip) = 1"
    using sum_corners [of ds] len by (simp add: interv_sum_list_conv_sum_set_nat atLeast0LessThan)
  have inside: "\<forall>i \<in> set (ip_indices ?ip). i < nat mem"
    using mix_less [OF digits_below [OF below]] conf(10) by auto
  have mean: "(\<Sum>(i, w)\<leftarrow>zip (ip_indices ?ip) (ip_weights ?ip).
      w * (mi ! dd + real (i div prod_list (take dd ns) mod ns ! dd) * rb_delta rb ! dd)) =
      mi ! dd + grid_position rb inp dd * rb_delta rb ! dd" if dd: "dd < ?k" for dd
  proof -
    have dig: "mix ns (map2 (+) cells (digits 1 ?k ii)) div prod_list (take dd ns) mod ns ! dd =
        grid_cell rb inp dd + digits 1 ?k ii ! dd" for ii
      using mix_digit [OF digits_below [OF below] dd] dd by (simp add: cells_def digits_def)
    have "(\<Sum>(i, w)\<leftarrow>zip (ip_indices ?ip) (ip_weights ?ip).
      w * (mi ! dd + real (i div prod_list (take dd ns) mod ns ! dd) * rb_delta rb ! dd)) =
      (\<Sum>ii<2 ^ ?k. snd (corner ii ds) * (mi ! dd + real (grid_cell rb inp dd + digits 1 ?k ii ! dd) * rb_delta rb ! dd))"
      by (simp add: zip_map_map zip_same_conv_map comp_def dig interv_sum_list_conv_sum_set_nat atLeast0LessThan del: One_nat_def)
    also have "\<dots> = (mi ! dd + real (grid_cell rb inp dd) * rb_delta rb ! dd) * (\<Sum>ii<2 ^ ?k. snd (corner ii ds)) +
        rb_delta rb ! dd * (\<Sum>ii<2 ^ ?k. snd (corner ii ds) * real (digits 1 ?k ii ! dd))"
      unfolding sum_distrib_left sum.distrib [symmetric] by (intro sum.cong) (simp_all add: algebra_simps)
    also have "\<dots> = mi ! dd + (real (grid_cell rb inp dd) + grid_dist rb inp dd) * rb_delta rb ! dd"
      using sum_corners [of ds] mean_corners [of dd ds] len dd by (simp add: ds_def dists_def algebra_simps)
    finally show ?thesis using cell(4) [OF dd] by simp
  qed
  have "mi ! dd + grid_position rb inp dd * rb_delta rb ! dd = inp ! dd"
    if dd: "dd < ?k" and x: "mi ! dd \<le> inp ! dd" "inp ! dd \<le> ma ! dd - rb_delta rb ! dd / 10 ^ 10" for dd
  proof -
    have two: "2 \<le> ns ! dd" using assms(3) dd by simp
    have steps: "(real (ns ! dd) - 1) * rb_delta rb ! dd = ma ! dd - mi ! dd" using conf(7) [OF dd] two by simp
    have "(inp ! dd - mi ! dd) / rb_delta rb ! dd \<le> real (ns ! dd) - 1 - 1 / 10 ^ 10"
      unfolding pos_divide_le_eq [OF delta [OF dd]] using x(2) steps by (simp add: algebra_simps)
    moreover have "0 \<le> (inp ! dd - mi ! dd) / rb_delta rb ! dd" using x(1) delta [OF dd] by simp
    ultimately have "grid_position rb inp dd = (inp ! dd - mi ! dd) / rb_delta rb ! dd"
      using dd conf(1,2) by (simp add: grid_position_def)
    then show ?thesis using delta [OF dd] by simp
  qed
  then show ?thesis using proj weights sum1 inside mean by (intro exI [of _ ?ip]) auto
qed

definition unit_grid :: rbf where
  "unit_grid = \<lparr>rb_min = [0, 0], rb_max = [2, 1], rb_steps = [3, 2], rb_delta = [1, 1], rb_stride = [1, 3]\<rparr>"

lemma unit_grid: "rbf_configure [0, 0] [2, 1] (map real [3, 2]) = Inr (unit_grid, 6)"
proof -
  have "\<not> (\<exists>i \<in> set [0..<length [0 :: real, 0]]. [0, 0 :: real] ! i = [2, 1] ! i \<or> map real [3, 2] ! i = 1)"
    by (simp add: nth_Cons')
  then show ?thesis by (simp add: rbf_configure_def unit_grid_def vec_prod_def c_trunc_def vsub_def)
qed

theorem triangle_interpolates_witness:
  "\<exists>ip. triangle_project unit_grid [1 / 2, 1 / 4] = Inr (IndexProjection ip) \<and> sum_list (ip_weights ip) = 1 \<and>
    (\<forall>i \<in> set (ip_indices ip). i < 6) \<and>
    (\<Sum>(i, w)\<leftarrow>zip (ip_indices ip) (ip_weights ip). w * (real (i mod 3) * 1)) = 1 / 2"
proof -
  have "([3, 2] :: nat list) ! dd = (if dd = 0 then 3 else 2)" "([0, 0] :: dvec) ! dd = 0" "([2, 1] :: dvec) ! dd = (if dd = 0 then 2 else 1)"
    if "dd < 2" for dd using that by (auto simp: less_2_cases_iff)
  then show ?thesis using triangle_interpolates [OF unit_grid, of "[1 / 2, 1 / 4]"]
    by (fastforce simp: unit_grid_def dest: spec [of _ "0 :: nat"])
qed

section \<open>Gaussian basis functions\<close>

fun mdig :: "nat list \<Rightarrow> nat \<Rightarrow> nat list" where
  "mdig [] k = []"
| "mdig (n # ns) k = k mod n # mdig ns (k div n)"

lemma length_mdig [simp]: "length (mdig ns k) = length ns"
  by (induction ns arbitrary: k) simp_all

lemma nth_mdig: "dd < length ns \<Longrightarrow> mdig ns k ! dd = k div prod_list (take dd ns) mod ns ! dd"
proof (induction ns arbitrary: k dd)
  case (Cons n ns)
  then show ?case by (cases dd) (simp_all add: div_mult2_eq)
qed simp

lemma mdig_zero: "mdig ns 0 = replicate (length ns) 0"
  by (induction ns) simp_all

lemma next_diff_mdig:
  assumes "length lo = length ns" "\<And>n. n \<in> set ns \<Longrightarrow> 0 < n"
  shows "next_diff (zip lo (map2 (\<lambda>l n. l + (real n - 1)) lo ns)) (map2 (\<lambda>l v. l + real v) lo (mdig ns k)) =
    map2 (\<lambda>l v. l + real v) lo (mdig ns (Suc k))"
  using assms
proof (induction ns arbitrary: lo k)
  case (Cons n ns)
  then obtain l ls where lo: "lo = l # ls" "length ls = length ns" by (cases lo) auto
  have n: "0 < n" using Cons.prems(2) by simp
  have IH: "next_diff (zip ls (map2 (\<lambda>l n. l + (real n - 1)) ls ns)) (map2 (\<lambda>l v. l + real v) ls (mdig ns j)) =
      map2 (\<lambda>l v. l + real v) ls (mdig ns (Suc j))" for j
    using Cons.IH [OF lo(2)] Cons.prems(2) by simp
  have kn: "k mod n < n" using n by simp
  show ?case
  proof (cases "Suc (k mod n) = n")
    case True
    then have "Suc k mod n = 0" "Suc k div n = Suc (k div n)" by (simp_all add: mod_Suc div_Suc)
    moreover have "real (k mod n) + 1 = real n" using True by (metis of_nat_Suc add.commute)
    then have "l + real (k mod n) + 1 > l + (real n - 1) + 1 / 10 ^ 5" by simp
    ultimately show ?thesis using lo IH by simp
  next
    case False
    then have "Suc k mod n = Suc (k mod n)" "Suc k div n = k div n" by (simp_all add: mod_Suc div_Suc)
    moreover have "\<not> l + real (k mod n) + 1 > l + (real n - 1) + 1 / 10 ^ 5"
    proof -
      have "Suc (Suc (k mod n)) \<le> n" using False kn by simp
      then have "real (k mod n) + 2 \<le> real n" by (metis add_2_eq_Suc' of_nat_add of_nat_le_iff of_nat_numeral)
      then show ?thesis by simp
    qed
    ultimately show ?thesis using lo by simp
  qed
qed simp

lemma gauss_loop_features:
  assumes "length lo = length ns" "\<And>n. n \<in> set ns \<Longrightarrow> 0 < n"
  shows "gauss_loop sigma cutoff (zip lo (map2 (\<lambda>l n. l + (real n - 1)) lo ns)) n k (map2 (\<lambda>l v. l + real v) lo (mdig ns k)) =
    map (\<lambda>ii. (ii, exp (- (let d = map2 (\<lambda>l v. l + real v) lo (mdig ns ii) in dot d d) / (sigma * sigma))))
      (filter (\<lambda>ii. gauss_active sigma cutoff (let d = map2 (\<lambda>l v. l + real v) lo (mdig ns ii) in dot d d)) [k..<k + n])"
proof (induction n arbitrary: k)
  case (Suc n)
  show ?case using Suc.IH [of "Suc k"] next_diff_mdig [OF assms, of k]
    by (simp add: Let_def upt_conv_Cons del: upt_Suc)
qed simp

text \<open>The activation of a Gaussian basis function at a grid point.\<close>

definition gauss_act :: "real \<Rightarrow> rbf \<Rightarrow> nat list \<Rightarrow> dvec \<Rightarrow> nat \<Rightarrow> real" where
  "gauss_act sigma rb ns inp ii =
     exp (- (\<Sum>dd<length ns. ((rb_min rb ! dd + real (ii div prod_list (take dd ns) mod ns ! dd) * rb_delta rb ! dd - inp ! dd) /
       rb_delta rb ! dd)\<^sup>2) / sigma\<^sup>2)"

text \<open>the Gaussian projector has the basis functions of the grid points at which the activation of the input is above the
  cut-off, in the order of the grid, with the activations as weights.\<close>

theorem gauss_features:
  assumes "rbf_configure mi ma (map real ns) = Inr (rb, mem)" "length inp = length mi" "\<And>n. n \<in> set ns \<Longrightarrow> 2 \<le> n"
    and "0 < sigma" "0 < cutoff"
  shows "gauss_project sigma cutoff rb inp = Inr (IndexProjection
    \<lparr>ip_indices = filter (\<lambda>ii. cutoff < gauss_act sigma rb ns inp ii) [0..<nat mem],
     ip_weights = map (gauss_act sigma rb ns inp) (filter (\<lambda>ii. cutoff < gauss_act sigma rb ns inp ii) [0..<nat mem])\<rparr>)"
proof -
  note conf = rbf_configured [OF assms(1)]
  let ?k = "length ns" and ?lo = "map2 (/) (vsub (rb_min rb) inp) (rb_delta rb)"
  have lo: "length ?lo = ?k" using assms(2) conf by simp
  have delta: "rb_delta rb ! dd \<noteq> 0" if dd: "dd < ?k" for dd
  proof -
    have "2 \<le> ns ! dd" using assms(3) dd by simp
    then show ?thesis using conf(7,8) [OF dd] by simp
  qed
  have hi: "map2 (/) (vsub (rb_max rb) inp) (rb_delta rb) = map2 (\<lambda>l n. l + (real n - 1)) ?lo ns"
  proof (rule nth_equalityI)
    fix dd assume "dd < length (map2 (/) (vsub (rb_max rb) inp) (rb_delta rb))"
    then have dd: "dd < ?k" using conf(5) assms(2) conf by simp
    have "2 \<le> ns ! dd" using assms(3) dd by simp
    then have steps: "ma ! dd - mi ! dd = (real (ns ! dd) - 1) * rb_delta rb ! dd" using conf(7) [OF dd] by simp
    have "(ma ! dd - inp ! dd) / rb_delta rb ! dd = (mi ! dd - inp ! dd + (real (ns ! dd) - 1) * rb_delta rb ! dd) / rb_delta rb ! dd"
      using steps by (simp add: algebra_simps)
    also have "\<dots> = (mi ! dd - inp ! dd) / rb_delta rb ! dd + (real (ns ! dd) - 1)"
      using delta [OF dd] by (simp add: add_divide_distrib)
    finally show "map2 (/) (vsub (rb_max rb) inp) (rb_delta rb) ! dd = map2 (\<lambda>l n. l + (real n - 1)) ?lo ns ! dd"
      using dd conf assms(2) by simp
  qed (use conf assms(2) in simp)
  have start: "map2 (\<lambda>l v. l + real v) ?lo (mdig ns 0) = ?lo"
    by (rule nth_equalityI) (use lo in \<open>simp_all add: mdig_zero\<close>)
  have dist: "(let d = map2 (\<lambda>l v. l + real v) ?lo (mdig ns ii) in dot d d) =
      (\<Sum>dd<?k. ((mi ! dd + real (ii div prod_list (take dd ns) mod ns ! dd) * rb_delta rb ! dd - inp ! dd) / rb_delta rb ! dd)\<^sup>2)" for ii
  proof -
    have len: "length (vmul (map2 (\<lambda>l v. l + real v) ?lo (mdig ns ii)) (map2 (\<lambda>l v. l + real v) ?lo (mdig ns ii))) = ?k"
      using lo by simp
    have "(mi ! dd - inp ! dd) / rb_delta rb ! dd + real (mdig ns ii ! dd) =
        (mi ! dd + real (ii div prod_list (take dd ns) mod ns ! dd) * rb_delta rb ! dd - inp ! dd) / rb_delta rb ! dd" if dd: "dd < ?k" for dd
      using delta [OF dd] nth_mdig [OF dd] by (simp add: field_simps)
    then show ?thesis unfolding Let_def dot_def vec_sum_eq sum_list_sum_nth len atLeast0LessThan
      using conf assms(2) by (intro sum.cong) (simp_all add: power2_eq_square)
  qed
  have act: "gauss_act sigma rb ns inp ii = exp (- (let d = map2 (\<lambda>l v. l + real v) ?lo (mdig ns ii) in dot d d) / (sigma * sigma))" for ii
    unfolding gauss_act_def dist using conf(1) by (simp add: power2_eq_square)
  have active: "gauss_active sigma cutoff q \<longleftrightarrow> cutoff < exp (- q / (sigma * sigma))" for q
  proof -
    have "cutoff < exp (- q / (sigma * sigma)) \<longleftrightarrow> ln cutoff < - q / (sigma * sigma)"
      using assms(5) by (metis exp_less_cancel_iff exp_ln)
    also have "\<dots> \<longleftrightarrow> q < - (sigma * sigma) * ln cutoff"
    proof -
      have "ln cutoff < - q / (sigma * sigma) \<longleftrightarrow> ln cutoff * (sigma * sigma) < - q"
        by (rule pos_less_divide_eq) (use assms(4) in simp)
      then show ?thesis by (simp add: algebra_simps) linarith
    qed
    finally show ?thesis using assms(5) by (simp add: gauss_active_def)
  qed
  have "gauss_loop sigma cutoff (zip ?lo (map2 (\<lambda>l n. l + (real n - 1)) ?lo ns)) (prod_list ns) 0 ?lo =
    map (\<lambda>ii. (ii, gauss_act sigma rb ns inp ii)) (filter (\<lambda>ii. cutoff < gauss_act sigma rb ns inp ii) [0..<prod_list ns])"
    using gauss_loop_features [OF lo, of sigma cutoff "prod_list ns" 0] assms(3) start
    unfolding active act by fastforce
  moreover have "prod_list (map real ns) = real (prod_list ns)" by (induction ns) simp_all
  ultimately show ?thesis using assms(2) conf(1,2,10) hi
    by (simp add: gauss_project_def Let_def comp_def vec_prod_eq c_trunc_def) 
qed

theorem gauss_features_witness:
  "\<exists>ip. gauss_project 1 (1 / 1000) unit_grid [1 / 2, 1 / 4] = Inr (IndexProjection ip) \<and>
    ip_indices ip = filter (\<lambda>ii. 1 / 1000 < gauss_act 1 unit_grid [3, 2] [1 / 2, 1 / 4] ii) [0..<6]"
proof -
  have "n \<in> set [3, 2] \<Longrightarrow> 2 \<le> n" for n :: nat by auto
  from gauss_features [OF unit_grid _ this, of "[1 / 2, 1 / 4]" 1 "1 / 1000"] show ?thesis by simp
qed

end
