(* ===== verification/ProjectorFacts.thy ===== *)
theory ProjectorFacts
  imports Projectors RepFacts
begin

text \<open>
  Facts about projectors that build on others: normalized inputs stay in their range, the Jacobian of the peaked
  projector is its derivative, the union of projectors reads the sum of their parts unless only some of them have
  weights, and the split projector keeps the features of different cells apart.
\<close>

section \<open>Inputs\<close>

text \<open>an input within its limits is normalized to zero to one, or to minus one to one if the projector is signed, and the limits
  themselves to the ends of this range.\<close>

theorem normalized_range:
  assumes "normalizing_configure mi ma both = Inr nm" "length inp = length mi" "dd < length mi" "mi ! dd < ma ! dd"
    and "mi ! dd \<le> inp ! dd" "inp ! dd \<le> ma ! dd"
  shows "(if both then -1 else 0) \<le> normalized nm inp ! dd \<and> normalized nm inp ! dd \<le> 1 \<and>
    (inp ! dd = mi ! dd \<longrightarrow> normalized nm inp ! dd = (if both then -1 else 0)) \<and> (inp ! dd = ma ! dd \<longrightarrow> normalized nm inp ! dd = 1)"
proof -
  have nm: "nm = \<lparr>nm_min = mi, nm_max = ma, nm_scaling = vscale (1 + of_bool both) (range_scaling mi ma), nm_signed = of_bool both\<rparr>"
    "length ma = length mi"
    using assms(1) by (auto simp: normalizing_configure_def split: if_splits)
  define q where "q = (inp ! dd - mi ! dd) / (ma ! dd - mi ! dd)"
  have q: "0 \<le> q" "q \<le> 1" "inp ! dd = mi ! dd \<longrightarrow> q = 0" "inp ! dd = ma ! dd \<longrightarrow> q = 1"
    using assms(4-6) by (simp_all add: q_def)
  have "normalized nm inp ! dd = q * (1 + of_bool both) - of_bool both"
    using assms(2,3) nm by (simp add: normalized_def range_scaling_def q_def)
  then show ?thesis using q by (cases both) auto
qed

theorem normalized_range_witness:
  "-1 \<le> normalized \<lparr>nm_min = [0], nm_max = [4], nm_scaling = [1 / 2], nm_signed = 1\<rparr> [4] ! 0 \<and>
    normalized \<lparr>nm_min = [0], nm_max = [4], nm_scaling = [1 / 2], nm_signed = 1\<rparr> [4] ! 0 = 1"
proof -
  have "normalizing_configure [0] [4] True = Inr \<lparr>nm_min = [0], nm_max = [4], nm_scaling = [1 / 2], nm_signed = 1\<rparr>"
    by (simp add: normalizing_configure_def range_scaling_def vscale_def)
  from normalized_range [OF this, of "[4]" 0] show ?thesis by simp
qed

lemma deriv_quotient_abs:
  fixes a b s :: real
  assumes "a + s * \<bar>y\<bar> \<noteq> 0"
  shows "((\<lambda>y. b * y / (a + s * \<bar>y\<bar>)) has_real_derivative b * a / (a + s * \<bar>y\<bar>)\<^sup>2) (at y)"
proof -
  consider "0 < y" | "y < 0" | "y = 0" by linarith
  then show ?thesis
  proof cases
    case 1
    have ne: "a + s * y \<noteq> 0" using assms 1 by simp
    have "((\<lambda>y. b * y / (a + s * y)) has_real_derivative b * a / (a + s * y)\<^sup>2) (at y)"
      using ne by (auto intro!: derivative_eq_intros simp: power2_eq_square field_simps)
    then have "((\<lambda>y. b * y / (a + s * y)) has_real_derivative b * a / (a + s * \<bar>y\<bar>)\<^sup>2) (at y)" using 1 by simp
    then show ?thesis by (rule has_field_derivative_transform_within_open [of _ _ _ "{0<..}"]) (use 1 in auto)
  next
    case 2
    have ne: "a - s * y \<noteq> 0" using assms 2 by simp
    have "((\<lambda>y. b * y / (a - s * y)) has_real_derivative b * a / (a - s * y)\<^sup>2) (at y)"
      using ne by (auto intro!: derivative_eq_intros simp: power2_eq_square field_simps)
    then have "((\<lambda>y. b * y / (a - s * y)) has_real_derivative b * a / (a + s * \<bar>y\<bar>)\<^sup>2) (at y)" using 2 by simp
    then show ?thesis by (rule has_field_derivative_transform_within_open [of _ _ _ "{..<0}"]) (use 2 in auto)
  next
    case 3
    have a: "a \<noteq> 0" using assms 3 by simp
    have "isCont (\<lambda>y. b / (a + s * \<bar>y\<bar>)) 0" using a by (intro continuous_intros) auto
    then have "((\<lambda>y. b * y / (a + s * \<bar>y\<bar>)) has_real_derivative b / a) (at 0)"
      unfolding CARAT_DERIV by (intro exI [of _ "\<lambda>y. b / (a + s * \<bar>y\<bar>)"]) auto
    then show ?thesis using 3 a by (simp add: power2_eq_square)
  qed
qed

lemma squash1_quotient:
  "squash1 f y = (if f = 0 then y
     else ((sgn f + 1) / 2 + 1 / \<bar>f\<bar>) * y / ((1 - sgn f) / 2 + 1 / \<bar>f\<bar> + sgn f * \<bar>y\<bar>))"
  by (cases f "0 :: real" rule: linorder_cases) (simp_all add: squash1_pos squash1_neg squash1_def [of 0] algebra_simps)

text \<open>C28: the Jacobian that the peaked projector multiplies with is the derivative of its input transformation: for an input
  within its limits, in each dimension.\<close>

theorem peaked_jacobian_is_derivative:
  assumes "peaking_configure mi ma both peaking = Inr pk" "length inp = length mi" "dd < length mi" "mi ! dd < ma ! dd"
    and "mi ! dd \<le> inp ! dd" "inp ! dd \<le> ma ! dd"
  shows "((\<lambda>x. peaked_input pk (inp[dd := x]) ! dd) has_real_derivative
    peaked_slope (pk_peaking pk ! dd) (nm_min pk ! dd) (nm_scaling pk ! dd) (pk_range2 pk ! dd) (inp ! dd)) (at (inp ! dd))"
proof -
  have pk: "nm_min pk = mi" "nm_scaling pk = range_scaling mi ma" "pk_peaking pk = peaking" "pk_range2 pk = map (\<lambda>x. x / 2) (vsub ma mi)"
    "length ma = length mi" "length peaking = length mi"
    using assms(1) by (auto simp: peaking_configure_def normalizing_configure_def split: if_splits)
  define f where "f = peaking ! dd"
  define s where "s = 1 / (ma ! dd - mi ! dd)"
  define r where "r = (ma ! dd - mi ! dd) / 2"
  define y where "y = 2 * (inp ! dd - mi ! dd) * s - 1"
  have sr: "0 < s" "2 * s * r = 1" using assms(4) by (simp_all add: s_def r_def)
  have "0 \<le> (inp ! dd - mi ! dd) * s" "(inp ! dd - mi ! dd) * s \<le> 1" using assms(4-6) by (simp_all add: s_def)
  moreover have "y = 2 * ((inp ! dd - mi ! dd) * s) - 1" by (simp add: y_def)
  ultimately have y: "\<bar>y\<bar> \<le> 1" by (simp only: abs_le_iff) linarith
  have entry: "peaked_input pk (inp[dd := x]) ! dd = (squash1 f (2 * (x - mi ! dd) * s - 1) + 1) * r + mi ! dd" for x
    using assms(2,3) pk by (simp add: peaked_input_def squash_vec_def range_scaling_def f_def s_def r_def)
  have at: "pk_peaking pk ! dd = f" "nm_min pk ! dd = mi ! dd" "nm_scaling pk ! dd = s" "pk_range2 pk ! dd = r"
    using assms(3) pk by (simp_all add: range_scaling_def f_def s_def r_def)
  have lin: "((\<lambda>x. 2 * (x - mi ! dd) * s - 1) has_real_derivative 2 * s) (at (inp ! dd))"
    by (auto intro!: derivative_eq_intros)
  have axs: "\<bar>s * (2 * mi ! dd - 2 * inp ! dd) + 1\<bar> = \<bar>y\<bar>"
  proof -
    have "s * (2 * mi ! dd - 2 * inp ! dd) + 1 = - y" by (simp add: y_def algebra_simps)
    then show ?thesis by simp
  qed
  show ?thesis
  proof (cases "f = 0")
    case True
    have "peaked_input pk (inp[dd := x]) ! dd = x" for x
    proof -
      have "(2 * (x - mi ! dd) * s - 1 + 1) * r + mi ! dd = (x - mi ! dd) * (2 * s * r) + mi ! dd" by (simp add: algebra_simps)
      then show ?thesis using entry [of x] True sr(2) by (simp add: squash1_def)
    qed
    then show ?thesis using True at(1) by (simp add: peaked_slope_def)
  next
    case False
    define a where "a = (1 - sgn f) / 2 + 1 / \<bar>f\<bar>"
    define b where "b = (sgn f + 1) / 2 + 1 / \<bar>f\<bar>"
    have den: "0 < a + sgn f * \<bar>y\<bar>"
    proof (cases "0 < f")
      case True
      then have "a = 1 / f" "sgn f = 1" by (simp_all add: a_def)
      then show ?thesis using True by (simp add: add_pos_nonneg)
    next
      case False
      then have f: "f < 0" using \<open>f \<noteq> 0\<close> by simp
      then have "a = 1 + 1 / \<bar>f\<bar>" "sgn f * \<bar>y\<bar> = - \<bar>y\<bar>" "0 < 1 / \<bar>f\<bar>" by (simp_all add: a_def)
      then show ?thesis using y by linarith
    qed
    have quot: "squash1 f z = b * z / (a + sgn f * \<bar>z\<bar>)" for z using False by (simp add: squash1_quotient a_def b_def)
    have "((\<lambda>z. squash1 f z) has_real_derivative b * a / (a + sgn f * \<bar>y\<bar>)\<^sup>2) (at y)"
      unfolding quot using den by (intro deriv_quotient_abs) simp
    then have "((\<lambda>x. squash1 f (2 * (x - mi ! dd) * s - 1)) has_real_derivative b * a / (a + sgn f * \<bar>y\<bar>)\<^sup>2 * (2 * s)) (at (inp ! dd))"
      unfolding y_def by (rule DERIV_chain2 [OF _ lin])
    then have der: "((\<lambda>x. peaked_input pk (inp[dd := x]) ! dd) has_real_derivative b * a / (a + sgn f * \<bar>y\<bar>)\<^sup>2 * (2 * s) * r) (at (inp ! dd))"
      unfolding entry by (auto intro!: derivative_eq_intros)
    have "peaked_slope f (mi ! dd) s r (inp ! dd) = r * (2 * s * b / (a + sgn f * \<bar>y\<bar>) - 2 * s * \<bar>y\<bar> * sgn f * b / (a + sgn f * \<bar>y\<bar>)\<^sup>2)"
    proof -
      have "1 / \<bar>f\<bar> - sgn f / 2 + \<bar>y\<bar> * sgn f + 1 / 2 = a + sgn f * \<bar>y\<bar>" "sgn f / 2 + 1 / \<bar>f\<bar> + 1 / 2 = b"
        by (simp_all add: a_def b_def field_simps)
      then show ?thesis unfolding peaked_slope_def Let_def axs using False by (simp only: if_True simp_thms)
    qed
    also have "\<dots> = b * a / (a + sgn f * \<bar>y\<bar>)\<^sup>2 * (2 * s) * r"
    proof -
      define d where "d = a + sgn f * \<bar>y\<bar>"
      have d: "d \<noteq> 0" "a = d - sgn f * \<bar>y\<bar>" using den by (simp_all add: d_def)
      have "2 * s * b / d - 2 * s * \<bar>y\<bar> * sgn f * b / d\<^sup>2 = 2 * s * b * (d - sgn f * \<bar>y\<bar>) / d\<^sup>2"
        using d(1) by (simp add: power2_eq_square field_simps)
      also have "d - sgn f * \<bar>y\<bar> = a" using d(2) by simp
      finally have "2 * s * b / d - 2 * s * \<bar>y\<bar> * sgn f * b / d\<^sup>2 = 2 * s * b * a / d\<^sup>2" .
      then show ?thesis unfolding d_def [symmetric] by simp
    qed
    finally show ?thesis using der at by simp
  qed
qed

theorem peaked_jacobian_is_derivative_witness:
  "((\<lambda>x. peaked_input \<lparr>nm_min = [0], nm_max = [4], nm_scaling = [1 / 4], nm_signed = 0, pk_peaking = [2], pk_range2 = [2]\<rparr> ([1][0 := x]) ! 0)
    has_real_derivative peaked_slope 2 0 (1 / 4) 2 1) (at 1)"
proof -
  have "peaking_configure [0] [4] False [2] =
      Inr \<lparr>nm_min = [0], nm_max = [4], nm_scaling = [1 / 4], nm_signed = 0, pk_peaking = [2], pk_range2 = [2]\<rparr>"
    by (simp add: peaking_configure_def normalizing_configure_def range_scaling_def vsub_def)
  from peaked_jacobian_is_derivative [OF this, of "[1]" 0] show ?thesis by simp
qed

section \<open>Unions\<close>

text \<open>The parts of a union: the memory of a projector, and the index projection that it gives, with features within
  that memory. Either no part has weights, or every part has one for each feature.\<close>

fun part_ok :: "dvec \<Rightarrow> (dvec \<Rightarrow> proj_result) \<Rightarrow> nat \<times> index_projection \<Rightarrow> bool" where
  "part_ok inp proj (m, ip) \<longleftrightarrow> proj inp = Inr (IndexProjection ip) \<and> (\<forall>i \<in> set (ip_indices ip). i < m)"

definition weights_ok :: "bool \<Rightarrow> index_projection \<Rightarrow> bool" where
  "weights_ok weighted ip \<longleftrightarrow> (if weighted then length (ip_weights ip) = length (ip_indices ip) else ip_weights ip = [])"

fun joined :: "nat \<Rightarrow> (nat \<times> index_projection) list \<Rightarrow> index_projection" where
  "joined memory [] = \<lparr>ip_indices = [], ip_weights = []\<rparr>"
| "joined memory ((m, ip) # parts) =
     \<lparr>ip_indices = map (\<lambda>i. memory + i) (ip_indices ip) @ ip_indices (joined (memory + m) parts),
      ip_weights = ip_weights ip @ ip_weights (joined (memory + m) parts)\<rparr>"

lemma union_joined:
  assumes "list_all2 (part_ok inp) projs parts" "memory + sum_list (map fst parts) \<le> size_max"
  shows "union_indices projs (map (real \<circ> fst) parts) memory inp ip =
    Inr \<lparr>ip_indices = ip_indices ip @ ip_indices (joined memory parts),
         ip_weights = ip_weights ip @ ip_weights (joined memory parts)\<rparr>"
  using assms
proof (induction projs arbitrary: parts memory ip)
  case (Cons proj projs)
  obtain m q parts' where parts: "parts = (m, q) # parts'" "part_ok inp proj (m, q)" "list_all2 (part_ok inp) projs parts'"
    using Cons.prems(1) by (auto simp: list_all2_Cons1)
  have step: "nat (c_trunc (real memory + real m)) = memory + m" by (simp add: c_trunc_def flip: of_nat_add)
  have shift: "map (index_shift memory) (ip_indices q) = map (\<lambda>i. memory + i) (ip_indices q)"
  proof (rule map_cong [OF refl])
    fix i assume "i \<in> set (ip_indices q)"
    then have "memory + i < size_max + 1" using parts(1,2) Cons.prems(2) by fastforce
    then show "index_shift memory i = memory + i" by (simp add: index_shift_def add.commute)
  qed
  have "memory + m + sum_list (map fst parts') \<le> size_max" using Cons.prems(2) parts(1) by simp
  from Cons.IH [OF parts(3) this] show ?case using parts(1,2) by (simp add: step shift)
qed simp

lemma joined_bound: "\<forall>(m, ip) \<in> set parts. \<forall>i \<in> set (ip_indices ip). i < m \<Longrightarrow>
    i \<in> set (ip_indices (joined memory parts)) \<Longrightarrow> i < memory + sum_list (map fst parts)"
  by (induction memory parts rule: joined.induct) fastforce+

lemma joined_length: "length (ip_indices (joined memory parts)) = (\<Sum>(m, ip)\<leftarrow>parts. length (ip_indices ip))"
  by (induction memory parts rule: joined.induct) simp_all

lemma joined_weights: "\<forall>(m, ip) \<in> set parts. weights_ok weighted ip \<Longrightarrow> weights_ok weighted (joined memory parts)"
  by (induction memory parts rule: joined.induct) (auto simp: weights_ok_def)

text \<open>The features with their weights.\<close>

definition weighted_features :: "bool \<Rightarrow> index_projection \<Rightarrow> (nat \<times> real) list" where
  "weighted_features weighted ip =
     (if weighted then zip (ip_indices ip) (ip_weights ip) else map (\<lambda>i. (i, 1)) (ip_indices ip))"

lemma features_of:
  assumes "weights_ok weighted ip" "ip_indices ip \<noteq> []"
  shows "lr_features lr (IndexProjection ip) =
    Inr (weighted_features weighted ip, if weighted then 1 else real (length (ip_indices ip)))"
  using assms by (auto simp: weights_ok_def weighted_features_def)

lemma features_joined:
  assumes "weights_ok weighted ip"
  shows "weighted_features weighted (joined memory ((m, ip) # parts)) =
    map (\<lambda>(i, w). (memory + i, w)) (weighted_features weighted ip) @ weighted_features weighted (joined (memory + m) parts)"
  using assms by (auto simp: weights_ok_def weighted_features_def zip_map1 comp_def)

lemma features_bound: "(i, w) \<in> set (weighted_features weighted ip) \<Longrightarrow> i \<in> set (ip_indices ip)"
  by (auto simp: weighted_features_def dest: set_zip_leftD split: if_splits)

text \<open>A representation of a part, with its block of the parameters.\<close>

definition part_rep :: "linear_rep \<Rightarrow> nat \<Rightarrow> dvec \<Rightarrow> linear_rep" where
  "part_rep lr m ps = lr\<lparr>lr_memory := m, lr_params := ps\<rparr>"

lemma lr_sum_shifted:
  assumes "\<forall>(i, w) \<in> set iws. i < m" "length ps = m * lr_outputs lr" "length params = memory * lr_outputs lr" "jj < lr_outputs lr"
  shows "lr_sum lr (params @ ps @ rest) (map (\<lambda>(i, w). (memory + i, w)) iws) jj = lr_sum lr ps iws jj"
proof -
  have at: "(params @ ps @ rest) ! ((memory + i) * lr_outputs lr + jj) = ps ! (i * lr_outputs lr + jj)" if "i < m" for i
  proof -
    have "(i + 1) * lr_outputs lr \<le> m * lr_outputs lr" using that by (intro mult_le_mono1) simp
    then have "i * lr_outputs lr + jj < length ps" using assms(2,4) by simp
    moreover have "(memory + i) * lr_outputs lr + jj = length params + (i * lr_outputs lr + jj)"
      using assms(3) by (simp add: add_mult_distrib)
    ultimately show ?thesis by (simp only: nth_append_length_plus) (simp add: nth_append)
  qed
  have "map ((\<lambda>(i, w). (params @ ps @ rest) ! (i * lr_outputs lr + jj) * w) \<circ> (\<lambda>(i, w). (memory + i, w))) iws =
      map (\<lambda>(i, w). ps ! (i * lr_outputs lr + jj) * w) iws"
    using assms(1) at by (intro map_cong) auto
  then show ?thesis unfolding lr_sum_eq map_map by (rule arg_cong)
qed

lemma lr_sum_append: "lr_sum lr params (xs @ ys) jj = lr_sum lr params xs jj + lr_sum lr params ys jj"
  by (simp add: lr_sum_eq)

lemma sum_joined:
  assumes "\<forall>(m, ip) \<in> set parts. weights_ok weighted ip \<and> (\<forall>i \<in> set (ip_indices ip). i < m)"
    and "list_all2 (\<lambda>(m, ip) ps. length ps = m * lr_outputs lr) parts pss"
    and "length params = memory * lr_outputs lr" "jj < lr_outputs lr"
  shows "lr_sum lr (params @ concat pss) (weighted_features weighted (joined memory parts)) jj =
    (\<Sum>((m, ip), ps)\<leftarrow>zip parts pss. lr_sum lr ps (weighted_features weighted ip) jj)"
  using assms
proof (induction parts arbitrary: memory params pss)
  case Nil
  then show ?case by (simp add: weighted_features_def lr_sum_def)
next
  case (Cons part parts)
  obtain m ip where part: "part = (m, ip)" by fastforce
  obtain ps pss' where ps: "pss = ps # pss'" "length ps = m * lr_outputs lr"
    "list_all2 (\<lambda>(m, ip) ps. length ps = m * lr_outputs lr) parts pss'"
    using Cons.prems(2) part by (auto simp: list_all2_Cons1)
  have ok: "weights_ok weighted ip" "\<forall>(i, w) \<in> set (weighted_features weighted ip). i < m"
    using Cons.prems(1) part features_bound by fastforce+
  have "length (params @ ps) = (memory + m) * lr_outputs lr" using Cons.prems(3) ps(2) by (simp add: add_mult_distrib)
  from Cons.IH [OF _ ps(3) this Cons.prems(4)] Cons.prems(1)
  have "lr_sum lr (params @ ps @ concat pss') (weighted_features weighted (joined (memory + m) parts)) jj =
      (\<Sum>((m, ip), ps)\<leftarrow>zip parts pss'. lr_sum lr ps (weighted_features weighted ip) jj)" by simp
  then show ?case
    using lr_sum_shifted [OF ok(2) ps(2) Cons.prems(3,4), of "concat pss'"] ps(1)
    by (simp add: part features_joined [OF ok(1)] lr_sum_append del: joined.simps)
qed

text \<open>A reading that no limit changes.\<close>

definition reads_freely :: "linear_rep \<Rightarrow> projection \<Rightarrow> dvec \<Rightarrow> bool" where
  "reads_freely lr p v \<longleftrightarrow> lr_read lr p = Inr v \<and> v = map (lr_raw lr p) [0..<lr_outputs lr]"

text \<open>What a part contributes: its weighted sum, or its share of the mean over all features.\<close>

definition part_share :: "bool \<Rightarrow> (nat \<times> index_projection) list \<Rightarrow> index_projection \<Rightarrow> real" where
  "part_share weighted parts ip =
     (if weighted then 1 else real (length (ip_indices ip)) / real (\<Sum>(m, ip)\<leftarrow>parts. length (ip_indices ip)))"

lemma part_sum:
  assumes "weights_ok weighted ip" "reads_freely (part_rep lr m ps) (IndexProjection ip) v" "jj < lr_outputs lr"
  shows "ip_indices ip \<noteq> [] \<and> v ! jj =
    lr_sum lr ps (weighted_features weighted ip) jj / (if weighted then 1 else real (length (ip_indices ip)))"
proof
  show ne: "ip_indices ip \<noteq> []"
    using assms(1,2) by (auto simp: reads_freely_def lr_read_def lr_read_params_def weights_ok_def split: if_splits)
  show "v ! jj = lr_sum lr ps (weighted_features weighted ip) jj / (if weighted then 1 else real (length (ip_indices ip)))"
    using assms(2,3) features_of [OF assms(1) ne, of "part_rep lr m ps"]
    by (simp add: reads_freely_def part_rep_def lr_raw_def lr_sum_def del: lr_features.simps)
qed

text \<open>C29: what a linear representation reads over a union of projectors that give index projections. If the parts have
  a weight for each feature, the readings of representations over the parts, each with its block of the
  parameters, are added; if they have none, the reading is the mean over all features, to which each part contributes
  in proportion to how many it activates. Limits apply to the result only. (Parts with and without weights do not
  mix: see below.)\<close>

theorem multi_union_reads:
  assumes "ind < 0" "parts \<noteq> []" "list_all2 (part_ok inp) projs parts" "sum_list (map fst parts) \<le> size_max"
    and "\<forall>(m, ip) \<in> set parts. weights_ok weighted ip"
    and "list_all2 (\<lambda>(m, ip) (ps, v). length ps = m * lr_outputs lr \<and>
      reads_freely (part_rep lr m ps) (IndexProjection ip) v) parts blocks"
    and "lr_params lr = concat (map fst blocks)"
  shows "\<exists>ip. multi_project ind projs (map (real \<circ> fst) parts) inp = Inr (IndexProjection ip) \<and>
    (\<forall>i \<in> set (ip_indices ip). i < nat (multi_memory (map (real \<circ> fst) parts))) \<and>
    lr_read lr (IndexProjection ip) = Inr (map (\<lambda>jj. lr_clip lr jj
      (\<Sum>((m, ip), (ps, v))\<leftarrow>zip parts blocks. part_share weighted parts ip * v ! jj)) [0..<lr_outputs lr])"
proof (intro exI conjI)
  let ?ip = "joined 0 parts" and ?n = "lr_outputs lr"
  obtain proj projs' m ip0 parts' where projs: "projs = proj # projs'" and parts: "parts = (m, ip0) # parts'"
    "part_ok inp proj (m, ip0)" "list_all2 (part_ok inp) projs' parts'"
    using assms(2,3) by (cases parts) (auto simp: list_all2_Cons2)
  have "nat (c_trunc (real m)) = m" "m + sum_list (map fst parts') \<le> size_max"
    using assms(4) parts(1) by (simp_all add: c_trunc_def)
  moreover have "map ((+) 0) xs = xs" for xs :: "nat list" by (induction xs) simp_all
  ultimately show "multi_project ind projs (map (real \<circ> fst) parts) inp = Inr (IndexProjection ?ip)"
    using assms(1) projs parts(1,2) union_joined [OF parts(3), of m ip0]
    by (simp add: multi_project_def del: add_0)
  have below: "\<forall>(m, ip) \<in> set parts. \<forall>i \<in> set (ip_indices ip). i < m"
    using assms(3) by (fastforce simp: list_all2_conv_all_nth in_set_conv_nth)
  have "sum_list (map (real \<circ> fst) parts) = real (sum_list (map fst parts))" by (induction parts) simp_all
  then have total: "nat (multi_memory (map (real \<circ> fst) parts)) = sum_list (map fst parts)"
    by (simp add: multi_memory_def vec_sum_eq c_trunc_def)
  show "\<forall>i \<in> set (ip_indices ?ip). i < nat (multi_memory (map (real \<circ> fst) parts))"
    using joined_bound [OF below, of _ 0] total by auto
  define N :: real where "N = (if weighted then 1 else real (length (ip_indices ?ip)))"
  have block: "length ps = m * ?n" "weights_ok weighted ip" "reads_freely (part_rep lr m ps) (IndexProjection ip) v"
    if "((m, ip), (ps, v)) \<in> set (zip parts blocks)" for m ip ps v
    using assms(5,6) that set_zip_leftD [OF that] by (fastforce simp: list_all2_iff)+
  have pss: "list_all2 (\<lambda>(m, ip) ps. length ps = m * ?n) parts (map fst blocks)"
    using assms(6) by (auto simp: list_all2_map2 elim!: list_all2_mono)
  have params: "length (lr_params lr) = sum_list (map fst parts) * ?n"
    unfolding assms(7) using pss by (induction rule: list_all2_induct) (auto simp: add_mult_distrib)
  have "\<forall>(m, ip) \<in> set parts. weights_ok weighted ip" using assms(5) .
  then have w: "weights_ok weighted ?ip" by (rule joined_weights)
  obtain b0 bs where "blocks = b0 # bs" using assms(6) parts(1) by (auto simp: list_all2_Cons1)
  then have "((m, ip0), (fst b0, snd b0)) \<in> set (zip parts blocks)" using parts(1) by simp
  note b0 = block [OF this]
  have "ip_indices ip0 \<noteq> []"
    using b0(2,3) by (auto simp: reads_freely_def lr_read_def lr_read_params_def weights_ok_def split: if_splits)
  then have ne: "ip_indices ?ip \<noteq> []" using parts(1) by simp
  have feat: "lr_features lr (IndexProjection ?ip) = Inr (weighted_features weighted ?ip, N)"
    unfolding N_def by (rule features_of [OF w ne])
  have range: "\<forall>(i, w) \<in> set (weighted_features weighted ?ip). lr_in_range lr (lr_params lr) i"
  proof safe
    fix i w assume "(i, w) \<in> set (weighted_features weighted ?ip)"
    then have "i + 1 \<le> sum_list (map fst parts)" using features_bound joined_bound [OF below, of i 0] by fastforce
    then show "lr_in_range lr (lr_params lr) i" unfolding lr_in_range_def params by (rule mult_le_mono1)
  qed
  have reading: "lr_sum lr (lr_params lr) (weighted_features weighted ?ip) jj / N =
      (\<Sum>((m, ip), (ps, v))\<leftarrow>zip parts blocks. part_share weighted parts ip * v ! jj)" if jj: "jj < ?n" for jj
  proof -
    have ok: "\<forall>(m, ip) \<in> set parts. weights_ok weighted ip \<and> (\<forall>i \<in> set (ip_indices ip). i < m)"
      using assms(5) below by blast
    have "lr_sum lr (lr_params lr) (weighted_features weighted ?ip) jj =
        (\<Sum>((m, ip), ps)\<leftarrow>zip parts (map fst blocks). lr_sum lr ps (weighted_features weighted ip) jj)"
      using sum_joined [OF ok pss, of "[]" 0 jj] jj assms(7) by simp
    also have "\<dots> = (\<Sum>((m, ip), (ps, v))\<leftarrow>zip parts blocks. lr_sum lr ps (weighted_features weighted ip) jj)"
      by (simp add: zip_map2 comp_def case_prod_unfold)
    finally have "lr_sum lr (lr_params lr) (weighted_features weighted ?ip) jj / N =
        (\<Sum>((m, ip), (ps, v))\<leftarrow>zip parts blocks. lr_sum lr ps (weighted_features weighted ip) jj / N)"
      by (simp add: case_prod_unfold divide_inverse sum_list_mult_const)
    also have "\<dots> = (\<Sum>((m, ip), (ps, v))\<leftarrow>zip parts blocks. part_share weighted parts ip * v ! jj)"
    proof (rule arg_cong [where f = sum_list], rule map_cong [OF refl], safe)
      fix m ip ps v assume "((m, ip), (ps, v)) \<in> set (zip parts blocks)"
      note b = block [OF this]
      from part_sum [OF b(2,3) jj]
      show "lr_sum lr ps (weighted_features weighted ip) jj / N = part_share weighted parts ip * v ! jj"
        by (simp add: part_share_def N_def joined_length)
    qed
    finally show ?thesis .
  qed
  show "lr_read lr (IndexProjection ?ip) = Inr (map (\<lambda>jj. lr_clip lr jj
      (\<Sum>((m, ip), (ps, v))\<leftarrow>zip parts blocks. part_share weighted parts ip * v ! jj)) [0..<?n])"
    using range reading by (simp add: lr_read_def lr_read_params_def feat del: lr_features.simps)
qed

text \<open>A part with one feature and a part with two: the mean of 6, 10 and 7.\<close>

definition union_example :: linear_rep where
  "union_example = \<lparr>lr_memory = 5, lr_outputs = 1, lr_limit = 0, lr_output_min = [- 100], lr_output_max = [100],
     lr_init_min = [0], lr_init_max = [0], lr_params = [5, 6, 7, 8, 10], lr_interval = 0, lr_tau = 0, lr_count = 0, lr_target = []\<rparr>"

theorem multi_union_reads_witness:
  "\<exists>ip. multi_project (-1) [\<lambda>_. Inr (IndexProjection \<lparr>ip_indices = [1], ip_weights = []\<rparr>),
        \<lambda>_. Inr (IndexProjection \<lparr>ip_indices = [2, 0], ip_weights = []\<rparr>)] [2, 3] [0] = Inr (IndexProjection ip) \<and>
    lr_read union_example (IndexProjection ip) = Inr [23 / 3]"
proof -
  let ?p1 = "\<lparr>ip_indices = [1], ip_weights = []\<rparr>" and ?p2 = "\<lparr>ip_indices = [2, 0], ip_weights = []\<rparr>"
  let ?parts = "[(2, ?p1), (3, ?p2)]" and ?blocks = "[([5, 6], [6]), ([7, 8, 10], [17 / 2 :: real])]"
  have parts: "list_all2 (part_ok [0]) [\<lambda>_. Inr (IndexProjection ?p1), \<lambda>_. Inr (IndexProjection ?p2)] ?parts"
    "sum_list (map fst ?parts) \<le> size_max" "\<forall>(m, ip) \<in> set ?parts. weights_ok False ip"
    by (simp_all add: size_max_def weights_ok_def)
  have blocks: "list_all2 (\<lambda>(m, ip) (ps, v). length ps = m * lr_outputs union_example \<and>
      reads_freely (part_rep union_example m ps) (IndexProjection ip) v) ?parts ?blocks"
    by (simp add: reads_freely_def part_rep_def union_example_def lr_read_def lr_read_params_def lr_in_range_def
        lr_sum_def lr_raw_def lr_clip_def)
  have "lr_params union_example = concat (map fst ?blocks)" by (simp add: union_example_def)
  from multi_union_reads [OF _ _ parts blocks this, of "- 1"] show ?thesis
    by (simp add: part_share_def union_example_def lr_clip_def) blast
qed

text \<open>a union of two index projections of which only the second has weights has fewer weights than features: a linear
  representation reads past the end of the weights.\<close>

theorem multi_union_weights_misaligned:
  assumes "ind < 0" "p1 inp = Inr (IndexProjection \<lparr>ip_indices = idx1, ip_weights = []\<rparr>)" "idx1 \<noteq> []"
    and "p2 inp = Inr (IndexProjection \<lparr>ip_indices = idx2, ip_weights = ws\<rparr>)" "ws \<noteq> []" "length ws = length idx2"
  shows "\<exists>ip. multi_project ind [p1, p2] [m1, m2] inp = Inr (IndexProjection ip) \<and>
    ip_weights ip = ws \<and> length (ip_indices ip) = length idx1 + length ws \<and> lr_read lr (IndexProjection ip) = Inl RepUndefined"
  using assms by (auto simp: multi_project_def lr_read_def lr_read_params_def)

theorem multi_union_weights_misaligned_witness:
  "\<exists>ip. multi_project (-1) [grid_index_project (\<lambda>_. 1), \<lambda>_. Inr (IndexProjection \<lparr>ip_indices = [0], ip_weights = [1 / 2]\<rparr>)] [2, 3] [0] =
    Inr (IndexProjection ip) \<and> ip_weights ip = [1 / 2] \<and> length (ip_indices ip) = 2"
  using multi_union_weights_misaligned [where ind = "-1" and ?p1.0 = "grid_index_project (\<lambda>_. 1)" and inp = "[0]" and ?idx1.0 = "[1]" and
    ?p2.0 = "\<lambda>_. Inr (IndexProjection \<lparr>ip_indices = [0], ip_weights = [1 / 2]\<rparr>)" and ?idx2.0 = "[0]" and ws = "[1 / 2]" and
    ?m1.0 = 2 and ?m2.0 = 3 and lr = undefined]
  by (auto simp: grid_index_project_def numeral_2_eq_2)

section \<open>Splits\<close>

text \<open>The features of an input, as activations.\<close>

definition active_features :: "projection \<Rightarrow> nat set" where
  "active_features p = (case p of VectorProjection v \<Rightarrow> {i. i < length v \<and> v ! i \<noteq> 0} | IndexProjection ip \<Rightarrow> set (ip_indices ip))"

text \<open>the split projector keeps cells apart: the features of an input are in the block of the cell that its index dimensions
  are in, and so two inputs in different cells have no feature in common.\<close>

theorem split_separates_cells:
  assumes "split_project indices sz discretize memory proj a = Inr p" "split_project indices sz discretize memory proj b = Inr q"
    and "\<And>v ip. proj v = Inr (IndexProjection ip) \<Longrightarrow> \<forall>i \<in> set (ip_indices ip). i < memory"
    and "discretize (fst (split_input indices a)) < sz" "discretize (fst (split_input indices b)) < sz" "sz * memory \<le> size_max"
    and "discretize (fst (split_input indices a)) \<noteq> discretize (fst (split_input indices b))"
  shows "active_features p \<inter> active_features q = {} \<and> (\<forall>i \<in> active_features p. i < sz * memory)"
proof -
  have block: "\<forall>i \<in> active_features p. discretize (fst (split_input indices a)) * memory \<le> i \<and> i < Suc (discretize (fst (split_input indices a))) * memory"
    if run: "split_project indices sz discretize memory proj a = Inr p" and cell: "discretize (fst (split_input indices a)) < sz" for a p
  proof -
    obtain idx v where iv: "split_input indices a = (idx, v)" by (cases "split_input indices a")
    let ?offset = "discretize idx * memory"
    have "Suc (discretize idx) * memory \<le> sz * memory" using cell iv by (intro mult_le_mono1) simp
    then have top: "?offset + memory \<le> size_max" using assms(6) by simp
    have run': "chain (proj v) (\<lambda>p.
          case p of
            VectorProjection w \<Rightarrow>
              (if length w = memory \<and> ?offset + memory \<le> sz * memory
               then Inr (VectorProjection (replicate ?offset 0 @ w @ replicate (sz * memory - ?offset - memory) 0))
               else Inl ProjUndefined)
          | IndexProjection ip \<Rightarrow> Inr (IndexProjection (ip\<lparr>ip_indices := map (index_shift ?offset) (ip_indices ip)\<rparr>))) = Inr p"
      using run iv by (simp add: split_project_def Let_def split: if_split_asm)
    then obtain w where w: "proj v = Inr w" by (cases "proj v") auto
    show ?thesis
    proof (cases w)
      case (VectorProjection x)
      then have p: "p = VectorProjection (replicate ?offset 0 @ x @ replicate (sz * memory - ?offset - memory) 0)" "length x = memory"
        using run' w by (auto split: if_split_asm)
      have "?offset \<le> i \<and> i < ?offset + memory"
        if "i < length (replicate ?offset 0 @ x @ replicate (sz * memory - ?offset - memory) 0)"
          "(replicate ?offset 0 @ x @ replicate (sz * memory - ?offset - memory) 0) ! i \<noteq> 0" for i
        using that p(2) by (auto simp: nth_append split: if_split_asm)
      then have "\<forall>i \<in> active_features p. ?offset \<le> i \<and> i < ?offset + memory" unfolding p(1) active_features_def by simp
      then show ?thesis using iv by (simp add: add.commute)
    next
      case (IndexProjection ip)
      then have p: "p = IndexProjection (ip\<lparr>ip_indices := map (index_shift ?offset) (ip_indices ip)\<rparr>)" using run' w by simp
      have "index_shift ?offset i = ?offset + i \<and> i < memory" if i: "i \<in> set (ip_indices ip)" for i
      proof -
        have "i < memory" using assms(3) w IndexProjection i by blast
        then have "i + ?offset < size_max + 1" using top by linarith
        then show ?thesis using \<open>i < memory\<close> by (simp add: index_shift_def)
      qed
      then show ?thesis using p iv by (auto simp: active_features_def)
    qed
  qed
  let ?ca = "discretize (fst (split_input indices a))" and ?cb = "discretize (fst (split_input indices b))"
  note pa = block [OF assms(1,4)] and qb = block [OF assms(2,5)]
  have "False" if "i \<in> active_features p" "i \<in> active_features q" for i
  proof -
    have b: "?ca * memory \<le> i" "i < Suc ?ca * memory" "?cb * memory \<le> i" "i < Suc ?cb * memory" using pa qb that by auto
    have "Suc ?ca \<le> ?cb \<or> Suc ?cb \<le> ?ca" using assms(7) by linarith
    then have "Suc ?ca * memory \<le> ?cb * memory \<or> Suc ?cb * memory \<le> ?ca * memory" using mult_le_mono1 by blast
    then show False using b by linarith
  qed
  moreover have "Suc ?ca * memory \<le> sz * memory" using assms(4) by (intro mult_le_mono1) simp
  ultimately show ?thesis using pa by fastforce
qed

theorem split_separates_cells_witness:
  "active_features (IndexProjection \<lparr>ip_indices = [1], ip_weights = []\<rparr>) \<inter> active_features (IndexProjection \<lparr>ip_indices = [4], ip_weights = []\<rparr>) = {}"
proof -
  let ?disc = "\<lambda>v. if v = [0] then 0 else 1 :: nat"
  have "split_project [1, 0] 2 ?disc 3 (grid_index_project (\<lambda>_. 1)) [0, 7] = Inr (IndexProjection \<lparr>ip_indices = [1], ip_weights = []\<rparr>)"
    "split_project [1, 0] 2 ?disc 3 (grid_index_project (\<lambda>_. 1)) [5, 7] = Inr (IndexProjection \<lparr>ip_indices = [4], ip_weights = []\<rparr>)"
    by (simp_all add: split_project_def split_input_def grid_index_project_def vec_sum_def c_trunc_def index_shift_def size_max_def)
  from split_separates_cells [OF this] show ?thesis
    by (simp add: grid_index_project_def split_input_def size_max_def)
qed

end
