(* ===== verification/ObservationModels.thy ===== *)
theory ObservationModels
  imports Worlds
begin

text \<open>
  Models that planning uses in place of the environment
  (\<open>base/{include/grl,src}/environments/observation.{h,cpp}\<close>): the one that runs the known
  model and task, the one that reads a learned representation, and the one that only learns the
  transitions; with the derivatives the base class estimates by central differences.

  The representation is read for a mean and a standard deviation (empty if it has none). A model
  that returns an empty next observation predicts nothing: the callers look at nothing else then.
\<close>

datatype predicted = NoPrediction | Predicted step_result

type_synonym omodel = "observation \<Rightarrow> action \<Rightarrow> predicted res"

section \<open>Derivatives\<close>

text \<open>Column \<open>ii\<close> varies dimension \<open>ii\<close> of the observation followed by the action.\<close>

definition nudge :: "observation \<Rightarrow> action \<Rightarrow> nat \<Rightarrow> real \<Rightarrow> observation \<times> action" where
  "nudge obs a ii d =
     (if ii < length (o_v obs) then (obs\<lparr>o_v := (o_v obs)[ii := o_v obs ! ii + d]\<rparr>, a)
      else let kk = ii - length (o_v obs) in (obs, a\<lparr>a_v := (a_v a)[kk := a_v a ! kk + d]\<rparr>))"

definition jacobian_column :: "omodel \<Rightarrow> real \<Rightarrow> observation \<Rightarrow> action \<Rightarrow> nat \<Rightarrow> dvec option res" where
  "jacobian_column om h obs a ii =
     (let n = length (o_v obs);
          (obs1, a1) = nudge obs a ii (- h / 2); (obs2, a2) = nudge obs a ii (h / 2)
      in chain (om obs1 a1) (\<lambda>p1. chain (om obs2 a2) (\<lambda>p2.
         case (p1, p2) of
           (Predicted r1, Predicted r2) \<Rightarrow>
             let v1 = o_v (sr_obs r1); v2 = o_v (sr_obs r2)
             in if v1 = [] \<or> v2 = [] then Inr None
                else if length v1 < n \<or> length v2 < n then Inl RepUndefined
                else Inr (Some (map (\<lambda>jj. (v2 ! jj - v1 ! jj) / h) [0..<n] @
                                [(sr_reward r2 - sr_reward r1) / h]))
         | _ \<Rightarrow> Inr None)))"

text \<open>The columns up to the first that cannot be predicted; then there is no matrix.\<close>

fun jacobian_columns :: "omodel \<Rightarrow> real \<Rightarrow> observation \<Rightarrow> action \<Rightarrow> nat list \<Rightarrow> dvec list option res" where
  "jacobian_columns om h obs a [] = Inr (Some [])"
| "jacobian_columns om h obs a (ii # is) =
     chain (jacobian_column om h obs a ii) (\<lambda>c. case c of
       None \<Rightarrow> Inr None
     | Some c \<Rightarrow> chain (jacobian_columns om h obs a is) (\<lambda>cs. Inr (map_option ((#) c) cs)))"

text \<open>A matrix is the list of its rows; \<open>[]\<close> is \<open>Matrix()\<close>.\<close>

definition om_jacobian :: "omodel \<Rightarrow> real \<Rightarrow> observation \<Rightarrow> action \<Rightarrow> dvec list res" where
  "om_jacobian om h obs a =
     (let n = length (o_v obs); m = length (a_v a)
      in chain (jacobian_columns om h obs a [0..<n + m]) (\<lambda>cs. Inr (case cs of
           None \<Rightarrow> []
         | Some cs \<Rightarrow> map (\<lambda>jj. map (\<lambda>c. c ! jj) cs) [0..<Suc n])))"

text \<open>Row \<open>ii\<close> of the Hessian of the reward, from its diagonal on.\<close>

definition hessian_row ::
    "(observation \<Rightarrow> action \<Rightarrow> dvec list res) \<Rightarrow> real \<Rightarrow> observation \<Rightarrow> action \<Rightarrow> nat \<Rightarrow> dvec option res" where
  "hessian_row jac h obs a ii =
     (let n = length (o_v obs); k = n + length (a_v a);
          (obs1, a1) = nudge obs a ii (- h / 2); (obs2, a2) = nudge obs a ii (h / 2)
      in chain (jac obs1 a1) (\<lambda>j1. chain (jac obs2 a2) (\<lambda>j2.
           if j1 = [] \<or> j2 = [] then Inr None
           else if length j1 \<le> n \<or> length j2 \<le> n \<or> length (j1 ! n) < k \<or> length (j2 ! n) < k
           then Inl RepUndefined
           else Inr (Some (map (\<lambda>jj. (j2 ! n ! jj - j1 ! n ! jj) / h) [ii..<k])))))"

fun hessian_rows ::
    "(observation \<Rightarrow> action \<Rightarrow> dvec list res) \<Rightarrow> real \<Rightarrow> observation \<Rightarrow> action \<Rightarrow> nat list \<Rightarrow> dvec list option res" where
  "hessian_rows jac h obs a [] = Inr (Some [])"
| "hessian_rows jac h obs a (ii # is) =
     chain (hessian_row jac h obs a ii) (\<lambda>c. case c of
       None \<Rightarrow> Inr None
     | Some c \<Rightarrow> chain (hessian_rows jac h obs a is) (\<lambda>cs. Inr (map_option ((#) c) cs)))"

text \<open>\<open>H(ii, jj) = H(jj, ii)\<close>.\<close>

definition mirror :: "nat \<Rightarrow> dvec list \<Rightarrow> dvec list" where
  "mirror k upper = map (\<lambda>r. map (\<lambda>c. upper ! min r c ! (max r c - min r c)) [0..<k]) [0..<k]"

definition om_rewardHessian ::
    "(observation \<Rightarrow> action \<Rightarrow> dvec list res) \<Rightarrow> real \<Rightarrow> observation \<Rightarrow> action \<Rightarrow> dvec list res" where
  "om_rewardHessian jac h obs a =
     (let k = length (o_v obs) + length (a_v a)
      in chain (hessian_rows jac h obs a [0..<k]) (\<lambda>rows. Inr (case rows of
           None \<Rightarrow> []
         | Some upper \<Rightarrow> mirror k upper)))"

section \<open>The known model\<close>

text \<open>A result \<open>None\<close> is a control step that never ends.\<close>

definition known_model_finish :: "task \<Rightarrow> int \<Rightarrow> dvec \<Rightarrow> action \<Rightarrow> real \<Rightarrow> dvec \<Rightarrow> predicted res" where
  "known_model_finish task discrete_time start a tau next_state =
     chain (tk_observe task next_state no_obs) (\<lambda>(next_obs, terminal).
     chain (tk_evaluate task start a next_state) (\<lambda>reward.
       Inr (Predicted \<lparr>sr_tau = if discrete_time \<noteq> 0 then 1 else tau,
                       sr_obs = next_obs\<lparr>o_u := a_v a\<rparr>,
                       sr_reward = reward, sr_terminal = terminal\<rparr>)))"

definition known_model_step :: "model_step \<Rightarrow> task \<Rightarrow> int \<Rightarrow> observation \<Rightarrow> action \<Rightarrow> predicted res option" where
  "known_model_step model task discrete_time obs a =
     (case tk_invert task obs 0 of
        None \<Rightarrow> Some (Inr NoPrediction)
      | Some start \<Rightarrow>
          (case tk_actuate task start start a of
             Inl e \<Rightarrow> Some (Inl e)
           | Inr (_, actuation) \<Rightarrow>
               map_option (\<lambda>r. chain r (\<lambda>(tau, next_state).
                   known_model_finish task discrete_time start a tau next_state))
                 (actuate_loop model task start a start actuation 0)))"

section \<open>The learned model\<close>

record approx_model =
  am_differential :: dvec
  am_wrapping :: dvec
  am_min :: dvec
  am_max :: dvec
  am_stddev_limit :: real
  am_tau :: real

definition learned_configure ::
    "dvec \<Rightarrow> dvec \<Rightarrow> dvec \<Rightarrow> dvec \<Rightarrow> real \<Rightarrow> real \<Rightarrow> rep_error + approx_model" where
  "learned_configure differential wrapping mi ma stddev_limit tau =
     (let n = length mi;
          differential = (if length differential = 1 then ConstantVector n (hd differential) else differential);
          wrapping = (if wrapping = [] then ConstantVector n 0 else wrapping)
      in if mi = [] \<or> n \<noteq> length ma \<or> tau = 0 \<or> length differential \<noteq> n \<or> length wrapping \<noteq> n
         then Inl RepBadParam
         else Inr \<lparr>am_differential = differential, am_wrapping = wrapping, am_min = mi, am_max = ma,
                   am_stddev_limit = stddev_limit, am_tau = tau\<rparr>)"

text \<open>One dimension of the prediction \<open>x\<close> for an observation that has \<open>z\<close> there.\<close>

definition wrap_to :: "real \<Rightarrow> real \<Rightarrow> real" where
  "wrap_to w x = (if w \<noteq> 0 then c_fmod (c_fmod x w + w) w else x)"

definition predicted_at :: "approx_model \<Rightarrow> nat \<Rightarrow> real \<Rightarrow> real \<Rightarrow> real" where
  "predicted_at am ii z x =
     wrap_to (am_wrapping am ! ii) (if am_differential am ! ii \<noteq> 0 then x + z else x)"

definition outside :: "approx_model \<Rightarrow> dvec \<Rightarrow> nat \<Rightarrow> bool" where
  "outside am obs ii \<longleftrightarrow> obs ! ii < am_min am ! ii \<or> am_max am ! ii < obs ! ii"

definition inaccurate :: "approx_model \<Rightarrow> dvec \<Rightarrow> nat \<Rightarrow> bool" where
  "inaccurate am stddev ii \<longleftrightarrow> am_stddev_limit am * (am_max am ! ii - am_min am ! ii) < stddev ! ii"

text \<open>The prediction ends with the reward and the probability of absorption.\<close>

definition prediction_of :: "approx_model \<Rightarrow> observation \<Rightarrow> dvec \<Rightarrow> step_result" where
  "prediction_of am obs pred =
     (let n = length (o_v obs); m = length pred - 2; terminal = (1 / 2 < pred ! (m + 1))
      in \<lparr>sr_tau = am_tau am,
          sr_obs = \<lparr>o_v = map (\<lambda>ii. predicted_at am ii (o_v obs ! ii) (pred ! ii)) [0..<n] @
                          map (\<lambda>ii. pred ! ii) [n..<m],
                    o_u = [], o_absorbing = terminal\<rparr>,
          sr_reward = pred ! m, sr_terminal = (if terminal then 1 else 0)\<rparr>)"

text \<open>
  \<open>rd\<close> projects the observation and action and reads the representation: \<open>None\<close> if there is no
  projection.
\<close>

definition approx_step ::
    "(dvec \<Rightarrow> (dvec \<times> dvec) option res) \<Rightarrow> approx_model \<Rightarrow> omodel" where
  "approx_step rd am obs a =
     chain (rd (Vectors.extend (o_v obs) (a_v a))) (\<lambda>r. case r of
       None \<Rightarrow> Inr NoPrediction
     | Some (pred, stddev) \<Rightarrow>
         let n = length (o_v obs); m = length pred - 2 in
         if pred = [] then Inr NoPrediction
         else if length pred < 2 \<or> m < n \<or> length (am_min am) < n \<or> length (am_max am) < n \<or>
                 length (am_differential am) < n \<or> length (am_wrapping am) < n then Inl RepUndefined
         else if \<exists>ii \<in> set [0..<n]. outside am (o_v obs) ii then Inr NoPrediction
         else if stddev \<noteq> [] \<and> (length stddev < 2 \<or> length (am_min am) < length stddev - 2 \<or>
                                length (am_max am) < length stddev - 2) then Inl RepUndefined
         else if stddev \<noteq> [] \<and> (\<exists>ii \<in> set [0..<length stddev - 2]. inaccurate am stddev ii)
         then Inr NoPrediction
         else Inr (Predicted (prediction_of am obs pred)))"

text \<open>The rows of the Jacobian that are about the state and the reward.\<close>

definition approx_jacobian ::
    "omodel \<Rightarrow> real \<Rightarrow> (observation \<Rightarrow> action \<Rightarrow> dvec list) \<Rightarrow> approx_model \<Rightarrow> observation \<Rightarrow> action \<Rightarrow>
     dvec list res" where
  "approx_jacobian om h closed_form am obs a =
     (let n = length (o_v obs); j = closed_form obs a
      in if j = [] then om_jacobian om h obs a
         else if length j \<le> n \<or> length (am_differential am) < n \<or> (\<exists>row \<in> set j. length row < n)
         then Inl RepUndefined
         else Inr (map (\<lambda>ii. if ii < n \<and> am_differential am ! ii \<noteq> 0
                             then (j ! ii)[ii := j ! ii ! ii + 1] else j ! ii) [0..<Suc n]))"

section \<open>A learned model and a known task\<close>

text \<open>The second inversion leaves an empty state if it fails.\<close>

definition known_reward_step ::
    "(dvec \<Rightarrow> (dvec \<times> dvec) option res) \<Rightarrow> approx_model \<Rightarrow> task \<Rightarrow> omodel" where
  "known_reward_step rd am task obs a =
     chain (approx_step rd am obs a) (\<lambda>p. case p of
       NoPrediction \<Rightarrow> Inr NoPrediction
     | Predicted r \<Rightarrow>
         if o_v (sr_obs r) = [] then Inr NoPrediction
         else (case tk_invert task obs 0 of
           None \<Rightarrow> Inr (Predicted (r\<lparr>sr_tau := 0\<rparr>))
         | Some state \<Rightarrow>
             let next_state = (case tk_invert task (sr_obs r) (sr_tau r) of None \<Rightarrow> [] | Some s \<Rightarrow> s)
             in chain (tk_evaluate task state a next_state) (\<lambda>reward.
                chain (tk_observe task next_state no_obs) (\<lambda>(_, terminal).
                  Inr (Predicted (r\<lparr>sr_reward := reward, sr_terminal := terminal\<rparr>))))))"

text \<open>The Hessian of the task, if it has one.\<close>

definition task_rewardHessian ::
    "(observation \<Rightarrow> action \<Rightarrow> dvec list res) \<Rightarrow> real \<Rightarrow> (observation \<Rightarrow> action \<Rightarrow> dvec list) \<Rightarrow>
     observation \<Rightarrow> action \<Rightarrow> dvec list res" where
  "task_rewardHessian jac h known obs a =
     (if known obs a = [] then om_rewardHessian jac h obs a else Inr (known obs a))"

end
