(* ===== verification/Planning.thy ===== *)
theory Planning
  imports ObservationModels Predictors
begin

text \<open>
  Predictors and solvers that plan or learn from stored transitions: fitted Q-iteration
  (\<open>predictors/fqi.{h,cpp}\<close>) and its minibatch variant (\<open>predictors/mbfqi.{h,cpp}\<close>), value and
  Q-iteration on an observation model (\<open>predictors/vi.{h,cpp}\<close>), and the solvers that sweep over a
  grid (\<open>solvers/vi.cpp\<close>) or run an agent in a model (\<open>solvers/agent.cpp\<close>).

  \<open>rst\<close> resets the representation. The observation model is a function that returns; the models of
  \<open>ObservationModels\<close> are instances.
\<close>

section \<open>Fitted Q-iteration\<close>

datatype lifetime = plIndefinite | plWrite | plUpdate

datatype reset_strategy = rsNever | rsBatch | rsIteration

definition reset_strategy_of :: "string \<Rightarrow> rep_error + reset_strategy" where
  "reset_strategy_of s =
     (if s = ''never'' then Inr rsNever else if s = ''batch'' then Inr rsBatch
      else if s = ''iteration'' then Inr rsIteration else Inl RepBadParam)"

record cached =
  ct_state :: "projection option"
  ct_actions :: "projection list"
  ct_transition :: transition

definition CachedTransition :: "transition \<Rightarrow> cached" where
  "CachedTransition t = \<lparr>ct_state = None, ct_actions = [], ct_transition = t\<rparr>"

record fqi_params =
  fq_gamma :: real
  fq_iterations :: nat
  fq_reset_strategy :: reset_strategy
  fq_macro_batch_size :: nat
  fq_lifetime :: lifetime   \<comment> \<open>of the projector\<close>

record 'r fqi =
  fq_transitions :: "cached list"
  fq_counter :: nat
  fq_rep :: 'r
  fq_rand :: rand

definition fqi_reset :: "'r fqi \<Rightarrow> 'r fqi" where
  "fqi_reset f = f\<lparr>fq_transitions := [], fq_counter := 0\<rparr>"

definition fqi_copy :: "'r fqi \<Rightarrow> 'r fqi \<Rightarrow> 'r fqi" where
  "fqi_copy f obj = f\<lparr>fq_transitions := fq_transitions obj, fq_counter := fq_counter obj\<rparr>"

definition fqi_update :: "transition \<Rightarrow> 'r fqi \<Rightarrow> 'r fqi" where
  "fqi_update t f = f\<lparr>fq_transitions := fq_transitions f @ [CachedTransition t]\<rparr>"

definition reproject_actions :: "fqi_params \<Rightarrow> nat \<Rightarrow> bool" where
  "reproject_actions q ii \<longleftrightarrow>
     fq_lifetime q = plUpdate \<or> (fq_lifetime q = plWrite \<and> (ii < 2 \<or> fq_reset_strategy q = rsIteration))"

definition reproject_state :: "fqi_params \<Rightarrow> nat \<Rightarrow> bool" where
  "reproject_state q ii \<longleftrightarrow>
     fq_lifetime q \<noteq> plIndefinite \<and> fq_reset_strategy q \<noteq> rsNever \<and>
     (ii = 0 \<or> fq_reset_strategy q = rsIteration)"

text \<open>The projections of the next state with its actions, from the cache where it is valid.\<close>

definition next_actions :: "disc \<Rightarrow> projector \<Rightarrow> bool \<Rightarrow> cached \<Rightarrow> rep_error + cached" where
  "next_actions d pj reproject c =
     (let s = o_v (t_obs (ct_transition c))
      in if ct_actions c = [] \<or> reproject
         then chain (of_option (disc_options d s)) (\<lambda>variants.
                Inr (c\<lparr>ct_actions := pj_variants pj s variants\<rparr>))
         else Inr c)"

definition fqi_target ::
    "'r rep_ops \<Rightarrow> disc \<Rightarrow> projector \<Rightarrow> real \<Rightarrow> bool \<Rightarrow> 'r \<Rightarrow> cached \<Rightarrow> rep_error + real \<times> cached" where
  "fqi_target ops d pj gamma reproject r c =
     (let t = ct_transition c
      in if a_v (t_action t) = [] then Inr (t_reward t, c)
         else chain (next_actions d pj reproject c) (\<lambda>c.
              let n = d_size d (o_v (t_obs t))
              in if length (ct_actions c) < n then Inl RepUndefined
                 else chain (read_all (rep_read1 ops) r (take n (ct_actions c))) (\<lambda>qs.
                      chain (fold_fmax qs) (\<lambda>v.
                        Inr (t_reward t + c_pow gamma (t_tau t) * v, c)))))"

fun fqi_targets ::
    "'r rep_ops \<Rightarrow> disc \<Rightarrow> projector \<Rightarrow> real \<Rightarrow> bool \<Rightarrow> 'r \<Rightarrow> cached list \<Rightarrow>
     rep_error + dvec \<times> cached list" where
  "fqi_targets ops d pj gamma reproject r [] = Inr ([], [])"
| "fqi_targets ops d pj gamma reproject r (c # cs) =
     chain (fqi_target ops d pj gamma reproject r c) (\<lambda>(x, c).
     chain (fqi_targets ops d pj gamma reproject r cs) (\<lambda>(xs, cs). Inr (x # xs, c # cs)))"

definition fqi_project :: "projector \<Rightarrow> bool \<Rightarrow> cached \<Rightarrow> projection" where
  "fqi_project pj reproject c =
     (case ct_state c of
        Some p \<Rightarrow> if reproject then prev_pair pj (ct_transition c) else p
      | None \<Rightarrow> prev_pair pj (ct_transition c))"

fun fqi_writes ::
    "'r rep_ops \<Rightarrow> projector \<Rightarrow> bool \<Rightarrow> (cached \<times> real) list \<Rightarrow> 'r \<Rightarrow> rep_error + cached list \<times> 'r" where
  "fqi_writes ops pj reproject [] r = Inr ([], r)"
| "fqi_writes ops pj reproject ((c, x) # cxs) r =
     (let p = fqi_project pj reproject c
      in chain (rep_write1 ops r p [x] 1) (\<lambda>r.
         chain (fqi_writes ops pj reproject cxs r) (\<lambda>(cs, r). Inr (c\<lparr>ct_state := Some p\<rparr> # cs, r))))"

definition max_delta :: "dvec \<Rightarrow> dvec \<Rightarrow> real" where
  "max_delta old new = foldl max 0 (map2 (\<lambda>x y. \<bar>x - y\<bar>) old new)"

text \<open>One iteration: the targets under the representation so far, then learning them.\<close>

definition fqi_iteration ::
    "'r rep_ops \<Rightarrow> ('r \<Rightarrow> rand \<Rightarrow> 'r \<times> rand) \<Rightarrow> disc \<Rightarrow> projector \<Rightarrow> fqi_params \<Rightarrow> nat \<Rightarrow> 'r fqi \<Rightarrow>
     rep_error + dvec \<times> 'r fqi" where
  "fqi_iteration ops rst d pj q ii f =
     chain (fqi_targets ops d pj (fq_gamma q) (reproject_actions q ii) (fq_rep f) (fq_transitions f)) (\<lambda>(xs, cs).
     let (r, g) = (if fq_reset_strategy q = rsIteration then rst (fq_rep f) (fq_rand f)
                   else (fq_rep f, fq_rand f))
     in chain (fqi_writes ops pj (reproject_state q ii) (zip cs xs) r) (\<lambda>(cs, r).
          Inr (xs, f\<lparr>fq_transitions := cs, fq_rep := rp_finalize ops r, fq_rand := g\<rparr>)))"

text \<open>\<open>n\<close> iterations are left after the first \<open>ii\<close>, whose last targets are \<open>old\<close>.\<close>

fun fqi_loop ::
    "'r rep_ops \<Rightarrow> ('r \<Rightarrow> rand \<Rightarrow> 'r \<times> rand) \<Rightarrow> disc \<Rightarrow> projector \<Rightarrow> fqi_params \<Rightarrow> nat \<Rightarrow> nat \<Rightarrow> dvec \<Rightarrow>
     'r fqi \<Rightarrow> rep_error + 'r fqi" where
  "fqi_loop ops rst d pj q 0 ii old f = Inr f"
| "fqi_loop ops rst d pj q (Suc n) ii old f =
     chain (fqi_iteration ops rst d pj q ii f) (\<lambda>(new, f).
       if max_delta old new > 0.001 then fqi_loop ops rst d pj q n (Suc ii) new f else Inr f)"

definition fqi_rebuild ::
    "'r rep_ops \<Rightarrow> ('r \<Rightarrow> rand \<Rightarrow> 'r \<times> rand) \<Rightarrow> disc \<Rightarrow> projector \<Rightarrow> fqi_params \<Rightarrow> 'r fqi \<Rightarrow>
     rep_error + 'r fqi" where
  "fqi_rebuild ops rst d pj q f =
     (let f = (if fq_reset_strategy q = rsNever then f
               else let (r, g) = rst (fq_rep f) (fq_rand f) in f\<lparr>fq_rep := r, fq_rand := g\<rparr>)
      in fqi_loop ops rst d pj q (fq_iterations q) 0 (ConstantVector (length (fq_transitions f)) 0) f)"

definition fqi_finalize ::
    "'r rep_ops \<Rightarrow> ('r \<Rightarrow> rand \<Rightarrow> 'r \<times> rand) \<Rightarrow> disc \<Rightarrow> projector \<Rightarrow> fqi_params \<Rightarrow> 'r fqi \<Rightarrow>
     rep_error + 'r fqi" where
  "fqi_finalize ops rst d pj q f =
     (if fq_macro_batch_size q = 0 then Inr f
      else let f = f\<lparr>fq_counter := fq_counter f + 1\<rparr>
           in if fq_counter f mod fq_macro_batch_size q = 0 then fqi_rebuild ops rst d pj q f else Inr f)"

section \<open>Saving and loading the transitions\<close>

text \<open>The sizes of an observation and of an action, and a row per transition. Actions may hold NaN.\<close>

record fqi_row =
  fr_prev_obs :: dvec
  fr_prev_action :: dvec
  fr_obs :: dvec
  fr_action :: "dbl list"
  fr_reward :: real

record fqi_file =
  ff_obs :: nat
  ff_action :: nat
  ff_rows :: "fqi_row list"

text \<open>\<open>n\<close> doubles from the start of a vector.\<close>

definition raw :: "nat \<Rightarrow> 'a list \<Rightarrow> rep_error + 'a list" where
  "raw n v = (if length v < n then Inl RepUndefined else Inr (take n v))"

definition save_row :: "nat \<Rightarrow> nat \<Rightarrow> transition \<Rightarrow> rep_error + fqi_row" where
  "save_row n m t =
     chain (raw n (o_v (t_prev_obs t))) (\<lambda>po.
     chain (raw m (a_v (t_prev_action t))) (\<lambda>pa.
     chain (raw n (o_v (t_obs t))) (\<lambda>ob.
     chain (if a_v (t_action t) = [] then Inr (replicate m NaN) else raw m (map Fin (a_v (t_action t)))) (\<lambda>ac.
       Inr \<lparr>fr_prev_obs = po, fr_prev_action = pa, fr_obs = ob, fr_action = ac, fr_reward = t_reward t\<rparr>))))"

fun save_rows :: "nat \<Rightarrow> nat \<Rightarrow> transition list \<Rightarrow> rep_error + fqi_row list" where
  "save_rows n m [] = Inr []"
| "save_rows n m (t # ts) =
     chain (save_row n m t) (\<lambda>row. chain (save_rows n m ts) (\<lambda>rows. Inr (row # rows)))"

text \<open>Nothing is written without transitions.\<close>

definition fqi_save :: "cached list \<Rightarrow> rep_error + fqi_file option" where
  "fqi_save cs =
     (case cs of
        [] \<Rightarrow> Inr None
      | c # _ \<Rightarrow>
          let n = length (o_v (t_obs (ct_transition c))); m = length (a_v (t_action (ct_transition c)))
          in chain (save_rows n m (map ct_transition cs)) (\<lambda>rows.
               Inr (Some \<lparr>ff_obs = n, ff_action = m, ff_rows = rows\<rparr>)))"

text \<open>The first number of the action says whether there is one.\<close>

definition load_row :: "fqi_row \<Rightarrow> rep_error + cached" where
  "load_row row =
     (if fr_action row = [] then Inl RepUndefined
      else Inr (CachedTransition
        (Transition (Observation (fr_prev_obs row) False) (Action (fr_prev_action row) atUndefined) 1
           (fr_reward row) (Observation (fr_obs row) False)
           (if d_isnan (hd (fr_action row)) then no_action
            else Action (map d_val (fr_action row)) atUndefined))))"

fun load_rows :: "fqi_row list \<Rightarrow> rep_error + cached list" where
  "load_rows [] = Inr []"
| "load_rows (row # rows) =
     chain (load_row row) (\<lambda>c. chain (load_rows rows) (\<lambda>cs. Inr (c # cs)))"

definition fqi_load ::
    "'r rep_ops \<Rightarrow> ('r \<Rightarrow> rand \<Rightarrow> 'r \<times> rand) \<Rightarrow> disc \<Rightarrow> projector \<Rightarrow> fqi_params \<Rightarrow> fqi_file \<Rightarrow> 'r fqi \<Rightarrow>
     rep_error + 'r fqi" where
  "fqi_load ops rst d pj q fl f =
     chain (load_rows (ff_rows fl)) (\<lambda>cs.
       fqi_rebuild ops rst d pj q (f\<lparr>fq_transitions := fq_transitions f @ cs\<rparr>))"

section \<open>Minibatch fitted Q-iteration\<close>

record mb_cached =
  mc_transition :: transition
  mc_projection :: "projection option"
  mc_target :: real

record mb_params =
  mb_gamma :: real
  mb_minibatch_size :: nat
  mb_update_interval :: nat
  mb_lifetime :: lifetime

record 'r mbfqi =
  mb_transitions :: "mb_cached list"
  mb_indices :: "nat list"
  mb_counter :: nat
  mb_rep :: "'r batch_rep"
  mb_rand :: rand

definition mb_reset :: "'r mbfqi \<Rightarrow> 'r mbfqi" where
  "mb_reset m = m\<lparr>mb_transitions := [], mb_indices := [], mb_counter := 0\<rparr>"

definition mb_copy :: "'r mbfqi \<Rightarrow> 'r mbfqi \<Rightarrow> 'r mbfqi" where
  "mb_copy m obj = m\<lparr>mb_transitions := mb_transitions obj, mb_indices := mb_indices obj,
                    mb_counter := mb_counter obj\<rparr>"

text \<open>The transition of position \<open>jj\<close> of the minibatch: drawn at the last rebuild, or now.\<close>

definition mb_pick :: "mb_params \<Rightarrow> 'r mbfqi \<Rightarrow> nat \<Rightarrow> rand \<Rightarrow> rep_error + mb_cached \<times> rand" where
  "mb_pick q m jj g =
     chain (if mb_indices m \<noteq> []
            then let k = mb_counter m * mb_minibatch_size q + jj
                 in if k < length (mb_indices m) then Inr (mb_indices m ! k, g) else Inl RepUndefined
            else of_option (getInteger (length (mb_transitions m)) g)) (\<lambda>(ix, g).
       if ix < length (mb_transitions m) then Inr (mb_transitions m ! ix, g) else Inl RepUndefined)"

definition mb_project :: "mb_params \<Rightarrow> projector \<Rightarrow> mb_cached \<Rightarrow> rep_error + projection" where
  "mb_project q pj c =
     (if mb_lifetime q \<noteq> plIndefinite then Inr (prev_pair pj (mc_transition c))
      else of_option (mc_projection c))"

fun mb_batch ::
    "'r rep_ops \<Rightarrow> projector \<Rightarrow> mb_params \<Rightarrow> 'r mbfqi \<Rightarrow> nat list \<Rightarrow> 'r \<times> rand \<Rightarrow> rep_error + 'r \<times> rand" where
  "mb_batch ops pj q m [] rg = Inr rg"
| "mb_batch ops pj q m (jj # jjs) (r, g) =
     chain (mb_pick q m jj g) (\<lambda>(c, g).
     chain (mb_project q pj c) (\<lambda>p.
     chain (enqueue_writes ops [(p, [mc_target c])] r) (\<lambda>r.
       mb_batch ops pj q m jjs (r, g))))"

text \<open>Drawing the transitions of the next minibatches.\<close>

fun mb_draw :: "nat \<Rightarrow> nat \<Rightarrow> rand \<Rightarrow> rep_error + nat list \<times> rand" where
  "mb_draw n 0 g = Inr ([], g)"
| "mb_draw n (Suc k) g =
     chain (of_option (getInteger n g)) (\<lambda>(ix, g).
     chain (mb_draw n k g) (\<lambda>(ixs, g). Inr (ix # ixs, g)))"

fun mb_options :: "disc \<Rightarrow> projector \<Rightarrow> mb_cached list \<Rightarrow> rep_error + projection list" where
  "mb_options d pj [] = Inr []"
| "mb_options d pj (c # cs) =
     (let s = o_v (t_obs (mc_transition c))
      in chain (of_option (disc_options d s)) (\<lambda>variants.
         chain (mb_options d pj cs) (\<lambda>ps. Inr (pj_variants pj s variants @ ps))))"

fun row_max :: "dvec list \<Rightarrow> nat list \<Rightarrow> real \<Rightarrow> rep_error + real" where
  "row_max results [] v = Inr v"
| "row_max results (k # ks) v = chain (cell results k) (\<lambda>x. row_max results ks (max v x))"

definition mb_target :: "real \<Rightarrow> nat \<Rightarrow> dvec list \<Rightarrow> nat \<Rightarrow> mb_cached \<Rightarrow> rep_error + real" where
  "mb_target gamma actions results ii c =
     (let t = mc_transition c
      in if a_v (t_action t) = [] then Inr (t_reward t)
         else chain (cell results (ii * actions)) (\<lambda>v.
              chain (row_max results (map (\<lambda>jj. ii * actions + jj) [1..<actions]) v) (\<lambda>v.
                Inr (t_reward t + c_pow gamma (t_tau t) * v))))"

text \<open>The loop over the drawn transitions: \<open>ii\<close> is the position of the next.\<close>

fun mb_targets ::
    "real \<Rightarrow> nat \<Rightarrow> dvec list \<Rightarrow> nat \<Rightarrow> nat list \<Rightarrow> mb_cached list \<Rightarrow> rep_error + mb_cached list" where
  "mb_targets gamma actions results ii [] cs = Inr cs"
| "mb_targets gamma actions results ii (ix # ixs) cs =
     (if length cs \<le> ix then Inl RepUndefined
      else chain (mb_target gamma actions results ii (cs ! ix)) (\<lambda>x.
             mb_targets gamma actions results (Suc ii) ixs (cs[ix := (cs ! ix)\<lparr>mc_target := x\<rparr>])))"

definition mb_rebuild :: "'r rep_ops \<Rightarrow> disc \<Rightarrow> projector \<Rightarrow> mb_params \<Rightarrow> 'r mbfqi \<Rightarrow> rep_error + 'r mbfqi" where
  "mb_rebuild ops d pj q m =
     (let actions = d_size d []
      in chain (batchRead False (mb_rep m)) (\<lambda>b.
         chain (mb_draw (length (mb_transitions m)) (mb_minibatch_size q * mb_update_interval q) (mb_rand m)) (\<lambda>(ixs, g).
         chain (mb_options d pj (map (\<lambda>ix. mb_transitions m ! ix) ixs)) (\<lambda>ps.
         chain (batch_read ops False (enqueue_all False ps b)) (\<lambda>(results, b).
         chain (mb_targets (mb_gamma q) actions results 0 ixs (mb_transitions m)) (\<lambda>cs.
           Inr (m\<lparr>mb_transitions := cs, mb_indices := ixs, mb_rep := b, mb_rand := g\<rparr>)))))))"

text \<open>If the projector has infinite lifetime, the projection is made once, here.\<close>

definition mb_remember :: "projector \<Rightarrow> mb_params \<Rightarrow> transition \<Rightarrow> 'r mbfqi \<Rightarrow> 'r mbfqi" where
  "mb_remember pj q t m = m\<lparr>mb_transitions := mb_transitions m @
     [\<lparr>mc_transition = t,
       mc_projection = (if mb_lifetime q = plIndefinite then Some (prev_pair pj t) else None),
       mc_target = t_reward t\<rparr>]\<rparr>"

definition mb_advance ::
    "'r rep_ops \<Rightarrow> disc \<Rightarrow> projector \<Rightarrow> mb_params \<Rightarrow> 'r \<Rightarrow> rand \<Rightarrow> 'r mbfqi \<Rightarrow> rep_error + 'r mbfqi" where
  "mb_advance ops d pj q r g m =
     (let m = m\<lparr>mb_rep := (mb_rep m)\<lparr>b_rep := r\<rparr>, mb_rand := g, mb_counter := mb_counter m + 1\<rparr>
      in if mb_counter m = mb_update_interval q
         then chain (mb_rebuild ops d pj q m) (\<lambda>m. Inr (m\<lparr>mb_counter := 0\<rparr>))
         else Inr m)"

definition mb_update ::
    "'r rep_ops \<Rightarrow> disc \<Rightarrow> projector \<Rightarrow> mb_params \<Rightarrow> transition \<Rightarrow> 'r mbfqi \<Rightarrow> rep_error + 'r mbfqi" where
  "mb_update ops d pj q t m =
     (let m = mb_remember pj q t m
      in chain (mb_batch ops pj q m [0..<mb_minibatch_size q] (b_rep (mb_rep m), mb_rand m)) (\<lambda>(r, g).
           mb_advance ops d pj q r g m))"

section \<open>Value iteration\<close>

text \<open>The best value so far is \<open>None\<close> for minus infinity.\<close>

definition backed_up ::
    "'r rep_ops \<Rightarrow> projector \<Rightarrow> real \<Rightarrow> 'r \<Rightarrow> step_result \<Rightarrow> rep_error + real" where
  "backed_up ops pj gamma r s =
     (if sr_terminal s = 0
      then chain (rep_read1 ops r (pj_project pj (o_v (sr_obs s)))) (\<lambda>v.
             Inr (sr_reward s + c_pow gamma (sr_tau s) * v))
      else Inr (sr_reward s))"

fun vi_backup ::
    "'r rep_ops \<Rightarrow> projector \<Rightarrow> real \<Rightarrow> omodel \<Rightarrow> observation \<Rightarrow> 'r \<Rightarrow> dvec list \<Rightarrow> real option \<Rightarrow>
     rep_error + real option" where
  "vi_backup ops pj gamma om obs r [] v = Inr v"
| "vi_backup ops pj gamma om obs r (a # as) v =
     chain (om obs (Action a atUndefined)) (\<lambda>p. case p of
       NoPrediction \<Rightarrow> vi_backup ops pj gamma om obs r as v
     | Predicted s \<Rightarrow>
         if o_v (sr_obs s) = [] then vi_backup ops pj gamma om obs r as v
         else chain (backed_up ops pj gamma r s) (\<lambda>x.
                vi_backup ops pj gamma om obs r as (Some (case v of None \<Rightarrow> x | Some y \<Rightarrow> max y x))))"

definition vi_update ::
    "'r rep_ops \<Rightarrow> disc \<Rightarrow> projector \<Rightarrow> real \<Rightarrow> omodel \<Rightarrow> transition \<Rightarrow> 'r \<Rightarrow> rep_error + 'r" where
  "vi_update ops d pj gamma om t r =
     (let obs = t_prev_obs t
      in chain (of_option (disc_options d (o_v obs))) (\<lambda>as.
         chain (vi_backup ops pj gamma om obs r as None) (\<lambda>v. case v of
           None \<Rightarrow> Inr r
         | Some v \<Rightarrow> rep_write1 ops r (pj_project pj (o_v obs)) [v] 1)))"

text \<open>Q-iteration writes every action at once.\<close>

definition best_next ::
    "'r rep_ops \<Rightarrow> disc \<Rightarrow> projector \<Rightarrow> real \<Rightarrow> 'r \<Rightarrow> step_result \<Rightarrow> rep_error + real" where
  "best_next ops d pj gamma r s =
     (if sr_terminal s = 0
      then let next = o_v (sr_obs s)
           in chain (of_option (disc_options d next)) (\<lambda>as.
              chain (read_all (rep_read1 ops) r (map (pj_pair pj next) as)) (\<lambda>qs.
              chain (fold_fmax qs) (\<lambda>v. Inr (sr_reward s + c_pow gamma (sr_tau s) * v))))
      else Inr (sr_reward s))"

fun qi_backup ::
    "'r rep_ops \<Rightarrow> disc \<Rightarrow> projector \<Rightarrow> real \<Rightarrow> omodel \<Rightarrow> observation \<Rightarrow> dvec list \<Rightarrow> 'r \<Rightarrow> rep_error + 'r" where
  "qi_backup ops d pj gamma om obs [] r = Inr r"
| "qi_backup ops d pj gamma om obs (a # as) r =
     chain (om obs (Action a atUndefined)) (\<lambda>p. case p of
       NoPrediction \<Rightarrow> qi_backup ops d pj gamma om obs as r
     | Predicted s \<Rightarrow>
         if o_v (sr_obs s) = [] then qi_backup ops d pj gamma om obs as r
         else chain (best_next ops d pj gamma r s) (\<lambda>x.
              chain (rep_write1 ops r (pj_pair pj (o_v obs) a) [x] 1) (\<lambda>r.
                qi_backup ops d pj gamma om obs as r)))"

definition qi_update ::
    "'r rep_ops \<Rightarrow> disc \<Rightarrow> projector \<Rightarrow> real \<Rightarrow> omodel \<Rightarrow> transition \<Rightarrow> 'r \<Rightarrow> rep_error + 'r" where
  "qi_update ops d pj gamma om t r =
     chain (of_option (disc_options d (o_v (t_prev_obs t)))) (\<lambda>as.
       qi_backup ops d pj gamma om (t_prev_obs t) as r)"

section \<open>Sweeping over a grid\<close>

text \<open>\<open>upd\<close> and \<open>fin\<close> are the methods of the predictor.\<close>

definition state_transition :: "dvec \<Rightarrow> transition" where
  "state_transition s = Transition (Observation s False) no_action 1 0 no_obs no_action"

fun vi_sweep :: "(transition \<Rightarrow> 's \<Rightarrow> rep_error + 's) \<Rightarrow> ('s \<Rightarrow> rep_error + 's) \<Rightarrow> dvec list \<Rightarrow> 's \<Rightarrow> rep_error + 's" where
  "vi_sweep upd fin [] r = Inr r"
| "vi_sweep upd fin (s # ss) r =
     chain (upd (state_transition s) r) (\<lambda>r. chain (fin r) (vi_sweep upd fin ss))"

fun vi_sweeps :: "(transition \<Rightarrow> 's \<Rightarrow> rep_error + 's) \<Rightarrow> ('s \<Rightarrow> rep_error + 's) \<Rightarrow> dvec list \<Rightarrow> nat \<Rightarrow> 's \<Rightarrow> rep_error + 's" where
  "vi_sweeps upd fin ss 0 r = Inr r"
| "vi_sweeps upd fin ss (Suc k) r = chain (vi_sweep upd fin ss r) (vi_sweeps upd fin ss k)"

definition vi_solve ::
    "(transition \<Rightarrow> 's \<Rightarrow> rep_error + 's) \<Rightarrow> ('s \<Rightarrow> rep_error + 's) \<Rightarrow> disc \<Rightarrow> nat \<Rightarrow> 's \<Rightarrow> rep_error + 's" where
  "vi_solve upd fin d sweeps r =
     chain (of_option (disc_options d [])) (\<lambda>ss. vi_sweeps upd fin ss sweeps r)"

text \<open>The part of the states that thread \<open>k\<close> of \<open>threads\<close> backs up in a parallel sweep.\<close>

definition thread_chunk :: "nat \<Rightarrow> nat \<Rightarrow> 'a list \<Rightarrow> 'a list" where
  "thread_chunk threads k ss =
     (let chunk_size = length ss div threads; rest = drop (k * chunk_size) ss
      in if k + 1 = threads then rest else take chunk_size rest)"

section \<open>Running an agent in a model\<close>

record 's plan_run =
  pl_obs :: observation
  pl_action :: action
  pl_terminal :: int
  pl_steps :: nat
  pl_agent :: 's

definition plan_start :: "'s agent_ops \<Rightarrow> dvec \<Rightarrow> 's plan_run \<Rightarrow> 's plan_run res" where
  "plan_start ops start p =
     (if pl_terminal p \<noteq> 0
      then let obs = obs_assign start (pl_obs p)
           in chain (ag_start ops obs (pl_action p) (pl_agent p)) (\<lambda>(a, s).
                Inr (p\<lparr>pl_steps := 0, pl_obs := obs, pl_action := a, pl_agent := s\<rparr>))
      else Inr p)"

text \<open>What follows the model's step; a failed prediction leaves the agent alone.\<close>

definition plan_react :: "'s agent_ops \<Rightarrow> predicted \<Rightarrow> 's plan_run \<Rightarrow> 's plan_run res" where
  "plan_react ops pr p =
     (case pr of
        NoPrediction \<Rightarrow> Inr (p\<lparr>pl_obs := no_obs, pl_terminal := 1\<rparr>)
      | Predicted r \<Rightarrow>
          let p = p\<lparr>pl_obs := sr_obs r, pl_terminal := sr_terminal r\<rparr>
          in if o_v (sr_obs r) = [] then Inr (p\<lparr>pl_terminal := 1\<rparr>)
             else if sr_terminal r = 2
             then chain (ag_end ops (sr_tau r) (sr_obs r) (sr_reward r) (pl_agent p)) (\<lambda>s.
                    Inr (p\<lparr>pl_agent := s\<rparr>))
             else chain (ag_step ops (sr_tau r) (sr_obs r) (sr_reward r) (pl_action p) (pl_agent p)) (\<lambda>(a, s).
                    Inr (p\<lparr>pl_action := a, pl_agent := s\<rparr>)))"

text \<open>\<open>if (horizon_ && steps++ == horizon_)\<close>\<close>

definition plan_horizon :: "nat \<Rightarrow> 's plan_run \<Rightarrow> 's plan_run" where
  "plan_horizon horizon p =
     (if horizon = 0 then p
      else p\<lparr>pl_steps := pl_steps p + 1,
             pl_terminal := (if pl_steps p = horizon then 1 else pl_terminal p)\<rparr>)"

definition plan_step :: "'s agent_ops \<Rightarrow> omodel \<Rightarrow> dvec \<Rightarrow> nat \<Rightarrow> 's plan_run \<Rightarrow> 's plan_run res" where
  "plan_step ops om start horizon p =
     chain (plan_start ops start p) (\<lambda>p.
     chain (om (pl_obs p) (pl_action p)) (\<lambda>pr.
     chain (plan_react ops pr p) (\<lambda>p. Inr (plan_horizon horizon p))))"

fun plan_steps :: "'s agent_ops \<Rightarrow> omodel \<Rightarrow> dvec \<Rightarrow> nat \<Rightarrow> nat \<Rightarrow> 's plan_run \<Rightarrow> 's plan_run res" where
  "plan_steps ops om start horizon 0 p = Inr p"
| "plan_steps ops om start horizon (Suc n) p =
     chain (plan_step ops om start horizon p) (plan_steps ops om start horizon n)"

definition agent_solve :: "'s agent_ops \<Rightarrow> omodel \<Rightarrow> dvec \<Rightarrow> nat \<Rightarrow> nat \<Rightarrow> 's \<Rightarrow> 's res" where
  "agent_solve ops om start horizon steps s =
     chain (plan_steps ops om start horizon steps
              \<lparr>pl_obs = no_obs, pl_action = no_action, pl_terminal = 1, pl_steps = 0, pl_agent = s\<rparr>)
       (\<lambda>p. Inr (pl_agent p))"

end
