(* ===== verification/PlanningFacts.thy ===== *)
theory PlanningFacts
  imports Planning WorldFacts Grids RepFacts
begin

text \<open>
  Facts about planning. A representation with one entry per state is a \<open>value_table\<close>, which the
  linear representation is when every state activates one feature; value iteration on such a table
  computes the best outcome of every state in turn. On the windy gridworld, with its known model,
  its own grid and the linear representation, 15 sweeps give the exact value of every cell.
\<close>

section \<open>Tables of values\<close>

text \<open>What an action leads to: its reward, and, unless the state is terminal, an entry and its discount.\<close>

type_synonym outcome = "real \<times> (nat \<times> real) option"

definition worth :: "(nat \<Rightarrow> real) \<Rightarrow> outcome \<Rightarrow> real" where
  "worth V w = fst w + (case snd w of None \<Rightarrow> 0 | Some (j, g) \<Rightarrow> g * V j)"

definition bellman :: "(nat \<Rightarrow> outcome list) \<Rightarrow> (nat \<Rightarrow> real) \<Rightarrow> nat \<Rightarrow> real" where
  "bellman out V i = Max (worth V ` set (out i))"

locale value_table =
  fixes ops :: "'r rep_ops"
    and holds :: "'r \<Rightarrow> (nat \<Rightarrow> real) \<Rightarrow> bool"
    and entry :: "nat \<Rightarrow> projection"
    and n :: nat
    and storable :: "real \<Rightarrow> bool"
  assumes table_read: "holds r V \<Longrightarrow> i < n \<Longrightarrow> rep_read1 ops r (entry i) = Inr (V i)"
    and table_write: "holds r V \<Longrightarrow> i < n \<Longrightarrow> storable x \<Longrightarrow>
      \<exists>r'. rep_write1 ops r (entry i) [x] 1 = Inr r' \<and> holds r' (V(i := x))"
begin

definition predicts :: "projector \<Rightarrow> real \<Rightarrow> omodel \<Rightarrow> observation \<Rightarrow> dvec \<Rightarrow> outcome \<Rightarrow> bool" where
  "predicts pj gamma om obs a w \<longleftrightarrow>
     (\<exists>s. om obs (Action a atUndefined) = Inr (Predicted s) \<and> o_v (sr_obs s) \<noteq> [] \<and> sr_reward s = fst w \<and>
        (case snd w of
           None \<Rightarrow> sr_terminal s \<noteq> 0
         | Some (j, g) \<Rightarrow> sr_terminal s = 0 \<and> j < n \<and> pj_project pj (o_v (sr_obs s)) = entry j \<and>
             c_pow gamma (sr_tau s) = g))"

lemma backed_up_worth:
  assumes "holds r V" and "predicts pj gamma om obs a w"
  shows "vi_backup ops pj gamma om obs r (a # as) v =
    vi_backup ops pj gamma om obs r as (Some (case v of None \<Rightarrow> worth V w | Some y \<Rightarrow> max y (worth V w)))"
proof -
  from assms(2) obtain s where s: "om obs (Action a atUndefined) = Inr (Predicted s)" "o_v (sr_obs s) \<noteq> []"
    "sr_reward s = fst w" and w: "case snd w of None \<Rightarrow> sr_terminal s \<noteq> 0
       | Some (j, g) \<Rightarrow> sr_terminal s = 0 \<and> j < n \<and> pj_project pj (o_v (sr_obs s)) = entry j \<and>
           c_pow gamma (sr_tau s) = g"
    unfolding predicts_def by blast
  have "backed_up ops pj gamma r s = Inr (worth V w)"
    using s(3) w table_read [OF assms(1)]
    by (auto simp: backed_up_def worth_def split: option.splits)
  then show ?thesis using s by simp
qed

lemma vi_backup_best:
  assumes "holds r V" and "list_all2 (predicts pj gamma om obs) as ws"
  shows "vi_backup ops pj gamma om obs r as (Some x) = Inr (Some (foldl max x (map (worth V) ws)))"
  using assms(2)
proof (induction as ws arbitrary: x rule: list_all2_induct)
  case (Cons a as w ws)
  show ?case unfolding backed_up_worth [OF assms(1) Cons.hyps(1)] by (simp add: Cons.IH)
qed simp

lemma foldl_max_Max: "foldl max x xs = Max (insert x (set (xs :: real list)))"
proof (induction xs arbitrary: x)
  case (Cons y ys)
  have "foldl max x (y # ys) = Max (insert (max x y) (set ys))" by (simp add: Cons.IH)
  also have "\<dots> = Max (insert x (set (y # ys)))"
    by (cases "ys = []") (simp_all add: max.assoc)
  finally show ?case .
qed simp

lemma vi_update_best:
  assumes "holds r V" and "disc_options d (o_v (t_prev_obs t)) = Some as"
    and "list_all2 (predicts pj gamma om (t_prev_obs t)) as (out i)" and "out i \<noteq> []"
    and "i < n" and "pj_project pj (o_v (t_prev_obs t)) = entry i" and "storable (bellman out V i)"
  shows "\<exists>r'. vi_update ops d pj gamma om t r = Inr r' \<and> holds r' (V(i := bellman out V i))"
proof -
  from assms(3,4) obtain a as' w ws where aw: "as = a # as'" "out i = w # ws"
    by (cases as; cases "out i") auto
  have "vi_backup ops pj gamma om (t_prev_obs t) r as None = Inr (Some (foldl max (worth V w) (map (worth V) ws)))"
    unfolding aw(1) using backed_up_worth [OF assms(1), of pj gamma om "t_prev_obs t" a w as' None]
      vi_backup_best [OF assms(1), of pj gamma om "t_prev_obs t" as' ws "worth V w"] assms(3) aw by simp
  also have "foldl max (worth V w) (map (worth V) ws) = bellman out V i"
    unfolding foldl_max_Max bellman_def aw(2) by simp
  finally show ?thesis
    using table_write [OF assms(1,5,7)] assms(2,6) by (simp add: vi_update_def Let_def)
qed

end

section \<open>The linear representation as a table\<close>

definition lr_table :: "nat \<Rightarrow> real \<Rightarrow> real \<Rightarrow> linear_rep \<Rightarrow> (nat \<Rightarrow> real) \<Rightarrow> bool" where
  "lr_table n l h lr V \<longleftrightarrow> n \<le> invalid_index \<and> lr_outputs lr = 1 \<and> lr_limit lr = 0 \<and>
     length (lr_params lr) = n \<and> lr_output_min lr = [l] \<and> lr_output_max lr = [h] \<and>
     (\<forall>i < n. lr_params lr ! i = V i \<and> l \<le> V i \<and> V i \<le> h)"

definition unit_feature :: "nat \<Rightarrow> projection" where
  "unit_feature i = IndexProjection \<lparr>ip_indices = [i], ip_weights = []\<rparr>"

lemma lr_table_read:
  assumes "lr_table n l h lr V" and "i < n"
  shows "lr_read lr (unit_feature i) = Inr [V i]"
  using assms by (simp add: lr_table_def lr_read_def lr_read_params_def unit_feature_def lr_in_range_def
      lr_sum_def lr_clip_def)

lemma lr_table_write:
  assumes "lr_table n l h lr V" and "i < n" and "l \<le> x" and "x \<le> h"
  shows "\<exists>lr'. rep_write1 lr_ops lr (unit_feature i) [x] 1 = Inr lr' \<and> lr_table n l h lr' (V(i := x))"
proof -
  let ?d = "vmul (ConstantVector 1 1) (vsub [x] [V i])"
  have d: "?d = [x - V i]" by (simp add: vmul_def vsub_def ConstantVector_def)
  have T: "lr_outputs lr = 1" "lr_limit lr = 0" "length (lr_params lr) = n" "i \<noteq> invalid_index"
    "lr_params lr ! i = V i" using assms by (auto simp: lr_table_def)
  have rows: "lr_rows lr (unit_feature i) [x - V i] = Inr [(i, \<lambda>jj. [x - V i] ! jj)]"
    using T(4) by (simp add: unit_feature_def)
  have row: "lr_add_row lr i (\<lambda>jj. [x - V i] ! jj) (lr_params lr) = (lr_params lr)[i := x]"
    using T by (simp add: lr_add_row_def lr_store_def)
  have "lr_update lr (unit_feature i) [x - V i] = Inr (checkSynchronize (lr\<lparr>lr_params := (lr_params lr)[i := x]\<rparr>))"
    unfolding lr_update_def rows using T assms(2) row by (simp add: lr_in_range_def)
  then have "rep_write1 lr_ops lr (unit_feature i) [x] 1 =
      Inr (checkSynchronize (lr\<lparr>lr_params := (lr_params lr)[i := x]\<rparr>))"
    using lr_table_read [OF assms(1,2)] d
    by (simp add: rep_write1_def lr_ops_def lr_write_def ConstantVector_def)
  moreover have "lr_table n l h (checkSynchronize (lr\<lparr>lr_params := (lr_params lr)[i := x]\<rparr>)) (V(i := x))"
    using assms by (auto simp: lr_table_def nth_list_update)
  ultimately show ?thesis by blast
qed

interpretation lr_table: value_table lr_ops "lr_table n l h" unit_feature n "\<lambda>x. l \<le> x \<and> x \<le> h" for n l h
proof unfold_locales
  fix r V i assume "lr_table n l h r V" and "i < n"
  then show "rep_read1 lr_ops r (unit_feature i) = Inr (V i)"
    using lr_table_read [of n l h r V i] by (simp add: rep_read1_def lr_ops_def)
next
  fix r V i x assume "lr_table n l h r V" "i < n" "l \<le> x \<and> x \<le> h"
  then show "\<exists>r'. rep_write1 lr_ops r (unit_feature i) [x] 1 = Inr r' \<and> lr_table n l h r' (V(i := x))"
    using lr_table_write by blast
qed

section \<open>Sweeps\<close>

text \<open>
  A sweep over the states keeps an invariant \<open>P k\<close> of the table while the first \<open>k\<close> states have been
  backed up, if a single backup does.
\<close>

lemma vi_sweep_invariant:
  assumes "\<And>k r. k < length ss \<Longrightarrow> P k r \<Longrightarrow>
    \<exists>r'. upd (state_transition (ss ! k)) r = Inr r' \<and> P (Suc k) r'"
  shows "P 0 r \<Longrightarrow> \<exists>r'. vi_sweep upd Inr ss r = Inr r' \<and> P (length ss) r'"
proof -
  have "k \<le> length ss \<Longrightarrow> P k r \<Longrightarrow> \<exists>r'. vi_sweep upd Inr (drop k ss) r = Inr r' \<and> P (length ss) r'" for k r
  proof (induction "length ss - k" arbitrary: k r)
    case 0
    then show ?case by simp
  next
    case (Suc m)
    then have k: "k < length ss" by simp
    from assms [OF this Suc.prems(2)] obtain r1 where r1: "upd (state_transition (ss ! k)) r = Inr r1"
      "P (Suc k) r1" by blast
    have m: "m = length ss - Suc k" using Suc.hyps(2) by simp
    have "Suc k \<le> length ss" using k by simp
    from Suc.hyps(1) [OF m this r1(2)] obtain r' where
      "vi_sweep upd Inr (drop (Suc k) ss) r1 = Inr r'" "P (length ss) r'" by blast
    then show ?case using r1(1) k by (simp add: Cons_nth_drop_Suc [symmetric])
  qed
  then show "P 0 r \<Longrightarrow> \<exists>r'. vi_sweep upd Inr ss r = Inr r' \<and> P (length ss) r'"
    by (metis drop0 le0)
qed

lemma vi_sweeps_invariant:
  assumes "\<And>k r. P k r \<Longrightarrow> \<exists>r'. vi_sweep upd Inr ss r = Inr r' \<and> P (Suc k) r'"
  shows "P k r \<Longrightarrow> \<exists>r'. vi_sweeps upd Inr ss m r = Inr r' \<and> P (k + m) r'"
proof (induction m arbitrary: k r)
  case (Suc m)
  from assms [OF Suc.prems] obtain r1 where r1: "vi_sweep upd Inr ss r = Inr r1" "P (Suc k) r1" by blast
  from Suc.IH [OF r1(2)] r1(1) show ?case by auto
qed simp

section \<open>Planning in the windy gridworld\<close>

definition windy_grid :: uniform_disc where
  "windy_grid = \<lparr>ud_min = [0, 0], ud_max = [9, 6], ud_steps = [10, 7],
     ud_values = [map real [0..<10], map real [0..<7]]\<rparr>"

definition windy_moves :: uniform_disc where
  "windy_moves = \<lparr>ud_min = [0], ud_max = [3], ud_steps = [4], ud_values = [map real [0..<4]]\<rparr>"

definition windy_features :: projector where
  "windy_features = base_projector (\<lambda>s. unit_feature (the (ud_discretize windy_grid s)))"

definition windy_planner :: omodel where
  "windy_planner obs a = the (known_model_step windy_step windy_task 1 obs a)"

text \<open>The grids are what the discretizers configure.\<close>

lemma windy_grids_configured:
  "ud_configure [0, 0] [9, 6] [10, 7] = Inr windy_grid" "ud_configure [0] [3] [4] = Inr windy_moves"
  by (simp_all add: ud_configure_def ud_row_def ud_value_def ud_delta_def windy_grid_def windy_moves_def
      upt_rec Let_def)

definition cell_numbered :: "nat \<Rightarrow> int \<times> int" where
  "cell_numbered k = (int (k mod 10), int (k div 10))"

definition entry_of :: "int \<times> int \<Rightarrow> nat" where
  "entry_of c = nat (fst c) + 10 * nat (snd c)"

definition cell_point :: "int \<times> int \<Rightarrow> dvec" where
  "cell_point c = [real_of_int (fst c), real_of_int (snd c)]"

lemma entry_of_cell: "windy_cell c \<Longrightarrow> cell_numbered (entry_of c) = c \<and> entry_of c < 70"
  by (cases c) (auto simp: windy_cell_def cell_numbered_def entry_of_def)

lemma cell_of_entry: "k < 70 \<Longrightarrow> windy_cell (cell_numbered k) \<and> entry_of (cell_numbered k) = k"
  by (auto simp: windy_cell_def cell_numbered_def entry_of_def)

lemma ud_wf_windy: "ud_wf windy_grid" "ud_wf windy_moves"
  by (simp_all add: ud_wf_def windy_grid_def windy_moves_def)

lemma ud_size_windy: "ud_size windy_grid = 70" "ud_size windy_moves = 4"
  using ud_size_eq [OF ud_wf_windy(1)] ud_size_eq [OF ud_wf_windy(2)]
  by (simp_all add: ud_ns_def windy_grid_def windy_moves_def)

lemma grid_points: "k < 70 \<Longrightarrow> ud_at windy_grid k = Some (cell_point (cell_numbered k))"
  using ud_at_eq [OF ud_wf_windy(1), of k]
  by (simp add: ud_ns_def windy_grid_def cell_point_def cell_numbered_def less_mult_imp_div_less)

lemma move_points: "k < 4 \<Longrightarrow> ud_at windy_moves k = Some [real k]"
  using ud_at_eq [OF ud_wf_windy(2), of k] by (simp add: ud_ns_def windy_moves_def)

lemma grid_options: "\<exists>ss. disc_options (ud_disc windy_grid) p = Some ss \<and> length ss = 70 \<and>
    (\<forall>k < 70. ss ! k = cell_point (cell_numbered k))"
  using ud.options_at [OF ud_wf_windy(1), of p] grid_points
  by (auto simp: ud_disc_def ud_size_windy)

lemma move_options: "disc_options (ud_disc windy_moves) p = Some (map (\<lambda>k. [real k]) [0..<4])"
proof -
  obtain ss where "disc_options (ud_disc windy_moves) p = Some ss" "length ss = 4" "\<forall>k < 4. ss ! k = [real k]"
    using ud.options_at [OF ud_wf_windy(2), of p] move_points by (auto simp: ud_disc_def ud_size_windy)
  moreover from this(2,3) have "ss = map (\<lambda>k. [real k]) [0..<4]" by (intro nth_equalityI) auto
  ultimately show ?thesis by simp
qed

lemma discretize_cell:
  assumes "windy_cell c"
  shows "ud_discretize windy_grid (cell_point c) = Some (entry_of c)"
proof -
  have near: "nearest_index (map real [0..<m]) (real_of_int x) = Some (nat x)" if "0 \<le> x" "x < int m" for m x
    using nearest_index_hit [of "map real [0..<m]" "nat x"] that by (simp add: distinct_map inj_on_def)
  show ?thesis
    using assms near [of "fst c" 10] near [of "snd c" 7]
    by (simp add: ud_discretize_def windy_grid_def cell_point_def windy_cell_def entry_of_def del: upt_Suc)
qed

lemma feature_of_cell: "windy_cell c \<Longrightarrow> pj_project windy_features (cell_point c) = unit_feature (entry_of c)"
  by (simp add: windy_features_def base_projector_def discretize_cell)

definition windy_outcome :: "real \<Rightarrow> int \<times> int \<Rightarrow> nat \<Rightarrow> outcome" where
  "windy_outcome gamma c a =
     (- 1, if windy_next a c = (7, 3) then None else Some (entry_of (windy_next a c), gamma))"

definition windy_outcomes :: "real \<Rightarrow> nat \<Rightarrow> outcome list" where
  "windy_outcomes gamma i = map (windy_outcome gamma (cell_numbered i)) [0..<4]"

lemma windy_planner_step:
  assumes "windy_cell c" and "a < 4"
  shows "\<exists>s. windy_planner (Observation (cell_point c) False) (Action [real a] atUndefined) = Inr (Predicted s) \<and>
    o_v (sr_obs s) = cell_point (windy_next a c) \<and> sr_reward s = - 1 \<and> sr_tau s = 1 \<and>
    sr_terminal s = (if windy_next a c = (7, 3) then 2 else 0)"
proof -
  let ?c = "windy_next a c" and ?a = "Action [real a] atUndefined"
  have inv: "windy_invert (Observation (cell_point c) False) 0 = Some (windy_state c 0)"
    by (simp add: windy_invert_def Observation_def cell_point_def windy_state_def)
  have loop: "actuate_loop windy_step windy_task (windy_state c 0) ?a (windy_state c 0) [real a] 0 =
      Some (Inr (1, windy_state ?c 0))"
    by (subst actuate_loop.simps)
      (simp add: windy_step_cell [OF assms] windy_task_def default_actuate_def Action_def)
  have obs: "windy_observe (windy_state ?c 0) no_obs = Inr (no_obs\<lparr>o_v := cell_point ?c,
      o_absorbing := (?c = (7, 3))\<rparr>, if ?c = (7, 3) then 2 else 0)"
    using windy_succeeded_cell [of ?c 0]
    by (simp add: windy_observe_def observe_prefix_def windy_state_def cell_point_def no_obs_def
        Observation_def numeral_2_eq_2)
  have eval: "windy_evaluate (windy_state c 0) ?a (windy_state ?c 0) = Inr (- 1)"
    by (simp add: windy_evaluate_def windy_state_def Action_def)
  show ?thesis
    using inv loop obs eval
    by (simp add: windy_planner_def known_model_step_def known_model_finish_def windy_task_def
        default_actuate_def Action_def)
qed

lemma windy_predicts:
  assumes "windy_cell c" and "a < 4" and "0 \<le> gamma"
  shows "lr_table.predicts 70 windy_features gamma windy_planner (Observation (cell_point c) False) [real a]
    (windy_outcome gamma c a)"
proof -
  from windy_planner_step [OF assms(1,2)] obtain s where s:
    "windy_planner (Observation (cell_point c) False) (Action [real a] atUndefined) = Inr (Predicted s)"
    "o_v (sr_obs s) = cell_point (windy_next a c)" "sr_reward s = - 1" "sr_tau s = 1"
    "sr_terminal s = (if windy_next a c = (7, 3) then 2 else 0)" by blast
  have c: "windy_cell (windy_next a c)" by (rule windy_next_cell [OF assms(1)])
  show ?thesis
    unfolding lr_table.predicts_def
    using s entry_of_cell [OF c] feature_of_cell [OF c] assms(3)
    by (intro exI [of _ s]) (auto simp: windy_outcome_def cell_point_def c_pow_def)
qed

text \<open>The value of a cell \<open>d\<close> steps from the goal.\<close>

definition steps_value :: "real \<Rightarrow> nat \<Rightarrow> real" where
  "steps_value gamma d = - (\<Sum>j<d. gamma ^ j)"

lemma steps_value_Suc: "steps_value gamma (Suc d) = - 1 + gamma * steps_value gamma d"
  by (simp add: steps_value_def sum.lessThan_Suc_shift sum_distrib_left del: sum.lessThan_Suc)

lemma steps_value_mono: "0 \<le> gamma \<Longrightarrow> d \<le> e \<Longrightarrow> steps_value gamma e \<le> steps_value gamma d"
  unfolding steps_value_def by (simp add: sum_mono2)

lemma steps_value_range:
  assumes "0 \<le> gamma" and "gamma \<le> 1"
  shows "- real d \<le> steps_value gamma d \<and> steps_value gamma d \<le> 0"
proof -
  have "(\<Sum>j<d. gamma ^ j) \<le> (\<Sum>j<d. 1)" using assms by (intro sum_mono power_le_one) auto
  moreover have "0 \<le> (\<Sum>j<d. gamma ^ j)" using assms(1) by (intro sum_nonneg) auto
  ultimately show ?thesis by (simp add: steps_value_def)
qed

text \<open>What is known of the table after \<open>k\<close> sweeps and \<open>p\<close> states of the next.\<close>

definition windy_progress :: "real \<Rightarrow> nat \<Rightarrow> nat \<Rightarrow> (nat \<Rightarrow> real) \<Rightarrow> bool" where
  "windy_progress gamma k p V \<longleftrightarrow>
     (\<forall>i < 70. - 16 \<le> V i \<and> V i \<le> 0 \<and> (cell_numbered i \<noteq> (7, 3) \<longrightarrow>
        steps_value gamma (windy_distance (cell_numbered i)) \<le> V i \<and>
        V i \<le> steps_value gamma (min (if i < p then Suc k else k) (windy_distance (cell_numbered i)))))"

lemma windy_progressD:
  assumes "windy_progress gamma k p V" and "windy_cell c" and "0 \<le> gamma"
  shows "- 16 \<le> V (entry_of c)" "V (entry_of c) \<le> 0"
    "c \<noteq> (7, 3) \<Longrightarrow> steps_value gamma (windy_distance c) \<le> V (entry_of c)"
    "c \<noteq> (7, 3) \<Longrightarrow> V (entry_of c) \<le> steps_value gamma (min k (windy_distance c))"
proof -
  have e: "cell_numbered (entry_of c) = c" "entry_of c < 70" using entry_of_cell [OF assms(2)] by simp_all
  note I = assms(1) [unfolded windy_progress_def, rule_format, OF e(2), unfolded e(1)]
  show "- 16 \<le> V (entry_of c)" "V (entry_of c) \<le> 0"
    "c \<noteq> (7, 3) \<Longrightarrow> steps_value gamma (windy_distance c) \<le> V (entry_of c)" using I by simp_all
  assume "c \<noteq> (7, 3)"
  then have "V (entry_of c) \<le> steps_value gamma (min (if entry_of c < p then Suc k else k) (windy_distance c))"
    using I by simp
  also have "\<dots> \<le> steps_value gamma (min k (windy_distance c))"
    using assms(3) by (intro steps_value_mono) auto
  finally show "V (entry_of c) \<le> steps_value gamma (min k (windy_distance c))" .
qed

lemma windy_worth:
  assumes p: "windy_progress gamma k p V" and c: "windy_cell c" "a < 4" and g: "0 \<le> gamma" "gamma \<le> 1"
  shows "- 16 \<le> worth V (windy_outcome gamma c a) \<and> worth V (windy_outcome gamma c a) \<le> - 1 \<and>
    (c \<noteq> (7, 3) \<longrightarrow> worth V (windy_outcome gamma c a) \<le> steps_value gamma (min (Suc k) (windy_distance c)))"
proof (cases "windy_next a c = (7, 3)")
  case True
  have "windy_distance c \<le> 1"
    using windy_table_cell(3) [OF c] windy_table_cell(1) [of "(7, 3)"] True by (simp add: windy_cell_def)
  then have "min (Suc k) (windy_distance c) \<le> 1" by simp
  from steps_value_mono [OF g(1) this] have "- 1 \<le> steps_value gamma (min (Suc k) (windy_distance c))"
    by (simp add: steps_value_def)
  then show ?thesis using True by (simp add: windy_outcome_def worth_def)
next
  case False
  let ?c = "windy_next a c" and ?v = "V (entry_of (windy_next a c))"
  have c': "windy_cell ?c" by (rule windy_next_cell [OF c(1)])
  note P = windy_progressD [OF p c' g(1)]
  have w: "worth V (windy_outcome gamma c a) = - 1 + gamma * ?v"
    using False by (simp add: windy_outcome_def worth_def)
  have "- 15 \<le> ?v"
    using P(3) [OF False] steps_value_range [OF g, of "windy_distance ?c"] windy_table_cell(4) [OF c'] by simp
  then have "gamma * - 15 \<le> gamma * ?v" using g(1) by (rule mult_left_mono)
  moreover have "gamma * ?v \<le> 0" using P(2) g(1) by (simp add: mult_nonneg_nonpos)
  moreover have "gamma * ?v \<le> gamma * steps_value gamma (min k (windy_distance ?c))"
    using P(4) [OF False] g(1) by (rule mult_left_mono)
  then have "- 1 + gamma * ?v \<le> steps_value gamma (Suc (min k (windy_distance ?c)))"
    by (simp add: steps_value_Suc)
  moreover have "min (Suc k) (windy_distance c) \<le> Suc (min k (windy_distance ?c))"
    using windy_table_cell(3) [OF c] by simp
  from steps_value_mono [OF g(1) this]
  have "steps_value gamma (Suc (min k (windy_distance ?c))) \<le> steps_value gamma (min (Suc k) (windy_distance c))" .
  ultimately show ?thesis using g w by simp
qed

lemma windy_worth_best:
  assumes p: "windy_progress gamma k p V" and c: "windy_cell c" "c \<noteq> (7, 3)" and g: "0 \<le> gamma"
  shows "steps_value gamma (windy_distance c) \<le> worth V (windy_outcome gamma c (windy_action c))"
proof -
  let ?c = "windy_next (windy_action c) c"
  have d: "Suc (windy_distance ?c) = windy_distance c" using windy_table_cell(2) [OF c] by simp
  have c': "windy_cell ?c" by (rule windy_next_cell [OF c(1)])
  show ?thesis
  proof (cases "?c = (7, 3)")
    case True
    then have "windy_distance c = 1" using d windy_table_cell(1) [OF c'] by simp
    then show ?thesis using True by (simp add: windy_outcome_def worth_def steps_value_def)
  next
    case False
    have "gamma * steps_value gamma (windy_distance ?c) \<le> gamma * V (entry_of ?c)"
      using windy_progressD(3) [OF p c' g False] g by (rule mult_left_mono)
    then show ?thesis
      using False by (simp add: windy_outcome_def worth_def steps_value_Suc flip: d)
  qed
qed

lemma windy_bellman:
  assumes p: "windy_progress gamma k p V" and "i < 70" and g: "0 \<le> gamma" "gamma \<le> 1"
  shows "- 16 \<le> bellman (windy_outcomes gamma) V i \<and> bellman (windy_outcomes gamma) V i \<le> - 1 \<and>
    (cell_numbered i \<noteq> (7, 3) \<longrightarrow> steps_value gamma (windy_distance (cell_numbered i)) \<le> bellman (windy_outcomes gamma) V i \<and>
      bellman (windy_outcomes gamma) V i \<le> steps_value gamma (min (Suc k) (windy_distance (cell_numbered i))))"
proof -
  let ?c = "cell_numbered i" and ?W = "(\<lambda>a. worth V (windy_outcome gamma (cell_numbered i) a)) ` {0..<4}"
  have c: "windy_cell ?c" using cell_of_entry [OF assms(2)] by simp
  have B: "bellman (windy_outcomes gamma) V i = Max ?W"
    by (simp add: bellman_def windy_outcomes_def image_image)
  have fin: "finite ?W" "?W \<noteq> {}" by auto
  have W: "- 16 \<le> x" "x \<le> - 1" "?c \<noteq> (7, 3) \<Longrightarrow> x \<le> steps_value gamma (min (Suc k) (windy_distance ?c))"
    if "x \<in> ?W" for x using that windy_worth [OF p c _ g] by auto
  have m: "Max ?W \<in> ?W" using fin by (rule Max_in)
  have "steps_value gamma (windy_distance ?c) \<le> Max ?W" if ne: "?c \<noteq> (7, 3)"
  proof -
    have "windy_action ?c < 4" using windy_table_cell(2) [OF c ne] by simp
    then have "worth V (windy_outcome gamma ?c (windy_action ?c)) \<in> ?W" by simp
    with windy_worth_best [OF p c ne g(1)] Max_ge [OF fin(1)] show ?thesis by (meson order_trans)
  qed
  then show ?thesis unfolding B using W [OF m] by blast
qed

lemma windy_backup:
  assumes p: "windy_progress gamma k p V" and lr: "lr_table 70 l h lr V" and "p < 70"
    and g: "0 \<le> gamma" "gamma \<le> 1" and lh: "l \<le> - 16" "0 \<le> h"
  shows "\<exists>lr' V'. vi_update lr_ops (ud_disc windy_moves) windy_features gamma windy_planner
      (state_transition (cell_point (cell_numbered p))) lr = Inr lr' \<and>
    lr_table 70 l h lr' V' \<and> windy_progress gamma k (Suc p) V'"
proof -
  let ?c = "cell_numbered p" and ?b = "bellman (windy_outcomes gamma) V p"
  let ?t = "state_transition (cell_point ?c)"
  have c: "windy_cell ?c" "entry_of ?c = p" using cell_of_entry [OF assms(3)] by simp_all
  have obs: "t_prev_obs ?t = Observation (cell_point ?c) False" "o_v (t_prev_obs ?t) = cell_point ?c"
    by (simp_all add: state_transition_def Transition_def Observation_def)
  have outs: "list_all2 (lr_table.predicts 70 windy_features gamma windy_planner (t_prev_obs ?t))
      (map (\<lambda>k. [real k]) [0..<4]) (windy_outcomes gamma p)"
    unfolding windy_outcomes_def list_all2_conv_all_nth obs
    using windy_predicts [OF c(1) _ g(1)] by (simp del: upt_Suc)
  note b = windy_bellman [OF p assms(3) g]
  have "windy_outcomes gamma p \<noteq> []" by (simp add: windy_outcomes_def)
  moreover have "pj_project windy_features (o_v (t_prev_obs ?t)) = unit_feature p"
    using feature_of_cell [OF c(1)] c(2) obs by simp
  moreover have "l \<le> ?b \<and> ?b \<le> h" using b lh by simp
  ultimately obtain lr' where lr': "vi_update lr_ops (ud_disc windy_moves) windy_features gamma windy_planner ?t lr = Inr lr'"
    "lr_table 70 l h lr' (V(p := ?b))"
    using lr_table.vi_update_best [where out = "windy_outcomes gamma" and i = p, OF lr move_options outs _ assms(3)] by blast
  have "windy_progress gamma k (Suc p) (V(p := ?b))"
    unfolding windy_progress_def
  proof (intro allI impI)
    fix i :: nat assume i: "i < 70"
    note I = p [unfolded windy_progress_def, rule_format, OF i]
    show "- 16 \<le> (V(p := ?b)) i \<and> (V(p := ?b)) i \<le> 0 \<and> (cell_numbered i \<noteq> (7, 3) \<longrightarrow>
        steps_value gamma (windy_distance (cell_numbered i)) \<le> (V(p := ?b)) i \<and>
        (V(p := ?b)) i \<le> steps_value gamma (min (if i < Suc p then Suc k else k) (windy_distance (cell_numbered i))))"
    proof (cases "i = p")
      case True
      then show ?thesis using b by auto
    next
      case False
      then have "i < Suc p \<longleftrightarrow> i < p" by auto
      then show ?thesis using I False by simp
    qed
  qed
  then show ?thesis using lr' by blast
qed

lemma windy_sweeps:
  assumes p: "windy_progress gamma 0 0 V" and lr: "lr_table 70 l h lr V"
    and g: "0 \<le> gamma" "gamma \<le> 1" and lh: "l \<le> - 16" "0 \<le> h"
  shows "\<exists>lr' V'. vi_solve (vi_update lr_ops (ud_disc windy_moves) windy_features gamma windy_planner) Inr
      (ud_disc windy_grid) sweeps lr = Inr lr' \<and> lr_table 70 l h lr' V' \<and> windy_progress gamma sweeps 0 V'"
proof -
  let ?upd = "vi_update lr_ops (ud_disc windy_moves) windy_features gamma windy_planner"
  define Q where "Q k p lr \<longleftrightarrow> (\<exists>V. lr_table 70 l h lr V \<and> windy_progress gamma k p V)" for k p lr
  obtain ss where ss: "disc_options (ud_disc windy_grid) [] = Some ss" "length ss = 70"
    "\<forall>k < 70. ss ! k = cell_point (cell_numbered k)" using grid_options by blast
  have "\<exists>r'. ?upd (state_transition (ss ! p)) r = Inr r' \<and> Q k (Suc p) r'" if "p < length ss" "Q k p r" for p k r
    using that ss(2,3) windy_backup [OF _ _ _ g lh] unfolding Q_def by metis
  then have sweep: "\<exists>r'. vi_sweep ?upd Inr ss r = Inr r' \<and> Q k (length ss) r'" if "Q k 0 r" for k r
    using vi_sweep_invariant [where P = "Q k", OF _ that] by blast
  have next_sweep: "Q (Suc k) 0 r" if "Q k (length ss) r" for k r
    using that unfolding Q_def ss(2) windy_progress_def by auto
  have "\<exists>r'. vi_sweep ?upd Inr ss r = Inr r' \<and> Q (Suc k) 0 r'" if "Q k 0 r" for k r
    using sweep [OF that] next_sweep by blast
  moreover have "Q 0 0 lr" unfolding Q_def using assms(1,2) by blast
  ultimately have "\<exists>r'. vi_sweeps ?upd Inr ss sweeps lr = Inr r' \<and> Q (0 + sweeps) 0 r'"
    by (intro vi_sweeps_invariant [where P = "\<lambda>k. Q k 0"])
  then show ?thesis using ss(1) by (auto simp: vi_solve_def Q_def)
qed

text \<open>C2: value iteration solves the windy gridworld. The solver sweeps over the cells with the
  value iteration predictor, on the known model of the gridworld, with a linear representation of one
  parameter per cell that starts at 0. From 15 sweeps on (no cell is further from the goal) the value
  read for every cell but the goal is that of its shortest way: \<open>d\<close> rewards of -1, discounted.\<close>

theorem value_iteration_solves_windy:
  assumes "0 \<le> gamma" and "gamma \<le> 1" and "15 \<le> sweeps"
    and "lr_outputs lr = 1" and "lr_limit lr = 0" and "lr_params lr = replicate 70 0"
    and "lr_output_min lr = [l]" and "lr_output_max lr = [h]" and "l \<le> - 16" and "0 \<le> h"
  shows "\<exists>lr'. vi_solve (vi_update lr_ops (ud_disc windy_moves) windy_features gamma windy_planner) Inr
      (ud_disc windy_grid) sweeps lr = Inr lr' \<and>
    (\<forall>c. windy_cell c \<and> c \<noteq> (7, 3) \<longrightarrow>
      rep_read1 lr_ops lr' (pj_project windy_features (cell_point c)) =
        Inr (- (\<Sum>j<windy_distance c. gamma ^ j)))"
proof -
  have "lr_table 70 l h lr (\<lambda>_. 0)"
    using assms(4-10) by (simp add: lr_table_def invalid_index_def size_max_def)
  moreover have "windy_progress gamma 0 0 (\<lambda>_. 0)"
    using steps_value_range [OF assms(1,2)] by (simp add: windy_progress_def steps_value_def)
  ultimately obtain lr' V where lr': "vi_solve (vi_update lr_ops (ud_disc windy_moves) windy_features gamma
      windy_planner) Inr (ud_disc windy_grid) sweeps lr = Inr lr'" "lr_table 70 l h lr' V"
    "windy_progress gamma sweeps 0 V" using windy_sweeps [OF _ _ assms(1,2,9,10)] by blast
  have "rep_read1 lr_ops lr' (pj_project windy_features (cell_point c)) =
      Inr (- (\<Sum>j<windy_distance c. gamma ^ j))" if c: "windy_cell c" "c \<noteq> (7, 3)" for c
  proof -
    have "min sweeps (windy_distance c) = windy_distance c"
      using windy_table_cell(4) [OF c(1)] assms(3) by simp
    then have "V (entry_of c) = steps_value gamma (windy_distance c)"
      using windy_progressD(3,4) [OF lr'(3) c(1) assms(1) c(2)] by simp
    moreover have "rep_read1 lr_ops lr' (unit_feature (entry_of c)) = Inr (V (entry_of c))"
      using lr_table.table_read [OF lr'(2)] entry_of_cell [OF c(1)] by blast
    ultimately show ?thesis by (simp add: feature_of_cell [OF c(1)] steps_value_def)
  qed
  then show ?thesis using lr'(1) by blast
qed

text \<open>Without discount the start is worth the 15 steps of its shortest way.\<close>

theorem value_iteration_solves_windy_witness:
  "\<exists>lr'. vi_solve (vi_update lr_ops (ud_disc windy_moves) windy_features 1 windy_planner) Inr (ud_disc windy_grid) 20
      \<lparr>lr_memory = 70, lr_outputs = 1, lr_limit = 0, lr_output_min = [- 100], lr_output_max = [100],
       lr_init_min = [0], lr_init_max = [0], lr_params = replicate 70 0, lr_interval = 0, lr_tau = 0,
       lr_count = 0, lr_target = []\<rparr> = Inr lr' \<and>
    rep_read1 lr_ops lr' (pj_project windy_features (cell_point (0, 3))) = Inr (- 15)"
proof -
  let ?lr = "\<lparr>lr_memory = 70, lr_outputs = 1, lr_limit = 0, lr_output_min = [- 100], lr_output_max = [100],
       lr_init_min = [0], lr_init_max = [0], lr_params = replicate 70 0, lr_interval = 0, lr_tau = 0,
       lr_count = 0, lr_target = []\<rparr>"
  have "windy_distance (0, 3) = 15" "windy_cell (0, 3)" by (simp_all add: windy_distance_def windy_distances_def windy_cell_def)
  then show ?thesis
    using value_iteration_solves_windy [of 1 20 ?lr "- 100" 100] by fastforce
qed

end
