(* ===== verification/BatchFacts.thy ===== *)
theory BatchFacts
  imports PlanningFacts DynamicsFacts
begin

text \<open>
  Facts about the predictors that store transitions, and about running agents in models: minibatches
  are drawn from memory, transitions survive being saved unless the first of them is terminal, the
  known model predicts what the environment does, learned models cannot announce absorbing states,
  and planning episodes are one step longer than their horizon.
\<close>

section \<open>Minibatches\<close>

definition mb_ok :: "mb_params \<Rightarrow> 'r mbfqi \<Rightarrow> bool" where
  "mb_ok q m \<longleftrightarrow> mb_counter m < mb_update_interval q \<and>
     (mb_indices m = [] \<or> length (mb_indices m) = mb_minibatch_size q * mb_update_interval q) \<and>
     (\<forall>ix \<in> set (mb_indices m). ix < length (mb_transitions m)) \<and>
     (mb_lifetime q = plIndefinite \<longrightarrow> (\<forall>c \<in> set (mb_transitions m). mc_projection c \<noteq> None))"

lemma mb_draw_bound:
  "mb_draw n k g = Inr (ixs, g') \<Longrightarrow> length ixs = k \<and> (\<forall>ix \<in> set ixs. ix < n)"
proof (induction k arbitrary: g ixs)
  case (Suc k)
  then obtain ix g1 ixs1 where d: "getInteger n g = Some (ix, g1)" "mb_draw n k g1 = Inr (ixs1, g')" "ixs = ix # ixs1"
    by (auto simp: chain_Inr)
  from d(1) have "ix < n" using getInteger_bound by blast
  then show ?case using Suc.IH [OF d(2)] d(3) by simp
qed simp

text \<open>New targets leave the number of transitions and their projections.\<close>

lemma mb_targets_keep:
  "mb_targets gamma actions results ii ixs cs = Inr cs' \<Longrightarrow> map mc_projection cs' = map mc_projection cs"
proof (induction ixs arbitrary: ii cs)
  case (Cons ix ixs)
  then obtain x where ix: "ix < length cs"
    "mb_targets gamma actions results (Suc ii) ixs (cs[ix := (cs ! ix)\<lparr>mc_target := x\<rparr>]) = Inr cs'"
    by (auto simp: chain_Inr split: if_splits)
  from Cons.IH [OF ix(2)] ix(1) show ?case by (simp add: map_update list_update_same_conv)
qed simp

lemma mb_targets_length: "mb_targets gamma actions results ii ixs cs = Inr cs' \<Longrightarrow> length cs' = length cs"
  using mb_targets_keep [of gamma actions results ii ixs cs cs'] by (metis length_map)

lemma mb_rebuild_ok:
  assumes "mb_rebuild ops d pj q m = Inr m'"
    and "mb_lifetime q = plIndefinite \<longrightarrow> (\<forall>c \<in> set (mb_transitions m). mc_projection c \<noteq> None)"
  shows "length (mb_indices m') = mb_minibatch_size q * mb_update_interval q \<and>
    (\<forall>ix \<in> set (mb_indices m'). ix < length (mb_transitions m')) \<and>
    (mb_lifetime q = plIndefinite \<longrightarrow> (\<forall>c \<in> set (mb_transitions m'). mc_projection c \<noteq> None))"
proof -
  from assms(1) obtain ixs g results cs where r:
    "mb_draw (length (mb_transitions m)) (mb_minibatch_size q * mb_update_interval q) (mb_rand m) = Inr (ixs, g)"
    "mb_targets (mb_gamma q) (d_size d []) results 0 ixs (mb_transitions m) = Inr cs"
    "mb_indices m' = ixs" "mb_transitions m' = cs"
    by (auto simp: mb_rebuild_def Let_def chain_Inr)
  have map: "map mc_projection cs = map mc_projection (mb_transitions m)" by (rule mb_targets_keep [OF r(2)])
  then have "mc_projection ` set cs = mc_projection ` set (mb_transitions m)" by (metis set_map)
  then have "(\<forall>c \<in> set cs. mc_projection c \<noteq> None) = (\<forall>c \<in> set (mb_transitions m). mc_projection c \<noteq> None)"
    by (metis (no_types, lifting) imageE imageI)
  moreover from map have "length cs = length (mb_transitions m)" by (metis length_map)
  ultimately show ?thesis using mb_draw_bound [OF r(1)] r(3,4) assms(2) by simp
qed

lemma mb_pick_ok:
  assumes "mb_ok q m" and "mb_transitions m \<noteq> []" and "jj < mb_minibatch_size q"
  shows "\<exists>c g'. mb_pick q m jj g = Inr (c, g') \<and> c \<in> set (mb_transitions m)"
proof (cases "mb_indices m = []")
  case True
  obtain ix g' where "getInteger (length (mb_transitions m)) g = Some (ix, g')"
    using assms(2) by (auto simp: getInteger_def Let_def)
  moreover from this have "ix < length (mb_transitions m)" by (rule getInteger_bound)
  ultimately show ?thesis using True by (simp add: mb_pick_def)
next
  case False
  let ?k = "mb_counter m * mb_minibatch_size q + jj"
  have "mb_counter m + 1 \<le> mb_update_interval q" using assms(1) by (simp add: mb_ok_def)
  then have "(mb_counter m + 1) * mb_minibatch_size q \<le> mb_update_interval q * mb_minibatch_size q"
    by (rule mult_le_mono1)
  then have k: "?k < length (mb_indices m)" using assms(1,3) False by (simp add: mb_ok_def algebra_simps)
  then have "mb_indices m ! ?k < length (mb_transitions m)" using assms(1) by (simp add: mb_ok_def)
  then show ?thesis using False k by (simp add: mb_pick_def)
qed

lemma mb_advance_ok:
  assumes u: "mb_advance ops d pj q r g m = Inr m'" and ts: "mb_transitions m \<noteq> []"
    and "mb_counter m < mb_update_interval q"
    and "mb_indices m = [] \<or> length (mb_indices m) = mb_minibatch_size q * mb_update_interval q"
    and "\<forall>ix \<in> set (mb_indices m). ix < length (mb_transitions m)"
    and proj: "mb_lifetime q = plIndefinite \<longrightarrow> (\<forall>c \<in> set (mb_transitions m). mc_projection c \<noteq> None)"
  shows "mb_ok q m' \<and> mb_transitions m' \<noteq> []"
proof (cases "mb_counter m + 1 = mb_update_interval q")
  case True
  then obtain m1 where m1: "mb_rebuild ops d pj q (m\<lparr>mb_rep := (mb_rep m)\<lparr>b_rep := r\<rparr>, mb_rand := g,
      mb_counter := mb_counter m + 1\<rparr>) = Inr m1" "m' = m1\<lparr>mb_counter := 0\<rparr>"
    using u by (auto simp: mb_advance_def chain_Inr)
  have "length (mb_transitions m1) = length (mb_transitions m)"
    using m1(1) by (auto simp: mb_rebuild_def Let_def chain_Inr dest!: mb_targets_length)
  then have "mb_transitions m1 \<noteq> []" using ts by auto
  moreover have "0 < mb_update_interval q" using assms(3) by simp
  ultimately show ?thesis using mb_rebuild_ok [OF m1(1)] proj m1(2) by (simp add: mb_ok_def)
next
  case False
  then have "m' = m\<lparr>mb_rep := (mb_rep m)\<lparr>b_rep := r\<rparr>, mb_rand := g, mb_counter := mb_counter m + 1\<rparr>"
    using u by (simp add: mb_advance_def)
  moreover have "mb_counter m + 1 < mb_update_interval q" using False assms(3) by simp
  ultimately show ?thesis using assms(4,5) ts proj by (simp add: mb_ok_def)
qed

text \<open>C14: minibatches stay within the memory. The counter stays below the update interval, and the
  drawn indices, if any, cover all its minibatches and are positions of stored transitions, which have
  their projection if the projector's are always valid. Every update keeps this; so picking any
  position of the next minibatch, and projecting the pick, never reads outside a vector.\<close>

theorem minibatches_stay_in_memory:
  assumes "mb_ok q m" and "mb_update ops d pj q t m = Inr m'"
  shows "mb_ok q m' \<and> (\<forall>jj g. jj < mb_minibatch_size q \<longrightarrow>
    (\<exists>c g' p. mb_pick q m' jj g = Inr (c, g') \<and> mb_project q pj c = Inr p))"
proof -
  let ?m = "mb_remember pj q t m"
  from assms(2) obtain r g where u: "mb_advance ops d pj q r g ?m = Inr m'"
    by (auto simp: mb_update_def chain_Inr Let_def)
  have ts: "mb_transitions ?m \<noteq> []" "mb_indices ?m = mb_indices m" "mb_counter ?m = mb_counter m"
    "length (mb_transitions ?m) = length (mb_transitions m) + 1" by (simp_all add: mb_remember_def)
  have proj: "mb_lifetime q = plIndefinite \<longrightarrow> (\<forall>c \<in> set (mb_transitions ?m). mc_projection c \<noteq> None)"
    using assms(1) by (simp add: mb_ok_def mb_remember_def)
  have c: "mb_counter ?m < mb_update_interval q"
    "mb_indices ?m = [] \<or> length (mb_indices ?m) = mb_minibatch_size q * mb_update_interval q"
    using assms(1) ts(2,3) by (simp_all add: mb_ok_def)
  have "ix < length (mb_transitions ?m)" if "ix \<in> set (mb_indices ?m)" for ix
    using assms(1) ts(2,4) that by (simp add: mb_ok_def less_Suc_eq)
  then have ok: "mb_ok q m' \<and> mb_transitions m' \<noteq> []"
    using mb_advance_ok [OF u ts(1) c _ proj] by blast
  have "\<exists>c g' p. mb_pick q m' jj g = Inr (c, g') \<and> mb_project q pj c = Inr p"
    if jj: "jj < mb_minibatch_size q" for jj g
  proof -
    from mb_pick_ok [OF conjunct1 [OF ok] conjunct2 [OF ok] jj] obtain c g' where
      p: "mb_pick q m' jj g = Inr (c, g')" "c \<in> set (mb_transitions m')" by blast
    have "mb_lifetime q = plIndefinite \<longrightarrow> mc_projection c \<noteq> None"
      using ok p(2) by (simp add: mb_ok_def)
    then show ?thesis using p(1) by (auto simp: mb_project_def)
  qed
  then show ?thesis using ok by blast
qed

text \<open>A memory of one transition, whose reward is learned by the first minibatch.\<close>

definition one_feature :: projector where
  "one_feature = base_projector (\<lambda>_. unit_feature 0)"

definition one_parameter :: linear_rep where
  "one_parameter = \<lparr>lr_memory = 1, lr_outputs = 1, lr_limit = 0, lr_output_min = [- 100], lr_output_max = [100],
     lr_init_min = [0], lr_init_max = [0], lr_params = [0], lr_interval = 0, lr_tau = 0,
     lr_count = 0, lr_target = []\<rparr>"

definition one_reward :: transition where
  "one_reward = Transition (Observation [0] False) (Action [1] atGreedy) 1 5 (Observation [1] False) no_action"

lemma one_parameter_table: "lr_table 1 (- 100) 100 one_parameter (\<lambda>_. 0)"
  by (simp add: lr_table_def one_parameter_def invalid_index_def size_max_def)

theorem minibatches_stay_in_memory_witness:
  "\<forall>g. \<exists>m'. mb_update lr_ops (ud_disc windy_moves) one_feature
      \<lparr>mb_gamma = 1, mb_minibatch_size = 1, mb_update_interval = 2, mb_lifetime = plIndefinite\<rparr> one_reward
      \<lparr>mb_transitions = [], mb_indices = [], mb_counter = 0,
       mb_rep = \<lparr>b_rep = one_parameter, b_batch = [], b_locked = False, b_sep = False, b_tbatch = [],
                 b_tlocked = False\<rparr>, mb_rand = g\<rparr> = Inr m' \<and>
    (\<exists>c g' p. mb_pick \<lparr>mb_gamma = 1, mb_minibatch_size = 1, mb_update_interval = 2,
       mb_lifetime = plIndefinite\<rparr> m' 0 g = Inr (c, g') \<and>
      mb_project \<lparr>mb_gamma = 1, mb_minibatch_size = 1, mb_update_interval = 2,
       mb_lifetime = plIndefinite\<rparr> one_feature c = Inr p)"
proof
  fix g
  let ?q = "\<lparr>mb_gamma = 1, mb_minibatch_size = 1, mb_update_interval = 2, mb_lifetime = plIndefinite\<rparr>"
  let ?m = "\<lparr>mb_transitions = [], mb_indices = [], mb_counter = 0,
       mb_rep = \<lparr>b_rep = one_parameter, b_batch = [], b_locked = False, b_sep = False, b_tbatch = [],
                 b_tlocked = False\<rparr>, mb_rand = g\<rparr>"
  obtain lr' where "rep_write1 lr_ops one_parameter (unit_feature 0) [5] 1 = Inr lr'"
    using lr_table_write [OF one_parameter_table, of 0 5] by auto
  then obtain m' where m': "mb_update lr_ops (ud_disc windy_moves) one_feature ?q one_reward ?m = Inr m'"
    by (simp add: mb_update_def mb_remember_def mb_advance_def mb_pick_def mb_project_def getInteger_def Let_def
        one_feature_def base_projector_def one_reward_def Transition_def prev_pair_def)
  have "mb_ok ?q ?m" by (simp add: mb_ok_def)
  from minibatches_stay_in_memory [OF this m'] have "\<exists>c g' p. mb_pick ?q m' 0 g = Inr (c, g') \<and>
      mb_project ?q one_feature c = Inr p" by simp
  then show "\<exists>m'. mb_update lr_ops (ud_disc windy_moves) one_feature ?q one_reward ?m = Inr m' \<and>
    (\<exists>c g' p. mb_pick ?q m' 0 g = Inr (c, g') \<and> mb_project ?q one_feature c = Inr p)"
    using m' by blast
qed

section \<open>Saving transitions\<close>

definition storable :: "nat \<Rightarrow> nat \<Rightarrow> transition \<Rightarrow> bool" where
  "storable n m t \<longleftrightarrow> length (o_v (t_prev_obs t)) = n \<and> length (a_v (t_prev_action t)) = m \<and>
     length (o_v (t_obs t)) = n \<and> (a_v (t_action t) = [] \<or> length (a_v (t_action t)) = m)"

text \<open>What is left of a transition: its duration is 1 again.\<close>

definition reloaded :: "transition \<Rightarrow> cached" where
  "reloaded t = CachedTransition
     (Transition (Observation (o_v (t_prev_obs t)) False) (Action (a_v (t_prev_action t)) atUndefined) 1
        (t_reward t) (Observation (o_v (t_obs t)) False) (Action (a_v (t_action t)) atUndefined))"

lemma save_load_row:
  assumes "storable n m t" and "0 < m"
  shows "\<exists>row. save_row n m t = Inr row \<and> load_row row = Inr (reloaded t)"
proof (cases "a_v (t_action t)")
  case Nil
  then show ?thesis using assms
    by (cases m) (simp_all add: storable_def save_row_def raw_def load_row_def reloaded_def no_action_def)
next
  case (Cons x xs)
  then have "raw m (map Fin (a_v (t_action t))) = Inr (map Fin (a_v (t_action t)))"
    using assms(1) by (simp add: storable_def raw_def)
  then show ?thesis using assms Cons
    by (simp add: storable_def save_row_def raw_def load_row_def reloaded_def comp_def)
qed

lemma save_load_rows:
  assumes "\<forall>t \<in> set ts. storable n m t" and "0 < m"
  shows "\<exists>rows. save_rows n m ts = Inr rows \<and> load_rows rows = Inr (map reloaded ts)"
  using assms(1)
proof (induction ts)
  case (Cons t ts)
  from save_load_row [of n m t] Cons.prems assms(2) obtain row where
    "save_row n m t = Inr row" "load_row row = Inr (reloaded t)" by auto
  moreover from Cons obtain rows where "save_rows n m ts = Inr rows" "load_rows rows = Inr (map reloaded ts)" by auto
  ultimately show ?case by auto
qed simp

text \<open>C15: stored transitions survive saving and loading. If all have the same sizes and an action follows
  the first of them, the file holds one row per transition, and reading it gives them all back in order,
  each with its observations, actions and reward (a missing action is missing again), and nothing cached;
  only durations, absorption flags and action types are those of a new transition.\<close>

theorem transitions_survive_saving:
  assumes "cs \<noteq> []" and "\<forall>c \<in> set cs. storable n m (ct_transition c)"
    and "a_v (t_action (ct_transition (hd cs))) \<noteq> []"
  shows "\<exists>fl. fqi_save cs = Inr (Some fl) \<and> length (ff_rows fl) = length cs \<and>
    load_rows (ff_rows fl) = Inr (map (\<lambda>c. reloaded (ct_transition c)) cs)"
proof -
  obtain c cs' where cs: "cs = c # cs'" using assms(1) by (cases cs) auto
  have nm: "length (o_v (t_obs (ct_transition c))) = n" "length (a_v (t_action (ct_transition c))) = m" "0 < m"
    using assms(2,3) cs by (auto simp: storable_def)
  have st: "\<forall>t \<in> set (map ct_transition cs). storable n m t" using assms(2) by simp
  from save_load_rows [OF st nm(3)] obtain rows where rows: "save_rows n m (map ct_transition cs) = Inr rows"
    "load_rows rows = Inr (map reloaded (map ct_transition cs))" by blast
  have "load_rows rs = Inr xs \<Longrightarrow> length rs = length xs" for rs xs
    by (induction rs arbitrary: xs) (auto simp: chain_Inr)
  from this [OF rows(2)] rows show ?thesis
    unfolding fqi_save_def cs using nm(1,2) cs by (simp add: comp_def)
qed

theorem transitions_survive_saving_witness:
  "\<exists>fl. fqi_save [CachedTransition (Transition (Observation [0] False) (Action [1] atGreedy) 1 5
      (Observation [1] False) (Action [2] atGreedy)), CachedTransition one_reward] = Inr (Some fl) \<and>
    length (ff_rows fl) = 2 \<and>
    load_rows (ff_rows fl) = Inr [reloaded (Transition (Observation [0] False) (Action [1] atGreedy) 1 5
      (Observation [1] False) (Action [2] atGreedy)), reloaded one_reward]"
  using transitions_survive_saving [of "[CachedTransition (Transition (Observation [0] False) (Action [1] atGreedy) 1 5
      (Observation [1] False) (Action [2] atGreedy)), CachedTransition one_reward]" 1 1]
  by (simp add: storable_def CachedTransition_def Transition_def Observation_def Action_def one_reward_def
      no_action_def numeral_2_eq_2)

text \<open>a terminal transition in front loses the actions. The size of an action is taken from the first
  transition, so that no action at all is written, and reading the file reads past an empty action.\<close>

theorem terminal_first_loses_actions:
  assumes "\<forall>c \<in> set (c # cs). storable n m (ct_transition c)" and "a_v (t_action (ct_transition c)) = []"
  shows "\<exists>fl. fqi_save (c # cs) = Inr (Some fl) \<and> ff_action fl = 0 \<and>
    (\<forall>row \<in> set (ff_rows fl). fr_prev_action row = [] \<and> fr_action row = []) \<and>
    load_rows (ff_rows fl) = Inl RepUndefined"
proof -
  have n: "length (o_v (t_obs (ct_transition c))) = n" using assms(1) by (simp add: storable_def)
  have row: "\<exists>row. save_row n 0 t = Inr row \<and> fr_prev_action row = [] \<and> fr_action row = []"
    if "storable n m t" for t
    using that by (simp add: save_row_def raw_def storable_def)
  have "\<exists>rows. save_rows n 0 ts = Inr rows \<and> (\<forall>row \<in> set rows. fr_prev_action row = [] \<and> fr_action row = []) \<and>
      length rows = length ts" if "\<forall>t \<in> set ts. storable n m t" for ts
    using that
  proof (induction ts)
    case (Cons t ts)
    then obtain rows where "save_rows n 0 ts = Inr rows"
      "\<forall>row \<in> set rows. fr_prev_action row = [] \<and> fr_action row = []" "length rows = length ts" by auto
    moreover from row Cons.prems obtain r where "save_row n 0 t = Inr r" "fr_prev_action r = []" "fr_action r = []"
      by force
    ultimately show ?case by simp
  qed simp
  from this [of "map ct_transition (c # cs)"] assms(1) obtain rows where
    rows: "save_rows n 0 (map ct_transition (c # cs)) = Inr rows"
    "\<forall>row \<in> set rows. fr_prev_action row = [] \<and> fr_action row = []" "length rows = length (c # cs)" by auto
  then obtain r rs where "rows = r # rs" by (cases rows) auto
  with rows(2) have "load_rows rows = Inl RepUndefined" by (simp add: load_row_def)
  then show ?thesis using rows(1,2) n assms(2) by (simp add: fqi_save_def)
qed

theorem terminal_first_loses_actions_witness:
  "\<exists>fl. fqi_save [CachedTransition one_reward] = Inr (Some fl) \<and> load_rows (ff_rows fl) = Inl RepUndefined"
proof -
  have "storable 1 1 one_reward" "a_v (t_action one_reward) = []"
    by (simp_all add: storable_def one_reward_def Transition_def Observation_def Action_def no_action_def)
  then show ?thesis using terminal_first_loses_actions [of "CachedTransition one_reward" "[]" 1 1]
    by (auto simp: CachedTransition_def)
qed

section \<open>The known model\<close>

text \<open>An observer that overwrites what it is given, apart from the action in it.\<close>

definition same_view :: "observation \<times> int \<Rightarrow> observation \<times> int \<Rightarrow> bool" where
  "same_view p q \<longleftrightarrow> o_v (fst p) = o_v (fst q) \<and> o_absorbing (fst p) = o_absorbing (fst q) \<and> snd p = snd q"

definition overwrites :: "task \<Rightarrow> bool" where
  "overwrites task \<longleftrightarrow> (\<forall>s obs obs'. rel_sum (=) same_view (tk_observe task s obs) (tk_observe task s obs'))"

text \<open>The clock is the last variable of a state.\<close>

definition shift_clock :: "real \<Rightarrow> dvec \<Rightarrow> dvec" where
  "shift_clock d s = s[length s - 1 := last s + d]"

lemma shift_clock_length [simp]: "length (shift_clock d s) = length s"
  by (simp add: shift_clock_def)

lemma shift_clock_empty [simp]: "shift_clock d s = [] \<longleftrightarrow> s = []"
  by (simp add: shift_clock_def)

lemma last_shift_clock: "s \<noteq> [] \<Longrightarrow> last (shift_clock d s) = last s + d"
  by (simp add: shift_clock_def last_conv_nth)

lemma shift_clock_nth: "Suc i < length s \<Longrightarrow> shift_clock d s ! i = s ! i"
  by (simp add: shift_clock_def)

lemma shift_clock_back: "shift_clock d (shift_clock c s) = shift_clock (c + d) s"
  by (cases "s = []") (simp_all add: shift_clock_def last_list_update add.assoc)

lemma shift_clock_zero: "shift_clock 0 s = s"
  by (cases "s = []") (simp_all add: shift_clock_def last_conv_nth)

text \<open>A model and a task that do not look at the clock, but for the flag of the observer.\<close>

definition same_sight :: "observation \<times> int \<Rightarrow> observation \<times> int \<Rightarrow> bool" where
  "same_sight p q \<longleftrightarrow> fst p = fst q"

definition clock_blind :: "model_step \<Rightarrow> task \<Rightarrow> bool" where
  "clock_blind model task \<longleftrightarrow>
     (\<forall>d s u. model (shift_clock d s) u = chain (model s u) (\<lambda>(t, s'). Inr (t, shift_clock d s'))) \<and>
     (\<forall>d s s' a. tk_actuate task (shift_clock d s) (shift_clock d s') a = tk_actuate task s s' a) \<and>
     (\<forall>d s a s'. tk_evaluate task (shift_clock d s) a (shift_clock d s') = tk_evaluate task s a s') \<and>
     (\<forall>d s obs. rel_sum (=) same_sight (tk_observe task (shift_clock d s) obs) (tk_observe task s obs))"

definition clock_later :: "real \<Rightarrow> (real \<times> dvec) res \<Rightarrow> (real \<times> dvec) res" where
  "clock_later d x = chain x (\<lambda>(t, s). Inr (t, shift_clock d s))"

lemma clock_later_simps [simp]: "clock_later d (Inl err) = Inl err" "clock_later d (Inr (t, s)) = Inr (t, shift_clock d s)"
  by (simp_all add: clock_later_def)

lemma clock_later_back: "clock_later d (clock_later c x) = clock_later (c + d) x"
  by (cases x) (auto simp: shift_clock_back)

lemma clock_later_zero: "clock_later 0 x = x"
  by (cases x) (auto simp: shift_clock_zero)

lemma blind_loop_returns:
  assumes "clock_blind model task" and "actuate_loop model task prev a s u tau = Some y"
  shows "actuate_loop model task (shift_clock d prev) a (shift_clock d s) u tau = Some (clock_later d y)"
proof -
  have m: "model (shift_clock d s) u = chain (model s u) (\<lambda>(t, s'). Inr (t, shift_clock d s'))"
    and act: "tk_actuate task (shift_clock d p) (shift_clock d s) a = tk_actuate task p s a" for s u p
    using assms(1) unfolding clock_blind_def by blast+
  have "m = model \<longrightarrow> t = task \<longrightarrow>
      actuate_loop model task (shift_clock d p) b (shift_clock d x) w ta = Some (clock_later d z)"
    if "actuate_loop m t p b x w ta = Some z" for m t p b x w ta z
  proof (rule actuate_loop.raw_induct [where P = "\<lambda>m t p b x w ta z. m = model \<longrightarrow> t = task \<longrightarrow>
      actuate_loop model task (shift_clock d p) b (shift_clock d x) w ta = Some (clock_later d z)", OF _ that])
    fix f m t p b x w ta z
    assume IH: "\<And>m t p b x w ta z. f m t p b x w ta = Some z \<Longrightarrow> m = model \<longrightarrow> t = task \<longrightarrow>
        actuate_loop model task (shift_clock d p) b (shift_clock d x) w ta = Some (clock_later d z)"
      and body: "(case chain (m x w) (\<lambda>(ta', x). chain (tk_actuate t p x b)
          (\<lambda>(done, w). Inr (ta + ta', x, done, w))) of
        Inl e \<Rightarrow> Some (Inl e)
      | Inr (ta, x, done, w) \<Rightarrow> if done then Some (Inr (ta, x)) else f m t p b x w ta) = Some z"
    show "m = model \<longrightarrow> t = task \<longrightarrow>
        actuate_loop model task (shift_clock d p) b (shift_clock d x) w ta = Some (clock_later d z)"
    proof (intro impI)
      assume eq: "m = model" "t = task"
      have act': "tk_actuate task (shift_clock d p) (shift_clock d y) b = tk_actuate task p y b" for y
        using assms(1) unfolding clock_blind_def by blast
      show "actuate_loop model task (shift_clock d p) b (shift_clock d x) w ta = Some (clock_later d z)"
      proof (cases "model x w")
        case (Inl err)
        then have "z = Inl err" using body eq by simp
        then show ?thesis by (subst actuate_loop.simps) (simp add: m Inl)
      next
        case (Inr q)
        obtain ta' y where q: "q = (ta', y)" by fastforce
        show ?thesis
        proof (cases "tk_actuate task p y b")
          case (Inl err)
          then have "z = Inl err" using body eq Inr q by simp
          then show ?thesis by (subst actuate_loop.simps) (simp add: m act' Inr q Inl)
        next
          case r: (Inr r)
          obtain dn w' where "r = (dn, w')" by fastforce
          then show ?thesis using body eq Inr q r IH [of model task p b y w' "ta + ta'" z]
            by (subst actuate_loop.simps) (auto simp: m act' split: if_splits)
        qed
      qed
    qed
  qed
  then show ?thesis using assms(2) by blast
qed

lemma blind_loop:
  assumes "clock_blind model task"
  shows "actuate_loop model task (shift_clock d prev) a (shift_clock d s) u tau =
    map_option (clock_later d) (actuate_loop model task prev a s u tau)"
proof (cases "actuate_loop model task (shift_clock d prev) a (shift_clock d s) u tau")
  case None
  then have "actuate_loop model task prev a s u tau = None"
    using blind_loop_returns [OF assms, of prev a s u tau _ d]
    by (cases "actuate_loop model task prev a s u tau") auto
  then show ?thesis using None by simp
next
  case (Some y)
  from blind_loop_returns [OF assms this, of "- d"]
  have "actuate_loop model task prev a s u tau = Some (clock_later (- d) y)"
    by (simp add: shift_clock_back shift_clock_zero)
  then show ?thesis using Some by (simp add: clock_later_back clock_later_zero)
qed

text \<open>The flag of the observer in a state.\<close>

definition flag_at :: "task \<Rightarrow> dvec \<Rightarrow> int" where
  "flag_at task s = (case tk_observe task s no_obs of Inl _ \<Rightarrow> 0 | Inr (_, terminal) \<Rightarrow> terminal)"

definition predicts_with :: "(dvec \<Rightarrow> int) \<Rightarrow> (step_result \<times> menv) res \<Rightarrow> predicted res" where
  "predicts_with flag x = chain x (\<lambda>(r, e'). Inr (Predicted (r\<lparr>sr_terminal := flag (me_state e')\<rparr>)))"

lemma known_finish_agrees:
  assumes "overwrites task" and "clock_blind model task"
  shows "known_model_finish task (me_discrete_time e) (shift_clock d (me_state e)) a tau (shift_clock d s) =
    predicts_with (\<lambda>s. flag_at task (shift_clock d s)) (menv_finish task a prev tau s e)"
proof -
  have ev: "tk_evaluate task (shift_clock d (me_state e)) a (shift_clock d s) = tk_evaluate task (me_state e) a s"
    and sight: "rel_sum (=) same_sight (tk_observe task (shift_clock d s) no_obs) (tk_observe task s no_obs)"
    using assms(2) unfolding clock_blind_def by blast+
  have view: "rel_sum (=) same_view (tk_observe task s no_obs) (tk_observe task s prev)"
    using assms(1) by (simp add: overwrites_def)
  show ?thesis
    using sight view
    by (cases "tk_evaluate task (me_state e) a s")
      (auto elim!: rel_sum.cases simp: known_model_finish_def menv_finish_def predicts_with_def flag_at_def ev
        same_sight_def same_view_def Let_def)
qed


text \<open>Integrated equations of motion that ignore the clock.\<close>

definition blind_eom :: "(dvec \<Rightarrow> dvec \<Rightarrow> dvec res) \<Rightarrow> bool" where
  "blind_eom eom \<longleftrightarrow> (\<forall>d x u. eom (shift_clock d x) u = eom x u)"

lemma chain_pushed: "(\<And>y. x = Inr y \<Longrightarrow> f y = chain (g y) h) \<Longrightarrow> chain x f = chain (chain x g) h"
  by (cases x) auto

lemma rk4_step_blind:
  assumes "blind_eom eom"
  shows "rk4_step eom u h (shift_clock d x) = chain (rk4_step eom u h x) (\<lambda>y. Inr (shift_clock d y))"
proof -
  have at: "eom_at eom u (shift_clock d y) = eom_at eom u y" for y
    using assms by (simp add: eom_at_def blind_eom_def)
  have len: "length xd = length y" if "eom_at eom u y = Inr xd" for xd y
    using that by (auto simp: eom_at_def chain_Inr split: if_splits)
  have add: "vadd (shift_clock d x) k = shift_clock d (vadd x k)" if "length k = length x" for k
  proof (cases "x = []")
    case False
    then have "k \<noteq> []" "last (vadd x k) = last x + last k" using that by (auto simp: last_vadd)
    then show ?thesis using that
      by (intro nth_equalityI) (auto simp: shift_clock_def nth_list_update last_conv_nth [of k])
  qed (use that in \<open>simp add: shift_clock_def vadd_def\<close>)
  show ?thesis
    unfolding rk4_step_def at Let_def
    by (rule chain_pushed, drule len, simp add: add at, rule chain_pushed, drule len, simp add: add at,
      rule chain_pushed, drule len, simp add: add at, rule chain_pushed, drule len, simp add: add)
qed

lemma rk4_steps_blind:
  assumes "blind_eom eom"
  shows "rk4_steps n eom u h (shift_clock d x) = chain (rk4_steps n eom u h x) (\<lambda>y. Inr (shift_clock d y))"
proof (induction n arbitrary: x)
  case (Suc n)
  show ?case
    by (cases "rk4_step eom u h x") (simp_all add: rk4_step_blind [OF assms] Suc)
qed simp

lemma dynamical_step_blind:
  assumes "blind_eom eom"
  shows "dynamical_step eom tau steps (shift_clock d s) u =
    chain (dynamical_step eom tau steps s u) (\<lambda>(t, s'). Inr (t, shift_clock d s'))"
  by (cases "rk4_steps steps eom u (tau / real steps) s")
    (simp_all add: dynamical_step_def rk4_steps_blind [OF assms])

lemma pendulum_eom_blind: "blind_eom pendulum_eom"
  by (simp add: blind_eom_def pendulum_eom_def shift_clock_nth)

lemma swingup_blind: "clock_blind (dynamical_step pendulum_eom tau steps) (swingup_task su)"
proof -
  have clock: "shift_clock d s ! 2 = s ! 2 + d" if "length s = 3" for d s
    using that by (cases "s = []") (auto simp: shift_clock_def last_conv_nth)
  have ev: "swingup_evaluate (shift_clock d s) a (shift_clock d s') = swingup_evaluate s a s'" for d s a s'
    by (simp add: swingup_evaluate_def clock shift_clock_nth)
  have ob: "rel_sum (=) same_sight (swingup_observe su (shift_clock d s) obs) (swingup_observe su s obs)" for d s obs
    by (simp add: swingup_observe_def same_sight_def shift_clock_nth)
  show ?thesis
    unfolding clock_blind_def
    by (simp add: dynamical_step_blind [OF pendulum_eom_blind] swingup_task_def swingup_actuate_def ev ob)
qed

lemma swingup_overwrites: "overwrites (swingup_task su)"
  by (simp add: overwrites_def swingup_task_def swingup_observe_def same_view_def)


section \<open>The learned model\<close>

lemma c_fmod_bound: "0 < y \<Longrightarrow> \<bar>c_fmod x y\<bar> < y"
proof -
  assume y: "0 < y"
  have "\<bar>x / y - real_of_int (c_trunc (x / y))\<bar> < 1"
    unfolding c_trunc_def by (auto split: if_splits) linarith+
  moreover have "c_fmod x y = y * (x / y - real_of_int (c_trunc (x / y)))"
    using y by (simp add: c_fmod_def right_diff_distrib)
  ultimately show ?thesis using y by (simp add: abs_mult mult_less_cancel_left2)
qed

lemma c_fmod_nonneg: "0 < y \<Longrightarrow> 0 \<le> x \<Longrightarrow> 0 \<le> c_fmod x y"
proof -
  assume y: "0 < y" and "0 \<le> x"
  then have "real_of_int (c_trunc (x / y)) \<le> x / y" by (simp add: c_trunc_def)
  then have "y * real_of_int (c_trunc (x / y)) \<le> x" using y by (simp add: pos_le_divide_eq mult.commute)
  then show ?thesis by (simp add: c_fmod_def)
qed

lemma wrap_to_range: "0 < w \<Longrightarrow> 0 \<le> wrap_to w x \<and> wrap_to w x < w"
  using c_fmod_bound [of w x] c_fmod_bound [of w "c_fmod x w + w"] c_fmod_nonneg [of w "c_fmod x w + w"]
  by (auto simp: wrap_to_def)

text \<open>C17: what a learned model predicts. A prediction is only made from within the observable interval; it
  takes the configured control step, keeps wrapped dimensions within their period, and says of every
  absorbing state that it is terminal, but never with the flag 2 that environments use for absorption:
  planning agents take it for a timeout.\<close>

theorem learned_model_never_absorbs:
  assumes "approx_step rd am obs a = Inr (Predicted r)"
  shows "sr_tau r = am_tau am \<and> sr_terminal r = (if o_absorbing (sr_obs r) then 1 else 0) \<and>
    (\<forall>ii < length (o_v obs). am_min am ! ii \<le> o_v obs ! ii \<and> o_v obs ! ii \<le> am_max am ! ii \<and>
      (0 < am_wrapping am ! ii \<longrightarrow> 0 \<le> o_v (sr_obs r) ! ii \<and> o_v (sr_obs r) ! ii < am_wrapping am ! ii))"
proof -
  let ?n = "length (o_v obs)"
  from assms obtain pred stddev where rd: "rd (Vectors.extend (o_v obs) (a_v a)) = Inr (Some (pred, stddev))"
    by (auto simp: approx_step_def chain_Inr split: option.splits)
  have step: "\<not> (\<exists>ii \<in> set [0..<?n]. outside am (o_v obs) ii) \<and> r = prediction_of am obs pred"
    using assms unfolding approx_step_def rd by (simp add: Let_def split: if_split_asm)
  then have r: "\<not> (\<exists>ii \<in> set [0..<?n]. outside am (o_v obs) ii)"
    "sr_tau r = am_tau am" "sr_terminal r = (if o_absorbing (sr_obs r) then 1 else 0)"
    "o_v (sr_obs r) = map (\<lambda>ii. predicted_at am ii (o_v obs ! ii) (pred ! ii)) [0..<?n] @
       map (\<lambda>ii. pred ! ii) [?n..<length pred - 2]"
    by (simp_all add: prediction_of_def Let_def)
  have "am_min am ! ii \<le> o_v obs ! ii \<and> o_v obs ! ii \<le> am_max am ! ii" if "ii < ?n" for ii
    using r(1) that by (auto simp: outside_def not_less)
  moreover have "o_v (sr_obs r) ! ii = predicted_at am ii (o_v obs ! ii) (pred ! ii)" if "ii < ?n" for ii
    unfolding r(4) using that by (simp add: nth_append)
  ultimately show ?thesis using r(2,3) wrap_to_range by (simp add: predicted_at_def)
qed

theorem learned_model_never_absorbs_witness:
  "\<exists>r. approx_step (\<lambda>_. Inr (Some ([5, - 1, 1], []))) \<lparr>am_differential = [1], am_wrapping = [4], am_min = [0],
      am_max = [4], am_stddev_limit = 1, am_tau = 2\<rparr> (Observation [3] False) (Action [0] atGreedy) = Inr (Predicted r) \<and>
    o_absorbing (sr_obs r) \<and> sr_terminal r = 1 \<and> 0 \<le> hd (o_v (sr_obs r)) \<and> hd (o_v (sr_obs r)) < 4"
proof -
  let ?am = "\<lparr>am_differential = [1], am_wrapping = [4], am_min = [0],
      am_max = [4], am_stddev_limit = 1, am_tau = 2\<rparr>"
  let ?p = "approx_step (\<lambda>_. Inr (Some ([5, - 1, 1], []))) ?am (Observation [3] False) (Action [0] atGreedy)"
  obtain r where r: "?p = Inr (Predicted r)" "o_absorbing (sr_obs r)" "o_v (sr_obs r) = [predicted_at ?am 0 3 5]"
    by (simp add: approx_step_def prediction_of_def Observation_def Action_def outside_def numeral_2_eq_2)
  from learned_model_never_absorbs [OF r(1)] r(2,3) have "sr_terminal r = 1" "0 \<le> hd (o_v (sr_obs r))"
    "hd (o_v (sr_obs r)) < 4" by (simp_all add: Observation_def)
  with r show ?thesis by blast
qed

section \<open>Planning episodes\<close>

text \<open>A model and an agent that never end an episode themselves.\<close>

definition endless :: "omodel \<Rightarrow> 's agent_ops \<Rightarrow> bool" where
  "endless om ops \<longleftrightarrow>
     (\<forall>obs a. \<exists>r. om obs a = Inr (Predicted r) \<and> sr_terminal r = 0 \<and> o_v (sr_obs r) \<noteq> []) \<and>
     (\<forall>obs a s. \<exists>p. ag_start ops obs a s = Inr p) \<and>
     (\<forall>tau obs x a s. \<exists>p. ag_step ops tau obs x a s = Inr p)"

lemma plan_step_endless:
  assumes "endless om ops" and "0 < horizon"
  shows "\<exists>p'. plan_step ops om start horizon p = Inr p' \<and>
    pl_steps p' = (if pl_terminal p \<noteq> 0 then 1 else pl_steps p + 1) \<and>
    pl_terminal p' = (if pl_steps p' = horizon + 1 then 1 else 0)"
proof -
  obtain p1 where p1: "plan_start ops start p = Inr p1"
    "pl_steps p1 = (if pl_terminal p \<noteq> 0 then 0 else pl_steps p)"
  proof (cases "pl_terminal p = 0")
    case True
    then show ?thesis using that [of p] by (simp add: plan_start_def)
  next
    case False
    obtain a s where "ag_start ops (obs_assign start (pl_obs p)) (pl_action p) (pl_agent p) = Inr (a, s)"
      using assms(1) unfolding endless_def by (metis surj_pair)
    then show ?thesis using that False by (simp add: plan_start_def Let_def)
  qed
  obtain r where r: "om (pl_obs p1) (pl_action p1) = Inr (Predicted r)" "sr_terminal r = 0" "o_v (sr_obs r) \<noteq> []"
    using assms(1) unfolding endless_def by blast
  obtain a s where "ag_step ops (sr_tau r) (sr_obs r) (sr_reward r) (pl_action p1) (pl_agent p1) = Inr (a, s)"
    using assms(1) unfolding endless_def by (metis surj_pair)
  then show ?thesis using p1 r assms(2) by (simp add: plan_step_def plan_react_def plan_horizon_def Let_def)
qed

lemma plan_steps_endless:
  assumes "endless om ops" and "0 < horizon" and "pl_terminal p = 0" and "pl_steps p + n \<le> horizon + 1"
    and "pl_steps p \<le> horizon"
  shows "\<exists>p'. plan_steps ops om start horizon n p = Inr p' \<and> pl_steps p' = pl_steps p + n \<and>
    pl_terminal p' = (if pl_steps p' = horizon + 1 then 1 else 0)"
  using assms(3-5)
proof (induction n arbitrary: p)
  case (Suc n)
  from plan_step_endless [OF assms(1,2), of start p] Suc.prems(1) obtain p1 where p1:
    "plan_step ops om start horizon p = Inr p1" "pl_steps p1 = pl_steps p + 1"
    "pl_terminal p1 = (if pl_steps p1 = horizon + 1 then 1 else 0)" by auto
  show ?case
  proof (cases n)
    case 0
    then show ?thesis using p1 by simp
  next
    case (Suc k)
    then have "pl_terminal p1 = 0" "pl_steps p1 + n \<le> horizon + 1" "pl_steps p1 \<le> horizon"
      using p1 Suc.prems by auto
    from Suc.IH [OF this] p1 show ?thesis by simp
  qed
qed simp

text \<open>C18: planning episodes take one step more than their horizon. With a model and an agent that do not
  end the episode themselves, the first \<open>horizon\<close> steps after a start leave it running, and step
  \<open>horizon + 1\<close> ends it.\<close>

theorem horizon_allows_one_more:
  assumes "endless om ops" and "0 < horizon" and "pl_terminal p \<noteq> 0" and "0 < n" and "n \<le> horizon + 1"
  shows "\<exists>p'. plan_steps ops om start horizon n p = Inr p' \<and> pl_steps p' = n \<and>
    (pl_terminal p' \<noteq> 0 \<longleftrightarrow> n = horizon + 1)"
proof -
  obtain k where k: "n = Suc k" using assms(4) by (cases n) auto
  from plan_step_endless [OF assms(1,2), of start p] assms(2,3) obtain p1 where p1:
    "plan_step ops om start horizon p = Inr p1" "pl_steps p1 = 1" "pl_terminal p1 = 0" by auto
  have "pl_steps p1 + k \<le> horizon + 1" "pl_steps p1 \<le> horizon" using p1 assms(2,5) k by auto
  from plan_steps_endless [OF assms(1,2) p1(3) this, of start] p1 k show ?thesis by auto
qed

theorem horizon_allows_one_more_witness:
  "\<exists>p'. plan_steps \<lparr>ag_start = (\<lambda>obs a s. Inr (no_action, s)), ag_step = (\<lambda>tau obs x a s. Inr (no_action, s)),
       ag_end = (\<lambda>tau obs x s. Inr s)\<rparr>
      (\<lambda>obs a. Inr (Predicted \<lparr>sr_tau = 1, sr_obs = Observation [0] False, sr_reward = 0, sr_terminal = 0\<rparr>))
      [0] 10 10 \<lparr>pl_obs = no_obs, pl_action = no_action, pl_terminal = 1, pl_steps = 0, pl_agent = ()\<rparr> = Inr p' \<and>
    pl_steps p' = 10 \<and> pl_terminal p' = 0"
proof -
  let ?ops = "\<lparr>ag_start = (\<lambda>obs a s. Inr (no_action, s)), ag_step = (\<lambda>tau obs x a s. Inr (no_action, s)),
       ag_end = (\<lambda>tau obs x s. Inr s)\<rparr> :: unit agent_ops"
  let ?om = "\<lambda>obs a. Inr (Predicted \<lparr>sr_tau = 1, sr_obs = Observation [0] False, sr_reward = 0, sr_terminal = 0\<rparr>)"
  have "endless ?om ?ops" by (simp add: endless_def Observation_def)
  from horizon_allows_one_more [OF this, of 10 "\<lparr>pl_obs = no_obs, pl_action = no_action, pl_terminal = 1,
      pl_steps = 0, pl_agent = ()\<rparr>" 10 "[0]"] show ?thesis by simp
qed

end
