(* ===== verification/MoreWorlds.thy ===== *)
theory MoreWorlds
  imports WorldTypes
begin

text \<open>
  More worlds (\<open>base/src/environments/\<close>): the acrobot, the chain of integrators, the planar flyer,
  the cart with two poles and the ball in a maze, with their tasks. Conventions are those of
  \<open>Worlds\<close>: integration is over the real numbers, an access outside a vector is \<open>RepUndefined\<close> and a
  tested size \<open>RepException\<close>. The limits that tasks announce at configuration are left out.
\<close>

section \<open>Regulators over a prefix of the state\<close>

text \<open>Observe \<open>n\<close> variables of a state of one more.\<close>

definition prefix_regulator_observe :: "nat \<Rightarrow> regulator \<Rightarrow> dvec \<Rightarrow> observation \<Rightarrow> (observation \<times> int) res" where
  "prefix_regulator_observe n rg state obs =
     chain (regulator_terminal rg state) (\<lambda>terminal.
       if length state \<noteq> n + 1 then Inl RepException else Inr (observe_prefix n state obs, terminal))"

definition regulator_task_of ::
    "(dvec \<Rightarrow> observation \<Rightarrow> (observation \<times> int) res) \<Rightarrow> (observation \<Rightarrow> real \<Rightarrow> dvec option) \<Rightarrow> regulator \<Rightarrow> task" where
  "regulator_task_of observe invert rg = \<lparr>tk_start = regulator_start rg, tk_actuate = default_actuate,
     tk_observe = observe, tk_evaluate = regulator_evaluate rg, tk_invert = invert\<rparr>"

definition sized_regulator_configure :: "nat \<Rightarrow> nat \<Rightarrow> regulator \<Rightarrow> regulator res" where
  "sized_regulator_configure n m rg =
     chain (regulator_configure rg) (\<lambda>rg.
       if length (rg_q rg) \<noteq> n \<or> length (rg_r rg) \<noteq> m then Inl RepBadParam else Inr rg)"

section \<open>Acrobot\<close>

definition acrobot_d1 :: "real \<Rightarrow> real" where
  "acrobot_d1 theta2 =
     (let l1 = 1; m1 = 1; m2 = 1; lc1 = 0.5; lc2 = 0.5; I1 = 1; I2 = 1
      in m1 * lc1 * lc1 + m2 * (l1 * l1 + lc2 * lc2 + 2 * l1 * lc2 * cos theta2) + I1 + I2)"

definition acrobot_d2 :: "real \<Rightarrow> real" where
  "acrobot_d2 theta2 = (let l1 = 1; m2 = 1; lc2 = 0.5; I2 = 1 in m2 * (lc2 * lc2 + l1 * lc2 * cos theta2) + I2)"

text \<open>What the acceleration of the second joint is divided by.\<close>

definition acrobot_inertia :: "real \<Rightarrow> real" where
  "acrobot_inertia theta2 =
     (let m2 = 1; lc2 = 0.5; I2 = 1 in m2 * lc2 * lc2 + I2 - acrobot_d2 theta2 * acrobot_d2 theta2 / acrobot_d1 theta2)"

definition limit_rate :: "real \<Rightarrow> real \<Rightarrow> real \<Rightarrow> real" where
  "limit_rate bound rate acc =
     (let acc = (if rate > bound then min acc 0 else acc) in if rate < - bound then max acc 0 else acc)"

definition acrobot_eom :: "dvec \<Rightarrow> dvec \<Rightarrow> dvec res" where
  "acrobot_eom state actuation =
     (if length state \<noteq> 5 \<or> length actuation \<noteq> 1 then Inl RepException
      else let l1 = 1; m1 = 1; m2 = 1; lc1 = 0.5; lc2 = 0.5; g = 9.8;
               theta1 = state ! 0; theta2 = state ! 1; thetad1 = state ! 2; thetad2 = state ! 3;
               tau = actuation ! 0;
               phi2 = m2 * lc2 * g * cos (theta1 + theta2 - pi / 2);
               phi1 = - m2 * l1 * lc2 * thetad2 * thetad2 * sin theta2 -
                      2 * m2 * l1 * lc2 * thetad2 * thetad1 * sin theta2 +
                      (m1 * lc1 + m2 * l1) * g * cos (theta1 - pi / 2) + phi2;
               d2 = acrobot_d2 theta2; d1 = acrobot_d1 theta2;
               thetadd2 = (tau + d2 * phi1 / d1 - m2 * l1 * lc2 * thetad2 * thetad2 * sin theta2 - phi2) /
                          acrobot_inertia theta2;
               thetadd1 = - (d2 * thetadd2 + phi1) / d1
           in Inr [thetad1, thetad2, limit_rate (4 * pi) thetad1 thetadd1,
                   limit_rate (9 * pi) thetad2 thetadd2, 1])"

definition acrobot_start :: "int \<Rightarrow> rand \<Rightarrow> (dvec \<times> rand) res" where
  "acrobot_start test g =
     (let (u, g) = rand_get g; (w, g) = rand_get g
      in Inr ([pi + u * 0.01 - 0.005, w * 0.01 - 0.005, 0, 0, 0], g))"

definition acrobot_failed :: "dvec \<Rightarrow> bool" where
  "acrobot_failed state \<longleftrightarrow> \<bar>state ! 0 - pi\<bar> > 12 * pi / 180 \<or> \<bar>state ! 1\<bar> > 12 * pi / 180"

definition acrobot_observe :: "dvec \<Rightarrow> observation \<Rightarrow> (observation \<times> int) res" where
  "acrobot_observe state obs =
     (if length state \<noteq> 5 then Inl RepException
      else let obs = observe_prefix 4 state obs
           in if acrobot_failed state then Inr (obs\<lparr>o_absorbing := True\<rparr>, 2)
              else Inr (obs, if state ! 4 > 20 then 1 else 0))"

definition acrobot_evaluate :: "dvec \<Rightarrow> action \<Rightarrow> dvec \<Rightarrow> real res" where
  "acrobot_evaluate state a next_state =
     (if length state \<noteq> 5 \<or> length (a_v a) \<noteq> 1 \<or> length next_state \<noteq> 5 then Inl RepException
      else Inr (indicator_of (\<not> acrobot_failed next_state)))"

definition acrobot_invert :: "observation \<Rightarrow> real \<Rightarrow> dvec option" where
  "acrobot_invert obs time = (if length (o_v obs) < 4 then None else Some (take 4 (o_v obs) @ [time]))"

definition acrobot_task :: task where
  "acrobot_task = \<lparr>tk_start = acrobot_start, tk_actuate = default_actuate, tk_observe = acrobot_observe,
     tk_evaluate = acrobot_evaluate, tk_invert = acrobot_invert\<rparr>"

definition acrobot_regulator_configure :: "regulator \<Rightarrow> regulator res" where
  "acrobot_regulator_configure = sized_regulator_configure 4 1"

definition acrobot_regulator_observe :: "regulator \<Rightarrow> dvec \<Rightarrow> observation \<Rightarrow> (observation \<times> int) res" where
  "acrobot_regulator_observe = prefix_regulator_observe 4"

definition acrobot_regulator_invert :: "observation \<Rightarrow> real \<Rightarrow> dvec option" where
  "acrobot_regulator_invert = acrobot_invert"

definition acrobot_regulator_task :: "regulator \<Rightarrow> task" where
  "acrobot_regulator_task rg = regulator_task_of (acrobot_regulator_observe rg) acrobot_regulator_invert rg"

section \<open>Integrators\<close>

text \<open>The loop bound \<open>order - 1\<close> wraps around for order 0.\<close>

definition integrator_eom :: "nat \<Rightarrow> dvec \<Rightarrow> dvec \<Rightarrow> dvec res" where
  "integrator_eom order state actuation =
     (if length state \<noteq> order + 1 \<or> length actuation \<noteq> 1 then Inl RepException
      else if order = 0 then Inl RepUndefined
      else Inr (take (order - 1) (drop 1 state) @ [actuation ! 0, 1]))"

definition integrator_regulator_configure :: "nat \<Rightarrow> regulator \<Rightarrow> regulator res" where
  "integrator_regulator_configure order = sized_regulator_configure order 1"

definition integrator_regulator_observe :: "nat \<Rightarrow> regulator \<Rightarrow> dvec \<Rightarrow> observation \<Rightarrow> (observation \<times> int) res" where
  "integrator_regulator_observe order = prefix_regulator_observe order"

definition integrator_regulator_task :: "nat \<Rightarrow> regulator \<Rightarrow> task" where
  "integrator_regulator_task order rg = regulator_task_of (integrator_regulator_observe order rg) invert_append rg"

section \<open>Flyer\<close>

text \<open>A wall stops what would grow further.\<close>

definition wall_stop :: "real \<Rightarrow> real \<Rightarrow> real" where
  "wall_stop pos d =
     (let d = (if pos > 1 \<and> d > 0 then 0 else d) in if pos < - 1 \<and> d < 0 then 0 else d)"

definition flyer_eom :: "dvec \<Rightarrow> dvec \<Rightarrow> dvec res" where
  "flyer_eom state actuation =
     (if length state \<noteq> 7 \<or> length actuation \<noteq> 2 then Inl RepException
      else let m = 0.1; g = 9.81; l = 0.1; J = m * 4 * l * l / 12;
               thrust = 1 + actuation ! 0 + actuation ! 1
           in Inr [wall_stop (state ! 0) (state ! 3), wall_stop (state ! 1) (state ! 4), state ! 5,
                   wall_stop (state ! 0) (- thrust * sin (state ! 2) / m),
                   wall_stop (state ! 1) (thrust * cos (state ! 2) / m - g),
                   (actuation ! 1 - actuation ! 0) * l / J, 1])"

definition flyer_regulator_configure :: "regulator \<Rightarrow> regulator res" where
  "flyer_regulator_configure = sized_regulator_configure 6 2"

definition flyer_regulator_observe :: "regulator \<Rightarrow> dvec \<Rightarrow> observation \<Rightarrow> (observation \<times> int) res" where
  "flyer_regulator_observe = prefix_regulator_observe 6"

definition flyer_regulator_task :: "regulator \<Rightarrow> task" where
  "flyer_regulator_task rg = regulator_task_of (flyer_regulator_observe rg) invert_append rg"

section \<open>Cart with two poles\<close>

record double_pole =
  dp1 :: real
  dp2 :: real
  dp3 :: real
  dp4 :: real
  dp5 :: real
  dp6 :: real
  dp7 :: real
  dp8 :: real

definition double_pole_configure :: double_pole where
  "double_pole_configure =
     (let m = 0.5; m1 = 0.5; m2 = 0.5; l1 = 0.3; l2 = 0.3; g = 9.82; L1 = 2 * l1; L2 = 2 * l2;
          J1 = m1 * L1 * L1 / 3; J2 = m2 * L2 * L2 / 3
      in \<lparr>dp1 = m + m1 + m2, dp2 = m1 * l1 + m2 * L1, dp3 = m2 * l2,
          dp4 = m1 * l1 * l1 + m2 * L1 * L1 + J1, dp5 = m2 * l2 * L1, dp6 = m2 * l2 * l2 + J2,
          dp7 = m1 * l1 * g + m2 * L1 * g, dp8 = m2 * l2 * g\<rparr>)"

text \<open>
  A symmetric 3x3 matrix by its upper triangle \<open>(a, b, c, d, e, f)\<close>, row by row; its determinant, and
  its inverse (the adjugate over the determinant) applied to a vector.
\<close>

type_synonym sym3 = "real \<times> real \<times> real \<times> real \<times> real \<times> real"

definition det3 :: "sym3 \<Rightarrow> real" where
  "det3 M = (case M of (a, b, c, d, e, f) \<Rightarrow>
     a * (d * f - e * e) - b * (b * f - e * c) + c * (b * e - d * c))"

definition inverse3 :: "sym3 \<Rightarrow> real \<times> real \<times> real \<Rightarrow> real \<times> real \<times> real" where
  "inverse3 M v = (case (M, v) of ((a, b, c, d, e, f), (x, y, z)) \<Rightarrow>
     let D = det3 M
     in (((d * f - e * e) * x + (c * e - b * f) * y + (b * e - c * d) * z) / D,
         ((c * e - b * f) * x + (a * f - c * c) * y + (b * c - a * e) * z) / D,
         ((b * e - c * d) * x + (b * c - a * e) * y + (a * d - b * b) * z) / D))"

definition double_pole_mass :: "double_pole \<Rightarrow> real \<Rightarrow> real \<Rightarrow> sym3" where
  "double_pole_mass h x y =
     (dp1 h, dp2 h * cos x, dp3 h * cos y, dp4 h, dp5 h * cos (x - y), dp6 h)"

text \<open>\<open>u - C*qd - g\<close>\<close>

definition double_pole_force :: "double_pole \<Rightarrow> dvec \<Rightarrow> real \<Rightarrow> real \<times> real \<times> real" where
  "double_pole_force h state f =
     (let s1 = sin (state ! 1); s2 = sin (state ! 2); s12 = sin (state ! 1 - state ! 2);
          qd1 = state ! 4; qd2 = state ! 5
      in (f - (- dp2 h * qd1 * s1 * qd1 + - dp3 h * qd2 * s2 * qd2) - 0,
          0 - dp5 h * qd2 * s12 * qd2 - - dp7 h * s1,
          0 - - dp5 h * qd1 * s12 * qd1 - - dp8 h * s2))"

definition end_stop :: "real \<Rightarrow> real \<Rightarrow> real \<Rightarrow> real \<times> real" where
  "end_stop x v acc =
     (if x > 2.4 \<and> v > 0 then (0, if acc > 0 then 0 else acc)
      else if x < - 2.4 \<and> v < 0 then (0, if acc < 0 then 0 else acc)
      else (v, acc))"

definition double_pole_eom :: "double_pole \<Rightarrow> dvec \<Rightarrow> dvec \<Rightarrow> dvec res" where
  "double_pole_eom h state actuation =
     (if length state \<noteq> 7 \<or> length actuation \<noteq> 1 then Inl RepException
      else let M = double_pole_mass h (state ! 1) (state ! 2)
           in if det3 M = 0 then Inl RepUndefined
              else let (qdd0, qdd1, qdd2) = inverse3 M (double_pole_force h state (actuation ! 0));
                       (v, acc) = end_stop (state ! 0) (state ! 3) qdd0
                   in Inr [v, state ! 4, state ! 5, acc, qdd1, qdd2, 1])"

definition double_swingup_start :: "int \<Rightarrow> rand \<Rightarrow> (dvec \<times> rand) res" where
  "double_swingup_start test g =
     (let (u, g) = rand_get g in Inr ([0, pi + (u * 0.1 - 0.05), 0, 0, 0, 0, 0], g))"

text \<open>The tested size is 5, although the time is then read from entry 6 of the state.\<close>

definition double_swingup_observe :: "real \<Rightarrow> dvec \<Rightarrow> observation \<Rightarrow> (observation \<times> int) res" where
  "double_swingup_observe timeout state obs =
     (if length state \<noteq> 5 then Inl RepException else Inl RepUndefined)"

definition double_swingup_evaluate :: "dvec \<Rightarrow> action \<Rightarrow> dvec \<Rightarrow> real res" where
  "double_swingup_evaluate state a next_state =
     (if length state \<noteq> 7 \<or> length (a_v a) \<noteq> 1 \<or> length next_state \<noteq> 7 then Inl RepException
      else Inr (- 2 * (state ! 0)\<^sup>2 - 0.1 * (state ! 3)\<^sup>2 - (wrap_angle (state ! 1))\<^sup>2 - 0.1 * (state ! 4)\<^sup>2 -
                (wrap_angle (state ! 2))\<^sup>2 - 0.1 * (state ! 5)\<^sup>2))"

definition double_swingup_invert :: "observation \<Rightarrow> real \<Rightarrow> dvec option" where
  "double_swingup_invert obs time =
     (if length (o_v obs) < 2 then None
      else Some (Vectors.extend ((o_v obs)[1 := o_v obs ! 1 - pi]) [time]))"

definition double_swingup_task :: "real \<Rightarrow> task" where
  "double_swingup_task timeout = \<lparr>tk_start = double_swingup_start, tk_actuate = default_actuate,
     tk_observe = double_swingup_observe timeout, tk_evaluate = double_swingup_evaluate,
     tk_invert = double_swingup_invert\<rparr>"

definition double_balancing_start :: "int \<Rightarrow> rand \<Rightarrow> (dvec \<times> rand) res" where
  "double_balancing_start test g =
     (let (u, g) = rand_get g in Inr ([0, u * 0.01 - 0.005, 0, 0, 0, 0, 0], g))"

definition double_failed :: "dvec \<Rightarrow> bool" where
  "double_failed state \<longleftrightarrow> \<bar>state ! 0\<bar> > 2.4 \<or> \<bar>state ! 1\<bar> > 0.7 \<or> \<bar>state ! 2\<bar> > 0.7"

definition double_balancing_observe :: "real \<Rightarrow> dvec \<Rightarrow> observation \<Rightarrow> (observation \<times> int) res" where
  "double_balancing_observe timeout state obs =
     (if length state \<noteq> 7 then Inl RepException
      else let obs = observe_prefix 6 state obs
           in if double_failed state then Inr (obs\<lparr>o_absorbing := True\<rparr>, 2)
              else Inr (obs, if state ! 6 > timeout then 1 else 0))"

definition double_balancing_evaluate :: "dvec \<Rightarrow> action \<Rightarrow> dvec \<Rightarrow> real res" where
  "double_balancing_evaluate state a next_state =
     (if length state \<noteq> 7 \<or> length (a_v a) \<noteq> 1 \<or> length next_state \<noteq> 7 then Inl RepException
      else if double_failed next_state then Inr 0
      else Inr (6.2 - \<bar>state ! 0\<bar> - \<bar>state ! 1\<bar> - \<bar>state ! 2\<bar>))"

definition double_balancing_task :: "real \<Rightarrow> task" where
  "double_balancing_task timeout = \<lparr>tk_start = double_balancing_start, tk_actuate = default_actuate,
     tk_observe = double_balancing_observe timeout, tk_evaluate = double_balancing_evaluate,
     tk_invert = invert_append\<rparr>"

text \<open>The regulator does not test the number of its weights.\<close>

definition double_regulator_observe :: "regulator \<Rightarrow> dvec \<Rightarrow> observation \<Rightarrow> (observation \<times> int) res" where
  "double_regulator_observe = prefix_regulator_observe 6"

definition double_regulator_task :: "regulator \<Rightarrow> task" where
  "double_regulator_task rg = regulator_task_of (double_regulator_observe rg) invert_append rg"

section \<open>Ball in a maze\<close>

type_synonym point = "real \<times> real"

definition pt_add :: "point \<Rightarrow> point \<Rightarrow> point" where
  "pt_add p q = (fst p + fst q, snd p + snd q)"

definition pt_sub :: "point \<Rightarrow> point \<Rightarrow> point" where
  "pt_sub p q = (fst p - fst q, snd p - snd q)"

definition pt_scale :: "point \<Rightarrow> real \<Rightarrow> point" where
  "pt_scale p x = (fst p * x, snd p * x)"

definition pt_mul :: "point \<Rightarrow> point \<Rightarrow> point" where
  "pt_mul p q = (fst p * fst q, snd p * snd q)"

definition pt_d :: "point \<Rightarrow> real" where
  "pt_d p = sqrt (fst p * fst p + snd p * snd p)"

definition pt_sum :: "point \<Rightarrow> real" where
  "pt_sum p = fst p + snd p"

definition pt_angle :: "point \<Rightarrow> real" where   \<comment> \<open>\<open>atan2(y, x)\<close>\<close>
  "pt_angle p = Arg (Complex (fst p) (snd p))"

record ball =
  bl_pos :: point
  bl_vel :: point
  bl_radius :: real

definition roll :: "point \<Rightarrow> real \<Rightarrow> ball \<Rightarrow> ball" where
  "roll acc h b = b\<lparr>bl_pos := pt_add (bl_pos b) (pt_scale (bl_vel b) h),
                   bl_vel := pt_add (bl_vel b) (pt_scale acc h)\<rparr>"

text \<open>Only if the ball moves against the normal.\<close>

definition bounced :: "point \<Rightarrow> point \<Rightarrow> real \<Rightarrow> point" where
  "bounced n v r =
     (let phi = 2 * pt_angle n - pt_angle v + pi in pt_scale (cos phi * pt_d v, sin phi * pt_d v) r)"

definition ball_bounce :: "point \<Rightarrow> real \<Rightarrow> ball \<Rightarrow> ball" where
  "ball_bounce n r b = (if pt_sum (pt_mul n (bl_vel b)) < 0 then b\<lparr>bl_vel := bounced n (bl_vel b) r\<rparr> else b)"

text \<open>The position of \<open>p\<close> along a side, and its distance from it.\<close>

definition side_t :: "point \<Rightarrow> point \<Rightarrow> point \<Rightarrow> real" where
  "side_t a b p = (let l = pt_sub b a; ab = pt_d l in pt_d (pt_mul (pt_sub p a) l) / (ab * ab))"

definition side_distance :: "point \<Rightarrow> point \<Rightarrow> point \<Rightarrow> real" where
  "side_distance a b p =
     (let t = side_t a b p
      in if t < 0 then pt_d (pt_sub p a)
         else if t > 1 then pt_d (pt_sub p b)
         else pt_d (pt_sub p (pt_add a (pt_scale (pt_sub b a) t))))"

text \<open>A side of no length has no distance (it is not a number). Collisions are counted, but not used.\<close>

definition collide_side :: "real \<Rightarrow> point \<times> point \<Rightarrow> ball \<Rightarrow> ball" where
  "collide_side r ab bl =
     (case ab of (a, b) \<Rightarrow> let l = pt_sub b a in
       if pt_d l \<noteq> 0 \<and> side_distance a b (bl_pos bl) < bl_radius bl
       then ball_bounce (snd l, - fst l) r bl else bl)"

text \<open>The sides of an obstacle lead to its points, from the point before; the first from the last.\<close>

definition obstacle_sides :: "point list \<Rightarrow> (point \<times> point) list" where
  "obstacle_sides ps = (if ps = [] then [] else zip (last ps # butlast ps) ps)"

definition collide :: "real \<Rightarrow> point list \<Rightarrow> ball \<Rightarrow> ball" where
  "collide r ps b = foldl (\<lambda>b side. collide_side r side b) b (obstacle_sides ps)"

record pinball =
  pb_tau :: real
  pb_steps :: nat
  pb_restitution :: real
  pb_radius :: real
  pb_maze :: int

definition pinball_obstacles :: "int \<Rightarrow> point list list" where
  "pinball_obstacles maze =
     (let w = [(0, 0), (0, 1), (1, 1), (1, 0)]
      in if maze = 0
         then [w, [(0.2, 0), (0.4, 0), (0.4, 0.8), (0.2, 0.8)],
                  [(0.6, 0.2), (0.8, 0.2), (0.8, 1), (0.6, 1)]]
         else if maze = 1
         then [w, [(0.2, 0), (0.3, 0), (0.3, 0.7), (0.5, 0.7), (0.5, 0.8), (0.2, 0.8)],
                  [(0.5, 0.2), (0.8, 0.2), (0.8, 1), (0.7, 1), (0.7, 0.3), (0.5, 0.3)]]
         else [])"

definition pinball_substep :: "pinball \<Rightarrow> point \<Rightarrow> real \<Rightarrow> ball \<Rightarrow> ball" where
  "pinball_substep pb acc h b =
     foldl (\<lambda>b ps. collide (pb_restitution pb) ps b) (roll acc h b) (pinball_obstacles (pb_maze pb))"

definition pinball_step :: "pinball \<Rightarrow> model_step" where
  "pinball_step pb state actuation =
     (case (state, actuation) of
        (x # y # xd # yd # t # _, xdd # ydd # _) \<Rightarrow>
          let b = \<lparr>bl_pos = (x, y), bl_vel = (xd, yd), bl_radius = pb_radius pb\<rparr>;
              b = (pinball_substep pb (xdd, ydd) (pb_tau pb / real (pb_steps pb)) ^^ pb_steps pb) b
          in Inr (pb_tau pb, [fst (bl_pos b), snd (bl_pos b), fst (bl_vel b), snd (bl_vel b), t + pb_tau pb])
      | _ \<Rightarrow> Inl RepUndefined)"

definition pinball_start :: "int \<Rightarrow> rand \<Rightarrow> (dvec \<times> rand) res" where
  "pinball_start test g = Inr ([0.1, 0.1, 0, 0, 0], g)"

definition pinball_succeeded :: "real \<Rightarrow> dvec \<Rightarrow> bool" where
  "pinball_succeeded tolerance state \<longleftrightarrow> \<bar>state ! 0 - 0.9\<bar> < tolerance \<and> \<bar>state ! 1 - 0.9\<bar> < tolerance"

definition pinball_observe :: "real \<Rightarrow> dvec \<Rightarrow> observation \<Rightarrow> (observation \<times> int) res" where
  "pinball_observe tolerance state obs =
     (if length state \<noteq> 5 then Inl RepException
      else let obs = observe_prefix 4 state obs
           in if pinball_succeeded tolerance state then Inr (obs\<lparr>o_absorbing := True\<rparr>, 2)
              else Inr (obs, if state ! 4 > 10 then 1 else 0))"

definition pinball_evaluate :: "real \<Rightarrow> dvec \<Rightarrow> action \<Rightarrow> dvec \<Rightarrow> real res" where
  "pinball_evaluate tolerance state a next_state =
     (if length state \<noteq> 5 \<or> length (a_v a) \<noteq> 2 \<or> length next_state \<noteq> 5 then Inl RepException
      else Inr (if pinball_succeeded tolerance next_state then 100 else - 1))"

definition pinball_invert :: "observation \<Rightarrow> real \<Rightarrow> dvec option" where
  "pinball_invert obs time = (if length (o_v obs) < 4 then None else Some (take 4 (o_v obs) @ [time]))"

definition pinball_task :: "real \<Rightarrow> task" where
  "pinball_task tolerance = \<lparr>tk_start = pinball_start, tk_actuate = default_actuate,
     tk_observe = pinball_observe tolerance, tk_evaluate = pinball_evaluate tolerance,
     tk_invert = pinball_invert\<rparr>"

definition pinball_regulator_configure :: "regulator \<Rightarrow> regulator res" where
  "pinball_regulator_configure = sized_regulator_configure 4 2"

definition pinball_regulator_observe :: "regulator \<Rightarrow> dvec \<Rightarrow> observation \<Rightarrow> (observation \<times> int) res" where
  "pinball_regulator_observe = prefix_regulator_observe 4"

definition pinball_regulator_task :: "regulator \<Rightarrow> task" where
  "pinball_regulator_task rg = regulator_task_of (pinball_regulator_observe rg) invert_append rg"

end
