(* ===== verification/MoreWorldFacts.thy ===== *)
theory MoreWorldFacts
  imports MoreWorlds
begin

text \<open>
  Facts about the worlds of \<open>MoreWorlds\<close>: the accelerations of the acrobot and the cart with two poles
  are always defined, and the equations that they solve; balls bounce as light is reflected, and never
  gain speed by it; corners of the maze let a ball through.
\<close>

section \<open>Equations of motion\<close>

lemma acrobot_positive: "0 < acrobot_d1 x \<and> 0 < acrobot_inertia x"
proof
  show d1: "0 < acrobot_d1 x" by (simp add: acrobot_d1_def) (use cos_ge_minus_one [of x] in linarith)
  have "(cos x)\<^sup>2 \<le> 1" by (simp add: abs_square_le_1)
  then have "acrobot_d2 x * acrobot_d2 x < 5 / 4 * acrobot_d1 x"
    by (simp add: acrobot_d1_def acrobot_d2_def algebra_simps power2_eq_square)
  then have "acrobot_d2 x * acrobot_d2 x / acrobot_d1 x < 5 / 4" using d1 by (simp add: pos_divide_less_eq)
  then show "0 < acrobot_inertia x" by (simp add: acrobot_inertia_def)
qed

lemma inverse3_solves:
  assumes "det3 (a, b, c, d, e, f) \<noteq> 0" and "inverse3 (a, b, c, d, e, f) (x, y, z) = (p, q, r)"
  shows "a * p + b * q + c * r = x" "b * p + d * q + e * r = y" "c * p + e * q + f * r = z"
proof -
  define D where "D = det3 (a, b, c, d, e, f)"
  have D: "D \<noteq> 0" "D = a * (d * f - e * e) - b * (b * f - e * c) + c * (b * e - d * c)"
    using assms(1) by (simp_all add: D_def det3_def)
  have p: "D * p = (d * f - e * e) * x + (c * e - b * f) * y + (b * e - c * d) * z"
    and q: "D * q = (c * e - b * f) * x + (a * f - c * c) * y + (b * c - a * e) * z"
    and r: "D * r = (b * e - c * d) * x + (b * c - a * e) * y + (a * d - b * b) * z"
    using assms(2) D(1) unfolding D_def by (auto simp: inverse3_def Let_def)
  have "D * (a * p + b * q + c * r) = a * (D * p) + b * (D * q) + c * (D * r)" by (simp add: algebra_simps)
  also have "\<dots> = D * x" unfolding p q r by (simp add: D(2) algebra_simps)
  finally show "a * p + b * q + c * r = x" using D(1) by simp
  have "D * (b * p + d * q + e * r) = b * (D * p) + d * (D * q) + e * (D * r)" by (simp add: algebra_simps)
  also have "\<dots> = D * y" unfolding p q r by (simp add: D(2) algebra_simps)
  finally show "b * p + d * q + e * r = y" using D(1) by simp
  have "D * (c * p + e * q + f * r) = c * (D * p) + e * (D * q) + f * (D * r)" by (simp add: algebra_simps)
  also have "\<dots> = D * z" unfolding p q r by (simp add: D(2) algebra_simps)
  finally show "c * p + e * q + f * r = z" using D(1) by simp
qed

text \<open>The product of the three cosines is never far below zero, because the third depends on the others.\<close>

lemma cos_product:
  fixes x y :: real
  shows "- 1 / 8 \<le> cos x * cos y * cos (x - y)"
proof -
  define u w where "u = cos (x - y)" and "w = cos (x + y)"
  have "cos x * cos y * cos (x - y) = (u + w) / 2 * u" by (simp add: cos_times_cos u_def w_def)
  also have "\<dots> = ((u + w / 2)\<^sup>2 - w\<^sup>2 / 4) / 2" by (simp add: power2_eq_square algebra_simps)
  finally have e: "cos x * cos y * cos (x - y) = ((u + w / 2)\<^sup>2 - w\<^sup>2 / 4) / 2" .
  have "w\<^sup>2 \<le> 1" by (simp add: w_def abs_square_le_1)
  moreover have "0 \<le> (u + w / 2)\<^sup>2" by simp
  moreover have "- 1 / 8 \<le> (A - B / 4) / 2" if "0 \<le> A" "B \<le> 1" for A B :: real
    using that by (simp add: field_simps)
  ultimately show ?thesis unfolding e by blast
qed

lemma double_pole_det: "0 < det3 (double_pole_mass double_pole_configure x y)"
proof -
  let ?c1 = "cos x" and ?c2 = "cos y" and ?c = "cos (x - y)"
  have sq: "?c1\<^sup>2 \<le> 1" "?c2\<^sup>2 \<le> 1" "?c\<^sup>2 \<le> 1" by (simp_all add: abs_square_le_1)
  have "det3 (double_pole_mass double_pole_configure x y) =
      448875 / 10000000 - 1215 / 100000 * ?c\<^sup>2 - 212625 / 10000000 * ?c1\<^sup>2 - 64125 / 10000000 * ?c2\<^sup>2 +
      1215 / 50000 * (?c1 * ?c2 * ?c) / 2 * 1"
    by (simp add: det3_def double_pole_mass_def double_pole_configure_def Let_def power2_eq_square algebra_simps)
  then show ?thesis using sq cos_product [of x y] by simp
qed

lemma acrobot_solves:
  fixes theta1 theta2 w1 w2 u :: real
  shows "\<exists>q1 q2. acrobot_eom [theta1, theta2, w1, w2, t] [u] =
      Inr [w1, w2, limit_rate (4 * pi) w1 q1, limit_rate (9 * pi) w2 q2, 1] \<and>
    (7 / 2 + cos theta2) * q1 + (5 / 4 + cos theta2 / 2) * q2 =
      w2 * (w2 + 2 * w1) * sin theta2 / 2 - 14.7 * sin theta1 - 4.9 * sin (theta1 + theta2) \<and>
    (5 / 4 + cos theta2 / 2) * q1 + 5 / 4 * q2 = u - w2\<^sup>2 * sin theta2 / 2 - 4.9 * sin (theta1 + theta2)"
proof -
  define d1 d2 b where "d1 = acrobot_d1 theta2" and "d2 = acrobot_d2 theta2" and "b = acrobot_inertia theta2"
  define phi2 where "phi2 = 1 * 0.5 * 9.8 * cos (theta1 + theta2 - pi / 2)"
  define phi1 where "phi1 = - 1 * 1 * 0.5 * w2 * w2 * sin theta2 - 2 * 1 * 1 * 0.5 * w2 * w1 * sin theta2 +
    (1 * 0.5 + 1 * 1) * 9.8 * cos (theta1 - pi / 2) + phi2"
  define q2 where "q2 = (u + d2 * phi1 / d1 - 1 * 1 * 0.5 * w2 * w2 * sin theta2 - phi2) / b"
  define q1 where "q1 = - (d2 * q2 + phi1) / d1"
  have pos: "0 < d1" "0 < b" using acrobot_positive [of theta2] by (simp_all add: d1_def b_def)
  have d: "d1 = 7 / 2 + cos theta2" "d2 = 5 / 4 + cos theta2 / 2" "b = 5 / 4 - d2 * d2 / d1"
    by (simp_all add: d1_def d2_def b_def acrobot_d1_def acrobot_d2_def acrobot_inertia_def)
  have s: "cos (x - pi / 2) = sin x" for x :: real by (simp add: cos_diff)
  have "acrobot_eom [theta1, theta2, w1, w2, t] [u] =
      Inr [w1, w2, limit_rate (4 * pi) w1 q1, limit_rate (9 * pi) w2 q2, 1]"
    unfolding q1_def q2_def phi1_def phi2_def d1_def d2_def b_def by (simp add: acrobot_eom_def Let_def) (rule arg_cong [where f = "limit_rate (4 * pi) w1"], simp add: algebra_simps)
  moreover have one: "d1 * q1 + d2 * q2 = - phi1" using pos by (simp add: q1_def)
  moreover have "d2 * q1 + 5 / 4 * q2 = u - w2\<^sup>2 * sin theta2 / 2 - phi2"
  proof -
    have "d2 * q1 = - (d2 * d2 / d1 * q2) - d2 * phi1 / d1" by (simp add: q1_def add_divide_distrib algebra_simps diff_divide_distrib)
    moreover have "b * q2 = u + d2 * phi1 / d1 - w2\<^sup>2 * sin theta2 / 2 - phi2"
      using pos by (simp add: q2_def power2_eq_square)
    moreover have "b * q2 = 5 / 4 * q2 - d2 * d2 / d1 * q2" by (simp add: d(3) left_diff_distrib)
    ultimately show ?thesis by linarith
  qed
  ultimately show ?thesis
    unfolding d(1,2) phi1_def phi2_def s
    by (intro exI [of _ q1] exI [of _ q2]) (simp add: power2_eq_square algebra_simps add_divide_distrib)
qed

text \<open>C21: the accelerations of the linked bodies solve their equations of motion. In every state of the acrobot, what
  the equations divide by is positive, and the accelerations \<open>q1''\<close> and \<open>q2''\<close> of its joints, before their rates
  are limited, balance the torques, none on the first joint and \<open>u\<close> on the second, except that the centrifugal torque
  on the second joint is that of its own rate: with the rate of the first joint, which causes it, they balance only
  where the two torques are the same.
  The mass matrix of the cart with two poles is never singular; so every state of the right size has a
  derivative, whose accelerations \<open>q''\<close> (that of the cart before the end stops see to it) solve
  \<open>M(q) q'' = u - C(q, q') q' - g(q)\<close>.\<close>

theorem accelerations_defined:
  "(\<exists>q1 q2. acrobot_eom [theta1, theta2, w1, w2, t] [u] =
       Inr [w1, w2, limit_rate (4 * pi) w1 q1, limit_rate (9 * pi) w2 q2, 1] \<and>
     0 < acrobot_d1 theta2 \<and> 0 < acrobot_inertia theta2 \<and>
     (7 / 2 + cos theta2) * q1 + (5 / 4 + cos theta2 / 2) * q2 =
       w2 * (w2 + 2 * w1) * sin theta2 / 2 - 14.7 * sin theta1 - 4.9 * sin (theta1 + theta2) \<and>
     (5 / 4 + cos theta2 / 2) * q1 + 5 / 4 * q2 = u - w2\<^sup>2 * sin theta2 / 2 - 4.9 * sin (theta1 + theta2) \<and>
     ((5 / 4 + cos theta2 / 2) * q1 + 5 / 4 * q2 = u - w1\<^sup>2 * sin theta2 / 2 - 4.9 * sin (theta1 + theta2) \<longleftrightarrow>
       w1\<^sup>2 * sin theta2 = w2\<^sup>2 * sin theta2)) \<and>
   (\<exists>v acc a1 a2 qdd0.
      double_pole_eom double_pole_configure [p, x, y, v0, v1, v2, t] [f] = Inr [v, v1, v2, acc, a1, a2, 1] \<and>
      (v, acc) = end_stop p v0 qdd0 \<and>
      (case double_pole_mass double_pole_configure x y of (m11, m12, m13, m22, m23, m33) \<Rightarrow>
         (m11 * qdd0 + m12 * a1 + m13 * a2, m12 * qdd0 + m22 * a1 + m23 * a2, m13 * qdd0 + m23 * a1 + m33 * a2) =
         double_pole_force double_pole_configure [p, x, y, v0, v1, v2, t] f))"
proof -
  let ?h = double_pole_configure and ?s = "[p, x, y, v0, v1, v2, t]"
  obtain m11 m12 m13 m22 m23 m33 where M: "double_pole_mass ?h x y = (m11, m12, m13, m22, m23, m33)"
    by (rule prod_cases6)
  obtain b0 b1 b2 where F: "double_pole_force ?h ?s f = (b0, b1, b2)" by (rule prod_cases3)
  obtain q0 q1 q2 where Q: "inverse3 (m11, m12, m13, m22, m23, m33) (b0, b1, b2) = (q0, q1, q2)"
    by (rule prod_cases3)
  have det: "det3 (m11, m12, m13, m22, m23, m33) \<noteq> 0" using double_pole_det [of x y] M by simp
  obtain v acc where E: "end_stop p v0 q0 = (v, acc)" by fastforce
  have "double_pole_eom ?h ?s [f] = Inr [v, v1, v2, acc, q1, q2, 1]"
    using M F Q det E by (simp add: double_pole_eom_def)
  moreover have "(v, acc) = end_stop p v0 q0" using E by simp
  moreover note inverse3_solves [OF det Q]
  ultimately have pole: "\<exists>v acc a1 a2 qdd0.
      double_pole_eom ?h ?s [f] = Inr [v, v1, v2, acc, a1, a2, 1] \<and> (v, acc) = end_stop p v0 qdd0 \<and>
      (case double_pole_mass ?h x y of (m11, m12, m13, m22, m23, m33) \<Rightarrow>
         (m11 * qdd0 + m12 * a1 + m13 * a2, m12 * qdd0 + m22 * a1 + m23 * a2, m13 * qdd0 + m23 * a1 + m33 * a2) =
         double_pole_force ?h ?s f)" unfolding M F by fastforce
  obtain r1 r2 where r: "acrobot_eom [theta1, theta2, w1, w2, t] [u] =
      Inr [w1, w2, limit_rate (4 * pi) w1 r1, limit_rate (9 * pi) w2 r2, 1]"
    "(7 / 2 + cos theta2) * r1 + (5 / 4 + cos theta2 / 2) * r2 =
      w2 * (w2 + 2 * w1) * sin theta2 / 2 - 14.7 * sin theta1 - 4.9 * sin (theta1 + theta2)"
    "(5 / 4 + cos theta2 / 2) * r1 + 5 / 4 * r2 = u - w2\<^sup>2 * sin theta2 / 2 - 4.9 * sin (theta1 + theta2)"
    using acrobot_solves by blast
  have "(5 / 4 + cos theta2 / 2) * r1 + 5 / 4 * r2 = u - w1\<^sup>2 * sin theta2 / 2 - 4.9 * sin (theta1 + theta2) \<longleftrightarrow>
      w1\<^sup>2 * sin theta2 = w2\<^sup>2 * sin theta2" unfolding r(3) by linarith
  with r pole show ?thesis using acrobot_positive [of theta2] by blast
qed

section \<open>The ball\<close>

lemma pt_polar: "p = (pt_d p * cos (pt_angle p), pt_d p * sin (pt_angle p))"
proof -
  have "cmod (Complex (fst p) (snd p)) = pt_d p" by (simp add: pt_d_def cmod_def power2_eq_square)
  then have "rcis (pt_d p) (pt_angle p) = Complex (fst p) (snd p)"
    using rcis_cmod_Arg [of "Complex (fst p) (snd p)"] by (simp add: pt_angle_def)
  then show ?thesis by (metis Re_rcis Im_rcis complex.sel prod.collapse)
qed

text \<open>The reflection of a velocity on a line with normal \<open>n\<close>.\<close>

definition reflect :: "point \<Rightarrow> point \<Rightarrow> point" where
  "reflect n v = pt_sub v (pt_scale n (2 * pt_sum (pt_mul n v) / pt_sum (pt_mul n n)))"

lemma pt_dot_self: "pt_sum (pt_mul p p) = pt_d p * pt_d p"
  by (simp add: pt_sum_def pt_mul_def pt_d_def)

lemma bounced_reflects:
  assumes "n \<noteq> (0, 0)"
  shows "bounced n v r = pt_scale (reflect n v) r"
proof -
  define N A V B where "N = pt_d n" and "A = pt_angle n" and "V = pt_d v" and "B = pt_angle v"
  have n: "n = (N * cos A, N * sin A)" and v: "v = (V * cos B, V * sin B)"
    unfolding N_def A_def V_def B_def by (rule pt_polar)+
  have N: "N \<noteq> 0" using assms n by auto
  have dot: "pt_sum (pt_mul n v) = N * V * cos (A - B)"
    unfolding n v by (simp add: pt_sum_def pt_mul_def cos_diff algebra_simps)
  have self: "pt_sum (pt_mul n n) = N * N" unfolding N_def by (rule pt_dot_self)
  have f: "2 * pt_sum (pt_mul n v) / pt_sum (pt_mul n n) = 2 * V * cos (A - B) / N"
    unfolding dot self using N by (simp add: field_simps)
  have ab: "A - (A - B) = B" "A + (A - B) = 2 * A - B" by simp_all
  have "2 * (cos A * cos (A - B)) = cos B + cos (2 * A - B)"
    using cos_times_cos [of A "A - B"] unfolding ab by simp
  then have x: "V * cos B - cos A * (2 * V * cos (A - B)) = - (V * cos (2 * A - B))" by algebra
  have "2 * (sin A * cos (A - B)) = sin (2 * A - B) + sin B"
    using sin_times_cos [of A "A - B"] unfolding ab by simp
  then have y: "V * sin B - sin A * (2 * V * cos (A - B)) = - (V * sin (2 * A - B))" by algebra
  have "reflect n v = (- (V * cos (2 * A - B)), - (V * sin (2 * A - B)))"
    unfolding reflect_def f x [symmetric] y [symmetric]
    using N by (subst n, subst v) (simp add: pt_sub_def pt_scale_def)
  then show ?thesis by (simp add: bounced_def Let_def pt_scale_def flip: A_def B_def V_def)
qed

lemma reflect_speed:
  assumes "n \<noteq> (0, 0)"
  shows "pt_d (reflect n v) = pt_d v" and "pt_sum (pt_mul n (reflect n v)) = - pt_sum (pt_mul n v)"
proof -
  let ?d = "pt_sum (pt_mul n v)" and ?s = "pt_sum (pt_mul n n)"
  have s: "?s \<noteq> 0" using assms by (auto simp: pt_sum_def pt_mul_def prod_eq_iff sum_squares_eq_zero_iff)
  define k where "k = 2 * ?d / ?s"
  have R: "reflect n v = pt_sub v (pt_scale n k)" by (simp add: reflect_def k_def)
  have ks: "k * ?s = 2 * ?d" using s by (simp add: k_def)
  have "pt_sum (pt_mul n (reflect n v)) = ?d - k * ?s"
    unfolding R by (simp add: pt_sum_def pt_mul_def pt_sub_def pt_scale_def algebra_simps)
  then show "pt_sum (pt_mul n (reflect n v)) = - ?d" using ks by simp
  have "pt_sum (pt_mul (reflect n v) (reflect n v)) = pt_sum (pt_mul v v) - 2 * k * ?d + k * (k * ?s)"
    unfolding R by (simp add: pt_sum_def pt_mul_def pt_sub_def pt_scale_def algebra_simps)
  also have "\<dots> = pt_sum (pt_mul v v)" unfolding ks by simp
  finally show "pt_d (reflect n v) = pt_d v" by (simp add: pt_d_def pt_sum_def pt_mul_def)
qed

text \<open>balls bounce as light is reflected. A ball that moves against the normal of a side keeps its
  place, and its new velocity is the reflection of the old one on the side, scaled by the restitution:
  its speed is scaled, and the part along the normal is turned round. Other balls keep their velocity.\<close>

theorem ball_bounces:
  assumes "n \<noteq> (0, 0)"
  shows "ball_bounce n r b = (if pt_sum (pt_mul n (bl_vel b)) < 0
       then b\<lparr>bl_vel := pt_scale (reflect n (bl_vel b)) r\<rparr> else b) \<and>
    pt_d (reflect n (bl_vel b)) = pt_d (bl_vel b) \<and>
    pt_sum (pt_mul n (reflect n (bl_vel b))) = - pt_sum (pt_mul n (bl_vel b))"
  using bounced_reflects [OF assms] reflect_speed [OF assms] by (simp add: ball_bounce_def)

theorem ball_bounces_witness:
  "bl_vel (ball_bounce (0, 1) (1 / 2) \<lparr>bl_pos = (0, 0), bl_vel = (3, - 4), bl_radius = 1\<rparr>) = (3 / 2, 2)"
  using ball_bounces [of "(0, 1)" "1 / 2" "\<lparr>bl_pos = (0, 0), bl_vel = (3, - 4), bl_radius = 1\<rparr>"]
  by (simp add: reflect_def pt_sum_def pt_mul_def pt_sub_def pt_scale_def)

lemma pt_d_scale: "pt_d (pt_scale p x) = pt_d p * \<bar>x\<bar>"
proof -
  have "fst p * x * (fst p * x) + snd p * x * (snd p * x) = (fst p * fst p + snd p * snd p) * (x * x)"
    by (simp add: algebra_simps)
  then show ?thesis by (simp add: pt_d_def pt_scale_def real_sqrt_mult)
qed

lemma pt_d_triangle: "pt_d (pt_add p q) \<le> pt_d p + pt_d q"
proof -
  have "Complex (fst p) (snd p) + Complex (fst q) (snd q) = Complex (fst p + fst q) (snd p + snd q)"
    by (simp add: complex_eq_iff)
  then show ?thesis
    using norm_triangle_ineq [of "Complex (fst p) (snd p)" "Complex (fst q) (snd q)"]
    by (simp add: pt_d_def pt_add_def cmod_def power2_eq_square)
qed

lemma pt_d_zero [simp]: "pt_d p = 0 \<longleftrightarrow> p = (0, 0)"
  by (cases p) (auto simp: pt_d_def sum_squares_eq_zero_iff)

lemma collide_side_slower:
  assumes "0 \<le> r" and "r \<le> 1"
  shows "pt_d (bl_vel (collide_side r ab b)) \<le> pt_d (bl_vel b) \<and> bl_pos (collide_side r ab b) = bl_pos b"
proof -
  obtain p q where ab: "ab = (p, q)" by (rule prod.exhaust)
  let ?l = "pt_sub q p" and ?n = "(snd (pt_sub q p), - fst (pt_sub q p))"
  have nonneg: "0 \<le> pt_d (bl_vel b)" by (simp add: pt_d_def)
  have "pt_d (bl_vel (ball_bounce ?n r b)) \<le> pt_d (bl_vel b) \<and> bl_pos (ball_bounce ?n r b) = bl_pos b"
    if "?l \<noteq> (0, 0)"
  proof -
    have n: "?n \<noteq> (0, 0)" using that by (auto simp: prod_eq_iff)
    have "pt_d (bl_vel b) * \<bar>r\<bar> \<le> pt_d (bl_vel b) * 1" using assms nonneg by (intro mult_left_mono) auto
    then show ?thesis using bounced_reflects [OF n] reflect_speed(1) [OF n]
      by (simp add: ball_bounce_def pt_d_scale)
  qed
  then show ?thesis by (simp add: collide_side_def ab Let_def)
qed

lemma collide_slower:
  assumes "0 \<le> r" and "r \<le> 1"
  shows "pt_d (bl_vel (collide r ps b)) \<le> pt_d (bl_vel b)"
proof -
  have "pt_d (bl_vel (foldl (\<lambda>b side. collide_side r side b) b sides)) \<le> pt_d (bl_vel b)" for sides
  proof (induction sides arbitrary: b)
    case (Cons side sides)
    show ?case
      using Cons.IH [of "collide_side r side b"] collide_side_slower [OF assms, of side b] by simp
  qed simp
  then show ?thesis by (simp add: collide_def)
qed

lemma substep_speed:
  assumes "0 \<le> pb_restitution pb" and "pb_restitution pb \<le> 1" and "0 \<le> h"
  shows "pt_d (bl_vel (pinball_substep pb acc h b)) \<le> pt_d (bl_vel b) + h * pt_d acc"
proof -
  have "pt_d (bl_vel (foldl (\<lambda>b ps. collide (pb_restitution pb) ps b) b' pss)) \<le> pt_d (bl_vel b')" for pss b'
  proof (induction pss arbitrary: b')
    case (Cons ps pss)
    show ?case
      using Cons.IH [of "collide (pb_restitution pb) ps b'"] collide_slower [OF assms(1,2), of ps b'] by simp
  qed simp
  from this [of "roll acc h b" "pinball_obstacles (pb_maze pb)"]
  have "pt_d (bl_vel (pinball_substep pb acc h b)) \<le> pt_d (pt_add (bl_vel b) (pt_scale acc h))"
    by (simp add: pinball_substep_def roll_def)
  also have "\<dots> \<le> pt_d (bl_vel b) + pt_d (pt_scale acc h)" by (rule pt_d_triangle)
  finally show ?thesis using assms(3) by (simp add: pt_d_scale mult.commute)
qed

text \<open>C22: the maze never speeds a ball up. With a restitution between 0 and 1, a control step of the model
  returns, and raises the speed by no more than the length of the acceleration times the control step,
  whatever the ball hits on its way; the clock advances by the control step.\<close>

theorem pinball_speed_bounded:
  assumes "0 \<le> pb_restitution pb" and "pb_restitution pb \<le> 1" and "0 \<le> pb_tau pb" and "0 < pb_steps pb"
  shows "\<exists>x' y' xd' yd'. pinball_step pb [x, y, xd, yd, t] [xdd, ydd] =
      Inr (pb_tau pb, [x', y', xd', yd', t + pb_tau pb]) \<and>
    pt_d (xd', yd') \<le> pt_d (xd, yd) + pb_tau pb * pt_d (xdd, ydd)"
proof -
  let ?h = "pb_tau pb / real (pb_steps pb)" and ?acc = "(xdd, ydd)"
  let ?b = "\<lparr>bl_pos = (x, y), bl_vel = (xd, yd), bl_radius = pb_radius pb\<rparr>"
  have h: "0 \<le> ?h" using assms(3) by simp
  have "pt_d (bl_vel ((pinball_substep pb ?acc ?h ^^ k) ?b)) \<le> pt_d (xd, yd) + real k * ?h * pt_d ?acc" for k
  proof (induction k)
    case (Suc k)
    from substep_speed [OF assms(1,2) h, of ?acc "(pinball_substep pb ?acc ?h ^^ k) ?b"] Suc
    show ?case by (simp add: algebra_simps add_divide_distrib)
  qed simp
  from this [of "pb_steps pb"] assms(4) show ?thesis
    by (simp add: pinball_step_def Let_def)
qed

theorem pinball_speed_bounded_witness:
  "\<exists>x' y' xd' yd'. pinball_step \<lparr>pb_tau = 0.05, pb_steps = 5, pb_restitution = 0.5, pb_radius = 0.01, pb_maze = 0\<rparr>
      [0.1, 0.1, 0, 0, 0] [3, 4] = Inr (0.05, [x', y', xd', yd', 0.05]) \<and> pt_d (xd', yd') \<le> 0.25"
  using pinball_speed_bounded [of "\<lparr>pb_tau = 0.05, pb_steps = 5, pb_restitution = 0.5, pb_radius = 0.01,
      pb_maze = 0\<rparr>" "0.1" "0.1" 0 0 0 3 4]
  by (simp add: pt_d_def)

lemma pt_d_less: "0 < x \<Longrightarrow> pt_d p < x \<longleftrightarrow> fst p * fst p + snd p * snd p < x * x"
  by (metis pt_d_def real_sqrt_abs2 abs_of_pos real_sqrt_less_iff)

text \<open>sides do not reach around their first end. The position along a side is taken from the length of
  the elementwise product instead of its sum: it is never negative, so that the case of a ball off the
  first end does not occur. A ball that overlaps the upper left corner of the first obstacle is not in
  collision with the side that leads down from it.\<close>

theorem first_end_missed:
  "0 \<le> side_t a b p \<and> ((0.2, 0.8), (0.2, 0)) \<in> set (obstacle_sides (pinball_obstacles 0 ! 1)) \<and>
   pt_d (pt_sub (0.195, 0.805) (0.2, 0.8)) < 0.01 \<and>
   \<not> side_distance (0.2, 0.8) (0.2, 0) (0.195, 0.805) < 0.01"
proof (intro conjI)
  show "0 \<le> side_t a b p" by (simp add: side_t_def pt_d_def Let_def)
  show "((0.2, 0.8), (0.2, 0)) \<in> set (obstacle_sides (pinball_obstacles 0 ! 1))"
    by (simp add: obstacle_sides_def pinball_obstacles_def)
  show "pt_d (pt_sub (0.195, 0.805) (0.2, 0.8)) < 0.01"
    by (subst pt_d_less) (simp_all add: pt_sub_def)
  have r: "sqrt (1 / 62500) = 1 / 250" by (rule real_sqrt_unique) (simp_all add: power2_eq_square)
  have t: "side_t (0.2, 0.8) (0.2, 0) (0.195, 0.805) = 1 / 160"
    by (simp add: r side_t_def pt_d_def pt_sub_def pt_mul_def)
  have f: "\<not> (1 / 160 :: real) < 0" "\<not> 1 < (1 / 160 :: real)" by simp_all
  show "\<not> side_distance (0.2, 0.8) (0.2, 0) (0.195, 0.805) < 0.01"
    unfolding side_distance_def t Let_def if_not_P [OF f(1)] if_not_P [OF f(2)]
    by (subst pt_d_less) (simp_all add: pt_sub_def pt_add_def pt_scale_def)
qed

section \<open>Typed episodes\<close>

lemma acrobot_eom_total: "length u = 1 \<Longrightarrow> eom_total 5 acrobot_eom u"
  by (simp add: eom_total_def acrobot_eom_def Let_def)

lemma double_pole_eom_total: "length u = 1 \<Longrightarrow> eom_total 7 (double_pole_eom double_pole_configure) u"
  using less_imp_neq [OF double_pole_det, symmetric]
  by (auto simp: eom_total_def double_pole_eom_def Let_def split: prod.splits)

lemma flyer_eom_total: "length u = 2 \<Longrightarrow> eom_total 7 flyer_eom u"
  by (simp add: eom_total_def flyer_eom_def Let_def)

lemma integrator_eom_total: "length u = 1 \<Longrightarrow> 0 < order \<Longrightarrow> eom_total (order + 1) (integrator_eom order) u"
  by (simp add: eom_total_def integrator_eom_def)

interpretation acrobot: typed_world "dynamical_step acrobot_eom tau steps" acrobot_task
  "\<lambda>x. length x = 5" "\<lambda>a. length (a_v a) = 1" 4 for tau steps
proof unfold_locales
  fix p x :: dvec and a :: action assume x: "length x = 5" and a: "length (a_v a) = 1"
  from dynamical_total [OF acrobot_eom_total [OF a] x, of tau steps]
  show "\<exists>u t x'. tk_actuate acrobot_task p x a = Inr (True, u) \<and>
      dynamical_step acrobot_eom tau steps x u = Inr (t, x') \<and> length x' = 5"
    by (simp add: acrobot_task_def default_actuate_def)
qed (auto simp: acrobot_task_def acrobot_start_def acrobot_observe_def acrobot_evaluate_def Let_def
    split: prod.splits)

interpretation double_balancing: typed_world "dynamical_step (double_pole_eom double_pole_configure) tau steps"
  "double_balancing_task timeout" "\<lambda>x. length x = 7" "\<lambda>a. length (a_v a) = 1" 6 for tau steps timeout
proof unfold_locales
  fix p x :: dvec and a :: action assume x: "length x = 7" and a: "length (a_v a) = 1"
  from dynamical_total [OF double_pole_eom_total [OF a] x, of tau steps]
  show "\<exists>u t x'. tk_actuate (double_balancing_task timeout) p x a = Inr (True, u) \<and>
      dynamical_step (double_pole_eom double_pole_configure) tau steps x u = Inr (t, x') \<and> length x' = 7"
    by (simp add: double_balancing_task_def default_actuate_def)
qed (auto simp: double_balancing_task_def double_balancing_start_def double_balancing_observe_def
    double_balancing_evaluate_def Let_def split: prod.splits)

lemma length_5: "length x = 5 \<Longrightarrow> \<exists>a b c d e. x = [a, b, c, d, e]"
  by (auto simp: numeral_eq_Suc length_Suc_conv)

interpretation pinball: typed_world "pinball_step pb" "pinball_task tolerance"
  "\<lambda>x. length x = 5" "\<lambda>a. length (a_v a) = 2" 4 for pb tolerance
proof unfold_locales
  fix p x :: dvec and a :: action assume x: "length x = 5" and a: "length (a_v a) = 2"
  from length_5 [OF x] obtain x0 x1 x2 x3 x4 where "x = [x0, x1, x2, x3, x4]" by blast
  moreover obtain u v where "a_v a = [u, v]" using a by (auto simp: numeral_2_eq_2 length_Suc_conv)
  ultimately show "\<exists>u t x'. tk_actuate (pinball_task tolerance) p x a = Inr (True, u) \<and>
      pinball_step pb x u = Inr (t, x') \<and> length x' = 5"
    by (simp add: pinball_task_def default_actuate_def pinball_step_def Let_def)
qed (auto simp: pinball_task_def pinball_start_def pinball_observe_def pinball_evaluate_def Let_def)

text \<open>acrobot, two-pole balancing and the maze are typed as well. From any random start, no sequence of
  actions of the right size makes their episodes fail; every observation has the world's width, and is
  absorbing exactly if the terminal flag is 2.\<close>

theorem more_worlds_typed:
  "episodes_typed (dynamical_step acrobot_eom tau steps) acrobot_task (\<lambda>a. length (a_v a) = 1) 4 \<and>
   episodes_typed (dynamical_step (double_pole_eom double_pole_configure) tau steps) (double_balancing_task timeout)
     (\<lambda>a. length (a_v a) = 1) 6 \<and>
   episodes_typed (pinball_step pb) (pinball_task tolerance) (\<lambda>a. length (a_v a) = 2) 4"
  by (intro conjI acrobot.episodes_ok double_balancing.episodes_ok pinball.episodes_ok)
    (simp_all add: acrobot_task_def acrobot_start_def double_balancing_task_def double_balancing_start_def
      pinball_task_def pinball_start_def Let_def case_prod_unfold)

end
