(* ===== verification/MultiAgent.thy ===== *)
theory MultiAgent
  imports Transitions Prelude
begin

text \<open>
  The environment that serves several agents from a simulation in a thread of its own
  (\<open>base/{include/grl,src}/environments/multi_agent.{h,cpp}\<close>): the protocol between the threads of the
  agents, which call \<open>start\<close> and \<open>step\<close>, and the thread of the simulation, which calls
  \<open>getAgentAction\<close> and \<open>stopAgents\<close>, as a step relation that interleaves them.

  A shared variable is a mailbox: writing replaces its content, reading waits for one and removes it.
  What a call does between two waits is one step. A busy wait is a step that is not possible yet; a failed assertion is no step at all. The assertion of
  \<open>start\<close> and \<open>step\<close> is on the identity of the calling thread. Every thread calls \<open>start\<close> before its first
  \<open>step\<close>, as the experiments do: a thread without an identity does not step.
\<close>

section \<open>State\<close>

datatype agent_state = asReady | asRunning | asTerminated | asStopped

record agent_msg =
  am_obs :: observation
  am_reward :: real
  am_terminal :: int

text \<open>Where the call of a thread waits: for its first observation, or for the answer to an action.\<close>

datatype agent_phase = Outside | Starting | Acting

text \<open>The simulation is running, waits for an action, or stops agent \<open>ii\<close>: before and after the message.\<close>

datatype sim_phase = Simulating | AwaitAction nat | StopReady nat | StopWait nat

record multi_agent =
  ma_agents :: nat                       \<comment> \<open>identities given so far\<close>
  ma_id :: "nat \<Rightarrow> nat"                  \<comment> \<open>by thread; 0 is none\<close>
  ma_state :: "agent_state list"
  ma_observation :: "agent_msg option list"
  ma_action :: "action option list"
  ma_phase :: "nat \<Rightarrow> agent_phase"
  ma_sim :: sim_phase

definition prepareAgents :: "nat \<Rightarrow> multi_agent \<Rightarrow> multi_agent" where
  "prepareAgents n m = m\<lparr>ma_state := replicate n asReady, ma_observation := replicate n None,
                        ma_action := replicate n None\<rparr>"

text \<open>After construction, with \<open>n\<close> agents prepared.\<close>

definition multi_agent_init :: "nat \<Rightarrow> multi_agent" where
  "multi_agent_init n =
     prepareAgents n \<lparr>ma_agents = 0, ma_id = (\<lambda>_. 0), ma_state = [], ma_observation = [], ma_action = [],
                      ma_phase = (\<lambda>_. Outside), ma_sim = Simulating\<rparr>"

definition set_state :: "nat \<Rightarrow> agent_state \<Rightarrow> multi_agent \<Rightarrow> multi_agent" where
  "set_state i s m = m\<lparr>ma_state := (ma_state m)[i := s]\<rparr>"

definition write_observation :: "nat \<Rightarrow> agent_msg \<Rightarrow> multi_agent \<Rightarrow> multi_agent" where
  "write_observation i msg m = m\<lparr>ma_observation := (ma_observation m)[i := Some msg]\<rparr>"

definition clear_observation :: "nat \<Rightarrow> multi_agent \<Rightarrow> multi_agent" where
  "clear_observation i m = m\<lparr>ma_observation := (ma_observation m)[i := None]\<rparr>"

definition write_action :: "nat \<Rightarrow> action option \<Rightarrow> multi_agent \<Rightarrow> multi_agent" where
  "write_action i a m = m\<lparr>ma_action := (ma_action m)[i := a]\<rparr>"

definition set_phase :: "nat \<Rightarrow> agent_phase \<Rightarrow> multi_agent \<Rightarrow> multi_agent" where
  "set_phase t p m = m\<lparr>ma_phase := (ma_phase m)(t := p)\<rparr>"

section \<open>Agent threads\<close>

text \<open>The first call of \<open>start\<close> in a thread gives it the next identity.\<close>

inductive agent_step :: "multi_agent \<Rightarrow> multi_agent \<Rightarrow> bool" where
  enroll: "ma_id m t = 0 \<Longrightarrow>
    agent_step m (m\<lparr>ma_agents := ma_agents m + 1, ma_id := (ma_id m)(t := ma_agents m + 1)\<rparr>)"
| start: "ma_id m t \<noteq> 0 \<Longrightarrow> ma_phase m t = Outside \<Longrightarrow> ma_id m t < length (ma_state m) \<Longrightarrow>
    ma_state m ! ma_id m t = asReady \<Longrightarrow>
    agent_step m (set_phase t Starting (set_state (ma_id m t) asRunning m))"
| started: "ma_phase m t = Starting \<Longrightarrow> ma_id m t < length (ma_observation m) \<Longrightarrow>
    ma_observation m ! ma_id m t = Some msg \<Longrightarrow>
    agent_step m (set_phase t Outside (clear_observation (ma_id m t)
      (if am_terminal msg \<noteq> 0 then set_state (ma_id m t) asTerminated m else m)))"
| act: "ma_id m t \<noteq> 0 \<Longrightarrow> ma_phase m t = Outside \<Longrightarrow> ma_id m t < length (ma_state m) \<Longrightarrow>
    ma_state m ! ma_id m t = asRunning \<Longrightarrow>
    agent_step m (set_phase t Acting (write_action (ma_id m t) (Some a) m))"
| acted: "ma_phase m t = Acting \<Longrightarrow> ma_id m t < length (ma_observation m) \<Longrightarrow>
    ma_observation m ! ma_id m t = Some msg \<Longrightarrow>
    agent_step m (set_phase t Outside (clear_observation (ma_id m t)
      (if am_terminal msg \<noteq> 0 then set_state (ma_id m t) asStopped m else m)))"
| idle: "ma_id m t \<noteq> 0 \<Longrightarrow> ma_phase m t = Outside \<Longrightarrow> ma_id m t < length (ma_state m) \<Longrightarrow>
    ma_state m ! ma_id m t \<noteq> asRunning \<Longrightarrow>
    agent_step m (set_state (ma_id m t) asStopped m)"   \<comment> \<open>\<open>step\<close> of an agent that does not run\<close>

section \<open>The simulation\<close>

definition stop_message :: agent_msg where
  "stop_message = \<lparr>am_obs = no_obs, am_reward = 0, am_terminal = 2\<rparr>"

text \<open>\<open>getAgentAction\<close> waits for an action only if it is given a place for it, \<open>wants\<close>.\<close>

inductive sim_step :: "multi_agent \<Rightarrow> multi_agent \<Rightarrow> bool" where
  give: "ma_sim m = Simulating \<Longrightarrow> k < length (ma_state m) \<Longrightarrow>
    ma_state m ! k \<noteq> asTerminated \<Longrightarrow> ma_state m ! k \<noteq> asStopped \<Longrightarrow>
    sim_step m ((write_observation k msg
        (if am_terminal msg \<noteq> 0 then set_state k asTerminated m else m))
      \<lparr>ma_sim := if am_terminal msg \<noteq> 0 \<or> \<not> wants then Simulating else AwaitAction k\<rparr>)"
| take: "ma_sim m = AwaitAction k \<Longrightarrow> k < length (ma_action m) \<Longrightarrow> ma_action m ! k = Some a \<Longrightarrow>
    sim_step m ((write_action k None m)\<lparr>ma_sim := Simulating\<rparr>)"
| stop: "ma_sim m = Simulating \<Longrightarrow> sim_step m (m\<lparr>ma_sim := StopReady 0\<rparr>)"
| stop_agent: "ma_sim m = StopReady ii \<Longrightarrow> ii < length (ma_state m) \<Longrightarrow> ma_state m ! ii \<noteq> asReady \<Longrightarrow>
    sim_step m ((if ma_state m ! ii = asRunning
        then write_observation ii stop_message (set_state ii asTerminated m) else m)
      \<lparr>ma_sim := StopWait ii\<rparr>)"
| stopped: "ma_sim m = StopWait ii \<Longrightarrow> ii < length (ma_state m) \<Longrightarrow> ma_state m ! ii = asStopped \<Longrightarrow>
    sim_step m (m\<lparr>ma_sim := StopReady (Suc ii)\<rparr>)"
| next_episode: "ma_sim m = StopReady ii \<Longrightarrow> length (ma_state m) \<le> ii \<Longrightarrow>
    sim_step m ((prepareAgents (length (ma_state m)) m)\<lparr>ma_sim := Simulating\<rparr>)"

definition multi_step :: "multi_agent \<Rightarrow> multi_agent \<Rightarrow> bool" where
  "multi_step m m' \<longleftrightarrow> agent_step m m' \<or> sim_step m m'"

section \<open>Agent 0\<close>

text \<open>Identities start at 1, so no agent ever acts for entry 0.\<close>

definition zero_idle :: "multi_agent \<Rightarrow> bool" where
  "zero_idle m \<longleftrightarrow> (\<forall>t. ma_id m t = 0 \<longrightarrow> ma_phase m t = Outside) \<and>
     length (ma_action m) = length (ma_state m) \<and> length (ma_observation m) = length (ma_state m) \<and>
     ma_state m \<noteq> [] \<and> ma_action m ! 0 = None \<and> ma_state m ! 0 \<in> {asReady, asTerminated} \<and>
     (\<forall>ii. ma_sim m = StopReady ii \<or> ma_sim m = StopWait ii \<longrightarrow> ii = 0)"

lemma setters [simp]:
  "ma_agents (set_state i s m) = ma_agents m" "ma_id (set_state i s m) = ma_id m"
  "ma_state (set_state i s m) = (ma_state m)[i := s]" "ma_observation (set_state i s m) = ma_observation m"
  "ma_action (set_state i s m) = ma_action m" "ma_phase (set_state i s m) = ma_phase m"
  "ma_sim (set_state i s m) = ma_sim m"
  "ma_id (write_observation i x m) = ma_id m" "ma_state (write_observation i x m) = ma_state m"
  "ma_observation (write_observation i x m) = (ma_observation m)[i := Some x]"
  "ma_action (write_observation i x m) = ma_action m" "ma_phase (write_observation i x m) = ma_phase m"
  "ma_sim (write_observation i x m) = ma_sim m"
  "ma_id (clear_observation i m) = ma_id m" "ma_state (clear_observation i m) = ma_state m"
  "ma_observation (clear_observation i m) = (ma_observation m)[i := None]"
  "ma_action (clear_observation i m) = ma_action m" "ma_phase (clear_observation i m) = ma_phase m"
  "ma_sim (clear_observation i m) = ma_sim m"
  "ma_id (write_action i a m) = ma_id m" "ma_state (write_action i a m) = ma_state m"
  "ma_observation (write_action i a m) = ma_observation m" "ma_action (write_action i a m) = (ma_action m)[i := a]"
  "ma_phase (write_action i a m) = ma_phase m" "ma_sim (write_action i a m) = ma_sim m"
  "ma_id (set_phase t p m) = ma_id m" "ma_state (set_phase t p m) = ma_state m"
  "ma_observation (set_phase t p m) = ma_observation m" "ma_action (set_phase t p m) = ma_action m"
  "ma_phase (set_phase t p m) = (ma_phase m)(t := p)" "ma_sim (set_phase t p m) = ma_sim m"
  by (simp_all add: set_state_def write_observation_def clear_observation_def write_action_def set_phase_def)

lemma agent_step_idle: "agent_step m m' \<Longrightarrow> zero_idle m \<Longrightarrow> zero_idle m'"
proof (induction rule: agent_step.induct)
  case (started m t msg)
  then have "ma_id m t \<noteq> 0" by (auto simp: zero_idle_def)
  with started show ?case by (auto simp: zero_idle_def)
next
  case (acted m t msg)
  then have "ma_id m t \<noteq> 0" by (auto simp: zero_idle_def)
  with acted show ?case by (auto simp: zero_idle_def)
qed (auto simp: zero_idle_def)

lemma sim_step_idle: "sim_step m m' \<Longrightarrow> zero_idle m \<Longrightarrow> zero_idle m'"
proof (induction rule: sim_step.induct)
  case (next_episode m ii)
  then show ?case by (auto simp: zero_idle_def prepareAgents_def)
next
  case (stopped m ii)
  then show ?case by (auto simp: zero_idle_def)
qed (auto simp: zero_idle_def nth_list_update)

lemma multi_agent_idle:
  assumes "multi_step\<^sup>*\<^sup>* (multi_agent_init n) m" and "0 < n"
  shows "zero_idle m"
  using assms(1)
proof (induction rule: rtranclp_induct)
  case base
  then show ?case using assms(2) by (auto simp: zero_idle_def multi_agent_init_def prepareAgents_def)
next
  case (step m m')
  then show ?case using agent_step_idle sim_step_idle by (auto simp: multi_step_def)
qed

text \<open>C20: the first agent is never served. The threads of the agents use their identities, which start at
  1, as positions in the state of the agents. Whatever the interleaving of the agents' calls and the
  simulation, no agent ever starts or acts in position 0: a simulation that asks for the action of agent 0
  stays in that call forever, and one that stops its agents never gets past agent 0.\<close>

theorem first_agent_never_served:
  assumes "multi_step\<^sup>*\<^sup>* (multi_agent_init n) m" and "0 < n"
  shows "ma_state m ! 0 \<noteq> asRunning \<and> (\<forall>ii > 0. ma_sim m \<noteq> StopReady ii) \<and>
    (ma_sim m = AwaitAction 0 \<longrightarrow> (\<forall>m'. multi_step m m' \<longrightarrow> ma_sim m' = AwaitAction 0))"
proof -
  note z = multi_agent_idle [OF assms]
  have "ma_sim m' = AwaitAction 0" if "ma_sim m = AwaitAction 0" "multi_step m m'" for m'
  proof -
    have "\<not> sim_step m m'"
      using that(1) z by (auto elim!: sim_step.cases simp: zero_idle_def)
    then have "agent_step m m'" using that(2) by (simp add: multi_step_def)
    then show ?thesis using that(1) by (induction rule: agent_step.induct) auto
  qed
  then show ?thesis using z by (auto simp: zero_idle_def)
qed

theorem first_agent_never_served_witness:
  "\<exists>m. multi_step\<^sup>*\<^sup>* (multi_agent_init 1) m \<and> ma_sim m = AwaitAction 0 \<and>
    (\<forall>m'. multi_step m m' \<longrightarrow> ma_sim m' = AwaitAction 0)"
proof -
  let ?i = "multi_agent_init 1" and ?msg = "\<lparr>am_obs = no_obs, am_reward = 0, am_terminal = 0\<rparr>"
  obtain m where m: "sim_step ?i m" "ma_sim m = AwaitAction 0"
    using sim_step.give [of ?i 0 ?msg True] by (auto simp: multi_agent_init_def prepareAgents_def)
  then have "multi_step\<^sup>*\<^sup>* ?i m" by (auto simp: multi_step_def)
  from first_agent_never_served [OF this] m(2) this show ?thesis by auto
qed

end
