(* ===== verification/WrappedEnvironments.thy ===== *)
theory WrappedEnvironments
  imports Environments
begin

text \<open>
  Environments around environments (\<open>base/src/environments/\<close>): additive noise (\<open>noise.cpp\<close>),
  potential-based shaping (\<open>shaping.cpp\<close>), and the environment that runs a sandbox model
  (\<open>sandbox.cpp\<close>), whose state is inside the model as well.

  The environment inside is a parameter, as the operations \<open>env_ops\<close> on its state \<open>'s\<close>. Exporters,
  signals and reports are left out; the noise draws from a generator of its own, not from the one shared
  with the environment.
\<close>

record 's env_ops =
  ev_start :: "int \<Rightarrow> observation \<Rightarrow> 's \<Rightarrow> (observation \<times> 's) res"
  ev_step :: "action \<Rightarrow> observation \<Rightarrow> 's \<Rightarrow> (step_result \<times> 's) res option"

section \<open>Noise\<close>

record 's noisy =
  ny_sensor :: dvec
  ny_actuator :: dvec
  ny_rand :: rand
  ny_env :: 's

text \<open>A single deviation stands for all dimensions from the first use on.\<close>

definition noise_for :: "dvec \<Rightarrow> nat \<Rightarrow> dvec" where
  "noise_for noise n = (if length noise = 1 \<and> 1 < n then ConstantVector n (hd noise) else noise)"

fun add_normals :: "dvec \<Rightarrow> dvec \<Rightarrow> rand \<Rightarrow> (dvec \<times> rand) res" where
  "add_normals (x # xs) (s # ss) g =
     (let (d, g) = getNormal 0 s g
      in chain (finite_real d) (\<lambda>y. chain (add_normals xs ss g) (\<lambda>(ys, g). Inr ((x + y) # ys, g))))"
| "add_normals _ _ g = Inr ([], g)"

definition noisy_start :: "'s env_ops \<Rightarrow> int \<Rightarrow> observation \<Rightarrow> 's noisy \<Rightarrow> (observation \<times> 's noisy) res" where
  "noisy_start ev test obs e =
     chain (ev_start ev test obs (ny_env e)) (\<lambda>(obs, s).
     let sensor = noise_for (ny_sensor e) (length (o_v obs))
     in if length sensor \<noteq> length (o_v obs) then Inl RepBadParam
        else chain (add_normals (o_v obs) sensor (ny_rand e)) (\<lambda>(v, g).
          Inr (obs\<lparr>o_v := v\<rparr>, e\<lparr>ny_sensor := sensor, ny_rand := g, ny_env := s\<rparr>)))"

definition noisy_sense :: "(step_result \<times> 's) res \<Rightarrow> 's noisy \<Rightarrow> (step_result \<times> 's noisy) res" where
  "noisy_sense r e =
     chain r (\<lambda>(sr, s).
     let v = o_v (sr_obs sr)
     in if length (ny_sensor e) \<noteq> length v then Inl RepBadParam
        else chain (add_normals v (ny_sensor e) (ny_rand e)) (\<lambda>(v, g).
          Inr (sr\<lparr>sr_obs := (sr_obs sr)\<lparr>o_v := v\<rparr>\<rparr>, e\<lparr>ny_rand := g, ny_env := s\<rparr>)))"

definition noisy_step ::
    "'s env_ops \<Rightarrow> action \<Rightarrow> observation \<Rightarrow> 's noisy \<Rightarrow> (step_result \<times> 's noisy) res option" where
  "noisy_step ev a obs e =
     (let actuator = noise_for (ny_actuator e) (length (a_v a))
      in if length actuator \<noteq> length (a_v a) then Some (Inl RepBadParam)
         else (case add_normals (a_v a) actuator (ny_rand e) of
           Inl err \<Rightarrow> Some (Inl err)
         | Inr (v, g) \<Rightarrow>
             map_option (\<lambda>r. noisy_sense r (e\<lparr>ny_actuator := actuator, ny_rand := g\<rparr>))
               (ev_step ev (Action v atUndefined) obs (ny_env e))))"

section \<open>Shaping\<close>

record 's shaped =
  sh_prev_obs :: observation
  sh_total_reward :: real
  sh_env :: 's

definition shaped_copy :: "'s shaped \<Rightarrow> 's shaped \<Rightarrow> 's shaped" where
  "shaped_copy e obj = e\<lparr>sh_prev_obs := sh_prev_obs obj, sh_total_reward := sh_total_reward obj\<rparr>"

definition shaped_start :: "'s env_ops \<Rightarrow> int \<Rightarrow> observation \<Rightarrow> 's shaped \<Rightarrow> (observation \<times> 's shaped) res" where
  "shaped_start ev test obs e =
     chain (ev_start ev test obs (sh_env e)) (\<lambda>(obs, s).
       Inr (obs, e\<lparr>sh_env := s, sh_prev_obs := obs, sh_total_reward := 0\<rparr>))"

definition shape_result ::
    "(dvec \<Rightarrow> real res) \<Rightarrow> real \<Rightarrow> (step_result \<times> 's) res \<Rightarrow> 's shaped \<Rightarrow> (step_result \<times> 's shaped) res" where
  "shape_result potential gamma r e =
     chain r (\<lambda>(sr, s).
     chain (potential (o_v (sr_obs sr))) (\<lambda>p.
     chain (potential (o_v (sh_prev_obs e))) (\<lambda>q.
       Inr (sr\<lparr>sr_reward := sr_reward sr + (c_pow gamma (sr_tau sr) * p - q)\<rparr>,
            e\<lparr>sh_env := s, sh_total_reward := sh_total_reward e + sr_reward sr, sh_prev_obs := sr_obs sr\<rparr>))))"

definition shaped_step ::
    "'s env_ops \<Rightarrow> (dvec \<Rightarrow> real res) \<Rightarrow> real \<Rightarrow> action \<Rightarrow> observation \<Rightarrow> 's shaped \<Rightarrow>
     (step_result \<times> 's shaped) res option" where
  "shaped_step ev potential gamma a obs e =
     map_option (\<lambda>r. shape_result potential gamma r e) (ev_step ev a obs (sh_env e))"

section \<open>Sandbox\<close>

text \<open>\<open>sx_start\<close> may change the start state, \<open>sx_step\<close> advances the state it is given.\<close>

record 'b sandbox_ops =
  sx_start :: "dvec \<Rightarrow> dvec \<Rightarrow> 'b \<Rightarrow> (dvec \<times> 'b) res"
  sx_step :: "dvec \<Rightarrow> dvec \<Rightarrow> 'b \<Rightarrow> (real \<times> dvec \<times> 'b) res"

record 'b sandbox_env =
  sb_discrete_time :: int
  sb_state :: dvec
  sb_obs :: observation
  sb_test :: int
  sb_time_test :: real
  sb_time_learn :: real
  sb_prev_time_test :: real
  sb_rand :: rand
  sb_sandbox :: 'b

definition sandbox_reset :: "'b sandbox_env \<Rightarrow> 'b sandbox_env" where
  "sandbox_reset e = e\<lparr>sb_time_learn := 0, sb_time_test := 0\<rparr>"

definition sandbox_copy :: "'b sandbox_env \<Rightarrow> 'b sandbox_env \<Rightarrow> 'b sandbox_env" where
  "sandbox_copy e obj = e\<lparr>sb_obs := sb_obs obj, sb_test := sb_test obj\<rparr>"

definition sandbox_start ::
    "'b sandbox_ops \<Rightarrow> task \<Rightarrow> int \<Rightarrow> observation \<Rightarrow> 'b sandbox_env \<Rightarrow> (observation \<times> 'b sandbox_env) res" where
  "sandbox_start sx task test obs e =
     chain (tk_start task test (sb_rand e)) (\<lambda>(state, g).
     chain (sx_start sx [real_of_int test] state (sb_sandbox e)) (\<lambda>(state, b).
     chain (tk_observe task state obs) (\<lambda>(obs, terminal).
       Inr (obs, e\<lparr>sb_state := state, sb_obs := obs, sb_test := test, sb_prev_time_test := sb_time_test e,
                   sb_rand := g, sb_sandbox := b\<rparr>))))"

text \<open>The loop until the task asks for a new action.\<close>

partial_function (option) sandbox_loop ::
    "'b sandbox_ops \<Rightarrow> task \<Rightarrow> dvec \<Rightarrow> action \<Rightarrow> dvec \<Rightarrow> dvec \<Rightarrow> real \<Rightarrow> 'b \<Rightarrow> (real \<times> dvec \<times> 'b) res option" where
  "sandbox_loop sx task prev a state actuation tau b =
     (case chain (sx_step sx actuation state b) (\<lambda>(t, state, b).
             chain (tk_actuate task prev state a) (\<lambda>(done, actuation).
               Inr (tau + t, state, b, done, actuation))) of
        Inl e \<Rightarrow> Some (Inl e)
      | Inr (tau, state, b, done, actuation) \<Rightarrow>
          if done then Some (Inr (tau, state, b))
          else sandbox_loop sx task prev a state actuation tau b)"

definition sandbox_finish ::
    "task \<Rightarrow> action \<Rightarrow> observation \<Rightarrow> real \<Rightarrow> dvec \<Rightarrow> 'b \<Rightarrow> 'b sandbox_env \<Rightarrow> (step_result \<times> 'b sandbox_env) res" where
  "sandbox_finish task a obs tau next_state b e =
     chain (tk_observe task next_state obs) (\<lambda>(obs, terminal).
     chain (tk_evaluate task (sb_state e) a next_state) (\<lambda>reward.
     let e = (if sb_test e \<noteq> 0 then e\<lparr>sb_time_test := sb_time_test e + tau\<rparr>
              else e\<lparr>sb_time_learn := sb_time_learn e + tau\<rparr>);
         e = e\<lparr>sb_state := next_state, sb_obs := obs, sb_sandbox := b\<rparr>
     in Inr (\<lparr>sr_tau = if sb_discrete_time e \<noteq> 0 then 1 else tau, sr_obs = obs,
              sr_reward = reward, sr_terminal = terminal\<rparr>, e)))"

definition sandbox_step ::
    "'b sandbox_ops \<Rightarrow> task \<Rightarrow> action \<Rightarrow> observation \<Rightarrow> 'b sandbox_env \<Rightarrow> (step_result \<times> 'b sandbox_env) res option" where
  "sandbox_step sx task a obs e =
     (case tk_actuate task (sb_state e) (sb_state e) a of
        Inl err \<Rightarrow> Some (Inl err)
      | Inr (_, actuation) \<Rightarrow>
          map_option (\<lambda>r. chain r (\<lambda>(tau, next_state, b). sandbox_finish task a obs tau next_state b e))
            (sandbox_loop sx task (sb_state e) a (sb_state e) actuation 0 (sb_sandbox e)))"

text \<open>The time that \<open>report\<close> prints: since the last start of an episode.\<close>

definition sandbox_report :: "'b sandbox_env \<Rightarrow> real" where
  "sandbox_report e = sb_time_test e - sb_prev_time_test e"

end
