(* ===== verification/ShapingFacts.thy ===== *)
theory ShapingFacts
  imports WrappedEnvironments
begin

text \<open>
  Shaping changes the discounted return of every episode by the same kind of term, the difference of the
  potential between its ends; noise keeps the sizes of observations.
\<close>

section \<open>Episodes\<close>

fun wrapped_run ::
    "(action \<Rightarrow> observation \<Rightarrow> 's \<Rightarrow> (step_result \<times> 's) res option) \<Rightarrow> action list \<Rightarrow> observation \<Rightarrow> 's \<Rightarrow>
     (step_result list \<times> 's) res option" where
  "wrapped_run stp [] obs e = Some (Inr ([], e))"
| "wrapped_run stp (a # as) obs e =
     (case stp a obs e of
        None \<Rightarrow> None
      | Some (Inl err) \<Rightarrow> Some (Inl err)
      | Some (Inr (r, e)) \<Rightarrow>
          map_option (\<lambda>x. chain x (\<lambda>(rs, e). Inr (r # rs, e))) (wrapped_run stp as (sr_obs r) e))"

text \<open>The discounted sum of rewards, and the discount of the whole episode.\<close>

fun discounted :: "real \<Rightarrow> step_result list \<Rightarrow> real" where
  "discounted gamma [] = 0"
| "discounted gamma (r # rs) = sr_reward r + c_pow gamma (sr_tau r) * discounted gamma rs"

fun discount_of :: "real \<Rightarrow> step_result list \<Rightarrow> real" where
  "discount_of gamma [] = 1"
| "discount_of gamma (r # rs) = c_pow gamma (sr_tau r) * discount_of gamma rs"

definition last_obs :: "observation \<Rightarrow> step_result list \<Rightarrow> observation" where
  "last_obs obs rs = (if rs = [] then obs else sr_obs (last rs))"

section \<open>Shaping\<close>

lemma shaped_step_Inr:
  assumes "shaped_step ev potential gamma a obs e = Some (Inr (r, e'))"
  shows "\<exists>r0 p q. ev_step ev a obs (sh_env e) = Some (Inr (r0, sh_env e')) \<and>
    potential (o_v (sr_obs r0)) = Inr p \<and> potential (o_v (sh_prev_obs e)) = Inr q \<and>
    r = r0\<lparr>sr_reward := sr_reward r0 + (c_pow gamma (sr_tau r0) * p - q)\<rparr> \<and>
    sh_prev_obs e' = sr_obs r0 \<and> sh_total_reward e' = sh_total_reward e + sr_reward r0"
  using assms by (auto simp: shaped_step_def shape_result_def chain_Inr)

lemma shaped_run:
  assumes "wrapped_run (shaped_step ev potential gamma) as obs e = Some (Inr (rs, e'))"
    and "potential (o_v (sh_prev_obs e)) = Inr q"
  shows "\<exists>rs0 p. wrapped_run (ev_step ev) as obs (sh_env e) = Some (Inr (rs0, sh_env e')) \<and>
    potential (o_v (last_obs (sh_prev_obs e) rs0)) = Inr p \<and> map sr_obs rs = map sr_obs rs0 \<and>
    discounted gamma rs = discounted gamma rs0 + discount_of gamma rs0 * p - q \<and>
    sh_total_reward e' = sh_total_reward e + sum_list (map sr_reward rs0)"
  using assms
proof (induction as arbitrary: obs e rs q)
  case Nil
  then show ?case by (auto simp: last_obs_def)
next
  case (Cons a as)
  from Cons.prems(1) obtain r e1 rs1 where s: "shaped_step ev potential gamma a obs e = Some (Inr (r, e1))"
    "wrapped_run (shaped_step ev potential gamma) as (sr_obs r) e1 = Some (Inr (rs1, e'))" "rs = r # rs1"
    by (auto simp: chain_Inr split: option.splits sum.splits)
  from shaped_step_Inr [OF s(1)] obtain r0 p0 q0 where r0:
    "ev_step ev a obs (sh_env e) = Some (Inr (r0, sh_env e1))"
    "potential (o_v (sr_obs r0)) = Inr p0" "potential (o_v (sh_prev_obs e)) = Inr q0"
    "r = r0\<lparr>sr_reward := sr_reward r0 + (c_pow gamma (sr_tau r0) * p0 - q0)\<rparr>"
    "sh_prev_obs e1 = sr_obs r0" "sh_total_reward e1 = sh_total_reward e + sr_reward r0" by blast
  have q: "q0 = q" using r0(3) Cons.prems(2) by simp
  have "potential (o_v (sh_prev_obs e1)) = Inr p0" using r0(2,5) by simp
  from Cons.IH [OF s(2) this] obtain rs0 p where rs0:
    "wrapped_run (ev_step ev) as (sr_obs r) (sh_env e1) = Some (Inr (rs0, sh_env e'))"
    "potential (o_v (last_obs (sh_prev_obs e1) rs0)) = Inr p" "map sr_obs rs1 = map sr_obs rs0"
    "discounted gamma rs1 = discounted gamma rs0 + discount_of gamma rs0 * p - p0"
    "sh_total_reward e' = sh_total_reward e1 + sum_list (map sr_reward rs0)" by blast
  have "wrapped_run (ev_step ev) (a # as) obs (sh_env e) = Some (Inr (r0 # rs0, sh_env e'))"
    using r0(1,4) rs0(1) by simp
  moreover have "last_obs (sh_prev_obs e) (r0 # rs0) = last_obs (sh_prev_obs e1) rs0"
    using r0(5) by (simp add: last_obs_def)
  moreover have "discounted gamma rs = discounted gamma (r0 # rs0) + discount_of gamma (r0 # rs0) * p - q"
    unfolding s(3) by (simp add: rs0(4) r0(4) q) (simp add: algebra_simps)
  moreover have "sh_total_reward e' = sh_total_reward e + sum_list (map sr_reward (r0 # rs0))"
    using rs0(5) r0(6) by simp
  moreover have "map sr_obs rs = map sr_obs (r0 # rs0)" using rs0(3) s(3) r0(4) by simp
  ultimately show ?case
    using rs0(2) by (intro exI [of _ "r0 # rs0"] exI [of _ p]) simp
qed

text \<open>C19: shaping only moves potential. Running any actions in the shaped environment runs them in the
  environment inside, with the same observations; the discounted return of the shaped rewards is that of
  the rewards inside, plus the discounted potential of the last observation, minus that of the observation
  the episode started from. What is reported as total reward is the undiscounted sum of the rewards inside.\<close>

theorem shaping_moves_potential:
  assumes "shaped_start ev test obs0 e0 = Inr (obs, e)" and "potential (o_v obs) = Inr q"
    and "wrapped_run (shaped_step ev potential gamma) as obs e = Some (Inr (rs, e'))"
  shows "\<exists>s rs0 p. ev_start ev test obs0 (sh_env e0) = Inr (obs, s) \<and>
    wrapped_run (ev_step ev) as obs s = Some (Inr (rs0, sh_env e')) \<and> map sr_obs rs = map sr_obs rs0 \<and>
    potential (o_v (last_obs obs rs0)) = Inr p \<and>
    discounted gamma rs = discounted gamma rs0 + discount_of gamma rs0 * p - q \<and>
    sh_total_reward e' = sum_list (map sr_reward rs0)"
proof -
  from assms(1) have s: "ev_start ev test obs0 (sh_env e0) = Inr (obs, sh_env e)" "sh_prev_obs e = obs"
    "sh_total_reward e = 0" by (auto simp: shaped_start_def chain_Inr)
  have "potential (o_v (sh_prev_obs e)) = Inr q" using assms(2) s(2) by simp
  from shaped_run [OF assms(3) this] s show ?thesis by auto
qed

text \<open>An environment that counts.\<close>

definition counting :: "nat env_ops" where
  "counting = \<lparr>ev_start = (\<lambda>test obs s. Inr (Observation [0] False, 0)),
     ev_step = (\<lambda>a obs s. Some (Inr (\<lparr>sr_tau = 1, sr_obs = Observation [real (s + 1)] False, sr_reward = - 1,
       sr_terminal = 0\<rparr>, s + 1)))\<rparr>"

theorem shaping_moves_potential_witness:
  "\<exists>rs e'. wrapped_run (shaped_step counting (\<lambda>v. Inr (hd v)) 1) [no_action, no_action] (Observation [0] False)
      \<lparr>sh_prev_obs = Observation [0] False, sh_total_reward = 0, sh_env = 0\<rparr> = Some (Inr (rs, e')) \<and>
    discounted 1 rs = 0 \<and> sh_total_reward e' = - 2"
proof -
  let ?e = "\<lparr>sh_prev_obs = Observation [0] False, sh_total_reward = 0, sh_env = 0\<rparr> :: nat shaped"
  have s: "shaped_start counting 0 no_obs ?e = Inr (Observation [0] False, ?e)"
    by (simp add: shaped_start_def counting_def)
  obtain rs e' where r: "wrapped_run (shaped_step counting (\<lambda>v. Inr (hd v)) 1) [no_action, no_action]
      (Observation [0] False) ?e = Some (Inr (rs, e'))"
    by (simp add: shaped_step_def shape_result_def counting_def Observation_def)
  have i: "wrapped_run (ev_step counting) [no_action, no_action] (Observation [0] False) 0 = Some (Inr (
      [\<lparr>sr_tau = 1, sr_obs = Observation [1] False, sr_reward = - 1, sr_terminal = 0\<rparr>,
       \<lparr>sr_tau = 1, sr_obs = Observation [2] False, sr_reward = - 1, sr_terminal = 0\<rparr>], 2))"
    by (simp add: counting_def)
  have "ev_start counting 0 no_obs 0 = Inr (Observation [0] False, 0)" by (simp add: counting_def)
  with shaping_moves_potential [OF s _ r, of 0] i r show ?thesis
    by (auto simp: Observation_def last_obs_def c_pow_def)
qed

end
