(* ===== verification/Networks.thy ===== *)
theory Networks
  imports Representations
begin

text \<open>
  The feed-forward neural network (\<open>base/{include/grl,src}/representations/ann.{h,cpp}\<close>): sigmoid hidden
  layers, linear outputs, learning by back-propagation with gradient descent, RPROP or RMSPROP.

  The weight matrix \<open>W\<close> of a layer is the list of its columns, one per neuron, each with the weights
  of the previous layer's neurons followed by the bias; the parameter vector is their concatenation, as the
  matrices are maps into it. Layer 0, the inputs, has a size only. Matrix operations whose sizes do not
  agree, which Eigen asserts, and weights that turn NaN are \<open>RepUndefined\<close>. The draws of
  \<open>Vector::Random\<close> are an argument.
\<close>

record ann_layer =
  al_W :: "dvec list"
  al_Delta :: "dvec list"
  al_eta :: "dvec list"
  al_prev_Delta :: "dvec list"

record ann =
  an_inputs :: nat
  an_outputs :: nat
  an_hiddens :: ivec
  an_eta :: real
  an_layers :: "ann_layer list"
  an_error :: real
  an_samples :: nat
  an_interval :: int
  an_tau :: real
  an_count :: int
  an_target :: dvec       \<comment> \<open>the parameters of the target network, if \<open>interval_\<close> is not 0\<close>

definition ann_weights :: "ann \<Rightarrow> dvec list list" where
  "ann_weights an = map al_W (an_layers an)"

definition ann_params :: "ann \<Rightarrow> dvec" where
  "ann_params an = concat (concat (ann_weights an))"

text \<open>The sizes of all layers, inputs and outputs included.\<close>

definition ann_sizes :: "ann \<Rightarrow> ivec" where
  "ann_sizes an = an_inputs an # an_hiddens an @ [an_outputs an]"

section \<open>Parameters\<close>

text \<open>The columns of a layer of \<open>n\<close> neurons of \<open>m\<close> weights each, from a vector of parameters.\<close>

fun columns :: "nat \<Rightarrow> nat \<Rightarrow> dvec \<Rightarrow> dvec list" where
  "columns m 0 ps = []"
| "columns m (Suc n) ps = take m ps # columns m n (drop m ps)"

fun mapped :: "ivec \<Rightarrow> dvec \<Rightarrow> dvec list list" where
  "mapped (m # n # ns) ps = columns (m + 1) n ps # mapped (n # ns) (drop ((m + 1) * n) ps)"
| "mapped _ ps = []"

fun ann_size :: "ivec \<Rightarrow> nat" where
  "ann_size (m # n # ns) = (m + 1) * n + ann_size (n # ns)"
| "ann_size _ = 0"

definition ann_setParams :: "dvec \<Rightarrow> ann \<Rightarrow> ann" where
  "ann_setParams ps an =
     (if length ps \<noteq> length (ann_params an) then an
      else an\<lparr>an_layers := map2 (\<lambda>l W. l\<lparr>al_W := W\<rparr>) (an_layers an) (mapped (ann_sizes an) ps)\<rparr>)"

text \<open>Copying takes as many parameters as this network has.\<close>

definition ann_copy :: "ann \<Rightarrow> ann \<Rightarrow> rep_error + ann" where
  "ann_copy an obj =
     (if length (ann_params obj) < length (ann_params an) then Inl RepUndefined
      else Inr (ann_setParams (take (length (ann_params an)) (ann_params obj)) an))"

definition ann_synchronize :: "ann \<Rightarrow> ann" where
  "ann_synchronize an =
     (if an_interval an = 0 then an
      else an\<lparr>an_target := (if an_tau an \<noteq> 0
                then vadd (vscale (an_tau an) (ann_params an)) (vscale (1 - an_tau an) (an_target an))
                else ann_params an),
              an_count := 0\<rparr>)"

definition ann_checkSynchronize :: "ann \<Rightarrow> ann" where
  "ann_checkSynchronize an =
     (let an = an\<lparr>an_count := an_count an + 1\<rparr>
      in if an_interval an \<noteq> 0 \<and> an_interval an \<le> an_count an then ann_synchronize an else an)"

definition filled :: "real \<Rightarrow> dvec list \<Rightarrow> dvec list" where
  "filled x M = map (map (\<lambda>_. x)) M"

text \<open>The reset; \<open>draws\<close> are numbers between -1 and 1, as many as there are parameters.\<close>

definition ann_reset :: "dvec \<Rightarrow> ann \<Rightarrow> ann" where
  "ann_reset draws an =
     ann_synchronize (an\<lparr>
       an_layers := map (\<lambda>W. \<lparr>al_W = W, al_Delta = filled 0 W,
           al_eta = filled (if an_eta an = 0 then 0.1 else 1) W, al_prev_Delta = filled 0 W\<rparr>)
         (mapped (ann_sizes an) (map (\<lambda>x. x * 0.01) draws)),
       an_error := 0, an_samples := 0\<rparr>)"

text \<open>The target network is instantiated first and draws its own parameters, \<open>draws0\<close>.\<close>

definition c_lround :: "real \<Rightarrow> int" where
  "c_lround x = (if x < 0 then - \<lfloor>1 / 2 - x\<rfloor> else \<lfloor>x + 1 / 2\<rfloor>)"

definition ann_configure ::
    "int \<Rightarrow> real \<Rightarrow> nat \<Rightarrow> nat \<Rightarrow> dvec \<Rightarrow> real \<Rightarrow> dvec \<Rightarrow> dvec \<Rightarrow> rep_error + ann" where
  "ann_configure interval tau inputs outputs hiddens eta draws0 draws =
     (if \<exists>h \<in> set hiddens. c_lround h \<le> 0 then Inl RepBadParam
      else Inr (ann_reset draws
        \<lparr>an_inputs = inputs, an_outputs = outputs, an_hiddens = map (\<lambda>h. nat (c_lround h)) hiddens,
         an_eta = eta, an_layers = [], an_error = 0, an_samples = 0,
         an_interval = interval, an_tau = tau, an_count = 0,
         an_target = (if interval = 0 then [] else map (\<lambda>x. x * 0.01) draws0)\<rparr>))"

section \<open>Reading\<close>

definition activate :: "real \<Rightarrow> real" where
  "activate x = inverse (1 + exp (- x))"

definition dactivate :: "real \<Rightarrow> real" where
  "dactivate x = x * (1 - x)"

text \<open>What the neurons of a layer receive; the activation is extended by 1 for the bias.\<close>

definition nets :: "dvec list \<Rightarrow> dvec \<Rightarrow> dvec" where
  "nets W a = map (\<lambda>w. dot w (a @ [1])) W"

fun feed :: "dvec list list \<Rightarrow> dvec \<Rightarrow> dvec list" where
  "feed [] a = []"
| "feed [W] a = [nets W a]"
| "feed (W # Ws) a = (let act = map activate (nets W a) in act # feed Ws act)"

definition ann_out :: "dvec list list \<Rightarrow> dvec \<Rightarrow> dvec" where
  "ann_out Ws a = last (feed Ws a)"

fun ann_read_with :: "dvec list list \<Rightarrow> ann \<Rightarrow> projection \<Rightarrow> rep_error + dvec" where
  "ann_read_with Ws an (VectorProjection v) =
     (if length v \<noteq> an_inputs an then Inl RepUndefined else Inr (ann_out Ws v))"
| "ann_read_with Ws an _ = Inl RepException"

definition ann_read :: "ann \<Rightarrow> projection \<Rightarrow> rep_error + dvec" where
  "ann_read an p = ann_read_with (ann_weights an) an p"

definition ann_read_target :: "ann \<Rightarrow> projection \<Rightarrow> rep_error + dvec" where
  "ann_read_target an p =
     ann_read_with (if an_interval an = 0 then ann_weights an else mapped (ann_sizes an) (an_target an)) an p"

section \<open>Back-propagation\<close>

text \<open>Row \<open>k\<close> of the product of a weight matrix with the deltas of its neurons.\<close>

definition back_row :: "dvec list \<Rightarrow> dvec \<Rightarrow> nat \<Rightarrow> real" where
  "back_row W ds k = sum_list (map2 (\<lambda>w d. w ! k * d) W ds)"

text \<open>The deltas, from the weights of the layers and their activations. For a hidden layer the code keeps as many
  rows of the product as the \<^emph>\<open>next\<close> layer has neurons, and multiplies them with as many factors as this
  one has.\<close>

fun deltas :: "dvec list list \<Rightarrow> dvec list \<Rightarrow> dvec \<Rightarrow> rep_error + dvec list" where
  "deltas [W] [act] out = (if length act = length out then Inr [vsub act out] else Inl RepUndefined)"
| "deltas (W # W2 # Ws) (act # acts) out =
     chain (deltas (W2 # Ws) acts out) (\<lambda>ds.
       if length W2 \<noteq> length act then Inl RepUndefined
       else Inr (vmul (map (back_row W2 (hd ds)) [0..<length W2]) (map dactivate act) # ds))"
| "deltas _ _ out = Inl RepUndefined"

definition add_outer :: "dvec list \<Rightarrow> dvec \<Rightarrow> dvec \<Rightarrow> dvec list" where
  "add_outer D a ds = map2 (\<lambda>c d. vadd c (vscale d (a @ [1]))) D ds"

text \<open>The weight adjustments; \<open>a\<close> is the activation of the previous layer.\<close>

fun add_adjustments :: "dvec \<Rightarrow> dvec list \<Rightarrow> dvec list \<Rightarrow> ann_layer list \<Rightarrow> ann_layer list" where
  "add_adjustments a (act # acts) (d # ds) (l # ls) =
     l\<lparr>al_Delta := add_outer (al_Delta l) a d\<rparr> # add_adjustments act acts ds ls"
| "add_adjustments a _ _ ls = ls"

definition backprop :: "dvec \<Rightarrow> dvec \<Rightarrow> ann \<Rightarrow> rep_error + ann" where
  "backprop v out an =
     (if length v \<noteq> an_inputs an then Inl RepUndefined
      else let acts = feed (ann_weights an) v
           in chain (deltas (ann_weights an) acts out) (\<lambda>ds. Inr (an\<lparr>
                an_error := an_error an + sum_list (map (\<lambda>x. x\<^sup>2) (vsub (last acts) out)),
                an_layers := add_adjustments v acts ds (an_layers an),
                an_samples := an_samples an + 1\<rparr>)))"

text \<open>\<open>write\<close> passes a full target as a row where \<open>backprop\<close> expects a column, so that it must have one
  element; a partial one is transposed.\<close>

fun ann_write :: "ann \<Rightarrow> projection \<Rightarrow> dvec \<Rightarrow> dvec \<Rightarrow> rep_error + ann" where
  "ann_write an (VectorProjection v) target alpha =
     (if vec_prod alpha = 1
      then if length target = 1 then backprop v target an else Inl RepUndefined
      else chain (ann_read an (VectorProjection v)) (\<lambda>x.
        if length alpha \<noteq> length target \<or> length alpha \<noteq> length x then Inl RepUndefined
        else backprop v (vadd (vmul alpha target) (vmul (map (\<lambda>b. 1 - b) alpha) x)) an))"
| "ann_write an _ target alpha = Inl RepException"

fun ann_update :: "ann \<Rightarrow> projection \<Rightarrow> dvec \<Rightarrow> rep_error + ann" where
  "ann_update an (VectorProjection v) delta =
     chain (ann_read an (VectorProjection v)) (\<lambda>x.
       if length x \<noteq> length delta then Inl RepUndefined else backprop v (vadd x delta) an)"
| "ann_update an _ delta = Inl RepException"

section \<open>Applying the adjustments\<close>

definition zip_with :: "(real \<Rightarrow> real \<Rightarrow> real) \<Rightarrow> dvec list \<Rightarrow> dvec list \<Rightarrow> dvec list" where
  "zip_with f M N = map2 (map2 f) M N"

definition sgd_layer :: "real \<Rightarrow> nat \<Rightarrow> ann_layer \<Rightarrow> ann_layer" where
  "sgd_layer eta n l = l\<lparr>al_W := zip_with (\<lambda>w d. w - eta * d / real n) (al_W l) (al_Delta l)\<rparr>"

definition rprop_layer :: "ann_layer \<Rightarrow> ann_layer" where
  "rprop_layer l =
     (let eta = zip_with (\<lambda>e p. if p > 0 then e * 1.2 else e * 0.5) (al_eta l)
                  (zip_with (*) (al_Delta l) (al_prev_Delta l))
      in l\<lparr>al_eta := eta,
           al_W := zip_with (-) (al_W l) (zip_with (\<lambda>d e. if d > 0 then e else - e) (al_Delta l) eta),
           al_prev_Delta := al_Delta l\<rparr>)"

definition rmsprop_layer :: "real \<Rightarrow> nat \<Rightarrow> ann_layer \<Rightarrow> ann_layer" where
  "rmsprop_layer step n l =
     (let eta = zip_with (\<lambda>e d. 0.9 * e + 0.1 * (d / real n)\<^sup>2) (al_eta l) (al_Delta l)
      in l\<lparr>al_eta := eta, al_W := zip_with (+) (al_W l) (zip_with (\<lambda>d e. step * (d / sqrt e)) (al_Delta l) eta)\<rparr>)"

definition finalize_layer :: "real \<Rightarrow> nat \<Rightarrow> ann_layer \<Rightarrow> ann_layer" where
  "finalize_layer eta n l =
     (let l = (if eta > 0 then sgd_layer eta n l else if eta = 0 then rprop_layer l else rmsprop_layer eta n l)
      in l\<lparr>al_Delta := filled 0 (al_Delta l)\<rparr>)"

text \<open>Without samples the mean adjustment is 0/0, and gradient descent and RMSPROP make every weight NaN.\<close>

definition ann_finalize :: "ann \<Rightarrow> rep_error + ann" where
  "ann_finalize an =
     (if an_samples an = 0 \<and> an_eta an \<noteq> 0 then Inl RepUndefined
      else Inr ((ann_checkSynchronize (an\<lparr>an_layers := map (finalize_layer (an_eta an) (an_samples an)) (an_layers an)\<rparr>))
        \<lparr>an_error := 0, an_samples := 0\<rparr>))"

end
