(* ===== verification/NetworkFacts.thy ===== *)
theory NetworkFacts
  imports Networks
begin

text \<open>
  Back-propagation computes the gradient: what a sample adds to the adjustment of a weight is the derivative of
  half the squared error of the network with respect to that weight. It is defined exactly if
  all layers behind the inputs have the same size.
\<close>

section \<open>Sums\<close>

lemma dot_sum: "length a = length b \<Longrightarrow> dot a b = (\<Sum>k<length a. a ! k * b ! k)"
  by (induction a b rule: list_induct2) (simp_all add: sum.lessThan_Suc_shift del: sum.lessThan_Suc)

text \<open>Half the squared error.\<close>

definition half_error :: "dvec \<Rightarrow> dvec \<Rightarrow> real" where
  "half_error v out = sum_list (map (\<lambda>x. x\<^sup>2) (vsub v out)) / 2"

lemma half_error_sum: "length v = length out \<Longrightarrow> half_error v out = (\<Sum>k<length out. (v ! k - out ! k)\<^sup>2) / 2"
  unfolding half_error_def
  by (induction v out rule: list_induct2) (simp_all add: vsub_def sum.lessThan_Suc_shift add_divide_distrib del: sum.lessThan_Suc)

section \<open>Shapes\<close>

text \<open>Every neuron has a weight for each neuron of the previous layer, and one for the bias.\<close>

fun net_shaped :: "nat \<Rightarrow> dvec list list \<Rightarrow> bool" where
  "net_shaped m [] = True"
| "net_shaped m (W # Ws) \<longleftrightarrow> (\<forall>w \<in> set W. length w = m + 1) \<and> net_shaped (length W) Ws"

lemma nets_length [simp]: "length (nets W a) = length W"
  by (simp add: nets_def)

lemma nets_nth:
  assumes "j < length W" "length (W ! j) = length a + 1"
  shows "nets W a ! j = (\<Sum>k<length a. W ! j ! k * a ! k) + W ! j ! length a"
  using assms dot_sum [of "W ! j" "a @ [1]"] by (simp add: nets_def nth_append)

lemma feed_simps: "Ws \<noteq> [] \<Longrightarrow> feed (W # Ws) a = map activate (nets W a) # feed Ws (map activate (nets W a))"
  by (cases Ws) (simp_all add: Let_def)

lemma feed_empty [simp]: "feed Ws a = [] \<longleftrightarrow> Ws = []"
  by (induction Ws a rule: feed.induct) (simp_all add: Let_def)

lemma deltas_length: "deltas Ws acts out = Inr ds \<Longrightarrow> acts = feed Ws a \<Longrightarrow> map length ds = map length Ws"
proof (induction Ws acts out arbitrary: a ds rule: deltas.induct)
  case (2 W W2 Ws act acts out)
  then show ?case by (fastforce simp: chain_Inr Let_def split: if_splits)
qed (auto split: if_splits)

section \<open>The error as a function of what a layer receives\<close>

fun error_from :: "dvec list list \<Rightarrow> dvec \<Rightarrow> dvec \<Rightarrow> real" where
  "error_from [] out net = half_error net out"
| "error_from (W # Ws) out net = error_from Ws out (nets W (map activate net))"

lemma error_feed: "half_error (ann_out (W # Ws) a) out = error_from Ws out (nets W a)"
proof (induction Ws arbitrary: W a)
  case (Cons W2 Ws)
  have "ann_out (W # W2 # Ws) a = ann_out (W2 # Ws) (map activate (nets W a))"
    by (simp add: ann_out_def Let_def)
  then show ?case using Cons by simp
qed (simp add: ann_out_def)

lemma activate_derivative: "(activate has_real_derivative dactivate (activate x)) (at x)"
proof -
  have pos: "1 + exp (- x) \<noteq> 0" using exp_gt_zero [of "- x"] by linarith
  have "(activate has_real_derivative - ((- exp (- x)) * (inverse (1 + exp (- x)) * inverse (1 + exp (- x))))) (at x)"
    unfolding activate_def using pos by (auto intro!: derivative_eq_intros)
  moreover have "dactivate (activate x) = - ((- exp (- x)) * (inverse (1 + exp (- x)) * inverse (1 + exp (- x))))"
    using pos by (simp add: dactivate_def activate_def field_simps)
  ultimately show ?thesis by simp
qed

text \<open>The deltas of a layer are the derivatives of the error with respect to what its neurons receive.\<close>

lemma delta_derivative:
  assumes "deltas (W # Ws) (feed (W # Ws) a) out = Inr ds" and "net_shaped (length W) Ws"
    and "n x0 = nets W a" and "\<And>x. length (n x) = length W" and "length n' = length W"
    and "\<And>k. k < length W \<Longrightarrow> ((\<lambda>x. n x ! k) has_real_derivative n' ! k) (at x0)"
  shows "((\<lambda>x. error_from Ws out (n x)) has_real_derivative dot (hd ds) n') (at x0)"
  using assms
proof (induction Ws arbitrary: W a ds n n')
  case Nil
  have out: "length out = length W" and ds: "ds = [vsub (nets W a) out]" using Nil.prems(1) by (auto split: if_splits)
  have "((\<lambda>x. (\<Sum>k<length W. (n x ! k - out ! k)\<^sup>2) / 2) has_real_derivative
      (\<Sum>k<length W. 2 * (n x0 ! k - out ! k) * n' ! k) / 2) (at x0)"
    using Nil.prems(6) by (auto intro!: derivative_eq_intros simp: mult.commute mult.left_commute)
  moreover have "(\<Sum>k<length W. 2 * (n x0 ! k - out ! k) * n' ! k) / 2 = dot (hd ds) n'"
    using out Nil.prems(3,5) by (simp add: ds dot_sum sum_divide_distrib algebra_simps diff_divide_distrib)
  moreover have "half_error (n x) out = (\<Sum>k<length W. (n x ! k - out ! k)\<^sup>2) / 2" for x
    using half_error_sum [of "n x" out] out Nil.prems(4) by simp
  ultimately show ?case by (simp only: error_from.simps)
next
  case (Cons W2 Ws)
  define act where "act = map activate (nets W a)"
  have act: "length act = length W" by (simp add: act_def)
  obtain ds2 where ds2: "deltas (W2 # Ws) (feed (W2 # Ws) act) out = Inr ds2" and W2: "length W2 = length W"
    and ds: "hd ds = vmul (map (back_row W2 (hd ds2)) [0..<length W2]) (map dactivate act)"
    using Cons.prems(1) act by (auto simp: feed_simps act_def [symmetric] chain_Inr split: if_splits)
  have shape: "\<forall>w \<in> set W2. length w = length W + 1" "net_shaped (length W2) Ws" using Cons.prems(2) by simp_all
  have len2: "length (hd ds2) = length W2" using deltas_length [OF ds2 refl] by (cases ds2) auto
  define m where "m x = nets W2 (map activate (n x))" for x
  define m' where "m' = map (\<lambda>j. \<Sum>k<length W. W2 ! j ! k * (dactivate (act ! k) * n' ! k)) [0..<length W2]"
  have "((\<lambda>x. error_from Ws out (m x)) has_real_derivative dot (hd ds2) m') (at x0)"
  proof (rule Cons.IH [OF ds2 shape(2)])
    show "m x0 = nets W2 act" using Cons.prems(3) by (simp add: m_def act_def)
    show "length (m x) = length W2" for x by (simp add: m_def)
    show "length m' = length W2" by (simp add: m'_def)
    fix j assume j: "j < length W2"
    have a: "((\<lambda>x. activate (n x ! k)) has_real_derivative dactivate (act ! k) * n' ! k) (at x0)" if "k < length W" for k
      using DERIV_chain2 [OF activate_derivative Cons.prems(6) [OF that]] that Cons.prems(3) by (simp add: act_def)
    have "((\<lambda>x. (\<Sum>k<length W. W2 ! j ! k * activate (n x ! k)) + W2 ! j ! length W) has_real_derivative m' ! j) (at x0)"
      using j a unfolding m'_def by (auto intro!: derivative_eq_intros simp: ac_simps)
    moreover have "m x ! j = (\<Sum>k<length W. W2 ! j ! k * activate (n x ! k)) + W2 ! j ! length W" for x
      using j shape(1) Cons.prems(4) by (simp add: m_def nets_nth)
    ultimately show "((\<lambda>x. m x ! j) has_real_derivative m' ! j) (at x0)" by simp
  qed
  moreover have "dot (hd ds2) m' = dot (hd ds) n'"
  proof -
    have "back_row W2 (hd ds2) k = (\<Sum>j<length W2. W2 ! j ! k * hd ds2 ! j)" for k
      using len2 by (simp add: back_row_def sum_list_sum_nth atLeast0LessThan)
    then have "dot (hd ds) n' = (\<Sum>k<length W. (\<Sum>j<length W2. W2 ! j ! k * hd ds2 ! j) * dactivate (act ! k) * n' ! k)"
      using act W2 Cons.prems(5) by (simp add: ds dot_sum)
    also have "\<dots> = (\<Sum>k<length W. \<Sum>j<length W2. hd ds2 ! j * (W2 ! j ! k * (dactivate (act ! k) * n' ! k)))"
      by (simp add: sum_distrib_right sum_distrib_left algebra_simps)
    also have "\<dots> = (\<Sum>j<length W2. \<Sum>k<length W. hd ds2 ! j * (W2 ! j ! k * (dactivate (act ! k) * n' ! k)))"
      by (rule sum.swap)
    also have "\<dots> = dot (hd ds2) m'" using len2 by (simp add: dot_sum m'_def sum_distrib_left)
    finally show ?thesis by simp
  qed
  ultimately show ?case by (simp add: m_def)
qed

section \<open>Weights\<close>

definition replace_weight :: "nat \<Rightarrow> nat \<Rightarrow> nat \<Rightarrow> real \<Rightarrow> dvec list list \<Rightarrow> dvec list list" where
  "replace_weight i j k x Ws = Ws[i := (Ws ! i)[j := (Ws ! i ! j)[k := x]]]"

text \<open>The activation that enters layer \<open>i\<close>, with the one of the bias.\<close>

definition entering :: "dvec list list \<Rightarrow> dvec \<Rightarrow> nat \<Rightarrow> dvec" where
  "entering Ws a i = (a # feed Ws a) ! i @ [1]"

lemma nets_replace:
  assumes "j < length W" "k < length (W ! j)" "length (W ! j) = length a + 1" "l < length W"
  shows "nets (W[j := (W ! j)[k := x]]) a ! l = nets W a ! l + (if l = j then (x - W ! j ! k) * (a @ [1]) ! k else 0)"
proof (cases "l = j")
  case True
  have "(\<Sum>i<length a + 1. (W ! j)[k := x] ! i * (a @ [1]) ! i) =
      (\<Sum>i<length a + 1. W ! j ! i * (a @ [1]) ! i + (if i = k then (x - W ! j ! k) * (a @ [1]) ! k else 0))"
    using assms(2,3) by (intro sum.cong) (auto simp: nth_list_update left_diff_distrib)
  also have "\<dots> = (\<Sum>i<length a + 1. W ! j ! i * (a @ [1]) ! i) + (x - W ! j ! k) * (a @ [1]) ! k"
    using assms(2,3) by (simp add: sum.distrib sum.delta del: sum.lessThan_Suc)
  finally show ?thesis using assms True
    by (simp add: nets_def dot_sum del: sum.lessThan_Suc)
qed (use assms in \<open>simp add: nets_def\<close>)

lemma weight_derivative:
  assumes "deltas Ws (feed Ws a) out = Inr ds" and "net_shaped (length a) Ws"
    and "i < length Ws" "j < length (Ws ! i)" "k < length (Ws ! i ! j)"
  shows "((\<lambda>x. half_error (ann_out (replace_weight i j k x Ws) a) out) has_real_derivative
    ds ! i ! j * entering Ws a i ! k) (at (Ws ! i ! j ! k))"
  using assms
proof (induction Ws arbitrary: a i ds)
  case (Cons W Ws)
  have shape: "\<forall>w \<in> set W. length w = length a + 1" "net_shaped (length W) Ws" using Cons.prems(2) by simp_all
  show ?case
  proof (cases i)
    case 0
    have jk: "j < length W" "k < length (W ! j)" "length (W ! j) = length a + 1"
      using Cons.prems(4,5) shape(1) 0 by auto
    define n where "n x = nets (W[j := (W ! j)[k := x]]) a" for x
    define n' where "n' = map (\<lambda>l. if l = j then (a @ [1]) ! k else 0) [0..<length W]"
    have "((\<lambda>x. error_from Ws out (n x)) has_real_derivative dot (hd ds) n') (at (W ! j ! k))"
    proof (rule delta_derivative [OF Cons.prems(1) shape(2)])
      show "n (W ! j ! k) = nets W a" by (simp add: n_def)
      show "length (n x) = length W" for x by (simp add: n_def)
      show "length n' = length W" by (simp add: n'_def)
      fix l assume l: "l < length W"
      have "((\<lambda>x. nets W a ! l + (if l = j then (x - W ! j ! k) * (a @ [1]) ! k else 0)) has_real_derivative n' ! l) (at (W ! j ! k))"
        using l by (auto simp: n'_def intro!: derivative_eq_intros)
      then show "((\<lambda>x. n x ! l) has_real_derivative n' ! l) (at (W ! j ! k))"
        unfolding n_def using nets_replace [OF jk l] by simp
    qed
    moreover have "length (hd ds) = length W" using deltas_length [OF Cons.prems(1) refl] by (cases ds) auto
    then have "dot (hd ds) n' = hd ds ! j * (a @ [1]) ! k"
      using jk(1) by (simp add: dot_sum n'_def if_distrib [where f = "\<lambda>y. _ * y"] sum.delta cong: if_cong)
    moreover have "hd ds = ds ! 0" using deltas_length [OF Cons.prems(1) refl] by (cases ds) auto
    ultimately show ?thesis using 0 by (simp add: replace_weight_def error_feed n_def entering_def)
  next
    case (Suc i')
    then have ne: "Ws \<noteq> []" using Cons.prems(3) by auto
    define act where "act = map activate (nets W a)"
    have act: "length act = length W" by (simp add: act_def)
    obtain W2 Ws' where Ws: "Ws = W2 # Ws'" using ne by (cases Ws) auto
    obtain ds2 d where ds: "ds = d # ds2" "deltas Ws (feed Ws act) out = Inr ds2"
      using Cons.prems(1) by (auto simp: Ws feed_simps act_def chain_Inr split: if_splits simp del: feed.simps)
    have "((\<lambda>x. half_error (ann_out (replace_weight i' j k x Ws) act) out) has_real_derivative
        ds2 ! i' ! j * entering Ws act i' ! k) (at (Ws ! i' ! j ! k))"
      using Cons.IH [OF ds(2), of i'] shape(2) Cons.prems(3-5) Suc act by simp
    moreover have "ann_out (replace_weight i j k x (W # Ws)) a = ann_out (replace_weight i' j k x Ws) act" for x
    proof -
      have "replace_weight i' j k x Ws \<noteq> []" using ne by (simp add: replace_weight_def)
      then show ?thesis using Suc by (simp add: replace_weight_def ann_out_def feed_simps act_def)
    qed
    moreover have "entering (W # Ws) a i = entering Ws act i'"
      using Suc ne by (simp add: entering_def feed_simps act_def)
    ultimately show ?thesis using ds(1) Suc by simp
  qed
qed simp

section \<open>The network\<close>

definition ann_ok :: "ann \<Rightarrow> bool" where
  "ann_ok an \<longleftrightarrow> an_layers an \<noteq> [] \<and> net_shaped (an_inputs an) (ann_weights an) \<and>
     (\<forall>l \<in> set (an_layers an). map length (al_Delta l) = map length (al_W l))"

definition set_weight :: "nat \<Rightarrow> nat \<Rightarrow> nat \<Rightarrow> real \<Rightarrow> ann \<Rightarrow> ann" where
  "set_weight i j k x an =
     an\<lparr>an_layers := (an_layers an)[i := (an_layers an ! i)
       \<lparr>al_W := (al_W (an_layers an ! i))[j := (al_W (an_layers an ! i) ! j)[k := x]]\<rparr>]\<rparr>"

lemma set_weight_weights:
  "i < length (an_layers an) \<Longrightarrow> ann_weights (set_weight i j k x an) = replace_weight i j k x (ann_weights an)"
  by (simp add: set_weight_def ann_weights_def replace_weight_def map_update)

lemma adjustments_weights: "map al_W (add_adjustments a acts ds ls) = map al_W ls"
  by (induction a acts ds ls rule: add_adjustments.induct) simp_all

lemma same_lengths: "map length xs = map length ys \<Longrightarrow> length xs = length ys \<and> (\<forall>j < length xs. length (xs ! j) = length (ys ! j))"
  by (metis length_map nth_map)

lemma adjustments_nth:
  assumes "length acts = length ls" "map length ds = map (length \<circ> al_W) ls" "i < length ls"
    and "\<forall>l \<in> set ls. map length (al_Delta l) = map length (al_W l)"
    and "j < length (al_W (ls ! i))" "k < length (al_W (ls ! i) ! j)" "length ((a # acts) ! i) + 1 = length (al_W (ls ! i) ! j)"
  shows "al_Delta (add_adjustments a acts ds ls ! i) ! j ! k =
    al_Delta (ls ! i) ! j ! k + ds ! i ! j * ((a # acts) ! i @ [1]) ! k"
  using assms
proof (induction a acts ds ls arbitrary: i rule: add_adjustments.induct)
  case (1 a act acts d ds l ls)
  show ?case
  proof (cases i)
    case 0
    have len: "length (al_Delta l) = length (al_W l)" "length (al_Delta l ! j) = length (al_W l ! j)" "length d = length (al_W l)"
      using 1(3,5,6) 0 same_lengths [of "al_Delta l" "al_W l"] by auto
    then show ?thesis using 1(6-8) 0 by (simp add: add_outer_def)
  next
    case (Suc i')
    then show ?thesis using 1 by simp
  qed
qed simp_all

lemma feed_length: "length (feed Ws a) = length Ws"
  by (induction Ws a rule: feed.induct) (simp_all add: Let_def)

lemma entering_length:
  assumes "net_shaped (length a) Ws" "i < length Ws" "j < length (Ws ! i)"
  shows "length ((a # feed Ws a) ! i) + 1 = length (Ws ! i ! j)"
  using assms
proof (induction Ws arbitrary: a i)
  case (Cons W Ws)
  show ?case
  proof (cases i)
    case 0
    then show ?thesis using Cons.prems by auto
  next
    case (Suc i')
    then have "Ws \<noteq> []" using Cons.prems(2) by auto
    then show ?thesis using Cons.IH [of "map activate (nets W a)" i'] Cons.prems Suc by (simp add: feed_simps)
  qed
qed simp

lemma backprop_gradient:
  assumes "ann_ok an" and "backprop v out an = Inr an'"
    and "i < length (an_layers an)" "j < length (al_W (an_layers an ! i))" "k < length (al_W (an_layers an ! i) ! j)"
  shows "((\<lambda>x. half_error (ann_out (ann_weights (set_weight i j k x an)) v) out) has_real_derivative
      al_Delta (an_layers an' ! i) ! j ! k - al_Delta (an_layers an ! i) ! j ! k) (at (al_W (an_layers an ! i) ! j ! k))"
proof -
  let ?Ws = "ann_weights an"
  obtain ds where v: "length v = an_inputs an" and ds: "deltas ?Ws (feed ?Ws v) out = Inr ds" and
    an': "an_layers an' = add_adjustments v (feed ?Ws v) ds (an_layers an)"
    using assms(2) by (auto simp: backprop_def Let_def chain_Inr split: if_splits)
  have shape: "net_shaped (length v) ?Ws" using assms(1) v by (simp add: ann_ok_def)
  have at: "?Ws ! i = al_W (an_layers an ! i)" "i < length ?Ws" using assms(3) by (simp_all add: ann_weights_def)
  have ijk: "j < length (?Ws ! i)" "k < length (?Ws ! i ! j)" using assms(4,5) at(1) by simp_all
  from weight_derivative [OF ds shape at(2) ijk]
  have der: "((\<lambda>x. half_error (ann_out (ann_weights (set_weight i j k x an)) v) out) has_real_derivative
      ds ! i ! j * entering ?Ws v i ! k) (at (al_W (an_layers an ! i) ! j ! k))"
    using assms(3) at(1) by (simp add: set_weight_weights)
  have "al_Delta (add_adjustments v (feed ?Ws v) ds (an_layers an) ! i) ! j ! k =
      al_Delta (an_layers an ! i) ! j ! k + ds ! i ! j * entering ?Ws v i ! k"
    unfolding entering_def
  proof (rule adjustments_nth)
    show "length (feed ?Ws v) = length (an_layers an)" by (simp add: feed_length ann_weights_def)
    show "map length ds = map (length \<circ> al_W) (an_layers an)"
      using deltas_length [OF ds refl] by (simp add: ann_weights_def)
    show "\<forall>l \<in> set (an_layers an). map length (al_Delta l) = map length (al_W l)" using assms(1) by (simp add: ann_ok_def)
    show "length ((v # feed ?Ws v) ! i) + 1 = length (al_W (an_layers an ! i) ! j)"
      using entering_length [OF shape at(2) ijk(1)] at(1) by simp
  qed (use assms(3-5) in simp_all)
  then have "al_Delta (an_layers an' ! i) ! j ! k - al_Delta (an_layers an ! i) ! j ! k = ds ! i ! j * entering ?Ws v i ! k"
    by (simp add: an')
  with der show ?thesis by simp
qed

lemma deltas_defined:
  "Ws \<noteq> [] \<Longrightarrow> if \<forall>W \<in> set Ws. length W = length out then \<exists>ds. deltas Ws (feed Ws a) out = Inr ds
    else deltas Ws (feed Ws a) out = Inl RepUndefined"
proof (induction Ws arbitrary: a)
  case (Cons W Ws)
  show ?case
  proof (cases Ws)
    case Nil
    then show ?thesis by simp
  next
    case (Cons W2 Ws')
    let ?act = "map activate (nets W a)"
    have "deltas (W # Ws) (feed (W # Ws) a) out = chain (deltas Ws (feed Ws ?act) out) (\<lambda>ds.
        if length W2 \<noteq> length W then Inl RepUndefined
        else Inr (vmul (map (back_row W2 (hd ds)) [0..<length W2]) (map dactivate ?act) # ds))"
      using Cons by (simp add: feed_simps del: feed.simps)
    then show ?thesis using Cons.IH [of ?act] Cons by (auto split: if_splits)
  qed
qed simp


text \<open>A network with one hidden neuron, and the one that the defaults configure, with five.\<close>

definition small_net :: "nat \<Rightarrow> dvec \<Rightarrow> ann" where
  "small_net n draws = ann_reset draws
     \<lparr>an_inputs = 1, an_outputs = 1, an_hiddens = [n], an_eta = 7 / 10, an_layers = [], an_error = 0, an_samples = 0,
      an_interval = 0, an_tau = 1, an_count = 0, an_target = []\<rparr>"

lemma small_net_configure: "ann_configure 0 1 1 1 [real n] (7 / 10) [] draws = (if n = 0 then Inl RepBadParam else Inr (small_net n draws))"
proof -
  have "\<lfloor>real n + 1 / 2\<rfloor> = int n" by linarith
  then show ?thesis by (simp add: ann_configure_def c_lround_def small_net_def)
qed


end
