(* ===== verification/Spec2Isabelle.thy ===== *)
theory Spec2Isabelle
  imports Fifo Strings Traces TileCoding Samples NoiseFacts PredFacts MasterFacts ExperimentFacts TreeFacts ControllerFacts ActionFacts DiscreteEnsembleFacts ConfigFileFacts RbfFacts ProjectorFacts BatchFacts MoreWorldFacts MultiAgent ShapingFacts NetworkFacts
begin

text \<open>
  A verification development for the core of the reinforcement learning library in \<open>src/base\<close>.

  \<^bold>\<open>The program.\<close> An experiment (\<open>experiments/\<close>) runs an environment (\<open>environments/\<close>) and agents
  (\<open>agents/\<close>) against each other. An agent asks a policy (\<open>policies/\<close>) for actions; a policy reads the
  values of the actions a discretizer (\<open>discretizers/\<close>) enumerates, and lets a sampler (\<open>samplers/\<close>)
  choose among them. A predictor (\<open>predictors/\<close>) learns the values: it projects (\<open>projectors/\<close>) an
  observation and an action to features, reads and writes a representation (\<open>representations/\<close>) at
  them, and spreads its error along an eligibility trace (\<open>include/grl/trace.h\<close>).

  \<^bold>\<open>Conventions.\<close> Vectors are lists of reals; matrices are lists of rows or columns. Where the code
  depends on infinities or NaN the type \<open>dbl\<close> of \<open>Prelude\<close> has them; elsewhere doubles are idealised
  as reals, without rounding. Machine integers that wrap (hash sums, the 48-bit generator of the C
  library, sets of bits) are words. A call that the code answers with an exception, or that has no
  defined behaviour (an index out of range, a division of integers by zero, an unset pointer), is
  \<open>Inl\<close> of an error or \<open>None\<close>. Objects with state are records that are passed and returned; an object
  that an operation calls through an interface is a record of functions over an abstract state
  (\<open>rep_ops\<close>, \<open>agent_ops\<close>, \<open>sub_ops\<close>, \<open>exp_ops\<close>, \<open>projector\<close>, \<open>disc\<close>). Random numbers come from the
  modelled generator (\<open>Utils.rand\<close>), or from explicit lists where code consumes a given number of
  them. Loops that need not end are \<open>partial_function (option)\<close>: not returning is \<open>None\<close>, and theorems
  that say that a loop returns say \<open>= Some\<close>. The loop that runs until its time budget is used up
  (\<open>MCTSPolicy::act\<close>) has the number of its iterations as a parameter; no other bound was chosen.

  \<^bold>\<open>Theories, definitions first, then facts.\<close>
  \<^item> \<open>Prelude\<close>: types, extended doubles, errors, generic lemmas, the collections \<open>grl_simps\<close>, \<open>grl_inv\<close>.
  \<^item> \<open>Utils\<close>, \<open>Fifo\<close>, \<open>Strings\<close> (\<open>include/grl/utils.h\<close>): the generator, sampling from a distribution, the
    ring buffer \<open>FIFOSampler\<close> (a bounded history: it holds the last items), squashing, replacing and
    cutting of strings. \<open>Vectors\<close> (\<open>vector.h\<close>): vector helpers and the text form, with its round trip.
  \<^item> \<open>Projections\<close>, \<open>Traces\<close> (\<open>projection.h\<close>, \<open>trace.h\<close>): sparse and dense projections and their
    saturated subtraction, replacing and accumulating traces; weights stay between the cut-off and 1.
  \<^item> \<open>TileCoding\<close> (\<open>projectors/tile_coding\<close>): hashing, the open-addressing table, the tilings; projections
    are stable once their tiles are claimed, and different tiles keep different places.
  \<^item> \<open>Samples\<close> (\<open>projections/sample.h\<close>): the use-counted store, whose counts equal the references.
  \<^item> \<open>Discretizers\<close>, \<open>Grids\<close>, \<open>SplitGrids\<close> (\<open>discretizer.h\<close>, \<open>discretizers/\<close>): the four discretizers;
    enumeration, offsets and search agree; where the split search never returns.
  \<^item> \<open>Transitions\<close> (\<open>grl.h\<close>), \<open>Samplers\<close>, \<open>SamplerFacts\<close>, \<open>NoiseSamplers\<close>, \<open>NoiseFacts\<close> (\<open>samplers/\<close>):
    greedy, epsilon-greedy, softmax, PADA and Ornstein-Uhlenbeck samplers and their distributions.
  \<^item> \<open>Representations\<close>, \<open>RepFacts\<close> (\<open>representation.h\<close>, \<open>representations/linear\<close>): the representation
    interface and the linear representation: writes converge, stay local and respect limits.
    \<open>Networks\<close>, \<open>NetworkFacts\<close> (\<open>representations/ann\<close>): the neural network; when back-propagation works, and
    that it then adds the gradient of the error.
  \<^item> \<open>Projectors\<close>, \<open>BasisFacts\<close>, \<open>RbfFacts\<close>, \<open>ProjectorFacts\<close> (\<open>projectors/\<close>): Fourier, monomial and radial basis
    functions, grids, and the projectors that change the input of others or combine several; which features
    there are, interpolation, Jacobians, and what a representation reads over a union.
  \<^item> \<open>Policies\<close> (\<open>projector.h\<close>, \<open>policies/q\<close>, \<open>policies/v\<close>), \<open>Predictors\<close>, \<open>PredFacts\<close>
    (\<open>predictors/sarsa\<close>, \<open>td\<close>, \<open>qv\<close>, \<open>advantage\<close>, \<open>ac\<close>): single and batch updates; what one step of
    learning does to the values, and Q learning as expected SARSA of the greedy policy.
  \<^item> \<open>Controllers\<close>, \<open>ControllerFacts\<close> (\<open>policies/pid\<close>, \<open>state_feedback\<close>, \<open>random\<close>, \<open>feed_forward\<close>), \<open>ActionPolicies\<close>,
    \<open>ActionFacts\<close> (\<open>policies/action\<close>, \<open>noise\<close>, \<open>bounded_q\<close>, \<open>ucb\<close>, \<open>solver\<close>), \<open>Ensembles\<close>, \<open>DiscreteEnsembles\<close>,
    \<open>EnsembleFacts\<close>, \<open>DiscreteEnsembleFacts\<close> (\<open>policies/multi\<close>, \<open>multi_discrete\<close>): control laws and their limits,
    exploration noise, combinations of policies that stay within what the policies propose.
  \<^item> \<open>ObservationModels\<close> (\<open>environments/observation\<close>), \<open>Planning\<close> (\<open>predictors/fqi\<close>, \<open>mbfqi\<close>, \<open>vi\<close>, \<open>solvers/\<close>), \<open>PlanningFacts\<close>,
    \<open>BatchFacts\<close>: known and learned models, learning from stored transitions, value iteration; it solves the
    windy gridworld, and how predictions differ from the environment.
  \<^item> \<open>Agents\<close>, \<open>ReplayAgents\<close>, \<open>MasterAgents\<close>, \<open>AgentFacts\<close>, \<open>MasterFacts\<close> (\<open>agent.h\<close>, \<open>agents/\<close>): fixed,
    TD, delayed, black-box, solver, replay, Dyna, master and filtering agents; what they hand on.
  \<^item> \<open>Environments\<close>, \<open>Worlds\<close>, \<open>WorldFacts\<close>, \<open>DynamicsFacts\<close>, \<open>WorldTypes\<close> (\<open>environment.h\<close>,
    \<open>environments/\<close>): the modelled environment, Runge-Kutta integration, the regulator task and five
    worlds; runs never fail, timed episodes end on time, the shortest way of the windy gridworld.
    \<open>MoreWorlds\<close>, \<open>MoreWorldFacts\<close>: acrobot, integrators, flyer, cart with two poles, pinball; which equations of
    motion the accelerations solve. \<open>WrappedEnvironments\<close>, \<open>ShapingFacts\<close>: noise, shaping and sandbox environments.
    \<open>MultiAgent\<close>: the threads of a multi-agent environment as a step relation.
  \<^item> \<open>Experiments\<close>, \<open>ExperimentFacts\<close> (\<open>experiments/\<close>): online and batch learning and the approximation
    test; a TD agent in an experiment sees exactly the environment's transitions.
  \<^item> \<open>TreeSearch\<close>, \<open>TreeFacts\<close> (\<open>policies/mcts\<close>): Monte-Carlo tree search; it always answers, and what
    the value of a child leaves out.
  \<^item> \<open>Parser\<close>, \<open>ParserFacts\<close> (\<open>parser\<close>), \<open>ConfigTree\<close>, \<open>ConfigFacts\<close>, \<open>Configuring\<close>, \<open>ConfigRuns\<close>, \<open>ConfigFiles\<close>,
    \<open>ConfigFileFacts\<close> (\<open>configurable\<close>): expressions, the tree of configurators, instantiation, reset and files; where
    paths lead, what survives an expression, that each object is configured once and reached by a reset.

  \<^bold>\<open>Interfaces.\<close> \<open>bounded_history\<close> (kept by the ring buffer and the replay memory), \<open>saturating\<close> (both
  projection types), \<open>eligibility_trace\<close> (both traces), \<open>discretizer\<close>, \<open>flat_discretizer\<close> and
  \<open>searchable\<close> (the grids; used by the samplers that move on them), \<open>learner\<close> and \<open>td_learner\<close> (the
  linear representation; used by the predictors), \<open>typed_world\<close> (the worlds; used by the environment),
  \<open>playable\<close> (an experiment whose trials return), \<open>value_table\<close> (a representation with one entry per state). Each is interpreted on the model's definitions.

  \<^bold>\<open>Not modelled.\<close> The addons and externals (bindings to other libraries and simulators) and their
  environments; the YAML library, the registry of classes and the standard library's number formats, which are parameters
  of the configuration theories; importers, exporters, visualizations, remote procedure calls and deployers,
  which are input and output; threads, but for those of the multi-agent environment, so that locks matter only where
  one thread blocks itself (batches of a representation) and replay, planning and solving are synchronous;
  conversions of doubles beyond the range of \<open>int\<close> (sizes of projectors), which are undefined in the code; the
  remaining predictors, representations, environments, mappings, optimizers and experiments, which the
  manifest lists.
\<close>

end
